(* ===== verification/Prelude.thy ===== *)
theory Prelude imports
  Main
  "HOL-Library.Word"
  "HOL-Library.Monad_Syntax"
begin

text \<open>
  Shared vocabulary of the development: the machine integer types of the C code, the failure
  monad, the memory primitives of the C library that several components use (\<open>memcmp\<close>,
  \<open>memmove\<close> on arrays, little-endian object representations), and the generic facts about
  lists and options that carry the component proofs.

  A C function that may abort (a failing \<open>zassert\<close>, a dereferenced \<open>NULL\<close>) or not return is
  a function into \<open>option\<close>: \<open>None\<close> is "the process does not come back from this call".  A pointer
  result is itself an \<open>option\<close>, so that dereferencing a pointer \<open>p\<close> is the monadic step
  \<open>x \<leftarrow> p\<close>.
\<close>

unbundle bit_operations_syntax

type_synonym u8 = "8 word"
type_synonym u16 = "16 word"
type_synonym u32 = "32 word"
type_synonym u64 = "64 word"

named_theorems cell_simps \<open>reads and writes of the storage layer\<close>
named_theorems frame_simps \<open>which parts of the state an operation leaves alone\<close>
named_theorems op_defs \<open>definitions of the operations of a component\<close>

section \<open>Assertions\<close>

text \<open>\<open>zassert\<close> of include/common.h prints and calls \<open>abort\<close>.\<close>

definition zassert :: "bool \<Rightarrow> unit option" where
  "zassert b = (if b then Some () else None)"

lemma zassert_True [simp]: "zassert True = Some ()"
  by (simp add: zassert_def)

lemma zassert_False [simp]: "zassert False = None"
  by (simp add: zassert_def)

lemma zassert_Some [simp]: "zassert b = Some u \<longleftrightarrow> b"
  by (simp add: zassert_def)

lemma bind_zassert [simp]: "(zassert b \<bind> f) = (if b then f () else None)"
  by (simp add: zassert_def)

lemma bind_Some_iff: "(m \<bind> f) = Some y \<longleftrightarrow> (\<exists>x. m = Some x \<and> f x = Some y)"
  by (cases m) auto

lemma bind_SomeE:
  assumes "(m \<bind> f) = Some y"
  obtains x where "m = Some x" "f x = Some y"
  using assms by (cases m) auto

section \<open>Memory primitives\<close>

text \<open>\<open>memcmp\<close> on two objects of one size: only the sign of the result is specified.\<close>

fun memcmp :: "u8 list \<Rightarrow> u8 list \<Rightarrow> int" where
  "memcmp (x # xs) (y # ys) = (if x < y then - 1 else if y < x then 1 else memcmp xs ys)"
| "memcmp _ _ = 0"

lemma memcmp_refl [simp]: "memcmp xs xs = 0"
  by (induction xs) auto

lemma memcmp_eq_iff: "length xs = length ys \<Longrightarrow> memcmp xs ys = 0 \<longleftrightarrow> xs = ys"
  by (induction xs ys rule: list_induct2) auto

lemma memcmp_swap: "memcmp ys xs = - memcmp xs ys"
  by (induction xs ys rule: memcmp.induct) auto

lemma memcmp_le_trans:
  assumes "length xs = length ys" "length ys = length zs"
    and "memcmp xs ys \<le> 0" "memcmp ys zs \<le> 0"
  shows "memcmp xs zs \<le> 0"
  using assms
  by (induction xs ys zs rule: list_induct3) (auto split: if_splits)

text \<open>The object representation of an integer on the little-endian host.\<close>

definition le_bytes :: "nat \<Rightarrow> 'a::len word \<Rightarrow> u8 list" where
  "le_bytes n w = map (\<lambda>i. ucast (drop_bit (8 * i) w)) [0..<n]"

lemma length_le_bytes [simp]: "length (le_bytes n w) = n"
  by (simp add: le_bytes_def)

lemma le_bytes_inj:
  fixes v w :: "'a::len word"
  assumes "le_bytes n v = le_bytes n w" and "LENGTH('a) \<le> 8 * n"
  shows "v = w"
proof (rule bit_word_eqI)
  fix k assume k: "k < LENGTH('a)"
  then have i: "k div 8 < n" using assms(2) by auto
  have "le_bytes n v ! (k div 8) = le_bytes n w ! (k div 8)"
    using assms(1) by simp
  then have "(ucast (drop_bit (8 * (k div 8)) v) :: u8) = ucast (drop_bit (8 * (k div 8)) w)"
    using i by (simp add: le_bytes_def)
  then have "bit (ucast (drop_bit (8 * (k div 8)) v) :: u8) (k mod 8)
           = bit (ucast (drop_bit (8 * (k div 8)) w) :: u8) (k mod 8)"
    by simp
  then show "bit v k = bit w k"
    using k by (simp add: bit_simps)
qed

text \<open>
  \<open>memmove(&a[dst], &a[src], n * sizeof(a[0]))\<close> on an array: \<open>n\<close> elements from \<open>src\<close> replace those
  from \<open>dst\<close>.  Both ranges lie inside the array wherever the code is defined.
\<close>

definition memmove :: "nat \<Rightarrow> nat \<Rightarrow> nat \<Rightarrow> 'a list \<Rightarrow> 'a list" where
  "memmove dst src n a = take dst a @ take n (drop src a) @ drop (dst + n) a"

lemma length_memmove [simp]:
  "dst + n \<le> length a \<Longrightarrow> src + n \<le> length a \<Longrightarrow> length (memmove dst src n a) = length a"
  by (simp add: memmove_def)

lemma nth_memmove:
  assumes "dst + n \<le> length a" "src + n \<le> length a" "k < length a"
  shows "memmove dst src n a ! k =
    (if k < dst then a ! k else if k < dst + n then a ! (src + (k - dst)) else a ! k)"
proof -
  have "length (take n (drop src a)) = n" using assms(2) by simp
  then show ?thesis using assms by (auto simp: memmove_def nth_append)
qed

text \<open>
  \<open>tree_zcalloc(num, sizeof(void *), parent)\<close> of src/zmalloc.c adds the 24 bytes of its header to every
  element, so that an array of \<open>num\<close> pointers has room for more than that; \<open>tree_zrealloc\<close> counts the
  header once.
\<close>

definition tree_zcalloc_slots :: "nat \<Rightarrow> nat" where
  "tree_zcalloc_slots num = (num * (8 + 24) - 24) div 8"

lemma tree_zcalloc_slots: "tree_zcalloc_slots num = 4 * num - 3"
  by (simp add: tree_zcalloc_slots_def)

lemma tree_zcalloc_slots_ge [simp]: "num \<le> tree_zcalloc_slots num" "tree_zcalloc_slots num = 0 \<longleftrightarrow> num = 0"
  by (auto simp: tree_zcalloc_slots)

section \<open>Words\<close>

lemma unat_less: "unat (w :: 'a::len word) < 2 ^ LENGTH('a)"
  by (rule unsigned_less)

text \<open>Widening and narrowing back is the identity.\<close>

lemma ucast_back [simp]:
  "LENGTH('a) \<le> LENGTH('b) \<Longrightarrow> ucast (ucast (x :: 'a::len word) :: 'b::len word) = x"
  by (rule bit_word_eqI) (auto simp: bit_simps)

lemma unat_add_one:
  assumes "w + 1 \<noteq> (0 :: 'a::len word)"
  shows "unat (w + 1) = Suc (unat w)"
proof -
  have eq: "unat (w + 1) = Suc (unat w) mod 2 ^ LENGTH('a)"
    by (simp add: unat_word_ariths mod_Suc_eq)
  have "Suc (unat w) \<noteq> 2 ^ LENGTH('a)"
    using assms eq unsigned_eq_0_iff[of "w + 1"] by auto
  then have "Suc (unat w) < 2 ^ LENGTH('a)"
    using Suc_lessI[OF unat_less[of w]] by simp
  then show ?thesis using eq by simp
qed

text \<open>Sums of words that do not wrap around.\<close>

lemma unat_add_no_wrap:
  "unat x + unat y < 2 ^ LENGTH('a) \<Longrightarrow> unat (x + y) = unat x + unat (y :: 'a::len word)"
  by (simp add: unat_word_ariths)

lemma unat_mult_no_wrap:
  "unat x * unat y < 2 ^ LENGTH('a) \<Longrightarrow> unat (x * y) = unat x * unat (y :: 'a::len word)"
  by (simp add: unat_word_ariths)

lemma unat_ucast_widen [simp]:
  assumes "LENGTH('a) \<le> LENGTH('b)"
  shows "unat (ucast (x :: 'a::len word) :: 'b::len word) = unat x"
proof -
  have "unat x < 2 ^ LENGTH('b)"
    using less_le_trans[OF unat_less[of x] power_increasing[OF assms, of "2::nat"]] by simp
  then show ?thesis by (simp add: unsigned_ucast_eq take_bit_nat_eq_self)
qed

lemma add_one_nonzero:
  assumes "Suc (unat w) < 2 ^ LENGTH('a)"
  shows "w + 1 \<noteq> (0 :: 'a::len word)"
proof
  assume "w + 1 = 0"
  then have "unat (w + 1) = 0" by simp
  then show False using assms unat_add_no_wrap[of w 1] by simp
qed

lemma word_and_masks:
  "(x :: 'a::len word) AND 0xf = take_bit 4 x" "x AND 0x3f = take_bit 6 x"
  "x AND 0xff = take_bit 8 x" "x AND 0xfff = take_bit 12 x"
  "x AND 0xffff = take_bit 16 x" "x AND 0xffffffff = take_bit 32 x"
  "x AND 0xfffffffffffffff = take_bit 60 x"
  by (simp_all add: take_bit_eq_mask mask_eq_exp_minus_1)

section \<open>Lists\<close>

lemma sorted_wrt_nth_less:
  "sorted_wrt P xs \<Longrightarrow> i < j \<Longrightarrow> j < length xs \<Longrightarrow> P (xs ! i) (xs ! j)"
  by (simp add: sorted_wrt_iff_nth_less)

lemma nth_update_cases:
  "k < length xs \<Longrightarrow> xs[i := v] ! k = (if k = i then v else xs ! k)"
  by simp

text \<open>
  The code's binary searches halve an interval \<open>[left, right)\<close>: the midpoint stays inside it, which
  is the termination argument of every one of them.
\<close>

lemma bsearch_mid: "(left::nat) < right \<Longrightarrow> left \<le> (right - left) div 2 + left
    \<and> (right - left) div 2 + left < right"
  by linarith

end
