(* ===== verification/Quid.thy ===== *)
theory Quid imports
  Prelude
begin

text \<open>
  Record keys: src/quid.h and src/quid.c, with the random source of src/arc4random.c and the
  clock read by \<open>gettimeofday\<close>.

  \<open>quid\<close> and \<open>quid_short\<close> are the packed structs (the six bytes of \<open>node\<close> written out, so that a
  key has exactly the 20 bytes \<open>memcmp\<close> compares); \<open>env\<close> holds what the functions read from
  outside the program (the stream of \<open>arc4random\<close> results, the successive clock readings) and the
  static variables of \<open>get_current_time\<close>.  The theory instantiates \<open>linorder\<close> with the order of
  \<open>quidcmp\<close>, which is the order of the keys in every table of the engine, and proves the
  print/parse round trip and what a generated key encodes.
\<close>

section \<open>Identifier structures\<close>

datatype quid = Quid (time_low: u64) (time_mid: u16) (time_hi_and_version: u16)
  (clock_seq_hi_and_reserved: u8) (clock_seq_low: u8)
  (node0: u8) (node1: u8) (node2: u8) (node3: u8) (node4: u8) (node5: u8)

datatype quid_short = QuidShort (snode0: u8) (snode1: u8) (snode2: u8)
  (snode3: u8) (snode4: u8) (snode5: u8)

abbreviation (input) QUID_LENGTH :: nat where "QUID_LENGTH \<equiv> 38"
abbreviation (input) SHORT_QUID_LENGTH :: nat where "SHORT_QUID_LENGTH \<equiv> 14"
abbreviation (input) QUID_VERSION_3 :: u16 where "QUID_VERSION_3 \<equiv> 0xa000"
abbreviation (input) QUID_SIGNATURE :: nat where "QUID_SIGNATURE \<equiv> 0x80"
abbreviation (input) UIDS_PER_TICK :: u16 where "UIDS_PER_TICK \<equiv> 1024"
abbreviation (input) EPOCH_DIFF :: u64 where "EPOCH_DIFF \<equiv> 11644473600"

definition zero_quid :: quid where
  "zero_quid = Quid 0 0 0 0 0 0 0 0 0 0 0"

section \<open>Comparison\<close>

text \<open>The bytes of the packed struct, integers least significant byte first.\<close>

definition quid_bytes :: "quid \<Rightarrow> u8 list" where
  "quid_bytes q = le_bytes 8 (time_low q) @ le_bytes 2 (time_mid q)
     @ le_bytes 2 (time_hi_and_version q)
     @ [clock_seq_hi_and_reserved q, clock_seq_low q,
        node0 q, node1 q, node2 q, node3 q, node4 q, node5 q]"

definition quid_short_bytes :: "quid_short \<Rightarrow> u8 list" where
  "quid_short_bytes u = [snode0 u, snode1 u, snode2 u, snode3 u, snode4 u, snode5 u]"

definition quidcmp :: "quid \<Rightarrow> quid \<Rightarrow> int" where
  "quidcmp a b = memcmp (quid_bytes a) (quid_bytes b)"

definition quid_shortcmp :: "quid_short \<Rightarrow> quid_short \<Rightarrow> int" where
  "quid_shortcmp a b = memcmp (quid_short_bytes a) (quid_short_bytes b)"

lemma length_quid_bytes [simp]: "length (quid_bytes q) = 20"
  by (simp add: quid_bytes_def)

lemma quid_bytes_inj: "quid_bytes a = quid_bytes b \<Longrightarrow> a = b"
  unfolding quid_bytes_def
  by (cases a; cases b) (auto dest: le_bytes_inj)

lemma quidcmp_eq_0 [simp]: "quidcmp a b = 0 \<longleftrightarrow> a = b"
  by (auto simp: quidcmp_def memcmp_eq_iff dest: quid_bytes_inj)

lemma quidcmp_swap: "quidcmp b a = - quidcmp a b"
  unfolding quidcmp_def by (rule memcmp_swap)

lemma quid_shortcmp_eq_0 [simp]: "quid_shortcmp a b = 0 \<longleftrightarrow> a = b"
  by (cases a; cases b) (auto simp: quid_shortcmp_def memcmp_eq_iff quid_short_bytes_def)

instantiation quid :: linorder
begin

definition less_eq_quid :: "quid \<Rightarrow> quid \<Rightarrow> bool" where
  "less_eq_quid a b \<longleftrightarrow> quidcmp a b \<le> 0"

definition less_quid :: "quid \<Rightarrow> quid \<Rightarrow> bool" where
  "less_quid a b \<longleftrightarrow> quidcmp a b < 0"

instance
proof
  fix x y z :: quid
  show "(x < y) = (x \<le> y \<and> \<not> y \<le> x)"
    unfolding less_quid_def less_eq_quid_def using quidcmp_swap[of x y] by auto
  show "x \<le> x" by (simp add: less_eq_quid_def quidcmp_def)
  show "x \<le> y \<Longrightarrow> y \<le> z \<Longrightarrow> x \<le> z"
    unfolding less_eq_quid_def quidcmp_def by (rule memcmp_le_trans[of _ "quid_bytes y"]) simp_all
  show "x \<le> y \<Longrightarrow> y \<le> x \<Longrightarrow> x = y"
    unfolding less_eq_quid_def using quidcmp_swap[of x y] by (simp flip: quidcmp_eq_0)
  show "x \<le> y \<or> y \<le> x"
    unfolding less_eq_quid_def using quidcmp_swap[of x y] by auto
qed

end

lemma quidcmp_less [simp]: "quidcmp a b < 0 \<longleftrightarrow> a < b"
  by (simp add: less_quid_def)

lemma quidcmp_greater [simp]: "0 < quidcmp a b \<longleftrightarrow> b < a"
  unfolding less_quid_def using quidcmp_swap[of a b] by linarith

section \<open>The environment: random numbers and time\<close>

record env =
  rnd_stream :: "nat \<Rightarrow> u32"
  rnd_pos :: nat
  clock :: "nat \<Rightarrow> u64 \<times> u64"
  clock_pos :: nat
  tick_inited :: bool
  time_last :: u64
  ids_this_tick :: u16

definition arc4random :: "'z env_scheme \<Rightarrow> u32 \<times> 'z env_scheme" where
  "arc4random e = (rnd_stream e (rnd_pos e), e\<lparr>rnd_pos := Suc (rnd_pos e)\<rparr>)"

text \<open>A clock reading is the pair \<open>(tv_sec, tv_usec)\<close> that \<open>gettimeofday\<close> stores.\<close>

definition gettimeofday :: "'z env_scheme \<Rightarrow> (u64 \<times> u64) \<times> 'z env_scheme" where
  "gettimeofday e = (clock e (clock_pos e), e\<lparr>clock_pos := Suc (clock_pos e)\<rparr>)"

definition get_system_time :: "'z env_scheme \<Rightarrow> u64 \<times> 'z env_scheme" where
  "get_system_time e =
     (let ((sec, usec), e) = gettimeofday e
      in ((EPOCH_DIFF + sec) * 10000000 + usec * 10, e))"

text \<open>
  The \<open>for (;;)\<close> loop of \<open>get_current_time\<close>: it leaves when the clock has moved on, or while fewer
  than \<open>UIDS_PER_TICK\<close> identifiers were handed out for the current reading.
\<close>

partial_function (option) tick_loop :: "'z env_scheme \<Rightarrow> (u64 \<times> 'z env_scheme) option" where
  "tick_loop e =
     (let (now, e1) = get_system_time e
      in if time_last e1 \<noteq> now then Some (now, e1\<lparr>ids_this_tick := 0, time_last := now\<rparr>)
         else if ids_this_tick e1 < UIDS_PER_TICK
         then Some (now, e1\<lparr>ids_this_tick := ids_this_tick e1 + 1\<rparr>)
         else tick_loop e1)"

definition get_current_time :: "'z env_scheme \<Rightarrow> (u64 \<times> 'z env_scheme) option" where
  "get_current_time e =
     (let e = (if tick_inited e then e
               else (snd (get_system_time e))\<lparr>ids_this_tick := UIDS_PER_TICK, tick_inited := True\<rparr>)
      in do { (now, e) \<leftarrow> tick_loop e; Some (now + ucast (ids_this_tick e), e) })"

definition format_quid :: "u16 \<Rightarrow> u64 \<Rightarrow> 'z env_scheme \<Rightarrow> quid \<times> 'z env_scheme" where
  "format_quid clock_seq timestamp e =
     (let (r0, e) = arc4random e; (r1, e) = arc4random e; (r2, e) = arc4random e;
          (r3, e) = arc4random e; (r4, e) = arc4random e; (r5, e) = arc4random e
      in (Quid (timestamp AND 0xffffffff)
               (ucast (drop_bit 32 timestamp AND 0xffff))
               (((ucast (drop_bit 48 timestamp AND 0xfff) :: u16) XOR 0x80) OR QUID_VERSION_3)
               (ucast (drop_bit 8 (clock_seq AND 0x3f00)) OR 0x80)
               (ucast (clock_seq AND 0xff))
               (ucast r0) (ucast r1) (ucast r2) (ucast r3)
               (ucast (r4 AND 0xf0)) (ucast (r5 AND 0xff)), e))"

definition quid_create :: "'z env_scheme \<Rightarrow> (quid \<times> 'z env_scheme) option" where
  "quid_create e = do {
     (timestamp, e) \<leftarrow> get_current_time e;
     let (clockseq, e) = arc4random e;
     Some (format_quid (ucast clockseq) timestamp e) }"

definition quid_short_create :: "'z env_scheme \<Rightarrow> quid_short \<times> 'z env_scheme" where
  "quid_short_create e =
     (let (r0, e) = arc4random e; (r1, e) = arc4random e; (r2, e) = arc4random e;
          (r3, e) = arc4random e; (r4, e) = arc4random e; (r5, e) = arc4random e
      in (QuidShort (ucast r0) (ucast r1) (ucast r2) (ucast r3)
            (ucast (r4 AND 0xf0)) (ucast (r5 AND 0xff)), e))"

text \<open>The timestamp \<open>quid_decode\<close> reassembles through its union.\<close>

definition quid_timestamp :: "quid \<Rightarrow> u64" where
  "quid_timestamp q =
     (ucast (ucast (time_low q) :: u32))
       OR push_bit 32 (ucast (time_mid q))
       OR push_bit 48 (ucast ((time_hi_and_version q - QUID_VERSION_3) XOR 0x80))"

definition quid_decode_ts :: "quid \<Rightarrow> u64" where
  "quid_decode_ts q = quid_timestamp q div 10000000 - EPOCH_DIFF"

text \<open>The three validity checks of \<open>quid_decode\<close>, before it builds its answer.\<close>

definition quid_decode_valid :: "quid \<Rightarrow> bool" where
  "quid_decode_valid q \<longleftrightarrow>
     \<not> (quid_decode_ts q < 1000000000 \<or> quid_decode_ts q > 2000000000)
     \<and> time_hi_and_version q AND QUID_VERSION_3 \<noteq> 0
     \<and> clock_seq_hi_and_reserved q AND 0x80 \<noteq> 0"

section \<open>Text form\<close>

definition isspace :: "char \<Rightarrow> bool" where
  "isspace c \<longleftrightarrow> c = CHR '' '' \<or> (9 \<le> (of_char c :: nat) \<and> (of_char c :: nat) \<le> 13)"

definition hex_digit :: "nat \<Rightarrow> char" where
  "hex_digit d = ''0123456789abcdef'' ! d"

text \<open>\<open>%.kx\<close> of a value below \<open>16 ^ k\<close>: exactly \<open>k\<close> lower case digits.\<close>

fun hex_pad :: "nat \<Rightarrow> nat \<Rightarrow> string" where
  "hex_pad 0 n = []"
| "hex_pad (Suc k) n = hex_pad k (n div 16) @ [hex_digit (n mod 16)]"

definition quidtostr :: "quid \<Rightarrow> string" where
  "quidtostr u = ''{'' @ hex_pad 8 (unat (ucast (time_low u) :: u32)) @ ''-''
     @ hex_pad 4 (unat (time_mid u)) @ ''-''
     @ hex_pad 4 (unat (time_hi_and_version u)) @ ''-''
     @ hex_pad 2 (unat (clock_seq_hi_and_reserved u))
     @ hex_pad 2 (unat (clock_seq_low u)) @ ''-''
     @ hex_pad 2 (unat (node0 u)) @ hex_pad 2 (unat (node1 u)) @ hex_pad 2 (unat (node2 u))
     @ hex_pad 2 (unat (node3 u)) @ hex_pad 2 (unat (node4 u)) @ hex_pad 2 (unat (node5 u))
     @ ''}''"

definition quid_shorttostr :: "quid_short \<Rightarrow> string" where
  "quid_shorttostr u = ''{'' @ hex_pad 2 (unat (snode0 u)) @ hex_pad 2 (unat (snode1 u))
     @ hex_pad 2 (unat (snode2 u)) @ hex_pad 2 (unat (snode3 u))
     @ hex_pad 2 (unat (snode4 u)) @ hex_pad 2 (unat (snode5 u)) @ ''}''"

text \<open>
  The conversion \<open>%wx\<close> of \<open>sscanf\<close>: white space is skipped, then at most \<open>w\<close> characters of an
  optional sign, an optional \<open>0x\<close> and hexadecimal digits are taken; no digit is a matching failure.
\<close>

definition hex_value :: "char \<Rightarrow> nat option" where
  "hex_value c = (let n = of_char c in
     if 48 \<le> n \<and> n \<le> 57 then Some (n - 48)
     else if 97 \<le> n \<and> n \<le> 102 then Some (n - 87)
     else if 65 \<le> n \<and> n \<le> 70 then Some (n - 55) else None)"

fun take_hex :: "nat \<Rightarrow> string \<Rightarrow> nat list \<times> string" where
  "take_hex 0 s = ([], s)"
| "take_hex (Suc w) [] = ([], [])"
| "take_hex (Suc w) (c # s) = (case hex_value c of
     None \<Rightarrow> ([], c # s)
   | Some d \<Rightarrow> (let (ds, r) = take_hex w s in (d # ds, r)))"

definition digits_value :: "nat list \<Rightarrow> nat" where
  "digits_value ds = foldl (\<lambda>v d. v * 16 + d) 0 ds"

definition scan_sign :: "nat \<Rightarrow> string \<Rightarrow> bool \<times> nat \<times> string" where
  "scan_sign w s = (case s of
     [] \<Rightarrow> (False, w, s)
   | c # r \<Rightarrow> if 0 < w \<and> c = CHR ''-'' then (True, w - 1, r)
             else if 0 < w \<and> c = CHR ''+'' then (False, w - 1, r) else (False, w, s))"

definition scan_prefix :: "nat \<Rightarrow> string \<Rightarrow> nat \<times> string" where
  "scan_prefix w s = (case s of
     c # x # r \<Rightarrow> if 2 \<le> w \<and> c = CHR ''0'' \<and> (x = CHR ''x'' \<or> x = CHR ''X'')
                   then (w - 2, r) else (w, s)
   | _ \<Rightarrow> (w, s))"

definition scan_hex :: "nat \<Rightarrow> string \<Rightarrow> (int \<times> string) option" where
  "scan_hex w s =
     (let (neg, w, s) = scan_sign w (dropWhile isspace s); (w, s) = scan_prefix w s;
          (ds, r) = take_hex w s; v = int (digits_value ds)
      in if ds = [] then None else Some (if neg then - v else v, r))"

datatype scan_item = Lit char | Fld nat "int \<Rightarrow> quid \<Rightarrow> quid"

fun sscanf_quid :: "scan_item list \<Rightarrow> string \<Rightarrow> quid \<Rightarrow> quid" where
  "sscanf_quid [] s u = u"
| "sscanf_quid (Lit c # fs) [] u = u"
| "sscanf_quid (Lit c # fs) (x # s) u = (if x = c then sscanf_quid fs s u else u)"
| "sscanf_quid (Fld w put # fs) s u = (case scan_hex w s of
     None \<Rightarrow> u
   | Some (v, r) \<Rightarrow> sscanf_quid fs r (put v u))"

text \<open>
  The stores of the conversions.  \<open>%2hx\<close> stores an \<open>unsigned short\<close> and \<open>%2x\<close> an \<open>unsigned int\<close>
  through pointers to single bytes of the struct, so each also overwrites the bytes behind it;
  the stores through \<open>&node[3]\<close>, \<open>&node[4]\<close> and \<open>&node[5]\<close> run past the end of the struct, and what lies
  there is outside this model.
\<close>

abbreviation byte_of :: "nat \<Rightarrow> int \<Rightarrow> u8" where
  "byte_of i v \<equiv> ucast (drop_bit (8 * i) (of_int v :: u32))"

definition put_time_low :: "int \<Rightarrow> quid \<Rightarrow> quid" where
  "put_time_low v u = (case u of Quid t_l t_m t_h c_h c_l n0 n1 n2 n3 n4 n5 \<Rightarrow>
     Quid (of_int v) t_m t_h c_h c_l n0 n1 n2 n3 n4 n5)"

definition put_time_mid :: "int \<Rightarrow> quid \<Rightarrow> quid" where
  "put_time_mid v u = (case u of Quid t_l t_m t_h c_h c_l n0 n1 n2 n3 n4 n5 \<Rightarrow>
     Quid t_l (of_int v) t_h c_h c_l n0 n1 n2 n3 n4 n5)"

definition put_time_hi :: "int \<Rightarrow> quid \<Rightarrow> quid" where
  "put_time_hi v u = (case u of Quid t_l t_m t_h c_h c_l n0 n1 n2 n3 n4 n5 \<Rightarrow>
     Quid t_l t_m (of_int v) c_h c_l n0 n1 n2 n3 n4 n5)"

definition put_clock_hi :: "int \<Rightarrow> quid \<Rightarrow> quid" where
  "put_clock_hi v u = (case u of Quid t_l t_m t_h c_h c_l n0 n1 n2 n3 n4 n5 \<Rightarrow>
     Quid t_l t_m t_h (byte_of 0 v) (byte_of 1 v) n0 n1 n2 n3 n4 n5)"

definition put_clock_low :: "int \<Rightarrow> quid \<Rightarrow> quid" where
  "put_clock_low v u = (case u of Quid t_l t_m t_h c_h c_l n0 n1 n2 n3 n4 n5 \<Rightarrow>
     Quid t_l t_m t_h c_h (byte_of 0 v) (byte_of 1 v) n1 n2 n3 n4 n5)"

definition put_node :: "nat \<Rightarrow> int \<Rightarrow> quid \<Rightarrow> quid" where
  "put_node k v u = (case u of Quid t_l t_m t_h c_h c_l n0 n1 n2 n3 n4 n5 \<Rightarrow>
     (let st = (\<lambda>i old. if k \<le> i \<and> i < k + 4 then byte_of (i - k) v else old)
      in Quid t_l t_m t_h c_h c_l (st 0 n0) (st 1 n1) (st 2 n2) (st 3 n3) (st 4 n4) (st 5 n5)))"

definition quid_fields :: "scan_item list" where
  "quid_fields = [Fld 8 put_time_low, Lit CHR ''-'', Fld 4 put_time_mid, Lit CHR ''-'',
     Fld 4 put_time_hi, Lit CHR ''-'', Fld 2 put_clock_hi, Fld 2 put_clock_low, Lit CHR ''-'',
     Fld 2 (put_node 0), Fld 2 (put_node 1), Fld 2 (put_node 2),
     Fld 2 (put_node 3), Fld 2 (put_node 4), Fld 2 (put_node 5)]"

definition strtoquid :: "string \<Rightarrow> quid \<Rightarrow> quid" where
  "strtoquid s u =
     (let ssz = length s
      in if ssz = QUID_LENGTH then sscanf_quid (Lit CHR ''{'' # quid_fields @ [Lit CHR ''}'']) s u
         else if ssz = QUID_LENGTH - 2 then sscanf_quid quid_fields s u
         else u)"

text \<open>The loop over \<open>strchr(pch + 1, '-')\<close>: position and number of the hyphens seen.\<close>

fun hyphen_loop :: "nat list \<Rightarrow> nat \<Rightarrow> string \<Rightarrow> nat \<Rightarrow> nat option" where
  "hyphen_loop allowed pos [] nhyp = Some nhyp"
| "hyphen_loop allowed pos (c # s) nhyp =
     (if c = CHR ''-''
      then if pos \<in> set allowed then hyphen_loop allowed (Suc pos) s (Suc nhyp) else None
      else hyphen_loop allowed (Suc pos) s nhyp)"

definition strquid_format :: "string \<Rightarrow> nat" where
  "strquid_format s =
     (let ssz = length s
      in if ssz = QUID_LENGTH then
           if s ! 0 \<noteq> CHR ''{'' \<or> s ! (QUID_LENGTH - 1) \<noteq> CHR ''}'' then 0
           else if \<not> set s \<subseteq> set ''{}-0123456789abcdefABCDEF'' then 0
           else if hyphen_loop [9, 14, 19, 24] 0 s 0 \<noteq> Some 4 then 0 else 1
         else if ssz = QUID_LENGTH - 2 then
           if \<not> set s \<subseteq> set ''-0123456789abcdefABCDEF'' then 0
           else if hyphen_loop [8, 13, 18, 23] 0 s 0 \<noteq> Some 4 then 0 else 2
         else 0)"

section \<open>The text form is faithful\<close>

fun hex_digits :: "nat \<Rightarrow> nat \<Rightarrow> nat list" where
  "hex_digits 0 n = []"
| "hex_digits (Suc k) n = hex_digits k (n div 16) @ [n mod 16]"

lemma hex_pad_digits: "hex_pad k n = map hex_digit (hex_digits k n)"
  by (induction k n rule: hex_pad.induct) auto

lemma length_hex_digits [simp]: "length (hex_digits k n) = k"
  by (induction k n rule: hex_pad.induct) auto

lemma length_hex_pad [simp]: "length (hex_pad k n) = k"
  by (simp add: hex_pad_digits)

lemma hex_digits_lt: "d \<in> set (hex_digits k n) \<Longrightarrow> d < 16"
  by (induction k n rule: hex_pad.induct) auto

lemma nat_lt_16_cases:
  assumes "(d::nat) < 16"
  obtains "d = 0" | "d = 1" | "d = 2" | "d = 3" | "d = 4" | "d = 5" | "d = 6" | "d = 7"
    | "d = 8" | "d = 9" | "d = 10" | "d = 11" | "d = 12" | "d = 13" | "d = 14" | "d = 15"
  using assms by (auto simp: less_Suc_eq numeral_eq_Suc)

lemma hex_digit_facts:
  assumes "d < 16"
  shows "hex_value (hex_digit d) = Some d" "\<not> isspace (hex_digit d)"
    "hex_digit d \<noteq> CHR ''-''" "hex_digit d \<noteq> CHR ''+''" "hex_digit d \<noteq> CHR ''x''"
    "hex_digit d \<noteq> CHR ''X''" "hex_digit d \<in> set ''0123456789abcdef''"
  using assms by (cases rule: nat_lt_16_cases; simp add: hex_digit_def hex_value_def isspace_def)+

lemma digits_value_snoc: "digits_value (ds @ [d]) = digits_value ds * 16 + d"
  by (simp add: digits_value_def)

lemma digits_value_hex_digits: "n < 16 ^ k \<Longrightarrow> digits_value (hex_digits k n) = n"
proof (induction k n rule: hex_pad.induct)
  case (2 k n)
  then have "n div 16 < 16 ^ k" by (simp add: less_mult_imp_div_less mult.commute)
  then show ?case using 2 by (simp add: digits_value_snoc)
qed (simp add: digits_value_def)

lemma take_hex_digits:
  "\<forall>d\<in>set ds. d < 16 \<Longrightarrow> take_hex (length ds) (map hex_digit ds @ r) = (ds, r)"
  by (induction ds) (simp_all add: hex_digit_facts)

text \<open>What \<open>%.wx\<close> printed, \<open>%wx\<close> reads back, leaving the rest of the input.\<close>

lemma scan_hex_pad:
  assumes "1 < w" "n < 16 ^ w"
  shows "scan_hex w (hex_pad w n @ r) = Some (int n, r)"
proof -
  let ?ds = "hex_digits w n"
  obtain a b ds where ds: "?ds = a # b # ds"
    using assms(1) length_hex_digits[of w n]
    by (metis One_nat_def Suc_length_conv Suc_less_eq2 less_imp_Suc_add)
  have ab: "a < 16" "b < 16" using hex_digits_lt[of _ w n] ds by auto
  have th: "take_hex w (map hex_digit ?ds @ r) = (?ds, r)"
    using take_hex_digits[of ?ds r] hex_digits_lt[of _ w n] by simp
  have "dropWhile isspace (map hex_digit ?ds @ r) = map hex_digit ?ds @ r"
    using hex_digit_facts(2)[OF ab(1)] by (simp add: ds)
  moreover have "scan_sign w (map hex_digit ?ds @ r) = (False, w, map hex_digit ?ds @ r)"
    using hex_digit_facts(3,4)[OF ab(1)] by (simp add: ds scan_sign_def)
  moreover have "scan_prefix w (map hex_digit ?ds @ r) = (w, map hex_digit ?ds @ r)"
    using hex_digit_facts(5,6)[OF ab(2)] by (simp add: ds scan_prefix_def)
  ultimately show ?thesis
    using th digits_value_hex_digits[OF assms(2)] ds
    by (simp add: scan_hex_def hex_pad_digits)
qed

lemma byte_of_0 [simp]: "byte_of 0 (uint (b::u8)) = b"
  by (rule bit_word_eqI) (simp add: bit_simps)

lemma byte_of_high [simp]: "0 < k \<Longrightarrow> k < 4 \<Longrightarrow> byte_of k (uint (b::u8)) = 0"
  by (rule bit_word_eqI) (auto simp add: bit_simps dest: bit_imp_le_length)

lemma unat_u8_lt: "unat (w :: u8) < 16 ^ 2"
  using unat_less[of w] by simp

lemma unat_u16_lt: "unat (w :: u16) < 16 ^ 4"
  using unat_less[of w] by simp

lemma unat_u32_lt: "unat (w :: u32) < 16 ^ 8"
  using unat_less[of w] by simp

lemma scan_fields:
  "scan_hex 8 (hex_pad 8 (unat (a :: u32)) @ r) = Some (uint a, r)"
  "scan_hex 4 (hex_pad 4 (unat (b :: u16)) @ r) = Some (uint b, r)"
  "scan_hex 2 (hex_pad 2 (unat (c :: u8)) @ r) = Some (uint c, r)"
  using scan_hex_pad[OF _ unat_u32_lt, of a r] scan_hex_pad[OF _ unat_u16_lt, of b r]
    scan_hex_pad[OF _ unat_u8_lt, of c r] by simp_all

lemma put_nodes:
  "put_node 5 (uint n5) (put_node 4 (uint n4) (put_node 3 (uint n3)
    (put_node 2 (uint n2) (put_node 1 (uint n1) (put_node 0 (uint n0)
      (Quid t_l t_m t_h c_h c_l m0 m1 m2 m3 m4 m5))))))
   = Quid t_l t_m t_h c_h c_l n0 n1 n2 n3 n4 n5"
  unfolding put_node_def by (simp del: of_int_of_nat_eq)

text \<open>Reading the eleven printed fields stores every one of them, whatever follows.\<close>

lemma sscanf_fields:
  "sscanf_quid (quid_fields @ fs)
     (hex_pad 8 (unat (a :: u32)) @ ''-'' @ hex_pad 4 (unat b) @ ''-''
      @ hex_pad 4 (unat c) @ ''-'' @ hex_pad 2 (unat d) @ hex_pad 2 (unat e)
      @ ''-'' @ hex_pad 2 (unat n0) @ hex_pad 2 (unat n1) @ hex_pad 2 (unat n2)
      @ hex_pad 2 (unat n3) @ hex_pad 2 (unat n4) @ hex_pad 2 (unat n5) @ r) u
   = sscanf_quid fs r (Quid (ucast a) b c d e n0 n1 n2 n3 n4 n5)"
  by (cases u) (simp add: quid_fields_def scan_fields put_time_low_def put_time_mid_def
    put_time_hi_def put_clock_hi_def put_clock_low_def put_nodes[unfolded One_nat_def])

lemma time_low_trunc: "(ucast (ucast (x :: u64) :: u32) :: u64) = x AND 0xffffffff"
proof -
  have "x AND 0xffffffff = take_bit 32 x" by (simp add: take_bit_eq_mask mask_eq_exp_minus_1)
  then show ?thesis by (auto intro: bit_word_eqI simp: bit_simps)
qed

lemma strtoquid_quidtostr:
  "strtoquid (quidtostr q) u = Quid (time_low q AND 0xffffffff) (time_mid q)
     (time_hi_and_version q) (clock_seq_hi_and_reserved q) (clock_seq_low q)
     (node0 q) (node1 q) (node2 q) (node3 q) (node4 q) (node5 q)"
proof -
  have "length (quidtostr q) = QUID_LENGTH" by (simp add: quidtostr_def)
  then show ?thesis
    using sscanf_fields[where fs="[Lit CHR ''}'']" and r="''}''"]
    by (simp add: strtoquid_def quidtostr_def time_low_trunc)
qed

lemma bare_quid:
  "strtoquid (take 36 (drop 1 (quidtostr q))) u = strtoquid (quidtostr q) u"
proof -
  have "length (quidtostr q) = QUID_LENGTH" by (simp add: quidtostr_def)
  then show ?thesis
    using sscanf_fields[where fs="[]" and r="[]"]
    by (simp add: strtoquid_quidtostr, simp add: strtoquid_def quidtostr_def time_low_trunc)
qed

lemma hex_pad_set: "set (hex_pad k n) \<subseteq> set ''0123456789abcdef''"
  using hex_digit_facts(7) hex_digits_lt by (fastforce simp: hex_pad_digits)

lemma hyphen_loop_skip:
  "CHR ''-'' \<notin> set xs \<Longrightarrow> hyphen_loop al pos (xs @ s) n = hyphen_loop al (pos + length xs) s n"
  by (induction xs arbitrary: pos) auto

lemma hyphen_hex_pad [simp]:
  "hyphen_loop al pos (hex_pad k m @ s) n = hyphen_loop al (pos + k) s n"
  using hex_pad_set[of k m] by (subst hyphen_loop_skip) auto

lemma strquid_format_quidtostr: "strquid_format (quidtostr q) = 1"
proof -
  have "length (quidtostr q) = QUID_LENGTH" by (simp add: quidtostr_def)
  moreover have "quidtostr q ! 0 = CHR ''{''" by (simp add: quidtostr_def)
  moreover have "quidtostr q ! 37 = CHR ''}''" by (simp add: quidtostr_def nth_append)
  moreover have "set (quidtostr q) \<subseteq> set ''{}-0123456789abcdefABCDEF''"
    unfolding quidtostr_def set_append Un_subset_iff
    by (intro conjI subset_trans[OF hex_pad_set]) simp_all
  moreover have "hyphen_loop [9, 14, 19, 24] 0 (quidtostr q) 0 = Some 4"
    by (simp add: quidtostr_def)
  ultimately show ?thesis by (simp add: strquid_format_def)
qed

section \<open>What a generated key encodes\<close>

definition system_time :: "u64 \<times> u64 \<Rightarrow> u64" where
  "system_time tv = (EPOCH_DIFF + fst tv) * 10000000 + snd tv * 10"

lemma get_system_time_eq:
  "get_system_time e = (system_time (clock e (clock_pos e)), e\<lparr>clock_pos := Suc (clock_pos e)\<rparr>)"
  by (simp add: get_system_time_def gettimeofday_def system_time_def split_beta)

lemma high_disjoint:
  "(take_bit 12 (x :: u16) OR QUID_VERSION_3) - QUID_VERSION_3 = take_bit 12 x"
proof -
  have "take_bit 12 x AND QUID_VERSION_3 = x AND take_bit 12 QUID_VERSION_3"
    by (rule bit_word_eqI) (auto simp only: bit_simps)
  also have "\<dots> = 0" by simp
  finally have "take_bit 12 x AND QUID_VERSION_3 = 0" .
  then have "take_bit 12 x OR QUID_VERSION_3 = take_bit 12 x + QUID_VERSION_3"
    by (rule disjunctive_add_eq_or[symmetric])
  then show ?thesis by simp
qed

lemma three_parts:
  fixes ts :: u64
  shows "(ucast (ucast (take_bit 32 ts) :: u32) :: u64)
      OR push_bit 32 (ucast (ucast (take_bit 16 (drop_bit 32 ts)) :: u16))
      OR push_bit 48 (ucast (ucast (take_bit 12 (drop_bit 48 ts)) :: u16)) = take_bit 60 ts"
  by (rule bit_word_eqI) (auto simp: bit_simps)

text \<open>Apart from the top four bits, the timestamp can be read back from a key.\<close>

lemma quid_timestamp_format:
  "quid_timestamp (fst (format_quid cs ts e)) = ts AND 0xfffffffffffffff"
proof -
  define h :: u16 where "h = ucast (take_bit 12 (drop_bit 48 ts))"
  have star: "h XOR 0x80 = take_bit 12 (h XOR 0x80)"
    by (simp add: take_bit_xor) (simp add: h_def unsigned_take_bit_eq)
  have "(take_bit 12 (h XOR 0x80) OR QUID_VERSION_3) - QUID_VERSION_3 = take_bit 12 (h XOR 0x80)"
    by (rule high_disjoint)
  then have "((h XOR 0x80) OR QUID_VERSION_3) - QUID_VERSION_3 = h XOR 0x80"
    by (simp only: star[symmetric])
  then have hi: "(((h XOR 0x80) OR QUID_VERSION_3) - QUID_VERSION_3) XOR 0x80 = h"
    by (simp add: xor.assoc)
  have "quid_timestamp (fst (format_quid cs ts e)) =
      ucast (ucast (take_bit 32 ts) :: u32)
      OR push_bit 32 (ucast (ucast (take_bit 16 (drop_bit 32 ts)) :: u16))
      OR push_bit 48 (ucast h)"
    unfolding quid_timestamp_def format_quid_def split_beta word_and_masks Let_def
      h_def[symmetric] fst_conv quid.sel hi ..
  then show ?thesis by (simp add: three_parts h_def word_and_masks)
qed

text \<open>The loop leaves as soon as a later clock reading differs from the last one used.\<close>

lemma tick_loop_terminates:
  assumes "system_time (clock e k) \<noteq> time_last e" "clock_pos e \<le> k"
  shows "\<exists>r. tick_loop e = Some r"
  using assms
proof (induction "k - clock_pos e" arbitrary: e)
  case 0
  then show ?case by (subst tick_loop.simps) (simp add: get_system_time_eq)
next
  case (Suc n)
  then have "\<exists>r. tick_loop (e\<lparr>clock_pos := Suc (clock_pos e)\<rparr>) = Some r"
    by (intro Suc.hyps) auto
  then show ?case
    by (subst tick_loop.simps) (simp add: get_system_time_eq)
qed

text \<open>A result of the loop is one of the readings, and no more than \<open>UIDS_PER_TICK\<close> keys share it.\<close>

lemma tick_loop_result:
  assumes "tick_loop e = Some r"
  shows "ids_this_tick (snd r) \<le> UIDS_PER_TICK \<and> time_last (snd r) = fst r
    \<and> (\<exists>k\<ge>clock_pos e. fst r = system_time (clock e k) \<and> clock_pos (snd r) = Suc k)
    \<and> clock (snd r) = clock e \<and> rnd_pos (snd r) = rnd_pos e \<and> rnd_stream (snd r) = rnd_stream e
    \<and> tick_inited (snd r) = tick_inited e \<and> env.more (snd r) = env.more e"
proof (induction rule: tick_loop.raw_induct[OF _ assms])
  case (1 f e r)
  have inc: "ids_this_tick e < UIDS_PER_TICK \<Longrightarrow> ids_this_tick e + 1 \<le> UIDS_PER_TICK"
    by (simp add: inc_le)
  show ?case
  proof (cases "time_last e = system_time (clock e (clock_pos e)) \<and> \<not> ids_this_tick e < UIDS_PER_TICK")
    case True
    then have "f (e\<lparr>clock_pos := Suc (clock_pos e)\<rparr>) = Some r"
      using 1(2) by (simp add: get_system_time_eq)
    from 1(1)[OF this] show ?thesis by (auto dest: Suc_leD)
  next
    case False
    then show ?thesis
      using 1(2) inc by (auto simp: get_system_time_eq split: if_splits)
  qed
qed

definition sign_bits :: "quid \<Rightarrow> bool" where
  "sign_bits q \<longleftrightarrow> time_hi_and_version q AND QUID_VERSION_3 \<noteq> 0
     \<and> clock_seq_hi_and_reserved q AND 0x80 \<noteq> 0"

lemma or_and_nonzero: "c \<noteq> 0 \<Longrightarrow> (x OR c) AND (c :: 'a::len word) \<noteq> 0"
  by (simp add: ac_simps)

lemma format_quid_signed:
  "sign_bits (fst (format_quid cs ts e))"
  by (simp add: format_quid_def split_beta sign_bits_def or_and_nonzero)

lemma format_quid_narrow:
  "time_low (fst (format_quid cs ts e)) AND 0xffffffff = time_low (fst (format_quid cs ts e))"
  by (simp add: format_quid_def split_beta ac_simps)


text \<open>
  With a clock that moves on, a key is always produced; it carries the version and signature
  bits, its timestamp (up to bit 60) is a reading plus the number of keys already handed out for
  it, and it survives being printed and parsed.
\<close>

lemma quid_create_correct:
  assumes "clock_pos e < k" "system_time (clock e k) \<noteq> time_last e"
  shows "\<exists>q e' n ids. quid_create e = Some (q, e') \<and> sign_bits q
    \<and> clock_pos e \<le> n \<and> ids \<le> UIDS_PER_TICK
    \<and> quid_timestamp q = (system_time (clock e n) + ucast ids) AND 0xfffffffffffffff
    \<and> (\<forall>u. strtoquid (quidtostr q) u = q)"
proof -
  define e0 where "e0 = (if tick_inited e then e
    else (snd (get_system_time e))\<lparr>ids_this_tick := UIDS_PER_TICK, tick_inited := True\<rparr>)"
  have e0: "clock_pos e \<le> clock_pos e0" "clock_pos e0 \<le> k" "clock e0 = clock e" "time_last e0 = time_last e"
    using assms(1) by (auto simp: e0_def get_system_time_eq)
  have "\<exists>r. tick_loop e0 = Some r"
    using assms(2) e0 by (intro tick_loop_terminates[of _ k]) auto
  then obtain now e1 where t: "tick_loop e0 = Some (now, e1)" by auto
  obtain r e2 where a: "arc4random e1 = (r, e2)" by fastforce
  obtain q e3 where q: "format_quid (ucast r) (now + ucast (ids_this_tick e1)) e2 = (q, e3)"
    by fastforce
  have "get_current_time e = Some (now + ucast (ids_this_tick e1), e1)"
    by (simp add: get_current_time_def t flip: e0_def)
  then have c: "quid_create e = Some (q, e3)"
    by (simp add: quid_create_def a q)
  have fq: "q = fst (format_quid (ucast r) (now + ucast (ids_this_tick e1)) e2)" by (simp add: q)
  obtain n where n: "clock_pos e0 \<le> n" "now = system_time (clock e n)" "ids_this_tick e1 \<le> UIDS_PER_TICK"
    using tick_loop_result[OF t] e0 by auto
  have "sign_bits q" "quid_timestamp q = (system_time (clock e n) + ucast (ids_this_tick e1)) AND 0xfffffffffffffff"
    unfolding fq by (simp_all only: format_quid_signed quid_timestamp_format n(2))
  moreover have "strtoquid (quidtostr q) u = q" for u
    using format_quid_narrow[of "ucast r" "now + ucast (ids_this_tick e1)" e2]
    unfolding fq[symmetric] strtoquid_quidtostr by simp
  ultimately show ?thesis
    using c n(1,3) e0(1) by (meson le_trans)
qed

end
