(* ===== verification/Layout.thy ===== *)
theory Layout imports
  Quid
begin

text \<open>
  The data layout shared by the storage components: the packed structs that the C code keeps in
  page files (struct \<open>_page\<close> of src/pager.c, \<open>_engine_table\<close>, \<open>_blob_info\<close>, the superblocks of
  src/engine.c, \<open>_history_list\<close>, \<open>_alias_list\<close>, \<open>_engine_index_list\<close>, \<open>node_t\<close> and \<open>_root_super\<close> of
  src/btree.c), the control file of src/base.c, and the in-memory \<open>base_t\<close> with its pager and
  engine (src/base.h, src/pager.h, src/engine.h), together with the global error of src/error.c.

  A page file is a map from offsets to typed objects: what one \<open>write\<close> stored at an offset, a
  \<open>read\<close> of the same struct gets back; a read at an offset where no object of that kind was
  written is a failed read.  Fields hold host values, the big-endian encoding of the code
  (\<open>to_be64\<close> and its siblings) being applied on the way out and undone on the way in.  Memory
  requests succeed, and so do reads and writes of objects that are there.
\<close>

section \<open>Configuration\<close>

abbreviation (input) VERSION_MAJOR :: u16 where "VERSION_MAJOR \<equiv> 0"
abbreviation (input) CACHE_SLOTS :: nat where "CACHE_SLOTS \<equiv> 23"
abbreviation (input) DBCACHE_SLOTS :: nat where "DBCACHE_SLOTS \<equiv> 25"
abbreviation (input) DBCACHE_DENSITY :: nat where "DBCACHE_DENSITY \<equiv> 75"
abbreviation (input) DEFAULT_PAGE_SIZE :: u8 where "DEFAULT_PAGE_SIZE \<equiv> 10"
abbreviation (input) MAX_PAGE_SIZE :: u8 where "MAX_PAGE_SIZE \<equiv> 19"
abbreviation (input) TABLE_SIZE :: nat where "TABLE_SIZE \<equiv> 128"
abbreviation (input) PAGE_LIST_SIZE :: nat where "PAGE_LIST_SIZE \<equiv> 10"
abbreviation (input) DEFAULT_PAGE_ALLOC :: nat where "DEFAULT_PAGE_ALLOC \<equiv> 10"
abbreviation (input) HISTORY_LIST_SIZE :: nat where "HISTORY_LIST_SIZE \<equiv> 32"
abbreviation (input) ALIAS_LIST_SIZE :: nat where "ALIAS_LIST_SIZE \<equiv> 128"
abbreviation (input) ALIAS_NAME_LENGTH :: nat where "ALIAS_NAME_LENGTH \<equiv> 48"
abbreviation (input) INDEX_LIST_SIZE :: nat where "INDEX_LIST_SIZE \<equiv> 64"
abbreviation (input) INSTANCE_LENGTH :: nat where "INSTANCE_LENGTH \<equiv> 32"
abbreviation (input) PAGE_MAGIC :: string where "PAGE_MAGIC \<equiv> ''$OYPTTRL$''"
abbreviation (input) BASE_MAGIC :: string where "BASE_MAGIC \<equiv> ''$EOBCTRL$''"

text \<open>Sizes of the packed structs, as \<open>sizeof\<close> computes them.\<close>

abbreviation (input) sizeof_page :: u64 where "sizeof_page \<equiv> 17"
abbreviation (input) sizeof_engine_table :: u64 where "sizeof_engine_table \<equiv> 5122"
abbreviation (input) sizeof_blob_info :: u64 where "sizeof_blob_info \<equiv> 13"
abbreviation (input) sizeof_engine_super :: u64 where "sizeof_engine_super \<equiv> 20"
abbreviation (input) sizeof_engine_dbsuper :: u64 where "sizeof_engine_dbsuper \<equiv> 12"
abbreviation (input) sizeof_history_list :: u64 where "sizeof_history_list \<equiv> 970"
abbreviation (input) sizeof_alias_list :: u64 where "sizeof_alias_list \<equiv> 9738"
abbreviation (input) sizeof_engine_index_list :: u64 where "sizeof_engine_index_list \<equiv> 3914"

section \<open>Enumerations\<close>

datatype exit_status = EXSTAT_ERROR | EXSTAT_INVALID | EXSTAT_CHECKPOINT | EXSTAT_SUCCESS

abbreviation (input) MD_LIFECYCLE_FINITE :: "5 word" where "MD_LIFECYCLE_FINITE \<equiv> 0"
abbreviation (input) MD_LIFECYCLE_INVALID :: "5 word" where "MD_LIFECYCLE_INVALID \<equiv> 1"
abbreviation (input) MD_LIFECYCLE_CORRUPT :: "5 word" where "MD_LIFECYCLE_CORRUPT \<equiv> 2"
abbreviation (input) MD_LIFECYCLE_RECYCLE :: "5 word" where "MD_LIFECYCLE_RECYCLE \<equiv> 3"
abbreviation (input) MD_LIFECYCLE_INACTIVE :: "5 word" where "MD_LIFECYCLE_INACTIVE \<equiv> 4"
abbreviation (input) MD_LIFECYCLE_UNKNOWN :: "5 word" where "MD_LIFECYCLE_UNKNOWN \<equiv> 31"

abbreviation (input) MD_IMPORTANT_NORMAL :: "4 word" where "MD_IMPORTANT_NORMAL \<equiv> 5"

abbreviation (input) MD_TYPE_RECORD :: "3 word" where "MD_TYPE_RECORD \<equiv> 0"
abbreviation (input) MD_TYPE_GROUP :: "3 word" where "MD_TYPE_GROUP \<equiv> 1"
abbreviation (input) MD_TYPE_INDEX :: "3 word" where "MD_TYPE_INDEX \<equiv> 2"
abbreviation (input) MD_TYPE_RAW :: "3 word" where "MD_TYPE_RAW \<equiv> 3"

section \<open>Objects in page files\<close>

record metadata =
  m_lifecycle :: "5 word"
  m_importance :: "4 word"
  m_syslock :: bool
  m_exec :: bool
  m_freeze :: bool
  m_nodata :: bool
  m_alias :: bool
  m_type :: "3 word"

definition zero_meta :: metadata where
  "zero_meta = \<lparr>m_lifecycle = 0, m_importance = 0, m_syslock = False, m_exec = False,
     m_freeze = False, m_nodata = False, m_alias = False, m_type = 0\<rparr>"

record item =
  i_quid :: quid
  i_meta :: metadata
  i_offset :: u64
  i_child :: u64

definition zero_item :: item where
  "zero_item = \<lparr>i_quid = zero_quid, i_meta = zero_meta, i_offset = 0, i_child = 0\<rparr>"

record table =
  t_items :: "item list"
  t_size :: u16

definition zero_table :: table where
  "zero_table = \<lparr>t_items = replicate TABLE_SIZE zero_item, t_size = 0\<rparr>"

record blob_info =
  bl_len :: u32
  bl_next :: u64
  bl_free :: bool

record history_item =
  h_quid :: quid
  h_version :: u16
  h_offset :: u64

record history_list =
  h_items :: "history_item list"
  h_size :: u16
  h_link :: u64

record alias_item =
  a_quid :: quid
  a_len :: u32
  a_hash :: u32
  a_name :: string

record alias_list =
  a_items :: "alias_item list"
  a_size :: u16
  a_link :: u64

record index_item =
  x_index :: quid
  x_group :: quid
  x_offset :: u64
  x_element :: u64
  x_element_len :: u32
  x_type :: u8

record index_list =
  x_items :: "index_item list"
  x_size :: u16
  x_link :: u64

record bitem =
  bt_key :: string
  bt_key_size :: u8
  bt_valset :: u64

record bnode =
  bn_cnt :: nat
  bn_items :: "bitem list"
  bn_ptr :: "int list"

record page_hdr =
  ph_sequence :: u32
  ph_exit :: exit_status
  ph_magic :: string
  ph_version :: u16

datatype cell =
    CPage page_hdr
  | CSuper u32 u64 u64
  | CDbSuper u32 u64
  | CTable table
  | CBlob blob_info string
  | CHist history_list
  | CAlias alias_list
  | CIndexList index_list
  | CName string
  | CRootSuper int int bool
  | CNode bnode

section \<open>The control file\<close>

record page_item =
  pi_key :: quid_short
  pi_free :: bool
  pi_crc :: u64

record page_list =
  pl_items :: "page_item list"
  pl_size :: u16

definition zero_page_list :: page_list where
  "zero_page_list = \<lparr>pl_items = replicate PAGE_LIST_SIZE
     \<lparr>pi_key = QuidShort 0 0 0 0 0 0, pi_free = False, pi_crc = 0\<rparr>, pl_size = 0\<rparr>"

record base_super =
  s_instance_name :: string
  s_instance_key :: quid
  s_magic :: string
  s_lock :: bool
  s_exitstatus :: exit_status
  s_version :: u16
  s_pager_sequence :: u32
  s_pager_offset :: u64
  s_pager_size :: u8
  s_zero :: u64
  s_heap :: u64
  s_alias :: u64
  s_history :: u64
  s_index_list :: u64
  s_zero_size :: u64
  s_zero_free_size :: u64
  s_heap_free_size :: u64
  s_alias_size :: u64
  s_index_list_size :: u64
  s_page_list_count :: u16

record control_file =
  cf_super :: "base_super option"
  cf_lists :: "nat \<Rightarrow> page_list option"

section \<open>In-memory state\<close>

datatype page = Page (p_sequence: u32) (p_key: quid_short) (p_exit: exit_status)

text \<open>
  \<open>base_t\<close> with \<open>pager_t\<close> and \<open>engine_t\<close> inlined (each exists once per base), the files it has open,
  and the static variables of base.c and error.c.  \<open>core_pages\<close> is the array of page pointers with
  its allocated length; a cache slot is the pair of its offset and table, a free-block slot that
  of its length and offset.
\<close>

record base = env +
  instance_name :: string
  instance_key :: quid
  base_lock_flag :: bool
  pager_sequence :: u16
  pager_offset :: u64
  pager_size :: u8
  off_zero :: u64
  off_heap :: u64
  off_alias :: u64
  off_history :: u64
  off_index_list :: u64
  st_zero_size :: u64
  st_zero_free_size :: u64
  st_heap_free_size :: u64
  st_alias_size :: u64
  st_index_list_size :: u64
  page_list_count :: u16
  core_count :: u32
  core_pages :: "page option list"
  e_top :: u64
  e_free_top :: u64
  e_last_block :: u64
  e_lock :: bool
  e_cache :: "(u64 \<times> table) list"
  e_dbcache :: "(u32 \<times> u64) list"
  control :: "control_file option"
  disk :: "quid_short \<Rightarrow> (u64 \<Rightarrow> cell option) option"
  exit_stat :: exit_status
  err :: "(string \<times> string) option"

section \<open>Errors\<close>

definition error_clear :: "base \<Rightarrow> base" where
  "error_clear b = b\<lparr>err := None\<rparr>"

definition iserror :: "base \<Rightarrow> bool" where
  "iserror b \<longleftrightarrow> err b \<noteq> None"

text \<open>\<open>error_throw_fatal\<close> also prints the message to the log.\<close>

definition error_throw :: "string \<Rightarrow> string \<Rightarrow> base \<Rightarrow> base" where
  "error_throw code msg b = b\<lparr>err := Some (code, msg)\<rparr>"

definition error_throw_fatal :: "string \<Rightarrow> string \<Rightarrow> base \<Rightarrow> base" where
  "error_throw_fatal code msg b = b\<lparr>err := Some (code, msg)\<rparr>"

definition get_error_code :: "base \<Rightarrow> string" where
  "get_error_code b = (case err b of None \<Rightarrow> [] | Some (code, _) \<Rightarrow> code)"

abbreviation (input) fail_read :: "base \<Rightarrow> base" where
  "fail_read \<equiv> error_throw_fatal ''a7df40ba3075'' ''Failed to read disk''"

end
