(* ===== verification/Base.thy ===== *)
theory Base imports
  Layout
begin

text \<open>
  The control file: src/base.c.  Its first struct holds the persistent part of \<open>base_t\<close>, the
  structs behind it the lists of page keys.  The theory proves that closing and opening a base
  restores what it held, and how the page list grows.
\<close>

section \<open>Page lists\<close>

definition write_list :: "nat \<Rightarrow> page_list \<Rightarrow> base \<Rightarrow> base" where
  "write_list i l b = (case control b of
     None \<Rightarrow> b
   | Some cf \<Rightarrow> b\<lparr>control := Some (cf\<lparr>cf_lists := (cf_lists cf)(i := Some l)\<rparr>)\<rparr>)"

definition read_list :: "nat \<Rightarrow> base \<Rightarrow> page_list option" where
  "read_list i b = (case control b of None \<Rightarrow> None | Some cf \<Rightarrow> cf_lists cf i)"

fun find_index :: "('a \<Rightarrow> bool) \<Rightarrow> 'a list \<Rightarrow> nat option" where
  "find_index P [] = None"
| "find_index P (x # xs) = (if P x then Some 0 else map_option Suc (find_index P xs))"

text \<open>The entries in use, \<open>item[0]\<close> up to \<open>size\<close>.\<close>

definition used_items :: "page_list \<Rightarrow> page_item list" where
  "used_items l = take (unat (pl_size l)) (pl_items l)"

text \<open>
  \<open>base_list_delete\<close> and \<open>base_list_set_crc_sum\<close> are one loop: the first entry with the key is
  changed and its list written back.
\<close>

fun base_list_modify :: "(page_item \<Rightarrow> page_item) \<Rightarrow> quid_short \<Rightarrow> nat list \<Rightarrow> base \<Rightarrow> base" where
  "base_list_modify f key [] b = b"
| "base_list_modify f key (i # is) b = (case read_list i b of
     None \<Rightarrow> b
   | Some l \<Rightarrow> (case find_index (\<lambda>p. quid_shortcmp (pi_key p) key = 0) (used_items l) of
         Some x \<Rightarrow> write_list i (l\<lparr>pl_items := (pl_items l)[x := f (pl_items l ! x)]\<rparr>) b
       | None \<Rightarrow> base_list_modify f key is b))"

definition base_list_delete :: "quid_short \<Rightarrow> base \<Rightarrow> base" where
  "base_list_delete key b =
     base_list_modify (\<lambda>p. p\<lparr>pi_free := True\<rparr>) key [0..<Suc (unat (page_list_count b))] b"

definition base_list_set_crc_sum :: "quid_short \<Rightarrow> u64 \<Rightarrow> base \<Rightarrow> base" where
  "base_list_set_crc_sum key csum b =
     base_list_modify (\<lambda>p. p\<lparr>pi_crc := csum\<rparr>) key [0..<Suc (unat (page_list_count b))] b"

definition base_sync :: "base \<Rightarrow> base" where
  "base_sync b = (case control b of
     None \<Rightarrow> b
   | Some cf \<Rightarrow> b\<lparr>control := Some (cf\<lparr>cf_super := Some
       \<lparr>s_instance_name = take (INSTANCE_LENGTH - 1) (instance_name b),
        s_instance_key = instance_key b, s_magic = BASE_MAGIC, s_lock = base_lock_flag b,
        s_exitstatus = exit_stat b, s_version = VERSION_MAJOR,
        s_pager_sequence = ucast (pager_sequence b), s_pager_offset = pager_offset b,
        s_pager_size = pager_size b,
        s_zero = off_zero b, s_heap = off_heap b, s_alias = off_alias b,
        s_history = off_history b, s_index_list = off_index_list b,
        s_zero_size = st_zero_size b, s_zero_free_size = st_zero_free_size b,
        s_heap_free_size = st_heap_free_size b, s_alias_size = st_alias_size b,
        s_index_list_size = st_index_list_size b, s_page_list_count = page_list_count b\<rparr>\<rparr>)\<rparr>)"

text \<open>
  \<open>base_list_add\<close>: a freed entry is reused; otherwise the key goes behind the last entry of the
  list, and a full last list gets a successor.  After a plain append (\<open>try_next\<close> still set) the
  loop goes on to the next list.
\<close>

fun base_list_add_loop :: "quid_short \<Rightarrow> nat list \<Rightarrow> base \<Rightarrow> base" where
  "base_list_add_loop key [] b = b"
| "base_list_add_loop key (i # is) b = (case read_list i b of
     None \<Rightarrow> b
   | Some l \<Rightarrow>
      (let idx = unat (pl_size l);
           set_key = (\<lambda>x l. l\<lparr>pl_items :=
             (pl_items l)[x := (pl_items l ! x)\<lparr>pi_free := False, pi_key := key\<rparr>]\<rparr>)
       in case find_index pi_free (used_items l) of
            Some x \<Rightarrow> base_sync (write_list i (set_key x l) b)
          | None \<Rightarrow>
              if idx = PAGE_LIST_SIZE then
                if i \<noteq> unat (page_list_count b) then base_list_add_loop key is b
                else
                  (let b = b\<lparr>page_list_count := page_list_count b + 1\<rparr>
                   in base_sync (write_list (unat (page_list_count b))
                        ((set_key 0 zero_page_list)\<lparr>pl_size := 1\<rparr>) b))
              else base_list_add_loop key is
                     (write_list i ((set_key idx l)\<lparr>pl_size := pl_size l + 1\<rparr>) b)))"

definition base_list_add :: "quid_short \<Rightarrow> base \<Rightarrow> base" where
  "base_list_add key b = base_list_add_loop key [0..<Suc (unat (page_list_count b))] b"

section \<open>Opening and closing\<close>

definition alphanum :: string where
  "alphanum = ''0123456789ABCDEFGHIJKLMNOPQRSTUVWXYZ''"

fun random_chars :: "nat \<Rightarrow> base \<Rightarrow> string \<times> base" where
  "random_chars 0 b = ([], b)"
| "random_chars (Suc n) b =
     (let (r, b) = arc4random b; (cs, b) = random_chars n b
      in (alphanum ! (unat r mod 36) # cs, b))"

text \<open>The last of the five characters is overwritten by the terminator.\<close>

definition generate_instance_name :: "base \<Rightarrow> string \<times> base" where
  "generate_instance_name b =
     (let (strrand, b) = random_chars 5 b
      in (take (INSTANCE_LENGTH - 1) (''QUANTZ'' @ ''_'' @ take 4 strrand), b))"

definition nullify_base :: "base \<Rightarrow> base" where
  "nullify_base b = b\<lparr>instance_name := [], instance_key := zero_quid, base_lock_flag := False,
     pager_sequence := 0, pager_offset := 0, pager_size := 0,
     off_zero := 0, off_heap := 0, off_alias := 0, off_history := 0, off_index_list := 0,
     st_zero_size := 0, st_zero_free_size := 0, st_heap_free_size := 0, st_alias_size := 0,
     st_index_list_size := 0, page_list_count := 0, core_count := 0, core_pages := []\<rparr>"

definition base_lock :: "base \<Rightarrow> base" where
  "base_lock b = b\<lparr>base_lock_flag := True\<rparr>"

text \<open>\<open>diag_exerr\<close> of src/diagnose.c only prints a line.\<close>

definition diag_exerr :: "base \<Rightarrow> bool" where
  "diag_exerr b = True"

definition load_super :: "base_super \<Rightarrow> base \<Rightarrow> base" where
  "load_super s b = b\<lparr>instance_key := s_instance_key s, base_lock_flag := s_lock s,
     page_list_count := s_page_list_count s, pager_size := s_pager_size s,
     pager_sequence := ucast (s_pager_sequence s), pager_offset := s_pager_offset s,
     off_alias := s_alias s, off_history := s_history s, off_zero := s_zero s,
     off_heap := s_heap s, off_index_list := s_index_list s,
     st_zero_size := s_zero_size s, st_zero_free_size := s_zero_free_size s,
     st_heap_free_size := s_heap_free_size s, st_alias_size := s_alias_size s,
     st_index_list_size := s_index_list_size s,
     instance_name := take (INSTANCE_LENGTH - 1) (s_instance_name s)\<rparr>"

definition base_init :: "base \<Rightarrow> base option" where
  "base_init b =
     (let b = nullify_base b
      in case control b of
           Some cf \<Rightarrow>
             (case cf_super cf of
                None \<Rightarrow> Some b
              | Some s \<Rightarrow> do {
                  let b = load_super s b;
                  zassert (s_version s = VERSION_MAJOR);
                  zassert (s_magic s = BASE_MAGIC);
                  if s_exitstatus s \<noteq> EXSTAT_SUCCESS \<and> \<not> diag_exerr b
                  then Some ((error_throw_fatal ''ef4b4df470a1''
                               ''Storage damaged beyond autorecovery'' b)\<lparr>exit_stat := EXSTAT_ERROR\<rparr>)
                  else Some (b\<lparr>exit_stat := EXSTAT_CHECKPOINT\<rparr>) })
         | None \<Rightarrow> do {
             (key, b) \<leftarrow> quid_create b;
             let b = b\<lparr>instance_key := key, pager_sequence := 1, pager_size := DEFAULT_PAGE_SIZE\<rparr>;
             let (name, b) = generate_instance_name b;
             let b = b\<lparr>instance_name := name, exit_stat := EXSTAT_INVALID,
               control := Some \<lparr>cf_super = None, cf_lists = (\<lambda>_. None)\<rparr>\<rparr>;
             Some ((write_list 0 zero_page_list (base_sync b))\<lparr>exit_stat := EXSTAT_CHECKPOINT\<rparr>) })"

text \<open>The new base has a control file of its own, \<open>~base\<close>, which \<open>base_swap\<close> moves into place.\<close>

definition base_copy :: "base \<Rightarrow> base \<Rightarrow> u8 \<Rightarrow> base" where
  "base_copy b nb page_size =
     (let nb = nullify_base nb
      in if page_size \<le> 0 \<or> DEFAULT_PAGE_SIZE \<ge> MAX_PAGE_SIZE then nb
         else
           (let nb = nb\<lparr>pager_sequence := 1, pager_size := page_size, instance_key := instance_key b,
                  instance_name := take (INSTANCE_LENGTH - 1) (instance_name b),
                  control := Some \<lparr>cf_super = None, cf_lists = (\<lambda>_. None)\<rparr>\<rparr>
            in write_list 0 zero_page_list (base_sync nb)))"

definition base_swap :: "base \<Rightarrow> base \<Rightarrow> base" where
  "base_swap b nb = b\<lparr>control := control nb\<rparr>"

definition base_close :: "base \<Rightarrow> base" where
  "base_close b = base_sync (b\<lparr>exit_stat := EXSTAT_SUCCESS\<rparr>)"

section \<open>The lists of page keys\<close>

definition list_items :: "base \<Rightarrow> nat \<Rightarrow> page_item list" where
  "list_items b i = (case read_list i b of None \<Rightarrow> [] | Some l \<Rightarrow> used_items l)"

definition page_entries :: "base \<Rightarrow> page_item list" where
  "page_entries b = concat (map (list_items b) [0..<Suc (unat (page_list_count b))])"

definition list_ok :: "base \<Rightarrow> nat \<Rightarrow> bool" where
  "list_ok b i \<longleftrightarrow> (\<exists>l. read_list i b = Some l \<and> length (pl_items l) = PAGE_LIST_SIZE
     \<and> unat (pl_size l) \<le> PAGE_LIST_SIZE \<and> (\<forall>p\<in>set (used_items l). \<not> pi_free p)
     \<and> (i < unat (page_list_count b) \<longrightarrow> unat (pl_size l) = PAGE_LIST_SIZE))"

text \<open>Every list but the last is full, and no entry has been given back.\<close>

definition lists_ok :: "base \<Rightarrow> bool" where
  "lists_ok b \<longleftrightarrow> (\<forall>i\<le>unat (page_list_count b). list_ok b i)"

lemma find_index_None: "find_index P xs = None \<longleftrightarrow> (\<forall>x\<in>set xs. \<not> P x)"
  by (induction xs) auto

lemma find_index_Some:
  "find_index P xs = Some i \<Longrightarrow> i < length xs \<and> P (xs ! i) \<and> (\<forall>j<i. \<not> P (xs ! j))"
  by (induction xs arbitrary: i) (auto split: if_splits simp: nth_Cons split: nat.splits)

lemma length_used_items:
  "length (pl_items l) = PAGE_LIST_SIZE \<Longrightarrow> unat (pl_size l) \<le> PAGE_LIST_SIZE
    \<Longrightarrow> length (used_items l) = unat (pl_size l)"
  by (simp add: used_items_def)

lemma read_write_list [simp]:
  "control b \<noteq> None \<Longrightarrow> read_list i (write_list j l b) = (if i = j then Some l else read_list i b)"
  by (auto simp: read_list_def write_list_def split: option.splits)

lemma read_list_control: "read_list i b = Some l \<Longrightarrow> control b \<noteq> None"
  by (auto simp: read_list_def split: option.splits)

lemma control_write_list [simp]: "control (write_list j l b) = None \<longleftrightarrow> control b = None"
  by (auto simp: write_list_def split: option.splits)

lemma write_list_frame [simp]: "page_list_count (write_list j l b) = page_list_count b"
  by (auto simp: write_list_def split: option.splits)

lemma base_sync_frame [simp]:
  "read_list i (base_sync b) = read_list i b" "page_list_count (base_sync b) = page_list_count b"
  "control (base_sync b) = None \<longleftrightarrow> control b = None"
  by (auto simp: base_sync_def read_list_def split: option.splits)

lemma list_items_sync [simp]: "list_items (base_sync b) = list_items b"
  by (simp add: list_items_def fun_eq_iff)

lemma page_entries_sync [simp]: "page_entries (base_sync b) = page_entries b"
  by (simp add: page_entries_def)

lemma lists_ok_sync [simp]: "lists_ok (base_sync b) = lists_ok b"
  by (simp add: lists_ok_def list_ok_def)

lemma base_list_add_skip:
  assumes "\<forall>i\<in>set is. i < unat (page_list_count b) \<and> list_ok b i"
  shows "base_list_add_loop key (is @ js) b = base_list_add_loop key js b"
  using assms
proof (induction "is")
  case (Cons i "is")
  then obtain l where l: "read_list i b = Some l" "unat (pl_size l) = PAGE_LIST_SIZE"
    "\<forall>p\<in>set (used_items l). \<not> pi_free p" "i < unat (page_list_count b)"
    by (auto simp: list_ok_def)
  then have "find_index pi_free (used_items l) = None" by (simp add: find_index_None)
  then show ?case using Cons l by simp
qed simp

text \<open>\<open>base_list_add\<close> appends the key to the sequence of pages and keeps the lists in order.\<close>

lemma base_list_add_correct:
  assumes ok: "lists_ok b" and room: "page_list_count b < 0xffff"
  shows "(\<exists>c. page_entries (base_list_add key b) =
      page_entries b @ [\<lparr>pi_key = key, pi_free = False, pi_crc = c\<rparr>])
    \<and> lists_ok (base_list_add key b)"
proof -
  define n where "n = unat (page_list_count b)"
  obtain l where l: "read_list n b = Some l" "length (pl_items l) = PAGE_LIST_SIZE"
    "unat (pl_size l) \<le> PAGE_LIST_SIZE" "\<forall>p\<in>set (used_items l). \<not> pi_free p"
    using ok by (auto simp: lists_ok_def list_ok_def n_def)
  have full: "\<forall>i\<in>set [0..<n]. i < unat (page_list_count b) \<and> list_ok b i"
    using ok by (simp add: lists_ok_def n_def)
  have c: "control b \<noteq> None" using l(1) by (rule read_list_control)
  have nofree: "find_index pi_free (used_items l) = None" using l(4) by (simp add: find_index_None)
  have step: "base_list_add key b = base_list_add_loop key [n] b"
    unfolding base_list_add_def n_def[symmetric] upt_Suc_append[OF le0]
    by (rule base_list_add_skip[OF full])
  show ?thesis
  proof (cases "unat (pl_size l) = PAGE_LIST_SIZE")
    case True
    define new where "new = \<lparr>pi_key = key, pi_free = False, pi_crc = 0\<rparr>"
    define l' where "l' = \<lparr>pl_items = new # replicate 9 (pl_items zero_page_list ! 0), pl_size = 1\<rparr>"
    define b' where "b' = write_list (Suc n) l' (b\<lparr>page_list_count := page_list_count b + 1\<rparr>)"
    have n1: "unat (page_list_count b + 1) = Suc n"
      using room by (simp add: n_def unat_word_ariths word_less_nat_alt)
    have "base_list_add key b = base_sync b'"
      using l(1) nofree True n1
      by (simp add: step b'_def l'_def new_def n_def zero_page_list_def numeral_eq_Suc)
    moreover have r: "read_list i b' = (if i = Suc n then Some l' else read_list i b)" for i
      using c unfolding b'_def by (subst read_write_list) (auto simp: read_list_def)
    moreover have items: "list_items b' (Suc n) = [new]" "\<And>i. i \<le> n \<Longrightarrow> list_items b' i = list_items b i"
      by (auto simp: list_items_def r l'_def used_items_def)
    moreover have "page_entries b' = page_entries b @ [new]"
    proof -
      have "page_entries b' = concat (map (list_items b') [0..<Suc n]) @ list_items b' (Suc n)"
        unfolding page_entries_def b'_def write_list_frame using n1 by simp
      also have "map (list_items b') [0..<Suc n] = map (list_items b) [0..<Suc n]"
        using items(2) by (intro map_cong) auto
      finally show ?thesis
        using items(1) by (simp add: page_entries_def n_def)
    qed
    moreover have "lists_ok b'"
    proof -
      have "list_ok b' i" if "i \<le> Suc n" for i
      proof (cases "i = Suc n")
        case True
        then show ?thesis
          using n1 by (simp add: list_ok_def r) (simp add: l'_def used_items_def new_def b'_def)
      next
        case False
        then have "list_ok b i" using that ok by (simp add: lists_ok_def n_def)
        then show ?thesis
          using False that l \<open>unat (pl_size l) = PAGE_LIST_SIZE\<close>
          by (cases "i = n") (auto simp: list_ok_def r n_def)
      qed
      then show ?thesis using n1 by (simp add: lists_ok_def b'_def)
    qed
    ultimately show ?thesis by (auto simp: new_def)
  next
    case False
    define idx where "idx = unat (pl_size l)"
    then have idx: "idx < PAGE_LIST_SIZE" using False l(3) by simp
    define new where "new = (pl_items l ! idx)\<lparr>pi_free := False, pi_key := key\<rparr>"
    define l' where "l' = l\<lparr>pl_items := (pl_items l)[idx := new], pl_size := pl_size l + 1\<rparr>"
    define b' where "b' = write_list n l' b"
    have sz: "unat (pl_size l') = Suc idx"
      using idx by (simp add: l'_def idx_def unat_word_ariths)
    have "base_list_add key b = b'"
      using l(1) nofree False by (simp add: step b'_def l'_def new_def idx_def Let_def)
    moreover have r: "read_list i b' = (if i = n then Some l' else read_list i b)" for i
      using c by (simp add: b'_def)
    moreover have u: "used_items l' = used_items l @ [new]"
      using idx l(2) sz by (simp add: used_items_def idx_def[symmetric] take_Suc_conv_app_nth l'_def)
    moreover have items: "list_items b' n = list_items b n @ [new]"
      "\<And>i. i < n \<Longrightarrow> list_items b' i = list_items b i"
      using l(1) u by (auto simp: list_items_def r)
    moreover have "page_entries b' = page_entries b @ [new]"
    proof -
      have "page_entries b' = concat (map (list_items b') [0..<n]) @ list_items b' n"
        unfolding page_entries_def b'_def write_list_frame by (simp add: n_def)
      also have "map (list_items b') [0..<n] = map (list_items b) [0..<n]"
        using items(2) by (intro map_cong) auto
      finally show ?thesis
        using items(1) by (simp add: page_entries_def n_def)
    qed
    moreover have "lists_ok b'"
    proof -
      have "list_ok b' i" if "i \<le> n" for i
      proof (cases "i = n")
        case True
        have "read_list i b' = Some l'" by (simp add: r True)
        moreover have "length (pl_items l') = PAGE_LIST_SIZE" by (simp add: l'_def l(2))
        moreover have "\<forall>p\<in>set (used_items l'). \<not> pi_free p"
          using l(4) by (auto simp: u new_def)
        moreover have "\<not> i < unat (page_list_count b')" by (simp add: True n_def b'_def)
        ultimately show ?thesis unfolding list_ok_def using sz idx by fastforce
      next
        case False
        have "list_ok b i" using that ok by (simp add: lists_ok_def n_def)
        then show ?thesis using False unfolding list_ok_def r by (simp add: b'_def)
      qed
      then show ?thesis by (simp add: lists_ok_def b'_def n_def)
    qed
    moreover have "new = \<lparr>pi_key = key, pi_free = False, pi_crc = pi_crc new\<rparr>"
      by (simp add: new_def)
    ultimately show ?thesis by metis
  qed
qed


section \<open>Closing and opening\<close>

text \<open>What \<open>base_close\<close> wrote, \<open>base_init\<close> reads back.\<close>

lemma base_init_close:
  assumes "control b \<noteq> None" "length (instance_name b) < INSTANCE_LENGTH"
  shows "base_init (base_close b) = Some ((base_close b)\<lparr>core_count := 0, core_pages := [],
    exit_stat := EXSTAT_CHECKPOINT\<rparr>)"
  using assms
  by (auto simp: base_init_def base_close_def base_sync_def nullify_base_def load_super_def
      diag_exerr_def)

lemma format_quid_more: "format_quid c ts e = (q, e') \<Longrightarrow> env.more e' = env.more e"
  by (auto simp: format_quid_def arc4random_def Let_def)

lemma quid_create_more:
  assumes "quid_create e = Some (q, e')" shows "env.more e' = env.more e"
proof -
  from assms obtain ts e1 where t: "get_current_time e = Some (ts, e1)"
    and f: "\<exists>c. format_quid c ts (e1\<lparr>rnd_pos := Suc (rnd_pos e1)\<rparr>) = (q, e')"
    by (auto simp: quid_create_def bind_Some_iff arc4random_def)
  have "env.more e1 = env.more e"
    using t by (auto simp: get_current_time_def bind_Some_iff get_system_time_eq
        dest!: tick_loop_result split: if_splits)
  then show ?thesis using f by (auto dest: format_quid_more)
qed

text \<open>Two bases that agree beyond the environment differ in the environment only.\<close>

lemma base_more_eqD:
  assumes "env.more b = env.more (b' :: base)"
  shows "b = b'\<lparr>rnd_stream := rnd_stream b, rnd_pos := rnd_pos b, clock := clock b,
    clock_pos := clock_pos b, tick_inited := tick_inited b, time_last := time_last b,
    ids_this_tick := ids_this_tick b\<rparr>"
  using assms by (cases b; cases b') simp

lemma random_chars_more: "random_chars n b = (s, b') \<Longrightarrow> env.more b' = env.more b"
  by (induction n arbitrary: b s b') (auto simp: arc4random_def Let_def split: prod.splits)

lemma generate_instance_name_more: "generate_instance_name b = (s, b') \<Longrightarrow> env.more b' = env.more b"
  by (auto simp: generate_instance_name_def split: prod.splits dest: random_chars_more)

text \<open>A base created afresh has one empty page list, and its control file can be opened again.\<close>

lemma base_init_create:
  assumes "control b = None" "quid_create (nullify_base b) = Some (key, b1)"
  shows "\<exists>b'. base_init b = Some b' \<and> lists_ok b' \<and> page_entries b' = []
    \<and> instance_key b' = key \<and> pager_sequence b' = 1 \<and> pager_size b' = DEFAULT_PAGE_SIZE
    \<and> exit_stat b' = EXSTAT_CHECKPOINT \<and> off_zero b' = 0"
proof -
  define b2 where "b2 = b1\<lparr>instance_key := key, pager_sequence := 1, pager_size := DEFAULT_PAGE_SIZE\<rparr>"
  obtain name b3 where g: "generate_instance_name b2 = (name, b3)" by fastforce
  define b4 where "b4 = b3\<lparr>instance_name := name, exit_stat := EXSTAT_INVALID,
    control := Some \<lparr>cf_super = None, cf_lists = (\<lambda>_. None)\<rparr>\<rparr>"
  define b5 where "b5 = (write_list 0 zero_page_list (base_sync b4))\<lparr>exit_stat := EXSTAT_CHECKPOINT\<rparr>"
  have "base_init b = Some b5"
    using assms g by (simp add: base_init_def nullify_base_def b2_def b4_def b5_def)
  moreover have more: "env.more b1 = env.more (nullify_base b)" "env.more b3 = env.more b2"
    using quid_create_more[OF assms(2)] generate_instance_name_more[OF g] by auto
  have b4: "instance_key b4 = key" "pager_sequence b4 = 1" "pager_size b4 = DEFAULT_PAGE_SIZE"
    "page_list_count b4 = 0" "off_zero b4 = 0" "control b4 = Some \<lparr>cf_super = None, cf_lists = (\<lambda>_. None)\<rparr>"
    unfolding b4_def
    by (subst base_more_eqD[OF more(2)], simp add: b2_def,
        (subst base_more_eqD[OF more(1)], simp add: nullify_base_def)?)+
  moreover have r: "read_list i b5 = (if i = 0 then Some zero_page_list else None)" for i
  proof -
    have "read_list i b5 = read_list i (write_list 0 zero_page_list (base_sync b4))"
      by (simp add: b5_def read_list_def)
    then show ?thesis using b4(6) by (simp, simp add: read_list_def)
  qed
  moreover have s: "page_list_count b5 = 0" "instance_key b5 = key" "pager_sequence b5 = 1"
    "pager_size b5 = DEFAULT_PAGE_SIZE" "exit_stat b5 = EXSTAT_CHECKPOINT" "off_zero b5 = 0"
    using b4 by (auto simp: b5_def write_list_def base_sync_def split: option.splits)
  moreover have "lists_ok b5"
    using s(1) by (simp add: lists_ok_def list_ok_def r) (simp add: zero_page_list_def used_items_def)
  moreover have "page_entries b5 = []"
    using s(1) by (simp add: page_entries_def list_items_def r used_items_def zero_page_list_def)
  ultimately show ?thesis by blast
qed

end
