(* ===== verification/Pager.thy ===== *)
theory Pager imports
  Base
begin

text \<open>
  The page files: src/pager.c.  Offsets number the bytes of all pages in sequence; \<open>pager_get_fd\<close>
  turns one into a file and a position in it.  The theory proves that allocated ranges lie inside
  one page and never overlap, and that pages written by \<open>pager_sync\<close> are found again by
  \<open>pager_init\<close>.

  The checksum over a page file (\<open>crc_file\<close> of src/crc64.c) is a function \<open>crc\<close> of the file content.
\<close>

type_synonym content = "u64 \<Rightarrow> cell option"

definition write_at :: "quid_short \<Rightarrow> u64 \<Rightarrow> cell \<Rightarrow> base \<Rightarrow> base" where
  "write_at f off c b = (case disk b f of
     None \<Rightarrow> b
   | Some m \<Rightarrow> b\<lparr>disk := (disk b)(f := Some (m(off := Some c)))\<rparr>)"

definition read_at :: "quid_short \<Rightarrow> u64 \<Rightarrow> base \<Rightarrow> cell option" where
  "read_at f off b = (case disk b f of None \<Rightarrow> None | Some m \<Rightarrow> m off)"

definition flush_page :: "page \<Rightarrow> base \<Rightarrow> base" where
  "flush_page p b = write_at (p_key p) 0 (CPage \<lparr>ph_sequence = p_sequence p, ph_exit = p_exit p,
     ph_magic = PAGE_MAGIC, ph_version = VERSION_MAJOR\<rparr>) b"

text \<open>Room for another page pointer, then the pointer behind the last page.\<close>

definition add_page :: "page \<Rightarrow> base \<Rightarrow> base" where
  "add_page p b =
     (let pages = (if unat (core_count b) \<ge> length (core_pages b)
                   then core_pages b @ replicate DEFAULT_PAGE_ALLOC None else core_pages b)
      in b\<lparr>core_pages := pages[unat (core_count b) := Some p], core_count := core_count b + 1\<rparr>)"

definition create_page :: "base \<Rightarrow> base" where
  "create_page b =
     (let (key, b) = quid_short_create b;
          p = Page (ucast (pager_sequence b)) key EXSTAT_CHECKPOINT;
          b = b\<lparr>pager_sequence := pager_sequence b + 1, disk := (disk b)(key := Some (\<lambda>_. None))\<rparr>;
          b = flush_page (Page (p_sequence p) key EXSTAT_INVALID) b;
          b = add_page p b;
          b = base_list_add key b
      in flush_page p b)"

text \<open>A page that is corrupt or was not closed properly is reported in the log and left out.\<close>

definition open_page :: "(content \<Rightarrow> u64) \<Rightarrow> quid_short \<Rightarrow> u64 \<Rightarrow> base \<Rightarrow> base option" where
  "open_page crc key csum b = (case disk b key of
     None \<Rightarrow> Some (error_throw_fatal ''65ccc95b60a6'' ''Failed to acquire descriptor'' b)
   | Some m \<Rightarrow>
       if crc m = 0 then Some b
       else if crc m \<noteq> csum then Some b
       else (case m 0 of
           Some (CPage h) \<Rightarrow> do {
             zassert (ph_version h = VERSION_MAJOR);
             zassert (ph_magic h = PAGE_MAGIC);
             if ph_exit h \<noteq> EXSTAT_SUCCESS then Some b
             else Some (add_page (Page (ph_sequence h) key EXSTAT_CHECKPOINT) b) }
         | _ \<Rightarrow> Some (fail_read b)))"

text \<open>\<open>BASE_PAGE_SIZE << size\<close> is computed as \<open>int\<close> and then widened.\<close>

definition page_size :: "base \<Rightarrow> u64" where
  "page_size b = scast (push_bit (unat (pager_size b)) 4096 :: 32 word)"

definition pager_alloc :: "base \<Rightarrow> u64 \<Rightarrow> (u64 \<times> base) option" where
  "pager_alloc b len = do {
     zassert (len > 0);
     zassert (page_size b \<noteq> 0);
     let offset = pager_offset b;
     if offset mod page_size b + len \<ge> page_size b then
       (let b = create_page b;
            offset = ucast (core_count b - 1) * page_size b + sizeof_page
        in Some (offset, base_sync (b\<lparr>pager_offset := offset + len\<rparr>)))
     else Some (offset, b\<lparr>pager_offset := offset + len\<rparr>) }"

text \<open>The result is the open file and the offset inside it.\<close>

definition pager_get_fd :: "base \<Rightarrow> u64 \<Rightarrow> (quid_short \<times> u64) option" where
  "pager_get_fd b offset = do {
     zassert (page_size b \<noteq> 0);
     let page = offset div page_size b;
     zassert (page \<le> ucast (core_count b - 1));
     p \<leftarrow> (if unat page < length (core_pages b) then core_pages b ! unat page else None);
     Some (p_key p, offset mod page_size b) }"

definition pager_get_sequence :: "base \<Rightarrow> u64 \<Rightarrow> u32 option" where
  "pager_get_sequence b offset = do {
     zassert (page_size b \<noteq> 0);
     let page = offset div page_size b;
     zassert (page \<le> ucast (core_count b - 1));
     p \<leftarrow> (if unat page < length (core_pages b) then core_pages b ! unat page else None);
     Some (p_sequence p) }"

text \<open>The entries \<open>item[0]\<close> to \<open>item[size - 1]\<close> of one list, in order.\<close>

fun open_pages :: "(content \<Rightarrow> u64) \<Rightarrow> page_item list \<Rightarrow> base \<Rightarrow> base option" where
  "open_pages crc [] b = Some b"
| "open_pages crc (p # ps) b = do {
     b \<leftarrow> open_page crc (pi_key p) (pi_crc p) b;
     open_pages crc ps b }"

text \<open>The array of page pointers is requested anew for every list that is read.\<close>

fun pager_init_loop :: "(content \<Rightarrow> u64) \<Rightarrow> nat list \<Rightarrow> base \<Rightarrow> base option" where
  "pager_init_loop crc [] b = Some (base_sync b)"
| "pager_init_loop crc (i # is) b = (case read_list i b of
     None \<Rightarrow> Some (fail_read b)
   | Some l \<Rightarrow>
       (let n = unat (pl_size l)
        in if i = 0 \<and> n = 0 then
             (let b = create_page (b\<lparr>core_pages := replicate DEFAULT_PAGE_ALLOC None\<rparr>)
              in Some (base_sync (b\<lparr>pager_offset := sizeof_page\<rparr>)))
           else do {
             b \<leftarrow> open_pages crc (used_items l) (b\<lparr>core_pages := replicate
               (if n < DEFAULT_PAGE_ALLOC then DEFAULT_PAGE_ALLOC else n + DEFAULT_PAGE_ALLOC) None\<rparr>);
             pager_init_loop crc is b }))"

definition pager_init :: "(content \<Rightarrow> u64) \<Rightarrow> base \<Rightarrow> base option" where
  "pager_init crc b = pager_init_loop crc [0..<Suc (unat (page_list_count b))]
     (b\<lparr>core_count := 0, core_pages := []\<rparr>)"

definition page_crc_sum :: "(content \<Rightarrow> u64) \<Rightarrow> page \<Rightarrow> base \<Rightarrow> u64" where
  "page_crc_sum crc p b = (case disk b (p_key p) of None \<Rightarrow> 0 | Some m \<Rightarrow> crc m)"

definition set_exit :: "exit_status \<Rightarrow> page \<Rightarrow> page" where
  "set_exit s p = Page (p_sequence p) (p_key p) s"

definition sync_page :: "(content \<Rightarrow> u64) \<Rightarrow> nat \<Rightarrow> base \<Rightarrow> base option" where
  "sync_page crc i b = do {
     p \<leftarrow> (if i < length (core_pages b) then core_pages b ! i else None);
     let p = set_exit EXSTAT_SUCCESS p;
     let b = flush_page p (b\<lparr>core_pages := (core_pages b)[i := Some p]\<rparr>);
     Some (base_list_set_crc_sum (p_key p) (page_crc_sum crc p b) b) }"

fun sync_pages :: "(content \<Rightarrow> u64) \<Rightarrow> nat list \<Rightarrow> base \<Rightarrow> base option" where
  "sync_pages crc [] b = Some b"
| "sync_pages crc (i # is) b = do { b \<leftarrow> sync_page crc i b; sync_pages crc is b }"

definition pager_sync :: "(content \<Rightarrow> u64) \<Rightarrow> base \<Rightarrow> base option" where
  "pager_sync crc b = sync_pages crc [0..<unat (core_count b)] b"

definition pager_close :: "(content \<Rightarrow> u64) \<Rightarrow> base \<Rightarrow> base option" where
  "pager_close crc b = do {
     b \<leftarrow> sync_pages crc [0..<unat (core_count b)] b;
     Some (b\<lparr>core_count := 0, core_pages := []\<rparr>) }"

fun unlink_pages :: "nat list \<Rightarrow> base \<Rightarrow> base option" where
  "unlink_pages [] b = Some b"
| "unlink_pages (i # is) b = do {
     p \<leftarrow> (if i < length (core_pages b) then core_pages b ! i else None);
     unlink_pages is (b\<lparr>disk := (disk b)(p_key p := None)\<rparr>) }"

definition pager_unlink_all :: "base \<Rightarrow> base option" where
  "pager_unlink_all b = unlink_pages [0..<unat (core_count b)] b"

section \<open>Reading and writing through an offset\<close>

text \<open>\<open>lseek\<close> and \<open>write\<close> (or \<open>read\<close>) at a database offset, as every component does it.\<close>

definition store_cell :: "u64 \<Rightarrow> cell \<Rightarrow> base \<Rightarrow> base option" where
  "store_cell offset c b = do {
     (fd, off) \<leftarrow> pager_get_fd b offset;
     Some (write_at fd off c b) }"

definition load_cell :: "u64 \<Rightarrow> base \<Rightarrow> cell option option" where
  "load_cell offset b = do {
     (fd, off) \<leftarrow> pager_get_fd b offset;
     Some (read_at fd off b) }"

section \<open>Frames\<close>

lemma quid_short_create_eq:
  "quid_short_create e = (fst (quid_short_create e), e\<lparr>rnd_pos := rnd_pos e + 6\<rparr>)"
  by (simp add: quid_short_create_def arc4random_def Let_def)

text \<open>The part of a base that operations on the control file leave alone.\<close>

definition but_control :: "base \<Rightarrow> base" where
  "but_control b = b\<lparr>control := None, page_list_count := 0\<rparr>"

lemma but_control_frame [simp]:
  "but_control (write_list i l b) = but_control b" "but_control (base_sync b) = but_control b"
  "but_control (b\<lparr>page_list_count := n\<rparr>) = but_control b"
  by (auto simp: but_control_def write_list_def base_sync_def split: option.split)

lemma but_control_list_add [simp]: "but_control (base_list_add key b) = but_control b"
proof -
  have "but_control (base_list_add_loop key is b) = but_control b" for "is"
    by (induction key "is" b rule: base_list_add_loop.induct) (auto simp: Let_def split: option.split)
  then show ?thesis by (simp add: base_list_add_def)
qed

lemma but_control_modify [simp]: "but_control (base_list_modify f key is b) = but_control b"
  by (induction f key "is" b rule: base_list_modify.induct) (auto split: option.split)

lemma but_controlD:
  assumes "but_control b = but_control b'"
  shows "b = b'\<lparr>control := control b, page_list_count := page_list_count b\<rparr>"
  using assms by (cases b; cases b') (simp add: but_control_def)

lemma but_control_fields:
  assumes "but_control b = but_control b'"
  shows "core_count b = core_count b'" "core_pages b = core_pages b'" "disk b = disk b'"
    "pager_offset b = pager_offset b'" "pager_size b = pager_size b'"
    "pager_sequence b = pager_sequence b'" "page_size b = page_size b'" "err b = err b'"
    "instance_name b = instance_name b'" "exit_stat b = exit_stat b'"
  by (subst but_controlD[OF assms], simp add: page_size_def)+

lemmas list_add_fields [simp] = but_control_fields[OF but_control_list_add]
lemmas modify_fields [simp] = but_control_fields[OF but_control_modify]
lemmas sync_fields [simp] = but_control_fields[OF but_control_frame(2)]

lemma write_at_disk: "write_at f off c b = b\<lparr>disk := disk (write_at f off c b)\<rparr>"
  by (auto simp: write_at_def split: option.split)

lemma write_at_fields [simp]:
  "core_count (write_at f off c b) = core_count b" "core_pages (write_at f off c b) = core_pages b"
  "pager_offset (write_at f off c b) = pager_offset b" "pager_size (write_at f off c b) = pager_size b"
  "pager_sequence (write_at f off c b) = pager_sequence b" "control (write_at f off c b) = control b"
  "page_list_count (write_at f off c b) = page_list_count b" "page_size (write_at f off c b) = page_size b"
  "err (write_at f off c b) = err b" "instance_name (write_at f off c b) = instance_name b"
  by (auto simp: write_at_def page_size_def split: option.split)

lemma flush_page_fields [simp]:
  "core_count (flush_page p b) = core_count b" "core_pages (flush_page p b) = core_pages b"
  "pager_offset (flush_page p b) = pager_offset b" "pager_size (flush_page p b) = pager_size b"
  "control (flush_page p b) = control b" "page_list_count (flush_page p b) = page_list_count b"
  "page_size (flush_page p b) = page_size b" "err (flush_page p b) = err b"
  by (simp_all add: flush_page_def)

lemma page_size_upd [simp]:
  "page_size (b\<lparr>core_pages := x\<rparr>) = page_size b" "page_size (b\<lparr>core_count := y\<rparr>) = page_size b"
  "page_size (b\<lparr>disk := z\<rparr>) = page_size b" "page_size (b\<lparr>pager_offset := w\<rparr>) = page_size b"
  "page_size (b\<lparr>pager_sequence := v\<rparr>) = page_size b" "page_size (b\<lparr>rnd_pos := u\<rparr>) = page_size b"
  by (simp_all add: page_size_def)

section \<open>Pages in memory\<close>

text \<open>Every page pointer below \<open>count\<close> is set.\<close>

definition pages_ok :: "base \<Rightarrow> bool" where
  "pages_ok b \<longleftrightarrow> unat (core_count b) \<le> length (core_pages b)
     \<and> (\<forall>i<unat (core_count b). core_pages b ! i \<noteq> None)"

lemma add_page_count [simp]: "core_count (add_page p b) = core_count b + 1"
  by (simp add: add_page_def Let_def)

lemma add_page_pages:
  assumes "pages_ok b" "core_count b + 1 \<noteq> 0"
  shows "pages_ok (add_page p b)
    \<and> take (unat (core_count b + 1)) (core_pages (add_page p b)) =
      take (unat (core_count b)) (core_pages b) @ [Some p]"
proof -
  let ?n = "unat (core_count b)"
  have n: "unat (core_count b + 1) = Suc ?n" by (rule unat_add_one[OF assms(2)])
  show ?thesis
    using assms(1) n unfolding pages_ok_def add_page_def Let_def
    by (auto simp: nth_list_update nth_append take_Suc_conv_app_nth less_Suc_eq)
qed

lemma create_page_eq:
  obtains key b1 where "create_page b =
    flush_page (Page (ucast (pager_sequence b)) key EXSTAT_CHECKPOINT)
      (base_list_add key (add_page (Page (ucast (pager_sequence b)) key EXSTAT_CHECKPOINT) b1))"
    "\<exists>D r q. b1 = b\<lparr>rnd_pos := r, pager_sequence := q, disk := D\<rparr>"
proof -
  let ?key = "fst (quid_short_create b)"
  let ?b0 = "b\<lparr>rnd_pos := rnd_pos b + 6, pager_sequence := pager_sequence b + 1,
    disk := (disk b)(?key := Some (\<lambda>_. None))\<rparr>"
  let ?b1 = "flush_page (Page (ucast (pager_sequence b)) ?key EXSTAT_INVALID) ?b0"
  have "create_page b = flush_page (Page (ucast (pager_sequence b)) ?key EXSTAT_CHECKPOINT)
      (base_list_add ?key (add_page (Page (ucast (pager_sequence b)) ?key EXSTAT_CHECKPOINT) ?b1))"
    by (subst create_page_def, subst quid_short_create_eq) (simp add: Let_def)
  moreover have "\<exists>D r q. ?b1 = b\<lparr>rnd_pos := r, pager_sequence := q, disk := D\<rparr>"
    by (intro exI, unfold flush_page_def, subst write_at_disk, simp)
  ultimately show ?thesis by (rule that)
qed

lemma add_page_fields [simp]:
  "pager_offset (add_page p b) = pager_offset b" "page_size (add_page p b) = page_size b"
  "err (add_page p b) = err b" "pager_size (add_page p b) = pager_size b"
  "control (add_page p b) = control b" "page_list_count (add_page p b) = page_list_count b"
  "disk (add_page p b) = disk b" "pager_sequence (add_page p b) = pager_sequence b"
  by (simp_all add: add_page_def Let_def page_size_def)

lemma create_page_fields [simp]:
  "core_count (create_page b) = core_count b + 1"
  "pager_offset (create_page b) = pager_offset b"
  "page_size (create_page b) = page_size b" "pager_size (create_page b) = pager_size b"
  "err (create_page b) = err b"
  by (rule create_page_eq[of b]; auto)+

lemma create_page_pages:
  assumes "pages_ok b" "core_count b + 1 \<noteq> 0"
  shows "pages_ok (create_page b)"
    and "\<exists>p. take (unat (core_count b + 1)) (core_pages (create_page b)) =
      take (unat (core_count b)) (core_pages b) @ [Some p]"
proof -
  obtain key b1 where c: "create_page b =
    flush_page (Page (ucast (pager_sequence b)) key EXSTAT_CHECKPOINT)
      (base_list_add key (add_page (Page (ucast (pager_sequence b)) key EXSTAT_CHECKPOINT) b1))"
    and b1: "\<exists>D r q. b1 = b\<lparr>rnd_pos := r, pager_sequence := q, disk := D\<rparr>"
    by (rule create_page_eq)
  have "pages_ok b1" "core_count b1 = core_count b" "core_pages b1 = core_pages b"
    using b1 assms(1) by (auto simp: pages_ok_def)
  then show "pages_ok (create_page b)"
    and "\<exists>p. take (unat (core_count b + 1)) (core_pages (create_page b)) =
      take (unat (core_count b)) (core_pages b) @ [Some p]"
    using add_page_pages[of b1 "Page (ucast (pager_sequence b)) key EXSTAT_CHECKPOINT"] assms(2)
    unfolding c by (auto simp: pages_ok_def)
qed

section \<open>Allocation\<close>

lemma page_size_eq:
  assumes "pager_size b < MAX_PAGE_SIZE"
  shows "unat (page_size b) = 4096 * 2 ^ unat (pager_size b)"
proof -
  define n where "n = unat (pager_size b)"
  have "n < 19" using assms by (simp add: n_def word_less_nat_alt)
  then have "n \<in> set [0..<19]" by simp
  then have "unat (scast (push_bit n 4096 :: 32 word) :: u64) = 4096 * 2 ^ n"
    by (simp add: upt_conv_Cons) (elim disjE; simp)
  then show ?thesis by (simp add: page_size_def n_def)
qed

abbreviation psz :: "base \<Rightarrow> nat" where
  "psz b \<equiv> unat (page_size b)"

text \<open>The allocation mark lies in the last page, behind its header.\<close>

definition pager_wf :: "base \<Rightarrow> bool" where
  "pager_wf b \<longleftrightarrow> pager_size b < MAX_PAGE_SIZE \<and> pages_ok b \<and> 0 < core_count b
     \<and> unat (pager_offset b) div psz b = unat (core_count b) - 1
     \<and> unat sizeof_page \<le> unat (pager_offset b) mod psz b"

lemma psz_bounds:
  assumes "pager_size b < MAX_PAGE_SIZE"
  shows "4096 \<le> psz b" "psz b \<le> 2 ^ 30" "0 < psz b" "page_size b \<noteq> 0"
proof -
  have "unat (pager_size b) \<le> 18" using assms by (simp add: word_less_nat_alt)
  then have "(2::nat) ^ unat (pager_size b) \<le> 2 ^ 18" by (intro power_increasing) simp_all
  then show *: "4096 \<le> psz b" "psz b \<le> 2 ^ 30" unfolding page_size_eq[OF assms] by simp_all
  then show "0 < psz b" by simp
  then show "page_size b \<noteq> 0" by auto
qed

lemma unat_div_mod: "unat (x div (y :: u64)) = unat x div unat y" "unat (x mod y) = unat x mod unat y"
  by (simp_all add: unat_div unat_mod)


text \<open>A range inside page \<open>q\<close>, behind the page header.\<close>

definition in_page :: "nat \<Rightarrow> nat \<Rightarrow> u64 \<Rightarrow> u64 \<Rightarrow> bool" where
  "in_page P q off len \<longleftrightarrow> unat off div P = q \<and> unat sizeof_page \<le> unat off mod P
     \<and> unat off mod P + unat len < P"

lemma div_mod_add:
  assumes "(r::nat) = a mod P" "r + l < P"
  shows "(a + l) div P = a div P \<and> (a + l) mod P = r + l"
proof -
  have "a + l = P * (a div P) + (r + l)" using assms(1) by simp
  then show ?thesis using assms(2) by (metis div_mult_self4 mod_less mod_mult_self4 add.commute
    add_cancel_right_left div_less gr_implies_not0)
qed

lemma page_range_bound:
  assumes "pager_size b < MAX_PAGE_SIZE" "q < 2 ^ 32" "r \<le> psz b"
  shows "q * psz b + r < 2 ^ 63"
proof -
  have "q * psz b \<le> 2 ^ 32 * 2 ^ 30"
    using assms(2) psz_bounds(2)[OF assms(1)] by (intro mult_le_mono) simp_all
  then show ?thesis using assms(3) psz_bounds(2)[OF assms(1)] by simp
qed

lemma pager_alloc_same:
  assumes wf: "pager_wf b" and len: "0 < len" "unat (pager_offset b) mod psz b + unat len < psz b"
  shows "pager_alloc b len = Some (pager_offset b, b\<lparr>pager_offset := pager_offset b + len\<rparr>)
    \<and> in_page (psz b) (unat (core_count b) - 1) (pager_offset b) len
    \<and> unat (pager_offset b + len) = unat (pager_offset b) + unat len
    \<and> pager_wf (b\<lparr>pager_offset := pager_offset b + len\<rparr>)"
proof -
  let ?P = "psz b" and ?o = "unat (pager_offset b)"
  have ps: "pager_size b < MAX_PAGE_SIZE" using wf by (simp add: pager_wf_def)
  note P = psz_bounds[OF ps]
  have q: "?o div ?P = unat (core_count b) - 1" "17 \<le> ?o mod ?P" using wf by (auto simp: pager_wf_def)
  have "?o + unat len = (?o div ?P) * ?P + (?o mod ?P + unat len)" by simp
  also have "\<dots> < 2 ^ 63"
    using page_range_bound[OF ps, of "?o div ?P" "?o mod ?P + unat len"] len(2) q(1)
      unat_less[of "core_count b"] by simp
  finally have nowrap: "unat (pager_offset b + len) = ?o + unat len"
    by (intro unat_add_no_wrap) simp
  have "unat (pager_offset b mod page_size b + len) = ?o mod ?P + unat len"
    using len(2) P(2) by (subst unat_add_no_wrap) (simp_all add: unat_div_mod)
  then have "\<not> page_size b \<le> pager_offset b mod page_size b + len"
    using len(2) by (simp add: word_le_nat_alt)
  then have "pager_alloc b len = Some (pager_offset b, b\<lparr>pager_offset := pager_offset b + len\<rparr>)"
    using len(1) P(4) by (simp add: pager_alloc_def Let_def)
  moreover have "pager_wf (b\<lparr>pager_offset := pager_offset b + len\<rparr>)"
    using wf nowrap div_mod_add[OF refl len(2)] by (simp add: pager_wf_def pages_ok_def)
  ultimately show ?thesis using nowrap q len(2) by (simp add: in_page_def)
qed

lemma pager_alloc_new:
  assumes wf: "pager_wf b" and count: "core_count b + 1 \<noteq> 0"
    and len: "0 < len" "unat sizeof_page + unat len < psz b"
      "psz b \<le> unat (pager_offset b) mod psz b + unat len"
  shows "\<exists>off b'. pager_alloc b len = Some (off, b') \<and> page_size b' = page_size b
    \<and> core_count b' = core_count b + 1
    \<and> unat off = unat (core_count b) * psz b + unat sizeof_page
    \<and> unat (pager_offset b') = unat off + unat len
    \<and> in_page (psz b) (unat (core_count b)) off len \<and> pager_wf b'"
proof -
  let ?P = "psz b" and ?o = "unat (pager_offset b)" and ?n = "unat (core_count b)"
  have ps: "pager_size b < MAX_PAGE_SIZE" using wf by (simp add: pager_wf_def)
  note P = psz_bounds[OF ps]
  define off where "off = ucast (core_count (create_page b) - 1) * page_size b + sizeof_page"
  define b' where "b' = base_sync ((create_page b)\<lparr>pager_offset := off + len\<rparr>)"
  have n: "?n < 2 ^ 32" using unat_less[of "core_count b"] by simp
  have "unat (ucast (core_count b) * page_size b) = ?n * ?P"
    using page_range_bound[OF ps n, of 0] by (subst unat_mult_no_wrap) simp_all
  then have off: "unat off = ?n * ?P + 17"
    using page_range_bound[OF ps n, of 17] P(1) by (simp add: off_def) (subst unat_add_no_wrap; simp)
  have end_off: "unat (off + len) = unat off + unat len"
    using page_range_bound[OF ps n, of "17 + unat len"] len(2) off by (intro unat_add_no_wrap) simp
  have "?o mod ?P < 2 ^ 30" "unat len < 2 ^ 30"
    using less_le_trans[OF mod_less_divisor[OF P(3), of ?o] P(2)] len(2) P(2) by simp_all
  then have "?o mod ?P + unat len < 2 ^ 64" by simp
  then have "unat (pager_offset b mod page_size b + len) = ?o mod ?P + unat len"
    by (subst unat_add_no_wrap) (simp_all add: unat_div_mod)
  then have "page_size b \<le> pager_offset b mod page_size b + len"
    using len(3) by (simp add: word_le_nat_alt)
  then have "pager_alloc b len = Some (off, b')"
    using len(1) P(4) by (simp add: pager_alloc_def b'_def off_def Let_def)
  moreover have "in_page ?P ?n off len"
    using P(3) len(2) off div_mod_add[of 17 "?n * ?P + 17" ?P 0] by (simp add: in_page_def)
  moreover have "(?n * ?P + (17 + unat len)) div ?P = ?n \<and> (?n * ?P + (17 + unat len)) mod ?P = 17 + unat len"
    using div_mod_add[of 0 "?n * ?P" ?P "17 + unat len"] len(2) P(3) by simp
  moreover from this have d: "unat (off + len) div ?P = ?n" "unat (off + len) mod ?P = 17 + unat len"
    by (simp_all only: off end_off add.assoc)
  moreover have "pager_wf b'"
  proof -
    have "pages_ok (create_page b)" using wf create_page_pages(1)[OF _ count] by (simp add: pager_wf_def)
    then have "pages_ok b'" by (simp add: pages_ok_def b'_def)
    moreover have "pager_size b' = pager_size b" by (simp add: b'_def)
    moreover have "page_size b' = page_size b" by (simp add: b'_def)
    moreover have "0 < core_count b'" using count by (simp add: b'_def word_greater_zero_iff)
    ultimately show ?thesis
      using ps d unat_add_one[OF count] by (simp add: pager_wf_def b'_def)
  qed
  ultimately show ?thesis
    using off end_off by (intro exI[of _ off] exI[of _ b']) (simp add: b'_def)
qed

text \<open>The part of a base that allocation leaves alone: all but the pager, the files and the random stream.\<close>

definition but_pager :: "base \<Rightarrow> base" where
  "but_pager b = b\<lparr>rnd_pos := 0, pager_sequence := 0, pager_offset := 0, page_list_count := 0,
     core_count := 0, core_pages := [], control := None, disk := (\<lambda>_. None)\<rparr>"

lemma but_control_pager: "but_control b = but_control b' \<Longrightarrow> but_pager b = but_pager b'"
  by (cases b; cases b') (simp add: but_control_def but_pager_def)

lemma but_pager_create [simp]: "but_pager (create_page b) = but_pager b"
proof -
  obtain key b1 where c: "create_page b =
    flush_page (Page (ucast (pager_sequence b)) key EXSTAT_CHECKPOINT)
      (base_list_add key (add_page (Page (ucast (pager_sequence b)) key EXSTAT_CHECKPOINT) b1))"
    and b1: "\<exists>D r q. b1 = b\<lparr>rnd_pos := r, pager_sequence := q, disk := D\<rparr>"
    by (rule create_page_eq)
  have f: "but_pager (flush_page p x) = but_pager x" for p x
    unfolding flush_page_def by (subst write_at_disk) (simp add: but_pager_def)
  have "but_pager (create_page b) = but_pager (add_page (Page (ucast (pager_sequence b)) key EXSTAT_CHECKPOINT) b1)"
    unfolding c f by (rule but_control_pager) simp
  then show ?thesis using b1 by (auto simp: but_pager_def add_page_def Let_def)
qed

lemma pager_alloc_frame:
  assumes "pager_alloc b len = Some (off, b')"
  shows "but_pager b' = but_pager b"
proof -
  have "but_pager (base_sync x) = but_pager x" for x by (rule but_control_pager) simp
  moreover have "but_pager (x\<lparr>pager_offset := v\<rparr>) = but_pager x" for x v by (simp add: but_pager_def)
  ultimately show ?thesis
    using assms by (auto simp: pager_alloc_def Let_def split: if_splits)
qed

lemma but_pagerD:
  assumes "but_pager b = but_pager b'"
  shows "b = b'\<lparr>rnd_pos := rnd_pos b, pager_sequence := pager_sequence b,
    pager_offset := pager_offset b, page_list_count := page_list_count b, core_count := core_count b,
    core_pages := core_pages b, control := control b, disk := disk b\<rparr>"
  using assms by (cases b; cases b') (simp add: but_pager_def)

lemma but_pager_fields:
  assumes "but_pager b = but_pager b'"
  shows "pager_size b = pager_size b'" "page_size b = page_size b'" "err b = err b'"
    "off_zero b = off_zero b'" "off_heap b = off_heap b'" "off_alias b = off_alias b'"
    "off_history b = off_history b'" "off_index_list b = off_index_list b'"
    "e_top b = e_top b'" "e_free_top b = e_free_top b'" "e_last_block b = e_last_block b'"
    "e_lock b = e_lock b'" "e_cache b = e_cache b'" "e_dbcache b = e_dbcache b'"
    "st_zero_size b = st_zero_size b'" "st_alias_size b = st_alias_size b'"
    "st_index_list_size b = st_index_list_size b'"
  by (subst but_pagerD[OF assms], simp add: page_size_def)+

lemma pager_alloc_range:
  assumes wf: "pager_wf b" and count: "core_count b + 1 \<noteq> 0"
    and len: "0 < len" "unat sizeof_page + unat len < psz b"
  shows "\<exists>off b' q. pager_alloc b len = Some (off, b') \<and> pager_wf b' \<and> page_size b' = page_size b
    \<and> pager_size b' = pager_size b
    \<and> unat (core_count b) \<le> unat (core_count b') \<and> unat (core_count b') \<le> Suc (unat (core_count b))
    \<and> unat (pager_offset b) \<le> unat off \<and> unat (pager_offset b') = unat off + unat len
    \<and> q < unat (core_count b') \<and> in_page (psz b) q off len"
proof (cases "unat (pager_offset b) mod psz b + unat len < psz b")
  case True
  have "0 < unat (core_count b)" using wf by (simp add: pager_wf_def word_less_nat_alt)
  with pager_alloc_same[OF wf len(1) True] show ?thesis
    by (intro exI[of _ "pager_offset b"] exI[of _ "b\<lparr>pager_offset := pager_offset b + len\<rparr>"]
        exI[of _ "unat (core_count b) - 1"]) simp
next
  case False
  then obtain off b' where a: "pager_alloc b len = Some (off, b')" "page_size b' = page_size b"
    "core_count b' = core_count b + 1" "unat off = unat (core_count b) * psz b + unat sizeof_page"
    "unat (pager_offset b') = unat off + unat len"
    "in_page (psz b) (unat (core_count b)) off len" "pager_wf b'"
    using pager_alloc_new[OF wf count len] by auto
  have "unat (core_count b') = Suc (unat (core_count b))" using a(3) unat_add_one[OF count] by simp
  moreover have "unat (pager_offset b) \<le> unat off"
  proof -
    have ps: "pager_size b < MAX_PAGE_SIZE" using wf by (simp add: pager_wf_def)
    have "unat (pager_offset b) div psz b < unat (core_count b)"
      using wf by (simp add: pager_wf_def word_less_nat_alt)
    then have "unat (pager_offset b) < unat (core_count b) * psz b"
      using psz_bounds(3)[OF ps] by (simp add: div_less_iff_less_mult)
    then show ?thesis using a(4) by simp
  qed
  moreover have "pager_size b' = pager_size b"
    by (rule but_pager_fields(1)[OF pager_alloc_frame[OF a(1)]])
  ultimately show ?thesis using a by fastforce
qed


fun alloc_all :: "u64 list \<Rightarrow> base \<Rightarrow> ((u64 \<times> u64) list \<times> base) option" where
  "alloc_all [] b = Some ([], b)"
| "alloc_all (len # lens) b = do {
     (off, b) \<leftarrow> pager_alloc b len;
     (rs, b) \<leftarrow> alloc_all lens b;
     Some ((off, len) # rs, b) }"

definition before :: "u64 \<times> u64 \<Rightarrow> u64 \<times> u64 \<Rightarrow> bool" where
  "before r s \<longleftrightarrow> unat (fst r) + unat (snd r) \<le> unat (fst s)"

text \<open>
  However many ranges are requested, as long as each fits into a page, they come back one behind
  the other, each inside a page that exists.
\<close>

lemma alloc_all_disjoint:
  assumes "pager_wf b" "\<forall>len\<in>set lens. 0 < len \<and> unat sizeof_page + unat len < psz b"
    "unat (core_count b) + length lens < 2 ^ 32"
  shows "\<exists>rs b'. alloc_all lens b = Some (rs, b') \<and> map snd rs = lens \<and> sorted_wrt before rs
    \<and> (\<forall>r\<in>set rs. unat (pager_offset b) \<le> unat (fst r)
        \<and> (\<exists>q<unat (core_count b'). in_page (psz b) q (fst r) (snd r)))
    \<and> unat (core_count b) \<le> unat (core_count b') \<and> pager_wf b'"
  using assms
proof (induction lens arbitrary: b)
  case (Cons len lens)
  have "core_count b + 1 \<noteq> 0"
  proof
    assume "core_count b + 1 = 0"
    then have "core_count b = - 1" by (simp add: eq_neg_iff_add_eq_0)
    then show False using Cons.prems(3) by (simp add: unsigned_minus_1_eq_mask mask_eq_exp_minus_1)
  qed
  then obtain off b1 q where a: "pager_alloc b len = Some (off, b1)" "pager_wf b1"
    "page_size b1 = page_size b" "unat (core_count b1) \<le> Suc (unat (core_count b))"
    "unat (core_count b) \<le> unat (core_count b1)" "unat (pager_offset b) \<le> unat off" "unat (pager_offset b1) = unat off + unat len"
    "q < unat (core_count b1)" "in_page (psz b) q off len"
    using pager_alloc_range[OF Cons.prems(1), of len] Cons.prems(2) by auto
  from Cons.IH[OF a(2)] obtain rs b2 where
    r: "alloc_all lens b1 = Some (rs, b2)" "map snd rs = lens" "sorted_wrt before rs"
    "\<forall>r\<in>set rs. unat (pager_offset b1) \<le> unat (fst r)
        \<and> (\<exists>q<unat (core_count b2). in_page (psz b) q (fst r) (snd r))"
    "unat (core_count b1) \<le> unat (core_count b2)" "pager_wf b2"
    using Cons.prems(2,3) a(3,4) by auto
  have "alloc_all (len # lens) b = Some ((off, len) # rs, b2)"
    using a(1) r(1) by simp
  moreover have "sorted_wrt before ((off, len) # rs)"
    using r(3,4) a(7) by (auto simp: before_def)
  moreover have "unat (pager_offset b) \<le> unat (fst s)
      \<and> (\<exists>q<unat (core_count b2). in_page (psz b) q (fst s) (snd s))" if "s \<in> set ((off, len) # rs)" for s
  proof (cases "s = (off, len)")
    case True
    have "q < unat (core_count b2)" using a(8) r(5) by linarith
    with True a(6,9) show ?thesis by auto
  next
    case False
    then show ?thesis using bspec[OF r(4), of s] that a(6,7) by auto
  qed
  ultimately show ?case
    using r(2,5,6) a(5) by (intro exI[of _ "(off, len) # rs"] exI[of _ b2]) simp
qed simp

lemma pager_get_fd_ok:
  assumes "pager_size b < MAX_PAGE_SIZE" "pages_ok b" "unat off div psz b < unat (core_count b)"
  shows "\<exists>p. core_pages b ! (unat off div psz b) = Some p
    \<and> pager_get_fd b off = Some (p_key p, off mod page_size b)"
proof -
  let ?q = "unat off div psz b"
  obtain p where p: "core_pages b ! ?q = Some p" "?q < length (core_pages b)"
    using assms(2,3) by (auto simp: pages_ok_def)
  have "core_count b \<noteq> 0" using assms(3) by auto
  then have "unat (core_count b - 1) = unat (core_count b) - 1"
    by (simp add: unat_sub word_le_nat_alt unat_gt_0 Suc_leI)
  then have "off div page_size b \<le> ucast (core_count b - 1)"
    using assms(3) by (simp add: word_le_nat_alt unat_div_mod)
  then show ?thesis
    using p psz_bounds(4)[OF assms(1)] by (simp add: pager_get_fd_def Let_def unat_div_mod)
qed

text \<open>A byte past the last page has no file: the assertion of \<open>pager_get_fd\<close> fails.\<close>

lemma pager_get_fd_beyond:
  assumes "core_count b \<noteq> 0" "unat (core_count b) \<le> unat off div psz b"
  shows "pager_get_fd b off = None"
proof -
  have "unat (core_count b - 1) = unat (core_count b) - 1"
    using assms(1) by (simp add: unat_sub word_le_nat_alt unat_gt_0 Suc_leI)
  moreover have "0 < unat (core_count b)" using assms(1) by (simp add: unat_gt_0)
  ultimately have "\<not> off div page_size b \<le> ucast (core_count b - 1)"
    using assms(2) by (simp add: word_le_nat_alt unat_div_mod)
  then show ?thesis by (simp add: pager_get_fd_def Let_def)
qed

text \<open>
  An object that does not fit into a page is allocated all the same; the allocation mark then lies
  behind the last page, and the next object that would fit there gets an offset no page holds.
\<close>

lemma oversized_alloc:
  assumes wf: "pager_wf b" and count: "core_count b + 1 \<noteq> 0"
    and len: "psz b \<le> unat sizeof_page + unat len" "unat len < 2 ^ 62"
    and alloc: "pager_alloc b len = Some (off, b1)"
    and fits: "0 < len'" "unat (pager_offset b1) mod psz b1 + unat len' < psz b1"
  shows "\<exists>b2. pager_alloc b1 len' = Some (pager_offset b1, b2) \<and> pager_get_fd b2 (pager_offset b1) = None"
proof -
  let ?P = "psz b" and ?o = "unat (pager_offset b)" and ?n = "unat (core_count b)"
  have ps: "pager_size b < MAX_PAGE_SIZE" using wf by (simp add: pager_wf_def)
  note P = psz_bounds[OF ps]
  have n: "?n < 2 ^ 32" using unat_less[of "core_count b"] by simp
  have bound: "?n * ?P < 2 ^ 62"
  proof -
    have "?n * ?P \<le> ?n * 2 ^ 30" using P(2) by simp
    also have "\<dots> < 2 ^ 62" using n by simp
    finally show ?thesis .
  qed
  have wf': "17 \<le> ?o mod ?P" using wf by (simp add: pager_wf_def)
  define o1 where "o1 = ucast (core_count (create_page b) - 1) * page_size b + sizeof_page"
  have "?o mod ?P < 2 ^ 30" using less_le_trans[OF mod_less_divisor[OF P(3), of ?o] P(2)] .
  then have "unat (pager_offset b mod page_size b + len) = ?o mod ?P + unat len"
    using len(2) by (subst unat_add_no_wrap) (simp_all add: unat_div_mod)
  then have "page_size b \<le> pager_offset b mod page_size b + len"
    using len(1) wf' by (simp add: word_le_nat_alt)
  then have b1: "off = o1" "b1 = base_sync ((create_page b)\<lparr>pager_offset := o1 + len\<rparr>)"
    using alloc by (auto simp: pager_alloc_def Let_def o1_def split: if_splits)
  have "unat (ucast (core_count b) * page_size b) = ?n * ?P"
    using bound by (subst unat_mult_no_wrap) simp_all
  then have o1: "unat o1 = ?n * ?P + 17"
    using bound by (simp add: o1_def) (subst unat_add_no_wrap; simp)
  have mark: "unat (pager_offset b1) = ?n * ?P + (17 + unat len)"
    using o1 len(2) bound by (simp add: b1) (subst unat_add_no_wrap; simp)
  have b1f: "core_count b1 = core_count b + 1" "page_size b1 = page_size b" by (simp_all add: b1)
  have beyond: "unat (core_count b1) \<le> unat (pager_offset b1) div psz b1"
  proof -
    have "Suc ?n * ?P \<le> unat (pager_offset b1)" using len(1) by (simp add: mark)
    then show ?thesis
      using unat_add_one[OF count] P(3) by (simp add: b1f less_eq_div_iff_mult_less_eq)
  qed
  have "unat (pager_offset b1 mod page_size b1 + len') = unat (pager_offset b1) mod ?P + unat len'"
    using fits(2) P(2) by (subst unat_add_no_wrap) (simp_all add: unat_div_mod b1f)
  then have "\<not> page_size b1 \<le> pager_offset b1 mod page_size b1 + len'"
    using fits(2) by (simp add: word_le_nat_alt b1f)
  then have "pager_alloc b1 len' = Some (pager_offset b1, b1\<lparr>pager_offset := pager_offset b1 + len'\<rparr>)"
    using fits(1) P(4) by (simp add: pager_alloc_def Let_def b1f)
  moreover have "pager_get_fd (b1\<lparr>pager_offset := pager_offset b1 + len'\<rparr>) (pager_offset b1) = None"
    using beyond count by (intro pager_get_fd_beyond) (simp_all add: b1f)
  ultimately show ?thesis by blast
qed

section \<open>Closing and reopening the page files\<close>

lemma find_index_first:
  assumes "i < length xs" "P (xs ! i)" "\<forall>j<i. \<not> P (xs ! j)"
  shows "find_index P xs = Some i"
  using assms
proof (induction xs arbitrary: i)
  case (Cons x xs)
  show ?case
  proof (cases i)
    case 0
    then show ?thesis using Cons.prems by simp
  next
    case (Suc j)
    then have "\<not> P x" "\<forall>k<j. \<not> P (xs ! k)" using Cons.prems(3) by auto
    then show ?thesis using Cons Suc by simp
  qed
qed simp

definition page_header :: "exit_status \<Rightarrow> page \<Rightarrow> page_hdr" where
  "page_header s p = \<lparr>ph_sequence = p_sequence p, ph_exit = s, ph_magic = PAGE_MAGIC,
     ph_version = VERSION_MAJOR\<rparr>"

text \<open>The pages in memory are those of the first page list, and each has its file.\<close>

definition listed :: "page list \<Rightarrow> base \<Rightarrow> bool" where
  "listed ps b \<longleftrightarrow> unat (core_count b) = length ps \<and> length ps \<le> length (core_pages b)
     \<and> length ps \<le> PAGE_LIST_SIZE \<and> ps \<noteq> [] \<and> distinct (map p_key ps)
     \<and> (\<forall>i<length ps. \<exists>e. core_pages b ! i = Some (set_exit e (ps ! i)))
     \<and> page_list_count b = 0
     \<and> (\<exists>l. read_list 0 b = Some l \<and> unat (pl_size l) = length ps
          \<and> length (pl_items l) = PAGE_LIST_SIZE \<and> map pi_key (used_items l) = map p_key ps)
     \<and> (\<forall>p\<in>set ps. disk b (p_key p) \<noteq> None)"

text \<open>The first \<open>k\<close> of them are flushed and have their checksum on record.\<close>

definition flushed :: "(content \<Rightarrow> u64) \<Rightarrow> page list \<Rightarrow> nat \<Rightarrow> base \<Rightarrow> bool" where
  "flushed crc ps k b \<longleftrightarrow> (\<forall>i<k. \<exists>m l. disk b (p_key (ps ! i)) = Some m
     \<and> m 0 = Some (CPage (page_header EXSTAT_SUCCESS (ps ! i)))
     \<and> read_list 0 b = Some l \<and> pi_crc (pl_items l ! i) = crc m)"

lemma set_exit_simps [simp]:
  "p_key (set_exit e p) = p_key p" "p_sequence (set_exit e p) = p_sequence p"
  "p_exit (set_exit e p) = e" "set_exit e (set_exit e' p) = set_exit e p"
  by (simp_all add: set_exit_def)

lemma write_list_control: "write_list i l b = b\<lparr>control := control (write_list i l b)\<rparr>"
  by (auto simp: write_list_def split: option.split)

lemma sync_page_step:
  assumes L: "listed ps b" and F: "flushed crc ps k b" and k: "k < length ps"
  shows "\<exists>b'. sync_page crc k b = Some b' \<and> listed ps b' \<and> flushed crc ps (Suc k) b'
    \<and> (\<forall>f off. off \<noteq> 0 \<longrightarrow> read_at f off b' = read_at f off b)"
proof -
  let ?p = "set_exit EXSTAT_SUCCESS (ps ! k)"
  obtain e where e: "core_pages b ! k = Some (set_exit e (ps ! k))" "k < length (core_pages b)"
    using L k by (auto simp: listed_def)
  obtain l where l: "read_list 0 b = Some l" "unat (pl_size l) = length ps"
    "length (pl_items l) = PAGE_LIST_SIZE" "map pi_key (used_items l) = map p_key ps"
    using L by (auto simp: listed_def)
  obtain m where m: "disk b (p_key (ps ! k)) = Some m" using L k by (force simp: listed_def)
  have dist: "distinct (map p_key ps)" "length ps \<le> PAGE_LIST_SIZE" using L by (auto simp: listed_def)
  have keyne: "p_key (ps ! i) \<noteq> p_key (ps ! k)" if "i < length ps" "i \<noteq> k" for i
    using nth_eq_iff_index_eq[OF dist(1), of i k] that k by simp
  define m' where "m' = m(0 := Some (CPage (page_header EXSTAT_SUCCESS (ps ! k))))"
  define b1 where "b1 = b\<lparr>core_pages := (core_pages b)[k := Some ?p],
    disk := (disk b)(p_key (ps ! k) := Some m')\<rparr>"
  define l' where "l' = l\<lparr>pl_items := (pl_items l)[k := (pl_items l ! k)\<lparr>pi_crc := crc m'\<rparr>]\<rparr>"
  have used: "length (used_items l) = length ps" using l(4) map_eq_imp_length_eq by blast
  then have usedn: "used_items l ! i = pl_items l ! i" if "i < length ps" for i
    using that by (simp add: used_items_def l(2))
  have keys: "pi_key (used_items l ! i) = p_key (ps ! i)" if "i < length ps" for i
    using l(4) that used by (metis nth_map)
  have "flush_page ?p (b\<lparr>core_pages := (core_pages b)[k := Some ?p]\<rparr>) = b1"
    by (simp add: flush_page_def write_at_def m b1_def m'_def page_header_def)
  moreover have "page_crc_sum crc ?p b1 = crc m'" by (simp add: page_crc_sum_def b1_def)
  moreover have rl: "read_list 0 b1 = Some l" using l(1) by (simp add: b1_def read_list_def)
  moreover have "find_index (\<lambda>p. quid_shortcmp (pi_key p) (p_key (ps ! k)) = 0) (used_items l) = Some k"
    using keys keyne k used by (intro find_index_first) auto
  then have "base_list_set_crc_sum (p_key (ps ! k)) (crc m') b1 = write_list 0 l' b1"
    using rl L by (simp add: base_list_set_crc_sum_def listed_def b1_def l'_def)
  ultimately have s: "sync_page crc k b = Some (write_list 0 l' b1)"
    using e by (simp add: sync_page_def Let_def)
  let ?b' = "write_list 0 l' b1"
  have c: "control b1 \<noteq> None" using read_list_control[OF rl] .
  have b': "read_list 0 ?b' = Some l'" using c by simp
  have fields: "core_count ?b' = core_count b" "core_pages ?b' = (core_pages b)[k := Some ?p]"
    "disk ?b' = (disk b)(p_key (ps ! k) := Some m')" "page_list_count ?b' = page_list_count b"
    by (subst write_list_control, simp add: b1_def)+
  have kk: "k < PAGE_LIST_SIZE" using k dist(2) by simp
  have "map pi_key (pl_items l') = map pi_key (pl_items l)"
    using kk l(3) by (simp add: l'_def map_update) (metis list_update_id nth_map)
  then have "map pi_key (used_items l') = map p_key ps"
    using l(4) by (simp add: used_items_def take_map[symmetric]) (simp add: l'_def)
  then have "listed ps ?b'"
    using L l k b' e(2) unfolding listed_def fields by (auto simp: l'_def nth_list_update)
  moreover have "flushed crc ps (Suc k) ?b'"
  proof -
    have "\<exists>m l. disk ?b' (p_key (ps ! i)) = Some m
     \<and> m 0 = Some (CPage (page_header EXSTAT_SUCCESS (ps ! i)))
     \<and> read_list 0 ?b' = Some l \<and> pi_crc (pl_items l ! i) = crc m" if i: "i < Suc k" for i
    proof (cases "i = k")
      case True
      have "disk ?b' (p_key (ps ! k)) = Some m'" by (simp add: fields)
      moreover have "m' 0 = Some (CPage (page_header EXSTAT_SUCCESS (ps ! k)))" by (simp add: m'_def)
      moreover have "pi_crc (pl_items l' ! k) = crc m'" using kk l(3) by (simp add: l'_def)
      ultimately show ?thesis using b' True by blast
    next
      case False
      then have "i < k" using i by simp
      then obtain mi where "disk b (p_key (ps ! i)) = Some mi"
        "mi 0 = Some (CPage (page_header EXSTAT_SUCCESS (ps ! i)))" "pi_crc (pl_items l ! i) = crc mi"
        using F l(1) by (auto simp: flushed_def)
      moreover have "p_key (ps ! i) \<noteq> p_key (ps ! k)" using keyne[of i] False \<open>i < k\<close> k by simp
      moreover have "pl_items l' ! i = pl_items l ! i" using False by (simp add: l'_def)
      ultimately show ?thesis using b' unfolding fields by auto
    qed
    then show ?thesis by (simp add: flushed_def)
  qed
  moreover have "read_at f off ?b' = read_at f off b" if "off \<noteq> 0" for f off
    using that m by (simp add: read_at_def fields m'_def)
  ultimately show ?thesis using s by blast
qed


lemma sync_pages_all:
  assumes "listed ps b" "flushed crc ps k b" "k \<le> length ps"
  shows "\<exists>b'. sync_pages crc [k..<length ps] b = Some b' \<and> listed ps b' \<and> flushed crc ps (length ps) b'
    \<and> (\<forall>f off. off \<noteq> 0 \<longrightarrow> read_at f off b' = read_at f off b)"
  using assms
proof (induction "length ps - k" arbitrary: k b)
  case 0
  then show ?case by simp
next
  case (Suc n)
  then have k: "k < length ps" "n = length ps - Suc k" by auto
  obtain b1 where b1: "sync_page crc k b = Some b1" "listed ps b1" "flushed crc ps (Suc k) b1"
    "\<forall>f off. off \<noteq> 0 \<longrightarrow> read_at f off b1 = read_at f off b"
    using sync_page_step[OF Suc.prems(1,2) k(1)] by auto
  have "[k..<length ps] = k # [Suc k..<length ps]" using k(1) by (rule upt_conv_Cons)
  then show ?case
    using Suc.hyps(1)[OF k(2) b1(2,3)] k(1) b1(1,4) by auto
qed

text \<open>One page file whose checksum and header are in order is opened behind the others.\<close>

lemma open_page_flushed:
  assumes "disk b (p_key p) = Some m" "m 0 = Some (CPage (page_header EXSTAT_SUCCESS p))"
    "csum = crc m" "crc m \<noteq> 0"
  shows "open_page crc (p_key p) csum b = Some (add_page (set_exit EXSTAT_CHECKPOINT p) b)"
  using assms by (simp add: open_page_def page_header_def set_exit_def)

lemma open_pages_flushed:
  assumes "\<forall>(it, p)\<in>set (zip its ps). pi_key it = p_key p \<and> (\<exists>m. disk b (p_key p) = Some m
      \<and> m 0 = Some (CPage (page_header EXSTAT_SUCCESS p)) \<and> pi_crc it = crc m \<and> crc m \<noteq> 0)"
    "length its = length ps" "pages_ok b" "unat (core_count b) + length ps < 2 ^ 32"
  shows "\<exists>b'. open_pages crc its b = Some b' \<and> pages_ok b'
    \<and> unat (core_count b') = unat (core_count b) + length ps
    \<and> take (unat (core_count b')) (core_pages b') =
        take (unat (core_count b)) (core_pages b) @ map (Some \<circ> set_exit EXSTAT_CHECKPOINT) ps
    \<and> disk b' = disk b"
  using assms
proof (induction its arbitrary: ps b)
  case (Cons it its)
  then obtain p ps' where ps: "ps = p # ps'" by (cases ps) auto
  let ?b = "add_page (set_exit EXSTAT_CHECKPOINT p) b"
  have o: "open_page crc (pi_key it) (pi_crc it) b = Some ?b"
    using Cons.prems(1) open_page_flushed[of b p _ "pi_crc it" crc] by (auto simp: ps)
  have "core_count b + 1 \<noteq> 0"
    using Cons.prems(4) ps by (intro add_one_nonzero) simp
  then have b: "pages_ok ?b" "take (unat (core_count ?b)) (core_pages ?b) =
      take (unat (core_count b)) (core_pages b) @ [Some (set_exit EXSTAT_CHECKPOINT p)]"
    "unat (core_count ?b) = Suc (unat (core_count b))"
    using add_page_pages[OF Cons.prems(3)] by (auto simp: unat_add_one)
  obtain b' where "open_pages crc its ?b = Some b'" "pages_ok b'"
    "unat (core_count b') = unat (core_count ?b) + length ps'"
    "take (unat (core_count b')) (core_pages b') =
        take (unat (core_count ?b)) (core_pages ?b) @ map (Some \<circ> set_exit EXSTAT_CHECKPOINT) ps'"
    "disk b' = disk ?b"
    using Cons.IH[of ps' ?b] Cons.prems(1,2,4) b(1,3) ps by auto
  then show ?case
    using o b ps by auto
qed simp

definition reopened :: "page list \<Rightarrow> base \<Rightarrow> bool" where
  "reopened ps b \<longleftrightarrow> pages_ok b \<and> unat (core_count b) = length ps
     \<and> take (length ps) (core_pages b) = map (Some \<circ> set_exit EXSTAT_CHECKPOINT) ps"

lemma flushed_items:
  assumes "listed ps b" "flushed crc ps (length ps) b" "read_list 0 b = Some l" "\<forall>m. crc m \<noteq> 0"
  shows "\<forall>(it, p)\<in>set (zip (used_items l) ps). pi_key it = p_key p \<and> (\<exists>m. disk b (p_key p) = Some m
      \<and> m 0 = Some (CPage (page_header EXSTAT_SUCCESS p)) \<and> pi_crc it = crc m \<and> crc m \<noteq> 0)"
    and "length (used_items l) = length ps"
proof -
  have l: "unat (pl_size l) = length ps" "map pi_key (used_items l) = map p_key ps"
    using assms(1,3) by (auto simp: listed_def)
  then show len: "length (used_items l) = length ps" using map_eq_imp_length_eq by blast
  have "pi_key it = p_key p \<and> (\<exists>m. disk b (p_key p) = Some m
      \<and> m 0 = Some (CPage (page_header EXSTAT_SUCCESS p)) \<and> pi_crc it = crc m \<and> crc m \<noteq> 0)"
    if in_zip: "(it, p) \<in> set (zip (used_items l) ps)" for it p
  proof -
    obtain i where i: "i < length ps" "it = used_items l ! i" "p = ps ! i"
      using in_zip len by (auto simp: in_set_zip)
    have "used_items l ! i = pl_items l ! i" using i(1) l(1) by (simp add: used_items_def)
    moreover have "pi_key it = p_key p" using l(2) i len by (metis nth_map)
    ultimately show ?thesis
      using assms(2,3,4) i by (fastforce simp: flushed_def)
  qed
  then show "\<forall>(it, p)\<in>set (zip (used_items l) ps). pi_key it = p_key p \<and> (\<exists>m. disk b (p_key p) = Some m
      \<and> m 0 = Some (CPage (page_header EXSTAT_SUCCESS p)) \<and> pi_crc it = crc m \<and> crc m \<noteq> 0)"
    by blast
qed

text \<open>Pages closed with the base are all there after the next start, with what was stored in them.\<close>

lemma pager_restart_ok:
  assumes L: "listed ps b" and crc: "\<forall>m. crc m \<noteq> 0"
  shows "\<exists>b1 b2. pager_close crc b = Some b1 \<and> pager_init crc b1 = Some b2 \<and> reopened ps b2
    \<and> (\<forall>f off. off \<noteq> 0 \<longrightarrow> read_at f off b2 = read_at f off b)"
proof -
  have "flushed crc ps 0 b" by (simp add: flushed_def)
  then obtain c where c: "sync_pages crc [0..<length ps] b = Some c" "listed ps c"
    "flushed crc ps (length ps) c" "\<forall>f off. off \<noteq> 0 \<longrightarrow> read_at f off c = read_at f off b"
    using sync_pages_all[OF L, of crc 0] by auto
  obtain l where l: "read_list 0 c = Some l" "unat (pl_size l) = length ps" "ps \<noteq> []"
    "length ps \<le> PAGE_LIST_SIZE" "page_list_count c = 0"
    using c(2) by (auto simp: listed_def)
  define b1 where "b1 = c\<lparr>core_count := 0, core_pages := []\<rparr>"
  define b1' where "b1' = c\<lparr>core_count := 0, core_pages := replicate (if length ps < DEFAULT_PAGE_ALLOC
    then DEFAULT_PAGE_ALLOC else length ps + DEFAULT_PAGE_ALLOC) None\<rparr>"
  have "pager_close crc b = Some b1"
    using L c(1) by (simp add: pager_close_def listed_def b1_def)
  moreover obtain b2 where b2: "open_pages crc (used_items l) b1' = Some b2" "pages_ok b2"
    "unat (core_count b2) = length ps" "disk b2 = disk c"
    "take (length ps) (core_pages b2) = map (Some \<circ> set_exit EXSTAT_CHECKPOINT) ps"
    using open_pages_flushed[of "used_items l" ps b1' crc] flushed_items[OF c(2,3) l(1) crc] l(4)
    by (auto simp: b1'_def pages_ok_def)
  moreover have "pager_init crc b1 = Some (base_sync b2)"
  proof -
    have "read_list 0 b1 = Some l" using l(1) by (simp add: b1_def read_list_def)
    then show ?thesis
      using l b2(1) by (simp add: pager_init_def b1_def b1'_def Let_def read_list_def)
  qed
  moreover have "reopened ps (base_sync b2)"
    using b2 by (simp add: reopened_def pages_ok_def)
  moreover have "read_at f off (base_sync b2) = read_at f off b" if "off \<noteq> 0" for f off
    using c(4) that b2(4) by (simp add: read_at_def)
  ultimately show ?thesis by blast
qed

lemma open_page_keeps:
  assumes "open_page crc key s b = Some b'" "0 < unat (core_count b)" "Suc (unat (core_count b)) < 2 ^ 32"
    "core_pages b \<noteq> []"
  shows "core_pages b' ! 0 = core_pages b ! 0 \<and> unat (core_count b) \<le> unat (core_count b')
    \<and> unat (core_count b') \<le> Suc (unat (core_count b)) \<and> core_pages b' \<noteq> []"
proof -
  have "b' = b \<or> (\<exists>c m. b' = error_throw_fatal c m b) \<or> (\<exists>p. b' = add_page p b)"
    using assms(1) by (auto simp: open_page_def split: option.splits cell.splits if_splits)
  moreover have "unat (core_count b + 1) = Suc (unat (core_count b))"
    using assms(3) by (intro unat_add_one add_one_nonzero) simp
  ultimately show ?thesis
    using assms(2,4) by (auto simp: error_throw_fatal_def add_page_def Let_def nth_list_update nth_append
        split: if_splits)
qed

lemma open_pages_keep:
  assumes "open_pages crc its b = Some b'" "0 < unat (core_count b)"
    "unat (core_count b) + length its < 2 ^ 32" "core_pages b \<noteq> []"
  shows "core_pages b' ! 0 = core_pages b ! 0 \<and> 0 < unat (core_count b')"
  using assms
proof (induction its arbitrary: b)
  case (Cons it its)
  then obtain b1 where b1: "open_page crc (pi_key it) (pi_crc it) b = Some b1"
    "open_pages crc its b1 = Some b'" by (auto simp: bind_Some_iff)
  have k: "core_pages b1 ! 0 = core_pages b ! 0" "unat (core_count b) \<le> unat (core_count b1)"
    "unat (core_count b1) \<le> Suc (unat (core_count b))" "core_pages b1 \<noteq> []"
    using open_page_keeps[OF b1(1)] Cons.prems by auto
  show ?case
    using Cons.IH[OF b1(2)] k Cons.prems(2,3) by simp
qed simp

text \<open>
  With a second page list the array of page pointers is requested anew and the pages of the first
  list are gone from it: nothing on the first page, the superblock included, can be read any more.
\<close>

lemma second_list_forgets:
  assumes b0: "pager_init_loop crc [1] b = Some b'" and l: "read_list 1 b = Some l"
    and "0 < unat (core_count b)" "unat (core_count b) + length (used_items l) < 2 ^ 32"
    and "page_size b' \<noteq> 0" "off < page_size b'"
  shows "pager_get_fd b' off = None"
proof -
  let ?b = "b\<lparr>core_pages := replicate (if unat (pl_size l) < DEFAULT_PAGE_ALLOC
    then DEFAULT_PAGE_ALLOC else unat (pl_size l) + DEFAULT_PAGE_ALLOC) None\<rparr>"
  obtain b1 where b1: "open_pages crc (used_items l) ?b = Some b1" "b' = base_sync b1"
    using b0 l by (auto simp: Let_def bind_Some_iff split: if_splits)
  have "core_pages b1 ! 0 = None"
    using open_pages_keep[OF b1(1)] assms(3,4) by (simp split: if_splits)
  moreover have "unat (off div page_size b') = 0" using assms(6)
    by (simp add: unat_div_mod(1) word_less_nat_alt del: unsigned_eq_0_iff)
  then have "off div page_size b' = 0" by (simp only: unsigned_eq_0_iff)
  ultimately show ?thesis
    using assms(5) b1(2) by (simp add: pager_get_fd_def Let_def)
qed

end
