(* ===== verification/Store.thy ===== *)
theory Store imports
  Pager
begin

text \<open>
  The page files as one store of objects: the interface that the lists, the engine and the
  secondary index see.  \<open>cell_at\<close> is the object at a database offset; writing through
  \<open>store_cell\<close> changes one offset, \<open>pager_alloc\<close> yields offsets never in use before.  The locale
  \<open>chunk_chain\<close> captures the singly linked lists of fixed-size arrays that src/history.c,
  src/alias.c and src/index_list.c keep in the store.
\<close>

section \<open>Cells\<close>

definition page_keys :: "base \<Rightarrow> quid_short list" where
  "page_keys b = map (\<lambda>p. case p of None \<Rightarrow> QuidShort 0 0 0 0 0 0 | Some p \<Rightarrow> p_key p)
     (take (unat (core_count b)) (core_pages b))"

definition store_ok :: "base \<Rightarrow> bool" where
  "store_ok b \<longleftrightarrow> pager_wf b \<and> distinct (page_keys b) \<and> (\<forall>k\<in>set (page_keys b). disk b k \<noteq> None)"

definition valid :: "base \<Rightarrow> u64 \<Rightarrow> bool" where
  "valid b off \<longleftrightarrow> unat off div psz b < unat (core_count b)"

definition cell_at :: "base \<Rightarrow> u64 \<Rightarrow> cell option" where
  "cell_at b off = (case load_cell off b of None \<Rightarrow> None | Some c \<Rightarrow> c)"

abbreviation mark :: "base \<Rightarrow> nat" where
  "mark b \<equiv> unat (pager_offset b)"

text \<open>The next page key that the random stream yields is not in use.\<close>

definition fresh_page :: "base \<Rightarrow> bool" where
  "fresh_page b \<longleftrightarrow> fst (quid_short_create b) \<notin> set (page_keys b) \<and> core_count b + 1 \<noteq> 0"

lemma store_ok_wf [simp]: "store_ok b \<Longrightarrow> pager_wf b"
  by (simp add: store_ok_def)

lemma length_page_keys: "pages_ok b \<Longrightarrow> length (page_keys b) = unat (core_count b)"
  by (simp add: page_keys_def pages_ok_def)

lemma get_fd_keys:
  assumes "store_ok b" "valid b off"
  shows "pager_get_fd b off = Some (page_keys b ! (unat off div psz b), off mod page_size b)"
proof -
  have w: "pager_size b < MAX_PAGE_SIZE" "pages_ok b" using assms(1) by (auto simp: store_ok_def pager_wf_def)
  obtain p where p: "core_pages b ! (unat off div psz b) = Some p"
    "pager_get_fd b off = Some (p_key p, off mod page_size b)"
    using pager_get_fd_ok[OF w] assms(2) by (auto simp: valid_def)
  have "page_keys b ! (unat off div psz b) = p_key p"
    using assms(2) w(2) p(1) by (simp add: page_keys_def valid_def pages_ok_def)
  then show ?thesis using p(2) by simp
qed

lemma load_cell_ok:
  assumes "store_ok b" "valid b off"
  shows "load_cell off b = Some (cell_at b off)"
  using get_fd_keys[OF assms] by (simp add: cell_at_def load_cell_def)

lemma cell_at_keys:
  assumes "store_ok b" "valid b off"
  shows "cell_at b off = read_at (page_keys b ! (unat off div psz b)) (off mod page_size b) b"
  using get_fd_keys[OF assms] by (simp add: cell_at_def load_cell_def)

text \<open>Distinct offsets are distinct places.\<close>

lemma place_inj:
  assumes "store_ok b" "valid b x" "valid b y"
    and "page_keys b ! (unat x div psz b) = page_keys b ! (unat y div psz b)"
    and "x mod page_size b = y mod page_size b"
  shows "x = y"
proof -
  have "pages_ok b" using assms(1) by (auto simp: store_ok_def pager_wf_def)
  then have "unat x div psz b = unat y div psz b"
    using assms nth_eq_iff_index_eq[of "page_keys b"]
    by (auto simp: valid_def length_page_keys store_ok_def)
  moreover have "unat x mod psz b = unat y mod psz b"
    using assms(5) by (metis unat_div_mod(2))
  ultimately have "unat x = unat y" by (metis div_mult_mod_eq)
  then show ?thesis by (simp only: word_unat_eq_iff)
qed

lemma write_at_ok:
  assumes "store_ok b"
  shows "store_ok (write_at f o' c b) \<and> valid (write_at f o' c b) = valid b
    \<and> page_keys (write_at f o' c b) = page_keys b"
proof -
  have k: "page_keys (write_at f o' c b) = page_keys b" by (simp add: page_keys_def)
  have "disk (write_at f o' c b) k \<noteq> None" if "disk b k \<noteq> None" for k
    using that by (auto simp: write_at_def split: option.splits)
  then show ?thesis
    using assms k by (auto simp: store_ok_def pager_wf_def pages_ok_def valid_def fun_eq_iff)
qed

lemma store_cell_ok:
  assumes ok: "store_ok b" and v: "valid b off"
  obtains D where "store_cell off c b = Some (b\<lparr>disk := D\<rparr>)" "store_ok (b\<lparr>disk := D\<rparr>)"
    "\<And>x. valid b x \<Longrightarrow> cell_at (b\<lparr>disk := D\<rparr>) x = (if x = off then Some c else cell_at b x)"
proof -
  let ?f = "page_keys b ! (unat off div psz b)" and ?o = "off mod page_size b"
  let ?b = "write_at ?f ?o c b"
  have "pages_ok b" using ok by (auto simp: store_ok_def pager_wf_def)
  then have "?f \<in> set (page_keys b)" using v by (simp add: valid_def length_page_keys)
  then obtain m where m: "disk b ?f = Some m" using ok by (auto simp: store_ok_def)
  have b': "?b = b\<lparr>disk := disk ?b\<rparr>" by (rule write_at_disk)
  have s: "store_cell off c b = Some ?b" using get_fd_keys[OF ok v] by (simp add: store_cell_def)
  have w: "store_ok ?b" "valid ?b = valid b" "page_keys ?b = page_keys b"
    using write_at_ok[OF ok] by auto
  have "cell_at ?b x = (if x = off then Some c else cell_at b x)" if x: "valid b x" for x
  proof -
    have "cell_at ?b x = read_at (page_keys b ! (unat x div psz b)) (x mod page_size b) ?b"
      using cell_at_keys[OF w(1), of x] x w by simp
    moreover have "read_at g y ?b = (if g = ?f \<and> y = ?o then Some c else read_at g y b)" for g y
      using m by (auto simp: read_at_def write_at_def)
    ultimately show ?thesis
      using place_inj[OF ok x v] cell_at_keys[OF ok x] by auto
  qed
  then show ?thesis using that[of "disk ?b"] s w(1) b' by simp
qed

section \<open>Equal stores\<close>

text \<open>Operations on the other fields of a base do not touch the store.\<close>

definition same_store :: "base \<Rightarrow> base \<Rightarrow> bool" where
  "same_store b b' \<longleftrightarrow> core_count b = core_count b' \<and> core_pages b = core_pages b'
     \<and> pager_size b = pager_size b' \<and> disk b = disk b' \<and> pager_offset b = pager_offset b'"

lemma same_storeD:
  assumes "same_store b b'"
  shows "store_ok b = store_ok b'" "valid b = valid b'" "cell_at b = cell_at b'" "mark b = mark b'"
    "psz b = psz b'" "pager_get_fd b = pager_get_fd b'" "page_keys b = page_keys b'"
proof -
  have f: "core_count b = core_count b'" "core_pages b = core_pages b'" "page_size b = page_size b'"
    "disk b = disk b'" "pager_offset b = pager_offset b'" "pager_size b = pager_size b'"
    using assms by (auto simp: same_store_def page_size_def)
  show g: "pager_get_fd b = pager_get_fd b'" 
    by (rule ext, unfold pager_get_fd_def f, rule refl)
  show "page_keys b = page_keys b'" by (simp add: page_keys_def f)
  then show "store_ok b = store_ok b'" by (simp add: store_ok_def pager_wf_def pages_ok_def f)
  show "valid b = valid b'" by (simp add: valid_def f fun_eq_iff)
  show "cell_at b = cell_at b'" by (simp add: cell_at_def load_cell_def g read_at_def f fun_eq_iff)
  show "mark b = mark b'" "psz b = psz b'" by (simp_all add: f)
qed

lemma same_store_simps [simp]:
  "same_store (base_sync b) b" "same_store (b\<lparr>off_history := x\<rparr>) b" "same_store (b\<lparr>off_alias := x\<rparr>) b"
  "same_store (b\<lparr>off_index_list := x\<rparr>) b" "same_store (b\<lparr>st_alias_size := x\<rparr>) b"
  "same_store (b\<lparr>st_index_list_size := x\<rparr>) b" "same_store (b\<lparr>err := e\<rparr>) b"
  by (simp_all add: same_store_def)

lemmas sync_store [simp] = same_storeD[OF same_store_simps(1)]
lemmas off_history_store [simp] = same_storeD[OF same_store_simps(2)]
lemmas off_alias_store [simp] = same_storeD[OF same_store_simps(3)]
lemmas off_index_store [simp] = same_storeD[OF same_store_simps(4)]
lemmas st_alias_store [simp] = same_storeD[OF same_store_simps(5)]
lemmas st_index_store [simp] = same_storeD[OF same_store_simps(6)]
lemmas err_store [simp] = same_storeD[OF same_store_simps(7)]

section \<open>Allocation as the store sees it\<close>

lemma create_page_key:
  defines "key \<equiv> \<lambda>b. fst (quid_short_create b)"
  shows "\<exists>m. disk (create_page b) = (disk b)(key b := Some m)"
    and "pages_ok b \<Longrightarrow> core_count b + 1 \<noteq> 0 \<Longrightarrow>
      page_keys (create_page b) = page_keys b @ [key b]"
proof -
  let ?k = "key b" and ?p = "Page (ucast (pager_sequence b)) (key b) EXSTAT_CHECKPOINT"
  define b0 where "b0 = b\<lparr>rnd_pos := rnd_pos b + 6, pager_sequence := pager_sequence b + 1,
    disk := (disk b)(?k := Some (\<lambda>_. None))\<rparr>"
  have c: "create_page b = flush_page ?p (base_list_add ?k (add_page ?p
      (flush_page (Page (ucast (pager_sequence b)) ?k EXSTAT_INVALID) b0)))"
    unfolding key_def b0_def
    by (subst create_page_def, subst quid_short_create_eq) (simp add: Let_def)
  have fl: "\<exists>m. disk (flush_page q x) = (disk x)(p_key q := Some m)" if "disk x (p_key q) \<noteq> None" for q x
    using that by (auto simp: flush_page_def write_at_def)
  let ?b1 = "flush_page (Page (ucast (pager_sequence b)) ?k EXSTAT_INVALID) b0"
  obtain m1 where m1: "disk ?b1 = (disk b)(?k := Some m1)"
    using fl[of b0 "Page (ucast (pager_sequence b)) ?k EXSTAT_INVALID"] by (auto simp: b0_def)
  then show "\<exists>m. disk (create_page b) = (disk b)(?k := Some m)"
    unfolding c using fl[of "base_list_add ?k (add_page ?p ?b1)" ?p] by simp
  assume ok: "pages_ok b" "core_count b + 1 \<noteq> 0"
  have "pages_ok ?b1" "core_count ?b1 + 1 \<noteq> 0" "core_count ?b1 = core_count b" "core_pages ?b1 = core_pages b"
    using ok by (simp_all add: pages_ok_def b0_def)
  then show "page_keys (create_page b) = page_keys b @ [?k]"
    using add_page_pages[of ?b1 ?p] by (simp add: page_keys_def c)
qed

text \<open>What an allocation promises: a valid offset behind everything handed out so far, and no change below.\<close>

definition alloc_post :: "base \<Rightarrow> u64 \<Rightarrow> u64 \<Rightarrow> base \<Rightarrow> bool" where
  "alloc_post b len off b' \<longleftrightarrow> store_ok b' \<and> valid b' off \<and> psz b' = psz b \<and> 0 < unat off
     \<and> mark b \<le> unat off \<and> mark b' = unat off + unat len
     \<and> (\<forall>x. valid b x \<longrightarrow> valid b' x \<and> cell_at b' x = cell_at b x) \<and> but_pager b' = but_pager b"

definition fits :: "base \<Rightarrow> u64 \<Rightarrow> bool" where
  "fits b len \<longleftrightarrow> 0 < len \<and> unat sizeof_page + unat len < psz b"

lemma mark_mod_add:
  assumes "pager_size b < MAX_PAGE_SIZE" "unat len < psz b"
  shows "unat (pager_offset b mod page_size b + len) = mark b mod psz b + unat len"
proof -
  have "mark b mod psz b < 2 ^ 30" "unat len < 2 ^ 30"
    using less_le_trans[OF mod_less_divisor[OF psz_bounds(3)[OF assms(1)], of "mark b"] psz_bounds(2)[OF assms(1)]]
      assms(2) psz_bounds(2)[OF assms(1)] by simp_all
  then show ?thesis by (subst unat_add_no_wrap) (simp_all add: unat_div_mod)
qed

lemma pager_alloc_ok:
  assumes ok: "store_ok b" and fresh: "fresh_page b" and len: "fits b len"
  shows "\<exists>off b'. pager_alloc b len = Some (off, b') \<and> alloc_post b len off b'"
proof -
  have wf: "pager_wf b" using ok by simp
  have ps: "pager_size b < MAX_PAGE_SIZE" "pages_ok b" using wf by (auto simp: pager_wf_def)
  have len': "0 < len" "unat sizeof_page + unat len < psz b" using len by (auto simp: fits_def)
  have count: "core_count b + 1 \<noteq> 0" using fresh by (simp add: fresh_page_def)
  obtain off b' q where a: "pager_alloc b len = Some (off, b')" "pager_wf b'" "page_size b' = page_size b"
    "unat (core_count b) \<le> unat (core_count b')" "unat (pager_offset b) \<le> unat off"
    "unat (pager_offset b') = unat off + unat len" "q < unat (core_count b')" "in_page (psz b) q off len"
    using pager_alloc_range[OF wf count len'] by blast
  have pos: "0 < unat off" using a(8) by (auto simp: in_page_def intro!: Nat.gr0I)
  have chg: "disk b' = disk b \<and> page_keys b' = page_keys b
      \<or> (\<exists>m k. disk b' = (disk b)(k := Some m) \<and> page_keys b' = page_keys b @ [k] \<and> k \<notin> set (page_keys b))"
  proof (cases "unat (pager_offset b) mod psz b + unat len < psz b")
    case True
    then have "b' = b\<lparr>pager_offset := pager_offset b + len\<rparr>"
      using pager_alloc_same[OF wf len'(1)] a(1) by simp
    then show ?thesis by (simp add: page_keys_def)
  next
    case False
    have "unat (pager_offset b mod page_size b + len) = mark b mod psz b + unat len"
      using len'(2) by (intro mark_mod_add[OF ps(1)]) simp
    then have "b' = base_sync ((create_page b)\<lparr>pager_offset := off + len\<rparr>)"
      using a(1) False by (auto simp: pager_alloc_def Let_def word_le_nat_alt split: if_splits)
    then have e: "disk b' = disk (create_page b)" "page_keys b' = page_keys (create_page b)"
      by (simp_all add: page_keys_def)
    obtain m where "disk (create_page b) = (disk b)(fst (quid_short_create b) := Some m)"
      using create_page_key(1) by blast
    then show ?thesis
      unfolding e create_page_key(2)[OF ps(2) count] using fresh
      by (intro disjI2 exI[of _ m] exI[of _ "fst (quid_short_create b)"])
        (simp add: fresh_page_def)
  qed
  then have "distinct (page_keys b') \<and> (\<forall>k\<in>set (page_keys b'). disk b' k \<noteq> None)"
    using ok unfolding store_ok_def by (elim disjE exE conjE) simp_all
  then have ok': "store_ok b'" using a(2) by (simp add: store_ok_def)
  moreover have "valid b' off" using a(3,7,8) by (simp add: valid_def in_page_def)
  moreover have "valid b' x \<and> cell_at b' x = cell_at b x" if x: "valid b x" for x
  proof -
    have v: "valid b' x" using x a(3,4) by (simp add: valid_def)
    have "unat x div psz b < length (page_keys b)" using x ps(2) by (simp add: valid_def length_page_keys)
    then have "page_keys b' ! (unat x div psz b) = page_keys b ! (unat x div psz b)"
      "disk b' (page_keys b ! (unat x div psz b)) = disk b (page_keys b ! (unat x div psz b))"
      using chg nth_mem[of "unat x div psz b" "page_keys b"] by (elim disjE exE conjE; force simp: nth_append)+
    then show ?thesis
      using v cell_at_keys[OF ok x] cell_at_keys[OF ok' v] a(3) by (simp add: read_at_def)
  qed
  moreover have "but_pager b' = but_pager b" by (rule pager_alloc_frame[OF a(1)])
  ultimately show ?thesis
    using ok' a(1,3,5,6) pos by (intro exI[of _ off] exI[of _ b'] conjI) (simp_all add: alloc_post_def)
qed

section \<open>Linked lists of fixed-size arrays\<close>

text \<open>The object of a given kind at an offset.\<close>

definition obj_at :: "(cell \<Rightarrow> 'l option) \<Rightarrow> base \<Rightarrow> u64 \<Rightarrow> 'l option" where
  "obj_at unwrap b off = Option.bind (cell_at b off) unwrap"

text \<open>Following the links from \<open>off\<close> visits exactly the given arrays at the given offsets.\<close>

fun linked :: "(u64 \<Rightarrow> 'l option) \<Rightarrow> ('l \<Rightarrow> u64) \<Rightarrow> u64 \<Rightarrow> (u64 \<times> 'l) list \<Rightarrow> bool" where
  "linked get link off [] \<longleftrightarrow> off = 0"
| "linked get link off ((p, l) # ls) \<longleftrightarrow>
     off = p \<and> p \<noteq> 0 \<and> get p = Some l \<and> linked get link (link l) ls"

definition chain_at :: "(cell \<Rightarrow> 'l option) \<Rightarrow> ('l \<Rightarrow> u64) \<Rightarrow> base \<Rightarrow> u64 \<Rightarrow> (u64 \<times> 'l) list \<Rightarrow> bool" where
  "chain_at unwrap link b off ls \<longleftrightarrow> store_ok b \<and> linked (obj_at unwrap b) link off ls
     \<and> (\<forall>p\<in>fst ` set ls. valid b p \<and> unat p < mark b) \<and> distinct (map fst ls)"

lemma linked_cong:
  "\<forall>p\<in>fst ` set ls. get p = get' p \<Longrightarrow> linked get link off ls = linked get' link off ls"
  by (induction ls arbitrary: off) auto

lemma linked_update:
  assumes "linked get link off ls" "i < length ls" "link l' = link (snd (ls ! i))" "distinct (map fst ls)"
  shows "linked (get(fst (ls ! i) := Some l')) link off (ls[i := (fst (ls ! i), l')])"
  using assms
proof (induction ls arbitrary: off i)
  case (Cons x ls)
  obtain p l where x: "x = (p, l)" by fastforce
  show ?case
  proof (cases i)
    case 0
    then have "linked (get(p := Some l')) link (link l) ls = linked get link (link l) ls"
      using Cons.prems(4) x by (intro linked_cong) auto
    then show ?thesis using Cons.prems 0 x by (auto simp: fun_upd_def)
  next
    case (Suc j)
    have "p \<noteq> fst (ls ! j)"
      using Cons.prems(2,4) x Suc by (metis distinct.simps(2) fst_conv length_Cons list.map(2)
          not_less_eq nth_map nth_mem length_map)
    then show ?thesis using Cons Suc x by auto
  qed
qed simp

text \<open>The items of all arrays of a chain, in the order in which they are visited.\<close>

definition chain_items :: "('l \<Rightarrow> 'i list) \<Rightarrow> (u64 \<times> 'l) list \<Rightarrow> 'i list" where
  "chain_items used ls = concat (map (used \<circ> snd) ls)"

lemma chain_items_simps [simp]:
  "chain_items used [] = []" "chain_items used ((p, l) # ls) = used l @ chain_items used ls"
  by (simp_all add: chain_items_def)

lemma find_append: "find P (xs @ ys) = (case find P xs of None \<Rightarrow> find P ys | Some x \<Rightarrow> Some x)"
  by (induction xs) auto

lemma find_index_append:
  "find_index P (xs @ ys) = (case find_index P xs of Some i \<Rightarrow> Some i
     | None \<Rightarrow> map_option (\<lambda>i. length xs + i) (find_index P ys))"
  by (induction xs; cases "find_index P ys") (auto split: option.split)

lemma chain_items_update:
  assumes "find_index (\<lambda>pl. find_index P (used (snd pl)) \<noteq> None) ls = Some k"
    "find_index P (used (snd (ls ! k))) = Some i" "used l' = (used (snd (ls ! k)))[i := z]"
  shows "\<exists>n. find_index P (chain_items used ls) = Some n \<and> chain_items used (ls[k := (p, l')]) = (chain_items used ls)[n := z]"
  using assms
proof (induction ls arbitrary: k)
  case (Cons x ls)
  obtain q l where x: "x = (q, l)" by fastforce
  show ?case
  proof (cases "find_index P (used l)")
    case None
    then obtain j where j: "find_index (\<lambda>pl. find_index P (used (snd pl)) \<noteq> None) ls = Some j" "k = Suc j"
      using Cons.prems(1) x by auto
    then obtain n where "find_index P (chain_items used ls) = Some n"
      "chain_items used (ls[j := (p, l')]) = (chain_items used ls)[n := z]"
      using Cons.IH[of j] Cons.prems x by auto
    then show ?thesis using None j x by (simp add: find_index_append list_update_append)
  next
    case (Some a)
    then have "k = 0" "a = i" using Cons.prems x by auto
    then show ?thesis
      using Some Cons.prems x find_index_Some[OF Some]
      by (simp add: find_index_append list_update_append)
  qed
qed simp

lemma chain_items_none:
  "find_index (\<lambda>pl. find_index P (used (snd pl)) \<noteq> None) ls = None \<longleftrightarrow> find_index P (chain_items used ls) = None"
  by (induction ls) (auto simp: chain_items_def find_index_append split: option.splits)

lemma chain_at_same_store:
  assumes "same_store b b'" shows "chain_at u k b off ls = chain_at u k b' off ls"
proof -
  have "obj_at u b = obj_at u b'" by (simp add: obj_at_def same_storeD[OF assms] fun_eq_iff)
  then show ?thesis by (simp add: chain_at_def same_storeD[OF assms])
qed

lemma quid_short_create_cong:
  assumes "rnd_stream e = rnd_stream e'" "rnd_pos e = rnd_pos e'"
  shows "fst (quid_short_create e) = fst (quid_short_create e')"
  using assms by (simp add: quid_short_create_def arc4random_def Let_def)

lemma disk_frame [simp]:
  "fresh_page (b\<lparr>disk := D\<rparr>) = fresh_page b" "fits (b\<lparr>disk := D\<rparr>) len = fits b len"
  using quid_short_create_cong[of "b\<lparr>disk := D\<rparr>" b]
  by (simp_all add: fresh_page_def page_keys_def fits_def)

lemma valid_disk [simp]: "valid (b\<lparr>disk := D\<rparr>) = valid b"
  by (simp add: valid_def fun_eq_iff)

lemma take_first_update: "xs \<noteq> [] \<Longrightarrow> take (Suc 0) (xs[0 := z]) = [z]"
  by (cases xs) auto

locale chunk_chain =
  fixes wrap :: "'l \<Rightarrow> cell" and unwrap :: "cell \<Rightarrow> 'l option" and link :: "'l \<Rightarrow> u64"
  assumes unwrap_wrap [simp]: "unwrap (wrap l) = Some l"
begin

text \<open>Rewriting one array in place, its link unchanged.\<close>

lemma rewrite:
  assumes c: "chain_at unwrap link b off ls" and i: "i < length ls"
    and l: "link l' = link (snd (ls ! i))"
  obtains D where "store_cell (fst (ls ! i)) (wrap l') b = Some (b\<lparr>disk := D\<rparr>)"
    "chain_at unwrap link (b\<lparr>disk := D\<rparr>) off (ls[i := (fst (ls ! i), l')])"
    "\<And>x. valid b x \<Longrightarrow> x \<noteq> fst (ls ! i) \<Longrightarrow> cell_at (b\<lparr>disk := D\<rparr>) x = cell_at b x"
proof -
  have ok: "store_ok b" and v: "\<forall>p\<in>fst ` set ls. valid b p \<and> unat p < mark b"
    and d: "distinct (map fst ls)" using c by (auto simp: chain_at_def)
  have vi: "valid b (fst (ls ! i))" using v i by (simp add: nth_mem)
  obtain D where D: "store_cell (fst (ls ! i)) (wrap l') b = Some (b\<lparr>disk := D\<rparr>)"
    "store_ok (b\<lparr>disk := D\<rparr>)"
    "\<And>x. valid b x \<Longrightarrow> cell_at (b\<lparr>disk := D\<rparr>) x = (if x = fst (ls ! i) then Some (wrap l') else cell_at b x)"
    using store_cell_ok[OF ok vi] by blast
  have dom: "fst ` set (ls[i := (fst (ls ! i), l')]) = fst ` set ls"
    using i by (metis fst_conv list_update_id map_update set_map)
  have "linked (obj_at unwrap (b\<lparr>disk := D\<rparr>)) link off (ls[i := (fst (ls ! i), l')])
      = linked ((obj_at unwrap b)(fst (ls ! i) := Some l')) link off (ls[i := (fst (ls ! i), l')])"
    using v D(3) by (intro linked_cong) (auto simp: dom obj_at_def)
  also have "\<dots>" using c i l d by (intro linked_update) (auto simp: chain_at_def)
  finally have "chain_at unwrap link (b\<lparr>disk := D\<rparr>) off (ls[i := (fst (ls ! i), l')])"
    using D(2) v d dom i
    by (simp add: chain_at_def valid_def map_update) (metis fst_conv list_update_id nth_map)
  then show ?thesis using that D by auto
qed

text \<open>A new array in front, at an offset just allocated.\<close>

lemma prepend:
  assumes c: "chain_at unwrap link b off ls" and a: "alloc_post b len p b1" and l: "link l = off"
    and len: "0 < len"
  obtains D where "store_cell p (wrap l) b1 = Some (b1\<lparr>disk := D\<rparr>)"
    "chain_at unwrap link (b1\<lparr>disk := D\<rparr>) p ((p, l) # ls)"
    "\<And>x. valid b x \<Longrightarrow> unat x < mark b \<Longrightarrow> cell_at (b1\<lparr>disk := D\<rparr>) x = cell_at b x"
proof -
  have ok: "store_ok b" and v: "\<forall>p\<in>fst ` set ls. valid b p \<and> unat p < mark b"
    and d: "distinct (map fst ls)" using c by (auto simp: chain_at_def)
  have a': "store_ok b1" "valid b1 p" "0 < unat p" "mark b \<le> unat p" "mark b1 = unat p + unat len"
    "\<And>x. valid b x \<Longrightarrow> valid b1 x \<and> cell_at b1 x = cell_at b x"
    using a by (auto simp: alloc_post_def)
  obtain D where D: "store_cell p (wrap l) b1 = Some (b1\<lparr>disk := D\<rparr>)"
    "store_ok (b1\<lparr>disk := D\<rparr>)"
    "\<And>x. valid b1 x \<Longrightarrow> cell_at (b1\<lparr>disk := D\<rparr>) x = (if x = p then Some (wrap l) else cell_at b1 x)"
    using store_cell_ok[OF a'(1,2)] by blast
  have same: "cell_at (b1\<lparr>disk := D\<rparr>) x = cell_at b x" if "valid b x" "unat x < mark b" for x
    using D(3)[of x] a'(4) a'(6)[OF that(1)] that(2) by auto
  have "linked (obj_at unwrap (b1\<lparr>disk := D\<rparr>)) link off ls = linked (obj_at unwrap b) link off ls"
    using v same by (intro linked_cong) (auto simp: obj_at_def)
  then have "linked (obj_at unwrap (b1\<lparr>disk := D\<rparr>)) link off ls" using c by (simp add: chain_at_def)
  moreover have "obj_at unwrap (b1\<lparr>disk := D\<rparr>) p = Some l"
    using D(3)[OF a'(2)] by (simp add: obj_at_def)
  moreover have "p \<notin> fst ` set ls" using v a'(4) by auto
  moreover have "p \<noteq> 0" using a'(3) by auto
  moreover have "\<forall>q\<in>fst ` set ls. valid b1 q \<and> unat q < mark b1"
    using v a'(4,5) a'(6) by fastforce
  moreover have "unat p < mark b1" using a'(5) len by (simp add: unat_gt_0 word_neq_0_conv)
  ultimately have "chain_at unwrap link (b1\<lparr>disk := D\<rparr>) p ((p, l) # ls)"
    using D(2) a'(2) d l by (auto simp: chain_at_def valid_def)
  then show ?thesis using that D(1) same by blast
qed

end

section \<open>Searching a chain\<close>

text \<open>
  The loop of src/alias.c and src/index_list.c: walk the arrays of a chain, skip dead items, stop at the first item that
  passes a test.  The laws are the equations of the code; what the search finds is the first such
  item of the whole chain, and rewriting that item rewrites it in the sequence of all items.
\<close>

locale chain_reader = chunk_chain wrap unwrap link
  for wrap :: "'l \<Rightarrow> cell" and unwrap :: "cell \<Rightarrow> 'l option" and link :: "'l \<Rightarrow> u64" +
  fixes get :: "base \<Rightarrow> u64 \<Rightarrow> 'l option"
    and used :: "'l \<Rightarrow> 'i list"
    and fine :: "'l \<Rightarrow> bool"
    and live :: "'i \<Rightarrow> bool"
    and scan :: "base \<Rightarrow> ('i \<Rightarrow> bool) \<Rightarrow> u64 \<Rightarrow> (u64 \<times> 'l \<times> nat) option option"
  assumes get_law: "get b off = do { c \<leftarrow> load_cell off b; c \<leftarrow> c; unwrap c }"
    and scan_law: "scan b P off =
      (if off = 0 then Some None
       else do {
         l \<leftarrow> get b off;
         zassert (fine l);
         (case find_index (\<lambda>it. live it \<and> P it) (used l) of
            Some i \<Rightarrow> Some (Some (off, l, i))
          | None \<Rightarrow> scan b P (link l)) })"
begin

lemma get_ok:
  assumes "store_ok b" "valid b p" "obj_at unwrap b p = Some l"
  shows "get b p = Some l"
  using assms load_cell_ok[of b p] by (simp add: get_law obj_at_def)

lemma scan_eq:
  assumes "store_ok b" "linked (obj_at unwrap b) link off ls" "\<forall>p\<in>fst ` set ls. valid b p"
    "\<forall>l\<in>snd ` set ls. fine l"
  shows "scan b P off =
    Some (case find_index (\<lambda>pl. find_index (\<lambda>it. live it \<and> P it) (used (snd pl)) \<noteq> None) ls of
       None \<Rightarrow> None
     | Some k \<Rightarrow> map_option (\<lambda>i. (fst (ls ! k), snd (ls ! k), i)) (find_index (\<lambda>it. live it \<and> P it) (used (snd (ls ! k)))))"
  using assms
proof (induction ls arbitrary: off)
  case Nil
  then show ?case by (subst scan_law) simp
next
  case (Cons x ls)
  obtain p l where x: "x = (p, l)" by fastforce
  then show ?case
    using Cons by (subst scan_law) (auto simp: get_ok split: option.split)
qed

lemma scan_chain:
  assumes "chain_at unwrap link b off ls" "\<forall>l\<in>snd ` set ls. fine l"
  shows "(\<forall>it\<in>set (chain_items used ls). live it \<longrightarrow> \<not> P it) \<and> scan b P off = Some None
    \<or> (\<exists>k i n. k < length ls \<and> i < length (used (snd (ls ! k)))
         \<and> scan b P off = Some (Some (fst (ls ! k), snd (ls ! k), i))
         \<and> find_index (\<lambda>it. live it \<and> P it) (chain_items used ls) = Some n
         \<and> used (snd (ls ! k)) ! i = chain_items used ls ! n
         \<and> (\<forall>p l' z. used l' = (used (snd (ls ! k)))[i := z] \<longrightarrow>
              chain_items used (ls[k := (p, l')]) = (chain_items used ls)[n := z]))"
proof -
  let ?Q = "\<lambda>it. live it \<and> P it"
  note eq = scan_eq[of b off ls P]
  have c: "store_ok b" "linked (obj_at unwrap b) link off ls" "\<forall>p\<in>fst ` set ls. valid b p"
    using assms(1) by (auto simp: chain_at_def)
  show ?thesis
  proof (cases "find_index (\<lambda>pl. find_index ?Q (used (snd pl)) \<noteq> None) ls")
    case None
    have "find_index ?Q (chain_items used ls) = None"
      using None by (simp only: chain_items_none[of ?Q used ls])
    then have "\<forall>it\<in>set (chain_items used ls). live it \<longrightarrow> \<not> P it" unfolding find_index_None by blast
    moreover have "scan b P off = Some None" unfolding eq[OF c assms(2)] None by simp
    ultimately show ?thesis by blast
  next
    case (Some k)
    then obtain i where i: "find_index ?Q (used (snd (ls ! k))) = Some i" "k < length ls"
      using find_index_Some[OF Some] by auto
    have u: "\<exists>n. find_index ?Q (chain_items used ls) = Some n \<and> chain_items used (ls[k := (p, l')]) = (chain_items used ls)[n := z]"
      if "used l' = (used (snd (ls ! k)))[i := z]" for p l' z
      by (rule chain_items_update[OF Some i(1) that])
    have same: "ls[k := (fst (ls ! k), snd (ls ! k))] = ls" by simp
    obtain n where n: "find_index ?Q (chain_items used ls) = Some n"
      "chain_items used ls = (chain_items used ls)[n := used (snd (ls ! k)) ! i]"
      using u[of "snd (ls ! k)" "used (snd (ls ! k)) ! i" "fst (ls ! k)"] unfolding same by auto
    have "n < length (chain_items used ls)" using find_index_Some[OF n(1)] by simp
    then have "chain_items used ls ! n = used (snd (ls ! k)) ! i" using n(2) by (metis nth_list_update_eq)
    moreover have "i < length (used (snd (ls ! k)))" using find_index_Some[OF i(1)] by simp
    moreover have "scan b P off = Some (Some (fst (ls ! k), snd (ls ! k), i))"
      unfolding eq[OF c assms(2)] Some option.case i(1) by simp
    moreover have "chain_items used (ls[k := (p, l')]) = (chain_items used ls)[n := z]"
      if "used l' = (used (snd (ls ! k)))[i := z]" for p l' z
      using u[OF that, of p] n(1) by auto
    ultimately show ?thesis using i(2) n(1) by (intro disjI2 exI[of _ k] exI[of _ i] exI[of _ n]) simp
  qed
qed

end

section \<open>Two bases\<close>

text \<open>Two bases of one process share the environment, the files and the error.\<close>

definition share :: "base \<Rightarrow> base \<Rightarrow> base" where
  "share b nb = nb\<lparr>rnd_stream := rnd_stream b, rnd_pos := rnd_pos b, clock := clock b,
     clock_pos := clock_pos b, tick_inited := tick_inited b, time_last := time_last b,
     ids_this_tick := ids_this_tick b, disk := disk b, exit_stat := exit_stat b, err := err b\<rparr>"

section \<open>A small base\<close>

text \<open>
  One empty page of 4 MB under a key of its own, to evaluate the operations on: \<open>demo m\<close> has the
  content \<open>m\<close> and the allocation mark \<open>n\<close>.
\<close>

definition demo_key :: quid_short where
  "demo_key = QuidShort 9 9 9 9 9 9"

definition demo :: "nat \<Rightarrow> content \<Rightarrow> base" where
  "demo n m = \<lparr>rnd_stream = (\<lambda>n. of_nat n), rnd_pos = 0, clock = (\<lambda>n. (of_nat n, 0)), clock_pos = 0,
     tick_inited = False, time_last = 0, ids_this_tick = 0,
     instance_name = ''QUANTZ_AAAA'', instance_key = zero_quid, base_lock_flag = False,
     pager_sequence = 2, pager_offset = of_nat n, pager_size = DEFAULT_PAGE_SIZE,
     off_zero = 0, off_heap = 0, off_alias = 0, off_history = 0, off_index_list = 0,
     st_zero_size = 0, st_zero_free_size = 0, st_heap_free_size = 0, st_alias_size = 0,
     st_index_list_size = 0, page_list_count = 0, core_count = 1,
     core_pages = [Some (Page 1 demo_key EXSTAT_CHECKPOINT)],
     e_top = 0, e_free_top = 0, e_last_block = 0, e_lock = False,
     e_cache = replicate CACHE_SLOTS (0, zero_table), e_dbcache = replicate DBCACHE_SLOTS (0, 0),
     control = None, disk = (\<lambda>k. if k = demo_key then Some m else None),
     exit_stat = EXSTAT_CHECKPOINT, err = None\<rparr>"

lemma demo_psz [simp]: "page_size (demo n m) = 4194304"
  by (simp add: page_size_def demo_def)

lemma demo_keys [simp]: "page_keys (demo n m) = [demo_key]"
  by (simp add: page_keys_def demo_def)

lemma demo_mark: "n < 2 ^ 64 \<Longrightarrow> mark (demo n m) = n"
  by (simp add: demo_def unat_of_nat)

lemma demo_ok:
  assumes "17 \<le> n" "n < 4194304"
  shows "store_ok (demo n m)"
proof -
  have "mark (demo n m) = n" using assms(2) by (intro demo_mark) simp
  moreover have "n div 4194304 = 0" "n mod 4194304 = n" using assms(2) by simp_all
  moreover have "pages_ok (demo n m)" by (simp add: pages_ok_def demo_def)
  moreover have "pager_size (demo n m) = 10" "core_count (demo n m) = 1" by (simp_all add: demo_def)
  ultimately have "pager_wf (demo n m)"
    using assms(1) by (simp add: pager_wf_def)
  then show ?thesis by (simp add: store_ok_def) (simp add: demo_def)
qed

lemma demo_fresh: "fresh_page (demo n m)"
  by (simp add: fresh_page_def) (simp add: demo_def demo_key_def quid_short_create_def arc4random_def)

lemma demo_valid: "unat off < 4194304 \<Longrightarrow> valid (demo n m) off"
  by (simp add: valid_def) (simp add: demo_def)

lemma demo_cell:
  assumes "17 \<le> n" "n < 4194304" "unat off < 4194304"
  shows "cell_at (demo n m) off = m off"
proof -
  have "off mod 4194304 = off" using assms(3)
    by (simp only: word_unat_eq_iff unat_div_mod) simp
  then show ?thesis
    using cell_at_keys[OF demo_ok[OF assms(1,2)] demo_valid[OF assms(3)]] assms(3)
    by (simp add: read_at_def) (simp add: demo_def)
qed

lemma demo_fits: "0 < len \<Longrightarrow> unat len < 4194287 \<Longrightarrow> fits (demo n m) len"
  by (simp add: fits_def)

end
