(* ===== verification/History.thy ===== *)
theory History imports
  Store
begin

text \<open>
  The version history: src/history.c.  Every replaced data block is recorded as an entry
  \<open>(key, version, offset)\<close> in a chain of lists of 32; the head list is the one being filled.  The
  theory gives the chain its meaning as one sequence of entries, states each operation as an
  operation on that sequence, and shows what version numbers \<open>history_add\<close> assigns.
\<close>

section \<open>Operations\<close>

text \<open>
  A failed read throws a fatal error and yields \<open>NULL\<close>, which every caller dereferences: \<open>None\<close>.
\<close>

fun unwrap_hist :: "cell \<Rightarrow> history_list option" where
  "unwrap_hist (CHist l) = Some l"
| "unwrap_hist _ = None"

definition get_history_list :: "base \<Rightarrow> u64 \<Rightarrow> history_list option" where
  "get_history_list b off = do {
     c \<leftarrow> load_cell off b;
     c \<leftarrow> c;
     unwrap_hist c }"

definition flush_history_list :: "base \<Rightarrow> history_list \<Rightarrow> u64 \<Rightarrow> base option" where
  "flush_history_list b l off = store_cell off (CHist l) b"

definition h_used :: "history_list \<Rightarrow> history_item list" where
  "h_used l = take (unat (h_size l)) (h_items l)"

definition zero_history_item :: history_item where
  "zero_history_item = \<lparr>h_quid = zero_quid, h_version = 0, h_offset = 0\<rparr>"

definition zero_history_list :: history_list where
  "zero_history_list = \<lparr>h_items = replicate HISTORY_LIST_SIZE zero_history_item, h_size = 0, h_link = 0\<rparr>"

text \<open>Every matching entry overwrites \<open>version\<close>: the last one visited decides.\<close>

definition last_version :: "quid \<Rightarrow> history_item list \<Rightarrow> u16 \<Rightarrow> u16" where
  "last_version q its v =
     foldl (\<lambda>v it. if quidcmp q (h_quid it) = 0 then h_version it else v) v its"

partial_function (option) next_version_loop :: "base \<Rightarrow> quid \<Rightarrow> u64 \<Rightarrow> u16 \<Rightarrow> u16 option" where
  "next_version_loop b q off version =
     (if off = 0 then Some version
      else do {
        l \<leftarrow> get_history_list b off;
        zassert (unat (h_size l) \<le> HISTORY_LIST_SIZE);
        next_version_loop b q (h_link l) (last_version q (h_used l) version) })"

text \<open>\<open>version\<close> is a \<open>short\<close> that starts as -1.\<close>

definition history_get_next_version :: "base \<Rightarrow> quid \<Rightarrow> u16 option" where
  "history_get_next_version b q = do {
     version \<leftarrow> next_version_loop b q (off_history b) (- 1);
     Some (if version \<noteq> - 1 then version + 1 else 0) }"

abbreviation (input) no_history :: "base \<Rightarrow> base" where
  "no_history \<equiv> error_throw ''595a8ca9706d'' ''Key has no history''"

definition is_version :: "quid \<Rightarrow> u16 \<Rightarrow> history_item \<Rightarrow> bool" where
  "is_version q v it \<longleftrightarrow> h_offset it \<noteq> 0 \<and> quidcmp q (h_quid it) = 0 \<and> h_version it = v"

partial_function (option) version_offset_loop :: "base \<Rightarrow> quid \<Rightarrow> u16 \<Rightarrow> u64 \<Rightarrow> (u64 \<times> base) option" where
  "version_offset_loop b q version off =
     (if off = 0 then Some (0, no_history b)
      else do {
        l \<leftarrow> get_history_list b off;
        zassert (unat (h_size l) \<le> HISTORY_LIST_SIZE);
        (case find (is_version q version) (h_used l) of
           Some it \<Rightarrow> Some (h_offset it, b)
         | None \<Rightarrow> version_offset_loop b q version (h_link l)) })"

definition history_get_version_offset :: "base \<Rightarrow> quid \<Rightarrow> u16 \<Rightarrow> (u64 \<times> base) option" where
  "history_get_version_offset b q version = version_offset_loop b q version (off_history b)"

definition is_entry :: "quid \<Rightarrow> history_item \<Rightarrow> bool" where
  "is_entry q it \<longleftrightarrow> h_offset it \<noteq> 0 \<and> quidcmp q (h_quid it) = 0"

partial_function (option) count_loop :: "base \<Rightarrow> quid \<Rightarrow> u64 \<Rightarrow> nat \<Rightarrow> nat option" where
  "count_loop b q off counter =
     (if off = 0 then Some counter
      else do {
        l \<leftarrow> get_history_list b off;
        zassert (unat (h_size l) \<le> HISTORY_LIST_SIZE);
        count_loop b q (h_link l) (counter + length (filter (is_entry q) (h_used l))) })"

definition history_count :: "base \<Rightarrow> quid \<Rightarrow> nat option" where
  "history_count b q = count_loop b q (off_history b) 0"

partial_function (option) history_delete_loop :: "base \<Rightarrow> u64 \<Rightarrow> u64 \<Rightarrow> (int \<times> base) option" where
  "history_delete_loop b data_offset off =
     (if off = 0 then Some (- 1, no_history b)
      else do {
        l \<leftarrow> get_history_list b off;
        zassert (unat (h_size l) \<le> HISTORY_LIST_SIZE);
        (case find_index (\<lambda>it. h_offset it = data_offset) (h_used l) of
           Some i \<Rightarrow> do {
             b \<leftarrow> flush_history_list b (l\<lparr>h_items := (h_items l)[i := zero_history_item]\<rparr>) off;
             Some (0, b) }
         | None \<Rightarrow> history_delete_loop b data_offset (h_link l)) })"

definition history_delete :: "base \<Rightarrow> u64 \<Rightarrow> (int \<times> base) option" where
  "history_delete b data_offset = history_delete_loop b data_offset (off_history b)"

text \<open>The second bound: an entry behind the array would overwrite the list's size and link.\<close>

definition history_add :: "base \<Rightarrow> quid \<Rightarrow> u64 \<Rightarrow> (int \<times> base) option" where
  "history_add b q offset = do {
     b \<leftarrow> (if off_history b \<noteq> 0 then do {
          l \<leftarrow> get_history_list b (off_history b);
          zassert (unat (h_size l) \<le> HISTORY_LIST_SIZE);
          version \<leftarrow> history_get_next_version b q;
          zassert (unat (h_size l) < HISTORY_LIST_SIZE);
          let l = l\<lparr>h_items := (h_items l)[unat (h_size l) :=
                      \<lparr>h_quid = q, h_version = version, h_offset = offset\<rparr>],
                    h_size := h_size l + 1\<rparr>;
          if unat (h_size l) \<ge> HISTORY_LIST_SIZE then do {
            b \<leftarrow> flush_history_list b l (off_history b);
            let new_list = zero_history_list\<lparr>h_link := off_history b\<rparr>;
            (new_list_offset, b) \<leftarrow> pager_alloc b sizeof_history_list;
            b \<leftarrow> flush_history_list b new_list new_list_offset;
            Some (b\<lparr>off_history := new_list_offset\<rparr>) }
          else flush_history_list b l (off_history b) }
        else do {
          let new_list = zero_history_list\<lparr>h_items := (h_items zero_history_list)[0 :=
                \<lparr>h_quid = q, h_version = 0, h_offset = offset\<rparr>], h_size := 1\<rparr>;
          (new_list_offset, b) \<leftarrow> pager_alloc b sizeof_history_list;
          b \<leftarrow> flush_history_list b new_list new_list_offset;
          Some (b\<lparr>off_history := new_list_offset\<rparr>) });
     Some (0, base_sync b) }"

interpretation hist: chunk_chain CHist unwrap_hist h_link
  by unfold_locales simp

section \<open>The sequence of entries\<close>

abbreviation entries :: "(u64 \<times> history_list) list \<Rightarrow> history_item list" where
  "entries \<equiv> chain_items h_used"

definition hlist_ok :: "history_list \<Rightarrow> bool" where
  "hlist_ok l \<longleftrightarrow> length (h_items l) = HISTORY_LIST_SIZE \<and> unat (h_size l) \<le> HISTORY_LIST_SIZE"

text \<open>The chain of history lists; the head has room for an entry.\<close>

definition hist_ok :: "base \<Rightarrow> (u64 \<times> history_list) list \<Rightarrow> bool" where
  "hist_ok b ls \<longleftrightarrow> chain_at unwrap_hist h_link b (off_history b) ls
     \<and> (\<forall>l\<in>snd ` set ls. hlist_ok l) \<and> (ls \<noteq> [] \<longrightarrow> unat (h_size (snd (hd ls))) < HISTORY_LIST_SIZE)"

definition readable :: "base \<Rightarrow> u64 \<Rightarrow> (u64 \<times> history_list) list \<Rightarrow> bool" where
  "readable b off ls \<longleftrightarrow> store_ok b \<and> linked (obj_at unwrap_hist b) h_link off ls
     \<and> (\<forall>p\<in>fst ` set ls. valid b p) \<and> (\<forall>l\<in>snd ` set ls. hlist_ok l)"

lemma hist_ok_readable: "hist_ok b ls \<Longrightarrow> readable b (off_history b) ls"
  by (auto simp: hist_ok_def readable_def chain_at_def)

lemma readable_Nil [simp]: "readable b off [] \<longleftrightarrow> store_ok b \<and> off = 0"
  by (auto simp: readable_def)

lemma readable_Cons [simp]:
  "readable b off ((p, l) # ls) \<longleftrightarrow> off = p \<and> p \<noteq> 0 \<and> obj_at unwrap_hist b p = Some l \<and> valid b p
     \<and> hlist_ok l \<and> readable b (h_link l) ls"
  by (auto simp: readable_def)

lemma get_history_list_ok:
  assumes "store_ok b" "valid b p" "obj_at unwrap_hist b p = Some l"
  shows "get_history_list b p = Some l"
  using assms load_cell_ok[of b p] by (simp add: get_history_list_def obj_at_def)

lemma readable_store: "readable b off ls \<Longrightarrow> store_ok b"
  by (simp add: readable_def)

lemma last_version_append: "last_version q (xs @ ys) v = last_version q ys (last_version q xs v)"
  by (simp add: last_version_def)

lemma next_version_loop_eq:
  "readable b off ls \<Longrightarrow> next_version_loop b q off v = Some (last_version q (entries ls) v)"
proof (induction ls arbitrary: off v)
  case Nil
  then show ?case by (subst next_version_loop.simps) (simp add: last_version_def)
next
  case (Cons x ls)
  obtain p l where x: "x = (p, l)" by fastforce
  then show ?case
    using Cons readable_store[OF Cons.prems]
    by (subst next_version_loop.simps) (simp add: get_history_list_ok hlist_ok_def last_version_append)
qed

lemma version_offset_loop_eq:
  "readable b off ls \<Longrightarrow> version_offset_loop b q v off =
    Some (case find (is_version q v) (entries ls) of None \<Rightarrow> (0, no_history b) | Some it \<Rightarrow> (h_offset it, b))"
proof (induction ls arbitrary: off)
  case Nil
  then show ?case by (subst version_offset_loop.simps) simp
next
  case (Cons x ls)
  obtain p l where x: "x = (p, l)" by fastforce
  then show ?case
    using Cons readable_store[OF Cons.prems]
    by (subst version_offset_loop.simps)
      (auto simp add: get_history_list_ok hlist_ok_def find_append split: option.split)
qed

lemma count_loop_eq:
  "readable b off ls \<Longrightarrow> count_loop b q off n = Some (n + length (filter (is_entry q) (entries ls)))"
proof (induction ls arbitrary: off n)
  case Nil
  then show ?case by (subst count_loop.simps) simp
next
  case (Cons x ls)
  obtain p l where x: "x = (p, l)" by fastforce
  then show ?case
    using Cons readable_store[OF Cons.prems]
    by (subst count_loop.simps) (simp add: get_history_list_ok hlist_ok_def)
qed

text \<open>The loop of \<open>history_delete\<close> writes back the first list that holds the offset.\<close>

lemma history_delete_loop_eq:
  "readable b off ls \<Longrightarrow> history_delete_loop b d off =
    (case find_index (\<lambda>pl. find_index (\<lambda>it. h_offset it = d) (h_used (snd pl)) \<noteq> None) ls of
       None \<Rightarrow> Some (- 1, no_history b)
     | Some k \<Rightarrow> do {
         i \<leftarrow> find_index (\<lambda>it. h_offset it = d) (h_used (snd (ls ! k)));
         b \<leftarrow> flush_history_list b ((snd (ls ! k))\<lparr>h_items := (h_items (snd (ls ! k)))[i := zero_history_item]\<rparr>)
               (fst (ls ! k));
         Some (0, b) })"
proof (induction ls arbitrary: off)
  case Nil
  then show ?case by (subst history_delete_loop.simps) simp
next
  case (Cons x ls)
  obtain p l where x: "x = (p, l)" by fastforce
  then show ?case
    using Cons readable_store[OF Cons.prems]
    by (subst history_delete_loop.simps)
      (auto simp add: get_history_list_ok hlist_ok_def split: option.split)
qed

lemma h_used_update:
  "i < length (h_used l) \<Longrightarrow> h_used (l\<lparr>h_items := (h_items l)[i := z]\<rparr>) = (h_used l)[i := z]"
  by (simp add: h_used_def take_update_swap)

text \<open>\<open>history_delete\<close> blanks the first entry that refers to the data block, and nothing else.\<close>

lemma history_delete_found:
  assumes ok: "hist_ok b ls" and n: "find_index (\<lambda>it. h_offset it = d) (entries ls) = Some n"
  shows "\<exists>D ls'. history_delete b d = Some (0, b\<lparr>disk := D\<rparr>) \<and> hist_ok (b\<lparr>disk := D\<rparr>) ls'
    \<and> map fst ls' = map fst ls \<and> entries ls' = (entries ls)[n := zero_history_item]
    \<and> (\<forall>x. valid b x \<longrightarrow> x \<notin> fst ` set ls \<longrightarrow> cell_at (b\<lparr>disk := D\<rparr>) x = cell_at b x)"
proof -
  let ?P = "\<lambda>it. h_offset it = d"
  obtain k where k: "find_index (\<lambda>pl. find_index ?P (h_used (snd pl)) \<noteq> None) ls = Some k"
    using n chain_items_none[of ?P h_used ls] by (cases "find_index (\<lambda>pl. find_index ?P (h_used (snd pl)) \<noteq> None) ls") auto
  then obtain i where i: "find_index ?P (h_used (snd (ls ! k))) = Some i" "k < length ls"
    using find_index_Some[OF k] by auto
  let ?l = "snd (ls ! k)"
  let ?l' = "?l\<lparr>h_items := (h_items ?l)[i := zero_history_item]\<rparr>"
  have u: "h_used ?l' = (h_used ?l)[i := zero_history_item]"
    using find_index_Some[OF i(1)] by (intro h_used_update) simp
  have c: "chain_at unwrap_hist h_link b (off_history b) ls" using ok by (simp add: hist_ok_def)
  obtain D where D: "store_cell (fst (ls ! k)) (CHist ?l') b = Some (b\<lparr>disk := D\<rparr>)"
    "chain_at unwrap_hist h_link (b\<lparr>disk := D\<rparr>) (off_history b) (ls[k := (fst (ls ! k), ?l')])"
    "\<And>x. valid b x \<Longrightarrow> x \<noteq> fst (ls ! k) \<Longrightarrow> cell_at (b\<lparr>disk := D\<rparr>) x = cell_at b x"
    using hist.rewrite[OF c i(2), of ?l'] by auto
  let ?ls = "ls[k := (fst (ls ! k), ?l')]"
  have "history_delete b d = Some (0, b\<lparr>disk := D\<rparr>)"
    unfolding history_delete_def history_delete_loop_eq[OF hist_ok_readable[OF ok]]
      k option.case i(1) flush_history_list_def by (simp add: D(1))
  moreover have "hist_ok (b\<lparr>disk := D\<rparr>) ?ls"
  proof -
    have lk: "hlist_ok ?l" using ok i(2) by (simp add: hist_ok_def nth_mem)
    have "\<forall>l\<in>snd ` set ?ls. hlist_ok l"
      using ok lk set_update_subset_insert[of ls k "(fst (ls ! k), ?l')"]
      by (auto simp: hist_ok_def hlist_ok_def)
    moreover have "ls \<noteq> [] \<longrightarrow> unat (h_size (snd (hd ?ls))) < HISTORY_LIST_SIZE"
      using ok i(2) by (cases ls; cases k) (auto simp: hist_ok_def)
    ultimately show ?thesis using D(2) by (simp add: hist_ok_def)
  qed
  moreover have "map fst ?ls = map fst ls"
    using i(2) by (metis fst_conv list_update_id map_update nth_map)
  moreover have "entries ?ls = (entries ls)[n := zero_history_item]"
    using chain_items_update[OF k i(1) u] n by auto
  moreover have "fst (ls ! k) \<in> fst ` set ls" using i(2) by simp
  then have "\<forall>x. valid b x \<longrightarrow> x \<notin> fst ` set ls \<longrightarrow> cell_at (b\<lparr>disk := D\<rparr>) x = cell_at b x"
    using D(3) by metis
  ultimately show ?thesis by blast
qed

lemma history_delete_absent:
  assumes "hist_ok b ls" "\<forall>it\<in>set (entries ls). h_offset it \<noteq> d"
  shows "history_delete b d = Some (- 1, no_history b)"
proof -
  have "find_index (\<lambda>it. h_offset it = d) (entries ls) = None"
    using assms(2) by (simp add: find_index_None)
  then have "find_index (\<lambda>pl. find_index (\<lambda>it. h_offset it = d) (h_used (snd pl)) \<noteq> None) ls = None"
    by (simp only: chain_items_none[of _ h_used])
  then show ?thesis
    unfolding history_delete_def history_delete_loop_eq[OF hist_ok_readable[OF assms(1)]] by simp
qed

text \<open>The version an entry gets: one more than that of the last entry of its key in chain order.\<close>

definition assigned_version :: "quid \<Rightarrow> history_item list \<Rightarrow> u16" where
  "assigned_version q E = (let v = last_version q E (- 1) in if v \<noteq> - 1 then v + 1 else 0)"

lemma next_version_eq:
  "hist_ok b ls \<Longrightarrow> history_get_next_version b q = Some (assigned_version q (entries ls))"
  using next_version_loop_eq[OF hist_ok_readable, of b ls q "- 1"]
  by (simp add: history_get_next_version_def assigned_version_def Let_def)

definition head_room :: "(u64 \<times> history_list) list \<Rightarrow> nat" where
  "head_room ls = (case ls of [] \<Rightarrow> 0 | (p, l) # _ \<Rightarrow> unat (h_size l))"

lemma h_used_push:
  assumes "hlist_ok l" "unat (h_size l) < HISTORY_LIST_SIZE"
  shows "h_used (l\<lparr>h_items := (h_items l)[unat (h_size l) := z], h_size := h_size l + 1\<rparr>) = h_used l @ [z]"
    and "unat (h_size l + 1) = Suc (unat (h_size l))"
proof -
  show s: "unat (h_size l + 1) = Suc (unat (h_size l))"
    using assms(2) by (intro unat_add_one add_one_nonzero) simp
  show "h_used (l\<lparr>h_items := (h_items l)[unat (h_size l) := z], h_size := h_size l + 1\<rparr>) = h_used l @ [z]"
    using assms s by (simp add: h_used_def hlist_ok_def take_Suc_conv_app_nth)
qed

lemma finish_add:
  assumes "chain_at unwrap_hist h_link b p ls" "\<forall>l\<in>snd ` set ls. hlist_ok l"
    "ls \<noteq> [] \<longrightarrow> unat (h_size (snd (hd ls))) < HISTORY_LIST_SIZE" "b' = base_sync (b\<lparr>off_history := p\<rparr>)"
  shows "hist_ok b' ls" "cell_at b' = cell_at b"
proof -
  have "same_store b' b" unfolding assms(4) same_store_def by simp
  moreover have "off_history b' = p"
    using but_pager_fields(7)[OF but_control_pager[OF but_control_frame(2)], of "b\<lparr>off_history := p\<rparr>"]
    by (simp add: assms(4))
  ultimately show "hist_ok b' ls" "cell_at b' = cell_at b"
    using assms(1-3) chain_at_same_store[of b' b unwrap_hist h_link] same_storeD(3)[of b' b]
    by (auto simp: hist_ok_def)
qed

lemma zero_history_ok: "hlist_ok (zero_history_list\<lparr>h_link := x\<rparr>)"
  "h_used (zero_history_list\<lparr>h_link := x\<rparr>) = []" "h_link (zero_history_list\<lparr>h_link := x\<rparr>) = x"
  by (simp_all add: zero_history_list_def hlist_ok_def h_used_def)

definition add_post :: "base \<Rightarrow> (u64 \<times> history_list) list \<Rightarrow> quid \<Rightarrow> u64 \<Rightarrow> base \<Rightarrow> (u64 \<times> history_list) list \<Rightarrow> bool" where
  "add_post b ls q d b' ls' \<longleftrightarrow> hist_ok b' ls'
     \<and> entries ls' = take (head_room ls) (entries ls)
         @ [\<lparr>h_quid = q, h_version = assigned_version q (entries ls), h_offset = d\<rparr>]
         @ drop (head_room ls) (entries ls)
     \<and> (\<forall>x. valid b x \<longrightarrow> unat x < mark b \<longrightarrow> x \<notin> fst ` set ls \<longrightarrow> cell_at b' x = cell_at b x)"

lemma history_add_first:
  assumes ok: "hist_ok b []" and f: "fresh_page b" "fits b sizeof_history_list"
  shows "\<exists>b' ls'. history_add b q d = Some (0, b') \<and> add_post b [] q d b' ls'"
proof -
  let ?new = "zero_history_list\<lparr>h_items := (h_items zero_history_list)[0 :=
                \<lparr>h_quid = q, h_version = 0, h_offset = d\<rparr>], h_size := 1\<rparr>"
  have c: "chain_at unwrap_hist h_link b (off_history b) []" and z: "off_history b = 0"
    using ok by (auto simp: hist_ok_def chain_at_def)
  obtain p b1 where a: "pager_alloc b sizeof_history_list = Some (p, b1)" "alloc_post b sizeof_history_list p b1"
    using pager_alloc_ok[OF _ f] c by (auto simp: chain_at_def)
  obtain D where D: "store_cell p (CHist ?new) b1 = Some (b1\<lparr>disk := D\<rparr>)"
    "chain_at unwrap_hist h_link (b1\<lparr>disk := D\<rparr>) p [(p, ?new)]"
    "\<And>x. valid b x \<Longrightarrow> unat x < mark b \<Longrightarrow> cell_at (b1\<lparr>disk := D\<rparr>) x = cell_at b x"
    using hist.prepend[OF c a(2), of ?new] z by (auto simp: zero_history_list_def)
  let ?b' = "base_sync (b1\<lparr>disk := D, off_history := p\<rparr>)"
  have "history_add b q d = Some (0, ?b')"
    using z a(1) D(1) by (simp add: history_add_def flush_history_list_def Let_def)
  moreover have "hist_ok ?b' [(p, ?new)]" "cell_at ?b' = cell_at (b1\<lparr>disk := D\<rparr>)"
    using finish_add[OF D(2)] by (auto simp: hlist_ok_def zero_history_list_def)
  moreover have "entries [(p, ?new)] = [\<lparr>h_quid = q, h_version = 0, h_offset = d\<rparr>]"
    by (simp add: h_used_def zero_history_list_def take_first_update)
  moreover have "assigned_version q [] = 0" by (simp add: assigned_version_def last_version_def)
  ultimately show ?thesis
    using D(3) by (intro exI[of _ ?b'] exI[of _ "[(p, ?new)]"]) (simp add: add_post_def head_room_def)
qed

lemma history_add_next:
  assumes ok: "hist_ok b ((p, l) # ls)" and f: "fresh_page b" "fits b sizeof_history_list"
  shows "\<exists>b' ls'. history_add b q d = Some (0, b') \<and> add_post b ((p, l) # ls) q d b' ls'"
proof -
  let ?E = "entries ((p, l) # ls)"
  let ?z = "\<lparr>h_quid = q, h_version = assigned_version q ?E, h_offset = d\<rparr>"
  let ?l = "l\<lparr>h_items := (h_items l)[unat (h_size l) := ?z], h_size := h_size l + 1\<rparr>"
  have c: "chain_at unwrap_hist h_link b (off_history b) ((p, l) # ls)" and l: "hlist_ok l"
    and room: "unat (h_size l) < HISTORY_LIST_SIZE" and lss: "\<forall>l\<in>snd ` set ls. hlist_ok l"
    using ok by (auto simp: hist_ok_def)
  have p: "off_history b = p" "p \<noteq> 0" "store_ok b" "valid b p" "obj_at unwrap_hist b p = Some l" "unat p < mark b"
    using c by (auto simp: chain_at_def)
  note u = h_used_push(1)[OF l room, of ?z] h_used_push(2)[OF l room]
  have get: "get_history_list b p = Some l" by (rule get_history_list_ok[OF p(3,4,5)])
  have nv: "history_get_next_version b q = Some (assigned_version q ?E)" by (rule next_version_eq[OF ok])
  have ok_l: "hlist_ok ?l" using l room u(2) by (simp add: hlist_ok_def)
  have split: "take (unat (h_size l)) ?E = h_used l" "drop (unat (h_size l)) ?E = entries ls"
    using l by (simp_all add: h_used_def hlist_ok_def)
  obtain D where D: "store_cell p (CHist ?l) b = Some (b\<lparr>disk := D\<rparr>)"
    "chain_at unwrap_hist h_link (b\<lparr>disk := D\<rparr>) p ((p, ?l) # ls)"
    "\<And>x. valid b x \<Longrightarrow> x \<noteq> p \<Longrightarrow> cell_at (b\<lparr>disk := D\<rparr>) x = cell_at b x"
    using hist.rewrite[OF c, of 0 ?l] p(1) by auto
  have E: "entries ((p, ?l) # ls) = h_used l @ [?z] @ entries ls" using u(1) by simp
  show ?thesis
  proof (cases "unat (h_size ?l) \<ge> HISTORY_LIST_SIZE")
    case False
    let ?b' = "base_sync (b\<lparr>disk := D\<rparr>)"
    have "history_add b q d = Some (0, ?b')"
      using False p get nv room D(1) l
      by (simp add: history_add_def flush_history_list_def Let_def hlist_ok_def)
    moreover have "hist_ok ?b' ((p, ?l) # ls)" "cell_at ?b' = cell_at (b\<lparr>disk := D\<rparr>)"
      using finish_add[OF D(2), of ?b'] ok_l lss False p(1) by auto
    ultimately show ?thesis
      using D(3) E split
      by (intro exI[of _ ?b'] exI[of _ "(p, ?l) # ls"]) (simp add: add_post_def head_room_def)
  next
    case True
    let ?new = "zero_history_list\<lparr>h_link := p\<rparr>"
    have sd: "store_ok (b\<lparr>disk := D\<rparr>)" using D(2) by (simp add: chain_at_def)
    obtain r b1 where a: "pager_alloc (b\<lparr>disk := D\<rparr>) sizeof_history_list = Some (r, b1)"
      "alloc_post (b\<lparr>disk := D\<rparr>) sizeof_history_list r b1"
      using pager_alloc_ok[OF sd, of sizeof_history_list] f by auto
    obtain D' where D': "store_cell r (CHist ?new) b1 = Some (b1\<lparr>disk := D'\<rparr>)"
      "chain_at unwrap_hist h_link (b1\<lparr>disk := D'\<rparr>) r ((r, ?new) # (p, ?l) # ls)"
      "\<And>x. valid b x \<Longrightarrow> unat x < mark b \<Longrightarrow> cell_at (b1\<lparr>disk := D'\<rparr>) x = cell_at (b\<lparr>disk := D\<rparr>) x"
      using hist.prepend[OF D(2) a(2), of ?new] by (auto simp: zero_history_ok)
    let ?b' = "base_sync (b1\<lparr>disk := D', off_history := r\<rparr>)"
    have "history_add b q d = Some (0, ?b')"
      using True p get nv room D(1) D'(1) a(1) l
      by (simp add: history_add_def flush_history_list_def Let_def hlist_ok_def)
    moreover have "hist_ok ?b' ((r, ?new) # (p, ?l) # ls)" "cell_at ?b' = cell_at (b1\<lparr>disk := D'\<rparr>)"
      using finish_add[OF D'(2), of ?b'] ok_l lss zero_history_ok(1)[of p]
      by (auto simp: zero_history_list_def)
    ultimately show ?thesis
      using D(3) D'(3) E split
      by (intro exI[of _ ?b'] exI[of _ "(r, ?new) # (p, ?l) # ls"])
        (simp add: add_post_def head_room_def zero_history_ok)
  qed
qed

lemma history_add_post:
  assumes "hist_ok b ls" "fresh_page b" "fits b sizeof_history_list"
  shows "\<exists>b' ls'. history_add b q d = Some (0, b') \<and> add_post b ls q d b' ls'"
proof (cases ls)
  case Nil
  then show ?thesis using history_add_first assms by simp
next
  case (Cons x ls')
  then show ?thesis using history_add_next[of b "fst x" "snd x" ls' q d] assms by simp
qed

section \<open>Properties\<close>

text \<open>
  C4: Recording a replaced data block appends one entry to the list being filled (a full list gets a
  new, empty one in front), with the version after the last one visited for its key, and leaves every
  other entry and every object outside the history alone.
\<close>

theorem history_add_records:
  assumes "hist_ok b ls" "fresh_page b" "fits b sizeof_history_list"
  shows "\<exists>b' ls'. history_add b q d = Some (0, b') \<and> hist_ok b' ls'
    \<and> entries ls' = take (head_room ls) (entries ls)
         @ [\<lparr>h_quid = q, h_version = assigned_version q (entries ls), h_offset = d\<rparr>]
         @ drop (head_room ls) (entries ls)
    \<and> (\<forall>x. valid b x \<longrightarrow> unat x < mark b \<longrightarrow> x \<notin> fst ` set ls \<longrightarrow> cell_at b' x = cell_at b x)"
  using history_add_post[OF assms] unfolding add_post_def by blast

lemma demo_hist_ok: "17 \<le> n \<Longrightarrow> n < 4194304 \<Longrightarrow> hist_ok (demo n m) []"
  by (simp add: hist_ok_def chain_at_def demo_ok) (simp add: demo_def)

theorem history_add_records_witness:
  "\<exists>b' ls'. history_add (demo 17 (\<lambda>_. None)) zero_quid 99 = Some (0, b') \<and> hist_ok b' ls'
    \<and> entries ls' = [\<lparr>h_quid = zero_quid, h_version = 0, h_offset = 99\<rparr>]"
  using history_add_records[OF demo_hist_ok demo_fresh demo_fits, of 17 "\<lambda>_. None" zero_quid 99]
  by (auto simp: head_room_def assigned_version_def last_version_def)

lemma last_version_found:
  assumes "\<exists>it\<in>set its. h_quid it = q"
  shows "last_version q its v = last_version q its w"
  using assms
proof (induction its rule: rev_induct)
  case (snoc it its)
  then show ?case by (cases "h_quid it = q") (auto simp: last_version_def)
qed simp

text \<open>
  C5: Once an older list of the chain holds an entry of a key, every further entry of that key gets
  the same version number: the scan visits the newest list first, so the oldest entries decide.
\<close>

theorem history_version_repeats:
  assumes "hist_ok b ls" "fresh_page b" "fits b sizeof_history_list"
    and "\<exists>it\<in>set (drop (head_room ls) (entries ls)). h_quid it = q"
  shows "\<exists>b' ls'. history_add b q d = Some (0, b') \<and> hist_ok b' ls'
    \<and> history_get_next_version b' q = history_get_next_version b q"
proof -
  obtain b' ls' where b': "history_add b q d = Some (0, b')" "hist_ok b' ls'"
    "entries ls' = take (head_room ls) (entries ls)
         @ [\<lparr>h_quid = q, h_version = assigned_version q (entries ls), h_offset = d\<rparr>]
         @ drop (head_room ls) (entries ls)"
    using history_add_post[OF assms(1-3), of q d] unfolding add_post_def by blast
  let ?old = "drop (head_room ls) (entries ls)"
  have "last_version q (entries ls') (- 1) = last_version q ?old (- 1)"
    unfolding b'(3) last_version_append by (rule last_version_found[OF assms(4)])
  also have "\<dots> = last_version q (take (head_room ls) (entries ls) @ ?old) (- 1)"
    unfolding last_version_append by (rule last_version_found[OF assms(4)])
  finally have "assigned_version q (entries ls') = assigned_version q (entries ls)"
    by (simp add: assigned_version_def)
  then show ?thesis using b' next_version_eq[OF assms(1)] next_version_eq[OF b'(2)] by metis
qed

definition demo_history :: content where
  "demo_history = (\<lambda>_. None)
     (17 := Some (CHist \<lparr>h_items = replicate 32 \<lparr>h_quid = zero_quid, h_version = 4, h_offset = 99\<rparr>,
                         h_size = 32, h_link = 0\<rparr>),
      987 := Some (CHist (zero_history_list\<lparr>h_link := 17\<rparr>)))"

lemma demo_history_ok:
  "hist_ok ((demo 1957 demo_history)\<lparr>off_history := 987\<rparr>)
     [(987, zero_history_list\<lparr>h_link := 17\<rparr>),
      (17, \<lparr>h_items = replicate 32 \<lparr>h_quid = zero_quid, h_version = 4, h_offset = 99\<rparr>,
            h_size = 32, h_link = 0\<rparr>)]"
proof -
  have "cell_at (demo 1957 demo_history) 987 = demo_history 987"
    "cell_at (demo 1957 demo_history) 17 = demo_history 17"
    "mark (demo 1957 demo_history) = 1957"
    by (simp_all add: demo_cell demo_mark)
  then show ?thesis
    by (simp add: hist_ok_def chain_at_def obj_at_def demo_ok demo_valid)
      (simp add: hlist_ok_def zero_history_list_def demo_history_def)
qed

theorem history_version_repeats_witness:
  "\<exists>b'. history_add ((demo 1957 demo_history)\<lparr>off_history := 987\<rparr>) zero_quid 7 = Some (0, b')
    \<and> history_get_next_version b' zero_quid
       = history_get_next_version ((demo 1957 demo_history)\<lparr>off_history := 987\<rparr>) zero_quid"
proof -
  let ?b = "(demo 1957 demo_history)\<lparr>off_history := 987\<rparr>"
  have "fresh_page ?b" "fits ?b sizeof_history_list"
    using demo_fresh[of 1957 demo_history] quid_short_create_cong[of ?b "demo 1957 demo_history"]
    by (simp_all add: fresh_page_def fits_def)
  then show ?thesis
    using history_version_repeats[OF demo_history_ok, of zero_quid 7]
    by (auto simp: head_room_def h_used_def zero_history_list_def)
qed

end
