(* ===== verification/Engine.thy ===== *)
theory Engine imports
  History
begin

text \<open>
  The storage engine: src/engine.c.  Records live in data blocks; an on-disk search tree of
  128-slot tables maps a key to its metadata and the offset of its block.  Tables pass through a
  direct-mapped write-through cache, freed tables form a free list, freed blocks wait in 25 slots
  ordered by length.  This theory holds the operations; Engine_Spec says what they do.

  The recursive operations take fuel, one unit per level of recursion; \<open>None\<close> is a failed
  assertion, a dereferenced \<open>NULL\<close> or no fuel left.
\<close>

section \<open>Tables and the table cache\<close>

fun unwrap_table :: "cell \<Rightarrow> table option" where
  "unwrap_table (CTable t) = Some t"
| "unwrap_table _ = None"

definition cache_slot :: "u64 \<Rightarrow> nat" where
  "cache_slot off = unat off mod CACHE_SLOTS"

text \<open>
  A cached table is handed over and its slot emptied.  A failed read throws a fatal error and
  yields \<open>NULL\<close>, which every caller dereferences: \<open>None\<close>.
\<close>

definition get_table :: "base \<Rightarrow> u64 \<Rightarrow> (table \<times> base) option" where
  "get_table b off = do {
     zassert (off \<noteq> 0);
     let (o', t) = e_cache b ! cache_slot off;
     if o' = off then Some (t, b\<lparr>e_cache := (e_cache b)[cache_slot off := (0, t)]\<rparr>)
     else do {
       c \<leftarrow> load_cell off b;
       c \<leftarrow> c;
       t \<leftarrow> unwrap_table c;
       Some (t, b) } }"

definition put_table :: "base \<Rightarrow> table \<Rightarrow> u64 \<Rightarrow> base option" where
  "put_table b t off = do {
     zassert (off \<noteq> 0);
     Some (b\<lparr>e_cache := (e_cache b)[cache_slot off := (off, t)]\<rparr>) }"

text \<open>\<open>pager_get_fd\<close> replaces \<open>offset\<close> by the position in the page, and that is what gets cached.\<close>

definition flush_table :: "base \<Rightarrow> table \<Rightarrow> u64 \<Rightarrow> base option" where
  "flush_table b t off = do {
     zassert (off \<noteq> 0);
     (fd, off) \<leftarrow> pager_get_fd b off;
     put_table (write_at fd off (CTable t) b) t off }"

section \<open>Superblocks\<close>

definition flush_super :: "base \<Rightarrow> base option" where
  "flush_super b = do {
     (fd, off) \<leftarrow> pager_get_fd b (off_zero b);
     Some (write_at fd off (CSuper (ucast VERSION_MAJOR) (e_top b) (e_free_top b)) b) }"

definition flush_dbsuper :: "base \<Rightarrow> base option" where
  "flush_dbsuper b = do {
     (fd, off) \<leftarrow> pager_get_fd b (off_heap b);
     Some (write_at fd off (CDbSuper (ucast VERSION_MAJOR) (e_last_block b)) b) }"

definition engine_reset :: "base \<Rightarrow> base" where
  "engine_reset b = b\<lparr>e_top := 0, e_free_top := 0, e_last_block := 0, e_lock := False,
     e_cache := replicate CACHE_SLOTS (0, zero_table), e_dbcache := replicate DBCACHE_SLOTS (0, 0)\<rparr>"

text \<open>
  The second seek goes to the descriptor of the first superblock; the position of the other file is
  unknown when the two lie in different pages, and the model stops there.
\<close>

definition engine_open :: "base \<Rightarrow> (int \<times> base) option" where
  "engine_open b = do {
     let b = engine_reset b;
     (fd, off) \<leftarrow> pager_get_fd b (off_zero b);
     case read_at fd off b of
       Some (CSuper version root_off free_top) \<Rightarrow> do {
         let b = b\<lparr>e_top := root_off, e_free_top := free_top\<rparr>;
         zassert (version = ucast VERSION_MAJOR);
         (fdh, offh) \<leftarrow> pager_get_fd b (off_heap b);
         zassert (fdh = fd);
         case read_at fdh offh b of
           Some (CDbSuper dbversion lastb) \<Rightarrow> do {
             zassert (dbversion = ucast VERSION_MAJOR);
             Some (0, b\<lparr>e_last_block := lastb\<rparr>) }
         | _ \<Rightarrow> Some (- 1, fail_read b) }
     | _ \<Rightarrow> Some (- 1, fail_read b) }"

definition engine_create :: "base \<Rightarrow> base option" where
  "engine_create b = do {
     b \<leftarrow> flush_super (engine_reset b);
     b \<leftarrow> flush_dbsuper b;
     (zero, b) \<leftarrow> pager_alloc b sizeof_engine_super;
     let b = b\<lparr>off_zero := zero\<rparr>;
     (heap, b) \<leftarrow> pager_alloc b sizeof_engine_dbsuper;
     Some (b\<lparr>off_heap := heap\<rparr>) }"

definition engine_init :: "base \<Rightarrow> base option" where
  "engine_init b =
     (if off_zero b \<noteq> 0 then map_option snd (engine_open b) else engine_create b)"

definition engine_sync :: "base \<Rightarrow> base option" where
  "engine_sync b = do { b \<leftarrow> flush_super b; flush_dbsuper b }"

text \<open>The cached tables are freed with the engine.\<close>

definition engine_close :: "base \<Rightarrow> base option" where
  "engine_close b = do {
     b \<leftarrow> flush_super b;
     b \<leftarrow> flush_dbsuper b;
     Some (b\<lparr>e_cache := replicate CACHE_SLOTS (0, zero_table)\<rparr>) }"

section \<open>Allocation of tables and data blocks\<close>

definition alloc_table_chunk :: "base \<Rightarrow> u64 \<Rightarrow> (u64 \<times> base) option" where
  "alloc_table_chunk b len = do {
     zassert (len > 0);
     if e_free_top b \<noteq> 0 then do {
       let off = e_free_top b;
       (t, b) \<leftarrow> get_table b off;
       Some (off, b\<lparr>e_free_top := i_child (t_items t ! 0), st_zero_free_size := st_zero_free_size b - 1\<rparr>) }
     else pager_alloc b len }"

text \<open>\<open>diff\<close> is the filled share of the slot in per cent.\<close>

definition slot_fits :: "u64 \<Rightarrow> u32 \<times> u64 \<Rightarrow> bool" where
  "slot_fits len slot \<longleftrightarrow> len \<le> ucast (fst slot)
     \<and> (unat len * 100) div unat (fst slot) \<ge> DBCACHE_DENSITY"

definition alloc_dbchunk :: "base \<Rightarrow> u64 \<Rightarrow> (u64 \<times> base) option" where
  "alloc_dbchunk b len = do {
     zassert (len > 0);
     case (if fst (e_dbcache b ! (DBCACHE_SLOTS - 1)) \<noteq> 0
           then find_index (slot_fits len) (e_dbcache b) else None) of
       Some i \<Rightarrow> do {
         let off = snd (e_dbcache b ! i);
         let b = b\<lparr>e_dbcache := (e_dbcache b)[i := (0, off)], st_heap_free_size := st_heap_free_size b - 1\<rparr>;
         (_, b) \<leftarrow> history_delete b off;
         Some (off, b) }
     | None \<Rightarrow> pager_alloc b (sizeof_blob_info + len) }"

definition free_index_chunk :: "base \<Rightarrow> u64 \<Rightarrow> base option" where
  "free_index_chunk b off = do {
     zassert (off > 0);
     (t, b) \<leftarrow> get_table b off;
     let t = t\<lparr>t_items := (t_items t)[0 := (t_items t ! 0)\<lparr>i_quid := zero_quid, i_offset := 0,
                 i_child := e_free_top b\<rparr>], t_size := t_size t + 1\<rparr>;
     b \<leftarrow> flush_table b t off;
     Some (b\<lparr>e_free_top := off, st_zero_free_size := st_zero_free_size b + 1\<rparr>) }"

text \<open>From the last slot down, the first one with a shorter block takes the new one; the blocks below move down.\<close>

fun last_index :: "('a \<Rightarrow> bool) \<Rightarrow> 'a list \<Rightarrow> nat option" where
  "last_index P [] = None"
| "last_index P (x # xs) = (case last_index P xs of
     Some i \<Rightarrow> Some (Suc i)
   | None \<Rightarrow> if P x then Some 0 else None)"

definition dbcache_insert :: "u32 \<Rightarrow> u64 \<Rightarrow> (u32 \<times> u64) list \<Rightarrow> (u32 \<times> u64) list" where
  "dbcache_insert len off c = (case last_index (\<lambda>slot. fst slot < len) c of
     None \<Rightarrow> c
   | Some i \<Rightarrow>
       (let c = (if fst (c ! i) \<noteq> 0 then take i (drop 1 c) @ drop i c else c)
        in c[i := (len, off)]))"

text \<open>
  The 13 bytes read as a block header.  A record without data has offset 0, so that a page header
  or the superblock written there is taken for a block header and overwritten.
\<close>

fun as_blob :: "cell \<Rightarrow> (u32 \<times> cell) option" where
  "as_blob (CBlob info data) = Some (bl_len info, CBlob (info\<lparr>bl_free := True, bl_next := 0\<rparr>) data)"
| "as_blob (CPage h) = Some (ph_sequence h, CPage (h\<lparr>ph_exit := EXSTAT_ERROR, ph_magic := []\<rparr>))"
| "as_blob (CDbSuper v lastb) = Some (v, CDbSuper v 0)"
| "as_blob _ = None"

definition free_dbchunk :: "base \<Rightarrow> u64 \<Rightarrow> base option" where
  "free_dbchunk b off = do {
     (fd, off) \<leftarrow> pager_get_fd b off;
     case Option.bind (read_at fd off b) as_blob of
       None \<Rightarrow> Some (fail_read b)
     | Some (len, c) \<Rightarrow>
         Some (write_at fd off c (b\<lparr>st_heap_free_size := st_heap_free_size b + 1,
           e_dbcache := dbcache_insert len off (e_dbcache b)\<rparr>)) }"

definition insert_data :: "base \<Rightarrow> string option \<Rightarrow> (u64 \<times> base) option" where
  "insert_data b data = (case data of
     None \<Rightarrow> Some (0, error_throw ''e8880046e019'' ''No data provided'' b)
   | Some d \<Rightarrow>
       (let len = of_nat (length d) :: u64
        in if len = 0 then Some (0, error_throw ''e8880046e019'' ''No data provided'' b)
           else do {
             (off, b) \<leftarrow> alloc_dbchunk b len;
             let info = \<lparr>bl_len = ucast len, bl_next = e_last_block b, bl_free = False\<rparr>;
             let b = b\<lparr>e_last_block := off\<rparr>;
             (fd, off) \<leftarrow> pager_get_fd b off;
             let b = write_at fd off (CBlob info d) b;
             Some (e_last_block b, b) }))"

section \<open>The search tree\<close>

text \<open>The loop \<open>while (left < right)\<close> of every descent: \<open>Inl\<close> the position of the key, \<open>Inr\<close> of the child.\<close>

function bsearch :: "item list \<Rightarrow> quid \<Rightarrow> nat \<Rightarrow> nat \<Rightarrow> nat + nat" where
  "bsearch items q left right =
     (if left < right then
        (let i = (right - left) div 2 + left; cmp = quidcmp q (i_quid (items ! i))
         in if cmp = 0 then Inl i
            else if cmp < 0 then bsearch items q left i
            else bsearch items q (i + 1) right)
      else Inr left)"
  by pat_completeness auto
termination
  by (relation "measure (\<lambda>(items, q, left, right). right - left)") auto

declare bsearch.simps [simp del]

definition search_table :: "table \<Rightarrow> quid \<Rightarrow> nat + nat" where
  "search_table t q = bsearch (t_items t) q 0 (unat (t_size t))"

text \<open>The pivot goes up, the items behind it go to a new table.\<close>

definition split_table :: "base \<Rightarrow> table \<Rightarrow> ((u64 \<times> quid \<times> u64 \<times> table) \<times> base) option" where
  "split_table b t = do {
     let pivot = t_items t ! (TABLE_SIZE div 2);
     let n = t_size t - of_nat (TABLE_SIZE div 2) - 1;
     let new_table = zero_table\<lparr>t_size := n,
           t_items := take (unat n + 1) (drop (TABLE_SIZE div 2 + 1) (t_items t))
             @ drop (unat n + 1) (t_items zero_table)\<rparr>;
     (new_table_offset, b) \<leftarrow> alloc_table_chunk b sizeof_engine_table;
     b \<leftarrow> flush_table b new_table new_table_offset;
     Some ((new_table_offset, i_quid pivot, i_offset pivot, t\<lparr>t_size := of_nat (TABLE_SIZE div 2)\<rparr>), b) }"

definition table_join :: "base \<Rightarrow> u64 \<Rightarrow> (u64 \<times> base) option" where
  "table_join b off = do {
     (t, b) \<leftarrow> get_table b off;
     if t_size t = 0 then do {
       let ret = i_child (t_items t ! 0);
       b \<leftarrow> free_index_chunk b off;
       Some (ret, b) }
     else do {
       b \<leftarrow> put_table b t off;
       Some (off, b) } }"

definition set_child :: "nat \<Rightarrow> u64 \<Rightarrow> table \<Rightarrow> table" where
  "set_child i c t = t\<lparr>t_items := (t_items t)[i := (t_items t ! i)\<lparr>i_child := c\<rparr>]\<rparr>"

text \<open>
  Removal.  The results: offset and key of the item taken, and for \<open>remove_table\<close> the changed
  table, which its caller writes back.
\<close>

fun remove_table :: "nat \<Rightarrow> base \<Rightarrow> table \<Rightarrow> nat \<Rightarrow> ((u64 \<times> quid \<times> table) \<times> base) option"
and take_smallest :: "nat \<Rightarrow> base \<Rightarrow> u64 \<Rightarrow> ((u64 \<times> quid) \<times> base) option"
and take_largest :: "nat \<Rightarrow> base \<Rightarrow> u64 \<Rightarrow> ((u64 \<times> quid) \<times> base) option" where
  "remove_table 0 b t i = None"
| "remove_table (Suc n) b t i = do {
     zassert (i < unat (t_size t));
     let it = t_items t ! i;
     let left_child = i_child it;
     let right_child = i_child (t_items t ! (i + 1));
     if left_child \<noteq> 0 \<and> right_child \<noteq> 0 then do {
       let (r, b) = arc4random b;
       if r AND 1 \<noteq> 0 then do {
         ((new_offset, k), b) \<leftarrow> take_largest n b left_child;
         (c, b) \<leftarrow> table_join b left_child;
         let t = set_child i c t;
         Some ((i_offset it, i_quid it,
           t\<lparr>t_items := (t_items t)[i := (t_items t ! i)\<lparr>i_quid := k, i_offset := new_offset\<rparr>]\<rparr>), b) }
       else do {
         ((new_offset, k), b) \<leftarrow> take_smallest n b right_child;
         (c, b) \<leftarrow> table_join b right_child;
         let t = set_child (i + 1) c t;
         Some ((i_offset it, i_quid it,
           t\<lparr>t_items := (t_items t)[i := (t_items t ! i)\<lparr>i_quid := k, i_offset := new_offset\<rparr>]\<rparr>), b) } }
     else do {
       let t = t\<lparr>t_items := memmove i (i + 1) (unat (t_size t) - i) (t_items t), t_size := t_size t - 1\<rparr>;
       let t = set_child i (if left_child \<noteq> 0 then left_child else right_child) t;
       Some ((i_offset it, i_quid it, t), b) } }"
| "take_smallest 0 b off = None"
| "take_smallest (Suc n) b off = do {
     (t, b) \<leftarrow> get_table b off;
     zassert (unat (t_size t) > 0);
     let child = i_child (t_items t ! 0);
     if child = 0 then do {
       ((offset, k, t), b) \<leftarrow> remove_table n b t 0;
       b \<leftarrow> flush_table b t off;
       Some ((offset, k), b) }
     else do {
       ((offset, k), b) \<leftarrow> take_smallest n b child;
       (c, b) \<leftarrow> table_join b child;
       b \<leftarrow> flush_table b (set_child 0 c t) off;
       Some ((offset, k), b) } }"
| "take_largest 0 b off = None"
| "take_largest (Suc n) b off = do {
     (t, b) \<leftarrow> get_table b off;
     zassert (unat (t_size t) > 0);
     let child = i_child (t_items t ! unat (t_size t));
     if child = 0 then do {
       ((offset, k, t), b) \<leftarrow> remove_table n b t (unat (t_size t) - 1);
       b \<leftarrow> flush_table b t off;
       Some ((offset, k), b) }
     else do {
       ((offset, k), b) \<leftarrow> take_largest n b child;
       (c, b) \<leftarrow> table_join b child;
       b \<leftarrow> flush_table b (set_child (unat (t_size t)) c t) off;
       Some ((offset, k), b) } }"

text \<open>
  \<open>insert_table\<close> also returns the key parameter, which a split overwrites with the pivot's key;
  \<open>meta\<close> stays the metadata of the new record.
\<close>

fun insert_table :: "nat \<Rightarrow> base \<Rightarrow> u64 \<Rightarrow> quid \<Rightarrow> metadata \<Rightarrow> string option \<Rightarrow> ((u64 \<times> quid) \<times> base) option" where
  "insert_table 0 b off q meta data = None"
| "insert_table (Suc n) b off q meta data = do {
     (t, b) \<leftarrow> get_table b off;
     zassert (unat (t_size t) < TABLE_SIZE - 1);
     case search_table t q of
       Inl i \<Rightarrow> do {
         b \<leftarrow> put_table b t off;
         Some ((i_offset (t_items t ! i), q), error_throw ''a475446c70e8'' ''Key exists'' b) }
     | Inr i \<Rightarrow> do {
         let left_child = i_child (t_items t ! i);
         let store = (\<lambda>ret q offset right_child b. do {
           let size = t_size t + 1;
           let items = memmove (i + 1) i (unat size - i) (t_items t);
           let items = items[i := \<lparr>i_quid = q, i_meta = meta, i_offset = offset, i_child = left_child\<rparr>];
           let items = items[i + 1 := (items ! (i + 1))\<lparr>i_child := right_child\<rparr>];
           b \<leftarrow> flush_table b \<lparr>t_items = items, t_size = size\<rparr> off;
           Some ((ret, q), b) });
         if left_child \<noteq> 0 then do {
           ((ret, q), b) \<leftarrow> insert_table n b left_child q meta data;
           (child, b) \<leftarrow> get_table b left_child;
           if unat (t_size child) < TABLE_SIZE - 1 then do {
             b \<leftarrow> put_table b t off;
             b \<leftarrow> put_table b child left_child;
             Some ((ret, q), b) }
           else do {
             ((right_child, q, offset, child), b) \<leftarrow> split_table b child;
             b \<leftarrow> flush_table b child left_child;
             store ret q offset right_child b } }
         else do {
           (ret, b) \<leftarrow> (if data \<noteq> None \<and> data \<noteq> Some [] then insert_data b data else Some (0, b));
           store ret q ret 0 b } } }"

text \<open>
  An absent key sends the deletion to the end of its search path, and the next larger item of the
  innermost table that has one is removed instead (\<open>TABLE_DELETE_LARGE\<close>).
\<close>

fun delete_table :: "nat \<Rightarrow> base \<Rightarrow> u64 \<Rightarrow> quid \<Rightarrow> ((u64 \<times> quid) \<times> base) option" where
  "delete_table 0 b off q = None"
| "delete_table (Suc n) b off q =
     (if off = 0 then Some ((0, q), error_throw ''6ef42da7901f'' ''Record not found'' b)
      else do {
        (t, b) \<leftarrow> get_table b off;
        case search_table t q of
          Inl i \<Rightarrow>
            if m_syslock (i_meta (t_items t ! i)) \<or> m_freeze (i_meta (t_items t ! i)) then do {
              b \<leftarrow> put_table (error_throw ''4987a3310049'' ''Record locked'' b) t off;
              Some ((0, q), b) }
            else do {
              ((ret, q, t), b) \<leftarrow> remove_table n b t i;
              b \<leftarrow> flush_table b t off;
              Some ((ret, q), b) }
        | Inr i \<Rightarrow> do {
            let child = i_child (t_items t ! i);
            ((ret, q), b) \<leftarrow> delete_table n b child q;
            (t, b) \<leftarrow> (if ret \<noteq> 0 then do {
                (c, b) \<leftarrow> table_join b child;
                Some (set_child i c t, b) }
              else Some (t, b));
            ((ret, q, t), b) \<leftarrow> (if ret = 0 \<and> i < unat (t_size t)
              then remove_table n b t i else Some ((ret, q, t), b));
            b \<leftarrow> (if ret \<noteq> 0 then flush_table b t off else put_table b t off);
            Some ((ret, q), b) } })"

text \<open>The new top table's offset is stored through \<open>table_offset\<close>.\<close>

definition insert_toplevel :: "nat \<Rightarrow> base \<Rightarrow> u64 \<Rightarrow> quid \<Rightarrow> metadata \<Rightarrow> string option \<Rightarrow> ((u64 \<times> u64) \<times> base) option" where
  "insert_toplevel n b root_off q meta data = do {
     let new_top = (\<lambda>ret q offset right_child b. do {
       let items = (t_items zero_table)
         [0 := \<lparr>i_quid = q, i_meta = meta, i_offset = offset, i_child = root_off\<rparr>,
          1 := (t_items zero_table ! 1)\<lparr>i_child := right_child\<rparr>];
       (new_table_offset, b) \<leftarrow> alloc_table_chunk b sizeof_engine_table;
       b \<leftarrow> flush_table b \<lparr>t_items = items, t_size = 1\<rparr> new_table_offset;
       Some ((ret, new_table_offset), b) });
     if root_off \<noteq> 0 then do {
       ((ret, q), b) \<leftarrow> insert_table n b root_off q meta data;
       (t, b) \<leftarrow> get_table b root_off;
       if unat (t_size t) < TABLE_SIZE - 1 then do {
         b \<leftarrow> put_table b t root_off;
         Some ((ret, root_off), b) }
       else do {
         ((right_child, q, offset, t), b) \<leftarrow> split_table b t;
         b \<leftarrow> flush_table b t root_off;
         new_top ret q offset right_child b } }
     else do {
       (ret, b) \<leftarrow> (if data \<noteq> None \<and> data \<noteq> Some [] then insert_data b data else Some (0, b));
       new_top ret q ret 0 b } }"

section \<open>Engine operations\<close>

text \<open>\<open>islocked\<close> throws when the engine is locked; the callers return at once then.\<close>

abbreviation (input) locked_error :: "base \<Rightarrow> base" where
  "locked_error \<equiv> error_throw ''986154f80058'' ''Database locked''"

definition engine_insert_meta_data :: "nat \<Rightarrow> base \<Rightarrow> quid \<Rightarrow> metadata \<Rightarrow> string option \<Rightarrow> (int \<times> base) option" where
  "engine_insert_meta_data n b q meta data =
     (if e_lock b then Some (- 1, locked_error b)
      else do {
        ((_, root_off), b) \<leftarrow> insert_toplevel n b (e_top b) q meta data;
        let b = b\<lparr>e_top := root_off\<rparr>;
        if iserror b then Some (- 1, b)
        else do {
          b \<leftarrow> flush_super (b\<lparr>st_zero_size := st_zero_size b + 1\<rparr>);
          Some (0, b) } })"

definition engine_insert_data :: "nat \<Rightarrow> base \<Rightarrow> quid \<Rightarrow> string option \<Rightarrow> (int \<times> base) option" where
  "engine_insert_data n b q data =
     engine_insert_meta_data n b q (zero_meta\<lparr>m_importance := MD_IMPORTANT_NORMAL\<rparr>) data"

definition engine_insert :: "nat \<Rightarrow> base \<Rightarrow> quid \<Rightarrow> (int \<times> base) option" where
  "engine_insert n b q = engine_insert_meta_data n b q
     (zero_meta\<lparr>m_nodata := True, m_importance := MD_IMPORTANT_NORMAL\<rparr>) None"

definition engine_insert_meta :: "nat \<Rightarrow> base \<Rightarrow> quid \<Rightarrow> metadata \<Rightarrow> (int \<times> base) option" where
  "engine_insert_meta n b q meta = engine_insert_meta_data n b q meta None"

text \<open>
  The descent that \<open>lookup_key\<close>, \<open>set_meta\<close> and \<open>engine_update_data\<close> share: the table with the key, taken
  out of the cache, and the position of the key in it.
\<close>

partial_function (option) find_slot :: "base \<Rightarrow> u64 \<Rightarrow> quid \<Rightarrow> ((u64 \<times> table \<times> nat) option \<times> base) option" where
  "find_slot b off q =
     (if off = 0 then Some (None, b)
      else do {
        (t, b) \<leftarrow> get_table b off;
        (case search_table t q of
           Inl i \<Rightarrow> Some (Some (off, t, i), b)
         | Inr i \<Rightarrow> do {
             b \<leftarrow> put_table b t off;
             find_slot b (i_child (t_items t ! i)) q }) })"

abbreviation (input) not_found :: "base \<Rightarrow> base" where
  "not_found \<equiv> error_throw ''6ef42da7901f'' ''Record not found''"

abbreviation (input) record_locked :: "base \<Rightarrow> base" where
  "record_locked \<equiv> error_throw ''4987a3310049'' ''Record locked''"

text \<open>\<open>nodata\<close> and \<open>meta\<close> are set only when the key is found.\<close>

definition lookup_key :: "base \<Rightarrow> u64 \<Rightarrow> quid \<Rightarrow> bool \<Rightarrow> ((u64 \<times> metadata option) \<times> base) option" where
  "lookup_key b off q force = do {
     (r, b) \<leftarrow> find_slot b off q;
     case r of
       None \<Rightarrow> Some ((0, None), not_found b)
     | Some (off, t, i) \<Rightarrow>
         (let it = t_items t ! i
          in if \<not> force \<and> m_lifecycle (i_meta it) \<noteq> MD_LIFECYCLE_FINITE then do {
               b \<leftarrow> put_table (not_found b) t off;
               Some ((0, None), b) }
             else do {
               b \<leftarrow> put_table b t off;
               Some ((i_offset it, Some (i_meta it)), b) }) }"

text \<open>\<open>get_data\<close> reads the header and then the \<open>len\<close> bytes behind it.\<close>

definition get_data :: "base \<Rightarrow> u64 \<Rightarrow> (string option \<times> base) option" where
  "get_data b off = do {
     (fd, off) \<leftarrow> pager_get_fd b off;
     case read_at fd off b of
       Some (CBlob info data) \<Rightarrow>
         if bl_len info = 0 then Some (None, b)
         else if length data < unat (bl_len info) then Some (None, fail_read b)
         else Some (Some (take (unat (bl_len info)) data), b)
     | _ \<Rightarrow> Some (None, fail_read b) }"

definition get_data_block :: "base \<Rightarrow> u64 \<Rightarrow> (string option \<times> base) option" where
  "get_data_block b off =
     (if e_lock b then Some (None, locked_error b)
      else if off = 0 then Some (None, b)
      else get_data b off)"

definition engine_get_with :: "bool \<Rightarrow> base \<Rightarrow> quid \<Rightarrow> ((u64 \<times> metadata) \<times> base) option" where
  "engine_get_with force b q =
     (if e_lock b then Some ((0, zero_meta), locked_error b)
      else do {
        ((off, m), b) \<leftarrow> lookup_key b (e_top b) q force;
        let meta = (case m of None \<Rightarrow> zero_meta | Some m \<Rightarrow> m);
        if iserror b then Some ((0, meta), b)
        else if m_nodata meta then Some ((0, meta), b)
        else Some ((off, meta), b) })"

definition engine_get :: "base \<Rightarrow> quid \<Rightarrow> ((u64 \<times> metadata) \<times> base) option" where
  "engine_get = engine_get_with False"

definition engine_get_force :: "base \<Rightarrow> quid \<Rightarrow> ((u64 \<times> metadata) \<times> base) option" where
  "engine_get_force = engine_get_with True"

definition engine_purge :: "nat \<Rightarrow> base \<Rightarrow> quid \<Rightarrow> (int \<times> base) option" where
  "engine_purge n b q =
     (if e_lock b then Some (- 1, locked_error b)
      else do {
        ((off, _), b) \<leftarrow> delete_table n b (e_top b) q;
        if iserror b then Some (- 1, b)
        else do {
          (root_off, b) \<leftarrow> table_join b (e_top b);
          b \<leftarrow> free_dbchunk (b\<lparr>e_top := root_off, st_zero_size := st_zero_size b - 1\<rparr>) off;
          b \<leftarrow> flush_super b;
          Some (0, b) } })"

definition set_meta :: "base \<Rightarrow> u64 \<Rightarrow> quid \<Rightarrow> metadata \<Rightarrow> (int \<times> base) option" where
  "set_meta b off q md = do {
     (r, b) \<leftarrow> find_slot b off q;
     case r of
       None \<Rightarrow> Some (- 1, not_found b)
     | Some (off, t, i) \<Rightarrow>
         if m_syslock (i_meta (t_items t ! i)) then do {
           b \<leftarrow> put_table (record_locked b) t off;
           Some (- 1, b) }
         else do {
           b \<leftarrow> flush_table b (t\<lparr>t_items := (t_items t)[i := (t_items t ! i)\<lparr>i_meta := md\<rparr>]\<rparr>) off;
           Some (0, b) } }"

definition engine_setmeta :: "base \<Rightarrow> quid \<Rightarrow> metadata \<Rightarrow> (int \<times> base) option" where
  "engine_setmeta b q md =
     (if e_lock b then Some (- 1, locked_error b)
      else do {
        (_, b) \<leftarrow> set_meta b (e_top b) q md;
        Some (if iserror b then - 1 else 0, b) })"

definition engine_delete :: "base \<Rightarrow> quid \<Rightarrow> (int \<times> base) option" where
  "engine_delete b q =
     (if e_lock b then Some (- 1, locked_error b)
      else do {
        ((_, m), b) \<leftarrow> lookup_key b (e_top b) q False;
        if iserror b then Some (- 1, b)
        else do {
          meta \<leftarrow> m;
          (_, b) \<leftarrow> set_meta b (e_top b) q (meta\<lparr>m_lifecycle := MD_LIFECYCLE_RECYCLE\<rparr>);
          if iserror b then Some (- 1, b)
          else do {
            b \<leftarrow> flush_super b;
            Some (0, b) } } })"

definition engine_update_data :: "base \<Rightarrow> quid \<Rightarrow> string option \<Rightarrow> (int \<times> base) option" where
  "engine_update_data b q data =
     (if e_lock b then Some (- 1, locked_error b)
      else do {
        (r, b) \<leftarrow> find_slot b (e_top b) q;
        case r of
          None \<Rightarrow> Some (- 1, not_found b)
        | Some (off, t, i) \<Rightarrow>
            if m_syslock (i_meta (t_items t ! i)) then do {
              b \<leftarrow> put_table (record_locked b) t off;
              Some (- 1, b) }
            else do {
              b \<leftarrow> free_dbchunk b (i_offset (t_items t ! i));
              (offset, b) \<leftarrow> insert_data b data;
              b \<leftarrow> flush_table b (t\<lparr>t_items := (t_items t)[i := (t_items t ! i)\<lparr>i_offset := offset\<rparr>]\<rparr>) off;
              b \<leftarrow> flush_super b;
              Some (0, b) } })"

section \<open>Rebuilding into a new base\<close>

fun engine_copy :: "nat \<Rightarrow> base \<Rightarrow> base \<Rightarrow> u64 \<Rightarrow> (base \<times> base) option"
and copy_items :: "nat \<Rightarrow> table \<Rightarrow> nat \<Rightarrow> base \<Rightarrow> base \<Rightarrow> (base \<times> base) option" where
  "engine_copy 0 b nb off = None"
| "engine_copy (Suc n) b nb off = do {
     (t, b) \<leftarrow> get_table b off;
     (b, nb) \<leftarrow> copy_items n t 0 b nb;
     b \<leftarrow> put_table b t off;
     Some (b, nb) }"
| "copy_items 0 t i b nb = None"
| "copy_items (Suc n) t i b nb =
     (if i < unat (t_size t) then do {
        let it = t_items t ! i;
        let child = i_child it;
        let right = i_child (t_items t ! (i + 1));
        (data, b) \<leftarrow> get_data b (i_offset it);
        (b, nb) \<leftarrow> (if m_lifecycle (i_meta it) = MD_LIFECYCLE_FINITE then do {
            let nb = share b nb;
            ((_, root_off), nb) \<leftarrow> insert_toplevel n nb (e_top nb) (i_quid it) (i_meta it) data;
            nb \<leftarrow> flush_super (nb\<lparr>e_top := root_off, st_zero_size := st_zero_size nb + 1\<rparr>);
            let nb = error_clear nb;
            Some (share nb b, nb) }
          else Some (b, nb));
        (b, nb) \<leftarrow> (if child \<noteq> 0 then engine_copy n b nb child else Some (b, nb));
        (b, nb) \<leftarrow> (if right \<noteq> 0 then engine_copy n b nb right else Some (b, nb));
        copy_items n t (i + 1) b nb }
      else Some (b, nb))"

definition engine_rebuild :: "nat \<Rightarrow> base \<Rightarrow> base \<Rightarrow> (int \<times> base \<times> base) option" where
  "engine_rebuild n b nb =
     (if off_zero b = 0 \<or> off_zero nb \<noteq> 0
      then (let b = error_throw_fatal ''5e6f0673908d'' ''Core not initialized'' b
            in Some (- 1, b, share b nb))
      else do {
        nb \<leftarrow> engine_create (share b nb);
        (b, nb) \<leftarrow> engine_copy n (share nb b) nb (e_top b);
        Some (0, b, nb) })"

section \<open>Names of metadata values\<close>

definition engine_keytype_hasdata :: "3 word \<Rightarrow> bool" where
  "engine_keytype_hasdata type =
     (if type = MD_TYPE_INDEX then False
      else if type = MD_TYPE_RAW then False
      else if type = MD_TYPE_RECORD then True
      else if type = MD_TYPE_GROUP then True
      else False)"

definition get_str_lifecycle :: "5 word \<Rightarrow> string" where
  "get_str_lifecycle lifecycle =
     (if lifecycle = MD_LIFECYCLE_FINITE then ''FINITE''
      else if lifecycle = MD_LIFECYCLE_INVALID then ''INVALID''
      else if lifecycle = MD_LIFECYCLE_CORRUPT then ''CORRUPT''
      else if lifecycle = MD_LIFECYCLE_RECYCLE then ''RECYCLE''
      else if lifecycle = MD_LIFECYCLE_INACTIVE then ''INACTIVE''
      else ''UNKNOWN'')"

definition get_str_type :: "3 word \<Rightarrow> string" where
  "get_str_type type =
     (if type = MD_TYPE_GROUP then ''GROUP''
      else if type = MD_TYPE_RAW then ''RAW''
      else if type = MD_TYPE_INDEX then ''INDEX''
      else ''RECORD'')"

definition get_meta_lifecycle :: "string \<Rightarrow> 5 word" where
  "get_meta_lifecycle s =
     (if s = ''FINITE'' then MD_LIFECYCLE_FINITE
      else if s = ''INVALID'' then MD_LIFECYCLE_INVALID
      else if s = ''CORRUPT'' then MD_LIFECYCLE_CORRUPT
      else if s = ''RECYCLE'' then MD_LIFECYCLE_RECYCLE
      else if s = ''INACTIVE'' then MD_LIFECYCLE_INACTIVE
      else MD_LIFECYCLE_UNKNOWN)"

definition get_meta_type :: "string \<Rightarrow> 3 word" where
  "get_meta_type s =
     (if s = ''GROUP'' then MD_TYPE_GROUP
      else if s = ''RAW'' then MD_TYPE_RAW
      else if s = ''INDEX'' then MD_TYPE_INDEX
      else MD_TYPE_RECORD)"

end
