(* ===== verification/Engine_Tree.thy ===== *)
theory Engine_Tree imports
  Engine
begin

text \<open>
  What the tables of the engine mean: an abstract multiway search tree, the relation between it and
  the tables on disk and in the cache, and the correctness of the descent that every operation
  starts with, over any number of pages.  \<open>flush_table\<close> caches a table under its position within the page
  (src/engine.c, 127-140), so the cache may hold entries that are no tables at all; what matters is that it
  is right about the tables of the tree.
\<close>

section \<open>The table cache is transparent\<close>

definition table_at :: "base \<Rightarrow> u64 \<Rightarrow> table option" where
  "table_at b off = Option.bind (cell_at b off) unwrap_table"

text \<open>The cache agrees with the disk about the tables at the offsets \<open>S\<close>.\<close>

definition cache_ok :: "base \<Rightarrow> u64 set \<Rightarrow> bool" where
  "cache_ok b S \<longleftrightarrow> length (e_cache b) = CACHE_SLOTS
     \<and> (\<forall>i<CACHE_SLOTS. \<forall>o' t. e_cache b ! i = (o', t) \<longrightarrow> o' \<in> S \<longrightarrow> cache_slot o' = i \<and> table_at b o' = Some t)"

definition eng_ok :: "base \<Rightarrow> u64 set \<Rightarrow> bool" where
  "eng_ok b S \<longleftrightarrow> store_ok b \<and> cache_ok b S \<and> 0 \<notin> S"

text \<open>
  No table lies at the position within its page at which another table lies in the first page, and none at the
  beginning of a page: then \<open>flush_table\<close> does no harm.
\<close>

definition apart :: "base \<Rightarrow> u64 set \<Rightarrow> bool" where
  "apart b S \<longleftrightarrow> (\<forall>x\<in>S. x mod page_size b \<noteq> 0 \<and> (x mod page_size b \<in> S \<longrightarrow> x mod page_size b = x))"

text \<open>The cache holds nothing for the offset.\<close>

definition uncached :: "base \<Rightarrow> u64 \<Rightarrow> bool" where
  "uncached b off \<longleftrightarrow> fst (e_cache b ! cache_slot off) \<noteq> off"

lemma cache_slot_less [simp]: "cache_slot off < CACHE_SLOTS"
  by (simp add: cache_slot_def)

lemma same_store_cache [simp]: "same_store (b\<lparr>e_cache := c\<rparr>) b"
  by (simp add: same_store_def)

lemmas cache_store [simp] = same_storeD[OF same_store_cache]

lemma table_at_cache [simp]: "table_at (b\<lparr>e_cache := c\<rparr>) = table_at b"
  by (simp add: table_at_def fun_eq_iff)

lemma table_at_valid: "eng_ok b S \<Longrightarrow> table_at b off = Some t \<Longrightarrow> valid b off"
proof -
  assume e: "eng_ok b S" and t: "table_at b off = Some t"
  have "pager_get_fd b off \<noteq> None"
    using t by (cases "pager_get_fd b off") (simp_all add: table_at_def cell_at_def load_cell_def)
  moreover have "core_count b \<noteq> 0" using e by (auto simp: eng_ok_def store_ok_def pager_wf_def)
  ultimately show ?thesis using pager_get_fd_beyond[of b off] by (fastforce simp: valid_def)
qed

lemma cache_okD:
  "eng_ok b S \<Longrightarrow> i < CACHE_SLOTS \<Longrightarrow> e_cache b ! i = (o', t) \<Longrightarrow> o' \<in> S \<Longrightarrow> cache_slot o' = i \<and> table_at b o' = Some t"
  by (simp add: eng_ok_def cache_ok_def)

lemma cache_put:
  assumes "cache_ok b S" "o' \<in> S \<Longrightarrow> table_at b o' = Some t"
  shows "cache_ok (b\<lparr>e_cache := (e_cache b)[cache_slot o' := (o', t)]\<rparr>) S"
  using assms by (auto simp: cache_ok_def nth_list_update)

lemma get_table_ok:
  assumes "eng_ok b S" "off \<in> S" "table_at b off = Some t"
  obtains c where "get_table b off = Some (t, b\<lparr>e_cache := c\<rparr>)" "eng_ok (b\<lparr>e_cache := c\<rparr>) S" "uncached (b\<lparr>e_cache := c\<rparr>) off"
proof -
  have off: "off \<noteq> 0" and l: "length (e_cache b) = CACHE_SLOTS" using assms(1,2) by (auto simp: eng_ok_def cache_ok_def)
  obtain o' u where s: "e_cache b ! cache_slot off = (o', u)" by fastforce
  show ?thesis
  proof (cases "o' = off")
    case True
    then have "u = t"
      using cache_okD[OF assms(1) cache_slot_less s] assms(2,3) by simp
    moreover have "eng_ok (b\<lparr>e_cache := (e_cache b)[cache_slot off := (0, u)]\<rparr>) S"
      using assms(1) by (auto simp: eng_ok_def cache_ok_def nth_list_update)
    ultimately show ?thesis
      using that s True off l by (simp add: get_table_def uncached_def)
  next
    case False
    have "valid b off" using table_at_valid[OF assms(1,3)] .
    then have "load_cell off b = Some (cell_at b off)" using assms(1) by (simp add: load_cell_ok eng_ok_def)
    moreover obtain c where "cell_at b off = Some c" "unwrap_table c = Some t"
      using assms(3) by (cases "cell_at b off") (auto simp: table_at_def)
    ultimately have "get_table b off = Some (t, b)" "uncached b off"
      using s False off by (simp_all add: get_table_def uncached_def)
    moreover have "b = b\<lparr>e_cache := e_cache b\<rparr>" by simp
    ultimately show ?thesis using that assms(1) by metis
  qed
qed

lemma put_table_ok:
  assumes "eng_ok b S" "off \<in> S" "table_at b off = Some t"
  obtains c where "put_table b t off = Some (b\<lparr>e_cache := c\<rparr>)" "eng_ok (b\<lparr>e_cache := c\<rparr>) S"
proof -
  have "off \<noteq> 0" using assms(1,2) by (auto simp: eng_ok_def)
  moreover have "eng_ok (b\<lparr>e_cache := (e_cache b)[cache_slot off := (off, t)]\<rparr>) S"
    using assms cache_put[of b S off t] by (simp add: eng_ok_def)
  ultimately show ?thesis using that by (simp add: put_table_def)
qed

lemma flush_table_ok:
  assumes e: "eng_ok b S" and a: "apart b S" and off: "off \<in> S" "valid b off" and u: "uncached b off"
  obtains c D where "flush_table b t off = Some (b\<lparr>disk := D, e_cache := c\<rparr>)"
    "eng_ok (b\<lparr>disk := D, e_cache := c\<rparr>) S"
    "\<And>x. valid b x \<Longrightarrow> cell_at (b\<lparr>disk := D, e_cache := c\<rparr>) x = (if x = off then Some (CTable t) else cell_at b x)"
proof -
  have ok: "store_ok b" using e by (simp add: eng_ok_def)
  obtain D where D: "store_cell off (CTable t) b = Some (b\<lparr>disk := D\<rparr>)" "store_ok (b\<lparr>disk := D\<rparr>)"
    "\<And>x. valid b x \<Longrightarrow> cell_at (b\<lparr>disk := D\<rparr>) x = (if x = off then Some (CTable t) else cell_at b x)"
    using store_cell_ok[OF ok off(2)] by blast
  define pos where "pos = off mod page_size b"
  have pos: "pos \<noteq> 0" "pos \<in> S \<Longrightarrow> pos = off" using a off(1) by (auto simp: apart_def pos_def)
  define c where "c = (e_cache b)[cache_slot pos := (pos, t)]"
  have cells: "cell_at (b\<lparr>disk := D, e_cache := c\<rparr>) x = (if x = off then Some (CTable t) else cell_at b x)" if "valid b x" for x
    using D(3)[OF that] same_storeD(3)[OF same_store_cache[where b="b\<lparr>disk := D\<rparr>" and c=c]] by simp
  have tables: "table_at (b\<lparr>disk := D\<rparr>) x = (if x = off then Some t else table_at b x)" if "valid b x" for x
    using D(3)[OF that] by (simp add: table_at_def)
  have "pager_get_fd b off = Some (page_keys b ! (unat off div psz b), pos)" using get_fd_keys[OF ok off(2)] by (simp add: pos_def)
  then have "flush_table b t off = Some (b\<lparr>disk := D, e_cache := c\<rparr>)"
    using D(1) off(1) e pos(1) by (auto simp: flush_table_def store_cell_def put_table_def c_def eng_ok_def zassert_def)
  moreover have "cache_ok (b\<lparr>disk := D\<rparr>\<lparr>e_cache := (e_cache (b\<lparr>disk := D\<rparr>))[cache_slot pos := (pos, t)]\<rparr>) S"
  proof (rule cache_put)
    show "table_at (b\<lparr>disk := D\<rparr>) pos = Some t" if "pos \<in> S" using tables[OF off(2)] pos(2)[OF that] by simp
    have "cache_slot o' = i \<and> table_at (b\<lparr>disk := D\<rparr>) o' = Some t'"
      if "i < CACHE_SLOTS" "e_cache b ! i = (o', t')" "o' \<in> S" for i o' t'
    proof -
      have s: "cache_slot o' = i" "table_at b o' = Some t'" using cache_okD[OF e that] by simp_all
      moreover have "o' \<noteq> off" using u s(1) that(2) by (auto simp: uncached_def)
      ultimately show ?thesis using tables[OF table_at_valid[OF e s(2)]] by simp
    qed
    then show "cache_ok (b\<lparr>disk := D\<rparr>) S" using e by (auto simp: cache_ok_def eng_ok_def)
  qed
  ultimately show ?thesis using that D(2) e cells by (simp add: eng_ok_def c_def)
qed

text \<open>In the other case \<open>get_table\<close> finds the table of the other page.\<close>

lemma flush_table_displaces:
  assumes "store_ok b" "valid b off" "off \<noteq> 0" "length (e_cache b) = CACHE_SLOTS"
  shows "(off mod page_size b = 0 \<longrightarrow> flush_table b t off = None)
    \<and> (off mod page_size b \<noteq> 0 \<longrightarrow> (\<exists>b' b''. flush_table b t off = Some b' \<and> get_table b' (off mod page_size b) = Some (t, b'')))"
  using get_fd_keys[OF assms(1,2)] assms(3,4)
  by (auto simp: flush_table_def put_table_def get_table_def zassert_def write_at_def split: option.splits)

section \<open>The search inside a table\<close>

lemma bsearch_step:
  assumes "l < r" "i = (r - l) div 2 + l"
  shows "q = i_quid (items ! i) \<Longrightarrow> bsearch items q l r = Inl i"
    and "q < i_quid (items ! i) \<Longrightarrow> bsearch items q l r = bsearch items q l i"
    and "i_quid (items ! i) < q \<Longrightarrow> bsearch items q l r = bsearch items q (i + 1) r"
  using assms by (subst bsearch.simps, auto simp: Let_def)+

lemma bsearch_stop: "\<not> l < r \<Longrightarrow> bsearch items q l r = Inr l"
  by (subst bsearch.simps) simp

lemma bsearch_Inl: "bsearch items q l r = Inl i \<Longrightarrow> l \<le> i \<and> i < r \<and> i_quid (items ! i) = q"
proof (induction "r - l" arbitrary: l r rule: less_induct)
  case less
  show ?case
  proof (cases "l < r")
    case True
    define m where "m = (r - l) div 2 + l"
    have m: "l \<le> m" "m < r" using True by (auto simp: m_def)
    then have d: "m - l < r - l" "r - (m + 1) < r - l" by linarith+
    note s = bsearch_step[OF True m_def, where q=q and items=items]
    consider "q = i_quid (items ! m)" | "q < i_quid (items ! m)" | "i_quid (items ! m) < q"
      by (rule linorder_cases)
    then show ?thesis
    proof cases
      case 1
      then show ?thesis using s(1) less.prems m by auto
    next
      case 2
      then show ?thesis using less.hyps[of m l, OF d(1)] s(2)[OF 2] less.prems m by auto
    next
      case 3
      then show ?thesis using less.hyps[of r "m + 1", OF d(2)] s(3)[OF 3] less.prems m by auto
    qed
  qed (use less.prems in \<open>simp add: bsearch_stop\<close>)
qed

lemma bsearch_Inr:
  assumes "bsearch items q l r = Inr i" "sorted_wrt (<) (map i_quid (take n items))" "r \<le> n" "n \<le> length items"
    "l \<le> r" "\<forall>j<l. i_quid (items ! j) < q" "\<forall>j<n. r \<le> j \<longrightarrow> q < i_quid (items ! j)"
  shows "i \<le> n \<and> (\<forall>j<i. i_quid (items ! j) < q) \<and> (\<forall>j<n. i \<le> j \<longrightarrow> q < i_quid (items ! j))"
  using assms
proof (induction "r - l" arbitrary: l r rule: less_induct)
  case less
  have mono: "i_quid (items ! j) \<le> i_quid (items ! k)" if "j \<le> k" "k < n" for j k
  proof (cases "j = k")
    case False
    then have "map i_quid (take n items) ! j < map i_quid (take n items) ! k"
      using that less.prems(2,4) sorted_wrt_nth_less[OF less.prems(2), of j k] by simp
    then show ?thesis using that less.prems(4) by simp
  qed simp
  show ?case
  proof (cases "l < r")
    case True
    define m where "m = (r - l) div 2 + l"
    have m: "l \<le> m" "m < r" using True by (auto simp: m_def)
    then have d: "m - l < r - l" "r - (m + 1) < r - l" by linarith+
    note s = bsearch_step[OF True m_def, where q=q and items=items]
    consider "q = i_quid (items ! m)" | "q < i_quid (items ! m)" | "i_quid (items ! m) < q"
      by (rule linorder_cases)
    then show ?thesis
    proof cases
      case 1
      then show ?thesis using s(1) less.prems by simp
    next
      case 2
      have "\<forall>j<n. m \<le> j \<longrightarrow> q < i_quid (items ! j)"
        using less_le_trans[OF 2 mono] by blast
      then show ?thesis 
        using less.prems m by (intro less.hyps[of m l, OF d(1)]) (simp_all add: s(2)[OF 2])
    next
      case 3
      have "\<forall>j<m + 1. i_quid (items ! j) < q"
        using le_less_trans[OF mono 3] m less.prems(3) by simp
      then show ?thesis 
        using less.prems m by (intro less.hyps[of r "m + 1", OF d(2)]) (simp_all add: s(3)[OF 3])
    qed
  next
    case False
    then show ?thesis using less.prems by (simp add: bsearch_stop)
  qed
qed

section \<open>The abstract tree\<close>

type_synonym entry = "quid \<times> metadata \<times> u64"

text \<open>A table: its offset, the subtrees with the entries behind them, and the rightmost subtree.\<close>

datatype tree = Leaf | Node u64 "(tree \<times> entry) list" tree

fun root :: "tree \<Rightarrow> u64" where
  "root Leaf = 0"
| "root (Node off ts r) = off"

lemma subtree_size [termination_simp]: "(s, e) \<in> set ts \<Longrightarrow> size s < Suc (size_list (size_prod size (\<lambda>_. 0)) ts + n)"
  by (induction ts) auto

fun inorder :: "tree \<Rightarrow> entry list" where
  "inorder Leaf = []"
| "inorder (Node off ts r) = concat (map (\<lambda>(s, e). inorder s @ [e]) ts) @ inorder r"

fun offs :: "tree \<Rightarrow> u64 list" where
  "offs Leaf = []"
| "offs (Node off ts r) = off # concat (map (\<lambda>(s, e). offs s) ts) @ offs r"

fun height :: "tree \<Rightarrow> nat" where
  "height Leaf = 0"
| "height (Node off ts r) = Suc (max (fold max (map (\<lambda>(s, e). height s) ts) 0) (height r))"

definition enc :: "tree \<times> entry \<Rightarrow> item" where
  "enc x = (case x of (s, q, m, d) \<Rightarrow> \<lparr>i_quid = q, i_meta = m, i_offset = d, i_child = root s\<rparr>)"

text \<open>The table that stands for a node: its first items, and the child behind the last one.\<close>

definition repr :: "table \<Rightarrow> (tree \<times> entry) list \<Rightarrow> tree \<Rightarrow> bool" where
  "repr t ts r \<longleftrightarrow> length (t_items t) = TABLE_SIZE \<and> length ts < TABLE_SIZE
     \<and> unat (t_size t) = length ts \<and> take (length ts) (t_items t) = map enc ts
     \<and> i_child (t_items t ! length ts) = root r"

fun tree_at :: "(u64 \<Rightarrow> table option) \<Rightarrow> tree \<Rightarrow> bool" where
  "tree_at C Leaf = True"
| "tree_at C (Node off ts r) \<longleftrightarrow> off \<noteq> 0 \<and> (\<exists>t. C off = Some t \<and> repr t ts r)
     \<and> (\<forall>(s, e)\<in>set ts. tree_at C s) \<and> tree_at C r"

text \<open>The subtree in front of entry \<open>i\<close>, or behind the last one.\<close>

definition child :: "(tree \<times> entry) list \<Rightarrow> tree \<Rightarrow> nat \<Rightarrow> tree" where
  "child ts r i = (if i < length ts then fst (ts ! i) else r)"

abbreviation key :: "entry \<Rightarrow> quid" where
  "key \<equiv> fst"

definition keys :: "tree \<Rightarrow> quid list" where
  "keys t = map key (inorder t)"

lemma tree_child_induct [case_names Leaf Node]:
  assumes "P Leaf" "\<And>off ts r. (\<And>i. i \<le> length ts \<Longrightarrow> P (child ts r i)) \<Longrightarrow> P (Node off ts r)"
  shows "P tr"
proof (induction tr)
  case (Node off ts r)
  have "P (child ts r i)" for i
    using Node by (cases "ts ! i") (auto simp: child_def dest: nth_mem)
  then show ?case by (rule assms(2))
qed (rule assms(1))

text \<open>The entries in front of the subtree \<open>i\<close> of a node, and those behind it.\<close>

abbreviation flat :: "(tree \<times> entry) list \<Rightarrow> entry list" where
  "flat ts \<equiv> concat (map (\<lambda>(s, e). inorder s @ [e]) ts)"

definition before :: "(tree \<times> entry) list \<Rightarrow> nat \<Rightarrow> entry list" where
  "before ts i = flat (take i ts)"

definition after :: "(tree \<times> entry) list \<Rightarrow> tree \<Rightarrow> nat \<Rightarrow> entry list" where
  "after ts r i = (if i < length ts then snd (ts ! i) # flat (drop (Suc i) ts) @ inorder r else [])"

lemma inorder_split:
  assumes "i \<le> length ts"
  shows "inorder (Node off ts r) = before ts i @ inorder (child ts r i) @ after ts r i"
proof (cases "i < length ts")
  case True
  then have "flat ts = flat (take i ts) @ (inorder (fst (ts ! i)) @ [snd (ts ! i)]) @ flat (drop (Suc i) ts)"
    by (subst id_take_nth_drop[OF True]) (simp add: case_prod_unfold)
  then show ?thesis using True by (simp add: before_def after_def child_def)
next
  case False
  then show ?thesis using assms by (simp add: before_def after_def child_def)
qed

lemma before_Suc: "j < length ts \<Longrightarrow> before ts (Suc j) = before ts j @ inorder (fst (ts ! j)) @ [snd (ts ! j)]"
  by (simp add: before_def take_Suc_conv_app_nth case_prod_unfold)

lemma keys_split:
  "i \<le> length ts \<Longrightarrow> keys (Node off ts r)
     = map key (before ts i) @ keys (child ts r i) @ map key (after ts r i)"
  using inorder_split[of i ts off r] by (simp add: keys_def del: inorder.simps)

lemma keys_child_sorted:
  "sorted_wrt (<) (keys (Node off ts r)) \<Longrightarrow> i \<le> length ts \<Longrightarrow> sorted_wrt (<) (keys (child ts r i))"
  using keys_split[of i ts off r] by (simp add: sorted_wrt_append)

lemma node_keys:
  "map (\<lambda>x. key (snd x)) ts = map i_quid (map enc ts)"
  by (auto simp: enc_def split: prod.splits)

lemma key_nth: "j < length ts \<Longrightarrow> i_quid (map enc ts ! j) = key (snd (ts ! j))"
  by (simp add: enc_def split: prod.splits)

lemma node_keys_sorted:
  assumes "sorted_wrt (<) (keys (Node off ts r))"
  shows "sorted_wrt (<) (map (\<lambda>x. key (snd x)) ts)"
proof -
  have "sorted_wrt (<) (map key (flat ts)) \<Longrightarrow> sorted_wrt (<) (map (\<lambda>x. key (snd x)) ts)" for ts
    by (induction ts) (fastforce simp: sorted_wrt_append)+
  then show ?thesis using assms by (simp add: keys_def sorted_wrt_append)
qed

text \<open>Searching a table decides which side of the node's keys the key lies on.\<close>

lemma search_node:
  assumes t: "repr t ts r" and s: "sorted_wrt (<) (keys (Node off ts r))"
  shows "search_table t q = Inl i \<Longrightarrow> i < length ts \<and> key (snd (ts ! i)) = q"
    and "search_table t q = Inr i \<Longrightarrow> i \<le> length ts
      \<and> (\<forall>e\<in>set (before ts i). key e < q) \<and> (\<forall>e\<in>set (after ts r i). q < key e)"
proof -
  have n: "unat (t_size t) = length ts" "length ts \<le> length (t_items t)"
    and items: "take (length ts) (t_items t) = map enc ts" using t by (auto simp: repr_def)
  have nth: "i_quid (t_items t ! j) = key (snd (ts ! j))" if "j < length ts" for j
    using key_nth[OF that] nth_take[OF that, of "t_items t"] items by simp
  show "search_table t q = Inl i \<Longrightarrow> i < length ts \<and> key (snd (ts ! i)) = q"
    using bsearch_Inl[of "t_items t" q 0 _ i] nth[of i] by (auto simp: search_table_def n)
  assume r: "search_table t q = Inr i"
  have "sorted_wrt (<) (map i_quid (take (length ts) (t_items t)))"
    using node_keys_sorted[OF s] by (simp add: items node_keys del: map_map)
  from bsearch_Inr[OF r[unfolded search_table_def n] this order_refl n(2)]
  have b: "i \<le> length ts" "\<forall>j<i. key (snd (ts ! j)) < q" "\<forall>j<length ts. i \<le> j \<longrightarrow> q < key (snd (ts ! j))"
    using nth by auto
  have ks: "sorted_wrt (<) (map key (before ts i))" "sorted_wrt (<) (map key (after ts r i))"
    using s keys_split[OF b(1), of off r] by (auto simp: sorted_wrt_append)
  have "\<forall>e\<in>set (before ts i). key e < q"
  proof (cases i)
    case (Suc j)
    then have "before ts i = (before ts j @ inorder (fst (ts ! j))) @ [snd (ts ! j)]" "key (snd (ts ! j)) < q"
      using b before_Suc[of j ts] by auto
    then show ?thesis using ks(1) unfolding \<open>before ts i = _\<close> by (auto simp: sorted_wrt_append)
  qed (simp add: before_def)
  moreover have "\<forall>e\<in>set (after ts r i). q < key e"
  proof (cases "i < length ts")
    case True
    then obtain xs where "after ts r i = snd (ts ! i) # xs" "q < key (snd (ts ! i))"
      using b by (auto simp: after_def)
    then show ?thesis using ks(2) unfolding \<open>after ts r i = _\<close> by auto
  qed (simp add: after_def)
  ultimately show "i \<le> length ts
      \<and> (\<forall>e\<in>set (before ts i). key e < q) \<and> (\<forall>e\<in>set (after ts r i). q < key e)" using b by blast
qed

lemma search_child:
  assumes "repr t ts r" "sorted_wrt (<) (keys (Node off ts r))" "search_table t q = Inr i"
  shows "q \<in> set (keys (Node off ts r)) \<longleftrightarrow> q \<in> set (keys (child ts r i))"
    and "map_of (inorder (Node off ts r)) q = map_of (inorder (child ts r i)) q"
proof -
  note s = search_node(2)[OF assms]
  have n: "q \<notin> key ` set (before ts i)" "q \<notin> key ` set (after ts r i)" using s by auto
  then have "map_of (before ts i) q = None" "map_of (after ts r i) q = None"
    by (auto simp: map_of_eq_None_iff)
  then show "map_of (inorder (Node off ts r)) q = map_of (inorder (child ts r i)) q"
    using inorder_split[of i ts off r] s by (simp add: map_add_def del: inorder.simps split: option.splits)
  show "q \<in> set (keys (Node off ts r)) \<longleftrightarrow> q \<in> set (keys (child ts r i))"
    using keys_split[of i ts off r] s n by simp
qed

lemma repr_child: "repr t ts r \<Longrightarrow> i \<le> length ts \<Longrightarrow> i_child (t_items t ! i) = root (child ts r i)"
proof (cases "i < length ts")
  case True
  assume "repr t ts r"
  then have "take (length ts) (t_items t) ! i = map enc ts ! i" by (simp add: repr_def)
  then show ?thesis using True by (simp add: child_def enc_def split: prod.splits)
qed (simp add: repr_def child_def)

lemma repr_item: "repr t ts r \<Longrightarrow> i < length ts \<Longrightarrow> t_items t ! i = enc (ts ! i)"
proof -
  assume "repr t ts r" "i < length ts"
  then have "take (length ts) (t_items t) ! i = map enc ts ! i" by (simp add: repr_def)
  then show ?thesis using \<open>i < length ts\<close> by simp
qed

lemma all_child: "(\<forall>i\<le>length ts. P (child ts r i)) \<longleftrightarrow> (\<forall>x\<in>set ts. P (fst x)) \<and> P r"
proof -
  have "(\<forall>i\<le>length ts. P (child ts r i)) \<longleftrightarrow> (\<forall>i<length ts. P (child ts r i)) \<and> P (child ts r (length ts))"
    by (auto simp: le_less)
  then show ?thesis by (simp add: child_def all_set_conv_all_nth)
qed

lemma tree_at_Node: "tree_at C (Node off ts r) \<longleftrightarrow> off \<noteq> 0 \<and> (\<exists>t. C off = Some t \<and> repr t ts r)
    \<and> (\<forall>i\<le>length ts. tree_at C (child ts r i))"
  by (simp add: all_child case_prod_unfold)

lemma tree_at_child: "tree_at C (Node off ts r) \<Longrightarrow> i \<le> length ts \<Longrightarrow> tree_at C (child ts r i)"
  unfolding tree_at_Node by blast

section \<open>Changing one entry\<close>

fun tree_upd :: "quid \<Rightarrow> (metadata \<times> u64 \<Rightarrow> metadata \<times> u64) \<Rightarrow> tree \<Rightarrow> tree" where
  "tree_upd q f Leaf = Leaf"
| "tree_upd q f (Node off ts r) = Node off
     (map (\<lambda>(s, k, v). (tree_upd q f s, k, if k = q then f v else v)) ts) (tree_upd q f r)"

abbreviation upd_entry :: "quid \<Rightarrow> (metadata \<times> u64 \<Rightarrow> metadata \<times> u64) \<Rightarrow> entry \<Rightarrow> entry" where
  "upd_entry q f \<equiv> \<lambda>(k, v). (k, if k = q then f v else v)"

lemma inorder_upd: "inorder (tree_upd q f tr) = map (upd_entry q f) (inorder tr)"
  by (induction tr) (auto simp: map_concat comp_def case_prod_unfold intro!: arg_cong[where f=concat])

lemma keys_upd [simp]: "keys (tree_upd q f tr) = keys tr"
  by (simp add: keys_def inorder_upd comp_def case_prod_unfold)

lemma offs_upd [simp]: "offs (tree_upd q f tr) = offs tr"
  by (induction tr) (auto simp: comp_def case_prod_unfold intro!: arg_cong[where f=concat])

lemma root_upd [simp]: "root (tree_upd q f tr) = root tr"
  by (cases tr) simp_all

lemma map_of_upd_entry: "map_of (map (upd_entry q f) xs) k
    = (if k = q then map_option f (map_of xs q) else map_of xs k)"
  by (induction xs) auto

lemma map_of_upd: "map_of (inorder (tree_upd q f tr)) k
    = (if k = q then map_option f (map_of (inorder tr) q) else map_of (inorder tr) k)"
  by (simp only: inorder_upd map_of_upd_entry)

lemma key_in_node: "x \<in> set ts \<Longrightarrow> key (snd x) \<in> set (keys (Node off ts r))"
  by (cases x) (force simp: keys_def)

lemma child_keys: "i \<le> length ts \<Longrightarrow> set (keys (child ts r i)) \<subseteq> set (keys (Node off ts r))"
  by (auto simp: keys_split)

lemma tree_upd_id: "q \<notin> set (keys tr) \<Longrightarrow> tree_upd q f tr = tr"
proof (induction tr rule: tree_child_induct)
  case (Node off ts r)
  have "\<forall>i\<le>length ts. tree_upd q f (child ts r i) = child ts r i"
    using Node.IH Node.prems child_keys[of _ ts r off] by blast
  then have c: "\<forall>x\<in>set ts. tree_upd q f (fst x) = fst x" "tree_upd q f r = r"
    using all_child[where P="\<lambda>s. tree_upd q f s = s"] by auto
  have "(\<lambda>(s, k, v). (tree_upd q f s, k, if k = q then f v else v)) x = x" if "x \<in> set ts" for x
    using c(1) that key_in_node[OF that, of off r] Node.prems by (cases x) auto
  then show ?case using c(2) by (simp add: map_idI)
qed simp

lemma all_offs: "(\<forall>x\<in>set (offs (Node off ts r)). P x) \<longleftrightarrow> P off \<and> (\<forall>i\<le>length ts. \<forall>x\<in>set (offs (child ts r i)). P x)"
  using all_child[where P="\<lambda>s. \<forall>x\<in>set (offs s). P x"] by (simp add: case_prod_unfold ball_Un)

lemma tree_at_cong: "\<forall>x\<in>set (offs tr). C' x = C x \<Longrightarrow> tree_at C' tr = tree_at C tr"
proof (induction tr rule: tree_child_induct)
  case (Node off ts r)
  then show ?case unfolding all_offs tree_at_Node by auto
qed simp

lemma offs_child: "i \<le> length ts \<Longrightarrow> set (offs (child ts r i)) \<subseteq> set (offs (Node off ts r))"
  using all_offs[of off ts r "\<lambda>x. x \<in> set (offs (Node off ts r))"] by blast

lemma distinct_concat_map_nth:
  "distinct (concat (map f xs)) \<Longrightarrow> i < length xs \<Longrightarrow> j < length xs \<Longrightarrow> i \<noteq> j \<Longrightarrow>
    set (f (xs ! i)) \<inter> set (f (xs ! j)) = {}"
proof (induction xs arbitrary: i j)
  case (Cons x xs)
  have "set (f x) \<inter> set (f (xs ! k)) = {}" if "k < length xs" for k
    using Cons.prems(1) nth_mem[OF that] by auto
  then show ?case using Cons by (cases i; cases j) (auto simp: Int_commute)
qed simp

lemma offs_node: "offs (Node off ts r) = off # concat (map (\<lambda>i. offs (child ts r i)) [0..<Suc (length ts)])"
proof -
  have "map (\<lambda>i. offs (child ts r i)) [0..<length ts] = map (\<lambda>(s, e). offs s) ts"
    by (rule nth_equalityI) (simp_all add: child_def case_prod_unfold)
  then show ?thesis by (simp add: child_def)
qed

lemma child_disjoint:
  assumes "distinct (offs (Node off ts r))" "i \<le> length ts"
  shows "j \<le> length ts \<Longrightarrow> i \<noteq> j \<Longrightarrow> set (offs (child ts r i)) \<inter> set (offs (child ts r j)) = {}"
    and "off \<notin> set (offs (child ts r i))" and "distinct (offs (child ts r i))"
proof -
  have d: "distinct (concat (map (\<lambda>i. offs (child ts r i)) [0..<Suc (length ts)]))"
    and o: "off \<notin> set (concat (map (\<lambda>i. offs (child ts r i)) [0..<Suc (length ts)]))"
    using assms(1) unfolding offs_node by auto
  show "set (offs (child ts r i)) \<inter> set (offs (child ts r j)) = {}" if "j \<le> length ts" "i \<noteq> j"
    using that distinct_concat_map_nth[OF d, of i j] assms by (simp del: upt_Suc)
  have "i \<in> set [0..<Suc (length ts)]" using assms(2) by auto
  then show "off \<notin> set (offs (child ts r i))" "distinct (offs (child ts r i))"
    using o d by (auto simp: distinct_concat_iff simp del: upt_Suc)
qed

section \<open>The descent\<close>

text \<open>
  What \<open>find_slot\<close> promises about the slot it returns: it holds the entry of the key, and storing a
  changed entry in it changes exactly that entry of the tree.
\<close>

definition set_entry :: "nat \<Rightarrow> metadata \<times> u64 \<Rightarrow> table \<Rightarrow> table" where
  "set_entry i v t = t\<lparr>t_items := (t_items t)[i := (t_items t ! i)\<lparr>i_meta := fst v, i_offset := snd v\<rparr>]\<rparr>"

definition slot_of :: "(u64 \<Rightarrow> table option) \<Rightarrow> tree \<Rightarrow> quid \<Rightarrow> u64 \<times> table \<times> nat \<Rightarrow> bool" where
  "slot_of C tr q x \<longleftrightarrow> (case x of (off, t, i) \<Rightarrow>
     off \<in> set (offs tr) \<and> off \<noteq> 0 \<and> C off = Some t \<and> i < length (t_items t) \<and> i_quid (t_items t ! i) = q
     \<and> map_of (inorder tr) q = Some (i_meta (t_items t ! i), i_offset (t_items t ! i))
     \<and> (\<forall>f. tree_at (C(off \<mapsto> set_entry i (f (i_meta (t_items t ! i), i_offset (t_items t ! i))) t)) (tree_upd q f tr)))"

lemma child_upd:
  assumes "i \<le> length ts"
  shows "child (map (\<lambda>(s, k, v). (tree_upd q f s, k, if k = q then f v else v)) ts) (tree_upd q f r) i
    = tree_upd q f (child ts r i)"
  using assms by (simp add: child_def case_prod_unfold)

lemma repr_set_entry:
  assumes t: "repr t ts r" and s: "sorted_wrt (<) (keys (Node off ts r))"
    and i: "i < length ts" "key (snd (ts ! i)) = q"
  shows "repr (set_entry i (f (snd (snd (ts ! i)))) t)
    (map (\<lambda>(s, k, v). (tree_upd q f s, k, if k = q then f v else v)) ts) (tree_upd q f r)"
proof -
  let ?U = "\<lambda>(s, k, v). (tree_upd q f s, k, if k = q then f v else v)"
  have items: "take (length ts) (t_items t) = map enc ts" and n: "length ts < TABLE_SIZE"
    and len: "length (t_items t) = TABLE_SIZE" using t by (auto simp: repr_def)
  have other: "key (snd (ts ! j)) \<noteq> q" if "j < length ts" "j \<noteq> i" for j
  proof -
    have "distinct (map (\<lambda>x. key (snd x)) ts)"
      using node_keys_sorted[OF s] by (simp add: strict_sorted_iff)
    then have "map (\<lambda>x. key (snd x)) ts ! j \<noteq> map (\<lambda>x. key (snd x)) ts ! i"
      using that i(1) by (auto simp: distinct_conv_nth)
    then show ?thesis using that i by simp
  qed
  have "take (length ts) (t_items (set_entry i (f (snd (snd (ts ! i)))) t)) = map enc (map ?U ts)"
  proof (rule nth_equalityI)
    fix j assume "j < length (take (length ts) (t_items (set_entry i (f (snd (snd (ts ! i)))) t)))"
    then have j: "j < length ts" by simp
    show "take (length ts) (t_items (set_entry i (f (snd (snd (ts ! i)))) t)) ! j = map enc (map ?U ts) ! j"
      using j i n len repr_item[OF t j] other[OF j]
      by (auto simp: set_entry_def enc_def nth_list_update split: prod.splits)
  qed (use n len in \<open>simp add: set_entry_def\<close>)
  then show ?thesis
    using t i n len by (simp add: repr_def set_entry_def nth_list_update)
qed

lemma repr_upd:
  assumes t: "repr t ts r" and q: "\<forall>x\<in>set ts. key (snd x) \<noteq> q"
  shows "repr t (map (\<lambda>(s, k, v). (tree_upd q f s, k, if k = q then f v else v)) ts) (tree_upd q f r)"
proof -
  have "enc ((\<lambda>(s, k, v). (tree_upd q f s, k, if k = q then f v else v)) x) = enc x" if "x \<in> set ts" for x
    using q that by (auto simp: enc_def split: prod.splits)
  then show ?thesis using t by (auto simp: repr_def)
qed

lemma drop_mem: "i < j \<Longrightarrow> j < length xs \<Longrightarrow> xs ! j \<in> set (drop (Suc i) xs)"
  by (auto simp: in_set_conv_nth intro!: exI[of _ "j - Suc i"])

lemma take_mem: "j < i \<Longrightarrow> j < length xs \<Longrightarrow> xs ! j \<in> set (take i xs)"
  by (auto simp: in_set_conv_nth intro!: exI[of _ j])

lemma search_not_here:
  assumes "repr t ts r" "sorted_wrt (<) (keys (Node off ts r))" "search_table t q = Inr i"
  shows "\<forall>x\<in>set ts. key (snd x) \<noteq> q" and "j \<le> length ts \<Longrightarrow> j \<noteq> i \<Longrightarrow> q \<notin> set (keys (child ts r j))"
proof -
  note s = search_node(2)[OF assms]
  have mem: "snd (ts ! j) \<in> set (before ts i) \<union> set (after ts r i)" if "j < length ts" for j
  proof (cases "j < i")
    case True
    then have "ts ! j \<in> set (take i ts)" using that by (rule take_mem)
    then show ?thesis by (force simp: before_def case_prod_unfold)
  next
    case False
    then have "j = i \<or> ts ! j \<in> set (drop (Suc i) ts)"
      using that by (cases "j = i") (auto intro: drop_mem)
    then show ?thesis
    proof
      assume "j = i"
      then show ?thesis using that by (simp add: after_def)
    next
      assume "ts ! j \<in> set (drop (Suc i) ts)"
      then have "snd (ts ! j) \<in> set (flat (drop (Suc i) ts))" by (force simp: case_prod_unfold)
      moreover have "i < length ts" using that False by simp
      ultimately show ?thesis by (simp add: after_def)
    qed
  qed
  have "key (snd (ts ! j)) \<noteq> q" if "j < length ts" for j
    using mem[OF that] s by blast
  then show "\<forall>x\<in>set ts. key (snd x) \<noteq> q" by (simp add: all_set_conv_all_nth)
  assume j: "j \<le> length ts" "j \<noteq> i"
  have "set (inorder (child ts r j)) \<subseteq> set (before ts i) \<union> set (after ts r i)"
  proof (cases "j < i")
    case True
    then have "ts ! j \<in> set (take i ts)" using s by (intro take_mem) auto
    then show ?thesis using True s by (force simp: before_def child_def case_prod_unfold)
  next
    case False
    then have i: "i < j" using j by simp
    have "ts ! j \<in> set (drop (Suc i) ts)" if "j < length ts"
      using i that by (rule drop_mem)
    then show ?thesis using i j
      by (cases "j < length ts") (fastforce simp: after_def child_def case_prod_unfold)+
  qed
  then show "q \<notin> set (keys (child ts r j))" using s by (fastforce simp: keys_def)
qed

lemma slot_of_child:
  assumes n: "tree_at C (Node off ts r)" "C off = Some t" "sorted_wrt (<) (keys (Node off ts r))"
    "distinct (offs (Node off ts r))" "search_table t q = Inr i"
    and x: "slot_of C (child ts r i) q x"
  shows "slot_of C (Node off ts r) q x"
proof -
  obtain o' u j where [simp]: "x = (o', u, j)" by (cases x)
  have t: "repr t ts r" using n(1,2) by auto
  note i = search_node(2)[OF t n(3,5), THEN conjunct1]
  have o': "o' \<in> set (offs (child ts r i))" using x by (simp add: slot_of_def)
  have "tree_at (C(o' \<mapsto> set_entry j v u)) (tree_upd q f (Node off ts r))"
    if v: "v = f (i_meta (t_items u ! j), i_offset (t_items u ! j))" for f v
  proof -
    let ?C = "C(o' \<mapsto> set_entry j v u)"
    let ?U = "\<lambda>(s, k, v). (tree_upd q f s, k, if k = q then f v else v)"
    have "?C off = Some t" using child_disjoint(2)[OF n(4) i] o' n(2) by auto
    moreover have "repr t (map ?U ts) (tree_upd q f r)"
      using repr_upd[OF t] search_not_here(1)[OF t n(3,5)] by blast
    moreover have "tree_at ?C (tree_upd q f (child ts r k))" if k: "k \<le> length ts" for k
    proof (cases "k = i")
      case True
      then show ?thesis using x v by (simp add: slot_of_def)
    next
      case False
      then have "o' \<notin> set (offs (child ts r k))"
        using child_disjoint(1)[OF n(4) k i] False o' by auto
      then have "tree_at ?C (child ts r k)"
        using tree_at_cong[of "child ts r k" ?C C] tree_at_child[OF n(1) k] by auto
      then show ?thesis using tree_upd_id search_not_here(2)[OF t n(3,5) k False] by simp
    qed
    ultimately show ?thesis
      using n(1) child_upd[of _ ts q f r] unfolding tree_upd.simps tree_at_Node by auto
  qed
  moreover have "o' \<in> set (offs (Node off ts r))" using o' offs_child[OF i] by blast
  ultimately show ?thesis
    using x search_child(2)[OF t n(3,5)] unfolding slot_of_def by (simp del: offs.simps inorder.simps tree_upd.simps)
qed

lemma slot_of_here:
  assumes n: "tree_at C (Node off ts r)" "C off = Some t" "sorted_wrt (<) (keys (Node off ts r))"
    "distinct (offs (Node off ts r))" "search_table t q = Inl i"
  shows "slot_of C (Node off ts r) q (off, t, i)"
proof -
  have t: "repr t ts r" using n(1,2) by auto
  note i = search_node(1)[OF t n(3,5)]
  have it: "t_items t ! i = enc (ts ! i)" using repr_item[OF t] i by blast
  then have v: "(i_meta (t_items t ! i), i_offset (t_items t ! i)) = snd (snd (ts ! i))"
    by (simp add: enc_def split: prod.splits)
  have "tree_at (C(off \<mapsto> set_entry i (f (snd (snd (ts ! i)))) t)) (tree_upd q f (Node off ts r))" for f
  proof -
    let ?C = "C(off \<mapsto> set_entry i (f (snd (snd (ts ! i)))) t)"
    have "tree_at ?C (tree_upd q f (child ts r k))" if k: "k \<le> length ts" for k
    proof -
      have "tree_at ?C (child ts r k)"
        using tree_at_cong[of "child ts r k" ?C C] tree_at_child[OF n(1) k] child_disjoint(2)[OF n(4) k] by auto
      moreover have "q \<notin> set (keys (child ts r k))"
      proof (cases "k \<le> i")
        case True
        have "q \<in> key ` set (after ts r k)"
          using True i drop_mem[of k i ts] by (cases "k = i") (force simp: after_def case_prod_unfold)+
        then show ?thesis using n(3) keys_split[OF k, of off r] by (fastforce simp: sorted_wrt_append)
      next
        case False
        then have "ts ! i \<in> set (take k ts)" using i by (intro take_mem) auto
        then have "q \<in> key ` set (before ts k)"
          using i by (force simp: before_def case_prod_unfold)
        then show ?thesis using n(3) keys_split[OF k, of off r] by (fastforce simp: sorted_wrt_append)
      qed
      ultimately show ?thesis by (simp add: tree_upd_id)
    qed
    then show ?thesis
      using n(1) repr_set_entry[OF t n(3), of i q f] i child_upd[of _ ts q f r]
      unfolding tree_upd.simps tree_at_Node by auto
  qed
  moreover have "map_of (inorder (Node off ts r)) q = Some (snd (snd (ts ! i)))"
  proof -
    have "distinct (map fst (inorder (Node off ts r)))" using n(3) by (simp only: strict_sorted_iff keys_def)
    moreover have "(q, snd (snd (ts ! i))) \<in> set (inorder (Node off ts r))"
      using inorder_split[of i ts off r] i by (cases "snd (ts ! i)") (auto simp: after_def simp del: inorder.simps)
    ultimately show ?thesis by (rule map_of_is_SomeI)
  qed
  moreover have "i < length (t_items t)" using t i by (simp add: repr_def)
  ultimately show ?thesis
    using n(1,2) i it v unfolding slot_of_def by (simp add: enc_def split: prod.splits del: inorder.simps tree_upd.simps)
qed

lemma find_slot_ok:
  assumes "eng_ok b S" "tree_at (table_at b) tr" "sorted_wrt (<) (keys tr)" "distinct (offs tr)" "set (offs tr) \<subseteq> S"
  shows "\<exists>c x. find_slot b (root tr) q = Some (x, b\<lparr>e_cache := c\<rparr>) \<and> eng_ok (b\<lparr>e_cache := c\<rparr>) S
    \<and> (case x of None \<Rightarrow> q \<notin> set (keys tr)
       | Some s \<Rightarrow> slot_of (table_at b) tr q s \<and> uncached (b\<lparr>e_cache := c\<rparr>) (fst s))"
  using assms
proof (induction tr arbitrary: b rule: tree_child_induct)
  case Leaf
  have "find_slot b (root Leaf) q = Some (None, b\<lparr>e_cache := e_cache b\<rparr>)" by (subst find_slot.simps) simp
  moreover have "eng_ok (b\<lparr>e_cache := e_cache b\<rparr>) S" using Leaf.prems(1) by simp
  ultimately show ?case by (intro exI[of _ "e_cache b"] exI[of _ None]) (simp add: keys_def)
next
  case (Node off ts r)
  obtain t where t: "table_at b off = Some t" "repr t ts r" and off: "off \<noteq> 0" using Node.prems(2) by auto
  have here: "off \<in> S" using Node.prems(5) by simp
  obtain c where c: "get_table b off = Some (t, b\<lparr>e_cache := c\<rparr>)" "eng_ok (b\<lparr>e_cache := c\<rparr>) S" "uncached (b\<lparr>e_cache := c\<rparr>) off"
    by (rule get_table_ok[OF Node.prems(1) here t(1)])
  show ?case
  proof (cases "search_table t q")
    case (Inl i)
    then show ?thesis
      using c off slot_of_here[OF Node.prems(2) t(1) Node.prems(3,4) Inl]
      by (subst find_slot.simps) (auto simp del: inorder.simps)
  next
    case (Inr i)
    let ?b = "b\<lparr>e_cache := c\<rparr>"
    note i = search_node(2)[OF t(2) Node.prems(3) Inr, THEN conjunct1]
    obtain c' where c': "put_table ?b t off = Some (?b\<lparr>e_cache := c'\<rparr>)" "eng_ok (?b\<lparr>e_cache := c'\<rparr>) S"
      using put_table_ok[OF c(2) here, of t] t(1) by auto
    have cc: "b\<lparr>e_cache := c\<rparr>\<lparr>e_cache := c'\<rparr>\<lparr>e_cache := c''\<rparr> = b\<lparr>e_cache := c''\<rparr>" for c'' by simp
    have sub: "tree_at (table_at (?b\<lparr>e_cache := c'\<rparr>)) (child ts r i)" "sorted_wrt (<) (keys (child ts r i))"
      "distinct (offs (child ts r i))" "set (offs (child ts r i)) \<subseteq> S"
      using tree_at_child[OF Node.prems(2) i] keys_child_sorted[OF Node.prems(3) i]
        child_disjoint(3)[OF Node.prems(4) i] order_trans[OF offs_child[OF i] Node.prems(5)] by simp_all
    obtain c'' x where x: "find_slot (?b\<lparr>e_cache := c'\<rparr>) (root (child ts r i)) q = Some (x, b\<lparr>e_cache := c''\<rparr>)"
      "eng_ok (b\<lparr>e_cache := c''\<rparr>) S"
      "case x of None \<Rightarrow> q \<notin> set (keys (child ts r i))
       | Some s \<Rightarrow> slot_of (table_at b) (child ts r i) q s \<and> uncached (b\<lparr>e_cache := c''\<rparr>) (fst s)"
      using Node.IH[OF i c'(2) sub] by (auto simp only: cc table_at_cache)
    have "find_slot b (root (Node off ts r)) q = Some (x, b\<lparr>e_cache := c''\<rparr>)"
      using c(1) c'(1) x(1) Inr off by (subst find_slot.simps) (simp add: repr_child[OF t(2) i])
    moreover have "case x of None \<Rightarrow> q \<notin> set (keys (Node off ts r))
       | Some s \<Rightarrow> slot_of (table_at b) (Node off ts r) q s \<and> uncached (b\<lparr>e_cache := c''\<rparr>) (fst s)"
      using x(3) search_child(1)[OF t(2) Node.prems(3) Inr]
        slot_of_child[OF Node.prems(2) t(1) Node.prems(3,4) Inr] by (auto split: option.splits)
    ultimately show ?thesis using x(2) by blast
  qed
qed

end
