(* ===== verification/Interfaces.thy ===== *)
theory Interfaces imports
  Prelude
begin

text \<open>
  Contracts that several components share.  \<open>record_map\<close> is what a keyed collection owes its callers:
  \<open>rep s m\<close> says that the state \<open>s\<close> stands for the map \<open>m\<close>, looking a key up yields its value and keeps
  the map, storing a value at a present key changes that key only.  The engine's index
  (Engine_Spec) provides it.
\<close>

locale record_map =
  fixes rep :: "'s \<Rightarrow> ('k \<Rightarrow> 'v option) \<Rightarrow> bool"
    and lookup :: "'s \<Rightarrow> 'k \<Rightarrow> ('v option \<times> 's) option"
    and store :: "'s \<Rightarrow> 'k \<Rightarrow> 'v \<Rightarrow> 's option"
    and allowed :: "'v \<Rightarrow> 'v \<Rightarrow> bool"
  assumes lookup_law: "rep s m \<Longrightarrow> \<exists>s'. lookup s k = Some (m k, s') \<and> rep s' m"
    and store_law: "rep s m \<Longrightarrow> m k = Some v \<Longrightarrow> allowed v w \<Longrightarrow>
      \<exists>s'. store s k w = Some s' \<and> rep s' (m(k \<mapsto> w))"
begin

lemma lookup_twice:
  assumes "rep s m"
  shows "\<exists>s' s''. lookup s k = Some (m k, s') \<and> lookup s' k' = Some (m k', s'') \<and> rep s'' m"
  using lookup_law[OF assms, of k] lookup_law by blast

lemma store_lookup:
  assumes "rep s m" "m k = Some v" "allowed v w"
  shows "\<exists>s' s''. store s k w = Some s' \<and> lookup s' k' = Some (if k' = k then Some w else m k', s'')
    \<and> rep s'' (m(k \<mapsto> w))"
proof -
  obtain s' where s': "store s k w = Some s'" "rep s' (m(k \<mapsto> w))" using store_law[OF assms] by blast
  then show ?thesis using lookup_law[OF s'(2), of k'] by simp
qed

text \<open>Reading a record and writing a changed one back.\<close>

lemma modify:
  assumes "rep s m" "m k = Some v" "allowed v (f v)"
  shows "\<exists>s' s''. lookup s k = Some (Some v, s') \<and> store s' k (f v) = Some s'' \<and> rep s'' (m(k \<mapsto> f v))"
proof -
  obtain s' where s': "lookup s k = Some (m k, s')" "rep s' m" using lookup_law[OF assms(1)] by blast
  then show ?thesis using store_law[OF s'(2) assms(2,3)] assms(2) by auto
qed

end

text \<open>
  \<open>fresh_map\<close> is the contract of a store whose insertion does not look for the key: it is promised only for
  keys that are absent, and while there is room.  The hash table (Hashtable) and
  the aliases (Alias) provide it.
\<close>

locale fresh_map =
  fixes rep :: "'s \<Rightarrow> ('k \<Rightarrow> 'v option) \<Rightarrow> bool"
    and lookup :: "'s \<Rightarrow> 'k \<Rightarrow> 'v option option"
    and insert :: "'s \<Rightarrow> 'k \<Rightarrow> 'v \<Rightarrow> 's option"
    and remove :: "'s \<Rightarrow> 'k \<Rightarrow> 's option"
    and room :: "'s \<Rightarrow> bool"
    and allowed :: "'v \<Rightarrow> bool"
  assumes lookup_law: "rep s m \<Longrightarrow> lookup s k = Some (m k)"
    and insert_law: "rep s m \<Longrightarrow> room s \<Longrightarrow> m k = None \<Longrightarrow> allowed v \<Longrightarrow> \<exists>s'. insert s k v = Some s' \<and> rep s' (m(k \<mapsto> v))"
    and remove_law: "rep s m \<Longrightarrow> \<exists>s'. remove s k = Some s' \<and> rep s' (m(k := None))"
begin

lemma insert_remove:
  assumes "rep s m" "room s" "m k = None" "allowed v"
  shows "\<exists>s' s''. insert s k v = Some s' \<and> (\<forall>j. lookup s' j = Some ((m(k \<mapsto> v)) j))
    \<and> remove s' k = Some s'' \<and> (\<forall>j. lookup s'' j = Some (m j))"
proof -
  obtain s' where s': "insert s k v = Some s'" "rep s' (m(k \<mapsto> v))" using insert_law[OF assms] by blast
  obtain s'' where s'': "remove s' k = Some s''" "rep s'' (m(k \<mapsto> v, k := None))" using remove_law[OF s'(2)] by blast
  have "m(k \<mapsto> v, k := None) = m" using assms(3) by (simp add: fun_upd_idem)
  then show ?thesis using s' s'' lookup_law by metis
qed

text \<open>To change the value of a key the client removes it first.\<close>

lemma replace:
  assumes "rep s m" "\<And>s'. remove s k = Some s' \<Longrightarrow> room s'" "allowed v"
  shows "\<exists>s' s''. remove s k = Some s' \<and> insert s' k v = Some s'' \<and> (\<forall>j. lookup s'' j = Some ((m(k \<mapsto> v)) j))"
proof -
  obtain s' where s': "remove s k = Some s'" "rep s' (m(k := None))" using remove_law[OF assms(1)] by blast
  then obtain s'' where "insert s' k v = Some s''" "rep s'' (m(k := None, k \<mapsto> v))"
    using insert_law[OF s'(2) assms(2), of k v] assms(3) by auto
  moreover have "m(k := None, k \<mapsto> v) = m(k \<mapsto> v)" by simp
  ultimately show ?thesis using s' lookup_law by metis
qed

end

end
