(* ===== verification/Engine_Spec.thy ===== *)
theory Engine_Spec imports
  Engine_Tree Interfaces
begin

text \<open>
  What the engine's operations do on the map from keys to metadata and data offsets that its search
  tree stands for: lookup, change of metadata and deletion.  A lookup is right for every tree; a change is
  right when the tables lie \<open>apart\<close>, as those of one page always do.
\<close>

section \<open>The index as a map\<close>

text \<open>
  A base whose tables form the search tree \<open>tr\<close> and whose superblock has a place of its own, and
  the map the tree stands for.
\<close>

definition index_ok :: "base \<Rightarrow> tree \<Rightarrow> bool" where
  "index_ok b tr \<longleftrightarrow> eng_ok b (set (offs tr)) \<and> tree_at (table_at b) tr \<and> root tr = e_top b
     \<and> sorted_wrt (<) (keys tr) \<and> distinct (offs tr)
     \<and> valid b (off_zero b) \<and> table_at b (off_zero b) = None"

definition rep :: "base \<Rightarrow> (quid \<Rightarrow> (metadata \<times> u64) option) \<Rightarrow> bool" where
  "rep b m \<longleftrightarrow> (\<exists>tr. index_ok b tr \<and> map_of (inorder tr) = m)"

definition rep_apart :: "base \<Rightarrow> (quid \<Rightarrow> (metadata \<times> u64) option) \<Rightarrow> bool" where
  "rep_apart b m \<longleftrightarrow> (\<exists>tr. index_ok b tr \<and> apart b (set (offs tr)) \<and> map_of (inorder tr) = m)"

lemma rep_apart: "rep_apart b m \<Longrightarrow> rep b m"
  by (auto simp: rep_apart_def rep_def)

lemma page_size_simps [simp]: "page_size (b\<lparr>err := e\<rparr>) = page_size b" "page_size (b\<lparr>e_cache := c\<rparr>) = page_size b"
  "page_size (b\<lparr>disk := D\<rparr>) = page_size b"
  by (simp_all add: page_size_def)

lemma apart_simps [simp]: "apart (b\<lparr>err := e\<rparr>) = apart b" "apart (b\<lparr>e_cache := c\<rparr>) = apart b" "apart (b\<lparr>disk := D\<rparr>) = apart b"
  by (simp_all add: apart_def fun_eq_iff)

lemma tree_at_offs: "tree_at C tr \<Longrightarrow> \<forall>x\<in>set (offs tr). x \<noteq> 0 \<and> (\<exists>t. C x = Some t)"
proof (induction tr rule: tree_child_induct)
  case (Node o' ts r)
  then show ?case unfolding all_offs tree_at_Node by blast
qed simp

text \<open>In a base of one page the tables lie apart.\<close>

lemma one_page_apart: "index_ok b tr \<Longrightarrow> core_count b = 1 \<Longrightarrow> apart b (set (offs tr))"
proof -
  assume i: "index_ok b tr" and one: "core_count b = 1"
  have "x mod page_size b = x \<and> x \<noteq> 0" if x: "x \<in> set (offs tr)" for x
  proof -
    obtain t where "table_at b x = Some t" using i x tree_at_offs[of "table_at b" tr] by (auto simp: index_ok_def)
    then have "valid b x" using i table_at_valid by (auto simp: index_ok_def)
    moreover have "0 < psz b" using i psz_bounds(3)[of b] by (simp add: index_ok_def eng_ok_def store_ok_def pager_wf_def)
    ultimately have "unat x < psz b" using one div_less_iff_less_mult[of "psz b" "unat x" 1] by (simp add: valid_def)
    then have "x mod page_size b = x" by (simp only: word_unat_eq_iff unat_div_mod) simp
    then show ?thesis using i x by (auto simp: index_ok_def eng_ok_def)
  qed
  then show ?thesis by (simp add: apart_def)
qed

lemma err_eng_ok [simp]: "eng_ok (b\<lparr>err := e\<rparr>) S = eng_ok b S"
  by (simp add: eng_ok_def cache_ok_def table_at_def)

lemma table_at_err [simp]: "table_at (b\<lparr>err := e\<rparr>) = table_at b"
  by (simp add: table_at_def fun_eq_iff)

lemma err_index_ok [simp]: "index_ok (b\<lparr>err := e\<rparr>) tr = index_ok b tr"
  by (simp add: index_ok_def)

lemma err_rep [simp]: "rep (b\<lparr>err := e\<rparr>) m = rep b m" "rep_apart (b\<lparr>err := e\<rparr>) m = rep_apart b m"
  by (simp_all add: rep_def rep_apart_def)

lemma map_of_None_keys: "map_of (inorder tr) q = None \<longleftrightarrow> q \<notin> set (keys tr)"
  by (simp add: keys_def map_of_eq_None_iff)

lemma slot_ofD: "slot_of C tr q (off, t, i) \<Longrightarrow>
    map_of (inorder tr) q = Some (i_meta (t_items t ! i), i_offset (t_items t ! i))"
  by (simp add: slot_of_def)

text \<open>The descent, with the slot's content named by the tree.\<close>

lemma index_slot:
  assumes "index_ok b tr"
  obtains (absent) c where "find_slot b (e_top b) q = Some (None, b\<lparr>e_cache := c\<rparr>)"
      "index_ok (b\<lparr>e_cache := c\<rparr>) tr" "map_of (inorder tr) q = None"
  | (present) c off t i where "find_slot b (e_top b) q = Some (Some (off, t, i), b\<lparr>e_cache := c\<rparr>)"
      "index_ok (b\<lparr>e_cache := c\<rparr>) tr" "slot_of (table_at b) tr q (off, t, i)" "uncached (b\<lparr>e_cache := c\<rparr>) off"
      "map_of (inorder tr) q = Some (i_meta (t_items t ! i), i_offset (t_items t ! i))"
proof -
  have i: "eng_ok b (set (offs tr))" "tree_at (table_at b) tr" "root tr = e_top b" "sorted_wrt (<) (keys tr)" "distinct (offs tr)"
    using assms by (auto simp: index_ok_def)
  obtain c x where x: "find_slot b (e_top b) q = Some (x, b\<lparr>e_cache := c\<rparr>)" "eng_ok (b\<lparr>e_cache := c\<rparr>) (set (offs tr))"
    "case x of None \<Rightarrow> q \<notin> set (keys tr) | Some s \<Rightarrow> slot_of (table_at b) tr q s \<and> uncached (b\<lparr>e_cache := c\<rparr>) (fst s)"
    using find_slot_ok[OF i(1,2,4,5) order_refl, of q, unfolded i(3)] by blast
  have ok: "index_ok (b\<lparr>e_cache := c\<rparr>) tr" using assms x(2) by (simp add: index_ok_def)
  show ?thesis
  proof (cases x)
    case None
    have "map_of (inorder tr) q = None" using x(3) unfolding None option.case map_of_None_keys .
    then show ?thesis using x(1) ok unfolding None by (intro absent)
  next
    case (Some s)
    obtain off t i where s: "s = (off, t, i)" by (cases s)
    have "slot_of (table_at b) tr q (off, t, i)" "uncached (b\<lparr>e_cache := c\<rparr>) off"
      using x(3) unfolding Some s option.case fst_conv by simp_all
    then show ?thesis using x(1) ok unfolding Some s by (intro present slot_ofD)
  qed
qed

lemma slot_put:
  assumes "index_ok (b\<lparr>e_cache := c\<rparr>) tr" "slot_of (table_at b) tr q (off, t, i)"
  obtains c' where "put_table (b\<lparr>e_cache := c\<rparr>) t off = Some (b\<lparr>e_cache := c'\<rparr>)"
    "index_ok (b\<lparr>e_cache := c'\<rparr>) tr"
proof -
  let ?b = "b\<lparr>e_cache := c\<rparr>"
  have e: "eng_ok ?b (set (offs tr))" and off: "off \<in> set (offs tr)" "table_at ?b off = Some t"
    using assms by (auto simp: index_ok_def slot_of_def)
  obtain c' where "put_table ?b t off = Some (?b\<lparr>e_cache := c'\<rparr>)" "eng_ok (?b\<lparr>e_cache := c'\<rparr>) (set (offs tr))"
    by (rule put_table_ok[OF e off])
  then show ?thesis using that assms by (simp add: index_ok_def)
qed

lemma put_table_err: "put_table (b\<lparr>err := e\<rparr>) t off = map_option (\<lambda>b. b\<lparr>err := e\<rparr>) (put_table b t off)"
  by (simp add: put_table_def)

lemma slot_flush:
  assumes ok: "index_ok (b\<lparr>e_cache := c\<rparr>) tr" and a: "apart b (set (offs tr))" and s: "slot_of (table_at b) tr q (off, t, i)"
    and u: "uncached (b\<lparr>e_cache := c\<rparr>) off"
  obtains c' D where "flush_table (b\<lparr>e_cache := c\<rparr>) (set_entry i (f (i_meta (t_items t ! i), i_offset (t_items t ! i))) t) off
        = Some (b\<lparr>disk := D, e_cache := c'\<rparr>)"
    "index_ok (b\<lparr>disk := D, e_cache := c'\<rparr>) (tree_upd q f tr)"
proof -
  let ?b = "b\<lparr>e_cache := c\<rparr>" and ?t = "set_entry i (f (i_meta (t_items t ! i), i_offset (t_items t ! i))) t" and ?S = "set (offs tr)"
  have e: "eng_ok ?b ?S" and off: "off \<in> ?S" "table_at ?b off = Some t"
    using assms by (auto simp: index_ok_def slot_of_def)
  have v: "valid ?b off" by (rule table_at_valid[OF e off(2)])
  have a': "apart ?b ?S" using a by simp
  obtain c' D where D: "flush_table ?b ?t off = Some (?b\<lparr>disk := D, e_cache := c'\<rparr>)"
    "eng_ok (?b\<lparr>disk := D, e_cache := c'\<rparr>) ?S"
    "\<And>x. valid ?b x \<Longrightarrow> cell_at (?b\<lparr>disk := D, e_cache := c'\<rparr>) x = (if x = off then Some (CTable ?t) else cell_at ?b x)"
    using flush_table_ok[OF e a' off(1) v u, of ?t] by blast
  let ?b' = "b\<lparr>disk := D, e_cache := c'\<rparr>"
  have b': "?b\<lparr>disk := D, e_cache := c'\<rparr> = ?b'" by simp
  have tables: "table_at ?b' x = (if x = off then Some ?t else table_at b x)" if "valid b x" for x
    using D(3)[of x] that by (simp add: table_at_def)
  have "table_at ?b' x = ((table_at b)(off \<mapsto> ?t)) x" if "x \<in> ?S" for x
  proof -
    have "\<exists>t. table_at ?b x = Some t" using tree_at_offs[of "table_at ?b" tr] ok that by (auto simp: index_ok_def)
    then have "valid b x" using table_at_valid[OF e, of x] by auto
    then show ?thesis using tables by simp
  qed
  then have "tree_at (table_at ?b') (tree_upd q f tr) = tree_at ((table_at b)(off \<mapsto> ?t)) (tree_upd q f tr)"
    by (intro tree_at_cong) simp
  moreover have "tree_at ((table_at b)(off \<mapsto> ?t)) (tree_upd q f tr)"
    using s by (simp add: slot_of_def del: fun_upd_apply)
  moreover have z: "valid b (off_zero b)" "off_zero b \<noteq> off" "table_at b (off_zero b) = None"
    using ok off(2) by (auto simp: index_ok_def)
  moreover have "valid ?b' = valid b" using b' by (intro ext) (simp add: valid_def)
  ultimately have "index_ok ?b' (tree_upd q f tr)"
    using ok D(2) tables by (simp add: index_ok_def)
  then show ?thesis using that D(1) b' by metis
qed

section \<open>The operations on the map\<close>

text \<open>\<open>lookup_key\<close> finds the entry of the key; a deleted record counts as absent unless forced.\<close>

lemma lookup_key_ok:
  assumes "index_ok b tr"
  shows "\<exists>c. index_ok (b\<lparr>e_cache := c\<rparr>) tr \<and> lookup_key b (e_top b) q force
    = (case map_of (inorder tr) q of
         None \<Rightarrow> Some ((0, None), not_found (b\<lparr>e_cache := c\<rparr>))
       | Some (m, d) \<Rightarrow> if \<not> force \<and> m_lifecycle m \<noteq> MD_LIFECYCLE_FINITE
           then Some ((0, None), not_found (b\<lparr>e_cache := c\<rparr>))
           else Some ((d, Some m), b\<lparr>e_cache := c\<rparr>))"
  using assms
proof (cases rule: index_slot[where q=q])
  case (absent c)
  then show ?thesis by (intro exI[of _ c]) (simp add: lookup_key_def)
next
  case (present c off t i)
  obtain c' where c': "put_table (b\<lparr>e_cache := c\<rparr>) t off = Some (b\<lparr>e_cache := c'\<rparr>)"
    "index_ok (b\<lparr>e_cache := c'\<rparr>) tr"
    using slot_put[OF present(2,3)] .
  show ?thesis
    using present(1,5) c' by (intro exI[of _ c']) (simp add: lookup_key_def Let_def error_throw_def put_table_err)
qed

text \<open>\<open>set_meta\<close> replaces the metadata of one record, unless that record is locked.\<close>

lemma set_meta_ok:
  assumes "index_ok b tr" "apart b (set (offs tr))"
  shows "case map_of (inorder tr) q of
      None \<Rightarrow> \<exists>c. set_meta b (e_top b) q md = Some (- 1, not_found (b\<lparr>e_cache := c\<rparr>)) \<and> index_ok (b\<lparr>e_cache := c\<rparr>) tr
    | Some (m, d) \<Rightarrow> if m_syslock m
        then \<exists>c. set_meta b (e_top b) q md = Some (- 1, record_locked (b\<lparr>e_cache := c\<rparr>)) \<and> index_ok (b\<lparr>e_cache := c\<rparr>) tr
        else \<exists>c D. set_meta b (e_top b) q md = Some (0, b\<lparr>disk := D, e_cache := c\<rparr>)
          \<and> index_ok (b\<lparr>disk := D, e_cache := c\<rparr>) (tree_upd q (\<lambda>(m, d). (md, d)) tr)"
  using assms(1)
proof (cases rule: index_slot[where q=q])
  case (absent c)
  then show ?thesis by (auto simp: set_meta_def)
next
  case (present c off t i)
  show ?thesis
  proof (cases "m_syslock (i_meta (t_items t ! i))")
    case True
    obtain c' where c': "put_table (b\<lparr>e_cache := c\<rparr>) t off = Some (b\<lparr>e_cache := c'\<rparr>)"
      "index_ok (b\<lparr>e_cache := c'\<rparr>) tr"
      using slot_put[OF present(2,3)] .
    show ?thesis unfolding present(5)
      using True present(1) c' by (auto simp: set_meta_def error_throw_def put_table_err)
  next
    case False
    obtain c' D where D: "flush_table (b\<lparr>e_cache := c\<rparr>) (set_entry i
          ((\<lambda>(m, d). (md, d)) (i_meta (t_items t ! i), i_offset (t_items t ! i))) t) off
        = Some (b\<lparr>disk := D, e_cache := c'\<rparr>)"
      "index_ok (b\<lparr>disk := D, e_cache := c'\<rparr>) (tree_upd q (\<lambda>(m, d). (md, d)) tr)"
      using slot_flush[OF present(2) assms(2) present(3,4), of "\<lambda>(m, d). (md, d)"] by blast
    have "t\<lparr>t_items := (t_items t)[i := (t_items t ! i)\<lparr>i_meta := md\<rparr>]\<rparr>
      = set_entry i ((\<lambda>(m, d). (md, d)) (i_meta (t_items t ! i), i_offset (t_items t ! i))) t"
      by (simp add: set_entry_def)
    then have "set_meta b (e_top b) q md = Some (0, b\<lparr>disk := D, e_cache := c'\<rparr>)"
      using False present(1) D(1) by (simp add: set_meta_def)
    then show ?thesis unfolding present(5) using False D(2) by auto
  qed
qed

text \<open>Unlocked, and no error pending.\<close>

definition ready :: "base \<Rightarrow> bool" where
  "ready b \<longleftrightarrow> \<not> e_lock b \<and> \<not> iserror b"

lemma ready_simps [simp]: "ready (b\<lparr>e_cache := c\<rparr>) = ready b" "ready (b\<lparr>disk := D\<rparr>) = ready b"
  by (simp_all add: ready_def iserror_def)

definition ready_rep :: "base \<Rightarrow> (quid \<Rightarrow> (metadata \<times> u64) option) \<Rightarrow> bool" where
  "ready_rep b m \<longleftrightarrow> ready b \<and> rep_apart b m"

text \<open>The contract's operations: a forced lookup whose error is cleared, and \<open>set_meta\<close>.\<close>

definition index_lookup :: "base \<Rightarrow> quid \<Rightarrow> ((metadata \<times> u64) option \<times> base) option" where
  "index_lookup b q = do {
     ((d, m), b) \<leftarrow> lookup_key b (e_top b) q True;
     Some (map_option (\<lambda>m. (m, d)) m, error_clear b) }"

definition index_store :: "base \<Rightarrow> quid \<Rightarrow> metadata \<times> u64 \<Rightarrow> base option" where
  "index_store b q v = map_option snd (set_meta b (e_top b) q (fst v))"

lemma rep_upd: "index_ok b (tree_upd q f tr) \<Longrightarrow> apart b (set (offs tr))
    \<Longrightarrow> rep_apart b (\<lambda>k. if k = q then map_option f (map_of (inorder tr) q) else map_of (inorder tr) k)"
  unfolding rep_apart_def by (intro exI[of _ "tree_upd q f tr"]) (simp add: map_of_upd fun_eq_iff)

lemma set_meta_present:
  assumes "rep_apart b m" "m q = Some (old, d)" "\<not> m_syslock old"
  shows "\<exists>c D. set_meta b (e_top b) q md = Some (0, b\<lparr>disk := D, e_cache := c\<rparr>)
    \<and> rep_apart (b\<lparr>disk := D, e_cache := c\<rparr>) (m(q \<mapsto> (md, d)))"
proof -
  obtain tr where tr: "index_ok b tr" "apart b (set (offs tr))" "map_of (inorder tr) = m" using assms(1) by (auto simp: rep_apart_def)
  obtain c D where D: "set_meta b (e_top b) q md = Some (0, b\<lparr>disk := D, e_cache := c\<rparr>)"
    "index_ok (b\<lparr>disk := D, e_cache := c\<rparr>) (tree_upd q (\<lambda>(m, d). (md, d)) tr)"
    using set_meta_ok[OF tr(1,2), of q md] assms(2,3) tr(3) by auto
  have "(\<lambda>k. if k = q then map_option (\<lambda>(m, d). (md, d)) (map_of (inorder tr) q) else map_of (inorder tr) k)
    = m(q \<mapsto> (md, d))"
    using tr(3) assms(2) by auto
  then show ?thesis using D rep_upd[OF D(2)] tr(2) by auto
qed

lemma lookup_any:
  assumes "rep b m"
  shows "\<exists>c. lookup_key b (e_top b) q force = (case m q of
         None \<Rightarrow> Some ((0, None), not_found (b\<lparr>e_cache := c\<rparr>))
       | Some (md, d) \<Rightarrow> if \<not> force \<and> m_lifecycle md \<noteq> MD_LIFECYCLE_FINITE
           then Some ((0, None), not_found (b\<lparr>e_cache := c\<rparr>))
           else Some ((d, Some md), b\<lparr>e_cache := c\<rparr>))
     \<and> rep (b\<lparr>e_cache := c\<rparr>) m \<and> (rep_apart b m \<longrightarrow> rep_apart (b\<lparr>e_cache := c\<rparr>) m)"
proof -
  have "\<exists>tr. index_ok b tr \<and> map_of (inorder tr) = m \<and> (rep_apart b m \<longrightarrow> apart b (set (offs tr)))"
    using assms by (cases "rep_apart b m") (auto simp: rep_def rep_apart_def)
  then obtain tr where tr: "index_ok b tr" "map_of (inorder tr) = m" "rep_apart b m \<longrightarrow> apart b (set (offs tr))" by blast
  then show ?thesis using lookup_key_ok[OF tr(1), of q force] unfolding rep_def rep_apart_def by fastforce
qed

interpretation index: record_map ready_rep index_lookup index_store
  "\<lambda>v (w :: metadata \<times> u64). \<not> m_syslock (fst v) \<and> snd w = snd v"
proof unfold_locales
  fix b m q assume b: "ready_rep b m"
  then have "rep b m" by (simp add: ready_rep_def rep_apart)
  then show "\<exists>b'. index_lookup b q = Some (m q, b') \<and> ready_rep b' m"
    using lookup_any[of b m q True] b
    by (cases "m q") (auto simp: index_lookup_def ready_rep_def ready_def error_clear_def error_throw_def iserror_def)
next
  fix b m q v and w :: "metadata \<times> u64" assume b: "ready_rep b m" "m q = Some v" "\<not> m_syslock (fst v) \<and> snd w = snd v"
  then obtain c D where "set_meta b (e_top b) q (fst w) = Some (0, b\<lparr>disk := D, e_cache := c\<rparr>)"
    "rep_apart (b\<lparr>disk := D, e_cache := c\<rparr>) (m(q \<mapsto> (fst w, snd v)))"
    using set_meta_present[of b m q "fst v" "snd v" "fst w"] by (auto simp: ready_rep_def)
  moreover have "(fst w, snd v) = w" using b(3) by (cases w) simp
  ultimately show "\<exists>b'. index_store b q w = Some b' \<and> ready_rep b' (m(q \<mapsto> w))"
    using b by (auto simp: index_store_def ready_rep_def)
qed

section \<open>Lookup, metadata and deletion\<close>

text \<open>A lookup, forced or not, with what it leaves behind.\<close>

lemma engine_get_with_ok:
  assumes "ready b" "rep b m"
  shows "\<exists>b'. rep b' m \<and> engine_get_with force b q = Some (case m q of
       Some (md, d) \<Rightarrow> if force \<or> m_lifecycle md = MD_LIFECYCLE_FINITE
         then ((if m_nodata md then 0 else d, md), b') else ((0, zero_meta), not_found b')
     | None \<Rightarrow> ((0, zero_meta), not_found b')) \<and> err b' = None"
proof -
  obtain c where c: "lookup_key b (e_top b) q force = (case m q of
         None \<Rightarrow> Some ((0, None), not_found (b\<lparr>e_cache := c\<rparr>))
       | Some (md, d) \<Rightarrow> if \<not> force \<and> m_lifecycle md \<noteq> MD_LIFECYCLE_FINITE
           then Some ((0, None), not_found (b\<lparr>e_cache := c\<rparr>))
           else Some ((d, Some md), b\<lparr>e_cache := c\<rparr>))" "rep (b\<lparr>e_cache := c\<rparr>) m"
    using lookup_any[OF assms(2), of q force] by blast
  have "err b = None" "\<not> e_lock b" using assms(1) unfolding ready_def iserror_def by blast+
  then show ?thesis
    using c by (intro exI[of _ "b\<lparr>e_cache := c\<rparr>"])
      (auto simp: engine_get_with_def iserror_def error_throw_def split: option.splits)
qed

text \<open>
  C6: Looking a key up (\<open>engine_get\<close> of src/engine.c) while the engine is not locked and no error is pending yields the data offset and the
  metadata stored for it, and no offset for a record without data, and sets no error; for an absent record, and for one whose lifecycle is
  not that of a live one, a deleted one for instance, it yields nothing and the error 6ef42da7901f, "Record not found".
  The search leaves the index as it was, whatever path it took through tables and cache, over any number of pages, as long as the cache
  is right about the tables of the tree.
\<close>

theorem engine_get_correct:
  assumes "ready b" "rep b m"
  shows "\<exists>b'. rep b' m \<and> engine_get b q = Some (
      (case m q of
         Some (md, d) \<Rightarrow> if m_lifecycle md = MD_LIFECYCLE_FINITE
           then (if m_nodata md then 0 else d, md) else (0, zero_meta)
       | None \<Rightarrow> (0, zero_meta)), b')
    \<and> err b' = (if \<exists>md d. m q = Some (md, d) \<and> m_lifecycle md = MD_LIFECYCLE_FINITE then None
        else Some (''6ef42da7901f'', ''Record not found''))"
proof -
  obtain b' where b': "rep b' m" "err b' = None" "engine_get_with False b q = Some (case m q of
       Some (md, d) \<Rightarrow> if False \<or> m_lifecycle md = MD_LIFECYCLE_FINITE
         then ((if m_nodata md then 0 else d, md), b') else ((0, zero_meta), not_found b')
     | None \<Rightarrow> ((0, zero_meta), not_found b'))"
    using engine_get_with_ok[OF assms, of False q] by blast
  show ?thesis
  proof (cases "\<exists>md d. m q = Some (md, d) \<and> m_lifecycle md = MD_LIFECYCLE_FINITE")
    case True
    then show ?thesis using b' by (intro exI[of _ b']) (auto simp: engine_get_def)
  next
    case False
    then show ?thesis using b'
      by (intro exI[of _ "not_found b'"]) (auto simp: engine_get_def error_throw_def split: option.splits)
  qed
qed

text \<open>
  C7: Setting the metadata of a record without system lock (\<open>engine_setmeta\<close> of src/engine.c), while the engine is not locked and no error is
  pending, changes that record's metadata and nothing else in the index: its data offset and every other record stay.  The base may have
  many pages as long as its tables lie \<open>apart\<close>: no table at the beginning of a page, and none at the position within its page that
  another table has in the first page.
\<close>

theorem engine_setmeta_correct:
  assumes "ready_rep b m" "m q = Some (old, d)" "\<not> m_syslock old"
  shows "\<exists>b'. engine_setmeta b q md = Some (0, b') \<and> ready_rep b' (m(q \<mapsto> (md, d)))"
proof -
  obtain c D where "set_meta b (e_top b) q md = Some (0, b\<lparr>disk := D, e_cache := c\<rparr>)"
    "rep_apart (b\<lparr>disk := D, e_cache := c\<rparr>) (m(q \<mapsto> (md, d)))"
    using set_meta_present[of b m q old d md] assms by (auto simp: ready_rep_def)
  then show ?thesis using assms(1)
    by (auto simp: engine_setmeta_def ready_rep_def ready_def iserror_def)
qed

lemma super_flush:
  assumes "rep_apart b m"
  shows "\<exists>D. flush_super b = Some (b\<lparr>disk := D\<rparr>) \<and> rep_apart (b\<lparr>disk := D\<rparr>) m"
proof -
  obtain tr where tr: "index_ok b tr" "apart b (set (offs tr))" "map_of (inorder tr) = m" using assms(1) by (auto simp: rep_apart_def)
  let ?S = "set (offs tr)"
  have e: "eng_ok b ?S" and ok: "store_ok b" and v: "valid b (off_zero b)" using tr(1) by (auto simp: index_ok_def eng_ok_def)
  obtain D where D: "store_cell (off_zero b) (CSuper (ucast VERSION_MAJOR) (e_top b) (e_free_top b)) b = Some (b\<lparr>disk := D\<rparr>)"
    "store_ok (b\<lparr>disk := D\<rparr>)"
    "\<And>x. valid b x \<Longrightarrow> cell_at (b\<lparr>disk := D\<rparr>) x = (if x = off_zero b then
        Some (CSuper (ucast VERSION_MAJOR) (e_top b) (e_free_top b)) else cell_at b x)"
    using store_cell_ok[OF ok v] by blast
  have same: "table_at (b\<lparr>disk := D\<rparr>) x = Some t" if "table_at b x = Some t" for x t
  proof -
    have "x \<noteq> off_zero b" "valid b x" using tr(1) that table_at_valid[OF e that] by (auto simp: index_ok_def)
    then show ?thesis using D(3) that by (simp add: table_at_def)
  qed
  have "eng_ok (b\<lparr>disk := D\<rparr>) ?S"
    using e D(2) same by (fastforce simp: eng_ok_def cache_ok_def)
  moreover have "tree_at (table_at (b\<lparr>disk := D\<rparr>)) tr"
  proof -
    have "tree_at (table_at b) tr" using tr(1) by (simp add: index_ok_def)
    moreover have "\<forall>x\<in>?S. table_at (b\<lparr>disk := D\<rparr>) x = table_at b x"
      using tree_at_offs[OF \<open>tree_at (table_at b) tr\<close>] same by fastforce
    ultimately show ?thesis by (simp only: tree_at_cong)
  qed
  moreover have "table_at (b\<lparr>disk := D\<rparr>) (off_zero b) = None"
    using D(3)[OF v] by (simp add: table_at_def)
  moreover have "valid (b\<lparr>disk := D\<rparr>) (off_zero b)" using v by (simp add: valid_def)
  ultimately have "index_ok (b\<lparr>disk := D\<rparr>) tr" using tr(1) by (simp add: index_ok_def)
  then show ?thesis using D(1) tr(2,3) by (auto simp: flush_super_def store_cell_def rep_apart_def)
qed

text \<open>
  C8: Deleting a live record without system lock (\<open>engine_delete\<close> of src/engine.c) marks it as recycled and keeps its data offset and every
  other record.  It can still be read by force, but a normal lookup answers "Record not found".  As for \<open>engine_setmeta\<close> the engine is
  not locked, no error is pending, and the tables lie \<open>apart\<close>.
\<close>

theorem engine_delete_correct:
  assumes "ready_rep b m" "m q = Some (md, d)" "m_lifecycle md = MD_LIFECYCLE_FINITE" "\<not> m_syslock md"
  shows "\<exists>b'. engine_delete b q = Some (0, b') \<and> ready_rep b' (m(q \<mapsto> (md\<lparr>m_lifecycle := MD_LIFECYCLE_RECYCLE\<rparr>, d)))
    \<and> (\<exists>b''. engine_get b' q = Some ((0, zero_meta), b'') \<and> err b'' = Some (''6ef42da7901f'', ''Record not found''))
    \<and> (\<exists>b''. engine_get_force b' q
         = Some ((if m_nodata md then 0 else d, md\<lparr>m_lifecycle := MD_LIFECYCLE_RECYCLE\<rparr>), b'') \<and> err b'' = None)"
proof -
  let ?md = "md\<lparr>m_lifecycle := MD_LIFECYCLE_RECYCLE\<rparr>"
  let ?m = "m(q \<mapsto> (?md, d))"
  have ra: "rep_apart b m" using assms(1) by (simp add: ready_rep_def)
  obtain c where c: "lookup_key b (e_top b) q False = Some ((d, Some md), b\<lparr>e_cache := c\<rparr>)" "rep_apart (b\<lparr>e_cache := c\<rparr>) m"
    using lookup_any[OF rep_apart[OF ra], of q False] ra assms(2,3) by auto
  let ?b = "b\<lparr>e_cache := c\<rparr>"
  obtain c' D where D: "set_meta ?b (e_top ?b) q ?md = Some (0, ?b\<lparr>disk := D, e_cache := c'\<rparr>)"
    "rep_apart (?b\<lparr>disk := D, e_cache := c'\<rparr>) ?m"
    using set_meta_present[OF c(2) assms(2,4)] by blast
  obtain D' where D': "flush_super (?b\<lparr>disk := D, e_cache := c'\<rparr>) = Some (?b\<lparr>disk := D, e_cache := c'\<rparr>\<lparr>disk := D'\<rparr>)"
    "rep_apart (?b\<lparr>disk := D, e_cache := c'\<rparr>\<lparr>disk := D'\<rparr>) ?m"
    using super_flush[OF D(2)] by blast
  let ?b' = "?b\<lparr>disk := D, e_cache := c'\<rparr>\<lparr>disk := D'\<rparr>"
  have r: "ready b" "ready ?b'" "rep ?b' ?m" using assms(1) rep_apart[OF D'(2)] by (simp_all add: ready_rep_def)
  have "engine_delete b q = Some (0, ?b')"
    using r(1) c(1) D(1) D'(1) by (simp add: engine_delete_def ready_def iserror_def)
  moreover have "\<exists>b''. engine_get ?b' q = Some ((0, zero_meta), b'') \<and> err b'' = Some (''6ef42da7901f'', ''Record not found'')"
    using engine_get_with_ok[OF r(2,3), of False q] by (auto simp: engine_get_def error_throw_def)
  moreover have "\<exists>b''. engine_get_force ?b' q = Some ((if m_nodata md then 0 else d, ?md), b'') \<and> err b'' = None"
    using engine_get_with_ok[OF r(2,3), of True q] by (auto simp: engine_get_force_def)
  ultimately show ?thesis using r(2) D'(2) by (auto simp: ready_rep_def)
qed

section \<open>An index of two tables\<close>

definition demo_quid :: "u64 \<Rightarrow> quid" where
  "demo_quid k = Quid k 0 0 0 0 0 0 0 0 0 0"

definition demo_tree :: tree where
  "demo_tree = Node 30 [(Node 6000 [(Leaf, demo_quid 1, zero_meta, 20000)] Leaf, demo_quid 2, zero_meta, 21000)] Leaf"

definition demo_item :: "u64 \<Rightarrow> u64 \<Rightarrow> u64 \<Rightarrow> item" where
  "demo_item k d c = \<lparr>i_quid = demo_quid k, i_meta = zero_meta, i_offset = d, i_child = c\<rparr>"

definition demo_index :: base where
  "demo_index = (demo 30000 ((\<lambda>_. None)
     (17 := Some (CSuper 0 30 0),
      30 := Some (CTable (zero_table\<lparr>t_items := (t_items zero_table)[0 := demo_item 2 21000 6000], t_size := 1\<rparr>)),
      6000 := Some (CTable (zero_table\<lparr>t_items := (t_items zero_table)[0 := demo_item 1 20000 0], t_size := 1\<rparr>)))))
     \<lparr>e_top := 30, off_zero := 17\<rparr>"

lemma demo_quid_less: "demo_quid 1 < demo_quid 2"
  by (simp add: less_quid_def quidcmp_def quid_bytes_def demo_quid_def le_bytes_def upt_rec)

lemma same_store_top [simp]: "same_store (b\<lparr>e_top := x\<rparr>) b" "same_store (b\<lparr>off_zero := x\<rparr>) b"
  by (simp_all add: same_store_def)

lemmas top_store [simp] = same_storeD[OF same_store_top(1)]
lemmas off_zero_store [simp] = same_storeD[OF same_store_top(2)]

lemma take_one_update: "xs \<noteq> [] \<Longrightarrow> take (Suc 0) (xs[0 := x]) = [x]"
  by (cases xs) simp_all

lemma demo_index_rep: "ready_rep demo_index [demo_quid 1 \<mapsto> (zero_meta, 20000), demo_quid 2 \<mapsto> (zero_meta, 21000)]"
proof -
  have cells: "cell_at demo_index 17 = Some (CSuper 0 30 0)"
    "cell_at demo_index 30 = Some (CTable (zero_table\<lparr>t_items := (t_items zero_table)[0 := demo_item 2 21000 6000], t_size := 1\<rparr>))"
    "cell_at demo_index 6000 = Some (CTable (zero_table\<lparr>t_items := (t_items zero_table)[0 := demo_item 1 20000 0], t_size := 1\<rparr>))"
    by (simp_all add: demo_index_def demo_cell)
  have "eng_ok demo_index (set (offs demo_tree))"
    unfolding eng_ok_def
    by (simp add: demo_index_def demo_ok cache_ok_def demo_tree_def) (simp add: demo_def)
  moreover have "tree_at (table_at demo_index) demo_tree"
    by (simp add: demo_tree_def table_at_def cells repr_def zero_table_def enc_def demo_item_def zero_item_def take_one_update)
  moreover have "root demo_tree = e_top demo_index" by (simp add: demo_tree_def demo_index_def)
  moreover have "sorted_wrt (<) (keys demo_tree)" "distinct (offs demo_tree)"
    using demo_quid_less by (simp_all add: demo_tree_def keys_def)
  moreover have "valid demo_index (off_zero demo_index) \<and> table_at demo_index (off_zero demo_index) = None"
    using cells(1) by (simp add: table_at_def) (simp add: demo_index_def demo_valid)
  ultimately have i: "index_ok demo_index demo_tree" by (simp add: index_ok_def)
  moreover have "apart demo_index (set (offs demo_tree))" by (rule one_page_apart[OF i]) (simp add: demo_index_def demo_def)
  moreover have "map_of (inorder demo_tree) = [demo_quid 1 \<mapsto> (zero_meta, 20000), demo_quid 2 \<mapsto> (zero_meta, 21000)]"
    using demo_quid_less by (auto simp: demo_tree_def intro: fun_upd_twist)
  moreover have "ready demo_index" by (simp add: ready_def iserror_def demo_index_def demo_def)
  ultimately show ?thesis by (auto simp: ready_rep_def rep_apart_def)
qed

lemma demo_index_any: "ready demo_index" "rep demo_index [demo_quid 1 \<mapsto> (zero_meta, 20000), demo_quid 2 \<mapsto> (zero_meta, 21000)]"
  using demo_index_rep rep_apart by (auto simp: ready_rep_def)

lemma demo_quid_inj [simp]: "demo_quid a = demo_quid b \<longleftrightarrow> a = b"
  by (simp add: demo_quid_def)

theorem engine_get_correct_witness:
  "(\<exists>b'. engine_get demo_index (demo_quid 1) = Some ((20000, zero_meta), b') \<and> err b' = None)
   \<and> (\<exists>b'. engine_get demo_index (demo_quid 3) = Some ((0, zero_meta), b') \<and> err b' = Some (''6ef42da7901f'', ''Record not found''))"
  using engine_get_correct[OF demo_index_any, of "demo_quid 1"] engine_get_correct[OF demo_index_any, of "demo_quid 3"]
  by (auto simp: zero_meta_def)

theorem engine_setmeta_correct_witness:
  "\<exists>b'. engine_setmeta demo_index (demo_quid 2) (zero_meta\<lparr>m_exec := True\<rparr>) = Some (0, b')
    \<and> ready_rep b' [demo_quid 1 \<mapsto> (zero_meta, 20000), demo_quid 2 \<mapsto> (zero_meta\<lparr>m_exec := True\<rparr>, 21000)]"
  using engine_setmeta_correct[OF demo_index_rep, of "demo_quid 2" zero_meta 21000 "zero_meta\<lparr>m_exec := True\<rparr>"]
  by (simp add: zero_meta_def)

theorem engine_delete_correct_witness:
  "\<exists>b'. engine_delete demo_index (demo_quid 2) = Some (0, b')
    \<and> (\<exists>b''. engine_get b' (demo_quid 2) = Some ((0, zero_meta), b'') \<and> err b'' = Some (''6ef42da7901f'', ''Record not found''))"
  using engine_delete_correct[OF demo_index_rep, of "demo_quid 2" zero_meta 21000]
  by (auto simp: zero_meta_def)

end
