(* ===== verification/Endian.thy ===== *)
theory Endian imports
  Prelude
begin

text \<open>
  Byte order: src/endian.c on a little-endian host.  Every integer of a page file is stored most
  significant byte first; the records of Layout hold the values that \<open>from_be16\<close>, \<open>from_be32\<close> and
  \<open>from_be64\<close> yield, and \<open>incr_be16\<close> there is an increment.  This theory justifies that reading.
\<close>

section \<open>Conversions\<close>

definition ntohs :: "u16 \<Rightarrow> u16" where
  "ntohs x = (let s = le_bytes 2 x in push_bit 8 (ucast (s ! 0)) OR ucast (s ! 1))"

definition htons :: "u16 \<Rightarrow> u16" where
  "htons x = (let s = le_bytes 2 x in push_bit 8 (ucast (s ! 0)) OR ucast (s ! 1))"

definition htonl :: "u32 \<Rightarrow> u32" where
  "htonl x = (let s = le_bytes 4 x in push_bit 24 (ucast (s ! 0)) OR push_bit 16 (ucast (s ! 1))
     OR push_bit 8 (ucast (s ! 2)) OR ucast (s ! 3))"

definition ntohl :: "u32 \<Rightarrow> u32" where
  "ntohl x = (let s = le_bytes 4 x in push_bit 24 (ucast (s ! 0)) OR push_bit 16 (ucast (s ! 1))
     OR push_bit 8 (ucast (s ! 2)) OR ucast (s ! 3))"

definition to_be16 :: "u16 \<Rightarrow> u16" where
  "to_be16 x = htons x"

definition to_be32 :: "u32 \<Rightarrow> u32" where
  "to_be32 x = htonl x"

definition to_be64 :: "u64 \<Rightarrow> u64" where
  "to_be64 x = push_bit 32 (ucast (htonl (ucast x))) OR ucast (htonl (ucast (drop_bit 32 x)))"

definition from_be16 :: "u16 \<Rightarrow> u16" where
  "from_be16 x = ntohs x"

definition from_be32 :: "u32 \<Rightarrow> u32" where
  "from_be32 x = ntohl x"

definition from_be64 :: "u64 \<Rightarrow> u64" where
  "from_be64 x = push_bit 32 (ucast (ntohl (ucast x))) OR ucast (ntohl (ucast (drop_bit 32 x)))"

definition incr_be16 :: "u16 \<Rightarrow> u16" where
  "incr_be16 x = (let y = ntohs x in htons (y + 1))"

definition incr_be32 :: "u32 \<Rightarrow> u32" where
  "incr_be32 x = (let y = ntohl x in htonl (y + 1))"

definition incr_be64 :: "u64 \<Rightarrow> u64" where
  "incr_be64 x = (let y = (push_bit 32 (ucast (ntohl (ucast x))) OR ucast (ntohl (ucast (drop_bit 32 x)))) + 1 :: u64
     in push_bit 32 (ucast (htonl (ucast y))) OR ucast (htonl (ucast (drop_bit 32 y))))"

definition decr_be16 :: "u16 \<Rightarrow> u16" where
  "decr_be16 x = (let y = ntohs x in htons (y - 1))"

definition decr_be32 :: "u32 \<Rightarrow> u32" where
  "decr_be32 x = (let y = ntohl x in htonl (y - 1))"

definition decr_be64 :: "u64 \<Rightarrow> u64" where
  "decr_be64 x = (let y = (push_bit 32 (ucast (ntohl (ucast x))) OR ucast (ntohl (ucast (drop_bit 32 x)))) - 1 :: u64
     in push_bit 32 (ucast (htonl (ucast y))) OR ucast (htonl (ucast (drop_bit 32 y))))"

section \<open>The bytes of a converted value\<close>

lemma le_bytes_nth: "i < n \<Longrightarrow> le_bytes n w ! i = ucast (drop_bit (8 * i) w)"
  by (simp add: le_bytes_def)

lemma le_bytes_eqI:
  assumes "\<And>i k. i < n \<Longrightarrow> k < 8 \<Longrightarrow> bit v (8 * i + k) = bit w (8 * (n - Suc i) + k)"
  shows "le_bytes n v = rev (le_bytes n w)"
proof (rule nth_equalityI)
  fix i assume "i < length (le_bytes n v)"
  then have i: "i < n" by simp
  have "bit (ucast (drop_bit (8 * i) v) :: u8) k = bit (ucast (drop_bit (8 * (n - Suc i)) w) :: u8) k"
    if "k < 8" for k using assms[OF i that] that by (simp add: bit_simps add.commute)
  then have "(ucast (drop_bit (8 * i) v) :: u8) = ucast (drop_bit (8 * (n - Suc i)) w)"
    by (intro bit_word_eqI) simp
  then show "le_bytes n v ! i = rev (le_bytes n w) ! i"
    using i by (simp add: le_bytes_nth rev_nth)
qed simp

lemma swap16_bytes: "le_bytes 2 (htons x) = rev (le_bytes 2 x)"
proof (rule le_bytes_eqI)
  fix i k :: nat assume "i < 2" "k < 8"
  then have "i = 0 \<or> i = 1" by linarith
  then show "bit (htons x) (8 * i + k) = bit x (8 * (2 - Suc i) + k)"
    using \<open>k < 8\<close> by (elim disjE) (simp_all add: htons_def Let_def le_bytes_nth bit_simps add.commute)
qed

lemma swap32_bytes: "le_bytes 4 (htonl x) = rev (le_bytes 4 x)"
proof (rule le_bytes_eqI)
  fix i k :: nat assume "i < 4" "k < 8"
  then have "i = 0 \<or> i = 1 \<or> i = 2 \<or> i = 3" by linarith
  then show "bit (htonl x) (8 * i + k) = bit x (8 * (4 - Suc i) + k)"
    using \<open>k < 8\<close> by (elim disjE) (simp_all add: htonl_def Let_def le_bytes_nth bit_simps add.commute)
qed

lemma bytes_low: "le_bytes 4 (ucast (x :: u64) :: u32) = take 4 (le_bytes 8 x)"
  by (rule nth_equalityI) (auto simp: le_bytes_nth bit_simps intro!: bit_word_eqI)

lemma bytes_high: "le_bytes 4 (ucast (drop_bit 32 (x :: u64)) :: u32) = drop 4 (le_bytes 8 x)"
  by (rule nth_equalityI) (auto simp: le_bytes_nth bit_simps algebra_simps intro!: bit_word_eqI)

lemma bytes_join: "le_bytes 8 (push_bit 32 (ucast (a :: u32)) OR ucast (b :: u32) :: u64) = le_bytes 4 b @ le_bytes 4 a"
proof (rule nth_equalityI)
  fix i assume "i < length (le_bytes 8 (push_bit 32 (ucast a) OR ucast b :: u64))"
  then have i: "i < 8" by simp
  have b: "\<not> bit b m" if "32 \<le> m" for m using bit_imp_le_length[of b m] that by auto
  show "le_bytes 8 (push_bit 32 (ucast a) OR ucast b :: u64) ! i = (le_bytes 4 b @ le_bytes 4 a) ! i"
    using i b by (cases "i < 4") (auto simp: le_bytes_nth nth_append bit_simps algebra_simps intro!: bit_word_eqI)
qed simp

lemma swap64_bytes: "le_bytes 8 (to_be64 x) = rev (le_bytes 8 x)"
proof -
  have "le_bytes 8 (to_be64 x) = rev (drop 4 (le_bytes 8 x)) @ rev (take 4 (le_bytes 8 x))"
    by (simp add: to_be64_def bytes_join swap32_bytes bytes_high) (simp add: bytes_low)
  then show ?thesis by (simp only: rev_append[symmetric] append_take_drop_id)
qed

section \<open>Round trips and increments\<close>

lemma same_conversions: "ntohs = htons" "ntohl = htonl" "from_be64 = to_be64"
  by (simp_all add: fun_eq_iff ntohs_def htons_def ntohl_def htonl_def from_be64_def to_be64_def)

text \<open>
  What a stored integer type owes its users: reading and writing are inverse to each other, and the
  increment and decrement of the stored form are those of the value.
\<close>

locale stored_integer =
  fixes to_be from_be incr decr :: "'a::len word \<Rightarrow> 'a word" and width :: nat
  assumes width: "LENGTH('a) = 8 * width"
    and bytes_to: "le_bytes width (to_be x) = rev (le_bytes width x)"
    and from_to_same: "from_be = to_be"
    and incr_law: "incr y = to_be (from_be y + 1)"
    and decr_law: "decr y = to_be (from_be y - 1)"
begin

lemma involution: "to_be (to_be x) = x"
  using bytes_to[of "to_be x"] bytes_to[of x] width by (intro le_bytes_inj[of width]) simp_all

lemma from_to: "from_be (to_be x) = x" and to_from: "to_be (from_be x) = x"
  by (simp_all add: from_to_same involution)

lemma incr_value: "from_be (incr y) = from_be y + 1" and decr_value: "from_be (decr y) = from_be y - 1"
  by (simp_all add: incr_law decr_law from_to)

lemma decr_incr: "decr (incr y) = y"
  by (simp add: decr_law incr_value to_from)

lemma stored_inj: "to_be x = to_be y \<longleftrightarrow> x = y"
  using involution by metis

end

interpretation be16: stored_integer to_be16 from_be16 incr_be16 decr_be16 2
  by unfold_locales (simp_all add: to_be16_def from_be16_def swap16_bytes same_conversions
      incr_be16_def decr_be16_def fun_eq_iff)

interpretation be32: stored_integer to_be32 from_be32 incr_be32 decr_be32 4
  by unfold_locales (simp_all add: to_be32_def from_be32_def swap32_bytes same_conversions
      incr_be32_def decr_be32_def fun_eq_iff)

interpretation be64: stored_integer to_be64 from_be64 incr_be64 decr_be64 8
proof unfold_locales
  show "LENGTH(64) = 8 * 8" by simp
  show "le_bytes 8 (to_be64 x) = rev (le_bytes 8 x)" for x by (rule swap64_bytes)
  show "from_be64 = to_be64" by (rule same_conversions)
  show "incr_be64 y = to_be64 (from_be64 y + 1)" "decr_be64 y = to_be64 (from_be64 y - 1)" for y
    by (simp_all add: incr_be64_def decr_be64_def to_be64_def from_be64_def Let_def)
qed

text \<open>
  An integer written to a page file and read back is unchanged, at every width.
\<close>

theorem endian_roundtrip:
  "from_be16 (to_be16 x) = x \<and> from_be32 (to_be32 y) = y \<and> from_be64 (to_be64 z) = z"
  by (simp add: be16.from_to be32.from_to be64.from_to)

text \<open>
  The stored form is big-endian: the bytes in memory are those of the little-endian host in
  reverse, and incrementing or decrementing the stored form increments or decrements the value,
  wrapping around at the width of the field.
\<close>

theorem endian_bytes:
  "le_bytes 2 (to_be16 x) = rev (le_bytes 2 x) \<and> le_bytes 4 (to_be32 y) = rev (le_bytes 4 y)
   \<and> le_bytes 8 (to_be64 z) = rev (le_bytes 8 z)
   \<and> from_be16 (incr_be16 x) = from_be16 x + 1 \<and> from_be32 (incr_be32 y) = from_be32 y + 1
   \<and> from_be64 (incr_be64 z) = from_be64 z + 1 \<and> decr_be16 (incr_be16 x) = x
   \<and> decr_be32 (incr_be32 y) = y \<and> decr_be64 (incr_be64 z) = z"
  by (simp add: be16.bytes_to be32.bytes_to be64.bytes_to be16.incr_value be32.incr_value be64.incr_value
      be16.decr_incr be32.decr_incr be64.decr_incr)

end
