(* ===== verification/Crc.thy ===== *)
theory Crc imports
  Prelude
begin

text \<open>
  Checksums: src/crc32.c and src/crc64.c.  Both work on bytes through tables; crc64 also takes eight
  bytes at a time and combines checksums of adjacent blocks by matrices over GF(2).  The reference is
  the division of the bit stream by the polynomial, one bit at a time (\<open>crc_step\<close>); the theory shows
  that the table-driven code computes it.
\<close>

section \<open>The reference: one bit at a time\<close>

definition crc_step :: "u64 \<Rightarrow> u64 \<Rightarrow> u64" where
  "crc_step poly x = (if bit x 0 then poly XOR drop_bit 1 x else drop_bit 1 x)"

definition crc_bytes :: "u64 \<Rightarrow> u64 \<Rightarrow> u8 list \<Rightarrow> u64" where
  "crc_bytes poly = foldl (\<lambda>c b. (crc_step poly ^^ 8) (c XOR ucast b))"

lemma crc_bytes_simps [simp]:
  "crc_bytes poly c [] = c"
  "crc_bytes poly c (b # bs) = crc_bytes poly ((crc_step poly ^^ 8) (c XOR ucast b)) bs"
  "crc_bytes poly c (xs @ ys) = crc_bytes poly (crc_bytes poly c xs) ys"
  by (simp_all add: crc_bytes_def)

lemma crc_step_xor: "crc_step p (x XOR y) = crc_step p x XOR crc_step p y"
  by (rule bit_word_eqI) (auto simp: crc_step_def bit_simps)

lemma crc_step_0 [simp]: "crc_step p 0 = 0"
  by (simp add: crc_step_def)

lemma steps_0 [simp]: "(crc_step p ^^ n) 0 = 0"
  by (induction n) simp_all

lemma steps_xor: "(crc_step p ^^ n) (x XOR y) = (crc_step p ^^ n) x XOR (crc_step p ^^ n) y"
  by (induction n) (simp_all add: crc_step_xor)

text \<open>While the low bits are zero the division only shifts.\<close>

lemma steps_shift: "(\<And>i. i < n \<Longrightarrow> \<not> bit x i) \<Longrightarrow> (crc_step p ^^ n) x = drop_bit n x"
proof (induction n arbitrary: x)
  case (Suc n)
  have "crc_step p x = drop_bit 1 x" using Suc.prems[of 0] by (simp add: crc_step_def)
  moreover have "\<not> bit (drop_bit 1 x) i" if "i < n" for i
    using Suc.prems[of "Suc i"] that by (simp add: bit_simps)
  ultimately show ?case
    using Suc.IH[of "drop_bit 1 x"] by (simp only: funpow_Suc_right comp_apply) (simp add: drop_bit_drop_bit)
qed simp

lemma split_low: "x = take_bit n x XOR push_bit n (drop_bit n (x :: 'a::len word))"
  by (rule bit_word_eqI) (auto simp: bit_simps)

lemma steps_push: "(crc_step p ^^ n) (push_bit n (drop_bit n x)) = drop_bit n x"
proof (subst steps_shift)
  have "n + i < 64" if "bit x (n + i)" for i using bit_imp_le_length[OF that] by simp
  then show "drop_bit n (push_bit n (drop_bit n x)) = drop_bit n x"
    by (auto simp: bit_simps intro!: bit_word_eqI)
qed (simp add: bit_simps)

lemma steps_byte: "(crc_step p ^^ 8) x = (crc_step p ^^ 8) (take_bit 8 x) XOR drop_bit 8 x"
  by (subst split_low[of x 8]) (simp only: steps_xor steps_push)

text \<open>A table that holds the remainders of all single bytes drives the division bytewise.\<close>

locale crc_lookup =
  fixes poly :: u64 and tab :: "u64 list"
  assumes entry: "n < 256 \<Longrightarrow> tab ! n = (crc_step poly ^^ 8) (of_nat n)"
begin

lemma lookup_byte: "tab ! unat (x AND 0xff) = (crc_step poly ^^ 8) (take_bit 8 x)"
proof -
  have "unat (take_bit 8 x) < 2 ^ 8" unfolding unsigned_take_bit_eq by (rule take_bit_nat_less_exp)
  then show ?thesis using entry[of "unat (take_bit 8 x)"] by (simp add: word_and_masks)
qed

lemma byte: "tab ! unat ((c XOR ucast b) AND 0xff) XOR drop_bit 8 c
    = (crc_step poly ^^ 8) (c XOR ucast (b :: u8))"
proof -
  have "drop_bit 8 (c XOR ucast b) = drop_bit 8 c"
    by (rule bit_word_eqI) (auto simp: bit_simps dest: bit_imp_le_length)
  then show ?thesis using steps_byte[of poly "c XOR ucast b"] by (simp only: lookup_byte)
qed

lemma bytes: "foldl (\<lambda>c b. tab ! unat ((c XOR ucast b) AND 0xff) XOR drop_bit 8 c) c bs = crc_bytes poly c bs"
  by (simp only: byte crc_bytes_def)

end

section \<open>CRC-32\<close>

text \<open>\<open>unsigned long\<close> has 64 bits.\<close>

definition crc_table :: "u64 list" where
  "crc_table = [
     0x0, 0x77073096, 0xee0e612c, 0x990951ba, 0x76dc419, 0x706af48f, 0xe963a535, 0x9e6495a3,
     0xedb8832, 0x79dcb8a4, 0xe0d5e91e, 0x97d2d988, 0x9b64c2b, 0x7eb17cbd, 0xe7b82d07, 0x90bf1d91,
     0x1db71064, 0x6ab020f2, 0xf3b97148, 0x84be41de, 0x1adad47d, 0x6ddde4eb, 0xf4d4b551, 0x83d385c7,
     0x136c9856, 0x646ba8c0, 0xfd62f97a, 0x8a65c9ec, 0x14015c4f, 0x63066cd9, 0xfa0f3d63, 0x8d080df5,
     0x3b6e20c8, 0x4c69105e, 0xd56041e4, 0xa2677172, 0x3c03e4d1, 0x4b04d447, 0xd20d85fd, 0xa50ab56b,
     0x35b5a8fa, 0x42b2986c, 0xdbbbc9d6, 0xacbcf940, 0x32d86ce3, 0x45df5c75, 0xdcd60dcf, 0xabd13d59,
     0x26d930ac, 0x51de003a, 0xc8d75180, 0xbfd06116, 0x21b4f4b5, 0x56b3c423, 0xcfba9599, 0xb8bda50f,
     0x2802b89e, 0x5f058808, 0xc60cd9b2, 0xb10be924, 0x2f6f7c87, 0x58684c11, 0xc1611dab, 0xb6662d3d,
     0x76dc4190, 0x1db7106, 0x98d220bc, 0xefd5102a, 0x71b18589, 0x6b6b51f, 0x9fbfe4a5, 0xe8b8d433,
     0x7807c9a2, 0xf00f934, 0x9609a88e, 0xe10e9818, 0x7f6a0dbb, 0x86d3d2d, 0x91646c97, 0xe6635c01,
     0x6b6b51f4, 0x1c6c6162, 0x856530d8, 0xf262004e, 0x6c0695ed, 0x1b01a57b, 0x8208f4c1, 0xf50fc457,
     0x65b0d9c6, 0x12b7e950, 0x8bbeb8ea, 0xfcb9887c, 0x62dd1ddf, 0x15da2d49, 0x8cd37cf3, 0xfbd44c65,
     0x4db26158, 0x3ab551ce, 0xa3bc0074, 0xd4bb30e2, 0x4adfa541, 0x3dd895d7, 0xa4d1c46d, 0xd3d6f4fb,
     0x4369e96a, 0x346ed9fc, 0xad678846, 0xda60b8d0, 0x44042d73, 0x33031de5, 0xaa0a4c5f, 0xdd0d7cc9,
     0x5005713c, 0x270241aa, 0xbe0b1010, 0xc90c2086, 0x5768b525, 0x206f85b3, 0xb966d409, 0xce61e49f,
     0x5edef90e, 0x29d9c998, 0xb0d09822, 0xc7d7a8b4, 0x59b33d17, 0x2eb40d81, 0xb7bd5c3b, 0xc0ba6cad,
     0xedb88320, 0x9abfb3b6, 0x3b6e20c, 0x74b1d29a, 0xead54739, 0x9dd277af, 0x4db2615, 0x73dc1683,
     0xe3630b12, 0x94643b84, 0xd6d6a3e, 0x7a6a5aa8, 0xe40ecf0b, 0x9309ff9d, 0xa00ae27, 0x7d079eb1,
     0xf00f9344, 0x8708a3d2, 0x1e01f268, 0x6906c2fe, 0xf762575d, 0x806567cb, 0x196c3671, 0x6e6b06e7,
     0xfed41b76, 0x89d32be0, 0x10da7a5a, 0x67dd4acc, 0xf9b9df6f, 0x8ebeeff9, 0x17b7be43, 0x60b08ed5,
     0xd6d6a3e8, 0xa1d1937e, 0x38d8c2c4, 0x4fdff252, 0xd1bb67f1, 0xa6bc5767, 0x3fb506dd, 0x48b2364b,
     0xd80d2bda, 0xaf0a1b4c, 0x36034af6, 0x41047a60, 0xdf60efc3, 0xa867df55, 0x316e8eef, 0x4669be79,
     0xcb61b38c, 0xbc66831a, 0x256fd2a0, 0x5268e236, 0xcc0c7795, 0xbb0b4703, 0x220216b9, 0x5505262f,
     0xc5ba3bbe, 0xb2bd0b28, 0x2bb45a92, 0x5cb36a04, 0xc2d7ffa7, 0xb5d0cf31, 0x2cd99e8b, 0x5bdeae1d,
     0x9b64c2b0, 0xec63f226, 0x756aa39c, 0x26d930a, 0x9c0906a9, 0xeb0e363f, 0x72076785, 0x5005713,
     0x95bf4a82, 0xe2b87a14, 0x7bb12bae, 0xcb61b38, 0x92d28e9b, 0xe5d5be0d, 0x7cdcefb7, 0xbdbdf21,
     0x86d3d2d4, 0xf1d4e242, 0x68ddb3f8, 0x1fda836e, 0x81be16cd, 0xf6b9265b, 0x6fb077e1, 0x18b74777,
     0x88085ae6, 0xff0f6a70, 0x66063bca, 0x11010b5c, 0x8f659eff, 0xf862ae69, 0x616bffd3, 0x166ccf45,
     0xa00ae278, 0xd70dd2ee, 0x4e048354, 0x3903b3c2, 0xa7672661, 0xd06016f7, 0x4969474d, 0x3e6e77db,
     0xaed16a4a, 0xd9d65adc, 0x40df0b66, 0x37d83bf0, 0xa9bcae53, 0xdebb9ec5, 0x47b2cf7f, 0x30b5ffe9,
     0xbdbdf21c, 0xcabac28a, 0x53b39330, 0x24b4a3a6, 0xbad03605, 0xcdd70693, 0x54de5729, 0x23d967bf,
     0xb3667a2e, 0xc4614ab8, 0x5d681b02, 0x2a6f2b94, 0xb40bbe37, 0xc30c8ea1, 0x5a05df1b, 0x2d02ef8d]"

definition crc32_calculate :: "u64 \<Rightarrow> u8 list \<Rightarrow> u64" where
  "crc32_calculate in_crc32 buf =
     foldl (\<lambda>crc32 b. drop_bit 8 crc32 XOR crc_table ! unat ((crc32 XOR ucast b) AND 0xff))
       (in_crc32 XOR 0xffffffff) buf XOR 0xffffffff"

abbreviation (input) POLY32 :: u64 where "POLY32 \<equiv> 0xedb88320"

text \<open>
  Remainders are linear: the second half of a table of \<open>2 ^ (k + 1)\<close> bytes is the first half, each
  entry combined with that of \<open>2 ^ k\<close>.
\<close>

definition grow :: "u64 \<Rightarrow> u64 list \<Rightarrow> u64 list" where
  "grow e xs = xs @ map (\<lambda>x. e XOR x) xs"

definition is_table :: "u64 \<Rightarrow> nat \<Rightarrow> u64 list \<Rightarrow> bool" where
  "is_table p k xs \<longleftrightarrow> length xs = 2 ^ k \<and> (\<forall>n<2 ^ k. xs ! n = (crc_step p ^^ 8) (of_nat n))"

lemma is_table_0: "is_table p 0 [0]"
  by (simp add: is_table_def)

lemma of_nat_high: "n < 2 ^ k \<Longrightarrow> k < 64 \<Longrightarrow> (of_nat (2 ^ k + n) :: u64) = of_nat (2 ^ k) XOR of_nat n"
proof -
  assume n: "n < 2 ^ k" "k < 64"
  have "\<not> bit (of_nat n :: u64) i" if "bit (of_nat (2 ^ k) :: u64) i" for i
  proof -
    have "i = k" using that by (simp add: bit_simps)
    moreover have "take_bit k n = n" using n(1) by (simp add: take_bit_nat_eq_self)
    then have "\<not> bit n k" by (metis bit_take_bit_iff less_irrefl)
    ultimately show ?thesis by (simp add: bit_simps)
  qed
  then have d: "(of_nat (2 ^ k) :: u64) AND of_nat n = 0"
    by (intro bit_word_eqI) (auto simp: bit_and_iff)
  have "(of_nat (2 ^ k + n) :: u64) = of_nat (2 ^ k) + of_nat n" by simp
  also have "\<dots> = of_nat (2 ^ k) XOR of_nat n" by (rule disjunctive_add_eq_xor[OF d])
  finally show ?thesis .
qed

lemma is_table_grow:
  assumes "is_table p k xs" "e = (crc_step p ^^ 8) (of_nat (2 ^ k))" "k < 64"
  shows "is_table p (Suc k) (grow e xs)"
  unfolding is_table_def
proof (intro conjI allI impI)
  show "length (grow e xs) = 2 ^ Suc k" using assms(1) by (simp add: is_table_def grow_def)
  fix n :: nat assume n: "n < 2 ^ Suc k"
  show "grow e xs ! n = (crc_step p ^^ 8) (of_nat n)"
  proof (cases "n < 2 ^ k")
    case True
    then show ?thesis using assms(1) by (simp add: is_table_def grow_def nth_append)
  next
    case False
    then have m: "n - 2 ^ k < 2 ^ k" "n = 2 ^ k + (n - 2 ^ k)" using n by auto
    then have "(crc_step p ^^ 8) (of_nat n) = e XOR (crc_step p ^^ 8) (of_nat (n - 2 ^ k))"
      using of_nat_high[OF m(1) assms(3)] assms(2) steps_xor by metis
    then show ?thesis using assms(1) False m by (simp add: is_table_def grow_def nth_append)
  qed
qed

lemma steps8: "(crc_step p ^^ 8) x = crc_step p (crc_step p (crc_step p (crc_step p
    (crc_step p (crc_step p (crc_step p (crc_step p x)))))))"
  by (simp add: numeral_eq_Suc)

text \<open>The eight entries that generate the table, and the table from them.\<close>

lemma crc_table_base:
  shows "0x77073096 = (crc_step POLY32 ^^ 8) (of_nat (2 ^ (0)))"
    and "0xee0e612c = (crc_step POLY32 ^^ 8) (of_nat (2 ^ (Suc 0)))"
    and "0x76dc419 = (crc_step POLY32 ^^ 8) (of_nat (2 ^ (Suc (Suc 0))))"
    and "0xedb8832 = (crc_step POLY32 ^^ 8) (of_nat (2 ^ (Suc (Suc (Suc 0)))))"
    and "0x1db71064 = (crc_step POLY32 ^^ 8) (of_nat (2 ^ (Suc (Suc (Suc (Suc 0))))))"
    and "0x3b6e20c8 = (crc_step POLY32 ^^ 8) (of_nat (2 ^ (Suc (Suc (Suc (Suc (Suc 0)))))))"
    and "0x76dc4190 = (crc_step POLY32 ^^ 8) (of_nat (2 ^ (Suc (Suc (Suc (Suc (Suc (Suc 0))))))))"
    and "0xedb88320 = (crc_step POLY32 ^^ 8) (of_nat (2 ^ (Suc (Suc (Suc (Suc (Suc (Suc (Suc 0)))))))))"
  by (simp_all add: steps8 crc_step_def)

lemma crc_table_is: "is_table POLY32 8 crc_table"
proof -
  have "crc_table = grow 0xedb88320 (grow 0x76dc4190 (grow 0x3b6e20c8 (grow 0x1db71064 (grow 0xedb8832 (grow 0x76dc419 (grow 0xee0e612c (grow 0x77073096 [0])))))))"
    by (simp add: grow_def crc_table_def)
  moreover have "is_table POLY32 (Suc (Suc (Suc (Suc (Suc (Suc (Suc (Suc 0)))))))) \<dots>"
    by (intro is_table_grow is_table_0 crc_table_base) simp_all
  ultimately show ?thesis by (simp add: numeral_eq_Suc)
qed

interpretation crc32: crc_lookup POLY32 crc_table
  using crc_table_is by unfold_locales (simp add: is_table_def)

text \<open>
  C27: The table-driven CRC-32 is the bitwise division by the reflected polynomial 0xedb88320 with
  initial and final complement, for every start value and every buffer; and the checksum of a
  buffer can be computed in pieces, feeding the result for one piece into the next.
\<close>

theorem crc32_correct:
  "crc32_calculate c bs = crc_bytes POLY32 (c XOR 0xffffffff) bs XOR 0xffffffff
   \<and> crc32_calculate (crc32_calculate c xs) ys = crc32_calculate c (xs @ ys)"
proof -
  have "crc32_calculate c bs = crc_bytes POLY32 (c XOR 0xffffffff) bs XOR 0xffffffff" for c bs
    using crc32.bytes[of _ bs] by (simp add: crc32_calculate_def xor.commute)
  then show ?thesis by (simp add: xor.assoc)
qed

section \<open>CRC-64\<close>

abbreviation (input) POLY64 :: u64 where "POLY64 \<equiv> 0xc96c5795d7870f42"

text \<open>Row 0 holds the remainders of single bytes, row \<open>k\<close> those of a byte and \<open>k\<close> zero bytes.\<close>

definition crc64_row0 :: "u64 list" where
  "crc64_row0 = map (\<lambda>n. ((\<lambda>crc. if bit crc 0 then POLY64 XOR drop_bit 1 crc else drop_bit 1 crc) ^^ 8) (of_nat n)) [0..<256]"

definition crc64_init :: "u64 list list" where
  "crc64_init = map (\<lambda>k. map (\<lambda>n. ((\<lambda>crc. crc64_row0 ! unat (crc AND 0xff) XOR drop_bit 8 crc) ^^ k)
     (crc64_row0 ! n)) [0..<256]) [0..<8]"

text \<open>An eight-byte load on the little-endian host.\<close>

fun le_word :: "u8 list \<Rightarrow> u64" where
  "le_word [] = 0"
| "le_word (b # bs) = ucast b OR push_bit 8 (le_word bs)"

definition crc64_byte :: "u64 \<Rightarrow> u8 \<Rightarrow> u64" where
  "crc64_byte crc b = crc64_init ! 0 ! unat ((crc XOR ucast b) AND 0xff) XOR drop_bit 8 crc"

definition crc64_word :: "u64 \<Rightarrow> u64 \<Rightarrow> u64" where
  "crc64_word crc w = (let crc = crc XOR w in
     crc64_init ! 7 ! unat (crc AND 0xff) XOR
     crc64_init ! 6 ! unat (drop_bit 8 crc AND 0xff) XOR
     crc64_init ! 5 ! unat (drop_bit 16 crc AND 0xff) XOR
     crc64_init ! 4 ! unat (drop_bit 24 crc AND 0xff) XOR
     crc64_init ! 3 ! unat (drop_bit 32 crc AND 0xff) XOR
     crc64_init ! 2 ! unat (drop_bit 40 crc AND 0xff) XOR
     crc64_init ! 1 ! unat (drop_bit 48 crc AND 0xff) XOR
     crc64_init ! 0 ! unat (drop_bit 56 crc))"

text \<open>The loops: bytes up to an address divisible by eight, then words, then the remaining bytes.\<close>

fun crc64_head :: "nat \<Rightarrow> u64 \<Rightarrow> u8 list \<Rightarrow> u64 \<times> u8 list" where
  "crc64_head addr crc (b # bs) =
     (if addr mod 8 \<noteq> 0 then crc64_head (addr + 1) (crc64_byte crc b) bs else (crc, b # bs))"
| "crc64_head addr crc [] = (crc, [])"

function crc64_words :: "u64 \<Rightarrow> u8 list \<Rightarrow> u64 \<times> u8 list" where
  "crc64_words crc bs =
     (if length bs \<ge> 8 then crc64_words (crc64_word crc (le_word (take 8 bs))) (drop 8 bs)
      else (crc, bs))"
  by pat_completeness auto
termination by (relation "measure (length \<circ> snd)") auto

declare crc64_words.simps [simp del]

definition crc64_little :: "u64 \<Rightarrow> nat \<Rightarrow> u8 list \<Rightarrow> u64" where
  "crc64_little crc addr buf =
     (let crc = NOT crc; (crc, buf) = crc64_head addr crc buf; (crc, buf) = crc64_words crc buf;
          crc = foldl crc64_byte crc buf
      in NOT crc)"

text \<open>The rows of the table.\<close>

lemma row0: "n < 256 \<Longrightarrow> crc64_row0 ! n = (crc_step POLY64 ^^ 8) (of_nat n)"
proof -
  have "(\<lambda>crc. if bit crc 0 then POLY64 XOR drop_bit 1 crc else drop_bit 1 crc) = crc_step POLY64"
    by (simp add: fun_eq_iff crc_step_def)
  then show "n < 256 \<Longrightarrow> ?thesis" by (simp add: crc64_row0_def)
qed

interpretation crc64: crc_lookup POLY64 crc64_row0
  by unfold_locales (rule row0)

lemma row0_step: "crc64_row0 ! unat (x AND 0xff) XOR drop_bit 8 x = (crc_step POLY64 ^^ 8) x"
  using crc64.byte[of x 0] by simp

lemma rows: "k < 8 \<Longrightarrow> n < 256 \<Longrightarrow> crc64_init ! k ! n = (crc_step POLY64 ^^ (8 * k + 8)) (of_nat n)"
proof -
  have "((\<lambda>crc. crc64_row0 ! unat (crc AND 0xff) XOR drop_bit 8 crc) ^^ k) x = (crc_step POLY64 ^^ (8 * k)) x" for x
  proof (induction k)
    case (Suc k)
    then show ?case using row0_step[of "(crc_step POLY64 ^^ (8 * k)) x"]
      by (simp only: mult_Suc_right funpow_add comp_apply funpow.simps)
  qed simp
  then show "k < 8 \<Longrightarrow> n < 256 \<Longrightarrow> ?thesis"
    by (simp only: crc64_init_def row0 funpow_add comp_apply nth_map_upt diff_zero add_0 length_upt nth_map nth_upt)
qed

lemma crc64_byte_eq: "crc64_byte c b = (crc_step POLY64 ^^ 8) (c XOR ucast b)"
proof -
  have "crc64_init ! 0 = crc64_row0" by (intro nth_equalityI) (simp_all add: rows row0 crc64_row0_def crc64_init_def)
  then show ?thesis using crc64.byte[of c b] by (simp add: crc64_byte_def)
qed

text \<open>A run of at most eight bytes is one division of the loaded word.\<close>

lemma le_word_less: "i \<ge> 8 * length bs \<Longrightarrow> \<not> bit (le_word bs) i"
proof (induction bs arbitrary: i)
  case (Cons b bs)
  then show ?case using Cons.IH[of "i - 8"] bit_imp_le_length[of b i] by (auto simp: bit_simps)
qed simp

lemma le_word_Cons_xor: "le_word (b # bs) = ucast b XOR push_bit 8 (le_word bs)"
proof -
  have "\<not> bit b i" if "8 \<le> i" for i using bit_imp_le_length[of b i] that by auto
  then show ?thesis by (intro bit_word_eqI) (auto simp: bit_simps)
qed

lemma crc_bytes_word: "length bs \<le> 8 \<Longrightarrow> crc_bytes p c bs = (crc_step p ^^ (8 * length bs)) (c XOR le_word bs)"
proof (induction bs arbitrary: c)
  case (Cons b bs)
  have s: "(crc_step p ^^ 8) (push_bit 8 (le_word bs)) = le_word bs"
  proof (subst steps_shift)
    have "i < 56" if "bit (le_word bs) i" for i using le_word_less[of bs i] Cons.prems that by (intro not_le_imp_less) auto
    then show "drop_bit 8 (push_bit 8 (le_word bs)) = le_word bs"
      by (intro bit_word_eqI) (auto simp: bit_simps)
  qed (simp add: bit_simps)
  have n: "8 * length (b # bs) = 8 * length bs + 8" by simp
  have "crc_bytes p c (b # bs) = (crc_step p ^^ (8 * length bs)) ((crc_step p ^^ 8) (c XOR ucast b) XOR le_word bs)"
    using Cons by simp
  also have "\<dots> = (crc_step p ^^ (8 * length bs)) ((crc_step p ^^ 8) ((c XOR ucast b) XOR push_bit 8 (le_word bs)))"
    by (simp only: steps_xor s)
  also have "\<dots> = (crc_step p ^^ (8 * length (b # bs))) (c XOR le_word (b # bs))"
    unfolding le_word_Cons_xor n by (simp only: funpow_add comp_apply xor.assoc)
  finally show ?case .
qed simp

text \<open>Eight table lookups, each for one byte of the word and the zeros behind it.\<close>

lemma slice:
  assumes "8 * i + 8 \<le> 64"
  shows "crc64_init ! (7 - i) ! unat (drop_bit (8 * i) w AND 0xff)
    = (crc_step POLY64 ^^ 64) (push_bit (8 * i) (take_bit 8 (drop_bit (8 * i) w)))"
proof -
  let ?b = "take_bit 8 (drop_bit (8 * i) w)"
  have b: "unat ?b < 2 ^ 8" unfolding unsigned_take_bit_eq by (rule take_bit_nat_less_exp)
  have shift: "(crc_step POLY64 ^^ (8 * i)) (push_bit (8 * i) ?b) = ?b"
    using assms by (subst steps_shift) (auto simp: bit_simps intro!: bit_word_eqI)
  have n: "64 = (8 * (7 - i) + 8) + 8 * i" using assms by simp
  have "crc64_init ! (7 - i) ! unat ?b = (crc_step POLY64 ^^ (8 * (7 - i) + 8)) ?b"
    using b assms rows[of "7 - i" "unat ?b"] by simp
  also have "\<dots> = (crc_step POLY64 ^^ 64) (push_bit (8 * i) ?b)"
    by (subst n) (simp only: funpow_add[of "8 * (7 - i) + 8"] comp_apply shift)
  finally show ?thesis by (simp add: word_and_masks)
qed

lemma bytes_of_word: "w = push_bit (8 * 0) (take_bit 8 (drop_bit (8 * 0) w))
    XOR push_bit (8 * 1) (take_bit 8 (drop_bit (8 * 1) w)) XOR push_bit (8 * 2) (take_bit 8 (drop_bit (8 * 2) w))
    XOR push_bit (8 * 3) (take_bit 8 (drop_bit (8 * 3) w)) XOR push_bit (8 * 4) (take_bit 8 (drop_bit (8 * 4) w))
    XOR push_bit (8 * 5) (take_bit 8 (drop_bit (8 * 5) w)) XOR push_bit (8 * 6) (take_bit 8 (drop_bit (8 * 6) w))
    XOR push_bit (8 * 7) (take_bit 8 (drop_bit (8 * 7) (w :: u64)))"
proof (rule bit_word_eqI)
  have d: "n - a < 8 \<longleftrightarrow> n < a + 8" for a n :: nat by linarith
  fix n assume "n < LENGTH(64)"
  then consider "n < 8" | "8 \<le> n" "n < 16" | "16 \<le> n" "n < 24" | "24 \<le> n" "n < 32" | "32 \<le> n" "n < 40"
    | "40 \<le> n" "n < 48" | "48 \<le> n" "n < 56" | "56 \<le> n" "n < 64" by fastforce
  then show "bit w n = bit (push_bit (8 * 0) (take_bit 8 (drop_bit (8 * 0) w))
    XOR push_bit (8 * 1) (take_bit 8 (drop_bit (8 * 1) w)) XOR push_bit (8 * 2) (take_bit 8 (drop_bit (8 * 2) w))
    XOR push_bit (8 * 3) (take_bit 8 (drop_bit (8 * 3) w)) XOR push_bit (8 * 4) (take_bit 8 (drop_bit (8 * 4) w))
    XOR push_bit (8 * 5) (take_bit 8 (drop_bit (8 * 5) w)) XOR push_bit (8 * 6) (take_bit 8 (drop_bit (8 * 6) w))
    XOR push_bit (8 * 7) (take_bit 8 (drop_bit (8 * 7) w))) n"
    by cases (simp_all add: bit_simps d)
qed

lemma crc64_word_eq: "crc64_word c w = (crc_step POLY64 ^^ 64) (c XOR w)"
proof -
  let ?x = "c XOR w"
  have last: "drop_bit 56 ?x = drop_bit (8 * 7) ?x AND 0xff"
    by (rule bit_word_eqI) (auto simp: word_and_masks bit_simps dest: bit_imp_le_length)
  have "crc64_word c w = crc64_init ! (7 - 0) ! unat (drop_bit (8 * 0) ?x AND 0xff) XOR
     crc64_init ! (7 - 1) ! unat (drop_bit (8 * 1) ?x AND 0xff) XOR
     crc64_init ! (7 - 2) ! unat (drop_bit (8 * 2) ?x AND 0xff) XOR
     crc64_init ! (7 - 3) ! unat (drop_bit (8 * 3) ?x AND 0xff) XOR
     crc64_init ! (7 - 4) ! unat (drop_bit (8 * 4) ?x AND 0xff) XOR
     crc64_init ! (7 - 5) ! unat (drop_bit (8 * 5) ?x AND 0xff) XOR
     crc64_init ! (7 - 6) ! unat (drop_bit (8 * 6) ?x AND 0xff) XOR
     crc64_init ! (7 - 7) ! unat (drop_bit (8 * 7) ?x AND 0xff)"
    unfolding crc64_word_def Let_def last by simp
  also have "\<dots> = (crc_step POLY64 ^^ 64) ?x"
    by (subst (9) bytes_of_word) (simp only: slice steps_xor)
  finally show ?thesis .
qed

lemma crc64_head_eq: "crc64_head a c bs = (c', rest) \<Longrightarrow> crc_bytes POLY64 c bs = crc_bytes POLY64 c' rest"
  by (induction a c bs rule: crc64_head.induct) (auto simp: crc64_byte_eq split: if_splits)

lemma crc64_words_eq: "crc64_words c bs = (c', rest) \<Longrightarrow> crc_bytes POLY64 c bs = crc_bytes POLY64 c' rest"
proof (induction c bs rule: crc64_words.induct)
  case (1 c bs)
  show ?case
  proof (cases "8 \<le> length bs")
    case True
    have "crc_bytes POLY64 c (take 8 bs @ drop 8 bs) = crc_bytes POLY64 (crc64_word c (le_word (take 8 bs))) (drop 8 bs)"
      using crc_bytes_word[of "take 8 bs" POLY64 c] True by (simp only: crc_bytes_simps(3) crc64_word_eq) (simp add: min_def)
    then show ?thesis using "1.IH"[OF True] "1.prems" True by (subst (asm) crc64_words.simps) simp
  next
    case False
    then show ?thesis using "1.prems" by (subst (asm) crc64_words.simps) simp
  qed
qed

lemma crc64_little_eq: "crc64_little c addr bs = NOT (crc_bytes POLY64 (NOT c) bs)"
proof -
  obtain c1 r1 where h: "crc64_head addr (NOT c) bs = (c1, r1)" by fastforce
  obtain c2 r2 where w: "crc64_words c1 r1 = (c2, r2)" by fastforce
  have "foldl crc64_byte c2 r2 = crc_bytes POLY64 c2 r2"
    by (simp add: crc_bytes_def crc64_byte_eq[abs_def])
  then show ?thesis
    using crc64_head_eq[OF h] crc64_words_eq[OF w] by (simp add: crc64_little_def h w)
qed

text \<open>
  C28: The CRC-64 that is computed eight bytes at a time equals the bitwise division by the
  polynomial, whatever the alignment of the buffer, and can be computed in pieces.
\<close>

theorem crc64_correct:
  "crc64_little c addr bs = NOT (crc_bytes POLY64 (NOT c) bs)
   \<and> crc64_little (crc64_little c addr xs) addr' ys = crc64_little c addr (xs @ ys)"
  by (simp add: crc64_little_eq)

section \<open>The checksum of a file\<close>

text \<open>
  The file is read in pieces of 4096 bytes, and the whole buffer is hashed each time, after a short
  read with the old content behind it.  The flag is false for the checksum 0.
\<close>

abbreviation (input) CRC_BUFFER_SIZE :: nat where "CRC_BUFFER_SIZE \<equiv> 4096"

function crc_file_loop :: "nat \<Rightarrow> u8 list \<Rightarrow> u64 \<Rightarrow> u8 list \<Rightarrow> u64" where
  "crc_file_loop addr buf rscrc64 fs =
     (if fs = [] then rscrc64
      else (let buf = take CRC_BUFFER_SIZE fs @ drop (length (take CRC_BUFFER_SIZE fs)) buf
            in crc_file_loop addr buf (crc64_little rscrc64 addr buf) (drop CRC_BUFFER_SIZE fs)))"
  by pat_completeness auto
termination by (relation "measure (\<lambda>(addr, buf, crc, fs). length fs)") auto

declare crc_file_loop.simps [simp del]

definition crc_file :: "nat \<Rightarrow> u8 list \<Rightarrow> bool \<times> u64" where
  "crc_file addr fs = (let rscrc64 = crc_file_loop addr (replicate CRC_BUFFER_SIZE 0) 0 fs
     in (rscrc64 \<noteq> 0, rscrc64))"

lemma crc_file_loop_whole: "length buf = CRC_BUFFER_SIZE \<Longrightarrow> CRC_BUFFER_SIZE dvd length fs \<Longrightarrow>
    crc_file_loop addr buf c fs = crc64_little c addr fs"
proof (induction addr buf c fs rule: crc_file_loop.induct)
  case (1 addr buf c fs)
  show ?case
  proof (cases "fs = []")
    case True
    then show ?thesis by (subst crc_file_loop.simps) (simp add: crc64_little_eq)
  next
    case False
    then have l: "CRC_BUFFER_SIZE \<le> length fs" using "1.prems"(2) by (auto dest: dvd_imp_le)
    let ?t = "take CRC_BUFFER_SIZE fs"
    have t: "length ?t = CRC_BUFFER_SIZE" using l by simp
    have "crc_file_loop addr buf c fs = crc_file_loop addr ?t (crc64_little c addr ?t) (drop CRC_BUFFER_SIZE fs)"
      using False l "1.prems"(1) by (subst crc_file_loop.simps) (simp add: min_def Let_def)
    also have "\<dots> = crc64_little (crc64_little c addr ?t) addr (drop CRC_BUFFER_SIZE fs)"
    proof -
      have "?t @ drop (length ?t) buf = ?t" using t "1.prems"(1) by simp
      then show ?thesis
        using "1.IH"[OF False refl] "1.prems"(2) l t by (simp add: dvd_minus_self)
    qed
    also have "\<dots> = crc64_little c addr (?t @ drop CRC_BUFFER_SIZE fs)"
      by (simp only: crc64_little_eq crc_bytes_simps bit.double_compl)
    finally show ?thesis by simp
  qed
qed

text \<open>
  For a file that is a multiple of the buffer long, the file checksum is the CRC-64 of the
  content; but a file of at most one buffer is hashed with zeros behind it up to 4096 bytes, so that
  zero bytes cut off its end, or added there, go unnoticed.
\<close>

theorem crc_file_padding:
  "(CRC_BUFFER_SIZE dvd length fs \<longrightarrow> snd (crc_file addr fs) = crc64_little 0 addr fs)
   \<and> (0 < length fs \<and> length fs + k \<le> CRC_BUFFER_SIZE
       \<longrightarrow> crc_file addr (fs @ replicate k 0) = crc_file addr fs)"
proof -
  have short: "crc_file_loop addr (replicate CRC_BUFFER_SIZE 0) 0 f
      = crc64_little 0 addr (f @ replicate (CRC_BUFFER_SIZE - length f) 0)"
    if "0 < length f" "length f \<le> CRC_BUFFER_SIZE" for f
    using that by (subst crc_file_loop.simps, subst crc_file_loop.simps) (simp add: Let_def)
  have "replicate k 0 @ replicate (CRC_BUFFER_SIZE - (length fs + k)) 0 = replicate (CRC_BUFFER_SIZE - length fs) (0::u8)"
    if "length fs + k \<le> CRC_BUFFER_SIZE" using that by (simp flip: replicate_add)
  then show ?thesis
    using crc_file_loop_whole[of "replicate CRC_BUFFER_SIZE 0" fs addr 0] short[of fs] short[of "fs @ replicate k 0"]
    by (simp add: crc_file_def Let_def)
qed

theorem crc_file_padding_witness:
  "crc_file 0 ([1, 2, 3] @ replicate 4 0) = crc_file 0 [1, 2, 3]
   \<and> snd (crc_file 0 (replicate 4096 7)) = crc64_little 0 0 (replicate 4096 7)"
  using crc_file_padding[of "[1, 2, 3]" 0 4] crc_file_padding[of "replicate 4096 7" 0 0] by simp

section \<open>Combining checksums\<close>

fun gf2_matrix_times :: "u64 list \<Rightarrow> u64 \<Rightarrow> u64" where
  "gf2_matrix_times (m # mat) vec =
     (if vec = 0 then 0 else (if bit vec 0 then m else 0) XOR gf2_matrix_times mat (drop_bit 1 vec))"
| "gf2_matrix_times [] vec = 0"

definition gf2_matrix_square :: "u64 list \<Rightarrow> u64 list" where
  "gf2_matrix_square mat = map (\<lambda>n. gf2_matrix_times mat (mat ! n)) [0..<64]"

text \<open>Row 0 of the operator for one zero bit is the polynomial, row \<open>n\<close> the bit \<open>n - 1\<close>.\<close>

definition one_zero_bit :: "u64 list" where
  "one_zero_bit = POLY64 # map (\<lambda>n. push_bit n 1) [0..<63]"

lemma unat_half: "unat (drop_bit 1 (w :: u64)) = unat w div 2"
  by (simp add: drop_bit_eq_div unat_div)

function combine_loop :: "u64 list \<Rightarrow> u64 \<Rightarrow> u64 \<Rightarrow> u64" where
  "combine_loop odds crc1 len2 =
     (let evens = gf2_matrix_square odds;
          crc1 = (if bit len2 0 then gf2_matrix_times evens crc1 else crc1);
          len2 = drop_bit 1 len2
      in if len2 = 0 then crc1
         else (let odds = gf2_matrix_square evens;
                   crc1 = (if bit len2 0 then gf2_matrix_times odds crc1 else crc1);
                   len2 = drop_bit 1 len2
               in if len2 = 0 then crc1 else combine_loop odds crc1 len2))"
  by pat_completeness auto
termination
proof (relation "measure (\<lambda>(odds, crc1, len2). unat len2)")
  fix odds evens crc1 crc1' len2' odds' crc1'' len2'' and len2 :: u64
  assume "len2' = drop_bit 1 len2" "len2'' = drop_bit 1 len2'" "len2'' \<noteq> 0"
  moreover have "unat len2'' \<noteq> 0" using \<open>len2'' \<noteq> 0\<close> by (simp add: unat_gt_0)
  ultimately have "unat len2'' = unat len2 div 2 div 2" "unat len2'' \<noteq> 0" by (simp_all only: unat_half not_False_eq_True)
  then show "((odds', crc1'', len2''), odds, crc1, len2) \<in> measure (\<lambda>(odds, crc1, len2). unat len2)"
    by simp
qed simp

declare combine_loop.simps [simp del]

definition crc64_combine :: "u64 \<Rightarrow> u64 \<Rightarrow> u64 \<Rightarrow> u64" where
  "crc64_combine crc1 crc2 len2 =
     (if len2 = 0 then crc1
      else combine_loop (gf2_matrix_square (gf2_matrix_square one_zero_bit)) crc1 len2 XOR crc2)"

text \<open>A matrix stands for a linear operator when its rows are the images of the unit vectors.\<close>

definition stands_for :: "u64 list \<Rightarrow> (u64 \<Rightarrow> u64) \<Rightarrow> bool" where
  "stands_for M f \<longleftrightarrow> length M = 64 \<and> (\<forall>n<64. M ! n = f (push_bit n 1))
     \<and> f 0 = 0 \<and> (\<forall>x y. f (x XOR y) = f x XOR f y)"

lemma times_rows:
  assumes "f 0 = 0" "\<And>x y. f (x XOR y) = f x XOR f y" "length M = 64 - k" "k \<le> 64"
    "\<And>n. n < 64 - k \<Longrightarrow> M ! n = f (push_bit (k + n) 1)"
  shows "gf2_matrix_times M (drop_bit k v) = f (push_bit k (drop_bit k v))"
  using assms(3-5)
proof (induction M arbitrary: k)
  case Nil
  have "drop_bit 64 v = 0" by (rule bit_word_eqI) (auto simp: bit_simps dest: bit_imp_le_length)
  then show ?case using Nil assms(1) by simp
next
  case (Cons m M)
  show ?case
  proof (cases "drop_bit k v = 0")
    case False
    have m: "m = f (push_bit k 1)" using Cons.prems(1,2) Cons.prems(3)[of 0] by simp
    have rest: "gf2_matrix_times M (drop_bit (Suc k) v) = f (push_bit (Suc k) (drop_bit (Suc k) v))"
      using Cons.prems Cons.prems(3)[of "Suc n" for n] by (intro Cons.IH) auto
    have "push_bit k (drop_bit k v) = (if bit v k then push_bit k 1 else 0) XOR push_bit (Suc k) (drop_bit (Suc k) v)"
    proof (rule bit_word_eqI)
      fix n
      show "bit (push_bit k (drop_bit k v)) n
        = bit ((if bit v k then push_bit k 1 else 0) XOR push_bit (Suc k) (drop_bit (Suc k) v)) n"
        if "n < LENGTH(64)"
        using that by (cases n k rule: linorder_cases) (auto simp: bit_simps simp del: push_bit_Suc)
    qed
    then show ?thesis
      using False m rest assms(1,2) by (simp add: drop_bit_drop_bit bit_drop_bit_eq)
  qed (use assms(1) in simp)
qed

lemma times_eq: "stands_for M f \<Longrightarrow> gf2_matrix_times M v = f v"
  using times_rows[of f M 0 v] by (simp add: stands_for_def)

lemma square_eq: "stands_for M f \<Longrightarrow> stands_for (gf2_matrix_square M) (f \<circ> f)"
  using times_eq[of M f] by (auto simp: stands_for_def gf2_matrix_square_def)

lemma one_zero_bit_eq: "stands_for one_zero_bit (crc_step POLY64)"
proof -
  have "one_zero_bit ! n = crc_step POLY64 (push_bit n 1)" if "n < 64" for n
  proof (cases n)
    case 0
    then show ?thesis by (simp add: one_zero_bit_def crc_step_def)
  next
    case (Suc m)
    have "drop_bit 1 (push_bit (Suc m) (1 :: u64)) = push_bit m 1"
      using that Suc by (intro bit_word_eqI) (auto simp: bit_simps)
    then show ?thesis using that Suc by (simp add: one_zero_bit_def crc_step_def bit_simps)
  qed
  then show ?thesis by (simp add: stands_for_def crc_step_xor) (simp add: one_zero_bit_def)
qed

lemma square_steps:
  "stands_for M (crc_step p ^^ m) \<Longrightarrow> stands_for (gf2_matrix_square M) (crc_step p ^^ (2 * m))"
  using square_eq by (metis funpow_add mult_2)

lemma combine_loop_eq:
  "stands_for odds (crc_step POLY64 ^^ m) \<Longrightarrow> len2 \<noteq> 0 \<Longrightarrow>
    combine_loop odds c len2 = (crc_step POLY64 ^^ (2 * m * unat len2)) c"
proof (induction odds c len2 arbitrary: m rule: combine_loop.induct)
  case (1 odds c len2)
  define evens where "evens = gf2_matrix_square odds"
  define odds' where "odds' = gf2_matrix_square evens"
  have e: "stands_for evens (crc_step POLY64 ^^ (2 * m))" "stands_for odds' (crc_step POLY64 ^^ (4 * m))"
    using square_steps[OF "1.prems"(1)] square_steps[of evens "2 * m" POLY64] by (simp_all add: evens_def odds'_def)
  let ?S = "\<lambda>n. crc_step POLY64 ^^ n"
  define l1 where "l1 = drop_bit 1 len2"
  define l2 where "l2 = drop_bit 1 l1"
  have n: "unat l1 = unat len2 div 2" "unat l2 = unat len2 div 2 div 2"
    by (simp_all only: l1_def l2_def unat_half)
  have b: "bit x 0 \<longleftrightarrow> unat x mod 2 = 1" for x :: u64
  proof -
    have "bit x 0 = bit (unat x) 0" by (simp add: bit_unsigned_iff)
    then show ?thesis by (simp only: bit_0 odd_iff_mod_2_eq_one)
  qed
  define c1 where "c1 = (if bit len2 0 then gf2_matrix_times evens c else c)"
  define c2 where "c2 = (if bit l1 0 then gf2_matrix_times odds' c1 else c1)"
  have c1: "c1 = ?S (2 * m * (unat len2 mod 2)) c"
    using times_eq[OF e(1)] not_mod_2_eq_1_eq_0[of "unat len2"] by (auto simp: c1_def b)
  have c2: "c2 = ?S (4 * m * (unat l1 mod 2)) c1"
    using times_eq[OF e(2)] not_mod_2_eq_1_eq_0[of "unat l1"] by (auto simp: c2_def b)
  have loop: "combine_loop odds c len2 = (if l1 = 0 then c1 else if l2 = 0 then c2 else combine_loop odds' c2 l2)"
    by (subst combine_loop.simps) (simp only: Let_def c1_def c2_def l1_def l2_def evens_def odds'_def)
  have total: "2 * m * unat len2 = 8 * m * unat l2 + 4 * m * (unat l1 mod 2) + 2 * m * (unat len2 mod 2)"
  proof -
    have "unat len2 = 4 * unat l2 + 2 * (unat l1 mod 2) + unat len2 mod 2" using n by presburger
    then have "2 * m * unat len2 = 2 * m * (4 * unat l2 + 2 * (unat l1 mod 2) + unat len2 mod 2)" by (rule arg_cong)
    then show ?thesis by (simp add: distrib_left)
  qed
  consider "l1 = 0" | "l1 \<noteq> 0" "l2 = 0" | "l1 \<noteq> 0" "l2 \<noteq> 0" by blast
  then show ?case
  proof cases
    case 1
    then have "unat l1 = 0" "unat l2 = 0" using n by simp_all
    then show ?thesis unfolding loop total using 1 c1 by simp
  next
    case 2
    then have "unat l2 = 0" by simp
    then show ?thesis unfolding loop total using 2 c1 c2 by (simp add: funpow_add)
  next
    case 3
    have "combine_loop odds' c2 l2 = ?S (2 * (4 * m) * unat l2) c2"
      by (rule "1.IH"[OF evens_def c1_def l1_def 3(1) odds'_def c2_def l2_def 3(2) e(2) 3(2)])
    then show ?thesis unfolding loop total using 3 c1 c2 by (simp add: funpow_add)
  qed
qed

lemma crc_bytes_affine: "crc_bytes p (x XOR y) bs = (crc_step p ^^ (8 * length bs)) x XOR crc_bytes p y bs"
proof (induction bs arbitrary: x y)
  case (Cons b bs)
  have n: "8 * length (b # bs) = 8 * length bs + 8" by simp
  have "crc_bytes p (x XOR y) (b # bs)
      = crc_bytes p ((crc_step p ^^ 8) x XOR (crc_step p ^^ 8) (y XOR ucast b)) bs"
    by (simp add: steps_xor xor.assoc)
  then show ?case unfolding Cons.IH n by (simp only: funpow_add comp_apply crc_bytes_simps)
qed simp

text \<open>
  C29: Combining the checksums of two adjacent blocks yields the checksum of the whole: the matrix
  powers advance the first checksum over the length of the second block.
\<close>

theorem crc64_combine_correct:
  assumes "length ys < 2 ^ 64"
  shows "crc64_combine (crc64_little c addr xs) (crc64_little 0 addr' ys) (of_nat (length ys))
    = crc64_little c addr'' (xs @ ys)"
proof (cases "ys = []")
  case False
  let ?S = "crc_step POLY64 ^^ (8 * length ys)" and ?R = "crc_bytes POLY64"
  define c1 where "c1 = crc64_little c addr xs"
  have n: "unat (of_nat (length ys) :: u64) = length ys" using assms by (simp add: unat_of_nat take_bit_nat_eq_self)
  have nz: "(of_nat (length ys) :: u64) \<noteq> 0" using n False by (metis length_0_conv unsigned_0)
  have "stands_for (gf2_matrix_square (gf2_matrix_square one_zero_bit)) (crc_step POLY64 ^^ 4)"
    using square_steps[OF square_steps[of one_zero_bit 1 POLY64]] one_zero_bit_eq by simp
  then have "combine_loop (gf2_matrix_square (gf2_matrix_square one_zero_bit)) c1 (of_nat (length ys)) = ?S c1"
    using combine_loop_eq[OF _ nz] n by simp
  then have "crc64_combine c1 (crc64_little 0 addr' ys) (of_nat (length ys)) = ?S c1 XOR NOT (?R (- 1) ys)"
    using nz crc64_little_eq[of 0 addr' ys] by (simp add: crc64_combine_def)
  also have "\<dots> = NOT (?R (c1 XOR (- 1)) ys)"
    unfolding crc_bytes_affine by (rule bit_word_eqI) (auto simp: bit_not_iff bit_xor_iff)
  also have "c1 XOR (- 1) = NOT c1" by simp
  also have "NOT (?R (NOT c1) ys) = crc64_little c1 addr'' ys" by (simp add: crc64_little_eq)
  also have "\<dots> = crc64_little c addr'' (xs @ ys)" unfolding c1_def by (simp add: crc64_little_eq)
  finally show ?thesis by (simp only: c1_def)
qed (simp add: crc64_combine_def crc64_little_eq)

theorem crc64_combine_correct_witness:
  "crc64_combine (crc64_little 7 0 [1, 2, 3]) (crc64_little 0 5 [9, 8, 7, 6, 5, 4, 3, 2, 1, 0]) 10
    = crc64_little 7 0 ([1, 2, 3] @ [9, 8, 7, 6, 5, 4, 3, 2, 1, 0])"
  using crc64_combine_correct[of "[9, 8, 7, 6, 5, 4, 3, 2, 1, 0]" 7 0 "[1, 2, 3]" 5 0] by simp

end
