(* ===== verification/Jenhash.thy ===== *)
theory Jenhash imports
  Prelude
begin

text \<open>
  The string hashes: src/jenhash.c and src/djb2a_hash.c.  \<open>jen_hash\<close> takes twelve bytes at a time and
  falls through a switch for the rest; the theory shows that the switch is the mixing of one more
  block, padded with zeros, whose lowest byte of \<open>c\<close> is left to the length.
\<close>

section \<open>djb2a\<close>

text \<open>The characters before the terminator, on 64-bit longs.\<close>

definition djb2a_hash :: "u8 list \<Rightarrow> u64" where
  "djb2a_hash str = foldl (\<lambda>hash c. (hash * 33) XOR ucast c) 5381 str"

section \<open>Bob Jenkins' hash\<close>

definition jen_mix :: "u32 \<times> u32 \<times> u32 \<Rightarrow> u32 \<times> u32 \<times> u32" where
  "jen_mix = (\<lambda>(a, b, c).
     let a = a - b; a = a - c; a = a XOR drop_bit 13 c;
         b = b - c; b = b - a; b = b XOR push_bit 8 a;
         c = c - a; c = c - b; c = c XOR drop_bit 13 b;
         a = a - b; a = a - c; a = a XOR drop_bit 12 c;
         b = b - c; b = b - a; b = b XOR push_bit 16 a;
         c = c - a; c = c - b; c = c XOR drop_bit 5 b;
         a = a - b; a = a - c; a = a XOR drop_bit 3 c;
         b = b - c; b = b - a; b = b XOR push_bit 10 a;
         c = c - a; c = c - b; c = c XOR drop_bit 15 b
     in (a, b, c))"

abbreviation (input) byte_at :: "u8 list \<Rightarrow> nat \<Rightarrow> nat \<Rightarrow> u32" where
  "byte_at k i s \<equiv> push_bit s (ucast (k ! i))"

text \<open>\<open>len\<close> is an \<open>unsigned int\<close>, the length a \<open>size_t\<close>.\<close>

function jen_blocks :: "u8 list \<Rightarrow> u32 \<Rightarrow> u32 \<times> u32 \<times> u32 \<Rightarrow> u8 list \<times> u32 \<times> u32 \<times> u32 \<times> u32" where
  "jen_blocks k len (a, b, c) =
     (if len \<ge> 12 then
        jen_blocks (drop 12 k) (len - 12)
          (jen_mix (a + (byte_at k 0 0 + byte_at k 1 8 + byte_at k 2 16 + byte_at k 3 24),
                    b + (byte_at k 4 0 + byte_at k 5 8 + byte_at k 6 16 + byte_at k 7 24),
                    c + (byte_at k 8 0 + byte_at k 9 8 + byte_at k 10 16 + byte_at k 11 24)))
      else (k, len, a, b, c))"
  by pat_completeness auto
termination
proof (relation "measure (\<lambda>(k, len, s). unat len)")
  fix k a b c and len :: u32 assume "12 \<le> len"
  then have "unat (len - 12) = unat len - 12" "12 \<le> unat len"
    by (simp_all add: unat_sub word_le_nat_alt)
  then show "((drop 12 k, len - 12, s), k, len, a, b, c) \<in> measure (\<lambda>(k, len, s). unat len)" for s :: "u32 \<times> u32 \<times> u32"
    by simp
qed simp

declare jen_blocks.simps [simp del]

text \<open>The switch falls through: a case adds its byte and those of the cases below it.\<close>

definition jen_tail :: "u8 list \<Rightarrow> u32 \<Rightarrow> u32 \<times> u32 \<times> u32 \<Rightarrow> u32 \<times> u32 \<times> u32" where
  "jen_tail k len = (\<lambda>(a, b, c).
     let from = (\<lambda>n i s. if n \<le> unat len \<and> unat len \<le> 11 then byte_at k i s else 0);
         c = c + from 11 10 24; c = c + from 10 9 16; c = c + from 9 8 8;
         b = b + from 8 7 24; b = b + from 7 6 16; b = b + from 6 5 8; b = b + from 5 4 0;
         a = a + from 4 3 24; a = a + from 3 2 16; a = a + from 2 1 8; a = a + from 1 0 0
     in (a, b, c))"

definition jen_hash :: "u8 list \<Rightarrow> u64 \<Rightarrow> u32" where
  "jen_hash k n =
     (let (k, len, a, b, c) = jen_blocks k (ucast n) (0x9e3779b9, 0x9e3779b9, 98634924);
          c = c + ucast n;
          (a, b, c) = jen_mix (jen_tail k len (a, b, c))
      in c)"

section \<open>A blockwise reference\<close>

text \<open>The words of one block of twelve bytes, least significant byte first.\<close>

definition load :: "u8 list \<Rightarrow> nat \<Rightarrow> u32" where
  "load k i = ucast (k ! i) + push_bit 8 (ucast (k ! (i + 1))) + push_bit 16 (ucast (k ! (i + 2)))
     + push_bit 24 (ucast (k ! (i + 3)))"

fun jen_add :: "u32 \<times> u32 \<times> u32 \<Rightarrow> u32 \<times> u32 \<times> u32 \<Rightarrow> u32 \<times> u32 \<times> u32" where
  "jen_add (x, y, z) (a, b, c) = (a + x, b + y, c + z)"

function jen_spec :: "u32 \<Rightarrow> u8 list \<Rightarrow> u32 \<times> u32 \<times> u32 \<Rightarrow> u32" where
  "jen_spec n k s =
     (if length k \<ge> 12 then jen_spec n (drop 12 k) (jen_mix (jen_add (load k 0, load k 4, load k 8) s))
      else (let k = take 8 (k @ replicate 12 0) @ [0] @ drop 8 (k @ replicate 12 0)
            in snd (snd (jen_mix (jen_add (load k 0, load k 4, load k 8 + n) s)))))"
  by pat_completeness auto
termination by (relation "measure (\<lambda>(n, k, s). length k)") auto

declare jen_spec.simps [simp del]

definition padded :: "u8 list \<Rightarrow> u8 list" where
  "padded k = take 8 (k @ replicate 12 0) @ [0] @ drop 8 (k @ replicate 12 0)"

lemma padded_nth:
  assumes "length k \<le> 11" "j < 12"
  shows "padded k ! j = (if j = 8 then 0 else if j < 8 then (if j < length k then k ! j else 0)
    else if j - 1 < length k then k ! (j - 1) else 0)"
  using assms by (auto simp: padded_def nth_append min_def nth_Cons')

lemma jen_tail_eq:
  assumes "length k \<le> 11" "unat len = length k"
  shows "jen_tail k len (a, b, c) = jen_add (load (padded k) 0, load (padded k) 4, load (padded k) 8) (a, b, c)"
  unfolding jen_tail_def jen_add.simps load_def Let_def assms(2)
  using assms(1) by (simp add: padded_nth Let_def add_ac numeral_2_eq_2 Suc_le_eq)

lemma jen_blocks_eq:
  "unat len = length k \<Longrightarrow> jen_blocks k len s = (k', len', s') \<Longrightarrow>
    unat len' = length k' \<and> length k' \<le> 11 \<and> jen_spec n k s = jen_spec n k' s'"
proof (induction k len s rule: jen_blocks.induct)
  case (1 k len a b c)
  have "12 \<le> len \<longleftrightarrow> 12 \<le> length k" using "1.prems"(1) by (simp add: word_le_nat_alt)
  show ?case
  proof (cases "12 \<le> len")
    case True
    then have l: "12 \<le> length k" "unat (len - 12) = length (drop 12 k)"
      using \<open>12 \<le> len \<longleftrightarrow> _\<close> "1.prems"(1) by (simp_all add: unat_sub word_le_nat_alt)
    have "jen_blocks (drop 12 k) (len - 12) (jen_mix (jen_add (load k 0, load k 4, load k 8) (a, b, c))) = (k', len', s')"
      using "1.prems"(2) True by (subst (asm) jen_blocks.simps) (simp add: load_def add_ac numeral_2_eq_2)
    moreover have "jen_mix (jen_add (load k 0, load k 4, load k 8) (a, b, c))
        = jen_mix (a + (byte_at k 0 0 + byte_at k 1 8 + byte_at k 2 16 + byte_at k 3 24),
                    b + (byte_at k 4 0 + byte_at k 5 8 + byte_at k 6 16 + byte_at k 7 24),
                    c + (byte_at k 8 0 + byte_at k 9 8 + byte_at k 10 16 + byte_at k 11 24))"
      by (simp add: load_def numeral_2_eq_2)
    ultimately have "unat len' = length k' \<and> length k' \<le> 11
        \<and> jen_spec n (drop 12 k) (jen_mix (jen_add (load k 0, load k 4, load k 8) (a, b, c))) = jen_spec n k' s'"
      using "1.IH"[OF True l(2)] by simp
    then show ?thesis using l(1) by (subst jen_spec.simps) simp
  next
    case False
    then show ?thesis using "1.prems" \<open>12 \<le> len \<longleftrightarrow> _\<close> by (subst (asm) jen_blocks.simps) auto
  qed
qed

text \<open>
  The hash of a string is that of the blockwise reference: every twelve bytes are added as three
  little-endian words and mixed, and the bytes left over count as one more block with zeros behind
  them and the length in the lowest byte of the third word.
\<close>

theorem jen_hash_correct:
  assumes "length k < 2 ^ 32"
  shows "jen_hash k (of_nat (length k)) = jen_spec (of_nat (length k)) k (0x9e3779b9, 0x9e3779b9, 98634924)"
proof -
  have n: "(ucast (of_nat (length k) :: u64) :: u32) = of_nat (length k)"
    by (rule bit_word_eqI) (simp add: bit_simps)
  have u: "unat (of_nat (length k) :: u32) = length k"
    using assms by (simp add: unat_of_nat take_bit_nat_eq_self)
  obtain k' len' a b c where b: "jen_blocks k (of_nat (length k)) (0x9e3779b9, 0x9e3779b9, 98634924) = (k', len', a, b, c)"
    by (metis prod_cases5)
  note e = jen_blocks_eq[OF u b, of "of_nat (length k)"]
  have t: "jen_tail k' len' (a, b, c + of_nat (length k))
      = jen_add (load (padded k') 0, load (padded k') 4, load (padded k') 8 + of_nat (length k)) (a, b, c)"
    using e jen_tail_eq[of k' len' a b "c + of_nat (length k)"] by (simp add: add_ac)
  have "jen_hash k (of_nat (length k)) = snd (snd (jen_mix (jen_tail k' len' (a, b, c + of_nat (length k)))))"
    by (simp add: jen_hash_def n b Let_def case_prod_unfold)
  also have "\<dots> = jen_spec (of_nat (length k)) k' (a, b, c)"
    using e unfolding t by (subst jen_spec.simps) (simp add: padded_def Let_def)
  finally show ?thesis using e by simp
qed

theorem jen_hash_correct_witness:
  "jen_hash (map of_char ''quantica'') 8 = jen_spec 8 (map of_char ''quantica'') (0x9e3779b9, 0x9e3779b9, 98634924)"
  using jen_hash_correct[of "map of_char ''quantica''"] by simp

end
