(* ===== verification/Base64.thy ===== *)
theory Base64 imports
  Prelude "HOL-Library.Signed_Division"
begin

text \<open>
  Base64: src/base64.c, the standard coding with padding and the URL-safe variant that the web
  tokens use.  A string is the list of its bytes; C's signed \<open>char\<close> makes no difference here, since
  every shifted value is masked.  Lengths are the \<open>int\<close> of the code, of 32 bits: \<open>None\<close> is a
  signed overflow or a read behind the string.  The theory shows that decoding inverts encoding in both variants
  and that the output fits into the buffers whose sizes the code computes.
\<close>

section \<open>Machine integers\<close>

text \<open>A size stored in an \<open>int\<close> wraps around; the result of signed arithmetic has to be in range.\<close>

definition to_int :: "nat \<Rightarrow> int" where
  "to_int n = (int n + 2 ^ 31) mod 2 ^ 32 - 2 ^ 31"

definition c_int :: "int \<Rightarrow> int option" where
  "c_int v = (if - (2 ^ 31) \<le> v \<and> v < 2 ^ 31 then Some v else None)"

lemma to_int_small [simp]: "n < 2 ^ 31 \<Longrightarrow> to_int n = int n"
  by (simp add: to_int_def)

lemma c_int_small: "0 \<le> v \<Longrightarrow> v < 2 ^ 31 \<Longrightarrow> c_int v = Some v"
  by (simp add: c_int_def)

lemma sdiv_pos: "0 \<le> a \<Longrightarrow> 0 < b \<Longrightarrow> a sdiv b = a div (b :: int)"
  by (cases "a = 0") (simp_all add: signed_divide_int_def)

section \<open>The alphabet\<close>

definition basis_64 :: "u8 list" where
  "basis_64 = map of_char ''ABCDEFGHIJKLMNOPQRSTUVWXYZabcdefghijklmnopqrstuvwxyz0123456789+/''"

definition pr2six :: "u8 list" where
  "pr2six = [
     64, 64, 64, 64, 64, 64, 64, 64, 64, 64, 64, 64, 64, 64, 64, 64,
     64, 64, 64, 64, 64, 64, 64, 64, 64, 64, 64, 64, 64, 64, 64, 64,
     64, 64, 64, 64, 64, 64, 64, 64, 64, 64, 64, 62, 64, 64, 64, 63,
     52, 53, 54, 55, 56, 57, 58, 59, 60, 61, 64, 64, 64, 64, 64, 64,
     64, 0, 1, 2, 3, 4, 5, 6, 7, 8, 9, 10, 11, 12, 13, 14,
     15, 16, 17, 18, 19, 20, 21, 22, 23, 24, 25, 64, 64, 64, 64, 64,
     64, 26, 27, 28, 29, 30, 31, 32, 33, 34, 35, 36, 37, 38, 39, 40,
     41, 42, 43, 44, 45, 46, 47, 48, 49, 50, 51, 64, 64, 64, 64, 64,
     64, 64, 64, 64, 64, 64, 64, 64, 64, 64, 64, 64, 64, 64, 64, 64,
     64, 64, 64, 64, 64, 64, 64, 64, 64, 64, 64, 64, 64, 64, 64, 64,
     64, 64, 64, 64, 64, 64, 64, 64, 64, 64, 64, 64, 64, 64, 64, 64,
     64, 64, 64, 64, 64, 64, 64, 64, 64, 64, 64, 64, 64, 64, 64, 64,
     64, 64, 64, 64, 64, 64, 64, 64, 64, 64, 64, 64, 64, 64, 64, 64,
     64, 64, 64, 64, 64, 64, 64, 64, 64, 64, 64, 64, 64, 64, 64, 64,
     64, 64, 64, 64, 64, 64, 64, 64, 64, 64, 64, 64, 64, 64, 64, 64,
     64, 64, 64, 64, 64, 64, 64, 64, 64, 64, 64, 64, 64, 64, 64, 64]"

abbreviation (input) six :: "u8 \<Rightarrow> u8" where
  "six c \<equiv> pr2six ! unat c"

abbreviation (input) digit :: "u8 \<Rightarrow> u8" where
  "digit v \<equiv> basis_64 ! unat v"

text \<open>The bytes before the first one outside the alphabet; the terminator is outside.\<close>

definition nprbytes :: "u8 list \<Rightarrow> u8 list" where
  "nprbytes bufcoded = takeWhile (\<lambda>c. six c \<le> 63) bufcoded"

section \<open>Coding\<close>

fun encode_loop :: "u8 list \<Rightarrow> u8 list" where
  "encode_loop (a # b # c # s) =
     [digit (drop_bit 2 a AND 0x3F),
      digit (push_bit 4 (a AND 0x3) OR drop_bit 4 (b AND 0xF0)),
      digit (push_bit 2 (b AND 0xF) OR drop_bit 6 (c AND 0xC0)),
      digit (c AND 0x3F)] @ encode_loop s"
| "encode_loop [a, b] =
     [digit (drop_bit 2 a AND 0x3F),
      digit (push_bit 4 (a AND 0x3) OR drop_bit 4 (b AND 0xF0)),
      digit (push_bit 2 (b AND 0xF)), of_char CHR ''='']"
| "encode_loop [a] =
     [digit (drop_bit 2 a AND 0x3F), digit (push_bit 4 (a AND 0x3)), of_char CHR ''='', of_char CHR ''='']"
| "encode_loop [] = []"

text \<open>The result with its terminator, and the number of bytes written.\<close>

definition base64_encode :: "u8 list \<Rightarrow> int \<Rightarrow> (u8 list \<times> int) option" where
  "base64_encode s len = do {
     _ \<leftarrow> c_int (len - 2);
     zassert (nat len \<le> length s);
     let encoded = encode_loop (take (nat len) s) @ [0];
     Some (encoded, to_int (length encoded)) }"

definition base64_encode_len :: "int \<Rightarrow> int option" where
  "base64_encode_len len = do {
     n \<leftarrow> c_int (len + 2);
     n \<leftarrow> c_int (n sdiv 3 * 4);
     c_int (n + 1) }"

fun decode_loop :: "u8 list \<Rightarrow> u8 list" where
  "decode_loop (a # b # c # d # s) =
     [push_bit 2 (six a) OR drop_bit 4 (six b),
      push_bit 4 (six b) OR drop_bit 2 (six c),
      push_bit 6 (six c) OR six d] @ decode_loop s"
| "decode_loop [a, b, c] =
     [push_bit 2 (six a) OR drop_bit 4 (six b), push_bit 4 (six b) OR drop_bit 2 (six c)]"
| "decode_loop [a, b] = [push_bit 2 (six a) OR drop_bit 4 (six b)]"
| "decode_loop _ = []"

definition base64_decode_len :: "u8 list \<Rightarrow> int option" where
  "base64_decode_len bufcoded = do {
     n \<leftarrow> c_int (to_int (length (nprbytes bufcoded)) + 3);
     Some (n sdiv 4 * 3 + 1) }"

text \<open>What remains of \<open>nprbytes\<close> after the loop \<open>while (nprbytes > 4)\<close>.\<close>

definition rest :: "int \<Rightarrow> int" where
  "rest n = (if n \<le> 4 then n else (n - 1) mod 4 + 1)"

definition base64_decode :: "u8 list \<Rightarrow> (u8 list \<times> int) option" where
  "base64_decode bufcoded = do {
     let nprbytes = nprbytes bufcoded;
     let n = to_int (length nprbytes);
     m \<leftarrow> c_int (n + 3);
     left \<leftarrow> c_int (4 - rest n);
     Some (decode_loop (take (nat n) nprbytes) @ [0], m sdiv 4 * 3 - left mod 4) }"

section \<open>Round trip\<close>

lemma six_basis_all: "list_all (\<lambda>i. six (basis_64 ! i) = of_nat i) [0..<64]"
  by code_simp

lemma six_digit:
  assumes "v < 64" shows "six (digit v) = v"
proof -
  have "unat v < 64" using assms by (simp add: word_less_nat_alt)
  then have "six (basis_64 ! unat v) = of_nat (unat v)"
    using six_basis_all by (auto simp: list_all_iff)
  then show ?thesis by simp
qed

lemma six_bits: "(\<And>n. 6 \<le> n \<Longrightarrow> \<not> bit w n) \<Longrightarrow> w < (64 :: u8)"
proof -
  assume b: "\<And>n. 6 \<le> n \<Longrightarrow> \<not> bit w n"
  have "take_bit 6 w = w" using b by (intro bit_word_eqI) (auto simp: bit_simps intro: not_le_imp_less)
  then have "unat w < 2 ^ 6" using unsigned_take_bit_eq[of 6 w] take_bit_nat_less_exp[of 6 "unat w"] by metis
  then show "w < 64" by (simp add: word_less_nat_alt)
qed

lemma masks:
  "x AND 0x3F = take_bit 6 x" "x AND 0xF = take_bit 4 x" "x AND 0x3 = take_bit 2 x"
  "drop_bit 4 (x AND 0xF0) = drop_bit 4 x" "drop_bit 6 (x AND 0xC0) = drop_bit 6 (x :: u8)"
proof -
  have m: "(0x3F :: u8) = mask 6" "(0xF :: u8) = mask 4" "(0x3 :: u8) = mask 2"
    "(0xF0 :: u8) = push_bit 4 (mask 4)" "(0xC0 :: u8) = push_bit 6 (mask 2)"
    by (simp_all add: mask_eq_exp_minus_1)
  show "x AND 0x3F = take_bit 6 x" "x AND 0xF = take_bit 4 x" "x AND 0x3 = take_bit 2 x"
    unfolding m by (simp_all only: take_bit_eq_mask)
  show "drop_bit 4 (x AND 0xF0) = drop_bit 4 x" "drop_bit 6 (x AND 0xC0) = drop_bit 6 x"
    unfolding m by (rule bit_word_eqI, force simp: bit_simps dest: bit_imp_le_length)+
qed

lemma digits_less:
  "(drop_bit 2 a AND 0x3F) < (64 :: u8)"
  "(push_bit 4 (a AND 0x3) OR drop_bit 4 (b AND 0xF0)) < (64 :: u8)"
  "(push_bit 2 (b AND 0xF) OR drop_bit 6 (c AND 0xC0)) < (64 :: u8)"
  "(c AND 0x3F) < (64 :: u8)" "push_bit 2 (b AND 0xF) < (64 :: u8)" "push_bit 4 (a AND 0x3) < (64 :: u8)"
  unfolding masks by (rule six_bits, force simp: bit_simps dest: bit_imp_le_length)+

lemma byte_eqI:
  "(\<And>n. n \<in> {0, 1, 2, 3, 4, 5, 6, 7} \<Longrightarrow> bit v n = bit w n) \<Longrightarrow> v = (w :: u8)"
proof (rule bit_word_eqI)
  assume b: "\<And>n. n \<in> {0, 1, 2, 3, 4, 5, 6, 7} \<Longrightarrow> bit v n = bit w n"
  fix n assume "n < LENGTH(8)"
  then have "n \<in> {0, 1, 2, 3, 4, 5, 6, 7}" by auto
  then show "bit v n = bit w n" by (rule b)
qed

lemma byte_high: "8 \<le> n \<Longrightarrow> \<not> bit (w :: u8) n"
  by (auto dest: bit_imp_le_length)

lemma rejoin:
  "push_bit 2 (drop_bit 2 a AND 0x3F) OR drop_bit 4 (push_bit 4 (a AND 0x3) OR drop_bit 4 (b AND 0xF0)) = (a :: u8)"
  "push_bit 2 (drop_bit 2 a AND 0x3F) OR drop_bit 4 (push_bit 4 (a AND 0x3)) = a"
  "push_bit 4 (push_bit 4 (a AND 0x3) OR drop_bit 4 (b AND 0xF0)) OR drop_bit 2 (push_bit 2 (b AND 0xF) OR drop_bit 6 (c AND 0xC0)) = (b :: u8)"
  "push_bit 4 (push_bit 4 (a AND 0x3) OR drop_bit 4 (b AND 0xF0)) OR drop_bit 2 (push_bit 2 (b AND 0xF)) = b"
  "push_bit 6 (push_bit 2 (b AND 0xF) OR drop_bit 6 (c AND 0xC0)) OR (c AND 0x3F) = (c :: u8)"
  unfolding masks
  by (rule byte_eqI, elim insertE emptyE; simp only: bit_or_iff bit_push_bit_iff bit_drop_bit_eq
      bit_take_bit_iff comp_apply; simp add: byte_high)+

section \<open>What the coder writes\<close>

lemma six_alphabet: "v < 64 \<Longrightarrow> six (digit v) \<le> 63"
  by (simp add: six_digit word_le_nat_alt word_less_nat_alt)

text \<open>The values of the digits of an encoding.\<close>

fun sextets :: "u8 list \<Rightarrow> u8 list" where
  "sextets (a # b # c # s) =
     [drop_bit 2 a AND 0x3F, push_bit 4 (a AND 0x3) OR drop_bit 4 (b AND 0xF0),
      push_bit 2 (b AND 0xF) OR drop_bit 6 (c AND 0xC0), c AND 0x3F] @ sextets s"
| "sextets [a, b] =
     [drop_bit 2 a AND 0x3F, push_bit 4 (a AND 0x3) OR drop_bit 4 (b AND 0xF0), push_bit 2 (b AND 0xF)]"
| "sextets [a] = [drop_bit 2 a AND 0x3F, push_bit 4 (a AND 0x3)]"
| "sextets [] = []"

definition pads :: "nat \<Rightarrow> nat" where
  "pads n = (3 - n mod 3) mod 3"

lemma pads_simps [simp]: "pads (Suc (Suc (Suc n))) = pads n" "pads 0 = 0" "pads (Suc 0) = 2" "pads (Suc (Suc 0)) = 1"
proof -
  have "Suc (Suc (Suc n)) mod 3 = n mod 3" by presburger
  then show "pads (Suc (Suc (Suc n))) = pads n" by (simp add: pads_def)
qed (simp_all add: pads_def)

lemma sextets_less: "\<forall>v\<in>set (sextets s). v < 64"
  by (induction s rule: sextets.induct)
    (simp_all only: sextets.simps append.simps list.set ball_simps insert_iff digits_less simp_thms)

lemma encode_sextets: "encode_loop s = map (\<lambda>v. digit v) (sextets s) @ replicate (pads (length s)) (of_char CHR ''='')"
  by (induction s rule: sextets.induct)
    (simp_all only: sextets.simps encode_loop.simps list.map append.simps list.size pads_simps
      append_assoc add_0_right add_Suc_right replicate.simps One_nat_def numeral_2_eq_2)

lemma decode_sextets: "decode_loop (map (\<lambda>v. digit v) (sextets s)) = s"
  by (induction s rule: sextets.induct)
    (simp_all only: sextets.simps decode_loop.simps list.map append.simps six_digit digits_less rejoin)

lemma nprbytes_stop: "\<forall>v\<in>set vs. v < 64 \<Longrightarrow> \<not> six c \<le> 63 \<Longrightarrow>
    nprbytes (map (\<lambda>v. digit v) vs @ c # t) = map (\<lambda>v. digit v) vs"
  by (induction vs) (simp_all add: nprbytes_def six_alphabet)

lemma pad_stops: "\<not> six (of_char CHR ''='') \<le> 63" "\<not> six 0 \<le> 63"
  by (simp_all add: pr2six_def)

lemma nprbytes_encode: "nprbytes (encode_loop s @ [0]) = map (\<lambda>v. digit v) (sextets s)"
proof (cases "pads (length s)")
  case 0
  then show ?thesis
    using nprbytes_stop[OF sextets_less pad_stops(2), of s "[]"] by (simp add: encode_sextets del: map_map)
next
  case (Suc k)
  then show ?thesis
    using nprbytes_stop[OF sextets_less pad_stops(1), of s "replicate k (of_char CHR ''='') @ [0]"]
    by (simp add: encode_sextets del: map_map of_char_of)
qed

text \<open>Three bytes make four digits.\<close>

lemma length_sextets: "length (sextets s) = length s div 3 * 4 + (if length s mod 3 = 0 then 0 else length s mod 3 + 1)"
proof (induction s rule: sextets.induct)
  case (1 a b c s)
  have "Suc (Suc (Suc (length s))) div 3 = Suc (length s div 3)" "Suc (Suc (Suc (length s))) mod 3 = length s mod 3"
    by presburger+
  then show ?case using 1 by simp
qed simp_all

lemma sextets_cases:
  obtains q where "length s = 3 * q" "length (sextets s) = 4 * q" "pads (length s) = 0"
  | q where "length s = 3 * q + 1" "length (sextets s) = 4 * q + 2" "pads (length s) = 2"
  | q where "length s = 3 * q + 2" "length (sextets s) = 4 * q + 3" "pads (length s) = 1"
proof -
  define q where "q = length s div 3"
  consider "length s mod 3 = 0" | "length s mod 3 = 1" | "length s mod 3 = 2" by linarith
  then show ?thesis
  proof cases
    case 1
    then have "length s = 3 * q" unfolding q_def by presburger
    then show ?thesis using that(1)[of q] 1 length_sextets[of s] by (simp add: pads_def)
  next
    case 2
    then have "length s = 3 * q + 1" unfolding q_def by presburger
    then show ?thesis using that(2)[of q] 2 length_sextets[of s] by (simp add: pads_def q_def)
  next
    case 3
    then have "length s = 3 * q + 2" unfolding q_def by presburger
    then show ?thesis using that(3)[of q] 3 length_sextets[of s] by (simp add: pads_def q_def)
  qed
qed

lemma encoded_size: "length (sextets s) + pads (length s) = (length s + 2) div 3 * 4"
  by (cases s rule: sextets_cases) auto

lemma decoded_size:
  "(int (length (sextets s)) + 3) div 4 * 3 - (4 - rest (int (length (sextets s)))) mod 4 = int (length s)"
proof (cases s rule: sextets_cases)
  case (1 q)
  have "(4 * int q + 3) div 4 = int q" "q \<noteq> 0 \<Longrightarrow> (4 * int q - 1) mod 4 = 3" by presburger+
  then show ?thesis using 1 by (cases "q = 0") (auto simp: rest_def)
next
  case (2 q)
  have "(4 * int q + 5) div 4 = int q + 1" "(4 * int q + 1) mod 4 = 1" by presburger+
  then show ?thesis using 2 by (cases "q = 0") (simp_all add: rest_def)
next
  case (3 q)
  have "(4 * int q + 6) div 4 = int q + 1" "(4 * int q + 2) mod 4 = 2" by presburger+
  then show ?thesis using 3 by (cases "q = 0") (simp_all add: rest_def)
qed

lemma rest_range: "0 \<le> n \<Longrightarrow> 0 \<le> rest n \<and> rest n \<le> 4"
  unfolding rest_def by presburger

text \<open>The longest string whose coded form an \<open>int\<close> can count.\<close>

abbreviation (input) longest :: nat where "longest \<equiv> 1610612733"

lemma encoded_length: "length (encode_loop s) = (length s + 2) div 3 * 4"
  using encoded_size[of s] by (simp add: encode_sextets)

lemma encoded_short: "length s \<le> longest \<Longrightarrow> length (encode_loop s) \<le> 2147483644"
proof -
  assume "length s \<le> longest"
  then have "(length s + 2) div 3 \<le> 536870911" by linarith
  then show ?thesis by (simp add: encoded_length)
qed

lemma base64_encode_ok:
  assumes "length s \<le> longest"
  shows "base64_encode s (int (length s)) = Some (encode_loop s @ [0], int (length (encode_loop s)) + 1)"
    and "base64_encode_len (int (length s)) = Some (int (length (encode_loop s)) + 1)"
proof -
  let ?n = "int (length s)"
  have b: "(?n + 2) div 3 \<le> 536870911" "0 \<le> (?n + 2) div 3" using assms by linarith+
  have "int (length (encode_loop s)) = (?n + 2) div 3 * 4" by (simp add: encoded_length zdiv_int)
  then show "base64_encode_len ?n = Some (int (length (encode_loop s)) + 1)"
    using assms b by (simp add: base64_encode_len_def c_int_small sdiv_pos)
  show "base64_encode s ?n = Some (encode_loop s @ [0], int (length (encode_loop s)) + 1)"
    using assms encoded_short[OF assms] by (simp add: base64_encode_def c_int_def zassert_def to_int_small[of "Suc _"])
qed

lemma base64_encode_overflow: "longest < n \<Longrightarrow> base64_encode_len (int n) = None"
proof -
  assume n: "longest < n"
  have "2 ^ 31 \<le> (int n + 2) sdiv 3 * 4" if "int n + 2 < 2 ^ 31"
  proof -
    have "536870912 \<le> (int n + 2) div 3" using n by linarith
    then show ?thesis by (simp add: sdiv_pos)
  qed
  then show ?thesis by (auto simp: base64_encode_len_def c_int_def bind_eq_None_conv)
qed

text \<open>Decoding a buffer whose digits are those of an encoding.\<close>

lemma base64_decode_ok:
  assumes "length s \<le> longest" "nprbytes buf = map (\<lambda>v. digit v) (sextets s)"
  shows "base64_decode buf = Some (s @ [0], int (length s))"
proof -
  let ?n = "length (sextets s)"
  have "?n \<le> length (encode_loop s)" by (simp add: encode_sextets)
  then have b: "?n + 3 < 2 ^ 31" using encoded_short[OF assms(1)] by simp
  have "c_int (int ?n + 3) = Some (int ?n + 3)" using b by (intro c_int_small) simp_all
  moreover have "c_int (4 - rest (int ?n)) = Some (4 - rest (int ?n))" using rest_range[of "int ?n"] by (intro c_int_small) simp_all
  moreover have "to_int ?n = int ?n" using b by simp
  moreover have "(int ?n + 3) sdiv 4 = (int ?n + 3) div 4" by (simp add: sdiv_pos)
  ultimately show ?thesis using decoded_size[of s] decode_sextets[of s] by (simp add: base64_decode_def assms(2))
qed

text \<open>
  C30: Decoding (\<open>base64_decode\<close> of src/base64.c) what was encoded gives back the same bytes and their number, for every byte string of at most
  1610612733 bytes; the encoded form has the length that \<open>base64_encode_len\<close> announces, the terminator included.  For a longer
  string, up to the largest \<open>int\<close>, \<open>base64_encode_len\<close> overflows.
\<close>

theorem base64_roundtrip:
  "(length s \<le> 1610612733 \<longrightarrow>
      (\<exists>buf n. base64_encode s (int (length s)) = Some (buf, n) \<and> base64_encode_len (int (length s)) = Some n \<and> n = int (length buf)
        \<and> base64_decode buf = Some (s @ [0], int (length s))))
   \<and> (1610612733 < length s \<longrightarrow> base64_encode_len (int (length s)) = None)"
  using base64_encode_ok[of s] base64_decode_ok[of s, OF _ nprbytes_encode] base64_encode_overflow[of "length s"] by auto

theorem base64_roundtrip_witness:
  "\<exists>buf n. base64_encode [104, 105] 2 = Some (buf, n) \<and> base64_decode buf = Some ([104, 105, 0], 2)"
  using base64_roundtrip[of "[104, 105]"] by auto

section \<open>The URL-safe variant\<close>

text \<open>
  Both work in place on a buffer.  Padding is dropped: \<open>t\<close> lags behind \<open>i\<close> from there on.  Reading
  \<open>encoded[t - 1]\<close> with nothing written is outside the buffer.
\<close>

definition url_encode_step :: "nat \<Rightarrow> u8 list \<times> nat \<Rightarrow> u8 list \<times> nat" where
  "url_encode_step i = (\<lambda>(encoded, t).
     if encoded ! i = of_char CHR ''+'' then (encoded[t := of_char CHR ''-''], t + 1)
     else if encoded ! i = of_char CHR ''/'' then (encoded[t := of_char CHR ''_''], t + 1)
     else if encoded ! i = of_char CHR ''='' then (encoded, t)
     else (encoded, t + 1))"

definition base64url_encode :: "u8 list \<Rightarrow> int \<Rightarrow> u8 list option" where
  "base64url_encode encoded len =
     (let (encoded, t) = fold url_encode_step [0..<nat len] (encoded, 0)
      in do {
        encoded \<leftarrow> (if len > 1 then do {
            zassert (t > 0);
            Some (if encoded ! (t - 1) = of_char CHR ''='' then encoded[t - 1 := 0] else encoded) }
          else Some encoded);
        Some (encoded[t := 0]) })"

definition url_decode_step :: "nat \<Rightarrow> u8 list \<times> nat \<Rightarrow> u8 list \<times> nat" where
  "url_decode_step i = (\<lambda>(decoded, t).
     (if decoded ! i = of_char CHR ''-'' then decoded[t := of_char CHR ''+'']
      else if decoded ! i = of_char CHR ''_'' then decoded[t := of_char CHR ''/'']
      else decoded, t + 1))"

definition base64url_decode :: "u8 list \<Rightarrow> int \<Rightarrow> u8 list" where
  "base64url_decode decoded len =
     (let (decoded, t) = fold url_decode_step [0..<nat len] (decoded, 0) in decoded[t := 0])"

definition to_url :: "u8 \<Rightarrow> u8" where
  "to_url c = (if c = of_char CHR ''+'' then of_char CHR ''-''
     else if c = of_char CHR ''/'' then of_char CHR ''_'' else c)"

definition from_url :: "u8 \<Rightarrow> u8" where
  "from_url c = (if c = of_char CHR ''-'' then of_char CHR ''+''
     else if c = of_char CHR ''_'' then of_char CHR ''/'' else c)"

lemma alphabet_all: "list_all (\<lambda>i. let c = basis_64 ! i in c \<noteq> of_char CHR ''='' \<and> to_url c \<noteq> of_char CHR ''=''
    \<and> to_url c \<noteq> 0 \<and> from_url (to_url c) = c \<and> to_url c \<noteq> of_char CHR ''+'' \<and> to_url c \<noteq> of_char CHR ''/'') [0..<64]"
  by code_simp

lemma digit_url:
  assumes "v < 64"
  shows "digit v \<noteq> of_char CHR ''=''" "to_url (digit v) \<noteq> of_char CHR ''=''" "to_url (digit v) \<noteq> 0"
    "from_url (to_url (digit v)) = digit v" "to_url (digit v) \<noteq> of_char CHR ''+''" "to_url (digit v) \<noteq> of_char CHR ''/''"
proof -
  have "unat v < 64" using assms by (simp add: word_less_nat_alt)
  then show "digit v \<noteq> of_char CHR ''=''" "to_url (digit v) \<noteq> of_char CHR ''=''" "to_url (digit v) \<noteq> 0"
    "from_url (to_url (digit v)) = digit v" "to_url (digit v) \<noteq> of_char CHR ''+''" "to_url (digit v) \<noteq> of_char CHR ''/''"
    using alphabet_all by (auto simp: list_all_iff Let_def simp del: of_char_of)
qed

lemma upt_first: "[n..<n + length (c # ds)] = n # [Suc n..<Suc n + length ds]"
  by (subst upt_conv_Cons) (simp_all del: upt_Suc)

lemma url_encode_digits:
  "\<forall>c\<in>set ds. c \<noteq> of_char CHR ''='' \<Longrightarrow> fold url_encode_step [length us..<length us + length ds] (us @ ds @ r, length us)
    = (us @ map to_url ds @ r, length us + length ds)"
proof (induction ds arbitrary: us)
  case (Cons c ds)
  have "url_encode_step (length us) (us @ c # ds @ r, length us) = (us @ to_url c # ds @ r, Suc (length us))"
    using Cons.prems by (simp add: url_encode_step_def to_url_def nth_append list_update_append)
  then have "fold url_encode_step [length us..<length us + length (c # ds)] (us @ (c # ds) @ r, length us)
      = fold url_encode_step [Suc (length us)..<Suc (length us) + length ds] (us @ to_url c # ds @ r, Suc (length us))"
    unfolding upt_first by (simp del: upt_Suc)
  then show ?case using Cons.IH[of "us @ [to_url c]"] Cons.prems by simp
qed simp

lemma url_encode_pads:
  "fold url_encode_step [length us..<length us + k] (us @ replicate k (of_char CHR ''='') @ r, t)
    = (us @ replicate k (of_char CHR ''='') @ r, t)"
proof -
  have "fold url_encode_step [i..<j] (us @ replicate k (of_char CHR ''='') @ r, t)
      = (us @ replicate k (of_char CHR ''='') @ r, t)" if "length us \<le> i" "i \<le> j" "j \<le> length us + k" for i j
    using that(2,1,3)
  proof (induction "j - i" arbitrary: i)
    case (Suc n)
    have "url_encode_step i (us @ replicate k (of_char CHR ''='') @ r, t) = (us @ replicate k (of_char CHR ''='') @ r, t)"
      using Suc.hyps(2) Suc.prems by (simp add: url_encode_step_def nth_append less_diff_conv2) linarith
    moreover have "[i..<j] = i # [Suc i..<j]" using Suc.hyps(2) by (intro upt_conv_Cons) simp
    ultimately show ?case using Suc by simp
  qed simp
  then show ?thesis by simp
qed

lemma url_decode_all:
  "fold url_decode_step [length us..<length us + length ds] (us @ ds @ r, length us)
    = (us @ map from_url ds @ r, length us + length ds)"
proof (induction ds arbitrary: us)
  case (Cons c ds)
  have "url_decode_step (length us) (us @ c # ds @ r, length us) = (us @ from_url c # ds @ r, Suc (length us))"
    by (simp add: url_decode_step_def from_url_def nth_append list_update_append)
  then have "fold url_decode_step [length us..<length us + length (c # ds)] (us @ (c # ds) @ r, length us)
      = fold url_decode_step [Suc (length us)..<Suc (length us) + length ds] (us @ from_url c # ds @ r, Suc (length us))"
    unfolding upt_first by (simp del: upt_Suc)
  then show ?case using Cons.IH[of "us @ [from_url c]"] by simp
qed simp

text \<open>The string in a buffer: the bytes before the terminator.\<close>

definition c_string :: "u8 list \<Rightarrow> u8 list" where
  "c_string buf = takeWhile (\<lambda>c. c \<noteq> 0) buf"

lemma url_encoded:
  defines "ds \<equiv> \<lambda>s. map (\<lambda>v. digit v) (sextets s)"
  shows "\<exists>r. base64url_encode (encode_loop s @ [0]) (int (length (encode_loop s))) = Some (map to_url (ds s) @ 0 # r)"
proof -
  let ?d = "ds s" and ?p = "pads (length s)" and ?eq = "of_char CHR ''='' :: u8"
  have no: "\<forall>c\<in>set ?d. c \<noteq> ?eq" using sextets_less[of s] digit_url(1) by (auto simp: ds_def simp del: of_char_of)
  have e: "encode_loop s = ?d @ replicate ?p ?eq" by (simp add: encode_sextets ds_def)
  have u: "[0..<length (encode_loop s)] = [0..<length ?d] @ [length ?d..<length ?d + ?p]"
    using upt_add_eq_append[of 0 "length ?d" ?p] by (simp add: e)
  have f1: "fold url_encode_step [0..<length ?d] (?d @ replicate ?p ?eq @ [0], 0)
      = (map to_url ?d @ replicate ?p ?eq @ [0], length ?d)"
    using url_encode_digits[of ?d "[]" "replicate ?p ?eq @ [0]"] no by simp
  have f2: "fold url_encode_step [length ?d..<length ?d + ?p] (map to_url ?d @ replicate ?p ?eq @ [0], length ?d)
      = (map to_url ?d @ replicate ?p ?eq @ [0], length ?d)"
    using url_encode_pads[of "map to_url ?d" ?p "[0]" "length ?d"] by simp
  have f: "fold url_encode_step [0..<length (encode_loop s)] (encode_loop s @ [0], 0)
      = (map to_url ?d @ replicate ?p ?eq @ [0], length ?d)"
    unfolding u fold_append comp_apply unfolding e append_assoc f1 f2 ..
  have nz: "0 < length ?d" if "1 < length (encode_loop s)"
    using that by (cases s rule: sextets_cases) (auto simp: e ds_def)
  have last: "(map to_url ?d @ replicate ?p ?eq @ [0]) ! (length ?d - 1) \<noteq> ?eq" if "0 < length ?d"
  proof -
    have "(map to_url ?d @ replicate ?p ?eq @ [0]) ! (length ?d - 1) = to_url (?d ! (length ?d - 1))"
      using that by (simp add: nth_append)
    moreover have "sextets s ! (length ?d - 1) \<in> set (sextets s)" using that by (simp add: ds_def)
    ultimately show ?thesis using that sextets_less[of s] digit_url(2) by (simp add: ds_def del: of_char_of)
  qed
  have "base64url_encode (encode_loop s @ [0]) (int (length (encode_loop s)))
      = Some ((map to_url ?d @ replicate ?p ?eq @ [0])[length ?d := 0])"
    unfolding base64url_encode_def nat_int f using nz last by (simp del: of_char_of)
  also have "(map to_url ?d @ replicate ?p ?eq @ [0])[length ?d := 0] = map to_url ?d @ (replicate ?p ?eq @ [0])[0 := 0]"
    by (simp add: list_update_append)
  finally show ?thesis by (cases ?p) auto
qed

text \<open>
  The URL-safe form contains neither padding nor the two characters that have a meaning in a
  URL, and taking it back to the standard alphabet and decoding it yields the bytes it was made from.
\<close>

theorem base64url_roundtrip:
  assumes "length s \<le> 1610612733"
  shows "\<exists>buf n u. base64_encode s (int (length s)) = Some (buf, n) \<and> base64url_encode buf (n - 1) = Some u
    \<and> set (c_string u) \<inter> {of_char CHR ''+'', of_char CHR ''/'', of_char CHR ''=''} = {}
    \<and> base64_decode (base64url_decode u (int (length (c_string u)))) = Some (s @ [0], int (length s))"
proof -
  let ?d = "map (\<lambda>v. digit v) (sextets s)"
  obtain r where r: "base64url_encode (encode_loop s @ [0]) (int (length (encode_loop s))) = Some (map to_url ?d @ 0 # r)"
    using url_encoded[of s] by auto
  have dig: "\<forall>v\<in>set (sextets s). to_url (digit v) \<noteq> 0 \<and> from_url (to_url (digit v)) = digit v
      \<and> to_url (digit v) \<noteq> of_char CHR ''='' \<and> to_url (digit v) \<noteq> of_char CHR ''+'' \<and> to_url (digit v) \<noteq> of_char CHR ''/''"
    using sextets_less[of s] digit_url by blast
  have c: "c_string (map to_url ?d @ 0 # r) = map to_url ?d"
    using dig unfolding c_string_def by (subst takeWhile_append2) auto
  have "map from_url (map to_url ?d) = ?d" using dig by simp
  then have "base64url_decode (map to_url ?d @ 0 # r) (int (length (map to_url ?d))) = ?d @ 0 # r"
    using url_decode_all[of "[]" "map to_url ?d" "0 # r"] by (simp add: base64url_decode_def list_update_append)
  moreover have "base64_decode (?d @ 0 # r) = Some (s @ [0], int (length s))"
    by (rule base64_decode_ok[OF assms nprbytes_stop[OF sextets_less pad_stops(2)]])
  ultimately show ?thesis using r c dig base64_encode_ok(1)[OF assms]
    by (intro exI[of _ "encode_loop s @ [0]"] exI[of _ "int (length (encode_loop s)) + 1"] exI[of _ "map to_url ?d @ 0 # r"])
      (auto simp del: of_char_of)
qed

end
