(* ===== verification/CString.thy ===== *)
theory CString imports
  Prelude
begin

text \<open>
  Strings: src/common.c, src/strlcpy.c, src/strlcat.c, src/strsep.c, src/strtoken.c, src/stresc.c,
  src/strdup.c, src/itoa.c, src/antoi.c.  A C string is the list of its characters before the terminator; where the
  code works inside a buffer of known size, the buffer is a list of that length and the terminator is
  written out.  \<open>None\<close> is an access outside the object, or a loop that does not end.
\<close>

abbreviation (input) NUL :: char where "NUL \<equiv> CHR 0x00"

abbreviation (input) code :: "char \<Rightarrow> nat" where "code c \<equiv> of_char c"

section \<open>Character classes\<close>

text \<open>\<open>isdigit\<close>, \<open>isalpha\<close>, \<open>tolower\<close> and \<open>toupper\<close> of the C library in the locale "C".\<close>

definition isdigit :: "char \<Rightarrow> bool" where
  "isdigit c \<longleftrightarrow> 48 \<le> code c \<and> code c \<le> 57"

definition isupper :: "char \<Rightarrow> bool" where
  "isupper c \<longleftrightarrow> 65 \<le> code c \<and> code c \<le> 90"

definition islower :: "char \<Rightarrow> bool" where
  "islower c \<longleftrightarrow> 97 \<le> code c \<and> code c \<le> 122"

definition isalpha :: "char \<Rightarrow> bool" where
  "isalpha c \<longleftrightarrow> isupper c \<or> islower c"

definition tolower :: "char \<Rightarrow> char" where
  "tolower c = (if isupper c then char_of (code c + 32) else c)"

definition toupper :: "char \<Rightarrow> char" where
  "toupper c = (if islower c then char_of (code c - 32) else c)"

section \<open>Tests and conversions\<close>

definition from_hex :: "char \<Rightarrow> int" where
  "from_hex ch = (if isdigit ch then int (code ch) - 48 else int (code (tolower ch)) - 97 + 10)"

definition strisbool :: "string \<Rightarrow> int" where
  "strisbool str = (if str = ''true'' \<or> str = ''TRUE'' then 1
     else if str = ''false'' \<or> str = ''FALSE'' then 0 else - 1)"

text \<open>The buffer is changed in place; the pointer returned has run to its terminator.\<close>

definition strtolower :: "string \<Rightarrow> string \<times> string" where
  "strtolower str = (map tolower str, [])"

definition strtoupper :: "string \<Rightarrow> string \<times> string" where
  "strtoupper str = (map toupper str, [])"

definition strisdigit :: "string \<Rightarrow> bool" where
  "strisdigit str = list_all isdigit (case str of c # s \<Rightarrow> if c = CHR ''-'' then s else str | [] \<Rightarrow> str)"

definition strisalpha :: "string \<Rightarrow> bool" where
  "strisalpha str = list_all isalpha str"

definition strisualpha :: "string \<Rightarrow> bool" where
  "strisualpha str = list_all (\<lambda>c. c = CHR ''_'' \<or> isalpha c) str"

text \<open>Without a first character the pointer starts behind the terminator.\<close>

definition strdtrim :: "string \<Rightarrow> string option" where
  "strdtrim str = (case str of [] \<Rightarrow> None | c # p \<Rightarrow> Some (butlast p))"

fun strismatch :: "string \<Rightarrow> string \<Rightarrow> bool" where
  "strismatch [] tok = True"
| "strismatch (c # str) tok =
     (let flag = list_ex (\<lambda>t. c = t) tok in if \<not> flag then False else strismatch str tok)"

fun strccnt :: "string \<Rightarrow> char \<Rightarrow> nat" where
  "strccnt [] c = 0"
| "strccnt (x # str) c = (if x = c then 1 + strccnt str c else strccnt str c)"

definition str_bool :: "bool \<Rightarrow> string" where
  "str_bool b = (if b then ''true'' else ''false'')"

definition str_null :: string where
  "str_null = ''null''"

text \<open>The shift wraps around: a value above \<open>2 ^ 63\<close> is never reached.\<close>

partial_function (option) page_align_loop :: "u64 \<Rightarrow> u64 \<Rightarrow> u64 option" where
  "page_align_loop i val = (if i < val then page_align_loop (push_bit 1 i) val else Some i)"

definition page_align :: "u64 \<Rightarrow> u64 option" where
  "page_align val = page_align_loop 1 val"

section \<open>Bounded copies\<close>

text \<open>
  \<open>while\<close> loop of \<open>strlcpy\<close>: copies until the terminator is copied or \<open>n\<close> runs out; the result is what is
  left of \<open>n\<close>, the position in the destination, and the destination.
\<close>

fun strlcpy_loop :: "nat \<Rightarrow> nat \<Rightarrow> char list \<Rightarrow> string \<Rightarrow> nat \<times> nat \<times> char list" where
  "strlcpy_loop n d dst [] = (n, d + 1, dst[d := NUL])"
| "strlcpy_loop n d dst (c # s) =
     (let dst = dst[d := c]
      in if n - 1 \<noteq> 0 then strlcpy_loop (n - 1) (d + 1) dst s else (0, d + 1, dst))"

definition strlcpy :: "char list \<Rightarrow> string \<Rightarrow> nat \<Rightarrow> char list \<times> nat" where
  "strlcpy dst src siz =
     (let (n, d, dst) = (if siz \<noteq> 0 \<and> siz - 1 \<noteq> 0 then strlcpy_loop (siz - 1) 0 dst src
                         else (siz - 1, 0, dst));
          dst = (if n = 0 \<and> siz \<noteq> 0 then dst[d := NUL] else dst)
      in (dst, length src))"

fun strlcat_end :: "nat \<Rightarrow> char list \<Rightarrow> nat \<Rightarrow> nat" where
  "strlcat_end 0 dst d = d"
| "strlcat_end (Suc n) dst d = (if dst ! d \<noteq> NUL then strlcat_end n dst (d + 1) else d)"

fun strlcat_loop :: "nat \<Rightarrow> nat \<Rightarrow> char list \<Rightarrow> string \<Rightarrow> nat \<times> char list" where
  "strlcat_loop n d dst [] = (d, dst)"
| "strlcat_loop n d dst (c # s) =
     (if n \<noteq> 1 then strlcat_loop (n - 1) (d + 1) (dst[d := c]) s else strlcat_loop n d dst s)"

definition strlcat :: "char list \<Rightarrow> string \<Rightarrow> nat \<Rightarrow> char list \<times> nat" where
  "strlcat dst src siz =
     (let dlen = strlcat_end siz dst 0; n = siz - dlen
      in if n = 0 then (dst, dlen + length src)
         else (let (d, dst) = strlcat_loop n dlen dst src in (dst[d := NUL], dlen + length src)))"

text \<open>\<open>strndup\<close> copies \<open>n\<close> bytes, which the source object must have.\<close>

definition strdup :: "string \<Rightarrow> string" where
  "strdup str = str"

definition strndup :: "char list \<Rightarrow> nat \<Rightarrow> char list option" where
  "strndup str n = (if n \<le> length str then Some (take n str @ [NUL]) else None)"

section \<open>Tokens\<close>

text \<open>One field, and what is left of the string behind the delimiter; \<open>None\<close> is the null pointer.\<close>

fun strsep_loop :: "string \<Rightarrow> string \<Rightarrow> string \<Rightarrow> string \<times> string option" where
  "strsep_loop delim tok [] = (tok, None)"
| "strsep_loop delim tok (c # s) =
     (if c \<in> set delim then (tok, Some s) else strsep_loop delim (tok @ [c]) s)"

definition strsep :: "string option \<Rightarrow> string \<Rightarrow> string option \<times> string option" where
  "strsep stringp delim = (case stringp of
     None \<Rightarrow> (None, None)
   | Some s \<Rightarrow> (let (tok, rest) = strsep_loop delim [] s in (Some tok, rest)))"

text \<open>
  \<open>strtoken\<close> keeps the rest of the string and the quote flag in static variables.  Between quotes
  no delimiter counts, not even the terminator: an unbalanced quote makes the scan leave the string.
\<close>

definition quote_flip :: "char \<Rightarrow> bool \<Rightarrow> bool" where
  "quote_flip c sk = (if c = CHR 0x22 \<or> c = CHR 0x27 then \<not> sk else sk)"

fun strtoken_skip :: "string \<Rightarrow> bool \<Rightarrow> string \<Rightarrow> (char \<times> string) option \<times> bool" where
  "strtoken_skip delim sk [] = (None, sk)"
| "strtoken_skip delim sk (c # s) =
     (let sk = quote_flip c sk
      in if c \<in> set delim then strtoken_skip delim sk s else (Some (c, s), sk))"

fun strtoken_scan :: "string \<Rightarrow> bool \<Rightarrow> string \<Rightarrow> string \<Rightarrow> (string \<times> string option \<times> bool) option" where
  "strtoken_scan delim sk tok [] = (if sk then None else Some (tok, None, sk))"
| "strtoken_scan delim sk tok (c # s) =
     (let sk = quote_flip c sk
      in if sk then strtoken_scan delim sk (tok @ [c]) s
         else if c \<in> set delim then Some (tok, Some s, sk)
         else strtoken_scan delim sk (tok @ [c]) s)"

definition strtoken :: "string option \<Rightarrow> string \<Rightarrow> string option \<times> bool
    \<Rightarrow> (string option \<times> string option \<times> bool) option" where
  "strtoken s delim st =
     (let (last, sk) = st; sk = (if s \<noteq> None then False else sk)
      in case (if s = None then last else s) of
           None \<Rightarrow> Some (None, last, sk)
         | Some s \<Rightarrow> (case strtoken_skip delim sk s of
             (None, sk) \<Rightarrow> Some (None, None, sk)
           | (Some (c, s), sk) \<Rightarrow> do {
               (tok, last, sk) \<leftarrow> strtoken_scan delim sk [c] s;
               Some (Some tok, last, sk) }))"

section \<open>Escapes\<close>

definition needs_escape :: "char \<Rightarrow> bool" where
  "needs_escape c \<longleftrightarrow> c = CHR 0x22 \<or> c = CHR 0x07 \<or> c = CHR 0x08 \<or> c = CHR 0x09 \<or> c = CHR 0x0B
     \<or> c = CHR 0x0D \<or> c = CHR 0x0C \<or> c = CHR 0x0A \<or> c = CHR 0x5C"

fun escape :: "char \<Rightarrow> string" where
  "escape c =
     (if c = CHR 0x07 then [CHR 0x5C, CHR ''a'']
      else if c = CHR 0x08 then [CHR 0x5C, CHR ''b'']
      else if c = CHR 0x09 then [CHR 0x5C, CHR ''t'']
      else if c = CHR 0x0A then [CHR 0x5C, CHR ''n'']
      else if c = CHR 0x0B then [CHR 0x5C, CHR ''v'']
      else if c = CHR 0x0C then [CHR 0x5C, CHR ''f'']
      else if c = CHR 0x0D then [CHR 0x5C, CHR ''r'']
      else if c = CHR 0x5C then [CHR 0x5C, CHR 0x5C]
      else if c = CHR 0x22 then [CHR 0x5C, CHR 0x22]
      else [c])"

text \<open>The result with its terminator, and the size of the buffer that was requested for it.\<close>

definition stresc :: "string \<Rightarrow> char list \<times> nat" where
  "stresc src = (concat (map escape src) @ [NUL], length src + 1 + length (filter needs_escape src))"

section \<open>Numbers\<close>

text \<open>
  C's division truncates: for \<open>i < 0\<close> the remainder is that of \<open>- i\<close> with the sign of \<open>i\<close>.  The digits
  go into a static buffer from its end.
\<close>

fun itoa_digits :: "nat \<Rightarrow> string \<Rightarrow> string" where
  "itoa_digits i p = (let p = char_of (48 + i mod 10) # p in if i div 10 \<noteq> 0 then itoa_digits (i div 10) p else p)"

declare itoa_digits.simps [simp del]

definition itoa :: "int \<Rightarrow> string" where
  "itoa i = (if i \<ge> 0 then itoa_digits (nat i) [] else CHR ''-'' # itoa_digits (nat (- i)) [])"

text \<open>The sum is an \<open>unsigned int\<close>, the characters are signed, the result is an \<open>int\<close>.\<close>

fun antoi_loop :: "u32 \<Rightarrow> string \<Rightarrow> u32" where
  "antoi_loop res [] = res"
| "antoi_loop res (c # s) = antoi_loop (res * 10 + scast (of_char c :: u8) - 48) s"

definition antoi :: "char list \<Rightarrow> nat \<Rightarrow> int option" where
  "antoi str num = (if num \<le> length str then Some (sint (antoi_loop 0 (take num str))) else None)"

section \<open>Bounded copies stay inside the buffer\<close>

text \<open>The string that a buffer holds.\<close>

definition buffer_string :: "char list \<Rightarrow> string" where
  "buffer_string buf = takeWhile (\<lambda>c. c \<noteq> NUL) buf"

lemma buffer_string_append: "NUL \<notin> set s \<Longrightarrow> buffer_string (s @ NUL # r) = s"
  unfolding buffer_string_def by (subst takeWhile_append2) auto

lemma strlcpy_loop_eq:
  "0 < n \<Longrightarrow> length us + n < length dst \<Longrightarrow> take (length us) dst = us \<Longrightarrow>
    strlcpy_loop n (length us) dst s =
      (if length s < n then (n - length s, length us + length s + 1,
           us @ s @ NUL # drop (length us + length s + 1) dst)
       else (0, length us + n, us @ take n s @ drop (length us + n) dst))"
proof (induction s arbitrary: n us dst)
  case Nil
  then have "dst[length us := NUL] = us @ NUL # drop (length us + 1) dst"
    by (simp add: upd_conv_take_nth_drop)
  then show ?case using Nil by simp
next
  case (Cons c s)
  have d: "dst[length us := c] = us @ c # drop (length us + 1) dst"
    using Cons.prems by (simp add: upd_conv_take_nth_drop)
  show ?case
  proof (cases "n = 1")
    case True
    then show ?thesis using d by simp
  next
    case False
    have "take (length (us @ [c])) (dst[length us := c]) = us @ [c]" unfolding d by simp
    then have "strlcpy_loop (n - 1) (length us + 1) (dst[length us := c]) s =
      (if length s < n - 1 then (n - 1 - length s, length us + 1 + length s + 1,
           (us @ [c]) @ s @ NUL # drop (length us + 1 + length s + 1) (dst[length us := c]))
       else (0, length us + 1 + (n - 1), (us @ [c]) @ take (n - 1) s @ drop (length us + 1 + (n - 1)) (dst[length us := c])))"
      using Cons.IH[of "n - 1" "us @ [c]" "dst[length us := c]"] Cons.prems False by simp
    then show ?thesis using Cons.prems False by (cases n) (auto simp: drop_update_cancel)
  qed
qed

lemma strlcpy_eq:
  assumes "siz \<le> length dst" "0 < siz"
  shows "strlcpy dst src siz = (take (siz - 1) src @ NUL # drop (length (take (siz - 1) src) + 1) dst, length src)"
proof (cases "siz = 1")
  case True
  then show ?thesis using assms by (cases dst) (auto simp: strlcpy_def)
next
  case False
  have l: "strlcpy_loop (siz - 1) 0 dst src = (if length src < siz - 1 then (siz - 1 - length src, length src + 1,
           src @ NUL # drop (length src + 1) dst)
       else (0, siz - 1, take (siz - 1) src @ drop (siz - 1) dst))"
    using strlcpy_loop_eq[of "siz - 1" "[]" dst src] assms False by simp
  show ?thesis
  proof (cases "length src < siz - 1")
    case True
    then show ?thesis using l False assms by (auto simp: strlcpy_def)
  next
    case b: False
    have "drop (siz - 1) dst \<noteq> []" using assms by simp
    then have "(drop (siz - 1) dst)[0 := NUL] = NUL # drop siz dst"
      using assms by (cases "drop (siz - 1) dst") (auto simp: drop_Suc[symmetric] tl_drop[symmetric], metis Suc_pred drop_Suc list.sel(3) tl_drop)
    then show ?thesis using l b False assms by (simp add: strlcpy_def list_update_append min_def)
  qed
qed

lemma strlcat_end_eq: "strlcat_end n dst d = d + length (takeWhile (\<lambda>c. c \<noteq> NUL) (take n (drop d dst)))"
  if "d + n \<le> length dst"
  using that
proof (induction n arbitrary: d)
  case (Suc n)
  have "drop d dst = dst ! d # drop (Suc d) dst" using Suc.prems by (simp add: Cons_nth_drop_Suc)
  then show ?case using Suc.IH[of "d + 1"] Suc.prems by simp
qed simp

lemma strlcat_loop_eq:
  "0 < n \<Longrightarrow> length us + n \<le> length dst \<Longrightarrow> take (length us) dst = us \<Longrightarrow>
    strlcat_loop n (length us) dst s = (length us + length (take (n - 1) s),
      us @ take (n - 1) s @ drop (length us + length (take (n - 1) s)) dst)"
proof (induction s arbitrary: n us dst)
  case Nil
  then show ?case by (metis append_Nil append_take_drop_id list.size(3) strlcat_loop.simps(1) take_Nil add_0_right)
next
  case (Cons c s)
  have d: "dst[length us := c] = us @ c # drop (length us + 1) dst"
    using Cons.prems by (simp add: upd_conv_take_nth_drop)
  show ?case
  proof (cases "n = 1")
    case True
    then show ?thesis using Cons.IH[of n us dst] Cons.prems by simp
  next
    case False
    have "take (length (us @ [c])) (dst[length us := c]) = us @ [c]" unfolding d by simp
    then have "strlcat_loop (n - 1) (length us + 1) (dst[length us := c]) s = (length us + 1 + length (take (n - 2) s),
        (us @ [c]) @ take (n - 2) s @ drop (length us + 1 + length (take (n - 2) s)) (dst[length us := c]))"
      using Cons.IH[of "n - 1" "us @ [c]" "dst[length us := c]"] Cons.prems False by (simp add: numeral_2_eq_2)
    moreover have "take (n - 1) (c # s) = c # take (n - 2) s" using Cons.prems False by (cases n) (auto simp: take_Cons')
    ultimately show ?thesis using Cons.prems False by (simp add: drop_update_cancel)
  qed
qed

lemma strlcat_eq:
  fixes src :: string
  assumes "dst = old @ NUL # r" "NUL \<notin> set old" "siz \<le> length dst" "length old < siz"
  shows "strlcat dst src siz = (old @ take (siz - 1 - length old) src @ NUL
    # drop (length old + length (take (siz - 1 - length old) src) + 1) dst, length old + length src)"
proof -
  have e: "strlcat_end siz dst 0 = length old"
  proof -
    obtain k where k: "siz - length old = Suc k" using assms(4) by (cases "siz - length old") auto
    have "take siz dst = old @ NUL # take k r" using assms(1,4) k by (simp add: take_Cons')
    then show ?thesis using assms(2,3) strlcat_end_eq[of 0 siz dst] by (simp add: takeWhile_append)
  qed
  let ?n = "siz - length old"
  define new where "new = take (siz - 1 - length old) src"
  have l: "strlcat_loop ?n (length old) dst src = (length old + length new, old @ new @ drop (length old + length new) dst)"
    using strlcat_loop_eq[of ?n old dst src] assms(1,3,4) by (simp add: new_def)
  have "length old + length new < length dst" using assms(3,4) by (auto simp: new_def)
  then have "(drop (length old + length new) dst)[0 := NUL] = NUL # drop (length old + length new + 1) dst"
    by (subst Cons_nth_drop_Suc[symmetric]) simp_all
  then show ?thesis using e l assms(4) by (simp add: strlcat_def Let_def list_update_append new_def)
qed

lemma behind_terminator:
  assumes "length s + 1 \<le> siz" "siz \<le> length dst"
  shows "drop siz (s @ NUL # drop (length s + 1) dst) = drop siz dst"
    and "length (s @ NUL # drop (length s + 1) dst) = length dst"
proof -
  obtain k where k: "siz = Suc (length s + k)" using assms(1) by (metis add.assoc add.commute le_iff_add plus_1_eq_Suc)
  show "drop siz (s @ NUL # drop (length s + 1) dst) = drop siz dst" unfolding k by (simp add: add.commute)
qed (use assms in simp)

text \<open>
  C31: \<open>strlcpy\<close> never writes past the size it is given and always terminates the result: it stores the
  longest prefix of the source that fits, leaves the buffer behind that size alone, and the
  returned length tells whether the source was cut off.
\<close>

theorem strlcpy_bounded:
  assumes "NUL \<notin> set src" "siz \<le> length dst" "0 < siz"
  shows "\<exists>dst' n. strlcpy dst src siz = (dst', n) \<and> length dst' = length dst
      \<and> buffer_string dst' = take (siz - 1) src \<and> drop siz dst' = drop siz dst
      \<and> (n < siz \<longleftrightarrow> buffer_string dst' = src)"
proof -
  let ?s = "take (siz - 1) src"
  have n: "NUL \<notin> set ?s" using assms(1) by (auto dest: in_set_takeD)
  have l: "length ?s + 1 \<le> siz" using assms(3) by simp
  show ?thesis
    using strlcpy_eq[OF assms(2,3), of src] buffer_string_append[OF n] behind_terminator[OF l assms(2)] assms(3)
    by auto
qed

theorem strlcpy_bounded_witness:
  "buffer_string (fst (strlcpy ''------'' ''cde'' 3)) = ''cd'' \<and> drop 3 (fst (strlcpy ''------'' ''cde'' 3)) = ''---''"
  using strlcpy_bounded[of "''cde''" 3 "''------''"] by (auto simp: numeral_2_eq_2)

text \<open>
  \<open>strlcat\<close> appends the longest prefix of the source that fits behind the string in the buffer,
  terminates it inside the size given, leaves the bytes behind that size alone and returns the
  length that the whole result would have had.
\<close>

theorem strlcat_bounded:
  assumes "NUL \<notin> set src" "dst = old @ NUL # r" "NUL \<notin> set old" "length old < siz" "siz \<le> length dst"
  shows "\<exists>dst' n. strlcat dst src siz = (dst', n) \<and> length dst' = length dst
      \<and> buffer_string dst' = take (siz - 1) (old @ src) \<and> drop siz dst' = drop siz dst
      \<and> n = length old + length src"
proof -
  let ?s = "old @ take (siz - 1 - length old) src"
  have n: "NUL \<notin> set ?s" using assms(1,3) by (auto dest: in_set_takeD)
  have l: "length ?s + 1 \<le> siz" using assms(4) by simp
  have "strlcat dst src siz = (?s @ NUL # drop (length ?s + 1) dst, length old + length src)"
    using strlcat_eq[OF assms(2,3,5,4), of src] by simp
  moreover have "?s = take (siz - 1) (old @ src)" using assms(4) by simp
  ultimately show ?thesis
    using buffer_string_append[OF n] behind_terminator[OF l assms(5)] by (metis (no_types))
qed

theorem strlcat_bounded_witness:
  "buffer_string (fst (strlcat [CHR ''a'', NUL, CHR ''x'', CHR ''y''] ''cde'' 3)) = ''ac''
   \<and> snd (strlcat [CHR ''a'', NUL, CHR ''x'', CHR ''y''] ''cde'' 3) = 4"
  using strlcat_bounded[of "''cde''" "[CHR ''a'', NUL, CHR ''x'', CHR ''y'']" "''a''" "''xy''" 3]
  by (auto simp: numeral_2_eq_2)

section \<open>Fields and tokens\<close>

lemma strsep_loop_eq: "strsep_loop delim tok s = (tok @ takeWhile (\<lambda>c. c \<notin> set delim) s,
    case dropWhile (\<lambda>c. c \<notin> set delim) s of [] \<Rightarrow> None | c # r \<Rightarrow> Some r)"
  by (induction delim tok s rule: strsep_loop.induct) auto

text \<open>Whether the quote flag is set behind a text that is read with the flag \<open>f\<close>, and a text in which no delimiter ends the token.\<close>

definition in_quotes :: "bool \<Rightarrow> string \<Rightarrow> bool" where
  "in_quotes f t \<longleftrightarrow> f \<noteq> odd (length (filter (\<lambda>c. c = CHR 0x22 \<or> c = CHR 0x27) t))"

definition unbroken :: "string \<Rightarrow> bool \<Rightarrow> string \<Rightarrow> string \<Rightarrow> bool" where
  "unbroken delim f t a \<longleftrightarrow> (\<forall>x e y. a = x @ e # y \<longrightarrow> e \<in> set delim \<longrightarrow> in_quotes f (t @ x @ [e]))"

lemma in_quotes_simps [simp]: "in_quotes f [] = f" "in_quotes f (c # t) = in_quotes (quote_flip c f) t"
  by (auto simp: in_quotes_def quote_flip_def)

lemma in_quotes_append [simp]: "in_quotes f (s @ t) = in_quotes (in_quotes f s) t"
  by (induction s arbitrary: f) simp_all

lemma unbroken_after: "unbroken delim f (s @ t) a = unbroken delim (in_quotes f s) t a"
  by (simp add: unbroken_def)

lemma unbroken_Cons:
  assumes "unbroken delim f [] (e # a)"
  shows "e \<in> set delim \<Longrightarrow> quote_flip e f" and "unbroken delim (quote_flip e f) [] a"
proof -
  show "quote_flip e f" if "e \<in> set delim" using assms that unfolding unbroken_def by (metis append_Nil in_quotes_simps)
  have "in_quotes (quote_flip e f) (x @ [d])" if "a = x @ d # y" "d \<in> set delim" for x d y
    using assms that unfolding unbroken_def by (metis append_Cons append_Nil in_quotes_simps(2))
  then show "unbroken delim (quote_flip e f) [] a" by (simp add: unbroken_def)
qed

lemma strtoken_skip_over:
  "set p \<subseteq> set delim \<Longrightarrow> strtoken_skip delim f p = (None, in_quotes f p)"
  "set p \<subseteq> set delim \<Longrightarrow> c \<notin> set delim \<Longrightarrow> strtoken_skip delim f (p @ c # r) = (Some (c, r), in_quotes f (p @ [c]))"
  by (induction p arbitrary: f) (simp_all add: Let_def)

lemma strtoken_scan_stop:
  "unbroken delim f [] a \<Longrightarrow> d \<in> set delim \<Longrightarrow> \<not> in_quotes f (a @ [d]) \<Longrightarrow> strtoken_scan delim f tok (a @ d # b) = Some (tok @ a, Some b, False)"
proof (induction a arbitrary: f tok)
  case (Cons e a)
  then show ?case using unbroken_Cons[OF Cons.prems(1)] by (auto simp: Let_def)
qed (simp add: Let_def)

lemma strtoken_scan_end:
  "unbroken delim f [] a \<Longrightarrow> strtoken_scan delim f tok a = (if in_quotes f a then None else Some (tok @ a, None, False))"
proof (induction a arbitrary: f tok)
  case (Cons e a)
  then show ?case using unbroken_Cons[OF Cons.prems(1)] by (auto simp: Let_def)
qed simp

text \<open>
  C32: \<open>strtoken\<close> of src/strtoken.c, called with a text or, to go on, with a null pointer; \<open>u\<close> is the text that is read and \<open>f\<close>
  the quote flag it is read with (cleared for a new text, kept from the last call otherwise), which counts as one quote if it is set.  Leading delimiters are skipped; the token goes from
  the first character that is no delimiter to the first delimiter behind which an even number of quotes has been read, and the text
  behind this delimiter is kept for the next call.  If there is no such delimiter the token is the rest of the text, provided that its
  quotes are balanced; if a quote is left open, in whichever token, the scan runs past the terminator of the string.
\<close>

theorem strtoken_correct:
  assumes "(if s = None then kept else s) = Some u" "f \<longleftrightarrow> s = None \<and> sk"
  shows "(set u \<subseteq> set delim \<longrightarrow> strtoken s delim (kept, sk) = Some (None, None, in_quotes f u))
    \<and> (u = p @ c # r \<and> set p \<subseteq> set delim \<and> c \<notin> set delim \<longrightarrow>
        (r = a @ d # b \<and> d \<in> set delim \<and> unbroken delim f (p @ [c]) a \<and> \<not> in_quotes f (p @ c # a @ [d])
           \<longrightarrow> strtoken s delim (kept, sk) = Some (Some (c # a), Some b, False))
      \<and> (unbroken delim f (p @ [c]) r
           \<longrightarrow> strtoken s delim (kept, sk) = (if in_quotes f u then None else Some (Some (c # r), None, False))))"
proof (intro conjI impI; (elim conjE)?)
  have s: "strtoken s delim (kept, sk) = (case strtoken_skip delim f u of (None, sk) \<Rightarrow> Some (None, None, sk)
      | (Some (c, s), sk) \<Rightarrow> do { (tok, last, sk) \<leftarrow> strtoken_scan delim sk [c] s; Some (Some tok, last, sk) })"
    using assms by (auto simp: strtoken_def Let_def split: option.splits if_splits)
  show "strtoken s delim (kept, sk) = Some (None, None, in_quotes f u)" if "set u \<subseteq> set delim"
    using that by (simp add: s strtoken_skip_over)
  assume u: "u = p @ c # r" "set p \<subseteq> set delim" "c \<notin> set delim"
  show "strtoken s delim (kept, sk) = Some (Some (c # a), Some b, False)"
    if "r = a @ d # b" "d \<in> set delim" "unbroken delim f (p @ [c]) a" "\<not> in_quotes f (p @ c # a @ [d])"
  proof -
    have "unbroken delim (in_quotes f (p @ [c])) [] a" using that(3) unbroken_after[of delim f "p @ [c]" "[]"] by simp
    then show ?thesis using strtoken_scan_stop[of delim _ a d "[c]" b] that(1,2,4) u by (simp add: s strtoken_skip_over)
  qed
  show "strtoken s delim (kept, sk) = (if in_quotes f u then None else Some (Some (c # r), None, False))"
    if "unbroken delim f (p @ [c]) r"
  proof -
    have "unbroken delim (in_quotes f (p @ [c])) [] r" using that unbroken_after[of delim f "p @ [c]" "[]"] by simp
    then show ?thesis using strtoken_scan_end[of delim _ r "[c]"] u by (simp add: s strtoken_skip_over)
  qed
qed

lemma unbroken_run: "set a \<inter> set delim = {} \<Longrightarrow> unbroken delim f t a"
  by (auto simp: unbroken_def)

theorem strtoken_correct_witness:
  "strtoken (Some '' ab, cd'') '' ,'' (None, True) = Some (Some ''ab'', Some '' cd'', False)
   \<and> strtoken None '' ,'' (Some ('' c'' @ [CHR 0x27] @ ''d''), False) = None"
proof
  have "unbroken '' ,'' False ('' '' @ ''a'') ''b''" by (rule unbroken_run) simp
  then show "strtoken (Some '' ab, cd'') '' ,'' (None, True) = Some (Some ''ab'', Some '' cd'', False)"
    using strtoken_correct[of "Some '' ab, cd''" None "'' ab, cd''" False True "'' ,''" "'' ''" "CHR ''a''" "''b, cd''" "''b''" "CHR '',''" "'' cd''"]
    by (simp add: quote_flip_def)
  have "unbroken '' ,'' False ('' '' @ ''c'') ([CHR 0x27] @ ''d'')" by (rule unbroken_run) simp
  then show "strtoken None '' ,'' (Some ('' c'' @ [CHR 0x27] @ ''d''), False) = None"
    using strtoken_correct[of None "Some ('' c'' @ [CHR 0x27] @ ''d'')" "'' c'' @ [CHR 0x27] @ ''d''" False False "'' ,''" "'' ''" "CHR ''c''" "[CHR 0x27] @ ''d''"]
    by (simp add: quote_flip_def)
qed

section \<open>Escaping can be undone\<close>

fun unescape :: "string \<Rightarrow> string" where
  "unescape (x # c # s) =
     (if x = CHR 0x5C then
        (if c = CHR ''a'' then CHR 0x07 else if c = CHR ''b'' then CHR 0x08 else if c = CHR ''t'' then CHR 0x09
         else if c = CHR ''n'' then CHR 0x0A else if c = CHR ''v'' then CHR 0x0B else if c = CHR ''f'' then CHR 0x0C
         else if c = CHR ''r'' then CHR 0x0D else c) # unescape s
      else x # unescape (c # s))"
| "unescape s = s"

lemma unescape_escape: "unescape (escape c @ s) = c # unescape s"
  by (cases s) auto

lemma length_escape: "length (escape c) = (if needs_escape c then 2 else 1)"
  by (auto simp: needs_escape_def)

text \<open>
  The escaped string with its terminator fills exactly the buffer that \<open>stresc\<close> requests for it,
  contains no bare quote, backslash or control character that it was to replace, and reading the
  escapes back yields the original string.
\<close>

theorem stresc_correct:
  "\<exists>e. stresc src = (e @ [NUL], length e + 1) \<and> unescape e = src
    \<and> set e \<inter> {CHR 0x07, CHR 0x08, CHR 0x09, CHR 0x0A, CHR 0x0B, CHR 0x0C, CHR 0x0D} = {}"
proof -
  let ?e = "concat (map escape src)"
  have u: "unescape (concat (map escape src)) = src" by (induction src) (simp_all only: list.map concat.simps unescape_escape unescape.simps)
  have l: "length ?e = length src + length (filter needs_escape src)"
    by (induction src) (simp_all add: length_escape del: escape.simps)
  have "set (escape c) \<inter> {CHR 0x07, CHR 0x08, CHR 0x09, CHR 0x0A, CHR 0x0B, CHR 0x0C, CHR 0x0D} = {}" for c by auto
  then have "set ?e \<inter> {CHR 0x07, CHR 0x08, CHR 0x09, CHR 0x0A, CHR 0x0B, CHR 0x0C, CHR 0x0D} = {}"
    by (simp only: set_concat set_map) blast
  moreover have "stresc src = (?e @ [NUL], length ?e + 1)" unfolding stresc_def l by simp
  ultimately show ?thesis using u by blast
qed

section \<open>Decimal numbers\<close>

abbreviation digit_val :: "nat \<Rightarrow> char \<Rightarrow> nat" where
  "digit_val v c \<equiv> v * 10 + (code c - 48)"

lemma digit_char: "code (char_of (48 + i mod 10 :: nat)) = 48 + i mod 10"
proof -
  have "48 + i mod 10 < 256" by (simp add: less_le_trans[of _ 58])
  then show ?thesis by (simp add: of_char_of)
qed

lemma itoa_digits_append: "itoa_digits i p = itoa_digits i [] @ p"
proof (induction i arbitrary: p rule: less_induct)
  case (less i)
  show ?case
  proof (cases "i div 10 = 0")
    case True
    then show ?thesis by (subst (1 2) itoa_digits.simps) simp
  next
    case False
    then have "i div 10 < i" by (intro div_less_dividend) (auto intro: Nat.gr0I)
    from less.IH[OF this, of "char_of (48 + i mod 10) # p"] less.IH[OF this, of "[char_of (48 + i mod 10)]"] False
    show ?thesis by (subst (1 2) itoa_digits.simps) (simp add: Let_def)
  qed
qed

lemma itoa_digits_step: "itoa_digits i [] = (if i < 10 then [] else itoa_digits (i div 10) []) @ [char_of (48 + i mod 10)]"
  using itoa_digits_append[of "i div 10" "[char_of (48 + i mod 10)]"]
  by (subst itoa_digits.simps) (auto simp: Let_def)

lemma itoa_digits_props:
  "foldl digit_val 0 (itoa_digits i []) = i \<and> list_all isdigit (itoa_digits i []) \<and> itoa_digits i [] \<noteq> []"
proof (induction i rule: less_induct)
  case (less i)
  have "isdigit (char_of (48 + i mod 10 :: nat))" unfolding isdigit_def digit_char by simp
  then show ?case using less.IH[of "i div 10"] by (subst (1 2 3) itoa_digits_step) (auto simp: digit_char)
qed

lemma itoa_digits_length: "i < 10 ^ k \<Longrightarrow> 0 < k \<Longrightarrow> length (itoa_digits i []) \<le> k"
proof (induction k arbitrary: i)
  case (Suc k)
  show ?case
  proof (cases "i < 10")
    case False
    have "0 < k" using Suc.prems(1) False by (cases k) auto
    moreover have "i div 10 < 10 ^ k" using Suc.prems(1) by (simp add: less_mult_imp_div_less mult.commute)
    ultimately show ?thesis using False Suc.IH[of "i div 10"] by (subst itoa_digits_step) simp
  qed (subst itoa_digits_step, simp)
qed simp

lemma antoi_loop_digits: "list_all isdigit s \<Longrightarrow> antoi_loop (of_nat v) s = of_nat (foldl digit_val v s)"
proof (induction s arbitrary: v)
  case (Cons c s)
  have c: "48 \<le> code c" "code c \<le> 57" using Cons.prems by (simp_all add: isdigit_def)
  then have "code c = 48 \<or> code c = 49 \<or> code c = 50 \<or> code c = 51 \<or> code c = 52 \<or> code c = 53
    \<or> code c = 54 \<or> code c = 55 \<or> code c = 56 \<or> code c = 57" by presburger
  then consider "code c = 48" | "code c = 49" | "code c = 50" | "code c = 51" | "code c = 52" | "code c = 53"
    | "code c = 54" | "code c = 55" | "code c = 56" | "code c = 57" by blast
  then have "scast (of_nat (code c) :: u8) = (of_nat (code c) :: u32)" by cases simp_all
  moreover have "(of_nat (code c) :: u8) = of_char c" by (rule of_nat_of_char)
  ultimately have "(of_nat v * 10 + scast (of_char c :: u8) - 48 :: u32) = of_nat (digit_val v c)"
    using c(1) by (simp add: of_nat_diff)
  then show ?case using Cons.IH[of "digit_val v c"] Cons.prems by (simp only: antoi_loop.simps foldl_Cons list.pred_inject)
qed simp

text \<open>
  \<open>itoa\<close> writes the decimal digits of the number, at most nineteen and a sign for a 64-bit long, which
  with the terminator fit into its static buffer; \<open>antoi\<close> reads them back to the same number as long
  as it is an \<open>int\<close>.
\<close>

theorem itoa_correct:
  assumes "- (2 ^ 63) \<le> i" "i < 2 ^ 63"
  shows "length (itoa i) + 1 \<le> 21
    \<and> (\<exists>d. itoa i = (if i < 0 then [CHR ''-''] else []) @ d \<and> list_all isdigit d \<and> d \<noteq> []
         \<and> int (foldl digit_val 0 d) = \<bar>i\<bar>)
    \<and> (0 \<le> i \<and> i < 2 ^ 31 \<longrightarrow> antoi (itoa i) (length (itoa i)) = Some i)"
proof -
  define n where "n = nat \<bar>i\<bar>"
  have i: "itoa i = (if i < 0 then [CHR ''-''] else []) @ itoa_digits n []" by (simp add: itoa_def n_def)
  have "n < 10 ^ 19" using assms by (simp add: n_def)
  then have len: "length (itoa_digits n []) \<le> 19" by (intro itoa_digits_length) simp_all
  have r: "antoi (itoa i) (length (itoa i)) = Some i" if "0 \<le> i" "i < 2 ^ 31"
  proof -
    have "antoi_loop 0 (itoa_digits n []) = of_nat n"
      using antoi_loop_digits[of "itoa_digits n []" 0] itoa_digits_props[of n] by simp
    moreover have "sint (of_nat n :: u32) = i"
      using that by (simp add: n_def sint_sbintrunc' signed_take_bit_int_eq_self)
    ultimately show ?thesis using that i by (simp add: antoi_def)
  qed
  show ?thesis
  proof (intro conjI impI exI[of _ "itoa_digits n []"])
    show "length (itoa i) + 1 \<le> 21" using len by (simp add: i)
    show "antoi (itoa i) (length (itoa i)) = Some i" if "0 \<le> i \<and> i < 2 ^ 31" using r that by blast
  qed (use itoa_digits_props[of n] i in \<open>simp_all add: n_def\<close>)
qed

theorem itoa_correct_witness:
  "length (itoa (- 9223372036854775808)) + 1 \<le> 21 \<and> antoi (itoa 2147483647) (length (itoa 2147483647)) = Some 2147483647"
  using itoa_correct[of "- 9223372036854775808"] itoa_correct[of 2147483647] by simp

section \<open>Rounding up to a power of two\<close>

lemma unat_two_power: "k < 64 \<Longrightarrow> unat ((2 :: u64) ^ k) = 2 ^ k"
proof -
  assume "k < 64"
  then have "(2 :: nat) ^ k < 2 ^ 64" by (intro power_strict_increasing) simp_all
  moreover have "(2 :: u64) ^ k = of_nat (2 ^ k)" by simp
  ultimately show ?thesis by (simp only: unat_of_nat) (simp add: take_bit_nat_eq_self)
qed

lemma page_align_loop_ok:
  "val \<le> 2 ^ 63 \<Longrightarrow> k \<le> 63 \<Longrightarrow> (\<forall>j<k. 2 ^ j < unat val) \<Longrightarrow>
    \<exists>n. page_align_loop (2 ^ k) val = Some (2 ^ n) \<and> n \<le> 63 \<and> unat val \<le> 2 ^ n \<and> (\<forall>j<n. 2 ^ j < unat val)"
proof (induction "63 - k" arbitrary: k)
  case 0
  then have "k = 63" by simp
  then have "\<not> (2 :: u64) ^ k < val" using 0 by (simp add: not_less)
  moreover have "unat val \<le> 2 ^ 63" using 0(2) by (simp add: word_le_nat_alt)
  ultimately show ?case using 0 \<open>k = 63\<close>
    by (subst page_align_loop.simps) (simp only: if_False, intro exI[of _ 63], simp)
next
  case (Suc m)
  have k: "k < 63" using Suc.hyps(2) by simp
  have u: "unat ((2 :: u64) ^ k) = 2 ^ k" using k by (intro unat_two_power) simp
  show ?case
  proof (cases "(2 :: u64) ^ k < val")
    case True
    have "push_bit 1 ((2 :: u64) ^ k) = 2 ^ Suc k" by (simp add: push_bit_eq_mult)
    then have "page_align_loop (2 ^ k) val = page_align_loop (2 ^ Suc k) val"
      using True by (subst page_align_loop.simps) (simp add: mult.commute)
    moreover have "2 ^ k < unat val" using True u by (simp add: word_less_nat_alt)
    ultimately show ?thesis
      using Suc.hyps(1)[of "Suc k"] Suc.hyps(2) Suc.prems k by (auto simp: less_Suc_eq)
  next
    case False
    then have "unat val \<le> 2 ^ k" using u by (simp add: word_le_nat_alt not_less)
    then show ?thesis using False Suc.prems by (subst page_align_loop.simps) auto
  qed
qed

text \<open>A start value from which the loop does not end.\<close>

definition stuck :: "u64 \<Rightarrow> u64 \<Rightarrow> bool" where
  "stuck i val \<longleftrightarrow> 2 ^ 63 < val \<and> (i = 0 \<or> (\<exists>k<64. i = 2 ^ k))"

lemma stuck_step: "stuck i val \<Longrightarrow> i < val \<and> stuck (push_bit 1 i) val"
proof -
  assume s: "stuck i val"
  then consider "i = 0" | k where "k < 64" "i = 2 ^ k" by (auto simp: stuck_def)
  then show ?thesis
  proof cases
    case 1
    moreover have "0 < val" using s unfolding stuck_def by (meson word_zero_le le_less_trans)
    ultimately show ?thesis using s by (simp add: stuck_def)
  next
    case 2
    have "(2 :: nat) ^ k \<le> 2 ^ 63" using 2(1) by (intro power_increasing) simp_all
    then have "i \<le> 2 ^ 63" using 2 unat_two_power[of k] by (simp add: word_le_nat_alt)
    moreover have p: "push_bit 1 i = 2 ^ Suc k" using 2 by (simp add: push_bit_eq_mult)
    moreover have "push_bit 1 i = 0 \<or> (\<exists>j<64. push_bit 1 i = 2 ^ j)"
    proof (cases "k = 63")
      case False
      then show ?thesis using 2(1) p by (intro disjI2 exI[of _ "Suc k"]) simp
    qed (use p in simp)
    ultimately show ?thesis using s unfolding stuck_def by (meson le_less_trans)
  qed
qed

lemma page_align_loop_stuck: "stuck i val \<Longrightarrow> page_align_loop i val = None"
proof (rule ccontr)
  assume s: "stuck i val" and "page_align_loop i val \<noteq> None"
  then obtain r where "page_align_loop i val = Some r" by auto
  then have "\<not> stuck i val"
  proof (rule page_align_loop.raw_induct[where P="\<lambda>i val r. \<not> stuck i val", rotated])
    fix f i val and r :: u64
    assume "\<And>i val r. f i val = Some r \<Longrightarrow> \<not> stuck i val" "(if i < val then f (push_bit 1 i) val else Some i) = Some r"
    then show "\<not> stuck i val" using stuck_step[of i val] by (auto split: if_splits)
  qed
  then show False using s by blast
qed

text \<open>
  \<open>page_align\<close> returns the least power of two that is not smaller than its argument, for every
  argument up to \<open>2 ^ 63\<close>; beyond that the shifted value becomes zero and the loop does not end.
\<close>

theorem page_align_correct:
  "(val \<le> 2 ^ 63 \<longrightarrow> (\<exists>n\<le>63. page_align val = Some (2 ^ n) \<and> unat val \<le> 2 ^ n \<and> (\<forall>j<n. 2 ^ j < unat val)))
   \<and> (2 ^ 63 < val \<longrightarrow> page_align val = None)"
proof (intro conjI impI)
  assume "val \<le> 2 ^ 63"
  then show "\<exists>n\<le>63. page_align val = Some (2 ^ n) \<and> unat val \<le> 2 ^ n \<and> (\<forall>j<n. 2 ^ j < unat val)"
    using page_align_loop_ok[of val 0] by (auto simp: page_align_def)
next
  assume "2 ^ 63 < val"
  then have "stuck 1 val" by (auto simp: stuck_def intro!: exI[of _ 0])
  then show "page_align val = None" by (simp add: page_align_def page_align_loop_stuck)
qed

theorem page_align_correct_witness:
  "(\<exists>n\<le>63. page_align 4097 = Some (2 ^ n) \<and> 4097 \<le> (2 :: nat) ^ n) \<and> page_align 0x9000000000000000 = None"
  using page_align_correct[of 4097] page_align_correct[of "0x9000000000000000"] by auto

end
