(* ===== verification/Containers.thy ===== *)
theory Containers imports
  CString Interfaces
begin

text \<open>
  The in-memory containers: src/stack.c (a stack that can also be emptied from its bottom),
  src/vector.c (a growing array) and src/hashtable.c (chained buckets).  Sizes are C \<open>int\<close>s; \<open>None\<close> is
  an access outside an array, a division by zero or an overflow of a size.
\<close>

section \<open>Stack\<close>

text \<open>A slot of the array: zeroed, set, or not initialised, as behind a \<open>zrealloc\<close>.\<close>

datatype 'a slot = Null | Ptr 'a | Garbage

record 'a qstack =
  sk_contents :: "'a slot list"
  sk_max_size :: int
  sk_size :: int
  sk_top :: int
  sk_rtop :: int

definition stack_init :: "int \<Rightarrow> 'a qstack" where
  "stack_init max_size = \<lparr>sk_contents = replicate (nat max_size) Null, sk_max_size = max_size,
     sk_size = 0, sk_top = - 1, sk_rtop = 0\<rparr>"

definition slot_at :: "'a qstack \<Rightarrow> int \<Rightarrow> 'a slot option" where
  "slot_at stack i = (if 0 \<le> i \<and> i < int (length (sk_contents stack)) then Some (sk_contents stack ! nat i) else None)"

definition stack_push :: "'a qstack \<Rightarrow> 'a \<Rightarrow> 'a qstack option" where
  "stack_push stack element = do {
     stack \<leftarrow> (if sk_top stack \<ge> sk_max_size stack - 1 then do {
         zassert (sk_max_size stack * 2 < 2 ^ 31);
         Some (stack\<lparr>sk_contents := sk_contents stack
             @ replicate (nat (sk_max_size stack * 2) - length (sk_contents stack)) Garbage,
           sk_max_size := sk_max_size stack * 2\<rparr>) }
       else Some stack);
     let stack = stack\<lparr>sk_size := sk_size stack + 1, sk_top := sk_top stack + 1\<rparr>;
     _ \<leftarrow> slot_at stack (sk_top stack);
     Some (stack\<lparr>sk_contents := (sk_contents stack)[nat (sk_top stack) := Ptr element]\<rparr>) }"

definition stack_pop :: "'a qstack \<Rightarrow> ('a slot \<times> 'a qstack) option" where
  "stack_pop stack =
     (if sk_size stack \<le> 0 then Some (Null, stack)
      else do {
        e \<leftarrow> slot_at stack (sk_top stack);
        Some (e, stack\<lparr>sk_size := sk_size stack - 1, sk_top := sk_top stack - 1\<rparr>) })"

definition stack_offset_peek :: "'a qstack \<Rightarrow> int \<Rightarrow> 'a slot option" where
  "stack_offset_peek stack offset =
     (if sk_size stack \<le> 0 then Some Null else slot_at stack (sk_top stack - offset))"

definition stack_offset_rpeek :: "'a qstack \<Rightarrow> int \<Rightarrow> 'a slot option" where
  "stack_offset_rpeek stack offset =
     (if sk_size stack \<le> 0 then Some Null else slot_at stack (sk_rtop stack + offset))"

definition stack_peek :: "'a qstack \<Rightarrow> 'a slot option" where
  "stack_peek stack = (if sk_size stack \<le> 0 then Some Null else slot_at stack (sk_top stack))"

definition stack_rpeek :: "'a qstack \<Rightarrow> 'a slot option" where
  "stack_rpeek stack = (if sk_size stack \<le> 0 then Some Null else slot_at stack 0)"

definition stack_rpop :: "'a qstack \<Rightarrow> ('a slot \<times> 'a qstack) option" where
  "stack_rpop stack =
     (if sk_size stack \<le> 0 then Some (Null, stack)
      else do {
        e \<leftarrow> slot_at stack (sk_rtop stack);
        Some (e, stack\<lparr>sk_size := sk_size stack - 1, sk_rtop := sk_rtop stack + 1\<rparr>) })"

text \<open>What \<open>stack_destroy\<close> frees; to free a slot that was never initialised is undefined.\<close>

definition stack_destroy :: "'a qstack \<Rightarrow> ('a list \<times> 'a qstack) option" where
  "stack_destroy stack =
     (if Garbage \<in> set (take (nat (sk_max_size stack)) (sk_contents stack)) then None
      else Some (concat (map (\<lambda>x. case x of Ptr e \<Rightarrow> [e] | _ \<Rightarrow> []) (take (nat (sk_max_size stack)) (sk_contents stack))),
        \<lparr>sk_contents = [], sk_max_size = 0, sk_size = 0, sk_top = - 1, sk_rtop = 0\<rparr>))"

text \<open>The elements from the bottom to the top, and the invariant of the indices.\<close>

definition stack_list :: "'a qstack \<Rightarrow> 'a slot list" where
  "stack_list stack = map (\<lambda>i. sk_contents stack ! nat i) [sk_rtop stack..sk_top stack]"

definition stack_ok :: "'a qstack \<Rightarrow> bool" where
  "stack_ok stack \<longleftrightarrow> 0 < sk_max_size stack \<and> int (length (sk_contents stack)) = sk_max_size stack
     \<and> 0 \<le> sk_rtop stack \<and> sk_rtop stack \<le> sk_top stack + 1 \<and> sk_top stack < sk_max_size stack
     \<and> sk_size stack = sk_top stack - sk_rtop stack + 1 \<and> Null \<notin> set (stack_list stack) \<and> Garbage \<notin> set (stack_list stack)"

text \<open>The contract of a list that grows at one end and shrinks at both.\<close>

locale double_ended =
  fixes ok :: "'s \<Rightarrow> bool" and room :: "'s \<Rightarrow> bool" and els :: "'s \<Rightarrow> 'e list" and none :: 'e
    and push :: "'s \<Rightarrow> 'a \<Rightarrow> 's option" and pop rpop :: "'s \<Rightarrow> ('e \<times> 's) option" and elem :: "'a \<Rightarrow> 'e"
  assumes push_law: "ok s \<Longrightarrow> room s \<Longrightarrow> \<exists>s'. push s x = Some s' \<and> ok s' \<and> els s' = els s @ [elem x]"
    and pop_law: "ok s \<Longrightarrow> \<exists>s'. pop s = Some (if els s = [] then none else last (els s), s') \<and> ok s' \<and> els s' = butlast (els s)"
    and rpop_law: "ok s \<Longrightarrow> \<exists>s'. rpop s = Some (if els s = [] then none else hd (els s), s') \<and> ok s' \<and> els s' = tl (els s)"
begin

lemma push_pop: "ok s \<Longrightarrow> room s \<Longrightarrow> \<exists>s' s''. push s x = Some s' \<and> pop s' = Some (elem x, s'') \<and> els s'' = els s"
  using push_law[of s x] pop_law by fastforce

lemma push_rpop: "ok s \<Longrightarrow> room s \<Longrightarrow>
    \<exists>s' s''. push s x = Some s' \<and> rpop s' = Some (hd (els s @ [elem x]), s'') \<and> els s'' = tl (els s @ [elem x])"
  using push_law[of s x] rpop_law by fastforce

text \<open>Emptied from the bottom, the elements come out in the order in which they went in.\<close>

fun drain :: "nat \<Rightarrow> 's \<Rightarrow> ('e list \<times> 's) option" where
  "drain 0 s = Some ([], s)"
| "drain (Suc n) s = do { (e, s) \<leftarrow> rpop s; (es, s) \<leftarrow> drain n s; Some (e # es, s) }"

lemma drain_all: "ok s \<Longrightarrow> length (els s) = n \<Longrightarrow> \<exists>s'. drain n s = Some (els s, s') \<and> els s' = []"
proof (induction n arbitrary: s)
  case (Suc n)
  obtain s' where s': "rpop s = Some (hd (els s), s')" "ok s'" "els s' = tl (els s)"
    using rpop_law[OF Suc.prems(1)] Suc.prems(2) by (cases "els s") auto
  then obtain s'' where "drain n s' = Some (tl (els s), s'')" "els s'' = []"
    using Suc.IH[of s'] Suc.prems(2) by auto
  then show ?case using s' Suc.prems(2) by (cases "els s") auto
qed simp

end

lemma stack_list_push:
  assumes "stack_ok s" and c: "\<And>i. 0 \<le> i \<Longrightarrow> i \<le> sk_top s \<Longrightarrow> c ! nat i = sk_contents s ! nat i"
    and "nat (sk_top s + 1) < length c"
  shows "map (\<lambda>i. (c[nat (sk_top s + 1) := x]) ! nat i) [sk_rtop s..sk_top s + 1] = stack_list s @ [x]"
proof -
  have r: "0 \<le> sk_rtop s" "sk_rtop s \<le> sk_top s + 1" using assms(1) by (auto simp: stack_ok_def)
  then have "[sk_rtop s..sk_top s + 1] = [sk_rtop s..sk_top s] @ [sk_top s + 1]"
    using upto_rec2[of "sk_rtop s" "sk_top s + 1"] by simp
  moreover have "map (\<lambda>i. (c[nat (sk_top s + 1) := x]) ! nat i) [sk_rtop s..sk_top s] = stack_list s"
    unfolding stack_list_def using c r by (intro map_cong) (auto simp: nth_list_update)
  ultimately show ?thesis using assms(3) by simp
qed

lemma stack_empty_iff: "stack_ok s \<Longrightarrow> sk_size s \<le> 0 \<longleftrightarrow> stack_list s = []"
  by (auto simp: stack_ok_def stack_list_def)

lemma stack_pop_ok:
  assumes "stack_ok s"
  shows "\<exists>s'. stack_pop s = Some (if stack_list s = [] then Null else last (stack_list s), s')
    \<and> stack_ok s' \<and> stack_list s' = butlast (stack_list s)"
proof (cases "sk_size s \<le> 0")
  case True then show ?thesis using assms stack_empty_iff[OF assms] by (simp add: stack_pop_def)
next
  case False
  define s' where "s' = s\<lparr>sk_size := sk_size s - 1, sk_top := sk_top s - 1\<rparr>"
  have r: "sk_rtop s \<le> sk_top s" "0 \<le> sk_rtop s" "sk_top s < int (length (sk_contents s))"
    using assms False by (auto simp: stack_ok_def)
  have sl: "stack_list s = stack_list s' @ [sk_contents s ! nat (sk_top s)]"
    using upto_rec2[OF r(1)] by (simp add: stack_list_def s'_def)
  have "stack_pop s = Some (last (stack_list s), s')"
    using r False sl by (simp add: stack_pop_def slot_at_def s'_def)
  moreover have "stack_ok s'"
  proof -
    have "set (stack_list s') \<subseteq> set (stack_list s)" using sl by auto
    then show ?thesis using assms r by (auto simp: stack_ok_def s'_def)
  qed
  ultimately show ?thesis using sl by auto
qed

lemma stack_rpop_ok:
  assumes "stack_ok s"
  shows "\<exists>s'. stack_rpop s = Some (if stack_list s = [] then Null else hd (stack_list s), s')
    \<and> stack_ok s' \<and> stack_list s' = tl (stack_list s)"
proof (cases "sk_size s \<le> 0")
  case True then show ?thesis using assms stack_empty_iff[OF assms] by (simp add: stack_rpop_def)
next
  case False
  define s' where "s' = s\<lparr>sk_size := sk_size s - 1, sk_rtop := sk_rtop s + 1\<rparr>"
  have r: "sk_rtop s \<le> sk_top s" "0 \<le> sk_rtop s" "sk_top s < int (length (sk_contents s))"
    using assms False by (auto simp: stack_ok_def)
  have sl: "stack_list s = (sk_contents s ! nat (sk_rtop s)) # stack_list s'"
    using upto_rec1[OF r(1)] by (simp add: stack_list_def s'_def)
  have "stack_rpop s = Some (hd (stack_list s), s')"
    using r False sl by (simp add: stack_rpop_def slot_at_def s'_def)
  moreover have "stack_ok s'"
  proof -
    have "set (stack_list s') \<subseteq> set (stack_list s)" using sl by auto
    then show ?thesis using assms r by (auto simp: stack_ok_def s'_def)
  qed
  ultimately show ?thesis using sl by auto
qed

lemma stack_push_ok:
  assumes ok: "stack_ok s" and room: "sk_max_size s * 2 < 2 ^ 31"
  shows "\<exists>s'. stack_push s x = Some s' \<and> stack_ok s' \<and> stack_list s' = stack_list s @ [Ptr x]"
proof -
  define c where "c = (if sk_top s \<ge> sk_max_size s - 1
      then sk_contents s @ replicate (nat (sk_max_size s * 2) - length (sk_contents s)) Garbage else sk_contents s)"
  define m where "m = (if sk_top s \<ge> sk_max_size s - 1 then sk_max_size s * 2 else sk_max_size s)"
  define s' where "s' = s\<lparr>sk_contents := c[nat (sk_top s + 1) := Ptr x], sk_max_size := m,
      sk_size := sk_size s + 1, sk_top := sk_top s + 1\<rparr>"
  have r: "sk_rtop s \<le> sk_top s + 1" "0 \<le> sk_rtop s" "sk_top s < sk_max_size s" "int (length (sk_contents s)) = sk_max_size s"
    "0 < sk_max_size s" "sk_size s = sk_top s - sk_rtop s + 1"
    using ok by (auto simp: stack_ok_def)
  have lc: "int (length c) = m" "sk_top s + 1 < m" using r by (auto simp: c_def m_def)
  have cn: "c ! nat i = sk_contents s ! nat i" if "0 \<le> i" "i \<le> sk_top s" for i
    using that r by (auto simp: c_def nth_append)
  have "stack_push s x = Some s'"
    using r lc room unfolding stack_push_def s'_def
    by (cases "sk_top s \<ge> sk_max_size s - 1") (auto simp: c_def m_def slot_at_def Let_def)
  moreover have sl: "stack_list s' = stack_list s @ [Ptr x]"
    using stack_list_push[OF ok, of c "Ptr x"] cn lc r
    by (auto simp: stack_list_def s'_def)
  moreover have "stack_ok s'"
  proof -
    have "Null \<notin> set (stack_list s')" "Garbage \<notin> set (stack_list s')" using sl ok by (auto simp: stack_ok_def)
    then show ?thesis unfolding stack_ok_def using r lc by (simp add: s'_def)
  qed
  ultimately show ?thesis by blast
qed

interpretation stack: double_ended stack_ok "\<lambda>s. sk_max_size s * 2 < 2 ^ 31" stack_list Null stack_push stack_pop stack_rpop Ptr
  by unfold_locales (blast intro: stack_push_ok stack_pop_ok stack_rpop_ok)+

lemma stack_init_ok: "0 < n \<Longrightarrow> stack_ok (stack_init n) \<and> stack_list (stack_init n) = []"
  by (simp add: stack_ok_def stack_list_def stack_init_def)

lemma stack_peek_ok:
  assumes "stack_ok s"
  shows "stack_peek s = Some (if stack_list s = [] then Null else last (stack_list s))"
    and "stack_offset_rpeek s 0 = Some (if stack_list s = [] then Null else hd (stack_list s))"
    and "stack_rpeek s = Some (if stack_list s = [] then Null else sk_contents s ! 0)"
proof -
  have e: "stack_list s = [] \<longleftrightarrow> sk_size s \<le> 0" using stack_empty_iff[OF assms] by simp
  have r: "sk_top s < int (length (sk_contents s))" "0 \<le> sk_rtop s" "sk_size s = sk_top s - sk_rtop s + 1"
    "0 < length (sk_contents s)"
    using assms by (auto simp: stack_ok_def)
  show "stack_rpeek s = Some (if stack_list s = [] then Null else sk_contents s ! 0)"
    using e r by (simp add: stack_rpeek_def slot_at_def)
  show "stack_peek s = Some (if stack_list s = [] then Null else last (stack_list s))"
    using e r upto_rec2[of "sk_rtop s" "sk_top s"] by (auto simp: stack_peek_def slot_at_def stack_list_def)
  show "stack_offset_rpeek s 0 = Some (if stack_list s = [] then Null else hd (stack_list s))"
    using e r upto_rec1[of "sk_rtop s" "sk_top s"] by (auto simp: stack_offset_rpeek_def slot_at_def stack_list_def)
qed

text \<open>
  On a stack that satisfies its invariant and has room, \<open>stack_push\<close> appends an element, after which
  \<open>stack_pop\<close> takes the newest and \<open>stack_rpop\<close> the oldest element off; \<open>stack_peek\<close> and
  \<open>stack_offset_rpeek\<close> at 0 show what they would take.  \<open>stack_rpeek\<close> shows the first slot
  of the array instead, so it shows the next \<open>stack_rpop\<close> only while nothing has been taken from the bottom.
\<close>

theorem stack_correct:
  assumes "stack_ok s" "sk_max_size s * 2 < 2 ^ 31"
  shows "(\<exists>s'. stack_push s x = Some s' \<and> stack_ok s' \<and> stack_list s' = stack_list s @ [Ptr x]
      \<and> (\<exists>t. stack_pop s' = Some (Ptr x, t) \<and> stack_list t = stack_list s)
      \<and> (\<exists>t. stack_rpop s' = Some (hd (stack_list s @ [Ptr x]), t) \<and> stack_list t = tl (stack_list s @ [Ptr x])))
    \<and> stack_peek s = Some (if stack_list s = [] then Null else last (stack_list s))
    \<and> stack_offset_rpeek s 0 = Some (if stack_list s = [] then Null else hd (stack_list s))
    \<and> stack_rpeek s = Some (if stack_list s = [] then Null else sk_contents s ! 0)"
proof -
  obtain s' where s': "stack_push s x = Some s'" "stack_ok s'" "stack_list s' = stack_list s @ [Ptr x]"
    using stack.push_law[OF assms, of x] by blast
  then show ?thesis
    using stack.push_pop[OF assms, of x] stack.push_rpop[OF assms, of x] stack_peek_ok[OF assms(1)] by auto
qed

theorem stack_correct_witness:
  "(\<exists>s. stack_push (stack_init 1) (7::nat) = Some s \<and> stack_list s = [Ptr 7])
    \<and> map_option (stack_rpeek \<circ> snd) (stack_push (stack_init 4) (1::nat) \<bind> (\<lambda>s. stack_push s 2) \<bind> stack_rpop)
      = Some (Some (Ptr 1))"
proof -
  have "\<exists>s. stack_push (stack_init 1) (7::nat) = Some s \<and> stack_list s = [Ptr 7]"
    using stack_correct[of "stack_init 1 :: nat qstack" 7] stack_init_ok[of 1, where 'a = nat]
    by (auto simp: stack_init_def)
  then show ?thesis by (simp add: stack_init_def stack_push_def stack_rpop_def stack_rpeek_def slot_at_def eval_nat_numeral)
qed

section \<open>Vector\<close>

record 'a vector =
  vc_buffer :: "'a slot list"
  vc_size :: u32
  vc_alloc_size :: u32

text \<open>A request that the address space cannot hold leaves a null pointer for the array.\<close>

definition alloc_vector :: "u64 \<Rightarrow> 'a vector" where
  "alloc_vector sz = \<lparr>vc_buffer = (if unat sz * 32 < 2 ^ 63 then replicate (tree_zcalloc_slots (unat sz)) Null else []), vc_size = 0, vc_alloc_size = ucast sz\<rparr>"

text \<open>
  Writing at a full vector doubles the array first: a vector allocated for no elements stays at size
  zero and the write falls outside, and so it does when the doubled size wraps around.
\<close>

definition vector_append :: "'a vector \<Rightarrow> 'a \<Rightarrow> 'a vector option" where
  "vector_append v item = do {
     let v = (if vc_size v = vc_alloc_size v
              then (let n = vc_alloc_size v * 2
                    in v\<lparr>vc_alloc_size := n,
                         vc_buffer := take (unat n) (vc_buffer v) @ replicate (unat n - length (vc_buffer v)) Garbage\<rparr>)
              else v);
     zassert (unat (vc_size v) < length (vc_buffer v));
     Some (v\<lparr>vc_buffer := (vc_buffer v)[unat (vc_size v) := Ptr item], vc_size := vc_size v + 1\<rparr>) }"

definition vector_at :: "'a vector \<Rightarrow> u32 \<Rightarrow> 'a slot option" where
  "vector_at v idx = (if idx \<ge> vc_size v then Some Null
     else if unat idx < length (vc_buffer v) then Some (vc_buffer v ! unat idx) else None)"

definition vector_append_str :: "string vector \<Rightarrow> string \<Rightarrow> string vector option" where
  "vector_append_str v str = (let item = strdup str in vector_append v item)"

definition vector_list :: "'a vector \<Rightarrow> 'a slot list" where
  "vector_list v = take (unat (vc_size v)) (vc_buffer v)"

definition vector_ok :: "'a vector \<Rightarrow> bool" where
  "vector_ok v \<longleftrightarrow> unat (vc_alloc_size v) \<le> length (vc_buffer v) \<and> vc_size v \<le> vc_alloc_size v"

lemma alloc_vector_ok: "unat sz < 2 ^ 32 \<Longrightarrow> vector_ok (alloc_vector sz :: 'a vector) \<and> vector_list (alloc_vector sz :: 'a vector) = []"
  by (simp add: vector_ok_def vector_list_def alloc_vector_def unsigned_ucast_eq take_bit_nat_eq_self)

lemma vector_at_ok: "vector_ok v \<Longrightarrow> vector_at v idx
    = Some (if unat idx < length (vector_list v) then vector_list v ! unat idx else Null)"
  by (auto simp: vector_at_def vector_ok_def vector_list_def word_le_nat_alt word_less_nat_alt not_le)

lemma vector_append_ok:
  assumes ok: "vector_ok v" and "0 < vc_alloc_size v" "unat (vc_alloc_size v) * 2 < 2 ^ 32"
  shows "\<exists>v'. vector_append v x = Some v' \<and> vector_ok v' \<and> vector_list v' = vector_list v @ [Ptr x]
    \<and> unat (vc_alloc_size v') = (if vc_size v = vc_alloc_size v then 2 else 1) * unat (vc_alloc_size v)"
proof -
  have d: "unat (vc_alloc_size v * 2) = unat (vc_alloc_size v) * 2"
    using assms(3) by (subst unat_mult_no_wrap) auto
  have z: "0 < unat (vc_alloc_size v)" using assms(2) by (simp add: word_less_nat_alt)
  have le: "unat (vc_size v) \<le> unat (vc_alloc_size v)" using ok by (simp add: vector_ok_def word_le_nat_alt)
  have s1: "unat (vc_size v + 1) = unat (vc_size v) + 1"
    using le assms(3) by (subst unat_add_no_wrap) auto
  show ?thesis
  proof (cases "vc_size v = vc_alloc_size v")
    case True
    then show ?thesis using ok d z s1 True
      by (auto simp: vector_append_def vector_ok_def vector_list_def Let_def word_le_nat_alt take_Suc_conv_app_nth nth_append list_update_append)
  next
    case False
    then have "unat (vc_size v) < unat (vc_alloc_size v)" using le by (metis le_neq_implies_less word_unat_eq_iff)
    then show ?thesis using ok z s1 False
      by (auto simp: vector_append_def vector_ok_def vector_list_def Let_def word_le_nat_alt take_Suc_conv_app_nth)
  qed
qed

lemma vector_append_none:
  assumes "vector_ok v" "vc_size v = vc_alloc_size v" "unat (vc_alloc_size v) = 0 \<or> unat (vc_alloc_size v) \<ge> 2 ^ 31"
  shows "vector_append v x = None"
proof -
  have "unat (vc_alloc_size v * 2) \<le> unat (vc_alloc_size v)"
    using assms(3) unat_less[of "vc_alloc_size v"] by (auto simp: unat_word_ariths le_mod_geq)
  then show ?thesis using assms(1,2) by (simp add: vector_append_def vector_ok_def Let_def)
qed

text \<open>
  An append puts the element behind the others, with the array doubled when it was full, and
  \<open>vector_at\<close> then reads every element, the null pointer behind the last one.  A full vector of
  allocated size zero, or of \<open>2 ^ 31\<close> elements or more, is written outside its array instead.
\<close>

theorem vector_correct:
  assumes "vector_ok v"
  shows "(0 < vc_alloc_size v \<longrightarrow> unat (vc_alloc_size v) * 2 < 2 ^ 32 \<longrightarrow>
      (\<exists>v'. vector_append v x = Some v' \<and> vector_ok v'
        \<and> (\<forall>idx. vector_at v' idx = Some (if unat idx < unat (vc_size v) then vector_list v ! unat idx
              else if idx = vc_size v then Ptr x else Null))))
    \<and> (vc_size v = vc_alloc_size v \<longrightarrow> unat (vc_alloc_size v) = 0 \<or> unat (vc_alloc_size v) \<ge> 2 ^ 31 \<longrightarrow>
      vector_append v x = None)"
proof (intro conjI impI)
  assume *: "0 < vc_alloc_size v" "unat (vc_alloc_size v) * 2 < 2 ^ 32"
  obtain v' where v': "vector_append v x = Some v'" "vector_ok v'" "vector_list v' = vector_list v @ [Ptr x]"
    using vector_append_ok[OF assms *] by blast
  have "length (vector_list v) = unat (vc_size v)"
    using assms by (simp add: vector_list_def vector_ok_def word_le_nat_alt)
  then have "\<forall>idx. vector_at v' idx = Some (if unat idx < unat (vc_size v) then vector_list v ! unat idx
              else if idx = vc_size v then Ptr x else Null)"
    using v'(3) by (auto simp: vector_at_ok[OF v'(2)] nth_append word_unat_eq_iff)
  then show "\<exists>v'. vector_append v x = Some v' \<and> vector_ok v'
        \<and> (\<forall>idx. vector_at v' idx = Some (if unat idx < unat (vc_size v) then vector_list v ! unat idx
              else if idx = vc_size v then Ptr x else Null))"
    using v' by blast
qed (use vector_append_none[OF assms] in blast)

theorem vector_correct_witness:
  "vector_append (alloc_vector 0 :: nat vector) 5 = None
    \<and> (\<exists>v. vector_append (alloc_vector 2 :: nat vector) 5 = Some v \<and> vector_at v 0 = Some (Ptr 5))"
  using vector_correct[of "alloc_vector 0 :: nat vector" 5] vector_correct[of "alloc_vector 2 :: nat vector" 5]
    alloc_vector_ok[of 0, where 'a = nat] alloc_vector_ok[of 2, where 'a = nat]
  by (simp add: alloc_vector_def) metis

end
