(* ===== verification/Hashtable.thy ===== *)
theory Hashtable imports
  CString Interfaces
begin

text \<open>
  src/hashtable.c: a dictionary of strings with chained buckets.  Sizes are C \<open>int\<close>s; \<open>None\<close> is a division
  by a table size of zero or an overflow of the size.
\<close>

abbreviation (input) MULTIPLIER :: u64 where "MULTIPLIER \<equiv> 97"
abbreviation (input) GROWTH_FACTOR :: int where "GROWTH_FACTOR \<equiv> 2"
abbreviation (input) MAX_LOAD_FACTOR :: int where "MAX_LOAD_FACTOR \<equiv> 1"

record hashtable =
  ht_size :: int
  ht_n :: int
  ht_table :: "(string \<times> string) list list"

definition alloc_hashtable :: "int \<Rightarrow> hashtable" where
  "alloc_hashtable sz = \<lparr>ht_size = sz, ht_n = 0, ht_table = replicate (nat sz) []\<rparr>"

fun hash_generate_loop :: "u64 \<Rightarrow> string \<Rightarrow> u64" where
  "hash_generate_loop h [] = h"
| "hash_generate_loop h (c # us) = hash_generate_loop (h * MULTIPLIER + of_char c) us"

definition hash_generate :: "string \<Rightarrow> u64" where
  "hash_generate s = hash_generate_loop 0 s"

text \<open>\<open>hash_generate(key) % d->size\<close>: the size is converted to \<open>unsigned long\<close>.\<close>

definition bucket :: "hashtable \<Rightarrow> string \<Rightarrow> nat option" where
  "bucket d key = (if ht_size d = 0 then None
     else Some (unat (hash_generate key) mod unat (word_of_int (ht_size d) :: u64)))"

text \<open>
  \<open>hashtable_put\<close> and \<open>hashtable_grow\<close> call each other: \<open>put\<close> stands for the call in the loops of the
  latter.  Growing walks every chain from its head and puts each entry at the head of its new chain.
\<close>

fun grow_chain :: "(hashtable \<Rightarrow> string \<Rightarrow> string \<Rightarrow> hashtable option) \<Rightarrow> hashtable \<Rightarrow> (string \<times> string) list
    \<Rightarrow> hashtable option" where
  "grow_chain put d2 [] = Some d2"
| "grow_chain put d2 ((key, v) # es) = do { d2 \<leftarrow> put d2 key v; grow_chain put d2 es }"

fun grow_table :: "(hashtable \<Rightarrow> string \<Rightarrow> string \<Rightarrow> hashtable option) \<Rightarrow> hashtable \<Rightarrow> (string \<times> string) list list
    \<Rightarrow> hashtable option" where
  "grow_table put d2 [] = Some d2"
| "grow_table put d2 (es # t) = do { d2 \<leftarrow> grow_chain put d2 es; grow_table put d2 t }"

definition hashtable_grow :: "(hashtable \<Rightarrow> string \<Rightarrow> string \<Rightarrow> hashtable option) \<Rightarrow> hashtable \<Rightarrow> hashtable option" where
  "hashtable_grow put d = do {
     zassert (ht_size d * GROWTH_FACTOR < 2 ^ 31);
     grow_table put (alloc_hashtable (ht_size d * GROWTH_FACTOR)) (ht_table d) }"

fun hashtable_put_fuel :: "nat \<Rightarrow> hashtable \<Rightarrow> string \<Rightarrow> string \<Rightarrow> hashtable option" where
  "hashtable_put_fuel 0 d key v = None"
| "hashtable_put_fuel (Suc fuel) d key v = do {
     d \<leftarrow> (if ht_n d \<ge> ht_size d * MAX_LOAD_FACTOR then hashtable_grow (hashtable_put_fuel fuel) d else Some d);
     h \<leftarrow> bucket d key;
     Some (d\<lparr>ht_table := (ht_table d)[h := (key, v) # ht_table d ! h], ht_n := ht_n d + 1\<rparr>) }"

text \<open>The table that is being filled has twice the room it needs, so the calls nest once.\<close>

definition hashtable_put :: "hashtable \<Rightarrow> string \<Rightarrow> string \<Rightarrow> hashtable option" where
  "hashtable_put = hashtable_put_fuel 2"

fun chain_get :: "(string \<times> string) list \<Rightarrow> string \<Rightarrow> string option" where
  "chain_get [] key = None"
| "chain_get ((k, v) # es) key = (if k = key then Some v else chain_get es key)"

definition hashtable_get :: "hashtable \<Rightarrow> string \<Rightarrow> string option option" where
  "hashtable_get d key = do { h \<leftarrow> bucket d key; Some (chain_get (ht_table d ! h) key) }"

fun chain_delete :: "(string \<times> string) list \<Rightarrow> string \<Rightarrow> (string \<times> string) list" where
  "chain_delete [] key = []"
| "chain_delete ((k, v) # es) key = (if k = key then es else (k, v) # chain_delete es key)"

definition hashtable_delete :: "hashtable \<Rightarrow> string \<Rightarrow> hashtable option" where
  "hashtable_delete d key = do {
     h \<leftarrow> bucket d key;
     Some (d\<lparr>ht_table := (ht_table d)[h := chain_delete (ht_table d ! h) key]\<rparr>) }"

section \<open>Chains\<close>

text \<open>The values stored under a key, newest first, and the invariant of the table.\<close>

definition chain_values :: "string \<Rightarrow> (string \<times> string) list \<Rightarrow> string list" where
  "chain_values key es = map snd (filter (\<lambda>e. fst e = key) es)"

definition hash_slot :: "hashtable \<Rightarrow> string \<Rightarrow> nat" where
  "hash_slot d key = unat (hash_generate key) mod nat (ht_size d)"

definition ht_values :: "hashtable \<Rightarrow> string \<Rightarrow> string list" where
  "ht_values d key = chain_values key (ht_table d ! hash_slot d key)"

definition hashtable_ok :: "hashtable \<Rightarrow> bool" where
  "hashtable_ok d \<longleftrightarrow> 0 < ht_size d \<and> ht_size d < 2 ^ 31 \<and> length (ht_table d) = nat (ht_size d) \<and> ht_n d \<le> ht_size d
     \<and> int (length (concat (ht_table d))) \<le> ht_n d
     \<and> (\<forall>i < length (ht_table d). \<forall>e \<in> set (ht_table d ! i). hash_slot d (fst e) = i)"

lemma chain_values_simps [simp]: "chain_values key [] = []"
  "chain_values key ((k, v) # es) = (if k = key then v # chain_values key es else chain_values key es)"
  "chain_values key (xs @ ys) = chain_values key xs @ chain_values key ys"
  by (simp_all add: chain_values_def)

lemma chain_get_values: "chain_get es key = (case chain_values key es of [] \<Rightarrow> None | v # _ \<Rightarrow> Some v)"
  by (induction es key rule: chain_get.induct) auto

lemma chain_delete_values: "chain_values k (chain_delete es key) = (if k = key then tl (chain_values k es) else chain_values k es)"
  by (induction es key rule: chain_delete.induct) auto

lemma chain_delete_subset: "set (chain_delete es key) \<subseteq> set es" "length (chain_delete es key) \<le> length es"
  by (induction es key rule: chain_delete.induct) auto

lemma hash_slot_less: "0 < ht_size d \<Longrightarrow> hash_slot d key < nat (ht_size d)"
  by (simp add: hash_slot_def)

lemma unat_size: "0 < n \<Longrightarrow> n < 2 ^ 31 \<Longrightarrow> unat (word_of_int n :: u64) = nat n"
  by (simp add: unat_eq_nat_uint uint_word_of_int_eq take_bit_int_eq_self)

lemma bucket_ok: "0 < ht_size d \<Longrightarrow> ht_size d < 2 ^ 31 \<Longrightarrow> bucket d key = Some (hash_slot d key)"
  by (simp add: bucket_def hash_slot_def unat_size)

lemma ht_values_update:
  assumes "hash_slot d key < length (ht_table d)"
  shows "ht_values (d\<lparr>ht_table := (ht_table d)[hash_slot d key := es], ht_n := n\<rparr>) k
    = (if hash_slot d k = hash_slot d key then chain_values k es else ht_values d k)"
  using assms by (auto simp: ht_values_def hash_slot_def)

lemma length_concat_update:
  "i < length t \<Longrightarrow> length (concat (t[i := es])) + length (t ! i) = length (concat t) + length es"
proof (induction t arbitrary: i)
  case (Cons x t) then show ?case by (cases i) auto
qed simp

lemma hashtable_put_room:
  assumes ok: "hashtable_ok d" and n: "ht_n d < ht_size d"
  shows "\<exists>d'. hashtable_put_fuel (Suc f) d key v = Some d' \<and> hashtable_ok d' \<and> ht_size d' = ht_size d
    \<and> ht_n d' = ht_n d + 1 \<and> (\<forall>k. ht_values d' k = (if k = key then [v] else []) @ ht_values d k)"
proof -
  define h where "h = hash_slot d key"
  define d' where "d' = d\<lparr>ht_table := (ht_table d)[h := (key, v) # ht_table d ! h], ht_n := ht_n d + 1\<rparr>"
  have h: "h < length (ht_table d)" using ok by (simp add: hashtable_ok_def h_def hash_slot_less)
  have "hashtable_put_fuel (Suc f) d key v = Some d'"
    using ok n by (simp add: hashtable_ok_def bucket_ok d'_def h_def)
  moreover have "ht_values d' k = (if k = key then [v] else []) @ ht_values d k" for k
    using ht_values_update[of d key _ _ k] h by (auto simp: d'_def h_def ht_values_def)
  moreover have "hashtable_ok d'"
  proof -
    have "length (concat (ht_table d')) = Suc (length (concat (ht_table d)))"
      using length_concat_update[OF h, of "(key, v) # ht_table d ! h"] by (simp add: d'_def)
    moreover have "hash_slot d' = hash_slot d" by (simp add: fun_eq_iff hash_slot_def d'_def)
    ultimately show ?thesis using ok n h unfolding hashtable_ok_def
      by (auto simp: d'_def nth_list_update h_def split: if_splits)
  qed
  ultimately show ?thesis by (auto simp: d'_def)
qed

lemma grow_chain_ok:
  assumes "hashtable_ok d" "ht_n d + int (length es) \<le> ht_size d"
  shows "\<exists>d'. grow_chain (hashtable_put_fuel (Suc f)) d es = Some d' \<and> hashtable_ok d' \<and> ht_size d' = ht_size d
    \<and> ht_n d' = ht_n d + int (length es) \<and> (\<forall>k. ht_values d' k = rev (chain_values k es) @ ht_values d k)"
  using assms
proof (induction es arbitrary: d)
  case (Cons e es)
  obtain key v where e: "e = (key, v)" by (cases e)
  have "ht_n d < ht_size d" using Cons.prems(2) by simp
  then obtain d1 where d1: "hashtable_put_fuel (Suc f) d key v = Some d1" "hashtable_ok d1" "ht_size d1 = ht_size d"
    "ht_n d1 = ht_n d + 1" "\<forall>k. ht_values d1 k = (if k = key then [v] else []) @ ht_values d k"
    using hashtable_put_room[OF Cons.prems(1)] by blast
  then have "ht_n d1 + int (length es) \<le> ht_size d1" using Cons.prems(2) by simp
  then obtain d2 where d2: "grow_chain (hashtable_put_fuel (Suc f)) d1 es = Some d2" "hashtable_ok d2" "ht_size d2 = ht_size d1"
    "ht_n d2 = ht_n d1 + int (length es)" "\<forall>k. ht_values d2 k = rev (chain_values k es) @ ht_values d1 k"
    using Cons.IH[OF d1(2)] by blast
  show ?case using d1 d2 e by (auto simp del: hashtable_put_fuel.simps)
qed simp

lemma grow_table_ok:
  assumes "hashtable_ok d" "ht_n d + int (length (concat t)) \<le> ht_size d"
  shows "\<exists>d'. grow_table (hashtable_put_fuel (Suc f)) d t = Some d' \<and> hashtable_ok d' \<and> ht_size d' = ht_size d
    \<and> ht_n d' = ht_n d + int (length (concat t)) \<and> (\<forall>k. ht_values d' k = rev (chain_values k (concat t)) @ ht_values d k)"
  using assms
proof (induction t arbitrary: d)
  case (Cons es t)
  have "ht_n d + int (length es) \<le> ht_size d" using Cons.prems(2) by simp
  then obtain d1 where d1: "grow_chain (hashtable_put_fuel (Suc f)) d es = Some d1" "hashtable_ok d1" "ht_size d1 = ht_size d"
    "ht_n d1 = ht_n d + int (length es)" "\<forall>k. ht_values d1 k = rev (chain_values k es) @ ht_values d k"
    using grow_chain_ok[OF Cons.prems(1)] by blast
  then have "ht_n d1 + int (length (concat t)) \<le> ht_size d1" using Cons.prems(2) by simp
  then obtain d2 where d2: "grow_table (hashtable_put_fuel (Suc f)) d1 t = Some d2" "hashtable_ok d2" "ht_size d2 = ht_size d1"
    "ht_n d2 = ht_n d1 + int (length (concat t))" "\<forall>k. ht_values d2 k = rev (chain_values k (concat t)) @ ht_values d1 k"
    using Cons.IH[OF d1(2)] by blast
  show ?case using d1 d2 by (auto simp del: hashtable_put_fuel.simps)
qed simp

text \<open>Only its own bucket holds entries of a key.\<close>

lemma chain_values_concat:
  assumes "\<forall>i < length t. \<forall>e \<in> set (t ! i). fst e = key \<longrightarrow> i = j" "j < length t"
  shows "chain_values key (concat t) = chain_values key (t ! j)"
  using assms
proof (induction t arbitrary: j)
  case (Cons es t)
  show ?case
  proof (cases j)
    case 0
    have "fst e \<noteq> key" if e: "es' \<in> set t" "e \<in> set es'" for es' e
    proof -
      obtain i where "i < length t" "t ! i = es'" using e(1) by (metis in_set_conv_nth)
      then show ?thesis using Cons.prems(1)[rule_format, of "Suc i" e] e(2) 0 by auto
    qed
    then have "chain_values key (concat t) = []" by (auto simp: chain_values_def filter_empty_conv)
    then show ?thesis using 0 by simp
  next
    case (Suc i)
    have "\<forall>e \<in> set es. fst e \<noteq> key" using spec[OF Cons.prems(1), of 0] Suc by auto
    then have "chain_values key es = []" by (simp add: chain_values_def filter_empty_conv)
    moreover have "i' = i" if e: "i' < length t" "e \<in> set (t ! i')" "fst e = key" for i' e
      using Cons.prems(1)[rule_format, of "Suc i'" e] e Suc by simp
    ultimately show ?thesis using Cons.IH[of i] Cons.prems(2) Suc by simp
  qed
qed simp

lemma chain_values_table: "hashtable_ok d \<Longrightarrow> chain_values key (concat (ht_table d)) = ht_values d key"
  unfolding ht_values_def
  by (rule chain_values_concat) (auto simp: hashtable_ok_def hash_slot_less)

lemma alloc_hashtable_ok: "0 < n \<Longrightarrow> n < 2 ^ 31 \<Longrightarrow> hashtable_ok (alloc_hashtable n) \<and> ht_values (alloc_hashtable n) k = []"
  by (simp add: hashtable_ok_def ht_values_def alloc_hashtable_def hash_slot_def)

lemma hashtable_grow_ok:
  assumes ok: "hashtable_ok d" and sz: "ht_size d * 2 < 2 ^ 31"
  shows "\<exists>d'. hashtable_grow (hashtable_put_fuel (Suc f)) d = Some d' \<and> hashtable_ok d' \<and> ht_size d' = ht_size d * 2
    \<and> ht_n d' < ht_size d' \<and> (\<forall>k. ht_values d' k = rev (ht_values d k))"
proof -
  define d0 where "d0 = alloc_hashtable (ht_size d * 2)"
  have d: "0 < ht_size d" "int (length (concat (ht_table d))) \<le> ht_size d" using ok by (auto simp: hashtable_ok_def)
  have d0: "hashtable_ok d0" "ht_values d0 k = []" "ht_n d0 = 0" "ht_size d0 = ht_size d * 2" for k
    using alloc_hashtable_ok[of "ht_size d * 2"] d sz by (auto simp: d0_def) (simp_all add: alloc_hashtable_def)
  have "ht_n d0 + int (length (concat (ht_table d))) \<le> ht_size d0" using d0 d by simp
  from grow_table_ok[OF d0(1) this, of f] obtain d' where
    "grow_table (hashtable_put_fuel (Suc f)) d0 (ht_table d) = Some d'" "hashtable_ok d'" "ht_size d' = ht_size d * 2"
    "ht_n d' = int (length (concat (ht_table d)))" "\<forall>k. ht_values d' k = rev (ht_values d k)"
    using d0 chain_values_table[OF ok] by auto
  then show ?thesis using sz d by (auto simp: hashtable_grow_def d0_def[symmetric])
qed

lemma hashtable_put_grown: "\<not> ht_n d < ht_size d \<Longrightarrow> hashtable_grow (hashtable_put_fuel f) d = Some d1 \<Longrightarrow>
    ht_n d1 < ht_size d1 \<Longrightarrow> hashtable_put_fuel (Suc f) d key v = hashtable_put_fuel (Suc f) d1 key v"
  by simp

lemma hashtable_put_ok:
  assumes ok: "hashtable_ok d" and sz: "ht_size d * 2 < 2 ^ 31"
  shows "\<exists>d'. hashtable_put d key v = Some d' \<and> hashtable_ok d'
    \<and> ht_size d' = (if ht_n d < ht_size d then ht_size d else ht_size d * 2)
    \<and> (\<forall>k. ht_values d' k = (if k = key then [v] else []) @ (if ht_n d < ht_size d then ht_values d k else rev (ht_values d k)))"
proof (cases "ht_n d < ht_size d")
  case True
  then show ?thesis using hashtable_put_room[OF ok True, of "Suc 0" key v] unfolding hashtable_put_def numeral_2_eq_2 by auto
next
  case False
  obtain d1 where d1: "hashtable_grow (hashtable_put_fuel (Suc 0)) d = Some d1" "hashtable_ok d1"
    "ht_n d1 < ht_size d1" "\<forall>k. ht_values d1 k = rev (ht_values d k)" "ht_size d1 = ht_size d * 2" using hashtable_grow_ok[OF ok sz] by blast
  have "hashtable_put d key v = hashtable_put_fuel (Suc (Suc 0)) d1 key v"
    unfolding hashtable_put_def numeral_2_eq_2 by (rule hashtable_put_grown[OF False d1(1,3)])
  then show ?thesis using hashtable_put_room[OF d1(2,3), of "Suc 0" key v] d1(4,5) False by auto
qed

lemma hashtable_get_ok: "hashtable_ok d \<Longrightarrow>
    hashtable_get d key = Some (case ht_values d key of [] \<Rightarrow> None | v # _ \<Rightarrow> Some v)"
  by (simp add: hashtable_get_def hashtable_ok_def bucket_ok chain_get_values ht_values_def)

lemma hashtable_delete_ok:
  assumes ok: "hashtable_ok d"
  shows "\<exists>d'. hashtable_delete d key = Some d' \<and> hashtable_ok d' \<and> ht_size d' = ht_size d \<and> ht_n d' = ht_n d
    \<and> (\<forall>k. ht_values d' k = (if k = key then tl (ht_values d k) else ht_values d k))"
proof -
  define h where "h = hash_slot d key"
  define es where "es = chain_delete (ht_table d ! h) key"
  define d' where "d' = d\<lparr>ht_table := (ht_table d)[h := es]\<rparr>"
  have h: "h < length (ht_table d)" using ok by (simp add: hashtable_ok_def h_def hash_slot_less)
  have "hashtable_delete d key = Some d'"
    using ok by (simp add: hashtable_delete_def hashtable_ok_def bucket_ok d'_def es_def h_def)
  moreover have "ht_values d' k = (if k = key then tl (ht_values d k) else ht_values d k)" for k
    using ht_values_update[of d key "ht_n d" es k] h by (auto simp: d'_def h_def ht_values_def es_def chain_delete_values)
  moreover have "hashtable_ok d'"
  proof -
    have "length (concat (ht_table d')) \<le> length (concat (ht_table d))"
      using length_concat_update[OF h, of es] chain_delete_subset(2)[of "ht_table d ! h" key] by (simp add: d'_def es_def)
    moreover have "hash_slot d' = hash_slot d" by (simp add: fun_eq_iff hash_slot_def d'_def)
    moreover have "\<forall>e \<in> set es. hash_slot d (fst e) = h"
      using ok h subsetD[OF chain_delete_subset(1)[of "ht_table d ! h" key]] unfolding hashtable_ok_def es_def by blast
    ultimately show ?thesis using ok h unfolding hashtable_ok_def
      by (auto simp: d'_def nth_list_update)
  qed
  ultimately show ?thesis by (auto simp: d'_def)
qed

section \<open>The dictionary\<close>

text \<open>With every key present once at most, the table is a map.\<close>

definition ht_rep :: "hashtable \<Rightarrow> (string \<Rightarrow> string option) \<Rightarrow> bool" where
  "ht_rep d m \<longleftrightarrow> hashtable_ok d \<and> (\<forall>k. ht_values d k = (case m k of None \<Rightarrow> [] | Some v \<Rightarrow> [v]))"

interpretation dictionary: fresh_map ht_rep hashtable_get hashtable_put hashtable_delete "\<lambda>d. ht_size d * 2 < 2 ^ 31" "\<lambda>_. True"
proof unfold_locales
  fix d m k assume "ht_rep d m"
  then show "hashtable_get d k = Some (m k)" by (simp add: ht_rep_def hashtable_get_ok split: option.splits)
next
  fix d m k v assume a: "ht_rep d m" "ht_size d * 2 < 2 ^ 31" "m k = None"
  then obtain d' where "hashtable_put d k v = Some d'" "hashtable_ok d'" "\<forall>k'. ht_values d' k' =
      (if k' = k then [v] else []) @ (if ht_n d < ht_size d then ht_values d k' else rev (ht_values d k'))"
    using hashtable_put_ok[of d k v] by (auto simp: ht_rep_def)
  then show "\<exists>d'. hashtable_put d k v = Some d' \<and> ht_rep d' (m(k \<mapsto> v))"
    using a by (auto simp: ht_rep_def split: option.splits)
next
  fix d m k assume a: "ht_rep d m"
  then obtain d' where "hashtable_delete d k = Some d'" "hashtable_ok d'"
    "\<forall>k'. ht_values d' k' = (if k' = k then tl (ht_values d k') else ht_values d k')"
    using hashtable_delete_ok[of d k] by (auto simp: ht_rep_def)
  then show "\<exists>d'. hashtable_delete d k = Some d' \<and> ht_rep d' (m(k := None))"
    using a by (auto simp: ht_rep_def split: option.splits)
qed

lemma ht_rep_empty: "0 < n \<Longrightarrow> n < 2 ^ 31 \<Longrightarrow> ht_rep (alloc_hashtable n) Map.empty"
  by (simp add: ht_rep_def alloc_hashtable_ok)

text \<open>
  C40: \<open>hashtable_put\<close> of src/hashtable.c on a well-formed table of fewer than 2^30 buckets.  The call returns, whether the table has to
  grow or not (the nesting of \<open>hashtable_put\<close> and \<open>hashtable_grow\<close> ends at depth two), keeps the table well-formed and puts the value in
  front of the key's values; \<open>hashtable_get\<close> returns the value in front.  The values of the other keys stay as they are if there was room; when
  the table grows, which it does when it holds as many entries as buckets, the values of every key are reversed.  So the answer for a key
  that was stored more than once changes with every growth from the first of its values to the last, for instance from the newest to the
  oldest, though the comments of the source promise the most recently inserted one.
\<close>

theorem hashtable_put_correct:
  assumes "hashtable_ok d" "ht_size d * 2 < 2 ^ 31"
  shows "\<exists>d'. hashtable_put d key v = Some d' \<and> hashtable_ok d'
    \<and> ht_size d' = (if ht_n d < ht_size d then ht_size d else ht_size d * 2)
    \<and> (\<forall>k. ht_values d' k = (if k = key then [v] else []) @ (if ht_n d < ht_size d then ht_values d k else rev (ht_values d k)))
    \<and> (\<forall>k. hashtable_get d' k = Some (case ht_values d' k of [] \<Rightarrow> None | w # _ \<Rightarrow> Some w))"
  using hashtable_put_ok[OF assms, of key v] hashtable_get_ok by blast

theorem hashtable_put_correct_witness:
  "(\<exists>d. hashtable_put (alloc_hashtable 2) ''a'' ''1'' = Some d \<and> hashtable_get d ''a'' = Some (Some ''1''))
   \<and> map_option (\<lambda>d. hashtable_get d ''a'') (hashtable_put (alloc_hashtable 2) ''a'' ''1''
       \<bind> (\<lambda>d. hashtable_put d ''a'' ''2'') \<bind> (\<lambda>d. hashtable_put d ''b'' ''3'')) = Some (Some (Some ''1''))
   \<and> map_option (\<lambda>d. hashtable_get d ''a'') (hashtable_put (alloc_hashtable 1) ''a'' ''1'' \<bind> (\<lambda>d. hashtable_put d ''a'' ''2'')
       \<bind> (\<lambda>d. hashtable_put d ''b'' ''3'') \<bind> (\<lambda>d. hashtable_put d ''c'' ''4'') \<bind> (\<lambda>d. hashtable_put d ''d'' ''5'')) = Some (Some (Some ''2''))"
proof (intro conjI)
  show "\<exists>d. hashtable_put (alloc_hashtable 2) ''a'' ''1'' = Some d \<and> hashtable_get d ''a'' = Some (Some ''1'')"
    using hashtable_put_correct[of "alloc_hashtable 2" "''a''" "''1''"] alloc_hashtable_ok[of 2]
    by (auto simp: alloc_hashtable_def)
qed code_simp+

text \<open>
  A table whose keys are stored once is the map from keys to values: a value stored under a new key is
  found, every other key keeps its value, and deleting the key again restores the map.
\<close>

theorem hashtable_map:
  assumes "ht_rep d m" "ht_size d * 2 < 2 ^ 31" "m key = None"
  shows "\<exists>d' d''. hashtable_put d key v = Some d' \<and> (\<forall>k. hashtable_get d' k = Some ((m(key \<mapsto> v)) k))
    \<and> hashtable_delete d' key = Some d'' \<and> (\<forall>k. hashtable_get d'' k = Some (m k))"
  by (rule dictionary.insert_remove[OF assms]) simp

theorem hashtable_map_witness:
  "\<exists>d. hashtable_put (alloc_hashtable 1) ''a'' ''1'' = Some d \<and> hashtable_get d ''b'' = Some None"
  using hashtable_map[of "alloc_hashtable 1" Map.empty "''a''" "''1''"] ht_rep_empty[of 1]
  by (fastforce simp: alloc_hashtable_def)

end
