(* ===== verification/Json_Check.thy ===== *)
theory Json_Check imports
  CString
begin

text \<open>
  The checker of JSON texts, src/json_check.c: a pushdown automaton whose transition table is copied
  from the source, and the grammar of the texts it accepts.
\<close>

section \<open>The automaton\<close>

text \<open>The classes of characters and the states are C enumerators.\<close>

abbreviation (input) C_SPACE :: int where "C_SPACE \<equiv> 0"
abbreviation (input) C_WHITE :: int where "C_WHITE \<equiv> 1"
abbreviation (input) C_LCURB :: int where "C_LCURB \<equiv> 2"
abbreviation (input) C_RCURB :: int where "C_RCURB \<equiv> 3"
abbreviation (input) C_LSQRB :: int where "C_LSQRB \<equiv> 4"
abbreviation (input) C_RSQRB :: int where "C_RSQRB \<equiv> 5"
abbreviation (input) C_COLON :: int where "C_COLON \<equiv> 6"
abbreviation (input) C_COMMA :: int where "C_COMMA \<equiv> 7"
abbreviation (input) C_QUOTE :: int where "C_QUOTE \<equiv> 8"
abbreviation (input) C_BACKS :: int where "C_BACKS \<equiv> 9"
abbreviation (input) C_SLASH :: int where "C_SLASH \<equiv> 10"
abbreviation (input) C_PLUS :: int where "C_PLUS \<equiv> 11"
abbreviation (input) C_MINUS :: int where "C_MINUS \<equiv> 12"
abbreviation (input) C_POINT :: int where "C_POINT \<equiv> 13"
abbreviation (input) C_ZERO :: int where "C_ZERO \<equiv> 14"
abbreviation (input) C_DIGIT :: int where "C_DIGIT \<equiv> 15"
abbreviation (input) C_LOW_A :: int where "C_LOW_A \<equiv> 16"
abbreviation (input) C_LOW_B :: int where "C_LOW_B \<equiv> 17"
abbreviation (input) C_LOW_C :: int where "C_LOW_C \<equiv> 18"
abbreviation (input) C_LOW_D :: int where "C_LOW_D \<equiv> 19"
abbreviation (input) C_LOW_E :: int where "C_LOW_E \<equiv> 20"
abbreviation (input) C_LOW_F :: int where "C_LOW_F \<equiv> 21"
abbreviation (input) C_LOW_L :: int where "C_LOW_L \<equiv> 22"
abbreviation (input) C_LOW_N :: int where "C_LOW_N \<equiv> 23"
abbreviation (input) C_LOW_R :: int where "C_LOW_R \<equiv> 24"
abbreviation (input) C_LOW_S :: int where "C_LOW_S \<equiv> 25"
abbreviation (input) C_LOW_T :: int where "C_LOW_T \<equiv> 26"
abbreviation (input) C_LOW_U :: int where "C_LOW_U \<equiv> 27"
abbreviation (input) C_ABCDF :: int where "C_ABCDF \<equiv> 28"
abbreviation (input) C_E :: int where "C_E \<equiv> 29"
abbreviation (input) C_ETC :: int where "C_ETC \<equiv> 30"

abbreviation (input) GO :: int where "GO \<equiv> 0"
abbreviation (input) OK :: int where "OK \<equiv> 1"
abbreviation (input) OB :: int where "OB \<equiv> 2"
abbreviation (input) KE :: int where "KE \<equiv> 3"
abbreviation (input) CO :: int where "CO \<equiv> 4"
abbreviation (input) VA :: int where "VA \<equiv> 5"
abbreviation (input) AR :: int where "AR \<equiv> 6"
abbreviation (input) ST :: int where "ST \<equiv> 7"
abbreviation (input) ES :: int where "ES \<equiv> 8"
abbreviation (input) U1 :: int where "U1 \<equiv> 9"
abbreviation (input) U2 :: int where "U2 \<equiv> 10"
abbreviation (input) U3 :: int where "U3 \<equiv> 11"
abbreviation (input) U4 :: int where "U4 \<equiv> 12"
abbreviation (input) MI :: int where "MI \<equiv> 13"
abbreviation (input) ZE :: int where "ZE \<equiv> 14"
abbreviation (input) IN :: int where "IN \<equiv> 15"
abbreviation (input) FR :: int where "FR \<equiv> 16"
abbreviation (input) E1 :: int where "E1 \<equiv> 17"
abbreviation (input) E2 :: int where "E2 \<equiv> 18"
abbreviation (input) E3 :: int where "E3 \<equiv> 19"
abbreviation (input) T1 :: int where "T1 \<equiv> 20"
abbreviation (input) T2 :: int where "T2 \<equiv> 21"
abbreviation (input) T3 :: int where "T3 \<equiv> 22"
abbreviation (input) F1 :: int where "F1 \<equiv> 23"
abbreviation (input) F2 :: int where "F2 \<equiv> 24"
abbreviation (input) F3 :: int where "F3 \<equiv> 25"
abbreviation (input) F4 :: int where "F4 \<equiv> 26"
abbreviation (input) N1 :: int where "N1 \<equiv> 27"
abbreviation (input) N2 :: int where "N2 \<equiv> 28"
abbreviation (input) N3 :: int where "N3 \<equiv> 29"

datatype json_mode = MODE_ARRAY | MODE_DONE | MODE_KEY | MODE_OBJECT

definition ascii_class :: "int list" where
  "ascii_class = [
    - 1, - 1, - 1, - 1, - 1, - 1, - 1, - 1,
    - 1, C_WHITE, C_WHITE, - 1, - 1, C_WHITE, - 1, - 1,
    - 1, - 1, - 1, - 1, - 1, - 1, - 1, - 1,
    - 1, - 1, - 1, - 1, - 1, - 1, - 1, - 1,
    C_SPACE, C_ETC, C_QUOTE, C_ETC, C_ETC, C_ETC, C_ETC, C_ETC,
    C_ETC, C_ETC, C_ETC, C_PLUS, C_COMMA, C_MINUS, C_POINT, C_SLASH,
    C_ZERO, C_DIGIT, C_DIGIT, C_DIGIT, C_DIGIT, C_DIGIT, C_DIGIT, C_DIGIT,
    C_DIGIT, C_DIGIT, C_COLON, C_ETC, C_ETC, C_ETC, C_ETC, C_ETC,
    C_ETC, C_ABCDF, C_ABCDF, C_ABCDF, C_ABCDF, C_E, C_ABCDF, C_ETC,
    C_ETC, C_ETC, C_ETC, C_ETC, C_ETC, C_ETC, C_ETC, C_ETC,
    C_ETC, C_ETC, C_ETC, C_ETC, C_ETC, C_ETC, C_ETC, C_ETC,
    C_ETC, C_ETC, C_ETC, C_LSQRB, C_BACKS, C_RSQRB, C_ETC, C_ETC,
    C_ETC, C_LOW_A, C_LOW_B, C_LOW_C, C_LOW_D, C_LOW_E, C_LOW_F, C_ETC,
    C_ETC, C_ETC, C_ETC, C_ETC, C_LOW_L, C_ETC, C_LOW_N, C_ETC,
    C_ETC, C_ETC, C_LOW_R, C_LOW_S, C_LOW_T, C_LOW_U, C_ETC, C_ETC,
    C_ETC, C_ETC, C_ETC, C_LCURB, C_ETC, C_RCURB, C_ETC, C_ETC]"

definition state_transition_table :: "int list list" where
  "state_transition_table = [
    [GO, GO, - 6, - 1, - 5, - 1, - 1, - 1, - 1, - 1, - 1, - 1, - 1, - 1, - 1, - 1, - 1, - 1, - 1, - 1, - 1, - 1, - 1, - 1, - 1, - 1, - 1, - 1, - 1, - 1, - 1],
    [OK, OK, - 1, - 8, - 1, - 7, - 1, - 3, - 1, - 1, - 1, - 1, - 1, - 1, - 1, - 1, - 1, - 1, - 1, - 1, - 1, - 1, - 1, - 1, - 1, - 1, - 1, - 1, - 1, - 1, - 1],
    [OB, OB, - 1, - 9, - 1, - 1, - 1, - 1, ST, - 1, - 1, - 1, - 1, - 1, - 1, - 1, - 1, - 1, - 1, - 1, - 1, - 1, - 1, - 1, - 1, - 1, - 1, - 1, - 1, - 1, - 1],
    [KE, KE, - 1, - 1, - 1, - 1, - 1, - 1, ST, - 1, - 1, - 1, - 1, - 1, - 1, - 1, - 1, - 1, - 1, - 1, - 1, - 1, - 1, - 1, - 1, - 1, - 1, - 1, - 1, - 1, - 1],
    [CO, CO, - 1, - 1, - 1, - 1, - 2, - 1, - 1, - 1, - 1, - 1, - 1, - 1, - 1, - 1, - 1, - 1, - 1, - 1, - 1, - 1, - 1, - 1, - 1, - 1, - 1, - 1, - 1, - 1, - 1],
    [VA, VA, - 6, - 1, - 5, - 1, - 1, - 1, ST, - 1, - 1, - 1, MI, - 1, ZE, IN, - 1, - 1, - 1, - 1, - 1, F1, - 1, N1, - 1, - 1, T1, - 1, - 1, - 1, - 1],
    [AR, AR, - 6, - 1, - 5, - 7, - 1, - 1, ST, - 1, - 1, - 1, MI, - 1, ZE, IN, - 1, - 1, - 1, - 1, - 1, F1, - 1, N1, - 1, - 1, T1, - 1, - 1, - 1, - 1],
    [ST, - 1, ST, ST, ST, ST, ST, ST, - 4, ES, ST, ST, ST, ST, ST, ST, ST, ST, ST, ST, ST, ST, ST, ST, ST, ST, ST, ST, ST, ST, ST],
    [- 1, - 1, - 1, - 1, - 1, - 1, - 1, - 1, ST, ST, ST, - 1, - 1, - 1, - 1, - 1, - 1, ST, - 1, - 1, - 1, ST, - 1, ST, ST, - 1, ST, U1, - 1, - 1, - 1],
    [- 1, - 1, - 1, - 1, - 1, - 1, - 1, - 1, - 1, - 1, - 1, - 1, - 1, - 1, U2, U2, U2, U2, U2, U2, U2, U2, - 1, - 1, - 1, - 1, - 1, - 1, U2, U2, - 1],
    [- 1, - 1, - 1, - 1, - 1, - 1, - 1, - 1, - 1, - 1, - 1, - 1, - 1, - 1, U3, U3, U3, U3, U3, U3, U3, U3, - 1, - 1, - 1, - 1, - 1, - 1, U3, U3, - 1],
    [- 1, - 1, - 1, - 1, - 1, - 1, - 1, - 1, - 1, - 1, - 1, - 1, - 1, - 1, U4, U4, U4, U4, U4, U4, U4, U4, - 1, - 1, - 1, - 1, - 1, - 1, U4, U4, - 1],
    [- 1, - 1, - 1, - 1, - 1, - 1, - 1, - 1, - 1, - 1, - 1, - 1, - 1, - 1, ST, ST, ST, ST, ST, ST, ST, ST, - 1, - 1, - 1, - 1, - 1, - 1, ST, ST, - 1],
    [- 1, - 1, - 1, - 1, - 1, - 1, - 1, - 1, - 1, - 1, - 1, - 1, - 1, - 1, ZE, IN, - 1, - 1, - 1, - 1, - 1, - 1, - 1, - 1, - 1, - 1, - 1, - 1, - 1, - 1, - 1],
    [OK, OK, - 1, - 8, - 1, - 7, - 1, - 3, - 1, - 1, - 1, - 1, - 1, FR, - 1, - 1, - 1, - 1, - 1, - 1, - 1, - 1, - 1, - 1, - 1, - 1, - 1, - 1, - 1, - 1, - 1],
    [OK, OK, - 1, - 8, - 1, - 7, - 1, - 3, - 1, - 1, - 1, - 1, - 1, FR, IN, IN, - 1, - 1, - 1, - 1, E1, - 1, - 1, - 1, - 1, - 1, - 1, - 1, - 1, E1, - 1],
    [OK, OK, - 1, - 8, - 1, - 7, - 1, - 3, - 1, - 1, - 1, - 1, - 1, - 1, FR, FR, - 1, - 1, - 1, - 1, E1, - 1, - 1, - 1, - 1, - 1, - 1, - 1, - 1, E1, - 1],
    [- 1, - 1, - 1, - 1, - 1, - 1, - 1, - 1, - 1, - 1, - 1, E2, E2, - 1, E3, E3, - 1, - 1, - 1, - 1, - 1, - 1, - 1, - 1, - 1, - 1, - 1, - 1, - 1, - 1, - 1],
    [- 1, - 1, - 1, - 1, - 1, - 1, - 1, - 1, - 1, - 1, - 1, - 1, - 1, - 1, E3, E3, - 1, - 1, - 1, - 1, - 1, - 1, - 1, - 1, - 1, - 1, - 1, - 1, - 1, - 1, - 1],
    [OK, OK, - 1, - 8, - 1, - 7, - 1, - 3, - 1, - 1, - 1, - 1, - 1, - 1, E3, E3, - 1, - 1, - 1, - 1, - 1, - 1, - 1, - 1, - 1, - 1, - 1, - 1, - 1, - 1, - 1],
    [- 1, - 1, - 1, - 1, - 1, - 1, - 1, - 1, - 1, - 1, - 1, - 1, - 1, - 1, - 1, - 1, - 1, - 1, - 1, - 1, - 1, - 1, - 1, - 1, T2, - 1, - 1, - 1, - 1, - 1, - 1],
    [- 1, - 1, - 1, - 1, - 1, - 1, - 1, - 1, - 1, - 1, - 1, - 1, - 1, - 1, - 1, - 1, - 1, - 1, - 1, - 1, - 1, - 1, - 1, - 1, - 1, - 1, - 1, T3, - 1, - 1, - 1],
    [- 1, - 1, - 1, - 1, - 1, - 1, - 1, - 1, - 1, - 1, - 1, - 1, - 1, - 1, - 1, - 1, - 1, - 1, - 1, - 1, OK, - 1, - 1, - 1, - 1, - 1, - 1, - 1, - 1, - 1, - 1],
    [- 1, - 1, - 1, - 1, - 1, - 1, - 1, - 1, - 1, - 1, - 1, - 1, - 1, - 1, - 1, - 1, F2, - 1, - 1, - 1, - 1, - 1, - 1, - 1, - 1, - 1, - 1, - 1, - 1, - 1, - 1],
    [- 1, - 1, - 1, - 1, - 1, - 1, - 1, - 1, - 1, - 1, - 1, - 1, - 1, - 1, - 1, - 1, - 1, - 1, - 1, - 1, - 1, - 1, F3, - 1, - 1, - 1, - 1, - 1, - 1, - 1, - 1],
    [- 1, - 1, - 1, - 1, - 1, - 1, - 1, - 1, - 1, - 1, - 1, - 1, - 1, - 1, - 1, - 1, - 1, - 1, - 1, - 1, - 1, - 1, - 1, - 1, - 1, F4, - 1, - 1, - 1, - 1, - 1],
    [- 1, - 1, - 1, - 1, - 1, - 1, - 1, - 1, - 1, - 1, - 1, - 1, - 1, - 1, - 1, - 1, - 1, - 1, - 1, - 1, OK, - 1, - 1, - 1, - 1, - 1, - 1, - 1, - 1, - 1, - 1],
    [- 1, - 1, - 1, - 1, - 1, - 1, - 1, - 1, - 1, - 1, - 1, - 1, - 1, - 1, - 1, - 1, - 1, - 1, - 1, - 1, - 1, - 1, - 1, - 1, - 1, - 1, - 1, N2, - 1, - 1, - 1],
    [- 1, - 1, - 1, - 1, - 1, - 1, - 1, - 1, - 1, - 1, - 1, - 1, - 1, - 1, - 1, - 1, - 1, - 1, - 1, - 1, - 1, - 1, N3, - 1, - 1, - 1, - 1, - 1, - 1, - 1, - 1],
    [- 1, - 1, - 1, - 1, - 1, - 1, - 1, - 1, - 1, - 1, - 1, - 1, - 1, - 1, - 1, - 1, - 1, - 1, - 1, - 1, - 1, - 1, OK, - 1, - 1, - 1, - 1, - 1, - 1, - 1, - 1]]"

record json_check =
  jc_state :: int
  jc_depth :: int
  jc_top :: int
  jc_stack :: "json_mode list"

text \<open>\<open>reject\<close> frees the checker: after a failure there is none.\<close>

definition json_push :: "json_check \<Rightarrow> json_mode \<Rightarrow> json_check option" where
  "json_push jc mode =
     (let jc = jc\<lparr>jc_top := jc_top jc + 1\<rparr>
      in if jc_top jc \<ge> jc_depth jc then None
         else Some (jc\<lparr>jc_stack := (jc_stack jc)[nat (jc_top jc) := mode]\<rparr>))"

definition json_pop :: "json_check \<Rightarrow> json_mode \<Rightarrow> json_check option" where
  "json_pop jc mode =
     (if jc_top jc < 0 \<or> jc_stack jc ! nat (jc_top jc) \<noteq> mode then None
      else Some (jc\<lparr>jc_top := jc_top jc - 1\<rparr>))"

definition new_json_check :: "int \<Rightarrow> json_check" where
  "new_json_check depth =
     (let jc = \<lparr>jc_state = GO, jc_depth = depth, jc_top = - 1, jc_stack = replicate (nat depth) MODE_ARRAY\<rparr>
      in case json_push jc MODE_DONE of Some jc \<Rightarrow> jc | None \<Rightarrow> jc\<lparr>jc_top := 0\<rparr>)"

definition json_class :: "int \<Rightarrow> int" where
  "json_class next_char = (if next_char \<ge> 128 then C_ETC else ascii_class ! nat next_char)"

definition json_check_char :: "json_check \<Rightarrow> int \<Rightarrow> json_check option" where
  "json_check_char jc next_char =
     (if next_char < 0 then None
      else if json_class next_char \<le> - 1 then None
      else (let next_state = state_transition_table ! nat (jc_state jc) ! nat (json_class next_char)
        in if next_state \<ge> 0 then Some (jc\<lparr>jc_state := next_state\<rparr>)
           else if next_state = - 9 then map_option (jc_state_update (\<lambda>_. OK)) (json_pop jc MODE_KEY)
           else if next_state = - 8 then map_option (jc_state_update (\<lambda>_. OK)) (json_pop jc MODE_OBJECT)
           else if next_state = - 7 then map_option (jc_state_update (\<lambda>_. OK)) (json_pop jc MODE_ARRAY)
           else if next_state = - 6 then map_option (jc_state_update (\<lambda>_. OB)) (json_push jc MODE_KEY)
           else if next_state = - 5 then map_option (jc_state_update (\<lambda>_. AR)) (json_push jc MODE_ARRAY)
           else if next_state = - 4 then
             (case jc_stack jc ! nat (jc_top jc) of
                MODE_KEY \<Rightarrow> Some (jc\<lparr>jc_state := CO\<rparr>)
              | MODE_ARRAY \<Rightarrow> Some (jc\<lparr>jc_state := OK\<rparr>)
              | MODE_OBJECT \<Rightarrow> Some (jc\<lparr>jc_state := OK\<rparr>)
              | MODE_DONE \<Rightarrow> None)
           else if next_state = - 3 then
             (case jc_stack jc ! nat (jc_top jc) of
                MODE_OBJECT \<Rightarrow> do {
                  jc \<leftarrow> json_pop jc MODE_OBJECT;
                  jc \<leftarrow> json_push jc MODE_KEY;
                  Some (jc\<lparr>jc_state := KE\<rparr>) }
              | MODE_ARRAY \<Rightarrow> Some (jc\<lparr>jc_state := VA\<rparr>)
              | _ \<Rightarrow> None)
           else if next_state = - 2 then do {
             jc \<leftarrow> json_pop jc MODE_KEY;
             jc \<leftarrow> json_push jc MODE_OBJECT;
             Some (jc\<lparr>jc_state := VA\<rparr>) }
           else None))"

definition json_check_done :: "json_check \<Rightarrow> bool" where
  "json_check_done jc \<longleftrightarrow> jc_state jc = OK \<and> json_pop jc MODE_DONE \<noteq> None"

text \<open>\<open>char\<close> is signed: a byte above 127 is negative and ends the loop like a terminator.\<close>

fun json_loop :: "json_check \<Rightarrow> string \<Rightarrow> json_check option" where
  "json_loop jc [] = Some jc"
| "json_loop jc (c # json) =
     (let cnext = sint (of_char c :: u8)
      in if cnext \<le> 0 then Some jc
         else do { jc \<leftarrow> json_check_char jc cnext; json_loop jc json })"

abbreviation (input) JSON_CHECK_DEPTH :: int where "JSON_CHECK_DEPTH \<equiv> 15"

definition json_valid :: "string \<Rightarrow> bool" where
  "json_valid json = (case json_loop (new_json_check JSON_CHECK_DEPTH) json of
     None \<Rightarrow> False | Some jc \<Rightarrow> json_check_done jc)"

section \<open>The table read as an automaton\<close>

definition is_ws :: "char \<Rightarrow> bool" where
  "is_ws c \<longleftrightarrow> c = CHR 0x20 \<or> c = CHR 0x09 \<or> c = CHR 0x0A \<or> c = CHR 0x0D"

definition is_hex :: "char \<Rightarrow> bool" where
  "is_hex c \<longleftrightarrow> isdigit c \<or> (65 \<le> code c \<and> code c \<le> 70) \<or> (97 \<le> code c \<and> code c \<le> 102)"

definition is_plain :: "char \<Rightarrow> bool" where
  "is_plain c \<longleftrightarrow> 32 \<le> code c \<and> code c < 128 \<and> c \<noteq> CHR 0x22 \<and> c \<noteq> CHR 0x5C"

text \<open>What may follow a value.\<close>

definition end_next :: "char \<Rightarrow> int" where
  "end_next c = (if is_ws c then OK else if c = CHR ''}'' then - 8 else if c = CHR '']'' then - 7
     else if c = CHR '','' then - 3 else - 1)"

definition value_next :: "int \<Rightarrow> char \<Rightarrow> int" where
  "value_next q c = (if is_ws c then q else if c = CHR ''{'' then - 6 else if c = CHR ''['' then - 5
     else if c = CHR 0x22 then ST else if c = CHR ''-'' then MI else if c = CHR ''0'' then ZE
     else if isdigit c then IN else if c = CHR ''f'' then F1 else if c = CHR ''n'' then N1
     else if c = CHR ''t'' then T1 else - 1)"

definition json_next :: "int \<Rightarrow> char \<Rightarrow> int" where
  "json_next q c =
     (if q = GO then (if is_ws c then GO else if c = CHR ''{'' then - 6 else if c = CHR ''['' then - 5 else - 1)
      else if q = OK then end_next c
      else if q = OB then (if is_ws c then OB else if c = CHR ''}'' then - 9 else if c = CHR 0x22 then ST else - 1)
      else if q = KE then (if is_ws c then KE else if c = CHR 0x22 then ST else - 1)
      else if q = CO then (if is_ws c then CO else if c = CHR '':'' then - 2 else - 1)
      else if q = VA then value_next VA c
      else if q = AR then (if c = CHR '']'' then - 7 else value_next AR c)
      else if q = ST then (if c = CHR 0x22 then - 4 else if c = CHR 0x5C then ES else if is_plain c then ST else - 1)
      else if q = ES then (if c = CHR ''u'' then U1 else if c = CHR 0x22 \<or> c = CHR 0x5C \<or> c = CHR ''/'' \<or> c = CHR ''b'' \<or> c = CHR ''f'' \<or> c = CHR ''n'' \<or> c = CHR ''r'' \<or> c = CHR ''t'' then ST else - 1)
      else if q = U1 then (if is_hex c then U2 else - 1)
      else if q = U2 then (if is_hex c then U3 else - 1)
      else if q = U3 then (if is_hex c then U4 else - 1)
      else if q = U4 then (if is_hex c then ST else - 1)
      else if q = MI then (if c = CHR ''0'' then ZE else if isdigit c then IN else - 1)
      else if q = ZE then (if c = CHR ''.'' then FR else end_next c)
      else if q = IN then (if isdigit c then IN else if c = CHR ''.'' then FR
          else if c = CHR ''e'' \<or> c = CHR ''E'' then E1 else end_next c)
      else if q = FR then (if isdigit c then FR else if c = CHR ''e'' \<or> c = CHR ''E'' then E1 else end_next c)
      else if q = E1 then (if c = CHR ''+'' \<or> c = CHR ''-'' then E2 else if isdigit c then E3 else - 1)
      else if q = E2 then (if isdigit c then E3 else - 1)
      else if q = E3 then (if isdigit c then E3 else end_next c)
      else if q = T1 then (if c = CHR ''r'' then T2 else - 1)
      else if q = T2 then (if c = CHR ''u'' then T3 else - 1)
      else if q = T3 then (if c = CHR ''e'' then OK else - 1)
      else if q = F1 then (if c = CHR ''a'' then F2 else - 1)
      else if q = F2 then (if c = CHR ''l'' then F3 else - 1)
      else if q = F3 then (if c = CHR ''s'' then F4 else - 1)
      else if q = F4 then (if c = CHR ''e'' then OK else - 1)
      else if q = N1 then (if c = CHR ''u'' then N2 else - 1)
      else if q = N2 then (if c = CHR ''l'' then N3 else - 1)
      else if q = N3 then (if c = CHR ''l'' then OK else - 1)
      else - 1)"

text \<open>The same on character codes, against which the table is checked row by row.\<close>

definition end_code :: "int \<Rightarrow> int" where
  "end_code n = (if (n = 32 \<or> n = 9 \<or> n = 10 \<or> n = 13) then OK else if n = 125 then - 8 else if n = 93 then - 7
     else if n = 44 then - 3 else - 1)"

definition value_code :: "int \<Rightarrow> int \<Rightarrow> int" where
  "value_code q n = (if (n = 32 \<or> n = 9 \<or> n = 10 \<or> n = 13) then q else if n = 123 then - 6 else if n = 91 then - 5
     else if n = 34 then ST else if n = 45 then MI else if n = 48 then ZE
     else if (48 \<le> n \<and> n \<le> 57) then IN else if n = 102 then F1 else if n = 110 then N1
     else if n = 116 then T1 else - 1)"

definition json_code :: "int \<Rightarrow> int \<Rightarrow> int" where
  "json_code q n =
     (if q = GO then (if (n = 32 \<or> n = 9 \<or> n = 10 \<or> n = 13) then GO else if n = 123 then - 6 else if n = 91 then - 5 else - 1)
      else if q = OK then end_code n
      else if q = OB then (if (n = 32 \<or> n = 9 \<or> n = 10 \<or> n = 13) then OB else if n = 125 then - 9 else if n = 34 then ST else - 1)
      else if q = KE then (if (n = 32 \<or> n = 9 \<or> n = 10 \<or> n = 13) then KE else if n = 34 then ST else - 1)
      else if q = CO then (if (n = 32 \<or> n = 9 \<or> n = 10 \<or> n = 13) then CO else if n = 58 then - 2 else - 1)
      else if q = VA then value_code VA n
      else if q = AR then (if n = 93 then - 7 else value_code AR n)
      else if q = ST then (if n = 34 then - 4 else if n = 92 then ES else if (32 \<le> n \<and> n < 128 \<and> n \<noteq> 34 \<and> n \<noteq> 92) then ST else - 1)
      else if q = ES then (if n = 117 then U1 else if n = 34 \<or> n = 92 \<or> n = 47 \<or> n = 98 \<or> n = 102 \<or> n = 110 \<or> n = 114 \<or> n = 116 then ST else - 1)
      else if q = U1 then (if (48 \<le> n \<and> n \<le> 57 \<or> 65 \<le> n \<and> n \<le> 70 \<or> 97 \<le> n \<and> n \<le> 102) then U2 else - 1)
      else if q = U2 then (if (48 \<le> n \<and> n \<le> 57 \<or> 65 \<le> n \<and> n \<le> 70 \<or> 97 \<le> n \<and> n \<le> 102) then U3 else - 1)
      else if q = U3 then (if (48 \<le> n \<and> n \<le> 57 \<or> 65 \<le> n \<and> n \<le> 70 \<or> 97 \<le> n \<and> n \<le> 102) then U4 else - 1)
      else if q = U4 then (if (48 \<le> n \<and> n \<le> 57 \<or> 65 \<le> n \<and> n \<le> 70 \<or> 97 \<le> n \<and> n \<le> 102) then ST else - 1)
      else if q = MI then (if n = 48 then ZE else if (48 \<le> n \<and> n \<le> 57) then IN else - 1)
      else if q = ZE then (if n = 46 then FR else end_code n)
      else if q = IN then (if (48 \<le> n \<and> n \<le> 57) then IN else if n = 46 then FR
          else if n = 101 \<or> n = 69 then E1 else end_code n)
      else if q = FR then (if (48 \<le> n \<and> n \<le> 57) then FR else if n = 101 \<or> n = 69 then E1 else end_code n)
      else if q = E1 then (if n = 43 \<or> n = 45 then E2 else if (48 \<le> n \<and> n \<le> 57) then E3 else - 1)
      else if q = E2 then (if (48 \<le> n \<and> n \<le> 57) then E3 else - 1)
      else if q = E3 then (if (48 \<le> n \<and> n \<le> 57) then E3 else end_code n)
      else if q = T1 then (if n = 114 then T2 else - 1)
      else if q = T2 then (if n = 117 then T3 else - 1)
      else if q = T3 then (if n = 101 then OK else - 1)
      else if q = F1 then (if n = 97 then F2 else - 1)
      else if q = F2 then (if n = 108 then F3 else - 1)
      else if q = F3 then (if n = 115 then F4 else - 1)
      else if q = F4 then (if n = 101 then OK else - 1)
      else if q = N1 then (if n = 117 then N2 else - 1)
      else if q = N2 then (if n = 108 then N3 else - 1)
      else if q = N3 then (if n = 108 then OK else - 1)
      else - 1)"

definition table_entry :: "int \<Rightarrow> int \<Rightarrow> int" where
  "table_entry q n =
     (let k = ascii_class ! nat n in if k \<le> - 1 then - 1 else state_transition_table ! nat q ! nat k)"

lemma table_rows_0:
  "list_all (\<lambda>q. list_all (\<lambda>n. table_entry q n = json_code q n) [0..127]) [0..4]"
  by code_simp

lemma table_rows_5:
  "list_all (\<lambda>q. list_all (\<lambda>n. table_entry q n = json_code q n) [0..127]) [5..9]"
  by code_simp

lemma table_rows_10:
  "list_all (\<lambda>q. list_all (\<lambda>n. table_entry q n = json_code q n) [0..127]) [10..14]"
  by code_simp

lemma table_rows_15:
  "list_all (\<lambda>q. list_all (\<lambda>n. table_entry q n = json_code q n) [0..127]) [15..19]"
  by code_simp

lemma table_rows_20:
  "list_all (\<lambda>q. list_all (\<lambda>n. table_entry q n = json_code q n) [0..127]) [20..24]"
  by code_simp

lemma table_rows_25:
  "list_all (\<lambda>q. list_all (\<lambda>n. table_entry q n = json_code q n) [0..127]) [25..29]"
  by code_simp

lemma table_entry_next:
  assumes "0 \<le> q" "q < 30" "0 \<le> n" "n < 128"
  shows "table_entry q n = json_code q n"
proof -
  consider "q \<in> set [0..4]" | "q \<in> set [5..9]" | "q \<in> set [10..14]" | "q \<in> set [15..19]" | "q \<in> set [20..24]" | "q \<in> set [25..29]"
    using assms(1,2) unfolding set_upto atLeastAtMost_iff by linarith
  moreover have "n \<in> set [0..127]" using assms(3,4) by simp
  ultimately show ?thesis
    by cases (use table_rows_0 table_rows_5 table_rows_10 table_rows_15 table_rows_20 table_rows_25 in \<open>(unfold list_all_iff, blast)+\<close>)
qed

lemma char_code_iff: "(of_char d :: int) = k \<Longrightarrow> (c = d) = (of_char c = k)"
  by auto

lemma char_codes:
  "(c = CHR 0x22) = ((of_char c :: int) = 34)"
  "(c = CHR 0x5C) = ((of_char c :: int) = 92)"
  "(c = CHR ''/'') = ((of_char c :: int) = 47)"
  "(c = CHR ''{'') = ((of_char c :: int) = 123)"
  "(c = CHR ''}'') = ((of_char c :: int) = 125)"
  "(c = CHR ''['') = ((of_char c :: int) = 91)"
  "(c = CHR '']'') = ((of_char c :: int) = 93)"
  "(c = CHR '','') = ((of_char c :: int) = 44)"
  "(c = CHR '':'') = ((of_char c :: int) = 58)"
  "(c = CHR ''-'') = ((of_char c :: int) = 45)"
  "(c = CHR ''0'') = ((of_char c :: int) = 48)"
  "(c = CHR ''f'') = ((of_char c :: int) = 102)"
  "(c = CHR ''n'') = ((of_char c :: int) = 110)"
  "(c = CHR ''t'') = ((of_char c :: int) = 116)"
  "(c = CHR ''u'') = ((of_char c :: int) = 117)"
  "(c = CHR ''e'') = ((of_char c :: int) = 101)"
  "(c = CHR ''E'') = ((of_char c :: int) = 69)"
  "(c = CHR ''.'') = ((of_char c :: int) = 46)"
  "(c = CHR ''+'') = ((of_char c :: int) = 43)"
  "(c = CHR ''r'') = ((of_char c :: int) = 114)"
  "(c = CHR ''b'') = ((of_char c :: int) = 98)"
  "(c = CHR ''a'') = ((of_char c :: int) = 97)"
  "(c = CHR ''l'') = ((of_char c :: int) = 108)"
  "(c = CHR ''s'') = ((of_char c :: int) = 115)"
  by (rule char_code_iff; simp)+

lemma code_int: "m \<le> code c \<longleftrightarrow> int m \<le> of_char c" "code c \<le> m \<longleftrightarrow> of_char c \<le> int m" "code c < m \<longleftrightarrow> of_char c < int m"
proof -
  have "(of_char c :: int) = int (code c)" using of_nat_of_char[of c, where 'a = int] by (rule sym)
  then show "m \<le> code c \<longleftrightarrow> int m \<le> of_char c" "code c \<le> m \<longleftrightarrow> of_char c \<le> int m" "code c < m \<longleftrightarrow> of_char c < int m"
    by (simp_all only: of_nat_le_iff of_nat_less_iff)
qed

lemma class_codes:
  "is_ws c = ((of_char c :: int) = 32 \<or> (of_char c :: int) = 9 \<or> (of_char c :: int) = 10 \<or> (of_char c :: int) = 13)"
  "isdigit c = (48 \<le> (of_char c :: int) \<and> (of_char c :: int) \<le> 57)"
  "is_hex c = (48 \<le> (of_char c :: int) \<and> (of_char c :: int) \<le> 57 \<or> 65 \<le> (of_char c :: int) \<and> (of_char c :: int) \<le> 70
    \<or> 97 \<le> (of_char c :: int) \<and> (of_char c :: int) \<le> 102)"
  "is_plain c = (32 \<le> (of_char c :: int) \<and> (of_char c :: int) < 128 \<and> (of_char c :: int) \<noteq> 34 \<and> (of_char c :: int) \<noteq> 92)"
  by (simp_all add: is_ws_def isdigit_def is_hex_def is_plain_def code_int char_code_iff[of _ _ c])

lemma json_next_code: "json_next q c = json_code q (of_char c)"
  unfolding json_next_def json_code_def end_next_def end_code_def value_next_def value_code_def class_codes char_codes
  by (rule refl)

lemma if_less: "x < z \<Longrightarrow> y < z \<Longrightarrow> (if b then x else y) < z"
  by simp

lemma next_range: "json_next q c < (30 :: int)" if "q < 30"
  unfolding json_next_def end_next_def value_next_def by (intro if_less) (use that in simp_all)

text \<open>The automaton on a state and the modes on its stack, the top first.\<close>

definition jact :: "nat \<Rightarrow> int \<Rightarrow> json_mode list \<Rightarrow> (int \<times> json_mode list) option" where
  "jact D n stk =
     (if n \<ge> 0 then Some (n, stk)
      else if n = - 9 then (case stk of MODE_KEY # s \<Rightarrow> Some (OK, s) | _ \<Rightarrow> None)
      else if n = - 8 then (case stk of MODE_OBJECT # s \<Rightarrow> Some (OK, s) | _ \<Rightarrow> None)
      else if n = - 7 then (case stk of MODE_ARRAY # s \<Rightarrow> Some (OK, s) | _ \<Rightarrow> None)
      else if n = - 6 then (if length stk < D then Some (OB, MODE_KEY # stk) else None)
      else if n = - 5 then (if length stk < D then Some (AR, MODE_ARRAY # stk) else None)
      else if n = - 4 then (case stk of MODE_KEY # s \<Rightarrow> Some (CO, stk) | MODE_ARRAY # s \<Rightarrow> Some (OK, stk)
             | MODE_OBJECT # s \<Rightarrow> Some (OK, stk) | _ \<Rightarrow> None)
      else if n = - 3 then (case stk of MODE_OBJECT # s \<Rightarrow> Some (KE, MODE_KEY # s) | MODE_ARRAY # s \<Rightarrow> Some (VA, stk) | _ \<Rightarrow> None)
      else if n = - 2 then (case stk of MODE_KEY # s \<Rightarrow> Some (VA, MODE_OBJECT # s) | _ \<Rightarrow> None)
      else None)"

fun jrun :: "nat \<Rightarrow> int \<Rightarrow> json_mode list \<Rightarrow> string \<Rightarrow> (int \<times> json_mode list) option" where
  "jrun D q stk [] = Some (q, stk)"
| "jrun D q stk (c # s) = (case jact D (json_next q c) stk of None \<Rightarrow> None | Some (q, stk) \<Rightarrow> jrun D q stk s)"

lemma jrun_append: "jrun D q stk (s @ t) = (case jrun D q stk s of None \<Rightarrow> None | Some (q, stk) \<Rightarrow> jrun D q stk t)"
  by (induction s arbitrary: q stk) (auto split: option.split)

definition stack_rel :: "nat \<Rightarrow> json_check \<Rightarrow> int \<Rightarrow> json_mode list \<Rightarrow> bool" where
  "stack_rel D jc q stk \<longleftrightarrow> jc_state jc = q \<and> 0 \<le> q \<and> q < 30 \<and> jc_depth jc = int D \<and> length (jc_stack jc) = D
     \<and> 0 < length stk \<and> length stk \<le> D \<and> jc_top jc = int (length stk) - 1
     \<and> take (length stk) (jc_stack jc) = rev stk \<and> last stk = MODE_DONE \<and> MODE_DONE \<notin> set (butlast stk)"

lemma stack_rel_top:
  assumes "stack_rel D jc q (m # s)"
  shows "jc_stack jc ! nat (jc_top jc) = m" "nat (jc_top jc) = length s" "0 \<le> jc_top jc"
proof -
  have e: "take (Suc (length s)) (jc_stack jc) = rev s @ [m]" and t: "jc_top jc = int (length s)"
    using assms by (auto simp: stack_rel_def)
  have "take (Suc (length s)) (jc_stack jc) ! length s = m" unfolding e by (simp add: nth_append)
  then show "jc_stack jc ! nat (jc_top jc) = m" "nat (jc_top jc) = length s" "0 \<le> jc_top jc" using t by simp_all
qed

lemma stack_rel_pop:
  assumes "stack_rel D jc q (m # s)"
  shows "json_pop jc m' = (if m' = m then Some (jc\<lparr>jc_top := jc_top jc - 1\<rparr>) else None)"
    and "m \<noteq> MODE_DONE \<Longrightarrow> 0 \<le> q' \<Longrightarrow> q' < 30 \<Longrightarrow> stack_rel D (jc\<lparr>jc_top := jc_top jc - 1, jc_state := q'\<rparr>) q' s"
proof -
  show "json_pop jc m' = (if m' = m then Some (jc\<lparr>jc_top := jc_top jc - 1\<rparr>) else None)"
    using stack_rel_top[OF assms] by (auto simp: json_pop_def)
  assume "m \<noteq> MODE_DONE" "0 \<le> q'" "q' < 30"
  moreover then have "s \<noteq> []" using assms by (auto simp: stack_rel_def)
  moreover have "take (length s) (jc_stack jc) = rev s"
  proof -
    have "take (length s) (take (length (m # s)) (jc_stack jc)) = take (length s) (rev (m # s))"
      using assms by (simp add: stack_rel_def)
    then show ?thesis by simp
  qed
  ultimately show "stack_rel D (jc\<lparr>jc_top := jc_top jc - 1, jc_state := q'\<rparr>) q' s"
    using assms by (auto simp: stack_rel_def)
qed

lemma stack_rel_push:
  assumes "stack_rel D jc q stk" "m \<noteq> MODE_DONE" "0 \<le> q'" "q' < 30"
  shows "length stk < D \<Longrightarrow> \<exists>jc'. json_push jc m = Some jc' \<and> stack_rel D (jc'\<lparr>jc_state := q'\<rparr>) q' (m # stk)"
    and "\<not> length stk < D \<Longrightarrow> json_push jc m = None"
proof -
  have r: "jc_top jc + 1 = int (length stk)" "jc_depth jc = int D" "length (jc_stack jc) = D"
    "take (length stk) (jc_stack jc) = rev stk"
    using assms(1) by (auto simp: stack_rel_def)
  show "\<not> length stk < D \<Longrightarrow> json_push jc m = None" using r by (simp add: json_push_def)
  assume l: "length stk < D"
  have "take (Suc (length stk)) ((jc_stack jc)[length stk := m]) = rev stk @ [m]"
    using l r by (simp add: take_Suc_conv_app_nth)
  then show "\<exists>jc'. json_push jc m = Some jc' \<and> stack_rel D (jc'\<lparr>jc_state := q'\<rparr>) q' (m # stk)"
    using l r assms by (auto simp: json_push_def stack_rel_def)
qed

text \<open>The checker runs the automaton.\<close>

lemma char_class_next:
  assumes "0 \<le> q" "q < 30" "code c < 128"
  shows "(if json_class (of_char c) \<le> - 1 then - 1
      else state_transition_table ! nat q ! nat (json_class (of_char c))) = json_next q c"
proof -
  have c: "0 \<le> (of_char c :: int)" "(of_char c :: int) < 128" using assms(3) code_int(1)[of 0 c] code_int(3)[of c 128] by simp_all
  show ?thesis using table_entry_next[OF assms(1,2) c] c
    by (simp add: json_next_code json_class_def table_entry_def Let_def split: if_splits)
qed

lemma stack_rel_state: "stack_rel D jc q stk \<Longrightarrow> 0 \<le> q' \<Longrightarrow> q' < 30 \<Longrightarrow> stack_rel D (jc\<lparr>jc_state := q'\<rparr>) q' stk"
  by (simp add: stack_rel_def)

lemma stack_rel_swap:
  assumes r: "stack_rel D jc q (m # s)" and m: "m \<noteq> MODE_DONE" "m' \<noteq> MODE_DONE" and q': "0 \<le> q'" "q' < 30"
  shows "\<exists>j jc'. json_pop jc m = Some j \<and> json_push j m' = Some jc' \<and> stack_rel D (jc'\<lparr>jc_state := q'\<rparr>) q' (m' # s)"
proof -
  let ?j = "jc\<lparr>jc_top := jc_top jc - 1\<rparr>"
  have p: "json_pop jc m = Some ?j" using stack_rel_pop(1)[OF r] by simp
  have q: "0 \<le> q" "q < 30" "jc_state jc = q" "length s < D" using r by (auto simp: stack_rel_def)
  have "stack_rel D (?j\<lparr>jc_state := q\<rparr>) q s" using stack_rel_pop(2)[OF r m(1) q(1,2)] .
  moreover have "?j\<lparr>jc_state := q\<rparr> = ?j" using q(3) by simp
  ultimately show ?thesis using stack_rel_push(1)[of D ?j q s m' q'] m(2) q' q(4) p by auto
qed

lemma json_check_char_run:
  assumes r: "stack_rel D jc q stk" and c: "code c < 128"
  shows "(case jact D (json_next q c) stk of
      None \<Rightarrow> json_check_char jc (of_char c) = None
    | Some (q', stk') \<Rightarrow> \<exists>jc'. json_check_char jc (of_char c) = Some jc' \<and> stack_rel D jc' q' stk')"
proof -
  have q: "0 \<le> q" "q < 30" "jc_state jc = q" using r by (auto simp: stack_rel_def)
  obtain m s where s: "stk = m # s" using r by (cases stk) (auto simp: stack_rel_def)
  have n: "json_next q c < 30" using next_range[OF q(2)] .
  have nn: "(0 :: int) \<le> of_char c" using code_int(1)[of 0 c] by simp
  note r' = r[unfolded s]
  note pop = stack_rel_pop[OF r']
  show ?thesis
  proof (cases "json_class (of_char c) \<le> - 1")
    case True
    then show ?thesis using char_class_next[OF q(1,2) c] nn by (simp add: json_check_char_def jact_def)
  next
    case False
    define k where "k = json_next q c"
    have ek: "state_transition_table ! nat (jc_state jc) ! nat (json_class (of_char c)) = k"
      using char_class_next[OF q(1,2) c] False q(3) by (simp add: k_def)
    consider "k \<ge> 0" | "k = - 9" | "k = - 8" | "k = - 7" | "k = - 6" | "k = - 5" | "k = - 4" | "k = - 3" | "k = - 2"
      | "k < 0" "k \<notin> {- 9, - 8, - 7, - 6, - 5, - 4, - 3, - 2}" by (cases "k \<ge> 0") auto
    then show ?thesis
    proof cases
      case 1 then show ?thesis unfolding k_def[symmetric] json_check_char_def ek
        using False nn n stack_rel_state[OF r] by (simp add: jact_def k_def[symmetric])
    next
      case 2 then show ?thesis unfolding k_def[symmetric] json_check_char_def ek
        using False nn pop(1)[of MODE_KEY] pop(2)[of OK] s by (cases m) (simp_all add: jact_def)
    next
      case 3 then show ?thesis unfolding k_def[symmetric] json_check_char_def ek
        using False nn pop(1)[of MODE_OBJECT] pop(2)[of OK] s by (cases m) (simp_all add: jact_def)
    next
      case 4 then show ?thesis unfolding k_def[symmetric] json_check_char_def ek
        using False nn pop(1)[of MODE_ARRAY] pop(2)[of OK] s by (cases m) (simp_all add: jact_def)
    next
      case 5 then show ?thesis unfolding k_def[symmetric] json_check_char_def ek
        using False nn stack_rel_push[OF r, of MODE_KEY OB] by (auto simp: jact_def)
    next
      case 6 then show ?thesis unfolding k_def[symmetric] json_check_char_def ek
        using False nn stack_rel_push[OF r, of MODE_ARRAY AR] by (auto simp: jact_def)
    next
      case 7 then show ?thesis unfolding k_def[symmetric] json_check_char_def ek
        using False nn stack_rel_state[OF r] stack_rel_top(1)[OF r'] s by (cases m) (simp_all add: jact_def)
    next
      case 8 then show ?thesis unfolding k_def[symmetric] json_check_char_def ek
        using False nn stack_rel_state[OF r] stack_rel_top(1)[OF r'] stack_rel_swap[OF r', of MODE_KEY KE] s
        by (cases m) (auto simp: jact_def)
    next
      case 9 then show ?thesis unfolding k_def[symmetric] json_check_char_def ek
        using False nn pop(1)[of MODE_KEY] stack_rel_swap[OF r', of MODE_OBJECT VA] s by (cases m) (auto simp: jact_def)
    next
      case 10 then show ?thesis unfolding k_def[symmetric] json_check_char_def ek
        using False nn by (simp add: jact_def)
    qed
  qed
qed

text \<open>The part of a text that the loop reads.\<close>

definition ascii_part :: "string \<Rightarrow> string" where
  "ascii_part s = takeWhile (\<lambda>c. c \<noteq> NUL \<and> code c < 128) s"

lemma signed_bytes: "list_all (\<lambda>k. signed_take_bit 7 k = (if k < 128 then k else k - 256)) [0..255 :: int]"
  by code_simp

lemma signed_char: "sint (of_char c :: u8) = (if code c < 128 then of_char c else of_char c - 256)"
proof -
  have k: "0 \<le> (of_char c :: int)" "(of_char c :: int) \<le> 255"
    using code_int(1)[of 0 c] code_int(3)[of c 256] nat_of_char_less_256[of c] by auto
  have "(of_char c :: u8) = word_of_int (of_char c)" using of_int_of_char[of c, where 'a = u8] by simp
  then have "sint (of_char c :: u8) = signed_take_bit 7 (of_char c)" by (simp only: sint_sbintrunc') simp
  also have "\<dots> = (if (of_char c :: int) < 128 then of_char c else of_char c - 256)"
    using signed_bytes k unfolding list_all_iff by simp
  finally show ?thesis by (simp add: code_int)
qed

end
