(* ===== verification/Json_Grammar.thy ===== *)
theory Json_Grammar imports
  Json_Check
begin

text \<open>
  The grammar of the texts that src/json_check.c accepts, and the proof that the checker decides it.
\<close>

section \<open>Grammar\<close>

definition ws :: "string \<Rightarrow> bool" where
  "ws w \<longleftrightarrow> list_all is_ws w"

inductive json_chars :: "string \<Rightarrow> bool" where
  "json_chars []"
| "is_plain c \<Longrightarrow> json_chars s \<Longrightarrow> json_chars (c # s)"
| "e \<in> {CHR 0x22, CHR 0x5C, CHR ''/'', CHR ''b'', CHR ''f'', CHR ''n'', CHR ''r'', CHR ''t''} \<Longrightarrow> json_chars s
    \<Longrightarrow> json_chars (CHR 0x5C # e # s)"
| "is_hex a \<Longrightarrow> is_hex b \<Longrightarrow> is_hex c \<Longrightarrow> is_hex d \<Longrightarrow> json_chars s
    \<Longrightarrow> json_chars (CHR 0x5C # CHR ''u'' # a # b # c # d # s)"

definition json_string :: "string \<Rightarrow> bool" where
  "json_string s \<longleftrightarrow> (\<exists>b. s = CHR 0x22 # b @ [CHR 0x22] \<and> json_chars b)"

definition digits :: "string \<Rightarrow> bool" where
  "digits s \<longleftrightarrow> list_all isdigit s"

definition json_int :: "string \<Rightarrow> bool" where
  "json_int i \<longleftrightarrow> i = ''0'' \<or> (\<exists>d ds. i = d # ds \<and> isdigit d \<and> d \<noteq> CHR ''0'' \<and> digits ds)"

definition json_frac :: "string \<Rightarrow> bool" where
  "json_frac f \<longleftrightarrow> f = [] \<or> (\<exists>ds. f = CHR ''.'' # ds \<and> digits ds)"

definition json_exp :: "string \<Rightarrow> bool" where
  "json_exp x \<longleftrightarrow> x = [] \<or> (\<exists>e sg ds. x = e # sg @ ds \<and> e \<in> {CHR ''e'', CHR ''E''} \<and> sg \<in> {[], ''+'', ''-''}
     \<and> ds \<noteq> [] \<and> digits ds)"

text \<open>
  Two deviations from JSON: the digits behind the point may be missing, and a zero takes no exponent
  without a point.
\<close>

definition json_number :: "string \<Rightarrow> bool" where
  "json_number s \<longleftrightarrow> (\<exists>m i f x. s = m @ i @ f @ x \<and> m \<in> {[], ''-''} \<and> json_int i \<and> json_frac f \<and> json_exp x
     \<and> (i = ''0'' \<and> f = [] \<longrightarrow> x = []))"

text \<open>The number is the depth that the nesting may have.\<close>

inductive json_value :: "nat \<Rightarrow> string \<Rightarrow> bool"
  and json_item :: "nat \<Rightarrow> string \<Rightarrow> bool"
  and json_elems :: "nat \<Rightarrow> string \<Rightarrow> bool"
  and json_members :: "nat \<Rightarrow> string \<Rightarrow> bool" where
  value_string: "json_string s \<Longrightarrow> json_value d s"
| value_number: "json_number s \<Longrightarrow> json_value d s"
| value_literal: "s \<in> {''true'', ''false'', ''null''} \<Longrightarrow> json_value d s"
| value_empty_array: "ws w \<Longrightarrow> json_value (Suc d) (CHR ''['' # w @ '']'')"
| value_array: "json_elems d es \<Longrightarrow> json_value (Suc d) (CHR ''['' # es @ '']'')"
| value_empty_object: "ws w \<Longrightarrow> json_value (Suc d) (CHR ''{'' # w @ ''}'')"
| value_object: "json_members d ms \<Longrightarrow> json_value (Suc d) (CHR ''{'' # ms @ ''}'')"
| item: "ws w \<Longrightarrow> json_value d v \<Longrightarrow> ws w' \<Longrightarrow> json_item d (w @ v @ w')"
| elems_one: "json_item d s \<Longrightarrow> json_elems d s"
| elems_more: "json_item d s \<Longrightarrow> json_elems d es \<Longrightarrow> json_elems d (s @ CHR '','' # es)"
| members_one: "ws w \<Longrightarrow> json_string k \<Longrightarrow> ws w' \<Longrightarrow> json_item d s
    \<Longrightarrow> json_members d (w @ k @ w' @ CHR '':'' # s)"
| members_more: "ws w \<Longrightarrow> json_string k \<Longrightarrow> ws w' \<Longrightarrow> json_item d s \<Longrightarrow> json_members d ms
    \<Longrightarrow> json_members d (w @ k @ w' @ CHR '':'' # s @ CHR '','' # ms)"

text \<open>A text is an array or an object.\<close>

definition json_doc :: "nat \<Rightarrow> string \<Rightarrow> bool" where
  "json_doc d s \<longleftrightarrow> (\<exists>w v w'. s = w @ v @ w' \<and> ws w \<and> json_value d v \<and> hd v \<in> {CHR ''{'', CHR ''[''} \<and> ws w')"

section \<open>Every text of the grammar is accepted\<close>

text \<open>The rows of the automaton.\<close>

lemma json_rows:
  "json_next GO c = (if is_ws c then GO else if c = CHR ''{'' then - 6 else if c = CHR ''['' then - 5 else - 1)"
  "json_next OK c = end_next c"
  "json_next OB c = (if is_ws c then OB else if c = CHR ''}'' then - 9 else if c = CHR 0x22 then ST else - 1)"
  "json_next KE c = (if is_ws c then KE else if c = CHR 0x22 then ST else - 1)"
  "json_next CO c = (if is_ws c then CO else if c = CHR '':'' then - 2 else - 1)"
  "json_next VA c = value_next VA c"
  "json_next AR c = (if c = CHR '']'' then - 7 else value_next AR c)"
  "json_next ST c = (if c = CHR 0x22 then - 4 else if c = CHR 0x5C then ES else if is_plain c then ST else - 1)"
  "json_next ES c = (if c = CHR ''u'' then U1 else if c = CHR 0x22 \<or> c = CHR 0x5C \<or> c = CHR ''/'' \<or> c = CHR ''b'' \<or> c = CHR ''f'' \<or> c = CHR ''n'' \<or> c = CHR ''r'' \<or> c = CHR ''t'' then ST else - 1)"
  "json_next U1 c = (if is_hex c then U2 else - 1)"
  "json_next U2 c = (if is_hex c then U3 else - 1)"
  "json_next U3 c = (if is_hex c then U4 else - 1)"
  "json_next U4 c = (if is_hex c then ST else - 1)"
  "json_next MI c = (if c = CHR ''0'' then ZE else if isdigit c then IN else - 1)"
  "json_next ZE c = (if c = CHR ''.'' then FR else end_next c)"
  "json_next IN c = (if isdigit c then IN else if c = CHR ''.'' then FR else if c = CHR ''e'' \<or> c = CHR ''E'' then E1 else end_next c)"
  "json_next FR c = (if isdigit c then FR else if c = CHR ''e'' \<or> c = CHR ''E'' then E1 else end_next c)"
  "json_next E1 c = (if c = CHR ''+'' \<or> c = CHR ''-'' then E2 else if isdigit c then E3 else - 1)"
  "json_next E2 c = (if isdigit c then E3 else - 1)"
  "json_next E3 c = (if isdigit c then E3 else end_next c)"
  "json_next T1 c = (if c = CHR ''r'' then T2 else - 1)"
  "json_next T2 c = (if c = CHR ''u'' then T3 else - 1)"
  "json_next T3 c = (if c = CHR ''e'' then OK else - 1)"
  "json_next F1 c = (if c = CHR ''a'' then F2 else - 1)"
  "json_next F2 c = (if c = CHR ''l'' then F3 else - 1)"
  "json_next F3 c = (if c = CHR ''s'' then F4 else - 1)"
  "json_next F4 c = (if c = CHR ''e'' then OK else - 1)"
  "json_next N1 c = (if c = CHR ''u'' then N2 else - 1)"
  "json_next N2 c = (if c = CHR ''l'' then N3 else - 1)"
  "json_next N3 c = (if c = CHR ''l'' then OK else - 1)"
  by (simp_all add: json_next_def)

text \<open>The states behind a value.\<close>

definition ended :: "int \<Rightarrow> bool" where
  "ended q \<longleftrightarrow> q = OK \<or> q = ZE \<or> q = IN \<or> q = FR \<or> q = E3"

lemma is_ws_not [simp]: "is_ws c \<Longrightarrow> c \<noteq> CHR ''.''" "is_ws c \<Longrightarrow> \<not> isdigit c" "is_ws c \<Longrightarrow> c \<noteq> CHR ''e''" "is_ws c \<Longrightarrow> c \<noteq> CHR ''E''"
  "is_ws c \<Longrightarrow> c \<noteq> CHR '']''" "is_ws c \<Longrightarrow> c \<noteq> CHR ''}''" "is_ws c \<Longrightarrow> c \<noteq> CHR '',''" "is_ws c \<Longrightarrow> c \<noteq> CHR '':''"
  "is_ws c \<Longrightarrow> c \<noteq> CHR 0x22"
  by (auto simp: is_ws_def isdigit_def)

lemma isdigit_not [simp]: "isdigit c \<Longrightarrow> c \<noteq> CHR ''.''" "isdigit c \<Longrightarrow> \<not> is_ws c" "isdigit c \<Longrightarrow> c \<noteq> CHR ''e''" "isdigit c \<Longrightarrow> c \<noteq> CHR ''E''"
  "isdigit c \<Longrightarrow> c \<noteq> CHR ''{''" "isdigit c \<Longrightarrow> c \<noteq> CHR ''[''" "isdigit c \<Longrightarrow> c \<noteq> CHR 0x22" "isdigit c \<Longrightarrow> c \<noteq> CHR ''-''"
  "isdigit c \<Longrightarrow> c \<noteq> CHR ''+''" "isdigit c \<Longrightarrow> c \<noteq> CHR '']''"
  by (auto simp: is_ws_def isdigit_def)

lemma char_class_facts [simp]: "\<not> is_ws CHR ''.''" "\<not> is_ws CHR ''0''" "\<not> is_ws CHR ''-''" "\<not> isdigit CHR ''.''" "isdigit CHR ''0''"
  "\<not> is_ws CHR ''{''" "\<not> is_ws CHR ''[''" "\<not> is_ws CHR '']''" "\<not> is_ws CHR ''}''" "\<not> is_ws CHR '',''" "\<not> is_ws CHR '':''"
  "\<not> is_ws CHR 0x22" "\<not> is_ws CHR ''t''" "\<not> is_ws CHR ''f''" "\<not> is_ws CHR ''n''" "\<not> isdigit CHR ''-''" "\<not> isdigit CHR ''t''"
  "\<not> isdigit CHR ''f''" "\<not> isdigit CHR ''n''" "\<not> isdigit CHR '']''" "\<not> isdigit CHR ''}''" "\<not> isdigit CHR '',''" "\<not> isdigit CHR ''['' "
  "\<not> isdigit CHR ''{''" "\<not> isdigit CHR ''e''" "\<not> isdigit CHR ''E''" "\<not> isdigit CHR ''+''"
  by (simp_all add: is_ws_def isdigit_def)

lemma ws_simps [simp]: "ws []" "ws (c # w) \<longleftrightarrow> is_ws c \<and> ws w" "ws (v @ w) \<longleftrightarrow> ws v \<and> ws w"
  by (auto simp: ws_def)

lemma digits_simps [simp]: "digits []" "digits (c # w) \<longleftrightarrow> isdigit c \<and> digits w" "digits (v @ w) \<longleftrightarrow> digits v \<and> digits w"
  by (auto simp: digits_def)

lemma run_ws: "ws w \<Longrightarrow> q \<in> {GO, OK, OB, KE, CO, VA, AR} \<Longrightarrow> jrun D q stk w = Some (q, stk)"
  by (induction w) (auto simp: json_rows end_next_def value_next_def jact_def)

lemma run_ended_ws: "ws w \<Longrightarrow> ended q \<Longrightarrow> \<exists>q'. ended q' \<and> jrun D q stk w = Some (q', stk)"
proof (cases w)
  case (Cons c w')
  assume a: "ws w" "ended q"
  then have "jrun D q stk w = jrun D OK stk w'"
    using Cons by (auto simp: ended_def json_rows end_next_def jact_def)
  then show ?thesis using run_ws[of w' OK D stk] a Cons by (auto simp: ended_def)
qed auto

lemma run_chars: "json_chars b \<Longrightarrow> jrun D ST stk b = Some (ST, stk)"
  by (induction rule: json_chars.induct) (auto simp: json_rows jact_def is_plain_def)

lemma run_digits: "digits ds \<Longrightarrow> q \<in> {IN, FR, E3} \<Longrightarrow> jrun D q stk ds = Some (q, stk)"
  by (induction ds) (auto simp: json_rows jact_def)

lemma run_int: "json_int i \<Longrightarrow> q \<in> {VA, AR, MI} \<Longrightarrow> jrun D q stk i = Some (if i = ''0'' then ZE else IN, stk)"
  unfolding json_int_def
  by (auto simp: run_digits json_rows value_next_def jact_def)

lemma run_frac: "json_frac f \<Longrightarrow> q \<in> {ZE, IN} \<Longrightarrow> jrun D q stk f = Some (if f = [] then q else FR, stk)"
  by (auto simp: json_frac_def run_digits json_rows jact_def)

lemma run_exp: "json_exp x \<Longrightarrow> q \<in> {ZE, IN, FR} \<Longrightarrow> (q = ZE \<Longrightarrow> x = []) \<Longrightarrow> jrun D q stk x = Some (if x = [] then q else E3, stk)"
proof -
  assume x: "json_exp x" and q: "q \<in> {ZE, IN, FR}" "q = ZE \<Longrightarrow> x = []"
  have e3: "jrun D q' stk ds = Some (E3, stk)" if "ds \<noteq> []" "digits ds" "q' \<in> {E1, E2}" for ds q'
    using that by (cases ds) (auto simp: run_digits json_rows jact_def)
  show ?thesis using x q e3 unfolding json_exp_def
    by (auto simp: jrun_append json_rows jact_def)
qed

lemma run_number:
  assumes "json_number s" "q \<in> {VA, AR}"
  shows "\<exists>q'. ended q' \<and> jrun D q stk s = Some (q', stk)"
proof -
  obtain m i f x where s: "s = m @ i @ f @ x" "m \<in> {[], ''-''}" "json_int i" "json_frac f" "json_exp x"
    "i = ''0'' \<and> f = [] \<longrightarrow> x = []" using assms(1) by (auto simp: json_number_def)
  define q1 where "q1 = (if i = ''0'' then ZE else IN)"
  define q2 where "q2 = (if f = [] then q1 else FR)"
  have "jrun D q stk (m @ i) = Some (q1, stk)"
    using s(2,3) assms(2) by (auto simp: q1_def jrun_append run_int json_rows value_next_def jact_def)
  moreover have "jrun D q1 stk f = Some (q2, stk)" using run_frac[OF s(4), of q1 D stk] by (simp add: q1_def q2_def)
  moreover have "jrun D q2 stk x = Some (if x = [] then q2 else E3, stk)"
    using run_exp[OF s(5), of q2 D stk] s(6) by (auto simp: q1_def q2_def split: if_splits)
  ultimately have "jrun D q stk ((m @ i) @ f @ x) = Some (if x = [] then q2 else E3, stk)" by (simp only: jrun_append) simp
  then show ?thesis using s(1) by (auto simp: ended_def q1_def q2_def)
qed

lemma run_string:
  assumes "json_string s" "q \<in> {VA, AR, OB, KE}"
  shows "jrun D q stk s = jact D (- 4) stk"
proof -
  obtain b where s: "s = CHR 0x22 # b @ [CHR 0x22]" "json_chars b" using assms(1) by (auto simp: json_string_def)
  have "json_next q (CHR 0x22) = ST" using assms(2) by (auto simp: json_rows value_next_def is_ws_def)
  then show ?thesis using s run_chars[OF s(2), of D stk]
    by (simp add: jrun_append jact_def[of D 7] json_rows split: option.split)
qed

lemma ended_next: "ended q \<Longrightarrow> json_next q (CHR '']'') = - 7" "ended q \<Longrightarrow> json_next q (CHR ''}'') = - 8"
    "ended q \<Longrightarrow> json_next q (CHR '','') = - 3"
  by (auto simp: ended_def json_rows end_next_def is_ws_def isdigit_def)

lemma run_open:
  "q \<in> {GO, VA, AR} \<Longrightarrow> json_next q (CHR ''['') = - 5" "q \<in> {GO, VA, AR} \<Longrightarrow> json_next q (CHR ''{'') = - 6"
  by (auto simp: json_rows value_next_def is_ws_def)

lemma run_literal: "s \<in> {''true'', ''false'', ''null''} \<Longrightarrow> q \<in> {VA, AR} \<Longrightarrow> jrun D q stk s = Some (OK, stk)"
  by (auto simp: json_rows value_next_def is_ws_def isdigit_def jact_def)

lemma run_array:
  assumes "\<exists>q'. (ended q' \<or> q' = AR) \<and> jrun D AR (MODE_ARRAY # stk) es = Some (q', MODE_ARRAY # stk)"
    and "length stk < D" "q \<in> {GO, VA, AR}"
  shows "jrun D q stk (CHR ''['' # es @ '']'') = Some (OK, stk)"
proof -
  obtain q' where q': "ended q' \<or> q' = AR" "jrun D AR (MODE_ARRAY # stk) es = Some (q', MODE_ARRAY # stk)"
    using assms(1) by auto
  have "json_next q' (CHR '']'') = - 7" using q'(1) ended_next(1)[of q'] by (auto simp: json_rows)
  then show ?thesis using q'(2) assms(2) run_open(1)[OF assms(3)] by (simp add: jrun_append jact_def)
qed

lemma run_object:
  assumes "\<exists>q'. jrun D OB (MODE_KEY # stk) ms = Some (q', m # stk)
      \<and> (ended q' \<and> m = MODE_OBJECT \<or> q' = OB \<and> m = MODE_KEY)"
    and "length stk < D" "q \<in> {GO, VA, AR}"
  shows "jrun D q stk (CHR ''{'' # ms @ ''}'') = Some (OK, stk)"
proof -
  obtain q' where q': "jrun D OB (MODE_KEY # stk) ms = Some (q', m # stk)"
    "ended q' \<and> m = MODE_OBJECT \<or> q' = OB \<and> m = MODE_KEY" using assms(1) by blast
  have "json_next q' (CHR ''}'') = (if m = MODE_OBJECT then - 8 else - 9)"
    using q'(2) ended_next(2)[of q'] by (auto simp: json_rows)
  then show ?thesis using q' assms(2) run_open(2)[OF assms(3)] by (auto simp add: jrun_append jact_def)
qed

lemma run_member:
  assumes "ws w" "json_string k" "ws w'" "q \<in> {OB, KE}"
    and "\<exists>q'. ended q' \<and> jrun D VA (MODE_OBJECT # stk) s = Some (q', MODE_OBJECT # stk)"
  shows "\<exists>q'. ended q' \<and> jrun D q (MODE_KEY # stk) (w @ k @ w' @ CHR '':'' # s) = Some (q', MODE_OBJECT # stk)"
proof -
  have q: "q \<in> {VA, AR, OB, KE}" "q \<in> {GO, OK, OB, KE, CO, VA, AR}" using assms(4) by auto
  have 1: "jrun D q (MODE_KEY # stk) w = Some (q, MODE_KEY # stk)" by (rule run_ws[OF assms(1) q(2)])
  have 2: "jrun D q (MODE_KEY # stk) k = Some (CO, MODE_KEY # stk)"
    unfolding run_string[OF assms(2) q(1)] by (simp add: jact_def)
  have 3: "jrun D CO (MODE_KEY # stk) w' = Some (CO, MODE_KEY # stk)" by (rule run_ws[OF assms(3)]) simp
  have 4: "jrun D CO (MODE_KEY # stk) (CHR '':'' # s) = jrun D VA (MODE_OBJECT # stk) s" by (simp add: json_rows jact_def)
  obtain q' where q': "ended q'" "jrun D VA (MODE_OBJECT # stk) s = Some (q', MODE_OBJECT # stk)" using assms(5) by blast
  have "jrun D q (MODE_KEY # stk) (w @ k @ w' @ CHR '':'' # s) = Some (q', MODE_OBJECT # stk)"
    by (simp only: jrun_append 1 2 3 4 q'(2) option.case prod.case)
  then show ?thesis using q'(1) by blast
qed

lemma grammar_run:
  "json_value d s \<Longrightarrow> length (m # stk) + d \<le> D \<Longrightarrow> q \<in> {VA, AR} \<Longrightarrow> m \<in> {MODE_ARRAY, MODE_OBJECT} \<or> hd s \<noteq> CHR 0x22 \<Longrightarrow>
    \<exists>q'. ended q' \<and> jrun D q (m # stk) s = Some (q', m # stk)"
  "json_item d s \<Longrightarrow> length (m # stk) + d \<le> D \<Longrightarrow> q \<in> {VA, AR} \<Longrightarrow> m \<in> {MODE_ARRAY, MODE_OBJECT} \<Longrightarrow>
    \<exists>q'. ended q' \<and> jrun D q (m # stk) s = Some (q', m # stk)"
  "json_elems d s \<Longrightarrow> length (MODE_ARRAY # stk) + d \<le> D \<Longrightarrow> q \<in> {VA, AR} \<Longrightarrow>
    \<exists>q'. ended q' \<and> jrun D q (MODE_ARRAY # stk) s = Some (q', MODE_ARRAY # stk)"
  "json_members d s \<Longrightarrow> length (MODE_KEY # stk) + d \<le> D \<Longrightarrow> q \<in> {OB, KE} \<Longrightarrow>
    \<exists>q'. ended q' \<and> jrun D q (MODE_KEY # stk) s = Some (q', MODE_OBJECT # stk)"
proof (induction arbitrary: m stk q and m stk q and stk q and stk q rule: json_value_json_item_json_elems_json_members.inducts)
  case (value_string s d)
  then have "hd s = CHR 0x22" by (auto simp: json_string_def)
  then have "m \<in> {MODE_ARRAY, MODE_OBJECT}" using value_string.prems(3) by simp
  then have "jact D (- 4) (m # stk) = Some (OK, m # stk)" by (auto simp: jact_def)
  moreover have "jrun D q (m # stk) s = jact D (- 4) (m # stk)"
    by (rule run_string[OF value_string.hyps]) (use value_string.prems(2) in auto)
  ultimately show ?case by (simp add: ended_def)
next
  case (value_number s d) then show ?case using run_number by blast
next
  case (value_literal s d) then show ?case using run_literal[of s q D "m # stk"] by (auto simp: ended_def)
next
  case (value_empty_array w d)
  have "jrun D q (m # stk) (CHR ''['' # w @ '']'') = Some (OK, m # stk)"
    by (rule run_array) (use value_empty_array run_ws[of w] in \<open>auto\<close>)
  then show ?case by (auto simp: ended_def)
next
  case (value_array d es)
  have "jrun D q (m # stk) (CHR ''['' # es @ '']'') = Some (OK, m # stk)"
    by (rule run_array) (use value_array.IH[of "m # stk" AR] value_array.prems in auto)
  then show ?case by (auto simp: ended_def)
next
  case (value_empty_object w d)
  have "jrun D q (m # stk) (CHR ''{'' # w @ ''}'') = Some (OK, m # stk)"
    by (rule run_object[where m = MODE_KEY]) (use value_empty_object run_ws[of w] in \<open>auto\<close>)
  then show ?case by (auto simp: ended_def)
next
  case (value_object d ms)
  have "jrun D q (m # stk) (CHR ''{'' # ms @ ''}'') = Some (OK, m # stk)"
    by (rule run_object[where m = MODE_OBJECT]) (use value_object.IH[of "m # stk" OB] value_object.prems in auto)
  then show ?case by (auto simp: ended_def)
next
  case (item w d v w')
  obtain q1 where q1: "ended q1" "jrun D q (m # stk) v = Some (q1, m # stk)" using item.IH[of m stk q] item.prems by blast
  moreover have "jrun D q (m # stk) w = Some (q, m # stk)" using run_ws[OF item.hyps(1)] item.prems(2) by auto
  ultimately show ?case using run_ended_ws[OF item.hyps(3) q1(1), of D "m # stk"] by (auto simp: jrun_append)
next
  case (elems_one d s) then show ?case by simp
next
  case (elems_more d s es)
  obtain q1 where q1: "ended q1" "jrun D q (MODE_ARRAY # stk) s = Some (q1, MODE_ARRAY # stk)"
    using elems_more.IH(1)[of MODE_ARRAY stk q] elems_more.prems by blast
  moreover have "json_next q1 (CHR '','') = - 3" using ended_next(3)[OF q1(1)] .
  ultimately show ?case using elems_more.IH(2)[of stk VA] elems_more.prems by (simp add: jrun_append jact_def)
next
  case (members_one w k w' d s)
  show ?case by (rule run_member) (use members_one in \<open>auto\<close>)
next
  case (members_more w k w' d s ms)
  have "\<exists>q'. ended q' \<and> jrun D q (MODE_KEY # stk) (w @ k @ w' @ CHR '':'' # s) = Some (q', MODE_OBJECT # stk)"
    by (rule run_member) (use members_more in \<open>auto\<close>)
  then obtain q1 where q1: "ended q1" "jrun D q (MODE_KEY # stk) (w @ k @ w' @ CHR '':'' # s) = Some (q1, MODE_OBJECT # stk)"
    by blast
  have n: "json_next q1 (CHR '','') = - 3" using ended_next(3)[OF q1(1)] .
  have "w @ k @ w' @ CHR '':'' # s @ CHR '','' # ms = (w @ k @ w' @ CHR '':'' # s) @ CHR '','' # ms" by simp
  then have "jrun D q (MODE_KEY # stk) (w @ k @ w' @ CHR '':'' # s @ CHR '','' # ms) = jrun D KE (MODE_KEY # stk) ms"
    using q1(2) n jrun_append[of D q "MODE_KEY # stk" "w @ k @ w' @ CHR '':'' # s" "CHR '','' # ms"] by (simp add: jact_def)
  then show ?case using members_more.IH(2)[of stk KE] members_more.prems by simp
qed

lemma number_start: "json_number s \<Longrightarrow> hd s = CHR ''-'' \<or> isdigit (hd s)"
  by (auto simp: json_number_def json_int_def)

lemma container_run:
  assumes "json_value d v" "hd v \<in> {CHR ''{'', CHR ''[''}" "length stk + d \<le> D" "q \<in> {GO, VA, AR}"
  shows "jrun D q stk v = Some (OK, stk)"
  using assms(1)
proof (cases rule: json_value.cases)
  case value_string then show ?thesis using assms(2) by (auto simp: json_string_def)
next
  case value_number then show ?thesis using assms(2) number_start by fastforce
next
  case value_literal then show ?thesis using assms(2) by auto
next
  case (value_empty_array w d')
  show ?thesis unfolding value_empty_array(2)
    by (rule run_array) (use value_empty_array assms(3,4) run_ws[of w] in auto)
next
  case (value_array d' es)
  show ?thesis unfolding value_array(2)
    by (rule run_array) (use value_array assms(3,4) grammar_run(3)[of d' es stk D AR] in auto)
next
  case (value_empty_object w d')
  show ?thesis unfolding value_empty_object(2)
    by (rule run_object[where m = MODE_KEY]) (use value_empty_object assms(3,4) run_ws[of w] in auto)
next
  case (value_object d' ms)
  show ?thesis unfolding value_object(2)
    by (rule run_object[where m = MODE_OBJECT]) (use value_object assms(3,4) grammar_run(4)[of d' ms stk D OB] in auto)
qed

lemma doc_run:
  assumes "json_doc d s" "d < D"
  shows "jrun D GO [MODE_DONE] s = Some (OK, [MODE_DONE])"
proof -
  obtain w v w' where s: "s = w @ v @ w'" "ws w" "json_value d v" "hd v \<in> {CHR ''{'', CHR ''[''}" "ws w'"
    using assms(1) by (auto simp: json_doc_def)
  have "jrun D GO [MODE_DONE] v = Some (OK, [MODE_DONE])" by (rule container_run[OF s(3,4)]) (use assms(2) in auto)
  then show ?thesis using run_ws[OF s(2), of GO D] run_ws[OF s(5), of OK D] s(1) by (simp add: jrun_append)
qed

section \<open>Every accepted text is one of the grammar\<close>

definition accepts :: "nat \<Rightarrow> int \<Rightarrow> json_mode list \<Rightarrow> string \<Rightarrow> bool" where
  "accepts D q stk s \<longleftrightarrow> jrun D q stk s = Some (OK, [MODE_DONE])"

lemma accepts_Nil [simp]: "accepts D q stk [] \<longleftrightarrow> q = OK \<and> stk = [MODE_DONE]"
  by (simp add: accepts_def)

lemma accepts_Cons: "accepts D q stk (c # s) \<longleftrightarrow>
    (case jact D (json_next q c) stk of None \<Rightarrow> False | Some (q, stk) \<Rightarrow> accepts D q stk s)"
  by (auto simp: accepts_def split: option.split)

lemma jact_reject [simp]: "jact D (- 1) stk = None"
  by (simp add: jact_def)

lemma jact_state [simp]: "0 \<le> n \<Longrightarrow> jact D n stk = Some (n, stk)"
  by (simp add: jact_def)

lemma jact_stack [simp]:
  "jact D (- 9) stk = (case stk of MODE_KEY # s \<Rightarrow> Some (OK, s) | _ \<Rightarrow> None)"
  "jact D (- 8) stk = (case stk of MODE_OBJECT # s \<Rightarrow> Some (OK, s) | _ \<Rightarrow> None)"
  "jact D (- 7) stk = (case stk of MODE_ARRAY # s \<Rightarrow> Some (OK, s) | _ \<Rightarrow> None)"
  "jact D (- 6) stk = (if length stk < D then Some (OB, MODE_KEY # stk) else None)"
  "jact D (- 5) stk = (if length stk < D then Some (AR, MODE_ARRAY # stk) else None)"
  "jact D (- 4) stk = (case stk of MODE_KEY # s \<Rightarrow> Some (CO, stk) | MODE_ARRAY # s \<Rightarrow> Some (OK, stk)
     | MODE_OBJECT # s \<Rightarrow> Some (OK, stk) | _ \<Rightarrow> None)"
  "jact D (- 3) stk = (case stk of MODE_OBJECT # s \<Rightarrow> Some (KE, MODE_KEY # s) | MODE_ARRAY # s \<Rightarrow> Some (VA, stk) | _ \<Rightarrow> None)"
  "jact D (- 2) stk = (case stk of MODE_KEY # s \<Rightarrow> Some (VA, MODE_OBJECT # s) | _ \<Rightarrow> None)"
  by (simp_all add: jact_def)

text \<open>One step from each state.\<close>

lemma accepts_ws: "accepts D q stk s \<Longrightarrow> q \<in> {GO, OK, OB, KE, CO, VA, AR} \<Longrightarrow>
    \<exists>w r. s = w @ r \<and> ws w \<and> accepts D q stk r \<and> (r = [] \<or> \<not> is_ws (hd r))"
proof (induction s)
  case (Cons c s)
  show ?case
  proof (cases "is_ws c")
    case True
    then have "accepts D q stk s" using Cons.prems by (auto simp: accepts_Cons json_rows end_next_def value_next_def)
    then obtain w r where "s = w @ r" "ws w" "accepts D q stk r" "r = [] \<or> \<not> is_ws (hd r)"
      using Cons.IH Cons.prems(2) by blast
    then have "c # s = (c # w) @ r \<and> ws (c # w) \<and> accepts D q stk r \<and> (r = [] \<or> \<not> is_ws (hd r))" using True by simp
    then show ?thesis by blast
  next
    case False
    then have "c # s = [] @ (c # s) \<and> ws [] \<and> accepts D q stk (c # s) \<and> (c # s = [] \<or> \<not> is_ws (hd (c # s)))"
      using Cons.prems by simp
    then show ?thesis by blast
  qed
qed auto

lemma accepts_chars:
  "accepts D ST stk s \<Longrightarrow> \<exists>b r q' stk'. s = b @ CHR 0x22 # r \<and> json_chars b \<and> jact D (- 4) stk = Some (q', stk') \<and> accepts D q' stk' r"
proof (induction "length s" arbitrary: s rule: less_induct)
  case less
  obtain c s1 where s: "s = c # s1" using less.prems by (cases s) auto
  note c = less.prems[unfolded s accepts_Cons json_rows]
  have ih: "accepts D ST stk t \<Longrightarrow> length t < length s \<Longrightarrow>
      \<exists>b r q' stk'. t = b @ CHR 0x22 # r \<and> json_chars b \<and> jact D (- 4) stk = Some (q', stk') \<and> accepts D q' stk' r" for t
    using less.hyps by blast
  consider "c = CHR 0x22" | "c = CHR 0x5C" | "is_plain c" "c \<noteq> CHR 0x22" "c \<noteq> CHR 0x5C" "accepts D ST stk s1"
    using c by (auto split: if_splits)
  then show ?case
  proof cases
    case 1
    then have "s = [] @ CHR 0x22 # s1" using s by simp
    moreover have "\<exists>q' stk'. jact D (- 4) stk = Some (q', stk') \<and> accepts D q' stk' s1"
      using c 1 by (auto split: option.splits)
    ultimately show ?thesis using json_chars.intros(1) by blast
  next
    case 2
    then have "accepts D ES stk s1" using c by simp
    then obtain e s2 where e: "s1 = e # s2" "(case jact D (json_next ES e) stk of None \<Rightarrow> False | Some (q, stk) \<Rightarrow> accepts D q stk s2)"
      by (cases s1) (auto simp: accepts_Cons)
    show ?thesis
    proof (cases "e = CHR ''u''")
      case False
      then have "e \<in> {CHR 0x22, CHR 0x5C, CHR ''/'', CHR ''b'', CHR ''f'', CHR ''n'', CHR ''r'', CHR ''t''}" "accepts D ST stk s2"
        using e(2) by (auto simp: json_rows split: if_splits)
      then show ?thesis using ih[of s2] json_chars.intros(3) s e(1) 2 by (metis append_Cons length_Cons less_SucI lessI)
    next
      case True
      then have "accepts D U1 stk s2" using e(2) by (simp add: json_rows)
      then obtain a s3 where a: "s2 = a # s3" "is_hex a" "accepts D U2 stk s3"
        by (cases s2) (auto simp: accepts_Cons json_rows split: if_splits)
      obtain b s4 where b: "s3 = b # s4" "is_hex b" "accepts D U3 stk s4"
        using a(3) by (cases s3) (auto simp: accepts_Cons json_rows split: if_splits)
      obtain x s5 where x: "s4 = x # s5" "is_hex x" "accepts D U4 stk s5"
        using b(3) by (cases s4) (auto simp: accepts_Cons json_rows split: if_splits)
      obtain d s6 where d: "s5 = d # s6" "is_hex d" "accepts D ST stk s6"
        using x(3) by (cases s5) (auto simp: accepts_Cons json_rows split: if_splits)
      have "length s6 < length s" using s e(1) a(1) b(1) x(1) d(1) by simp
      from ih[OF d(3) this] obtain y r q' stk' where y: "s6 = y @ CHR 0x22 # r" "json_chars y"
        "jact D (- 4) stk = Some (q', stk')" "accepts D q' stk' r" by blast
      have "s = (CHR 0x5C # CHR ''u'' # a # b # x # d # y) @ CHR 0x22 # r"
        using s 2 e(1) True a(1) b(1) x(1) d(1) y(1) by simp
      moreover have "json_chars (CHR 0x5C # CHR ''u'' # a # b # x # d # y)"
        by (rule json_chars.intros(4)[OF a(2) b(2) x(2) d(2) y(2)])
      ultimately show ?thesis using y(3,4) by blast
    qed
  next
    case 3
    then show ?thesis using ih[of s1] json_chars.intros(2)[OF 3(1)] s by (metis append_Cons length_Cons lessI)
  qed
qed

lemma accepts_digits: "accepts D q stk s \<Longrightarrow> q \<in> {IN, FR, E3} \<Longrightarrow>
    \<exists>ds r. s = ds @ r \<and> digits ds \<and> accepts D q stk r \<and> (r = [] \<or> \<not> isdigit (hd r))"
proof (induction s)
  case (Cons c s)
  show ?case
  proof (cases "isdigit c")
    case True
    then have "accepts D q stk s" using Cons.prems by (auto simp: accepts_Cons json_rows)
    then obtain ds r where "s = ds @ r" "digits ds" "accepts D q stk r" "r = [] \<or> \<not> isdigit (hd r)"
      using Cons.IH Cons.prems(2) by blast
    then have "c # s = (c # ds) @ r \<and> digits (c # ds) \<and> accepts D q stk r \<and> (r = [] \<or> \<not> isdigit (hd r))" using True by simp
    then show ?thesis by blast
  next
    case False
    then have "c # s = [] @ (c # s) \<and> digits [] \<and> accepts D q stk (c # s) \<and> (c # s = [] \<or> \<not> isdigit (hd (c # s)))"
      using Cons.prems by simp
    then show ?thesis by blast
  qed
qed auto

lemma accepts_exp:
  assumes "accepts D q stk s" "q \<in> {IN, FR}" "s = [] \<or> \<not> isdigit (hd s)" "q = IN \<Longrightarrow> s = [] \<or> hd s \<noteq> CHR ''.''"
  shows "\<exists>x r. s = x @ r \<and> json_exp x \<and> accepts D OK stk r"
proof -
  obtain c s1 where s: "s = c # s1" using assms(1,2) by (cases s) auto
  show ?thesis
  proof (cases "c \<in> {CHR ''e'', CHR ''E''}")
    case False
    then have "json_next q c = end_next c" using assms(2-4) s by (auto simp: json_rows)
    then have "accepts D OK stk s" using assms(1) s by (simp add: accepts_Cons json_rows)
    then show ?thesis by (intro exI[of _ "[]"] exI[of _ s]) (simp add: json_exp_def)
  next
    case True
    then have "accepts D E1 stk s1" using assms(1,2) s by (auto simp: accepts_Cons json_rows)
    then obtain d s2 where d: "s1 = d # s2" "accepts D (if isdigit d then E3 else E2) stk s2" "isdigit d \<or> d \<in> {CHR ''+'', CHR ''-''}"
      by (cases s1) (auto simp: accepts_Cons json_rows split: if_splits)
    have "\<exists>sg s3. s1 = sg @ s3 \<and> sg \<in> {[], ''+'', ''-''} \<and> (\<exists>d s4. s3 = d # s4 \<and> isdigit d \<and> accepts D E3 stk s4)"
    proof (cases "isdigit d")
      case True then show ?thesis using d by (intro exI[of _ "[]"] exI[of _ s1]) simp
    next
      case False
      then obtain e s3 where "s2 = e # s3" "isdigit e" "accepts D E3 stk s3"
        using d(2) by (cases s2) (auto simp: accepts_Cons json_rows split: if_splits)
      then show ?thesis using d False by (intro exI[of _ "[d]"] exI[of _ s2]) auto
    qed
    then obtain sg e s4 where e: "s1 = sg @ e # s4" "sg \<in> {[], ''+'', ''-''}" "isdigit e" "accepts D E3 stk s4" by blast
    obtain ds r where r: "s4 = ds @ r" "digits ds" "accepts D E3 stk r" "r = [] \<or> \<not> isdigit (hd r)"
      using accepts_digits[OF e(4)] by auto
    have "accepts D OK stk r" using r(3,4) by (cases r) (auto simp: accepts_Cons json_rows)
    moreover have "s = (c # sg @ (e # ds)) @ r" using s e(1) r(1) by simp
    moreover have "json_exp (c # sg @ (e # ds))" unfolding json_exp_def
      using True e(2,3) r(2) by (intro disjI2 exI[of _ c] exI[of _ sg] exI[of _ "e # ds"]) simp
    ultimately show ?thesis by blast
  qed
qed

lemma accepts_frac:
  assumes "accepts D q stk s" "q \<in> {ZE, IN}" "q = IN \<Longrightarrow> s = [] \<or> \<not> isdigit (hd s)"
  shows "\<exists>f x r. s = f @ x @ r \<and> json_frac f \<and> json_exp x \<and> (q = ZE \<and> f = [] \<longrightarrow> x = []) \<and> accepts D OK stk r"
proof -
  obtain c s1 where s: "s = c # s1" using assms(1,2) by (cases s) auto
  show ?thesis
  proof (cases "c = CHR ''.''")
    case True
    then have "accepts D FR stk s1" using assms(1,2) s by (auto simp: accepts_Cons json_rows)
    then obtain ds r where r: "s1 = ds @ r" "digits ds" "accepts D FR stk r" "r = [] \<or> \<not> isdigit (hd r)"
      using accepts_digits[of D FR stk s1] by auto
    obtain x r' where x: "r = x @ r'" "json_exp x" "accepts D OK stk r'" using accepts_exp[OF r(3) _ r(4)] by auto
    have "s = (c # ds) @ x @ r'" "json_frac (c # ds)" using s r x True by (auto simp: json_frac_def)
    then show ?thesis using x by blast
  next
    case False
    show ?thesis
    proof (cases "q = ZE")
      case True
      then have "accepts D OK stk s" using assms(1) False s by (simp add: accepts_Cons json_rows)
      then show ?thesis by (intro exI[of _ "[]"] exI[of _ s]) (simp add: json_frac_def json_exp_def)
    next
      case q: False
      obtain x r where x: "s = x @ r" "json_exp x" "accepts D OK stk r"
        using accepts_exp[OF assms(1)] assms(2,3) q False s by auto
      have "s = [] @ x @ r \<and> json_frac [] \<and> json_exp x \<and> (q = ZE \<and> ([] :: string) = [] \<longrightarrow> x = []) \<and> accepts D OK stk r"
        using x q by (simp add: json_frac_def)
      then show ?thesis by blast
    qed
  qed
qed

lemma accepts_int:
  assumes "accepts D (json_next q c) stk s" "q \<in> {VA, AR, MI}" "isdigit c"
  shows "\<exists>n r. c # s = n @ r \<and> json_number n \<and> n \<noteq> [] \<and> isdigit (hd n) \<and> accepts D OK stk r"
proof (cases "c = CHR ''0''")
  case True
  then have "accepts D ZE stk s" using assms by (auto simp: json_rows value_next_def)
  then obtain f x r where r: "s = f @ x @ r" "json_frac f" "json_exp x" "f = [] \<longrightarrow> x = []" "accepts D OK stk r"
    using accepts_frac[of D ZE stk s] by auto
  have "json_number ([] @ ''0'' @ f @ x)" unfolding json_number_def using r
    by (intro exI[of _ "[]"] exI[of _ "''0''"] exI[of _ f] exI[of _ x]) (simp add: json_int_def)
  then show ?thesis using True r by (intro exI[of _ "''0'' @ f @ x"] exI[of _ r]) simp
next
  case False
  then have "accepts D IN stk s" using assms by (auto simp: json_rows value_next_def)
  then obtain ds r1 where r1: "s = ds @ r1" "digits ds" "accepts D IN stk r1" "r1 = [] \<or> \<not> isdigit (hd r1)"
    using accepts_digits[of D IN stk s] by auto
  obtain f x r where r: "r1 = f @ x @ r" "json_frac f" "json_exp x" "accepts D OK stk r"
    using accepts_frac[OF r1(3)] r1(4) by auto
  have "json_number ([] @ (c # ds) @ f @ x)" unfolding json_number_def using r r1(2) assms(3) False
    by (intro exI[of _ "[]"] exI[of _ "c # ds"] exI[of _ f] exI[of _ x]) (simp add: json_int_def)
  then show ?thesis using r1(1) r assms(3) by (intro exI[of _ "(c # ds) @ f @ x"] exI[of _ r]) simp
qed

lemma negative_number:
  assumes "json_number n" "isdigit (hd n)"
  shows "json_number (CHR ''-'' # n)"
proof -
  obtain m i f x where n: "n = m @ i @ f @ x" "m \<in> {[], ''-''}" "json_int i" "json_frac f" "json_exp x"
    "i = ''0'' \<and> f = [] \<longrightarrow> x = []" using assms(1) by (auto simp: json_number_def)
  have "m = []" using n(1,2) assms(2) by auto
  then show ?thesis unfolding json_number_def using n
    by (intro exI[of _ "''-''"] exI[of _ i] exI[of _ f] exI[of _ x]) simp
qed

text \<open>A value that is not an array or an object.\<close>

lemma accepts_scalar:
  assumes "accepts D q (m # stk) (c # s)" "q \<in> {VA, AR}" "m \<in> {MODE_ARRAY, MODE_OBJECT}" "\<not> is_ws c"
    "c \<notin> {CHR ''['', CHR '']'', CHR ''{''}"
  shows "\<exists>v r. c # s = v @ r \<and> v \<noteq> [] \<and> json_value d v \<and> accepts D OK (m # stk) r"
proof -
  have n: "json_next q c = value_next q c" using assms(2,5) by (auto simp: json_rows)
  have a: "case jact D (value_next q c) (m # stk) of None \<Rightarrow> False | Some (q, stk) \<Rightarrow> accepts D q stk s"
    using assms(1) n by (simp add: accepts_Cons)
  consider "c = CHR 0x22" | "c = CHR ''-''" | "isdigit c" | "c = CHR ''t''" | "c = CHR ''f''" | "c = CHR ''n''"
    using a assms(4,5) by (auto simp: value_next_def split: if_splits)
  then show ?thesis
  proof cases
    case 1
    then have "accepts D ST (m # stk) s" using a by (simp add: value_next_def)
    then obtain b r q' stk' where b: "s = b @ CHR 0x22 # r" "json_chars b" "jact D (- 4) (m # stk) = Some (q', stk')" "accepts D q' stk' r"
      using accepts_chars by blast
    then have "accepts D OK (m # stk) r" using assms(3) by auto
    moreover have "json_string (c # b @ [CHR 0x22])" using b(2) 1 by (auto simp: json_string_def)
    ultimately show ?thesis using b(1)
      by (intro exI[of _ "c # b @ [CHR 0x22]"] exI[of _ r]) (simp add: value_string)
  next
    case 2
    then have "accepts D MI (m # stk) s" using a by (simp add: value_next_def)
    then obtain e s1 where e: "s = e # s1" "isdigit e" "accepts D (json_next MI e) (m # stk) s1"
      by (cases s) (auto simp: accepts_Cons json_rows split: if_splits)
    obtain n r where r: "e # s1 = n @ r" "json_number n" "n \<noteq> []" "isdigit (hd n)" "accepts D OK (m # stk) r"
      using accepts_int[OF e(3) _ e(2)] by auto
    then show ?thesis using negative_number[OF r(2,4)] 2 e(1)
      by (intro exI[of _ "c # n"] exI[of _ r]) (simp add: value_number)
  next
    case 3
    then have "accepts D (json_next q c) (m # stk) s" using a n by (auto simp: value_next_def split: if_splits)
    then show ?thesis using accepts_int[of D q c "m # stk" s] 3 assms(2) value_number by blast
  next
    case 4
    then have "accepts D T1 (m # stk) s" using a by (simp add: value_next_def)
    then obtain r where "s = ''rue'' @ r" "accepts D OK (m # stk) r"
      by (cases s; cases "tl s"; cases "tl (tl s)") (auto simp: accepts_Cons json_rows split: if_splits)
    then show ?thesis using 4 value_literal[of "''true''" d] by (intro exI[of _ "''true''"] exI[of _ r]) simp
  next
    case 5
    then have "accepts D F1 (m # stk) s" using a by (simp add: value_next_def)
    then obtain r where "s = ''alse'' @ r" "accepts D OK (m # stk) r"
      by (cases s; cases "tl s"; cases "tl (tl s)"; cases "tl (tl (tl s))") (auto simp: accepts_Cons json_rows split: if_splits)
    then show ?thesis using 5 value_literal[of "''false''" d] by (intro exI[of _ "''false''"] exI[of _ r]) simp
  next
    case 6
    then have "accepts D N1 (m # stk) s" using a by (simp add: value_next_def)
    then obtain r where "s = ''ull'' @ r" "accepts D OK (m # stk) r"
      by (cases s; cases "tl s"; cases "tl (tl s)") (auto simp: accepts_Cons json_rows split: if_splits)
    then show ?thesis using 6 value_literal[of "''null''" d] by (intro exI[of _ "''null''"] exI[of _ r]) simp
  qed
qed

text \<open>What is to be shown of the rest of an array and of an object, by induction on its length.\<close>

definition rest_array :: "nat \<Rightarrow> string \<Rightarrow> bool" where
  "rest_array D s \<longleftrightarrow> (\<forall>stk q. accepts D q (MODE_ARRAY # stk) s \<longrightarrow> q \<in> {VA, AR} \<longrightarrow>
     (\<exists>es r. s = es @ CHR '']'' # r \<and> (json_elems (D - Suc (length stk)) es \<or> q = AR \<and> ws es) \<and> accepts D OK stk r))"

definition rest_object :: "nat \<Rightarrow> string \<Rightarrow> bool" where
  "rest_object D s \<longleftrightarrow> (\<forall>stk q. accepts D q (MODE_KEY # stk) s \<longrightarrow> q \<in> {OB, KE} \<longrightarrow>
     (\<exists>ms r. s = ms @ CHR ''}'' # r \<and> (json_members (D - Suc (length stk)) ms \<or> q = OB \<and> ws ms) \<and> accepts D OK stk r))"

lemma accepts_container:
  assumes "accepts D q stk (c # s)" "q \<in> {GO, VA, AR}" "c \<in> {CHR ''['', CHR ''{''}" "rest_array D s" "rest_object D s"
  shows "\<exists>v r. c # s = v @ r \<and> v \<noteq> [] \<and> hd v = c \<and> json_value (D - length stk) v \<and> accepts D OK stk r"
proof (cases "c = CHR ''[''")
  case True
  then have a: "length stk < D" "accepts D AR (MODE_ARRAY # stk) s"
    using assms(1) run_open(1)[OF assms(2)] by (auto simp: accepts_Cons split: if_splits)
  then have d: "D - length stk = Suc (D - Suc (length stk))" by simp
  obtain es r where r: "s = es @ CHR '']'' # r" "json_elems (D - Suc (length stk)) es \<or> ws es" "accepts D OK stk r"
    using assms(4) a(2) unfolding rest_array_def by blast
  have "json_value (D - length stk) (CHR ''['' # es @ '']'')"
    unfolding d using r(2) value_array value_empty_array by blast
  then show ?thesis using r True by (intro exI[of _ "CHR ''['' # es @ '']''"] exI[of _ r]) simp
next
  case False
  then have c: "c = CHR ''{''" using assms(3) by simp
  then have a: "length stk < D" "accepts D OB (MODE_KEY # stk) s"
    using assms(1) run_open(2)[OF assms(2)] by (auto simp: accepts_Cons split: if_splits)
  then have d: "D - length stk = Suc (D - Suc (length stk))" by simp
  obtain ms r where r: "s = ms @ CHR ''}'' # r" "json_members (D - Suc (length stk)) ms \<or> ws ms" "accepts D OK stk r"
    using assms(5) a(2) unfolding rest_object_def by blast
  have "json_value (D - length stk) (CHR ''{'' # ms @ ''}'')"
    unfolding d using r(2) value_object value_empty_object by blast
  then show ?thesis using r c by (intro exI[of _ "CHR ''{'' # ms @ ''}''"] exI[of _ r]) simp
qed

lemma accepts_item:
  assumes a: "accepts D q (m # stk) s" and q: "q \<in> {VA, AR}" and m: "m \<in> {MODE_ARRAY, MODE_OBJECT}"
    and ih: "\<And>t. length t < length s \<Longrightarrow> rest_array D t \<and> rest_object D t"
  shows "(\<exists>i c r. s = i @ c # r \<and> json_item (D - Suc (length stk)) i \<and> \<not> is_ws c \<and> accepts D OK (m # stk) (c # r))
    \<or> (q = AR \<and> (\<exists>w r. s = w @ CHR '']'' # r \<and> ws w \<and> m = MODE_ARRAY \<and> accepts D OK stk r))"
proof -
  obtain w t where t: "s = w @ t" "ws w" "accepts D q (m # stk) t" "t = [] \<or> \<not> is_ws (hd t)"
    using accepts_ws[OF a] q by auto
  obtain c t1 where c: "t = c # t1" "\<not> is_ws c" using t(3,4) m by (cases t) auto
  have "length t1 < length s" using t(1) c(1) by simp
  then have ih1: "rest_array D t1" "rest_object D t1" using ih by auto
  show ?thesis
  proof (cases "c = CHR '']''")
    case True
    then have "q = AR \<and> m = MODE_ARRAY \<and> accepts D OK stk t1"
      using t(3) c q m by (auto simp: accepts_Cons json_rows value_next_def split: json_mode.splits)
    then show ?thesis using t c True by blast
  next
    case False
    have "\<exists>v r. t = v @ r \<and> v \<noteq> [] \<and> json_value (D - Suc (length stk)) v \<and> accepts D OK (m # stk) r"
    proof (cases "c \<in> {CHR ''['', CHR ''{''}")
      case True
      then show ?thesis using accepts_container[OF t(3)[unfolded c(1)] _ True ih1] q c(1) by auto
    next
      case f: False
      then show ?thesis using accepts_scalar[OF t(3)[unfolded c(1)] q m c(2)] False c(1) by blast
    qed
    then obtain v r where v: "t = v @ r" "json_value (D - Suc (length stk)) v" "accepts D OK (m # stk) r" by blast
    obtain w' r' where w': "r = w' @ r'" "ws w'" "accepts D OK (m # stk) r'" "r' = [] \<or> \<not> is_ws (hd r')"
      using accepts_ws[OF v(3)] by auto
    obtain e r'' where e: "r' = e # r''" using w'(3) m by (cases r') auto
    have "s = (w @ v @ w') @ e # r''" using t(1) v(1) w'(1) e by simp
    moreover have "json_item (D - Suc (length stk)) (w @ v @ w')" by (rule item[OF t(2) v(2) w'(2)])
    moreover have "\<not> is_ws e" "accepts D OK (m # stk) (e # r'')" using w'(3,4) e by auto
    ultimately show ?thesis by blast
  qed
qed

lemma rest_arrayD:
  assumes "rest_array D r" "accepts D VA (MODE_ARRAY # stk) r"
  shows "\<exists>es r'. r = es @ CHR '']'' # r' \<and> json_elems (D - Suc (length stk)) es \<and> accepts D OK stk r'"
  using assms(1)[unfolded rest_array_def, rule_format, OF assms(2)] by simp

lemma rest_objectD:
  assumes "rest_object D r" "accepts D KE (MODE_KEY # stk) r"
  shows "\<exists>ms r'. r = ms @ CHR ''}'' # r' \<and> json_members (D - Suc (length stk)) ms \<and> accepts D OK stk r'"
  using assms(1)[unfolded rest_object_def, rule_format, OF assms(2)] by simp

lemma rest_array_step:
  assumes ih: "\<And>t. length t < length s \<Longrightarrow> rest_array D t \<and> rest_object D t"
  shows "rest_array D s"
  unfolding rest_array_def
proof (intro allI impI)
  fix stk q assume a: "accepts D q (MODE_ARRAY # stk) s" "q \<in> {VA, AR}"
  let ?d = "D - Suc (length stk)"
  consider i c r where "s = i @ c # r" "json_item ?d i" "\<not> is_ws c" "accepts D OK (MODE_ARRAY # stk) (c # r)"
    | w r where "q = AR" "s = w @ CHR '']'' # r" "ws w" "accepts D OK stk r"
    using accepts_item[OF a _ ih] by blast
  then show "\<exists>es r. s = es @ CHR '']'' # r \<and> (json_elems ?d es \<or> q = AR \<and> ws es) \<and> accepts D OK stk r"
  proof cases
    case 1
    then have "c = CHR '']'' \<and> accepts D OK stk r \<or> c = CHR '','' \<and> accepts D VA (MODE_ARRAY # stk) r"
      by (auto simp: accepts_Cons json_rows end_next_def split: if_splits)
    then show ?thesis
    proof (elim disjE conjE)
      assume "c = CHR '']''" "accepts D OK stk r"
      then have "s = i @ CHR '']'' # r \<and> json_elems ?d i \<and> accepts D OK stk r" using 1(1) elems_one[OF 1(2)] by simp
      then show ?thesis by blast
    next
      assume c: "c = CHR '',''" "accepts D VA (MODE_ARRAY # stk) r"
      have "length r < length s" using 1(1) by simp
      then have "rest_array D r" using ih by blast
      then obtain es r' where es: "r = es @ CHR '']'' # r'" "json_elems ?d es" "accepts D OK stk r'"
        using rest_arrayD[OF _ c(2)] by blast
      have "s = (i @ CHR '','' # es) @ CHR '']'' # r'" using 1(1) c(1) es(1) by simp
      then show ?thesis using elems_more[OF 1(2) es(2)] es(3) by blast
    qed
  next
    case 2 then show ?thesis by blast
  qed
qed

lemma rest_object_step:
  assumes ih: "\<And>t. length t < length s \<Longrightarrow> rest_array D t \<and> rest_object D t"
  shows "rest_object D s"
  unfolding rest_object_def
proof (intro allI impI)
  fix stk q assume a: "accepts D q (MODE_KEY # stk) s" "q \<in> {OB, KE}"
  let ?d = "D - Suc (length stk)"
  obtain w t where t: "s = w @ t" "ws w" "accepts D q (MODE_KEY # stk) t" "t = [] \<or> \<not> is_ws (hd t)"
    using accepts_ws[OF a(1)] a(2) by auto
  obtain c t1 where c: "t = c # t1" "\<not> is_ws c" using t(3,4) by (cases t) auto
  have "q = OB \<and> c = CHR ''}'' \<and> accepts D OK stk t1 \<or> c = CHR 0x22 \<and> accepts D ST (MODE_KEY # stk) t1"
    using t(3) c a(2) by (auto simp: accepts_Cons json_rows split: if_splits)
  then show "\<exists>ms r. s = ms @ CHR ''}'' # r \<and> (json_members ?d ms \<or> q = OB \<and> ws ms) \<and> accepts D OK stk r"
  proof (elim disjE conjE)
    assume "q = OB" "c = CHR ''}''" "accepts D OK stk t1"
    then show ?thesis using t c by blast
  next
    assume c22: "c = CHR 0x22" "accepts D ST (MODE_KEY # stk) t1"
    obtain b t2 where b: "t1 = b @ CHR 0x22 # t2" "json_chars b" "accepts D CO (MODE_KEY # stk) t2"
      using accepts_chars[OF c22(2)] by auto
    obtain w' t3 where w': "t2 = w' @ t3" "ws w'" "accepts D CO (MODE_KEY # stk) t3" "t3 = [] \<or> \<not> is_ws (hd t3)"
      using accepts_ws[OF b(3)] by auto
    obtain t4 where t4: "t3 = CHR '':'' # t4" "accepts D VA (MODE_OBJECT # stk) t4"
      using w'(3,4) by (cases t3) (auto simp: accepts_Cons json_rows split: if_splits)
    have l: "length t4 < length s" using t(1) c(1) b(1) w'(1) t4(1) by simp
    then have "\<And>t. length t < length t4 \<Longrightarrow> rest_array D t \<and> rest_object D t" using ih by (meson less_trans)
    then obtain i e r where i: "t4 = i @ e # r" "json_item ?d i" "\<not> is_ws e" "accepts D OK (MODE_OBJECT # stk) (e # r)"
      using accepts_item[OF t4(2)] by auto
    have k: "json_string (CHR 0x22 # b @ [CHR 0x22])" using b(2) by (auto simp: json_string_def)
    have s: "s = w @ (CHR 0x22 # b @ [CHR 0x22]) @ w' @ CHR '':'' # i @ e # r"
      using t(1) c(1) c22(1) b(1) w'(1) t4(1) i(1) by simp
    have "e = CHR ''}'' \<and> accepts D OK stk r \<or> e = CHR '','' \<and> accepts D KE (MODE_KEY # stk) r"
      using i(3,4) by (auto simp: accepts_Cons json_rows end_next_def split: if_splits)
    then show ?thesis
    proof (elim disjE conjE)
      assume e: "e = CHR ''}''" "accepts D OK stk r"
      have "s = (w @ (CHR 0x22 # b @ [CHR 0x22]) @ w' @ CHR '':'' # i) @ CHR ''}'' # r" using s e(1) by simp
      then show ?thesis using members_one[OF t(2) k w'(2) i(2)] e(2) by blast
    next
      assume e: "e = CHR '',''" "accepts D KE (MODE_KEY # stk) r"
      have "length r < length s" using l i(1) by simp
      then have "rest_object D r" using ih by blast
      then obtain ms r' where ms: "r = ms @ CHR ''}'' # r'" "json_members ?d ms" "accepts D OK stk r'"
        using rest_objectD[OF _ e(2)] by blast
      have "s = (w @ (CHR 0x22 # b @ [CHR 0x22]) @ w' @ CHR '':'' # i @ CHR '','' # ms) @ CHR ''}'' # r'"
        using s e(1) ms(1) by simp
      then show ?thesis using members_more[OF t(2) k w'(2) i(2) ms(2)] ms(3) by blast
    qed
  qed
qed

lemma rest_all: "rest_array D s \<and> rest_object D s"
proof (induction "length s" arbitrary: s rule: less_induct)
  case less
  then show ?case using rest_array_step[of s D] rest_object_step[of s D] by blast
qed

lemma run_doc:
  assumes "accepts D GO [MODE_DONE] s"
  shows "json_doc (D - 1) s"
proof -
  obtain w t where t: "s = w @ t" "ws w" "accepts D GO [MODE_DONE] t" "t = [] \<or> \<not> is_ws (hd t)"
    using accepts_ws[OF assms] by auto
  obtain c t1 where c: "t = c # t1" using t(3) by (cases t) auto
  have cc: "c \<in> {CHR ''['', CHR ''{''}" using t(3,4) c by (auto simp: accepts_Cons json_rows split: if_splits)
  obtain v r where v: "t = v @ r" "v \<noteq> []" "hd v = c" "json_value (D - 1) v" "accepts D OK [MODE_DONE] r"
    using accepts_container[OF t(3)[unfolded c] _ cc] rest_all[of D t1] c by auto
  obtain w' r' where r: "r = w' @ r'" "ws w'" "accepts D OK [MODE_DONE] r'" "r' = [] \<or> \<not> is_ws (hd r')"
    using accepts_ws[OF v(5)] by auto
  have "r' = []" using r(3,4) by (cases r') (auto simp: accepts_Cons json_rows end_next_def split: if_splits)
  then show ?thesis unfolding json_doc_def using t(1,2) v r cc by auto
qed

section \<open>The checker decides the grammar\<close>

lemma json_loop_run:
  assumes "stack_rel D jc q stk"
  shows "(case jrun D q stk (ascii_part s) of
      None \<Rightarrow> json_loop jc s = None
    | Some (q', stk') \<Rightarrow> \<exists>jc'. json_loop jc s = Some jc' \<and> stack_rel D jc' q' stk')"
  using assms
proof (induction s arbitrary: jc q stk)
  case (Cons c s)
  have sc: "sint (of_char c :: u8) \<le> 0 \<longleftrightarrow> \<not> (c \<noteq> NUL \<and> code c < 128)"
  proof -
    have "(of_char c :: int) = int (code c)" using of_nat_of_char[of c, where 'a = int] by (rule sym)
    moreover have "(of_char c :: int) \<le> 256" using code_int(2)[of c 256] less_imp_le[OF nat_of_char_less_256[of c]] by simp
    moreover have "c = NUL \<longleftrightarrow> code c = 0" using of_char_eq_iff[of c NUL, where 'a = nat] by (simp del: of_char_eq_iff)
    ultimately show ?thesis by (auto simp: signed_char)
  qed
  show ?case
  proof (cases "c \<noteq> NUL \<and> code c < 128")
    case False
    then show ?thesis using sc Cons.prems by (auto simp: ascii_part_def)
  next
    case True
    then have e: "json_loop jc (c # s) = json_check_char jc (of_char c) \<bind> (\<lambda>jc. json_loop jc s)"
      using sc by (simp add: signed_char)
    have a: "ascii_part (c # s) = c # ascii_part s" using True by (simp add: ascii_part_def)
    have step: "case jact D (json_next q c) stk of None \<Rightarrow> json_check_char jc (of_char c) = None
      | Some (q', stk') \<Rightarrow> \<exists>jc'. json_check_char jc (of_char c) = Some jc' \<and> stack_rel D jc' q' stk'"
      using json_check_char_run[OF Cons.prems] True by blast
    show ?thesis
    proof (cases "jact D (json_next q c) stk")
      case None then show ?thesis using step by (simp add: e a del: json_loop.simps)
    next
      case (Some p)
      obtain q' stk' where p: "p = (q', stk')" by fastforce
      then obtain jc' where jc': "json_check_char jc (of_char c) = Some jc'" "stack_rel D jc' q' stk'" using step Some by auto
      have "json_loop jc (c # s) = json_loop jc' s" "jrun D q stk (ascii_part (c # s)) = jrun D q' stk' (ascii_part s)"
        using jc'(1) Some p by (simp_all add: e a del: json_loop.simps)
      then show ?thesis using Cons.IH[OF jc'(2)] by (simp only:)
    qed
  qed
qed (simp add: ascii_part_def)

lemma new_json_check_rel: "0 < D \<Longrightarrow> stack_rel D (new_json_check (int D)) GO [MODE_DONE]"
  unfolding new_json_check_def json_push_def stack_rel_def Let_def nat_int
  by (cases D) auto

lemma json_check_done_rel:
  assumes "stack_rel D jc q stk"
  shows "json_check_done jc \<longleftrightarrow> q = OK \<and> stk = [MODE_DONE]"
proof -
  obtain m s where s: "stk = m # s" using assms by (cases stk) (auto simp: stack_rel_def)
  have "m = MODE_DONE \<longleftrightarrow> s = []" using assms s by (auto simp: stack_rel_def split: if_splits)
  moreover have "json_pop jc MODE_DONE \<noteq> None \<longleftrightarrow> m = MODE_DONE" using stack_rel_pop(1)[OF assms[unfolded s]] by auto
  ultimately show ?thesis using assms s by (auto simp: json_check_done_def stack_rel_def)
qed

lemma json_valid_accepts: "json_valid s \<longleftrightarrow> accepts 15 GO [MODE_DONE] (ascii_part s)"
proof -
  have r: "stack_rel 15 (new_json_check JSON_CHECK_DEPTH) GO [MODE_DONE]" using new_json_check_rel[of 15] by simp
  show ?thesis
    using json_loop_run[OF r, of s] json_check_done_rel unfolding json_valid_def accepts_def
    by (auto split: option.splits)
qed

text \<open>
  C1: The transition table of the JSON checker decides a grammar: a string is valid exactly if its part up to the
  first byte above 127 is an array or an object, with white space around it, of values nested at most 14
  deep.  So every valid text is well-formed, every well-formed text within that depth is accepted, and what
  stands behind a byte above 127 is not looked at.
\<close>

theorem json_valid_grammar: "json_valid s \<longleftrightarrow> json_doc 14 (ascii_part s)"
proof
  assume "json_valid s"
  then show "json_doc 14 (ascii_part s)" using run_doc[of 15] by (simp add: json_valid_accepts)
next
  assume "json_doc 14 (ascii_part s)"
  then show "json_valid s" using doc_run[of 14 "ascii_part s" 15] by (simp add: json_valid_accepts accepts_def)
qed

end
