(* ===== verification/Dict.thy ===== *)
theory Dict imports
  Containers
begin

text \<open>
  The tokenizer of JSON texts: src/dict.c.  A text is given as the C string it lies in and the number \<open>len\<close> of
  its bytes; the tokens allocated so far are a list, \<open>None\<close> for the null pointer with which tokens are only
  counted.  \<open>None\<close> as a result is an access outside the array of tokens.
\<close>

datatype dict_type = DICT_PRIMITIVE | DICT_OBJECT | DICT_ARRAY | DICT_STRING

abbreviation (input) DICT_ERROR_NOMEM :: int where "DICT_ERROR_NOMEM \<equiv> - 1"
abbreviation (input) DICT_ERROR_INVAL :: int where "DICT_ERROR_INVAL \<equiv> - 2"
abbreviation (input) DICT_ERROR_PART :: int where "DICT_ERROR_PART \<equiv> - 3"

record dict_token =
  tk_type :: dict_type
  tk_start :: int
  tk_end :: int
  tk_size :: int

record dict_parser =
  dp_pos :: nat
  dp_toksuper :: int
  dp_tokens :: "dict_token list option"

text \<open>\<open>toknext\<close> is the number of tokens allocated.\<close>

definition dp_toknext :: "dict_parser \<Rightarrow> nat" where
  "dp_toknext p = (case dp_tokens p of None \<Rightarrow> 0 | Some ts \<Rightarrow> length ts)"

definition char_at :: "string \<Rightarrow> nat \<Rightarrow> char" where
  "char_at str i = (if i < length str then str ! i else NUL)"

section \<open>Tokens\<close>

text \<open>Allocation and \<open>dict_fill_token\<close> in one: the type is set by the caller.\<close>

definition dict_alloc_token :: "dict_parser \<Rightarrow> nat \<Rightarrow> dict_token \<Rightarrow> dict_parser option" where
  "dict_alloc_token p num_tokens tok =
     (if dp_toknext p \<ge> num_tokens then None
      else Some (p\<lparr>dp_tokens := map_option (\<lambda>ts. ts @ [tok]) (dp_tokens p)\<rparr>))"

definition dict_fill_token :: "dict_type \<Rightarrow> nat \<Rightarrow> nat \<Rightarrow> dict_token" where
  "dict_fill_token type start fin = \<lparr>tk_type = type, tk_start = int start, tk_end = int fin, tk_size = 0\<rparr>"

definition token_at :: "dict_parser \<Rightarrow> int \<Rightarrow> dict_token option" where
  "token_at p i = (case dp_tokens p of None \<Rightarrow> None
     | Some ts \<Rightarrow> if 0 \<le> i \<and> i < int (length ts) then Some (ts ! nat i) else None)"

definition set_token :: "dict_parser \<Rightarrow> int \<Rightarrow> dict_token \<Rightarrow> dict_parser" where
  "set_token p i t = p\<lparr>dp_tokens := map_option (\<lambda>ts. ts[nat i := t]) (dp_tokens p)\<rparr>"

text \<open>\<open>tokens[parser->toksuper].size++\<close>, where a superior token is set and tokens are kept.\<close>

definition super_grow :: "dict_parser \<Rightarrow> dict_parser option" where
  "super_grow p =
     (if dp_toksuper p \<noteq> - 1 \<and> dp_tokens p \<noteq> None then do {
        t \<leftarrow> token_at p (dp_toksuper p);
        Some (set_token p (dp_toksuper p) (t\<lparr>tk_size := tk_size t + 1\<rparr>)) }
      else Some p)"

definition is_open :: "dict_token \<Rightarrow> bool" where
  "is_open t \<longleftrightarrow> tk_start t \<noteq> - 1 \<and> tk_end t = - 1"

text \<open>The loops \<open>for (i = toknext - 1; i >= 0; i--)\<close> that look for a token.\<close>

fun last_token :: "(dict_token \<Rightarrow> bool) \<Rightarrow> dict_token list \<Rightarrow> nat \<Rightarrow> nat option" where
  "last_token P ts 0 = None"
| "last_token P ts (Suc i) = (if P (ts ! i) then Some i else last_token P ts i)"

section \<open>Primitives and strings\<close>

definition prim_end :: "char \<Rightarrow> bool" where
  "prim_end c \<longleftrightarrow> c \<in> set '':, ]}'' \<or> c = CHR 0x09 \<or> c = CHR 0x0D \<or> c = CHR 0x0A"

text \<open>The end of a primitive; \<open>char\<close> is signed, so that bytes above 127 are less than 32.\<close>

function prim_scan :: "string \<Rightarrow> nat \<Rightarrow> nat \<Rightarrow> int + nat" where
  "prim_scan str len pos =
     (if pos < len \<and> char_at str pos \<noteq> NUL then
        if prim_end (char_at str pos) then Inr pos
        else if code (char_at str pos) < 32 \<or> code (char_at str pos) \<ge> 127 then Inl DICT_ERROR_INVAL
        else prim_scan str len (pos + 1)
      else Inl DICT_ERROR_PART)"
  by pat_completeness auto
termination by (relation "measure (\<lambda>(str, len, pos). len - pos)") auto

declare prim_scan.simps [simp del]

text \<open>The parser goes back to the last byte of the primitive, and to its first byte on an error.\<close>

definition dict_parse_primitive :: "dict_parser \<Rightarrow> string \<Rightarrow> nat \<Rightarrow> nat \<Rightarrow> int \<times> dict_parser" where
  "dict_parse_primitive p str len num_tokens =
     (let start = dp_pos p
      in case prim_scan str len start of
           Inl e \<Rightarrow> (e, p)
         | Inr pos \<Rightarrow>
             if dp_tokens p = None then (0, p\<lparr>dp_pos := pos - 1\<rparr>)
             else (case dict_alloc_token p num_tokens (dict_fill_token DICT_PRIMITIVE start pos) of
                 None \<Rightarrow> (DICT_ERROR_NOMEM, p)
               | Some p \<Rightarrow> (0, p\<lparr>dp_pos := pos - 1\<rparr>)))"

definition is_hex_digit :: "char \<Rightarrow> bool" where
  "is_hex_digit c \<longleftrightarrow> (48 \<le> code c \<and> code c \<le> 57) \<or> (65 \<le> code c \<and> code c \<le> 70) \<or> (97 \<le> code c \<and> code c \<le> 102)"

text \<open>The (at most four) hexadecimal digits behind a backslash and \<open>u\<close>; \<open>None\<close> for another character.\<close>

fun hex_scan :: "nat \<Rightarrow> string \<Rightarrow> nat \<Rightarrow> nat \<Rightarrow> nat option" where
  "hex_scan 0 str len pos = Some pos"
| "hex_scan (Suc i) str len pos =
     (if pos < len \<and> char_at str pos \<noteq> NUL then
        if is_hex_digit (char_at str pos) then hex_scan i str len (pos + 1) else None
      else Some pos)"

lemma hex_scan_ge: "hex_scan i str len pos = Some pos' \<Longrightarrow> pos \<le> pos'"
  by (induction i str len pos rule: hex_scan.induct) (auto split: if_splits)

function string_scan :: "string \<Rightarrow> nat \<Rightarrow> nat \<Rightarrow> int + nat" where
  "string_scan str len pos =
     (if pos < len \<and> char_at str pos \<noteq> NUL then
        (let c = char_at str pos
         in if c = CHR 0x22 then Inr pos
            else if c = CHR 0x5C \<and> pos + 1 < len then
              (let e = char_at str (pos + 1)
               in if e = CHR 0x22 \<or> e = CHR ''/'' \<or> e = CHR 0x5C \<or> e = CHR ''b'' \<or> e = CHR ''f'' \<or> e = CHR ''r''
                     \<or> e = CHR ''n'' \<or> e = CHR ''t'' then string_scan str len (pos + 2)
                  else if e = CHR ''u'' then
                    (case hex_scan 4 str len (pos + 2) of
                       None \<Rightarrow> Inl DICT_ERROR_INVAL
                     | Some pos' \<Rightarrow> string_scan str len (pos' - 1 + 1))
                  else Inl DICT_ERROR_INVAL)
            else string_scan str len (pos + 1))
      else Inl DICT_ERROR_PART)"
  by pat_completeness auto
termination by (relation "measure (\<lambda>(str, len, pos). len - pos)") (auto dest: hex_scan_ge)

declare string_scan.simps [simp del]

definition dict_parse_string :: "dict_parser \<Rightarrow> string \<Rightarrow> nat \<Rightarrow> nat \<Rightarrow> int \<times> dict_parser" where
  "dict_parse_string p str len num_tokens =
     (let start = dp_pos p
      in case string_scan str len (start + 1) of
           Inl e \<Rightarrow> (e, p)
         | Inr pos \<Rightarrow>
             if dp_tokens p = None then (0, p\<lparr>dp_pos := pos\<rparr>)
             else (case dict_alloc_token p num_tokens (dict_fill_token DICT_STRING (start + 1) pos) of
                 None \<Rightarrow> (DICT_ERROR_NOMEM, p)
               | Some p \<Rightarrow> (0, p\<lparr>dp_pos := pos\<rparr>)))"

section \<open>The parser\<close>

definition dict_open :: "dict_parser \<Rightarrow> char \<Rightarrow> nat \<Rightarrow> (int \<times> dict_parser) option" where
  "dict_open p c num_tokens =
     (if dp_tokens p = None then Some (0, p)
      else case dict_alloc_token p num_tokens
          \<lparr>tk_type = (if c = CHR ''{'' then DICT_OBJECT else DICT_ARRAY), tk_start = int (dp_pos p), tk_end = - 1, tk_size = 0\<rparr> of
        None \<Rightarrow> Some (DICT_ERROR_NOMEM, p)
      | Some p \<Rightarrow> do {
          p \<leftarrow> super_grow p;
          Some (0, p\<lparr>dp_toksuper := int (dp_toknext p) - 1\<rparr>) })"

definition dict_close :: "dict_parser \<Rightarrow> char \<Rightarrow> int \<times> dict_parser" where
  "dict_close p c =
     (case dp_tokens p of
        None \<Rightarrow> (0, p)
      | Some ts \<Rightarrow>
          (let type = (if c = CHR ''}'' then DICT_OBJECT else DICT_ARRAY)
           in case last_token is_open ts (length ts) of
                None \<Rightarrow> (DICT_ERROR_INVAL, p)
              | Some i \<Rightarrow>
                  if tk_type (ts ! i) \<noteq> type then (DICT_ERROR_INVAL, p)
                  else (let ts = ts[i := (ts ! i)\<lparr>tk_end := int (dp_pos p) + 1\<rparr>]
                        in (0, p\<lparr>dp_tokens := Some ts,
                              dp_toksuper := (case last_token is_open ts (i + 1) of None \<Rightarrow> - 1 | Some k \<Rightarrow> int k)\<rparr>))))"

definition dict_comma :: "dict_parser \<Rightarrow> dict_parser option" where
  "dict_comma p =
     (case dp_tokens p of
        None \<Rightarrow> Some p
      | Some ts \<Rightarrow> do {
          t \<leftarrow> token_at p (dp_toksuper p);
          Some (if tk_type t \<noteq> DICT_ARRAY \<and> tk_type t \<noteq> DICT_OBJECT then
              (case last_token (\<lambda>t. (tk_type t = DICT_ARRAY \<or> tk_type t = DICT_OBJECT) \<and> is_open t) ts (length ts) of
                 None \<Rightarrow> p
               | Some i \<Rightarrow> p\<lparr>dp_toksuper := int i\<rparr>)
            else p) })"

text \<open>Primitives are no keys of an object, and no second value of one.\<close>

definition dict_primitive :: "dict_parser \<Rightarrow> string \<Rightarrow> nat \<Rightarrow> nat \<Rightarrow> (int \<times> dict_parser) option" where
  "dict_primitive p str len num_tokens = do {
     bad \<leftarrow> (if dp_tokens p = None then Some False
       else do {
         t \<leftarrow> token_at p (dp_toksuper p);
         Some (tk_type t = DICT_OBJECT \<or> (tk_type t = DICT_STRING \<and> tk_size t \<noteq> 0)) });
     if bad then Some (DICT_ERROR_INVAL, p)
     else Some (dict_parse_primitive p str len num_tokens) }"

text \<open>
  Every round of the loop moves the parser by one byte at least, so \<open>len + 1\<close> rounds are enough.
\<close>

fun dict_loop :: "nat \<Rightarrow> dict_parser \<Rightarrow> string \<Rightarrow> nat \<Rightarrow> nat \<Rightarrow> int \<Rightarrow> (int \<times> dict_parser) option" where
  "dict_loop 0 p str len num_tokens count = None"
| "dict_loop (Suc fuel) p str len num_tokens count =
     (if dp_pos p < len \<and> char_at str (dp_pos p) \<noteq> NUL then
        (let c = char_at str (dp_pos p); next = (\<lambda>p. p\<lparr>dp_pos := dp_pos p + 1\<rparr>)
         in if c = CHR ''{'' \<or> c = CHR ''['' then do {
              (r, p) \<leftarrow> dict_open p c num_tokens;
              if r < 0 then Some (r, p) else dict_loop fuel (next p) str len num_tokens (count + 1) }
            else if c = CHR ''}'' \<or> c = CHR '']'' then
              (let (r, p) = dict_close p c
               in if r < 0 then Some (r, p) else dict_loop fuel (next p) str len num_tokens count)
            else if c = CHR 0x22 then
              (let (r, p) = dict_parse_string p str len num_tokens
               in if r < 0 then Some (r, p)
                  else do { p \<leftarrow> super_grow p; dict_loop fuel (next p) str len num_tokens (count + 1) })
            else if c = CHR 0x09 \<or> c = CHR 0x0D \<or> c = CHR 0x0A \<or> c = CHR 0x20 then
              dict_loop fuel (next p) str len num_tokens count
            else if c = CHR '':'' then
              dict_loop fuel (next (p\<lparr>dp_toksuper := int (dp_toknext p) - 1\<rparr>)) str len num_tokens count
            else if c = CHR '','' then do {
              p \<leftarrow> dict_comma p;
              dict_loop fuel (next p) str len num_tokens count }
            else if c \<in> set ''-0123456789tfn'' then do {
              (r, p) \<leftarrow> dict_primitive p str len num_tokens;
              if r < 0 then Some (r, p)
              else do { p \<leftarrow> super_grow p; dict_loop fuel (next p) str len num_tokens (count + 1) } }
            else Some (DICT_ERROR_INVAL, p))
      else Some (case dp_tokens p of
          None \<Rightarrow> (count, p)
        | Some ts \<Rightarrow> (if \<exists>t \<in> set ts. is_open t then DICT_ERROR_PART else count, p)))"

definition dict_parse :: "dict_parser \<Rightarrow> string \<Rightarrow> nat \<Rightarrow> nat \<Rightarrow> (int \<times> dict_parser) option" where
  "dict_parse p str len num_tokens = dict_loop (len + 1) p str len num_tokens 0"

definition dict_init :: dict_parser where
  "dict_init = \<lparr>dp_pos = 0, dp_toksuper = - 1, dp_tokens = Some []\<rparr>"

definition dict_cmp :: "string \<Rightarrow> dict_token \<Rightarrow> string \<Rightarrow> bool" where
  "dict_cmp str tok s \<longleftrightarrow> (tk_type tok = DICT_STRING \<or> tk_type tok = DICT_PRIMITIVE)
     \<and> int (length s) = tk_end tok - tk_start tok \<and> take (length s) (drop (nat (tk_start tok)) str) = s"

text \<open>
  The number of tokens that a token spans, from the array of tokens at it; tokens at \<open>level\<close> are counted
  when there is a counter.
\<close>

function dict_levelcount :: "dict_token list \<Rightarrow> int \<Rightarrow> int \<Rightarrow> int option \<Rightarrow> (nat \<times> int option) option"
  and levelcount_loop :: "nat \<Rightarrow> dict_token list \<Rightarrow> nat \<Rightarrow> int \<Rightarrow> int \<Rightarrow> int option \<Rightarrow> (nat \<times> int option) option" where
  "dict_levelcount [] depth level cnt = None"
| "dict_levelcount (t # ts) depth level cnt =
     (let depth = depth + 1
      in if depth = level \<and> cnt = None then None
         else (let cnt = (if depth = level then map_option (\<lambda>n. n + 1) cnt else cnt)
           in case tk_type t of
                DICT_PRIMITIVE \<Rightarrow> Some (1, cnt)
              | DICT_STRING \<Rightarrow> Some (1, cnt)
              | DICT_OBJECT \<Rightarrow> do { (j, cnt) \<leftarrow> levelcount_loop (2 * nat (tk_size t)) ts 0 depth level cnt; Some (j + 1, cnt) }
              | DICT_ARRAY \<Rightarrow> do { (j, cnt) \<leftarrow> levelcount_loop (nat (tk_size t)) ts 0 depth level cnt; Some (j + 1, cnt) }))"
| "levelcount_loop 0 ts j depth level cnt = Some (j, cnt)"
| "levelcount_loop (Suc i) ts j depth level cnt = do {
     (k, cnt) \<leftarrow> dict_levelcount (drop j ts) depth level cnt;
     levelcount_loop i ts (j + k) depth level cnt }"
  by pat_completeness auto
termination
  by (relation "measures [\<lambda>x. case x of Inl (ts, _) \<Rightarrow> length ts | Inr (i, ts, _) \<Rightarrow> length ts,
        \<lambda>x. case x of Inl _ \<Rightarrow> 0 | Inr (i, _) \<Rightarrow> Suc i]") auto

section \<open>Writing dictionaries\<close>

text \<open>The buffer that the caller passes is large enough; the result is its text.\<close>

record dict_elem =
  de_name :: string
  de_str :: string
  de_cap :: bool

definition dict_value :: "dict_elem \<Rightarrow> string" where
  "dict_value item = (if de_cap item then CHR 0x22 # de_str item @ [CHR 0x22] else de_str item)"

fun dict_items :: "(dict_elem \<Rightarrow> string) \<Rightarrow> dict_elem list \<Rightarrow> string" where
  "dict_items f [] = []"
| "dict_items f [item] = f item"
| "dict_items f (item # items) = f item @ '','' @ dict_items f items"

definition dict_array :: "dict_elem list \<Rightarrow> string" where
  "dict_array v = ''['' @ dict_items dict_value v @ '']''"

definition dict_object :: "dict_elem list \<Rightarrow> string" where
  "dict_object v = ''{'' @ dict_items (\<lambda>item. CHR 0x22 # de_name item @ [CHR 0x22, CHR '':''] @ dict_value item) v @ ''}''"

definition dict_element_new :: "bool \<Rightarrow> string \<Rightarrow> string \<Rightarrow> dict_elem" where
  "dict_element_new encapsulate name val = \<lparr>de_name = name, de_str = val, de_cap = encapsulate\<rparr>"

end
