(* ===== verification/Marshall.thy ===== *)
theory Marshall imports
  Json_Check Dict Quid
begin

text \<open>
  Typed trees of data: src/marshall.c.  A node has a name and data (C strings with the lengths
  recorded for them), a type, a size and an array of pointers to children; scalars have size 1 and no
  array.  \<open>None\<close> as a result is an access outside an array or through a null pointer.  Nodes share names, data and
  children where the code does; as no operation changes a shared part, the trees are values.
\<close>

datatype marshall_type = MTYPE_NULL | MTYPE_TRUE | MTYPE_FALSE | MTYPE_INT | MTYPE_FLOAT | MTYPE_STRING
  | MTYPE_QUID | MTYPE_ARRAY | MTYPE_OBJECT

datatype marshall = Marshall (m_name: "string option") (m_name_len: nat) (m_data: "string option") (m_data_len: nat)
  (m_child: "marshall option list") (m_size: nat) (m_mtype: marshall_type)

section \<open>Nodes\<close>

definition zero_marshall :: marshall where
  "zero_marshall = Marshall None 0 None 0 [] 0 MTYPE_NULL"

fun set_name :: "string option \<Rightarrow> nat \<Rightarrow> marshall \<Rightarrow> marshall" where
  "set_name n l (Marshall _ _ d dl c s t) = Marshall n l d dl c s t"

fun set_data :: "string option \<Rightarrow> nat \<Rightarrow> marshall \<Rightarrow> marshall" where
  "set_data d l (Marshall n nl _ _ c s t) = Marshall n nl d l c s t"

fun set_child_array :: "marshall option list \<Rightarrow> marshall \<Rightarrow> marshall" where
  "set_child_array c (Marshall n nl d dl _ s t) = Marshall n nl d dl c s t"

fun set_size :: "nat \<Rightarrow> marshall \<Rightarrow> marshall" where
  "set_size s (Marshall n nl d dl c _ t) = Marshall n nl d dl c s t"

fun set_mtype :: "marshall_type \<Rightarrow> marshall \<Rightarrow> marshall" where
  "set_mtype t (Marshall n nl d dl c s _) = Marshall n nl d dl c s t"

text \<open>\<open>tree_zcalloc(n, sizeof(marshall_t *), parent)\<close>\<close>

definition calloc_children :: "nat \<Rightarrow> marshall option list" where
  "calloc_children n = replicate (tree_zcalloc_slots n) None"

definition child_at :: "marshall \<Rightarrow> nat \<Rightarrow> marshall option" where
  "child_at m i = (if i < length (m_child m) then m_child m ! i else None)"

definition put_child :: "marshall \<Rightarrow> nat \<Rightarrow> marshall option \<Rightarrow> marshall option" where
  "put_child m i c = (if i < length (m_child m) then Some (set_child_array ((m_child m)[i := c]) m) else None)"

text \<open>\<open>m->child[m->size] = c; m->size++\<close>\<close>

definition push_child :: "marshall \<Rightarrow> marshall option \<Rightarrow> marshall option" where
  "push_child m c = do { m \<leftarrow> put_child m (m_size m) c; Some (set_size (m_size m + 1) m) }"

text \<open>\<open>tree_zstrndup\<close> copies \<open>n\<close> bytes, which the string with its terminator must have.\<close>

definition tree_zstrndup :: "string \<Rightarrow> nat \<Rightarrow> string option" where
  "tree_zstrndup s n = (if n \<le> length s + 1 then Some (take n s) else None)"

text \<open>The first \<open>n\<close> pointers of an array, none of them null.\<close>

fun read_children :: "nat \<Rightarrow> marshall option list \<Rightarrow> marshall list option" where
  "read_children 0 cs = Some []"
| "read_children (Suc n) (Some c # cs) = do { ms \<leftarrow> read_children n cs; Some (c # ms) }"
| "read_children (Suc n) _ = None"

definition children :: "marshall \<Rightarrow> marshall list option" where
  "children m = read_children (m_size m) (m_child m)"

lemma read_children_set: "read_children n cs = Some ms \<Longrightarrow> m \<in> set ms \<Longrightarrow> Some m \<in> set cs"
  by (induction n cs arbitrary: ms rule: read_children.induct) (auto split: option.splits bind_splits)

lemma size_child [termination_simp]: "children m = Some ms \<Longrightarrow> c \<in> set ms \<Longrightarrow> size c < size m"
proof -
  assume a: "children m = Some ms" "c \<in> set ms"
  then have "Some c \<in> set (m_child m)" by (auto simp: children_def dest: read_children_set)
  then have "Suc (size c) \<le> size_list (size_option size) (m_child m)" by (rule size_list_estimation') simp
  then show ?thesis by (cases m) simp
qed

section \<open>Types and counts\<close>

definition type_info :: "(marshall_type \<times> bool \<times> bool) list" where
  "type_info = [(MTYPE_NULL, False, False), (MTYPE_TRUE, False, False), (MTYPE_FALSE, False, False),
     (MTYPE_INT, True, False), (MTYPE_FLOAT, True, False), (MTYPE_STRING, True, False), (MTYPE_QUID, True, False),
     (MTYPE_ARRAY, False, True), (MTYPE_OBJECT, False, True)]"

definition marshall_type_hasdata :: "marshall_type \<Rightarrow> bool" where
  "marshall_type_hasdata type = (case find (\<lambda>i. fst i = type) type_info of Some (_, d, _) \<Rightarrow> d | None \<Rightarrow> False)"

definition marshall_type_hasdescent :: "marshall_type \<Rightarrow> bool" where
  "marshall_type_hasdescent type = (case find (\<lambda>i. fst i = type) type_info of Some (_, _, d) \<Rightarrow> d | None \<Rightarrow> False)"

text \<open>\<open>data[len - 1]\<close> may lie outside the string.\<close>

definition autoscalar :: "string \<Rightarrow> nat \<Rightarrow> marshall_type option" where
  "autoscalar data len =
     (if len = 0 then Some MTYPE_NULL
      else if len = 1 then
        (let fchar = char_at data 0
         in Some (if fchar = CHR ''0'' \<or> fchar = CHR ''f'' \<or> fchar = CHR ''F'' then MTYPE_FALSE
              else if fchar = CHR ''1'' \<or> fchar = CHR ''t'' \<or> fchar = CHR ''T'' then MTYPE_TRUE
              else if strisdigit data then MTYPE_INT else MTYPE_STRING))
      else if strisbool data \<noteq> - 1 then Some (if strisbool data \<noteq> 0 then MTYPE_TRUE else MTYPE_FALSE)
      else if strisdigit data then Some MTYPE_INT
      else do {
        float \<leftarrow> (if strismatch data ''-1234567890.'' \<and> strccnt data (CHR ''.'') = 1 \<and> char_at data 0 \<noteq> CHR ''.'' then do {
            zassert (len \<le> length data + 1);
            Some (char_at data (len - 1) \<noteq> CHR ''.'') }
          else Some False);
        Some (if float then MTYPE_FLOAT
          else if strquid_format data > 0 then MTYPE_QUID
          else if json_valid data then MTYPE_OBJECT
          else if data = ''null'' \<or> data = ''NULL'' then MTYPE_NULL
          else MTYPE_STRING) })"

lemma size_marshall: "size m = Suc (size_list (size_option size) (m_child m))"
  by (cases m) simp

text \<open>\<open>depth\<close> - 1 is no bound.\<close>

function marshall_get_count :: "marshall \<Rightarrow> int \<Rightarrow> nat \<Rightarrow> nat option"
  and count_children :: "nat \<Rightarrow> marshall option list \<Rightarrow> int \<Rightarrow> nat \<Rightarrow> nat option" where
  "marshall_get_count obj depth d =
     (if marshall_type_hasdescent (m_mtype obj) \<and> (depth = - 1 \<or> depth > int d)
      then do { n \<leftarrow> count_children (m_size obj) (m_child obj) depth (d + 1); Some (1 + n) }
      else Some 1)"
| "count_children 0 cs depth d = Some 0"
| "count_children (Suc i) (Some c # cs) depth d = do {
     n \<leftarrow> marshall_get_count c depth d;
     k \<leftarrow> count_children i cs depth d;
     Some (n + k) }"
| "count_children (Suc i) (None # cs) depth d = None"
| "count_children (Suc i) [] depth d = None"
  by pat_completeness auto

termination
  by (relation "measure (\<lambda>x. case x of Inl (obj, _) \<Rightarrow> 2 * size obj | Inr (_, cs, _) \<Rightarrow> 2 * size_list (size_option size) cs + 1)")
    (auto simp: size_marshall)

text \<open>\<open>None\<close> is the null pointer, with the error "Invalid datatype" thrown.\<close>

definition marshall_strdata :: "marshall \<Rightarrow> (string option \<times> nat) option" where
  "marshall_strdata obj =
     (case m_mtype obj of
        MTYPE_NULL \<Rightarrow> Some (Some ''null'', 4)
      | MTYPE_TRUE \<Rightarrow> Some (Some ''true'', 4)
      | MTYPE_FALSE \<Rightarrow> Some (Some ''false'', 5)
      | MTYPE_FLOAT \<Rightarrow> Some (m_data obj, m_data_len obj)
      | MTYPE_INT \<Rightarrow> Some (m_data obj, m_data_len obj)
      | MTYPE_QUID \<Rightarrow> Some (m_data obj, m_data_len obj)
      | MTYPE_STRING \<Rightarrow> Some (m_data obj, m_data_len obj)
      | _ \<Rightarrow> None)"

definition marshall_count :: "marshall \<Rightarrow> nat" where
  "marshall_count obj = m_size obj"

definition marshall_get_strtype :: "marshall_type \<Rightarrow> string" where
  "marshall_get_strtype type =
     (case type of MTYPE_NULL \<Rightarrow> ''NULL'' | MTYPE_TRUE \<Rightarrow> ''TRUE'' | MTYPE_FALSE \<Rightarrow> ''FALSE'' | MTYPE_INT \<Rightarrow> ''INTEGER''
        | MTYPE_FLOAT \<Rightarrow> ''FLOAT'' | MTYPE_STRING \<Rightarrow> ''STRING'' | MTYPE_QUID \<Rightarrow> ''QUID'' | MTYPE_ARRAY \<Rightarrow> ''ARRAY''
        | MTYPE_OBJECT \<Rightarrow> ''OBJECT'')"

section \<open>Comparison\<close>

definition same_string :: "string option \<Rightarrow> string option \<Rightarrow> bool" where
  "same_string a b = (case (a, b) of (Some a, Some b) \<Rightarrow> a = b | _ \<Rightarrow> True)"

definition same_scalar :: "marshall \<Rightarrow> marshall \<Rightarrow> bool" where
  "same_scalar object_1 object_2 \<longleftrightarrow> m_mtype object_1 = m_mtype object_2
     \<and> m_name_len object_1 = m_name_len object_2 \<and> same_string (m_name object_1) (m_name object_2)
     \<and> m_data_len object_1 = m_data_len object_2 \<and> same_string (m_data object_1) (m_data object_2)"

function marshall_equal :: "marshall \<Rightarrow> marshall \<Rightarrow> bool option"
  and equal_loop :: "nat \<Rightarrow> marshall option list \<Rightarrow> marshall option list \<Rightarrow> bool option" where
  "marshall_equal object_1 object_2 =
     (if m_mtype object_2 = MTYPE_OBJECT then
        (if m_mtype object_1 \<noteq> MTYPE_OBJECT then Some False
         else if m_size object_1 \<noteq> m_size object_2 then Some False
         else equal_loop (m_size object_1) (m_child object_1) (m_child object_2))
      else if m_mtype object_2 = MTYPE_ARRAY then
        (if m_mtype object_1 \<noteq> MTYPE_ARRAY then Some False
         else if m_size object_1 \<noteq> m_size object_2 then Some False
         else equal_loop (m_size object_1) (m_child object_1) (m_child object_2))
      else if m_mtype object_1 = MTYPE_OBJECT \<or> m_mtype object_1 = MTYPE_ARRAY then Some False
      else Some (m_size object_1 = m_size object_2 \<and> same_scalar object_1 object_2))"
| "equal_loop 0 as bs = Some True"
| "equal_loop (Suc n) (Some a # as) (Some b # bs) = do {
     r \<leftarrow> marshall_equal a b;
     if \<not> r then Some False else equal_loop n as bs }"
| "equal_loop (Suc n) [] bs = None"
| "equal_loop (Suc n) (None # as) bs = None"
| "equal_loop (Suc n) (Some a # as) [] = None"
| "equal_loop (Suc n) (Some a # as) (None # bs) = None"
  by pat_completeness auto
termination
  by (relation "measure (\<lambda>x. case x of Inl (a, _) \<Rightarrow> size a | Inr (_, as, _) \<Rightarrow> size_list (size_option size) as)")
    (auto simp: size_marshall)

text \<open>
  \<open>marshall_match_any\<close>: two objects match when some child of the one matches some child of the other,
  arrays when they match element by element; the size of a scalar does not matter.
\<close>

function marshall_match_any :: "marshall \<Rightarrow> marshall \<Rightarrow> bool option"
  and any_loop :: "nat \<Rightarrow> marshall option list \<Rightarrow> nat \<Rightarrow> marshall option list \<Rightarrow> bool option"
  and any_inner :: "marshall option \<Rightarrow> nat \<Rightarrow> marshall option list \<Rightarrow> bool option"
  and match_loop :: "nat \<Rightarrow> marshall option list \<Rightarrow> marshall option list \<Rightarrow> bool option" where
  "marshall_match_any object_1 object_2 =
     (if m_mtype object_2 = MTYPE_OBJECT then
        (if m_mtype object_1 \<noteq> MTYPE_OBJECT then Some False
         else any_loop (m_size object_1) (m_child object_1) (m_size object_2) (m_child object_2))
      else if m_mtype object_2 = MTYPE_ARRAY then
        (if m_mtype object_1 \<noteq> MTYPE_ARRAY then Some False
         else if m_size object_1 \<noteq> m_size object_2 then Some False
         else match_loop (m_size object_1) (m_child object_1) (m_child object_2))
      else if m_mtype object_1 = MTYPE_OBJECT \<or> m_mtype object_1 = MTYPE_ARRAY then Some False
      else Some (same_scalar object_1 object_2))"
| "any_loop 0 as m bs = Some False"
| "any_loop (Suc n) (a # as) m bs = do {
     r \<leftarrow> any_inner a m bs;
     if r then Some True else any_loop n as m bs }"
| "any_loop (Suc n) [] m bs = (if m = 0 then Some False else None)"
| "any_inner a 0 bs = Some False"
| "any_inner (Some a) (Suc m) (Some b # bs) = do {
     r \<leftarrow> marshall_match_any a b;
     if r then Some True else any_inner (Some a) m bs }"
| "any_inner None (Suc m) bs = None"
| "any_inner (Some a) (Suc m) [] = None"
| "any_inner (Some a) (Suc m) (None # bs) = None"
| "match_loop 0 as bs = Some True"
| "match_loop (Suc n) (Some a # as) (Some b # bs) = do {
     r \<leftarrow> marshall_match_any a b;
     if \<not> r then Some False else match_loop n as bs }"
| "match_loop (Suc n) [] bs = None"
| "match_loop (Suc n) (None # as) bs = None"
| "match_loop (Suc n) (Some a # as) [] = None"
| "match_loop (Suc n) (Some a # as) (None # bs) = None"
  by pat_completeness auto
termination
  by (relation "measure (\<lambda>x. case x of
        Inl (Inl (a, b)) \<Rightarrow> size a + size b
      | Inl (Inr (_, as, _, bs)) \<Rightarrow> size_list (size_option size) as + size_list (size_option size) bs + 1
      | Inr (Inl (a, _, bs)) \<Rightarrow> size_option size a + size_list (size_option size) bs
      | Inr (Inr (_, as, bs)) \<Rightarrow> size_list (size_option size) as + size_list (size_option size) bs + 1)")
    (auto simp: size_marshall)

section \<open>Copies\<close>

definition copy_string :: "string option \<Rightarrow> nat \<Rightarrow> (string option \<times> nat) option" where
  "copy_string s len = (case s of None \<Rightarrow> Some (None, 0)
     | Some s \<Rightarrow> do { c \<leftarrow> tree_zstrndup s len; Some (Some c, len) })"

function marshall_copy :: "marshall \<Rightarrow> marshall option"
  and copy_loop :: "nat \<Rightarrow> marshall option list \<Rightarrow> marshall option list option" where
  "marshall_copy m = do {
     let array = (if m_size m > 0 then calloc_children (m_size m) else []);
     (name, name_len) \<leftarrow> copy_string (m_name m) (m_name_len m);
     (data, data_len) \<leftarrow> copy_string (m_data m) (m_data_len m);
     cs \<leftarrow> (if m_mtype m = MTYPE_ARRAY \<or> m_mtype m = MTYPE_OBJECT then copy_loop (m_size m) (m_child m) else Some []);
     Some (Marshall name name_len data data_len (cs @ drop (length cs) array) (m_size m) (m_mtype m)) }"
| "copy_loop 0 cs = Some []"
| "copy_loop (Suc n) (Some c # cs) = do { c \<leftarrow> marshall_copy c; r \<leftarrow> copy_loop n cs; Some (Some c # r) }"
| "copy_loop (Suc n) (None # cs) = None"
| "copy_loop (Suc n) [] = None"
  by pat_completeness auto
termination
  by (relation "measure (\<lambda>x. case x of Inl m \<Rightarrow> size m | Inr (_, cs) \<Rightarrow> size_list (size_option size) cs)")
    (auto simp: size_marshall)

declare marshall_copy.simps [simp del]

section \<open>Selection\<close>

fun append_all :: "'a vector \<Rightarrow> 'a list \<Rightarrow> 'a vector option" where
  "append_all v [] = Some v"
| "append_all v (x # xs) = do { v \<leftarrow> vector_append v x; append_all v xs }"

definition selectors :: "marshall \<Rightarrow> string option list option" where
  "selectors element = do {
     ds \<leftarrow> (if m_mtype element = MTYPE_STRING then Some [m_data element]
       else do { cs \<leftarrow> children element; Some (map m_data cs) });
     v \<leftarrow> append_all (alloc_vector (of_nat (m_size element))) ds;
     Some (map (\<lambda>s. case s of Ptr d \<Rightarrow> d | _ \<Rightarrow> None) (vector_list v)) }"

text \<open>How many selectors equal a name; comparing with a null selector is an access through it.\<close>

fun name_hits :: "string option \<Rightarrow> string option list \<Rightarrow> nat option" where
  "name_hits None sels = Some 0"
| "name_hits (Some name) [] = Some 0"
| "name_hits (Some name) (None # sels) = None"
| "name_hits (Some name) (Some s # sels) = do {
     n \<leftarrow> name_hits (Some name) sels;
     Some (if name = s then n + 1 else n) }"

text \<open>A node with the name, data and type of another, of size 0 and without children.\<close>

definition leaf_of :: "marshall \<Rightarrow> marshall" where
  "leaf_of m = Marshall (m_name m) (m_name_len m) (m_data m) (m_data_len m) [] 0 (m_mtype m)"

fun push_times :: "nat \<Rightarrow> marshall \<Rightarrow> marshall \<Rightarrow> marshall option" where
  "push_times 0 m c = Some m"
| "push_times (Suc n) m c = do { m \<leftarrow> push_child m (Some c); push_times n m c }"

function filter_with :: "string option list \<Rightarrow> marshall \<Rightarrow> marshall option"
  and filter_loop :: "string option list \<Rightarrow> nat \<Rightarrow> marshall option list \<Rightarrow> marshall \<Rightarrow> marshall option" where
  "filter_with sels m = do {
     hits \<leftarrow> name_hits (m_name m) sels;
     let selection = (if hits > 0 then m else zero_marshall);
     if m_size selection > 0 then Some selection
     else if marshall_type_hasdescent (m_mtype m) then
       filter_loop sels (m_size m) (m_child m)
         (Marshall (m_name m) (m_name_len m) (m_data selection) (m_data_len selection) (calloc_children (m_size m)) 0 (m_mtype m))
     else Some selection }"
| "filter_loop sels 0 cs selection = Some selection"
| "filter_loop sels (Suc n) (Some c # cs) selection =
     (if marshall_type_hasdescent (m_mtype c) then do {
        d \<leftarrow> filter_with sels c;
        selection \<leftarrow> (if m_size d > 0 then push_child selection (Some d) else Some selection);
        filter_loop sels n cs selection }
      else do {
        hits \<leftarrow> name_hits (m_name c) sels;
        selection \<leftarrow> push_times hits selection (leaf_of c);
        filter_loop sels n cs selection })"
| "filter_loop sels (Suc n) (None # cs) selection = None"
| "filter_loop sels (Suc n) [] selection = None"
  by pat_completeness auto
termination
  by (relation "measure (\<lambda>x. case x of Inl (_, m) \<Rightarrow> size m | Inr (_, _, cs, _) \<Rightarrow> size_list (size_option size) cs)")
    (auto simp: size_marshall)

declare filter_with.simps [simp del]

definition marshall_filter :: "marshall \<Rightarrow> marshall \<Rightarrow> marshall option" where
  "marshall_filter element m = do { sels \<leftarrow> selectors element; filter_with sels m }"

text \<open>Whether some of the first \<open>n\<close> filters matches; the search stops at the first.\<close>

fun match_some :: "marshall \<Rightarrow> nat \<Rightarrow> marshall option list \<Rightarrow> bool option" where
  "match_some m 0 fs = Some False"
| "match_some m (Suc n) (Some f # fs) = do {
     r \<leftarrow> marshall_match_any m f;
     if r then Some True else match_some m n fs }"
| "match_some m (Suc n) _ = None"

text \<open>The loop of an array over the filters: a copy for every filter that matches.\<close>

fun condition_filters :: "marshall \<Rightarrow> nat \<Rightarrow> marshall option list \<Rightarrow> marshall \<Rightarrow> marshall option" where
  "condition_filters c 0 fs selection = Some selection"
| "condition_filters c (Suc n) (Some f # fs) selection = do {
     r \<leftarrow> marshall_match_any c f;
     selection \<leftarrow> (if r then do { d \<leftarrow> marshall_copy c; push_child selection (Some d) } else Some selection);
     condition_filters c n fs selection }"
| "condition_filters c (Suc n) _ selection = None"

fun condition_loop :: "marshall \<Rightarrow> nat \<Rightarrow> marshall option list \<Rightarrow> marshall \<Rightarrow> marshall option" where
  "condition_loop f 0 cs selection = Some selection"
| "condition_loop f (Suc n) (c # cs) selection = do {
     selection \<leftarrow> (if m_mtype f = MTYPE_ARRAY then
         (if m_size f = 0 then Some selection else do { c \<leftarrow> c; condition_filters c (m_size f) (m_child f) selection })
       else do {
         c \<leftarrow> c;
         r \<leftarrow> marshall_match_any c f;
         if r then do { d \<leftarrow> marshall_copy c; push_child selection (Some d) } else Some selection });
     condition_loop f n cs selection }"
| "condition_loop f (Suc n) [] selection = (if m_mtype f = MTYPE_ARRAY \<and> m_size f = 0 then Some selection else None)"

definition copy_when :: "bool \<Rightarrow> marshall \<Rightarrow> marshall option option" where
  "copy_when b m = (if b then do { c \<leftarrow> marshall_copy m; Some (Some c) } else Some None)"

text \<open>The inner result is the pointer returned.\<close>

definition marshall_condition :: "marshall \<Rightarrow> marshall \<Rightarrow> marshall option option" where
  "marshall_condition filterobject m =
     (if m_mtype m = MTYPE_OBJECT then
        (if m_mtype filterobject = MTYPE_OBJECT then do {
           r \<leftarrow> marshall_match_any m filterobject; copy_when r m }
         else if m_mtype filterobject = MTYPE_ARRAY then do {
           r \<leftarrow> match_some m (m_size filterobject) (m_child filterobject); copy_when r m }
         else Some None)
      else if m_mtype m = MTYPE_ARRAY then do {
        s \<leftarrow> condition_loop filterobject (m_size m) (m_child m)
               (Marshall None 0 None 0 (calloc_children (m_size m)) 0 MTYPE_ARRAY);
        Some (Some s) }
      else if m_mtype filterobject = MTYPE_ARRAY then do {
        r \<leftarrow> match_some m (m_size filterobject) (m_child filterobject); copy_when r m }
      else do { r \<leftarrow> marshall_match_any m filterobject; copy_when r m })"

section \<open>Merging\<close>

definition realloc_children :: "nat \<Rightarrow> marshall option list \<Rightarrow> marshall option list" where
  "realloc_children n cs = take n cs @ replicate (n - length cs) None"

text \<open>A fresh array of the \<open>size\<close> pointers that a node has.\<close>

definition share_children :: "marshall \<Rightarrow> marshall option list option" where
  "share_children c = (if m_size c \<le> length (m_child c)
     then Some (take (m_size c) (m_child c) @ drop (m_size c) (calloc_children (m_size c))) else None)"

definition one_child :: "marshall \<Rightarrow> marshall option list" where
  "one_child c = (calloc_children 1)[0 := Some c]"

text \<open>
  \<open>marshall_merge\<close> changes \<open>marshall\<close> in place; the flag is whether it returns it, otherwise the error "Cannot
  merge structures" is thrown and the null pointer returned.
\<close>

fun merge_object :: "nat \<Rightarrow> marshall option list \<Rightarrow> nat \<Rightarrow> marshall_type \<Rightarrow> marshall \<Rightarrow> (bool \<times> marshall) option" where
  "merge_object 0 cs new_size new_type m = Some (True, m)"
| "merge_object (Suc n) (Some c # cs) new_size new_type m = do {
     m \<leftarrow> (if marshall_type_hasdescent (m_mtype c) then
         (if m_mtype m = MTYPE_ARRAY then
            push_child m (Some (Marshall None 0 None 0 (one_child c) 1 new_type))
          else do {
            array \<leftarrow> share_children c;
            push_child m (Some (Marshall (m_name c) (m_name_len c) None 0 array (m_size c) (m_mtype c))) })
       else if m_mtype m = MTYPE_OBJECT then
         push_child (set_child_array (realloc_children (m_size m + new_size) (m_child m)) m) (Some (leaf_of c))
       else
         push_child (set_child_array (realloc_children (m_size m + new_size) (m_child m)) m)
           (Some (Marshall None 0 None 0 (one_child (leaf_of c)) 1 MTYPE_OBJECT)));
     merge_object n cs new_size new_type m }"
| "merge_object (Suc n) _ new_size new_type m = None"

fun merge_array :: "nat \<Rightarrow> marshall option list \<Rightarrow> marshall \<Rightarrow> (bool \<times> marshall) option" where
  "merge_array 0 cs m = Some (True, m)"
| "merge_array (Suc n) (Some c # cs) m =
     (if marshall_type_hasdescent (m_mtype c) then
        (if m_mtype m = MTYPE_OBJECT \<and> m_name c = None then Some (False, m)
         else do {
           array \<leftarrow> share_children c;
           m \<leftarrow> push_child m (Some (Marshall None 0 None 0 array (m_size c) (m_mtype c)));
           merge_array n cs m })
      else if m_mtype m = MTYPE_ARRAY then do {
        m \<leftarrow> push_child m (Some (leaf_of c));
        merge_array n cs m }
      else Some (False, m))"
| "merge_array (Suc n) _ m = None"

definition unnamed_leaf :: "marshall \<Rightarrow> marshall" where
  "unnamed_leaf m = Marshall None 0 (m_data m) (m_data_len m) [] 0 (m_mtype m)"

fun push_unnamed :: "nat \<Rightarrow> marshall option list \<Rightarrow> marshall \<Rightarrow> marshall option" where
  "push_unnamed 0 cs m = Some m"
| "push_unnamed (Suc n) (Some c # cs) m = do { m \<leftarrow> push_child m (Some (unnamed_leaf c)); push_unnamed n cs m }"
| "push_unnamed (Suc n) _ m = None"

definition marshall_merge :: "marshall \<Rightarrow> marshall \<Rightarrow> (bool \<times> marshall) option" where
  "marshall_merge newobject m =
     (if marshall_type_hasdescent (m_mtype m) then
        (if m_mtype newobject = MTYPE_OBJECT then
           merge_object (m_size newobject) (m_child newobject) (m_size newobject) (m_mtype newobject) m
         else if m_mtype newobject = MTYPE_ARRAY then
           merge_array (m_size newobject) (m_child newobject) m
         else if m_mtype m = MTYPE_OBJECT then Some (False, m)
         else do { m \<leftarrow> push_child m (Some (leaf_of newobject)); Some (True, m) })
      else if m_mtype newobject = MTYPE_OBJECT then Some (False, m)
      else do {
        let array = (calloc_children (m_size newobject + 1))[0 := Some (unnamed_leaf m)];
        let m = Marshall (m_name m) (m_name_len m) (m_data m) (m_data_len m) array 1 MTYPE_ARRAY;
        m \<leftarrow> (if m_mtype newobject = MTYPE_ARRAY then push_unnamed (m_size newobject) (m_child newobject) m
              else push_child m (Some (unnamed_leaf newobject)));
        Some (True, m) })"

section \<open>Removal\<close>

text \<open>
  \<open>shift_left\<close> moves every field of a node but its size.  With size 0 its bound \<open>size - 1\<close> wraps around and
  the loop leaves the array.
\<close>

fun shift_loop :: "nat \<Rightarrow> nat \<Rightarrow> marshall \<Rightarrow> marshall option" where
  "shift_loop 0 i m = Some m"
| "shift_loop (Suc n) i m = do {
     a \<leftarrow> child_at m i;
     b \<leftarrow> child_at m (i + 1);
     m \<leftarrow> put_child m i (Some (set_size (m_size a) b));
     shift_loop n (i + 1) m }"

definition shift_left :: "marshall \<Rightarrow> nat \<Rightarrow> marshall option" where
  "shift_left m offset = (if m_size m = 0 then None else shift_loop (m_size m - 1 - offset) offset m)"

definition blank :: "bool \<Rightarrow> marshall \<Rightarrow> marshall" where
  "blank unsize m = (let m = set_mtype MTYPE_NULL (set_data None 0 m) in if unsize then set_size 0 m else m)"

definition remove_at :: "bool \<Rightarrow> marshall \<Rightarrow> nat \<Rightarrow> marshall option" where
  "remove_at unsize m i = do {
     c \<leftarrow> child_at m i;
     m \<leftarrow> put_child m i (Some (blank unsize c));
     m \<leftarrow> shift_left m i;
     Some (set_size (m_size m - 1) m) }"

fun equal_some :: "marshall \<Rightarrow> nat \<Rightarrow> marshall option list \<Rightarrow> bool option" where
  "equal_some c 0 fs = Some False"
| "equal_some c (Suc n) (Some f # fs) = do {
     r \<leftarrow> marshall_equal c f;
     if r then Some True else equal_some c n fs }"
| "equal_some c (Suc n) _ = None"

text \<open>
  \<open>goto\<close>: after a removal the filters are tried again at the same position.  A removal lowers the size, and
  fails at size 0, so that the size is a bound for their number.
\<close>

fun separate_again :: "nat \<Rightarrow> bool \<Rightarrow> marshall \<Rightarrow> marshall \<Rightarrow> nat \<Rightarrow> bool \<Rightarrow> (marshall \<times> bool) option" where
  "separate_again 0 unsize f m i changed = None"
| "separate_again (Suc fuel) unsize f m i changed =
     (if m_size f = 0 then Some (m, changed)
      else do {
        c \<leftarrow> child_at m i;
        r \<leftarrow> equal_some c (m_size f) (m_child f);
        if r then do { m \<leftarrow> remove_at unsize m i; separate_again fuel unsize f m i True }
        else Some (m, changed) })"

fun separate_loop :: "nat \<Rightarrow> bool \<Rightarrow> marshall \<Rightarrow> marshall \<Rightarrow> nat \<Rightarrow> bool \<Rightarrow> (marshall \<times> bool) option" where
  "separate_loop 0 unsize f m i changed = None"
| "separate_loop (Suc fuel) unsize f m i changed =
     (if i < m_size m then do {
        (m, changed) \<leftarrow> (if m_mtype f = MTYPE_ARRAY then separate_again (m_size m + 1) unsize f m i changed
          else do {
            c \<leftarrow> child_at m i;
            r \<leftarrow> marshall_equal c f;
            if r then do { m \<leftarrow> remove_at unsize m i; Some (m, True) } else Some (m, changed) });
        separate_loop fuel unsize f m (i + 1) changed }
      else Some (m, changed))"

fun separate_scalar :: "nat \<Rightarrow> marshall option list \<Rightarrow> marshall \<Rightarrow> bool \<Rightarrow> (marshall \<times> bool) option" where
  "separate_scalar 0 fs m changed = Some (m, changed)"
| "separate_scalar (Suc n) (Some f # fs) m changed = do {
     r \<leftarrow> marshall_equal m f;
     if r then separate_scalar n fs (blank True m) True else separate_scalar n fs m changed }"
| "separate_scalar (Suc n) _ m changed = None"

definition marshall_separate :: "marshall \<Rightarrow> marshall \<Rightarrow> bool \<Rightarrow> (marshall \<times> bool) option" where
  "marshall_separate filterobject m changed =
     (if m_mtype m = MTYPE_OBJECT then separate_loop (m_size m + 1) True filterobject m 0 changed
      else if m_mtype m = MTYPE_ARRAY then separate_loop (m_size m + 1) False filterobject m 0 changed
      else if m_mtype filterobject = MTYPE_ARRAY then
        separate_scalar (m_size filterobject) (m_child filterobject) m changed
      else do {
        r \<leftarrow> marshall_equal m filterobject;
        if r then Some (blank True m, True) else Some (m, changed) })"

end
