(* ===== verification/Marshall_Text.thy ===== *)
theory Marshall_Text imports
  Marshall
begin

text \<open>
  Reading and writing trees: src/dict_marshall.c (JSON), src/csv.c and src/csv_marshall.c (comma-separated
  values), and the conversions of src/marshall.c that choose between them.
\<close>

section \<open>Decoding JSON\<close>

text \<open>
  A decoded pointer comes with the flag whether "Invalid datatype" was thrown.  \<open>data\<close> is the C string from
  the start of the text on, \<open>data_len\<close> the bytes that belong to the text.
\<close>

definition token_text :: "string \<Rightarrow> dict_token \<Rightarrow> string option" where
  "token_text data t = tree_zstrndup (drop (nat (tk_start t)) data) (nat (tk_end t - tk_start t))"

definition token_len :: "dict_token \<Rightarrow> nat" where
  "token_len t = nat (tk_end t - tk_start t)"

definition fill_primitive :: "string \<Rightarrow> dict_token \<Rightarrow> marshall \<Rightarrow> marshall option" where
  "fill_primitive data t m = do {
     m \<leftarrow> (if dict_cmp data t ''null'' then Some (set_mtype MTYPE_NULL m)
       else if dict_cmp data t ''true'' then Some (set_mtype MTYPE_TRUE m)
       else if dict_cmp data t ''false'' then Some (set_mtype MTYPE_FALSE m)
       else do {
         s \<leftarrow> token_text data t;
         Some (set_mtype (if strismatch s ''-1234567890.'' \<and> strccnt s (CHR ''.'') = 1 then MTYPE_FLOAT else MTYPE_INT)
           (set_data (Some s) (token_len t) m)) });
     Some (set_size 1 m) }"

definition fill_string :: "string \<Rightarrow> dict_token \<Rightarrow> marshall \<Rightarrow> marshall option" where
  "fill_string data t m = do {
     s \<leftarrow> token_text data t;
     let m = set_data (Some s) (token_len t) m;
     Some (set_size 1 (if strquid_format s > 0 then set_mtype MTYPE_QUID m else m)) }"

text \<open>How many tokens the children of a token span, from the tokens behind it.\<close>

definition span :: "dict_token list \<Rightarrow> nat \<Rightarrow> nat option" where
  "span ts i = do {
     zassert (i < length ts);
     (j, _) \<leftarrow> levelcount_loop ((if tk_type (ts ! i) = DICT_OBJECT then 2 else 1) * nat (tk_size (ts ! i)))
        (drop (i + 1) ts) 0 0 0 None;
     Some j }"

text \<open>The token arrays have as many elements as the text has bytes, and each nested text is shorter.\<close>

function decode :: "nat \<Rightarrow> string \<Rightarrow> nat \<Rightarrow> string option \<Rightarrow> nat \<Rightarrow> (marshall option \<times> bool) option"
  and decode_array :: "nat \<Rightarrow> nat \<Rightarrow> string \<Rightarrow> dict_token list \<Rightarrow> nat \<Rightarrow> nat \<Rightarrow> marshall \<Rightarrow> bool \<Rightarrow> (marshall \<times> bool) option"
  and decode_object :: "nat \<Rightarrow> nat \<Rightarrow> string \<Rightarrow> dict_token list \<Rightarrow> nat \<Rightarrow> nat \<Rightarrow> marshall \<Rightarrow> bool \<Rightarrow> bool \<Rightarrow> (marshall \<times> bool) option"
where
  "decode 0 data data_len name name_len = None"
| "decode (Suc fuel) data data_len name name_len = do {
     (r, p) \<leftarrow> dict_parse dict_init data data_len data_len;
     if r < 1 then Some (None, False)
     else do {
       ts \<leftarrow> dp_tokens p;
       zassert (ts \<noteq> []);
       let n = nat r;
       let obj = (if name \<noteq> None \<and> name_len \<noteq> 0 then set_name name name_len zero_marshall else zero_marshall);
       let obj = set_child_array (calloc_children n) obj;
       (obj, err) \<leftarrow> (case tk_type (ts ! 0) of
           DICT_ARRAY \<Rightarrow> decode_array fuel (n - 1) data ts n 1 (set_mtype MTYPE_ARRAY obj) False
         | DICT_OBJECT \<Rightarrow> decode_object fuel (n - 1) data ts n 1 (set_mtype MTYPE_OBJECT obj) False False
         | _ \<Rightarrow> Some (obj, True));
       Some (Some obj, err) } }"
| "decode_array fuel 0 data ts n i obj err = Some (obj, err)"
| "decode_array fuel (Suc k) data ts n i obj err =
     (if i < n then do {
        zassert (i < length ts);
        let t = ts ! i;
        case tk_type t of
          DICT_PRIMITIVE \<Rightarrow> do {
            c \<leftarrow> fill_primitive data t zero_marshall;
            obj \<leftarrow> push_child obj (Some c);
            decode_array fuel k data ts n (i + 1) obj err }
        | DICT_STRING \<Rightarrow> do {
            c \<leftarrow> fill_string data t (set_mtype MTYPE_STRING zero_marshall);
            obj \<leftarrow> push_child obj (Some c);
            decode_array fuel k data ts n (i + 1) obj err }
        | _ \<Rightarrow> do {
            (c, e) \<leftarrow> decode fuel (drop (nat (tk_start t)) data) (token_len t) None 0;
            obj \<leftarrow> push_child obj c;
            j \<leftarrow> span ts i;
            decode_array fuel k data ts n (i + j + 1) obj (err \<or> e) } }
      else Some (obj, err))"
| "decode_object fuel 0 data ts n i obj setname err = Some (obj, err)"
| "decode_object fuel (Suc k) data ts n i obj setname err =
     (if i < n then do {
        zassert (i < length ts);
        let t = ts ! i;
        case tk_type t of
          DICT_PRIMITIVE \<Rightarrow> do {
            c \<leftarrow> child_at obj (m_size obj);
            c \<leftarrow> fill_primitive data t c;
            obj \<leftarrow> push_child obj (Some c);
            decode_object fuel k data ts n (i + 1) obj False err }
        | DICT_STRING \<Rightarrow>
            if \<not> setname then do {
              s \<leftarrow> token_text data t;
              obj \<leftarrow> put_child obj (m_size obj) (Some (set_name (Some s) (token_len t) (set_mtype MTYPE_STRING zero_marshall)));
              decode_object fuel k data ts n (i + 1) obj True err }
            else do {
              c \<leftarrow> child_at obj (m_size obj);
              c \<leftarrow> fill_string data t c;
              obj \<leftarrow> push_child obj (Some c);
              decode_object fuel k data ts n (i + 1) obj False err }
        | _ \<Rightarrow> do {
            c \<leftarrow> child_at obj (m_size obj);
            (c, e) \<leftarrow> decode fuel (drop (nat (tk_start t)) data) (token_len t) (m_name c) (m_name_len c);
            obj \<leftarrow> push_child obj c;
            j \<leftarrow> span ts i;
            decode_object fuel k data ts n (i + j + 1) obj False (err \<or> e) } }
      else Some (obj, err))"
  by pat_completeness auto
termination
  by (relation "measures [\<lambda>x. case x of Inl (f, _) \<Rightarrow> f | Inr (Inl (f, _)) \<Rightarrow> f | Inr (Inr (f, _)) \<Rightarrow> f,
      \<lambda>x. case x of Inl _ \<Rightarrow> 0 | Inr (Inl (_, k, _)) \<Rightarrow> k | Inr (Inr (_, k, _)) \<Rightarrow> k]") auto

definition marshall_dict_decode :: "string \<Rightarrow> nat \<Rightarrow> string option \<Rightarrow> nat \<Rightarrow> (marshall option \<times> bool) option" where
  "marshall_dict_decode data data_len name name_len = decode (data_len + 1) data data_len name name_len"

section \<open>Writing JSON\<close>

text \<open>A text that must fit into a buffer of \<open>n\<close> characters and a terminator.\<close>

definition fit :: "nat \<Rightarrow> string \<Rightarrow> string option" where
  "fit n s = (if length s \<le> n then Some s else None)"

definition quoted :: "string \<Rightarrow> string" where
  "quoted s = CHR 0x22 # s @ [CHR 0x22]"

definition named :: "marshall \<Rightarrow> string" where
  "named m = (case m_name m of None \<Rightarrow> [] | Some n \<Rightarrow> quoted n @ '':'')"

definition named_word :: "marshall \<Rightarrow> nat \<Rightarrow> string \<Rightarrow> string option" where
  "named_word m extra s = (if m_name m = None then Some s else fit (m_name_len m + extra) (named m @ s))"

fun commas :: "string list \<Rightarrow> string" where
  "commas [] = []"
| "commas [x] = x"
| "commas (x # xs) = x @ '','' @ commas xs"

function marshall_serialize :: "marshall \<Rightarrow> string option"
  and serialize_loop :: "nat \<Rightarrow> marshall option list \<Rightarrow> string list option" where
  "marshall_serialize obj =
     (case m_mtype obj of
        MTYPE_NULL \<Rightarrow> named_word obj 8 ''null''
      | MTYPE_TRUE \<Rightarrow> named_word obj 8 ''true''
      | MTYPE_FALSE \<Rightarrow> named_word obj 10 ''false''
      | MTYPE_FLOAT \<Rightarrow> do { d \<leftarrow> m_data obj; named_word obj (m_data_len obj + 4) d }
      | MTYPE_INT \<Rightarrow> do { d \<leftarrow> m_data obj; named_word obj (m_data_len obj + 4) d }
      | MTYPE_QUID \<Rightarrow> do {
          d \<leftarrow> m_data obj;
          if m_name obj \<noteq> None then named_word obj (m_data_len obj + 6) (quoted d)
          else (let (escdata, nlen) = stresc d in fit (m_data_len obj + nlen + 4) (quoted (butlast escdata))) }
      | MTYPE_STRING \<Rightarrow> do {
          d \<leftarrow> m_data obj;
          if m_name obj \<noteq> None then named_word obj (m_data_len obj + 6) (quoted d)
          else (let (escdata, nlen) = stresc d in fit (m_data_len obj + nlen + 4) (quoted (butlast escdata))) }
      | _ \<Rightarrow>
          (let (l, r) = (if m_mtype obj = MTYPE_ARRAY then (''['', '']'') else (''{'', ''}''))
           in if m_size obj = 0 then named_word obj 8 ''null''
              else do {
                es \<leftarrow> serialize_loop (m_size obj) (m_child obj);
                fit ((\<Sum>e\<leftarrow>es. length e + 2) + (if m_name obj = None then 0 else m_name_len obj) + m_size obj + 2)
                  (named obj @ l @ commas es @ r) }))"
| "serialize_loop 0 cs = Some []"
| "serialize_loop (Suc n) (Some c # cs) = do { e \<leftarrow> marshall_serialize c; es \<leftarrow> serialize_loop n cs; Some (e # es) }"
| "serialize_loop (Suc n) (None # cs) = do { es \<leftarrow> serialize_loop n cs; Some (''null'' # es) }"
| "serialize_loop (Suc n) [] = None"
  by pat_completeness auto
termination
  by (relation "measure (\<lambda>x. case x of Inl m \<Rightarrow> size m | Inr (_, cs) \<Rightarrow> size_list (size_option size) cs)")
    (auto simp: size_marshall)

declare marshall_serialize.simps [simp del]

section \<open>Comma-separated values\<close>

record csv =
  csv_delimiter :: char
  csv_header :: bool

abbreviation (input) CSV_DEFAULT_DELIMITER :: char where "CSV_DEFAULT_DELIMITER \<equiv> CHR '';''"

text \<open>The fields of a line, cut at the delimiter, and the rest behind the last one.\<close>

fun csv_cut :: "char \<Rightarrow> string \<Rightarrow> string \<Rightarrow> string list \<times> string" where
  "csv_cut delimiter oline [] = ([], oline)"
| "csv_cut delimiter oline (c # line) =
     (if c = delimiter then (let (fs, r) = csv_cut delimiter [] line in (oline # fs, r))
      else csv_cut delimiter (oline @ [c]) line)"

definition csv_getfield :: "csv \<Rightarrow> string \<Rightarrow> string vector \<Rightarrow> string vector option" where
  "csv_getfield opt line v = do {
     let (fs, oline) = csv_cut (csv_delimiter opt) [] line;
     v \<leftarrow> append_all v fs;
     if vc_size v > 0 then vector_append v oline else Some v }"

fun csv_getfieldcount :: "csv \<Rightarrow> string \<Rightarrow> nat" where
  "csv_getfieldcount opt [] = 0"
| "csv_getfieldcount opt (c # line) = (if c = csv_delimiter opt then 1 else 0) + csv_getfieldcount opt line"

definition csv_valid :: "csv \<Rightarrow> string \<Rightarrow> bool" where
  "csv_valid opt str =
     (let cnt = strccnt str (CHR 0x0A)
      in if cnt = 0 then False else if csv_getfieldcount opt str = 0 then False else True)"

text \<open>The option's name and data must be set.\<close>

fun csv_options_loop :: "nat \<Rightarrow> marshall option list \<Rightarrow> csv \<Rightarrow> csv option" where
  "csv_options_loop 0 cs opt = Some opt"
| "csv_options_loop (Suc n) (Some c # cs) opt = do {
     name \<leftarrow> m_name c;
     opt \<leftarrow> (if name = ''delimiter'' then do { d \<leftarrow> m_data c; Some (opt\<lparr>csv_delimiter := char_at d 0\<rparr>) } else Some opt);
     let opt = (if name = ''header'' \<and> m_mtype c = MTYPE_TRUE then opt\<lparr>csv_header := True\<rparr> else opt);
     csv_options_loop n cs opt }"
| "csv_options_loop (Suc n) _ opt = None"

definition marshall_csv_parse_options :: "csv \<Rightarrow> marshall \<Rightarrow> csv option" where
  "marshall_csv_parse_options csvopt options =
     (if m_mtype options = MTYPE_OBJECT then csv_options_loop (m_size options) (m_child options) csvopt else Some csvopt)"

text \<open>\<open>strtok\<close> of the C library, called until it returns the null pointer: the non-empty runs between separators.\<close>

fun strtok_all :: "string \<Rightarrow> string \<Rightarrow> string \<Rightarrow> string list" where
  "strtok_all delim tok [] = (if tok = [] then [] else [tok])"
| "strtok_all delim tok (c # s) =
     (if c \<in> set delim then (if tok = [] then strtok_all delim [] s else tok # strtok_all delim [] s)
      else strtok_all delim (tok @ [c]) s)"

text \<open>\<open>marshall_convert\<close> and \<open>marshall_convert_parent\<close> differ only in the owner of the memory.\<close>

definition marshall_convert :: "string \<Rightarrow> nat \<Rightarrow> (marshall option \<times> bool) option" where
  "marshall_convert data data_len = do {
     type \<leftarrow> autoscalar data data_len;
     if marshall_type_hasdata type then do {
       d \<leftarrow> tree_zstrndup data data_len;
       Some (Some (Marshall None 0 (Some d) data_len [] 1 type), False) }
     else if marshall_type_hasdescent type then marshall_dict_decode data data_len None 0
     else Some (Some (Marshall None 0 None 0 [] 1 type), False) }"

text \<open>A row: its fields converted, named after the header's fields if there is one.\<close>

fun csv_row :: "string vector option \<Rightarrow> string list \<Rightarrow> nat \<Rightarrow> marshall \<Rightarrow> bool \<Rightarrow> (marshall \<times> bool) option" where
  "csv_row header [] i row err = Some (row, err)"
| "csv_row header (field # fs) i row err = do {
     (c, e) \<leftarrow> marshall_convert field (length field);
     c \<leftarrow> (case header of
         None \<Rightarrow> Some c
       | Some h \<Rightarrow> do {
           s \<leftarrow> vector_at h (of_nat i);
           name \<leftarrow> (case s of Ptr name \<Rightarrow> Some name | _ \<Rightarrow> None);
           c \<leftarrow> c;
           Some (Some (set_name (Some name) (length name) c)) });
     row \<leftarrow> push_child row c;
     csv_row header fs (i + 1) row (err \<or> e) }"

fun csv_rows :: "csv \<Rightarrow> u64 \<Rightarrow> string vector option \<Rightarrow> string list \<Rightarrow> marshall \<Rightarrow> bool \<Rightarrow> (marshall \<times> bool) option" where
  "csv_rows opt nfields header [] m err = Some (m, err)"
| "csv_rows opt nfields header (line # lines) m err = do {
     v \<leftarrow> csv_getfield opt line (alloc_vector nfields);
     fs \<leftarrow> those (map (\<lambda>s. case s of Ptr f \<Rightarrow> Some f | _ \<Rightarrow> None) (vector_list v));
     (row, e) \<leftarrow> csv_row header fs 0
       (Marshall None 0 None 0 (calloc_children (length fs)) 0 (if csv_header opt then MTYPE_OBJECT else MTYPE_ARRAY)) False;
     m \<leftarrow> push_child m (Some row);
     csv_rows opt nfields header lines m (err \<or> e) }"

definition marshall_csv_decode :: "csv \<Rightarrow> string \<Rightarrow> (marshall \<times> bool) option" where
  "marshall_csv_decode csvopt data = do {
     let cnt = strccnt data (CHR 0x0A);
     let m = Marshall None 0 None 0 (calloc_children cnt) 0 MTYPE_ARRAY;
     let lines = strtok_all [CHR 0x0D, CHR 0x0A] [] data;
     zassert (lines \<noteq> []);
     let nfields = of_nat (csv_getfieldcount csvopt (hd lines));
     if csv_header csvopt then do {
       h \<leftarrow> csv_getfield csvopt (hd lines) (alloc_vector (nfields - 1));
       csv_rows csvopt (nfields - 1) (Some h) (tl lines) m False }
     else csv_rows csvopt nfields None lines m False }"

definition marshall_convert_suggest :: "string \<Rightarrow> string \<Rightarrow> marshall option \<Rightarrow> (marshall option \<times> bool) option" where
  "marshall_convert_suggest data hint hint_option =
     (let csvopt = \<lparr>csv_delimiter = CSV_DEFAULT_DELIMITER, csv_header = False\<rparr>
      in if hint = ''csv'' then do {
           csvopt \<leftarrow> (case hint_option of None \<Rightarrow> Some csvopt | Some m \<Rightarrow> marshall_csv_parse_options csvopt m);
           if csv_valid csvopt data then do {
             (m, err) \<leftarrow> marshall_csv_decode csvopt data;
             Some (Some m, err) }
           else Some (None, False) }
         else Some (None, False))"

section \<open>Well-formed trees\<close>

definition ok_string :: "string option \<Rightarrow> nat \<Rightarrow> bool" where
  "ok_string s n \<longleftrightarrow> (case s of None \<Rightarrow> n = 0 | Some s \<Rightarrow> n = length s)"

text \<open>Recorded lengths are those of the strings, data is there where the type has some, and children are where the size says.\<close>

inductive wf_marshall :: "marshall \<Rightarrow> bool" where
  leaf: "ok_string n nl \<Longrightarrow> ok_string d dl \<Longrightarrow> t \<noteq> MTYPE_ARRAY \<Longrightarrow> t \<noteq> MTYPE_OBJECT
    \<Longrightarrow> (marshall_type_hasdata t \<Longrightarrow> d \<noteq> None) \<Longrightarrow> wf_marshall (Marshall n nl d dl c s t)"
| node: "ok_string n nl \<Longrightarrow> ok_string d dl \<Longrightarrow> t = MTYPE_ARRAY \<or> t = MTYPE_OBJECT
    \<Longrightarrow> take s c = map Some ys \<Longrightarrow> length ys = s \<Longrightarrow> (\<And>y. y \<in> set ys \<Longrightarrow> wf_marshall y)
    \<Longrightarrow> wf_marshall (Marshall n nl d dl c s t)"

lemma take_children:
  assumes "take s c = map Some ys" "length ys = s"
  obtains r where "c = map Some ys @ r"
  using assms by (metis append_take_drop_id)

lemma copy_loop_all: "list_all2 (\<lambda>y z. marshall_copy y = Some z) ys zs \<Longrightarrow>
    copy_loop (length ys) (map Some ys @ r) = Some (map Some zs)"
  by (induction rule: list_all2_induct) auto

lemma serialize_loop_all: "list_all2 (\<lambda>y e. marshall_serialize y = Some e) ys es \<Longrightarrow>
    serialize_loop (length ys) (map Some ys @ r) = Some es"
  by (induction rule: list_all2_induct) auto

lemma equal_loop_all: "list_all2 (\<lambda>y z. marshall_equal y z = Some True) ys zs \<Longrightarrow>
    equal_loop (length ys) (map Some ys @ r) (map Some zs @ r') = Some True"
  by (induction rule: list_all2_induct) auto

lemma copy_string_ok: "ok_string s n \<Longrightarrow> copy_string s n = Some (s, n)"
  by (auto simp: ok_string_def copy_string_def tree_zstrndup_def split: option.splits)

lemma length_escaped: "length (concat (map escape d)) = length d + length (filter needs_escape d)"
  by (induction d) (simp_all add: length_escape del: escape.simps)

lemma length_commas: "es \<noteq> [] \<Longrightarrow> length (commas es) + 1 = (\<Sum>e\<leftarrow>es. length e) + length es"
  by (induction es rule: commas.induct) auto

lemma serialize_leaf:
  assumes "ok_string n nl" "ok_string d dl" "t \<noteq> MTYPE_ARRAY" "t \<noteq> MTYPE_OBJECT" "marshall_type_hasdata t \<Longrightarrow> d \<noteq> None"
  shows "\<exists>e. \<forall>c s. marshall_serialize (Marshall n nl d dl c s t) = Some e"
proof (cases "n = None")
  case True
  then show ?thesis using assms
    by (cases t) (auto simp: marshall_serialize.simps named_word_def fit_def quoted_def stresc_def ok_string_def length_escaped
      marshall_type_hasdata_def type_info_def simp del: escape.simps)
next
  case False
  then show ?thesis using assms
    by (cases t) (auto simp: marshall_serialize.simps named_word_def fit_def quoted_def named_def ok_string_def
      marshall_type_hasdata_def type_info_def)
qed

lemma serialize_node:
  assumes "ok_string n nl" "t = MTYPE_ARRAY \<or> t = MTYPE_OBJECT" "length es = s"
  shows "\<exists>e. \<forall>d dl c. serialize_loop s c = Some es \<longrightarrow> marshall_serialize (Marshall n nl d dl c s t) = Some e"
proof (cases "s = 0")
  case True
  then show ?thesis using assms(1,2)
    by (cases n) (auto simp: marshall_serialize.simps named_word_def fit_def quoted_def named_def ok_string_def)
next
  case False
  define e where "e = (case n of None \<Rightarrow> [] | Some n \<Rightarrow> quoted n @ '':'') @ (if t = MTYPE_ARRAY then ''['' else ''{'') @ commas es
    @ (if t = MTYPE_ARRAY then '']'' else ''}'')"
  have c: "length (commas es) + 1 = (\<Sum>e\<leftarrow>es. length e) + s" using length_commas[of es] False assms(3) by auto
  have "(\<Sum>e\<leftarrow>es. length e + 2) = (\<Sum>e\<leftarrow>es. length e) + 2 * s" unfolding assms(3)[symmetric] by (induction es) auto
  then have "length e \<le> (\<Sum>e\<leftarrow>es. length e + 2) + (if n = None then 0 else nl) + s + 2"
    using c False assms(1) by (auto simp: e_def quoted_def ok_string_def split: option.splits)
  then have "\<forall>d dl c. serialize_loop s c = Some es \<longrightarrow> marshall_serialize (Marshall n nl d dl c s t) = Some e"
    using False assms(2) by (auto simp: marshall_serialize.simps fit_def named_def e_def)
  then show ?thesis by blast
qed

lemma equal_leaf: "t \<noteq> MTYPE_ARRAY \<Longrightarrow> t \<noteq> MTYPE_OBJECT \<Longrightarrow>
    marshall_equal (Marshall n nl d dl c s t) (Marshall n nl d dl c' s t) = Some True"
  by (auto simp: same_scalar_def same_string_def split: option.splits)

lemma copy_correct:
  "wf_marshall m \<Longrightarrow> \<exists>c e. marshall_copy m = Some c \<and> wf_marshall c \<and> marshall_equal m c = Some True
    \<and> marshall_serialize c = Some e \<and> marshall_serialize m = Some e"
proof (induction rule: wf_marshall.induct)
  case (leaf n nl d dl t c s)
  define c' where "c' = (if s > 0 then calloc_children s else [])"
  have "marshall_copy (Marshall n nl d dl c s t) = Some (Marshall n nl d dl c' s t)"
    using leaf(1-4) by (simp add: marshall_copy.simps copy_string_ok c'_def)
  moreover have "wf_marshall (Marshall n nl d dl c' s t)" using leaf by (intro wf_marshall.leaf)
  ultimately show ?case using serialize_leaf[OF leaf(1-5)] equal_leaf[OF leaf(3,4)] by blast
next
  case (node n nl d dl t s c ys)
  obtain r where c: "c = map Some ys @ r" using take_children[OF node(4,5)] .
  define P where "P y z = (marshall_copy y = Some z \<and> wf_marshall z \<and> marshall_equal y z = Some True
      \<and> (\<exists>e. marshall_serialize z = Some e \<and> marshall_serialize y = Some e))" for y z
  have "\<forall>y \<in> set ys. \<exists>z. P y z" using node.IH unfolding P_def by blast
  then obtain f where f: "\<And>y. y \<in> set ys \<Longrightarrow> P y (f y)" by metis
  define zs where "zs = map f ys"
  have P: "list_all2 P ys zs" using f by (auto simp: zs_def list_all2_conv_all_nth)
  define es where "es = map (\<lambda>y. the (marshall_serialize y)) ys"
  define array where "array = drop s (if s > 0 then calloc_children s else [])"
  define m' where "m' = Marshall n nl d dl (map Some zs @ array) s t"
  have "list_all2 (\<lambda>y z. marshall_copy y = Some z) ys zs" using P by (rule list_all2_mono) (simp add: P_def)
  then have "marshall_copy (Marshall n nl d dl c s t) = Some m'"
    using node(1-3,5) copy_loop_all[of ys zs r] c
    by (auto simp: marshall_copy.simps copy_string_ok m'_def array_def zs_def)
  moreover have "wf_marshall m'" unfolding m'_def
    by (rule wf_marshall.node[OF node(1-3), where ys = zs]) (use node(5) f in \<open>auto simp: zs_def P_def simp del: marshall_equal.simps\<close>)
  moreover have "marshall_equal (Marshall n nl d dl c s t) m' = Some True"
  proof -
    have "list_all2 (\<lambda>y z. marshall_equal y z = Some True) ys zs" using P by (rule list_all2_mono) (simp add: P_def)
    then show ?thesis using equal_loop_all[of ys zs r array] node(3,5) c by (auto simp: m'_def)
  qed
  moreover have "\<exists>e. marshall_serialize m' = Some e \<and> marshall_serialize (Marshall n nl d dl c s t) = Some e"
  proof -
    have y: "list_all2 (\<lambda>y e. marshall_serialize y = Some e) ys es"
      using f by (auto simp: es_def list_all2_conv_all_nth P_def) (metis nth_mem option.sel)
    have z: "list_all2 (\<lambda>z e. marshall_serialize z = Some e) zs es"
      using f by (auto simp: es_def zs_def list_all2_conv_all_nth P_def) (metis nth_mem option.sel)
    have "serialize_loop s c = Some es" "serialize_loop s (map Some zs @ array) = Some es"
      using serialize_loop_all[OF y, of r] serialize_loop_all[OF z, of array] c node(5) by (auto simp: zs_def)
    moreover have "length es = s" using node(5) by (simp add: es_def)
    ultimately show ?thesis using serialize_node[OF node(1,3), of es s] unfolding m'_def by blast
  qed
  ultimately show ?case by blast
qed

text \<open>
  C2: On a well-formed tree \<open>marshall_copy\<close> returns and yields a well-formed tree that \<open>marshall_equal\<close> takes
  for the original and that has the same JSON text; and \<open>marshall_serialize\<close> never writes behind the buffers whose
  sizes it computes in advance.
\<close>

theorem marshall_copy_correct:
  assumes "wf_marshall m"
  shows "\<exists>c e. marshall_copy m = Some c \<and> wf_marshall c \<and> marshall_equal m c = Some True
    \<and> marshall_serialize c = Some e \<and> marshall_serialize m = Some e"
  using copy_correct[OF assms] .

definition demo_array :: marshall where
  "demo_array = Marshall None 0 None 0 [Some (Marshall None 0 (Some ''7'') 1 [] 1 MTYPE_INT),
     Some (Marshall None 0 None 0 [] 1 MTYPE_TRUE)] 2 MTYPE_ARRAY"

lemma demo_array_wf: "wf_marshall demo_array"
  unfolding demo_array_def
  by (rule wf_marshall.node[where ys = "[Marshall None 0 (Some ''7'') 1 [] 1 MTYPE_INT, Marshall None 0 None 0 [] 1 MTYPE_TRUE]"])
    (auto intro!: wf_marshall.leaf simp: ok_string_def marshall_type_hasdata_def type_info_def)

theorem marshall_copy_correct_witness:
  "(\<exists>c. marshall_copy demo_array = Some c \<and> marshall_equal demo_array c = Some True)
    \<and> marshall_serialize demo_array = Some ''[7,true]''"
proof -
  have "\<exists>c. marshall_copy demo_array = Some c \<and> marshall_equal demo_array c = Some True"
    using marshall_copy_correct[OF demo_array_wf] by blast
  then show ?thesis by (rule conjI) code_simp
qed

section \<open>Removal from an array\<close>

text \<open>What the loop leaves of a list: the element behind a removed one is not looked at.\<close>

fun drop_hits :: "('a \<Rightarrow> bool) \<Rightarrow> 'a list \<Rightarrow> 'a list" where
  "drop_hits P [] = []"
| "drop_hits P [x] = (if P x then [] else [x])"
| "drop_hits P (x # y # xs) = (if P x then y # drop_hits P xs else x # drop_hits P (y # xs))"

lemma set_child_twice [simp]: "set_child_array c (set_child_array c' m) = set_child_array c m"
  "m_child (set_child_array c m) = c" "m_size (set_child_array c m) = m_size m" "m_mtype (set_child_array c m) = m_mtype m"
  "m_child (set_size k m) = m_child m" "m_size (set_size k m) = k" "m_mtype (set_size k m) = m_mtype m"
  by (cases m; simp)+

lemma set_size_same: "m_size m = k \<Longrightarrow> set_size k m = m"
  by (cases m) simp

lemma shift_loop_eq:
  assumes "m_child m = pre @ Some a # map Some xs @ r" "m_size a = k" "\<forall>x \<in> set xs. m_size x = k"
  shows "\<exists>b. shift_loop (length xs) (length pre) m = Some (set_child_array (pre @ map Some xs @ Some b # r) m)"
  using assms
proof (induction xs arbitrary: pre a m)
  case Nil then show ?case by (cases m) auto
next
  case (Cons x xs)
  let ?m = "set_child_array (pre @ Some x # Some x # map Some xs @ r) m"
  have 1: "child_at m (length pre) = Some a" "child_at m (length pre + 1) = Some x"
    using Cons.prems(1) by (simp_all add: child_at_def nth_append)
  have 2: "put_child m (length pre) (Some (set_size (m_size a) x)) = Some ?m"
    using Cons.prems set_size_same[of x k] by (simp add: put_child_def list_update_append)
  have "\<exists>b. shift_loop (length xs) (length (pre @ [Some x])) ?m
      = Some (set_child_array ((pre @ [Some x]) @ map Some xs @ Some b # r) ?m)"
    by (rule Cons.IH[of _ _ x]) (use Cons.prems in auto)
  then show ?case using 1 2 by simp
qed

lemma remove_at_eq:
  assumes "m_child m = map Some (us @ x # xs) @ r" "m_size m = length us + Suc (length xs)" "\<forall>y \<in> set (x # xs). m_size y = k"
  shows "\<exists>b. remove_at False m (length us) = Some (set_size (length us + length xs) (set_child_array (map Some (us @ xs) @ Some b # r) m))"
proof -
  let ?b = "blank False x"
  let ?m = "set_child_array (map Some us @ Some ?b # map Some xs @ r) m"
  have 1: "child_at m (length us) = Some x" using assms(1) by (simp add: child_at_def nth_append)
  have 2: "put_child m (length us) (Some ?b) = Some ?m" using assms(1) by (simp add: put_child_def list_update_append)
  have k: "m_size ?b = k" using assms(3) by (cases x) (simp add: blank_def)
  have "\<exists>b. shift_loop (length xs) (length (map Some us)) ?m = Some (set_child_array (map Some us @ map Some xs @ Some b # r) ?m)"
    by (rule shift_loop_eq) (use k assms(3) in auto)
  then obtain b where "shift_left ?m (length us) = Some (set_child_array (map Some us @ map Some xs @ Some b # r) m)"
    using assms(2) by (auto simp: shift_left_def)
  then show ?thesis using 1 2 assms(2) by (intro exI[of _ b]) (simp add: remove_at_def)
qed

lemma separate_loop_eq:
  assumes "m_child m = map Some (us @ vs) @ r" "m_size m = length us + length vs" "\<forall>y \<in> set vs. m_size y = k"
    and f: "m_mtype f \<noteq> MTYPE_ARRAY" "\<forall>y \<in> set vs. marshall_equal y f = Some (P y)" and "length vs < fuel"
  shows "\<exists>m' r' ch'. separate_loop fuel False f m (length us) ch = Some (m', ch')
    \<and> m_child m' = map Some (us @ drop_hits P vs) @ r' \<and> m_size m' = length us + length (drop_hits P vs)
    \<and> m_mtype m' = m_mtype m \<and> (ch' \<longleftrightarrow> ch \<or> drop_hits P vs \<noteq> vs)"
  using assms(1-3,5-6)
proof (induction P vs arbitrary: us m r ch fuel rule: drop_hits.induct)
  case (1 P)
  then show ?case by (cases fuel) auto
next
  case (2 P x)
  obtain fuel' where fu: "fuel = Suc (Suc fuel')" using "2.prems"(5) by (metis One_nat_def length_Cons list.size(3) less_imp_Suc_add plus_1_eq_Suc add_Suc)
  have c: "child_at m (length us) = Some x" using "2.prems"(1) by (simp add: child_at_def nth_append)
  show ?case
  proof (cases "P x")
    case True
    obtain b where "remove_at False m (length us) = Some (set_size (length us + 0) (set_child_array (map Some us @ Some b # r) m))"
      using remove_at_eq[of m us x "[]" r k] "2.prems" by auto
    then show ?thesis using True c "2.prems" f(1) fu by (auto simp del: marshall_equal.simps)
  next
    case False
    then show ?thesis using c "2.prems" f(1) fu by (auto simp del: marshall_equal.simps)
  qed
next
  case (3 P x y xs)
  obtain fuel' where fu: "fuel = Suc fuel'" using "3.prems"(5) by (cases fuel) auto
  have c: "child_at m (length us) = Some x" using "3.prems"(1) by (simp add: child_at_def nth_append)
  show ?case
  proof (cases "P x")
    case True
    obtain b where b: "remove_at False m (length us) =
        Some (set_size (length us + length (y # xs)) (set_child_array (map Some (us @ y # xs) @ Some b # r) m))"
      using remove_at_eq[of m us x "y # xs" r k] "3.prems" by auto
    define m1 where "m1 = set_size (length us + length (y # xs)) (set_child_array (map Some (us @ y # xs) @ Some b # r) m)"
    have "separate_loop fuel False f m (length us) ch = separate_loop fuel' False f m1 (length (us @ [y])) True"
      using True c "3.prems"(2,4) f(1) fu b by (simp add: m1_def del: marshall_equal.simps)
    moreover have "\<exists>m' r' ch'. separate_loop fuel' False f m1 (length (us @ [y])) True = Some (m', ch')
      \<and> m_child m' = map Some ((us @ [y]) @ drop_hits P xs) @ r' \<and> m_size m' = length (us @ [y]) + length (drop_hits P xs)
      \<and> m_mtype m' = m_mtype m1 \<and> (ch' \<longleftrightarrow> True \<or> drop_hits P xs \<noteq> xs)"
      by (rule "3.IH"(1)[OF True, of m1 "us @ [y]" "Some b # r" fuel' True])
        (use "3.prems" fu in \<open>auto simp: m1_def simp del: marshall_equal.simps\<close>)
    moreover have "length (drop_hits P xs) \<le> length xs" for xs by (induction P xs rule: drop_hits.induct) auto
    then have "y # drop_hits P xs \<noteq> x # y # xs" by (metis Suc_n_not_le_n length_Cons nat_le_linear Suc_le_mono)
    ultimately show ?thesis using True by (auto simp: m1_def)
  next
    case False
    have "separate_loop fuel False f m (length us) ch = separate_loop fuel' False f m (length (us @ [x])) ch"
      using False c "3.prems"(2,4) f(1) fu by (simp del: marshall_equal.simps)
    moreover have "\<exists>m' r' ch'. separate_loop fuel' False f m (length (us @ [x])) ch = Some (m', ch')
      \<and> m_child m' = map Some ((us @ [x]) @ drop_hits P (y # xs)) @ r' \<and> m_size m' = length (us @ [x]) + length (drop_hits P (y # xs))
      \<and> m_mtype m' = m_mtype m \<and> (ch' \<longleftrightarrow> ch \<or> drop_hits P (y # xs) \<noteq> y # xs)"
      by (rule "3.IH"(2)[OF False, of m "us @ [x]" r fuel' ch])
        (use "3.prems" fu in \<open>auto simp del: marshall_equal.simps\<close>)
    ultimately show ?thesis using False by auto
  qed
qed

lemma read_children_iff: "read_children n cs = Some ys \<longleftrightarrow> length ys = n \<and> (\<exists>r. cs = map Some ys @ r)"
proof (induction n arbitrary: cs ys)
  case (Suc n)
  show ?case
  proof (cases "\<exists>c r. cs = Some c # r")
    case True
    then show ?thesis using Suc by (cases ys) (auto simp: bind_Some_iff)
  next
    case False
    then have "read_children (Suc n) cs = None" by (cases cs; cases "hd cs") auto
    then show ?thesis using False by (cases ys) auto
  qed
qed auto

text \<open>
  C3: From an array of scalars \<open>marshall_separate\<close> removes the elements equal to a scalar, but the element that
  takes the place of a removed one is never looked at: \<open>drop_hits\<close> says exactly which elements stay, and of two equal
  neighbours the second one does.
\<close>

theorem marshall_separate_skips:
  assumes "m_mtype m = MTYPE_ARRAY" "children m = Some ys" "\<forall>y \<in> set ys. m_size y = 1 \<and> \<not> marshall_type_hasdescent (m_mtype y)"
    and "\<not> marshall_type_hasdescent (m_mtype f)" "m_size f = 1"
  shows "\<exists>m' changed. marshall_separate f m False = Some (m', changed)
    \<and> children m' = Some (drop_hits (\<lambda>y. same_scalar y f) ys) \<and> (changed \<longleftrightarrow> drop_hits (\<lambda>y. same_scalar y f) ys \<noteq> ys)"
proof -
  obtain r where r: "m_child m = map Some ys @ r" "m_size m = length ys"
    using assms(2) by (auto simp: children_def read_children_iff)
  have d: "\<not> marshall_type_hasdescent t \<Longrightarrow> t \<noteq> MTYPE_ARRAY \<and> t \<noteq> MTYPE_OBJECT" for t
    by (auto simp: marshall_type_hasdescent_def type_info_def)
  have e: "\<forall>y \<in> set ys. marshall_equal y f = Some (same_scalar y f)" using assms(3-5) d by auto
  have "\<exists>m' r' ch'. separate_loop (m_size m + 1) False f m (length ([] :: marshall list)) False = Some (m', ch')
    \<and> m_child m' = map Some ([] @ drop_hits (\<lambda>y. same_scalar y f) ys) @ r'
    \<and> m_size m' = length ([] :: marshall list) + length (drop_hits (\<lambda>y. same_scalar y f) ys)
    \<and> m_mtype m' = m_mtype m \<and> (ch' \<longleftrightarrow> False \<or> drop_hits (\<lambda>y. same_scalar y f) ys \<noteq> ys)"
    by (rule separate_loop_eq[where k = 1]) (use r assms(3) e d[OF assms(4)] in \<open>auto simp del: marshall_equal.simps\<close>)
  then show ?thesis using assms(1) by (auto simp: marshall_separate_def children_def read_children_iff)
qed

definition demo_twos :: marshall where
  "demo_twos = Marshall None 0 None 0 (map Some (replicate 2 (Marshall None 0 (Some ''2'') 1 [] 1 MTYPE_INT))) 2 MTYPE_ARRAY"

theorem marshall_separate_skips_witness:
  "\<exists>m'. marshall_separate (Marshall None 0 (Some ''2'') 1 [] 1 MTYPE_INT) demo_twos False = Some (m', True)
    \<and> children m' = Some [Marshall None 0 (Some ''2'') 1 [] 1 MTYPE_INT]"
  using marshall_separate_skips[of demo_twos "replicate 2 (Marshall None 0 (Some ''2'') 1 [] 1 MTYPE_INT)" "Marshall None 0 (Some ''2'') 1 [] 1 MTYPE_INT"]
  by (auto simp: demo_twos_def children_def numeral_2_eq_2 marshall_type_hasdescent_def type_info_def same_scalar_def same_string_def)

end
