(* ===== verification/Alias.thy ===== *)
theory Alias imports
  Store Jenhash CString Marshall Interfaces
begin

text \<open>
  Names of records: src/alias.c.  An alias gives a record a name of at most 48 bytes; the aliases are kept in a chain of
  lists of 128 entries of which the head is being filled.  An entry of length 0 is one that was deleted.  The
  chain stands for a map from records to names: looking up, renaming and deleting are operations of that map.
\<close>

section \<open>Operations\<close>

fun unwrap_alias :: "cell \<Rightarrow> alias_list option" where
  "unwrap_alias (CAlias l) = Some l"
| "unwrap_alias _ = None"

definition get_alias_list :: "base \<Rightarrow> u64 \<Rightarrow> alias_list option" where
  "get_alias_list b off = do {
     c \<leftarrow> load_cell off b;
     c \<leftarrow> c;
     unwrap_alias c }"

definition flush_alias_list :: "base \<Rightarrow> alias_list \<Rightarrow> u64 \<Rightarrow> base option" where
  "flush_alias_list b l off = store_cell off (CAlias l) b"

definition a_used :: "alias_list \<Rightarrow> alias_item list" where
  "a_used l = take (unat (a_size l)) (a_items l)"

definition zero_alias_item :: alias_item where
  "zero_alias_item = \<lparr>a_quid = zero_quid, a_len = 0, a_hash = 0, a_name = replicate ALIAS_NAME_LENGTH NUL\<rparr>"

definition zero_alias_list :: alias_list where
  "zero_alias_list = \<lparr>a_items = replicate ALIAS_LIST_SIZE zero_alias_item, a_size = 0, a_link = 0\<rparr>"

text \<open>The first \<open>len\<close> bytes at a C string: its terminator may be among them, what lies behind may not.\<close>

definition mem_bytes :: "string \<Rightarrow> nat \<Rightarrow> string option" where
  "mem_bytes s len = (if len \<le> length s + 1 then Some (take len (s @ [NUL])) else None)"

definition hash_bytes :: "string \<Rightarrow> u32" where
  "hash_bytes s = jen_hash (map of_char s) (of_nat (length s))"

text \<open>\<open>memcpy(&item.name, name, len)\<close> and the stores of \<open>len\<close> and \<open>hash\<close>; the array has 48 bytes.\<close>

definition set_alias_name :: "string \<Rightarrow> u32 \<Rightarrow> alias_item \<Rightarrow> alias_item option" where
  "set_alias_name name hash it = do {
     zassert (length name \<le> ALIAS_NAME_LENGTH);
     Some (it\<lparr>a_name := name @ drop (length name) (a_name it), a_len := of_nat (length name), a_hash := hash\<rparr>) }"

definition alias_add :: "base \<Rightarrow> quid \<Rightarrow> string \<Rightarrow> nat \<Rightarrow> (int \<times> base) option" where
  "alias_add b c_quid c_name len = do {
     let len = (if len > ALIAS_NAME_LENGTH then ALIAS_NAME_LENGTH else len);
     name \<leftarrow> mem_bytes c_name len;
     let hash = hash_bytes name;
     b \<leftarrow> (if off_alias b \<noteq> 0 then do {
          l \<leftarrow> get_alias_list b (off_alias b);
          zassert (unat (a_size l) \<le> ALIAS_LIST_SIZE);
          zassert (unat (a_size l) < ALIAS_LIST_SIZE);
          it \<leftarrow> set_alias_name name hash (a_items l ! unat (a_size l));
          let l = l\<lparr>a_items := (a_items l)[unat (a_size l) := it\<lparr>a_quid := c_quid\<rparr>], a_size := a_size l + 1\<rparr>;
          let b = b\<lparr>st_alias_size := st_alias_size b + 1\<rparr>;
          if unat (a_size l) \<ge> ALIAS_LIST_SIZE then do {
            b \<leftarrow> flush_alias_list b l (off_alias b);
            let new_list = zero_alias_list\<lparr>a_link := off_alias b\<rparr>;
            (new_list_offset, b) \<leftarrow> pager_alloc b sizeof_alias_list;
            b \<leftarrow> flush_alias_list b new_list new_list_offset;
            Some (b\<lparr>off_alias := new_list_offset\<rparr>) }
          else flush_alias_list b l (off_alias b) }
        else do {
          it \<leftarrow> set_alias_name name hash zero_alias_item;
          let new_list = zero_alias_list\<lparr>a_items := (a_items zero_alias_list)[0 := it\<lparr>a_quid := c_quid\<rparr>], a_size := 1\<rparr>;
          (new_list_offset, b) \<leftarrow> pager_alloc b sizeof_alias_list;
          b \<leftarrow> flush_alias_list b new_list new_list_offset;
          Some (b\<lparr>off_alias := new_list_offset, st_alias_size := 1\<rparr>) });
     Some (0, if st_alias_size b mod 4 = 0 then base_sync b else b) }"

text \<open>The bound: the second assertion of \<open>alias_add\<close> is the write behind the array that the first one lets through.\<close>

abbreviation (input) no_alias :: "base \<Rightarrow> base" where
  "no_alias \<equiv> error_throw ''2836444cd009'' ''Alias not found''"

text \<open>
  The loop that the four functions below share: walk the chain, skip the deleted entries, stop at the first entry
  that passes the test.  The result is where it is, \<open>None\<close> that there is none.
\<close>

partial_function (option) alias_scan :: "base \<Rightarrow> (alias_item \<Rightarrow> bool) \<Rightarrow> u64 \<Rightarrow> (u64 \<times> alias_list \<times> nat) option option" where
  "alias_scan b P off =
     (if off = 0 then Some None
      else do {
        l \<leftarrow> get_alias_list b off;
        zassert (unat (a_size l) \<le> ALIAS_LIST_SIZE);
        (case find_index (\<lambda>it. a_len it \<noteq> 0 \<and> P it) (a_used l) of
           Some i \<Rightarrow> Some (Some (off, l, i))
         | None \<Rightarrow> alias_scan b P (a_link l)) })"

text \<open>A copy of \<open>len\<close> bytes of the array, ended by a terminator.\<close>

definition alias_name :: "alias_item \<Rightarrow> string option" where
  "alias_name it = do {
     zassert (unat (a_len it) \<le> length (a_name it));
     Some (buffer_string (take (unat (a_len it)) (a_name it))) }"

definition alias_get_val :: "base \<Rightarrow> quid \<Rightarrow> (string option \<times> base) option" where
  "alias_get_val b c_quid = do {
     r \<leftarrow> alias_scan b (\<lambda>it. quidcmp c_quid (a_quid it) = 0) (off_alias b);
     (case r of
        Some (off, l, i) \<Rightarrow> do { name \<leftarrow> alias_name (a_items l ! i); Some (Some name, b) }
      | None \<Rightarrow> Some (None, no_alias b)) }"

definition alias_get_key :: "base \<Rightarrow> string \<Rightarrow> nat \<Rightarrow> (quid option \<times> base) option" where
  "alias_get_key b name len = do {
     name \<leftarrow> mem_bytes name len;
     r \<leftarrow> alias_scan b (\<lambda>it. a_hash it = hash_bytes name) (off_alias b);
     (case r of
        Some (off, l, i) \<Rightarrow> Some (Some (a_quid (a_items l ! i)), b)
      | None \<Rightarrow> Some (None, no_alias b)) }"

definition alias_update :: "base \<Rightarrow> quid \<Rightarrow> string \<Rightarrow> nat \<Rightarrow> (int \<times> base) option" where
  "alias_update b c_quid name len = do {
     name \<leftarrow> mem_bytes name len;
     let hash = hash_bytes name;
     r \<leftarrow> alias_scan b (\<lambda>it. quidcmp c_quid (a_quid it) = 0) (off_alias b);
     (case r of
        Some (off, l, i) \<Rightarrow> do {
          it \<leftarrow> set_alias_name name hash (a_items l ! i);
          b \<leftarrow> flush_alias_list b (l\<lparr>a_items := (a_items l)[i := it]\<rparr>) off;
          Some (0, b) }
      | None \<Rightarrow> Some (- 1, no_alias b)) }"

definition alias_delete :: "base \<Rightarrow> quid \<Rightarrow> (int \<times> base) option" where
  "alias_delete b c_quid = do {
     r \<leftarrow> alias_scan b (\<lambda>it. quidcmp c_quid (a_quid it) = 0) (off_alias b);
     (case r of
        Some (off, l, i) \<Rightarrow> do {
          let it = (a_items l ! i)\<lparr>a_quid := zero_quid, a_len := 0\<rparr>;
          b \<leftarrow> flush_alias_list b (l\<lparr>a_items := (a_items l)[i := it]\<rparr>) off;
          Some (0, b\<lparr>st_alias_size := st_alias_size b - 1\<rparr>) }
      | None \<Rightarrow> Some (- 1, no_alias b)) }"

section \<open>Listings\<close>

text \<open>
  \<open>list->items[i].name[len] = 0\<close> in memory: a name of 48 bytes has no room for the terminator, which then
  falls on the first byte of the next entry's key.  Behind the last entry of a list it falls on an unused entry or on
  the first, zero byte of the big-endian \<open>size\<close>.
\<close>

definition clear_first_byte :: "quid \<Rightarrow> quid" where
  "clear_first_byte q = Quid (time_low q AND NOT 0xff) (time_mid q) (time_hi_and_version q)
     (clock_seq_hi_and_reserved q) (clock_seq_low q)
     (node0 q) (node1 q) (node2 q) (node3 q) (node4 q) (node5 q)"

definition end_alias_name :: "alias_item \<Rightarrow> alias_item list \<Rightarrow> alias_item list option" where
  "end_alias_name it its = do {
     zassert (unat (a_len it) \<le> ALIAS_NAME_LENGTH);
     Some (case its of
       nx # rest \<Rightarrow> (if unat (a_len it) = ALIAS_NAME_LENGTH then nx\<lparr>a_quid := clear_first_byte (a_quid nx)\<rparr> else nx) # rest
     | [] \<Rightarrow> []) }"

lemma length_end_alias_name [termination_simp]: "end_alias_name it its = Some its' \<Longrightarrow> length its' = length its"
  by (auto simp: end_alias_name_def zassert_def split: if_splits list.splits)

text \<open>The string at \<open>name\<close>, its terminator at \<open>len\<close> being in place.\<close>

definition ended_name :: "alias_item \<Rightarrow> string" where
  "ended_name it = buffer_string (take (unat (a_len it)) (a_name it))"

fun alias_rows :: "alias_item list \<Rightarrow> marshall \<Rightarrow> marshall option" where
  "alias_rows [] m = Some m"
| "alias_rows (it # its) m =
     (let squid = quidtostr (a_quid it) in
      if a_len it = 0 then alias_rows its m
      else if a_name it ! 0 = CHR ''_'' then alias_rows its m
      else (case end_alias_name it its of
          None \<Rightarrow> None
        | Some its' \<Rightarrow> (case push_child m (Some (Marshall (Some squid) QUID_LENGTH
              (Some (ended_name it)) (unat (a_len it)) [] 0 MTYPE_QUID)) of
            None \<Rightarrow> None
          | Some m \<Rightarrow> alias_rows its' m)))"

partial_function (option) alias_all_loop :: "base \<Rightarrow> u64 \<Rightarrow> marshall \<Rightarrow> marshall option" where
  "alias_all_loop b off m =
     (if off = 0 then Some m
      else do {
        l \<leftarrow> get_alias_list b off;
        zassert (unat (a_size l) \<le> ALIAS_LIST_SIZE);
        m \<leftarrow> alias_rows (a_used l) m;
        alias_all_loop b (a_link l) m })"

definition alias_all :: "base \<Rightarrow> marshall option option" where
  "alias_all b =
     (if st_alias_size b = 0 then Some None
      else do {
        m \<leftarrow> alias_all_loop b (off_alias b)
          (set_mtype MTYPE_OBJECT (set_child_array (calloc_children (unat (st_alias_size b))) zero_marshall));
        Some (Some m) })"

fun rebuild_rows :: "alias_item list \<Rightarrow> base \<Rightarrow> base option" where
  "rebuild_rows [] nb = Some nb"
| "rebuild_rows (it # its) nb =
     (if a_len it = 0 then rebuild_rows its nb
      else if a_name it ! 0 = CHR ''_'' then rebuild_rows its nb
      else (case end_alias_name it its of
          None \<Rightarrow> None
        | Some its' \<Rightarrow> (case alias_add nb (a_quid it) (ended_name it) (unat (a_len it)) of
            None \<Rightarrow> None
          | Some (_, nb) \<Rightarrow> rebuild_rows its' nb)))"

text \<open>\<open>offset\<close> decides whether the loop goes on; what is read is the head of the chain each time.\<close>

partial_function (option) alias_rebuild_loop :: "base \<Rightarrow> u64 \<Rightarrow> base \<Rightarrow> (base \<times> base) option" where
  "alias_rebuild_loop b off nb =
     (if off = 0 then Some (b, nb)
      else do {
        l \<leftarrow> get_alias_list b (off_alias b);
        zassert (unat (a_size l) \<le> ALIAS_LIST_SIZE);
        nb \<leftarrow> rebuild_rows (a_used l) (share b nb);
        alias_rebuild_loop (share nb b) (a_link l) nb })"

definition alias_rebuild :: "base \<Rightarrow> base \<Rightarrow> (base \<times> base) option" where
  "alias_rebuild b nb = alias_rebuild_loop b (off_alias b) nb"

interpretation aliases: chunk_chain CAlias unwrap_alias a_link
  by unfold_locales simp

interpretation aliases: chain_reader CAlias unwrap_alias a_link get_alias_list a_used
  "\<lambda>l. unat (a_size l) \<le> ALIAS_LIST_SIZE" "\<lambda>it. a_len it \<noteq> 0" alias_scan
proof unfold_locales
  show "get_alias_list b off = do { c \<leftarrow> load_cell off b; c \<leftarrow> c; unwrap_alias c }" for b off
    by (rule get_alias_list_def)
  show "alias_scan b P off =
      (if off = 0 then Some None
       else do {
         l \<leftarrow> get_alias_list b off;
         zassert (unat (a_size l) \<le> ALIAS_LIST_SIZE);
         (case find_index (\<lambda>it. a_len it \<noteq> 0 \<and> P it) (a_used l) of
            Some i \<Rightarrow> Some (Some (off, l, i))
          | None \<Rightarrow> alias_scan b P (a_link l)) })" for b P off
    by (rule alias_scan.simps)
qed

section \<open>The map of names\<close>

abbreviation a_entries :: "(u64 \<times> alias_list) list \<Rightarrow> alias_item list" where
  "a_entries \<equiv> chain_items a_used"

fun alias_map :: "alias_item list \<Rightarrow> quid \<Rightarrow> string option" where
  "alias_map [] q = None"
| "alias_map (it # E) q = (if a_len it \<noteq> 0 \<and> a_quid it = q then Some (ended_name it) else alias_map E q)"

definition live_quids :: "alias_item list \<Rightarrow> quid list" where
  "live_quids E = map a_quid (filter (\<lambda>it. a_len it \<noteq> 0) E)"

abbreviation (input) alias_of :: "quid \<Rightarrow> alias_item \<Rightarrow> bool" where
  "alias_of q it \<equiv> a_len it \<noteq> 0 \<and> quidcmp q (a_quid it) = 0"

lemma alias_map_found: "find_index (alias_of q) E = Some n \<Longrightarrow> alias_map E q = Some (ended_name (E ! n))"
  by (induction E arbitrary: n) (auto split: if_splits simp: quidcmp_eq_0)

lemma alias_map_absent: "alias_map E q = None \<longleftrightarrow> (\<forall>it\<in>set E. \<not> alias_of q it)"
  by (induction E) (auto simp: quidcmp_eq_0)

lemma alias_map_live: "alias_map E q = None \<longleftrightarrow> q \<notin> set (live_quids E)"
  by (induction E) (auto simp: live_quids_def)

lemma alias_map_rename:
  "find_index (alias_of q) E = Some n \<Longrightarrow> a_len z \<noteq> 0 \<Longrightarrow> a_quid z = q \<Longrightarrow>
    alias_map (E[n := z]) = (alias_map E)(q \<mapsto> ended_name z) \<and> live_quids (E[n := z]) = live_quids E"
  by (induction E arbitrary: n) (auto split: if_splits simp: quidcmp_eq_0 fun_eq_iff live_quids_def)

lemma alias_map_drop:
  "find_index (alias_of q) E = Some n \<Longrightarrow> a_len z = 0 \<Longrightarrow> distinct (live_quids E) \<Longrightarrow>
    alias_map (E[n := z]) = (alias_map E)(q := None) \<and> distinct (live_quids (E[n := z]))
    \<and> set (live_quids (E[n := z])) \<subseteq> set (live_quids E)"
proof (induction E arbitrary: n)
  case (Cons it E)
  show ?case
  proof (cases "alias_of q it")
    case True
    then have n: "n = 0" using Cons.prems(1) by simp
    have "q \<notin> set (live_quids E)" using True Cons.prems(3) by (simp add: live_quids_def quidcmp_eq_0)
    then have "alias_map E q = None" by (simp add: alias_map_live)
    then show ?thesis
      using True n Cons.prems by (auto simp: live_quids_def quidcmp_eq_0 fun_eq_iff)
  next
    case False
    then obtain m where m: "n = Suc m" "find_index (alias_of q) E = Some m" using Cons.prems(1) by (auto split: if_splits)
    have "distinct (live_quids E)" using Cons.prems(3) by (auto simp: live_quids_def split: if_splits)
    note IH = Cons.IH[OF m(2) Cons.prems(2) this]
    have "alias_map ((it # E)[n := z]) = (alias_map (it # E))(q := None)"
      using IH False by (auto simp add: m(1) fun_eq_iff quidcmp_eq_0)
    moreover have "distinct (live_quids ((it # E)[n := z])) \<and> set (live_quids ((it # E)[n := z])) \<subseteq> set (live_quids (it # E))"
      using IH Cons.prems(3) unfolding m(1) by (auto simp: live_quids_def)
    ultimately show ?thesis by blast
  qed
qed simp

lemma alias_map_insert:
  "alias_map (xs @ ys) (a_quid z) = None \<Longrightarrow> a_len z \<noteq> 0 \<Longrightarrow>
    alias_map (xs @ z # ys) = (alias_map (xs @ ys))(a_quid z \<mapsto> ended_name z)"
  by (induction xs) (auto simp: fun_eq_iff split: if_splits)

lemma live_quids_insert:
  "a_len z \<noteq> 0 \<Longrightarrow> distinct (live_quids (xs @ z # ys)) \<longleftrightarrow> distinct (live_quids (xs @ ys)) \<and> a_quid z \<notin> set (live_quids (xs @ ys))"
  by (auto simp: live_quids_def)

section \<open>Well-formed chains\<close>

definition alist_ok :: "alias_list \<Rightarrow> bool" where
  "alist_ok l \<longleftrightarrow> length (a_items l) = ALIAS_LIST_SIZE \<and> unat (a_size l) \<le> ALIAS_LIST_SIZE
     \<and> (\<forall>it\<in>set (a_items l). length (a_name it) = ALIAS_NAME_LENGTH \<and> unat (a_len it) \<le> ALIAS_NAME_LENGTH)"

definition alias_ok :: "base \<Rightarrow> (u64 \<times> alias_list) list \<Rightarrow> bool" where
  "alias_ok b ls \<longleftrightarrow> chain_at unwrap_alias a_link b (off_alias b) ls
     \<and> (\<forall>l\<in>snd ` set ls. alist_ok l) \<and> (ls \<noteq> [] \<longrightarrow> unat (a_size (snd (hd ls))) < ALIAS_LIST_SIZE)"

lemma alias_scan_ok:
  assumes "alias_ok b ls"
  shows "(\<forall>it\<in>set (a_entries ls). a_len it \<noteq> 0 \<longrightarrow> \<not> P it) \<and> alias_scan b P (off_alias b) = Some None
    \<or> (\<exists>k i n. k < length ls \<and> i < length (a_used (snd (ls ! k)))
         \<and> alias_scan b P (off_alias b) = Some (Some (fst (ls ! k), snd (ls ! k), i))
         \<and> find_index (\<lambda>it. a_len it \<noteq> 0 \<and> P it) (a_entries ls) = Some n
         \<and> a_used (snd (ls ! k)) ! i = a_entries ls ! n
         \<and> (\<forall>p l' z. a_used l' = (a_used (snd (ls ! k)))[i := z] \<longrightarrow>
              a_entries (ls[k := (p, l')]) = (a_entries ls)[n := z]))"
  using assms by (intro aliases.scan_chain) (auto simp: alias_ok_def alist_ok_def)

lemma a_used_nth:
  assumes "i < length (a_used l)"
  shows "a_used l ! i = a_items l ! i" "i < length (a_items l)" "a_items l ! i \<in> set (a_items l)"
  using assms by (auto simp: a_used_def)

lemma a_used_update:
  "i < length (a_used l) \<Longrightarrow> a_used (l\<lparr>a_items := (a_items l)[i := z]\<rparr>) = (a_used l)[i := z]"
  by (simp add: a_used_def take_update_swap)

lemma alias_name_ok: "alist_ok l \<Longrightarrow> it \<in> set (a_items l) \<Longrightarrow> alias_name it = Some (ended_name it)"
  by (simp add: alias_name_def alist_ok_def ended_name_def)

lemma alias_ok_frame:
  assumes "same_store b b'" "off_alias b = off_alias b'"
  shows "alias_ok b ls = alias_ok b' ls"
  using assms(2) by (simp add: alias_ok_def chain_at_same_store[OF assms(1)])

lemma alias_get_val_ok:
  assumes "alias_ok b ls"
  shows "alias_get_val b q = Some (alias_map (a_entries ls) q,
    if alias_map (a_entries ls) q = None then no_alias b else b)"
  using alias_scan_ok[OF assms, of "\<lambda>it. quidcmp q (a_quid it) = 0"]
proof (elim disjE conjE exE)
  assume "\<forall>it\<in>set (a_entries ls). a_len it \<noteq> 0 \<longrightarrow> \<not> quidcmp q (a_quid it) = 0"
    and s: "alias_scan b (\<lambda>it. quidcmp q (a_quid it) = 0) (off_alias b) = Some None"
  then have "alias_map (a_entries ls) q = None" by (auto simp add: alias_map_absent)
  then show ?thesis using s by (simp add: alias_get_val_def)
next
  fix k i n
  assume k: "k < length ls" "i < length (a_used (snd (ls ! k)))"
    and s: "alias_scan b (\<lambda>it. quidcmp q (a_quid it) = 0) (off_alias b) = Some (Some (fst (ls ! k), snd (ls ! k), i))"
    and n: "find_index (alias_of q) (a_entries ls) = Some n" "a_used (snd (ls ! k)) ! i = a_entries ls ! n"
  have "alist_ok (snd (ls ! k))" using assms k(1) by (simp add: alias_ok_def)
  then show ?thesis
    using s alias_map_found[OF n(1)] alias_name_ok[OF _ a_used_nth(3)[OF k(2)]] a_used_nth(1)[OF k(2)] n(2)
    by (simp add: alias_get_val_def)
qed

lemma alist_okD:
  assumes "alist_ok l" "it \<in> set (a_items l)"
  shows "length (a_name it) = ALIAS_NAME_LENGTH" "unat (a_len it) \<le> ALIAS_NAME_LENGTH"
  using assms by (auto simp: alist_ok_def)

lemma alist_ok_put:
  assumes "alist_ok l" "length (a_name z) = ALIAS_NAME_LENGTH" "unat (a_len z) \<le> ALIAS_NAME_LENGTH"
  shows "alist_ok (l\<lparr>a_items := (a_items l)[i := z]\<rparr>)"
  using assms set_update_subset_insert[of "a_items l" i z] by (auto simp: alist_ok_def)

text \<open>Rewriting the entry that a search has found.\<close>

lemma alias_rewrite:
  assumes ok: "alias_ok b ls" and k: "k < length ls" "i < length (a_used (snd (ls ! k)))"
    and z: "length (a_name z) = ALIAS_NAME_LENGTH" "unat (a_len z) \<le> ALIAS_NAME_LENGTH"
  shows "\<exists>D l'. l' = (snd (ls ! k))\<lparr>a_items := (a_items (snd (ls ! k)))[i := z]\<rparr>
    \<and> flush_alias_list b l' (fst (ls ! k)) = Some (b\<lparr>disk := D\<rparr>)
    \<and> alias_ok (b\<lparr>disk := D\<rparr>) (ls[k := (fst (ls ! k), l')])
    \<and> a_used l' = (a_used (snd (ls ! k)))[i := z]
    \<and> (\<forall>x. valid b x \<longrightarrow> x \<notin> fst ` set ls \<longrightarrow> cell_at (b\<lparr>disk := D\<rparr>) x = cell_at b x)"
proof -
  let ?l = "snd (ls ! k)"
  let ?l' = "?l\<lparr>a_items := (a_items ?l)[i := z]\<rparr>"
  have c: "chain_at unwrap_alias a_link b (off_alias b) ls" using ok by (simp add: alias_ok_def)
  obtain D where D: "store_cell (fst (ls ! k)) (CAlias ?l') b = Some (b\<lparr>disk := D\<rparr>)"
    "chain_at unwrap_alias a_link (b\<lparr>disk := D\<rparr>) (off_alias b) (ls[k := (fst (ls ! k), ?l')])"
    "\<And>x. valid b x \<Longrightarrow> x \<noteq> fst (ls ! k) \<Longrightarrow> cell_at (b\<lparr>disk := D\<rparr>) x = cell_at b x"
    using aliases.rewrite[OF c k(1), of ?l'] by auto
  have lk: "alist_ok ?l" using ok k(1) by (simp add: alias_ok_def)
  have "\<forall>l\<in>snd ` set (ls[k := (fst (ls ! k), ?l')]). alist_ok l"
    using ok alist_ok_put[OF lk z] set_update_subset_insert[of ls k "(fst (ls ! k), ?l')"] by (auto simp: alias_ok_def)
  moreover have "ls[k := (fst (ls ! k), ?l')] \<noteq> [] \<longrightarrow> unat (a_size (snd (hd (ls[k := (fst (ls ! k), ?l')])))) < ALIAS_LIST_SIZE"
    using ok k(1) by (cases ls; cases k) (auto simp: alias_ok_def)
  ultimately have "alias_ok (b\<lparr>disk := D\<rparr>) (ls[k := (fst (ls ! k), ?l')])" using D(2) by (simp add: alias_ok_def)
  moreover have "fst (ls ! k) \<in> fst ` set ls" using k(1) by simp
  ultimately show ?thesis
    using D(1,3) a_used_update[OF k(2)] by (intro exI[of _ D] exI[of _ ?l']) (auto simp: flush_alias_list_def)
qed

text \<open>What a name of at most 48 bytes without a terminator becomes in an entry.\<close>

lemma set_alias_name_ok:
  assumes "0 < length s" "length s \<le> ALIAS_NAME_LENGTH" "NUL \<notin> set s" "length (a_name it) = ALIAS_NAME_LENGTH"
  obtains z where "set_alias_name s h it = Some z" "length (a_name z) = ALIAS_NAME_LENGTH"
    "unat (a_len z) \<le> ALIAS_NAME_LENGTH" "a_len z \<noteq> 0" "a_quid z = a_quid it" "ended_name z = s" "a_hash z = h"
proof -
  have u: "unat (of_nat (length s) :: u32) = length s" using assms(2) by (simp add: unat_of_nat)
  have "takeWhile (\<lambda>c. c \<noteq> NUL) s = s" using assms(3) by (auto simp: takeWhile_eq_all_conv)
  then have e: "ended_name (it\<lparr>a_name := s @ drop (length s) (a_name it), a_len := of_nat (length s), a_hash := h\<rparr>) = s"
    by (simp add: ended_name_def u buffer_string_def)
  have "(of_nat (length s) :: u32) \<noteq> 0" using u assms(1) by (metis gr_implies_not0 unsigned_0)
  then show ?thesis
    using assms u e that[of "it\<lparr>a_name := s @ drop (length s) (a_name it), a_len := of_nat (length s), a_hash := h\<rparr>"]
    by (simp add: set_alias_name_def)
qed

lemma mem_bytes_all: "mem_bytes s (length s) = Some s"
  by (simp add: mem_bytes_def)

lemma alias_update_ok:
  assumes ok: "alias_ok b ls" and s: "0 < length s" "length s \<le> ALIAS_NAME_LENGTH" "NUL \<notin> set s"
  shows "if alias_map (a_entries ls) q = None then alias_update b q s (length s) = Some (- 1, no_alias b)
    else \<exists>D ls'. alias_update b q s (length s) = Some (0, b\<lparr>disk := D\<rparr>) \<and> alias_ok (b\<lparr>disk := D\<rparr>) ls'
      \<and> alias_map (a_entries ls') = (alias_map (a_entries ls))(q \<mapsto> s) \<and> live_quids (a_entries ls') = live_quids (a_entries ls)
      \<and> (\<forall>x. valid b x \<longrightarrow> x \<notin> fst ` set ls \<longrightarrow> cell_at (b\<lparr>disk := D\<rparr>) x = cell_at b x)"
  using alias_scan_ok[OF ok, of "\<lambda>it. quidcmp q (a_quid it) = 0"]
proof (elim disjE conjE exE)
  assume "\<forall>it\<in>set (a_entries ls). a_len it \<noteq> 0 \<longrightarrow> \<not> quidcmp q (a_quid it) = 0"
    and sc: "alias_scan b (\<lambda>it. quidcmp q (a_quid it) = 0) (off_alias b) = Some None"
  then have "alias_map (a_entries ls) q = None" by (auto simp add: alias_map_absent)
  then show ?thesis using sc by (simp add: alias_update_def mem_bytes_all)
next
  fix k i n
  assume k: "k < length ls" "i < length (a_used (snd (ls ! k)))"
    and sc: "alias_scan b (\<lambda>it. quidcmp q (a_quid it) = 0) (off_alias b) = Some (Some (fst (ls ! k), snd (ls ! k), i))"
    and n: "find_index (alias_of q) (a_entries ls) = Some n" "a_used (snd (ls ! k)) ! i = a_entries ls ! n"
    and u: "\<forall>p l' z. a_used l' = (a_used (snd (ls ! k)))[i := z] \<longrightarrow> a_entries (ls[k := (p, l')]) = (a_entries ls)[n := z]"
  have lk: "alist_ok (snd (ls ! k))" using ok k(1) by (simp add: alias_ok_def)
  obtain z where z: "set_alias_name s (hash_bytes s) (a_items (snd (ls ! k)) ! i) = Some z" "length (a_name z) = ALIAS_NAME_LENGTH"
    "unat (a_len z) \<le> ALIAS_NAME_LENGTH" "a_len z \<noteq> 0" "a_quid z = a_quid (a_items (snd (ls ! k)) ! i)" "ended_name z = s"
    using set_alias_name_ok[OF s alist_okD(1)[OF lk a_used_nth(3)[OF k(2)]]] by metis
  obtain D l' where D: "l' = (snd (ls ! k))\<lparr>a_items := (a_items (snd (ls ! k)))[i := z]\<rparr>"
    "flush_alias_list b l' (fst (ls ! k)) = Some (b\<lparr>disk := D\<rparr>)" "alias_ok (b\<lparr>disk := D\<rparr>) (ls[k := (fst (ls ! k), l')])"
    "a_used l' = (a_used (snd (ls ! k)))[i := z]"
    "\<forall>x. valid b x \<longrightarrow> x \<notin> fst ` set ls \<longrightarrow> cell_at (b\<lparr>disk := D\<rparr>) x = cell_at b x"
    using alias_rewrite[OF ok k z(2,3)] by blast
  have q: "a_quid z = q"
    using find_index_Some[OF n(1)] n(2) a_used_nth(1)[OF k(2)] z(5) by (simp add: quidcmp_eq_0)
  have "a_entries (ls[k := (fst (ls ! k), l')]) = (a_entries ls)[n := z]" using u D(4) by blast
  then show ?thesis
    using sc z(1) D alias_map_rename[OF n(1) z(4) q] alias_map_found[OF n(1)] z(6)
    by (auto simp: alias_update_def mem_bytes_all intro!: exI[of _ D] exI[of _ "ls[k := (fst (ls ! k), l')]"])
qed

lemma alias_delete_ok:
  assumes ok: "alias_ok b ls" and d: "distinct (live_quids (a_entries ls))"
  shows "if alias_map (a_entries ls) q = None then alias_delete b q = Some (- 1, no_alias b)
    else \<exists>b' ls'. alias_delete b q = Some (0, b') \<and> alias_ok b' ls'
      \<and> alias_map (a_entries ls') = (alias_map (a_entries ls))(q := None) \<and> distinct (live_quids (a_entries ls'))
      \<and> (\<forall>x. valid b x \<longrightarrow> x \<notin> fst ` set ls \<longrightarrow> cell_at b' x = cell_at b x)"
  using alias_scan_ok[OF ok, of "\<lambda>it. quidcmp q (a_quid it) = 0"]
proof (elim disjE conjE exE)
  assume "\<forall>it\<in>set (a_entries ls). a_len it \<noteq> 0 \<longrightarrow> \<not> quidcmp q (a_quid it) = 0"
    and sc: "alias_scan b (\<lambda>it. quidcmp q (a_quid it) = 0) (off_alias b) = Some None"
  then have "alias_map (a_entries ls) q = None" by (auto simp add: alias_map_absent)
  then show ?thesis using sc by (simp add: alias_delete_def)
next
  fix k i n
  assume k: "k < length ls" "i < length (a_used (snd (ls ! k)))"
    and sc: "alias_scan b (\<lambda>it. quidcmp q (a_quid it) = 0) (off_alias b) = Some (Some (fst (ls ! k), snd (ls ! k), i))"
    and n: "find_index (alias_of q) (a_entries ls) = Some n" "a_used (snd (ls ! k)) ! i = a_entries ls ! n"
    and u: "\<forall>p l' z. a_used l' = (a_used (snd (ls ! k)))[i := z] \<longrightarrow> a_entries (ls[k := (p, l')]) = (a_entries ls)[n := z]"
  have lk: "alist_ok (snd (ls ! k))" using ok k(1) by (simp add: alias_ok_def)
  let ?z = "(a_items (snd (ls ! k)) ! i)\<lparr>a_quid := zero_quid, a_len := 0\<rparr>"
  have z: "length (a_name ?z) = ALIAS_NAME_LENGTH" "unat (a_len ?z) \<le> ALIAS_NAME_LENGTH" "a_len ?z = 0"
    using alist_okD(1)[OF lk a_used_nth(3)[OF k(2)]] by simp_all
  obtain D l' where D: "l' = (snd (ls ! k))\<lparr>a_items := (a_items (snd (ls ! k)))[i := ?z]\<rparr>"
    "flush_alias_list b l' (fst (ls ! k)) = Some (b\<lparr>disk := D\<rparr>)" "alias_ok (b\<lparr>disk := D\<rparr>) (ls[k := (fst (ls ! k), l')])"
    "a_used l' = (a_used (snd (ls ! k)))[i := ?z]"
    "\<forall>x. valid b x \<longrightarrow> x \<notin> fst ` set ls \<longrightarrow> cell_at (b\<lparr>disk := D\<rparr>) x = cell_at b x"
    using alias_rewrite[OF ok k z(1,2)] by blast
  let ?b' = "b\<lparr>disk := D, st_alias_size := st_alias_size b - 1\<rparr>"
  have "same_store ?b' (b\<lparr>disk := D\<rparr>)" by (simp add: same_store_def)
  then have "alias_ok ?b' (ls[k := (fst (ls ! k), l')])" "cell_at ?b' = cell_at (b\<lparr>disk := D\<rparr>)"
    using alias_ok_frame[of ?b' "b\<lparr>disk := D\<rparr>"] D(3) same_storeD(3) by auto
  moreover have "a_entries (ls[k := (fst (ls ! k), l')]) = (a_entries ls)[n := ?z]" using u D(4) by blast
  ultimately show ?thesis
    using sc D alias_map_drop[OF n(1) z(3) d] alias_map_found[OF n(1)]
    by (auto simp: alias_delete_def Let_def intro!: exI[of _ ?b'] exI[of _ "ls[k := (fst (ls ! k), l')]"])
qed

definition alias_post :: "base \<Rightarrow> (u64 \<times> alias_list) list \<Rightarrow> quid \<Rightarrow> string \<Rightarrow> base \<Rightarrow> bool" where
  "alias_post b ls q s b' \<longleftrightarrow> (\<exists>ls' xs z ys. alias_ok b' ls' \<and> a_entries ls = xs @ ys \<and> a_entries ls' = xs @ z # ys
     \<and> a_quid z = q \<and> a_len z \<noteq> 0 \<and> ended_name z = s)
     \<and> (\<forall>x. valid b x \<longrightarrow> unat x < mark b \<longrightarrow> x \<notin> fst ` set ls \<longrightarrow> cell_at b' x = cell_at b x)"

lemma finish_alias:
  assumes "chain_at unwrap_alias a_link b p ls" "\<forall>l\<in>snd ` set ls. alist_ok l"
    "ls \<noteq> [] \<longrightarrow> unat (a_size (snd (hd ls))) < ALIAS_LIST_SIZE" "off_alias b = p"
  shows "alias_ok (if st_alias_size b mod 4 = 0 then base_sync b else b) ls
    \<and> cell_at (if st_alias_size b mod 4 = 0 then base_sync b else b) = cell_at b"
proof -
  let ?b = "if st_alias_size b mod 4 = 0 then base_sync b else b"
  have s: "same_store ?b b" by (simp add: same_store_def)
  have "off_alias (base_sync b) = off_alias b"
    using but_pager_fields[OF but_control_pager[OF but_control_frame(2)], of b] by simp
  then have "alias_ok ?b ls = alias_ok b ls" using alias_ok_frame[OF s] by simp
  then show ?thesis using assms same_storeD(3)[OF s] by (simp add: alias_ok_def)
qed

lemma zero_alias_ok: "length (a_name zero_alias_item) = ALIAS_NAME_LENGTH" "alist_ok (zero_alias_list\<lparr>a_link := x\<rparr>)"
  "a_used (zero_alias_list\<lparr>a_link := x\<rparr>) = []" "a_link (zero_alias_list\<lparr>a_link := x\<rparr>) = x"
  "a_size (zero_alias_list\<lparr>a_link := x\<rparr>) = 0"
  by (simp_all add: zero_alias_list_def zero_alias_item_def alist_ok_def a_used_def)

lemma alias_add_first:
  assumes ok: "alias_ok b []" and f: "fresh_page b" "fits b sizeof_alias_list"
    and s: "0 < length s" "length s \<le> ALIAS_NAME_LENGTH" "NUL \<notin> set s"
  shows "\<exists>b'. alias_add b q s (length s) = Some (0, b') \<and> alias_post b [] q s b'"
proof -
  obtain it where it: "set_alias_name s (hash_bytes s) zero_alias_item = Some it" "length (a_name it) = ALIAS_NAME_LENGTH"
    "unat (a_len it) \<le> ALIAS_NAME_LENGTH" "a_len it \<noteq> 0" "ended_name it = s"
    using set_alias_name_ok[OF s zero_alias_ok(1)] by metis
  let ?it = "it\<lparr>a_quid := q\<rparr>"
  let ?new = "zero_alias_list\<lparr>a_items := (a_items zero_alias_list)[0 := ?it], a_size := 1\<rparr>"
  have new: "alist_ok ?new" "a_used ?new = [?it]" "unat (a_size ?new) < ALIAS_LIST_SIZE"
    using alist_ok_put[OF zero_alias_ok(2)[of 0], of ?it 0] it
    by (simp_all add: zero_alias_list_def alist_ok_def a_used_def take_first_update)
  have c: "chain_at unwrap_alias a_link b (off_alias b) []" and z: "off_alias b = 0"
    using ok by (auto simp: alias_ok_def chain_at_def)
  obtain p b1 where a: "pager_alloc b sizeof_alias_list = Some (p, b1)" "alloc_post b sizeof_alias_list p b1"
    using pager_alloc_ok[OF _ f] c by (auto simp: chain_at_def)
  obtain D where D: "store_cell p (CAlias ?new) b1 = Some (b1\<lparr>disk := D\<rparr>)"
    "chain_at unwrap_alias a_link (b1\<lparr>disk := D\<rparr>) p [(p, ?new)]"
    "\<And>x. valid b x \<Longrightarrow> unat x < mark b \<Longrightarrow> cell_at (b1\<lparr>disk := D\<rparr>) x = cell_at b x"
    using aliases.prepend[OF c a(2), of ?new] z by (auto simp: zero_alias_list_def)
  let ?b1 = "b1\<lparr>disk := D, off_alias := p, st_alias_size := 1\<rparr>"
  let ?b' = "if st_alias_size ?b1 mod 4 = 0 then base_sync ?b1 else ?b1"
  have ss: "same_store ?b1 (b1\<lparr>disk := D\<rparr>)" by (simp add: same_store_def)
  have "alias_add b q s (length s) = Some (0, ?b')"
    using z a(1) D(1) it(1) s(2) by (simp add: alias_add_def mem_bytes_all flush_alias_list_def Let_def)
  moreover have "alias_ok ?b' [(p, ?new)] \<and> cell_at ?b' = cell_at ?b1"
    using D(2) new chain_at_same_store[OF ss] by (intro finish_alias) auto
  moreover have "a_entries [(p, ?new)] = [?it]" using new(2) by simp
  moreover have "ended_name ?it = s" using it(5) by (simp add: ended_name_def)
  ultimately show ?thesis
    using D(3) it(4) same_storeD(3)[OF ss] unfolding alias_post_def
    by (intro exI[of _ ?b'] conjI exI[of _ "[(p, ?new)]"] exI[of _ "[]"] exI[of _ ?it]) auto
qed

lemma a_used_push:
  assumes "alist_ok l" "unat (a_size l) < ALIAS_LIST_SIZE"
  shows "a_used (l\<lparr>a_items := (a_items l)[unat (a_size l) := z], a_size := a_size l + 1\<rparr>) = a_used l @ [z]"
    and "unat (a_size l + 1) = Suc (unat (a_size l))"
proof -
  show s: "unat (a_size l + 1) = Suc (unat (a_size l))"
    using assms(2) by (intro unat_add_one add_one_nonzero) simp
  show "a_used (l\<lparr>a_items := (a_items l)[unat (a_size l) := z], a_size := a_size l + 1\<rparr>) = a_used l @ [z]"
    using assms s by (simp add: a_used_def alist_ok_def take_Suc_conv_app_nth)
qed

lemma alias_add_next:
  assumes ok: "alias_ok b ((p, l) # ls)" and f: "fresh_page b" "fits b sizeof_alias_list"
    and s: "0 < length s" "length s \<le> ALIAS_NAME_LENGTH" "NUL \<notin> set s"
  shows "\<exists>b'. alias_add b q s (length s) = Some (0, b') \<and> alias_post b ((p, l) # ls) q s b'"
proof -
  have c: "chain_at unwrap_alias a_link b (off_alias b) ((p, l) # ls)" and l: "alist_ok l"
    and room: "unat (a_size l) < ALIAS_LIST_SIZE" and lss: "\<forall>l\<in>snd ` set ls. alist_ok l"
    using ok by (auto simp: alias_ok_def)
  have p: "off_alias b = p" "p \<noteq> 0" "store_ok b" "valid b p" "obj_at unwrap_alias b p = Some l" "unat p < mark b"
    using c by (auto simp: chain_at_def)
  have old: "a_items l ! unat (a_size l) \<in> set (a_items l)" using l room by (simp add: alist_ok_def)
  obtain it where it: "set_alias_name s (hash_bytes s) (a_items l ! unat (a_size l)) = Some it" "length (a_name it) = ALIAS_NAME_LENGTH"
    "unat (a_len it) \<le> ALIAS_NAME_LENGTH" "a_len it \<noteq> 0" "ended_name it = s"
    using set_alias_name_ok[OF s alist_okD(1)[OF l old]] by metis
  let ?it = "it\<lparr>a_quid := q\<rparr>"
  let ?l = "l\<lparr>a_items := (a_items l)[unat (a_size l) := ?it], a_size := a_size l + 1\<rparr>"
  let ?b = "b\<lparr>st_alias_size := st_alias_size b + 1\<rparr>"
  note u = a_used_push(1)[OF l room, of ?it] a_used_push(2)[OF l room]
  have get: "get_alias_list b p = Some l" by (rule aliases.get_ok[OF p(3,4,5)])
  have ok_l: "alist_ok ?l" using alist_ok_put[OF l, of ?it "unat (a_size l)"] it room u(2) by (simp add: alist_ok_def)
  have cb: "chain_at unwrap_alias a_link ?b (off_alias ?b) ((p, l) # ls)" using c chain_at_same_store[of ?b b unwrap_alias a_link] by simp
  obtain D where D: "store_cell p (CAlias ?l) ?b = Some (?b\<lparr>disk := D\<rparr>)"
    "chain_at unwrap_alias a_link (?b\<lparr>disk := D\<rparr>) p ((p, ?l) # ls)"
    "\<And>x. valid b x \<Longrightarrow> x \<noteq> p \<Longrightarrow> cell_at (?b\<lparr>disk := D\<rparr>) x = cell_at b x"
    using aliases.rewrite[OF cb, of 0 ?l] p(1) by auto
  have E: "a_entries ((p, l) # ls) = a_used l @ a_entries ls" "a_entries ((p, ?l) # ls) = a_used l @ ?it # a_entries ls"
    using u(1) by simp_all
  have nm: "ended_name ?it = s" "a_len ?it \<noteq> 0" using it(4,5) by (simp_all add: ended_name_def)
  show ?thesis
  proof (cases "unat (a_size ?l) \<ge> ALIAS_LIST_SIZE")
    case False
    let ?b1 = "?b\<lparr>disk := D\<rparr>"
    let ?b' = "if st_alias_size ?b1 mod 4 = 0 then base_sync ?b1 else ?b1"
    have "alias_add b q s (length s) = Some (0, ?b')"
      using False p get room D(1) it(1) l s(2)
      by (simp add: alias_add_def flush_alias_list_def Let_def mem_bytes_all)
    moreover have "alias_ok ?b' ((p, ?l) # ls) \<and> cell_at ?b' = cell_at ?b1"
      using D(2) ok_l lss False p(1) by (intro finish_alias) auto
    ultimately show ?thesis
      using D(3) E nm unfolding alias_post_def
      by (intro exI[of _ ?b'] conjI exI[of _ "(p, ?l) # ls"] exI[of _ "a_used l"] exI[of _ ?it] exI[of _ "a_entries ls"]) auto
  next
    case True
    let ?new = "zero_alias_list\<lparr>a_link := p\<rparr>"
    have sd: "store_ok (?b\<lparr>disk := D\<rparr>)" using D(2) by (simp add: chain_at_def)
    have "fresh_page (?b\<lparr>disk := D\<rparr>)" "fits (?b\<lparr>disk := D\<rparr>) sizeof_alias_list"
      using f quid_short_create_cong[of "?b\<lparr>disk := D\<rparr>" b] by (simp_all add: fresh_page_def fits_def page_keys_def)
    then obtain r b1 where a: "pager_alloc (?b\<lparr>disk := D\<rparr>) sizeof_alias_list = Some (r, b1)"
      "alloc_post (?b\<lparr>disk := D\<rparr>) sizeof_alias_list r b1"
      using pager_alloc_ok[OF sd] by blast
    obtain D' where D': "store_cell r (CAlias ?new) b1 = Some (b1\<lparr>disk := D'\<rparr>)"
      "chain_at unwrap_alias a_link (b1\<lparr>disk := D'\<rparr>) r ((r, ?new) # (p, ?l) # ls)"
      "\<And>x. valid b x \<Longrightarrow> unat x < mark b \<Longrightarrow> cell_at (b1\<lparr>disk := D'\<rparr>) x = cell_at (?b\<lparr>disk := D\<rparr>) x"
      using aliases.prepend[OF D(2) a(2), of ?new] by (auto simp: zero_alias_ok)
    let ?b1 = "b1\<lparr>disk := D', off_alias := r\<rparr>"
    let ?b' = "if st_alias_size ?b1 mod 4 = 0 then base_sync ?b1 else ?b1"
    have add: "alias_add b q s (length s) = Some (0, ?b')"
      using True p get room D(1) D'(1) a(1) it(1) l s(2)
      by (simp add: alias_add_def flush_alias_list_def Let_def mem_bytes_all)
    have "chain_at unwrap_alias a_link ?b1 r ((r, ?new) # (p, ?l) # ls)"
      using D'(2) chain_at_same_store[of ?b1 "b1\<lparr>disk := D'\<rparr>" unwrap_alias a_link] by (simp add: same_store_def)
    then have "alias_ok ?b' ((r, ?new) # (p, ?l) # ls) \<and> cell_at ?b' = cell_at ?b1"
      using ok_l lss zero_alias_ok(2)[of p] by (intro finish_alias) (auto simp: zero_alias_ok)
    then show ?thesis
      using add D(3) D'(3) E nm unfolding alias_post_def
      by (intro exI[of _ ?b'] conjI exI[of _ "(r, ?new) # (p, ?l) # ls"] exI[of _ "a_used l"] exI[of _ ?it] exI[of _ "a_entries ls"])
        (auto simp: zero_alias_ok)
  qed
qed

lemma alias_add_post:
  assumes "alias_ok b ls" "fresh_page b" "fits b sizeof_alias_list"
    "0 < length s" "length s \<le> ALIAS_NAME_LENGTH" "NUL \<notin> set s"
  shows "\<exists>b'. alias_add b q s (length s) = Some (0, b') \<and> alias_post b ls q s b'"
proof (cases ls)
  case Nil
  then show ?thesis using alias_add_first assms by simp
next
  case (Cons x ls')
  then show ?thesis using alias_add_next[of b "fst x" "snd x" ls' s q] assms by simp
qed

section \<open>Properties\<close>

text \<open>The state stands for the map of names when every record has one name at most.\<close>

definition alias_rep :: "base \<Rightarrow> (quid \<Rightarrow> string option) \<Rightarrow> bool" where
  "alias_rep b m \<longleftrightarrow> (\<exists>ls. alias_ok b ls \<and> distinct (live_quids (a_entries ls)) \<and> m = alias_map (a_entries ls))"

definition alias_lookup :: "base \<Rightarrow> quid \<Rightarrow> string option option" where
  "alias_lookup b q = map_option fst (alias_get_val b q)"

definition alias_insert :: "base \<Rightarrow> quid \<Rightarrow> string \<Rightarrow> base option" where
  "alias_insert b q s = map_option snd (alias_add b q s (length s))"

definition alias_remove :: "base \<Rightarrow> quid \<Rightarrow> base option" where
  "alias_remove b q = map_option snd (alias_delete b q)"

definition alias_room :: "base \<Rightarrow> bool" where
  "alias_room b \<longleftrightarrow> fresh_page b \<and> fits b sizeof_alias_list"

definition alias_string :: "string \<Rightarrow> bool" where
  "alias_string s \<longleftrightarrow> 0 < length s \<and> length s \<le> ALIAS_NAME_LENGTH \<and> NUL \<notin> set s"

lemma alias_rep_err: "alias_rep b m \<Longrightarrow> alias_rep (b\<lparr>err := e\<rparr>) m"
  using alias_ok_frame[of "b\<lparr>err := e\<rparr>" b] by (auto simp: alias_rep_def same_store_def)

interpretation names: fresh_map alias_rep alias_lookup alias_insert alias_remove alias_room alias_string
proof unfold_locales
  fix b m q assume "alias_rep b m"
  then show "alias_lookup b q = Some (m q)" by (auto simp: alias_rep_def alias_lookup_def alias_get_val_ok)
next
  fix b m q s assume a: "alias_rep b m" "alias_room b" "m q = None" "alias_string s"
  then obtain ls where ls: "alias_ok b ls" "distinct (live_quids (a_entries ls))" "m = alias_map (a_entries ls)"
    by (auto simp: alias_rep_def)
  obtain b' ls' xs z ys where b': "alias_add b q s (length s) = Some (0, b')" "alias_ok b' ls'" "a_entries ls = xs @ ys"
    "a_entries ls' = xs @ z # ys" "a_quid z = q" "a_len z \<noteq> 0" "ended_name z = s"
    using alias_add_post[OF ls(1), of s q] a(2,4) unfolding alias_room_def alias_string_def alias_post_def by blast
  have n: "alias_map (xs @ ys) (a_quid z) = None" using a(3) ls(3) b'(3,5) by simp
  then have "alias_map (a_entries ls') = m(q \<mapsto> s)" using alias_map_insert[OF n b'(6)] b' ls(3) by simp
  moreover have "distinct (live_quids (a_entries ls'))"
    using n ls(2) b' by (simp add: live_quids_insert alias_map_live)
  ultimately show "\<exists>s'. alias_insert b q s = Some s' \<and> alias_rep s' (m(q \<mapsto> s))"
    using b'(1,2) by (auto simp: alias_insert_def alias_rep_def)
next
  fix b m q assume a: "alias_rep b m"
  then obtain ls where ls: "alias_ok b ls" "distinct (live_quids (a_entries ls))" "m = alias_map (a_entries ls)"
    by (auto simp: alias_rep_def)
  show "\<exists>s'. alias_remove b q = Some s' \<and> alias_rep s' (m(q := None))"
  proof (cases "alias_map (a_entries ls) q")
    case None
    then have "alias_remove b q = Some (no_alias b)" "m(q := None) = m"
      using alias_delete_ok[OF ls(1,2), of q] ls(3) by (auto simp: alias_remove_def fun_eq_iff)
    then show ?thesis using alias_rep_err[OF a] by (simp add: error_throw_def)
  next
    case (Some v)
    then show ?thesis
      using alias_delete_ok[OF ls(1,2), of q] ls(3)
      by (auto simp: alias_remove_def alias_rep_def) metis
  qed
qed

text \<open>
  C9: Aliases are a map from records to names: naming a record that has no name changes what \<open>alias_get_val\<close> answers for
  this record only, and deleting the alias again gives back the old answers for every record.
\<close>

theorem alias_map_correct:
  assumes "alias_rep b m" "fresh_page b" "fits b sizeof_alias_list" "m q = None"
    "0 < length s" "length s \<le> ALIAS_NAME_LENGTH" "NUL \<notin> set s"
  shows "\<exists>b' b''. alias_insert b q s = Some b' \<and> (\<forall>p. alias_lookup b' p = Some ((m(q \<mapsto> s)) p))
    \<and> alias_remove b' q = Some b'' \<and> (\<forall>p. alias_lookup b'' p = Some (m p))"
  using names.insert_remove[of b m q s] assms by (simp add: alias_room_def alias_string_def)

lemma demo_alias_ok: "17 \<le> n \<Longrightarrow> n < 4194304 \<Longrightarrow> alias_ok (demo n m) []"
  by (simp add: alias_ok_def chain_at_def demo_ok) (simp add: demo_def)

lemma demo_alias_rep: "alias_rep (demo 17 (\<lambda>_. None)) Map.empty"
  using demo_alias_ok[of 17] by (auto simp: alias_rep_def live_quids_def intro!: exI[of _ "[]"])

theorem alias_map_correct_witness:
  "\<exists>b'. alias_insert (demo 17 (\<lambda>_. None)) zero_quid ''name'' = Some b'
    \<and> alias_lookup b' zero_quid = Some (Some ''name'')"
proof -
  have "NUL \<notin> set ''name''" by simp
  then show ?thesis
    using alias_map_correct[OF demo_alias_rep demo_fresh demo_fits, where q = zero_quid and s = "''name''"] by auto
qed

text \<open>
  Renaming: \<open>alias_update\<close> changes the name of the record and of no other, writes only the list of the entry, and
  fails with "Alias not found", the state unchanged, when the record has no alias.
\<close>

theorem alias_update_correct:
  assumes "alias_ok b ls" "0 < length s" "length s \<le> ALIAS_NAME_LENGTH" "NUL \<notin> set s"
  shows "if alias_map (a_entries ls) q = None
    then alias_update b q s (length s) = Some (- 1, error_throw ''2836444cd009'' ''Alias not found'' b)
    else \<exists>D ls'. alias_update b q s (length s) = Some (0, b\<lparr>disk := D\<rparr>) \<and> alias_ok (b\<lparr>disk := D\<rparr>) ls'
      \<and> alias_map (a_entries ls') = (alias_map (a_entries ls))(q \<mapsto> s)
      \<and> (\<forall>x. valid b x \<longrightarrow> x \<notin> fst ` set ls \<longrightarrow> cell_at (b\<lparr>disk := D\<rparr>) x = cell_at b x)"
  using alias_update_ok[OF assms, of q] by (auto split: if_splits)

theorem alias_update_correct_witness:
  "alias_update (demo 17 (\<lambda>_. None)) zero_quid ''x'' 1
    = Some (- 1, error_throw ''2836444cd009'' ''Alias not found'' (demo 17 (\<lambda>_. None)))"
  using alias_update_correct[OF demo_alias_ok[of 17 "\<lambda>_. None"], where s = "''x''" and q = zero_quid] by simp

text \<open>A rebuild reads the head of the chain whatever list it is at.\<close>

definition hidden :: "alias_item \<Rightarrow> bool" where
  "hidden it \<longleftrightarrow> a_len it = 0 \<or> a_name it ! 0 = CHR ''_''"

lemma rebuild_hidden: "\<forall>it\<in>set its. hidden it \<Longrightarrow> rebuild_rows its nb = Some nb"
  by (induction its) (auto simp: hidden_def Let_def)

definition rebuild_hangs :: "base \<Rightarrow> bool" where
  "rebuild_hangs b \<longleftrightarrow> (\<exists>l. get_alias_list b (off_alias b) = Some l \<and> a_link l \<noteq> 0 \<and> (\<forall>it\<in>set (a_used l). hidden it))"

lemma rebuild_stuck:
  assumes "rebuild_hangs b" "off \<noteq> 0"
  shows "alias_rebuild_loop b off nb = None"
proof (rule ccontr)
  assume "alias_rebuild_loop b off nb \<noteq> None"
  then obtain r where "alias_rebuild_loop b off nb = Some r" by auto
  then have "\<not> (off \<noteq> 0 \<and> rebuild_hangs b)"
  proof (rule alias_rebuild_loop.raw_induct[where P = "\<lambda>b off nb r. \<not> (off \<noteq> 0 \<and> rebuild_hangs b)", rotated])
    fix loop b off nb r
    assume IH: "\<And>b off nb r. loop b off nb = Some r \<Longrightarrow> \<not> (off \<noteq> 0 \<and> rebuild_hangs b)"
      and step: "(if off = 0 then Some (b, nb) else do {
        l \<leftarrow> get_alias_list b (off_alias b);
        zassert (unat (a_size l) \<le> ALIAS_LIST_SIZE);
        nb \<leftarrow> rebuild_rows (a_used l) (share b nb);
        loop (share nb b) (a_link l) nb }) = Some r"
    have "share (share b nb) b = b" by (simp add: share_def)
    then have "loop b (a_link l) (share b nb) = Some r"
      if "off \<noteq> 0" "get_alias_list b (off_alias b) = Some l" "\<forall>it\<in>set (a_used l). hidden it" for l
      using step that by (simp add: rebuild_hidden split: if_splits)
    then show "\<not> (off \<noteq> 0 \<and> rebuild_hangs b)"
      using IH unfolding rebuild_hangs_def by blast
  qed
  then show False using assms by blast
qed

text \<open>
  C10: Rebuilding the aliases does not return once the chain has a second list: with nothing to copy in the head, as
  right after the head was filled and a new one put in front, \<open>alias_rebuild\<close> reads that head forever, because
  it passes \<open>base->offset.alias\<close> instead of \<open>offset\<close>.
\<close>

theorem alias_rebuild_diverges:
  assumes "alias_ok b ((p, l) # (p', l') # ls)" "\<forall>it\<in>set (a_used l). hidden it"
  shows "alias_rebuild b nb = None"
proof -
  have "get_alias_list b (off_alias b) = Some l" "a_link l \<noteq> 0" "off_alias b \<noteq> 0"
    using assms(1) by (auto simp: alias_ok_def chain_at_def aliases.get_ok)
  then show ?thesis
    using assms(2) unfolding alias_rebuild_def by (intro rebuild_stuck) (auto simp: rebuild_hangs_def)
qed

definition demo_aliases :: content where
  "demo_aliases = (\<lambda>_. None)
     (17 := Some (CAlias (zero_alias_list\<lparr>a_items := replicate 128 (zero_alias_item\<lparr>a_len := 1\<rparr>), a_size := 128\<rparr>)),
      10000 := Some (CAlias (zero_alias_list\<lparr>a_link := 17\<rparr>)))"

lemma demo_aliases_ok:
  "alias_ok ((demo 20000 demo_aliases)\<lparr>off_alias := 10000\<rparr>)
     [(10000, zero_alias_list\<lparr>a_link := 17\<rparr>),
      (17, zero_alias_list\<lparr>a_items := replicate 128 (zero_alias_item\<lparr>a_len := 1\<rparr>), a_size := 128\<rparr>)]"
proof -
  have "cell_at (demo 20000 demo_aliases) 10000 = demo_aliases 10000"
    "cell_at (demo 20000 demo_aliases) 17 = demo_aliases 17" "mark (demo 20000 demo_aliases) = 20000"
    by (simp_all add: demo_cell demo_mark)
  then show ?thesis
    by (simp add: alias_ok_def chain_at_def obj_at_def demo_ok demo_valid)
      (simp add: alist_ok_def zero_alias_list_def zero_alias_item_def demo_aliases_def)
qed

theorem alias_rebuild_diverges_witness:
  "alias_rebuild ((demo 20000 demo_aliases)\<lparr>off_alias := 10000\<rparr>) (demo 17 (\<lambda>_. None)) = None"
  using alias_rebuild_diverges[OF demo_aliases_ok] by (simp add: zero_alias_ok)

text \<open>
  What a listing shows of one list: an entry per visible alias, under its key; the key behind a name of 48 bytes has
  lost its first byte.
\<close>

definition alias_row :: "quid \<Rightarrow> alias_item \<Rightarrow> marshall" where
  "alias_row q it = Marshall (Some (quidtostr q)) QUID_LENGTH (Some (ended_name it)) (unat (a_len it)) [] 0 MTYPE_QUID"

fun listing :: "bool \<Rightarrow> alias_item list \<Rightarrow> marshall list" where
  "listing spill [] = []"
| "listing spill (it # its) =
     (if hidden it then listing False its
      else alias_row (if spill then clear_first_byte (a_quid it) else a_quid it) it
        # listing (unat (a_len it) = ALIAS_NAME_LENGTH) its)"

definition spilled :: "bool \<Rightarrow> alias_item list \<Rightarrow> alias_item list" where
  "spilled spill its = (case its of [] \<Rightarrow> []
     | it # its \<Rightarrow> (if spill then it\<lparr>a_quid := clear_first_byte (a_quid it)\<rparr> else it) # its)"

lemma spilled_simps [simp]: "spilled spill [] = []" "spilled False its = its"
  "spilled True (it # its) = it\<lparr>a_quid := clear_first_byte (a_quid it)\<rparr> # its"
  by (simp_all add: spilled_def split: list.splits)

lemma end_alias_name_ok:
  "unat (a_len it) \<le> ALIAS_NAME_LENGTH \<Longrightarrow>
    end_alias_name it its = Some (spilled (unat (a_len it) = ALIAS_NAME_LENGTH) its)"
  by (simp add: end_alias_name_def spilled_def split: list.splits)

text \<open>A tree whose array holds exactly the given children, with room for more.\<close>

definition holds :: "marshall \<Rightarrow> marshall list \<Rightarrow> nat \<Rightarrow> bool" where
  "holds m ys r \<longleftrightarrow> m_size m = length ys \<and> m_child m = map Some ys @ replicate r None"

lemma read_children_map: "read_children (length ys) (map Some ys @ r) = Some ys"
  by (induction ys) auto

lemma holds_children: "holds m ys r \<Longrightarrow> children m = Some ys"
  by (simp add: holds_def children_def read_children_map)

lemma holds_push:
  assumes "holds m ys (Suc r)"
  shows "\<exists>m'. push_child m (Some c) = Some m' \<and> holds m' (ys @ [c]) r \<and> m_mtype m' = m_mtype m"
  using assms by (cases m) (auto simp: holds_def push_child_def put_child_def list_update_append)

lemma alias_rows_ok:
  assumes "holds m ys r" "length (listing spill its) \<le> r" "\<forall>it\<in>set its. unat (a_len it) \<le> ALIAS_NAME_LENGTH"
  shows "\<exists>m'. alias_rows (spilled spill its) m = Some m'
    \<and> holds m' (ys @ listing spill its) (r - length (listing spill its)) \<and> m_mtype m' = m_mtype m"
  using assms
proof (induction its arbitrary: spill m ys r)
  case (Cons it its)
  obtain q where q: "spilled spill (it # its) = it\<lparr>a_quid := q\<rparr> # its"
    "q = (if spill then clear_first_byte (a_quid it) else a_quid it)" by (cases spill) auto
  show ?case
  proof (cases "hidden it")
    case True
    then have "alias_rows (spilled spill (it # its)) m = alias_rows (spilled False its) m"
      unfolding q(1) by (auto simp: hidden_def Let_def)
    then show ?thesis using Cons.IH[of m ys r False] Cons.prems True by auto
  next
    case False
    then obtain r' where r: "r = Suc r'" using Cons.prems(2) by (cases r) auto
    let ?sp = "unat (a_len it) = ALIAS_NAME_LENGTH"
    obtain m1 where m1: "push_child m (Some (alias_row q it)) = Some m1" "holds m1 (ys @ [alias_row q it]) r'"
      "m_mtype m1 = m_mtype m" using holds_push[of m ys r' "alias_row q it"] Cons.prems(1) r by auto
    have e: "end_alias_name (it\<lparr>a_quid := q\<rparr>) its = Some (spilled ?sp its)"
      using end_alias_name_ok[of "it\<lparr>a_quid := q\<rparr>" its] Cons.prems(3) by simp
    have row: "alias_row q it = Marshall (Some (quidtostr q)) QUID_LENGTH (Some (ended_name (it\<lparr>a_quid := q\<rparr>))) (unat (a_len it)) [] 0 MTYPE_QUID"
      by (simp add: alias_row_def ended_name_def)
    have step: "alias_rows (spilled spill (it # its)) m = alias_rows (spilled ?sp its) m1"
      using False m1(1) unfolding q(1) row by (simp add: hidden_def Let_def e)
    obtain m2 where m2: "alias_rows (spilled ?sp its) m1 = Some m2"
      "holds m2 ((ys @ [alias_row q it]) @ listing ?sp its) (r' - length (listing ?sp its))" "m_mtype m2 = m_mtype m1"
      using Cons.IH[OF m1(2), of ?sp] Cons.prems(2,3) False r by auto
    have l: "listing spill (it # its) = alias_row q it # listing ?sp its" using False q(2) by simp
    show ?thesis unfolding step l using m2 m1(3) by (intro exI[of _ m2]) (simp add: r)
  qed
qed simp

abbreviation alias_listing :: "(u64 \<times> alias_list) list \<Rightarrow> marshall list" where
  "alias_listing ls \<equiv> concat (map (listing False \<circ> a_used \<circ> snd) ls)"

lemma alias_all_loop_ok:
  assumes "store_ok b" "linked (obj_at unwrap_alias b) a_link off ls" "\<forall>p\<in>fst ` set ls. valid b p" "\<forall>l\<in>snd ` set ls. alist_ok l"
    "holds m ys r" "length (alias_listing ls) \<le> r"
  shows "\<exists>m'. alias_all_loop b off m = Some m' \<and> children m' = Some (ys @ alias_listing ls) \<and> m_mtype m' = m_mtype m"
  using assms
proof (induction ls arbitrary: off m ys r)
  case Nil
  then show ?case by (subst alias_all_loop.simps) (simp add: holds_children)
next
  case (Cons x ls)
  obtain p l where x: "x = (p, l)" by fastforce
  have l: "off = p" "p \<noteq> 0" "get_alias_list b p = Some l" "alist_ok l"
    using Cons.prems x by (auto simp: aliases.get_ok)
  have le: "\<forall>it\<in>set (a_used l). unat (a_len it) \<le> ALIAS_NAME_LENGTH"
    using alist_okD(2)[OF l(4)] by (auto simp: a_used_def dest: in_set_takeD)
  obtain m1 where m1: "alias_rows (a_used l) m = Some m1"
    "holds m1 (ys @ listing False (a_used l)) (r - length (listing False (a_used l)))" "m_mtype m1 = m_mtype m"
    using alias_rows_ok[OF Cons.prems(5) _ le, of False] Cons.prems(6) x by auto
  have "alias_all_loop b off m = alias_all_loop b (a_link l) m1"
    using l m1(1) by (subst alias_all_loop.simps) (simp add: alist_ok_def)
  moreover have "\<exists>m'. alias_all_loop b (a_link l) m1 = Some m'
      \<and> children m' = Some ((ys @ listing False (a_used l)) @ alias_listing ls) \<and> m_mtype m' = m_mtype m1"
    using Cons.prems x by (intro Cons.IH[OF _ _ _ _ m1(2)]) auto
  ultimately show ?case using m1(3) x by (simp add: comp_def)
qed

text \<open>
  C11: A listing is an object with one member per visible alias, in chain order, each under the key of its record - but
  the key behind a name of 48 bytes is printed with its first byte cleared, because the name is ended in the next entry.
\<close>

theorem alias_all_lists:
  assumes "alias_ok b ls" "st_alias_size b \<noteq> 0" "length (alias_listing ls) \<le> tree_zcalloc_slots (unat (st_alias_size b))"
  shows "\<exists>m. alias_all b = Some (Some m) \<and> m_mtype m = MTYPE_OBJECT
    \<and> children m = Some (concat (map (listing False \<circ> a_used \<circ> snd) ls))"
proof -
  let ?m = "set_mtype MTYPE_OBJECT (set_child_array (calloc_children (unat (st_alias_size b))) zero_marshall)"
  have "holds ?m [] (tree_zcalloc_slots (unat (st_alias_size b)))"
    by (simp add: holds_def zero_marshall_def calloc_children_def)
  from alias_all_loop_ok[OF _ _ _ _ this assms(3), of b "off_alias b"] assms(1)
  obtain m' where "alias_all_loop b (off_alias b) ?m = Some m'" "children m' = Some (alias_listing ls)" "m_mtype m' = MTYPE_OBJECT"
    by (auto simp: alias_ok_def chain_at_def zero_marshall_def)
  then show ?thesis using assms(2) by (simp add: alias_all_def)
qed

definition spill_list :: alias_list where
  "spill_list = zero_alias_list\<lparr>a_items :=
     \<lparr>a_quid = zero_quid, a_len = 48, a_hash = 0, a_name = replicate 48 (CHR ''a'')\<rparr>
     # \<lparr>a_quid = Quid 0x12345678 0 0 0 0 0 0 0 0 0 0, a_len = 1, a_hash = 0, a_name = replicate 48 (CHR ''b'')\<rparr>
     # replicate 126 zero_alias_item, a_size := 2\<rparr>"

abbreviation spill_base :: base where
  "spill_base \<equiv> (demo 10000 (\<lambda>x. if x = 17 then Some (CAlias spill_list) else None))\<lparr>off_alias := 17, st_alias_size := 2\<rparr>"

lemma spill_base_ok: "alias_ok spill_base [(17, spill_list)]"
proof -
  let ?b = "demo 10000 (\<lambda>x. if x = 17 then Some (CAlias spill_list) else None)"
  have "cell_at ?b 17 = Some (CAlias spill_list)" "mark ?b = 10000" by (simp_all add: demo_cell demo_mark)
  moreover have "a_link spill_list = 0" "alist_ok spill_list" "a_size spill_list = 2"
    by (simp_all add: spill_list_def zero_alias_list_def alist_ok_def zero_alias_item_def)
  ultimately show ?thesis
    by (simp add: alias_ok_def chain_at_def obj_at_def demo_ok demo_valid)
qed

theorem alias_all_lists_witness:
  "\<exists>m r. alias_all spill_base = Some (Some m) \<and> children m = Some [r, alias_row (Quid 0x12345600 0 0 0 0 0 0 0 0 0 0)
      \<lparr>a_quid = Quid 0x12345678 0 0 0 0 0 0 0 0 0 0, a_len = 1, a_hash = 0, a_name = replicate 48 (CHR ''b'')\<rparr>]"
proof -
  have "a_used spill_list = [\<lparr>a_quid = zero_quid, a_len = 48, a_hash = 0, a_name = replicate 48 (CHR ''a'')\<rparr>,
      \<lparr>a_quid = Quid 0x12345678 0 0 0 0 0 0 0 0 0 0, a_len = 1, a_hash = 0, a_name = replicate 48 (CHR ''b'')\<rparr>]"
    by (simp add: a_used_def spill_list_def zero_alias_list_def take_Cons')
  then have "listing False (a_used spill_list) =
     [alias_row zero_quid \<lparr>a_quid = zero_quid, a_len = 48, a_hash = 0, a_name = replicate 48 (CHR ''a'')\<rparr>,
      alias_row (Quid 0x12345600 0 0 0 0 0 0 0 0 0 0)
        \<lparr>a_quid = Quid 0x12345678 0 0 0 0 0 0 0 0 0 0, a_len = 1, a_hash = 0, a_name = replicate 48 (CHR ''b'')\<rparr>]"
    by (simp add: hidden_def clear_first_byte_def)
  then show ?thesis
    using alias_all_lists[OF spill_base_ok] by (simp add: tree_zcalloc_slots) blast
qed

end
