(* ===== verification/Index_List.thy ===== *)
theory Index_List imports
  Alias
begin

text \<open>
  The list of indexes: src/index_list.c.  An entry names an index, the group it belongs to, the
  offset of its tree, and the indexed element, whose name is an object of its own in the store.  An entry with
  neither element nor offset is dead.
\<close>

section \<open>Lists and names in the store\<close>

fun unwrap_index :: "cell \<Rightarrow> index_list option" where
  "unwrap_index (CIndexList l) = Some l"
| "unwrap_index _ = None"

definition get_index_list :: "base \<Rightarrow> u64 \<Rightarrow> index_list option" where
  "get_index_list b off = do {
     c \<leftarrow> load_cell off b;
     c \<leftarrow> c;
     unwrap_index c }"

definition flush_index_list :: "base \<Rightarrow> index_list \<Rightarrow> u64 \<Rightarrow> base option" where
  "flush_index_list b l off = store_cell off (CIndexList l) b"

definition x_used :: "index_list \<Rightarrow> index_item list" where
  "x_used l = take (unat (x_size l)) (x_items l)"

definition zero_index_item :: index_item where
  "zero_index_item = \<lparr>x_index = zero_quid, x_group = zero_quid, x_offset = 0, x_element = 0, x_element_len = 0, x_type = 0\<rparr>"

definition zero_index_list :: index_list where
  "zero_index_list = \<lparr>x_items = replicate INDEX_LIST_SIZE zero_index_item, x_size = 0, x_link = 0\<rparr>"

text \<open>Zero bytes are read from anywhere; a failed read yields \<open>NULL\<close>.\<close>

definition get_element_name :: "base \<Rightarrow> nat \<Rightarrow> u64 \<Rightarrow> (string option \<times> base) option" where
  "get_element_name b element_len off = do {
     c \<leftarrow> load_cell off b;
     if element_len = 0 then Some (Some [], b)
     else (case c of
       Some (CName s) \<Rightarrow> if length s = element_len then Some (Some (buffer_string s), b) else Some (None, fail_read b)
     | _ \<Rightarrow> Some (None, fail_read b)) }"

definition flush_element_name :: "base \<Rightarrow> string \<Rightarrow> u64 \<Rightarrow> base option" where
  "flush_element_name b element off = store_cell off (CName element) b"

section \<open>Operations\<close>

definition new_index_item :: "quid \<Rightarrow> quid \<Rightarrow> u64 \<Rightarrow> string \<Rightarrow> u64 \<Rightarrow> u8 \<Rightarrow> index_item" where
  "new_index_item index grp psz_offset element offset type = \<lparr>x_index = index, x_group = grp, x_offset = offset,
     x_element = psz_offset, x_element_len = of_nat (length element), x_type = type\<rparr>"

definition index_list_add :: "base \<Rightarrow> quid \<Rightarrow> quid \<Rightarrow> string \<Rightarrow> u8 \<Rightarrow> u64 \<Rightarrow> (int \<times> base) option" where
  "index_list_add b index grp element type offset = do {
     b \<leftarrow> (if off_index_list b \<noteq> 0 then do {
          l \<leftarrow> get_index_list b (off_index_list b);
          zassert (unat (x_size l) \<le> INDEX_LIST_SIZE - 1);
          (psz_offset, b) \<leftarrow> pager_alloc b (of_nat (length element));
          b \<leftarrow> flush_element_name b element psz_offset;
          let l = l\<lparr>x_items := (x_items l)[unat (x_size l) := new_index_item index grp psz_offset element offset type],
                    x_size := x_size l + 1\<rparr>;
          let b = b\<lparr>st_index_list_size := st_index_list_size b + 1\<rparr>;
          if unat (x_size l) \<ge> INDEX_LIST_SIZE then do {
            b \<leftarrow> flush_index_list b l (off_index_list b);
            let new_list = zero_index_list\<lparr>x_link := off_index_list b\<rparr>;
            (new_list_offset, b) \<leftarrow> pager_alloc b sizeof_engine_index_list;
            b \<leftarrow> flush_index_list b new_list new_list_offset;
            Some (b\<lparr>off_index_list := new_list_offset\<rparr>) }
          else flush_index_list b l (off_index_list b) }
        else do {
          (psz_offset, b) \<leftarrow> pager_alloc b (of_nat (length element));
          b \<leftarrow> flush_element_name b element psz_offset;
          let new_list = zero_index_list\<lparr>x_items := (x_items zero_index_list)[0 := new_index_item index grp psz_offset element offset type],
                    x_size := 1\<rparr>;
          (new_list_offset, b) \<leftarrow> pager_alloc b sizeof_engine_index_list;
          b \<leftarrow> flush_index_list b new_list new_list_offset;
          Some (b\<lparr>off_index_list := new_list_offset, st_index_list_size := 1\<rparr>) });
     Some (0, if st_index_list_size b mod 2 = 0 then base_sync b else b) }"

abbreviation (input) no_index :: "base \<Rightarrow> base" where
  "no_index \<equiv> error_throw ''e553d927706a'' ''Index not found''"

definition x_live :: "index_item \<Rightarrow> bool" where
  "x_live it \<longleftrightarrow> \<not> (x_element_len it = 0 \<and> x_offset it = 0)"

text \<open>The loop that the look-ups share: the first live entry that passes the test.\<close>

partial_function (option) index_scan :: "base \<Rightarrow> (index_item \<Rightarrow> bool) \<Rightarrow> u64 \<Rightarrow> (u64 \<times> index_list \<times> nat) option option" where
  "index_scan b P off =
     (if off = 0 then Some None
      else do {
        l \<leftarrow> get_index_list b off;
        zassert (unat (x_size l) \<le> INDEX_LIST_SIZE);
        (case find_index (\<lambda>it. x_live it \<and> P it) (x_used l) of
           Some i \<Rightarrow> Some (Some (off, l, i))
         | None \<Rightarrow> index_scan b P (x_link l)) })"

abbreviation (input) on_group :: "quid \<Rightarrow> index_item \<Rightarrow> bool" where
  "on_group q it \<equiv> quidcmp q (x_group it) = 0"

abbreviation (input) on_index :: "quid \<Rightarrow> index_item \<Rightarrow> bool" where
  "on_index q it \<equiv> quidcmp q (x_index it) = 0"

definition index_list_get_index :: "base \<Rightarrow> quid \<Rightarrow> (quid option \<times> base) option" where
  "index_list_get_index b c_quid = do {
     r \<leftarrow> index_scan b (on_group c_quid) (off_index_list b);
     Some (case r of Some (off, l, i) \<Rightarrow> (Some (x_index (x_items l ! i)), b) | None \<Rightarrow> (None, no_index b)) }"

definition index_list_get_index_offset :: "base \<Rightarrow> quid \<Rightarrow> (u64 \<times> base) option" where
  "index_list_get_index_offset b c_quid = do {
     r \<leftarrow> index_scan b (on_index c_quid) (off_index_list b);
     Some (case r of Some (off, l, i) \<Rightarrow> (x_offset (x_items l ! i), b) | None \<Rightarrow> (0, no_index b)) }"

definition index_list_get_index_element :: "base \<Rightarrow> quid \<Rightarrow> (string option \<times> base) option" where
  "index_list_get_index_element b c_quid = do {
     r \<leftarrow> index_scan b (on_index c_quid) (off_index_list b);
     (case r of
        Some (off, l, i) \<Rightarrow> get_element_name b (unat (x_element_len (x_items l ! i))) (x_element (x_items l ! i))
      | None \<Rightarrow> Some (None, no_index b)) }"

definition index_list_get_index_group :: "base \<Rightarrow> quid \<Rightarrow> (quid option \<times> base) option" where
  "index_list_get_index_group b c_quid = do {
     r \<leftarrow> index_scan b (on_index c_quid) (off_index_list b);
     Some (case r of Some (off, l, i) \<Rightarrow> (Some (x_group (x_items l ! i)), b) | None \<Rightarrow> (None, no_index b)) }"

definition index_list_update_offset :: "base \<Rightarrow> quid \<Rightarrow> u64 \<Rightarrow> (int \<times> base) option" where
  "index_list_update_offset b index index_offset = do {
     r \<leftarrow> index_scan b (on_index index) (off_index_list b);
     (case r of
        Some (off, l, i) \<Rightarrow> do {
          b \<leftarrow> flush_index_list b (l\<lparr>x_items := (x_items l)[i := (x_items l ! i)\<lparr>x_offset := index_offset\<rparr>]\<rparr>) off;
          Some (0, b) }
      | None \<Rightarrow> Some (- 1, no_index b)) }"

text \<open>
  \<open>memset(&item.element, 0, 64)\<close>: the entry ends 13 bytes behind \<open>element\<close>, the other 51 are the two keys, the offset and
  the first three bytes of the big-endian \<open>element\<close> of the next entry.  Behind the last
  entry the call runs out of the list.
\<close>

definition wipe_next :: "index_item \<Rightarrow> index_item" where
  "wipe_next it = it\<lparr>x_index := zero_quid, x_group := zero_quid, x_offset := 0,
     x_element := x_element it AND 0xffffffffff\<rparr>"

definition wipe_entry :: "index_item list \<Rightarrow> nat \<Rightarrow> index_item list option" where
  "wipe_entry its i = do {
     zassert (i + 1 < length its);
     Some (its[i := zero_index_item, i + 1 := wipe_next (its ! (i + 1))]) }"

definition index_list_delete :: "base \<Rightarrow> quid \<Rightarrow> (int \<times> base) option" where
  "index_list_delete b index = do {
     r \<leftarrow> index_scan b (on_index index) (off_index_list b);
     (case r of
        Some (off, l, i) \<Rightarrow> do {
          its \<leftarrow> wipe_entry (x_items l) i;
          b \<leftarrow> flush_index_list b (l\<lparr>x_items := its\<rparr>) off;
          Some (0, b\<lparr>st_index_list_size := st_index_list_size b - 1\<rparr>) }
      | None \<Rightarrow> Some (- 1, no_index b)) }"

definition index_type :: "u8 \<Rightarrow> string" where
  "index_type type = (if type = 0 then ''BTREE'' else if type = 1 then ''HASH'' else ''NULL'')"

section \<open>Listings\<close>

partial_function (option) index_size_loop :: "base \<Rightarrow> quid \<Rightarrow> u64 \<Rightarrow> nat \<Rightarrow> nat option" where
  "index_size_loop b c_quid off count =
     (if off = 0 then Some count
      else do {
        l \<leftarrow> get_index_list b off;
        zassert (unat (x_size l) \<le> INDEX_LIST_SIZE);
        index_size_loop b c_quid (x_link l) (count + length (filter (\<lambda>it. x_live it \<and> on_group c_quid it) (x_used l))) })"

definition index_list_size :: "base \<Rightarrow> quid \<Rightarrow> nat option" where
  "index_list_size b c_quid = index_size_loop b c_quid (off_index_list b) 0"

text \<open>The loop of the three listings: a row per live entry that passes the test.\<close>

fun index_rows :: "(base \<Rightarrow> index_item \<Rightarrow> (marshall \<times> base) option) \<Rightarrow> (index_item \<Rightarrow> bool) \<Rightarrow> index_item list
    \<Rightarrow> marshall \<Rightarrow> base \<Rightarrow> (marshall \<times> base) option" where
  "index_rows row P [] m b = Some (m, b)"
| "index_rows row P (it # its) m b =
     (if \<not> x_live it then index_rows row P its m b
      else if P it then do {
        (c, b) \<leftarrow> row b it;
        m \<leftarrow> push_child m (Some c);
        index_rows row P its m b }
      else index_rows row P its m b)"

partial_function (option) index_rows_loop :: "(base \<Rightarrow> index_item \<Rightarrow> (marshall \<times> base) option) \<Rightarrow> (index_item \<Rightarrow> bool)
    \<Rightarrow> u64 \<Rightarrow> marshall \<Rightarrow> base \<Rightarrow> (marshall \<times> base) option" where
  "index_rows_loop row P off m b =
     (if off = 0 then Some (m, b)
      else do {
        l \<leftarrow> get_index_list b off;
        zassert (unat (x_size l) \<le> INDEX_LIST_SIZE);
        (m, b) \<leftarrow> index_rows row P (x_used l) m b;
        index_rows_loop row P (x_link l) m b })"

definition new_array :: "marshall_type \<Rightarrow> nat \<Rightarrow> marshall" where
  "new_array t n = set_mtype t (set_child_array (calloc_children n) zero_marshall)"

definition element_row :: "base \<Rightarrow> index_item \<Rightarrow> (marshall \<times> base) option" where
  "element_row b it = do {
     (element, b) \<leftarrow> get_element_name b (unat (x_element_len it)) (x_element it);
     element \<leftarrow> element;
     Some (set_mtype MTYPE_STRING (set_data (Some element) (unat (x_element_len it)) zero_marshall), b) }"

definition index_list_get_element :: "base \<Rightarrow> quid \<Rightarrow> (marshall option \<times> base) option" where
  "index_list_get_element b c_quid = do {
     index_elements \<leftarrow> index_list_size b c_quid;
     if index_elements = 0 then Some (None, b)
     else do {
       (m, b) \<leftarrow> index_rows_loop element_row (on_group c_quid) (off_index_list b) (new_array MTYPE_ARRAY index_elements) b;
       Some (Some m, no_index b) } }"

text \<open>The members "element" and "type" of a row.\<close>

definition named_leaf :: "string \<Rightarrow> nat \<Rightarrow> string \<Rightarrow> nat \<Rightarrow> marshall_type \<Rightarrow> marshall" where
  "named_leaf name name_len dat data_len t =
     set_mtype t (set_data (Some dat) data_len (set_name (Some name) name_len zero_marshall))"

definition row_members :: "base \<Rightarrow> index_item \<Rightarrow> (marshall \<times> marshall \<times> base) option" where
  "row_members b it = do {
     (element, b) \<leftarrow> get_element_name b (unat (x_element_len it)) (x_element it);
     element \<leftarrow> element;
     let type = index_type (x_type it);
     Some (named_leaf ''element'' 7 element (unat (x_element_len it)) (if strisdigit element then MTYPE_INT else MTYPE_STRING),
           named_leaf ''type'' 4 type (length type) MTYPE_STRING, b) }"

definition row_object :: "marshall list \<Rightarrow> marshall" where
  "row_object cs = set_size 3 (set_child_array (map Some cs @ replicate (tree_zcalloc_slots 3 - length cs) None)
     (set_mtype MTYPE_OBJECT zero_marshall))"

definition group_row :: "base \<Rightarrow> index_item \<Rightarrow> (marshall \<times> base) option" where
  "group_row b it = do {
     (group_name, b) \<leftarrow> alias_get_val b (x_group it);
     (element, type, b) \<leftarrow> row_members b it;
     Some (row_object [named_leaf ''index'' 5 (quidtostr (x_index it)) QUID_LENGTH MTYPE_QUID, element, type], b) }"

definition index_list_on_group :: "base \<Rightarrow> quid \<Rightarrow> (marshall option \<times> base) option" where
  "index_list_on_group b c_quid = do {
     index_elements \<leftarrow> index_list_size b c_quid;
     if index_elements = 0 then Some (None, b)
     else do {
       (m, b) \<leftarrow> index_rows_loop group_row (on_group c_quid) (off_index_list b) (new_array MTYPE_ARRAY index_elements) b;
       Some (Some m, b) } }"

text \<open>The lengths of the group's name and data are \<open>QUID_LENGTH\<close> and, for a key, 5.\<close>

definition index_row :: "base \<Rightarrow> index_item \<Rightarrow> (marshall \<times> base) option" where
  "index_row b it = do {
     (group_name, b) \<leftarrow> alias_get_val b (x_group it);
     let grp = (case group_name of
           Some n \<Rightarrow> named_leaf ''group'' QUID_LENGTH n (length n) MTYPE_STRING
         | None \<Rightarrow> named_leaf ''group'' QUID_LENGTH (quidtostr (x_group it)) 5 MTYPE_QUID);
     (element, type, b) \<leftarrow> row_members b it;
     Some (set_name (Some (quidtostr (x_index it))) QUID_LENGTH (row_object [grp, element, type]), b) }"

definition index_list_all :: "base \<Rightarrow> (marshall option \<times> base) option" where
  "index_list_all b =
     (if st_index_list_size b = 0 then Some (None, b)
      else do {
        (m, b) \<leftarrow> index_rows_loop index_row (\<lambda>_. True) (off_index_list b)
          (new_array MTYPE_OBJECT (unat (st_index_list_size b))) b;
        Some (Some m, b) })"

interpretation indexes: chain_reader CIndexList unwrap_index x_link get_index_list x_used
  "\<lambda>l. unat (x_size l) \<le> INDEX_LIST_SIZE" x_live index_scan
proof unfold_locales
  show "get_index_list b off = do { c \<leftarrow> load_cell off b; c \<leftarrow> c; unwrap_index c }" for b off
    by (rule get_index_list_def)
  show "index_scan b P off =
      (if off = 0 then Some None
       else do {
         l \<leftarrow> get_index_list b off;
         zassert (unat (x_size l) \<le> INDEX_LIST_SIZE);
         (case find_index (\<lambda>it. x_live it \<and> P it) (x_used l) of
            Some i \<Rightarrow> Some (Some (off, l, i))
          | None \<Rightarrow> index_scan b P (x_link l)) })" for b P off
    by (rule index_scan.simps)
qed simp

section \<open>Well-formed chains\<close>

abbreviation x_entries :: "(u64 \<times> index_list) list \<Rightarrow> index_item list" where
  "x_entries \<equiv> chain_items x_used"

definition xlist_ok :: "index_list \<Rightarrow> bool" where
  "xlist_ok l \<longleftrightarrow> length (x_items l) = INDEX_LIST_SIZE \<and> unat (x_size l) \<le> INDEX_LIST_SIZE"

definition index_ok :: "base \<Rightarrow> (u64 \<times> index_list) list \<Rightarrow> bool" where
  "index_ok b ls \<longleftrightarrow> chain_at unwrap_index x_link b (off_index_list b) ls \<and> (\<forall>l\<in>snd ` set ls. xlist_ok l)"

lemma find_index_split:
  "\<forall>x\<in>set us. \<not> P x \<Longrightarrow> P y \<Longrightarrow> find_index P (us @ y # vs) = Some (length us)"
  by (induction us) auto

text \<open>The search of the list functions for the entry of an index.\<close>

lemma index_scan_split:
  assumes ok: "index_ok b (pre @ (p, l) # post)" and u: "x_used l = us @ it # vs" and it: "x_live it" "P it"
    and first: "\<forall>x\<in>set (x_entries pre @ us). x_live x \<longrightarrow> \<not> P x"
  shows "index_scan b P (off_index_list b) = Some (Some (p, l, length us))"
proof -
  let ?Q = "\<lambda>it. x_live it \<and> P it" and ?ls = "pre @ (p, l) # post"
  have c: "store_ok b" "linked (obj_at unwrap_index b) x_link (off_index_list b) ?ls" "\<forall>p\<in>fst ` set ?ls. valid b p"
    "\<forall>l\<in>snd ` set ?ls. unat (x_size l) \<le> INDEX_LIST_SIZE"
    using ok by (auto simp: index_ok_def chain_at_def xlist_ok_def)
  have i: "find_index ?Q (x_used l) = Some (length us)"
    unfolding u using first it by (intro find_index_split) auto
  have "\<forall>pl\<in>set pre. find_index ?Q (x_used (snd pl)) = None"
    using first by (auto simp: find_index_None chain_items_def)
  then have "find_index (\<lambda>pl. find_index ?Q (x_used (snd pl)) \<noteq> None) ?ls = Some (length pre)"
    using i by (intro find_index_split) auto
  then show ?thesis
    unfolding indexes.scan_eq[OF c, of P] option.case using i by simp
qed

lemma index_rewrite:
  assumes ok: "index_ok b (pre @ (p, l) # post)" and l': "x_link l' = x_link l" "xlist_ok l'"
  obtains D where "flush_index_list b l' p = Some (b\<lparr>disk := D\<rparr>)" "index_ok (b\<lparr>disk := D\<rparr>) (pre @ (p, l') # post)"
    "\<And>x. valid b x \<Longrightarrow> x \<noteq> p \<Longrightarrow> cell_at (b\<lparr>disk := D\<rparr>) x = cell_at b x"
proof -
  have c: "chain_at unwrap_index x_link b (off_index_list b) (pre @ (p, l) # post)" using ok by (simp add: index_ok_def)
  obtain D where "store_cell p (CIndexList l') b = Some (b\<lparr>disk := D\<rparr>)"
    "chain_at unwrap_index x_link (b\<lparr>disk := D\<rparr>) (off_index_list b) (pre @ (p, l') # post)"
    "\<And>x. valid b x \<Longrightarrow> x \<noteq> p \<Longrightarrow> cell_at (b\<lparr>disk := D\<rparr>) x = cell_at b x"
    using indexes.rewrite[OF c, of "length pre" l'] l'(1) by (auto simp: nth_append)
  then show ?thesis using that[of D] ok l'(2) by (simp add: index_ok_def flush_index_list_def)
qed

lemma x_used_items:
  assumes "xlist_ok l" "x_used l = us @ vs"
  shows "x_items l = us @ vs @ drop (unat (x_size l)) (x_items l)" "unat (x_size l) = length us + length vs"
proof -
  show "unat (x_size l) = length us + length vs"
    using arg_cong[OF assms(2), of length] assms(1) by (simp add: x_used_def xlist_ok_def)
  show "x_items l = us @ vs @ drop (unat (x_size l)) (x_items l)"
    using assms(2) append_take_drop_id[of "unat (x_size l)" "x_items l"] by (simp add: x_used_def)
qed

text \<open>A list whose used items are replaced by as many others.\<close>

lemma x_used_replace:
  assumes l: "xlist_ok l" "x_used l = us @ vs" and n: "length vs' = length vs"
  shows "x_used (l\<lparr>x_items := us @ vs' @ drop (unat (x_size l)) (x_items l)\<rparr>) = us @ vs'"
    and "xlist_ok (l\<lparr>x_items := us @ vs' @ drop (unat (x_size l)) (x_items l)\<rparr>)"
proof -
  have s: "unat (x_size l) = length (us @ vs')" using x_used_items(2)[OF l] n by simp
  show "x_used (l\<lparr>x_items := us @ vs' @ drop (unat (x_size l)) (x_items l)\<rparr>) = us @ vs'"
    using s by (simp add: x_used_def)
  show "xlist_ok (l\<lparr>x_items := us @ vs' @ drop (unat (x_size l)) (x_items l)\<rparr>)"
    using l(1) s by (simp add: xlist_ok_def)
qed

section \<open>Properties\<close>

text \<open>
  C12: \<open>index_list_delete\<close> removes the entry of the index and ruins the one behind it: the \<open>memset\<close> over 64 bytes clears
  the keys and the offset of the next entry of the list, whose index can no longer be found.  For the last entry
  of a full list it writes outside the list.
\<close>

theorem index_list_delete_wipes:
  assumes ok: "index_ok b (pre @ (p, l) # post)" and it: "x_live it" "x_index it = q"
    and first: "\<forall>x\<in>set (x_entries pre @ us). x_live x \<longrightarrow> x_index x \<noteq> q"
  shows "(x_used l = us @ it # nx # vs \<longrightarrow> (\<exists>b' l'. index_list_delete b q = Some (0, b') \<and> index_ok b' (pre @ (p, l') # post)
        \<and> x_used l' = us @ zero_index_item # wipe_next nx # vs))
    \<and> (x_used l = us @ [it] \<longrightarrow> length us = 63 \<longrightarrow> index_list_delete b q = None)"
proof (intro conjI impI)
  have l: "xlist_ok l" using ok by (simp add: index_ok_def)
  assume u: "x_used l = us @ it # nx # vs"
  have sc: "index_scan b (on_index q) (off_index_list b) = Some (Some (p, l, length us))"
    using ok u it first by (intro index_scan_split) (auto simp: quidcmp_eq_0)
  have items: "x_items l = us @ (it # nx # vs) @ drop (unat (x_size l)) (x_items l)"
    using x_used_items(1)[OF l u] .
  let ?its = "us @ (zero_index_item # wipe_next nx # vs) @ drop (unat (x_size l)) (x_items l)"
  let ?l' = "l\<lparr>x_items := ?its\<rparr>"
  have "wipe_entry (x_items l) (length us) = Some ?its"
    by (subst items) (simp add: wipe_entry_def list_update_append nth_append)
  moreover note l' = x_used_replace[OF l u, of "zero_index_item # wipe_next nx # vs"]
  obtain D where D: "flush_index_list b ?l' p = Some (b\<lparr>disk := D\<rparr>)" "index_ok (b\<lparr>disk := D\<rparr>) (pre @ (p, ?l') # post)"
    using index_rewrite[OF ok, of ?l'] l'(2) by auto
  let ?b' = "b\<lparr>disk := D, st_index_list_size := st_index_list_size b - 1\<rparr>"
  have "index_ok ?b' (pre @ (p, ?l') # post)"
    using D(2) chain_at_same_store[of ?b' "b\<lparr>disk := D\<rparr>" unwrap_index x_link] by (simp add: index_ok_def same_store_def)
  ultimately show "\<exists>b' l'. index_list_delete b q = Some (0, b') \<and> index_ok b' (pre @ (p, l') # post)
      \<and> x_used l' = us @ zero_index_item # wipe_next nx # vs"
    using sc D(1) l'(1) by (intro exI[of _ ?b'] exI[of _ ?l']) (simp add: index_list_delete_def)
next
  have l: "xlist_ok l" using ok by (simp add: index_ok_def)
  assume u: "x_used l = us @ [it]" and n: "length us = 63"
  have sc: "index_scan b (on_index q) (off_index_list b) = Some (Some (p, l, length us))"
    using ok u it first by (intro index_scan_split) (auto simp: quidcmp_eq_0)
  then show "index_list_delete b q = None"
    using l n by (simp add: index_list_delete_def wipe_entry_def xlist_ok_def)
qed

definition demo_index :: "quid \<Rightarrow> index_item" where
  "demo_index q = \<lparr>x_index = q, x_group = q, x_offset = 5, x_element = 6, x_element_len = 7, x_type = 0\<rparr>"

definition demo_index_list :: index_list where
  "demo_index_list = \<lparr>x_items = demo_index (Quid 1 0 0 0 0 0 0 0 0 0 0) # demo_index (Quid 2 0 0 0 0 0 0 0 0 0 0)
     # replicate 62 zero_index_item, x_size = 2, x_link = 0\<rparr>"

abbreviation demo_index_base :: base where
  "demo_index_base \<equiv> (demo 10000 (\<lambda>x. if x = 17 then Some (CIndexList demo_index_list) else None))\<lparr>off_index_list := 17\<rparr>"

lemma demo_index_ok: "index_ok demo_index_base ([] @ (17, demo_index_list) # [])"
proof -
  let ?b = "demo 10000 (\<lambda>x. if x = 17 then Some (CIndexList demo_index_list) else None)"
  have "cell_at ?b 17 = Some (CIndexList demo_index_list)" "mark ?b = 10000" by (simp_all add: demo_cell demo_mark)
  moreover have "x_link demo_index_list = 0" "xlist_ok demo_index_list"
    by (simp_all add: demo_index_list_def xlist_ok_def)
  ultimately show ?thesis
    by (simp add: index_ok_def chain_at_def obj_at_def demo_ok demo_valid)
qed

lemma demo_index_used:
  "x_used demo_index_list = [demo_index (Quid 1 0 0 0 0 0 0 0 0 0 0), demo_index (Quid 2 0 0 0 0 0 0 0 0 0 0)]"
  by (simp add: x_used_def demo_index_list_def take_Cons')

theorem index_list_delete_wipes_witness:
  "\<exists>b' l'. index_list_delete demo_index_base (Quid 1 0 0 0 0 0 0 0 0 0 0) = Some (0, b') \<and> index_ok b' [(17, l')]
    \<and> x_used l' = [zero_index_item, wipe_next (demo_index (Quid 2 0 0 0 0 0 0 0 0 0 0))]"
  using index_list_delete_wipes[OF demo_index_ok, of "demo_index (Quid 1 0 0 0 0 0 0 0 0 0 0)" "Quid 1 0 0 0 0 0 0 0 0 0 0"
      "[]" "demo_index (Quid 2 0 0 0 0 0 0 0 0 0 0)" "[]"] demo_index_used
  by (simp add: x_live_def demo_index_def)

lemma index_size_loop_eq:
  assumes "store_ok b" "linked (obj_at unwrap_index b) x_link off ls" "\<forall>p\<in>fst ` set ls. valid b p" "\<forall>l\<in>snd ` set ls. xlist_ok l"
  shows "index_size_loop b q off n = Some (n + length (filter (\<lambda>it. x_live it \<and> on_group q it) (x_entries ls)))"
  using assms
proof (induction ls arbitrary: off n)
  case Nil
  then show ?case by (subst index_size_loop.simps) simp
next
  case (Cons x ls)
  obtain p l where x: "x = (p, l)" by fastforce
  then show ?case
    using Cons by (subst index_size_loop.simps) (simp add: indexes.get_ok xlist_ok_def)
qed

text \<open>Rows that leave the state alone.\<close>

lemma index_rows_ok:
  assumes "holds m ys r" "\<forall>it\<in>set its. x_live it \<and> P it \<longrightarrow> row b it = Some (f it, b)"
    "length (filter (\<lambda>it. x_live it \<and> P it) its) \<le> r"
  shows "\<exists>m'. index_rows row P its m b = Some (m', b)
    \<and> holds m' (ys @ map f (filter (\<lambda>it. x_live it \<and> P it) its)) (r - length (filter (\<lambda>it. x_live it \<and> P it) its))
    \<and> m_mtype m' = m_mtype m"
  using assms
proof (induction its arbitrary: m ys r)
  case (Cons it its)
  show ?case
  proof (cases "x_live it \<and> P it")
    case False
    then show ?thesis using Cons.IH[of m ys r] Cons.prems by auto
  next
    case True
    then obtain r' where r: "r = Suc r'" using Cons.prems(3) by (cases r) auto
    obtain m1 where m1: "push_child m (Some (f it)) = Some m1" "holds m1 (ys @ [f it]) r'" "m_mtype m1 = m_mtype m"
      using holds_push[of m ys r' "f it"] Cons.prems(1) r by auto
    have step: "index_rows row P (it # its) m b = index_rows row P its m1 b"
      using True m1(1) Cons.prems(2) by simp
    show ?thesis
      unfolding step using Cons.IH[OF m1(2)] Cons.prems(2,3) True m1(3) r by auto
  qed
qed simp

lemma index_rows_loop_ok:
  assumes "store_ok b" "linked (obj_at unwrap_index b) x_link off ls" "\<forall>p\<in>fst ` set ls. valid b p" "\<forall>l\<in>snd ` set ls. xlist_ok l"
    "holds m ys r" "\<forall>it\<in>set (x_entries ls). x_live it \<and> P it \<longrightarrow> row b it = Some (f it, b)"
    "length (filter (\<lambda>it. x_live it \<and> P it) (x_entries ls)) \<le> r"
  shows "\<exists>m'. index_rows_loop row P off m b = Some (m', b)
    \<and> children m' = Some (ys @ map f (filter (\<lambda>it. x_live it \<and> P it) (x_entries ls))) \<and> m_mtype m' = m_mtype m"
  using assms
proof (induction ls arbitrary: off m ys r)
  case Nil
  then show ?case by (subst index_rows_loop.simps) (simp add: holds_children)
next
  case (Cons x ls)
  obtain p l where x: "x = (p, l)" by fastforce
  have l: "off = p" "p \<noteq> 0" "get_index_list b p = Some l" "xlist_ok l"
    using Cons.prems x by (auto simp: indexes.get_ok)
  let ?F = "filter (\<lambda>it. x_live it \<and> P it)"
  obtain m1 where m1: "index_rows row P (x_used l) m b = Some (m1, b)"
    "holds m1 (ys @ map f (?F (x_used l))) (r - length (?F (x_used l)))" "m_mtype m1 = m_mtype m"
    using index_rows_ok[OF Cons.prems(5), of "x_used l" P row b f] Cons.prems(6,7) x by auto
  have "index_rows_loop row P off m b = index_rows_loop row P (x_link l) m1 b"
    using l m1(1) by (subst index_rows_loop.simps) (simp add: xlist_ok_def)
  moreover have "\<exists>m'. index_rows_loop row P (x_link l) m1 b = Some (m', b)
      \<and> children m' = Some ((ys @ map f (?F (x_used l))) @ map f (?F (x_entries ls))) \<and> m_mtype m' = m_mtype m1"
    using Cons.prems x by (intro Cons.IH[OF _ _ _ _ m1(2)]) auto
  ultimately show ?case using m1(3) x by simp
qed

definition named_element :: "base \<Rightarrow> index_item \<Rightarrow> string \<Rightarrow> bool" where
  "named_element b it s \<longleftrightarrow> valid b (x_element it) \<and> cell_at b (x_element it) = Some (CName s)
     \<and> length s = unat (x_element_len it) \<and> NUL \<notin> set s"

lemma element_row_ok:
  assumes "store_ok b" "named_element b it s"
  shows "element_row b it = Some (set_mtype MTYPE_STRING (set_data (Some s) (length s) zero_marshall), b)"
proof -
  have "takeWhile (\<lambda>c. c \<noteq> NUL) s = s" using assms(2) by (auto simp: takeWhile_eq_all_conv named_element_def)
  moreover have n: "valid b (x_element it)" "cell_at b (x_element it) = Some (CName s)" "unat (x_element_len it) = length s"
    using assms(2) by (auto simp: named_element_def)
  ultimately have "get_element_name b (length s) (x_element it) = Some (Some s, b)"
    by (simp add: get_element_name_def load_cell_ok[OF assms(1)] buffer_string_def)
  then show ?thesis by (simp add: element_row_def n(3))
qed

text \<open>
  \<open>index_list_get_element\<close> returns the names of all elements indexed for a group, in chain order, and yet
  reports the error "Index not found" whenever there is one; without any it returns no tree and no error.
\<close>

theorem index_list_get_element_errs:
  assumes ok: "index_ok b ls" and n: "\<forall>it\<in>set (x_entries ls). x_live it \<and> x_group it = q \<longrightarrow> named_element b it (name it)"
  shows "(if \<exists>it\<in>set (x_entries ls). x_live it \<and> x_group it = q
    then \<exists>m. index_list_get_element b q = Some (Some m, error_throw ''e553d927706a'' ''Index not found'' b)
      \<and> children m = Some (map (\<lambda>it. Marshall None 0 (Some (name it)) (length (name it)) [] 0 MTYPE_STRING)
          (filter (\<lambda>it. x_live it \<and> x_group it = q) (x_entries ls)))
    else index_list_get_element b q = Some (None, b))"
proof -
  let ?F = "filter (\<lambda>it. x_live it \<and> on_group q it) (x_entries ls)"
  have c: "store_ok b" "linked (obj_at unwrap_index b) x_link (off_index_list b) ls" "\<forall>p\<in>fst ` set ls. valid b p"
    "\<forall>l\<in>snd ` set ls. xlist_ok l"
    using ok by (auto simp: index_ok_def chain_at_def)
  have F: "?F = filter (\<lambda>it. x_live it \<and> x_group it = q) (x_entries ls)"
    by (rule filter_cong) (auto simp: quidcmp_eq_0)
  have size: "index_list_size b q = Some (length ?F)"
    unfolding index_list_size_def index_size_loop_eq[OF c] by simp
  let ?f = "\<lambda>it. Marshall None 0 (Some (name it)) (length (name it)) [] 0 MTYPE_STRING"
  have row: "\<forall>it\<in>set (x_entries ls). x_live it \<and> on_group q it \<longrightarrow> element_row b it = Some (?f it, b)"
    using n element_row_ok[OF c(1)] by (auto simp: quidcmp_eq_0 zero_marshall_def)
  have new: "holds (new_array MTYPE_ARRAY (length ?F)) [] (tree_zcalloc_slots (length ?F))"
    by (simp add: holds_def new_array_def calloc_children_def zero_marshall_def)
  show ?thesis
  proof (cases "?F = []")
    case True
    then show ?thesis using size unfolding F by (auto simp: index_list_get_element_def filter_empty_conv)
  next
    case False
    obtain m where "index_rows_loop element_row (on_group q) (off_index_list b) (new_array MTYPE_ARRAY (length ?F)) b = Some (m, b)"
      "children m = Some (map ?f ?F)"
      using index_rows_loop_ok[OF c new, where P = "on_group q" and row = element_row and f = ?f] row by auto
    then have "index_list_get_element b q = Some (Some m, no_index b)"
      using False size by (simp add: index_list_get_element_def)
    then show ?thesis using \<open>children m = _\<close> False unfolding F by (auto simp: filter_empty_conv)
  qed
qed

theorem index_list_get_element_errs_witness:
  "index_list_get_element demo_index_base zero_quid = Some (None, demo_index_base)"
proof -
  have "\<forall>it\<in>set (x_entries [(17, demo_index_list)]). x_group it \<noteq> zero_quid"
    by (simp add: demo_index_used demo_index_def zero_quid_def)
  then show ?thesis
    using index_list_get_element_errs[of demo_index_base "[(17, demo_index_list)]" zero_quid "\<lambda>_. []"] demo_index_ok
    by auto
qed

end
