(* ===== verification/Btree.thy ===== *)
theory Btree imports
  Store CString Containers
begin

text \<open>
  Secondary indexes as B-trees of order 4 in the page files: src/btree.c.  A node is an object of the store; the root
  is also kept in memory and written back when the tree is closed.  Offsets are C \<open>long long\<close>s with -1
  for no node.  \<open>None\<close> is a failed read (the code goes on with an undefined node), an access outside a
  node or a key that overflows its 64 bytes.
\<close>

abbreviation (input) INDEX_SIZE :: nat where "INDEX_SIZE \<equiv> 4"
abbreviation (input) INDEX_MSIZE :: nat where "INDEX_MSIZE \<equiv> 2"
abbreviation (input) BTREE_KEY_SIZE :: nat where "BTREE_KEY_SIZE \<equiv> 64"
abbreviation (input) DEFAULT_RESULT_SIZE :: u64 where "DEFAULT_RESULT_SIZE \<equiv> 10"
abbreviation (input) sizeof_node :: u64 where "sizeof_node \<equiv> 368"
abbreviation (input) sizeof_root_super :: u64 where "sizeof_root_super \<equiv> 24"

datatype btree_status = INSERTNOTCOMPLETE | SUCCESS | DUPLICATEKEY | UNDERFLOW | NOTFOUND

record btree =
  ix_root :: int
  ix_freelist :: int
  ix_rootnode :: bnode
  ix_offset :: u64
  ix_unique :: bool

text \<open>\<open>strcmp\<close> compares the bytes as unsigned characters; only the sign of its result is specified.\<close>

fun strcmp :: "string \<Rightarrow> string \<Rightarrow> int" where
  "strcmp [] [] = 0"
| "strcmp [] (d # ds) = - 1"
| "strcmp (c # cs) [] = 1"
| "strcmp (c # cs) (d # ds) = (if code c < code d then - 1 else if code d < code c then 1 else strcmp cs ds)"

section \<open>Nodes in the store\<close>

definition zero_bitem :: bitem where
  "zero_bitem = \<lparr>bt_key = [], bt_key_size = 0, bt_valset = 0\<rparr>"

definition zero_bnode :: bnode where
  "zero_bnode = \<lparr>bn_cnt = 0, bn_items = replicate INDEX_SIZE zero_bitem, bn_ptr = replicate (INDEX_SIZE + 1) 0\<rparr>"

fun unwrap_node :: "cell \<Rightarrow> bnode option" where
  "unwrap_node (CNode n) = Some n"
| "unwrap_node _ = None"

definition get_node :: "base \<Rightarrow> btree \<Rightarrow> int \<Rightarrow> bnode option" where
  "get_node b ix off =
     (if off = ix_root ix then Some (ix_rootnode ix)
      else do {
        c \<leftarrow> load_cell (word_of_int off) b;
        c \<leftarrow> c;
        unwrap_node c })"

definition flush_node :: "base \<Rightarrow> btree \<Rightarrow> int \<Rightarrow> bnode \<Rightarrow> (base \<times> btree) option" where
  "flush_node b ix off n = do {
     let ix = (if off = ix_root ix then ix\<lparr>ix_rootnode := n\<rparr> else ix);
     b \<leftarrow> store_cell (word_of_int off) (CNode n) b;
     Some (b, ix) }"

text \<open>A node from the free list keeps its old contents until the caller flushes it.\<close>

definition alloc_node :: "base \<Rightarrow> btree \<Rightarrow> (int \<times> base \<times> btree) option" where
  "alloc_node b ix =
     (if ix_freelist ix < 0 then do {
        (off, b) \<leftarrow> pager_alloc b sizeof_node;
        (b, ix) \<leftarrow> flush_node b ix (sint off) zero_bnode;
        Some (sint off, b, ix) }
      else do {
        n \<leftarrow> get_node b ix (ix_freelist ix);
        Some (ix_freelist ix, b, ix\<lparr>ix_freelist := bn_ptr n ! 0\<rparr>) })"

definition free_node :: "base \<Rightarrow> btree \<Rightarrow> int \<Rightarrow> (base \<times> btree) option" where
  "free_node b ix off = do {
     n \<leftarrow> get_node b ix off;
     let n = n\<lparr>bn_ptr := (bn_ptr n)[0 := ix_freelist ix]\<rparr>;
     let ix = ix\<lparr>ix_freelist := off\<rparr>;
     flush_node b ix off n }"

definition storage_read :: "base \<Rightarrow> btree \<Rightarrow> btree option" where
  "storage_read b ix = do {
     c \<leftarrow> load_cell (ix_offset ix) b;
     c \<leftarrow> c;
     (case c of
        CRootSuper root freelist unique \<Rightarrow> do {
          n \<leftarrow> get_node b ix root;
          Some (ix\<lparr>ix_rootnode := n, ix_root := root, ix_freelist := freelist, ix_unique := unique\<rparr>) }
      | _ \<Rightarrow> None) }"

definition storage_write :: "base \<Rightarrow> btree \<Rightarrow> (base \<times> btree) option" where
  "storage_write b ix = do {
     b \<leftarrow> store_cell (ix_offset ix) (CRootSuper (ix_root ix) (ix_freelist ix) (ix_unique ix)) b;
     if ix_root ix \<noteq> - 1 then flush_node b ix (ix_root ix) (ix_rootnode ix) else Some (b, ix) }"

definition btree_set_unique :: "btree \<Rightarrow> bool \<Rightarrow> btree" where
  "btree_set_unique ix unique = ix\<lparr>ix_unique := unique\<rparr>"

definition new_btree :: "u64 \<Rightarrow> btree" where
  "new_btree off = \<lparr>ix_root = - 1, ix_freelist = - 1, ix_rootnode = zero_bnode, ix_offset = off, ix_unique = True\<rparr>"

definition btree_create :: "base \<Rightarrow> (u64 \<times> base \<times> btree) option" where
  "btree_create b = do {
     (off, b) \<leftarrow> pager_alloc b sizeof_root_super;
     (b, ix) \<leftarrow> storage_write b (new_btree off);
     Some (ix_offset ix, b, ix) }"

definition btree_open :: "base \<Rightarrow> u64 \<Rightarrow> btree option" where
  "btree_open b off = storage_read b (new_btree off)"

definition btree_close :: "base \<Rightarrow> btree \<Rightarrow> base option" where
  "btree_close b ix = do { (b, ix) \<leftarrow> storage_write b ix; Some b }"

section \<open>Search\<close>

text \<open>The loop keeps \<open>left < right\<close>; it ends when they are neighbours.\<close>

function btree_bsearch :: "string \<Rightarrow> bitem list \<Rightarrow> nat \<Rightarrow> nat \<Rightarrow> nat" where
  "btree_bsearch key kv left right =
     (if right - left > 1
      then (let i = (right + left) div 2
            in if strcmp key (bt_key (kv ! i)) \<le> 0 then btree_bsearch key kv left i else btree_bsearch key kv i right)
      else right)"
  by pat_completeness auto
termination by (relation "measure (\<lambda>(key, kv, left, right). right - left)") auto

declare btree_bsearch.simps [simp del]

text \<open>The position of the first key that is not smaller; a node without keys has no last one to compare with.\<close>

definition btree_pos :: "string \<Rightarrow> bitem list \<Rightarrow> nat \<Rightarrow> nat option" where
  "btree_pos key kv n =
     (if strcmp key (bt_key (kv ! 0)) \<le> 0 then Some 0
      else if n = 0 then None
      else if strcmp key (bt_key (kv ! (n - 1))) > 0 then Some n
      else Some (btree_bsearch key kv 0 (n - 1)))"

text \<open>The values of the entries of a node from position \<open>x\<close> on that have the key.\<close>

fun append_matches :: "string \<Rightarrow> bitem list \<Rightarrow> u64 vector \<Rightarrow> u64 vector option" where
  "append_matches key [] result = Some result"
| "append_matches key (kv # kvs) result =
     (if strcmp key (bt_key kv) = 0
      then (case vector_append result (bt_valset kv) of
          Some result \<Rightarrow> append_matches key kvs result
        | None \<Rightarrow> None)
      else append_matches key kvs result)"

partial_function (option) btree_get_loop :: "base \<Rightarrow> btree \<Rightarrow> string \<Rightarrow> int \<Rightarrow> u64 vector \<Rightarrow> u64 vector option" where
  "btree_get_loop b ix key off result =
     (if off = - 1 then Some result
      else do {
        node \<leftarrow> get_node b ix off;
        i \<leftarrow> btree_pos key (bn_items node) (bn_cnt node);
        result \<leftarrow> append_matches key (drop i (take (bn_cnt node) (bn_items node))) result;
        btree_get_loop b ix key (bn_ptr node ! i) result })"

definition btree_get :: "base \<Rightarrow> btree \<Rightarrow> string \<Rightarrow> u64 vector \<Rightarrow> (btree_status \<times> u64 vector) option" where
  "btree_get b ix key result = do {
     result \<leftarrow> btree_get_loop b ix key (ix_root ix) result;
     Some (if vc_size result > 0 then SUCCESS else NOTFOUND, result) }"

section \<open>Insertion\<close>

text \<open>\<open>strlcpy(item.key, key, key_size + 1)\<close> into 64 bytes, and the stores of the size and the value.\<close>

definition put_key :: "string \<Rightarrow> nat \<Rightarrow> string option" where
  "put_key key key_size = do {
     zassert (min (length key) key_size < BTREE_KEY_SIZE);
     Some (take key_size key) }"

definition put_item :: "string \<Rightarrow> nat \<Rightarrow> u64 \<Rightarrow> bitem option" where
  "put_item key key_size valset = do {
     k \<leftarrow> put_key key key_size;
     Some \<lparr>bt_key = k, bt_key_size = of_nat key_size, bt_valset = valset\<rparr> }"

text \<open>
  The loop \<open>for (j = n; j > i; j--)\<close> moves the keys from \<open>i\<close> and the pointers from \<open>i + 1\<close> up by one; then the new
  key goes to \<open>i\<close> and its pointer to \<open>i + 1\<close>.
\<close>

definition open_slot :: "nat \<Rightarrow> nat \<Rightarrow> bitem \<Rightarrow> int \<Rightarrow> bnode \<Rightarrow> bnode" where
  "open_slot n i it ptr node = node\<lparr>
     bn_items := (memmove (i + 1) i (n - i) (bn_items node))[i := it],
     bn_ptr := (memmove (i + 2) (i + 1) (n - i) (bn_ptr node))[i + 1 := ptr]\<rparr>"

datatype insert_result = Done btree_status | Up string nat u64 int

text \<open>\<open>keynew\<close>, \<open>key_sizenew\<close>, \<open>valsetnew\<close> and \<open>offsetnew\<close> are set when the result is \<open>INSERTNOTCOMPLETE\<close>: \<open>Up\<close>.\<close>

definition split_node :: "base \<Rightarrow> btree \<Rightarrow> int \<Rightarrow> bnode \<Rightarrow> nat \<Rightarrow> string \<Rightarrow> nat \<Rightarrow> u64 \<Rightarrow> int
    \<Rightarrow> (insert_result \<times> base \<times> btree) option" where
  "split_node b ix off node i keynew_r keynew_r_size valsetnew_r offsetnew_r = do {
     (k_final, s_final, v_final, p_final, node) \<leftarrow>
       (if i = INDEX_SIZE then Some (keynew_r, keynew_r_size, valsetnew_r, offsetnew_r, node)
        else do {
          let kv = bn_items node ! (INDEX_SIZE - 1);
          it \<leftarrow> put_item keynew_r keynew_r_size valsetnew_r;
          Some (bt_key kv, unat (bt_key_size kv), bt_valset kv, bn_ptr node ! INDEX_SIZE,
                open_slot (INDEX_SIZE - 1) i it offsetnew_r node) });
     let kv = bn_items node;
     let mid = kv ! INDEX_MSIZE;
     (offsetnew, b, ix) \<leftarrow> alloc_node b ix;
     last \<leftarrow> put_item k_final s_final v_final;
     let newnode = \<lparr>bn_cnt = INDEX_MSIZE,
       bn_items = [kv ! (INDEX_MSIZE + 1), last] @ replicate INDEX_MSIZE zero_bitem,
       bn_ptr = [bn_ptr node ! (INDEX_MSIZE + 1), bn_ptr node ! INDEX_SIZE, p_final] @ replicate INDEX_MSIZE 0\<rparr>;
     (b, ix) \<leftarrow> flush_node b ix off (node\<lparr>bn_cnt := INDEX_MSIZE\<rparr>);
     (b, ix) \<leftarrow> flush_node b ix offsetnew newnode;
     Some (Up (bt_key mid) (unat (bt_key_size mid)) (bt_valset mid) offsetnew, b, ix) }"

partial_function (option) btree_ins :: "base \<Rightarrow> btree \<Rightarrow> string \<Rightarrow> nat \<Rightarrow> u64 \<Rightarrow> int
    \<Rightarrow> (insert_result \<times> base \<times> btree) option" where
  "btree_ins b ix key key_size valset off =
     (if off = - 1 then Some (Up key key_size valset (- 1), b, ix)
      else do {
        node \<leftarrow> get_node b ix off;
        i \<leftarrow> btree_pos key (bn_items node) (bn_cnt node);
        if i < bn_cnt node \<and> strcmp key (bt_key (bn_items node ! i)) = 0 \<and> ix_unique ix
        then Some (Done DUPLICATEKEY, b, ix)
        else do {
          (r, b, ix) \<leftarrow> btree_ins b ix key key_size valset (bn_ptr node ! i);
          (case r of
             Done st \<Rightarrow> Some (Done st, b, ix)
           | Up keynew_r keynew_r_size valsetnew_r offsetnew_r \<Rightarrow>
               if bn_cnt node < INDEX_SIZE then do {
                 i \<leftarrow> btree_pos keynew_r (bn_items node) (bn_cnt node);
                 it \<leftarrow> put_item keynew_r keynew_r_size valsetnew_r;
                 let node = open_slot (bn_cnt node) i it offsetnew_r node;
                 (b, ix) \<leftarrow> flush_node b ix off (node\<lparr>bn_cnt := bn_cnt node + 1\<rparr>);
                 Some (Done SUCCESS, b, ix) }
               else split_node b ix off node i keynew_r keynew_r_size valsetnew_r offsetnew_r) } })"

definition btree_insert :: "base \<Rightarrow> btree \<Rightarrow> string \<Rightarrow> nat \<Rightarrow> u64 \<Rightarrow> (btree_status \<times> base \<times> btree) option" where
  "btree_insert b ix key key_size valset = do {
     (r, b, ix) \<leftarrow> btree_ins b ix key key_size valset (ix_root ix);
     (case r of
        Done st \<Rightarrow> Some (st, b, ix)
      | Up keynew key_sizenew valsetnew offsetnew \<Rightarrow> do {
          (off, b, ix) \<leftarrow> alloc_node b ix;
          it \<leftarrow> put_item keynew key_sizenew valsetnew;
          let rootnode = (ix_rootnode ix)\<lparr>bn_cnt := 1, bn_items := (bn_items (ix_rootnode ix))[0 := it],
                bn_ptr := (bn_ptr (ix_rootnode ix))[0 := ix_root ix, 1 := offsetnew]\<rparr>;
          let ix = ix\<lparr>ix_rootnode := rootnode, ix_root := off\<rparr>;
          (b, ix) \<leftarrow> flush_node b ix off rootnode;
          Some (SUCCESS, b, ix) }) }"

section \<open>Deletion\<close>

text \<open>The loop \<open>for (j = i; j < n; j++) { kv[j - 1] = kv[j]; p[j] = p[j + 1]; }\<close> closes the gap at \<open>i - 1\<close>.\<close>

definition close_slot :: "nat \<Rightarrow> nat \<Rightarrow> bnode \<Rightarrow> bnode" where
  "close_slot n i node = node\<lparr>
     bn_items := memmove (i - 1) i (n - i) (bn_items node),
     bn_ptr := memmove i (i + 1) (n - i) (bn_ptr node)\<rparr>"

text \<open>The way to the rightmost leaf of a subtree: its offset and node.\<close>

partial_function (option) rightmost :: "base \<Rightarrow> btree \<Rightarrow> int \<Rightarrow> (int \<times> bnode) option" where
  "rightmost b ix q = do {
     nod1 \<leftarrow> get_node b ix q;
     let q1 = bn_ptr nod1 ! bn_cnt nod1;
     if q1 \<noteq> - 1 then rightmost b ix q1 else Some (q, nod1) }"

text \<open>The key is in the interior node: it changes places with the largest key of the subtree left of it.\<close>

definition swap_largest :: "base \<Rightarrow> btree \<Rightarrow> string \<Rightarrow> int \<Rightarrow> bnode \<Rightarrow> nat \<Rightarrow> (bnode \<times> base \<times> btree) option" where
  "swap_largest b ix key off nod i = do {
     let item = bn_items nod ! i;
     (q, nod1) \<leftarrow> rightmost b ix (bn_ptr nod ! i);
     zassert (bn_cnt nod1 > 0);
     let addr = bn_items nod1 ! (bn_cnt nod1 - 1);
     let nod = nod\<lparr>bn_items := (bn_items nod)[i := addr]\<rparr>;
     k \<leftarrow> put_key key (unat (bt_key_size item));
     let nod1 = nod1\<lparr>bn_items := (bn_items nod1)[bn_cnt nod1 - 1 := addr\<lparr>bt_key := k\<rparr>]\<rparr>;
     (b, ix) \<leftarrow> flush_node b ix off nod;
     (b, ix) \<leftarrow> flush_node b ix q nod1;
     Some (nod, b, ix) }"

text \<open>Enough keys are left in a node that lost one?\<close>

definition enough :: "btree \<Rightarrow> int \<Rightarrow> nat \<Rightarrow> btree_status" where
  "enough ix off n = (if n \<ge> (if off = ix_root ix then 1 else INDEX_MSIZE) then SUCCESS else UNDERFLOW)"

text \<open>Flush the node and two of its children, in this order.\<close>

definition flush_three :: "base \<Rightarrow> btree \<Rightarrow> int \<Rightarrow> bnode \<Rightarrow> int \<Rightarrow> bnode \<Rightarrow> int \<Rightarrow> bnode \<Rightarrow> (base \<times> btree) option" where
  "flush_three b ix off nod left nod1 right nod2 = do {
     (b, ix) \<leftarrow> flush_node b ix off nod;
     (b, ix) \<leftarrow> flush_node b ix left nod1;
     flush_node b ix right nod2 }"

text \<open>The items of \<open>left\<close>, the separator \<open>s\<close> and the items of \<open>right\<close> go into one node; \<open>right\<close> is freed.\<close>

definition merge_nodes :: "base \<Rightarrow> btree \<Rightarrow> int \<Rightarrow> bnode \<Rightarrow> nat \<Rightarrow> nat \<Rightarrow> int \<Rightarrow> bnode \<Rightarrow> int \<Rightarrow> bnode
    \<Rightarrow> (btree_status \<times> base \<times> btree) option" where
  "merge_nodes b ix off nod i s left nod1 right nod2 = do {
     let nod1 = nod1\<lparr>bn_cnt := INDEX_SIZE,
       bn_items := [bn_items nod1 ! 0, bn_items nod ! s, bn_items nod2 ! 0, bn_items nod2 ! 1],
       bn_ptr := [bn_ptr nod1 ! 0, bn_ptr nod1 ! 1, bn_ptr nod2 ! 0, bn_ptr nod2 ! 1, bn_ptr nod2 ! 2]\<rparr>;
     (b, ix) \<leftarrow> free_node b ix right;
     let nod = (close_slot (bn_cnt nod) (i + 1) nod)\<lparr>bn_cnt := bn_cnt nod - 1\<rparr>;
     (b, ix) \<leftarrow> flush_node b ix off nod;
     (b, ix) \<leftarrow> flush_node b ix left nod1;
     Some (enough ix off (bn_cnt nod), b, ix) }"

text \<open>
  The child at \<open>i\<close> has one key left: take one from a sibling, or merge with it.  \<open>nod2\<close> has moved its items up by one before
  the code sees that the left sibling cannot spare a key; the merge then works on these.
\<close>

definition borrow_left :: "base \<Rightarrow> btree \<Rightarrow> int \<Rightarrow> bnode \<Rightarrow> nat \<Rightarrow> bnode \<Rightarrow> (btree_status \<times> base \<times> btree) option" where
  "borrow_left b ix off nod i nod1 = do {
     let left = bn_ptr nod ! (i - 1);
     let right = bn_ptr nod ! i;
     nod2 \<leftarrow> get_node b ix right;
     let nright = bn_cnt nod2;
     let nleft = bn_cnt nod1;
     zassert (nright < INDEX_SIZE \<and> 0 < nleft);
     let nod2 = nod2\<lparr>bn_cnt := nright + 1,
       bn_items := (memmove 1 0 nright (bn_items nod2))[0 := bn_items nod ! (i - 1)],
       bn_ptr := (memmove 1 0 (nright + 1) (bn_ptr nod2))[0 := bn_ptr nod1 ! nleft]\<rparr>;
     let nod = nod\<lparr>bn_items := (bn_items nod)[i - 1 := bn_items nod1 ! (nleft - 1)]\<rparr>;
     let nod1 = nod1\<lparr>bn_cnt := nleft - 1\<rparr>;
     if nleft - 1 \<ge> INDEX_MSIZE then do {
       (b, ix) \<leftarrow> flush_three b ix off nod left nod1 right nod2;
       Some (SUCCESS, b, ix) }
     else merge_nodes b ix off nod i (i - 1) left nod1 right nod2 }"

definition borrow_right :: "base \<Rightarrow> btree \<Rightarrow> int \<Rightarrow> bnode \<Rightarrow> nat \<Rightarrow> bnode \<Rightarrow> (btree_status \<times> base \<times> btree) option" where
  "borrow_right b ix off nod i nod2 = do {
     let left = bn_ptr nod ! i;
     let right = bn_ptr nod ! (i + 1);
     nod1 \<leftarrow> get_node b ix left;
     if bn_cnt nod2 > INDEX_MSIZE then do {
       let nright = bn_cnt nod2 - 1;
       let nod1 = nod1\<lparr>bn_cnt := bn_cnt nod1 + 1,
         bn_items := (bn_items nod1)[INDEX_MSIZE - 1 := bn_items nod ! i],
         bn_ptr := (bn_ptr nod1)[INDEX_MSIZE := bn_ptr nod2 ! 0]\<rparr>;
       let nod = nod\<lparr>bn_items := (bn_items nod)[i := bn_items nod2 ! 0]\<rparr>;
       let nod2 = nod2\<lparr>bn_cnt := nright,
         bn_items := memmove 0 1 nright (bn_items nod2),
         bn_ptr := memmove 0 1 (nright + 1) (bn_ptr nod2)\<rparr>;
       (b, ix) \<leftarrow> flush_three b ix off nod left nod1 right nod2;
       Some (SUCCESS, b, ix) }
     else merge_nodes b ix off nod i i left nod1 right nod2 }"

text \<open>Which sibling: the left one if there is no right one, or if that one is minimal and the left one is not.\<close>

definition fix_underflow :: "base \<Rightarrow> btree \<Rightarrow> int \<Rightarrow> bnode \<Rightarrow> nat \<Rightarrow> (btree_status \<times> base \<times> btree) option" where
  "fix_underflow b ix off nod i =
     (if i = bn_cnt nod
      then (if i > 0 then do { nodL \<leftarrow> get_node b ix (bn_ptr nod ! (i - 1)); borrow_left b ix off nod i nodL } else None)
      else do {
        nodR \<leftarrow> get_node b ix (bn_ptr nod ! (i + 1));
        if bn_cnt nodR = INDEX_MSIZE \<and> i > 0 then do {
          nodL \<leftarrow> get_node b ix (bn_ptr nod ! (i - 1));
          if bn_cnt nodL > INDEX_MSIZE then borrow_left b ix off nod i nodL else borrow_right b ix off nod i nodR }
        else borrow_right b ix off nod i nodR })"

partial_function (option) btree_del :: "base \<Rightarrow> btree \<Rightarrow> string \<Rightarrow> int \<Rightarrow> (btree_status \<times> base \<times> btree) option" where
  "btree_del b ix key off =
     (if off = - 1 then Some (NOTFOUND, b, ix)
      else do {
        nod \<leftarrow> get_node b ix off;
        i \<leftarrow> btree_pos key (bn_items nod) (bn_cnt nod);
        if bn_ptr nod ! 0 = - 1
        then (if i = bn_cnt nod \<or> strcmp key (bt_key (bn_items nod ! i)) < 0 then Some (NOTFOUND, b, ix)
          else do {
            let nod = (close_slot (bn_cnt nod) (i + 1) nod)\<lparr>bn_cnt := bn_cnt nod - 1\<rparr>;
            (b, ix) \<leftarrow> flush_node b ix off nod;
            Some (enough ix off (bn_cnt nod), b, ix) })
        else do {
          let left = bn_ptr nod ! i;
          (nod, b, ix) \<leftarrow> (if i < bn_cnt nod \<and> strcmp key (bt_key (bn_items nod ! i)) = 0
             then swap_largest b ix key off nod i else Some (nod, b, ix));
          (st, b, ix) \<leftarrow> btree_del b ix key left;
          if st \<noteq> UNDERFLOW then Some (st, b, ix) else fix_underflow b ix off nod i } })"

text \<open>An empty root is freed; the tree loses a level.\<close>

definition btree_delete :: "base \<Rightarrow> btree \<Rightarrow> string \<Rightarrow> (btree_status \<times> base \<times> btree) option" where
  "btree_delete b ix key = do {
     (st, b, ix) \<leftarrow> btree_del b ix key (ix_root ix);
     if st = UNDERFLOW then do {
       let newroot = bn_ptr (ix_rootnode ix) ! 0;
       (b, ix) \<leftarrow> free_node b ix (ix_root ix);
       ix \<leftarrow> (if newroot > 0 then do { n \<leftarrow> get_node b ix newroot; Some (ix\<lparr>ix_rootnode := n\<rparr>) } else Some ix);
       Some (SUCCESS, b, ix\<lparr>ix_root := newroot\<rparr>) }
     else Some (st, b, ix) }"

section \<open>Traversal\<close>

text \<open>The entries of a node, then those of its children from left to right.\<close>

record keyval =
  kv_key :: string
  kv_key_len :: nat
  kv_value :: u64

fun append_items :: "bitem list \<Rightarrow> keyval vector \<Rightarrow> keyval vector option" where
  "append_items [] result = Some result"
| "append_items (kv # kvs) result =
     (case vector_append result \<lparr>kv_key = take (unat (bt_key_size kv)) (bt_key kv), kv_key_len = unat (bt_key_size kv), kv_value = bt_valset kv\<rparr> of
        Some result \<Rightarrow> append_items kvs result
      | None \<Rightarrow> None)"

text \<open>The calls still to be made are kept as a list of offsets.\<close>

partial_function (option) traverse_nodes :: "base \<Rightarrow> btree \<Rightarrow> int list \<Rightarrow> keyval vector \<Rightarrow> keyval vector option" where
  "traverse_nodes b ix offs result =
     (case offs of
        [] \<Rightarrow> Some result
      | off # offs \<Rightarrow>
          (if off = - 1 then traverse_nodes b ix offs result
           else do {
             node \<leftarrow> get_node b ix off;
             result \<leftarrow> append_items (take (bn_cnt node) (bn_items node)) result;
             traverse_nodes b ix (take (bn_cnt node + 1) (bn_ptr node) @ offs) result }))"

definition btree_get_all :: "base \<Rightarrow> btree \<Rightarrow> keyval vector option" where
  "btree_get_all b ix = traverse_nodes b ix [ix_root ix] (alloc_vector (DEFAULT_RESULT_SIZE * 10))"

end
