(* ===== verification/Btree_Spec.thy ===== *)
theory Btree_Spec imports
  Btree "HOL-Library.List_Lexorder"
begin

text \<open>
  What the B-trees of src/btree.c promise.  A tree of nodes in the store is given its meaning as the in-order sequence of
  its entries; looking a key up in a sorted tree finds its value.  \<open>Btree_Insert\<close> shows that inserting an absent key puts it at its
  place.
\<close>

section \<open>The order of the keys\<close>

text \<open>\<open>strcmp\<close> is the lexicographic order of the byte strings.\<close>

definition bytes_of :: "string \<Rightarrow> nat list" where
  "bytes_of s = map code s"

lemma bytes_of_inj [simp]: "bytes_of s = bytes_of t \<longleftrightarrow> s = t"
proof
  assume "bytes_of s = bytes_of t"
  then show "s = t"
    unfolding bytes_of_def by (rule map_injective) (metis injI of_char_eq_iff)
qed simp

lemma strcmp_less: "strcmp s t < 0 \<longleftrightarrow> bytes_of s < bytes_of t"
  by (induction s t rule: strcmp.induct) (auto simp: bytes_of_def)

lemma strcmp_eq: "strcmp s t = 0 \<longleftrightarrow> s = t"
proof (induction s t rule: strcmp.induct)
  case (4 c cs d ds)
  have "code c = code d \<longleftrightarrow> c = d" by simp
  then show ?case using 4 by (auto simp: nat_neq_iff)
qed auto

lemma strcmp_le: "strcmp s t \<le> 0 \<longleftrightarrow> bytes_of s \<le> bytes_of t"
  using strcmp_less[of s t] strcmp_eq[of s t] by (auto simp: order_le_less)

lemma strcmp_greater: "strcmp s t > 0 \<longleftrightarrow> bytes_of t < bytes_of s"
  using strcmp_le[of s t] by (simp only: linorder_not_le[symmetric])

abbreviation key_of :: "string \<times> u64 \<Rightarrow> nat list" where
  "key_of kv \<equiv> bytes_of (fst kv)"

section \<open>Trees of nodes\<close>

datatype bt = Leaf | Node int "(string \<times> u64) list" "bt list"

fun bt_root :: "bt \<Rightarrow> int" where
  "bt_root Leaf = - 1"
| "bt_root (Node off kvs ts) = off"

definition bt_item :: "string \<times> u64 \<Rightarrow> bitem" where
  "bt_item kv = \<lparr>bt_key = fst kv, bt_key_size = of_nat (length (fst kv)), bt_valset = snd kv\<rparr>"

text \<open>The node \<open>n\<close> holds the entries \<open>kvs\<close> and the pointers \<open>ps\<close>; the rest of its arrays is free.\<close>

definition node_holds :: "bnode \<Rightarrow> (string \<times> u64) list \<Rightarrow> int list \<Rightarrow> bool" where
  "node_holds n kvs ps \<longleftrightarrow> bn_cnt n = length kvs \<and> length ps = Suc (length kvs)
     \<and> length (bn_items n) = INDEX_SIZE \<and> length (bn_ptr n) = INDEX_SIZE + 1
     \<and> take (length kvs) (bn_items n) = map bt_item kvs \<and> take (Suc (length kvs)) (bn_ptr n) = ps"

fun bt_repr :: "(int \<Rightarrow> bnode option) \<Rightarrow> bt \<Rightarrow> bool" where
  "bt_repr H Leaf = True"
| "bt_repr H (Node off kvs ts) \<longleftrightarrow> off \<noteq> - 1 \<and> (\<exists>n. H off = Some n \<and> node_holds n kvs (map bt_root ts))
     \<and> (\<forall>t\<in>set ts. bt_repr H t)"

fun bt_offs :: "bt \<Rightarrow> int list" where
  "bt_offs Leaf = []"
| "bt_offs (Node off kvs ts) = off # concat (map bt_offs ts)"

fun weave :: "'a list list \<Rightarrow> 'a list \<Rightarrow> 'a list" where
  "weave (x # xs) (y # ys) = x @ y # weave xs ys"
| "weave (x # xs) [] = x"
| "weave [] ys = ys"

fun bt_inorder :: "bt \<Rightarrow> (string \<times> u64) list" where
  "bt_inorder Leaf = []"
| "bt_inorder (Node off kvs ts) = weave (map bt_inorder ts) kvs"

text \<open>Nodes of one to four keys, all leaves at one level.\<close>

fun bt_shape :: "nat \<Rightarrow> bt \<Rightarrow> bool" where
  "bt_shape h Leaf \<longleftrightarrow> h = 0"
| "bt_shape h (Node off kvs ts) \<longleftrightarrow> 0 < h \<and> 0 < length kvs \<and> length kvs \<le> INDEX_SIZE
     \<and> length ts = Suc (length kvs) \<and> (\<forall>t\<in>set ts. bt_shape (h - 1) t)"

definition bt_sorted :: "(string \<times> u64) list \<Rightarrow> bool" where
  "bt_sorted kvs \<longleftrightarrow> sorted_wrt (\<lambda>a b. key_of a < key_of b) kvs"

lemma bt_sorted_append:
  "bt_sorted (xs @ ys) \<longleftrightarrow> bt_sorted xs \<and> bt_sorted ys \<and> (\<forall>x\<in>set xs. \<forall>y\<in>set ys. key_of x < key_of y)"
  by (auto simp: bt_sorted_def sorted_wrt_append)

lemma bt_sorted_Cons: "bt_sorted (x # xs) \<longleftrightarrow> bt_sorted xs \<and> (\<forall>y\<in>set xs. key_of x < key_of y)"
  by (auto simp: bt_sorted_def)

section \<open>The position of a key in a node\<close>

lemma item_key [simp]: "bt_key (bt_item kv) = fst kv"
  by (simp add: bt_item_def)

text \<open>Position \<open>i\<close> splits the keys into smaller ones and the others.\<close>

definition splits :: "string \<Rightarrow> (string \<times> u64) list \<Rightarrow> nat \<Rightarrow> bool" where
  "splits key kvs i \<longleftrightarrow> i \<le> length kvs \<and> (\<forall>kv\<in>set (take i kvs). key_of kv < bytes_of key)
     \<and> (\<forall>kv\<in>set (drop i kvs). bytes_of key \<le> key_of kv)"

lemma splits_unique:
  assumes "splits key kvs i" "splits key kvs j" shows "i = j"
proof -
  have "\<not> a < b" if "splits key kvs a" "splits key kvs b" for a b
  proof
    assume "a < b"
    then have l: "a < length kvs" using that(2) by (simp add: splits_def)
    then have "kvs ! a \<in> set (drop a kvs)" "kvs ! a \<in> set (take b kvs)"
      using \<open>a < b\<close> by (auto simp: in_set_conv_nth intro: exI[of _ 0] exI[of _ a])
    then show False using that unfolding splits_def by fastforce
  qed
  then show ?thesis using assms by (meson nat_neq_iff)
qed

lemma bt_sorted_nth: "bt_sorted kvs \<Longrightarrow> i < j \<Longrightarrow> j < length kvs \<Longrightarrow> key_of (kvs ! i) < key_of (kvs ! j)"
  unfolding bt_sorted_def by (rule sorted_wrt_nth_less)

lemma splitsI:
  assumes "bt_sorted kvs" "i \<le> length kvs" "0 < i \<Longrightarrow> key_of (kvs ! (i - 1)) < bytes_of key"
    "i < length kvs \<Longrightarrow> bytes_of key \<le> key_of (kvs ! i)"
  shows "splits key kvs i"
  unfolding splits_def
proof (intro conjI ballI)
  fix kv assume "kv \<in> set (take i kvs)"
  then obtain j where j: "j < i" "kv = kvs ! j" using assms(2) by (auto simp: in_set_conv_nth)
  have "key_of (kvs ! j) \<le> key_of (kvs ! (i - 1))"
    using bt_sorted_nth[OF assms(1), of j "i - 1"] j(1) assms(2) by (cases "j = i - 1") (auto intro: less_imp_le)
  then show "key_of kv < bytes_of key" using assms(3) j by simp
next
  fix kv assume "kv \<in> set (drop i kvs)"
  then obtain a where "a < length kvs - i" "kv = kvs ! (i + a)" by (auto simp: in_set_conv_nth)
  then obtain j where j: "i \<le> j" "j < length kvs" "kv = kvs ! j" using that[of "i + a"] by auto
  have "key_of (kvs ! i) \<le> key_of (kvs ! j)"
    using bt_sorted_nth[OF assms(1), of i j] j by (cases "j = i") (auto intro: less_imp_le)
  then show "bytes_of key \<le> key_of kv" using assms(4) j by simp
qed (rule assms(2))

lemma bsearch_splits:
  assumes "bt_sorted kvs" "left < right" "right < length kvs" "\<forall>i<length kvs. bt_key (its ! i) = fst (kvs ! i)"
    "key_of (kvs ! left) < bytes_of key" "bytes_of key \<le> key_of (kvs ! right)"
  shows "splits key kvs (btree_bsearch key its left right)"
  using assms(2-6)
proof (induction "right - left" arbitrary: left right rule: less_induct)
  case less
  let ?i = "(right + left) div 2"
  show ?case
  proof (cases "right - left > 1")
    case False
    then have "right = Suc left" using less.prems(1) by simp
    then show ?thesis
      using False less.prems by (subst btree_bsearch.simps) (simp add: splitsI[OF assms(1)])
  next
    case True
    then have i: "left < ?i" "?i < right" by auto
    then have k: "bt_key (its ! ?i) = fst (kvs ! ?i)" using less.prems(2,3) by simp
    show ?thesis
    proof (cases "bytes_of key \<le> key_of (kvs ! ?i)")
      case le: True
      then have "splits key kvs (btree_bsearch key its left ?i)"
        using less.hyps[of ?i left] less.prems i by auto
      then show ?thesis using True k le by (subst btree_bsearch.simps) (simp add: Let_def strcmp_le)
    next
      case gt: False
      then have "splits key kvs (btree_bsearch key its ?i right)"
        using less.hyps[of right ?i] less.prems i by auto
      then show ?thesis using True k gt by (subst btree_bsearch.simps) (simp add: Let_def strcmp_le)
    qed
  qed
qed

lemma btree_pos_splits:
  assumes "bt_sorted kvs" "0 < length kvs" "\<forall>i<length kvs. bt_key (its ! i) = fst (kvs ! i)"
  obtains i where "btree_pos key its (length kvs) = Some i" "splits key kvs i"
proof -
  let ?n = "length kvs"
  have f: "bt_key (its ! 0) = fst (kvs ! 0)" "bt_key (its ! (?n - 1)) = fst (kvs ! (?n - 1))" using assms(2,3) by auto
  consider "bytes_of key \<le> key_of (kvs ! 0)" | "key_of (kvs ! 0) < bytes_of key" "key_of (kvs ! (?n - 1)) < bytes_of key"
    | "key_of (kvs ! 0) < bytes_of key" "bytes_of key \<le> key_of (kvs ! (?n - 1))"
    by fastforce
  then show ?thesis
  proof cases
    case 1
    then show ?thesis using that[of 0] f assms(2) by (simp add: btree_pos_def strcmp_le splitsI[OF assms(1)])
  next
    case 2
    then show ?thesis
      using that[of ?n] f assms(2) by (simp add: btree_pos_def strcmp_le strcmp_greater splitsI[OF assms(1)])
  next
    case 3
    then have "?n - 1 \<noteq> 0" by (metis leD)
    then have "splits key kvs (btree_bsearch key its 0 (?n - 1))"
      using 3 assms by (intro bsearch_splits) auto
    moreover have "btree_pos key its ?n = Some (btree_bsearch key its 0 (?n - 1))"
      using 3 f assms(2) by (simp add: btree_pos_def strcmp_le strcmp_greater not_le[symmetric])
    ultimately show ?thesis using that by blast
  qed
qed

section \<open>Nodes of the store\<close>

text \<open>The offsets in use, and the node that \<open>get_node\<close> finds at one: the root comes from memory.\<close>

definition inside :: "base \<Rightarrow> int \<Rightarrow> bool" where
  "inside b off \<longleftrightarrow> 0 < off \<and> nat off < mark b"

definition node_at :: "base \<Rightarrow> btree \<Rightarrow> int \<Rightarrow> bnode option" where
  "node_at b ix off = (if off = ix_root ix then Some (ix_rootnode ix) else obj_at unwrap_node b (word_of_int off))"

lemma mark_bound:
  assumes "pager_wf b" shows "mark b < 2 ^ 63"
proof -
  have ps: "pager_size b < MAX_PAGE_SIZE" and q: "mark b div psz b = unat (core_count b) - 1"
    using assms unfolding pager_wf_def by blast+
  have "unat (core_count b) < 2 ^ 32" using unat_less[of "core_count b"] by simp
  then have "mark b div psz b < 2 ^ 32" unfolding q by (rule le_less_trans[OF diff_le_self])
  moreover have "mark b mod psz b \<le> psz b" using psz_bounds(3)[OF ps] by (intro less_imp_le mod_less_divisor)
  ultimately have "mark b div psz b * psz b + mark b mod psz b < 2 ^ 63" by (rule page_range_bound[OF ps])
  then show ?thesis by (simp only: div_mult_mod_eq)
qed

lemma unat_word_of_int_small:
  assumes "0 \<le> k" "k < 2 ^ 63" shows "unat (word_of_int k :: u64) = nat k"
proof -
  have "take_bit LENGTH(64) k = k" using assms by (intro take_bit_int_eq_self) simp_all
  then show ?thesis by (simp only: unat_eq_nat_uint uint_word_of_int_eq)
qed

lemma inside_valid:
  assumes "store_ok b" "inside b off"
  shows "valid b (word_of_int off)" "unat (word_of_int off :: u64) = nat off" "unat (word_of_int off :: u64) < mark b"
proof -
  have "mark b < 2 ^ 63" using assms(1) by (intro mark_bound) simp
  then have "nat off < 2 ^ 63" "0 \<le> off" using assms(2) unfolding inside_def by linarith+
  then have "0 \<le> off" "off < 2 ^ 63" by (simp_all add: nat_less_iff)
  then show u: "unat (word_of_int off :: u64) = nat off"
    by (rule unat_word_of_int_small)
  then show lt: "unat (word_of_int off :: u64) < mark b" using assms(2) by (simp add: inside_def)
  have "pager_wf b" using assms(1) by simp
  then have "mark b div psz b = unat (core_count b) - 1" "0 < unat (core_count b)"
    by (simp_all add: pager_wf_def unat_gt_0 word_neq_0_conv)
  then show "valid b (word_of_int off)"
    using div_le_mono[OF less_imp_le[OF lt], of "psz b"] unfolding valid_def by linarith
qed

lemma inside_inj:
  assumes "store_ok b" "inside b x" "inside b y" "word_of_int x = (word_of_int y :: u64)"
  shows "x = y"
proof -
  have "nat x = nat y" using inside_valid(2)[OF assms(1,2)] inside_valid(2)[OF assms(1,3)] assms(4) by simp
  then show ?thesis using assms(2,3) unfolding inside_def by linarith
qed

lemma get_node_ok:
  assumes "store_ok b" "inside b off"
  shows "get_node b ix off = node_at b ix off"
  using load_cell_ok[OF assms(1) inside_valid(1)[OF assms]]
  by (simp add: get_node_def node_at_def obj_at_def Option.bind_eq_Some_conv split: option.splits)

lemma flush_node_ok:
  assumes ok: "store_ok b" and off: "inside b off"
  obtains D where
    "flush_node b ix off n = Some (b\<lparr>disk := D\<rparr>, if off = ix_root ix then ix\<lparr>ix_rootnode := n\<rparr> else ix)"
    "store_ok (b\<lparr>disk := D\<rparr>)"
    "\<And>x. inside b x \<Longrightarrow> node_at (b\<lparr>disk := D\<rparr>) (if off = ix_root ix then ix\<lparr>ix_rootnode := n\<rparr> else ix) x
       = (if x = off then Some n else node_at b ix x)"
    "\<And>x. valid b x \<Longrightarrow> x \<noteq> word_of_int off \<Longrightarrow> cell_at (b\<lparr>disk := D\<rparr>) x = cell_at b x"
    "cell_at (b\<lparr>disk := D\<rparr>) (word_of_int off) = Some (CNode n)"
proof -
  obtain D where D: "store_cell (word_of_int off) (CNode n) b = Some (b\<lparr>disk := D\<rparr>)" "store_ok (b\<lparr>disk := D\<rparr>)"
    "\<And>x. valid b x \<Longrightarrow> cell_at (b\<lparr>disk := D\<rparr>) x = (if x = word_of_int off then Some (CNode n) else cell_at b x)"
    using store_cell_ok[OF ok inside_valid(1)[OF ok off]] by blast
  let ?ix = "if off = ix_root ix then ix\<lparr>ix_rootnode := n\<rparr> else ix"
  have "node_at (b\<lparr>disk := D\<rparr>) ?ix x = (if x = off then Some n else node_at b ix x)" if x: "inside b x" for x
  proof (cases "x = off")
    case True
    then show ?thesis using D(3)[OF inside_valid(1)[OF ok x]] by (simp add: node_at_def obj_at_def)
  next
    case False
    then have "word_of_int x \<noteq> (word_of_int off :: u64)" using inside_inj[OF ok x off] by blast
    then show ?thesis using False D(3)[OF inside_valid(1)[OF ok x]] by (simp add: node_at_def obj_at_def)
  qed
  moreover have "cell_at (b\<lparr>disk := D\<rparr>) (word_of_int off) = Some (CNode n)"
    using D(3)[OF inside_valid(1)[OF ok off]] by simp
  ultimately show ?thesis using that[of D] D by (simp add: flush_node_def)
qed

text \<open>Room for \<open>n\<close> more nodes in the current page.\<close>

definition room :: "base \<Rightarrow> nat \<Rightarrow> bool" where
  "room b n \<longleftrightarrow> mark b mod psz b + n * 368 < psz b"

lemma room_less: "room b n \<Longrightarrow> m \<le> n \<Longrightarrow> room b m"
  unfolding room_def by linarith

lemma room_disk [simp]: "room (b\<lparr>disk := D\<rparr>) n = room b n" "inside (b\<lparr>disk := D\<rparr>) = inside b"
  by (simp_all add: room_def inside_def fun_eq_iff)

lemma node_at_store:
  assumes "\<And>x. inside b x \<Longrightarrow> cell_at b' (word_of_int x) = cell_at b (word_of_int x)" "inside b x"
  shows "node_at b' ix x = node_at b ix x"
  using assms(1)[OF assms(2)] by (simp add: node_at_def obj_at_def)

text \<open>An allocation that stays in the current page leaves the cells alone.\<close>

lemma alloc_same:
  assumes ok: "store_ok b" and len: "0 < len" "mark b mod psz b + unat len < psz b"
  shows "pager_alloc b len = Some (pager_offset b, b\<lparr>pager_offset := pager_offset b + len\<rparr>)"
    "store_ok (b\<lparr>pager_offset := pager_offset b + len\<rparr>)" "mark (b\<lparr>pager_offset := pager_offset b + len\<rparr>) = mark b + unat len"
    "valid (b\<lparr>pager_offset := pager_offset b + len\<rparr>) = valid b" "cell_at (b\<lparr>pager_offset := pager_offset b + len\<rparr>) = cell_at b"
    "0 < mark b" "valid b (pager_offset b)"
proof -
  have wf: "pager_wf b" using ok by simp
  let ?b = "b\<lparr>pager_offset := pager_offset b + len\<rparr>"
  have a: "pager_alloc b len = Some (pager_offset b, ?b)" "mark ?b = mark b + unat len" "pager_wf ?b"
    using pager_alloc_same[OF wf len] by auto
  show "pager_alloc b len = Some (pager_offset b, ?b)" "mark ?b = mark b + unat len" by (fact a)+
  have same: "page_keys ?b = page_keys b" "psz ?b = psz b" by (simp_all add: page_keys_def)
  show "valid ?b = valid b" by (simp add: valid_def fun_eq_iff)
  show "store_ok ?b" using ok a(3) same by (simp add: store_ok_def)
  have f: "core_pages ?b = core_pages b" "core_count ?b = core_count b" "page_size ?b = page_size b" "disk ?b = disk b"
    by (simp_all add: page_size_def)
  have "pager_get_fd ?b = pager_get_fd b" by (rule ext, unfold pager_get_fd_def f, rule refl)
  then show "cell_at ?b = cell_at b" unfolding cell_at_def load_cell_def read_at_def f by simp
  show "0 < mark b" using wf by (auto simp: pager_wf_def intro: Nat.gr0I)
  have "mark b div psz b = unat (core_count b) - 1" "0 < unat (core_count b)"
    using wf by (simp_all add: pager_wf_def unat_gt_0 word_neq_0_conv)
  then show "valid b (pager_offset b)" unfolding valid_def by linarith
qed

lemma alloc_node_ok:
  assumes ok: "store_ok b" and r: "room b (Suc n)" and fl: "ix_freelist ix < 0" and root: "nat (ix_root ix) < mark b"
  obtains D where "alloc_node b ix = Some (int (mark b), b\<lparr>pager_offset := pager_offset b + sizeof_node, disk := D\<rparr>, ix)"
    "store_ok (b\<lparr>pager_offset := pager_offset b + sizeof_node, disk := D\<rparr>)"
    "mark (b\<lparr>pager_offset := pager_offset b + sizeof_node, disk := D\<rparr>) = mark b + 368"
    "room (b\<lparr>pager_offset := pager_offset b + sizeof_node, disk := D\<rparr>) n"
    "0 < mark b"
    "\<And>x. inside b x \<Longrightarrow> node_at (b\<lparr>pager_offset := pager_offset b + sizeof_node, disk := D\<rparr>) ix x = node_at b ix x"
    "\<And>x. valid b x \<Longrightarrow> unat x < mark b \<Longrightarrow> cell_at (b\<lparr>pager_offset := pager_offset b + sizeof_node, disk := D\<rparr>) x = cell_at b x"
proof -
  have wf: "pager_wf b" using ok by simp
  let ?b = "b\<lparr>pager_offset := pager_offset b + sizeof_node\<rparr>"
  have "mark b mod psz b + unat sizeof_node < psz b" using r by (simp add: room_def)
  note A = alloc_same[OF ok _ this]
  have a: "pager_alloc b sizeof_node = Some (pager_offset b, ?b)" "mark ?b = mark b + 368" and ok': "store_ok ?b"
    and same: "valid ?b = valid b" and cells: "cell_at ?b = cell_at b" and pos: "0 < mark b"
    using A by simp_all
  have m63: "mark b < 2 ^ 63" by (rule mark_bound[OF wf])
  have s: "sint (pager_offset b) = int (mark b)"
  proof -
    have u: "int (mark b) = uint (pager_offset b)" by (rule uint_nat[symmetric])
    have "int (mark b) < 2 ^ 63" using m63 by (simp only: of_nat_less_iff[symmetric, where 'a = int] of_nat_power of_nat_numeral)
    then have "uint (pager_offset b) < 2 ^ 63" unfolding u .
    then have "signed_take_bit 63 (uint (pager_offset b)) = uint (pager_offset b)"
      using uint_ge_0[of "pager_offset b"] by (intro signed_take_bit_int_eq_self) linarith+
    then show ?thesis unfolding u sint_uint by simp
  qed
  have new: "inside ?b (int (mark b))" using pos a(2) unfolding inside_def by linarith
  have nr: "int (mark b) \<noteq> ix_root ix" using root nat_int[of "mark b"] by (metis less_irrefl)
  obtain D where D: "flush_node ?b ix (int (mark b)) zero_bnode = Some (?b\<lparr>disk := D\<rparr>, ix)" "store_ok (?b\<lparr>disk := D\<rparr>)"
    "\<And>x. inside ?b x \<Longrightarrow> node_at (?b\<lparr>disk := D\<rparr>) ix x = (if x = int (mark b) then Some zero_bnode else node_at ?b ix x)"
    "\<And>x. valid ?b x \<Longrightarrow> x \<noteq> word_of_int (int (mark b)) \<Longrightarrow> cell_at (?b\<lparr>disk := D\<rparr>) x = cell_at ?b x"
    "cell_at (?b\<lparr>disk := D\<rparr>) (word_of_int (int (mark b))) = Some (CNode zero_bnode)"
    using flush_node_ok[OF ok' new, where ix = ix and n = zero_bnode, unfolded if_not_P[OF nr]] by blast
  have "node_at (?b\<lparr>disk := D\<rparr>) ix x = node_at b ix x" if "inside b x" for x
  proof -
    have "x \<noteq> int (mark b)" using that nat_int[of "mark b"] unfolding inside_def by (metis less_irrefl)
    moreover have "inside ?b x" using that a(2) unfolding inside_def by linarith
    moreover have "node_at ?b ix x = node_at b ix x" by (simp add: node_at_def obj_at_def cells)
    ultimately show ?thesis using D(3)[of x] by (simp only: if_False)
  qed
  moreover have "cell_at (?b\<lparr>disk := D\<rparr>) x = cell_at b x" if "valid b x" "unat x < mark b" for x
    using D(4)[of x] that same cells by auto
  moreover have "room (?b\<lparr>disk := D\<rparr>) n"
  proof -
    have "mark ?b mod psz b = mark b mod psz b + 368"
      unfolding a(2) using div_mod_add[OF refl, of "mark b" "psz b" 368] r by (simp add: room_def)
    then show ?thesis using r a(2) by (simp add: room_def)
  qed
  ultimately show ?thesis
    using that[of D] fl a(1,2) s D(1,2) pos by (simp add: alloc_node_def)
qed

section \<open>What lies left and right of a child\<close>

fun lpart :: "'a list list \<Rightarrow> 'a list \<Rightarrow> 'a list" where
  "lpart (l # ls) (a # as) = l @ a # lpart ls as"
| "lpart _ _ = []"

fun rpart :: "'a list \<Rightarrow> 'a list list \<Rightarrow> 'a list" where
  "rpart (b # bs) (r # rs) = b # r @ rpart bs rs"
| "rpart _ _ = []"

lemma weave_rest: "length rs = length bs \<Longrightarrow> weave (x # rs) bs = x @ rpart bs rs"
proof (induction bs arbitrary: x rs)
  case (Cons b bs)
  then show ?case by (cases rs) auto
qed simp

lemma weave_parts:
  "length ls = length as \<Longrightarrow> length rs = length bs \<Longrightarrow> weave (ls @ x # rs) (as @ bs) = lpart ls as @ x @ rpart bs rs"
  by (induction ls as rule: list_induct2) (auto simp: weave_rest)

lemma lpart_append: "length ls = length as \<Longrightarrow> lpart (ls @ [x]) (as @ [a]) = lpart ls as @ x @ [a]"
  by (induction ls as rule: list_induct2) auto

lemma lpart_less:
  "length ls = length as \<Longrightarrow> bt_sorted (lpart ls as) \<Longrightarrow> \<forall>a\<in>set as. key_of a < K \<Longrightarrow> \<forall>x\<in>set (lpart ls as). key_of x < K"
  by (induction ls as rule: list_induct2) (auto simp: bt_sorted_append bt_sorted_Cons intro: less_trans)

lemma rpart_greater:
  "length rs = length bs \<Longrightarrow> bt_sorted (rpart bs rs) \<Longrightarrow> \<forall>b\<in>set bs. K \<le> key_of b \<Longrightarrow> \<forall>x\<in>set (rpart bs rs). K \<le> key_of x"
proof (induction bs arbitrary: rs)
  case (Cons b bs)
  then obtain r rs' where "rs = r # rs'" by (cases rs) auto
  moreover have "K \<le> key_of y" if "key_of b < key_of y" for y using Cons.prems(3) that by auto
  ultimately show ?case
    using Cons by (auto simp: bt_sorted_append bt_sorted_Cons)
qed simp

lemma lpart_set: "length ls = length as \<Longrightarrow> set as \<subseteq> set (lpart ls as)"
  by (induction ls as rule: list_induct2) auto

lemma rpart_set: "length rs = length bs \<Longrightarrow> set bs \<subseteq> set (rpart bs rs)"
proof (induction bs arbitrary: rs)
  case (Cons b bs)
  then show ?case by (cases rs) fastforce+
qed simp

text \<open>A node taken apart at a position.\<close>

lemma node_parts:
  assumes "length ts = Suc (length kvs)" "i \<le> length kvs"
  shows "bt_inorder (Node off kvs ts) = lpart (map bt_inorder (take i ts)) (take i kvs) @ bt_inorder (ts ! i)
      @ rpart (drop i kvs) (map bt_inorder (drop (Suc i) ts))"
    and "length (map bt_inorder (take i ts)) = length (take i kvs)"
    and "length (map bt_inorder (drop (Suc i) ts)) = length (drop i kvs)"
proof -
  have t: "ts = take i ts @ ts ! i # drop (Suc i) ts" using assms by (intro id_take_nth_drop) simp
  show l: "length (map bt_inorder (take i ts)) = length (take i kvs)"
    "length (map bt_inorder (drop (Suc i) ts)) = length (drop i kvs)" using assms by simp_all
  have "bt_inorder (Node off kvs ts)
      = weave (map bt_inorder (take i ts) @ bt_inorder (ts ! i) # map bt_inorder (drop (Suc i) ts)) (take i kvs @ drop i kvs)"
    by (subst t) simp
  then show "bt_inorder (Node off kvs ts) = lpart (map bt_inorder (take i ts)) (take i kvs) @ bt_inorder (ts ! i)
      @ rpart (drop i kvs) (map bt_inorder (drop (Suc i) ts))"
    using weave_parts[OF l] by simp
qed

text \<open>The keys of a node of a sorted tree, and the position of a key among them.\<close>

lemma node_sorted:
  assumes "bt_sorted (bt_inorder (Node off kvs ts))" "length ts = Suc (length kvs)"
  shows "bt_sorted kvs"
  using assms
proof (induction kvs arbitrary: ts)
  case Nil then show ?case by (simp add: bt_sorted_def)
next
  case (Cons kv kvs)
  then obtain t ts' where ts: "ts = t # ts'" by (cases ts) auto
  have "bt_sorted (bt_inorder (Node off kvs ts'))" using Cons.prems ts by (simp add: bt_sorted_append bt_sorted_Cons)
  moreover have "set kvs \<subseteq> set (weave (map bt_inorder ts') kvs)"
    using node_parts(1)[of ts' kvs 0 off] rpart_set[of "map bt_inorder (drop (Suc 0) ts')" kvs] Cons.prems(2) ts by auto
  ultimately show ?case
    using Cons.IH[of ts'] Cons.prems ts by (auto simp: bt_sorted_append bt_sorted_Cons)
qed

lemma node_bounds:
  assumes s: "bt_sorted (bt_inorder (Node off kvs ts))" and l: "length ts = Suc (length kvs)" and i: "splits key kvs i"
  shows "bt_sorted (bt_inorder (ts ! i))"
    "\<forall>x\<in>set (lpart (map bt_inorder (take i ts)) (take i kvs)). key_of x < bytes_of key"
    "\<forall>x\<in>set (rpart (drop i kvs) (map bt_inorder (drop (Suc i) ts))). bytes_of key \<le> key_of x"
    "i < length kvs \<Longrightarrow> \<forall>x\<in>set (bt_inorder (ts ! i)). key_of x < key_of (kvs ! i)"
proof -
  have il: "i \<le> length kvs" using i by (simp add: splits_def)
  note p = node_parts(1)[OF l il, of off] node_parts(2,3)[OF l il]
  have s3: "bt_sorted (lpart (map bt_inorder (take i ts)) (take i kvs))" "bt_sorted (rpart (drop i kvs) (map bt_inorder (drop (Suc i) ts)))"
    "bt_sorted (bt_inorder (ts ! i))"
    "\<forall>x\<in>set (bt_inorder (ts ! i)). \<forall>y\<in>set (rpart (drop i kvs) (map bt_inorder (drop (Suc i) ts))). key_of x < key_of y"
    using s unfolding p(1) by (auto simp: bt_sorted_append)
  show "bt_sorted (bt_inorder (ts ! i))" by (rule s3(3))
  show "\<forall>x\<in>set (lpart (map bt_inorder (take i ts)) (take i kvs)). key_of x < bytes_of key"
    using i by (intro lpart_less[OF p(2) s3(1)]) (simp add: splits_def)
  show "\<forall>x\<in>set (rpart (drop i kvs) (map bt_inorder (drop (Suc i) ts))). bytes_of key \<le> key_of x"
    using i by (intro rpart_greater[OF p(3) s3(2)]) (simp add: splits_def)
  assume "i < length kvs"
  then have "kvs ! i \<in> set (drop i kvs)" by (auto simp: in_set_conv_nth intro: exI[of _ 0])
  then have "kvs ! i \<in> set (rpart (drop i kvs) (map bt_inorder (drop (Suc i) ts)))"
    using rpart_set[OF p(3)] by blast
  then show "\<forall>x\<in>set (bt_inorder (ts ! i)). key_of x < key_of (kvs ! i)" using s3(4) by blast
qed

lemma node_holds_key:
  assumes "node_holds n kvs ps"
  shows "\<forall>j<length kvs. bt_key (bn_items n ! j) = fst (kvs ! j)" "take (bn_cnt n) (bn_items n) = map bt_item kvs"
    "\<And>j. j \<le> length kvs \<Longrightarrow> bn_ptr n ! j = ps ! j"
proof -
  have h: "take (length kvs) (bn_items n) = map bt_item kvs" "take (Suc (length kvs)) (bn_ptr n) = ps" "bn_cnt n = length kvs"
    using assms by (auto simp: node_holds_def)
  show "\<forall>j<length kvs. bt_key (bn_items n ! j) = fst (kvs ! j)"
    using h(1) by (metis item_key length_map nth_map nth_take)
  show "take (bn_cnt n) (bn_items n) = map bt_item kvs" using h by simp
  show "\<And>j. j \<le> length kvs \<Longrightarrow> bn_ptr n ! j = ps ! j" using h(2) by (metis le_imp_less_Suc nth_take)
qed

lemma node_pos:
  assumes "node_holds n kvs ps" "bt_sorted kvs" "0 < length kvs"
  obtains i where "btree_pos key (bn_items n) (bn_cnt n) = Some i" "splits key kvs i"
  using btree_pos_splits[OF assms(2,3) node_holds_key(1)[OF assms(1)], of key] assms(1) by (auto simp: node_holds_def)

section \<open>Looking up\<close>

lemma append_matches_sorted:
  assumes "bt_sorted kvs" "\<forall>kv\<in>set kvs. bytes_of key \<le> key_of kv"
  shows "append_matches key (map bt_item kvs) res
    = (case kvs of kv # _ \<Rightarrow> if fst kv = key then vector_append res (snd kv) else Some res | [] \<Rightarrow> Some res)"
proof -
  have none: "append_matches key (map bt_item xs) r = Some r" if "\<forall>kv\<in>set xs. fst kv \<noteq> key" for xs r
    using that by (induction xs) (auto simp: strcmp_eq)
  show ?thesis
  proof (cases kvs)
    case (Cons kv ks)
    have "\<forall>k\<in>set ks. fst k \<noteq> key" using assms Cons by (auto simp: bt_sorted_Cons)
    then show ?thesis
      using Cons none[of ks] by (auto simp: strcmp_eq bt_item_def split: option.split)
  qed simp
qed

lemma map_of_middle:
  assumes "\<forall>x\<in>set xs. key_of x < bytes_of key" "\<forall>x\<in>set zs. bytes_of key < key_of x"
  shows "map_of (xs @ ys @ zs) key = map_of ys key"
proof -
  have "map_of xs key = None" "map_of zs key = None" using assms by (auto simp: map_of_eq_None_iff)
  then show ?thesis by (simp add: map_add_def split: option.split)
qed

lemma key_in_child:
  assumes s: "bt_sorted (bt_inorder (Node off kvs ts))" and l: "length ts = Suc (length kvs)" and i: "splits key kvs i"
    and no: "\<not> (i < length kvs \<and> fst (kvs ! i) = key)"
  shows "map_of (bt_inorder (Node off kvs ts)) key = map_of (bt_inorder (ts ! i)) key"
proof -
  have il: "i \<le> length kvs" using i by (simp add: splits_def)
  note bd = node_bounds[OF s l i]
  note inorder = node_parts(1)[OF l il, of off]
  show ?thesis
    unfolding inorder
  proof (rule map_of_middle[OF bd(2)])
    let ?R = "rpart (drop i kvs) (map bt_inorder (drop (Suc i) ts))"
    have "key \<noteq> fst x" if x: "x \<in> set ?R" for x
    proof (cases "drop i kvs")
      case (Cons kv ks')
      obtain r rs where rs: "map bt_inorder (drop (Suc i) ts) = r # rs"
        using Cons l by (cases "drop (Suc i) ts") (auto simp: drop_eq_Nil)
      have kv: "kv = kvs ! i" "i < length kvs" using Cons by (auto simp: nth_via_drop) (metis drop_eq_Nil list.distinct(1) not_le)
      then have k: "bytes_of key < key_of kv" using no i kv Cons by (auto simp: splits_def order_le_less)
      have "bt_sorted ?R" using s unfolding inorder by (simp add: bt_sorted_append)
      then have "key_of kv \<le> key_of x" using x unfolding Cons rs by (auto simp: bt_sorted_Cons intro: less_imp_le)
      then show ?thesis using k by auto
    qed (use x in simp)
    then show "\<forall>x\<in>set ?R. bytes_of key < key_of x" using bd(3) by (auto simp: order_le_less)
  qed
qed

lemma btree_get_loop_ok:
  assumes "store_ok b" "bt_repr (node_at b ix) t" "\<forall>off\<in>set (bt_offs t). inside b off" "bt_shape h t"
    "bt_sorted (bt_inorder t)"
  shows "btree_get_loop b ix key (bt_root t) res
    = (case map_of (bt_inorder t) key of None \<Rightarrow> Some res | Some v \<Rightarrow> vector_append res v)"
  using assms
proof (induction t arbitrary: h res)
  case Leaf
  then show ?case by (subst btree_get_loop.simps) simp
next
  case (Node off kvs ts)
  obtain n where n: "node_at b ix off = Some n" "node_holds n kvs (map bt_root ts)" "off \<noteq> - 1" using Node.prems(2) by auto
  have l: "length ts = Suc (length kvs)" "0 < length kvs" using Node.prems(4) by auto
  have g: "get_node b ix off = Some n" using get_node_ok[OF Node.prems(1)] Node.prems(3) n(1) by simp
  have ks: "bt_sorted kvs" by (rule node_sorted[OF Node.prems(5) l(1)])
  obtain i where i: "btree_pos key (bn_items n) (bn_cnt n) = Some i" "splits key kvs i"
    using node_pos[OF n(2) ks l(2)] by blast
  have il: "i \<le> length kvs" using i(2) by (simp add: splits_def)
  note bd = node_bounds[OF Node.prems(5) l(1) i(2)]
  have it: "ts ! i \<in> set ts" using il l(1) by simp
  have child: "btree_get_loop b ix key (bt_root (ts ! i)) r
      = (case map_of (bt_inorder (ts ! i)) key of None \<Rightarrow> Some r | Some v \<Rightarrow> vector_append r v)" for r
    using Node.IH[OF it, of "h - 1" r] Node.prems it bd(1) by fastforce
  have ptr: "bn_ptr n ! i = bt_root (ts ! i)" using node_holds_key(3)[OF n(2) il] il l(1) by simp
  have dr: "drop i (take (bn_cnt n) (bn_items n)) = map bt_item (drop i kvs)"
    by (simp add: node_holds_key(2)[OF n(2)] drop_map)
  have ds: "bt_sorted (drop i kvs)" using ks unfolding bt_sorted_def by (rule sorted_wrt_drop)
  have step: "btree_get_loop b ix key (bt_root (Node off kvs ts)) res
      = (append_matches key (map bt_item (drop i kvs)) res \<bind> btree_get_loop b ix key (bt_root (ts ! i)))"
    using n(3) g i(1) ptr dr by (subst btree_get_loop.simps) simp
  have am: "append_matches key (map bt_item (drop i kvs)) res
    = (case drop i kvs of kv # _ \<Rightarrow> if fst kv = key then vector_append res (snd kv) else Some res | [] \<Rightarrow> Some res)"
    using i(2) by (intro append_matches_sorted[OF ds]) (simp add: splits_def)
  note inorder = node_parts(1)[OF l(1) il, of off]
  show ?case
  proof (cases "i < length kvs \<and> fst (kvs ! i) = key")
    case True
    then have d: "drop i kvs = kvs ! i # drop (Suc i) kvs" by (simp add: Cons_nth_drop_Suc)
    obtain r rs where rs: "map bt_inorder (drop (Suc i) ts) = r # rs"
      using True l(1) by (cases "drop (Suc i) ts") auto
    have "map_of (bt_inorder (ts ! i)) key = None" using bd(4) True by (auto simp: map_of_eq_None_iff)
    moreover have "map_of (bt_inorder (Node off kvs ts)) key = Some (snd (kvs ! i))"
    proof -
      have "map_of (lpart (map bt_inorder (take i ts)) (take i kvs)) key = None" using bd(2) by (auto simp: map_of_eq_None_iff)
      then show ?thesis
        unfolding inorder d rs using True calculation by (auto simp: map_add_def split: option.split)
    qed
    ultimately show ?thesis
      unfolding step unfolding am unfolding d using True child by (cases "vector_append res (snd (kvs ! i))") auto
  next
    case False
    have "append_matches key (map bt_item (drop i kvs)) res = Some res"
      unfolding am using False by (auto split: list.splits simp: nth_via_drop)
    moreover have "map_of (bt_inorder (Node off kvs ts)) key = map_of (bt_inorder (ts ! i)) key"
      by (rule key_in_child[OF Node.prems(5) l(1) i(2) False])
    ultimately show ?thesis unfolding step using child by simp
  qed
qed

end
