(* ===== verification/Btree_Insert.thy ===== *)
theory Btree_Insert imports
  Btree_Spec "HOL-Library.Multiset"
begin

text \<open>
  Insertion into the B-trees of src/btree.c: an entry that goes into a node with room, a full node that is split, a new root.
  The result holds the old entries and the new one in order, the nodes that do not belong to the tree are left alone, and the index
  can be closed and opened again.
\<close>

section \<open>Inserting into a node\<close>

lemma put_item_ok:
  assumes "length k < BTREE_KEY_SIZE"
  shows "put_item k (length k) v = Some (bt_item (k, v))"
  using assms by (simp add: put_item_def put_key_def bt_item_def)

lemma bt_item_size: "length (fst kv) < BTREE_KEY_SIZE \<Longrightarrow> unat (bt_key_size (bt_item kv)) = length (fst kv)"
  by (simp add: bt_item_def unat_of_nat)

lemma bt_item_value [simp]: "bt_valset (bt_item kv) = snd kv"
  by (simp add: bt_item_def)

lemma memmove_open: "i \<le> m \<Longrightarrow> m < length xs \<Longrightarrow> (memmove (i + 1) i (m - i) xs)[i := x] = take i xs @ x # take (m - i) (drop i xs) @ drop (m + 1) xs"
  by (simp add: memmove_def take_Suc_conv_app_nth list_update_append)

lemma open_slot_holds:
  assumes n: "node_holds n kvs ps" and l: "length kvs < INDEX_SIZE" and i: "i \<le> length kvs"
  shows "node_holds ((open_slot (length kvs) i (bt_item kv) p n)\<lparr>bn_cnt := length kvs + 1\<rparr>)
    (take i kvs @ kv # drop i kvs) (take (i + 1) ps @ p # drop (i + 1) ps)"
proof -
  let ?m = "length kvs"
  have h: "length (bn_items n) = INDEX_SIZE" "length (bn_ptr n) = INDEX_SIZE + 1" "take ?m (bn_items n) = map bt_item kvs"
    "take (Suc ?m) (bn_ptr n) = ps" "length ps = Suc ?m" using n by (auto simp: node_holds_def)
  have items: "(memmove (i + 1) i (?m - i) (bn_items n))[i := bt_item kv] = take i (bn_items n) @ bt_item kv # take (?m - i) (drop i (bn_items n)) @ drop (?m + 1) (bn_items n)"
    using h(1) l i by (intro memmove_open) simp_all
  have ptrs: "(memmove (i + 2) (i + 1) (?m - i) (bn_ptr n))[i + 1 := p]
      = take (i + 1) (bn_ptr n) @ p # take (?m - i) (drop (i + 1) (bn_ptr n)) @ drop (?m + 2) (bn_ptr n)"
    using memmove_open[of "i + 1" "?m + 1" "bn_ptr n" p] h(2) l i by simp
  have ti: "take i (bn_items n) = map bt_item (take i kvs)" "take (?m - i) (drop i (bn_items n)) = map bt_item (drop i kvs)"
    using arg_cong[OF h(3), of "take i"] arg_cong[OF h(3), of "drop i"] i by (simp_all add: take_map drop_map drop_take min_def)
  have tp: "take (i + 1) (bn_ptr n) = take (i + 1) ps" "take (?m - i) (drop (i + 1) (bn_ptr n)) = drop (i + 1) ps"
    using arg_cong[OF h(4), of "take (i + 1)"] arg_cong[OF h(4), of "drop (i + 1)"] i by (simp_all add: drop_take min_def)
  show ?thesis
    unfolding node_holds_def open_slot_def
    using h l i by (simp add: items[simplified] ptrs[simplified] ti[simplified] tp[simplified] Suc_diff_le)
qed

definition aug :: "nat \<Rightarrow> 'a \<Rightarrow> 'a list \<Rightarrow> 'a list" where
  "aug i x xs = take i xs @ x # drop i xs"

lemma four_cases: "length xs = (4 :: nat) \<Longrightarrow> \<exists>a b c d. xs = [a, b, c, d]"
  by (auto simp: numeral_eq_Suc length_Suc_conv)

lemma five_cases: "length xs = (5 :: nat) \<Longrightarrow> \<exists>a b c d e. xs = [a, b, c, d, e]"
  by (auto simp: numeral_eq_Suc length_Suc_conv)

text \<open>A full node and the new entry: the lower two keep the node, the upper two go to a new one, the middle one goes up.\<close>

lemma split_node_eq:
  assumes n: "node_holds n kvs ps" and l: "length kvs = INDEX_SIZE" and i: "i \<le> INDEX_SIZE"
    and small: "\<forall>kv\<in>set kvs. length (fst kv) < BTREE_KEY_SIZE" "length k < BTREE_KEY_SIZE"
  shows "\<exists>nL nR. node_holds nL (take 2 (aug i (k, v) kvs)) (take 3 (aug (i + 1) p ps))
    \<and> node_holds nR (drop 3 (aug i (k, v) kvs)) (drop 3 (aug (i + 1) p ps))
    \<and> split_node b ix off n i k (length k) v p = do {
        (off', b, ix) \<leftarrow> alloc_node b ix;
        (b, ix) \<leftarrow> flush_node b ix off nL;
        (b, ix) \<leftarrow> flush_node b ix off' nR;
        Some (Up (fst (aug i (k, v) kvs ! 2)) (length (fst (aug i (k, v) kvs ! 2))) (snd (aug i (k, v) kvs ! 2)) off', b, ix) }"
proof -
  obtain a c d e where k: "kvs = [a, c, d, e]" using four_cases l by blast
  have "length ps = 5" using n l by (simp add: node_holds_def)
  then obtain p0 p1 p2 p3 p4 where ps: "ps = [p0, p1, p2, p3, p4]" using five_cases by blast
  have f: "bn_items n = map bt_item kvs" "bn_ptr n = ps" using n l by (auto simp: node_holds_def)
  have s: "length (fst a) < 64" "length (fst c) < 64" "length (fst d) < 64" "length (fst e) < 64"
    using small(1) k by auto
  note fin = bt_item_size[OF s(4)] put_item_ok[OF s(4), of "snd e", simplified] put_item_ok[OF small(2), of v]
  have mid: "unat (bt_key_size (bt_item kv)) = length (fst kv)" if "kv \<in> {a, c, d, e, (k, v)}" for kv
    using that s small(2) by (intro bt_item_size) auto
  consider "i = 0" | "i = 1" | "i = 2" | "i = 3" | "i = 4" using i by linarith
  then show ?thesis
  proof cases
    case 1
    show ?thesis
      by (intro exI[of _ "(open_slot 3 i (bt_item (k, v)) p n)\<lparr>bn_cnt := INDEX_MSIZE\<rparr>"]
          exI[of _ "\<lparr>bn_cnt = INDEX_MSIZE, bn_items = map bt_item [d, e] @ replicate 2 zero_bitem, bn_ptr = [p2, p3, p4] @ replicate 2 0\<rparr>"])
        (simp add: 1 k ps f fin mid aug_def split_node_def open_slot_def memmove_def node_holds_def Let_def)
  next
    case 2
    show ?thesis
      by (intro exI[of _ "(open_slot 3 i (bt_item (k, v)) p n)\<lparr>bn_cnt := INDEX_MSIZE\<rparr>"]
          exI[of _ "\<lparr>bn_cnt = INDEX_MSIZE, bn_items = map bt_item [d, e] @ replicate 2 zero_bitem, bn_ptr = [p2, p3, p4] @ replicate 2 0\<rparr>"])
        (simp add: 2 k ps f fin mid aug_def split_node_def open_slot_def memmove_def node_holds_def Let_def)
  next
    case 3
    show ?thesis
      by (intro exI[of _ "(open_slot 3 i (bt_item (k, v)) p n)\<lparr>bn_cnt := INDEX_MSIZE\<rparr>"]
          exI[of _ "\<lparr>bn_cnt = INDEX_MSIZE, bn_items = map bt_item [d, e] @ replicate 2 zero_bitem, bn_ptr = [p, p3, p4] @ replicate 2 0\<rparr>"])
        (simp add: 3 k ps f fin mid aug_def split_node_def open_slot_def memmove_def node_holds_def Let_def)
  next
    case 4
    show ?thesis
      by (intro exI[of _ "(open_slot 3 i (bt_item (k, v)) p n)\<lparr>bn_cnt := INDEX_MSIZE\<rparr>"]
          exI[of _ "\<lparr>bn_cnt = INDEX_MSIZE, bn_items = map bt_item [(k, v), e] @ replicate 2 zero_bitem, bn_ptr = [p3, p, p4] @ replicate 2 0\<rparr>"])
        (simp add: 4 k ps f fin mid aug_def split_node_def open_slot_def memmove_def node_holds_def Let_def)
  next
    case 5
    show ?thesis
      by (intro exI[of _ "n\<lparr>bn_cnt := INDEX_MSIZE\<rparr>"]
          exI[of _ "\<lparr>bn_cnt = INDEX_MSIZE, bn_items = map bt_item [e, (k, v)] @ replicate 2 zero_bitem, bn_ptr = [p3, p4, p] @ replicate 2 0\<rparr>"])
        (simp add: 5 k ps f fin mid aug_def split_node_def open_slot_def memmove_def node_holds_def Let_def)
  qed
qed

section \<open>Inserting into a tree\<close>

text \<open>The entry at its place in a sequence.\<close>

definition ins_at :: "string \<Rightarrow> u64 \<Rightarrow> (string \<times> u64) list \<Rightarrow> (string \<times> u64) list \<Rightarrow> bool" where
  "ins_at key v xs ys \<longleftrightarrow> (\<exists>A B. xs = A @ B \<and> ys = A @ (key, v) # B
     \<and> (\<forall>a\<in>set A. key_of a < bytes_of key) \<and> (\<forall>b\<in>set B. bytes_of key < key_of b))"

lemma ins_at_context:
  assumes "ins_at key v xs ys" "\<forall>a\<in>set A. key_of a < bytes_of key" "\<forall>b\<in>set B. bytes_of key < key_of b"
  shows "ins_at key v (A @ xs @ B) (A @ ys @ B)"
proof -
  obtain C D where "xs = C @ D" "ys = C @ (key, v) # D" "\<forall>a\<in>set C. key_of a < bytes_of key" "\<forall>b\<in>set D. bytes_of key < key_of b"
    using assms(1) by (auto simp: ins_at_def)
  then show ?thesis
    unfolding ins_at_def using assms(2,3) by (intro exI[of _ "A @ C"] exI[of _ "D @ B"]) auto
qed

lemma ins_at_sorted: "ins_at key v xs ys \<Longrightarrow> bt_sorted xs \<Longrightarrow> bt_sorted ys"
  by (auto simp: ins_at_def bt_sorted_append bt_sorted_Cons)

lemma ins_at_set: "ins_at key v xs ys \<Longrightarrow> set ys = insert (key, v) (set xs)"
  by (auto simp: ins_at_def)

lemma ins_at_map: "ins_at key v xs ys \<Longrightarrow> map_of ys = (map_of xs)(key \<mapsto> v)"
proof -
  assume "ins_at key v xs ys"
  then obtain A B where AB: "xs = A @ B" "ys = A @ (key, v) # B" "\<forall>a\<in>set A. key_of a < bytes_of key" by (auto simp: ins_at_def)
  then have "map_of A key = None" by (auto simp: map_of_eq_None_iff)
  then show ?thesis by (auto simp: AB(1,2) map_add_def fun_eq_iff split: option.splits)
qed

text \<open>The stored copy of the root node is up to date.\<close>

definition synced :: "base \<Rightarrow> btree \<Rightarrow> bool" where
  "synced b ix \<longleftrightarrow> (ix_root ix \<noteq> - 1 \<longrightarrow> inside b (ix_root ix)
     \<and> cell_at b (word_of_int (ix_root ix)) = Some (CNode (ix_rootnode ix)))"

text \<open>What an operation on a subtree with the offsets \<open>S\<close> leaves alone.\<close>

definition grown :: "int set \<Rightarrow> base \<Rightarrow> btree \<Rightarrow> base \<Rightarrow> btree \<Rightarrow> bool" where
  "grown S b ix b' ix' \<longleftrightarrow> store_ok b' \<and> mark b \<le> mark b' \<and> ix_root ix' = ix_root ix \<and> ix_freelist ix' = ix_freelist ix
     \<and> ix_unique ix' = ix_unique ix \<and> ix_offset ix' = ix_offset ix
     \<and> (synced b ix \<longrightarrow> synced b' ix')
     \<and> (\<forall>x. inside b x \<longrightarrow> x \<notin> S \<longrightarrow> node_at b' ix' x = node_at b ix x)
     \<and> (\<forall>x. valid b x \<longrightarrow> unat x < mark b \<longrightarrow> x \<notin> word_of_int ` S \<longrightarrow> valid b' x \<and> cell_at b' x = cell_at b x)"

lemma inside_grown: "grown S b ix b' ix' \<Longrightarrow> inside b x \<Longrightarrow> inside b' x"
  unfolding grown_def inside_def by linarith

lemma grown_trans:
  assumes "grown S b ix b1 ix1" "grown T b1 ix1 b2 ix2" "\<forall>x\<in>T. inside b x \<longrightarrow> x \<in> S"
    "\<forall>x\<in>T. inside b1 x" "store_ok b"
  shows "grown S b ix b2 ix2"
proof -
  have node: "node_at b2 ix2 x = node_at b ix x" if "inside b x" "x \<notin> S" for x
    using assms(1,2,3) that inside_grown[OF assms(1) that(1)] unfolding grown_def by metis
  have cell: "valid b2 x \<and> cell_at b2 x = cell_at b x" if x: "valid b x" "unat x < mark b" "x \<notin> word_of_int ` S" for x
  proof -
    have m: "unat x < mark b1" using x(2) assms(1) by (simp add: grown_def)
    have "x \<notin> word_of_int ` T"
    proof
      assume "x \<in> word_of_int ` T"
      then obtain y where y: "y \<in> T" "x = word_of_int y" by blast
      have ok1: "store_ok b1" using assms(1) by (simp add: grown_def)
      have "nat y = unat x" using inside_valid(2)[OF ok1] assms(4) y by auto
      then have "inside b y" using x(2) assms(4) y(1) by (auto simp: inside_def)
      then show False using assms(3) y x(3) by blast
    qed
    then show ?thesis using assms(1,2) x m unfolding grown_def by metis
  qed
  have "store_ok b2" "mark b \<le> mark b2" "ix_root ix2 = ix_root ix" "ix_freelist ix2 = ix_freelist ix"
    "ix_unique ix2 = ix_unique ix" "ix_offset ix2 = ix_offset ix" "synced b ix \<longrightarrow> synced b2 ix2"
    using assms(1,2) by (auto simp: grown_def)
  then show ?thesis using node cell by (simp add: grown_def)
qed

lemma grown_refl: "store_ok b \<Longrightarrow> grown S b ix b ix"
  by (simp add: grown_def)

lemma flush_grown:
  assumes ok: "store_ok b" and off: "inside b off"
  obtains b' ix' where "flush_node b ix off n = Some (b', ix')" "grown {off} b ix b' ix'" "node_at b' ix' off = Some n"
    "mark b' = mark b" "\<And>m. room b' m = room b m" "cell_at b' (word_of_int off) = Some (CNode n)"
proof -
  obtain D where D:
    "flush_node b ix off n = Some (b\<lparr>disk := D\<rparr>, if off = ix_root ix then ix\<lparr>ix_rootnode := n\<rparr> else ix)"
    "store_ok (b\<lparr>disk := D\<rparr>)"
    "\<And>x. inside b x \<Longrightarrow> node_at (b\<lparr>disk := D\<rparr>) (if off = ix_root ix then ix\<lparr>ix_rootnode := n\<rparr> else ix) x
       = (if x = off then Some n else node_at b ix x)"
    "\<And>x. valid b x \<Longrightarrow> x \<noteq> word_of_int off \<Longrightarrow> cell_at (b\<lparr>disk := D\<rparr>) x = cell_at b x"
    "cell_at (b\<lparr>disk := D\<rparr>) (word_of_int off) = Some (CNode n)"
    using flush_node_ok[OF ok off] by blast
  have "synced (b\<lparr>disk := D\<rparr>) (if off = ix_root ix then ix\<lparr>ix_rootnode := n\<rparr> else ix)" if y: "synced b ix"
  proof (cases "off = ix_root ix")
    case False
    have "word_of_int (ix_root ix) \<noteq> (word_of_int off :: u64)" "valid b (word_of_int (ix_root ix))" if "ix_root ix \<noteq> - 1"
      using y that False inside_inj[OF ok _ off] inside_valid(1)[OF ok] by (auto simp: synced_def)
    then show ?thesis using y D(4) False by (auto simp: synced_def)
  qed (use off D(5) in \<open>simp add: synced_def\<close>)
  moreover have "grown {off} b ix (b\<lparr>disk := D\<rparr>) (if off = ix_root ix then ix\<lparr>ix_rootnode := n\<rparr> else ix)"
    using D calculation by (simp add: grown_def)
  then show ?thesis using that D(1,3) D(5) off by simp
qed

lemma alloc_grown:
  assumes ok: "store_ok b" and r: "room b (Suc n)" and fl: "ix_freelist ix < 0" and root: "nat (ix_root ix) < mark b"
  obtains b' where "alloc_node b ix = Some (int (mark b), b', ix)" "grown {} b ix b' ix" "inside b' (int (mark b))"
    "\<not> inside b (int (mark b))" "room b' n"
proof -
  obtain D where D: "alloc_node b ix = Some (int (mark b), b\<lparr>pager_offset := pager_offset b + sizeof_node, disk := D\<rparr>, ix)"
    "store_ok (b\<lparr>pager_offset := pager_offset b + sizeof_node, disk := D\<rparr>)"
    "mark (b\<lparr>pager_offset := pager_offset b + sizeof_node, disk := D\<rparr>) = mark b + 368"
    "room (b\<lparr>pager_offset := pager_offset b + sizeof_node, disk := D\<rparr>) n" "0 < mark b"
    "\<And>x. inside b x \<Longrightarrow> node_at (b\<lparr>pager_offset := pager_offset b + sizeof_node, disk := D\<rparr>) ix x = node_at b ix x"
    "\<And>x. valid b x \<Longrightarrow> unat x < mark b \<Longrightarrow> cell_at (b\<lparr>pager_offset := pager_offset b + sizeof_node, disk := D\<rparr>) x = cell_at b x"
    using alloc_node_ok[OF assms] by blast
  let ?b = "b\<lparr>pager_offset := pager_offset b + sizeof_node, disk := D\<rparr>"
  have v: "valid ?b = valid b" by (simp add: valid_def fun_eq_iff)
  have "inside ?b x" if "inside b x" for x using D(3) that unfolding inside_def by linarith
  then have "synced ?b ix" if "synced b ix"
    using that inside_valid[OF ok] D(7) unfolding synced_def by metis
  then have "grown {} b ix ?b ix" unfolding grown_def using D(2,3,6,7) v by simp
  moreover have "inside ?b (int (mark b))" "\<not> inside b (int (mark b))"
    using D(3,5) nat_int[of "mark b"] unfolding inside_def by linarith+
  ultimately show ?thesis using that D(1,4) by blast
qed

lemma bt_repr_grown:
  assumes "bt_repr (node_at b ix) t" "grown S b ix b' ix'" "\<forall>x\<in>set (bt_offs t). inside b x \<and> x \<notin> S"
  shows "bt_repr (node_at b' ix') t"
  using assms
proof (induction t)
  case (Node off kvs ts)
  have "node_at b' ix' off = node_at b ix off" using Node.prems(2,3) by (simp add: grown_def)
  then show ?case using Node by auto
qed simp

text \<open>The offsets of the new trees: those of the old tree, and some that were not in use.\<close>

definition new_offs :: "base \<Rightarrow> base \<Rightarrow> int set \<Rightarrow> int list \<Rightarrow> bool" where
  "new_offs b b' S ys \<longleftrightarrow> distinct ys \<and> (\<forall>y\<in>set ys. y \<in> S \<or> inside b' y \<and> \<not> inside b y)"

definition ins_post :: "string \<Rightarrow> u64 \<Rightarrow> nat \<Rightarrow> bt \<Rightarrow> base \<Rightarrow> btree \<Rightarrow> insert_result \<Rightarrow> base \<Rightarrow> btree \<Rightarrow> bool" where
  "ins_post key v h t b ix r b' ix' \<longleftrightarrow> grown (set (bt_offs t)) b ix b' ix' \<and>
     (case r of
        Done st \<Rightarrow> st = SUCCESS \<and> (\<exists>t'. bt_root t' = bt_root t \<and> bt_repr (node_at b' ix') t' \<and> bt_shape h t'
          \<and> new_offs b b' (set (bt_offs t)) (bt_offs t') \<and> ins_at key v (bt_inorder t) (bt_inorder t'))
      | Up k ks w off' \<Rightarrow> ks = length k \<and> (\<exists>l r. bt_root l = bt_root t \<and> bt_root r = off'
          \<and> bt_repr (node_at b' ix') l \<and> bt_repr (node_at b' ix') r \<and> bt_shape h l \<and> bt_shape h r
          \<and> new_offs b b' (set (bt_offs t)) (bt_offs l @ bt_offs r)
          \<and> ins_at key v (bt_inorder t) (bt_inorder l @ (k, w) # bt_inorder r)))"

lemma weave_append:
  "length xs = Suc (length as) \<Longrightarrow> weave (xs @ ys) (as @ m # bs) = weave xs as @ m # weave ys bs"
proof (induction as arbitrary: xs)
  case Nil
  then show ?case by (cases xs) auto
next
  case (Cons a as)
  then show ?case by (cases xs) auto
qed

text \<open>The child at a position replaced by one tree, or by two trees with an entry between them.\<close>

lemma ins_at_child:
  assumes s: "bt_sorted (bt_inorder (Node off kvs ts))" and l: "length ts = Suc (length kvs)" and i: "splits key kvs i"
    and fresh: "key \<notin> fst ` set (bt_inorder (Node off kvs ts))"
    and c: "ins_at key v (bt_inorder (ts ! i)) ys"
  shows "ins_at key v (bt_inorder (Node off kvs ts))
     (lpart (map bt_inorder (take i ts)) (take i kvs) @ ys @ rpart (drop i kvs) (map bt_inorder (drop (Suc i) ts)))"
proof -
  have il: "i \<le> length kvs" using i by (simp add: splits_def)
  note p = node_parts(1)[OF l il, of off]
  note bd = node_bounds[OF s l i]
  have "\<forall>b\<in>set (rpart (drop i kvs) (map bt_inorder (drop (Suc i) ts))). bytes_of key < key_of b"
  proof
    fix x assume x: "x \<in> set (rpart (drop i kvs) (map bt_inorder (drop (Suc i) ts)))"
    then have "fst x \<noteq> key" using fresh unfolding p by auto
    then show "bytes_of key < key_of x" using bd(3) x by (auto simp: order_le_less)
  qed
  then show ?thesis unfolding p using ins_at_context[OF c bd(2)] by blast
qed

lemma child_replaced:
  assumes "length ts = Suc (length kvs)" "i \<le> length kvs"
  shows "bt_inorder (Node off kvs (take i ts @ t # drop (Suc i) ts))
    = lpart (map bt_inorder (take i ts)) (take i kvs) @ bt_inorder t @ rpart (drop i kvs) (map bt_inorder (drop (Suc i) ts))"
proof -
  have "bt_inorder (Node off kvs (take i ts @ t # drop (Suc i) ts))
      = weave (map bt_inorder (take i ts) @ bt_inorder t # map bt_inorder (drop (Suc i) ts)) (take i kvs @ drop i kvs)" by simp
  also have "\<dots> = lpart (map bt_inorder (take i ts)) (take i kvs) @ bt_inorder t @ rpart (drop i kvs) (map bt_inorder (drop (Suc i) ts))"
    using assms by (intro weave_parts) simp_all
  finally show ?thesis .
qed

lemma child_split:
  assumes "length ts = Suc (length kvs)" "i \<le> length kvs"
  shows "weave (map bt_inorder (take i ts @ l # r # drop (Suc i) ts)) (aug i kv kvs)
    = lpart (map bt_inorder (take i ts)) (take i kvs) @ (bt_inorder l @ kv # bt_inorder r)
      @ rpart (drop i kvs) (map bt_inorder (drop (Suc i) ts))"
proof -
  have "weave (map bt_inorder (take i ts @ l # r # drop (Suc i) ts)) (aug i kv kvs)
      = lpart (map bt_inorder (take i ts)) (take i kvs) @ bt_inorder l
        @ rpart (kv # drop i kvs) (bt_inorder r # map bt_inorder (drop (Suc i) ts))"
    unfolding aug_def map_append list.map using assms by (intro weave_parts) simp_all
  then show ?thesis by simp
qed

text \<open>The offsets of the children, the one at a position apart.\<close>

lemma offs_parts:
  assumes "i < length ts"
  shows "mset (bt_offs (Node off kvs ts)) = {#off#} + mset (bt_offs (ts ! i))
    + mset (concat (map bt_offs (take i ts @ drop (Suc i) ts)))"
proof -
  have "ts = take i ts @ ts ! i # drop (Suc i) ts" using assms by (rule id_take_nth_drop)
  then have "mset (concat (map bt_offs ts)) = mset (concat (map bt_offs (take i ts @ ts ! i # drop (Suc i) ts)))" by (rule arg_cong)
  then show ?thesis by simp
qed

lemma new_offs_context:
  assumes d: "distinct (bt_offs (Node off kvs ts))" and i: "i < length ts"
    and ins: "\<forall>x\<in>set (bt_offs (Node off kvs ts)). inside b x"
    and n: "new_offs b b' (set (bt_offs (ts ! i))) ys"
    and zs: "mset zs = {#off#} + mset ys + mset (concat (map bt_offs (take i ts @ drop (Suc i) ts)))"
  shows "new_offs b b' (set (bt_offs (Node off kvs ts))) zs"
proof -
  define R where "R = concat (map bt_offs (take i ts @ drop (Suc i) ts))"
  have e0: "mset (bt_offs (Node off kvs ts)) = mset (off # bt_offs (ts ! i) @ R)"
    unfolding offs_parts[OF i] R_def by simp
  have dd: "distinct (off # bt_offs (ts ! i) @ R)" "set (bt_offs (Node off kvs ts)) = set (off # bt_offs (ts ! i) @ R)"
    using d mset_eq_imp_distinct_iff[OF e0] mset_eq_setD[OF e0] by blast+
  have old: "x \<notin> set ys" if "x \<in> set (off # R)" for x
    using n that dd(1) ins unfolding new_offs_def dd(2) by auto
  have "distinct (off # ys @ R)" using dd(1) n old unfolding new_offs_def by auto
  moreover have e: "mset zs = mset (off # ys @ R)" using zs by (simp add: R_def)
  ultimately have "distinct zs" "set zs = set (off # ys @ R)"
    using mset_eq_imp_distinct_iff[OF e] mset_eq_setD[OF e] by auto
  then show ?thesis using n unfolding new_offs_def dd(2) by auto
qed

text \<open>A sorted tree in the store without the key, no node freed yet, every key short enough.\<close>

definition ins_pre :: "string \<Rightarrow> nat \<Rightarrow> bt \<Rightarrow> base \<Rightarrow> btree \<Rightarrow> bool" where
  "ins_pre key h t b ix \<longleftrightarrow> store_ok b \<and> bt_repr (node_at b ix) t \<and> distinct (bt_offs t)
     \<and> (\<forall>x\<in>set (bt_offs t). inside b x) \<and> bt_shape h t \<and> bt_sorted (bt_inorder t)
     \<and> key \<notin> fst ` set (bt_inorder t) \<and> (\<forall>kv\<in>set (bt_inorder t). length (fst kv) < BTREE_KEY_SIZE)
     \<and> length key < BTREE_KEY_SIZE \<and> ix_freelist ix < 0 \<and> nat (ix_root ix) < mark b"

lemma inorder_kvs:
  assumes "length ts = Suc (length kvs)" shows "set kvs \<subseteq> set (bt_inorder (Node off kvs ts))"
proof -
  have "kvs = [] \<or> ts \<noteq> []" using assms by auto
  have "set kvs \<subseteq> set (rpart (drop 0 kvs) (map bt_inorder (drop (Suc 0) ts)))"
    using assms rpart_set[of "map bt_inorder (drop (Suc 0) ts)" kvs] by simp
  then show ?thesis using node_parts(1)[OF assms, of 0 off] by auto
qed

lemma inorder_child:
  assumes "length ts = Suc (length kvs)" "i \<le> length kvs"
  shows "set (bt_inorder (ts ! i)) \<subseteq> set (bt_inorder (Node off kvs ts))"
  using node_parts(1)[OF assms, of off] by auto

lemma child_pre:
  assumes p: "ins_pre key h (Node off kvs ts) b ix" and i: "i \<le> length kvs"
  shows "ins_pre key (h - 1) (ts ! i) b ix"
proof -
  have l: "length ts = Suc (length kvs)" using p by (simp add: ins_pre_def)
  then have it: "ts ! i \<in> set ts" using i by simp
  have "bt_sorted (bt_inorder (ts ! i))"
    using p node_parts(1)[OF l i, of off] unfolding ins_pre_def by (auto simp: bt_sorted_append)
  moreover have "distinct (bt_offs (ts ! i))"
    using p it unfolding ins_pre_def by (auto simp: distinct_concat_iff)
  moreover have "set (bt_offs (ts ! i)) \<subseteq> set (bt_offs (Node off kvs ts))" using it by auto
  moreover note inorder_child[OF l i, of off]
  ultimately show ?thesis using p it unfolding ins_pre_def by auto
qed

lemma grown_mono: "grown S b ix b' ix' \<Longrightarrow> S \<subseteq> T \<Longrightarrow> grown T b ix b' ix'"
  unfolding grown_def by blast

text \<open>The children beside the one that was changed.\<close>

lemma others_repr:
  assumes p: "ins_pre key h (Node off kvs ts) b ix" and i: "i < length ts"
    and g: "grown (set (bt_offs (ts ! i))) b ix b' ix'" and t: "t \<in> set (take i ts @ drop (Suc i) ts)"
  shows "bt_repr (node_at b' ix') t \<and> bt_shape (h - 1) t"
proof -
  have ts: "t \<in> set ts" using t by (auto dest: in_set_takeD in_set_dropD)
  define R where "R = concat (map bt_offs (take i ts @ drop (Suc i) ts))"
  have "mset (bt_offs (Node off kvs ts)) = mset (off # bt_offs (ts ! i) @ R)"
    unfolding offs_parts[OF i] R_def by simp
  then have "distinct (off # bt_offs (ts ! i) @ R)"
    using p mset_eq_imp_distinct_iff unfolding ins_pre_def by blast
  moreover have "set (bt_offs t) \<subseteq> set R" using t by (auto simp: R_def)
  ultimately have "\<forall>x\<in>set (bt_offs t). x \<notin> set (bt_offs (ts ! i))" by auto
  then have "\<forall>x\<in>set (bt_offs t). inside b x \<and> x \<notin> set (bt_offs (ts ! i))"
    using p ts unfolding ins_pre_def by auto
  then have "bt_repr (node_at b' ix') t" using p ts by (intro bt_repr_grown[OF _ g]) (auto simp: ins_pre_def)
  then show ?thesis using p ts by (auto simp: ins_pre_def)
qed

lemma node_kept:
  assumes p: "ins_pre key h (Node off kvs ts) b ix" and i: "i < length ts"
    and g: "grown (set (bt_offs (ts ! i))) b ix b' ix'"
  shows "node_at b' ix' off = node_at b ix off" "off \<notin> set (bt_offs (ts ! i))" "inside b off"
proof -
  have "ts ! i \<in> set ts" using i by simp
  then show n: "off \<notin> set (bt_offs (ts ! i))" "inside b off" using p unfolding ins_pre_def by auto
  then show "node_at b' ix' off = node_at b ix off" using g by (simp add: grown_def)
qed

lemma ins_child_done:
  assumes p: "ins_pre key h (Node off kvs ts) b ix" and i: "splits key kvs i"
    and c: "ins_post key v (h - 1) (ts ! i) b ix (Done st) b' ix'"
  shows "ins_post key v h (Node off kvs ts) b ix (Done st) b' ix'"
proof -
  have l: "length ts = Suc (length kvs)" "i \<le> length kvs" using p i by (auto simp: ins_pre_def splits_def)
  then have il: "i < length ts" by simp
  have g: "grown (set (bt_offs (ts ! i))) b ix b' ix'" and "st = SUCCESS" using c by (auto simp: ins_post_def)
  obtain t where t: "bt_root t = bt_root (ts ! i)" "bt_repr (node_at b' ix') t" "bt_shape (h - 1) t"
    "new_offs b b' (set (bt_offs (ts ! i))) (bt_offs t)" "ins_at key v (bt_inorder (ts ! i)) (bt_inorder t)"
    using c by (auto simp: ins_post_def)
  let ?ts = "take i ts @ t # drop (Suc i) ts"
  have roots: "map bt_root ?ts = map bt_root ts"
  proof -
    have "map bt_root ts = map bt_root (take i ts @ ts ! i # drop (Suc i) ts)"
      using id_take_nth_drop[OF il] by simp
    then show ?thesis using t(1) by simp
  qed
  have "bt_repr (node_at b' ix') (Node off kvs ?ts)"
    using p t(2) others_repr[OF p il g] node_kept(1)[OF p il g] roots unfolding ins_pre_def by auto
  moreover have "bt_shape h (Node off kvs ?ts)"
    using p t(3) others_repr[OF p il g] l unfolding ins_pre_def by auto
  moreover have "new_offs b b' (set (bt_offs (Node off kvs ts))) (bt_offs (Node off kvs ?ts))"
    using p by (intro new_offs_context[OF _ il _ t(4)]) (auto simp: ins_pre_def)
  moreover have "ins_at key v (bt_inorder (Node off kvs ts)) (bt_inorder (Node off kvs ?ts))"
    unfolding child_replaced[OF l] using p l(1) i t(5) by (intro ins_at_child) (auto simp: ins_pre_def)
  moreover have "grown (set (bt_offs (Node off kvs ts))) b ix b' ix'"
    using il by (intro grown_mono[OF g]) auto
  ultimately show ?thesis
    unfolding ins_post_def using \<open>st = SUCCESS\<close> by (simp del: bt_repr.simps bt_shape.simps bt_offs.simps bt_inorder.simps)
      (metis bt_root.simps(2))
qed

lemma splits_sorted:
  assumes i: "i \<le> length kvs" and s: "bt_sorted (A @ xs @ B)" and A: "set (take i kvs) \<subseteq> set A" and B: "set (drop i kvs) \<subseteq> set B"
    and k: "k \<in> fst ` set xs"
  shows "splits k kvs i"
proof -
  obtain x where x: "x \<in> set xs" "fst x = k" using k by blast
  have "key_of a < key_of x" if "a \<in> set (take i kvs)" for a
    using s subsetD[OF A that] x(1) by (simp add: bt_sorted_append)
  moreover have "key_of x \<le> key_of a" if "a \<in> set (drop i kvs)" for a
    using s subsetD[OF B that] x(1) by (intro less_imp_le) (simp add: bt_sorted_append)
  ultimately show ?thesis using i x(2) unfolding splits_def by blast
qed

text \<open>What the code has to store in a node after one of its children was split.\<close>

lemma ins_child_up:
  assumes p: "ins_pre key h (Node off kvs ts) b ix" and i: "splits key kvs i"
    and c: "ins_post key v (h - 1) (ts ! i) b ix (Up k ks w off') b' ix'"
  obtains ts' where "ks = length k" "length k < BTREE_KEY_SIZE" "splits k kvs i"
    "map bt_root ts' = aug (i + 1) off' (map bt_root ts)" "length ts' = Suc (Suc (length kvs))"
    "\<forall>t\<in>set ts'. bt_repr (node_at b' ix') t \<and> bt_shape (h - 1) t"
    "new_offs b b' (set (bt_offs (Node off kvs ts))) (off # concat (map bt_offs ts'))"
    "ins_at key v (bt_inorder (Node off kvs ts)) (weave (map bt_inorder ts') (aug i (k, w) kvs))"
    "off \<notin> set (concat (map bt_offs ts'))"
proof -
  have l: "length ts = Suc (length kvs)" "i \<le> length kvs" using p i by (auto simp: ins_pre_def splits_def)
  then have il: "i < length ts" by simp
  have g: "grown (set (bt_offs (ts ! i))) b ix b' ix'" and ks: "ks = length k" using c by (auto simp: ins_post_def)
  obtain tl tr where t: "bt_root tl = bt_root (ts ! i)" "bt_root tr = off'" "bt_repr (node_at b' ix') tl" "bt_repr (node_at b' ix') tr"
    "bt_shape (h - 1) tl" "bt_shape (h - 1) tr" "new_offs b b' (set (bt_offs (ts ! i))) (bt_offs tl @ bt_offs tr)"
    "ins_at key v (bt_inorder (ts ! i)) (bt_inorder tl @ (k, w) # bt_inorder tr)"
    using c by (auto simp: ins_post_def)
  let ?ts = "take i ts @ tl # tr # drop (Suc i) ts"
  have roots: "map bt_root ?ts = aug (i + 1) off' (map bt_root ts)"
    using t(1,2) il by (simp add: aug_def take_Suc_conv_app_nth take_map drop_map)
  have all: "\<forall>t\<in>set ?ts. bt_repr (node_at b' ix') t \<and> bt_shape (h - 1) t"
    using t(3-6) others_repr[OF p il g] by auto
  have no: "new_offs b b' (set (bt_offs (Node off kvs ts))) (off # concat (map bt_offs ?ts))"
    using p by (intro new_offs_context[OF _ il _ t(7)]) (auto simp: ins_pre_def)
  have ia: "ins_at key v (bt_inorder (Node off kvs ts)) (weave (map bt_inorder ?ts) (aug i (k, w) kvs))"
    unfolding child_split[OF l] using p l(1) i t(8) by (intro ins_at_child) (auto simp: ins_pre_def)
  have "(k, w) \<in> insert (key, v) (set (bt_inorder (ts ! i)))" using ins_at_set[OF t(8)] by auto
  moreover have "set (bt_inorder (ts ! i)) \<subseteq> set (bt_inorder (Node off kvs ts))" by (rule inorder_child[OF l])
  ultimately have "(k, w) = (key, v) \<or> (k, w) \<in> set (bt_inorder (Node off kvs ts))" by blast
  then have "length k < BTREE_KEY_SIZE" using p unfolding ins_pre_def by (metis fst_conv)
  moreover have "splits k kvs i"
  proof (cases "k = key")
    case False
    then have "k \<in> fst ` set (bt_inorder (ts ! i))" using \<open>(k, w) \<in> _\<close> by force
    moreover note np = node_parts[OF l]
    have "bt_sorted (lpart (map bt_inorder (take i ts)) (take i kvs) @ bt_inorder (ts ! i) @ rpart (drop i kvs) (map bt_inorder (drop (Suc i) ts)))"
      using p np(1)[of off] unfolding ins_pre_def by simp
    ultimately show ?thesis
      using lpart_set[OF np(2)] rpart_set[OF np(3)] by (intro splits_sorted[OF l(2)])
  qed (use i in simp)
  ultimately show ?thesis
    using that[OF ks _ _ roots _ all no ia] no l by (simp add: new_offs_def)
qed

lemma ins_child_small:
  assumes p: "ins_pre key h (Node off kvs ts) b ix" and i: "splits key kvs i" and l: "length kvs < INDEX_SIZE"
    and n: "node_at b ix off = Some n" "node_holds n kvs (map bt_root ts)"
    and c: "ins_post key v (h - 1) (ts ! i) b ix (Up k ks w off') b1 ix1"
  obtains b2 ix2 where "put_item k ks w = Some (bt_item (k, w))" "btree_pos k (bn_items n) (bn_cnt n) = Some i"
    "flush_node b1 ix1 off ((open_slot (bn_cnt n) i (bt_item (k, w)) off' n)\<lparr>bn_cnt := bn_cnt n + 1\<rparr>) = Some (b2, ix2)"
    "ins_post key v h (Node off kvs ts) b ix (Done SUCCESS) b2 ix2" "\<And>m. room b2 m = room b1 m"
proof -
  have lt: "length ts = Suc (length kvs)" "i \<le> length kvs" "0 < length kvs" "store_ok b"
    using p i by (auto simp: ins_pre_def splits_def)
  then have il: "i < length ts" by simp
  have cnt: "bn_cnt n = length kvs" using n(2) by (simp add: node_holds_def)
  obtain ts' where t: "ks = length k" "length k < BTREE_KEY_SIZE" "splits k kvs i"
    "map bt_root ts' = aug (i + 1) off' (map bt_root ts)" "length ts' = Suc (Suc (length kvs))"
    "\<forall>t\<in>set ts'. bt_repr (node_at b1 ix1) t \<and> bt_shape (h - 1) t"
    "new_offs b b1 (set (bt_offs (Node off kvs ts))) (off # concat (map bt_offs ts'))"
    "ins_at key v (bt_inorder (Node off kvs ts)) (weave (map bt_inorder ts') (aug i (k, w) kvs))"
    "off \<notin> set (concat (map bt_offs ts'))"
    using ins_child_up[OF p i c] by blast
  have g: "grown (set (bt_offs (ts ! i))) b ix b1 ix1" using c by (simp add: ins_post_def)
  have ok1: "store_ok b1" using g by (simp add: grown_def)
  have off: "inside b off" "inside b1 off" using node_kept(3)[OF p il g] inside_grown[OF g] by auto
  let ?n = "(open_slot (bn_cnt n) i (bt_item (k, w)) off' n)\<lparr>bn_cnt := bn_cnt n + 1\<rparr>"
  let ?t = "Node off (aug i (k, w) kvs) ts'"
  obtain b2 ix2 where f: "flush_node b1 ix1 off ?n = Some (b2, ix2)" "grown {off} b1 ix1 b2 ix2" "node_at b2 ix2 off = Some ?n"
    "mark b2 = mark b1" "\<And>m. room b2 m = room b1 m" "cell_at b2 (word_of_int off) = Some (CNode ?n)"
    using flush_grown[OF ok1 off(2)] by blast
  have h: "node_holds ?n (aug i (k, w) kvs) (map bt_root ts')"
    using open_slot_holds[OF n(2) l lt(2)] unfolding t(4) aug_def cnt .
  have ins: "inside b1 x" if "x \<in> set (concat (map bt_offs ts'))" for x
  proof -
    have "\<forall>x\<in>set (bt_offs (Node off kvs ts)). inside b x" using p unfolding ins_pre_def by blast
    then show ?thesis using t(7) that inside_grown[OF g] unfolding new_offs_def by (metis list.set_intros(2))
  qed
  have "bt_repr (node_at b2 ix2) t" if "t \<in> set ts'" for t
    using t(6,9) that ins by (intro bt_repr_grown[OF _ f(2)]) auto
  then have "bt_repr (node_at b2 ix2) ?t" using f(3) h off by (auto simp: inside_def)
  moreover have "bt_shape h ?t" using p t(5,6) l lt by (auto simp: ins_pre_def aug_def)
  moreover have "new_offs b b2 (set (bt_offs (Node off kvs ts))) (bt_offs ?t)"
    using t(7) f(4) unfolding new_offs_def inside_def by simp
  moreover have "grown (set (bt_offs (Node off kvs ts))) b ix b2 ix2"
  proof (rule grown_trans[OF _ f(2)])
    show "grown (set (bt_offs (Node off kvs ts))) b ix b1 ix1" using il by (intro grown_mono[OF g]) auto
  qed (use off lt in auto)
  ultimately have post: "ins_post key v h (Node off kvs ts) b ix (Done SUCCESS) b2 ix2"
    unfolding ins_post_def insert_result.case using t(8) by (intro conjI exI[of _ ?t]) (simp_all only: bt_root.simps bt_inorder.simps)
  have ks: "bt_sorted kvs" using p lt(1) node_sorted unfolding ins_pre_def by blast
  obtain j where j: "btree_pos k (bn_items n) (bn_cnt n) = Some j" "splits k kvs j" using node_pos[OF n(2) ks lt(3)] by blast
  then have "btree_pos k (bn_items n) (bn_cnt n) = Some i" using splits_unique[OF t(3)] by simp
  then show ?thesis using that[OF _ _ f(1) post f(5)] put_item_ok[OF t(2)] t(1) by blast
qed

lemma ins_child_full:
  assumes p: "ins_pre key h (Node off kvs ts) b ix" and i: "splits key kvs i" and l: "length kvs = INDEX_SIZE"
    and n: "node_at b ix off = Some n" "node_holds n kvs (map bt_root ts)"
    and c: "ins_post key v (h - 1) (ts ! i) b ix (Up k ks w off') b1 ix1" and r: "room b1 (Suc m)"
  obtains r' b2 ix2 where "split_node b1 ix1 off n i k ks w off' = Some (r', b2, ix2)"
    "ins_post key v h (Node off kvs ts) b ix r' b2 ix2" "room b2 m"
proof -
  have lt: "length ts = Suc (length kvs)" "i \<le> length kvs" "store_ok b" "0 < h"
    and small: "\<forall>kv\<in>set kvs. length (fst kv) < BTREE_KEY_SIZE" and root: "nat (ix_root ix) < mark b" "ix_freelist ix < 0"
    using p i inorder_kvs[of ts kvs off] unfolding ins_pre_def by (auto simp: splits_def)
  then have il: "i < length ts" by simp
  obtain ts' where t: "ks = length k" "length k < BTREE_KEY_SIZE" "splits k kvs i"
    "map bt_root ts' = aug (i + 1) off' (map bt_root ts)" "length ts' = Suc (Suc (length kvs))"
    "\<forall>t\<in>set ts'. bt_repr (node_at b1 ix1) t \<and> bt_shape (h - 1) t"
    "new_offs b b1 (set (bt_offs (Node off kvs ts))) (off # concat (map bt_offs ts'))"
    "ins_at key v (bt_inorder (Node off kvs ts)) (weave (map bt_inorder ts') (aug i (k, w) kvs))"
    "off \<notin> set (concat (map bt_offs ts'))"
    using ins_child_up[OF p i c] by blast
  let ?kvs = "aug i (k, w) kvs"
  have g: "grown (set (bt_offs (ts ! i))) b ix b1 ix1" using c by (simp add: ins_post_def)
  have ok1: "store_ok b1" and root1: "nat (ix_root ix1) < mark b1" "ix_freelist ix1 < 0"
    using g root by (auto simp: grown_def)
  have off: "inside b off" "inside b1 off" using node_kept(3)[OF p il g] inside_grown[OF g] by auto
  obtain nL nR where s: "node_holds nL (take 2 ?kvs) (take 3 (map bt_root ts'))" "node_holds nR (drop 3 ?kvs) (drop 3 (map bt_root ts'))"
    "split_node b1 ix1 off n i k ks w off' = do {
        (off', b, ix) \<leftarrow> alloc_node b1 ix1;
        (b, ix) \<leftarrow> flush_node b ix off nL;
        (b, ix) \<leftarrow> flush_node b ix off' nR;
        Some (Up (fst (?kvs ! 2)) (length (fst (?kvs ! 2))) (snd (?kvs ! 2)) off', b, ix) }"
    using split_node_eq[OF n(2) l _ small t(2), of i w off' b1 ix1 off] lt(2) unfolding l t(1) t(4) by blast
  obtain b2 where a: "alloc_node b1 ix1 = Some (int (mark b1), b2, ix1)" "grown {} b1 ix1 b2 ix1" "inside b2 (int (mark b1))"
    "\<not> inside b1 (int (mark b1))" "room b2 m"
    using alloc_grown[OF ok1 r root1(2,1)] by blast
  let ?new = "int (mark b1)"
  have ok2: "store_ok b2" using a(2) by (simp add: grown_def)
  obtain b3 ix3 where f: "flush_node b2 ix1 off nL = Some (b3, ix3)" "grown {off} b2 ix1 b3 ix3" "node_at b3 ix3 off = Some nL"
    "mark b3 = mark b2" "\<And>m. room b3 m = room b2 m" "cell_at b3 (word_of_int off) = Some (CNode nL)"
    using flush_grown[OF ok2 inside_grown[OF a(2) off(2)]] by blast
  have ok3: "store_ok b3" and new3: "inside b3 ?new" using f(2) a(3) inside_grown[OF f(2)] by (auto simp: grown_def)
  obtain b4 ix4 where q: "flush_node b3 ix3 ?new nR = Some (b4, ix4)" "grown {?new} b3 ix3 b4 ix4" "node_at b4 ix4 ?new = Some nR"
    "mark b4 = mark b3" "\<And>m. room b4 m = room b3 m" "cell_at b4 (word_of_int ?new) = Some (CNode nR)"
    using flush_grown[OF ok3 new3] by blast
  have G2: "grown {off} b1 ix1 b3 ix3"
    using inside_grown[OF a(2) off(2)] by (intro grown_trans[OF grown_mono[OF a(2)] f(2) _ _ ok1]) auto
  have G: "grown {off} b1 ix1 b4 ix4" using a(4) new3 by (intro grown_trans[OF G2 q(2) _ _ ok1]) auto
  have "inside b x \<Longrightarrow> inside b1 x" for x by (rule inside_grown[OF g])
  then have nb: "\<not> inside b ?new" using a(4) by blast
  let ?L = "Node off (take 2 ?kvs) (take 3 ts')" and ?R = "Node ?new (drop 3 ?kvs) (drop 3 ts')"
  have ins: "inside b1 x" if "x \<in> set (concat (map bt_offs ts'))" for x
  proof -
    have "\<forall>x\<in>set (bt_offs (Node off kvs ts)). inside b x" using p unfolding ins_pre_def by blast
    then show ?thesis using t(7) that inside_grown[OF g] unfolding new_offs_def by (metis list.set_intros(2))
  qed
  have rp: "bt_repr (node_at b4 ix4) t" if "t \<in> set ts'" for t
    using t(6,9) that ins by (intro bt_repr_grown[OF _ G]) auto
  have nl: "node_at b4 ix4 off = Some nL"
    using q(2) f(3) a(4) off(2) inside_grown[OF G2 off(2)] unfolding grown_def by (metis singletonD)
  have "bt_repr (node_at b4 ix4) ?L" using nl s(1) off rp by (auto simp: inside_def take_map dest: in_set_takeD)
  moreover have "bt_repr (node_at b4 ix4) ?R" using q(3) s(2) rp
    by (auto simp: drop_map dest: in_set_dropD) (use uint_ge_0[of "pager_offset b1"] in linarith)
  moreover have "bt_shape h ?L" "bt_shape h ?R"
    using t(5,6) l lt by (auto simp: aug_def dest: in_set_takeD in_set_dropD)
  moreover have "new_offs b b4 (set (bt_offs (Node off kvs ts))) (bt_offs ?L @ bt_offs ?R)"
  proof -
    have e: "set (bt_offs ?L @ bt_offs ?R) = insert ?new (set (off # concat (map bt_offs ts')))"
      and m: "mset (bt_offs ?L @ bt_offs ?R) = mset (?new # off # concat (map bt_offs ts'))"
    proof -
      have "concat (map bt_offs ts') = concat (map bt_offs (take 3 ts')) @ concat (map bt_offs (drop 3 ts'))"
        by (metis append_take_drop_id concat_append map_append)
      then show "mset (bt_offs ?L @ bt_offs ?R) = mset (?new # off # concat (map bt_offs ts'))" by simp
      then have "set (bt_offs ?L @ bt_offs ?R) = set (?new # off # concat (map bt_offs ts'))" by (rule mset_eq_setD)
      then show "set (bt_offs ?L @ bt_offs ?R) = insert ?new (set (off # concat (map bt_offs ts')))" by (simp only: list.set)
    qed
    have "?new \<notin> set (off # concat (map bt_offs ts'))" using ins off(2) a(4) by auto
    then have "distinct (bt_offs ?L @ bt_offs ?R)"
      using t(7) mset_eq_imp_distinct_iff[OF m] unfolding new_offs_def by simp
    moreover have "inside b4 x" if "inside b1 x" for x by (rule inside_grown[OF G that])
    ultimately show ?thesis
      unfolding new_offs_def e using t(7) nb inside_grown[OF q(2) new3] unfolding new_offs_def by blast
  qed
  moreover have "ins_at key v (bt_inorder (Node off kvs ts)) (bt_inorder ?L @ ?kvs ! 2 # bt_inorder ?R)"
  proof -
    have "?kvs = take 2 ?kvs @ ?kvs ! 2 # drop (Suc 2) ?kvs" using l by (intro id_take_nth_drop) (simp add: aug_def)
    then have "weave (map bt_inorder ts') ?kvs
        = weave (map bt_inorder (take 3 ts') @ map bt_inorder (drop 3 ts')) (take 2 ?kvs @ ?kvs ! 2 # drop 3 ?kvs)"
      by (metis append_take_drop_id map_append numeral_2_eq_2 numeral_3_eq_3)
    also have "\<dots> = bt_inorder ?L @ ?kvs ! 2 # bt_inorder ?R"
      using t(5) l by (subst weave_append) (simp_all add: aug_def)
    finally show ?thesis using t(8) by simp
  qed
  moreover have "grown (set (bt_offs (Node off kvs ts))) b ix b4 ix4"
  proof (rule grown_trans[OF _ G])
    show "grown (set (bt_offs (Node off kvs ts))) b ix b1 ix1" using il by (intro grown_mono[OF g]) auto
  qed (use off lt in auto)
  ultimately have post: "ins_post key v h (Node off kvs ts) b ix
      (Up (fst (?kvs ! 2)) (length (fst (?kvs ! 2))) (snd (?kvs ! 2)) ?new) b4 ix4"
    unfolding ins_post_def insert_result.case prod.collapse
    by (intro conjI exI[of _ ?L] exI[of _ ?R]) (simp_all only: bt_root.simps refl)
  moreover have "room b4 m" using a(5) f(5) q(5) by simp
  ultimately show ?thesis using that s(3) a(1) f(1) q(1) by simp
qed

lemma ins_ok:
  assumes "ins_pre key h t b ix" "room b (h + m)"
  shows "\<exists>r b' ix'. btree_ins b ix key (length key) v (bt_root t) = Some (r, b', ix') \<and> ins_post key v h t b ix r b' ix' \<and> room b' m"
  using assms
proof (induction t arbitrary: h m)
  case Leaf
  then have "store_ok b" "h = 0" by (auto simp: ins_pre_def)
  then show ?case using Leaf.prems(2)
    by (subst btree_ins.simps)
      (auto simp: ins_post_def grown_refl new_offs_def ins_at_def intro!: exI[of _ Leaf])
next
  case (Node off kvs ts)
  note p = Node.prems(1)
  obtain n where n: "node_at b ix off = Some n" "node_holds n kvs (map bt_root ts)" "off \<noteq> - 1" using p by (auto simp: ins_pre_def)
  have l: "length ts = Suc (length kvs)" "0 < length kvs" "length kvs \<le> INDEX_SIZE" "0 < h" and s: "store_ok b" "inside b off"
    "bt_sorted (bt_inorder (Node off kvs ts))" "key \<notin> fst ` set (bt_inorder (Node off kvs ts))"
    using p by (auto simp: ins_pre_def)
  have g: "get_node b ix off = Some n" using get_node_ok[OF s(1,2)] n(1) by simp
  obtain i where i: "btree_pos key (bn_items n) (bn_cnt n) = Some i" "splits key kvs i"
    using node_pos[OF n(2) node_sorted[OF s(3) l(1)] l(2)] by blast
  have il: "i \<le> length kvs" and cnt: "bn_cnt n = length kvs" using i(2) n(2) by (auto simp: splits_def node_holds_def)
  have fresh: "strcmp key (bt_key (bn_items n ! i)) \<noteq> 0" if "i < length kvs"
  proof -
    have "kvs ! i \<in> set (bt_inorder (Node off kvs ts))" using that inorder_kvs[OF l(1), of off] by auto
    then show ?thesis using s(4) node_holds_key(1)[OF n(2)] that by (auto simp: strcmp_eq)
  qed
  then have dup: "\<not> (i < length kvs \<and> strcmp key (bt_key (bn_items n ! i)) = 0 \<and> ix_unique ix)" by blast
  have it: "ts ! i \<in> set ts" and ptr: "bn_ptr n ! i = bt_root (ts ! i)"
    using il l(1) node_holds_key(3)[OF n(2) il] by simp_all
  have "room b ((h - 1) + Suc m)" using Node.prems(2) l(4) by simp
  then obtain r b1 ix1 where c: "btree_ins b ix key (length key) v (bt_root (ts ! i)) = Some (r, b1, ix1)"
    "ins_post key v (h - 1) (ts ! i) b ix r b1 ix1" "room b1 (Suc m)"
    using Node.IH[OF it child_pre[OF p il]] by blast
  have step: "btree_ins b ix key (length key) v off =
      (case r of
         Done st \<Rightarrow> Some (Done st, b1, ix1)
       | Up keynew_r keynew_r_size valsetnew_r offsetnew_r \<Rightarrow>
           if bn_cnt n < INDEX_SIZE then do {
             i \<leftarrow> btree_pos keynew_r (bn_items n) (bn_cnt n);
             it \<leftarrow> put_item keynew_r keynew_r_size valsetnew_r;
             let node = open_slot (bn_cnt n) i it offsetnew_r n;
             (b, ix) \<leftarrow> flush_node b1 ix1 off (node\<lparr>bn_cnt := bn_cnt node + 1\<rparr>);
             Some (Done SUCCESS, b, ix) }
           else split_node b1 ix1 off n i keynew_r keynew_r_size valsetnew_r offsetnew_r)"
    using n(3) g i(1) dup ptr c(1) by (subst btree_ins.simps) (simp add: cnt, blast)
  show ?case
  proof (cases r)
    case (Done st)
    then show ?thesis
      unfolding bt_root.simps using step ins_child_done[OF p i(2)] c(2) room_less[OF c(3), of m] by simp
  next
    case (Up k ks w off')
    show ?thesis
    proof (cases "length kvs < INDEX_SIZE")
      case True
      have cup: "ins_post key v (h - 1) (ts ! i) b ix (Up k ks w off') b1 ix1" using c(2) Up by simp
      obtain b2 ix2 where q: "put_item k ks w = Some (bt_item (k, w))" "btree_pos k (bn_items n) (bn_cnt n) = Some i"
        "flush_node b1 ix1 off ((open_slot (bn_cnt n) i (bt_item (k, w)) off' n)\<lparr>bn_cnt := bn_cnt n + 1\<rparr>) = Some (b2, ix2)"
        "ins_post key v h (Node off kvs ts) b ix (Done SUCCESS) b2 ix2" "\<And>m. room b2 m = room b1 m"
        using ins_child_small[OF p i(2) True n(1,2) cup] by blast
      have "bn_cnt (open_slot (bn_cnt n) i (bt_item (k, w)) off' n) = bn_cnt n" by (simp add: open_slot_def)
      then have "btree_ins b ix key (length key) v off = Some (Done SUCCESS, b2, ix2)"
        unfolding step Up insert_result.case using True cnt q(1,2,3) by (simp add: Let_def)
      moreover have "room b2 m" using q(5) room_less[OF c(3), of m] by simp
      ultimately show ?thesis unfolding bt_root.simps using q(4) by blast
    next
      case False
      then have full: "length kvs = INDEX_SIZE" using l(3) by simp
      have cup: "ins_post key v (h - 1) (ts ! i) b ix (Up k ks w off') b1 ix1" using c(2) Up by simp
      obtain r' b2 ix2 where "split_node b1 ix1 off n i k ks w off' = Some (r', b2, ix2)"
        "ins_post key v h (Node off kvs ts) b ix r' b2 ix2" "room b2 m"
        using ins_child_full[OF p i(2) full n(1,2) cup c(3)] by blast
      moreover have "btree_ins b ix key (length key) v off = split_node b1 ix1 off n i k ks w off'"
        unfolding step Up insert_result.case using full cnt by simp
      ultimately show ?thesis unfolding bt_root.simps by auto
    qed
  qed
qed

section \<open>The index\<close>

text \<open>The tree \<open>t\<close> of height \<open>h\<close> is stored under the index; its superblock lies beside the nodes.\<close>

definition btree_wf :: "bt \<Rightarrow> nat \<Rightarrow> base \<Rightarrow> btree \<Rightarrow> bool" where
  "btree_wf t h b ix \<longleftrightarrow> store_ok b \<and> bt_root t = ix_root ix \<and> bt_repr (node_at b ix) t \<and> distinct (bt_offs t)
     \<and> (\<forall>x\<in>set (bt_offs t). inside b x \<and> word_of_int x \<noteq> ix_offset ix) \<and> bt_shape h t \<and> bt_sorted (bt_inorder t)
     \<and> (\<forall>kv\<in>set (bt_inorder t). length (fst kv) < BTREE_KEY_SIZE) \<and> ix_freelist ix < 0 \<and> synced b ix
     \<and> length (bn_items (ix_rootnode ix)) = INDEX_SIZE \<and> length (bn_ptr (ix_rootnode ix)) = INDEX_SIZE + 1
     \<and> valid b (ix_offset ix) \<and> unat (ix_offset ix) < mark b"

lemma btree_wf_pre:
  assumes "btree_wf t h b ix" "key \<notin> fst ` set (bt_inorder t)" "length key < BTREE_KEY_SIZE"
  shows "ins_pre key h t b ix"
proof -
  have "nat (ix_root ix) < mark b"
  proof (cases t)
    case Leaf
    then show ?thesis using assms(1) by (auto simp: btree_wf_def)
  next
    case (Node off kvs ts)
    then show ?thesis using assms(1) by (auto simp: btree_wf_def inside_def)
  qed
  then show ?thesis using assms by (simp add: btree_wf_def ins_pre_def)
qed

lemma synced_node_at:
  assumes "synced b ix" "inside b x"
  shows "node_at b ix x = obj_at unwrap_node b (word_of_int x)"
  using assms by (auto simp: synced_def node_at_def obj_at_def inside_def)

lemma bt_repr_cong: "bt_repr H t \<Longrightarrow> \<forall>x\<in>set (bt_offs t). H' x = H x \<Longrightarrow> bt_repr H' t"
  by (induction t) auto

lemma grown_cell:
  assumes "grown S b ix b' ix'" "valid b x" "unat x < mark b" "\<forall>y\<in>S. word_of_int y \<noteq> x"
  shows "valid b' x" "cell_at b' x = cell_at b x"
proof -
  have "x \<notin> word_of_int ` S" using assms(4) by auto
  then show "valid b' x" "cell_at b' x = cell_at b x" using assms(1-3) by (simp_all add: grown_def)
qed

text \<open>A new node, not in use before, does not lie on the superblock.\<close>

lemma new_beside:
  assumes "store_ok b'" "inside b' y" "\<not> inside b y" "unat u < mark b"
  shows "word_of_int y \<noteq> (u :: u64)"
  using inside_valid(2)[OF assms(1,2)] assms(2-4) by (auto simp: inside_def)

lemma inside_offs:
  assumes n: "new_offs b b' S ys" and S: "\<forall>x\<in>S. inside b x \<and> word_of_int x \<noteq> u" and g: "grown T b ix b' ix'"
    and u: "unat (u :: u64) < mark b"
  shows "\<forall>x\<in>set ys. inside b' x \<and> word_of_int x \<noteq> u"
proof
  fix x assume "x \<in> set ys"
  then consider "x \<in> S" | "inside b' x" "\<not> inside b x" using n by (auto simp: new_offs_def)
  then show "inside b' x \<and> word_of_int x \<noteq> u"
  proof cases
    case 2
    have "store_ok b'" using g by (simp add: grown_def)
    then show ?thesis using 2 new_beside[OF _ 2 u] by blast
  qed (use S inside_grown[OF g] in blast)
qed

lemma root_arrays:
  assumes "bt_repr (node_at b ix) t" "bt_root t = ix_root ix" "t \<noteq> Leaf"
  shows "length (bn_items (ix_rootnode ix)) = INDEX_SIZE" "length (bn_ptr (ix_rootnode ix)) = INDEX_SIZE + 1"
  using assms by (cases t; auto simp: node_at_def node_holds_def)+

lemma ins_wf_done:
  assumes w: "btree_wf t h b ix" and k: "length key < BTREE_KEY_SIZE"
    and c: "ins_post key v h t b ix (Done st) b' ix'"
  shows "st = SUCCESS \<and> (\<exists>t'. btree_wf t' h b' ix' \<and> ins_at key v (bt_inorder t) (bt_inorder t')) \<and> ix_offset ix' = ix_offset ix"
proof -
  have g: "grown (set (bt_offs t)) b ix b' ix'" and st: "st = SUCCESS" using c by (auto simp: ins_post_def)
  obtain t' where t: "bt_root t' = bt_root t" "bt_repr (node_at b' ix') t'" "bt_shape h t'"
    "new_offs b b' (set (bt_offs t)) (bt_offs t')" "ins_at key v (bt_inorder t) (bt_inorder t')"
    using c by (auto simp: ins_post_def)
  have W: "bt_root t = ix_root ix" "\<forall>x\<in>set (bt_offs t). inside b x \<and> word_of_int x \<noteq> ix_offset ix" "bt_sorted (bt_inorder t)"
    "\<forall>kv\<in>set (bt_inorder t). length (fst kv) < BTREE_KEY_SIZE" "ix_freelist ix < 0" "synced b ix" "valid b (ix_offset ix)"
    "unat (ix_offset ix) < mark b" using w by (simp_all add: btree_wf_def)
  have G: "store_ok b'" "mark b \<le> mark b'" "ix_root ix' = ix_root ix" "ix_freelist ix' = ix_freelist ix" "ix_offset ix' = ix_offset ix"
    "synced b' ix'" using g W(6) by (simp_all add: grown_def)
  have "valid b' (ix_offset ix)"
    using W(2,7,8) by (intro grown_cell(1)[OF g]) auto
  moreover have "\<forall>x\<in>set (bt_offs t'). inside b' x \<and> word_of_int x \<noteq> ix_offset ix"
    by (rule inside_offs[OF t(4) W(2) g W(8)])
  moreover have "t' \<noteq> Leaf" using ins_at_set[OF t(5)] by auto
  moreover have "\<forall>kv\<in>set (bt_inorder t'). length (fst kv) < BTREE_KEY_SIZE" using W(4) k ins_at_set[OF t(5)] by auto
  ultimately have "btree_wf t' h b' ix'"
    unfolding btree_wf_def using G W(1,5,8) t(1-4) root_arrays[OF t(2)] ins_at_sorted[OF t(5) W(3)] by (auto simp: new_offs_def)
  then show ?thesis using t(5) st G(5) by blast
qed

lemma ins_wf_up:
  assumes w: "btree_wf t h b ix" and k: "length key < BTREE_KEY_SIZE"
    and c: "ins_post key v h t b ix (Up k' ks w' off') b1 ix1" and r: "room b1 (Suc m)"
    and arr: "length (bn_items (ix_rootnode ix1)) = INDEX_SIZE" "length (bn_ptr (ix_rootnode ix1)) = INDEX_SIZE + 1"
  obtains b3 ix3 off b2 it t' where "alloc_node b1 ix1 = Some (off, b2, ix1)" "put_item k' ks w' = Some it"
    "flush_node b2 (ix1\<lparr>ix_rootnode := (ix_rootnode ix1)\<lparr>bn_cnt := 1, bn_items := (bn_items (ix_rootnode ix1))[0 := it],
                bn_ptr := (bn_ptr (ix_rootnode ix1))[0 := ix_root ix1, 1 := off']\<rparr>, ix_root := off\<rparr>) off
       ((ix_rootnode ix1)\<lparr>bn_cnt := 1, bn_items := (bn_items (ix_rootnode ix1))[0 := it],
                bn_ptr := (bn_ptr (ix_rootnode ix1))[0 := ix_root ix1, 1 := off']\<rparr>) = Some (b3, ix3)"
    "btree_wf t' (Suc h) b3 ix3" "ins_at key v (bt_inorder t) (bt_inorder t')" "room b3 m" "ix_offset ix3 = ix_offset ix"
proof -
  have g: "grown (set (bt_offs t)) b ix b1 ix1" and ks: "ks = length k'" using c by (auto simp: ins_post_def)
  obtain l rr where t: "bt_root l = bt_root t" "bt_root rr = off'" "bt_repr (node_at b1 ix1) l" "bt_repr (node_at b1 ix1) rr"
    "bt_shape h l" "bt_shape h rr" "new_offs b b1 (set (bt_offs t)) (bt_offs l @ bt_offs rr)"
    "ins_at key v (bt_inorder t) (bt_inorder l @ (k', w') # bt_inorder rr)"
    using c by (auto simp: ins_post_def)
  have W: "bt_root t = ix_root ix" "\<forall>x\<in>set (bt_offs t). inside b x \<and> word_of_int x \<noteq> ix_offset ix" "bt_sorted (bt_inorder t)"
    "\<forall>kv\<in>set (bt_inorder t). length (fst kv) < BTREE_KEY_SIZE" "ix_freelist ix < 0" "synced b ix" "valid b (ix_offset ix)"
    "unat (ix_offset ix) < mark b" "store_ok b" using w by (simp_all add: btree_wf_def)
  have G: "store_ok b1" "mark b \<le> mark b1" "ix_root ix1 = ix_root ix" "ix_freelist ix1 < 0" "ix_offset ix1 = ix_offset ix"
    "synced b1 ix1" using g W(5,6) by (simp_all add: grown_def)
  have v1: "valid b1 (ix_offset ix)" using W(2,7,8) by (intro grown_cell(1)[OF g]) auto
  have short: "\<forall>kv\<in>set (bt_inorder l @ (k', w') # bt_inorder rr). length (fst kv) < BTREE_KEY_SIZE"
    using W(4) k unfolding ins_at_set[OF t(8)] by simp
  have offs: "\<forall>x\<in>set (bt_offs l @ bt_offs rr). inside b1 x \<and> word_of_int x \<noteq> ix_offset ix"
    by (rule inside_offs[OF t(7) W(2) g W(8)])
  have root1: "nat (ix_root ix1) < mark b1"
  proof (cases "ix_root ix1 = - 1")
    case True
    then show ?thesis using W(8) G(2) by simp
  next
    case False
    then show ?thesis using G(6) by (simp add: synced_def inside_def)
  qed
  obtain b2 where a: "alloc_node b1 ix1 = Some (int (mark b1), b2, ix1)" "grown {} b1 ix1 b2 ix1" "inside b2 (int (mark b1))"
    "\<not> inside b1 (int (mark b1))" "room b2 m"
    using alloc_grown[OF G(1) r G(4) root1] by blast
  let ?new = "int (mark b1)"
  let ?it = "bt_item (k', w')"
  let ?n = "(ix_rootnode ix1)\<lparr>bn_cnt := 1, bn_items := (bn_items (ix_rootnode ix1))[0 := ?it],
                bn_ptr := (bn_ptr (ix_rootnode ix1))[0 := ix_root ix1, 1 := off']\<rparr>"
  let ?ix = "ix1\<lparr>ix_rootnode := ?n, ix_root := ?new\<rparr>"
  have A: "store_ok b2" "synced b2 ix1" "mark b1 \<le> mark b2" "valid b2 (ix_offset ix)"
    using a(2) G(2,6) v1 W(8) unfolding grown_def by auto
  obtain b3 ix3 where f: "flush_node b2 ?ix ?new ?n = Some (b3, ix3)" "grown {?new} b2 ?ix b3 ix3" "node_at b3 ix3 ?new = Some ?n"
    "mark b3 = mark b2" "\<And>m. room b3 m = room b2 m" "cell_at b3 (word_of_int ?new) = Some (CNode ?n)"
    using flush_grown[OF A(1) a(3)] by blast
  have F: "store_ok b3" "ix_root ix3 = ?new" "ix_freelist ix3 < 0" "ix_offset ix3 = ix_offset ix" "ix_rootnode ix3 = ?n"
    using f(2,3) G(4,5) by (auto simp: grown_def node_at_def)
  have new3: "inside b3 ?new" by (rule inside_grown[OF f(2) a(3)])
  have sync: "synced b3 ix3" using F(2,5) f(6) new3 by (simp only: synced_def) simp
  have same: "node_at b3 ix3 x = node_at b1 ix1 x" if "inside b1 x" for x
  proof -
    have x: "x \<noteq> ?new" "inside b2 x" using that a(4) inside_grown[OF a(2) that] by auto
    have "node_at b3 ix3 x = node_at b2 ?ix x" using f(2) x by (simp add: grown_def)
    also have "\<dots> = node_at b2 ix1 x"
      using synced_node_at[OF A(2) x(2)] x(1) by (simp add: node_at_def)
    also have "\<dots> = node_at b1 ix1 x" using a(2) that by (simp add: grown_def)
    finally show ?thesis .
  qed
  let ?t = "Node ?new [(k', w')] [l, rr]"
  have ne: "?new \<noteq> - 1" using of_nat_0_le_iff[of "mark b1"] by linarith
  have "bt_repr (node_at b3 ix3) l" "bt_repr (node_at b3 ix3) rr"
    using bt_repr_cong[OF t(3)] bt_repr_cong[OF t(4)] same offs by auto
  moreover have "node_holds ?n [(k', w')] [bt_root l, bt_root rr]"
    using arr t(1,2) W(1) G(3) four_cases[of "bn_items (ix_rootnode ix1)"] five_cases[of "bn_ptr (ix_rootnode ix1)"]
    by (auto simp: node_holds_def)
  ultimately have "bt_repr (node_at b3 ix3) ?t" using f(3) ne by (simp del: of_nat_unat)
  moreover have "distinct (bt_offs ?t)" using t(7) offs a(4) by (auto simp: new_offs_def)
  moreover have "\<forall>x\<in>set (bt_offs ?t). inside b3 x \<and> word_of_int x \<noteq> ix_offset ix"
  proof -
    have "word_of_int ?new \<noteq> ix_offset ix"
      using G(2) W(8) by (intro new_beside[OF F(1) new3 a(4)]) simp
    then show ?thesis using offs new3 inside_grown[OF f(2)] inside_grown[OF a(2)] by auto
  qed
  moreover have "bt_shape (Suc h) ?t" using t(5,6) by simp
  moreover have io: "bt_inorder ?t = bt_inorder l @ (k', w') # bt_inorder rr" by simp
  moreover have "valid b3 (ix_offset ix)"
  proof -
    have "ix_offset ix \<noteq> word_of_int ?new" using G(2) W(8) new_beside[OF A(1) a(3,4), of "ix_offset ix"] by force
    then show ?thesis using f(2) A(3,4) G(2) W(8) unfolding grown_def by auto
  qed
  ultimately have wf: "btree_wf ?t (Suc h) b3 ix3"
    unfolding btree_wf_def F(2-5) io using F(1) sync arr short ins_at_sorted[OF t(8) W(3)] W(8) A(3) G(2) f(4) F(3) by simp
  have p: "put_item k' ks w' = Some ?it" using put_item_ok short ks by simp
  have "room b3 m" using a(5) f(5) by simp
  then show ?thesis using that[OF a(1) p f(1) wf] t(8) io F(4) by simp
qed

lemma btree_ins_dup:
  assumes "store_ok b" "bt_repr (node_at b ix) t" "\<forall>off\<in>set (bt_offs t). inside b off" "bt_shape h t"
    "bt_sorted (bt_inorder t)" "map_of (bt_inorder t) key \<noteq> None" "ix_unique ix"
  shows "btree_ins b ix key ks v (bt_root t) = Some (Done DUPLICATEKEY, b, ix)"
  using assms
proof (induction t arbitrary: h)
  case (Node off kvs ts)
  obtain n where n: "node_at b ix off = Some n" "node_holds n kvs (map bt_root ts)" "off \<noteq> - 1" using Node.prems(2) by auto
  have l: "length ts = Suc (length kvs)" "0 < length kvs" using Node.prems(4) by auto
  have g: "get_node b ix off = Some n" using get_node_ok[OF Node.prems(1)] Node.prems(3) n(1) by simp
  obtain i where i: "btree_pos key (bn_items n) (bn_cnt n) = Some i" "splits key kvs i"
    using node_pos[OF n(2) node_sorted[OF Node.prems(5) l(1)] l(2)] by blast
  have il: "i \<le> length kvs" and cnt: "bn_cnt n = length kvs" using i(2) n(2) by (auto simp: splits_def node_holds_def)
  show ?case
  proof (cases "i < length kvs \<and> fst (kvs ! i) = key")
    case True
    then have "strcmp key (bt_key (bn_items n ! i)) = 0" using node_holds_key(1)[OF n(2)] by (simp add: strcmp_eq)
    then show ?thesis using n(3) g i(1) True cnt Node.prems(7) by (subst btree_ins.simps) simp
  next
    case False
    have it: "ts ! i \<in> set ts" and ptr: "bn_ptr n ! i = bt_root (ts ! i)"
      using il l(1) node_holds_key(3)[OF n(2) il] by simp_all
    have "map_of (bt_inorder (ts ! i)) key \<noteq> None"
      using Node.prems(6) key_in_child[OF Node.prems(5) l(1) i(2) False] by metis
    then have "btree_ins b ix key ks v (bt_root (ts ! i)) = Some (Done DUPLICATEKEY, b, ix)"
      using Node.prems it node_bounds(1)[OF Node.prems(5) l(1) i(2)] by (intro Node.IH[OF it, of "h - 1"]) fastforce+
    then show ?thesis using n(3) g i(1) cnt ptr by (subst btree_ins.simps) simp
  qed
qed simp

lemma btree_insert_ok:
  assumes w: "btree_wf t h b ix" and r: "room b (Suc h + m)" and k: "length key < BTREE_KEY_SIZE"
    and fresh: "key \<notin> fst ` set (bt_inorder t)"
  shows "\<exists>b' ix' t' h'. btree_insert b ix key (length key) v = Some (SUCCESS, b', ix') \<and> btree_wf t' h' b' ix' \<and> h' \<le> Suc h
    \<and> ins_at key v (bt_inorder t) (bt_inorder t') \<and> room b' m \<and> ix_offset ix' = ix_offset ix"
proof -
  have p: "ins_pre key h t b ix" by (rule btree_wf_pre[OF w fresh k])
  have root: "bt_root t = ix_root ix" using w by (simp add: btree_wf_def)
  have "room b (h + Suc m)" using r by simp
  then obtain r b1 ix1 where c: "btree_ins b ix key (length key) v (ix_root ix) = Some (r, b1, ix1)"
    "ins_post key v h t b ix r b1 ix1" "room b1 (Suc m)"
    using ins_ok[OF p, of "Suc m" v] unfolding root by blast
  show ?thesis
  proof (cases r)
    case (Done st)
    then obtain t' where t': "st = SUCCESS" "btree_wf t' h b1 ix1" "ins_at key v (bt_inorder t) (bt_inorder t')"
      "ix_offset ix1 = ix_offset ix"
      using ins_wf_done[OF w k, of v st b1 ix1] c(2) by blast
    have "btree_insert b ix key (length key) v = Some (SUCCESS, b1, ix1)"
      using c(1) Done t'(1) by (simp add: btree_insert_def)
    then show ?thesis
      using t' room_less[OF c(3), of m] by (intro exI[of _ b1] exI[of _ ix1] exI[of _ t'] exI[of _ h]) simp
  next
    case (Up k' ks w' off')
    have arr: "length (bn_items (ix_rootnode ix1)) = INDEX_SIZE \<and> length (bn_ptr (ix_rootnode ix1)) = INDEX_SIZE + 1"
    proof (cases "t = Leaf")
      case True
      then have "ix1 = ix" using c(1) root by (subst (asm) btree_ins.simps) simp
      then show ?thesis using w by (simp add: btree_wf_def)
    next
      case False
      then have "bt_root t \<noteq> - 1" using w by (cases t) (auto simp: btree_wf_def)
      obtain l where l: "bt_root l = bt_root t" "bt_repr (node_at b1 ix1) l" using c(2) Up by (auto simp: ins_post_def)
      then have "l \<noteq> Leaf" "bt_root l = ix_root ix1"
        using \<open>bt_root t \<noteq> - 1\<close> root c(2) by (auto simp: ins_post_def grown_def)
      then show ?thesis using root_arrays[OF l(2)] by simp
    qed
    have up: "ins_post key v h t b ix (Up k' ks w' off') b1 ix1" using c(2) Up by simp
    obtain b3 ix3 off b2 it t' where f: "alloc_node b1 ix1 = Some (off, b2, ix1)" "put_item k' ks w' = Some it"
      "flush_node b2 (ix1\<lparr>ix_rootnode := (ix_rootnode ix1)\<lparr>bn_cnt := 1, bn_items := (bn_items (ix_rootnode ix1))[0 := it],
                  bn_ptr := (bn_ptr (ix_rootnode ix1))[0 := ix_root ix1, 1 := off']\<rparr>, ix_root := off\<rparr>) off
         ((ix_rootnode ix1)\<lparr>bn_cnt := 1, bn_items := (bn_items (ix_rootnode ix1))[0 := it],
                  bn_ptr := (bn_ptr (ix_rootnode ix1))[0 := ix_root ix1, 1 := off']\<rparr>) = Some (b3, ix3)"
      "btree_wf t' (Suc h) b3 ix3" "ins_at key v (bt_inorder t) (bt_inorder t')" "room b3 m" "ix_offset ix3 = ix_offset ix"
      using ins_wf_up[OF w k up c(3)] arr by metis
    then have "btree_insert b ix key (length key) v = Some (SUCCESS, b3, ix3)"
      using c(1) Up by (simp add: btree_insert_def Let_def)
    then show ?thesis using f(4-7) by (intro exI[of _ b3] exI[of _ ix3] exI[of _ t'] exI[of _ "Suc h"]) simp
  qed
qed

text \<open>The index as a map; \<open>h\<close> bounds its height.\<close>

definition btree_rep :: "nat \<Rightarrow> base \<Rightarrow> btree \<Rightarrow> (string \<Rightarrow> u64 option) \<Rightarrow> bool" where
  "btree_rep h b ix m \<longleftrightarrow> (\<exists>t h'. h' \<le> h \<and> btree_wf t h' b ix \<and> m = map_of (bt_inorder t))"

lemma btree_rep_insert:
  assumes "btree_rep h b ix m" "room b (Suc h + n)" "length key < BTREE_KEY_SIZE" "m key = None"
  shows "\<exists>b' ix'. btree_insert b ix key (length key) v = Some (SUCCESS, b', ix') \<and> btree_rep (Suc h) b' ix' (m(key \<mapsto> v)) \<and> room b' n
    \<and> ix_offset ix' = ix_offset ix"
proof -
  obtain t h' where t: "h' \<le> h" "btree_wf t h' b ix" "m = map_of (bt_inorder t)" using assms(1) by (auto simp: btree_rep_def)
  have "key \<notin> fst ` set (bt_inorder t)" using assms(4) t(3) by (simp add: map_of_eq_None_iff)
  moreover have "room b (Suc h' + n)" using room_less[OF assms(2)] t(1) by simp
  ultimately obtain b' ix' t' h'' where r: "btree_insert b ix key (length key) v = Some (SUCCESS, b', ix')" "btree_wf t' h'' b' ix'"
    "h'' \<le> Suc h'" "ins_at key v (bt_inorder t) (bt_inorder t')" "room b' n" "ix_offset ix' = ix_offset ix"
    using btree_insert_ok[OF t(2) _ assms(3)] by blast
  have "h'' \<le> Suc h" "m(key \<mapsto> v) = map_of (bt_inorder t')" using r(3) t(1,3) ins_at_map[OF r(4)] by simp_all
  then have "btree_rep (Suc h) b' ix' (m(key \<mapsto> v))" using r(2) unfolding btree_rep_def by blast
  then show ?thesis using r(1,5,6) by blast
qed

lemma btree_rep_get:
  assumes "btree_rep h b ix m"
  shows "case m key of
      None \<Rightarrow> btree_get b ix key (alloc_vector DEFAULT_RESULT_SIZE) = Some (NOTFOUND, alloc_vector DEFAULT_RESULT_SIZE)
    | Some v \<Rightarrow> \<exists>r. btree_get b ix key (alloc_vector DEFAULT_RESULT_SIZE) = Some (SUCCESS, r) \<and> vector_list r = [Ptr v]"
proof -
  obtain t h' where t: "btree_wf t h' b ix" "m = map_of (bt_inorder t)" using assms(1) by (auto simp: btree_rep_def)
  have g: "btree_get_loop b ix key (ix_root ix) res
      = (case m key of None \<Rightarrow> Some res | Some v \<Rightarrow> vector_append res v)" for res
    using btree_get_loop_ok[of b ix t h' key res] t by (simp add: btree_wf_def)
  let ?v = "alloc_vector DEFAULT_RESULT_SIZE :: u64 vector"
  have ok: "vector_ok ?v" "vector_list ?v = []" "0 < vc_alloc_size ?v" "unat (vc_alloc_size ?v) * 2 < 2 ^ 32" "vc_size ?v = 0"
    using alloc_vector_ok[of DEFAULT_RESULT_SIZE, where 'a = u64] by (simp_all add: alloc_vector_def)
  show ?thesis
  proof (cases "m key")
    case None
    then show ?thesis using g ok(5) by (simp add: btree_get_def)
  next
    case (Some v)
    obtain r where r: "vector_append ?v v = Some r" "vector_ok r" "vector_list r = [Ptr v]"
      using vector_append_ok[OF ok(1,3,4), of v] ok(2) by auto
    then have "vc_size r \<noteq> 0" by (auto simp: vector_list_def)
    then show ?thesis using g Some r by (simp add: btree_get_def word_neq_0_conv)
  qed
qed

section \<open>Creating, closing and opening\<close>

lemma btree_create_ok:
  assumes ok: "store_ok b" and r: "room b (Suc n)"
  shows "\<exists>b'. btree_create b = Some (pager_offset b, b', new_btree (pager_offset b))
    \<and> btree_rep 0 b' (new_btree (pager_offset b)) Map.empty \<and> room b' n"
proof -
  let ?b = "b\<lparr>pager_offset := pager_offset b + sizeof_root_super\<rparr>" and ?ix = "new_btree (pager_offset b)"
  have "mark b mod psz b + unat sizeof_root_super < psz b" using r by (simp add: room_def)
  have p24: "0 < sizeof_root_super" by simp
  note A = alloc_same[OF ok p24 \<open>mark b mod psz b + _ < _\<close>]
  have v: "valid ?b (pager_offset b)" using A by simp
  obtain D where D: "store_cell (pager_offset b) (CRootSuper (- 1) (- 1) True) ?b = Some (?b\<lparr>disk := D\<rparr>)" "store_ok (?b\<lparr>disk := D\<rparr>)"
    "\<And>x. valid ?b x \<Longrightarrow> cell_at (?b\<lparr>disk := D\<rparr>) x = (if x = pager_offset b then Some (CRootSuper (- 1) (- 1) True) else cell_at ?b x)"
    using store_cell_ok[OF A(2) v] by blast
  have "btree_create b = Some (pager_offset b, ?b\<lparr>disk := D\<rparr>, ?ix)"
    using A(1) D(1) by (simp add: btree_create_def storage_write_def new_btree_def)
  moreover have "btree_wf Leaf 0 (?b\<lparr>disk := D\<rparr>) ?ix"
    using D(2) v A(3) by (simp add: btree_wf_def new_btree_def bt_sorted_def synced_def zero_bnode_def)
  moreover have "room (?b\<lparr>disk := D\<rparr>) n"
  proof -
    have "mark ?b mod psz b = mark b mod psz b + 24"
      unfolding A(3)[simplified] using div_mod_add[OF refl, of "mark b" "psz b" 24] r A(3) by (simp add: room_def)
    then show ?thesis using r by (simp add: room_def)
  qed
  ultimately show ?thesis unfolding btree_rep_def by (intro exI[of _ "?b\<lparr>disk := D\<rparr>"] conjI exI[of _ Leaf] exI[of _ 0]) auto
qed

lemma btree_rep_reopen:
  assumes "btree_rep h b ix m"
  shows "\<exists>b' ix'. btree_close b ix = Some b' \<and> btree_open b' (ix_offset ix) = Some ix' \<and> btree_rep h b' ix' m
    \<and> ix_unique ix' = ix_unique ix \<and> ix_offset ix' = ix_offset ix \<and> (\<forall>n. room b' n = room b n)"
proof -
  obtain t h' where t: "h' \<le> h" "btree_wf t h' b ix" "m = map_of (bt_inorder t)" using assms(1) by (auto simp: btree_rep_def)
  let ?off = "ix_offset ix"
  have W: "store_ok b" "bt_root t = ix_root ix" "bt_repr (node_at b ix) t" "\<forall>x\<in>set (bt_offs t). inside b x \<and> word_of_int x \<noteq> ?off"
    "synced b ix" "valid b ?off" "unat ?off < mark b" "ix_freelist ix < 0" using t(2) by (simp_all add: btree_wf_def)
  obtain D where D: "store_cell ?off (CRootSuper (ix_root ix) (ix_freelist ix) (ix_unique ix)) b = Some (b\<lparr>disk := D\<rparr>)"
    "store_ok (b\<lparr>disk := D\<rparr>)"
    "\<And>x. valid b x \<Longrightarrow> cell_at (b\<lparr>disk := D\<rparr>) x = (if x = ?off then Some (CRootSuper (ix_root ix) (ix_freelist ix) (ix_unique ix)) else cell_at b x)"
    using store_cell_ok[OF W(1,6)] by blast
  let ?b = "b\<lparr>disk := D\<rparr>"
  let ?super = "CRootSuper (ix_root ix) (ix_freelist ix) (ix_unique ix)"
  have cell: "cell_at ?b ?off = Some ?super" using D(3)[OF W(6)] by simp
  show ?thesis
  proof (cases "ix_root ix = - 1")
    case True
    then have leaf: "t = Leaf" using W(2,3) by (cases t) auto
    let ?ix = "(new_btree ?off)\<lparr>ix_freelist := ix_freelist ix, ix_unique := ix_unique ix\<rparr>"
    have "btree_close b ix = Some ?b" using D(1) True by (simp add: btree_close_def storage_write_def)
    moreover have "btree_open ?b ?off = Some ?ix"
      using load_cell_ok[OF D(2), of ?off] W(6) cell True
      by (simp add: btree_open_def storage_read_def new_btree_def get_node_def)
    moreover have "btree_wf t h' ?b ?ix"
      using t(2) D(2) leaf by (simp add: btree_wf_def new_btree_def synced_def zero_bnode_def)
    ultimately show ?thesis using t(1,3) unfolding btree_rep_def
      by (intro exI[of _ ?b] exI[of _ ?ix]) (auto simp: new_btree_def)
  next
    case False
    then have root: "ix_root ix \<in> set (bt_offs t)" using W(2) by (cases t) auto
    then have rt: "inside b (ix_root ix)" "word_of_int (ix_root ix) \<noteq> ?off" using W(4) by auto
    obtain E where E:
      "flush_node ?b ix (ix_root ix) (ix_rootnode ix) = Some (?b\<lparr>disk := E\<rparr>, if ix_root ix = ix_root ix then ix\<lparr>ix_rootnode := ix_rootnode ix\<rparr> else ix)"
      "store_ok (?b\<lparr>disk := E\<rparr>)"
      "\<And>x. inside ?b x \<Longrightarrow> node_at (?b\<lparr>disk := E\<rparr>) (if ix_root ix = ix_root ix then ix\<lparr>ix_rootnode := ix_rootnode ix\<rparr> else ix) x
         = (if x = ix_root ix then Some (ix_rootnode ix) else node_at ?b ix x)"
      "\<And>x. valid ?b x \<Longrightarrow> x \<noteq> word_of_int (ix_root ix) \<Longrightarrow> cell_at (?b\<lparr>disk := E\<rparr>) x = cell_at ?b x"
      "cell_at (?b\<lparr>disk := E\<rparr>) (word_of_int (ix_root ix)) = Some (CNode (ix_rootnode ix))"
      using flush_node_ok[OF D(2), of "ix_root ix" ix "ix_rootnode ix"] rt(1) by auto
    let ?c = "b\<lparr>disk := E\<rparr>"
    have sync: "synced ?c ix" using E(5) rt(1) by (simp add: synced_def)
    have v: "valid b (word_of_int (ix_root ix))" by (rule inside_valid(1)[OF W(1) rt(1)])
    have node: "node_at ?c ix x = node_at b ix x" if x: "x \<in> set (bt_offs t)" for x
    proof -
      have i: "inside b x" "word_of_int x \<noteq> ?off" using W(4) x by auto
      have "node_at ?b ix x = node_at b ix x"
        using D(3)[OF inside_valid(1)[OF W(1) i(1)]] i(2) by (simp add: node_at_def obj_at_def)
      moreover have "node_at ?c ix x = (if x = ix_root ix then Some (ix_rootnode ix) else node_at ?b ix x)"
        using E(3)[of x] i(1) by simp
      ultimately show ?thesis by (cases "x = ix_root ix") (simp_all add: node_at_def)
    qed
    have "btree_close b ix = Some ?c" using D(1) E(1) False by (simp add: btree_close_def storage_write_def)
    moreover have "btree_open ?c ?off = Some ix"
      using load_cell_ok[OF E(2), of ?off] load_cell_ok[OF E(2), of "word_of_int (ix_root ix)"] W(6) v cell E(4)[of ?off] E(5) rt(2) False
      by (simp add: btree_open_def storage_read_def new_btree_def get_node_def)
    moreover have "btree_wf t h' ?c ix"
      using t(2) E(2) sync bt_repr_cong[OF W(3), of "node_at ?c ix"] node by (simp add: btree_wf_def)
    ultimately show ?thesis using t(1,3) unfolding btree_rep_def by (intro exI[of _ ?c] exI[of _ ix]) auto
  qed
qed


text \<open>Insertions one after another, each of which has to succeed.\<close>

fun btree_fill :: "base \<Rightarrow> btree \<Rightarrow> (string \<times> u64) list \<Rightarrow> (base \<times> btree) option" where
  "btree_fill b ix [] = Some (b, ix)"
| "btree_fill b ix ((key, v) # kvs) = do {
     (st, b, ix) \<leftarrow> btree_insert b ix key (length key) v;
     zassert (st = SUCCESS);
     btree_fill b ix kvs }"

lemma btree_fill_ok:
  assumes "btree_rep h b ix m" "room b ((\<Sum>k<length kvs. Suc (h + k)) + n)" "distinct (map fst kvs)"
    "\<forall>kv\<in>set kvs. length (fst kv) < BTREE_KEY_SIZE \<and> m (fst kv) = None"
  shows "\<exists>b' ix'. btree_fill b ix kvs = Some (b', ix') \<and> btree_rep (h + length kvs) b' ix' (m ++ map_of kvs)
    \<and> room b' n \<and> ix_offset ix' = ix_offset ix"
  using assms
proof (induction kvs arbitrary: h b ix m)
  case (Cons kv kvs)
  obtain k v where kv: "kv = (k, v)" by fastforce
  have "(\<Sum>k<length (kv # kvs). Suc (h + k)) = Suc h + (\<Sum>k<length kvs. Suc (Suc h + k))"
    by (simp only: list.size Nat.add_Suc_right add_0_right sum.lessThan_Suc_shift) simp
  then have "room b (Suc h + ((\<Sum>k<length kvs. Suc (Suc h + k)) + n))" using Cons.prems(2) by (simp only: add.assoc)
  then obtain b1 ix1 where s: "btree_insert b ix k (length k) v = Some (SUCCESS, b1, ix1)" "btree_rep (Suc h) b1 ix1 (m(k \<mapsto> v))"
    "room b1 ((\<Sum>k<length kvs. Suc (Suc h + k)) + n)" "ix_offset ix1 = ix_offset ix"
    using btree_rep_insert[OF Cons.prems(1)] Cons.prems(4) kv by fastforce
  have rest: "\<forall>kv\<in>set kvs. length (fst kv) < BTREE_KEY_SIZE \<and> (m(k \<mapsto> v)) (fst kv) = None" "distinct (map fst kvs)"
    using Cons.prems(3,4) kv by auto
  obtain b2 ix2 where f: "btree_fill b1 ix1 kvs = Some (b2, ix2)" "btree_rep (Suc h + length kvs) b2 ix2 (m(k \<mapsto> v) ++ map_of kvs)"
    "room b2 n" "ix_offset ix2 = ix_offset ix1"
    using Cons.IH[OF s(2,3) rest(2,1)] by blast
  have "k \<notin> dom (map_of kvs)" using Cons.prems(3) kv by (simp add: dom_map_of_conv_image_fst)
  then have e: "m(k \<mapsto> v) ++ map_of kvs = m ++ map_of (kv # kvs)"
    using kv by (simp add: map_add_upd_left)
  have "btree_fill b ix (kv # kvs) = Some (b2, ix2)" using s(1) f(1) kv by simp
  then show ?case using s(4) f(2-4) unfolding e by (intro exI[of _ b2] exI[of _ ix2]) (simp del: map_of.simps)
qed simp

section \<open>Properties\<close>

text \<open>
  C13:  A lookup in a stored index returns the value of the key and SUCCESS, or nothing and NOTFOUND when the key is
  not in the index.
\<close>

theorem btree_get_correct:
  assumes "btree_rep h b ix m"
  shows "case m key of
      None \<Rightarrow> btree_get b ix key (alloc_vector DEFAULT_RESULT_SIZE) = Some (NOTFOUND, alloc_vector DEFAULT_RESULT_SIZE)
    | Some v \<Rightarrow> \<exists>r. btree_get b ix key (alloc_vector DEFAULT_RESULT_SIZE) = Some (SUCCESS, r) \<and> vector_list r = [Ptr v]"
  by (rule btree_rep_get[OF assms])

lemma demo_tree:
  shows "\<exists>b ix. btree_create (demo 17 (\<lambda>_. None)) = Some (17, b, ix) \<and> btree_rep 0 b ix Map.empty \<and> room b 5 \<and> ix_unique ix"
proof -
  have "store_ok (demo 17 (\<lambda>_. None))" "room (demo 17 (\<lambda>_. None)) (Suc 5)" "pager_offset (demo 17 (\<lambda>_. None)) = 17"
    by (simp_all add: demo_ok room_def demo_mark) (simp add: demo_def)
  then show ?thesis using btree_create_ok[of "demo 17 (\<lambda>_. None)" 5] by (auto simp: new_btree_def)
qed

theorem btree_get_correct_witness:
  "\<exists>b ix b' ix' r. btree_create (demo 17 (\<lambda>_. None)) = Some (17, b, ix) \<and> btree_insert b ix ''key'' 3 7 = Some (SUCCESS, b', ix')
    \<and> btree_get b' ix' ''key'' (alloc_vector DEFAULT_RESULT_SIZE) = Some (SUCCESS, r) \<and> vector_list r = [Ptr 7]
    \<and> btree_get b' ix' ''kex'' (alloc_vector DEFAULT_RESULT_SIZE) = Some (NOTFOUND, alloc_vector DEFAULT_RESULT_SIZE)"
proof -
  obtain b ix where c: "btree_create (demo 17 (\<lambda>_. None)) = Some (17, b, ix)" "btree_rep 0 b ix Map.empty" "room b 5"
    using demo_tree by blast
  obtain b' ix' where i: "btree_insert b ix ''key'' 3 7 = Some (SUCCESS, b', ix')" "btree_rep (Suc 0) b' ix' [''key'' \<mapsto> 7]"
    using btree_rep_insert[OF c(2), of 4 "''key''" 7] c(3) by (auto simp: numeral_3_eq_3)
  show ?thesis
    using c(1) i(1) btree_get_correct[OF i(2), of "''key''"] btree_get_correct[OF i(2), of "''kex''"] by fastforce
qed

text \<open>
  C14:  Insertion refines the update of a map, whatever nodes are split on the way.  A key that the index does not hold and that fits
  its 64 bytes is added when the page has room for one new node per level and one more: the result
  is SUCCESS and the tree has grown by at most a level.  A key that is there already is refused by a unique index, which stays as
  it was.
\<close>

theorem btree_insert_correct:
  assumes "btree_rep h b ix m"
  shows "(m key = None \<longrightarrow> length key < BTREE_KEY_SIZE \<longrightarrow> room b (Suc h + n) \<longrightarrow>
      (\<exists>b' ix'. btree_insert b ix key (length key) v = Some (SUCCESS, b', ix')
         \<and> btree_rep (Suc h) b' ix' (m(key \<mapsto> v)) \<and> room b' n))
    \<and> (m key \<noteq> None \<longrightarrow> ix_unique ix \<longrightarrow> btree_insert b ix key (length key) v = Some (DUPLICATEKEY, b, ix))"
proof (intro conjI impI)
  assume "m key \<noteq> None" "ix_unique ix"
  moreover obtain t h' where "btree_wf t h' b ix" "m = map_of (bt_inorder t)" using assms(1) by (auto simp: btree_rep_def)
  ultimately have "btree_ins b ix key (length key) v (ix_root ix) = Some (Done DUPLICATEKEY, b, ix)"
    using btree_ins_dup[of b ix t h' key] by (simp add: btree_wf_def)
  then show "btree_insert b ix key (length key) v = Some (DUPLICATEKEY, b, ix)" by (simp add: btree_insert_def)
qed (use btree_rep_insert[OF assms] in blast)

theorem btree_insert_correct_witness:
  "\<exists>b ix b' ix'. btree_create (demo 17 (\<lambda>_. None)) = Some (17, b, ix) \<and> btree_insert b ix ''key'' 3 7 = Some (SUCCESS, b', ix')
    \<and> btree_rep 1 b' ix' [''key'' \<mapsto> 7]"
proof -
  obtain b ix where c: "btree_create (demo 17 (\<lambda>_. None)) = Some (17, b, ix)" "btree_rep 0 b ix Map.empty" "room b 5"
    using demo_tree by blast
  show ?thesis using c(1,3) btree_insert_correct[OF c(2), of "''key''" 4 7] by (auto simp: numeral_3_eq_3)
qed

text \<open>
  C15:  An index built from nothing: \<open>btree_create\<close>, the insertion of any keys that differ and fit, \<open>btree_close\<close>.  With
  room in the page for the nodes every step returns, and the index opened again from its
  superblock finds each key with its value and no other key.
\<close>

theorem btree_session_correct:
  assumes "store_ok b" "distinct (map fst kvs)" "\<forall>kv\<in>set kvs. length (fst kv) < BTREE_KEY_SIZE"
    "room b (Suc (\<Sum>k<length kvs. Suc k))"
  shows "\<exists>off b1 ix1 b2 ix2 b3 ix3. btree_create b = Some (off, b1, ix1) \<and> btree_fill b1 ix1 kvs = Some (b2, ix2)
    \<and> btree_close b2 ix2 = Some b3 \<and> btree_open b3 off = Some ix3
    \<and> (\<forall>key. case map_of kvs key of
          None \<Rightarrow> btree_get b3 ix3 key (alloc_vector DEFAULT_RESULT_SIZE) = Some (NOTFOUND, alloc_vector DEFAULT_RESULT_SIZE)
        | Some v \<Rightarrow> \<exists>r. btree_get b3 ix3 key (alloc_vector DEFAULT_RESULT_SIZE) = Some (SUCCESS, r) \<and> vector_list r = [Ptr v])"
proof -
  obtain b1 where c: "btree_create b = Some (pager_offset b, b1, new_btree (pager_offset b))"
    "btree_rep 0 b1 (new_btree (pager_offset b)) Map.empty" "room b1 (\<Sum>k<length kvs. Suc k)"
    using btree_create_ok[OF assms(1,4)] by blast
  obtain b2 ix2 where f: "btree_fill b1 (new_btree (pager_offset b)) kvs = Some (b2, ix2)"
    "btree_rep (0 + length kvs) b2 ix2 (Map.empty ++ map_of kvs)" "ix_offset ix2 = pager_offset b"
    using btree_fill_ok[OF c(2), of kvs 0] c(3) assms(2,3) by (auto simp: new_btree_def)
  obtain b3 ix3 where o: "btree_close b2 ix2 = Some b3" "btree_open b3 (pager_offset b) = Some ix3"
    "btree_rep (0 + length kvs) b3 ix3 (Map.empty ++ map_of kvs)"
    using btree_rep_reopen[OF f(2)] f(3) by auto
  show ?thesis using c(1) f(1) o(1,2) btree_rep_get[OF o(3)] by (simp del: btree_fill.simps)
qed

theorem btree_session_correct_witness:
  "\<exists>off b1 ix1 b2 ix2 b3 ix3. btree_create (demo 17 (\<lambda>_. None)) = Some (off, b1, ix1)
    \<and> btree_fill b1 ix1 [(''two'', 2), (''one'', 1), (''three'', 3), (''four'', 4), (''five'', 5)] = Some (b2, ix2)
    \<and> btree_close b2 ix2 = Some b3 \<and> btree_open b3 off = Some ix3
    \<and> (\<exists>r. btree_get b3 ix3 ''four'' (alloc_vector DEFAULT_RESULT_SIZE) = Some (SUCCESS, r) \<and> vector_list r = [Ptr 4])"
proof -
  let ?kvs = "[(''two'', 2), (''one'', 1), (''three'', 3), (''four'', 4), (''five'', 5)] :: (string \<times> u64) list"
  have "store_ok (demo 17 (\<lambda>_. None))" "distinct (map fst ?kvs)" "\<forall>kv\<in>set ?kvs. length (fst kv) < BTREE_KEY_SIZE"
    by (simp_all add: demo_ok)
  moreover have "room (demo 17 (\<lambda>_. None)) (Suc (\<Sum>k<length ?kvs. Suc k))"
    by (simp add: room_def demo_mark lessThan_Suc)
  ultimately obtain off b1 ix1 b2 ix2 b3 ix3 where s: "btree_create (demo 17 (\<lambda>_. None)) = Some (off, b1, ix1)"
    "btree_fill b1 ix1 ?kvs = Some (b2, ix2)" "btree_close b2 ix2 = Some b3" "btree_open b3 off = Some ix3"
    "\<forall>key. case map_of ?kvs key of
          None \<Rightarrow> btree_get b3 ix3 key (alloc_vector DEFAULT_RESULT_SIZE) = Some (NOTFOUND, alloc_vector DEFAULT_RESULT_SIZE)
        | Some v \<Rightarrow> \<exists>r. btree_get b3 ix3 key (alloc_vector DEFAULT_RESULT_SIZE) = Some (SUCCESS, r) \<and> vector_list r = [Ptr v]"
    using btree_session_correct by blast
  have "map_of ?kvs ''four'' = Some 4" by simp
  then show ?thesis using s(1-4) spec[OF s(5), of "''four''"] by fastforce
qed

end
