(* ===== verification/Slay.thy ===== *)
theory Slay imports
  Engine Marshall_Text
begin

text \<open>
  The byte format of stored data: src/slay_marshall.c.  A row is a \<open>struct row_slay\<close> of 16 bytes (the number of elements, the
  schema, padding) followed for each element by a \<open>struct value_slay\<close> of 24 bytes (type, padding, sizes of data and name),
  the data and the name; the integers are stored in the host's order, little endian.  A composite
  child goes into a record of its own and leaves its key in the row.  \<open>None\<close> is an access outside a
  buffer or through a null pointer, a failed \<open>zassert\<close>, or a stored type that is none of the enumeration.
\<close>

datatype schema = SCHEMA_FIELD | SCHEMA_ARRAY | SCHEMA_OBJECT | SCHEMA_TABLE | SCHEMA_SET | SCHEMA_INDEX

record slay_result =
  rs_items :: nat
  rs_schema :: schema

abbreviation (input) sizeof_row :: nat where "sizeof_row \<equiv> 16"
abbreviation (input) sizeof_value :: nat where "sizeof_value \<equiv> 24"

section \<open>Bytes\<close>

definition le_chars :: "nat \<Rightarrow> nat \<Rightarrow> string" where
  "le_chars n v = map (\<lambda>i. char_of (v div 256 ^ i mod 256)) [0..<n]"

fun le_nat :: "string \<Rightarrow> nat" where
  "le_nat [] = 0"
| "le_nat (c # s) = of_char c + 256 * le_nat s"

text \<open>\<open>memcpy\<close> into and out of a buffer.\<close>

definition put_bytes :: "nat \<Rightarrow> string \<Rightarrow> string \<Rightarrow> string option" where
  "put_bytes pos s buf = (if pos + length s \<le> length buf then Some (take pos buf @ s @ drop (pos + length s) buf) else None)"

definition get_bytes :: "nat \<Rightarrow> nat \<Rightarrow> string \<Rightarrow> string option" where
  "get_bytes pos n buf = (if pos + n \<le> length buf then Some (take n (drop pos buf)) else None)"

definition type_code :: "marshall_type \<Rightarrow> nat" where
  "type_code t = (case t of MTYPE_NULL \<Rightarrow> 0 | MTYPE_TRUE \<Rightarrow> 1 | MTYPE_FALSE \<Rightarrow> 2 | MTYPE_INT \<Rightarrow> 3 | MTYPE_FLOAT \<Rightarrow> 4
     | MTYPE_STRING \<Rightarrow> 5 | MTYPE_QUID \<Rightarrow> 6 | MTYPE_ARRAY \<Rightarrow> 7 | MTYPE_OBJECT \<Rightarrow> 8)"

definition type_of_code :: "nat \<Rightarrow> marshall_type option" where
  "type_of_code n = find (\<lambda>t. type_code t = n) (map fst type_info)"

definition schema_code :: "schema \<Rightarrow> nat" where
  "schema_code s = (case s of SCHEMA_FIELD \<Rightarrow> 0 | SCHEMA_ARRAY \<Rightarrow> 1 | SCHEMA_OBJECT \<Rightarrow> 2 | SCHEMA_TABLE \<Rightarrow> 3
     | SCHEMA_SET \<Rightarrow> 4 | SCHEMA_INDEX \<Rightarrow> 5)"

section \<open>Rows\<close>

definition object_descent_count :: "marshall list \<Rightarrow> nat" where
  "object_descent_count cs = length (filter (\<lambda>c. m_mtype c = MTYPE_OBJECT \<or> m_mtype c = MTYPE_ARRAY) cs)"

definition update_row :: "string \<Rightarrow> schema \<Rightarrow> nat \<Rightarrow> string option" where
  "update_row val schema el = do {
     zassert (el \<ge> 1);
     val \<leftarrow> put_bytes 0 (le_chars 8 el) val;
     put_bytes 8 (le_chars 1 (schema_code schema)) val }"

text \<open>The buffer of \<open>zcalloc\<close>; its length is the \<open>*len\<close> of the code.\<close>

definition create_row :: "schema \<Rightarrow> nat \<Rightarrow> nat \<Rightarrow> string option" where
  "create_row schema el data_len = update_row (replicate (sizeof_row + el * sizeof_value + data_len) NUL) schema el"

definition get_row :: "string \<Rightarrow> (nat \<times> nat) option" where
  "get_row val = do {
     el \<leftarrow> get_bytes 0 8 val;
     schema \<leftarrow> get_bytes 8 1 val;
     Some (le_nat schema, le_nat el) }"

text \<open>\<open>memcpy\<close> of \<open>len\<close> bytes from a C string reads no further than its terminator.\<close>

definition source_bytes :: "string option \<Rightarrow> nat \<Rightarrow> string option" where
  "source_bytes s len = (if len = 0 then Some [] else do {
     s \<leftarrow> s;
     zassert (len \<le> length s + 1);
     Some (take len (s @ [NUL])) })"

definition slay_wrap :: "string \<Rightarrow> nat \<Rightarrow> string option \<Rightarrow> nat \<Rightarrow> string option \<Rightarrow> nat \<Rightarrow> marshall_type \<Rightarrow> (string \<times> nat) option" where
  "slay_wrap buf arrp name namelen data len dt = do {
     buf \<leftarrow> put_bytes arrp (le_chars 2 (type_code dt)) buf;
     buf \<leftarrow> put_bytes (arrp + 8) (le_chars 8 len) buf;
     buf \<leftarrow> put_bytes (arrp + 16) (le_chars 8 namelen) buf;
     data \<leftarrow> source_bytes data len;
     buf \<leftarrow> put_bytes (arrp + sizeof_value) data buf;
     name \<leftarrow> source_bytes name namelen;
     buf \<leftarrow> put_bytes (arrp + sizeof_value + len) name buf;
     Some (buf, arrp + sizeof_value + len + namelen) }"

text \<open>
  The type, the data and the name at a position; both are null pointers when their size is zero (the code leaves
  \<open>*name\<close> as it was).
\<close>

definition slay_unwrap :: "string \<Rightarrow> nat \<Rightarrow> (marshall_type \<times> string option \<times> nat \<times> string option \<times> nat) option" where
  "slay_unwrap buf arrp = do {
     dt \<leftarrow> get_bytes arrp 2 buf;
     len \<leftarrow> get_bytes (arrp + 8) 8 buf;
     namelen \<leftarrow> get_bytes (arrp + 16) 8 buf;
     let len = le_nat len;
     let namelen = le_nat namelen;
     data \<leftarrow> get_bytes (arrp + sizeof_value) len buf;
     name \<leftarrow> get_bytes (arrp + sizeof_value + len) namelen buf;
     dt \<leftarrow> type_of_code (le_nat dt);
     Some (dt, if len = 0 then None else Some data, len, if namelen = 0 then None else Some name, namelen) }"

section \<open>Writing\<close>

text \<open>The bytes that the data and names of the children are estimated to take.\<close>

definition row_data_len :: "marshall list \<Rightarrow> nat" where
  "row_data_len cs = object_descent_count cs * QUID_LENGTH
     + sum_list (map (\<lambda>c. (if m_data c \<noteq> None then m_data_len c else 0) + (if m_name c \<noteq> None then m_name_len c else 0)) cs)"

text \<open>The schema of a composite: a table or set when every child is composite and there are at least two.\<close>

definition row_schema :: "marshall_type \<Rightarrow> nat \<Rightarrow> nat \<Rightarrow> schema" where
  "row_schema type desccnt items =
     (if desccnt = items \<and> items > 1 then (if type = MTYPE_ARRAY then SCHEMA_TABLE else SCHEMA_SET)
      else if type = MTYPE_ARRAY then SCHEMA_ARRAY else SCHEMA_OBJECT)"

lemma children_size: "children m = Some ms \<Longrightarrow> size_list size ms < size m"
proof -
  have "read_children n cs = Some ms \<Longrightarrow> size_list size ms \<le> size_list (size_option size) cs" for n cs and ms :: "marshall list"
    by (induction n cs arbitrary: ms rule: read_children.induct) (auto simp: bind_Some_iff)
  then show "children m = Some ms \<Longrightarrow> size_list size ms < size m"
    by (fastforce simp: children_def size_marshall)
qed

text \<open>
  \<open>slay_put\<close> and the loop over the children, with the position of the next element; \<open>n\<close> is the fuel of the engine.  A child
  whose record cannot be inserted is left out, and the element behind it takes its place.
\<close>

function slay_put :: "nat \<Rightarrow> base \<Rightarrow> marshall \<Rightarrow> (string \<times> slay_result \<times> base) option"
  and put_loop :: "nat \<Rightarrow> base \<Rightarrow> marshall list \<Rightarrow> string \<Rightarrow> nat \<Rightarrow> (string \<times> base) option" where
  "slay_put n b marshall =
     (if marshall_type_hasdata (m_mtype marshall) then do {
        slay \<leftarrow> create_row SCHEMA_FIELD 1 (m_data_len marshall);
        (slay, _) \<leftarrow> slay_wrap slay sizeof_row None 0 (m_data marshall) (m_data_len marshall) (m_mtype marshall);
        Some (slay, \<lparr>rs_items = 1, rs_schema = SCHEMA_FIELD\<rparr>, b) }
      else if marshall_type_hasdescent (m_mtype marshall) then
        (case children marshall of
           None \<Rightarrow> None
         | Some cs \<Rightarrow> do {
             count \<leftarrow> marshall_get_count marshall 1 0;
             let items = count - 1;
             let schema = row_schema (m_mtype marshall) (object_descent_count cs) items;
             slay \<leftarrow> create_row schema items (row_data_len cs);
             (slay, b) \<leftarrow> put_loop n b cs slay sizeof_row;
             Some (slay, \<lparr>rs_items = items, rs_schema = schema\<rparr>, b) })
      else do {
        slay \<leftarrow> create_row SCHEMA_FIELD 1 0;
        (slay, _) \<leftarrow> slay_wrap slay sizeof_row None 0 None 0 (m_mtype marshall);
        Some (slay, \<lparr>rs_items = 1, rs_schema = SCHEMA_FIELD\<rparr>, b) })"
| "put_loop n b [] slay pos = Some (slay, b)"
| "put_loop n b (c # cs) slay pos = do {
     let name_len = (if m_name c \<noteq> None then m_name_len c else 0);
     if marshall_type_hasdata (m_mtype c) then do {
       (slay, pos) \<leftarrow> slay_wrap slay pos (m_name c) name_len (m_data c) (m_data_len c) (m_mtype c);
       put_loop n b cs slay pos }
     else if marshall_type_hasdescent (m_mtype c) then do {
       (sub, _, b) \<leftarrow> slay_put n b c;
       (key, b) \<leftarrow> quid_create b;
       let squid = quidtostr key;
       (r, b) \<leftarrow> engine_insert_data n b key (Some sub);
       if r < 0 then put_loop n b cs slay pos
       else do {
         (slay, pos) \<leftarrow> slay_wrap slay pos (m_name c) name_len (Some squid) QUID_LENGTH MTYPE_QUID;
         put_loop n b cs slay pos } }
     else do {
       (slay, pos) \<leftarrow> slay_wrap slay pos (m_name c) name_len None 0 (m_mtype c);
       put_loop n b cs slay pos } }"
  by pat_completeness auto
termination
  by (relation "measure (\<lambda>x. case x of Inl (_, _, m) \<Rightarrow> 2 * size m | Inr (_, _, cs, _) \<Rightarrow> 2 * size_list size cs + 1)")
    (auto dest: children_size)

declare slay_put.simps [simp del]

definition slay_update_row :: "string \<Rightarrow> slay_result \<Rightarrow> string option" where
  "slay_update_row data rs = update_row data (rs_schema rs) (rs_items rs)"

section \<open>Reading\<close>

text \<open>\<open>strtoquid\<close> into a key that is not initialised: \<open>None\<close> when some part of it stays so.\<close>

definition parse_quid :: "string \<Rightarrow> quid option" where
  "parse_quid s = (let q = strtoquid s zero_quid
     in if strtoquid s (Quid (- 1) (- 1) (- 1) (- 1) (- 1) (- 1) (- 1) (- 1) (- 1) (- 1) (- 1)) = q then Some q else None)"

text \<open>Bytes as a C string; the copy of a null pointer is the empty string.\<close>

definition as_cstring :: "string option \<Rightarrow> string" where
  "as_cstring data = (case data of None \<Rightarrow> [] | Some d \<Rightarrow> takeWhile (\<lambda>c. c \<noteq> NUL) d)"

definition scalar_node :: "marshall_type \<Rightarrow> string option \<Rightarrow> nat \<Rightarrow> marshall" where
  "scalar_node dt data len = Marshall None 0 (Some (as_cstring data)) len [] 1 dt"

definition null_node :: marshall where
  "null_node = Marshall None 0 None 0 [] 1 MTYPE_NULL"


text \<open>The node for one element: the child record of a key when descending (\<open>rec\<close>), or the scalar.\<close>

definition read_element :: "(base \<Rightarrow> string \<Rightarrow> (marshall option \<times> base) option) \<Rightarrow> base \<Rightarrow> bool \<Rightarrow> marshall
    \<Rightarrow> marshall_type \<Rightarrow> string option \<Rightarrow> nat \<Rightarrow> (marshall \<times> base) option" where
  "read_element rec b descent null dt data len =
     (if dt = MTYPE_QUID \<and> descent then do {
        d \<leftarrow> data;
        (c, b) \<leftarrow> rec b (as_cstring (Some d));
        Some (case c of None \<Rightarrow> null | Some c \<Rightarrow> c, error_clear b) }
      else Some (scalar_node dt data len, b))"

text \<open>An array has no use for names: \<open>slay_unwrap\<close> would store one through a null pointer.\<close>

fun get_array :: "(base \<Rightarrow> string \<Rightarrow> (marshall option \<times> base) option) \<Rightarrow> nat \<Rightarrow> base \<Rightarrow> string \<Rightarrow> nat \<Rightarrow> bool \<Rightarrow> marshall
    \<Rightarrow> (marshall \<times> base) option" where
  "get_array rec 0 b buf pos descent m = Some (m, b)"
| "get_array rec (Suc el) b buf pos descent m = do {
     (dt, data, len, name, namelen) \<leftarrow> slay_unwrap buf pos;
     zassert (name = None);
     (c, b) \<leftarrow> read_element rec b descent null_node dt data len;
     m \<leftarrow> push_child m (Some c);
     get_array rec el b buf (pos + sizeof_value + len + namelen) descent m }"

text \<open>
  The pointer \<open>name\<close> keeps its value over the elements of an object or a set; \<open>dangling\<close> says that it points to a name that
  was freed already, and would be freed again by an element without a name.
\<close>

fun get_object :: "(base \<Rightarrow> string \<Rightarrow> (marshall option \<times> base) option) \<Rightarrow> nat \<Rightarrow> base \<Rightarrow> string \<Rightarrow> nat \<Rightarrow> bool \<Rightarrow> bool \<Rightarrow> marshall
    \<Rightarrow> (marshall \<times> base) option" where
  "get_object rec 0 b buf pos descent dangling m = Some (m, b)"
| "get_object rec (Suc el) b buf pos descent dangling m = do {
     (dt, data, len, name, namelen) \<leftarrow> slay_unwrap buf pos;
     zassert (name \<noteq> None \<or> \<not> dangling);
     (c, b) \<leftarrow> read_element rec b descent (set_size 0 null_node) dt data len;
     m \<leftarrow> push_child m (Some (set_name (Some (as_cstring name)) namelen c));
     get_object rec el b buf (pos + sizeof_value + len + namelen) descent (dangling \<or> name \<noteq> None) m }"

text \<open>In a table or a set every element is a key, whatever its type says; a child that is not found is a null pointer.\<close>

definition read_row :: "(base \<Rightarrow> string \<Rightarrow> (marshall option \<times> base) option) \<Rightarrow> base \<Rightarrow> bool
    \<Rightarrow> marshall_type \<Rightarrow> string option \<Rightarrow> nat \<Rightarrow> (marshall option \<times> base) option" where
  "read_row rec b descent dt data len = do {
     (c, b) \<leftarrow> (if descent then rec b (as_cstring data) else Some (Some (scalar_node dt data len), b));
     Some (c, error_clear b) }"

fun get_table_rows :: "(base \<Rightarrow> string \<Rightarrow> (marshall option \<times> base) option) \<Rightarrow> nat \<Rightarrow> base \<Rightarrow> string \<Rightarrow> nat \<Rightarrow> bool \<Rightarrow> marshall
    \<Rightarrow> (marshall \<times> base) option" where
  "get_table_rows rec 0 b buf pos descent m = Some (m, b)"
| "get_table_rows rec (Suc el) b buf pos descent m = do {
     (dt, data, len, name, namelen) \<leftarrow> slay_unwrap buf pos;
     zassert (name = None);
     (c, b) \<leftarrow> read_row rec b descent dt data len;
     m \<leftarrow> push_child m c;
     get_table_rows rec el b buf (pos + sizeof_value + len + namelen) descent m }"

text \<open>An element without a name is overwritten by the next one.\<close>

fun get_set :: "(base \<Rightarrow> string \<Rightarrow> (marshall option \<times> base) option) \<Rightarrow> nat \<Rightarrow> base \<Rightarrow> string \<Rightarrow> nat \<Rightarrow> bool \<Rightarrow> bool \<Rightarrow> marshall
    \<Rightarrow> (marshall \<times> base) option" where
  "get_set rec 0 b buf pos descent dangling m = Some (m, b)"
| "get_set rec (Suc el) b buf pos descent dangling m = do {
     (dt, data, len, name, namelen) \<leftarrow> slay_unwrap buf pos;
     (c, b) \<leftarrow> read_row rec b descent dt data len;
     (case name of
        Some s \<Rightarrow> do {
          c \<leftarrow> c;
          m \<leftarrow> push_child m (Some (set_name (Some (as_cstring name)) namelen c));
          get_set rec el b buf (pos + sizeof_value + len + namelen) descent True m }
      | None \<Rightarrow> do {
          zassert (\<not> dangling);
          m \<leftarrow> put_child m (m_size m) c;
          get_set rec el b buf (pos + sizeof_value + len + namelen) descent False m }) }"

definition new_node :: "nat \<Rightarrow> marshall_type \<Rightarrow> marshall" where
  "new_node elements type = Marshall None 0 None 0 (calloc_children elements) 0 type"

definition slay_get_with :: "(base \<Rightarrow> string \<Rightarrow> (marshall option \<times> base) option) \<Rightarrow> base \<Rightarrow> string \<Rightarrow> bool
    \<Rightarrow> (marshall option \<times> base) option" where
  "slay_get_with rec b data descent = do {
     (schema, elements) \<leftarrow> get_row data;
     if schema = schema_code SCHEMA_FIELD then do {
       (dt, d, len, name, namelen) \<leftarrow> slay_unwrap data sizeof_row;
       zassert (name = None);
       (m, b) \<leftarrow> read_element rec b descent null_node dt d len;
       Some (Some m, b) }
     else if schema = schema_code SCHEMA_ARRAY then do {
       (m, b) \<leftarrow> get_array rec elements b data sizeof_row descent (new_node elements MTYPE_ARRAY);
       Some (Some m, b) }
     else if schema = schema_code SCHEMA_OBJECT then do {
       (m, b) \<leftarrow> get_object rec elements b data sizeof_row descent False (new_node elements MTYPE_OBJECT);
       Some (Some m, b) }
     else if schema = schema_code SCHEMA_TABLE then do {
       (m, b) \<leftarrow> get_table_rows rec elements b data sizeof_row descent (new_node elements MTYPE_ARRAY);
       Some (Some m, b) }
     else if schema = schema_code SCHEMA_SET then do {
       (m, b) \<leftarrow> get_set rec elements b data sizeof_row descent False (new_node elements MTYPE_OBJECT);
       Some (Some m, b) }
     else Some (None, error_throw ''dcb796d620d1'' ''Unknown datastructure'' b) }"

text \<open>
  A child record is found through the index and read with its own children.  The keys may form a cycle, so the depth is
  limited by fuel: \<open>None\<close> at depth 0.
\<close>

primrec get_child_record :: "nat \<Rightarrow> base \<Rightarrow> string \<Rightarrow> (marshall option \<times> base) option" where
  "get_child_record 0 b quid = None"
| "get_child_record (Suc n) b quid = do {
     key \<leftarrow> parse_quid quid;
     ((offset, _), b) \<leftarrow> engine_get b key;
     if offset = 0 then Some (None, b)
     else do {
       (data, b) \<leftarrow> get_data_block b offset;
       (case data of
          None \<Rightarrow> Some (None, b)
        | Some data \<Rightarrow> slay_get_with (get_child_record n) b data True) } }"

definition slay_get :: "nat \<Rightarrow> base \<Rightarrow> string \<Rightarrow> bool \<Rightarrow> (marshall option \<times> base) option" where
  "slay_get n = slay_get_with (get_child_record n)"

text \<open>The type of an unknown schema is null; a field with a name is not written by this code, but read.\<close>

definition slay_get_type :: "string \<Rightarrow> marshall_type option" where
  "slay_get_type data = do {
     (schema, elements) \<leftarrow> get_row data;
     if schema = schema_code SCHEMA_FIELD then do {
       (dt, d, len, name, namelen) \<leftarrow> slay_unwrap data sizeof_row;
       Some dt }
     else if schema = schema_code SCHEMA_OBJECT \<or> schema = schema_code SCHEMA_SET then Some MTYPE_OBJECT
     else if schema = schema_code SCHEMA_ARRAY \<or> schema = schema_code SCHEMA_TABLE then Some MTYPE_ARRAY
     else Some MTYPE_NULL }"

definition slay_get_schema :: "string \<Rightarrow> nat option" where
  "slay_get_schema data = do { (schema, elements) \<leftarrow> get_row data; Some schema }"

definition slay_get_strschema :: "string \<Rightarrow> string option" where
  "slay_get_strschema data = do {
     (schema, elements) \<leftarrow> get_row data;
     Some (if schema = schema_code SCHEMA_FIELD then ''FIELD''
       else if schema = schema_code SCHEMA_ARRAY then ''ARRAY''
       else if schema = schema_code SCHEMA_OBJECT then ''OBJECT''
       else if schema = schema_code SCHEMA_TABLE then ''TABLE''
       else if schema = schema_code SCHEMA_SET then ''SET''
       else ''NULL'') }"

end
