(* ===== verification/Slay_Spec.thy ===== *)
theory Slay_Spec imports
  Slay
begin

text \<open>
  What the byte format of src/slay_marshall.c promises: a structure whose children are scalars is read back as it was written.
\<close>

section \<open>Bytes\<close>

lemma length_le_chars [simp]: "length (le_chars n v) = n"
  by (simp add: le_chars_def)

lemma le_chars_Suc: "le_chars (Suc n) v = char_of (v mod 256) # le_chars n (v div 256)"
  by (simp add: le_chars_def upt_conv_Cons map_Suc_upt[symmetric] div_mult2_eq del: upt_Suc)

lemma le_nat_chars: "v < 256 ^ n \<Longrightarrow> le_nat (le_chars n v) = v"
proof (induction n arbitrary: v)
  case (Suc n)
  then have "v div 256 < 256 ^ n" by (simp add: less_mult_imp_div_less mult.commute)
  then have "le_nat (le_chars n (v div 256)) = v div 256" by (rule Suc.IH)
  moreover have "of_char (char_of (v mod 256) :: char) = v mod 256" by simp
  ultimately show ?case by (simp only: le_chars_Suc le_nat.simps) presburger
qed (simp add: le_chars_def)

lemma put_bytes_mid:
  assumes "length pre = pos" "length s = k"
  shows "put_bytes pos s (pre @ replicate k z @ rest) = Some (pre @ s @ rest)"
  using assms by (simp add: put_bytes_def)

lemma get_bytes_mid:
  assumes "length pre = pos" "length s = k"
  shows "get_bytes pos k (pre @ s @ rest) = Some s"
  using assms by (simp add: get_bytes_def)

lemma type_of_code [simp]: "type_of_code (type_code t) = Some t"
  by (cases t) (simp_all add: type_of_code_def type_info_def type_code_def)

lemma type_code_less: "type_code t < 256 ^ 2"
  by (cases t) (simp_all add: type_code_def)

lemma schema_code_less: "schema_code s < 256 ^ 1"
  by (cases s) (simp_all add: schema_code_def)

section \<open>One element\<close>

definition element_bytes :: "marshall_type \<Rightarrow> string \<Rightarrow> string \<Rightarrow> string" where
  "element_bytes dt data name = le_chars 2 (type_code dt) @ replicate 6 NUL @ le_chars 8 (length data) @ le_chars 8 (length name) @ data @ name"

lemma length_element [simp]: "length (element_bytes dt data name) = 24 + length data + length name"
  by (simp add: element_bytes_def)

lemma source_length: "source_bytes s len = Some d \<Longrightarrow> length d = len"
  by (cases s) (auto simp: source_bytes_def split: if_splits)

lemma slay_wrap_ok:
  assumes d: "source_bytes data len = Some d" and n: "source_bytes name namelen = Some nm"
    and k: "24 + len + namelen \<le> k" and p: "length pre = pos"
  shows "slay_wrap (pre @ replicate k NUL) pos name namelen data len dt
    = Some (pre @ element_bytes dt d nm @ replicate (k - (24 + len + namelen)) NUL, pos + 24 + len + namelen)"
proof -
  have l: "length d = len" "length nm = namelen"
    using source_length[OF d] source_length[OF n] .
  let ?c = "le_chars 2 (type_code dt)" and ?l = "le_chars 8 len" and ?m = "le_chars 8 namelen" and ?z = "\<lambda>n. replicate n NUL"
  have r: "?z k = ?z 2 @ ?z 6 @ ?z 8 @ ?z 8 @ ?z len @ ?z namelen @ ?z (k - (24 + len + namelen))"
  proof -
    have "k = 2 + (6 + (8 + (8 + (len + (namelen + (k - (24 + len + namelen)))))))" using k by simp
    then show ?thesis by (metis replicate_add)
  qed
  let ?rest = "?z (k - (24 + len + namelen))"
  have 1: "put_bytes pos ?c (pre @ ?z k) = Some (pre @ ?c @ ?z 6 @ ?z 8 @ ?z 8 @ ?z len @ ?z namelen @ ?rest)"
    unfolding r by (rule put_bytes_mid[OF p]) simp
  have 2: "put_bytes (pos + 8) ?l (pre @ ?c @ ?z 6 @ ?z 8 @ ?z 8 @ ?z len @ ?z namelen @ ?rest)
      = Some (pre @ ?c @ ?z 6 @ ?l @ ?z 8 @ ?z len @ ?z namelen @ ?rest)"
    using put_bytes_mid[of "pre @ ?c @ ?z 6" "pos + 8" ?l 8 NUL] p by simp
  have 3: "put_bytes (pos + 16) ?m (pre @ ?c @ ?z 6 @ ?l @ ?z 8 @ ?z len @ ?z namelen @ ?rest)
      = Some (pre @ ?c @ ?z 6 @ ?l @ ?m @ ?z len @ ?z namelen @ ?rest)"
    using put_bytes_mid[of "pre @ ?c @ ?z 6 @ ?l" "pos + 16" ?m 8 NUL] p by simp
  have 4: "put_bytes (pos + 24) d (pre @ ?c @ ?z 6 @ ?l @ ?m @ ?z len @ ?z namelen @ ?rest)
      = Some (pre @ ?c @ ?z 6 @ ?l @ ?m @ d @ ?z namelen @ ?rest)"
    using put_bytes_mid[of "pre @ ?c @ ?z 6 @ ?l @ ?m" "pos + 24" d len NUL] p l by simp
  have 5: "put_bytes (pos + 24 + len) nm (pre @ ?c @ ?z 6 @ ?l @ ?m @ d @ ?z namelen @ ?rest)
      = Some (pre @ ?c @ ?z 6 @ ?l @ ?m @ d @ nm @ ?rest)"
    using put_bytes_mid[of "pre @ ?c @ ?z 6 @ ?l @ ?m @ d" "pos + 24 + len" nm namelen NUL] p l by simp
  show ?thesis
    unfolding slay_wrap_def 1 Option.bind.bind_lunit 2 3 d 4 n 5 element_bytes_def by (simp add: l)
qed

lemma slay_unwrap_ok:
  assumes p: "length pre = pos" and l: "length data < 256 ^ 8" "length name < 256 ^ 8"
  shows "slay_unwrap (pre @ element_bytes dt data name @ rest) pos
    = Some (dt, if data = [] then None else Some data, length data, if name = [] then None else Some name, length name)"
proof -
  let ?c = "le_chars 2 (type_code dt)" and ?l = "le_chars 8 (length data)" and ?m = "le_chars 8 (length name)" and ?z = "replicate 6 NUL"
  let ?buf = "pre @ element_bytes dt data name @ rest"
  have 1: "get_bytes pos 2 ?buf = Some ?c"
    using get_bytes_mid[OF p, of ?c 2] by (simp add: element_bytes_def)
  have 2: "get_bytes (pos + 8) 8 ?buf = Some ?l"
    using get_bytes_mid[of "pre @ ?c @ ?z" "pos + 8" ?l 8] p by (simp add: element_bytes_def)
  have 3: "get_bytes (pos + 16) 8 ?buf = Some ?m"
    using get_bytes_mid[of "pre @ ?c @ ?z @ ?l" "pos + 16" ?m 8] p by (simp add: element_bytes_def)
  have 4: "get_bytes (pos + 24) (length data) ?buf = Some data"
    using get_bytes_mid[of "pre @ ?c @ ?z @ ?l @ ?m" "pos + 24" data "length data"] p by (simp add: element_bytes_def)
  have 5: "get_bytes (pos + 24 + length data) (length name) ?buf = Some name"
    using get_bytes_mid[of "pre @ ?c @ ?z @ ?l @ ?m @ data" "pos + 24 + length data" name "length name"] p by (simp add: element_bytes_def)
  show ?thesis
    unfolding slay_unwrap_def 1 2 3 Option.bind.bind_lunit Let_def le_nat_chars[OF l(1)] le_nat_chars[OF l(2)] 4 5
      le_nat_chars[OF type_code_less] type_of_code by simp
qed

definition row_bytes :: "schema \<Rightarrow> nat \<Rightarrow> string" where
  "row_bytes schema el = le_chars 8 el @ le_chars 1 (schema_code schema) @ replicate 7 NUL"

lemma create_row_ok:
  assumes "1 \<le> el"
  shows "create_row schema el data_len = Some (row_bytes schema el @ replicate (el * 24 + data_len) NUL)"
proof -
  let ?z = "\<lambda>n. replicate n NUL"
  have r: "?z (16 + el * 24 + data_len) = [] @ ?z 8 @ ?z 1 @ ?z 7 @ ?z (el * 24 + data_len)"
    by (simp add: replicate_add[symmetric] del: replicate.simps)
  have 1: "put_bytes 0 (le_chars 8 el) ([] @ ?z 8 @ ?z 1 @ ?z 7 @ ?z (el * 24 + data_len))
      = Some ([] @ le_chars 8 el @ ?z 1 @ ?z 7 @ ?z (el * 24 + data_len))"
    by (rule put_bytes_mid) simp_all
  have 2: "put_bytes 8 (le_chars 1 (schema_code schema)) (le_chars 8 el @ ?z 1 @ ?z 7 @ ?z (el * 24 + data_len))
      = Some (le_chars 8 el @ le_chars 1 (schema_code schema) @ ?z 7 @ ?z (el * 24 + data_len))"
    by (rule put_bytes_mid) simp_all
  show ?thesis
    using assms unfolding create_row_def r update_row_def 1 by (simp only: append_Nil Option.bind.bind_lunit bind_zassert if_True 2 row_bytes_def append_assoc)
qed

lemma get_row_ok:
  assumes "el < 256 ^ 8"
  shows "get_row (row_bytes schema el @ rest) = Some (schema_code schema, el)"
proof -
  have 1: "get_bytes 0 8 (row_bytes schema el @ rest) = Some (le_chars 8 el)"
    using get_bytes_mid[of "[]" 0 "le_chars 8 el" 8] by (simp add: row_bytes_def)
  have 2: "get_bytes 8 1 (row_bytes schema el @ rest) = Some (le_chars 1 (schema_code schema))"
    using get_bytes_mid[of "le_chars 8 el" 8 "le_chars 1 (schema_code schema)" 1] by (simp add: row_bytes_def)
  show ?thesis
    unfolding get_row_def 1 2 Option.bind.bind_lunit le_nat_chars[OF assms] le_nat_chars[OF schema_code_less] ..
qed

section \<open>The elements of a row\<close>

text \<open>A scalar node as the other parts of the program build it, with its data and name.\<close>

definition payload :: "marshall \<Rightarrow> string" where
  "payload c = (if marshall_type_hasdata (m_mtype c) then the (m_data c) else [])"

definition label :: "marshall \<Rightarrow> string" where
  "label c = (case m_name c of None \<Rightarrow> [] | Some s \<Rightarrow> s)"

definition scalar_ok :: "marshall \<Rightarrow> bool" where
  "scalar_ok c \<longleftrightarrow> \<not> marshall_type_hasdescent (m_mtype c) \<and> m_size c = 1
     \<and> (if marshall_type_hasdata (m_mtype c) then m_data c \<noteq> None else m_data c = None \<or> m_data c = Some []) \<and> m_data_len c = length (payload c)
     \<and> NUL \<notin> set (payload c) \<and> length (payload c) < 256 ^ 8"

definition named :: "marshall \<Rightarrow> bool" where
  "named c \<longleftrightarrow> (\<exists>s. m_name c = Some s \<and> s \<noteq> [] \<and> m_name_len c = length s \<and> NUL \<notin> set s \<and> length s < 256 ^ 8)"

definition unnamed :: "marshall \<Rightarrow> bool" where
  "unnamed c \<longleftrightarrow> m_name c = None \<and> m_name_len c = 0"

definition element :: "marshall \<Rightarrow> string" where
  "element c = element_bytes (m_mtype c) (payload c) (label c)"

text \<open>The node that is read back: it has a copy of the data, if only of no bytes.\<close>

definition canon :: "marshall \<Rightarrow> marshall" where
  "canon c = Marshall (m_name c) (m_name_len c) (Some (payload c)) (m_data_len c) [] 1 (m_mtype c)"

lemma scalar_element:
  assumes "scalar_ok c" "named c \<or> unnamed c"
  shows "\<exists>len data. (if marshall_type_hasdata (m_mtype c) then (data, len) = (m_data c, m_data_len c) else (data, len) = (None, 0))
    \<and> source_bytes data len = Some (payload c) \<and> len = length (payload c)"
    "source_bytes (m_name c) (if m_name c \<noteq> None then m_name_len c else 0) = Some (label c)"
    "(if m_name c \<noteq> None then m_name_len c else 0) = length (label c)"
  using assms by (auto simp: scalar_ok_def source_bytes_def payload_def named_def unnamed_def label_def)

lemma slay_wrap_scalar:
  assumes c: "scalar_ok c" "named c \<or> unnamed c" and p: "length pre = pos" and k: "length (element c) \<le> k"
    and d: "d = (if marshall_type_hasdata (m_mtype c) then (m_data c) else None)" "len = (if marshall_type_hasdata (m_mtype c) then m_data_len c else 0)"
  shows "slay_wrap (pre @ replicate k NUL) pos (m_name c) (if m_name c \<noteq> None then m_name_len c else 0) d len (m_mtype c)
    = Some (pre @ element c @ replicate (k - length (element c)) NUL, pos + length (element c))"
proof -
  have 1: "source_bytes d len = Some (payload c)" "len = length (payload c)"
    using scalar_element(1)[OF c] d by auto
  have k': "24 + len + (if m_name c \<noteq> None then m_name_len c else 0) \<le> k"
    using k 1(2) scalar_element(3)[OF c] by (simp add: element_def)
  show ?thesis
    using slay_wrap_ok[OF 1(1) scalar_element(2)[OF c] k' p, of "m_mtype c"] 1(2) scalar_element(3)[OF c]
    by (simp add: element_def add.assoc)
qed

lemma put_loop_scalars:
  assumes "\<forall>c\<in>set cs. scalar_ok c \<and> (named c \<or> unnamed c)" "length pre = pos" "length (concat (map element cs)) \<le> k"
  shows "put_loop n b cs (pre @ replicate k NUL) pos
    = Some (pre @ concat (map element cs) @ replicate (k - length (concat (map element cs))) NUL, b)"
  using assms
proof (induction cs arbitrary: pre pos k)
  case (Cons c cs)
  have c: "scalar_ok c" "named c \<or> unnamed c" and k: "length (element c) \<le> k" using Cons.prems by auto
  have w: "slay_wrap (pre @ replicate k NUL) pos (m_name c) (if m_name c \<noteq> None then m_name_len c else 0)
      (if marshall_type_hasdata (m_mtype c) then m_data c else None) (if marshall_type_hasdata (m_mtype c) then m_data_len c else 0) (m_mtype c)
    = Some (pre @ element c @ replicate (k - length (element c)) NUL, pos + length (element c))"
    by (rule slay_wrap_scalar[OF c Cons.prems(2) k refl refl])
  have "put_loop n b (c # cs) (pre @ replicate k NUL) pos
      = put_loop n b cs ((pre @ element c) @ replicate (k - length (element c)) NUL) (pos + length (element c))"
    using w c(1) by (auto simp: scalar_ok_def Let_def split: if_splits)
  also have "\<dots> = Some ((pre @ element c) @ concat (map element cs)
      @ replicate (k - length (element c) - length (concat (map element cs))) NUL, b)"
    using Cons.prems by (intro Cons.IH) auto
  finally show ?case by simp
qed simp

lemma unwrap_scalar:
  assumes "scalar_ok c" "named c \<or> unnamed c" "length pre = pos"
  shows "slay_unwrap (pre @ element c @ rest) pos
    = Some (m_mtype c, if payload c = [] then None else Some (payload c), length (payload c), m_name c, length (label c))"
proof -
  have "length (payload c) < 256 ^ 8" "length (label c) < 256 ^ 8" "(if label c = [] then None else Some (label c)) = m_name c"
    using assms(1,2) by (auto simp: scalar_ok_def named_def unnamed_def label_def)
  then show ?thesis using slay_unwrap_ok[OF assms(3), of "payload c" "label c" "m_mtype c" rest] by (simp add: element_def)
qed

lemma cstring_free: "NUL \<notin> set s \<Longrightarrow> as_cstring (if s = [] then None else Some s) = s"
  by (auto simp: as_cstring_def takeWhile_eq_all_conv)

lemma read_scalar:
  assumes "scalar_ok c" "m_mtype c = MTYPE_QUID \<longrightarrow> \<not> descent"
  shows "read_element rec b descent null (m_mtype c) (if payload c = [] then None else Some (payload c)) (length (payload c))
    = Some (Marshall None 0 (Some (payload c)) (m_data_len c) [] 1 (m_mtype c), b)"
  using assms cstring_free[of "payload c"] by (auto simp: read_element_def scalar_node_def scalar_ok_def)

text \<open>A composite that is being filled: the children so far and room for more.\<close>

definition filling :: "marshall_type \<Rightarrow> marshall list \<Rightarrow> nat \<Rightarrow> marshall" where
  "filling t xs j = Marshall None 0 None 0 (map Some xs @ replicate j None) (length xs) t"

lemma push_filling: "push_child (filling t xs (Suc j)) (Some c) = Some (filling t (xs @ [c]) j)"
  by (simp add: filling_def push_child_def put_child_def list_update_append nth_append)

lemma get_array_scalars:
  assumes "\<forall>c\<in>set cs. scalar_ok c \<and> unnamed c \<and> (m_mtype c = MTYPE_QUID \<longrightarrow> \<not> descent)" "length pre = pos"
  shows "get_array rec (length cs) b (pre @ concat (map element cs) @ rest) pos descent (filling t xs (length cs + j))
    = Some (filling t (xs @ map canon cs) j, b)"
  using assms
proof (induction cs arbitrary: pre pos xs)
  case (Cons c cs)
  have c: "scalar_ok c" "unnamed c" "named c \<or> unnamed c" "m_mtype c = MTYPE_QUID \<longrightarrow> \<not> descent" using Cons.prems by auto
  have u: "slay_unwrap (pre @ concat (map element (c # cs)) @ rest) pos
      = Some (m_mtype c, if payload c = [] then None else Some (payload c), length (payload c), m_name c, length (label c))"
    using unwrap_scalar[OF c(1,3) Cons.prems(2), of "concat (map element cs) @ rest"] by simp
  have n: "m_name c = None" "label c = []" "canon c = Marshall None 0 (Some (payload c)) (m_data_len c) [] 1 (m_mtype c)"
    using c(2) by (simp_all add: unnamed_def label_def canon_def)
  have "get_array rec (length (c # cs)) b (pre @ concat (map element (c # cs)) @ rest) pos descent (filling t xs (length (c # cs) + j))
      = get_array rec (length cs) b ((pre @ element c) @ concat (map element cs) @ rest) (pos + length (element c)) descent
          (filling t (xs @ [canon c]) (length cs + j))"
    using u read_scalar[OF c(1,4)] n by (simp add: push_filling element_def add.assoc)
  also have "\<dots> = Some (filling t ((xs @ [canon c]) @ map canon cs) j, b)"
    using Cons.prems by (intro Cons.IH) auto
  finally show ?case by simp
qed simp

lemma get_object_scalars:
  assumes "\<forall>c\<in>set cs. scalar_ok c \<and> named c \<and> (m_mtype c = MTYPE_QUID \<longrightarrow> \<not> descent)" "length pre = pos"
  shows "get_object rec (length cs) b (pre @ concat (map element cs) @ rest) pos descent dangling (filling t xs (length cs + j))
    = Some (filling t (xs @ map canon cs) j, b)"
  using assms
proof (induction cs arbitrary: pre pos xs dangling)
  case (Cons c cs)
  have c: "scalar_ok c" "named c" "named c \<or> unnamed c" "m_mtype c = MTYPE_QUID \<longrightarrow> \<not> descent" using Cons.prems by auto
  have u: "slay_unwrap (pre @ concat (map element (c # cs)) @ rest) pos
      = Some (m_mtype c, if payload c = [] then None else Some (payload c), length (payload c), m_name c, length (label c))"
    using unwrap_scalar[OF c(1,3) Cons.prems(2), of "concat (map element cs) @ rest"] by simp
  obtain s where n: "m_name c = Some s" "label c = s" "m_name_len c = length s" "as_cstring (Some s) = s"
    using c(2) cstring_free by (auto simp: named_def label_def split: if_splits) (metis (mono_tags) option.simps(5))
  have "get_object rec (length (c # cs)) b (pre @ concat (map element (c # cs)) @ rest) pos descent dangling (filling t xs (length (c # cs) + j))
      = get_object rec (length cs) b ((pre @ element c) @ concat (map element cs) @ rest) (pos + length (element c)) descent True
          (filling t (xs @ [canon c]) (length cs + j))"
    using u read_scalar[OF c(1,4)] n by (simp add: push_filling element_def add.assoc canon_def)
  also have "\<dots> = Some (filling t ((xs @ [canon c]) @ map canon cs) j, b)"
    using Cons.prems by (intro Cons.IH) auto
  finally show ?case by simp
qed simp

section \<open>Whole structures\<close>

lemma count_children_flat: "read_children n cs = Some ms \<Longrightarrow> count_children n cs 1 1 = Some n"
proof (induction n cs arbitrary: ms rule: read_children.induct)
  case (2 n c cs)
  have "marshall_get_count c 1 1 = Some 1" by (subst marshall_get_count.simps) simp
  then show ?case using 2 by (auto simp: bind_Some_iff)
qed auto

lemma marshall_count_flat:
  assumes "children m = Some cs" "marshall_type_hasdescent (m_mtype m)"
  shows "marshall_get_count m 1 0 = Some (1 + length cs)"
proof -
  have "m_size m = length cs" using assms(1) by (simp add: children_def read_children_iff)
  then show ?thesis
    using assms count_children_flat[of "m_size m" "m_child m"]
    by (subst marshall_get_count.simps) (simp add: children_def)
qed

lemma elements_fit:
  assumes "\<forall>c\<in>set cs. scalar_ok c \<and> (named c \<or> unnamed c)"
  shows "length (concat (map element cs)) \<le> length cs * 24 + row_data_len cs"
proof -
  have "length (concat (map element cs)) \<le> length cs * 24
      + sum_list (map (\<lambda>c. (if m_data c \<noteq> None then m_data_len c else 0) + (if m_name c \<noteq> None then m_name_len c else 0)) cs)"
    using assms
  proof (induction cs)
    case (Cons c cs)
    have "length (payload c) \<le> (if m_data c \<noteq> None then m_data_len c else 0)" "length (label c) = (if m_name c \<noteq> None then m_name_len c else 0)"
      using Cons.prems scalar_element(3)[of c] by (auto simp: scalar_ok_def payload_def split: if_splits)
    then show ?case using Cons by (simp add: element_def)
  qed simp
  then show ?thesis unfolding row_data_len_def by linarith
qed

lemma no_descents:
  assumes "\<forall>c\<in>set cs. scalar_ok c" "cs \<noteq> []"
  shows "object_descent_count cs = 0" "row_schema t 0 (length cs) = (if t = MTYPE_ARRAY then SCHEMA_ARRAY else SCHEMA_OBJECT)"
proof -
  have "filter (\<lambda>c. m_mtype c = MTYPE_OBJECT \<or> m_mtype c = MTYPE_ARRAY) cs = []"
    using assms(1) by (auto simp: filter_empty_conv scalar_ok_def marshall_type_hasdescent_def type_info_def)
  then show "object_descent_count cs = 0" by (simp add: object_descent_count_def)
qed (use assms(2) in \<open>simp add: row_schema_def\<close>)

lemma slay_put_flat:
  assumes m: "children m = Some cs" "m_mtype m = MTYPE_ARRAY \<or> m_mtype m = MTYPE_OBJECT" "cs \<noteq> []"
    and c: "\<forall>c\<in>set cs. scalar_ok c \<and> (named c \<or> unnamed c)"
  shows "\<exists>rest. slay_put n b m
    = Some (row_bytes (if m_mtype m = MTYPE_ARRAY then SCHEMA_ARRAY else SCHEMA_OBJECT) (length cs) @ concat (map element cs) @ rest,
        \<lparr>rs_items = length cs, rs_schema = if m_mtype m = MTYPE_ARRAY then SCHEMA_ARRAY else SCHEMA_OBJECT\<rparr>, b)"
proof -
  let ?s = "if m_mtype m = MTYPE_ARRAY then SCHEMA_ARRAY else SCHEMA_OBJECT"
  have t: "\<not> marshall_type_hasdata (m_mtype m)" "marshall_type_hasdescent (m_mtype m)"
    using m(2) by (auto simp: marshall_type_hasdata_def marshall_type_hasdescent_def type_info_def)
  have l: "1 \<le> length cs" using m(3) by (cases cs) auto
  have s: "\<forall>c\<in>set cs. scalar_ok c" using c by blast
  have row: "create_row ?s (length cs) (row_data_len cs) = Some (row_bytes ?s (length cs) @ replicate (length cs * 24 + row_data_len cs) NUL)"
    by (rule create_row_ok[OF l])
  have r16: "length (row_bytes ?s (length cs)) = 16" by (simp add: row_bytes_def)
  show ?thesis
    using put_loop_scalars[OF c r16 elements_fit[OF c], of n b] t m(1) marshall_count_flat[OF m(1) t(2)]
      no_descents[OF s m(3)] row
    by (subst slay_put.simps) (simp add: Let_def)
qed

lemma children_filling [simp]: "children (filling t xs j) = Some xs" "m_mtype (filling t xs j) = t" "m_size (filling t xs j) = length xs"
  by (auto simp: filling_def children_def read_children_iff)

lemma new_filling: "\<exists>j. new_node (length cs) t = filling t [] (length cs + j)"
proof -
  have "length cs \<le> tree_zcalloc_slots (length cs)" by (simp add: tree_zcalloc_slots)
  then obtain j where "tree_zcalloc_slots (length cs) = length cs + j" using le_iff_add by blast
  then show ?thesis by (auto simp: new_node_def filling_def calloc_children_def)
qed

lemma equal_canon:
  assumes "scalar_ok c" "named c \<or> unnamed c"
  shows "marshall_equal c (canon c) = Some True"
proof -
  have "m_mtype c \<noteq> MTYPE_OBJECT" "m_mtype c \<noteq> MTYPE_ARRAY"
    using assms(1) by (auto simp: scalar_ok_def marshall_type_hasdescent_def type_info_def)
  moreover have "same_string (m_data c) (Some (payload c))"
    using assms(1) by (cases "m_data c") (auto simp: scalar_ok_def payload_def same_string_def split: if_splits)
  ultimately show ?thesis
    using assms(1) by (auto simp: canon_def scalar_ok_def same_scalar_def same_string_def split: option.splits)
qed

lemma equal_loop_canon:
  assumes "\<forall>c\<in>set cs. scalar_ok c \<and> (named c \<or> unnamed c)"
  shows "equal_loop (length cs) (map Some cs @ r) (map Some (map canon cs) @ s) = Some True"
  using assms by (induction cs) (simp_all add: equal_canon del: marshall_equal.simps)

text \<open>What \<open>slay_put\<close> is proved for: a scalar without a name, a list of such scalars, an object of named ones.\<close>

definition flat :: "bool \<Rightarrow> marshall \<Rightarrow> bool" where
  "flat descent m \<longleftrightarrow>
     (case m_mtype m of
        MTYPE_ARRAY \<Rightarrow> \<exists>cs. children m = Some cs \<and> cs \<noteq> [] \<and> length cs < 256 ^ 8
          \<and> (\<forall>c\<in>set cs. scalar_ok c \<and> unnamed c \<and> (m_mtype c = MTYPE_QUID \<longrightarrow> \<not> descent))
      | MTYPE_OBJECT \<Rightarrow> \<exists>cs. children m = Some cs \<and> cs \<noteq> [] \<and> length cs < 256 ^ 8
          \<and> (\<forall>c\<in>set cs. scalar_ok c \<and> named c \<and> (m_mtype c = MTYPE_QUID \<longrightarrow> \<not> descent))
      | _ \<Rightarrow> scalar_ok m \<and> unnamed m \<and> (m_mtype m = MTYPE_QUID \<longrightarrow> \<not> descent))"

lemma slay_put_scalar:
  assumes "scalar_ok m" "unnamed m"
  shows "slay_put n b m = Some (row_bytes SCHEMA_FIELD 1 @ element m, \<lparr>rs_items = 1, rs_schema = SCHEMA_FIELD\<rparr>, b)"
proof -
  have u: "m_name m = None" "label m = []" using assms(2) by (simp_all add: unnamed_def label_def)
  have d: "\<not> marshall_type_hasdescent (m_mtype m)" using assms(1) by (simp add: scalar_ok_def)
  let ?len = "if marshall_type_hasdata (m_mtype m) then m_data_len m else 0"
  have k: "length (element m) = 1 * 24 + ?len"
    using assms(1) u(2) by (auto simp: element_def scalar_ok_def payload_def)
  have row: "create_row SCHEMA_FIELD 1 ?len = Some (row_bytes SCHEMA_FIELD 1 @ replicate (length (element m)) NUL)"
    unfolding k by (rule create_row_ok) simp
  have r16: "length (row_bytes SCHEMA_FIELD 1) = 16" by (simp add: row_bytes_def)
  have "slay_wrap (row_bytes SCHEMA_FIELD 1 @ replicate (length (element m)) NUL) 16 None 0
      (if marshall_type_hasdata (m_mtype m) then m_data m else None) ?len (m_mtype m)
    = Some (row_bytes SCHEMA_FIELD 1 @ element m, 16 + length (element m))"
    using slay_wrap_scalar[OF assms(1) disjI2[OF assms(2)] r16 le_refl refl refl] u(1) by simp
  then show ?thesis using row d by (subst slay_put.simps) (simp split: if_splits)
qed

lemma row_get:
  assumes "el < 256 ^ 8"
  shows "get_row (row_bytes schema el @ rest) = Some (schema_code schema, el)" "length (row_bytes schema el) = 16"
  using get_row_ok[OF assms] by (simp_all add: row_bytes_def)

lemma slay_flat:
  assumes "flat descent m"
  shows "\<exists>row rs m'. slay_put n b m = Some (row, rs, b) \<and> slay_get k b row descent = Some (Some m', b)
    \<and> marshall_equal m m' = Some True \<and> slay_get_type row = Some (m_mtype m)"
proof -
  consider "m_mtype m = MTYPE_ARRAY" | "m_mtype m = MTYPE_OBJECT"
    | "scalar_ok m" "unnamed m" "m_mtype m = MTYPE_QUID \<longrightarrow> \<not> descent"
    using assms by (cases "m_mtype m") (auto simp: flat_def)
  then show ?thesis
  proof cases
    case 1
    then obtain cs where cs: "children m = Some cs" "cs \<noteq> []" "length cs < 256 ^ 8"
      "\<forall>c\<in>set cs. scalar_ok c \<and> unnamed c \<and> (m_mtype c = MTYPE_QUID \<longrightarrow> \<not> descent)"
      using assms by (auto simp: flat_def)
    have c: "\<forall>c\<in>set cs. scalar_ok c \<and> (named c \<or> unnamed c)" using cs(4) by blast
    obtain rest where put: "slay_put n b m = Some (row_bytes SCHEMA_ARRAY (length cs) @ concat (map element cs) @ rest,
        \<lparr>rs_items = length cs, rs_schema = SCHEMA_ARRAY\<rparr>, b)"
      using slay_put_flat[OF cs(1) _ cs(2) c] 1 by auto
    let ?row = "row_bytes SCHEMA_ARRAY (length cs) @ concat (map element cs) @ rest"
    obtain j where j: "new_node (length cs) MTYPE_ARRAY = filling MTYPE_ARRAY [] (length cs + j)" using new_filling by blast
    have "slay_get k b ?row descent = Some (Some (filling MTYPE_ARRAY (map canon cs) j), b)"
      using get_array_scalars[OF cs(4) row_get(2)[OF cs(3)], where b = b and rest = rest and t = MTYPE_ARRAY and xs = "[]"] row_get(1)[OF cs(3)]
      by (simp add: slay_get_def slay_get_with_def schema_code_def j)
    moreover have "slay_get_type ?row = Some (m_mtype m)"
      using row_get(1)[OF cs(3)] 1 by (simp add: slay_get_type_def schema_code_def)
    moreover obtain r where "m_child m = map Some cs @ r" "m_size m = length cs"
      using cs(1) by (auto simp: children_def read_children_iff)
    then have "marshall_equal m (filling MTYPE_ARRAY (map canon cs) j) = Some True" for j
      using 1 equal_loop_canon[OF c] by (subst marshall_equal.simps) (simp add: filling_def)
    ultimately show ?thesis using put by blast
  next
    case 2
    then obtain cs where cs: "children m = Some cs" "cs \<noteq> []" "length cs < 256 ^ 8"
      "\<forall>c\<in>set cs. scalar_ok c \<and> named c \<and> (m_mtype c = MTYPE_QUID \<longrightarrow> \<not> descent)"
      using assms by (auto simp: flat_def)
    have c: "\<forall>c\<in>set cs. scalar_ok c \<and> (named c \<or> unnamed c)" using cs(4) by blast
    obtain rest where put: "slay_put n b m = Some (row_bytes SCHEMA_OBJECT (length cs) @ concat (map element cs) @ rest,
        \<lparr>rs_items = length cs, rs_schema = SCHEMA_OBJECT\<rparr>, b)"
      using slay_put_flat[OF cs(1) _ cs(2) c] 2 by auto
    let ?row = "row_bytes SCHEMA_OBJECT (length cs) @ concat (map element cs) @ rest"
    obtain j where j: "new_node (length cs) MTYPE_OBJECT = filling MTYPE_OBJECT [] (length cs + j)" using new_filling by blast
    have "slay_get k b ?row descent = Some (Some (filling MTYPE_OBJECT (map canon cs) j), b)"
      using get_object_scalars[OF cs(4) row_get(2)[OF cs(3)], where b = b and rest = rest and dangling = False and t = MTYPE_OBJECT and xs = "[]"] row_get(1)[OF cs(3)]
      by (simp add: slay_get_def slay_get_with_def schema_code_def j)
    moreover have "slay_get_type ?row = Some (m_mtype m)"
      using row_get(1)[OF cs(3)] 2 by (simp add: slay_get_type_def schema_code_def)
    moreover obtain r where "m_child m = map Some cs @ r" "m_size m = length cs"
      using cs(1) by (auto simp: children_def read_children_iff)
    then have "marshall_equal m (filling MTYPE_OBJECT (map canon cs) j) = Some True" for j
      using 2 equal_loop_canon[OF c] by (subst marshall_equal.simps) (simp add: filling_def)
    ultimately show ?thesis using put by blast
  next
    case 3
    let ?row = "row_bytes SCHEMA_FIELD 1 @ element m"
    have r: "get_row ?row = Some (0, 1)" "length (row_bytes SCHEMA_FIELD 1) = 16"
      using row_get(1)[of 1 SCHEMA_FIELD "element m"] row_get(2)[of 1 SCHEMA_FIELD] by (simp_all add: schema_code_def)
    have u: "slay_unwrap ?row 16
        = Some (m_mtype m, if payload m = [] then None else Some (payload m), length (payload m), None, 0)"
      using unwrap_scalar[OF 3(1) disjI2[OF 3(2)] r(2), of "[]"] 3(2) by (simp add: unnamed_def label_def)
    have "canon m = Marshall None 0 (Some (payload m)) (m_data_len m) [] 1 (m_mtype m)" using 3(2) by (simp add: canon_def unnamed_def)
    then have "slay_get k b ?row descent = Some (Some (canon m), b)"
      using r(1) u read_scalar[OF 3(1,3)] by (simp add: slay_get_def slay_get_with_def schema_code_def)
    moreover have "slay_get_type ?row = Some (m_mtype m)"
      using r(1) u by (simp add: slay_get_type_def schema_code_def)
    ultimately show ?thesis using slay_put_scalar[OF 3(1,2)] equal_canon[OF 3(1) disjI2[OF 3(2)]] by blast
  qed
qed

section \<open>Properties\<close>

text \<open>
  C16: A scalar, a non-empty list of scalars and a non-empty object of named scalars survive the byte format: \<open>slay_put\<close> stays inside
  the buffer it allocates and \<open>slay_get\<close> returns an equal structure from its bytes, of which \<open>slay_get_type\<close> names the
  type.  Keys are followed when descending, so they are excluded then.
\<close>

theorem slay_roundtrip:
  assumes "flat descent m"
  shows "\<exists>row rs m'. slay_put n b m = Some (row, rs, b) \<and> slay_get k b row descent = Some (Some m', b)
    \<and> marshall_equal m m' = Some True \<and> slay_get_type row = Some (m_mtype m)"
  by (rule slay_flat[OF assms])

definition demo_object :: marshall where
  "demo_object = Marshall None 0 None 0
     [Some (Marshall (Some ''a'') 1 (Some ''12'') 2 [] 1 MTYPE_INT), Some (Marshall (Some ''bc'') 2 None 0 [] 1 MTYPE_NULL)] 2 MTYPE_OBJECT"

theorem slay_roundtrip_witness:
  "\<exists>row rs m'. slay_put 0 (demo 17 (\<lambda>_. None)) demo_object = Some (row, rs, demo 17 (\<lambda>_. None))
    \<and> slay_get 0 (demo 17 (\<lambda>_. None)) row True = Some (Some m', demo 17 (\<lambda>_. None))
    \<and> marshall_equal demo_object m' = Some True \<and> slay_get_type row = Some MTYPE_OBJECT"
proof -
  have "flat True demo_object"
    by (simp add: flat_def demo_object_def children_def numeral_2_eq_2 scalar_ok_def named_def payload_def
        marshall_type_hasdata_def marshall_type_hasdescent_def type_info_def)
  moreover have "m_mtype demo_object = MTYPE_OBJECT" by (simp add: demo_object_def)
  ultimately show ?thesis
    using slay_roundtrip[of True demo_object 0 "demo 17 (\<lambda>_. None)" 0] by metis
qed

section \<open>Empty composites\<close>

text \<open>An array or object without elements, or one that contains such a one at any depth.\<close>

definition composite :: "marshall \<Rightarrow> bool" where
  "composite m \<longleftrightarrow> m_mtype m = MTYPE_ARRAY \<or> m_mtype m = MTYPE_OBJECT"

inductive has_empty :: "marshall \<Rightarrow> bool" where
  here: "composite m \<Longrightarrow> children m = Some [] \<Longrightarrow> has_empty m"
| below: "composite m \<Longrightarrow> children m = Some cs \<Longrightarrow> c \<in> set cs \<Longrightarrow> has_empty c \<Longrightarrow> has_empty m"

lemma composite_type: "composite m \<Longrightarrow> \<not> marshall_type_hasdata (m_mtype m) \<and> marshall_type_hasdescent (m_mtype m)"
  by (auto simp: composite_def marshall_type_hasdata_def marshall_type_hasdescent_def type_info_def)

lemma has_empty_composite: "has_empty m \<Longrightarrow> composite m"
  by (cases rule: has_empty.cases)

lemma put_loop_none:
  assumes "c \<in> set cs" "composite c" "\<And>b. slay_put n b c = None"
  shows "put_loop n b cs slay pos = None"
  using assms(1)
proof (induction cs arbitrary: b slay pos)
  case (Cons d cs)
  show ?case
  proof (cases "c = d")
    case True
    then show ?thesis using composite_type[OF assms(2)] assms(3) by (simp add: Let_def)
  next
    case False
    then show ?thesis using Cons by (auto simp: Let_def split: bind_splits)
  qed
qed simp

text \<open>
  C17: \<open>slay_put\<close> of src/slay_marshall.c never returns for an empty array or object, nor for a structure that contains one among its elements at
  any depth: \<open>create_row\<close> asserts at least one element, and the failing assertion aborts the process.
\<close>

theorem slay_put_empty:
  assumes "has_empty m"
  shows "slay_put n b m = None"
  using assms
proof (induction arbitrary: b rule: has_empty.induct)
  case (here m)
  then show ?case
    using composite_type[OF here(1)] marshall_count_flat[OF here(2)]
    by (subst slay_put.simps) (simp add: Let_def create_row_def update_row_def)
next
  case (below m cs c)
  have "put_loop n b cs slay pos = None" for slay pos
    by (rule put_loop_none[OF below.hyps(3) has_empty_composite[OF below.hyps(4)] below.IH])
  then show ?case using composite_type[OF below.hyps(1)] below.hyps(2)
    by (subst slay_put.simps) (auto simp: Let_def split: bind_splits)
qed

text \<open>An object with a scalar and an array whose only element is an empty object.\<close>

definition nested_empty :: marshall where
  "nested_empty =
     (let leaf = Marshall (Some ''a'') 1 (Some ''1'') 1 [] 0 MTYPE_INT;
          inner = Marshall None 0 None 0 [] 0 MTYPE_OBJECT;
          arr = Marshall (Some ''b'') 1 None 0 [Some inner] 1 MTYPE_ARRAY
      in Marshall None 0 None 0 [Some leaf, Some arr] 2 MTYPE_OBJECT)"

theorem slay_put_empty_witness: "slay_put 5 (demo 17 (\<lambda>_. None)) nested_empty = None"
proof (rule slay_put_empty)
  let ?inner = "Marshall None 0 None 0 [] 0 MTYPE_OBJECT" and ?leaf = "Marshall (Some ''a'') 1 (Some ''1'') 1 [] 0 MTYPE_INT"
  let ?arr = "Marshall (Some ''b'') 1 None 0 [Some ?inner] 1 MTYPE_ARRAY"
  have 1: "has_empty ?inner" by (rule here) (simp_all add: composite_def children_def)
  have 2: "has_empty ?arr" by (rule below[OF _ _ _ 1, of _ "[?inner]"]) (simp_all add: composite_def children_def)
  show "has_empty nested_empty" unfolding nested_empty_def Let_def
    by (rule below[OF _ _ _ 2, of _ "[?leaf, ?arr]"]) (simp_all add: composite_def children_def numeral_2_eq_2)
qed

end
