(* ===== verification/Index.thy ===== *)
theory Index imports
  Btree Index_List Slay
begin

text \<open>
  Indexes over tables and sets: src/index.c, and the rebuilding of the list of indexes (src/index_list.c).  An index maps the
  text of one member of every row to the offset of the row's data.  The first argument of the operations
  that read rows is the depth to which \<open>slay_get\<close> follows keys.
\<close>

record index_result =
  ir_index :: quid
  ir_index_elements :: u64
  ir_element :: u32
  ir_offset :: u64

definition zero_index_result :: index_result where
  "zero_index_result = \<lparr>ir_index = zero_quid, ir_index_elements = 0, ir_element = 0, ir_offset = 0\<rparr>"

definition get_record :: "nat \<Rightarrow> base \<Rightarrow> quid \<Rightarrow> (marshall option \<times> base) option" where
  "get_record n b key = do {
     ((offset, _), b) \<leftarrow> engine_get b key;
     if iserror b then Some (None, error_clear b)
     else do {
       (data, b) \<leftarrow> get_data_block b offset;
       (case data of
          None \<Rightarrow> Some (None, b)
        | Some data \<Rightarrow> slay_get n b data True) } }"

text \<open>The text of a value goes into the index; composites have none.\<close>

definition insert_value :: "base \<Rightarrow> btree \<Rightarrow> marshall \<Rightarrow> u64 \<Rightarrow> nat \<Rightarrow> index_result \<Rightarrow> (base \<times> btree \<times> index_result) option" where
  "insert_value b ix member offset j result = do {
     (value, value_len) \<leftarrow> marshall_strdata member;
     value \<leftarrow> value;
     (_, b, ix) \<leftarrow> btree_insert b ix value value_len offset;
     Some (b, ix, result\<lparr>ir_index_elements := ir_index_elements result + 1, ir_element := of_nat j\<rparr>) }"

text \<open>The members of a row from position \<open>j\<close> on.\<close>

fun index_members :: "string \<Rightarrow> u64 \<Rightarrow> nat \<Rightarrow> nat \<Rightarrow> marshall option list \<Rightarrow> base \<Rightarrow> btree \<Rightarrow> index_result
    \<Rightarrow> (base \<times> btree \<times> index_result) option" where
  "index_members element offset 0 j cs b ix result = Some (b, ix, result)"
| "index_members element offset (Suc n) j [] b ix result = None"
| "index_members element offset (Suc n) j (None # cs) b ix result = index_members element offset n (j + 1) cs b ix result"
| "index_members element offset (Suc n) j (Some c # cs) b ix result =
     (if m_name_len c = 0 then index_members element offset n (j + 1) cs b ix result
      else do {
        name \<leftarrow> m_name c;
        (b, ix, result) \<leftarrow> (if name = element then insert_value b ix c offset j result else Some (b, ix, result));
        index_members element offset n (j + 1) cs b ix result })"

text \<open>
  The loop over the keys of the rows, for both kinds of index; a row that is not found is left out.  \<open>row_op\<close> is what is done
  with a row and its offset.
\<close>

fun index_keys :: "nat \<Rightarrow> (marshall \<Rightarrow> u64 \<Rightarrow> base \<Rightarrow> btree \<Rightarrow> index_result \<Rightarrow> (base \<times> btree \<times> index_result) option)
    \<Rightarrow> nat \<Rightarrow> marshall option list \<Rightarrow> base \<Rightarrow> btree \<Rightarrow> index_result \<Rightarrow> (base \<times> btree \<times> index_result) option" where
  "index_keys n row_op 0 cs b ix result = Some (b, ix, result)"
| "index_keys n row_op (Suc m) [] b ix result = None"
| "index_keys n row_op (Suc m) (c # cs) b ix result = do {
     c \<leftarrow> c;
     data \<leftarrow> m_data c;
     key \<leftarrow> parse_quid data;
     (rowobj, b) \<leftarrow> get_record n b key;
     (case rowobj of
        None \<Rightarrow> index_keys n row_op m cs b ix result
      | Some rowobj \<Rightarrow> do {
          ((offset, _), b) \<leftarrow> engine_get b key;
          (b, ix, result) \<leftarrow> row_op rowobj offset b ix result;
          index_keys n row_op m cs b ix result }) }"

definition index_btree_create_table :: "nat \<Rightarrow> base \<Rightarrow> string \<Rightarrow> marshall \<Rightarrow> index_result \<Rightarrow> (int \<times> base \<times> index_result) option" where
  "index_btree_create_table n b element marshall result = do {
     (off, b, ix) \<leftarrow> btree_create b;
     let ix = btree_set_unique ix False;
     (b, ix, result) \<leftarrow> index_keys n (\<lambda>row offset. index_members element offset (m_size row) 0 (m_child row))
       (m_size marshall) (m_child marshall) b ix (result\<lparr>ir_offset := off\<rparr>);
     b \<leftarrow> btree_close b ix;
     Some (0, b, result) }"

text \<open>\<open>atol\<close> of digits; a number that a \<open>long\<close> cannot hold is undefined.\<close>

definition atol :: "string \<Rightarrow> nat option" where
  "atol s = (let v = foldl digit_val 0 s in if v < 2 ^ 63 then Some v else None)"

text \<open>The position in the row; \<open>rowobj->size - 1\<close> wraps around for an empty row.\<close>

definition index_position :: "nat \<Rightarrow> marshall \<Rightarrow> u64 \<Rightarrow> base \<Rightarrow> btree \<Rightarrow> index_result \<Rightarrow> (base \<times> btree \<times> index_result) option" where
  "index_position array_index row offset b ix result =
     (if array_index \<le> unat (of_nat (m_size row) - 1 :: u32) then do {
        zassert (array_index < length (m_child row));
        (case m_child row ! array_index of
           None \<Rightarrow> Some (b, ix, result)
         | Some c \<Rightarrow> insert_value b ix c offset array_index result) }
      else Some (b, ix, result))"

definition index_btree_create_set :: "nat \<Rightarrow> base \<Rightarrow> string \<Rightarrow> marshall \<Rightarrow> index_result \<Rightarrow> (int \<times> base \<times> index_result) option" where
  "index_btree_create_set n b element marshall result =
     (if \<not> strisdigit element \<or> char_at element 0 = CHR ''-''
      then Some (- 1, error_throw ''888d28dff048'' ''Operation expects an positive index given'' b, result)
      else do {
        (off, b, ix) \<leftarrow> btree_create b;
        let ix = btree_set_unique ix False;
        array_index \<leftarrow> atol element;
        (b, ix, result) \<leftarrow> index_keys n (index_position array_index)
          (m_size marshall) (m_child marshall) b ix (result\<lparr>ir_offset := off\<rparr>);
        b \<leftarrow> btree_close b ix;
        Some (0, b, result) })"

section \<open>Look-ups\<close>

text \<open>The data of the offsets found, in an array; what cannot be read is left out.\<close>

fun index_get_rows :: "nat \<Rightarrow> base \<Rightarrow> u64 slot list \<Rightarrow> marshall \<Rightarrow> (marshall \<times> base) option" where
  "index_get_rows n b [] m = Some (m, b)"
| "index_get_rows n b (Ptr off # offs) m = do {
     (data, b) \<leftarrow> get_data_block b off;
     (case data of
        None \<Rightarrow> index_get_rows n b offs m
      | Some data \<Rightarrow> do {
          (dataobj, b) \<leftarrow> slay_get n b data True;
          (case dataobj of
             None \<Rightarrow> index_get_rows n b offs m
           | Some d \<Rightarrow> do { m \<leftarrow> push_child m (Some d); index_get_rows n b offs m }) }) }"
| "index_get_rows n b (_ # offs) m = None"

definition index_get :: "nat \<Rightarrow> base \<Rightarrow> u64 \<Rightarrow> string \<Rightarrow> (marshall option \<times> base) option" where
  "index_get n b offset key = do {
     ix \<leftarrow> btree_open b offset;
     (st, result) \<leftarrow> btree_get b ix key (alloc_vector (DEFAULT_RESULT_SIZE * 10));
     if st \<noteq> SUCCESS then Some (None, b)
     else do {
       (m, b) \<leftarrow> index_get_rows n b (vector_list result) (new_node (unat (vc_size result)) MTYPE_ARRAY);
       b \<leftarrow> btree_close b ix;
       Some (Some m, b) } }"

definition index_add :: "base \<Rightarrow> u64 \<Rightarrow> string \<Rightarrow> u64 \<Rightarrow> (int \<times> base) option" where
  "index_add b offset key valset = do {
     ix \<leftarrow> btree_open b offset;
     (_, b, ix) \<leftarrow> btree_insert b ix key (length key) valset;
     b \<leftarrow> btree_close b ix;
     Some (0, b) }"

definition index_delete :: "base \<Rightarrow> u64 \<Rightarrow> string \<Rightarrow> (int \<times> base) option" where
  "index_delete b offset key = do {
     ix \<leftarrow> btree_open b offset;
     (_, b, ix) \<leftarrow> btree_delete b ix key;
     b \<leftarrow> btree_close b ix;
     Some (0, b) }"

definition index_btree_count :: "base \<Rightarrow> u64 \<Rightarrow> nat option" where
  "index_btree_count b offset = do {
     ix \<leftarrow> btree_open b offset;
     rskv \<leftarrow> btree_get_all b ix;
     Some (unat (vc_size rskv)) }"

fun index_all_rows :: "nat \<Rightarrow> bool \<Rightarrow> base \<Rightarrow> keyval slot list \<Rightarrow> marshall \<Rightarrow> (marshall \<times> base) option" where
  "index_all_rows n descent b [] m = Some (m, b)"
| "index_all_rows n descent b (Ptr kv # kvs) m = do {
     (data, b) \<leftarrow> get_data_block b (kv_value kv);
     (case data of
        None \<Rightarrow> index_all_rows n descent b kvs m
      | Some data \<Rightarrow>
          if descent then do {
            (dataobj, b) \<leftarrow> slay_get n b data True;
            (case dataobj of
               None \<Rightarrow> index_all_rows n descent b kvs m
             | Some d \<Rightarrow> do {
                 m \<leftarrow> push_child m (Some (set_name (Some (kv_key kv)) (kv_key_len kv) d));
                 index_all_rows n descent b kvs m }) }
          else do {
            m \<leftarrow> push_child m (Some (Marshall None 0 (Some (kv_key kv)) (kv_key_len kv) [] 1 MTYPE_STRING));
            index_all_rows n descent b kvs m }) }"
| "index_all_rows n descent b (_ # kvs) m = None"

definition index_btree_all :: "nat \<Rightarrow> base \<Rightarrow> u64 \<Rightarrow> bool \<Rightarrow> (marshall \<times> base) option" where
  "index_btree_all n b offset descent = do {
     ix \<leftarrow> btree_open b offset;
     rskv \<leftarrow> btree_get_all b ix;
     (m, b) \<leftarrow> index_all_rows n descent b (vector_list rskv)
       (new_node (unat (vc_size rskv)) (if descent then MTYPE_OBJECT else MTYPE_ARRAY));
     b \<leftarrow> btree_close b ix;
     Some (m, b) }"

section \<open>Rebuilding the list of indexes\<close>

text \<open>
  One entry of the old list: the index is built again over the group in the new base.  The two bases of the result are
  the old and the new one; they share the global state of the process.
\<close>

definition rebuild_index :: "nat \<Rightarrow> base \<Rightarrow> base \<Rightarrow> index_item \<Rightarrow> (base \<times> base) option" where
  "rebuild_index n b nb it =
     (if \<not> x_live it then Some (b, nb)
      else do {
        ((index_offset, meta), nb) \<leftarrow> engine_get (share b nb) (x_group it);
        if m_type meta \<noteq> MD_TYPE_GROUP then Some (share nb b, nb)
        else do {
          (data, nb) \<leftarrow> get_data_block nb index_offset;
          (case data of
             None \<Rightarrow> Some (share nb b, nb)
           | Some data \<Rightarrow> do {
               (obj, nb) \<leftarrow> slay_get n nb data False;
               (case obj of
                  None \<Rightarrow> Some (share nb b, nb)
                | Some obj \<Rightarrow> do {
                    (element, b) \<leftarrow> get_element_name (share nb b) (unat (x_element_len it)) (x_element it);
                    schema \<leftarrow> slay_get_schema data;
                    let nb = share b nb;
                    if schema \<noteq> schema_code SCHEMA_TABLE \<and> schema \<noteq> schema_code SCHEMA_SET then Some (b, nb)
                    else do {
                      element \<leftarrow> element;
                      (_, nb, nrs) \<leftarrow>
                        (if schema = schema_code SCHEMA_TABLE then index_btree_create_table n nb element obj zero_index_result
                         else index_btree_create_set n nb element obj zero_index_result);
                      (_, nb) \<leftarrow> index_list_add nb (x_index it) (x_group it) element (x_type it) (ir_offset nrs);
                      Some (share nb b, nb) } }) }) } })"

fun rebuild_indexes :: "nat \<Rightarrow> index_item list \<Rightarrow> base \<Rightarrow> base \<Rightarrow> (base \<times> base) option" where
  "rebuild_indexes n [] b nb = Some (b, nb)"
| "rebuild_indexes n (it # its) b nb = do {
     (b, nb) \<leftarrow> rebuild_index n b nb it;
     rebuild_indexes n its b nb }"

partial_function (option) index_list_rebuild_loop :: "nat \<Rightarrow> base \<Rightarrow> u64 \<Rightarrow> base \<Rightarrow> (base \<times> base) option" where
  "index_list_rebuild_loop n b off nb =
     (if off = 0 then Some (b, nb)
      else do {
        l \<leftarrow> get_index_list b off;
        zassert (unat (x_size l) \<le> INDEX_LIST_SIZE);
        (b, nb) \<leftarrow> rebuild_indexes n (x_used l) b nb;
        index_list_rebuild_loop n b (x_link l) nb })"

definition index_list_rebuild :: "nat \<Rightarrow> base \<Rightarrow> base \<Rightarrow> (base \<times> base) option" where
  "index_list_rebuild n b nb = index_list_rebuild_loop n b (off_index_list b) nb"

end
