(* ===== verification/Index_Spec.thy ===== *)
theory Index_Spec imports
  Index Btree_Insert
begin

text \<open>
  What the indexes of src/index.c promise: an index at an offset is a map, \<open>index_add\<close> updates it on the disk, and
  \<open>index_btree_count\<close> counts its keys.
\<close>

section \<open>The traversal of a tree\<close>

text \<open>The entries in the order of the traversal: those of a node, then those of its subtrees.\<close>

fun bt_preorder :: "bt \<Rightarrow> (string \<times> u64) list" where
  "bt_preorder Leaf = []"
| "bt_preorder (Node off kvs ts) = kvs @ concat (map bt_preorder ts)"

lemma mset_weave: "length xs = Suc (length ys) \<Longrightarrow> mset (weave xs ys) = mset ys + mset (concat xs)"
  by (induction xs ys rule: weave.induct) auto

text \<open>A vector that can take \<open>n\<close> more elements.\<close>

definition roomy :: "'a vector \<Rightarrow> nat \<Rightarrow> bool" where
  "roomy v n \<longleftrightarrow> vector_ok v \<and> 0 < vc_alloc_size v \<and> unat (vc_alloc_size v) \<le> 2 * unat (vc_size v) + 100
     \<and> unat (vc_size v) + n \<le> 2 ^ 29"

lemma roomy_append:
  assumes "roomy v (Suc n)"
  shows "\<exists>v'. vector_append v x = Some v' \<and> roomy v' n \<and> vector_list v' = vector_list v @ [Ptr x]"
proof -
  have a: "unat (vc_alloc_size v) * 2 < 2 ^ 32" using assms by (simp add: roomy_def)
  obtain v' where v': "vector_append v x = Some v'" "vector_ok v'" "vector_list v' = vector_list v @ [Ptr x]"
    "unat (vc_alloc_size v') = (if vc_size v = vc_alloc_size v then 2 else 1) * unat (vc_alloc_size v)"
    using vector_append_ok[of v x] a assms by (auto simp: roomy_def)
  have l: "length (vector_list w) = unat (vc_size w)" if "vector_ok w" for w :: "'a vector"
    using that by (simp add: vector_list_def vector_ok_def word_le_nat_alt)
  have s: "unat (vc_size v') = unat (vc_size v) + 1"
    using l[OF v'(2)] l[of v] v'(3) assms by (simp add: roomy_def)
  have "0 < unat (vc_alloc_size v)" using assms by (simp add: roomy_def word_less_nat_alt)
  then have "0 < vc_alloc_size v'" using v'(4) by (simp add: word_less_nat_alt)
  then have "roomy v' n" using assms v'(2,4) s by (auto simp: roomy_def)
  then show ?thesis using v'(1,3) by blast
qed

abbreviation entry :: "string \<times> u64 \<Rightarrow> keyval" where
  "entry kv \<equiv> \<lparr>kv_key = fst kv, kv_key_len = length (fst kv), kv_value = snd kv\<rparr>"

lemma append_items_ok:
  assumes "roomy v (length kvs + n)" "\<forall>kv\<in>set kvs. length (fst kv) < BTREE_KEY_SIZE"
  shows "\<exists>v'. append_items (map bt_item kvs) v = Some v' \<and> roomy v' n \<and> vector_list v' = vector_list v @ map (Ptr \<circ> entry) kvs"
  using assms
proof (induction kvs arbitrary: v)
  case (Cons kv kvs)
  have k: "unat (bt_key_size (bt_item kv)) = length (fst kv)" using Cons.prems(2) by (intro bt_item_size) simp
  have "roomy v (Suc (length kvs + n))" using Cons.prems(1) by simp
  from roomy_append[OF this, of "entry kv"]
  obtain v1 where v1: "vector_append v (entry kv) = Some v1" "roomy v1 (length kvs + n)" "vector_list v1 = vector_list v @ [Ptr (entry kv)]"
    by blast
  have "\<forall>kv\<in>set kvs. length (fst kv) < BTREE_KEY_SIZE" using Cons.prems(2) by simp
  then obtain v2 where v2: "append_items (map bt_item kvs) v1 = Some v2" "roomy v2 n" "vector_list v2 = vector_list v1 @ map (Ptr \<circ> entry) kvs"
    using Cons.IH[OF v1(2)] by blast
  have "append_items (map bt_item (kv # kvs)) v = Some v2" using v1(1) v2(1) k by simp
  then show ?case using v1(3) v2(2,3) by (intro exI[of _ v2]) simp
qed simp

lemma traverse_ok:
  assumes "store_ok b" "bt_repr (node_at b ix) t" "\<forall>x\<in>set (bt_offs t). inside b x" "bt_shape h t"
    "\<forall>kv\<in>set (bt_preorder t). length (fst kv) < BTREE_KEY_SIZE" "roomy v (length (bt_preorder t) + n)"
  shows "\<exists>v'. traverse_nodes b ix (bt_root t # offs) v = traverse_nodes b ix offs v' \<and> roomy v' n
    \<and> vector_list v' = vector_list v @ map (Ptr \<circ> entry) (bt_preorder t)"
  using assms
proof (induction t arbitrary: h v n offs)
  case Leaf
  have "traverse_nodes b ix (bt_root Leaf # offs) v = traverse_nodes b ix offs v" by (subst traverse_nodes.simps) simp
  then show ?case using Leaf.prems(6) by (intro exI[of _ v]) simp
next
  case (Node off kvs ts)
  obtain nd where n: "node_at b ix off = Some nd" "node_holds nd kvs (map bt_root ts)" "off \<noteq> - 1" using Node.prems(2) by auto
  have g: "get_node b ix off = Some nd" using get_node_ok[OF Node.prems(1)] Node.prems(3) n(1) by simp
  have "roomy v (length kvs + (length (concat (map bt_preorder ts)) + n))" using Node.prems(6) by (simp add: add.assoc)
  then obtain v1 where v1: "append_items (map bt_item kvs) v = Some v1" "roomy v1 (length (concat (map bt_preorder ts)) + n)"
    "vector_list v1 = vector_list v @ map (Ptr \<circ> entry) kvs"
    using append_items_ok Node.prems(5) by force
  have ptrs: "take (bn_cnt nd + 1) (bn_ptr nd) = map bt_root ts" using n(2) by (simp add: node_holds_def)
  have step: "traverse_nodes b ix (bt_root (Node off kvs ts) # offs) v = traverse_nodes b ix (map bt_root ts @ offs) v1"
    using n(3) g v1(1) ptrs node_holds_key(2)[OF n(2)] by (subst traverse_nodes.simps) simp
  have "\<exists>v'. traverse_nodes b ix (map bt_root us @ offs) v1 = traverse_nodes b ix offs v' \<and> roomy v' n
      \<and> vector_list v' = vector_list v1 @ map (Ptr \<circ> entry) (concat (map bt_preorder us))"
    if "set us \<subseteq> set ts" "roomy v1 (length (concat (map bt_preorder us)) + n)" for us v1
    using that
  proof (induction us arbitrary: v1)
    case (Cons u us)
    have u: "u \<in> set ts" using Cons.prems(1) by simp
    have "roomy v1 (length (bt_preorder u) + (length (concat (map bt_preorder us)) + n))" using Cons.prems(2) by (simp add: add.assoc)
    moreover have "bt_repr (node_at b ix) u" "\<forall>x\<in>set (bt_offs u). inside b x" "bt_shape (h - 1) u"
      "\<forall>kv\<in>set (bt_preorder u). length (fst kv) < BTREE_KEY_SIZE"
      using Node.prems(2-5) u by auto
    ultimately obtain v2 where v2: "traverse_nodes b ix (bt_root u # map bt_root us @ offs) v1 = traverse_nodes b ix (map bt_root us @ offs) v2"
      "roomy v2 (length (concat (map bt_preorder us)) + n)" "vector_list v2 = vector_list v1 @ map (Ptr \<circ> entry) (bt_preorder u)"
      using Node.IH[OF u Node.prems(1)] by blast
    then show ?case using Cons.IH[OF _ v2(2)] Cons.prems(1) by auto
  qed (auto intro: exI)
  then obtain v' where "traverse_nodes b ix (map bt_root ts @ offs) v1 = traverse_nodes b ix offs v'" "roomy v' n"
    "vector_list v' = vector_list v1 @ map (Ptr \<circ> entry) (concat (map bt_preorder ts))"
    using v1(2) by blast
  then show ?case using step v1(3) by auto
qed

lemma preorder_perm: "bt_shape h t \<Longrightarrow> mset (bt_preorder t) = mset (bt_inorder t)"
proof (induction t arbitrary: h)
  case (Node off kvs ts)
  have "mset (concat (map bt_preorder us)) = mset (concat (map bt_inorder us))" if "set us \<subseteq> set ts" for us
    using that
  proof (induction us)
    case (Cons u us)
    then show ?case using Node.IH[of u "h - 1"] Node.prems by auto
  qed simp
  then show ?case using Node.prems by (simp add: mset_weave)
qed simp

section \<open>Indexes on the disk\<close>

text \<open>The index whose superblock is at \<open>off\<close> holds the map \<open>m\<close>, in a tree of height at most \<open>h\<close>.\<close>

definition stored_index :: "nat \<Rightarrow> base \<Rightarrow> u64 \<Rightarrow> (string \<Rightarrow> u64 option) \<Rightarrow> bool" where
  "stored_index h b off m \<longleftrightarrow> (\<exists>ix. btree_open b off = Some ix \<and> btree_rep h b ix m)"

lemma btree_open_offset: "btree_open b off = Some ix \<Longrightarrow> ix_offset ix = off"
  unfolding btree_open_def storage_read_def bind_Some_iff
  by (elim exE conjE, rename_tac c d, case_tac d) (auto simp: bind_Some_iff new_btree_def)

lemma index_add_ok:
  assumes "stored_index h b off m" "m key = None" "length key < BTREE_KEY_SIZE" "room b (Suc h + n)"
  shows "\<exists>b'. index_add b off key v = Some (0, b') \<and> stored_index (Suc h) b' off (m(key \<mapsto> v)) \<and> room b' n"
proof -
  obtain ix where ix: "btree_open b off = Some ix" "btree_rep h b ix m" using assms(1) by (auto simp: stored_index_def)
  obtain b1 ix1 where i: "btree_insert b ix key (length key) v = Some (SUCCESS, b1, ix1)" "btree_rep (Suc h) b1 ix1 (m(key \<mapsto> v))"
    "room b1 n" "ix_offset ix1 = ix_offset ix"
    using btree_rep_insert[OF ix(2) assms(4,3,2)] by blast
  obtain b2 ix2 where c: "btree_close b1 ix1 = Some b2" "btree_open b2 (ix_offset ix1) = Some ix2" "btree_rep (Suc h) b2 ix2 (m(key \<mapsto> v))"
    "\<forall>n. room b2 n = room b1 n"
    using btree_rep_reopen[OF i(2)] by blast
  have "stored_index (Suc h) b2 off (m(key \<mapsto> v))"
    using c(2,3) i(4) btree_open_offset[OF ix(1)] by (auto simp: stored_index_def)
  then show ?thesis using ix(1) i(1,3) c(1,4) by (simp add: index_add_def)
qed

lemma sorted_distinct: "bt_sorted kvs \<Longrightarrow> distinct (map fst kvs)"
  by (induction kvs) (force simp: bt_sorted_Cons bt_sorted_def)+

lemma map_of_sorted:
  assumes "bt_sorted kvs" shows "card (dom (map_of kvs)) = length kvs"
  using sorted_distinct[OF assms] by (simp add: dom_map_of_conv_image_fst card_image distinct_map distinct_card)

lemma btree_get_all_ok:
  assumes "btree_rep h b ix m" "card (dom m) \<le> 2 ^ 29"
  shows "\<exists>v kvs. btree_get_all b ix = Some v \<and> vector_list v = map (Ptr \<circ> entry) kvs \<and> unat (vc_size v) = card (dom m)
    \<and> distinct kvs \<and> (\<forall>k x. (k, x) \<in> set kvs \<longleftrightarrow> m k = Some x)"
proof -
  obtain t h' where t: "btree_wf t h' b ix" "m = map_of (bt_inorder t)" using assms(1) by (auto simp: btree_rep_def)
  have W: "store_ok b" "bt_repr (node_at b ix) t" "\<forall>x\<in>set (bt_offs t). inside b x" "bt_shape h' t" "bt_sorted (bt_inorder t)"
    "bt_root t = ix_root ix" "\<forall>kv\<in>set (bt_inorder t). length (fst kv) < BTREE_KEY_SIZE"
    using t(1) by (simp_all add: btree_wf_def)
  note pm = preorder_perm[OF W(4)]
  have p: "set (bt_preorder t) = set (bt_inorder t)" "length (bt_preorder t) = length (bt_inorder t)"
    using mset_eq_setD[OF pm] mset_eq_length[OF pm] by auto
  have n: "card (dom m) = length (bt_preorder t)" using map_of_sorted[OF W(5)] t(2) p(2) by simp
  let ?v = "alloc_vector (DEFAULT_RESULT_SIZE * 10) :: keyval vector"
  have "roomy ?v (length (bt_preorder t) + 0)"
    using alloc_vector_ok[of "DEFAULT_RESULT_SIZE * 10", where 'a = keyval] assms(2) n by (simp add: roomy_def alloc_vector_def)
  then obtain v where v: "traverse_nodes b ix (bt_root t # []) ?v = traverse_nodes b ix [] v" "roomy v 0"
    "vector_list v = vector_list ?v @ map (Ptr \<circ> entry) (bt_preorder t)"
    using traverse_ok[OF W(1-4), of ?v 0 "[]"] W(7) p(1) by auto
  have "vector_list ?v = []" using alloc_vector_ok[of "DEFAULT_RESULT_SIZE * 10", where 'a = keyval] by simp
  then have vl: "vector_list v = map (Ptr \<circ> entry) (bt_preorder t)" using v(3) by simp
  have "vector_ok v" using v(2) by (simp add: roomy_def)
  then have "length (vector_list v) = unat (vc_size v)" by (simp add: vector_list_def vector_ok_def word_le_nat_alt)
  then have size: "unat (vc_size v) = card (dom m)" using vl n by simp
  have d: "distinct (map fst (bt_inorder t))" by (rule sorted_distinct[OF W(5)])
  then have "distinct (bt_preorder t)" using mset_eq_imp_distinct_iff[OF pm] by (simp add: distinct_map)
  moreover have "(k, x) \<in> set (bt_preorder t) \<longleftrightarrow> m k = Some x" for k x using d p(1) t(2) by simp
  moreover have "btree_get_all b ix = Some v"
    using v(1) W(6) by (simp add: btree_get_all_def traverse_nodes.simps)
  ultimately show ?thesis using vl size by blast
qed

section \<open>Properties\<close>

text \<open>
  C18: \<open>index_add\<close> refines the update of the map that the index stands for: a value that is not indexed yet and has less than 64
  characters is added to the tree on the disk, given room in the page for the nodes it may take, and a
  look-up in the index opened afterwards finds its offset.
\<close>

theorem index_add_correct:
  assumes "stored_index h b off m" "m key = None" "length key < BTREE_KEY_SIZE" "room b (Suc h + n)"
  shows "\<exists>b' ix r. index_add b off key v = Some (0, b') \<and> stored_index (Suc h) b' off (m(key \<mapsto> v)) \<and> room b' n
    \<and> btree_open b' off = Some ix \<and> btree_get b' ix key (alloc_vector DEFAULT_RESULT_SIZE) = Some (SUCCESS, r)
    \<and> vector_list r = [Ptr v]"
proof -
  obtain b' where b': "index_add b off key v = Some (0, b')" "stored_index (Suc h) b' off (m(key \<mapsto> v))" "room b' n"
    using index_add_ok[OF assms] by blast
  then obtain ix where ix: "btree_open b' off = Some ix" "btree_rep (Suc h) b' ix (m(key \<mapsto> v))" by (auto simp: stored_index_def)
  obtain r where "btree_get b' ix key (alloc_vector DEFAULT_RESULT_SIZE) = Some (SUCCESS, r)" "vector_list r = [Ptr v]"
    using btree_rep_get[OF ix(2), of key] by auto
  then show ?thesis using b' ix(1) by blast
qed

lemma demo_stored:
  "\<exists>b0 ix b. btree_create (demo 17 (\<lambda>_. None)) = Some (17, b0, ix) \<and> btree_close b0 ix = Some b
    \<and> stored_index 0 b 17 Map.empty \<and> room b 5"
proof -
  have "store_ok (demo 17 (\<lambda>_. None))" "room (demo 17 (\<lambda>_. None)) (Suc 5)" "pager_offset (demo 17 (\<lambda>_. None)) = 17"
    by (simp_all add: demo_ok room_def demo_mark) (simp add: demo_def)
  then obtain b0 where b0: "btree_create (demo 17 (\<lambda>_. None)) = Some (17, b0, new_btree 17)" "btree_rep 0 b0 (new_btree 17) Map.empty" "room b0 5"
    using btree_create_ok[of "demo 17 (\<lambda>_. None)" 5] by auto
  then show ?thesis
    using btree_rep_reopen[OF b0(2)] by (auto simp: stored_index_def new_btree_def)
qed

theorem index_add_correct_witness:
  "\<exists>b0 ix b b'. btree_create (demo 17 (\<lambda>_. None)) = Some (17, b0, ix) \<and> btree_close b0 ix = Some b
    \<and> index_add b 17 ''key'' 7 = Some (0, b') \<and> stored_index 1 b' 17 [''key'' \<mapsto> 7]"
proof -
  obtain b0 ix b where b: "btree_create (demo 17 (\<lambda>_. None)) = Some (17, b0, ix)" "btree_close b0 ix = Some b"
    "stored_index 0 b 17 Map.empty" "room b 5"
    using demo_stored by blast
  show ?thesis using index_add_correct[OF b(3), of "''key''" 4 7] b(1,2,4) by auto
qed

text \<open>
  \<open>btree_get_all\<close> lists every key of an index once, with its value, whatever the shape of the tree, and \<open>index_btree_count\<close>
  is the number of keys.
\<close>

theorem index_count_correct:
  assumes "stored_index h b off m" "card (dom m) \<le> 2 ^ 29"
  shows "\<exists>ix v kvs. btree_open b off = Some ix \<and> btree_get_all b ix = Some v
    \<and> vector_list v = map (\<lambda>(k, x). Ptr \<lparr>kv_key = k, kv_key_len = length k, kv_value = x\<rparr>) kvs
    \<and> distinct kvs \<and> (\<forall>k x. (k, x) \<in> set kvs \<longleftrightarrow> m k = Some x) \<and> index_btree_count b off = Some (card (dom m))"
proof -
  obtain ix where ix: "btree_open b off = Some ix" "btree_rep h b ix m" using assms(1) by (auto simp: stored_index_def)
  obtain v kvs where v: "btree_get_all b ix = Some v" "vector_list v = map (Ptr \<circ> entry) kvs" "unat (vc_size v) = card (dom m)"
    "distinct kvs" "\<forall>k x. (k, x) \<in> set kvs \<longleftrightarrow> m k = Some x"
    using btree_get_all_ok[OF ix(2) assms(2)] by blast
  have "Ptr \<circ> entry = (\<lambda>(k, x). Ptr \<lparr>kv_key = k, kv_key_len = length k, kv_value = x\<rparr>)" by (auto simp: fun_eq_iff)
  then show ?thesis using ix(1) v by (intro exI[of _ ix] exI[of _ v] exI[of _ kvs]) (simp add: index_btree_count_def)
qed

theorem index_count_correct_witness:
  "\<exists>b0 ix b b'. btree_create (demo 17 (\<lambda>_. None)) = Some (17, b0, ix) \<and> btree_close b0 ix = Some b
    \<and> index_add b 17 ''key'' 7 = Some (0, b') \<and> index_btree_count b' 17 = Some 1"
proof -
  obtain b0 ix b where b: "btree_create (demo 17 (\<lambda>_. None)) = Some (17, b0, ix)" "btree_close b0 ix = Some b"
    "stored_index 0 b 17 Map.empty" "room b 5"
    using demo_stored by blast
  obtain b' where b': "index_add b 17 ''key'' 7 = Some (0, b')" "stored_index (Suc 0) b' 17 [''key'' \<mapsto> 7]"
    using index_add_ok[OF b(3), of "''key''" 4 7] b(4) by auto
  show ?thesis using index_count_correct[OF b'(2)] b(1,2) b'(1) by auto
qed

end
