(* ===== verification/Database.thy ===== *)
theory Database imports
  Index History Jenhash
begin

text \<open>
  The operations on records, groups, aliases and indexes that src/core.c offers to its clients.  The static \<open>control\<close> of the
  code is the argument \<open>b\<close>, the static \<open>ready\<close> the argument \<open>ready\<close>; \<open>n\<close> is the fuel of the engine's recursion and of
  the descent into child records.  A text result is \<open>None\<close> for a null pointer; a string or number that is stored
  through a pointer of the caller is \<open>None\<close> when nothing is stored.  \<open>None\<close> of the whole
  operation is undefined behaviour (a key whose text does not parse among it), an endless loop or missing fuel.
\<close>

section \<open>Shared steps\<close>

abbreviation (input) no_data :: "base \<Rightarrow> base" where
  "no_data \<equiv> error_throw ''2f05699f70fa'' ''Key does not contain data''"

abbreviation (input) internal_record :: "base \<Rightarrow> base" where
  "internal_record \<equiv> error_throw ''0fb1dd21b0fd'' ''Internal records cannot be altered''"

abbreviation (input) wrong_type :: "base \<Rightarrow> base" where
  "wrong_type \<equiv> error_throw ''1e933eea602c'' ''Invalid record type''"

abbreviation (input) no_separation :: "base \<Rightarrow> base" where
  "no_separation \<equiv> error_throw ''6b4f4d9c00fc'' ''Cannot separate structures''"

abbreviation (input) too_few :: "base \<Rightarrow> base" where
  "too_few \<equiv> error_throw ''3d2a88a4502b'' ''Too few items for index''"

abbreviation (input) INDEX_BTREE :: u8 where "INDEX_BTREE \<equiv> 0"

text \<open>An \<open>unsigned long long\<close> stored into an \<open>int\<close>.\<close>

definition int_of_items :: "nat \<Rightarrow> int" where
  "int_of_items k = sint (of_nat k :: 32 word)"

definition is_group :: "slay_result \<Rightarrow> bool" where
  "is_group rs \<longleftrightarrow> rs_schema rs = SCHEMA_TABLE \<or> rs_schema rs = SCHEMA_SET"

text \<open>\<open>marshall_convert\<close> and \<open>marshall_merge\<close> with the errors they throw.\<close>

definition throw_if :: "bool \<Rightarrow> string \<Rightarrow> string \<Rightarrow> base \<Rightarrow> base" where
  "throw_if bad ecode msg b = (if bad then error_throw ecode msg b else b)"

definition convert :: "base \<Rightarrow> string \<Rightarrow> nat \<Rightarrow> (marshall option \<times> base) option" where
  "convert b data data_len = do {
     (m, bad) \<leftarrow> marshall_convert data data_len;
     Some (m, throw_if bad ''70bef771b0a3'' ''Invalid datatype'' b) }"

definition convert_suggest :: "base \<Rightarrow> string \<Rightarrow> string option \<Rightarrow> string option \<Rightarrow> (marshall option \<times> base) option" where
  "convert_suggest b data hint hint_option =
     (case hint of
        None \<Rightarrow> Some (None, b)
      | Some hint \<Rightarrow> do {
          (option, b) \<leftarrow> (case hint_option of None \<Rightarrow> Some (None, b) | Some opt \<Rightarrow> convert b opt (length opt));
          (m, bad) \<leftarrow> marshall_convert_suggest data hint option;
          Some (m, throw_if bad ''70bef771b0a3'' ''Invalid datatype'' b) })"

text \<open>The merged tree (none when the trees cannot be merged), and what became of the old one.\<close>

definition merge :: "base \<Rightarrow> marshall \<Rightarrow> marshall \<Rightarrow> (marshall option \<times> marshall \<times> base) option" where
  "merge b newobj m = do {
     (merged, m) \<leftarrow> marshall_merge newobj m;
     Some (if merged then Some m else None, m, throw_if (\<not> merged) ''04904b8810ed'' ''Cannot merge structures'' b) }"

definition serialize_ptr :: "marshall option \<Rightarrow> string option" where
  "serialize_ptr m = (case m of None \<Rightarrow> Some ''null'' | Some m \<Rightarrow> marshall_serialize m)"

text \<open>The data block at an offset and the tree it stands for.\<close>

definition read_object :: "nat \<Rightarrow> base \<Rightarrow> u64 \<Rightarrow> bool \<Rightarrow> ((string \<times> marshall) option \<times> base) option" where
  "read_object n b offset descent = do {
     (data, b) \<leftarrow> get_data_block b offset;
     (case data of
        None \<Rightarrow> Some (None, b)
      | Some data \<Rightarrow> do {
          (m, b) \<leftarrow> slay_get n b data descent;
          Some (map_option (Pair data) m, b) }) }"

definition read_index :: "nat \<Rightarrow> base \<Rightarrow> quid \<Rightarrow> bool \<Rightarrow> (marshall \<times> base) option" where
  "read_index n b key descent = do {
     (index_offset, b) \<leftarrow> index_list_get_index_offset b key;
     index_btree_all n b index_offset descent }"

text \<open>The tree of a record, a group or an index.\<close>

definition read_any :: "nat \<Rightarrow> base \<Rightarrow> quid \<Rightarrow> u64 \<Rightarrow> metadata \<Rightarrow> bool \<Rightarrow> (marshall option \<times> base) option" where
  "read_any n b key offset meta descent =
     (if m_type meta = MD_TYPE_RECORD \<or> m_type meta = MD_TYPE_GROUP then do {
        (obj, b) \<leftarrow> read_object n b offset descent;
        Some (map_option snd obj, b) }
      else if m_type meta = MD_TYPE_INDEX then do {
        (m, b) \<leftarrow> read_index n b key descent;
        Some (Some m, b) }
      else Some (None, no_data b))"

text \<open>The keys of the rows of a group that was read without descending.\<close>

fun row_keys :: "nat \<Rightarrow> marshall option list \<Rightarrow> quid list option" where
  "row_keys 0 cs = Some []"
| "row_keys (Suc k) (Some c # cs) = do {
     data \<leftarrow> m_data c;
     key \<leftarrow> parse_quid data;
     keys \<leftarrow> row_keys k cs;
     Some (key # keys) }"
| "row_keys (Suc k) _ = None"

text \<open>What is done with each of the rows; errors are dropped.\<close>

fun each_row :: "(base \<Rightarrow> quid \<Rightarrow> base option) \<Rightarrow> quid list \<Rightarrow> base \<Rightarrow> base option" where
  "each_row f [] b = Some b"
| "each_row f (key # keys) b = do { b \<leftarrow> f b key; each_row f keys (error_clear b) }"

definition descend :: "nat \<Rightarrow> base \<Rightarrow> u64 \<Rightarrow> (base \<Rightarrow> quid \<Rightarrow> base option) \<Rightarrow> (bool \<times> base) option" where
  "descend n b offset f = do {
     (obj, b) \<leftarrow> read_object n b offset False;
     (case obj of
        None \<Rightarrow> Some (False, b)
      | Some (_, m) \<Rightarrow> do {
          keys \<leftarrow> row_keys (m_size m) (m_child m);
          b \<leftarrow> each_row f keys b;
          Some (True, b) }) }"

text \<open>The indexes on a group, removed one by one until none is found.\<close>

partial_function (option) drop_indexes :: "base \<Rightarrow> quid \<Rightarrow> base option" where
  "drop_indexes b key = do {
     (index, b) \<leftarrow> index_list_get_index b key;
     (case index of
        None \<Rightarrow> Some b
      | Some index \<Rightarrow> do {
          (_, b) \<leftarrow> alias_delete b index;
          (_, b) \<leftarrow> index_list_delete b index;
          drop_indexes b key }) }"

text \<open>A key becomes a group: it gets its own text as alias, and the type of a group.\<close>

definition set_group :: "base \<Rightarrow> quid \<Rightarrow> metadata \<Rightarrow> (int \<times> base) option" where
  "set_group b key meta = do {
     (r, b) \<leftarrow> engine_setmeta b key (meta\<lparr>m_type := MD_TYPE_GROUP, m_alias := True\<rparr>);
     Some (if r < 0 then - 1 else 0, b) }"

section \<open>Storing and reading\<close>

definition db_put :: "nat \<Rightarrow> bool \<Rightarrow> base \<Rightarrow> string \<Rightarrow> nat \<Rightarrow> string option \<Rightarrow> string option
    \<Rightarrow> ((int \<times> string option \<times> int option) \<times> base) option" where
  "db_put n ready b data data_len hint hint_option = do {
     (key, b) \<leftarrow> quid_create b;
     if \<not> ready then Some ((- 1, None, None), b)
     else do {
       (dataobj, b) \<leftarrow> convert_suggest b data hint hint_option;
       (dataobj, b) \<leftarrow> (case dataobj of None \<Rightarrow> convert b data data_len | Some m \<Rightarrow> Some (Some m, b));
       (case dataobj of
          None \<Rightarrow> Some ((- 1, None, None), b)
        | Some dataobj \<Rightarrow> do {
            (dataslay, nrs, b) \<leftarrow> slay_put n b dataobj;
            let items = Some (int_of_items (rs_items nrs));
            (r, b) \<leftarrow> engine_insert_data n b key (Some dataslay);
            if r < 0 then Some ((- 1, None, items), b)
            else do {
              let quid = quidtostr key;
              if is_group nrs then do {
                (_, b) \<leftarrow> alias_add b key quid QUID_LENGTH;
                ((_, meta), b) \<leftarrow> engine_get b key;
                if m_type meta \<noteq> MD_TYPE_RECORD then Some ((- 1, Some quid, items), wrong_type b)
                else do {
                  (r, b) \<leftarrow> set_group b key meta;
                  Some ((r, Some quid, items), b) } }
              else Some ((0, Some quid, items), b) } }) } }"

definition db_get :: "nat \<Rightarrow> bool \<Rightarrow> base \<Rightarrow> string \<Rightarrow> bool \<Rightarrow> bool \<Rightarrow> (string option \<times> base) option" where
  "db_get n ready b quid descent force =
     (if \<not> ready then Some (None, b)
      else do {
        key \<leftarrow> parse_quid quid;
        ((offset, meta), b) \<leftarrow> (if force then engine_get_force b key else engine_get b key);
        (dataobj, b) \<leftarrow> read_any n b key offset meta descent;
        (case dataobj of
           None \<Rightarrow> Some (None, b)
         | Some m \<Rightarrow> do { buf \<leftarrow> marshall_serialize m; Some (Some buf, b) }) })"

text \<open>The data block of a key that has one.\<close>

definition key_data :: "base \<Rightarrow> string \<Rightarrow> (string option \<times> base) option" where
  "key_data b quid = do {
     key \<leftarrow> parse_quid quid;
     ((offset, meta), b) \<leftarrow> engine_get b key;
     if \<not> engine_keytype_hasdata (m_type meta) then Some (None, no_data b)
     else get_data_block b offset }"

definition db_get_type :: "bool \<Rightarrow> base \<Rightarrow> string \<Rightarrow> (string option \<times> base) option" where
  "db_get_type ready b quid =
     (if \<not> ready then Some (None, b)
      else do {
        (data, b) \<leftarrow> key_data b quid;
        (case data of
           None \<Rightarrow> Some (None, b)
         | Some data \<Rightarrow> do { type \<leftarrow> slay_get_type data; Some (Some (marshall_get_strtype type), b) }) })"

definition db_get_schema :: "bool \<Rightarrow> base \<Rightarrow> string \<Rightarrow> (string option \<times> base) option" where
  "db_get_schema ready b quid =
     (if \<not> ready then Some (None, b)
      else do {
        (data, b) \<leftarrow> key_data b quid;
        (case data of
           None \<Rightarrow> Some (None, b)
         | Some data \<Rightarrow> do { buf \<leftarrow> slay_get_strschema data; Some (Some buf, b) }) })"

section \<open>Versions\<close>

text \<open>\<open>history_all\<close> of src/history.c: the version numbers of a key.\<close>

fun version_rows :: "history_item list \<Rightarrow> marshall \<Rightarrow> marshall option" where
  "version_rows [] m = Some m"
| "version_rows (it # its) m = do {
     let version_index = itoa (uint (h_version it));
     m \<leftarrow> push_child m (Some (Marshall None 0 (Some version_index) (length version_index) [] 0 MTYPE_INT));
     version_rows its m }"

partial_function (option) history_all_loop :: "base \<Rightarrow> quid \<Rightarrow> u64 \<Rightarrow> marshall \<Rightarrow> marshall option" where
  "history_all_loop b q off m =
     (if off = 0 then Some m
      else do {
        l \<leftarrow> get_history_list b off;
        zassert (unat (h_size l) \<le> HISTORY_LIST_SIZE);
        m \<leftarrow> version_rows (filter (is_entry q) (h_used l)) m;
        history_all_loop b q (h_link l) m })"

definition history_all :: "base \<Rightarrow> quid \<Rightarrow> marshall option option" where
  "history_all b q = do {
     count \<leftarrow> history_count b q;
     if count = 0 then Some None
     else do {
       m \<leftarrow> history_all_loop b q (off_history b) (new_node count MTYPE_ARRAY);
       Some (Some m) } }"

definition db_get_history :: "bool \<Rightarrow> base \<Rightarrow> string \<Rightarrow> (string option \<times> base) option" where
  "db_get_history ready b quid =
     (if \<not> ready then Some (None, b)
      else do {
        key \<leftarrow> parse_quid quid;
        m \<leftarrow> history_all b key;
        buf \<leftarrow> serialize_ptr m;
        Some (Some buf, b) })"

text \<open>\<open>atoi\<close> of digits; a number that an \<open>int\<close> cannot hold is undefined.\<close>

definition atoi :: "string \<Rightarrow> nat option" where
  "atoi s = (let v = foldl digit_val 0 s in if v < 2 ^ 31 then Some v else None)"

definition db_get_version :: "nat \<Rightarrow> bool \<Rightarrow> base \<Rightarrow> string \<Rightarrow> string \<Rightarrow> (string option \<times> base) option" where
  "db_get_version n ready b quid element =
     (if \<not> ready then Some (None, b)
      else if \<not> strisdigit element \<or> char_at element 0 = CHR ''-''
      then Some (None, error_throw ''888d28dff048'' ''Operation expects an positive index given'' b)
      else do {
        key \<leftarrow> parse_quid quid;
        version \<leftarrow> atoi element;
        (offset, b) \<leftarrow> history_get_version_offset b key (of_nat version);
        if iserror b then Some (None, b)
        else do {
          (data, b) \<leftarrow> get_data_block b offset;
          (case data of
             None \<Rightarrow> Some (None, b)
           | Some data \<Rightarrow> do {
               (m, b) \<leftarrow> slay_get n b data True;
               buf \<leftarrow> serialize_ptr m;
               Some (Some buf, b) }) } })"

section \<open>Replacing, copying\<close>

definition drop_child :: "base \<Rightarrow> quid \<Rightarrow> base option" where
  "drop_child b key = do {
     ((_, meta), b) \<leftarrow> engine_get b key;
     (_, b) \<leftarrow> (if m_alias meta then alias_delete b key else Some (0, b));
     (_, b) \<leftarrow> engine_delete b key;
     Some b }"

text \<open>What \<open>db_update\<close> does once the key is known to be a record or a group: the old data becomes a version.\<close>

definition replace_data :: "nat \<Rightarrow> base \<Rightarrow> quid \<Rightarrow> u64 \<Rightarrow> metadata \<Rightarrow> marshall \<Rightarrow> ((int \<times> int option) \<times> base) option" where
  "replace_data n b key offset meta dataobj = do {
     (_, b) \<leftarrow> history_add b key offset;
     (dataslay, nrs, b) \<leftarrow> slay_put n b dataobj;
     let items = Some (int_of_items (rs_items nrs));
     (r, b) \<leftarrow> engine_update_data b key (Some dataslay);
     if r < 0 then Some ((- 1, items), b)
     else if is_group nrs then
       (if m_type meta \<noteq> MD_TYPE_GROUP then do {
          (_, b) \<leftarrow> alias_add b key (quidtostr key) QUID_LENGTH;
          (r, b) \<leftarrow> set_group b key meta;
          Some ((r, items), b) }
        else Some ((0, items), b))
     else do {
       (_, b) \<leftarrow> (if m_type meta = MD_TYPE_GROUP then alias_delete b key else Some (0, b));
       Some ((0, items), b) } }"

definition db_update :: "nat \<Rightarrow> bool \<Rightarrow> base \<Rightarrow> string \<Rightarrow> bool \<Rightarrow> string \<Rightarrow> nat \<Rightarrow> ((int \<times> int option) \<times> base) option" where
  "db_update n ready b quid descent data data_len =
     (if \<not> ready then Some ((- 1, None), b)
      else do {
        key \<leftarrow> parse_quid quid;
        (dataobj, b) \<leftarrow> convert b data data_len;
        (case dataobj of
           None \<Rightarrow> Some ((- 1, None), b)
         | Some dataobj \<Rightarrow> do {
             ((offset, meta), b) \<leftarrow> engine_get b key;
             if m_type meta \<noteq> MD_TYPE_GROUP \<and> m_type meta \<noteq> MD_TYPE_RECORD
             then Some ((- 1, None), internal_record b)
             else do {
               (_, b) \<leftarrow> (if m_type meta = MD_TYPE_GROUP \<and> descent then descend n b offset drop_child else Some (True, b));
               if iserror b then Some ((- 1, None), b)
               else replace_data n b key offset meta dataobj } }) })"

text \<open>An index of the copy for the element of an index of the original; the group is read again for each.\<close>

definition copy_index :: "nat \<Rightarrow> base \<Rightarrow> string \<Rightarrow> schema \<Rightarrow> quid \<Rightarrow> string \<Rightarrow> base option" where
  "copy_index n b descentdata schema nkey element = do {
     (index, b) \<leftarrow> quid_create b;
     let index_quid = quidtostr index;
     let inrs = zero_index_result\<lparr>ir_index := index\<rparr>;
     (obj, b) \<leftarrow> slay_get n b descentdata False;
     (case obj of
        None \<Rightarrow> Some b
      | Some obj \<Rightarrow> do {
          (_, b, inrs) \<leftarrow>
            (if schema = SCHEMA_TABLE then index_btree_create_table n b element obj inrs
             else index_btree_create_set n b element obj inrs);
          (_, b) \<leftarrow> engine_insert_meta n b index (zero_meta\<lparr>m_nodata := True, m_type := MD_TYPE_INDEX, m_alias := True\<rparr>);
          (_, b) \<leftarrow> alias_add b index index_quid QUID_LENGTH;
          (_, b) \<leftarrow> index_list_add b index nkey element INDEX_BTREE (ir_offset inrs);
          Some b }) }"

fun copy_indexes :: "nat \<Rightarrow> string \<Rightarrow> schema \<Rightarrow> quid \<Rightarrow> nat \<Rightarrow> marshall option list \<Rightarrow> base \<Rightarrow> base option" where
  "copy_indexes n descentdata schema nkey 0 cs b = Some b"
| "copy_indexes n descentdata schema nkey (Suc k) (Some c # cs) b = do {
     element \<leftarrow> m_data c;
     b \<leftarrow> copy_index n b descentdata schema nkey element;
     copy_indexes n descentdata schema nkey k cs b }"
| "copy_indexes n descentdata schema nkey (Suc k) _ b = None"

definition db_duplicate :: "nat \<Rightarrow> bool \<Rightarrow> base \<Rightarrow> string \<Rightarrow> bool \<Rightarrow> ((int \<times> string option \<times> int option) \<times> base) option" where
  "db_duplicate n ready b quid copy_meta =
     (if \<not> ready then Some ((- 1, None, None), b)
      else do {
        key \<leftarrow> parse_quid quid;
        ((offset, meta), b) \<leftarrow> engine_get b key;
        if m_type meta \<noteq> MD_TYPE_RECORD \<and> m_type meta \<noteq> MD_TYPE_GROUP
        then Some ((- 1, None, None), internal_record b)
        else do {
          (obj, b) \<leftarrow> read_object n b offset True;
          (case obj of
             None \<Rightarrow> Some ((0, None, None), b)
           | Some (descentdata, descentobj) \<Rightarrow> do {
               (nkey, b) \<leftarrow> quid_create b;
               (dataslay, nrs, b) \<leftarrow> slay_put n b descentobj;
               let items = Some (int_of_items (rs_items nrs));
               (r, b) \<leftarrow> engine_insert_data n b nkey (Some dataslay);
               if r < 0 then Some ((- 1, None, items), b)
               else do {
                 let meta = (if copy_meta then meta else zero_meta\<lparr>m_importance := MD_IMPORTANT_NORMAL\<rparr>);
                 let nquid = quidtostr nkey;
                 (meta, b) \<leftarrow>
                   (if is_group nrs then do {
                      b \<leftarrow> (if copy_meta then do {
                          (elements, b) \<leftarrow> index_list_get_element b key;
                          (case elements of
                             None \<Rightarrow> Some b
                           | Some m \<Rightarrow> do {
                               b \<leftarrow> copy_indexes n descentdata (rs_schema nrs) nkey (m_size m) (m_child m) b;
                               Some (error_clear b) }) }
                        else Some b);
                      (_, b) \<leftarrow> alias_add b nkey nquid QUID_LENGTH;
                      Some (meta\<lparr>m_type := MD_TYPE_GROUP, m_alias := True\<rparr>, b) }
                    else Some (meta, b));
                 (r, b) \<leftarrow> engine_setmeta b nkey meta;
                 Some ((if r < 0 then - 1 else 0, Some nquid, items), b) } }) } })"

section \<open>Counting and deleting\<close>

definition db_count_group :: "nat \<Rightarrow> bool \<Rightarrow> base \<Rightarrow> string \<Rightarrow> (int \<times> base) option" where
  "db_count_group n ready b quid =
     (if \<not> ready then Some (- 1, b)
      else do {
        key \<leftarrow> parse_quid quid;
        ((offset, meta), b) \<leftarrow> engine_get b key;
        if m_type meta = MD_TYPE_RECORD then Some (- 1, no_data b)
        else do {
          (dataobj, b) \<leftarrow> read_any n b key offset meta False;
          Some (case dataobj of None \<Rightarrow> - 1 | Some m \<Rightarrow> int_of_items (marshall_count m), b) } })"

text \<open>\<open>db_delete\<close> and \<open>db_purge\<close> are the same up to the look-up and the removal of a key.\<close>

definition remove_key :: "nat \<Rightarrow> (base \<Rightarrow> quid \<Rightarrow> ((u64 \<times> metadata) \<times> base) option) \<Rightarrow> (base \<Rightarrow> quid \<Rightarrow> (int \<times> base) option)
    \<Rightarrow> base \<Rightarrow> string \<Rightarrow> bool \<Rightarrow> (int \<times> base) option" where
  "remove_key n look_up remove b quid descent = do {
     key \<leftarrow> parse_quid quid;
     ((offset, meta), b) \<leftarrow> look_up b key;
     b \<leftarrow>
       (if m_type meta = MD_TYPE_GROUP then do {
          (go_on, b) \<leftarrow> (if descent then descend n b offset (\<lambda>b key. map_option snd (remove b key)) else Some (True, b));
          if go_on then do { b \<leftarrow> drop_indexes b key; Some (error_clear b) } else Some b }
        else if m_type meta = MD_TYPE_INDEX then do { (_, b) \<leftarrow> index_list_delete b key; Some b }
        else Some b);
     (_, b) \<leftarrow> (if m_alias meta then alias_delete b key else Some (0, b));
     (r, b) \<leftarrow> remove b key;
     Some (if r < 0 then - 1 else 0, b) }"

definition db_delete :: "nat \<Rightarrow> bool \<Rightarrow> base \<Rightarrow> string \<Rightarrow> bool \<Rightarrow> (int \<times> base) option" where
  "db_delete n ready b quid descent =
     (if \<not> ready then Some (- 1, b) else remove_key n engine_get engine_delete b quid descent)"

definition db_purge :: "nat \<Rightarrow> bool \<Rightarrow> base \<Rightarrow> string \<Rightarrow> bool \<Rightarrow> (int \<times> base) option" where
  "db_purge n ready b quid descent =
     (if \<not> ready then Some (- 1, b) else remove_key n engine_get_force (engine_purge n) b quid descent)"

end
