(* ===== verification/Database_Items.thy ===== *)
theory Database_Items imports
  Database
begin

text \<open>
  The rest of the operations of src/core.c on stored data: selecting, adding and removing items of a group or an array,
  meta data, aliases and indexes.
\<close>

section \<open>Selecting\<close>

text \<open>A field of the first index of a listing: its key (0) or its element (1).\<close>

definition first_index :: "marshall \<Rightarrow> nat \<Rightarrow> string option" where
  "first_index indexes k = do {
     row \<leftarrow> child_at indexes 0;
     c \<leftarrow> child_at row k;
     m_data c }"

definition index_offset_of :: "base \<Rightarrow> marshall \<Rightarrow> (u64 \<times> base) option" where
  "index_offset_of b indexes = do {
     quid \<leftarrow> first_index indexes 0;
     index_key \<leftarrow> parse_quid quid;
     index_list_get_index_offset b index_key }"

text \<open>The first member of a condition: its name and its value.\<close>

definition condition_name :: "marshall \<Rightarrow> string option" where
  "condition_name cond = do { c \<leftarrow> child_at cond 0; m_name c }"

definition condition_value :: "marshall \<Rightarrow> string option" where
  "condition_value cond = do { c \<leftarrow> child_at cond 0; m_data c }"

definition condition_rows :: "nat \<Rightarrow> base \<Rightarrow> marshall \<Rightarrow> marshall \<Rightarrow> (marshall option \<times> base) option" where
  "condition_rows n b indexes cond = do {
     (index_offset, b) \<leftarrow> index_offset_of b indexes;
     val \<leftarrow> condition_value cond;
     index_get n b index_offset val }"

fun count_indexed :: "string \<Rightarrow> marshall list \<Rightarrow> nat option" where
  "count_indexed element [] = Some 0"
| "count_indexed element (cond # conds) = do {
     name \<leftarrow> condition_name cond;
     k \<leftarrow> count_indexed element conds;
     Some (if name = element then k + 1 else k) }"

fun gather :: "nat \<Rightarrow> base \<Rightarrow> marshall \<Rightarrow> marshall list \<Rightarrow> (marshall option list \<times> base) option" where
  "gather n b indexes [] = Some ([], b)"
| "gather n b indexes (cond # conds) = do {
     (rs, b) \<leftarrow> condition_rows n b indexes cond;
     (rss, b) \<leftarrow> gather n b indexes conds;
     Some (rs # rss, b) }"

fun append_results :: "base \<Rightarrow> marshall option list \<Rightarrow> marshall \<Rightarrow> (marshall \<times> base) option" where
  "append_results b [] x = Some (x, b)"
| "append_results b (None # rss) x = append_results b rss x"
| "append_results b (Some rs # rss) x = do {
     (merged, _, b) \<leftarrow> merge b rs x;
     x \<leftarrow> merged;
     append_results b rss x }"

definition item_count :: "marshall option list \<Rightarrow> nat" where
  "item_count rss = (\<Sum>rs\<leftarrow>rss. case rs of None \<Rightarrow> 0 | Some rs \<Rightarrow> m_size rs)"

text \<open>
  The rows that an index finds for the conditions: \<open>Some None\<close> in the first component when the index does not serve them.
\<close>

definition where_index :: "nat \<Rightarrow> base \<Rightarrow> marshall \<Rightarrow> marshall \<Rightarrow> (marshall option option \<times> base) option" where
  "where_index n b indexes cond =
     (if m_mtype cond = MTYPE_OBJECT then do {
        name \<leftarrow> condition_name cond;
        element \<leftarrow> first_index indexes 1;
        if name = element then do {
          (rows, b) \<leftarrow> condition_rows n b indexes cond;
          Some (Some rows, b) }
        else Some (None, b) }
      else if m_mtype cond = MTYPE_ARRAY then do {
        conds \<leftarrow> children cond;
        index_found \<leftarrow> (if conds = [] then Some 0 else do { element \<leftarrow> first_index indexes 1; count_indexed element conds });
        if m_size cond = index_found then do {
          (rss, b) \<leftarrow> gather n b indexes conds;
          (x, b) \<leftarrow> append_results b rss (new_node (item_count rss) MTYPE_ARRAY);
          whereobj \<leftarrow> marshall_copy x;
          Some (Some (Some whereobj), b) }
        else Some (None, b) }
      else Some (None, b))"

definition where_rows :: "nat \<Rightarrow> base \<Rightarrow> quid \<Rightarrow> marshall \<Rightarrow> marshall \<Rightarrow> (marshall option \<times> base) option" where
  "where_rows n b key cond dataobj = do {
     (indexes, b) \<leftarrow> index_list_on_group b key;
     (found, b) \<leftarrow> (case indexes of None \<Rightarrow> Some (None, b) | Some indexes \<Rightarrow> where_index n b indexes cond);
     (case found of
        Some rows \<Rightarrow> Some (rows, b)
      | None \<Rightarrow> do { m \<leftarrow> marshall_condition cond dataobj; Some (m, b) }) }"

text \<open>The selector applies to the rows found, or to the whole data if there is no tree of rows.\<close>

definition db_select :: "nat \<Rightarrow> bool \<Rightarrow> base \<Rightarrow> string \<Rightarrow> string option \<Rightarrow> string option \<Rightarrow> (string option \<times> base) option" where
  "db_select n ready b quid select_element where_element =
     (if \<not> ready then Some (None, b)
      else do {
        key \<leftarrow> parse_quid quid;
        ((offset, meta), b) \<leftarrow> engine_get b key;
        (dataobj, b) \<leftarrow> read_any n b key offset meta True;
        (case dataobj of
           None \<Rightarrow> Some (None, b)
         | Some dataobj \<Rightarrow> do {
             (cond, b) \<leftarrow> (case where_element of None \<Rightarrow> Some (None, b) | Some w \<Rightarrow> convert b w (length w));
             if where_element \<noteq> None \<and> cond = None then Some (None, b)
             else do {
               (whereobj, b) \<leftarrow> (case cond of None \<Rightarrow> Some (None, b) | Some cond \<Rightarrow> where_rows n b key cond dataobj);
               (sel, b) \<leftarrow> (case select_element of None \<Rightarrow> Some (None, b) | Some s \<Rightarrow> convert b s (length s));
               if select_element \<noteq> None \<and> sel = None then Some (None, b)
               else (case sel of
                   None \<Rightarrow> do { buf \<leftarrow> serialize_ptr whereobj; Some (Some buf, b) }
                 | Some sel \<Rightarrow>
                     if m_mtype sel \<noteq> MTYPE_ARRAY \<and> m_mtype sel \<noteq> MTYPE_STRING
                     then Some (None, error_throw ''14d882da30d9'' ''Operation expects an string or array given'' b)
                     else do {
                       selectobj \<leftarrow> marshall_filter sel (case whereobj of None \<Rightarrow> dataobj | Some w \<Rightarrow> w);
                       buf \<leftarrow> marshall_serialize selectobj;
                       Some (Some buf, b) }) } }) })"

section \<open>Adding items\<close>

text \<open>The members of a new row that the first index on the group is about go into that index.\<close>

fun index_new_row :: "marshall \<Rightarrow> quid \<Rightarrow> nat \<Rightarrow> marshall option list \<Rightarrow> base \<Rightarrow> base option" where
  "index_new_row indexes newkey 0 cs b = Some b"
| "index_new_row indexes newkey (Suc k) (Some c # cs) b = do {
     name \<leftarrow> m_name c;
     element \<leftarrow> first_index indexes 1;
     b \<leftarrow> (if name = element then do {
         ((newkey_offset, _), b) \<leftarrow> engine_get b newkey;
         (index_offset, b) \<leftarrow> index_offset_of b indexes;
         val \<leftarrow> m_data c;
         (_, b) \<leftarrow> index_add b index_offset val newkey_offset;
         Some b }
       else Some b);
     index_new_row indexes newkey k cs b }"
| "index_new_row indexes newkey (Suc k) _ b = None"

text \<open>The data of a new record under a new key; the tree that is merged into the group.\<close>

definition insert_item :: "nat \<Rightarrow> base \<Rightarrow> quid \<Rightarrow> marshall \<Rightarrow> (bool \<times> base) option" where
  "insert_item n b newkey m = do {
     (newslay, _, b) \<leftarrow> slay_put n b m;
     (r, b) \<leftarrow> engine_insert_data n b newkey (Some newslay);
     Some (\<not> r < 0, b) }"

definition key_object :: "string \<Rightarrow> nat \<Rightarrow> string \<Rightarrow> marshall option" where
  "key_object name name_len squid = do {
     nm \<leftarrow> tree_zstrndup name name_len;
     push_child (new_node 1 MTYPE_OBJECT) (Some (Marshall (Some nm) name_len (Some squid) QUID_LENGTH [] 0 MTYPE_QUID)) }"

definition add_table_row :: "nat \<Rightarrow> base \<Rightarrow> quid \<Rightarrow> quid \<Rightarrow> marshall \<Rightarrow> marshall \<Rightarrow> (marshall option option \<times> base) option" where
  "add_table_row n b key newkey mergeobj dataobj = do {
     (done, b) \<leftarrow> insert_item n b newkey mergeobj;
     if \<not> done then Some (None, b)
     else do {
       b \<leftarrow> (if m_mtype mergeobj = MTYPE_OBJECT then do {
           (indexes, b) \<leftarrow> index_list_on_group b key;
           (case indexes of
              None \<Rightarrow> Some b
            | Some indexes \<Rightarrow> index_new_row indexes newkey (m_size mergeobj) (m_child mergeobj) b) }
         else Some b);
       (keyobj, b) \<leftarrow> convert b (quidtostr newkey) QUID_LENGTH;
       (case keyobj of
          None \<Rightarrow> Some (None, b)
        | Some keyobj \<Rightarrow> do {
            (newobject, _, b) \<leftarrow> merge b keyobj dataobj;
            Some (Some newobject, b) }) } }"

text \<open>
  In a set the first child is the item, if it has a name; otherwise, and also when the named item could not be merged, the whole
  tree is, under its key as name.
\<close>

definition add_set_item :: "nat \<Rightarrow> base \<Rightarrow> quid \<Rightarrow> marshall \<Rightarrow> marshall \<Rightarrow> (marshall option option \<times> base) option" where
  "add_set_item n b newkey mergeobj dataobj = do {
     let squid = quidtostr newkey;
     c \<leftarrow> (if marshall_type_hasdescent (m_mtype mergeobj)
         then (case m_child mergeobj of [] \<Rightarrow> None | c # _ \<Rightarrow> Some c) else Some None);
     (named, newobject, mergeobj, dataobj, b) \<leftarrow>
       (case c of
          None \<Rightarrow> Some (True, None, mergeobj, dataobj, b)
        | Some c \<Rightarrow>
            if m_name_len c = 0 then Some (True, None, mergeobj, dataobj, b)
            else do {
              (done, b) \<leftarrow> insert_item n b newkey c;
              if \<not> done then Some (False, None, mergeobj, dataobj, b)
              else do {
                name \<leftarrow> m_name c;
                keyobj \<leftarrow> key_object name (m_name_len c) squid;
                (newobject, dataobj, b) \<leftarrow> merge b keyobj dataobj;
                Some (True, newobject, keyobj, dataobj, b) } });
     if \<not> named then Some (None, b)
     else (case newobject of
         Some m \<Rightarrow> Some (Some (Some m), b)
       | None \<Rightarrow> do {
           (done, b) \<leftarrow> insert_item n b newkey mergeobj;
           if \<not> done then Some (None, b)
           else do {
             keyobj \<leftarrow> key_object squid QUID_LENGTH squid;
             (newobject, _, b) \<leftarrow> merge b keyobj dataobj;
             Some (Some newobject, b) } }) }"

definition schema_of_code :: "nat \<Rightarrow> schema option" where
  "schema_of_code k = find (\<lambda>s. schema_code s = k) [SCHEMA_FIELD, SCHEMA_ARRAY, SCHEMA_OBJECT, SCHEMA_TABLE, SCHEMA_SET, SCHEMA_INDEX]"

text \<open>The tree is written back with a schema chosen by the caller instead of the one it would have.\<close>

definition write_back :: "nat \<Rightarrow> base \<Rightarrow> quid \<Rightarrow> schema \<Rightarrow> marshall \<Rightarrow> ((int \<times> int) \<times> base) option" where
  "write_back n b key schema m = do {
     (dataslay, nrs, b) \<leftarrow> slay_put n b m;
     dataslay \<leftarrow> slay_update_row dataslay (nrs\<lparr>rs_schema := schema\<rparr>);
     (r, b) \<leftarrow> engine_update_data b key (Some dataslay);
     Some ((r, int_of_items (rs_items nrs)), b) }"

text \<open>
  For a record the code never sets the variable \<open>schema\<close> that it writes back; \<open>junk\<close> stands for what is in it.  The first
  component of the switch is \<open>None\<close> where the code returns at once.
\<close>

definition merge_item :: "nat \<Rightarrow> base \<Rightarrow> quid \<Rightarrow> u64 \<Rightarrow> metadata \<Rightarrow> schema \<Rightarrow> marshall \<Rightarrow> ((marshall option \<times> schema) option \<times> base) option" where
  "merge_item n b key offset meta junk mergeobj =
     (if m_type meta = MD_TYPE_RECORD then do {
        (obj, b) \<leftarrow> read_object n b offset True;
        (case obj of
           None \<Rightarrow> Some (None, b)
         | Some (_, dataobj) \<Rightarrow> do {
             (newobject, _, b) \<leftarrow> merge b mergeobj dataobj;
             Some (Some (newobject, junk), b) }) }
      else if m_type meta = MD_TYPE_GROUP then do {
        (obj, b) \<leftarrow> read_object n b offset False;
        (case obj of
           None \<Rightarrow> Some (None, b)
         | Some (data, dataobj) \<Rightarrow> do {
             schema \<leftarrow> slay_get_schema data;
             schema \<leftarrow> schema_of_code schema;
             (newkey, b) \<leftarrow> quid_create b;
             (r, b) \<leftarrow> (if schema = SCHEMA_TABLE then add_table_row n b key newkey mergeobj dataobj
               else add_set_item n b newkey mergeobj dataobj);
             Some (map_option (\<lambda>m. (m, schema)) r, b) }) }
      else Some (None, internal_record b))"

definition db_item_add :: "nat \<Rightarrow> bool \<Rightarrow> base \<Rightarrow> schema \<Rightarrow> string \<Rightarrow> string \<Rightarrow> nat \<Rightarrow> ((int \<times> int option) \<times> base) option" where
  "db_item_add n ready b junk quid ndata ndata_len =
     (if \<not> ready then Some ((- 1, None), b)
      else do {
        key \<leftarrow> parse_quid quid;
        (mergeobj, b) \<leftarrow> convert b ndata ndata_len;
        (case mergeobj of
           None \<Rightarrow> Some ((- 1, None), b)
         | Some mergeobj \<Rightarrow> do {
             ((offset, meta), b) \<leftarrow> engine_get b key;
             (r, b) \<leftarrow> merge_item n b key offset meta junk mergeobj;
             (case r of
                None \<Rightarrow> Some ((- 1, None), b)
              | Some (newobject, schema) \<Rightarrow>
                  if iserror b then Some ((- 1, None), b)
                  else do {
                    newobject \<leftarrow> newobject;
                    ((r, items), b) \<leftarrow> write_back n b key schema newobject;
                    Some ((if r < 0 then - 1 else 0, Some items), b) }) }) })"

section \<open>Removing items\<close>

fun unindex_row :: "marshall \<Rightarrow> nat \<Rightarrow> marshall option list \<Rightarrow> base \<Rightarrow> base option" where
  "unindex_row indexes 0 cs b = Some b"
| "unindex_row indexes (Suc k) (Some c # cs) b = do {
     name \<leftarrow> m_name c;
     element \<leftarrow> first_index indexes 1;
     b \<leftarrow> (if name = element then do {
         (index_offset, b) \<leftarrow> index_offset_of b indexes;
         val \<leftarrow> m_data c;
         (_, b) \<leftarrow> index_delete b index_offset val;
         Some b }
       else Some b);
     unindex_row indexes k cs b }"
| "unindex_row indexes (Suc k) _ b = None"

definition drop_row :: "base \<Rightarrow> quid \<Rightarrow> metadata \<Rightarrow> base option" where
  "drop_row b row_key row_meta = do {
     (_, b) \<leftarrow> engine_delete b row_key;
     (_, b) \<leftarrow> (if m_alias row_meta then alias_delete b row_key else Some (0, b));
     Some b }"

text \<open>
  The row leaves the list of keys \<open>dataobj\<close>, which is written back if it changed.  The result says whether the loop over
  the rows ends here: it goes on when the group could not be written.
\<close>

definition unlist_row :: "nat \<Rightarrow> base \<Rightarrow> quid \<Rightarrow> schema \<Rightarrow> bool \<Rightarrow> marshall \<Rightarrow> marshall \<Rightarrow> int \<Rightarrow> (bool \<times> marshall \<times> int \<times> base) option" where
  "unlist_row n b key schema null_if_empty rmobj dataobj items = do {
     (dataobj, alteration) \<leftarrow> marshall_separate rmobj dataobj False;
     if \<not> alteration then Some (True, dataobj, items, b)
     else do {
       let dataobj = (if null_if_empty \<and> m_size dataobj = 0 then set_size 1 (set_mtype MTYPE_NULL dataobj) else dataobj);
       ((r, items), b) \<leftarrow> write_back n b key schema dataobj;
       Some (\<not> r < 0, dataobj, items, b) } }"

definition remove_table_row :: "nat \<Rightarrow> base \<Rightarrow> quid \<Rightarrow> quid \<Rightarrow> metadata \<Rightarrow> marshall \<Rightarrow> marshall \<Rightarrow> marshall \<Rightarrow> marshall \<Rightarrow> int
    \<Rightarrow> (bool \<times> marshall \<times> int \<times> base) option" where
  "remove_table_row n b key row_key row_meta row row_obj mergeobj dataobj items = do {
     same \<leftarrow> marshall_equal mergeobj row_obj;
     if \<not> same then Some (False, dataobj, items, b)
     else do {
       b \<leftarrow> (if m_mtype mergeobj = MTYPE_OBJECT then do {
           (indexes, b) \<leftarrow> index_list_on_group b key;
           (case indexes of
              None \<Rightarrow> Some b
            | Some indexes \<Rightarrow> unindex_row indexes (m_size mergeobj) (m_child mergeobj) b) }
         else Some b);
       b \<leftarrow> drop_row b row_key row_meta;
       unlist_row n b key SCHEMA_TABLE False
         (Marshall None 0 (m_data row) QUID_LENGTH (calloc_children 1) 1 MTYPE_QUID) dataobj items } }"

text \<open>
  In a set the name of the first child selects the row; the code takes the name off that child for the comparison, and leaves it
  off for the rows that follow.
\<close>

definition remove_set_row :: "nat \<Rightarrow> base \<Rightarrow> quid \<Rightarrow> schema \<Rightarrow> quid \<Rightarrow> metadata \<Rightarrow> marshall \<Rightarrow> marshall \<Rightarrow> marshall \<Rightarrow> marshall \<Rightarrow> int
    \<Rightarrow> (bool \<times> marshall \<times> marshall \<times> int \<times> base) option" where
  "remove_set_row n b key schema row_key row_meta row row_obj mergeobj dataobj items = do {
     c \<leftarrow> (if marshall_type_hasdescent (m_mtype mergeobj)
         then (case m_child mergeobj of [] \<Rightarrow> None | c # _ \<Rightarrow> Some c) else Some None);
     (case c of
        None \<Rightarrow> Some (False, mergeobj, dataobj, items, b)
      | Some c \<Rightarrow>
          if m_name_len c = 0 then Some (False, mergeobj, dataobj, items, b)
          else do {
            name \<leftarrow> m_name c;
            row_name \<leftarrow> m_name row;
            if name \<noteq> row_name then Some (False, mergeobj, dataobj, items, b)
            else do {
              let c = set_name None 0 c;
              mergeobj \<leftarrow> put_child mergeobj 0 (Some c);
              same \<leftarrow> marshall_equal c row_obj;
              if \<not> same then Some (False, mergeobj, dataobj, items, b)
              else do {
                b \<leftarrow> drop_row b row_key row_meta;
                (stop, dataobj, items, b) \<leftarrow> unlist_row n b key schema True
                  (Marshall (m_name row) (m_name_len row) (m_data row) QUID_LENGTH (calloc_children 1) 1 MTYPE_QUID) dataobj items;
                Some (stop, mergeobj, dataobj, items, b) } } }) }"

text \<open>The loop over the rows from position \<open>i\<close> on; \<open>fuel\<close> of one more than the number of rows is enough.\<close>

primrec remove_rows :: "nat \<Rightarrow> nat \<Rightarrow> base \<Rightarrow> quid \<Rightarrow> schema \<Rightarrow> nat \<Rightarrow> marshall \<Rightarrow> marshall \<Rightarrow> int \<Rightarrow> (int \<times> base) option" where
  "remove_rows 0 n b key schema i mergeobj dataobj items = None"
| "remove_rows (Suc fuel) n b key schema i mergeobj dataobj items =
     (if i \<ge> m_size dataobj then Some (items, b)
      else do {
        row \<leftarrow> child_at dataobj i;
        data \<leftarrow> m_data row;
        row_key \<leftarrow> parse_quid data;
        ((row_offset, row_meta), b) \<leftarrow> engine_get b row_key;
        (obj, b) \<leftarrow> read_object n b row_offset True;
        (case obj of
           None \<Rightarrow> remove_rows fuel n b key schema (i + 1) mergeobj dataobj items
         | Some (_, row_obj) \<Rightarrow> do {
             (stop, mergeobj, dataobj, items, b) \<leftarrow>
               (if schema = SCHEMA_TABLE then do {
                  (stop, dataobj, items, b) \<leftarrow> remove_table_row n b key row_key row_meta row row_obj mergeobj dataobj items;
                  Some (stop, mergeobj, dataobj, items, b) }
                else remove_set_row n b key schema row_key row_meta row row_obj mergeobj dataobj items);
             if stop then Some (items, b)
             else remove_rows fuel n b key schema (i + 1) mergeobj dataobj items }) })"

definition db_item_remove :: "nat \<Rightarrow> bool \<Rightarrow> base \<Rightarrow> string \<Rightarrow> string \<Rightarrow> nat \<Rightarrow> ((int \<times> int option) \<times> base) option" where
  "db_item_remove n ready b quid ndata ndata_len =
     (if \<not> ready then Some ((- 1, None), b)
      else do {
        key \<leftarrow> parse_quid quid;
        (mergeobj, b) \<leftarrow> convert b ndata ndata_len;
        (case mergeobj of
           None \<Rightarrow> Some ((- 1, Some 0), b)
         | Some mergeobj \<Rightarrow> do {
             ((offset, meta), b) \<leftarrow> engine_get b key;
             if m_type meta = MD_TYPE_RECORD then do {
               (obj, b) \<leftarrow> read_object n b offset True;
               (case obj of
                  None \<Rightarrow> Some ((- 1, Some 0), b)
                | Some (_, dataobj) \<Rightarrow> do {
                    (filterobject, alteration) \<leftarrow> marshall_separate mergeobj dataobj False;
                    if \<not> alteration then Some ((- 1, Some 0), no_separation b)
                    else do {
                      (dataslay, nrs, b) \<leftarrow> slay_put n b filterobject;
                      (r, b) \<leftarrow> engine_update_data b key (Some dataslay);
                      Some ((if r < 0 then - 1 else 0, Some (int_of_items (rs_items nrs))), b) } }) }
             else if m_type meta = MD_TYPE_GROUP then do {
               (obj, b) \<leftarrow> read_object n b offset False;
               (case obj of
                  None \<Rightarrow> Some ((- 1, Some 0), b)
                | Some (data, dataobj) \<Rightarrow> do {
                    schema \<leftarrow> slay_get_schema data;
                    schema \<leftarrow> schema_of_code schema;
                    (items, b) \<leftarrow> remove_rows (m_size dataobj + 1) n b key schema 0 mergeobj dataobj 0;
                    Some ((0, Some items), error_clear b) }) }
             else Some ((- 1, Some 0), internal_record b) }) })"

section \<open>Meta data\<close>

text \<open>The strings are character arrays of 10, 12 and 48 bytes; \<open>st_importance\<close> is an \<open>int\<close>.\<close>

record record_status =
  st_lifecycle :: "char list"
  st_importance :: int
  st_syslock :: bool
  st_exec :: bool
  st_freeze :: bool
  st_nodata :: bool
  st_has_alias :: bool
  st_type :: "char list"
  st_alias :: "char list"

abbreviation (input) STATUS_LIFECYCLE_SIZE :: nat where "STATUS_LIFECYCLE_SIZE \<equiv> 10"
abbreviation (input) STATUS_TYPE_SIZE :: nat where "STATUS_TYPE_SIZE \<equiv> 12"
abbreviation (input) STATUS_ALIAS_LENGTH :: nat where "STATUS_ALIAS_LENGTH \<equiv> 48"

definition db_record_get_meta :: "bool \<Rightarrow> base \<Rightarrow> string \<Rightarrow> bool \<Rightarrow> record_status \<Rightarrow> ((int \<times> record_status) \<times> base) option" where
  "db_record_get_meta ready b quid force status =
     (if \<not> ready then Some ((- 1, status), b)
      else do {
        key \<leftarrow> parse_quid quid;
        ((_, meta), b) \<leftarrow> (if force then engine_get_force b key else engine_get b key);
        let status = status\<lparr>st_syslock := m_syslock meta, st_exec := m_exec meta, st_freeze := m_freeze meta,
          st_nodata := m_nodata meta, st_importance := uint (m_importance meta), st_has_alias := m_alias meta\<rparr>;
        (status, b) \<leftarrow> (if m_alias meta then do {
            (name, b) \<leftarrow> alias_get_val b key;
            name \<leftarrow> name;
            Some (status\<lparr>st_alias := fst (strlcpy (st_alias status) name STATUS_ALIAS_LENGTH)\<rparr>, b) }
          else Some (status, b));
        Some ((0, status
          \<lparr>st_lifecycle := fst (strlcpy (st_lifecycle status) (get_str_lifecycle (m_lifecycle meta)) STATUS_LIFECYCLE_SIZE),
           st_type := fst (strlcpy (st_type status) (get_str_type (m_type meta)) STATUS_TYPE_SIZE)\<rparr>), b) })"

text \<open>The new meta data says nothing of the alias, the type and the missing data of the record.\<close>

definition meta_of_status :: "record_status \<Rightarrow> metadata" where
  "meta_of_status status = zero_meta\<lparr>m_syslock := st_syslock status, m_exec := st_exec status, m_freeze := st_freeze status,
     m_importance := word_of_int (st_importance status),
     m_lifecycle := get_meta_lifecycle (buffer_string (st_lifecycle status))\<rparr>"

definition db_record_set_meta :: "bool \<Rightarrow> base \<Rightarrow> string \<Rightarrow> record_status \<Rightarrow> (int \<times> base) option" where
  "db_record_set_meta ready b quid status =
     (if \<not> ready then Some (- 1, b)
      else do {
        key \<leftarrow> parse_quid quid;
        (r, b) \<leftarrow> engine_setmeta b key (meta_of_status status);
        Some (if r < 0 then - 1 else 0, b) })"

section \<open>Aliases\<close>

definition db_alias_get_name :: "bool \<Rightarrow> base \<Rightarrow> string \<Rightarrow> (string option \<times> base) option" where
  "db_alias_get_name ready b quid =
     (if \<not> ready then Some (None, b) else do { key \<leftarrow> parse_quid quid; alias_get_val b key })"

definition db_alias_update :: "bool \<Rightarrow> base \<Rightarrow> string \<Rightarrow> string \<Rightarrow> (int \<times> base) option" where
  "db_alias_update ready b quid name =
     (if \<not> ready then Some (- 1, b)
      else do {
        key \<leftarrow> parse_quid quid;
        (found, b) \<leftarrow> alias_get_key b name (length name);
        if found \<noteq> None then Some (- 1, error_throw ''a09c8843b09d'' ''Alias exists'' b)
        else do {
          ((_, meta), b) \<leftarrow> engine_get (error_clear b) key;
          if \<not> m_alias meta then do {
            (_, b) \<leftarrow> alias_add b key name (length name);
            (r, b) \<leftarrow> engine_setmeta b key (meta\<lparr>m_alias := True\<rparr>);
            Some (if r < 0 then - 1 else 0, b) }
          else alias_update b key name (length name) } })"

definition db_alias_all :: "bool \<Rightarrow> base \<Rightarrow> string option option" where
  "db_alias_all ready b =
     (if \<not> ready then Some None
      else do {
        m \<leftarrow> alias_all b;
        (case m of None \<Rightarrow> Some None | Some m \<Rightarrow> do { buf \<leftarrow> marshall_serialize m; Some (Some buf) }) })"

definition db_alias_get_data :: "nat \<Rightarrow> bool \<Rightarrow> base \<Rightarrow> string \<Rightarrow> bool \<Rightarrow> (string option \<times> base) option" where
  "db_alias_get_data n ready b name descent =
     (if \<not> ready then Some (None, b)
      else do {
        (key, b) \<leftarrow> alias_get_key b name (length name);
        (case key of
           None \<Rightarrow> Some (None, b)
         | Some key \<Rightarrow> do {
             ((offset, meta), b) \<leftarrow> engine_get b key;
             (dataobj, b) \<leftarrow> read_any n b key offset meta descent;
             (case dataobj of
                None \<Rightarrow> Some (None, b)
              | Some m \<Rightarrow> do { buf \<leftarrow> marshall_serialize m; Some (Some buf, b) }) }) })"

section \<open>Indexes and pages\<close>

definition db_index_on_group :: "bool \<Rightarrow> base \<Rightarrow> string \<Rightarrow> (string option \<times> base) option" where
  "db_index_on_group ready b quid =
     (if \<not> ready then Some (None, b)
      else do {
        key \<leftarrow> parse_quid quid;
        (m, b) \<leftarrow> index_list_on_group b key;
        buf \<leftarrow> serialize_ptr m;
        Some (Some buf, b) })"

definition db_index_all :: "bool \<Rightarrow> base \<Rightarrow> (string option \<times> base) option" where
  "db_index_all ready b =
     (if \<not> ready then Some (None, b)
      else do {
        (m, b) \<leftarrow> index_list_all b;
        (case m of None \<Rightarrow> Some (None, b) | Some m \<Rightarrow> do { buf \<leftarrow> marshall_serialize m; Some (Some buf, b) }) })"

text \<open>\<open>pager_all\<close> of src/pager.c: the sequence number of every page, under its name.\<close>

fun page_rows :: "page list \<Rightarrow> marshall \<Rightarrow> marshall option" where
  "page_rows [] m = Some m"
| "page_rows (p # ps) m = do {
     let seq = itoa (sint (p_sequence p));
     m \<leftarrow> push_child m (Some (Marshall (Some (quid_shorttostr (p_key p))) SHORT_QUID_LENGTH (Some seq) (length seq) [] 0 MTYPE_INT));
     page_rows ps m }"

definition pager_all :: "base \<Rightarrow> marshall option option" where
  "pager_all b =
     (if core_count b = 0 then Some None
      else do {
        zassert (unat (core_count b) \<le> length (core_pages b));
        ps \<leftarrow> those (take (unat (core_count b)) (core_pages b));
        m \<leftarrow> page_rows ps (new_node (unat (core_count b)) MTYPE_OBJECT);
        Some (Some m) })"

definition db_pager_all :: "bool \<Rightarrow> base \<Rightarrow> string option option" where
  "db_pager_all ready b =
     (if \<not> ready then Some None
      else do {
        m \<leftarrow> pager_all b;
        (case m of None \<Rightarrow> Some None | Some m \<Rightarrow> do { buf \<leftarrow> marshall_serialize m; Some (Some buf) }) })"

text \<open>The index over the rows of a group, by the schema of its data; another schema leaves the result as it was.\<close>

definition create_index :: "nat \<Rightarrow> base \<Rightarrow> string \<Rightarrow> string option \<Rightarrow> marshall \<Rightarrow> index_result \<Rightarrow> (base \<times> index_result) option" where
  "create_index n b data element dataobj inrs = do {
     schema \<leftarrow> slay_get_schema data;
     if schema = schema_code SCHEMA_TABLE then do {
       element \<leftarrow> element;
       (_, b, inrs) \<leftarrow> index_btree_create_table n b element dataobj inrs;
       Some (b, inrs) }
     else if schema = schema_code SCHEMA_SET then do {
       element \<leftarrow> element;
       (_, b, inrs) \<leftarrow> index_btree_create_set n b element dataobj inrs;
       Some (b, inrs) }
     else Some (error_throw ''ece28bc980db'' ''Invalid schema'' b, inrs) }"

definition db_index_rebuild :: "nat \<Rightarrow> base \<Rightarrow> string \<Rightarrow> ((int \<times> int option) \<times> base) option" where
  "db_index_rebuild n b quid = do {
     key \<leftarrow> parse_quid quid;
     ((_, meta), b) \<leftarrow> engine_get b key;
     if m_type meta \<noteq> MD_TYPE_INDEX then Some ((- 1, None), wrong_type b)
     else do {
       (element, b) \<leftarrow> index_list_get_index_element b key;
       (grp, b) \<leftarrow> index_list_get_index_group b key;
       grp \<leftarrow> grp;
       ((offset, _), b) \<leftarrow> engine_get b grp;
       (obj, b) \<leftarrow> read_object n b offset False;
       (case obj of
          None \<Rightarrow> Some ((- 1, None), b)
        | Some (data, dataobj) \<Rightarrow> do {
            (b, inrs) \<leftarrow> create_index n b data element dataobj zero_index_result;
            let items = int_of_items (unat (ir_index_elements inrs));
            if items < 2 then Some ((0, Some items), too_few b)
            else do {
              (_, b) \<leftarrow> index_list_update_offset b key (ir_offset inrs);
              Some ((0, Some items), b) } }) } }"

definition db_index_create :: "nat \<Rightarrow> bool \<Rightarrow> base \<Rightarrow> string \<Rightarrow> string \<Rightarrow> ((int \<times> string option \<times> int option) \<times> base) option" where
  "db_index_create n ready b group_quid idxkey =
     (if \<not> ready then Some ((- 1, None, None), b)
      else do {
        key \<leftarrow> parse_quid group_quid;
        (index, b) \<leftarrow> quid_create b;
        let index_quid = quidtostr index;
        ((offset, meta), b) \<leftarrow> engine_get b key;
        if m_type meta \<noteq> MD_TYPE_GROUP then Some ((- 1, Some index_quid, None), wrong_type b)
        else do {
          (obj, b) \<leftarrow> read_object n b offset False;
          (case obj of
             None \<Rightarrow> Some ((- 1, Some index_quid, None), b)
           | Some (data, dataobj) \<Rightarrow>
               if marshall_count dataobj < 2 then Some ((0, Some index_quid, None), too_few b)
               else do {
                 (b, nrs) \<leftarrow> create_index n b data (Some idxkey) dataobj (zero_index_result\<lparr>ir_index := index\<rparr>);
                 let items = int_of_items (unat (ir_index_elements nrs));
                 if items < 2 then Some ((0, Some index_quid, Some items), too_few b)
                 else do {
                   (_, b) \<leftarrow> engine_insert_meta n b index (zero_meta\<lparr>m_nodata := True, m_type := MD_TYPE_INDEX, m_alias := True\<rparr>);
                   (_, b) \<leftarrow> alias_add b index index_quid QUID_LENGTH;
                   (_, b) \<leftarrow> index_list_add b index key idxkey INDEX_BTREE (ir_offset nrs);
                   Some ((0, Some index_quid, Some items), b) } }) } })"

end
