(* ===== verification/Core.thy ===== *)
theory Core imports
  Database_Items
begin

text \<open>
  The process around the database: the start and stop of the server, the registration of the error messages (src/bootstrap.c),
  reports about the instance, the decoding of keys and the vacuum, which rebuilds the database with other files.
\<close>

text \<open>
  The static variables of src/core.c.  \<open>control\<close> and its engine are one \<open>base\<close>, which also holds the environment of the process.
\<close>

record core =
  c_control :: base
  c_ready :: bool
  c_uptime :: int
  c_session :: quid

section \<open>Keys of the instance\<close>

text \<open>The last twelve digits of the key of the instance are replaced.\<close>

definition get_instance_prefix_key :: "base \<Rightarrow> string \<Rightarrow> string" where
  "get_instance_prefix_key b short_quid =
     (let buf = quidtostr (instance_key b)
      in take 25 buf @ take (SHORT_QUID_LENGTH - 2) short_quid @ drop (25 + (SHORT_QUID_LENGTH - 2)) buf)"

section \<open>Bootstrap\<close>

abbreviation (input) MD_IMPORTANT_CRITICAL :: "4 word" where "MD_IMPORTANT_CRITICAL \<equiv> 0"
abbreviation (input) MD_IMPORTANT_LEVEL1 :: "4 word" where "MD_IMPORTANT_LEVEL1 \<equiv> 1"
abbreviation (input) MD_IMPORTANT_LEVEL2 :: "4 word" where "MD_IMPORTANT_LEVEL2 \<equiv> 2"

datatype error_level = E_FATAL | E_WARN

definition BS_MAGIC :: string where
  "BS_MAGIC = ''__zero()__''"

definition error_object :: "error_level \<Rightarrow> string \<Rightarrow> string" where
  "error_object level error_message =
     take 255 (''{\"level\":\"'' @ (case level of E_FATAL \<Rightarrow> ''Fatal'' | E_WARN \<Rightarrow> ''Warning'')
       @ ''\", \"description\":\"'' @ error_message @ ''\"}'')"

definition register_error :: "nat \<Rightarrow> base \<Rightarrow> error_level \<Rightarrow> string \<Rightarrow> string \<Rightarrow> (int \<times> base) option" where
  "register_error n b level error_code error_message = do {
     key \<leftarrow> parse_quid (get_instance_prefix_key b error_code);
     let errobj = error_object level error_message;
     (dataobj, b) \<leftarrow> convert b errobj (length errobj);
     (case dataobj of
        None \<Rightarrow> Some (- 1, b)
      | Some dataobj \<Rightarrow> do {
          (dataslay, _, b) \<leftarrow> slay_put n b dataobj;
          (r, b) \<leftarrow> engine_insert_meta_data n b key (zero_meta\<lparr>m_importance := MD_IMPORTANT_LEVEL1, m_syslock := True\<rparr>)
            (Some dataslay);
          Some (if r < 0 then - 1 else 0, b) }) }"

definition error_messages :: "(error_level \<times> string \<times> string) list" where
  "error_messages =
    [(E_FATAL, ''7b8a6ac440e2'', ''Failed to request memory''),
     (E_FATAL, ''a7df40ba3075'', ''Failed to read disk''),
     (E_FATAL, ''1fd531fa70c1'', ''Failed to write disk''),
     (E_FATAL, ''65ccc95b60a6'', ''Failed to acquire descriptor''),
     (E_FATAL, ''ef4b4df470a1'', ''Storage damaged beyond autorecovery''),
     (E_FATAL, ''5e6f0673908d'', ''Core not initialized''),
     (E_WARN, ''de65321630e4'', ''Server is not ready''),
     (E_WARN, ''e8880046e019'', ''No data provided''),
     (E_WARN, ''a475446c70e8'', ''Key exists''),
     (E_WARN, ''f0b867c41006'', ''Key malformed or invalid''),
     (E_WARN, ''986154f80058'', ''Database locked''),
     (E_WARN, ''4987a3310049'', ''Record locked''),
     (E_WARN, ''6ef42da7901f'', ''Record not found''),
     (E_WARN, ''2836444cd009'', ''Alias not found''),
     (E_WARN, ''e553d927706a'', ''Index not found''),
     (E_WARN, ''a09c8843b09d'', ''Alias exists''),
     (E_WARN, ''595a8ca9706d'', ''Key has no history''),
     (E_WARN, ''dcb796d620d1'', ''Unknown datastructure''),
     (E_WARN, ''888d28dff048'', ''Operation expects an index given''),
     (E_WARN, ''14d882da30d9'', ''Operation expects an string or array given''),
     (E_WARN, ''3d2a88a4502b'', ''Too few items for index''),
     (E_WARN, ''ece28bc980db'', ''Invalid schema''),
     (E_WARN, ''70bef771b0a3'', ''Invalid datatype''),
     (E_WARN, ''1e933eea602c'', ''Invalid record type''),
     (E_WARN, ''2f05699f70fa'', ''Key does not contain data''),
     (E_WARN, ''0fb1dd21b0fd'', ''Internal records cannot be altered''),
     (E_WARN, ''04904b8810ed'', ''Cannot merge structures''),
     (E_WARN, ''6b4f4d9c00fc'', ''Cannot separate structures'')]"

text \<open>A registration that fails is reported in the log.\<close>

fun register_errors :: "nat \<Rightarrow> (error_level \<times> string \<times> string) list \<Rightarrow> base \<Rightarrow> base option" where
  "register_errors n [] b = Some b"
| "register_errors n ((level, ecode, message) # es) b = do {
     (_, b) \<leftarrow> register_error n b level ecode message;
     register_errors n es b }"

text \<open>\<open>memcmp\<close> with the magic word; a block that is a proper beginning of it is read beyond its end.\<close>

definition bootstrapped :: "base \<Rightarrow> quid \<Rightarrow> (bool \<times> base) option" where
  "bootstrapped b key = do {
     ((offset, _), b) \<leftarrow> engine_get b key;
     if offset = 0 \<or> iserror b then Some (False, b)
     else do {
       (rdata, b) \<leftarrow> get_data_block b offset;
       (case rdata of
          None \<Rightarrow> Some (False, b)
        | Some rdata \<Rightarrow> do {
            zassert (length BS_MAGIC \<le> length rdata \<or> take (length rdata) BS_MAGIC \<noteq> rdata);
            Some (take (length BS_MAGIC) rdata = BS_MAGIC, b) }) } }"

text \<open>The second record inherits the flag \<open>exec\<close> of the first.\<close>

definition bootstrap :: "nat \<Rightarrow> base \<Rightarrow> base option" where
  "bootstrap n b = do {
     key \<leftarrow> parse_quid (get_instance_prefix_key b ''000000000000'');
     (done, b) \<leftarrow> bootstrapped b key;
     if done then Some b
     else do {
       let b = error_clear b;
       let meta = zero_meta\<lparr>m_importance := MD_IMPORTANT_CRITICAL, m_syslock := True, m_exec := True, m_type := MD_TYPE_RAW\<rparr>;
       (_, b) \<leftarrow> engine_insert_meta_data n b key meta (Some BS_MAGIC);
       key \<leftarrow> parse_quid (get_instance_prefix_key b ''000000000080'');
       (_, b) \<leftarrow> engine_insert_meta_data n b key (meta\<lparr>m_importance := MD_IMPORTANT_LEVEL2\<rparr>)
         (Some ''{\"pre\":\"_init\",\"description\":\"bootstrap\"}'');
       b \<leftarrow> register_errors n error_messages b;
       Some (error_clear b) } }"

section \<open>Start and stop\<close>

text \<open>\<open>get_timestamp\<close> of src/time.c: the seconds since the first of January 2010.\<close>

definition get_timestamp :: "'z env_scheme \<Rightarrow> int \<times> 'z env_scheme" where
  "get_timestamp e = (let ((sec, _), e) = gettimeofday e in (sint sec - 1262304000, e))"

definition start_core :: "nat \<Rightarrow> (content \<Rightarrow> u64) \<Rightarrow> core \<Rightarrow> core option" where
  "start_core n crc c = do {
     (sessionid, b) \<leftarrow> quid_create (error_clear (c_control c));
     b \<leftarrow> base_init b;
     b \<leftarrow> pager_init crc b;
     b \<leftarrow> engine_init b;
     b \<leftarrow> bootstrap n b;
     let (uptime, b) = get_timestamp b;
     Some \<lparr>c_control = b, c_ready = True, c_uptime = uptime, c_session = sessionid\<rparr> }"

definition detach_core :: "(content \<Rightarrow> u64) \<Rightarrow> core \<Rightarrow> core option" where
  "detach_core crc c =
     (if \<not> c_ready c then Some c
      else do {
        b \<leftarrow> engine_close (c_control c);
        b \<leftarrow> pager_close crc b;
        Some (c\<lparr>c_control := base_close b, c_ready := False\<rparr>) })"

definition filesync :: "(content \<Rightarrow> u64) \<Rightarrow> core \<Rightarrow> core option" where
  "filesync crc c = do {
     b \<leftarrow> engine_sync (c_control c);
     b \<leftarrow> pager_sync crc b;
     Some (c\<lparr>c_control := base_sync b\<rparr>) }"

section \<open>Reports\<close>

definition set_instance_name :: "core \<Rightarrow> string \<Rightarrow> core" where
  "set_instance_name c name =
     (let (name, _) = strtoupper name;
          b = c_control c
      in c\<lparr>c_control := base_sync (b\<lparr>instance_name := take (INSTANCE_LENGTH - 1) name\<rparr>)\<rparr>)"

definition get_ready_status :: "core \<Rightarrow> bool" where
  "get_ready_status c = c_ready c"

definition get_instance_name :: "core \<Rightarrow> string" where
  "get_instance_name c = instance_name (c_control c)"

definition get_instance_key :: "core \<Rightarrow> string" where
  "get_instance_key c = quidtostr (instance_key (c_control c))"

definition get_session_key :: "core \<Rightarrow> string" where
  "get_session_key c = quidtostr (c_session c)"

definition get_pager_page_size :: "core \<Rightarrow> u8" where
  "get_pager_page_size c = pager_size (c_control c)"

definition get_pager_page_count :: "core \<Rightarrow> u32" where
  "get_pager_page_count c = core_count (c_control c)"

definition stat_getkeys :: "core \<Rightarrow> u64" where
  "stat_getkeys c = st_zero_size (c_control c)"

definition stat_getfreekeys :: "core \<Rightarrow> u64" where
  "stat_getfreekeys c = st_zero_free_size (c_control c)"

definition stat_getfreeblocks :: "core \<Rightarrow> u64" where
  "stat_getfreeblocks c = st_heap_free_size (c_control c)"

definition stat_tablesize :: "core \<Rightarrow> u64" where
  "stat_tablesize c = st_alias_size (c_control c)"

definition stat_indexsize :: "core \<Rightarrow> u64" where
  "stat_indexsize c = st_index_list_size (c_control c)"

text \<open>
  The parts of the time since the start, each as the \<open>unsigned int\<close> it is stored in, printed with two digits at least; a time
  before the start gives huge numbers.
\<close>

definition unsigned :: "int \<Rightarrow> string" where
  "unsigned i = itoa_digits (unat (word_of_int i :: u32)) []"

definition two_digits :: "int \<Rightarrow> string" where
  "two_digits i = (let s = unsigned i in if length s < 2 then replicate (2 - length s) (CHR ''0'') @ s else s)"

definition c_div :: "int \<Rightarrow> int \<Rightarrow> int" where
  "c_div a d = (if a < 0 then - ((- a) div d) else a div d)"

definition c_mod :: "int \<Rightarrow> int \<Rightarrow> int" where
  "c_mod a d = a - c_div a d * d"

definition get_uptime :: "core \<Rightarrow> string \<times> core" where
  "get_uptime c =
     (let (now, b) = get_timestamp (c_control c);
          passed = now - c_uptime c;
          days = c_div passed 86400;
          passed = c_mod passed 86400;
          hours = c_div passed 3600;
          passed = c_mod passed 3600;
          mins = c_div passed 60;
          secs = c_mod passed 60
      in (take 31 (unsigned days @ '' days, '' @ two_digits hours @ '':'' @ two_digits mins @ '':'' @ two_digits secs),
          c\<lparr>c_control := b\<rparr>))"

section \<open>Random numbers and keys\<close>

definition arc4random_uniform :: "u32 \<Rightarrow> 'z env_scheme \<Rightarrow> u32 \<times> 'z env_scheme" where
  "arc4random_uniform rng e = (let (rnd, e) = arc4random e in (rnd mod rng, e))"

definition generate_random_number :: "core \<Rightarrow> int \<Rightarrow> int \<times> core" where
  "generate_random_number c rng =
     (let (r, b) = (if rng = 0 then arc4random (c_control c) else arc4random_uniform (word_of_int rng) (c_control c))
      in (sint r, c\<lparr>c_control := b\<rparr>))"

definition quid_generate :: "core \<Rightarrow> (string \<times> core) option" where
  "quid_generate c = do {
     (key, b) \<leftarrow> quid_create (c_control c);
     Some (quidtostr key, c\<lparr>c_control := b\<rparr>) }"

definition quid_generate_short :: "core \<Rightarrow> string \<times> core" where
  "quid_generate_short c =
     (let (key, b) = quid_short_create (c_control c)
      in (quid_shorttostr key, c\<lparr>c_control := b\<rparr>))"

text \<open>
  \<open>quid_decode\<close> of src/quid.c.  \<open>timestr\<close> stands for \<open>unixtostrf\<close> with the format of ISO 8601, which depends on the time zone of
  the host; the buffer for it has 36 bytes.
\<close>

definition quid_decode :: "(u64 \<Rightarrow> string) \<Rightarrow> quid \<Rightarrow> marshall option" where
  "quid_decode timestr uid =
     (if \<not> quid_decode_valid uid then None
      else (let mark = itoa (uint (node4 uid))
        in Some (Marshall None 0 None 0
          ([Some (Marshall (Some ''created'') 7 (Some (timestr (quid_decode_ts uid))) 36 [] 0 MTYPE_STRING),
            Some (Marshall (Some ''version'') 7 (Some (itoa 3)) 1 [] 0 MTYPE_INT),
            Some (Marshall (Some ''valid'') 5 None 0 [] 0 MTYPE_TRUE),
            Some (Marshall (Some ''checkpoint_mark'') 15 (Some mark) (length mark) [] 0 MTYPE_INT)]
           @ replicate (tree_zcalloc_slots 4 - 4) None) 4 MTYPE_OBJECT)))"

abbreviation (input) malformed :: "base \<Rightarrow> base" where
  "malformed \<equiv> error_throw ''f0b867c41006'' ''Key malformed or invalid''"

definition key_decode :: "(u64 \<Rightarrow> string) \<Rightarrow> core \<Rightarrow> string \<Rightarrow> (string option \<times> core) option" where
  "key_decode timestr c quid =
     (if strquid_format quid = 0 then Some (None, c\<lparr>c_control := malformed (c_control c)\<rparr>)
      else do {
        key \<leftarrow> parse_quid quid;
        let m = quid_decode timestr key;
        let c = (if m = None then c\<lparr>c_control := malformed (c_control c)\<rparr> else c);
        buf \<leftarrow> serialize_ptr m;
        Some (Some buf, c) })"

section \<open>Vacuum\<close>

text \<open>
  The records, the aliases and the indexes are written in order into a new base, which takes the place of the old one.  The size of the
  pages is cut to a byte; if that is 0 the new base has no engine.  \<open>fresh\<close> is what the variables of the new base hold before.
\<close>

definition zvacuum :: "nat \<Rightarrow> (content \<Rightarrow> u64) \<Rightarrow> base \<Rightarrow> core \<Rightarrow> int \<Rightarrow> (int \<times> core) option" where
  "zvacuum n crc fresh c psize =
     (if \<not> c_ready c then Some (- 1, c)
      else do {
        let b = base_lock (c_control c);
        let psize = (if psize = 0 then pager_size b else word_of_int psize);
        zassert (psize > 0);
        nb \<leftarrow> pager_init crc (base_copy b (share b fresh) psize);
        (_, b, nb) \<leftarrow> engine_rebuild n (share nb b) nb;
        (b, nb) \<leftarrow> alias_rebuild b nb;
        (b, nb) \<leftarrow> index_list_rebuild n b nb;
        b \<leftarrow> engine_close b;
        b \<leftarrow> pager_unlink_all b;
        b \<leftarrow> pager_close crc b;
        let b = base_close b;
        Some (0, c\<lparr>c_control := share (base_swap b nb) nb\<rparr>) })"

end
