(* ===== verification/Block_Hash.thy ===== *)
theory Block_Hash imports
  Prelude
begin

text \<open>
  What the hash functions of the program share: a message is cut into blocks of \<open>B\<close> bytes, each of which is compressed into the
  chaining value, and the rest waits in a buffer; at the end the message is padded with a bit, zeros and its length.  The
  locale \<open>block_hash\<close> states what the functions that feed a message piece by piece promise.
\<close>

section \<open>Words and folds\<close>

lemma bit_above [simp]: "LENGTH('a) \<le> n \<Longrightarrow> \<not> bit (w :: 'a::len word) n"
  by (simp add: bit_word.rep_eq)

text \<open>A rotation as two shifts.\<close>

lemma rotl_shifts:
  assumes "n < LENGTH('a)"
  shows "push_bit n w OR drop_bit (LENGTH('a) - n) w = word_rotl n (w :: 'a::len word)"
proof (rule bit_word_eqI)
  fix i assume i: "i < LENGTH('a)"
  have "(i + (LENGTH('a) - n)) mod LENGTH('a) = (if n \<le> i then i - n else i + (LENGTH('a) - n))"
    using assms i by (auto simp: le_mod_geq)
  then show "bit (push_bit n w OR drop_bit (LENGTH('a) - n) w) i = bit (word_rotl n w) i"
    using assms i by (auto simp: bit_simps add.commute)
qed

lemma rotr_shifts:
  assumes "0 < n" "n < LENGTH('a)"
  shows "drop_bit n w OR push_bit (LENGTH('a) - n) w = word_rotr n (w :: 'a::len word)"
proof -
  have "word_rotr n w = word_rotl (LENGTH('a) - n) w"
    using assms by (subst word_rotl_eq_word_rotr) simp
  then show ?thesis using rotl_shifts[of "LENGTH('a) - n" w] assms by (simp add: or.commute)
qed

lemma foldl_upt_Suc: "i \<le> j \<Longrightarrow> foldl f s [i..<Suc j] = f (foldl f s [i..<j]) j"
  by simp

lemma foldl_cong_set: "(\<And>s x. x \<in> set xs \<Longrightarrow> f s x = g s x) \<Longrightarrow> foldl f s xs = foldl g s xs"
  by (induction xs arbitrary: s) auto

lemma upt_split: "i \<le> j \<Longrightarrow> j \<le> k \<Longrightarrow> [i..<k] = [i..<j] @ [j..<k]"
  using upt_add_eq_append[of i j "k - j"] by simp

text \<open>A list that grows by a recurrence lists the values of the recursive function.\<close>

lemma foldl_recurrence:
  assumes "n \<le> k" "\<And>t. n \<le> t \<Longrightarrow> t < k \<Longrightarrow> nxt (map W [0..<t]) t = W t"
  shows "foldl (\<lambda>w t. w @ [nxt w t]) (map W [0..<n]) [n..<k] = map W [0..<k]"
  using assms
proof (induction k rule: dec_induct)
  case (step k)
  then show ?case by (simp only: foldl_upt_Suc) simp
qed simp

text \<open>The usual forms of choice and majority.\<close>

lemma ch_forms: "(x AND y) OR (NOT x AND z) = (x AND y) XOR (NOT x AND (z :: 'a::len word))"
  by (rule bit_word_eqI) (auto simp: bit_simps)

lemma maj_forms: "(x AND y) OR (x AND z) OR (y AND z) = (x AND y) XOR (x AND z) XOR (y AND (z :: 'a::len word))"
  by (rule bit_word_eqI) (auto simp: bit_simps)

section \<open>Cutting into blocks\<close>

function absorb :: "('h \<Rightarrow> u8 list \<Rightarrow> 'h) \<Rightarrow> nat \<Rightarrow> 'h \<Rightarrow> u8 list \<Rightarrow> 'h \<times> u8 list" where
  "absorb f B h xs = (if B = 0 \<or> length xs < B then (h, xs) else absorb f B (f h (take B xs)) (drop B xs))"
  by pat_completeness auto
termination
  by (relation "measure (\<lambda>(f, B, h, xs). length xs)") auto

declare absorb.simps [simp del]

lemma absorb_short [simp]: "length xs < B \<Longrightarrow> absorb f B h xs = (h, xs)"
  by (simp add: absorb.simps)

lemma absorb_block [simp]:
  assumes "length b = B" "0 < B"
  shows "absorb f B h (b @ xs) = absorb f B (f h b) xs"
  using assms by (subst absorb.simps) simp

lemma absorb_one [simp]: "length b = B \<Longrightarrow> 0 < B \<Longrightarrow> absorb f B h b = (f h b, [])"
  using absorb_block[of b B f h "[]"] by simp

text \<open>A message that arrives in two parts.\<close>

lemma absorb_append:
  assumes "0 < B"
  shows "absorb f B h (xs @ ys) = (let (h, r) = absorb f B h xs in absorb f B h (r @ ys))"
  using assms
proof (induction f B h xs rule: absorb.induct)
  case (1 f B h xs)
  show ?case
  proof (cases "length xs < B")
    case False
    have "absorb f B h (xs @ ys) = absorb f B (f h (take B xs)) (drop B xs @ ys)"
      using False "1.prems" absorb_block[of "take B xs" B f h "drop B xs @ ys"] by (simp flip: append_assoc)
    moreover have "absorb f B h xs = absorb f B (f h (take B xs)) (drop B xs)"
      using False "1.prems" by (subst absorb.simps) simp
    ultimately show ?thesis using "1.IH" False "1.prems" by simp
  qed simp
qed

lemma absorb_rest_length: "0 < B \<Longrightarrow> length (snd (absorb f B h xs)) = length xs mod B"
proof (induction f B h xs rule: absorb.induct)
  case (1 f B h xs)
  then show ?case by (subst absorb.simps) (auto simp: le_mod_geq)
qed

section \<open>Padding\<close>

definition be_bytes :: "nat \<Rightarrow> 'a::len word \<Rightarrow> u8 list" where
  "be_bytes n w = rev (le_bytes n w)"

lemma length_be_bytes [simp]: "length (be_bytes n w) = n"
  by (simp add: be_bytes_def)

text \<open>The number of zeros that makes \<open>n\<close> bytes, one byte with the bit, and a length field of \<open>L\<close> bytes a multiple of \<open>B\<close>.\<close>

definition pad_zeros :: "nat \<Rightarrow> nat \<Rightarrow> nat \<Rightarrow> nat" where
  "pad_zeros B L n = nat ((int B - 1 - int L - int n) mod int B)"

lemma pad_zeros_mod:
  assumes "0 < B"
  shows "pad_zeros B L (n mod B) = pad_zeros B L n"
proof -
  have "(int B - 1 - int L - int (n mod B)) mod int B = (int B - 1 - int L - int n) mod int B"
    by (simp add: zmod_int mod_diff_right_eq)
  then show ?thesis by (simp add: pad_zeros_def)
qed

lemma pad_zeros_small:
  assumes "i < B" "1 + L \<le> B"
  shows "pad_zeros B L i = (if i + 1 + L \<le> B then B - 1 - L - i else 2 * B - 1 - L - i)"
proof (cases "i + 1 + L \<le> B")
  case True
  have "(int B - 1 - int L - int i) mod int B = int B - 1 - int L - int i"
    using True by (intro mod_pos_pos_trivial) auto
  then show ?thesis using True by (simp add: pad_zeros_def)
next
  case False
  have "(int B - 1 - int L - int i) mod int B = (int B - 1 - int L - int i + int B) mod int B"
    by (rule mod_add_self2[symmetric])
  also have "\<dots> = int B - 1 - int L - int i + int B"
    using False assms by (intro mod_pos_pos_trivial) auto
  finally show ?thesis using False by (simp add: pad_zeros_def)
qed

definition padding :: "nat \<Rightarrow> nat \<Rightarrow> (nat \<Rightarrow> u8 list) \<Rightarrow> nat \<Rightarrow> u8 list" where
  "padding B L len n = 0x80 # replicate (pad_zeros B L n) 0 @ len n"

text \<open>The digest of a message: its blocks and those of the padding.\<close>

definition block_digest :: "('h \<Rightarrow> u8 list \<Rightarrow> 'h) \<Rightarrow> nat \<Rightarrow> nat \<Rightarrow> (nat \<Rightarrow> u8 list) \<Rightarrow> 'h \<Rightarrow> u8 list \<Rightarrow> 'h" where
  "block_digest f B L len h0 msg = fst (absorb f B h0 (msg @ padding B L len (length msg)))"

text \<open>The last one or two blocks, as the functions write them into their buffers.\<close>

lemma absorb_padding:
  assumes "length r < B" "1 + L \<le> B" "length lf = L" "length r = n mod B"
  shows "absorb f B h (r @ 0x80 # replicate (pad_zeros B L n) 0 @ lf)
    = (if length r + 1 + L \<le> B then (f h (r @ 0x80 # replicate (B - 1 - L - length r) 0 @ lf), [])
       else (f (f h (r @ 0x80 # replicate (B - 1 - length r) 0)) (replicate (B - L) 0 @ lf), []))"
proof -
  have z: "pad_zeros B L n = (if length r + 1 + L \<le> B then B - 1 - L - length r else 2 * B - 1 - L - length r)"
    using pad_zeros_small[OF assms(1,2)] pad_zeros_mod[of B L n] assms(1,4) by simp
  show ?thesis
  proof (cases "length r + 1 + L \<le> B")
    case True
    then show ?thesis using assms by (simp add: z)
  next
    case False
    have "pad_zeros B L n = 2 * B - 1 - L - length r" using False by (simp add: z)
    then have "pad_zeros B L n = (B - 1 - length r) + (B - L)" using False assms(1,2) by linarith
    then have "r @ 0x80 # replicate (pad_zeros B L n) 0 @ lf
        = (r @ 0x80 # replicate (B - 1 - length r) 0) @ replicate (B - L) 0 @ lf"
      by (simp add: replicate_add)
    then have "absorb f B h (r @ 0x80 # replicate (pad_zeros B L n) 0 @ lf)
        = absorb f B h ((r @ 0x80 # replicate (B - 1 - length r) 0) @ replicate (B - L) 0 @ lf)"
      by (rule arg_cong)
    also have "\<dots> = absorb f B (f h (r @ 0x80 # replicate (B - 1 - length r) 0)) (replicate (B - L) 0 @ lf)"
      using assms(1) by (intro absorb_block) auto
    also have "\<dots> = (f (f h (r @ 0x80 # replicate (B - 1 - length r) 0)) (replicate (B - L) 0 @ lf), [])"
      using assms by (intro absorb_one) auto
    finally show ?thesis using False by simp
  qed
qed

section \<open>Feeding a message\<close>

text \<open>
  \<open>state c\<close> is the chaining value with the bytes waiting in the buffer, \<open>total c\<close> the number of bytes fed so far, which must stay
  below \<open>limit\<close>.
\<close>

locale block_hash =
  fixes f :: "'h \<Rightarrow> u8 list \<Rightarrow> 'h" and B :: nat and limit :: nat
    and update :: "'c \<Rightarrow> u8 list \<Rightarrow> 'c" and state :: "'c \<Rightarrow> 'h \<times> u8 list" and total :: "'c \<Rightarrow> nat" and ok :: "'c \<Rightarrow> bool"
  assumes block_pos: "0 < B"
    and update: "ok c \<Longrightarrow> total c + length xs < limit \<Longrightarrow> ok (update c xs)
      \<and> state (update c xs) = absorb f B (fst (state c)) (snd (state c) @ xs)
      \<and> total (update c xs) = total c + length xs"
    and state_ok: "ok c \<Longrightarrow> length (snd (state c)) = total c mod B"
begin

text \<open>Two pieces are the same as their concatenation.\<close>

lemma update_append:
  assumes "ok c" "total c + length xs + length ys < limit"
  shows "state (update (update c xs) ys) = state (update c (xs @ ys))"
proof -
  have a: "ok (update c xs)" "state (update c xs) = absorb f B (fst (state c)) (snd (state c) @ xs)"
      "total (update c xs) = total c + length xs"
    using update[OF assms(1), of xs] assms(2) by auto
  have "state (update (update c xs) ys) = absorb f B (fst (state (update c xs))) (snd (state (update c xs)) @ ys)"
    using update[OF a(1), of ys] assms(2) a(3) by auto
  also have "\<dots> = absorb f B (fst (state c)) ((snd (state c) @ xs) @ ys)"
    using absorb_append[OF block_pos, of f "fst (state c)" "snd (state c) @ xs" ys] by (simp add: a(2) split_beta)
  also have "\<dots> = state (update c (xs @ ys))"
    using update[OF assms(1), of "xs @ ys"] assms(2) by auto
  finally show ?thesis .
qed

text \<open>Any number of pieces.\<close>

lemma fold_update:
  assumes "ok c" "total c + length (concat xss) < limit"
  shows "ok (foldl update c xss) \<and> state (foldl update c xss) = state (update c (concat xss))
    \<and> total (foldl update c xss) = total c + length (concat xss)"
  using assms
proof (induction xss arbitrary: c rule: rev_induct)
  case Nil
  have "length (snd (state c)) < B" using state_ok[OF Nil(1)] block_pos by simp
  then show ?case using update[OF Nil(1), of "[]"] Nil by simp
next
  case (snoc xs xss)
  have b: "total c + length (concat xss) < limit" using snoc.prems by simp
  note h = snoc.IH[OF snoc.prems(1) b]
  have l: "total (foldl update c xss) + length xs < limit" using h snoc.prems by simp
  have "state (update (foldl update c xss) xs) = absorb f B (fst (state (foldl update c xss))) (snd (state (foldl update c xss)) @ xs)"
    using update[OF _ l] h by blast
  also have "\<dots> = absorb f B (fst (state (update c (concat xss)))) (snd (state (update c (concat xss))) @ xs)"
    using h by simp
  also have "\<dots> = state (update (update c (concat xss)) xs)"
    using update[OF snoc.prems(1), of "concat xss"] update[of "update c (concat xss)" xs] snoc.prems by auto
  also have "\<dots> = state (update c (concat xss @ xs))"
    using snoc.prems by (intro update_append) auto
  finally show ?case using update[OF _ l] h by auto
qed

end

end
