(* ===== verification/Sha1.thy ===== *)
theory Sha1 imports
  Block_Hash Quid
begin

text \<open>
  SHA-1: src/sha1.c, as the code computes it, and as FIPS 180-4 defines it.
\<close>

section \<open>The context\<close>

record sha =
  sh_digest :: "u32 list"
  sh_szlow :: u32
  sh_szhigh :: u32
  sh_block :: "u8 list"
  sh_idx :: nat
  sh_computed :: bool
  sh_corrupted :: bool

definition sha1_h0 :: "u32 list" where
  "sha1_h0 = [0x67452301, 0xEFCDAB89, 0x98BADCFE, 0x10325476, 0xC3D2E1F0]"

definition sha1_reset :: "sha \<Rightarrow> sha" where
  "sha1_reset ctx = ctx\<lparr>sh_szlow := 0, sh_szhigh := 0, sh_idx := 0, sh_digest := sha1_h0, sh_computed := False, sh_corrupted := False\<rparr>"

definition sha1_shift :: "nat \<Rightarrow> u32 \<Rightarrow> u32" where
  "sha1_shift bits word = ((push_bit bits word) AND 0xFFFFFFFF) OR drop_bit (32 - bits) word"

section \<open>One block\<close>

text \<open>Four bytes as a word, the first byte on top.\<close>

definition be_word :: "u8 list \<Rightarrow> nat \<Rightarrow> u32" where
  "be_word b t = push_bit 24 (ucast (b ! (t * 4))) OR push_bit 16 (ucast (b ! (t * 4 + 1)))
     OR push_bit 8 (ucast (b ! (t * 4 + 2))) OR ucast (b ! (t * 4 + 3))"

definition sha1_schedule :: "u8 list \<Rightarrow> u32 list" where
  "sha1_schedule b = foldl (\<lambda>w t. w @ [sha1_shift 1 (w ! (t - 3) XOR w ! (t - 8) XOR w ! (t - 14) XOR w ! (t - 16))])
     (map (be_word b) [0..<16]) [16..<80]"

type_synonym sha1_vars = "u32 \<times> u32 \<times> u32 \<times> u32 \<times> u32"

definition sha1_round :: "u32 list \<Rightarrow> (u32 \<Rightarrow> u32 \<Rightarrow> u32 \<Rightarrow> u32) \<Rightarrow> u32 \<Rightarrow> sha1_vars \<Rightarrow> nat \<Rightarrow> sha1_vars" where
  "sha1_round w f k = (\<lambda>(a, b, c, d, e) t.
     let temp = (sha1_shift 5 a + f b c d + e + w ! t + k) AND 0xFFFFFFFF
     in (temp, a, sha1_shift 30 b, c, d))"

definition sha1_process :: "u32 list \<Rightarrow> u8 list \<Rightarrow> u32 list" where
  "sha1_process h b =
     (let w = sha1_schedule b;
          s = (h ! 0, h ! 1, h ! 2, h ! 3, h ! 4);
          s = foldl (sha1_round w (\<lambda>b c d. (b AND c) OR (NOT b AND d)) 0x5A827999) s [0..<20];
          s = foldl (sha1_round w (\<lambda>b c d. b XOR c XOR d) 0x6ED9EBA1) s [20..<40];
          s = foldl (sha1_round w (\<lambda>b c d. (b AND c) OR (b AND d) OR (c AND d)) 0x8F1BBCDC) s [40..<60];
          (a, b, c, d, e) = foldl (sha1_round w (\<lambda>b c d. b XOR c XOR d) 0xCA62C1D6) s [60..<80]
      in [(h ! 0 + a) AND 0xFFFFFFFF, (h ! 1 + b) AND 0xFFFFFFFF, (h ! 2 + c) AND 0xFFFFFFFF,
          (h ! 3 + d) AND 0xFFFFFFFF, (h ! 4 + e) AND 0xFFFFFFFF])"

definition sha1_process_message_block :: "sha \<Rightarrow> sha" where
  "sha1_process_message_block ctx = ctx\<lparr>sh_digest := sha1_process (sh_digest ctx) (sh_block ctx), sh_idx := 0\<rparr>"

section \<open>Input and padding\<close>

definition sha1_put :: "u8 \<Rightarrow> sha \<Rightarrow> sha" where
  "sha1_put x ctx = ctx\<lparr>sh_block := (sh_block ctx)[sh_idx ctx := x], sh_idx := sh_idx ctx + 1\<rparr>"

definition sha1_count :: "sha \<Rightarrow> sha" where
  "sha1_count ctx =
     (let ctx = ctx\<lparr>sh_szlow := (sh_szlow ctx + 8) AND 0xFFFFFFFF\<rparr>
      in if sh_szlow ctx = 0 then
           (let ctx = ctx\<lparr>sh_szhigh := (sh_szhigh ctx + 1) AND 0xFFFFFFFF\<rparr>
            in if sh_szhigh ctx = 0 then ctx\<lparr>sh_corrupted := True\<rparr> else ctx)
         else ctx)"

fun sha1_input_loop :: "u8 list \<Rightarrow> sha \<Rightarrow> sha" where
  "sha1_input_loop [] ctx = ctx"
| "sha1_input_loop (x # xs) ctx =
     (if sh_corrupted ctx then ctx
      else (let ctx = sha1_count (sha1_put (x AND 0xFF) ctx)
        in sha1_input_loop xs (if sh_idx ctx = 64 then sha1_process_message_block ctx else ctx)))"

definition sha1_input :: "sha \<Rightarrow> u8 list \<Rightarrow> sha" where
  "sha1_input ctx message_array =
     (if message_array = [] then ctx
      else if sh_computed ctx \<or> sh_corrupted ctx then ctx\<lparr>sh_corrupted := True\<rparr>
      else sha1_input_loop message_array ctx)"

function sha1_zeros :: "nat \<Rightarrow> sha \<Rightarrow> sha" where
  "sha1_zeros n ctx = (if sh_idx ctx < n then sha1_zeros n (sha1_put 0 ctx) else ctx)"
  by pat_completeness auto
termination
  by (relation "measure (\<lambda>(n, ctx). n - sh_idx ctx)") (auto simp: sha1_put_def)

declare sha1_zeros.simps [simp del]

definition sha1_padmessage :: "sha \<Rightarrow> sha" where
  "sha1_padmessage ctx =
     (let ctx = (if sh_idx ctx > 55
           then sha1_zeros 56 (sha1_process_message_block (sha1_zeros 64 (sha1_put 0x80 ctx)))
           else sha1_zeros 56 (sha1_put 0x80 ctx));
          byte = (\<lambda>i w. ucast (drop_bit i w AND 0xFF));
          h = sh_szhigh ctx; l = sh_szlow ctx
      in sha1_process_message_block (ctx\<lparr>sh_block := (sh_block ctx)
           [56 := byte 24 h, 57 := byte 16 h, 58 := byte 8 h, 59 := byte 0 h,
            60 := byte 24 l, 61 := byte 16 l, 62 := byte 8 l, 63 := byte 0 l]\<rparr>))"

definition sha1_result :: "sha \<Rightarrow> bool \<times> sha" where
  "sha1_result ctx =
     (if sh_corrupted ctx then (False, ctx)
      else if \<not> sh_computed ctx then (True, (sha1_padmessage ctx)\<lparr>sh_computed := True\<rparr>)
      else (True, ctx))"

text \<open>\<open>"%.8x"\<close> of each word.\<close>

definition sha1_strsum :: "sha \<Rightarrow> string" where
  "sha1_strsum ctx = concat (map (\<lambda>i. hex_pad 8 (unat (sh_digest ctx ! i))) [0..<5])"

section \<open>FIPS 180-4\<close>

fun sha1_W :: "u8 list \<Rightarrow> nat \<Rightarrow> u32" where
  "sha1_W b t = (if t < 16 then be_word b t
     else word_rotl 1 (sha1_W b (t - 3) XOR sha1_W b (t - 8) XOR sha1_W b (t - 14) XOR sha1_W b (t - 16)))"

declare sha1_W.simps [simp del]

definition sha1_f :: "nat \<Rightarrow> u32 \<Rightarrow> u32 \<Rightarrow> u32 \<Rightarrow> u32" where
  "sha1_f t x y z = (if t < 20 then (x AND y) XOR (NOT x AND z) else if t < 40 then x XOR y XOR z
     else if t < 60 then (x AND y) XOR (x AND z) XOR (y AND z) else x XOR y XOR z)"

definition sha1_K :: "nat \<Rightarrow> u32" where
  "sha1_K t = (if t < 20 then 0x5A827999 else if t < 40 then 0x6ED9EBA1 else if t < 60 then 0x8F1BBCDC else 0xCA62C1D6)"

definition sha1_compress :: "u32 list \<Rightarrow> u8 list \<Rightarrow> u32 list" where
  "sha1_compress h b =
     (let (a, b, c, d, e) = foldl (\<lambda>(a, b', c, d, e) t.
          (word_rotl 5 a + sha1_f t b' c d + e + sha1_K t + sha1_W b t, a, word_rotl 30 b', c, d))
        (h ! 0, h ! 1, h ! 2, h ! 3, h ! 4) [0..<80]
      in [h ! 0 + a, h ! 1 + b, h ! 2 + c, h ! 3 + d, h ! 4 + e])"

definition sha1_digest :: "u8 list \<Rightarrow> u32 list" where
  "sha1_digest = block_digest sha1_compress 64 8 (\<lambda>n. be_bytes 8 (of_nat (8 * n) :: u64)) sha1_h0"

section \<open>The code computes it\<close>

lemma and_ones [simp]: "(x :: u32) AND 0xFFFFFFFF = x"
  by (rule bit_word_eqI) (auto simp: bit_simps word_and_masks)

lemma sha1_shift_rotl: "bits < 32 \<Longrightarrow> sha1_shift bits w = word_rotl bits w"
  using rotl_shifts[of bits w] by (simp add: sha1_shift_def)

lemma sha1_schedule: "sha1_schedule b = map (sha1_W b) [0..<80]"
proof -
  have m: "map (be_word b) [0..<16] = map (sha1_W b) [0..<16]"
    by (rule map_cong) (simp_all add: sha1_W.simps)
  show ?thesis
    unfolding sha1_schedule_def m
    by (rule foldl_recurrence) (simp_all add: sha1_W.simps[of b t for t] sha1_shift_rotl del: upt_rec_numeral)
qed

lemma sha1_process: "sha1_process h b = sha1_compress h b"
proof -
  let ?g = "\<lambda>(a, b', c, d, e) t. (word_rotl 5 a + sha1_f t b' c d + e + sha1_K t + sha1_W b t, a, word_rotl 30 b', c, d)"
  have r: "foldl (sha1_round (sha1_schedule b) f k) s [i..<j] = foldl ?g s [i..<j]"
    if "j \<le> 80" "\<And>t x y z. i \<le> t \<Longrightarrow> t < j \<Longrightarrow> f x y z = sha1_f t x y z" "\<And>t. i \<le> t \<Longrightarrow> t < j \<Longrightarrow> k = sha1_K t" for f k s i j
  proof (rule foldl_cong_set)
    fix s :: sha1_vars and t assume "t \<in> set [i..<j]"
    then have t: "i \<le> t" "t < j" "t < 80" using that(1) by auto
    obtain a b' c d e where s: "s = (a, b', c, d, e)" by (cases s)
    show "sha1_round (sha1_schedule b) f k s t = ?g s t"
      using t that(2)[OF t(1,2)] that(3)[OF t(1,2)]
      by (simp add: s sha1_round_def Let_def sha1_schedule sha1_shift_rotl add_ac del: upt_rec_numeral)
  qed
  have i: "[0..<80] = [0..<20] @ [20..<40] @ [40..<60] @ [60..<80]"
    by (simp only: upt_split[of 0 20 80] upt_split[of 20 40 80] upt_split[of 40 60 80] numeral_le_iff semiring_norm zero_le)
  have 1: "foldl (sha1_round (sha1_schedule b) (\<lambda>b c d. (b AND c) OR (NOT b AND d)) 0x5A827999) s [0..<20] = foldl ?g s [0..<20]" for s
    by (rule r) (simp_all add: sha1_f_def ch_forms sha1_K_def)
  have 2: "foldl (sha1_round (sha1_schedule b) (\<lambda>b c d. b XOR c XOR d) 0x6ED9EBA1) s [20..<40] = foldl ?g s [20..<40]" for s
    by (rule r) (simp_all add: sha1_f_def sha1_K_def)
  have 3: "foldl (sha1_round (sha1_schedule b) (\<lambda>b c d. (b AND c) OR (b AND d) OR (c AND d)) 0x8F1BBCDC) s [40..<60] = foldl ?g s [40..<60]" for s
    by (rule r) (simp_all add: sha1_f_def maj_forms sha1_K_def)
  have 4: "foldl (sha1_round (sha1_schedule b) (\<lambda>b c d. b XOR c XOR d) 0xCA62C1D6) s [60..<80] = foldl ?g s [60..<80]" for s
    by (rule r) (simp_all add: sha1_f_def sha1_K_def)
  show ?thesis
    unfolding sha1_process_def sha1_compress_def Let_def i foldl_append 1 2 3 4 and_ones ..
qed
section \<open>Feeding and padding\<close>

definition sha1_state :: "sha \<Rightarrow> u32 list \<times> u8 list" where
  "sha1_state ctx = (sh_digest ctx, take (sh_idx ctx) (sh_block ctx))"

definition sha1_bits :: "sha \<Rightarrow> nat" where
  "sha1_bits ctx = unat (sh_szhigh ctx) * 2 ^ 32 + unat (sh_szlow ctx)"

definition sha1_ok :: "sha \<Rightarrow> bool" where
  "sha1_ok ctx \<longleftrightarrow> length (sh_block ctx) = 64 \<and> sh_idx ctx < 64 \<and> \<not> sh_computed ctx \<and> \<not> sh_corrupted ctx
     \<and> unat (sh_szlow ctx) mod 8 = 0 \<and> sh_idx ctx = sha1_bits ctx div 8 mod 64"

lemma sha1_count:
  assumes "unat (sh_szlow ctx) mod 8 = 0" "sha1_bits ctx + 8 < 2 ^ 64"
  shows "\<exists>l h. sha1_count ctx = ctx\<lparr>sh_szlow := l, sh_szhigh := h\<rparr> \<and> unat l mod 8 = 0
    \<and> unat h * 2 ^ 32 + unat l = sha1_bits ctx + 8"
proof (cases "sh_szlow ctx + 8 = 0")
  case True
  have l: "unat (sh_szlow ctx) = 2 ^ 32 - 8"
  proof -
    have "sh_szlow ctx = - 8" using True by (simp only: eq_neg_iff_add_eq_0)
    then show ?thesis by simp
  qed
  have "Suc (unat (sh_szhigh ctx)) < 2 ^ 32" using assms(2) l by (simp add: sha1_bits_def)
  then have h: "sh_szhigh ctx + 1 \<noteq> 0" by (intro add_one_nonzero) simp
  have "unat (sh_szhigh ctx + 1) * 2 ^ 32 + unat (0 :: u32) = sha1_bits ctx + 8"
    using unat_add_one[OF h] l by (simp add: sha1_bits_def)
  then show ?thesis using True h by (intro exI[of _ 0] exI[of _ "sh_szhigh ctx + 1"]) (simp add: sha1_count_def Let_def)
next
  case False
  have "unat (sh_szlow ctx) + 8 \<noteq> 2 ^ 32"
  proof
    assume "unat (sh_szlow ctx) + 8 = 2 ^ 32"
    then have "unat (sh_szlow ctx + 8) = 0" by (simp add: unat_word_ariths)
    then show False using False by (simp add: unsigned_eq_0_iff)
  qed
  moreover have "unat (sh_szlow ctx) < 2 ^ 32" using unat_less[of "sh_szlow ctx"] by simp
  moreover obtain k where "unat (sh_szlow ctx) = 8 * k" using assms(1) by (metis dvdE mod_0_imp_dvd)
  ultimately have "unat (sh_szlow ctx) + 8 < 2 ^ 32" by simp
  then have "unat (sh_szlow ctx + 8) = unat (sh_szlow ctx) + 8" by (subst unat_add_no_wrap) simp_all
  then show ?thesis using False assms(1)
    by (intro exI[of _ "sh_szlow ctx + 8"] exI[of _ "sh_szhigh ctx"]) (simp add: sha1_count_def Let_def sha1_bits_def mod_add_self2)
qed

lemma take_put:
  "i < length xs \<Longrightarrow> take (Suc i) (xs[i := x]) = take i xs @ [x]"
  by (simp add: take_Suc_conv_app_nth)

lemma sha1_input_step:
  assumes "sha1_ok ctx" "sha1_bits ctx + 8 < 2 ^ 64"
    and "ctx' = sha1_count (sha1_put (x AND 0xFF) ctx)"
    and "ctx'' = (if sh_idx ctx' = 64 then sha1_process_message_block ctx' else ctx')"
  shows "sha1_ok ctx'' \<and> sha1_bits ctx'' = sha1_bits ctx + 8
    \<and> sha1_state ctx'' = absorb sha1_compress 64 (sh_digest ctx) (take (sh_idx ctx) (sh_block ctx) @ [x])"
proof -
  have x: "x AND 0xFF = x" by (rule bit_word_eqI) (auto simp: bit_simps word_and_masks)
  let ?p = "sha1_put x ctx"
  have b: "sha1_bits ?p = sha1_bits ctx" "sh_szlow ?p = sh_szlow ctx" by (simp_all add: sha1_bits_def sha1_put_def)
  obtain l h where c: "ctx' = ?p\<lparr>sh_szlow := l, sh_szhigh := h\<rparr>" "unat l mod 8 = 0" "unat h * 2 ^ 32 + unat l = sha1_bits ctx + 8"
    using sha1_count[of ?p] assms(1,2,3) b x by (auto simp: sha1_ok_def)
  have o: "length (sh_block ctx) = 64" "sh_idx ctx < 64" "\<not> sh_computed ctx" "\<not> sh_corrupted ctx" "sh_idx ctx = sha1_bits ctx div 8 mod 64"
    using assms(1) by (auto simp: sha1_ok_def)
  have d: "(sha1_bits ctx + 8) div 8 = sha1_bits ctx div 8 + 1" by simp
  have t: "take (Suc (sh_idx ctx)) ((sh_block ctx)[sh_idx ctx := x]) = take (sh_idx ctx) (sh_block ctx) @ [x]"
    using o by (intro take_put) simp
  show ?thesis
  proof (cases "sh_idx ctx = 63")
    case True
    have "take 64 ((sh_block ctx)[63 := x]) = take 63 (sh_block ctx) @ [x]" using t True by simp
    then have f: "(sh_block ctx)[63 := x] = take 63 (sh_block ctx) @ [x]" using o by simp
    have "ctx'' = ctx'\<lparr>sh_digest := sha1_compress (sh_digest ctx) (take 63 (sh_block ctx) @ [x]), sh_idx := 0\<rparr>"
      using assms(4) c True f by (simp add: sha1_process_message_block_def sha1_put_def sha1_process)
    then have e: "ctx'' = ?p\<lparr>sh_szlow := l, sh_szhigh := h, sh_digest := sha1_compress (sh_digest ctx) (take 63 (sh_block ctx) @ [x]), sh_idx := 0\<rparr>"
      by (simp add: c(1))
    have "(sha1_bits ctx div 8 + 1) mod 64 = 0" using o(5) True by (simp add: mod_Suc)
    then have "sha1_bits ctx'' = sha1_bits ctx + 8" "sha1_bits ctx'' div 8 mod 64 = 0"
      using c(3) d by (simp_all add: e sha1_bits_def)
    moreover have "sha1_state ctx'' = absorb sha1_compress 64 (sh_digest ctx) (take (sh_idx ctx) (sh_block ctx) @ [x])"
      using o True by (simp add: sha1_state_def e)
    ultimately show ?thesis unfolding sha1_ok_def using c(2) o by (simp add: e sha1_put_def)
  next
    case False
    have e: "ctx'' = ?p\<lparr>sh_szlow := l, sh_szhigh := h\<rparr>" using assms(4) c o False by (simp add: sha1_put_def)
    have "(sha1_bits ctx div 8 + 1) mod 64 = sh_idx ctx + 1" using o(2,5) False by (simp add: mod_Suc)
    then have "sha1_bits ctx'' = sha1_bits ctx + 8" "sha1_bits ctx'' div 8 mod 64 = sh_idx ctx + 1"
      using c(3) d by (simp_all add: e sha1_bits_def)
    moreover have "sha1_state ctx'' = absorb sha1_compress 64 (sh_digest ctx) (take (sh_idx ctx) (sh_block ctx) @ [x])"
      using o False t by (simp add: sha1_state_def e sha1_put_def)
    moreover have "sh_idx ctx < 63" using o(2) False by simp
    ultimately show ?thesis unfolding sha1_ok_def using c(2) o(1,3,4) by (simp add: e sha1_put_def)
  qed
qed

lemma sha1_input_loop:
  "sha1_ok ctx \<Longrightarrow> sha1_bits ctx + 8 * length xs < 2 ^ 64 \<Longrightarrow>
   sha1_ok (sha1_input_loop xs ctx) \<and> sha1_bits (sha1_input_loop xs ctx) = sha1_bits ctx + 8 * length xs
   \<and> sha1_state (sha1_input_loop xs ctx) = absorb sha1_compress 64 (fst (sha1_state ctx)) (snd (sha1_state ctx) @ xs)"
proof (induction xs arbitrary: ctx)
  case Nil
  then show ?case by (simp add: sha1_state_def sha1_ok_def)
next
  case (Cons x xs)
  define ctx' where "ctx' = sha1_count (sha1_put (x AND 0xFF) ctx)"
  define ctx'' where "ctx'' = (if sh_idx ctx' = 64 then sha1_process_message_block ctx' else ctx')"
  have "sha1_bits ctx + 8 < 2 ^ 64" using Cons.prems by simp
  note s = sha1_input_step[OF Cons.prems(1) this ctx'_def ctx''_def]
  have e: "sha1_input_loop (x # xs) ctx = sha1_input_loop xs ctx''"
    using Cons.prems(1) by (simp add: sha1_ok_def ctx'_def ctx''_def Let_def)
  have a: "absorb sha1_compress 64 (fst (sha1_state ctx'')) (snd (sha1_state ctx'') @ xs)
      = absorb sha1_compress 64 (fst (sha1_state ctx)) ((snd (sha1_state ctx) @ [x]) @ xs)"
    using s absorb_append[of 64 sha1_compress "sh_digest ctx" "take (sh_idx ctx) (sh_block ctx) @ [x]" xs]
    by (simp add: sha1_state_def split_beta)
  have "sha1_ok ctx''" "sha1_bits ctx'' + 8 * length xs < 2 ^ 64" using s Cons.prems by auto
  note i = Cons.IH[OF this]
  show ?case unfolding e using i s a by simp
qed

interpretation sha1: block_hash sha1_compress 64 "2 ^ 61" sha1_input sha1_state "\<lambda>ctx. sha1_bits ctx div 8" sha1_ok
proof unfold_locales
  fix c and xs :: "u8 list"
  assume c: "sha1_ok c" "sha1_bits c div 8 + length xs < (2 :: nat) ^ 61"
  have m: "sha1_bits c mod 8 = 0" using c(1) by (simp add: sha1_ok_def sha1_bits_def mod_add_eq[symmetric])
  obtain k where k: "sha1_bits c = 8 * k" using m by (metis dvdE mod_0_imp_dvd)
  have b: "sha1_bits c + 8 * length xs < 2 ^ 64" using c(2) by (simp add: k)
  show "sha1_ok (sha1_input c xs) \<and> sha1_state (sha1_input c xs) = absorb sha1_compress 64 (fst (sha1_state c)) (snd (sha1_state c) @ xs)
    \<and> sha1_bits (sha1_input c xs) div 8 = sha1_bits c div 8 + length xs"
    using sha1_input_loop[OF c(1) b] c(1) by (cases xs) (auto simp: sha1_input_def sha1_ok_def)
next
  show "sha1_ok c \<Longrightarrow> length (snd (sha1_state c)) = sha1_bits c div 8 mod 64" for c
    by (auto simp: sha1_ok_def sha1_state_def)
qed simp

section \<open>The digest\<close>

lemma sha1_zeros:
  assumes "sh_idx ctx \<le> n" "n \<le> length (sh_block ctx)"
  shows "sha1_zeros n ctx = ctx\<lparr>sh_block := take (sh_idx ctx) (sh_block ctx) @ replicate (n - sh_idx ctx) 0 @ drop n (sh_block ctx), sh_idx := n\<rparr>"
  using assms
proof (induction n ctx rule: sha1_zeros.induct)
  case (1 n ctx)
  show ?case
  proof (cases "sh_idx ctx < n")
    case True
    have t: "take (Suc (sh_idx ctx)) ((sh_block ctx)[sh_idx ctx := 0]) = take (sh_idx ctx) (sh_block ctx) @ [0]"
      using True 1(3) by (intro take_put) simp
    have d: "drop n ((sh_block ctx)[sh_idx ctx := 0]) = drop n (sh_block ctx)" using True by simp
    have "n - sh_idx ctx = Suc (n - Suc (sh_idx ctx))" using True by simp
    then show ?thesis using 1 True t d by (subst sha1_zeros.simps) (simp add: sha1_put_def)
  next
    case False
    then have "n = sh_idx ctx" using 1(2) by simp
    then show ?thesis by (subst sha1_zeros.simps) simp
  qed
qed

lemma put_at_end: "length xs = i \<Longrightarrow> (xs @ y # ys)[i := z] = xs @ z # ys"
  by (simp add: list_update_append)

lemma be_bytes_8:
  fixes h l :: u32
  shows "be_bytes 8 (of_nat (unat h * 2 ^ 32 + unat l) :: u64)
    = [ucast (drop_bit 24 h AND 0xFF), ucast (drop_bit 16 h AND 0xFF), ucast (drop_bit 8 h AND 0xFF), ucast (drop_bit 0 h AND 0xFF),
       ucast (drop_bit 24 l AND 0xFF), ucast (drop_bit 16 l AND 0xFF), ucast (drop_bit 8 l AND 0xFF), ucast (drop_bit 0 l AND 0xFF)]"
proof -
  have "(of_nat (unat h * 2 ^ 32 + unat l) :: u64) = push_bit 32 (ucast h) + ucast l"
    by (simp add: push_bit_eq_mult unsigned_of_nat)
  also have "\<dots> = push_bit 32 (ucast h) OR ucast l"
    by (rule disjunctive_add) (auto simp: bit_simps)
  finally have w: "(of_nat (unat h * 2 ^ 32 + unat l) :: u64) = push_bit 32 (ucast h) OR ucast l" .
  have hi: "(ucast (drop_bit k (push_bit 32 (ucast h) OR ucast l :: u64)) :: u8) = ucast (drop_bit (k - 32) h AND 0xFF)" if "32 \<le> k" "k \<le> 56" for k
    using that by (intro bit_word_eqI) (auto simp: bit_simps word_and_masks)
  have lo: "(ucast (drop_bit k (push_bit 32 (ucast h) OR ucast l :: u64)) :: u8) = ucast (drop_bit k l AND 0xFF)" if "k \<le> 24" for k
    using that by (intro bit_word_eqI) (auto simp: bit_simps word_and_masks)
  have u: "[0..<8] = [0, 1, 2, 3, 4, 5, 6, 7]" by (simp add: upt_conv_Cons)
  show ?thesis
    unfolding w be_bytes_def le_bytes_def u
    using lo[of 0] by (simp add: hi lo del: drop_bit_or)
qed

lemma update_last_eight:
  assumes "length xs = 56" "length ys = 8"
  shows "(xs @ ys)[56 := a, 57 := b, 58 := c, 59 := d, 60 := e, 61 := f, 62 := g, 63 := h] = xs @ [a, b, c, d, e, f, g, h]"
proof -
  obtain y0 y1 y2 y3 y4 y5 y6 y7 where "ys = [y0, y1, y2, y3, y4, y5, y6, y7]"
    using assms(2) by (auto simp: eval_nat_numeral length_Suc_conv)
  then show ?thesis using assms(1) by (simp add: list_update_append)
qed

lemma sha1_padmessage:
  assumes "sha1_ok ctx" and h: "h = sh_szhigh ctx" and l: "l = sh_szlow ctx"
  shows "sh_digest (sha1_padmessage ctx) = fst (absorb sha1_compress 64 (fst (sha1_state ctx))
    (snd (sha1_state ctx) @ 0x80 # replicate (pad_zeros 64 8 (sha1_bits ctx div 8)) 0 @ be_bytes 8 (of_nat (sha1_bits ctx) :: u64)))"
proof -
  define i where "i = sh_idx ctx"
  define r where "r = take i (sh_block ctx)"
  have o: "length (sh_block ctx) = 64" "i < 64" "length r = i" "i = sha1_bits ctx div 8 mod 64"
    using assms(1) by (auto simp: sha1_ok_def i_def r_def)
  have b: "be_bytes 8 (of_nat (sha1_bits ctx) :: u64)
    = [ucast (drop_bit 24 h AND 0xFF), ucast (drop_bit 16 h AND 0xFF), ucast (drop_bit 8 h AND 0xFF), ucast (drop_bit 0 h AND 0xFF),
       ucast (drop_bit 24 l AND 0xFF), ucast (drop_bit 16 l AND 0xFF), ucast (drop_bit 8 l AND 0xFF), ucast (drop_bit 0 l AND 0xFF)]"
    unfolding sha1_bits_def h l by (rule be_bytes_8)
  have t: "take (Suc i) ((sh_block ctx)[i := 0x80]) = r @ [0x80]" unfolding r_def using o by (intro take_put) simp
  have z: "sha1_zeros k (sha1_put 0x80 ctx) = (sha1_put 0x80 ctx)\<lparr>sh_block := r @ 0x80 # replicate (k - Suc i) 0 @ drop k (sh_block ctx), sh_idx := k\<rparr>"
    if "i < k" "k \<le> 64" for k
    using that o t by (subst sha1_zeros) (simp_all add: sha1_put_def i_def[symmetric])
  note p = absorb_padding[of r 64 8 "be_bytes 8 (of_nat (sha1_bits ctx) :: u64)" "sha1_bits ctx div 8" sha1_compress "sh_digest ctx"]
  have s: "sha1_state ctx = (sh_digest ctx, r)" by (simp add: sha1_state_def r_def i_def)
  show ?thesis
  proof (cases "i > 55")
    case False
    have u: "(r @ 0x80 # replicate (55 - i) 0 @ drop 56 (sh_block ctx))[56 := a0, 57 := a1, 58 := a2, 59 := a3, 60 := a4, 61 := a5, 62 := a6, 63 := a7]
        = r @ 0x80 # replicate (55 - i) 0 @ [a0, a1, a2, a3, a4, a5, a6, a7]" for a0 a1 a2 a3 a4 a5 a6 a7
      using update_last_eight[of "r @ 0x80 # replicate (55 - i) 0" "drop 56 (sh_block ctx)"] o False by simp
    have "sh_digest (sha1_padmessage ctx) = sha1_compress (sh_digest ctx) (r @ 0x80 # replicate (55 - i) 0 @ be_bytes 8 (of_nat (sha1_bits ctx) :: u64))"
      using False z[of 56] u
      by (simp add: sha1_padmessage_def Let_def i_def[symmetric] sha1_process_message_block_def sha1_process b sha1_put_def h l)
    then show ?thesis using p o False by (simp add: s)
  next
    case True
    let ?d = "sha1_compress (sh_digest ctx) (r @ 0x80 # replicate (63 - i) 0)"
    have u: "(replicate 56 0 @ ys)[56 := a0, 57 := a1, 58 := a2, 59 := a3, 60 := a4, 61 := a5, 62 := a6, 63 := a7]
        = replicate 56 0 @ [a0, a1, a2, a3, a4, a5, a6, a7]" if "length ys = 8" for ys and a0 a1 a2 a3 a4 a5 a6 a7 :: u8
      using that by (rule update_last_eight[of "replicate 56 0", simplified length_replicate, OF refl])
    define c1 where "c1 = sha1_process_message_block (sha1_zeros 64 (sha1_put 0x80 ctx))"
    have c1: "sh_digest c1 = ?d" "sh_idx c1 = 0" "length (sh_block c1) = 64" "sh_szhigh c1 = h" "sh_szlow c1 = l"
      using z[of 64] o by (simp_all add: c1_def sha1_process_message_block_def sha1_process sha1_put_def h l)
    have "sh_digest (sha1_padmessage ctx) = sha1_compress ?d (replicate 56 0 @ be_bytes 8 (of_nat (sha1_bits ctx) :: u64))"
      using True u[of "drop 56 (sh_block c1)"] c1 sha1_zeros[of c1 56]
      by (simp add: sha1_padmessage_def Let_def i_def[symmetric] c1_def[symmetric] sha1_process_message_block_def[of "_\<lparr>sh_block := _\<rparr>"] sha1_process b)
    then show ?thesis using p o True by (simp add: s)
  qed
qed

lemma sha1_pieces:
  assumes "length (sh_block ctx) = 64" "length (concat pieces) < 2 ^ 61"
  shows "\<exists>ctx'. sha1_result (foldl sha1_input (sha1_reset ctx) pieces) = (True, ctx') \<and> sh_digest ctx' = sha1_digest (concat pieces)"
proof -
  let ?c = "sha1_reset ctx"
  let ?d = "foldl sha1_input ?c pieces"
  have c: "sha1_ok ?c" "sha1_bits ?c = 0" "sha1_state ?c = (sha1_h0, [])"
    using assms(1) by (simp_all add: sha1_ok_def sha1_bits_def sha1_state_def sha1_reset_def)
  have "sha1_bits ?c div 8 + length (concat pieces) < 2 ^ 61" using assms(2) by (simp add: c)
  note f = sha1.fold_update[OF c(1) this] sha1.update[OF c(1) this]
  have d: "sha1_ok ?d" "sha1_state ?d = absorb sha1_compress 64 sha1_h0 (concat pieces)"
      "sha1_bits ?d div 8 = length (concat pieces)"
    using f by (simp_all add: c)
  have "sha1_bits ?d mod 8 = 0" using d(1) by (simp add: sha1_ok_def sha1_bits_def mod_add_eq[symmetric])
  then have n: "sha1_bits ?d = 8 * length (concat pieces)"
    using d(3) div_mult_mod_eq[of "sha1_bits ?d" 8] by linarith
  have "sh_digest (sha1_padmessage ?d) = sha1_digest (concat pieces)"
    using sha1_padmessage[OF d(1) refl refl] absorb_append[of 64 sha1_compress sha1_h0 "concat pieces"]
    by (simp add: d(2) n sha1_digest_def block_digest_def padding_def split_beta)
  then show ?thesis using d(1) by (simp add: sha1_result_def sha1_ok_def)
qed

text \<open>
  C21: SHA-1 of src/sha1.c is the SHA-1 of FIPS 180-4: whatever the pieces in which a message of fewer than 2^61 bytes is given to
  \<open>sha1_input\<close>, \<open>sha1_result\<close> succeeds and leaves the digest of the whole message, with its padding and bit length.
\<close>

theorem sha1_correct:
  assumes "length (sh_block ctx) = 64" "length (concat pieces) < 2 ^ 61"
  shows "\<exists>ctx'. sha1_result (foldl sha1_input (sha1_reset ctx) pieces) = (True, ctx') \<and> sh_digest ctx' = sha1_digest (concat pieces)"
  using assms by (rule sha1_pieces)

theorem sha1_correct_witness:
  "\<exists>ctx'. sha1_result (foldl sha1_input (sha1_reset \<lparr>sh_digest = [], sh_szlow = 0, sh_szhigh = 0, sh_block = replicate 64 0, sh_idx = 0,
      sh_computed = True, sh_corrupted = True\<rparr>) [[97], [98, 99]]) = (True, ctx') \<and> sh_digest ctx' = sha1_digest [97, 98, 99]"
  using sha1_correct[of "\<lparr>sh_digest = [], sh_szlow = 0, sh_szhigh = 0, sh_block = replicate 64 0, sh_idx = 0,
      sh_computed = True, sh_corrupted = True\<rparr>" "[[97], [98, 99]]"] by simp

end
