(* ===== verification/Md5.thy ===== *)
theory Md5 imports
  Block_Hash Quid
begin

text \<open>
  MD5: src/md5.c, as the code computes it, and as RFC 1321 defines it.
\<close>

section \<open>One block\<close>

type_synonym md5_vars = "u32 \<times> u32 \<times> u32 \<times> u32"

definition md5_F :: "u32 \<Rightarrow> u32 \<Rightarrow> u32 \<Rightarrow> u32" where
  "md5_F x y z = z XOR (x AND (y XOR z))"

definition md5_G :: "u32 \<Rightarrow> u32 \<Rightarrow> u32 \<Rightarrow> u32" where
  "md5_G x y z = y XOR (z AND (x XOR y))"

definition md5_H :: "u32 \<Rightarrow> u32 \<Rightarrow> u32 \<Rightarrow> u32" where
  "md5_H x y z = (x XOR y) XOR z"

definition md5_H2 :: "u32 \<Rightarrow> u32 \<Rightarrow> u32 \<Rightarrow> u32" where
  "md5_H2 x y z = x XOR (y XOR z)"

definition md5_I :: "u32 \<Rightarrow> u32 \<Rightarrow> u32 \<Rightarrow> u32" where
  "md5_I x y z = y XOR (x OR NOT z)"

text \<open>A word of the block, read in the host's order: the first byte is the lowest.\<close>

definition md5_word :: "u8 list \<Rightarrow> nat \<Rightarrow> u32" where
  "md5_word ptr n = ucast (ptr ! (n * 4)) OR push_bit 8 (ucast (ptr ! (n * 4 + 1)))
     OR push_bit 16 (ucast (ptr ! (n * 4 + 2))) OR push_bit 24 (ucast (ptr ! (n * 4 + 3)))"

text \<open>\<open>STEP(f, a, b, c, d, ...)\<close> changes \<open>a\<close>; the step that follows is \<open>STEP(f, d, a, b, c, ...)\<close>, so the result is turned.\<close>

definition md5_step :: "u8 list \<Rightarrow> (u32 \<Rightarrow> u32 \<Rightarrow> u32 \<Rightarrow> u32) \<Rightarrow> md5_vars \<Rightarrow> nat \<times> u32 \<times> nat \<Rightarrow> md5_vars" where
  "md5_step ptr f = (\<lambda>(a, b, c, d) (x, t, s).
     let a = a + (f b c d + md5_word ptr x + t);
         a = push_bit s a OR drop_bit (32 - s) (a AND 0xffffffff);
         a = a + b
     in (d, a, b, c))"

definition md5_round1 :: "(nat \<times> u32 \<times> nat) list" where
  "md5_round1 =
    [(0, 0xd76aa478, 7), (1, 0xe8c7b756, 12), (2, 0x242070db, 17), (3, 0xc1bdceee, 22),
     (4, 0xf57c0faf, 7), (5, 0x4787c62a, 12), (6, 0xa8304613, 17), (7, 0xfd469501, 22),
     (8, 0x698098d8, 7), (9, 0x8b44f7af, 12), (10, 0xffff5bb1, 17), (11, 0x895cd7be, 22),
     (12, 0x6b901122, 7), (13, 0xfd987193, 12), (14, 0xa679438e, 17), (15, 0x49b40821, 22)]"

definition md5_round2 :: "(nat \<times> u32 \<times> nat) list" where
  "md5_round2 =
    [(1, 0xf61e2562, 5), (6, 0xc040b340, 9), (11, 0x265e5a51, 14), (0, 0xe9b6c7aa, 20),
     (5, 0xd62f105d, 5), (10, 0x02441453, 9), (15, 0xd8a1e681, 14), (4, 0xe7d3fbc8, 20),
     (9, 0x21e1cde6, 5), (14, 0xc33707d6, 9), (3, 0xf4d50d87, 14), (8, 0x455a14ed, 20),
     (13, 0xa9e3e905, 5), (2, 0xfcefa3f8, 9), (7, 0x676f02d9, 14), (12, 0x8d2a4c8a, 20)]"

definition md5_round3 :: "(nat \<times> u32 \<times> nat) list" where
  "md5_round3 =
    [(5, 0xfffa3942, 4), (8, 0x8771f681, 11), (11, 0x6d9d6122, 16), (14, 0xfde5380c, 23),
     (1, 0xa4beea44, 4), (4, 0x4bdecfa9, 11), (7, 0xf6bb4b60, 16), (10, 0xbebfbc70, 23),
     (13, 0x289b7ec6, 4), (0, 0xeaa127fa, 11), (3, 0xd4ef3085, 16), (6, 0x04881d05, 23),
     (9, 0xd9d4d039, 4), (12, 0xe6db99e5, 11), (15, 0x1fa27cf8, 16), (2, 0xc4ac5665, 23)]"

definition md5_round4 :: "(nat \<times> u32 \<times> nat) list" where
  "md5_round4 =
    [(0, 0xf4292244, 6), (7, 0x432aff97, 10), (14, 0xab9423a7, 15), (5, 0xfc93a039, 21),
     (12, 0x655b59c3, 6), (3, 0x8f0ccc92, 10), (10, 0xffeff47d, 15), (1, 0x85845dd1, 21),
     (8, 0x6fa87e4f, 6), (15, 0xfe2ce6e0, 10), (6, 0xa3014314, 15), (13, 0x4e0811a1, 21),
     (4, 0xf7537e82, 6), (11, 0xbd3af235, 10), (2, 0x2ad7d2bb, 15), (9, 0xeb86d391, 21)]"

text \<open>In the third round \<open>H\<close> and \<open>H2\<close> alternate.\<close>

fun md5_steps3 :: "u8 list \<Rightarrow> md5_vars \<Rightarrow> (nat \<times> u32 \<times> nat) list \<Rightarrow> md5_vars" where
  "md5_steps3 ptr v (x # y # xs) = md5_steps3 ptr (md5_step ptr md5_H2 (md5_step ptr md5_H v x) y) xs"
| "md5_steps3 ptr v xs = v"

definition md5_block :: "md5_vars \<Rightarrow> u8 list \<Rightarrow> md5_vars" where
  "md5_block = (\<lambda>(saved_a, saved_b, saved_c, saved_d) ptr.
     let v = foldl (md5_step ptr md5_F) (saved_a, saved_b, saved_c, saved_d) md5_round1;
         v = foldl (md5_step ptr md5_G) v md5_round2;
         v = md5_steps3 ptr v md5_round3;
         (a, b, c, d) = foldl (md5_step ptr md5_I) v md5_round4
     in (a + saved_a, b + saved_b, c + saved_c, d + saved_d))"

text \<open>\<open>body\<close> takes a positive number of whole blocks.\<close>

function md5_body :: "md5_vars \<Rightarrow> u8 list \<Rightarrow> md5_vars" where
  "md5_body v ptr =
     (let v = md5_block v (take 64 ptr)
      in if length ptr \<le> 64 then v else md5_body v (drop 64 ptr))"
  by pat_completeness auto
termination
  by (relation "measure (\<lambda>(v, ptr). length ptr)") auto

declare md5_body.simps [simp del]

section \<open>The context\<close>

record md5_ctx =
  m5_lo :: u32
  m5_hi :: u32
  m5_vars :: md5_vars
  m5_buffer :: "u8 list"

definition md5_h0 :: md5_vars where
  "md5_h0 = (0x67452301, 0xefcdab89, 0x98badcfe, 0x10325476)"

definition md5_init :: "md5_ctx \<Rightarrow> md5_ctx" where
  "md5_init ctx = ctx\<lparr>m5_vars := md5_h0, m5_lo := 0, m5_hi := 0\<rparr>"

definition md5_copy :: "nat \<Rightarrow> u8 list \<Rightarrow> md5_ctx \<Rightarrow> md5_ctx" where
  "md5_copy pos xs ctx = ctx\<lparr>m5_buffer := take pos (m5_buffer ctx) @ xs @ drop (pos + length xs) (m5_buffer ctx)\<rparr>"

definition md5_run :: "u8 list \<Rightarrow> md5_ctx \<Rightarrow> md5_ctx" where
  "md5_run xs ctx = ctx\<lparr>m5_vars := md5_body (m5_vars ctx) xs\<rparr>"

definition md5_count :: "nat \<Rightarrow> md5_ctx \<Rightarrow> md5_ctx" where
  "md5_count len ctx =
     (let saved_lo = m5_lo ctx;
          lo = ucast ((ucast saved_lo + of_nat len :: u64) AND 0x1fffffff);
          hi = (if lo < saved_lo then m5_hi ctx + 1 else m5_hi ctx)
      in ctx\<lparr>m5_lo := lo, m5_hi := hi + of_nat (len div 2 ^ 29)\<rparr>)"

definition md5_tail :: "u8 list \<Rightarrow> md5_ctx \<Rightarrow> md5_ctx" where
  "md5_tail data ctx =
     (let len = length data; whole = len - len mod 64;
          ctx = (if len \<ge> 64 then md5_run (take whole data) ctx else ctx);
          data = (if len \<ge> 64 then drop whole data else data)
      in md5_copy 0 data ctx)"

definition md5_update :: "md5_ctx \<Rightarrow> u8 list \<Rightarrow> md5_ctx" where
  "md5_update ctx data =
     (let used = unat (m5_lo ctx AND 0x3f);
          ctx = md5_count (length data) ctx;
          available = 64 - used
      in if used \<noteq> 0 then
           (if length data < available then md5_copy used data ctx
            else (let ctx = md5_copy used (take available data) ctx
              in md5_tail (drop available data) (md5_run (m5_buffer ctx) ctx)))
         else md5_tail data ctx)"

definition md5_result :: "md5_vars \<Rightarrow> u8 list" where
  "md5_result = (\<lambda>(a, b, c, d). concat (map (\<lambda>w. map (\<lambda>i. ucast (drop_bit i w)) [0, 8, 16, 24]) [a, b, c, d]))"

definition md5_finish :: "md5_ctx \<Rightarrow> u8 list" where
  "md5_finish ctx =
     (let used = unat (m5_lo ctx AND 0x3f);
          ctx = md5_copy used [0x80] ctx;
          used = used + 1;
          available = 64 - used;
          (ctx, used, available) =
            (if available < 8 then (let ctx = md5_copy used (replicate available 0) ctx in (md5_run (m5_buffer ctx) ctx, 0, 64))
             else (ctx, used, available));
          ctx = md5_copy used (replicate (available - 8) 0) ctx;
          ctx = ctx\<lparr>m5_lo := push_bit 3 (m5_lo ctx)\<rparr>;
          byte = (\<lambda>i w. ucast (drop_bit i w));
          l = m5_lo ctx; h = m5_hi ctx;
          ctx = md5_copy 56 [byte 0 l, byte 8 l, byte 16 l, byte 24 l, byte 0 h, byte 8 h, byte 16 h, byte 24 h] ctx
      in md5_result (m5_vars (md5_run (m5_buffer ctx) ctx)))"

text \<open>The context is wiped at the end.\<close>

definition md5_final :: "md5_ctx \<Rightarrow> u8 list \<times> md5_ctx" where
  "md5_final ctx = (md5_finish ctx, \<lparr>m5_lo = 0, m5_hi = 0, m5_vars = (0, 0, 0, 0), m5_buffer = replicate 64 0\<rparr>)"

definition md5_strsum :: "u8 list \<Rightarrow> string" where
  "md5_strsum digest = concat (map (\<lambda>i. hex_pad 2 (unat (digest ! i))) [0..<16])"

section \<open>RFC 1321\<close>

definition md5_T :: "u32 list" where
  "md5_T =
    [0xd76aa478, 0xe8c7b756, 0x242070db, 0xc1bdceee, 0xf57c0faf, 0x4787c62a, 0xa8304613, 0xfd469501,
     0x698098d8, 0x8b44f7af, 0xffff5bb1, 0x895cd7be, 0x6b901122, 0xfd987193, 0xa679438e, 0x49b40821,
     0xf61e2562, 0xc040b340, 0x265e5a51, 0xe9b6c7aa, 0xd62f105d, 0x02441453, 0xd8a1e681, 0xe7d3fbc8,
     0x21e1cde6, 0xc33707d6, 0xf4d50d87, 0x455a14ed, 0xa9e3e905, 0xfcefa3f8, 0x676f02d9, 0x8d2a4c8a,
     0xfffa3942, 0x8771f681, 0x6d9d6122, 0xfde5380c, 0xa4beea44, 0x4bdecfa9, 0xf6bb4b60, 0xbebfbc70,
     0x289b7ec6, 0xeaa127fa, 0xd4ef3085, 0x04881d05, 0xd9d4d039, 0xe6db99e5, 0x1fa27cf8, 0xc4ac5665,
     0xf4292244, 0x432aff97, 0xab9423a7, 0xfc93a039, 0x655b59c3, 0x8f0ccc92, 0xffeff47d, 0x85845dd1,
     0x6fa87e4f, 0xfe2ce6e0, 0xa3014314, 0x4e0811a1, 0xf7537e82, 0xbd3af235, 0x2ad7d2bb, 0xeb86d391]"

definition md5_k :: "nat \<Rightarrow> nat" where
  "md5_k i = (if i < 16 then i else if i < 32 then (1 + 5 * i) mod 16 else if i < 48 then (5 + 3 * i) mod 16 else (7 * i) mod 16)"

definition md5_s :: "nat \<Rightarrow> nat" where
  "md5_s i = [[7, 12, 17, 22], [5, 9, 14, 20], [4, 11, 16, 23], [6, 10, 15, 21]] ! (i div 16) ! (i mod 4)"

definition md5_f :: "nat \<Rightarrow> u32 \<Rightarrow> u32 \<Rightarrow> u32 \<Rightarrow> u32" where
  "md5_f i x y z = (if i < 16 then (x AND y) OR (NOT x AND z) else if i < 32 then (x AND z) OR (y AND NOT z)
     else if i < 48 then x XOR y XOR z else y XOR (x OR NOT z))"

definition md5_compress :: "md5_vars \<Rightarrow> u8 list \<Rightarrow> md5_vars" where
  "md5_compress h b =
     (let (a0, b0, c0, d0) = h;
          (a, b, c, d) = foldl (\<lambda>(a, b', c, d) i.
            (d, b' + word_rotl (md5_s i) (a + md5_f i b' c d + md5_word b (md5_k i) + md5_T ! i), b', c)) h [0..<64]
      in (a0 + a, b0 + b, c0 + c, d0 + d))"

definition md5_digest :: "u8 list \<Rightarrow> u8 list" where
  "md5_digest msg = md5_result (block_digest md5_compress 64 8 (\<lambda>n. le_bytes 8 (of_nat (8 * n) :: u64)) md5_h0 msg)"

section \<open>A block of the code is a block of the standard\<close>

lemma md5_forms:
  "md5_F x y z = (x AND y) OR (NOT x AND z)" "md5_G x y z = (x AND z) OR (y AND NOT z)"
  "md5_H x y z = x XOR y XOR z" "md5_H2 x y z = x XOR y XOR z"
  unfolding md5_F_def md5_G_def md5_H_def md5_H2_def by (rule bit_word_eqI, auto simp: bit_simps)+

lemma md5_and_ones [simp]: "(x :: u32) AND 0xffffffff = x"
  by (rule bit_word_eqI) (auto simp: bit_simps word_and_masks)

definition md5_item :: "nat \<Rightarrow> nat \<times> u32 \<times> nat" where
  "md5_item i = (md5_k i, md5_T ! i, md5_s i)"

lemma md5_rounds:
  "md5_round1 = map md5_item [0..<16]" "md5_round2 = map md5_item [16..<32]"
  "md5_round3 = map md5_item [32..<48]" "md5_round4 = map md5_item [48..<64]"
  by code_simp+

lemma md5_s_small: "i < 64 \<Longrightarrow> md5_s i < 32"
proof -
  have "\<forall>i<64. md5_s i < 32" by code_simp
  then show "i < 64 \<Longrightarrow> md5_s i < 32" by blast
qed

abbreviation md5_standard :: "u8 list \<Rightarrow> md5_vars \<Rightarrow> nat \<Rightarrow> md5_vars" where
  "md5_standard b \<equiv> \<lambda>(a, b', c, d) i.
     (d, b' + word_rotl (md5_s i) (a + md5_f i b' c d + md5_word b (md5_k i) + md5_T ! i), b', c)"

lemma md5_step_standard:
  assumes "i < 64" "\<And>x y z. f x y z = md5_f i x y z"
  shows "md5_step b f v (md5_item i) = md5_standard b v i"
proof -
  have r: "push_bit (md5_s i) w OR drop_bit (32 - md5_s i) w = word_rotl (md5_s i) w" for w :: u32
    using md5_s_small[OF assms(1)] rotl_shifts[of "md5_s i" w] by simp
  show ?thesis using assms(2) by (cases v) (simp add: md5_step_def md5_item_def Let_def add_ac r)
qed

lemma md5_fold_standard:
  assumes "j \<le> 64" "\<And>i x y z. l \<le> i \<Longrightarrow> i < j \<Longrightarrow> f x y z = md5_f i x y z"
  shows "foldl (md5_step b f) v (map md5_item [l..<j]) = foldl (md5_standard b) v [l..<j]"
  unfolding foldl_map using assms by (intro foldl_cong_set md5_step_standard) auto

lemma md5_steps3_foldl:
  "md5_H2 = md5_H \<Longrightarrow> even (length xs) \<Longrightarrow> md5_steps3 b v xs = foldl (md5_step b md5_H) v xs"
  by (induction b v xs rule: md5_steps3.induct) auto

lemma md5_block: "md5_block v b = md5_compress v b"
proof -
  have h: "md5_H2 = md5_H" by (intro ext) (simp add: md5_forms)
  have i: "[0..<64] = [0..<16] @ [16..<32] @ [32..<48] @ [48..<64]"
    by (simp only: upt_split[of 0 16 64] upt_split[of 16 32 64] upt_split[of 32 48 64] numeral_le_iff semiring_norm zero_le)
  have 1: "foldl (md5_step b md5_F) v md5_round1 = foldl (md5_standard b) v [0..<16]" for v
    unfolding md5_rounds by (rule md5_fold_standard) (simp_all add: md5_f_def md5_forms)
  have 2: "foldl (md5_step b md5_G) v md5_round2 = foldl (md5_standard b) v [16..<32]" for v
    unfolding md5_rounds by (rule md5_fold_standard) (simp_all add: md5_f_def md5_forms)
  have e: "even (length (map md5_item [32..<48]))" by simp
  have 3: "md5_steps3 b v md5_round3 = foldl (md5_standard b) v [32..<48]" for v
    unfolding md5_rounds md5_steps3_foldl[OF h e] by (rule md5_fold_standard) (simp_all add: md5_f_def md5_forms)
  have 4: "foldl (md5_step b md5_I) v md5_round4 = foldl (md5_standard b) v [48..<64]" for v
    unfolding md5_rounds by (rule md5_fold_standard) (simp_all add: md5_f_def md5_I_def)
  obtain a0 b0 c0 d0 where v: "v = (a0, b0, c0, d0)" by (cases v)
  obtain a b' c d where f: "foldl (md5_standard b) (foldl (md5_standard b) (foldl (md5_standard b)
      (foldl (md5_standard b) (a0, b0, c0, d0) [0..<16]) [16..<32]) [32..<48]) [48..<64] = (a, b', c, d)"
    by (rule prod_cases4)
  show ?thesis
    unfolding md5_block_def md5_compress_def Let_def v prod.case i foldl_append 1 2 3 4 f
    by (simp only: add.commute)
qed

lemma md5_body:
  "length xs mod 64 = 0 \<Longrightarrow> xs \<noteq> [] \<Longrightarrow> absorb md5_compress 64 v (xs @ ys) = absorb md5_compress 64 (md5_body v xs) ys"
proof (induction v xs rule: md5_body.induct)
  case (1 v xs)
  have l: "64 \<le> length xs" using 1(2,3) by (cases "length xs < 64") auto
  have a: "absorb md5_compress 64 v (take 64 xs @ drop 64 xs @ ys) = absorb md5_compress 64 (md5_block v (take 64 xs)) (drop 64 xs @ ys)"
    using l by (subst absorb_block) (simp_all add: md5_block)
  show ?case
  proof (cases "length xs \<le> 64")
    case True
    then show ?thesis using a by (subst md5_body.simps) simp
  next
    case False
    have m: "length (drop 64 xs) mod 64 = 0" using 1(2) l by (simp add: le_mod_geq)
    show ?thesis using 1(1)[OF refl _ m] False a by (subst md5_body.simps) (simp flip: append_assoc)
  qed
qed

section \<open>Feeding\<close>

definition md5_used :: "md5_ctx \<Rightarrow> nat" where
  "md5_used ctx = unat (m5_lo ctx) mod 64"

definition md5_state :: "md5_ctx \<Rightarrow> md5_vars \<times> u8 list" where
  "md5_state ctx = (m5_vars ctx, take (md5_used ctx) (m5_buffer ctx))"

definition md5_total :: "md5_ctx \<Rightarrow> nat" where
  "md5_total ctx = unat (m5_hi ctx) * 2 ^ 29 + unat (m5_lo ctx)"

definition md5_ok :: "md5_ctx \<Rightarrow> bool" where
  "md5_ok ctx \<longleftrightarrow> length (m5_buffer ctx) = 64 \<and> unat (m5_lo ctx) < 2 ^ 29"

lemma md5_used: "unat (m5_lo ctx AND 0x3f) = md5_used ctx"
  unfolding word_and_masks unfolding unsigned_take_bit_eq by (simp add: md5_used_def take_bit_eq_mod)

lemma total_mod_64: "(h * 2 ^ 29 + l) mod 64 = l mod (64 :: nat)"
proof -
  have "h * 2 ^ 29 + l = 64 * (h * 2 ^ 23) + l" by simp
  then show ?thesis by (simp only: mod_mult_self4)
qed

lemma md5_used_total: "md5_total ctx mod 64 = md5_used ctx"
  unfolding md5_total_def md5_used_def by (rule total_mod_64)

lemma md5_count:
  assumes "unat (m5_lo ctx) < 2 ^ 29" "md5_total ctx + n < 2 ^ 61"
  shows "\<exists>l h. md5_count n ctx = ctx\<lparr>m5_lo := l, m5_hi := h\<rparr> \<and> unat l < 2 ^ 29 \<and> unat h * 2 ^ 29 + unat l = md5_total ctx + n"
proof -
  define lo where "lo = unat (m5_lo ctx)"
  define hi where "hi = unat (m5_hi ctx)"
  define l :: u32 where "l = ucast ((ucast (m5_lo ctx) + of_nat n :: u64) AND 0x1fffffff)"
  have b: "lo < 2 ^ 29" "hi * 2 ^ 29 + lo + n < 2 ^ 61" using assms by (simp_all add: lo_def hi_def md5_total_def)
  have s: "unat (ucast (m5_lo ctx) + of_nat n :: u64) = lo + n"
    using b by (subst unat_add_no_wrap) (simp_all add: lo_def unsigned_of_nat take_bit_nat_eq_self)
  have m: "(0x1fffffff :: u64) = mask 29" by (simp add: mask_eq_exp_minus_1)
  have "unat ((ucast (m5_lo ctx) + of_nat n :: u64) AND 0x1fffffff) = (lo + n) mod 2 ^ 29"
    unfolding m take_bit_eq_mask[symmetric] unsigned_take_bit_eq s by (simp add: take_bit_eq_mod)
  then have l: "unat l = (lo + n) mod 2 ^ 29"
    by (simp add: l_def unsigned_ucast_eq take_bit_nat_eq_self)
  define carry :: nat where "carry = (if l < m5_lo ctx then 1 else 0)"
  define h :: u32 where "h = (if l < m5_lo ctx then m5_hi ctx + 1 else m5_hi ctx) + of_nat (n div 2 ^ 29)"
  have e: "md5_count n ctx = ctx\<lparr>m5_lo := l, m5_hi := h\<rparr>"
    by (simp add: md5_count_def Let_def l_def h_def)
  have q: "(lo + n) div 2 ^ 29 = n div 2 ^ 29 + carry"
  proof -
    define r where "r = n mod 2 ^ 29"
    define k where "k = n div 2 ^ 29"
    have n: "n = k * 2 ^ 29 + r" "r < 2 ^ 29" unfolding r_def k_def by simp_all
    have less: "l < m5_lo ctx \<longleftrightarrow> (lo + r) mod 2 ^ 29 < lo"
      by (simp add: word_less_nat_alt l n(1) lo_def[symmetric] add.left_commute[of lo])
    have "(lo + n) div 2 ^ 29 = k + (lo + r) div 2 ^ 29"
      by (simp add: n(1) add.left_commute[of lo])
    also have "(lo + r) div 2 ^ 29 = carry"
    proof (cases "lo + r < 2 ^ 29")
      case True
      then show ?thesis using less by (simp add: carry_def)
    next
      case False
      then have "(lo + r) div 2 ^ 29 = 1" "(lo + r) mod 2 ^ 29 = lo + r - 2 ^ 29"
        using b(1) n(2) by (simp_all add: div_nat_eqI le_mod_geq)
      then show ?thesis using less False b(1) n(2) by (simp add: carry_def)
    qed
    finally show ?thesis by (simp add: k_def)
  qed
  have split: "((lo + n) div 2 ^ 29) * 2 ^ 29 + unat l = lo + n" by (simp add: l)
  have total: "(hi + carry + n div 2 ^ 29) * 2 ^ 29 + unat l = hi * 2 ^ 29 + (lo + n)"
    using split q by (simp add: algebra_simps)
  then have c: "hi + carry + n div 2 ^ 29 < 2 ^ 32" using b(2) by simp
  define m where "m = hi + carry + n div 2 ^ 29"
  have "h = of_nat m" by (simp add: h_def carry_def hi_def m_def)
  moreover have "m < 2 ^ 32" using c by (simp only: m_def)
  ultimately have "unat h = m" by (simp add: unsigned_of_nat take_bit_nat_eq_self)
  then have "unat h = hi + carry + n div 2 ^ 29" by (simp only: m_def)
  then have "unat h * 2 ^ 29 + unat l = md5_total ctx + n"
    using total by (simp add: md5_total_def hi_def lo_def)
  moreover have "unat l < 2 ^ 29" by (simp add: l)
  ultimately show ?thesis using e by blast
qed

lemma md5_tail:
  assumes "length (m5_buffer ctx) = 64"
  shows "\<exists>buf. length buf = 64 \<and> md5_tail data ctx = ctx\<lparr>m5_vars := fst (absorb md5_compress 64 (m5_vars ctx) data), m5_buffer := buf\<rparr>
    \<and> take (length data mod 64) buf = snd (absorb md5_compress 64 (m5_vars ctx) data)"
proof (cases "length data \<ge> 64")
  case False
  then show ?thesis using assms by (intro exI[of _ "data @ drop (length data) (m5_buffer ctx)"]) (simp add: md5_tail_def Let_def md5_copy_def)
next
  case True
  let ?w = "length data - length data mod 64"
  let ?v = "md5_body (m5_vars ctx) (take ?w data)"
  have w: "?w \<le> length data" "?w mod 64 = 0" "0 < ?w"
    using True by (simp_all add: minus_mod_eq_mult_div)
  have r: "length (drop ?w data) = length data mod 64" using w(1) by simp
  have "absorb md5_compress 64 (m5_vars ctx) (take ?w data @ drop ?w data) = absorb md5_compress 64 ?v (drop ?w data)"
    using w by (intro md5_body) auto
  then have a: "absorb md5_compress 64 (m5_vars ctx) data = (?v, drop ?w data)" using r by simp
  show ?thesis
    using True assms r a
    by (intro exI[of _ "drop ?w data @ drop (length data mod 64) (m5_buffer ctx)"]) (simp add: md5_tail_def Let_def md5_copy_def md5_run_def)
qed

lemma md5_update:
  assumes "md5_ok ctx" "md5_total ctx + length data < 2 ^ 61"
  shows "md5_ok (md5_update ctx data) \<and> md5_state (md5_update ctx data) = absorb md5_compress 64 (fst (md5_state ctx)) (snd (md5_state ctx) @ data)
    \<and> md5_total (md5_update ctx data) = md5_total ctx + length data"
proof -
  obtain l h where c: "md5_count (length data) ctx = ctx\<lparr>m5_lo := l, m5_hi := h\<rparr>" "unat l < 2 ^ 29"
      "unat h * 2 ^ 29 + unat l = md5_total ctx + length data"
    using md5_count[of ctx "length data"] assms by (auto simp: md5_ok_def)
  define u where "u = md5_used ctx"
  define r where "r = take u (m5_buffer ctx)"
  define c1 where "c1 = ctx\<lparr>m5_lo := l, m5_hi := h\<rparr>"
  have o: "length (m5_buffer ctx) = 64" "u < 64" "length r = u"
    using assms(1) by (auto simp: md5_ok_def u_def r_def md5_used_def)
  have l: "unat l mod 64 = (u + length data) mod 64"
  proof -
    have "unat l mod 64 = (md5_total ctx + length data) mod 64" using c(3) total_mod_64[of "unat h" "unat l"] by simp
    also have "\<dots> = (md5_total ctx mod 64 + length data) mod 64" by (simp only: mod_add_left_eq)
    finally show ?thesis by (simp only: md5_used_total u_def)
  qed
  have s: "md5_state ctx = (m5_vars ctx, r)" by (simp add: md5_state_def r_def u_def)
  have t: "md5_total (c1\<lparr>m5_vars := v, m5_buffer := b\<rparr>) = md5_total ctx + length data" for v b
    using c(3) by (simp add: md5_total_def c1_def)
  have finish: "md5_ok (c1\<lparr>m5_vars := v, m5_buffer := b\<rparr>) \<and> md5_state (c1\<lparr>m5_vars := v, m5_buffer := b\<rparr>) = (v, take (unat l mod 64) b)"
    if "length b = 64" for v b
    using that c(2) by (simp add: md5_ok_def md5_state_def md5_used_def c1_def)
  show ?thesis
  proof (cases "u = 0")
    case True
    then have "md5_update ctx data = md5_tail data c1" by (simp add: md5_update_def Let_def md5_used u_def c c1_def)
    moreover obtain b where "length b = 64" "md5_tail data c1 = c1\<lparr>m5_vars := fst (absorb md5_compress 64 (m5_vars ctx) data), m5_buffer := b\<rparr>"
        "take (length data mod 64) b = snd (absorb md5_compress 64 (m5_vars ctx) data)"
      using md5_tail[of c1 data] o by (auto simp: c1_def)
    ultimately show ?thesis using finish[of b] t l True r_def by (simp add: s)
  next
    case False
    show ?thesis
    proof (cases "length data < 64 - u")
      case True
      let ?b = "r @ data @ drop (u + length data) (m5_buffer ctx)"
      have e: "md5_update ctx data = c1\<lparr>m5_vars := m5_vars ctx, m5_buffer := ?b\<rparr>"
        using True False by (simp add: md5_update_def Let_def md5_used u_def[symmetric] c md5_copy_def c1_def r_def)
      have "length ?b = 64" "take (unat l mod 64) ?b = r @ data" using o True l by simp_all
      then show ?thesis unfolding e using finish[of ?b] t o True by (simp add: s)
    next
      case no: False
      let ?b = "r @ take (64 - u) data"
      define c2 where "c2 = c1\<lparr>m5_buffer := ?b, m5_vars := md5_compress (m5_vars ctx) ?b\<rparr>"
      have b: "length ?b = 64" using o no by simp
      have body: "md5_body (m5_vars ctx) ?b = md5_compress (m5_vars ctx) ?b"
        using b by (subst md5_body.simps) (simp add: md5_block o(3))
      have e: "md5_update ctx data = md5_tail (drop (64 - u) data) c2"
        using no False o body
        by (simp add: md5_update_def Let_def md5_used u_def[symmetric] c md5_copy_def md5_run_def c1_def c2_def r_def)
      obtain bf where bf: "length bf = 64"
        "md5_tail (drop (64 - u) data) c2 = c2\<lparr>m5_vars := fst (absorb md5_compress 64 (m5_vars c2) (drop (64 - u) data)), m5_buffer := bf\<rparr>"
        "take ((length data - (64 - u)) mod 64) bf = snd (absorb md5_compress 64 (m5_vars c2) (drop (64 - u) data))"
        using md5_tail[of c2 "drop (64 - u) data"] b by (auto simp: c2_def)
      have m: "unat l mod 64 = (length data - (64 - u)) mod 64"
        using l no o(2) le_mod_geq[of 64 "u + length data"] by (simp add: add.commute)
      have "absorb md5_compress 64 (m5_vars ctx) (?b @ drop (64 - u) data) = absorb md5_compress 64 (m5_vars c2) (drop (64 - u) data)"
        using b by (subst absorb_block) (simp_all add: c2_def)
      then have a: "absorb md5_compress 64 (m5_vars ctx) (r @ data) = absorb md5_compress 64 (m5_vars c2) (drop (64 - u) data)"
        by simp
      show ?thesis unfolding e bf(2) using finish[OF bf(1)] t bf(3) by (simp add: s a m c2_def)
    qed
  qed
qed

interpretation md5: block_hash md5_compress 64 "2 ^ 61" md5_update md5_state md5_total md5_ok
proof unfold_locales
  show "md5_ok c \<Longrightarrow> length (snd (md5_state c)) = md5_total c mod 64" for c
    by (simp add: md5_used_total md5_state_def md5_ok_def) (simp add: md5_used_def)
qed (use md5_update in simp_all)

section \<open>The digest\<close>

lemma le_bytes_8:
  fixes h l :: u32
  assumes "unat l < 2 ^ 29"
  shows "le_bytes 8 (of_nat (8 * (unat h * 2 ^ 29 + unat l)) :: u64)
    = (let l = push_bit 3 l in [ucast (drop_bit 0 l), ucast (drop_bit 8 l), ucast (drop_bit 16 l), ucast (drop_bit 24 l),
        ucast (drop_bit 0 h), ucast (drop_bit 8 h), ucast (drop_bit 16 h), ucast (drop_bit 24 h)])"
proof -
  define k where "k = push_bit 3 l"
  have uk: "unat k = 8 * unat l"
    using assms unat_mult_no_wrap[of l 8] by (simp add: k_def push_bit_eq_mult)
  have "(of_nat (8 * (unat h * 2 ^ 29 + unat l)) :: u64) = of_nat (unat h * 2 ^ 32 + unat k)"
    by (simp add: uk algebra_simps)
  also have "\<dots> = push_bit 32 (ucast h) + ucast k"
    by (simp add: push_bit_eq_mult unsigned_of_nat)
  also have "\<dots> = push_bit 32 (ucast h) OR ucast k"
    by (rule disjunctive_add) (auto simp: bit_simps)
  finally have w: "(of_nat (8 * (unat h * 2 ^ 29 + unat l)) :: u64) = push_bit 32 (ucast h) OR ucast k" .
  have hi: "(ucast (drop_bit i (push_bit 32 (ucast h) OR ucast k :: u64)) :: u8) = ucast (drop_bit (i - 32) h)" if "32 \<le> i" "i \<le> 56" for i
    using that by (intro bit_word_eqI) (auto simp: bit_simps)
  have lo: "(ucast (drop_bit i (push_bit 32 (ucast h) OR ucast k :: u64)) :: u8) = ucast (drop_bit i k)" if "i \<le> 24" for i
    using that by (intro bit_word_eqI) (auto simp: bit_simps)
  have u: "[0..<8] = [0, 1, 2, 3, 4, 5, 6, 7]" by (simp add: upt_conv_Cons)
  show ?thesis
    unfolding w le_bytes_def u Let_def k_def[symmetric]
    using lo[of 0] by (simp add: hi lo del: drop_bit_or)
qed

lemma md5_finish:
  assumes "md5_ok ctx"
  shows "md5_finish ctx = md5_result (fst (absorb md5_compress 64 (fst (md5_state ctx))
    (snd (md5_state ctx) @ 0x80 # replicate (pad_zeros 64 8 (md5_total ctx)) 0 @ le_bytes 8 (of_nat (8 * md5_total ctx) :: u64))))"
proof -
  define u where "u = md5_used ctx"
  define r where "r = take u (m5_buffer ctx)"
  define len where "len = le_bytes 8 (of_nat (8 * md5_total ctx) :: u64)"
  have o: "length (m5_buffer ctx) = 64" "u < 64" "length r = u" "unat (m5_lo ctx) < 2 ^ 29" "u = md5_total ctx mod 64"
    using assms by (auto simp: md5_ok_def u_def r_def md5_used_def md5_used_total)
  have s: "md5_state ctx = (m5_vars ctx, r)" by (simp add: md5_state_def r_def u_def)
  have len: "len = (let l = push_bit 3 (m5_lo ctx); h = m5_hi ctx in [ucast (drop_bit 0 l), ucast (drop_bit 8 l), ucast (drop_bit 16 l), ucast (drop_bit 24 l),
        ucast (drop_bit 0 h), ucast (drop_bit 8 h), ucast (drop_bit 16 h), ucast (drop_bit 24 h)])"
    unfolding len_def md5_total_def using le_bytes_8[OF o(4)] by (simp add: Let_def)
  have body: "length b = 64 \<Longrightarrow> md5_body v b = md5_compress v b" for v b
    by (subst md5_body.simps) (simp add: md5_block)
  note p = absorb_padding[of r 64 8 len "md5_total ctx" md5_compress "m5_vars ctx", unfolded o(3)]
  have ll: "length len = 8" by (simp add: len_def)
  have copy: "m5_buffer (md5_copy i xs c) = take i (m5_buffer c) @ xs @ drop (i + length xs) (m5_buffer c)"
      "m5_vars (md5_copy i xs c) = m5_vars c" "m5_lo (md5_copy i xs c) = m5_lo c" "m5_hi (md5_copy i xs c) = m5_hi c" for i xs c
    by (simp_all add: md5_copy_def)
  have run: "m5_buffer (md5_run xs c) = m5_buffer c" "m5_vars (md5_run xs c) = md5_body (m5_vars c) xs"
      "m5_lo (md5_run xs c) = m5_lo c" "m5_hi (md5_run xs c) = m5_hi c" for xs c
    by (simp_all add: md5_run_def)
  show ?thesis
  proof (cases "u + 1 + 8 \<le> 64")
    case True
    then have n: "\<not> 63 - u < 8" by simp
    have "md5_finish ctx = md5_result (md5_body (m5_vars ctx) (r @ 0x80 # replicate (55 - u) 0 @ len))"
      unfolding md5_finish_def Let_def md5_used u_def[symmetric]
      using True o(1,2,3) n by (simp add: copy run r_def len Let_def)
    also have "\<dots> = md5_result (md5_compress (m5_vars ctx) (r @ 0x80 # replicate (55 - u) 0 @ len))"
      using o True ll by (subst body) simp_all
    finally show ?thesis unfolding len_def[symmetric] s fst_conv snd_conv using p o True ll by simp
  next
    case False
    then have n: "63 - u < 8" by simp
    let ?d = "md5_compress (m5_vars ctx) (r @ 0x80 # replicate (63 - u) 0)"
    have b1: "length (r @ 0x80 # replicate (63 - u) 0) = 64" using o by simp
    have "md5_finish ctx = md5_result (md5_body (md5_body (m5_vars ctx) (r @ 0x80 # replicate (63 - u) 0)) (replicate 56 0 @ len))"
      unfolding md5_finish_def Let_def md5_used u_def[symmetric]
      using False o(1,2,3) n by (simp add: copy run r_def len Let_def)
    also have "\<dots> = md5_result (md5_compress ?d (replicate 56 0 @ len))"
      unfolding body[OF b1] using ll by (subst body) simp_all
    finally show ?thesis unfolding len_def[symmetric] s fst_conv snd_conv using p o False ll by simp
  qed
qed

text \<open>
  C22: MD5 of src/md5.c is the MD5 of RFC 1321: whatever the pieces in which a message of fewer than 2^61 bytes is given to
  \<open>md5_update\<close>, \<open>md5_final\<close> returns the digest of the whole message.
\<close>

theorem md5_correct:
  assumes "length (m5_buffer ctx) = 64" "length (concat pieces) < 2 ^ 61"
  shows "fst (md5_final (foldl md5_update (md5_init ctx) pieces)) = md5_digest (concat pieces)"
proof -
  let ?c = "md5_init ctx"
  let ?d = "foldl md5_update ?c pieces"
  have c: "md5_ok ?c" "md5_total ?c = 0" "md5_state ?c = (md5_h0, [])"
    using assms(1) by (simp_all add: md5_ok_def md5_total_def md5_state_def md5_used_def md5_init_def)
  have "md5_total ?c + length (concat pieces) < 2 ^ 61" using assms(2) by (simp add: c)
  note f = md5.fold_update[OF c(1) this] md5.update[OF c(1) this]
  have d: "md5_ok ?d" "md5_state ?d = absorb md5_compress 64 md5_h0 (concat pieces)" "md5_total ?d = length (concat pieces)"
    using f by (simp_all add: c)
  show ?thesis
    using absorb_append[of 64 md5_compress md5_h0 "concat pieces"]
    by (simp add: md5_final_def md5_finish[OF d(1)] d(2,3) md5_digest_def block_digest_def padding_def split_beta)
qed

theorem md5_correct_witness:
  "fst (md5_final (foldl md5_update (md5_init \<lparr>m5_lo = 1, m5_hi = 1, m5_vars = (0, 0, 0, 0), m5_buffer = replicate 64 0\<rparr>) [[97], [98, 99]]))
    = md5_digest [97, 98, 99]"
  using md5_correct[of "\<lparr>m5_lo = 1, m5_hi = 1, m5_vars = (0, 0, 0, 0), m5_buffer = replicate 64 0\<rparr>" "[[97], [98, 99]]"] by simp

end
