(* ===== verification/Sha2.thy ===== *)
theory Sha2 imports
  Block_Hash Quid
begin

text \<open>
  SHA-224, SHA-256, SHA-384 and SHA-512: src/sha2.c, as the code computes them, and as FIPS 180-4 defines them.  What the
  four functions have in common is written once, with the size \<open>B\<close> of a block, the compression and the constants as
  arguments.  The loops are those of the build without \<open>UNROLL_LOOPS\<close>; the unrolled ones are at the end.
\<close>

section \<open>Constants and functions\<close>

definition sha224_h0 :: "u32 list" where
  "sha224_h0 =
    [0xc1059ed8, 0x367cd507, 0x3070dd17, 0xf70e5939,
     0xffc00b31, 0x68581511, 0x64f98fa7, 0xbefa4fa4]"

definition sha256_h0 :: "u32 list" where
  "sha256_h0 =
    [0x6a09e667, 0xbb67ae85, 0x3c6ef372, 0xa54ff53a,
     0x510e527f, 0x9b05688c, 0x1f83d9ab, 0x5be0cd19]"

definition sha384_h0 :: "u64 list" where
  "sha384_h0 =
    [0xcbbb9d5dc1059ed8, 0x629a292a367cd507, 0x9159015a3070dd17, 0x152fecd8f70e5939,
     0x67332667ffc00b31, 0x8eb44a8768581511, 0xdb0c2e0d64f98fa7, 0x47b5481dbefa4fa4]"

definition sha512_h0 :: "u64 list" where
  "sha512_h0 =
    [0x6a09e667f3bcc908, 0xbb67ae8584caa73b, 0x3c6ef372fe94f82b, 0xa54ff53a5f1d36f1,
     0x510e527fade682d1, 0x9b05688c2b3e6c1f, 0x1f83d9abfb41bd6b, 0x5be0cd19137e2179]"

definition sha256_k :: "u32 list" where
  "sha256_k = concat
    [[0x428a2f98, 0x71374491, 0xb5c0fbcf, 0xe9b5dba5], [0x3956c25b, 0x59f111f1, 0x923f82a4, 0xab1c5ed5],
     [0xd807aa98, 0x12835b01, 0x243185be, 0x550c7dc3], [0x72be5d74, 0x80deb1fe, 0x9bdc06a7, 0xc19bf174],
     [0xe49b69c1, 0xefbe4786, 0x0fc19dc6, 0x240ca1cc], [0x2de92c6f, 0x4a7484aa, 0x5cb0a9dc, 0x76f988da],
     [0x983e5152, 0xa831c66d, 0xb00327c8, 0xbf597fc7], [0xc6e00bf3, 0xd5a79147, 0x06ca6351, 0x14292967],
     [0x27b70a85, 0x2e1b2138, 0x4d2c6dfc, 0x53380d13], [0x650a7354, 0x766a0abb, 0x81c2c92e, 0x92722c85],
     [0xa2bfe8a1, 0xa81a664b, 0xc24b8b70, 0xc76c51a3], [0xd192e819, 0xd6990624, 0xf40e3585, 0x106aa070],
     [0x19a4c116, 0x1e376c08, 0x2748774c, 0x34b0bcb5], [0x391c0cb3, 0x4ed8aa4a, 0x5b9cca4f, 0x682e6ff3],
     [0x748f82ee, 0x78a5636f, 0x84c87814, 0x8cc70208], [0x90befffa, 0xa4506ceb, 0xbef9a3f7, 0xc67178f2]]"

definition sha512_k :: "u64 list" where
  "sha512_k = concat
    [[0x428a2f98d728ae22, 0x7137449123ef65cd, 0xb5c0fbcfec4d3b2f, 0xe9b5dba58189dbbc],
     [0x3956c25bf348b538, 0x59f111f1b605d019, 0x923f82a4af194f9b, 0xab1c5ed5da6d8118],
     [0xd807aa98a3030242, 0x12835b0145706fbe, 0x243185be4ee4b28c, 0x550c7dc3d5ffb4e2],
     [0x72be5d74f27b896f, 0x80deb1fe3b1696b1, 0x9bdc06a725c71235, 0xc19bf174cf692694],
     [0xe49b69c19ef14ad2, 0xefbe4786384f25e3, 0x0fc19dc68b8cd5b5, 0x240ca1cc77ac9c65],
     [0x2de92c6f592b0275, 0x4a7484aa6ea6e483, 0x5cb0a9dcbd41fbd4, 0x76f988da831153b5],
     [0x983e5152ee66dfab, 0xa831c66d2db43210, 0xb00327c898fb213f, 0xbf597fc7beef0ee4],
     [0xc6e00bf33da88fc2, 0xd5a79147930aa725, 0x06ca6351e003826f, 0x142929670a0e6e70],
     [0x27b70a8546d22ffc, 0x2e1b21385c26c926, 0x4d2c6dfc5ac42aed, 0x53380d139d95b3df],
     [0x650a73548baf63de, 0x766a0abb3c77b2a8, 0x81c2c92e47edaee6, 0x92722c851482353b],
     [0xa2bfe8a14cf10364, 0xa81a664bbc423001, 0xc24b8b70d0f89791, 0xc76c51a30654be30],
     [0xd192e819d6ef5218, 0xd69906245565a910, 0xf40e35855771202a, 0x106aa07032bbd1b8],
     [0x19a4c116b8d2d0c8, 0x1e376c085141ab53, 0x2748774cdf8eeb99, 0x34b0bcb5e19b48a8],
     [0x391c0cb3c5c95a63, 0x4ed8aa4ae3418acb, 0x5b9cca4f7763e373, 0x682e6ff3d6b2b8a3],
     [0x748f82ee5defb2fc, 0x78a5636f43172f60, 0x84c87814a1f0ab72, 0x8cc702081a6439ec],
     [0x90befffa23631e28, 0xa4506cebde82bde9, 0xbef9a3f7b2c67915, 0xc67178f2e372532b],
     [0xca273eceea26619c, 0xd186b8c721c0c207, 0xeada7dd6cde0eb1e, 0xf57d4f7fee6ed178],
     [0x06f067aa72176fba, 0x0a637dc5a2c898a6, 0x113f9804bef90dae, 0x1b710b35131c471b],
     [0x28db77f523047d84, 0x32caab7b40c72493, 0x3c9ebe0a15c9bebc, 0x431d67c49c100d4c],
     [0x4cc5d4becb3e42b6, 0x597f299cfc657e2a, 0x5fcb6fab3ad6faec, 0x6c44198c4a475817]]"

definition sha2_rotr :: "nat \<Rightarrow> 'a::len word \<Rightarrow> 'a word" where
  "sha2_rotr n x = drop_bit n x OR push_bit (LENGTH('a) - n) x"

definition sha2_ch :: "'a::len word \<Rightarrow> 'a word \<Rightarrow> 'a word \<Rightarrow> 'a word" where
  "sha2_ch x y z = (x AND y) XOR (NOT x AND z)"

definition sha2_maj :: "'a::len word \<Rightarrow> 'a word \<Rightarrow> 'a word \<Rightarrow> 'a word" where
  "sha2_maj x y z = (x AND y) XOR (x AND z) XOR (y AND z)"

definition sha256_F1 :: "u32 \<Rightarrow> u32" where "sha256_F1 x = sha2_rotr 2 x XOR sha2_rotr 13 x XOR sha2_rotr 22 x"
definition sha256_F2 :: "u32 \<Rightarrow> u32" where "sha256_F2 x = sha2_rotr 6 x XOR sha2_rotr 11 x XOR sha2_rotr 25 x"
definition sha256_F3 :: "u32 \<Rightarrow> u32" where "sha256_F3 x = sha2_rotr 7 x XOR sha2_rotr 18 x XOR drop_bit 3 x"
definition sha256_F4 :: "u32 \<Rightarrow> u32" where "sha256_F4 x = sha2_rotr 17 x XOR sha2_rotr 19 x XOR drop_bit 10 x"

definition sha512_F1 :: "u64 \<Rightarrow> u64" where "sha512_F1 x = sha2_rotr 28 x XOR sha2_rotr 34 x XOR sha2_rotr 39 x"
definition sha512_F2 :: "u64 \<Rightarrow> u64" where "sha512_F2 x = sha2_rotr 14 x XOR sha2_rotr 18 x XOR sha2_rotr 41 x"
definition sha512_F3 :: "u64 \<Rightarrow> u64" where "sha512_F3 x = sha2_rotr 1 x XOR sha2_rotr 8 x XOR drop_bit 7 x"
definition sha512_F4 :: "u64 \<Rightarrow> u64" where "sha512_F4 x = sha2_rotr 19 x XOR sha2_rotr 61 x XOR drop_bit 6 x"

definition pack32 :: "u8 list \<Rightarrow> nat \<Rightarrow> u32" where
  "pack32 s j = ucast (s ! (j + 3)) OR push_bit 8 (ucast (s ! (j + 2))) OR push_bit 16 (ucast (s ! (j + 1))) OR push_bit 24 (ucast (s ! j))"

definition unpack32 :: "u32 \<Rightarrow> u8 list" where
  "unpack32 x = [ucast (drop_bit 24 x), ucast (drop_bit 16 x), ucast (drop_bit 8 x), ucast x]"

definition pack64 :: "u8 list \<Rightarrow> nat \<Rightarrow> u64" where
  "pack64 s j = ucast (s ! (j + 7)) OR push_bit 8 (ucast (s ! (j + 6))) OR push_bit 16 (ucast (s ! (j + 5)))
     OR push_bit 24 (ucast (s ! (j + 4))) OR push_bit 32 (ucast (s ! (j + 3))) OR push_bit 40 (ucast (s ! (j + 2)))
     OR push_bit 48 (ucast (s ! (j + 1))) OR push_bit 56 (ucast (s ! j))"

definition unpack64 :: "u64 \<Rightarrow> u8 list" where
  "unpack64 x = [ucast (drop_bit 56 x), ucast (drop_bit 48 x), ucast (drop_bit 40 x), ucast (drop_bit 32 x),
     ucast (drop_bit 24 x), ucast (drop_bit 16 x), ucast (drop_bit 8 x), ucast x]"

section \<open>One block\<close>

definition sha2_schedule :: "('a::len word \<Rightarrow> 'a word) \<Rightarrow> ('a word \<Rightarrow> 'a word) \<Rightarrow> nat \<Rightarrow> 'a word list \<Rightarrow> 'a word list" where
  "sha2_schedule F3 F4 rounds m =
     foldl (\<lambda>w i. w @ [F4 (w ! (i - 2)) + w ! (i - 7) + F3 (w ! (i - 15)) + w ! (i - 16)]) m [16..<rounds]"

definition sha2_round :: "('a::len word \<Rightarrow> 'a word) \<Rightarrow> ('a word \<Rightarrow> 'a word) \<Rightarrow> 'a word list \<Rightarrow> 'a word list \<Rightarrow> 'a word list \<Rightarrow> nat \<Rightarrow> 'a word list" where
  "sha2_round F1 F2 k w wv j =
     (let t1 = wv ! 7 + F2 (wv ! 4) + sha2_ch (wv ! 4) (wv ! 5) (wv ! 6) + k ! j + w ! j;
          t2 = F1 (wv ! 0) + sha2_maj (wv ! 0) (wv ! 1) (wv ! 2)
      in [t1 + t2, wv ! 0, wv ! 1, wv ! 2, wv ! 3 + t1, wv ! 4, wv ! 5, wv ! 6])"

definition sha256_block :: "u32 list \<Rightarrow> u8 list \<Rightarrow> u32 list" where
  "sha256_block h sub_block =
     (let w = sha2_schedule sha256_F3 sha256_F4 64 (map (\<lambda>j. pack32 sub_block (j * 4)) [0..<16]);
          wv = foldl (sha2_round sha256_F1 sha256_F2 sha256_k w) (map (\<lambda>j. h ! j) [0..<8]) [0..<64]
      in map (\<lambda>j. h ! j + wv ! j) [0..<8])"

definition sha512_block :: "u64 list \<Rightarrow> u8 list \<Rightarrow> u64 list" where
  "sha512_block h sub_block =
     (let w = sha2_schedule sha512_F3 sha512_F4 80 (map (\<lambda>j. pack64 sub_block (j * 8)) [0..<16]);
          wv = foldl (sha2_round sha512_F1 sha512_F2 sha512_k w) (map (\<lambda>j. h ! j) [0..<8]) [0..<80]
      in map (\<lambda>j. h ! j + wv ! j) [0..<8])"

text \<open>\<open>sha256_transf\<close> and \<open>sha512_transf\<close>: a number of blocks.\<close>

primrec sha2_transf :: "('h \<Rightarrow> u8 list \<Rightarrow> 'h) \<Rightarrow> nat \<Rightarrow> nat \<Rightarrow> 'h \<Rightarrow> u8 list \<Rightarrow> 'h" where
  "sha2_transf f B 0 h message = h"
| "sha2_transf f B (Suc block_nb) h message = sha2_transf f B block_nb (f h (take B message)) (drop B message)"

section \<open>The contexts\<close>

record 'w sha2_ctx =
  s2_tot_len :: u32
  s2_len :: nat
  s2_block :: "u8 list"
  s2_h :: "'w list"

definition sha2_init :: "'w list \<Rightarrow> 'w sha2_ctx \<Rightarrow> 'w sha2_ctx" where
  "sha2_init h0 ctx = ctx\<lparr>s2_h := map (\<lambda>i. h0 ! i) [0..<8], s2_len := 0, s2_tot_len := 0\<rparr>"

definition sha2_store :: "nat \<Rightarrow> u8 list \<Rightarrow> u8 list \<Rightarrow> u8 list" where
  "sha2_store pos xs b = take pos b @ xs @ drop (pos + length xs) b"

text \<open>The length of the message is an \<open>unsigned int\<close>, and so is its sum with that of the bytes waiting.\<close>

definition sha2_update :: "('w list \<Rightarrow> u8 list \<Rightarrow> 'w list) \<Rightarrow> nat \<Rightarrow> 'w sha2_ctx \<Rightarrow> u8 list \<Rightarrow> 'w sha2_ctx" where
  "sha2_update f B ctx message =
     (let len = length message;
          tmp_len = B - s2_len ctx;
          rem_len = (if len < tmp_len then len else tmp_len);
          ctx = ctx\<lparr>s2_block := sha2_store (s2_len ctx) (take rem_len message) (s2_block ctx)\<rparr>
      in if (s2_len ctx + len) mod 2 ^ 32 < B then ctx\<lparr>s2_len := s2_len ctx + len\<rparr>
         else (let new_len = len - rem_len;
                   block_nb = new_len div B;
                   shifted_message = drop rem_len message;
                   h = sha2_transf f B 1 (s2_h ctx) (s2_block ctx);
                   h = sha2_transf f B block_nb h shifted_message;
                   rem_len = new_len mod B
               in ctx\<lparr>s2_h := h,
                      s2_block := sha2_store 0 (take rem_len (drop (block_nb * B) shifted_message)) (s2_block ctx),
                      s2_len := rem_len, s2_tot_len := s2_tot_len ctx + of_nat ((block_nb + 1) * B)\<rparr>))"

text \<open>The final blocks; \<open>reserve\<close> is the room for the bit and the length, of which only the last four bytes are written.\<close>

definition sha2_final :: "('w list \<Rightarrow> u8 list \<Rightarrow> 'w list) \<Rightarrow> nat \<Rightarrow> nat \<Rightarrow> ('w \<Rightarrow> u8 list) \<Rightarrow> nat \<Rightarrow> 'w sha2_ctx \<Rightarrow> u8 list \<times> 'w sha2_ctx" where
  "sha2_final f B reserve unpack out ctx =
     (let block_nb = 1 + (if B - reserve < s2_len ctx mod B then 1 else 0);
          len_b = push_bit 3 (s2_tot_len ctx + of_nat (s2_len ctx));
          pm_len = block_nb * B;
          b = sha2_store (s2_len ctx) (replicate (pm_len - s2_len ctx) 0) (s2_block ctx);
          b = b[s2_len ctx := 0x80];
          b = sha2_store (pm_len - 4) (unpack32 len_b) b;
          h = sha2_transf f B block_nb (s2_h ctx) b
      in (concat (map (\<lambda>i. unpack (h ! i)) [0..<out]), ctx\<lparr>s2_block := b, s2_h := h\<rparr>))"

section \<open>SHA-256\<close>

definition sha256_init :: "u32 sha2_ctx \<Rightarrow> u32 sha2_ctx" where
  "sha256_init = sha2_init sha256_h0"

definition sha256_update :: "u32 sha2_ctx \<Rightarrow> u8 list \<Rightarrow> u32 sha2_ctx" where
  "sha256_update = sha2_update sha256_block 64"

definition sha256_final :: "u32 sha2_ctx \<Rightarrow> u8 list \<times> u32 sha2_ctx" where
  "sha256_final = sha2_final sha256_block 64 9 unpack32 8"

definition sha256 :: "u32 sha2_ctx \<Rightarrow> u8 list \<Rightarrow> u8 list" where
  "sha256 ctx message = fst (sha256_final (sha256_update (sha256_init ctx) message))"

section \<open>SHA-512\<close>

definition sha512_init :: "u64 sha2_ctx \<Rightarrow> u64 sha2_ctx" where
  "sha512_init = sha2_init sha512_h0"

definition sha512_update :: "u64 sha2_ctx \<Rightarrow> u8 list \<Rightarrow> u64 sha2_ctx" where
  "sha512_update = sha2_update sha512_block 128"

definition sha512_final :: "u64 sha2_ctx \<Rightarrow> u8 list \<times> u64 sha2_ctx" where
  "sha512_final = sha2_final sha512_block 128 17 unpack64 8"

definition sha512 :: "u64 sha2_ctx \<Rightarrow> u8 list \<Rightarrow> u8 list" where
  "sha512 ctx message = fst (sha512_final (sha512_update (sha512_init ctx) message))"

section \<open>SHA-384\<close>

definition sha384_init :: "u64 sha2_ctx \<Rightarrow> u64 sha2_ctx" where
  "sha384_init = sha2_init sha384_h0"

definition sha384_update :: "u64 sha2_ctx \<Rightarrow> u8 list \<Rightarrow> u64 sha2_ctx" where
  "sha384_update = sha2_update sha512_block 128"

definition sha384_final :: "u64 sha2_ctx \<Rightarrow> u8 list \<times> u64 sha2_ctx" where
  "sha384_final = sha2_final sha512_block 128 17 unpack64 6"

definition sha384 :: "u64 sha2_ctx \<Rightarrow> u8 list \<Rightarrow> u8 list" where
  "sha384 ctx message = fst (sha384_final (sha384_update (sha384_init ctx) message))"

section \<open>SHA-224\<close>

definition sha224_init :: "u32 sha2_ctx \<Rightarrow> u32 sha2_ctx" where
  "sha224_init = sha2_init sha224_h0"

definition sha224_update :: "u32 sha2_ctx \<Rightarrow> u8 list \<Rightarrow> u32 sha2_ctx" where
  "sha224_update = sha2_update sha256_block 64"

definition sha224_final :: "u32 sha2_ctx \<Rightarrow> u8 list \<times> u32 sha2_ctx" where
  "sha224_final = sha2_final sha256_block 64 9 unpack32 7"

definition sha224 :: "u32 sha2_ctx \<Rightarrow> u8 list \<Rightarrow> u8 list" where
  "sha224 ctx message = fst (sha224_final (sha224_update (sha224_init ctx) message))"

text \<open>Two digits for each byte.\<close>

definition sha2_strsum :: "u8 list \<Rightarrow> nat \<Rightarrow> string" where
  "sha2_strsum digest digest_size = concat (map (\<lambda>i. hex_pad 2 (unat (digest ! i))) [0..<digest_size div 2])"

section \<open>FIPS 180-4\<close>

fun sha2_W :: "('a::len word \<Rightarrow> 'a word) \<Rightarrow> ('a word \<Rightarrow> 'a word) \<Rightarrow> (nat \<Rightarrow> 'a word) \<Rightarrow> nat \<Rightarrow> 'a word" where
  "sha2_W s0 s1 M t = (if t < 16 then M t
     else s1 (sha2_W s0 s1 M (t - 2)) + sha2_W s0 s1 M (t - 7) + s0 (sha2_W s0 s1 M (t - 15)) + sha2_W s0 s1 M (t - 16))"

declare sha2_W.simps [simp del]

definition sha2_compress :: "('a::len word \<Rightarrow> 'a word) \<Rightarrow> ('a word \<Rightarrow> 'a word) \<Rightarrow> 'a word list \<Rightarrow> (nat \<Rightarrow> 'a word) \<Rightarrow> nat
    \<Rightarrow> 'a word list \<Rightarrow> 'a word list" where
  "sha2_compress S0 S1 K W rounds H =
     (let (a, b, c, d, e, f, g, h) = foldl (\<lambda>(a, b, c, d, e, f, g, h) t.
          (let T1 = h + S1 e + sha2_ch e f g + K ! t + W t; T2 = S0 a + sha2_maj a b c
           in (T1 + T2, a, b, c, d + T1, e, f, g)))
        (H ! 0, H ! 1, H ! 2, H ! 3, H ! 4, H ! 5, H ! 6, H ! 7) [0..<rounds]
      in [H ! 0 + a, H ! 1 + b, H ! 2 + c, H ! 3 + d, H ! 4 + e, H ! 5 + f, H ! 6 + g, H ! 7 + h])"

definition Sum256_0 :: "u32 \<Rightarrow> u32" where "Sum256_0 x = word_rotr 2 x XOR word_rotr 13 x XOR word_rotr 22 x"
definition Sum256_1 :: "u32 \<Rightarrow> u32" where "Sum256_1 x = word_rotr 6 x XOR word_rotr 11 x XOR word_rotr 25 x"
definition sig256_0 :: "u32 \<Rightarrow> u32" where "sig256_0 x = word_rotr 7 x XOR word_rotr 18 x XOR drop_bit 3 x"
definition sig256_1 :: "u32 \<Rightarrow> u32" where "sig256_1 x = word_rotr 17 x XOR word_rotr 19 x XOR drop_bit 10 x"
definition Sum512_0 :: "u64 \<Rightarrow> u64" where "Sum512_0 x = word_rotr 28 x XOR word_rotr 34 x XOR word_rotr 39 x"
definition Sum512_1 :: "u64 \<Rightarrow> u64" where "Sum512_1 x = word_rotr 14 x XOR word_rotr 18 x XOR word_rotr 41 x"
definition sig512_0 :: "u64 \<Rightarrow> u64" where "sig512_0 x = word_rotr 1 x XOR word_rotr 8 x XOR drop_bit 7 x"
definition sig512_1 :: "u64 \<Rightarrow> u64" where "sig512_1 x = word_rotr 19 x XOR word_rotr 61 x XOR drop_bit 6 x"

definition sha256_compress :: "u32 list \<Rightarrow> u8 list \<Rightarrow> u32 list" where
  "sha256_compress H b =
     sha2_compress Sum256_0 Sum256_1 sha256_k (sha2_W sig256_0 sig256_1 (\<lambda>t. pack32 b (t * 4))) 64 H"

definition sha512_compress :: "u64 list \<Rightarrow> u8 list \<Rightarrow> u64 list" where
  "sha512_compress H b =
     sha2_compress Sum512_0 Sum512_1 sha512_k (sha2_W sig512_0 sig512_1 (\<lambda>t. pack64 b (t * 8))) 80 H"

text \<open>A number in \<open>L\<close> bytes, the highest first.\<close>

definition be_nat :: "nat \<Rightarrow> nat \<Rightarrow> u8 list" where
  "be_nat L v = rev (map (\<lambda>i. of_nat (v div 256 ^ i)) [0..<L])"

definition sha2_digest :: "('w list \<Rightarrow> u8 list \<Rightarrow> 'w list) \<Rightarrow> nat \<Rightarrow> nat \<Rightarrow> ('w \<Rightarrow> u8 list) \<Rightarrow> nat \<Rightarrow> 'w list \<Rightarrow> u8 list \<Rightarrow> u8 list" where
  "sha2_digest f B L unpack out h0 msg =
     concat (map (\<lambda>i. unpack (block_digest f B L (\<lambda>n. be_nat L (8 * n)) h0 msg ! i)) [0..<out])"

definition sha224_digest :: "u8 list \<Rightarrow> u8 list" where
  "sha224_digest = sha2_digest sha256_compress 64 8 unpack32 7 sha224_h0"

definition sha256_digest :: "u8 list \<Rightarrow> u8 list" where
  "sha256_digest = sha2_digest sha256_compress 64 8 unpack32 8 sha256_h0"

definition sha384_digest :: "u8 list \<Rightarrow> u8 list" where
  "sha384_digest = sha2_digest sha512_compress 128 16 unpack64 6 sha384_h0"

definition sha512_digest :: "u8 list \<Rightarrow> u8 list" where
  "sha512_digest = sha2_digest sha512_compress 128 16 unpack64 8 sha512_h0"

section \<open>A block of the code is a block of the standard\<close>

lemma sha2_rotr_word: "0 < n \<Longrightarrow> n < LENGTH('a) \<Longrightarrow> sha2_rotr n x = word_rotr n (x :: 'a::len word)"
  by (simp add: sha2_rotr_def rotr_shifts)

lemma sha2_functions:
  "sha256_F1 = Sum256_0" "sha256_F2 = Sum256_1" "sha256_F3 = sig256_0" "sha256_F4 = sig256_1"
  "sha512_F1 = Sum512_0" "sha512_F2 = Sum512_1" "sha512_F3 = sig512_0" "sha512_F4 = sig512_1"
  by (simp_all add: fun_eq_iff sha256_F1_def sha256_F2_def sha256_F3_def sha256_F4_def sha512_F1_def sha512_F2_def sha512_F3_def
    sha512_F4_def Sum256_0_def Sum256_1_def sig256_0_def sig256_1_def Sum512_0_def Sum512_1_def sig512_0_def sig512_1_def sha2_rotr_word)

lemma sha2_schedule:
  assumes "16 \<le> rounds"
  shows "sha2_schedule s0 s1 rounds (map M [0..<16]) = map (sha2_W s0 s1 M) [0..<rounds]"
proof -
  have m: "map M [0..<16] = map (sha2_W s0 s1 M) [0..<16]"
    by (rule map_cong) (simp_all add: sha2_W.simps)
  show ?thesis
    unfolding sha2_schedule_def m using assms
    by (intro foldl_recurrence) (simp_all add: sha2_W.simps[of s0 s1 M t for t] del: upt_rec_numeral)
qed

definition tuple8 :: "'a \<times> 'a \<times> 'a \<times> 'a \<times> 'a \<times> 'a \<times> 'a \<times> 'a \<Rightarrow> 'a list" where
  "tuple8 = (\<lambda>(a, b, c, d, e, f, g, h). [a, b, c, d, e, f, g, h])"

lemma sha2_rounds:
  "set ts \<subseteq> {..<n} \<Longrightarrow> foldl (sha2_round S0 S1 K (map W [0..<n])) (tuple8 v) ts
    = tuple8 (foldl (\<lambda>(a, b, c, d, e, f, g, h) t.
          (let T1 = h + S1 e + sha2_ch e f g + K ! t + W t; T2 = S0 a + sha2_maj a b c
           in (T1 + T2, a, b, c, d + T1, e, f, g))) v ts)"
proof (induction ts arbitrary: v)
  case (Cons t ts)
  obtain a b c d e f g h where v: "v = (a, b, c, d, e, f, g, h)" by (cases v) auto
  have "sha2_round S0 S1 K (map W [0..<n]) (tuple8 v) t
    = tuple8 (let T1 = h + S1 e + sha2_ch e f g + K ! t + W t; T2 = S0 a + sha2_maj a b c
           in (T1 + T2, a, b, c, d + T1, e, f, g))"
    using Cons.prems by (simp add: sha2_round_def tuple8_def v Let_def)
  then show ?case using Cons by (simp add: v)
qed simp

lemma upt_8: "[0..<8] = [0, 1, 2, 3, 4, 5, 6, 7]"
  by (simp add: upt_conv_Cons)

lemma sha2_block:
  "map (\<lambda>j. h ! j + foldl (sha2_round S0 S1 K (map W [0..<n])) (map (\<lambda>j. h ! j) [0..<8]) [0..<n] ! j) [0..<8]
    = sha2_compress S0 S1 K W n h"
proof -
  define v where "v = (h ! 0, h ! 1, h ! 2, h ! 3, h ! 4, h ! 5, h ! 6, h ! 7)"
  have t: "map (\<lambda>j. h ! j) [0..<8] = tuple8 v" by (simp add: upt_8 tuple8_def v_def)
  have "set [0..<n] \<subseteq> {..<n}" by auto
  note r = sha2_rounds[OF this, of S0 S1 K W v]
  define F where "F = foldl (\<lambda>(a, b, c, d, e, f, g, h) t.
          (let T1 = h + S1 e + sha2_ch e f g + K ! t + W t; T2 = S0 a + sha2_maj a b c
           in (T1 + T2, a, b, c, d + T1, e, f, g))) v [0..<n]"
  obtain a b c d e f g k where "F = (a, b, c, d, e, f, g, k)" by (cases F) auto
  then show ?thesis
    unfolding t r sha2_compress_def v_def[symmetric] F_def[symmetric] by (simp add: upt_8 tuple8_def)
qed

lemma sha256_block: "sha256_block = sha256_compress"
  unfolding fun_eq_iff sha256_block_def sha256_compress_def Let_def sha2_functions
  by (subst sha2_schedule) (simp_all only: sha2_block numeral_le_iff semiring_norm simp_thms)

lemma sha512_block: "sha512_block = sha512_compress"
  unfolding fun_eq_iff sha512_block_def sha512_compress_def Let_def sha2_functions
  by (subst sha2_schedule) (simp_all only: sha2_block numeral_le_iff semiring_norm simp_thms)

section \<open>Feeding\<close>

lemma sha2_transf:
  assumes "nb * B \<le> length xs" "0 < B"
  shows "absorb f B h xs = absorb f B (sha2_transf f B nb h xs) (drop (nb * B) xs)"
  using assms
proof (induction nb arbitrary: h xs)
  case (Suc nb)
  have l: "nb * B \<le> length (drop B xs)" using Suc.prems by simp
  have "absorb f B h (take B xs @ drop B xs) = absorb f B (f h (take B xs)) (drop B xs)"
    using Suc.prems by (intro absorb_block) simp_all
  then show ?case using Suc.IH[OF l Suc.prems(2)] by (simp add: add.commute)
qed simp

lemma sha2_transf_take: "sha2_transf f B nb h (take (nb * B) xs) = sha2_transf f B nb h xs"
  by (induction nb arbitrary: h xs) (simp_all add: drop_take min_def)

definition sha2_state :: "'w sha2_ctx \<Rightarrow> 'w list \<times> u8 list" where
  "sha2_state ctx = (s2_h ctx, take (s2_len ctx) (s2_block ctx))"

definition sha2_total :: "'w sha2_ctx \<Rightarrow> nat" where
  "sha2_total ctx = unat (s2_tot_len ctx) + s2_len ctx"

definition sha2_ok :: "nat \<Rightarrow> 'w sha2_ctx \<Rightarrow> bool" where
  "sha2_ok B ctx \<longleftrightarrow> length (s2_block ctx) = 2 * B \<and> s2_len ctx < B \<and> unat (s2_tot_len ctx) mod B = 0"

lemma sha2_total_mod: "sha2_ok B ctx \<Longrightarrow> sha2_total ctx mod B = s2_len ctx"
  by (simp add: sha2_ok_def sha2_total_def mod_add_eq[symmetric] mod_add_left_eq[symmetric])

lemma sha2_update:
  assumes "0 < B" "B \<le> 2 ^ 20" "sha2_ok B ctx" "sha2_total ctx + length msg < 2 ^ 29"
  shows "sha2_ok B (sha2_update f B ctx msg) \<and> sha2_state (sha2_update f B ctx msg) = absorb f B (fst (sha2_state ctx)) (snd (sha2_state ctx) @ msg)
    \<and> sha2_total (sha2_update f B ctx msg) = sha2_total ctx + length msg"
proof -
  define l where "l = s2_len ctx"
  define r where "r = take l (s2_block ctx)"
  define T where "T = unat (s2_tot_len ctx)"
  have o: "length (s2_block ctx) = 2 * B" "l < B" "T mod B = 0" "length r = l" "T + l + length msg < 2 ^ 29"
    using assms(3,4) by (auto simp: sha2_ok_def l_def r_def T_def sha2_total_def)
  have s: "sha2_state ctx = (s2_h ctx, r)" by (simp add: sha2_state_def r_def l_def)
  have w: "(l + length msg) mod 2 ^ 32 = l + length msg" using o(5) by simp
  show ?thesis
  proof (cases "l + length msg < B")
    case True
    then have "length msg < B - l" by simp
    then have e: "sha2_update f B ctx msg = ctx\<lparr>s2_block := r @ msg @ drop (l + length msg) (s2_block ctx), s2_len := l + length msg\<rparr>"
      using True w by (simp add: sha2_update_def Let_def l_def[symmetric] sha2_store_def r_def)
    show ?thesis unfolding e using o True assms(3) s
      by (simp add: sha2_ok_def sha2_state_def sha2_total_def l_def[symmetric])
  next
    case False
    let ?k = "B - l"
    let ?b = "r @ take ?k msg @ drop B (s2_block ctx)"
    have k: "?k \<le> length msg" "length (take ?k msg) = ?k" using False by simp_all
    define rest where "rest = drop ?k msg"
    define nb where "nb = length rest div B"
    have lr: "length rest = length msg - ?k" by (simp add: rest_def)
    have tot: "l + length msg = (nb + 1) * B + length rest mod B"
    proof -
      have "length rest = nb * B + length rest mod B" by (simp add: nb_def)
      then show ?thesis using lr k(1) o(2) by simp
    qed
    have b: "take B ?b = r @ take ?k msg" "length ?b = 2 * B" using o k by simp_all
    let ?h = "sha2_transf f B nb (f (s2_h ctx) (r @ take ?k msg)) rest"
    have e: "sha2_update f B ctx msg = ctx\<lparr>s2_block := sha2_store 0 (take (length rest mod B) (drop (nb * B) rest)) ?b,
        s2_h := ?h, s2_len := length rest mod B, s2_tot_len := s2_tot_len ctx + of_nat ((nb + 1) * B)\<rparr>"
    proof -
      have "take (if length msg < B - l then length msg else B - l) msg = take ?k msg" using k by simp
      moreover have "sha2_store l (take ?k msg) (s2_block ctx) = ?b" using o k by (simp add: sha2_store_def r_def)
      ultimately show ?thesis using False w b(1) k(1)
        by (simp add: sha2_update_def Let_def l_def[symmetric] rest_def[symmetric] lr[symmetric] nb_def[symmetric])
    qed
    have d: "take (length rest mod B) (drop (nb * B) rest) = drop (nb * B) rest"
    proof -
      have "length (drop (nb * B) rest) = length rest mod B" by (simp add: nb_def minus_div_mult_eq_mod)
      then show ?thesis by simp
    qed
    have ld: "length (drop (nb * B) rest) = length rest mod B" by (simp add: nb_def minus_div_mult_eq_mod)
    have "absorb f B (s2_h ctx) ((r @ take ?k msg) @ rest) = absorb f B (f (s2_h ctx) (r @ take ?k msg)) rest"
      using o k assms(1) by (intro absorb_block) simp_all
    also have "\<dots> = absorb f B ?h (drop (nb * B) rest)"
      using assms(1) by (intro sha2_transf) (simp_all add: nb_def)
    also have "\<dots> = (?h, drop (nb * B) rest)"
      using assms(1) ld by (intro absorb_short) simp
    finally have a: "absorb f B (s2_h ctx) (r @ msg) = (?h, drop (nb * B) rest)"
      by (simp add: rest_def)
    have nbB: "(nb + 1) * B \<le> l + length msg" using tot by simp
    have u: "unat (s2_tot_len ctx + of_nat ((nb + 1) * B)) = T + (nb + 1) * B"
    proof -
      have of_nat: "q < 2 ^ 32 \<Longrightarrow> unat (of_nat q :: u32) = q" for q
        by (simp add: unsigned_of_nat take_bit_nat_eq_self)
      have "unat (of_nat ((nb + 1) * B) :: u32) = (nb + 1) * B"
        using nbB o(5) by (intro of_nat) simp
      then show ?thesis using nbB o(5) by (subst unat_add_no_wrap) (simp_all add: T_def)
    qed
    have st: "sha2_state (sha2_update f B ctx msg) = (?h, drop (nb * B) rest)"
      unfolding e d using ld by (simp add: sha2_state_def sha2_store_def)
    have store: "length (sha2_store 0 xs ys) = length ys" if "length xs \<le> length ys" for xs ys
      using that by (simp add: sha2_store_def)
    have "length rest mod B < B" using assms(1) by (rule mod_less_divisor)
    then have "length (drop (nb * B) rest) \<le> length ?b" unfolding ld b(2) by simp
    then have "length (sha2_store 0 (drop (nb * B) rest) ?b) = 2 * B" using store b(2) by metis
    moreover have "(T + (nb + 1) * B) mod B = 0" using o(3) by (simp only: mod_mult_self1)
    ultimately have "sha2_ok B (sha2_update f B ctx msg)"
      unfolding sha2_ok_def e d using u assms(1) by simp
    moreover have "sha2_total (sha2_update f B ctx msg) = sha2_total ctx + length msg"
      unfolding sha2_total_def e using u tot by (simp add: T_def l_def)
    ultimately show ?thesis using st a s by simp
  qed
qed

interpretation sha256: block_hash sha256_compress 64 "2 ^ 29" sha256_update sha2_state sha2_total "sha2_ok 64"
proof unfold_locales
  show "sha2_ok 64 c \<Longrightarrow> length (snd (sha2_state c)) = sha2_total c mod 64" for c :: "u32 sha2_ctx"
    using sha2_total_mod[of 64 c] by (simp add: sha2_state_def sha2_ok_def)
qed (use sha2_update[of 64 _ _ sha256_compress] in \<open>simp_all add: sha256_update_def sha256_block\<close>)

interpretation sha512: block_hash sha512_compress 128 "2 ^ 29" sha512_update sha2_state sha2_total "sha2_ok 128"
proof unfold_locales
  show "sha2_ok 128 c \<Longrightarrow> length (snd (sha2_state c)) = sha2_total c mod 128" for c :: "u64 sha2_ctx"
    using sha2_total_mod[of 128 c] by (simp add: sha2_state_def sha2_ok_def)
qed (use sha2_update[of 128 _ _ sha512_compress] in \<open>simp_all add: sha512_update_def sha512_block\<close>)

lemma sha224_384_update: "sha224_update = sha256_update" "sha384_update = sha512_update"
  by (simp_all add: sha224_update_def sha256_update_def sha384_update_def sha512_update_def)

section \<open>The digest\<close>

lemma length_unpack32 [simp]: "length (unpack32 x) = 4"
  by (simp add: unpack32_def)

lemma map_rev_upt: "rev (map f [0..<Suc n]) = f n # rev (map f [0..<n])"
  by simp

lemma be_nat_Suc: "be_nat (Suc L) v = of_nat (v div 256 ^ L) # be_nat L v"
  by (simp add: be_nat_def)

lemma be_nat_zeros:
  assumes "v < 256 ^ L"
  shows "be_nat (k + L) v = replicate k 0 @ be_nat L v"
proof (induction k)
  case (Suc k)
  have "(256 :: nat) ^ L \<le> 256 ^ (k + L)" by (intro power_increasing) simp_all
  then have "v < 256 ^ (k + L)" using assms by (rule less_le_trans[rotated])
  then have "v div 256 ^ (k + L) = 0" by (rule div_less)
  then show ?case using Suc by (simp add: be_nat_Suc)
qed simp

lemma be_nat_unpack32:
  assumes "unat x = v"
  shows "be_nat 4 v = unpack32 x"
proof -
  have s: "(of_nat (v div 256 ^ i) :: u8) = ucast (drop_bit (8 * i) x)" for i
  proof -
    have "v div 256 ^ i = unat (drop_bit (8 * i) x)"
      unfolding assms[symmetric] unat_drop_bit_eq by (simp add: drop_bit_nat_def power_mult)
    then show ?thesis by (simp only: of_nat_unat)
  qed
  show ?thesis
    using s[of 0] s[of 1] s[of 2] s[of 3]
    by (simp add: be_nat_def unpack32_def upt_conv_Cons)
qed

lemma sha2_total_word:
  assumes "sha2_total ctx < 2 ^ 29"
  shows "unat (push_bit 3 (s2_tot_len ctx + of_nat (s2_len ctx))) = 8 * sha2_total ctx"
proof -
  have "s2_len ctx < 2 ^ 32" using assms by (simp add: sha2_total_def)
  then have u: "unat (of_nat (s2_len ctx) :: u32) = s2_len ctx" by (simp add: unsigned_of_nat take_bit_nat_eq_self)
  then have t: "unat (s2_tot_len ctx + of_nat (s2_len ctx)) = sha2_total ctx"
    using assms by (subst unat_add_no_wrap) (simp_all add: sha2_total_def)
  have "unat (push_bit 3 (s2_tot_len ctx + of_nat (s2_len ctx))) = take_bit 32 (8 * sha2_total ctx)"
    unfolding unsigned_push_bit_eq t by (simp add: push_bit_nat_def mult.commute)
  also have "\<dots> = 8 * sha2_total ctx" using assms by (intro take_bit_nat_eq_self) simp
  finally show ?thesis .
qed

lemma sha2_final:
  assumes "sha2_ok B ctx" "sha2_total ctx < 2 ^ 29" "4 \<le> L" "1 + L \<le> B"
  shows "fst (sha2_final f B (1 + L) unpack out ctx) = concat (map (\<lambda>i. unpack (fst (absorb f B (fst (sha2_state ctx))
      (snd (sha2_state ctx) @ padding B L (\<lambda>n. be_nat L (8 * n)) (sha2_total ctx))) ! i)) [0..<out])"
proof -
  define l where "l = s2_len ctx"
  define r where "r = take l (s2_block ctx)"
  define x where "x = push_bit 3 (s2_tot_len ctx + of_nat (s2_len ctx))"
  have o: "length (s2_block ctx) = 2 * B" "l < B" "length r = l" "sha2_total ctx mod B = l"
    using assms(1) sha2_total_mod[OF assms(1)] by (auto simp: sha2_ok_def l_def r_def)
  have v: "unat x = 8 * sha2_total ctx" using assms(2) by (simp only: x_def sha2_total_word)
  have "8 * sha2_total ctx < 256 ^ 4" using assms(2) by simp
  then have be: "be_nat L (8 * sha2_total ctx) = replicate (L - 4) 0 @ unpack32 x"
    using be_nat_zeros[of _ 4 "L - 4"] be_nat_unpack32[OF v] assms(3) by simp
  define p where "p = (if l + 1 + L \<le> B then B else 2 * B)"
  define nb where "nb = (if l + 1 + L \<le> B then 1 else 2 :: nat)"
  define b where "b = sha2_store (p - 4) (unpack32 x) ((sha2_store l (replicate (p - l) 0) (s2_block ctx))[l := 0x80])"
  have p: "p = nb * B" "l + 5 \<le> p" using o(2) assms(3,4) by (auto simp: p_def nb_def)
  have b1: "take p b = r @ 0x80 # replicate (p - 5 - l) 0 @ unpack32 x"
  proof -
    have "(sha2_store l (replicate (p - l) 0) (s2_block ctx)) = r @ 0 # replicate (p - l - 1) 0 @ drop p (s2_block ctx)"
    proof -
      have "p - l = Suc (p - l - 1)" using p(2) by simp
      then have "replicate (p - l) (0 :: u8) = 0 # replicate (p - l - 1) 0" by (subst (1) \<open>p - l = _\<close>) simp
      then show ?thesis using p(2) by (simp add: sha2_store_def r_def)
    qed
    then have "(sha2_store l (replicate (p - l) 0) (s2_block ctx))[l := 0x80] = r @ 0x80 # replicate (p - l - 1) 0 @ drop p (s2_block ctx)"
      using o(3) by (simp add: list_update_append)
    moreover have "take (p - 4) (r @ 0x80 # replicate (p - l - 1) 0 @ drop p (s2_block ctx)) = r @ 0x80 # replicate (p - 5 - l) 0"
      using p(2) o(3) by (simp add: take_Cons' min_def)
    ultimately show ?thesis using p(2) o(3) by (simp add: b_def sha2_store_def take_Cons')
  qed
  have "p - 5 - l = pad_zeros B L (sha2_total ctx) + (L - 4)"
  proof -
    have "pad_zeros B L (sha2_total ctx) = pad_zeros B L l" using pad_zeros_mod[of B L "sha2_total ctx"] o(2,4) by simp
    then show ?thesis using pad_zeros_small[OF o(2) assms(4)] o(2) assms(3,4) by (simp add: p_def)
  qed
  then have t: "take p b = r @ padding B L (\<lambda>n. be_nat L (8 * n)) (sha2_total ctx)"
    by (simp add: b1 padding_def be replicate_add)
  have "length (take p b) = nb * B" unfolding b1 using p o(3) by simp
  then have "absorb f B (s2_h ctx) (take p b) = (sha2_transf f B nb (s2_h ctx) b, [])"
    using sha2_transf[of nb B "take p b" f "s2_h ctx"] o(2) p(1) sha2_transf_take[of f B nb "s2_h ctx" b] by simp
  moreover have "fst (sha2_final f B (1 + L) unpack out ctx) = concat (map (\<lambda>i. unpack (sha2_transf f B nb (s2_h ctx) b ! i)) [0..<out])"
  proof -
    have "1 + (if B - (1 + L) < s2_len ctx mod B then 1 else 0) = nb" using o(2) assms(4) by (auto simp: nb_def l_def[symmetric])
    then show ?thesis by (simp only: sha2_final_def Let_def b_def x_def p(1) l_def fst_conv)
  qed
  ultimately show ?thesis by (simp add: sha2_state_def t l_def[symmetric] r_def[symmetric])
qed

text \<open>What a context of any of the four functions gives after any number of pieces.\<close>

lemma sha2_init_ok:
  assumes "length (s2_block ctx) = 2 * B" "0 < B" "length h0 = 8"
  shows "sha2_ok B (sha2_init h0 ctx) \<and> sha2_state (sha2_init h0 ctx) = (h0, []) \<and> sha2_total (sha2_init h0 ctx) = 0"
  using assms map_nth[of h0] by (simp add: sha2_ok_def sha2_init_def sha2_state_def sha2_total_def)

lemma sha2_pieces:
  assumes "block_hash f B (2 ^ 29) upd sha2_state sha2_total (sha2_ok B)" "length (s2_block ctx) = 2 * B" "length h0 = 8"
    "length (concat pieces) < 2 ^ 29" "4 \<le> L" "1 + L \<le> B"
  shows "fst (sha2_final f B (1 + L) unpack out (foldl upd (sha2_init h0 ctx) pieces)) = sha2_digest f B L unpack out h0 (concat pieces)"
proof -
  let ?c = "foldl upd (sha2_init h0 ctx) pieces" let ?m = "concat pieces"
  have B: "0 < B" using assms(6) by simp
  note i = sha2_init_ok[OF assms(2) B assms(3)]
  have "sha2_total (sha2_init h0 ctx) + length ?m < 2 ^ 29" using i assms(4) by simp
  note u = block_hash.fold_update[OF assms(1) conjunct1[OF i] this] block_hash.update[OF assms(1) conjunct1[OF i] this]
  have s: "sha2_ok B ?c" "sha2_state ?c = absorb f B h0 ?m" "sha2_total ?c = length ?m" using u i by auto
  have "absorb f B h0 (?m @ xs) = absorb f B (fst (sha2_state ?c)) (snd (sha2_state ?c) @ xs)" for xs
    using absorb_append[OF B, of f h0 ?m xs] by (simp add: s(2) split_beta)
  then show ?thesis
    using sha2_final[OF s(1) _ assms(5,6), of f unpack out] assms(4) by (simp add: s(3) sha2_digest_def block_digest_def)
qed

lemma sha2_pieces_all:
  assumes "length (concat pieces) < 2 ^ 29"
  shows "length (s2_block c32) = 128 \<Longrightarrow> fst (sha224_final (foldl sha224_update (sha224_init c32) pieces)) = sha224_digest (concat pieces)"
    "length (s2_block c32) = 128 \<Longrightarrow> fst (sha256_final (foldl sha256_update (sha256_init c32) pieces)) = sha256_digest (concat pieces)"
    "length (s2_block c64) = 256 \<Longrightarrow> fst (sha384_final (foldl sha384_update (sha384_init c64) pieces)) = sha384_digest (concat pieces)"
    "length (s2_block c64) = 256 \<Longrightarrow> fst (sha512_final (foldl sha512_update (sha512_init c64) pieces)) = sha512_digest (concat pieces)"
proof -
  note p256 = sha2_pieces[OF sha256.block_hash_axioms _ _ assms(1), of c32 _ 8]
  note p512 = sha2_pieces[OF sha512.block_hash_axioms _ _ assms(1), of c64 _ 16]
  have l: "length sha224_h0 = 8" "length sha256_h0 = 8" "length sha384_h0 = 8" "length sha512_h0 = 8"
    by (simp_all add: sha224_h0_def sha256_h0_def sha384_h0_def sha512_h0_def)
  show "length (s2_block c32) = 128 \<Longrightarrow> fst (sha224_final (foldl sha224_update (sha224_init c32) pieces)) = sha224_digest (concat pieces)"
    using p256[OF _ l(1), of unpack32 7]
    by (simp add: sha224_final_def sha224_init_def sha224_digest_def sha224_384_update sha256_block)
  show "length (s2_block c32) = 128 \<Longrightarrow> fst (sha256_final (foldl sha256_update (sha256_init c32) pieces)) = sha256_digest (concat pieces)"
    using p256[OF _ l(2), of unpack32 8]
    by (simp add: sha256_final_def sha256_init_def sha256_digest_def sha256_block)
  show "length (s2_block c64) = 256 \<Longrightarrow> fst (sha384_final (foldl sha384_update (sha384_init c64) pieces)) = sha384_digest (concat pieces)"
    using p512[OF _ l(3), of unpack64 6]
    by (simp add: sha384_final_def sha384_init_def sha384_digest_def sha224_384_update sha512_block)
  show "length (s2_block c64) = 256 \<Longrightarrow> fst (sha512_final (foldl sha512_update (sha512_init c64) pieces)) = sha512_digest (concat pieces)"
    using p512[OF _ l(4), of unpack64 8]
    by (simp add: sha512_final_def sha512_init_def sha512_digest_def sha512_block)
qed

text \<open>
  C20: a message of less than 2^29 bytes, fed to the SHA-2 functions in pieces of any length, gets the digests of FIPS 180-4: with
  either size of word, either initial value and either length of the result.
\<close>

theorem sha2_correct:
  assumes "length (concat pieces) < 2 ^ 29"
    and "length (s2_block c32) = 128"
    and "length (s2_block c64) = 256"
  shows "fst (sha224_final (foldl sha224_update (sha224_init c32) pieces)) = sha224_digest (concat pieces)
    \<and> fst (sha256_final (foldl sha256_update (sha256_init c32) pieces)) = sha256_digest (concat pieces)
    \<and> fst (sha384_final (foldl sha384_update (sha384_init c64) pieces)) = sha384_digest (concat pieces)
    \<and> fst (sha512_final (foldl sha512_update (sha512_init c64) pieces)) = sha512_digest (concat pieces)"
  using sha2_pieces_all(1,2)[OF assms(1,2)] sha2_pieces_all(3,4)[OF assms(1,3)] by blast

theorem sha2_correct_witness:
  "\<exists>c32 c64. fst (sha256_final (foldl sha256_update (sha256_init c32) [[97], [98, 99]])) = sha256_digest [97, 98, 99]
    \<and> fst (sha512_final (foldl sha512_update (sha512_init c64) [[97], [98, 99]])) = sha512_digest [97, 98, 99]"
proof -
  let ?c = "\<lparr>s2_tot_len = 0, s2_len = 0, s2_block = replicate 128 0, s2_h = []\<rparr>"
  let ?d = "\<lparr>s2_tot_len = 0, s2_len = 0, s2_block = replicate 256 0, s2_h = []\<rparr>"
  have c: "length (s2_block ?c) = 128" "length (s2_block ?d) = 256" "length (concat [[97], [98, 99 :: u8]]) < 2 ^ 29"
    and m: "concat [[97], [98, 99]] = [97, 98, 99 :: u8]"
    by simp_all
  show ?thesis using sha2_correct[OF c(3,1,2)] unfolding m by blast
qed

section \<open>The unrolled loops\<close>

text \<open>
  With \<open>UNROLL_LOOPS\<close> the rounds do not move the working variables: \<open>SHA256_EXP\<close> and \<open>SHA512_EXP\<close> get the places of \<open>a\<close> to \<open>h\<close>
  as arguments and change two of them.
\<close>

definition sha2_exp :: "('a::len word \<Rightarrow> 'a word) \<Rightarrow> ('a word \<Rightarrow> 'a word) \<Rightarrow> 'a word list \<Rightarrow> 'a word list
    \<Rightarrow> nat \<times> nat \<times> nat \<times> nat \<times> nat \<times> nat \<times> nat \<times> nat \<Rightarrow> nat \<Rightarrow> 'a word list \<Rightarrow> 'a word list" where
  "sha2_exp F1 F2 k w = (\<lambda>(a, b, c, d, e, f, g, h) j wv.
     let t1 = wv ! h + F2 (wv ! e) + sha2_ch (wv ! e) (wv ! f) (wv ! g) + k ! j + w ! j;
         t2 = F1 (wv ! a) + sha2_maj (wv ! a) (wv ! b) (wv ! c);
         wv = wv[d := wv ! d + t1]
     in wv[h := t1 + t2])"

definition sha2_eight :: "('a::len word \<Rightarrow> 'a word) \<Rightarrow> ('a word \<Rightarrow> 'a word) \<Rightarrow> 'a word list \<Rightarrow> 'a word list \<Rightarrow> nat \<Rightarrow> 'a word list \<Rightarrow> 'a word list" where
  "sha2_eight F1 F2 k w j wv =
     (let exp = sha2_exp F1 F2 k w;
          wv = exp (0, 1, 2, 3, 4, 5, 6, 7) j wv;
          wv = exp (7, 0, 1, 2, 3, 4, 5, 6) (j + 1) wv;
          wv = exp (6, 7, 0, 1, 2, 3, 4, 5) (j + 2) wv;
          wv = exp (5, 6, 7, 0, 1, 2, 3, 4) (j + 3) wv;
          wv = exp (4, 5, 6, 7, 0, 1, 2, 3) (j + 4) wv;
          wv = exp (3, 4, 5, 6, 7, 0, 1, 2) (j + 5) wv;
          wv = exp (2, 3, 4, 5, 6, 7, 0, 1) (j + 6) wv
      in exp (1, 2, 3, 4, 5, 6, 7, 0) (j + 7) wv)"

primrec sha2_eights :: "('a::len word \<Rightarrow> 'a word) \<Rightarrow> ('a word \<Rightarrow> 'a word) \<Rightarrow> 'a word list \<Rightarrow> 'a word list \<Rightarrow> nat \<Rightarrow> 'a word list \<Rightarrow> 'a word list" where
  "sha2_eights F1 F2 k w 0 wv = wv"
| "sha2_eights F1 F2 k w (Suc n) wv = sha2_eight F1 F2 k w (8 * n) (sha2_eights F1 F2 k w n wv)"

definition sha256_block_unrolled :: "u32 list \<Rightarrow> u8 list \<Rightarrow> u32 list" where
  "sha256_block_unrolled h sub_block =
     (let w = sha2_schedule sha256_F3 sha256_F4 64 (map (\<lambda>j. pack32 sub_block (j * 4)) [0..<16]);
          wv = sha2_eights sha256_F1 sha256_F2 sha256_k w 8 (map (\<lambda>j. h ! j) [0..<8])
      in map (\<lambda>j. h ! j + wv ! j) [0..<8])"

definition sha512_block_unrolled :: "u64 list \<Rightarrow> u8 list \<Rightarrow> u64 list" where
  "sha512_block_unrolled h sub_block =
     (let w = sha2_schedule sha512_F3 sha512_F4 80 (map (\<lambda>j. pack64 sub_block (j * 8)) [0..<16]);
          wv = sha2_eights sha512_F1 sha512_F2 sha512_k w 10 (map (\<lambda>j. h ! j) [0..<8])
      in map (\<lambda>j. h ! j + wv ! j) [0..<8])"

text \<open>The variables read from place \<open>a\<close> on.\<close>

definition turned :: "nat \<Rightarrow> 'a list \<Rightarrow> 'a list" where
  "turned a wv = map (\<lambda>i. wv ! ((a + i) mod 8)) [0..<8]"

lemma length_sha2_exp [simp]: "length (sha2_exp F1 F2 k w p j wv) = length wv"
  by (cases p) (simp add: sha2_exp_def Let_def split_beta)

lemma turned_0: "length wv = 8 \<Longrightarrow> turned 0 wv = wv"
  using map_nth[of wv] by (simp add: turned_def upt_8)

lemma sha2_exp_turned:
  assumes "length wv = 8"
  shows "turned 7 (sha2_exp F1 F2 k w (0, 1, 2, 3, 4, 5, 6, 7) j wv) = sha2_round F1 F2 k w (turned 0 wv) j"
    "turned 6 (sha2_exp F1 F2 k w (7, 0, 1, 2, 3, 4, 5, 6) j wv) = sha2_round F1 F2 k w (turned 7 wv) j"
    "turned 5 (sha2_exp F1 F2 k w (6, 7, 0, 1, 2, 3, 4, 5) j wv) = sha2_round F1 F2 k w (turned 6 wv) j"
    "turned 4 (sha2_exp F1 F2 k w (5, 6, 7, 0, 1, 2, 3, 4) j wv) = sha2_round F1 F2 k w (turned 5 wv) j"
    "turned 3 (sha2_exp F1 F2 k w (4, 5, 6, 7, 0, 1, 2, 3) j wv) = sha2_round F1 F2 k w (turned 4 wv) j"
    "turned 2 (sha2_exp F1 F2 k w (3, 4, 5, 6, 7, 0, 1, 2) j wv) = sha2_round F1 F2 k w (turned 3 wv) j"
    "turned 1 (sha2_exp F1 F2 k w (2, 3, 4, 5, 6, 7, 0, 1) j wv) = sha2_round F1 F2 k w (turned 2 wv) j"
    "turned 0 (sha2_exp F1 F2 k w (1, 2, 3, 4, 5, 6, 7, 0) j wv) = sha2_round F1 F2 k w (turned 1 wv) j"
  using assms by (simp_all add: turned_def upt_8 sha2_exp_def sha2_round_def Let_def numeral_2_eq_2[symmetric])

lemma sha2_eight:
  assumes "length wv = 8"
  shows "length (sha2_eight F1 F2 k w j wv) = 8 \<and> sha2_eight F1 F2 k w j wv = foldl (sha2_round F1 F2 k w) wv [j..<j + 8]"
proof -
  have l: "length (sha2_eight F1 F2 k w j wv) = 8" using assms by (simp add: sha2_eight_def Let_def)
  have "sha2_eight F1 F2 k w j wv = turned 0 (sha2_eight F1 F2 k w j wv)" using turned_0[OF l] by simp
  also have "\<dots> = foldl (sha2_round F1 F2 k w) (turned 0 wv) [j, j + 1, j + 2, j + 3, j + 4, j + 5, j + 6, j + 7]"
    by (simp only: sha2_eight_def Let_def sha2_exp_turned length_sha2_exp assms foldl.simps)
  also have "[j, j + 1, j + 2, j + 3, j + 4, j + 5, j + 6, j + 7] = [j..<j + 8]"
    by (simp add: upt_conv_Cons eval_nat_numeral)
  finally show ?thesis using l turned_0[OF assms] by simp
qed

lemma sha2_eights:
  assumes "length wv = 8"
  shows "length (sha2_eights F1 F2 k w n wv) = 8 \<and> sha2_eights F1 F2 k w n wv = foldl (sha2_round F1 F2 k w) wv [0..<8 * n]"
proof (induction n)
  case (Suc n)
  have "[0..<8 * Suc n] = [0..<8 * n] @ [8 * n..<8 * n + 8]" using upt_split[of 0 "8 * n" "8 * n + 8"] by (simp add: add.commute)
  then have "foldl (sha2_round F1 F2 k w) wv [0..<8 * Suc n]
      = foldl (sha2_round F1 F2 k w) (sha2_eights F1 F2 k w n wv) [8 * n..<8 * n + 8]"
    using Suc by simp
  moreover note e = sha2_eight[OF conjunct1[OF Suc.IH], of F1 F2 k w "8 * n"]
  ultimately have "sha2_eights F1 F2 k w (Suc n) wv = foldl (sha2_round F1 F2 k w) wv [0..<8 * Suc n]" by simp
  then show ?case using conjunct1[OF e] by (simp only: sha2_eights.simps simp_thms)
qed (use assms in simp)

text \<open>
  The unrolled build computes each block exactly as the build with loops does.
\<close>

theorem sha2_unrolled_correct:
  "sha256_block_unrolled h b = sha256_block h b \<and> sha512_block_unrolled h' b' = sha512_block h' b'"
proof -
  have l: "length (map (\<lambda>j. h ! j) [0..<8]) = 8" "length (map (\<lambda>j. h' ! j) [0..<8]) = 8" by simp_all
  have e: "[0..<8 * 8] = [0..<64]" "[0..<8 * 10] = [0..<80]" by (simp_all del: upt_rec_numeral)
  note r = sha2_eights[OF l(1), of sha256_F1 sha256_F2 sha256_k _ 8] sha2_eights[OF l(2), of sha512_F1 sha512_F2 sha512_k _ 10]
  show ?thesis
    unfolding sha256_block_unrolled_def sha256_block_def sha512_block_unrolled_def sha512_block_def Let_def
      conjunct2[OF r(1)] conjunct2[OF r(2)] e by (rule conjI[OF refl refl])
qed

end
