(* ===== verification/Hmac.thy ===== *)
theory Hmac imports
  Sha2
begin

text \<open>
  Keyed digests: src/hmac.c.  The functions of the four digests differ in nothing but the digest, so they are written once, with
  the digest's functions as arguments.
\<close>

section \<open>The code\<close>

record 'w hmac_ctx =
  hm_inside :: "'w sha2_ctx"
  hm_outside :: "'w sha2_ctx"
  hm_inside_reinit :: "'w sha2_ctx"
  hm_outside_reinit :: "'w sha2_ctx"
  hm_ipad :: "u8 list"
  hm_opad :: "u8 list"

definition hmac_init :: "nat \<Rightarrow> nat \<Rightarrow> (u8 list \<Rightarrow> u8 list) \<Rightarrow> ('w sha2_ctx \<Rightarrow> 'w sha2_ctx) \<Rightarrow> ('w sha2_ctx \<Rightarrow> u8 list \<Rightarrow> 'w sha2_ctx)
    \<Rightarrow> 'w hmac_ctx \<Rightarrow> u8 list \<Rightarrow> 'w hmac_ctx" where
  "hmac_init B D hash init upd ctx key =
     (let key_size = length key;
          (key_used, num, ctx) =
            (if key_size = B then (key, B, ctx)
             else (let (key_used, num) = (if key_size > B then (hash key, D) else (key, key_size));
                       fill = B - num
                   in (key_used, num, ctx\<lparr>hm_ipad := sha2_store num (replicate fill 0x36) (hm_ipad ctx),
                                          hm_opad := sha2_store num (replicate fill 0x5c) (hm_opad ctx)\<rparr>)));
          ctx = ctx\<lparr>hm_ipad := sha2_store 0 (map (\<lambda>i. key_used ! i XOR 0x36) [0..<num]) (hm_ipad ctx),
                    hm_opad := sha2_store 0 (map (\<lambda>i. key_used ! i XOR 0x5c) [0..<num]) (hm_opad ctx)\<rparr>;
          inside = upd (init (hm_inside ctx)) (hm_ipad ctx);
          outside = upd (init (hm_outside ctx)) (hm_opad ctx)
      in ctx\<lparr>hm_inside := inside, hm_outside := outside, hm_inside_reinit := inside, hm_outside_reinit := outside\<rparr>)"

definition hmac_reinit :: "'w hmac_ctx \<Rightarrow> 'w hmac_ctx" where
  "hmac_reinit ctx = ctx\<lparr>hm_inside := hm_inside_reinit ctx, hm_outside := hm_outside_reinit ctx\<rparr>"

definition hmac_update :: "('w sha2_ctx \<Rightarrow> u8 list \<Rightarrow> 'w sha2_ctx) \<Rightarrow> 'w hmac_ctx \<Rightarrow> u8 list \<Rightarrow> 'w hmac_ctx" where
  "hmac_update upd ctx message = ctx\<lparr>hm_inside := upd (hm_inside ctx) message\<rparr>"

text \<open>\<open>mac_size\<close> is at most the length of the digest.\<close>

definition hmac_final :: "('w sha2_ctx \<Rightarrow> u8 list \<Rightarrow> 'w sha2_ctx) \<Rightarrow> ('w sha2_ctx \<Rightarrow> u8 list \<times> 'w sha2_ctx)
    \<Rightarrow> 'w hmac_ctx \<Rightarrow> nat \<Rightarrow> u8 list \<times> 'w hmac_ctx" where
  "hmac_final upd fin ctx mac_size =
     (let (digest_inside, inside) = fin (hm_inside ctx);
          (mac_temp, outside) = fin (upd (hm_outside ctx) digest_inside)
      in (take mac_size mac_temp, ctx\<lparr>hm_inside := inside, hm_outside := outside\<rparr>))"

text \<open>The local contexts, \<open>c\<close> of the digest of a long key and \<open>ctx\<close>, are not initialised.\<close>

definition hmac_sha224_init :: "u32 sha2_ctx \<Rightarrow> u32 hmac_ctx \<Rightarrow> u8 list \<Rightarrow> u32 hmac_ctx" where
  "hmac_sha224_init c = hmac_init 64 28 (sha224 c) sha224_init sha224_update"

definition hmac_sha224_update :: "u32 hmac_ctx \<Rightarrow> u8 list \<Rightarrow> u32 hmac_ctx" where
  "hmac_sha224_update = hmac_update sha224_update"

definition hmac_sha224_final :: "u32 hmac_ctx \<Rightarrow> nat \<Rightarrow> u8 list \<times> u32 hmac_ctx" where
  "hmac_sha224_final = hmac_final sha224_update sha224_final"

definition hmac_sha224 :: "u32 sha2_ctx \<Rightarrow> u32 hmac_ctx \<Rightarrow> u8 list \<Rightarrow> u8 list \<Rightarrow> nat \<Rightarrow> u8 list" where
  "hmac_sha224 c ctx key message mac_size = fst (hmac_sha224_final (hmac_sha224_update (hmac_sha224_init c ctx key) message) mac_size)"

definition hmac_sha256_init :: "u32 sha2_ctx \<Rightarrow> u32 hmac_ctx \<Rightarrow> u8 list \<Rightarrow> u32 hmac_ctx" where
  "hmac_sha256_init c = hmac_init 64 32 (sha256 c) sha256_init sha256_update"

definition hmac_sha256_update :: "u32 hmac_ctx \<Rightarrow> u8 list \<Rightarrow> u32 hmac_ctx" where
  "hmac_sha256_update = hmac_update sha256_update"

definition hmac_sha256_final :: "u32 hmac_ctx \<Rightarrow> nat \<Rightarrow> u8 list \<times> u32 hmac_ctx" where
  "hmac_sha256_final = hmac_final sha256_update sha256_final"

definition hmac_sha256 :: "u32 sha2_ctx \<Rightarrow> u32 hmac_ctx \<Rightarrow> u8 list \<Rightarrow> u8 list \<Rightarrow> nat \<Rightarrow> u8 list" where
  "hmac_sha256 c ctx key message mac_size = fst (hmac_sha256_final (hmac_sha256_update (hmac_sha256_init c ctx key) message) mac_size)"

definition hmac_sha384_init :: "u64 sha2_ctx \<Rightarrow> u64 hmac_ctx \<Rightarrow> u8 list \<Rightarrow> u64 hmac_ctx" where
  "hmac_sha384_init c = hmac_init 128 48 (sha384 c) sha384_init sha384_update"

definition hmac_sha384_update :: "u64 hmac_ctx \<Rightarrow> u8 list \<Rightarrow> u64 hmac_ctx" where
  "hmac_sha384_update = hmac_update sha384_update"

definition hmac_sha384_final :: "u64 hmac_ctx \<Rightarrow> nat \<Rightarrow> u8 list \<times> u64 hmac_ctx" where
  "hmac_sha384_final = hmac_final sha384_update sha384_final"

definition hmac_sha384 :: "u64 sha2_ctx \<Rightarrow> u64 hmac_ctx \<Rightarrow> u8 list \<Rightarrow> u8 list \<Rightarrow> nat \<Rightarrow> u8 list" where
  "hmac_sha384 c ctx key message mac_size = fst (hmac_sha384_final (hmac_sha384_update (hmac_sha384_init c ctx key) message) mac_size)"

definition hmac_sha512_init :: "u64 sha2_ctx \<Rightarrow> u64 hmac_ctx \<Rightarrow> u8 list \<Rightarrow> u64 hmac_ctx" where
  "hmac_sha512_init c = hmac_init 128 64 (sha512 c) sha512_init sha512_update"

definition hmac_sha512_update :: "u64 hmac_ctx \<Rightarrow> u8 list \<Rightarrow> u64 hmac_ctx" where
  "hmac_sha512_update = hmac_update sha512_update"

definition hmac_sha512_final :: "u64 hmac_ctx \<Rightarrow> nat \<Rightarrow> u8 list \<times> u64 hmac_ctx" where
  "hmac_sha512_final = hmac_final sha512_update sha512_final"

definition hmac_sha512 :: "u64 sha2_ctx \<Rightarrow> u64 hmac_ctx \<Rightarrow> u8 list \<Rightarrow> u8 list \<Rightarrow> nat \<Rightarrow> u8 list" where
  "hmac_sha512 c ctx key message mac_size = fst (hmac_sha512_final (hmac_sha512_update (hmac_sha512_init c ctx key) message) mac_size)"

section \<open>RFC 2104\<close>

definition hmac_key :: "(u8 list \<Rightarrow> u8 list) \<Rightarrow> nat \<Rightarrow> u8 list \<Rightarrow> u8 list" where
  "hmac_key H B key = (let k = (if length key > B then H key else key) in k @ replicate (B - length k) 0)"

definition hmac_digest :: "(u8 list \<Rightarrow> u8 list) \<Rightarrow> nat \<Rightarrow> u8 list \<Rightarrow> u8 list \<Rightarrow> u8 list" where
  "hmac_digest H B key msg =
     H (map (\<lambda>b. b XOR 0x5c) (hmac_key H B key) @ H (map (\<lambda>b. b XOR 0x36) (hmac_key H B key) @ msg))"

section \<open>The interface of a digest\<close>

text \<open>\<open>good c\<close>: the buffer of the context has the size the functions rely on.\<close>

locale digest_functions =
  fixes B :: nat and D :: nat and limit :: nat and good :: "'w sha2_ctx \<Rightarrow> bool"
    and init :: "'w sha2_ctx \<Rightarrow> 'w sha2_ctx" and upd :: "'w sha2_ctx \<Rightarrow> u8 list \<Rightarrow> 'w sha2_ctx"
    and fin :: "'w sha2_ctx \<Rightarrow> u8 list \<times> 'w sha2_ctx" and H :: "u8 list \<Rightarrow> u8 list"
  assumes pieces: "good c \<Longrightarrow> length (concat ps) < limit \<Longrightarrow> fst (fin (foldl upd (init c) ps)) = H (concat ps)"
    and length_H: "length (H m) = D"
    and sizes: "D \<le> B" "B + D < limit"
begin

lemma hash_one: "good c \<Longrightarrow> length m < limit \<Longrightarrow> fst (fin (upd (init c) m)) = H m"
  using pieces[of c "[m]"] by simp

text \<open>The padded keys.\<close>

lemma hmac_init_pads:
  assumes "length (hm_ipad ctx) = B" "length (hm_opad ctx) = B" "good c" "length key < limit"
  shows "let ctx' = hmac_init B D (\<lambda>m. fst (fin (upd (init c) m))) init upd ctx key;
             ipad = map (\<lambda>b. b XOR 0x36) (hmac_key H B key); opad = map (\<lambda>b. b XOR 0x5c) (hmac_key H B key)
    in hm_ipad ctx' = ipad \<and> hm_opad ctx' = opad
      \<and> hm_inside ctx' = upd (init (hm_inside ctx)) ipad \<and> hm_outside ctx' = upd (init (hm_outside ctx)) opad
      \<and> hm_inside_reinit ctx' = hm_inside ctx' \<and> hm_outside_reinit ctx' = hm_outside ctx'"
proof -
  have s: "sha2_store 0 (map (\<lambda>i. k ! i XOR x) [0..<length k]) (sha2_store (length k) (replicate (B - length k) x) p)
      = map (\<lambda>b. b XOR x) (k @ replicate (B - length k) 0)"
    if "length k \<le> B" "length p = B" for k p and x :: u8
    using that by (simp add: sha2_store_def nth_equalityI map_equality_iff)
  consider "length key = B" | "length key < B" | "length key > B" by linarith
  then show ?thesis
  proof cases
    case 1
    have "sha2_store 0 (map (\<lambda>i. key ! i XOR x) [0..<B]) p = map (\<lambda>b. b XOR x) key" if "length p = B" for x :: u8 and p
      using that 1[symmetric] by (simp add: sha2_store_def map_equality_iff)
    then show ?thesis using 1 assms(1,2) by (simp add: hmac_init_def hmac_key_def Let_def)
  next
    case 2
    then show ?thesis using s[of key] assms(1,2) by (simp add: hmac_init_def hmac_key_def Let_def)
  next
    case 3
    have "fst (fin (upd (init c) key)) = H key" using assms(3,4) by (rule hash_one)
    then show ?thesis using 3 s[of "H key"] assms(1,2) sizes by (simp add: hmac_init_def hmac_key_def Let_def length_H)
  qed
qed

lemma length_hmac_key: "length (hmac_key H B key) = B"
  using sizes by (simp add: hmac_key_def Let_def length_H)

text \<open>A message in pieces, from contexts that hold nothing but the padded key.\<close>

lemma hmac_from_pads:
  assumes "hm_inside ctx = upd (init ci) (map (\<lambda>b. b XOR 0x36) (hmac_key H B key))"
    "hm_outside ctx = upd (init co) (map (\<lambda>b. b XOR 0x5c) (hmac_key H B key))"
    "good ci" "good co" "B + length (concat ps) < limit"
  shows "fst (hmac_final upd fin (foldl (hmac_update upd) ctx ps) n) = take n (hmac_digest H B key (concat ps))"
proof -
  let ?i = "map (\<lambda>b. b XOR 0x36) (hmac_key H B key)" let ?o = "map (\<lambda>b. b XOR 0x5c) (hmac_key H B key)"
  have f: "hm_inside (foldl (hmac_update upd) c ps) = foldl upd (hm_inside c) ps"
    "hm_outside (foldl (hmac_update upd) c ps) = hm_outside c" for c
    by (induction ps arbitrary: c) (simp_all add: hmac_update_def)
  have i: "fst (fin (foldl upd (hm_inside ctx) ps)) = H (?i @ concat ps)"
    using pieces[OF assms(3), of "?i # ps"] assms(1,5) by (simp add: length_hmac_key)
  have "fst (fin (upd (upd (init co) ?o) (H (?i @ concat ps)))) = H (?o @ H (?i @ concat ps))"
    using pieces[OF assms(4), of "[?o, H (?i @ concat ps)]"] sizes by (simp add: length_hmac_key length_H)
  then show ?thesis using i assms(2) by (simp add: hmac_final_def Let_def split_beta f hmac_digest_def)
qed

lemma hmac_session:
  assumes "length (hm_ipad ctx) = B" "length (hm_opad ctx) = B" "good c" "good (hm_inside ctx)" "good (hm_outside ctx)"
    "length key < limit" "B + length (concat ps) < limit" "B + length (concat qs) < limit"
  shows "let ctx' = foldl (hmac_update upd) (hmac_init B D (\<lambda>m. fst (fin (upd (init c) m))) init upd ctx key) ps;
             (mac, ctx'') = hmac_final upd fin ctx' n
    in mac = take n (hmac_digest H B key (concat ps))
      \<and> fst (hmac_final upd fin (foldl (hmac_update upd) (hmac_reinit ctx'') qs) n) = take n (hmac_digest H B key (concat qs))"
proof -
  define c0 where "c0 = hmac_init B D (\<lambda>m. fst (fin (upd (init c) m))) init upd ctx key"
  define c1 where "c1 = foldl (hmac_update upd) c0 ps"
  define c2 where "c2 = snd (hmac_final upd fin c1 n)"
  note p = hmac_init_pads[OF assms(1,2,3,6), folded c0_def, unfolded Let_def]
  have r: "hm_inside_reinit (foldl (hmac_update upd) d xs) = hm_inside_reinit d"
    "hm_outside_reinit (foldl (hmac_update upd) d xs) = hm_outside_reinit d" for d xs
    by (induction xs arbitrary: d) (simp_all add: hmac_update_def)
  have "hm_inside_reinit c2 = hm_inside c0" "hm_outside_reinit c2 = hm_outside c0"
    using p by (simp_all add: c2_def c1_def hmac_final_def Let_def split_beta r)
  then have "fst (hmac_final upd fin (foldl (hmac_update upd) (hmac_reinit c2) qs) n) = take n (hmac_digest H B key (concat qs))"
    using p assms(4,5,8) by (intro hmac_from_pads[where ci = "hm_inside ctx" and co = "hm_outside ctx"]) (simp_all add: hmac_reinit_def)
  moreover have "fst (hmac_final upd fin c1 n) = take n (hmac_digest H B key (concat ps))"
    unfolding c1_def using p assms(4,5,7) by (intro hmac_from_pads[where ci = "hm_inside ctx" and co = "hm_outside ctx"]) simp_all
  ultimately show ?thesis
    unfolding Let_def c0_def[symmetric] c1_def[symmetric] by (simp add: c2_def split_beta)
qed

end

section \<open>The four digests\<close>

lemma length_concat_map_const: "(\<And>x. length (f x) = k) \<Longrightarrow> length (concat (map f xs)) = k * length xs"
  by (induction xs) simp_all

lemma length_unpack64 [simp]: "length (unpack64 x) = 8"
  by (simp add: unpack64_def)

lemma sha2_digest_lengths:
  "length (sha224_digest m) = 28" "length (sha256_digest m) = 32" "length (sha384_digest m) = 48" "length (sha512_digest m) = 64"
  by (simp_all add: sha224_digest_def sha256_digest_def sha384_digest_def sha512_digest_def sha2_digest_def
    length_concat_map_const[of _ 4] length_concat_map_const[of _ 8] del: upt_rec_numeral)

interpretation hmac224: digest_functions 64 28 "2 ^ 29" "\<lambda>c. length (s2_block c) = 128" sha224_init sha224_update sha224_final sha224_digest
  by unfold_locales (simp_all add: sha2_pieces_all sha2_digest_lengths)

interpretation hmac256: digest_functions 64 32 "2 ^ 29" "\<lambda>c. length (s2_block c) = 128" sha256_init sha256_update sha256_final sha256_digest
  by unfold_locales (simp_all add: sha2_pieces_all sha2_digest_lengths)

interpretation hmac384: digest_functions 128 48 "2 ^ 29" "\<lambda>c. length (s2_block c) = 256" sha384_init sha384_update sha384_final sha384_digest
  by unfold_locales (simp_all add: sha2_pieces_all sha2_digest_lengths)

interpretation hmac512: digest_functions 128 64 "2 ^ 29" "\<lambda>c. length (s2_block c) = 256" sha512_init sha512_update sha512_final sha512_digest
  by unfold_locales (simp_all add: sha2_pieces_all sha2_digest_lengths)

text \<open>The contexts the functions are given have buffers of the declared sizes.\<close>

definition hmac_sizes :: "nat \<Rightarrow> 'w hmac_ctx \<Rightarrow> bool" where
  "hmac_sizes B ctx \<longleftrightarrow> length (hm_ipad ctx) = B \<and> length (hm_opad ctx) = B
     \<and> length (s2_block (hm_inside ctx)) = 2 * B \<and> length (s2_block (hm_outside ctx)) = 2 * B"

text \<open>
  C23: The HMAC-SHA-256 functions of src/hmac.c, for keys shorter than 2^29 bytes (shorter and longer than a block) and messages shorter than
  2^28 bytes: fed with a message in pieces, however it is divided, they compute the code of RFC 2104, cut to the size asked for; and
  after \<open>hmac_sha256_reinit\<close> they compute it again, with the same key, for the next message.  (From
  2^29 bytes on the 32-bit bit count of src/sha2.c wraps around.)
\<close>

theorem hmac_sha256_correct:
  assumes "hmac_sizes 64 ctx" "length (s2_block c) = 128" "length key < 2 ^ 29"
    and "length (concat ps) < 2 ^ 28" "length (concat qs) < 2 ^ 28"
  shows "let (mac, ctx') = hmac_sha256_final (foldl hmac_sha256_update (hmac_sha256_init c ctx key) ps) n
    in mac = take n (hmac_digest sha256_digest 64 key (concat ps))
      \<and> fst (hmac_sha256_final (foldl hmac_sha256_update (hmac_reinit ctx') qs) n) = take n (hmac_digest sha256_digest 64 key (concat qs))"
  using hmac256.hmac_session[of ctx c key ps qs n] assms
  unfolding hmac_sizes_def hmac_sha256_final_def hmac_sha256_update_def hmac_sha256_init_def sha256_def[abs_def] Let_def
  by simp

theorem hmac_sha256_correct_witness:
  "\<exists>c ctx. fst (hmac_sha256_final (foldl hmac_sha256_update (hmac_sha256_init c ctx [1, 2, 3]) [[97], [98]]) 32)
    = take 32 (hmac_digest sha256_digest 64 [1, 2, 3] [97, 98])"
proof -
  define c where "c = \<lparr>s2_tot_len = 0, s2_len = 0, s2_block = replicate 128 0, s2_h = [] :: u32 list\<rparr>"
  define ctx where "ctx = \<lparr>hm_inside = c, hm_outside = c, hm_inside_reinit = c, hm_outside_reinit = c,
    hm_ipad = replicate 64 0, hm_opad = replicate 64 0\<rparr>"
  have s: "hmac_sizes 64 ctx" "length (s2_block c) = 128" "length [1, 2, 3 :: u8] < 2 ^ 29"
    and l: "length (concat [[97], [98 :: u8]]) < 2 ^ 28" and m: "concat [[97], [98]] = [97, 98 :: u8]"
    by (simp_all add: hmac_sizes_def c_def ctx_def)
  show ?thesis using hmac_sha256_correct[OF s l l, of 32] unfolding m by (auto simp: split_beta Let_def)
qed

text \<open>
  With either of the four digests, the one-call HMAC functions compute the code of RFC 2104 of a message.
\<close>

theorem hmac_correct:
  assumes "hmac_sizes 64 ctx" "length (s2_block c) = 128" "hmac_sizes 128 ctx'" "length (s2_block c') = 256"
    and "length key < 2 ^ 29" "length msg < 2 ^ 28"
  shows "hmac_sha224 c ctx key msg n = take n (hmac_digest sha224_digest 64 key msg)
    \<and> hmac_sha256 c ctx key msg n = take n (hmac_digest sha256_digest 64 key msg)
    \<and> hmac_sha384 c' ctx' key msg n = take n (hmac_digest sha384_digest 128 key msg)
    \<and> hmac_sha512 c' ctx' key msg n = take n (hmac_digest sha512_digest 128 key msg)"
  using hmac224.hmac_session[of ctx c key "[msg]" "[]" n] hmac256.hmac_session[of ctx c key "[msg]" "[]" n]
    hmac384.hmac_session[of ctx' c' key "[msg]" "[]" n] hmac512.hmac_session[of ctx' c' key "[msg]" "[]" n] assms
  unfolding hmac_sizes_def hmac_sha224_def hmac_sha224_final_def hmac_sha224_update_def hmac_sha224_init_def sha224_def[abs_def]
    hmac_sha256_def hmac_sha256_final_def hmac_sha256_update_def hmac_sha256_init_def sha256_def[abs_def]
    hmac_sha384_def hmac_sha384_final_def hmac_sha384_update_def hmac_sha384_init_def sha384_def[abs_def]
    hmac_sha512_def hmac_sha512_final_def hmac_sha512_update_def hmac_sha512_init_def sha512_def[abs_def] Let_def
  by (simp add: split_beta)

theorem hmac_correct_witness:
  "\<exists>c ctx. hmac_sha512 c ctx [1, 2, 3] [97, 98] 64 = take 64 (hmac_digest sha512_digest 128 [1, 2, 3] [97, 98])"
proof -
  define c where "c = \<lparr>s2_tot_len = 0, s2_len = 0, s2_block = replicate 128 0, s2_h = [] :: u32 list\<rparr>"
  define ctx where "ctx = \<lparr>hm_inside = c, hm_outside = c, hm_inside_reinit = c, hm_outside_reinit = c,
    hm_ipad = replicate 64 0, hm_opad = replicate 64 0\<rparr>"
  define c' where "c' = \<lparr>s2_tot_len = 0, s2_len = 0, s2_block = replicate 256 0, s2_h = [] :: u64 list\<rparr>"
  define ctx' where "ctx' = \<lparr>hm_inside = c', hm_outside = c', hm_inside_reinit = c', hm_outside_reinit = c',
    hm_ipad = replicate 128 0, hm_opad = replicate 128 0\<rparr>"
  have s: "hmac_sizes 64 ctx" "length (s2_block c) = 128" "hmac_sizes 128 ctx'" "length (s2_block c') = 256"
    "length [1, 2, 3 :: u8] < 2 ^ 29" "length [97, 98 :: u8] < 2 ^ 28"
    by (simp_all add: hmac_sizes_def c_def ctx_def c'_def ctx'_def)
  show ?thesis using hmac_correct[OF s, of 64] by blast
qed

end
