(* ===== verification/Jwt.thy ===== *)
theory Jwt imports
  Core Sha1 Md5 Hmac Base64
begin

text \<open>
  Digests and tokens for the clients: the \<open>crypto_\<close> functions and \<open>auth_token\<close> of src/core.c, and JSON web tokens, src/jwt.c.  The local
  variables that the code does not initialise before it passes them on are the record \<open>scratch\<close>.
\<close>

section \<open>Texts and bytes\<close>

definition bytes :: "string \<Rightarrow> u8 list" where
  "bytes s = map of_char s"

definition as_text :: "u8 list \<Rightarrow> string" where
  "as_text bs = map (\<lambda>b. char_of (unat b)) bs"

lemma bytes_as_text [simp]: "bytes (as_text bs) = bs"
proof -
  have "(of_char (char_of (unat b) :: char) :: u8) = b" for b
  proof -
    have "(of_char (char_of (unat b) :: char) :: u8) = of_nat (of_char (char_of (unat b) :: char))" by (simp only: of_nat_of_char)
    then show ?thesis using unsigned_less[of b, where ?'a = nat] by simp
  qed
  then show ?thesis by (simp add: bytes_def as_text_def comp_def del: of_char_of)
qed

lemma as_text_bytes [simp]: "as_text (bytes s) = s"
proof -
  have "unat (of_char c :: u8) = of_char c" for c
  proof -
    have "(of_char c :: u8) = of_nat (of_char c)" by (simp only: of_nat_of_char)
    moreover have "(of_char c :: nat) < 256" by simp
    ultimately show ?thesis by (simp add: unsigned_of_nat take_bit_nat_eq_self)
  qed
  then show ?thesis by (simp add: bytes_def as_text_def comp_def)
qed

text \<open>A length that is passed as an \<open>unsigned int\<close>.\<close>

definition cut32 :: "u8 list \<Rightarrow> u8 list" where
  "cut32 bs = take (length bs mod 2 ^ 32) bs"

lemma cut32_id [simp]: "length bs < 2 ^ 32 \<Longrightarrow> cut32 bs = bs"
  by (simp add: cut32_def)

section \<open>Digests as text\<close>

record scratch =
  x_sha :: sha
  x_md5 :: md5_ctx
  x_c32 :: "u32 sha2_ctx"
  x_c64 :: "u64 sha2_ctx"
  x_h32 :: "u32 hmac_ctx"
  x_h64 :: "u64 hmac_ctx"

definition crypto_sha1 :: "scratch \<Rightarrow> string \<Rightarrow> string option" where
  "crypto_sha1 x data =
     (let (ok, sha) = sha1_result (sha1_input (sha1_reset (x_sha x)) (cut32 (bytes data)))
      in if \<not> ok then None else Some (sha1_strsum sha))"

definition crypto_md5 :: "scratch \<Rightarrow> string \<Rightarrow> string" where
  "crypto_md5 x data = md5_strsum (fst (md5_final (md5_update (md5_init (x_md5 x)) (bytes data))))"

definition crypto_sha256 :: "scratch \<Rightarrow> string \<Rightarrow> string" where
  "crypto_sha256 x data = sha2_strsum (sha256 (x_c32 x) (cut32 (bytes data))) 64"

definition crypto_sha512 :: "scratch \<Rightarrow> string \<Rightarrow> string" where
  "crypto_sha512 x data = sha2_strsum (sha512 (x_c64 x) (cut32 (bytes data))) 128"

definition mac256 :: "scratch \<Rightarrow> string \<Rightarrow> u8 list \<Rightarrow> u8 list" where
  "mac256 x key data = hmac_sha256 (x_c32 x) (x_h32 x) (cut32 (bytes key)) (cut32 data) 32"

definition crypto_hmac_sha256 :: "scratch \<Rightarrow> string \<Rightarrow> string \<Rightarrow> string" where
  "crypto_hmac_sha256 x key data = sha2_strsum (mac256 x key (bytes data)) 64"

definition crypto_hmac_sha512 :: "scratch \<Rightarrow> string \<Rightarrow> string \<Rightarrow> string" where
  "crypto_hmac_sha512 x key data = sha2_strsum (hmac_sha512 (x_c64 x) (x_h64 x) (cut32 (bytes key)) (cut32 (bytes data)) 64) 128"

definition crypto_base64_enc :: "string \<Rightarrow> string option" where
  "crypto_base64_enc data = do {
     _ \<leftarrow> base64_encode_len (to_int (length data));
     (s, _) \<leftarrow> base64_encode (bytes data) (to_int (length data));
     Some (as_text (c_string s)) }"

definition crypto_base64_dec :: "string \<Rightarrow> string option" where
  "crypto_base64_dec data = do {
     _ \<leftarrow> base64_decode_len (bytes data @ [0]);
     (s, _) \<leftarrow> base64_decode (bytes data @ [0]);
     Some (as_text (c_string s)) }"

section \<open>Signing\<close>

text \<open>A part of the token: the coded text, made fit for a URL in its buffer of one byte more; and its size.\<close>

definition jwt_part :: "u8 list \<Rightarrow> (u8 list \<times> int) option" where
  "jwt_part s = do {
     sz \<leftarrow> base64_encode_len (to_int (length s));
     (encoded, _) \<leftarrow> base64_encode s (to_int (length s));
     u \<leftarrow> base64url_encode (encoded @ [0]) sz;
     Some (c_string u, sz) }"

text \<open>
  The parts are joined in a buffer of \<open>enheadsz + enpayldsz\<close> bytes, which grows for the signature; a text with its terminator must
  fit.
\<close>

definition jwt_sign :: "scratch \<Rightarrow> string \<Rightarrow> string \<Rightarrow> string \<Rightarrow> string option" where
  "jwt_sign x key buf_header buf_payload = do {
     (enhead, enheadsz) \<leftarrow> jwt_part (bytes buf_header);
     (enpayld, enpayldsz) \<leftarrow> jwt_part (bytes buf_payload);
     let unsigned_parts = as_text enhead @ ''.'' @ as_text enpayld;
     zassert (int (length unsigned_parts) + 1 \<le> enheadsz + enpayldsz);
     (ensig, ensigsz) \<leftarrow> jwt_part (mac256 x key (bytes unsigned_parts));
     let token = unsigned_parts @ ''.'' @ as_text ensig;
     zassert (int (length token) + 1 \<le> enheadsz + enpayldsz + ensigsz);
     Some token }"

text \<open>
  Checking a token, up to the text of its payload and the size of the buffer for it.  A token with an empty part makes \<open>strtok\<close> return the null
  pointer for the last one, which is read.
\<close>

definition jwt_verify :: "scratch \<Rightarrow> string \<Rightarrow> string \<Rightarrow> (string \<times> int) option option" where
  "jwt_verify x token key =
     (if strccnt token (CHR ''.'') \<noteq> 2 then Some None
      else (case strtok_all ''.'' [] token of
          [header, payload, signature] \<Rightarrow> do {
            let signed_parts = header @ ''.'' @ payload;
            (ensig, _) \<leftarrow> jwt_part (mac256 x key (bytes signed_parts));
            if as_text ensig \<noteq> signature then Some None
            else do {
              let payload = c_string (base64url_decode (bytes payload @ [0]) (to_int (length payload)));
              enpayldsz \<leftarrow> base64_decode_len (payload @ [0]);
              (enpayld, _) \<leftarrow> base64_decode (payload @ [0]);
              Some (Some (as_text (c_string enpayld), enpayldsz)) } }
        | _ \<Rightarrow> None))"

section \<open>Tokens\<close>

definition jwt_leaf :: "marshall_type \<Rightarrow> string \<Rightarrow> string \<Rightarrow> nat \<Rightarrow> marshall option" where
  "jwt_leaf type name data len = Some (Marshall (Some name) 3 (Some data) len [] 1 type)"

definition jwt_header :: marshall where
  "jwt_header = Marshall None 0 None 0
     ([jwt_leaf MTYPE_STRING ''alg'' ''HS256'' 5, jwt_leaf MTYPE_STRING ''typ'' ''JWT'' 3] @ replicate (tree_zcalloc_slots 2 - 2) None)
     2 MTYPE_OBJECT"

abbreviation JWT_TOKEN_VALID :: int where "JWT_TOKEN_VALID \<equiv> 3600"

definition jwt_body :: "string \<Rightarrow> string \<Rightarrow> string \<Rightarrow> string \<Rightarrow> nat \<Rightarrow> marshall" where
  "jwt_body issuer issue_time expiration_time squid n =
     (let cs = [jwt_leaf MTYPE_STRING ''iss'' issuer (length issuer),
                jwt_leaf MTYPE_INT ''iat'' issue_time (length issue_time),
                jwt_leaf MTYPE_INT ''nbf'' issue_time (length issue_time),
                jwt_leaf MTYPE_INT ''exp'' expiration_time (length expiration_time),
                jwt_leaf MTYPE_STRING ''aud'' ''CLUSTER'' 8,
                jwt_leaf MTYPE_STRING ''sub'' ''principal@CLUSTER'' 17,
                jwt_leaf MTYPE_QUID ''jti'' squid QUID_LENGTH]
      in Marshall None 0 None 0 (cs @ drop 7 (calloc_children (7 + n))) 7 MTYPE_OBJECT)"

definition jwt_encode :: "scratch \<Rightarrow> core \<Rightarrow> marshall \<Rightarrow> string \<Rightarrow> (string \<times> core) option" where
  "jwt_encode x c data key = do {
     (jti_key, b) \<leftarrow> quid_create (c_control c);
     let (now, b) = get_timestamp b;
     let (now', b) = get_timestamp b;
     let body = jwt_body (get_instance_name c) (itoa now) (itoa (now' + JWT_TOKEN_VALID)) (quidtostr jti_key) (m_size data);
     (payload, _, b) \<leftarrow> merge b data body;
     buf_header \<leftarrow> marshall_serialize jwt_header;
     buf_payload \<leftarrow> serialize_ptr payload;
     token \<leftarrow> jwt_sign x key buf_header buf_payload;
     Some (token, c\<lparr>c_control := b\<rparr>) }"

text \<open>\<open>atoll\<close> of the C library; a number that a \<open>long long\<close> cannot hold is undefined.\<close>

definition atoll :: "string \<Rightarrow> int option" where
  "atoll s =
     (let s = dropWhile (\<lambda>c. c \<in> set '' '' \<or> (9 \<le> code c \<and> code c \<le> (13 :: nat))) s;
          (neg, s) = (case s of c # s' \<Rightarrow> (if c = CHR ''-'' then (True, s') else if c = CHR ''+'' then (False, s') else (False, s)) | [] \<Rightarrow> (False, s));
          v = int (foldl digit_val 0 (takeWhile (\<lambda>c. 48 \<le> code c \<and> code c \<le> (57 :: nat)) s));
          r = (if neg then - v else v)
      in if - (2 ^ 63) \<le> r \<and> r < 2 ^ 63 then Some r else None)"

text \<open>The expiration times among the members; the clock is read for each of them.\<close>

fun jwt_expiry :: "nat \<Rightarrow> marshall option list \<Rightarrow> core \<Rightarrow> (bool \<times> core) option" where
  "jwt_expiry 0 cs c = Some (True, c)"
| "jwt_expiry (Suc n) (Some m # cs) c = do {
     name \<leftarrow> m_name m;
     if name = ''exp'' then do {
       d \<leftarrow> m_data m;
       expiration_time \<leftarrow> atoll d;
       let (now, b) = get_timestamp (c_control c);
       let c = c\<lparr>c_control := b\<rparr>;
       if now > expiration_time then Some (False, c) else jwt_expiry n cs c }
     else jwt_expiry n cs c }"
| "jwt_expiry (Suc n) _ c = None"

definition jwt_decode :: "scratch \<Rightarrow> core \<Rightarrow> string \<Rightarrow> string \<Rightarrow> (marshall option \<times> core) option" where
  "jwt_decode x c token key = do {
     r \<leftarrow> jwt_verify x token key;
     (case r of
        None \<Rightarrow> Some (None, c)
      | Some (enpayld, enpayldsz) \<Rightarrow> do {
          (data, b) \<leftarrow> convert (c_control c) enpayld (nat enpayldsz);
          m \<leftarrow> data;
          (ok, c) \<leftarrow> jwt_expiry (m_size m) (m_child m) (c\<lparr>c_control := b\<rparr>);
          Some (if ok then Some m else None, c) }) }"

definition auth_token :: "scratch \<Rightarrow> core \<Rightarrow> string \<Rightarrow> (string \<times> core) option" where
  "auth_token x c key =
     (let m = Marshall None 0 None 0
          ([Some (Marshall (Some ''name'') 4 (Some (get_instance_key c)) QUID_LENGTH [] 1 MTYPE_QUID)] @ drop 1 (calloc_children 1)) 1 MTYPE_OBJECT
      in jwt_encode x c m key)"

section \<open>A token checks\<close>

text \<open>The text of a part: its digits in the alphabet for a URL, with no padding.\<close>

definition url_bytes :: "u8 list \<Rightarrow> u8 list" where
  "url_bytes s = map to_url (map (\<lambda>v. digit v) (sextets s))"

lemma length_url_bytes: "length (url_bytes s) \<le> length (encode_loop s)"
  by (simp add: url_bytes_def encode_sextets)

lemma url_digit_all: "list_all (\<lambda>i. to_url (basis_64 ! i) \<noteq> of_char CHR ''.'') [0..<64]"
  by code_simp

lemma url_bytes_chars: "b \<in> set (url_bytes s) \<Longrightarrow> b \<noteq> 0 \<and> b \<noteq> of_char CHR ''.'' \<and> b \<noteq> of_char CHR ''=''"
proof -
  assume "b \<in> set (url_bytes s)"
  then obtain v where v: "v \<in> set (sextets s)" "b = to_url (digit v)" by (auto simp: url_bytes_def)
  then have l: "v < 64" using sextets_less by blast
  then have "unat v < 64" by (simp add: word_less_nat_alt)
  then have "to_url (digit v) \<noteq> of_char CHR ''.''" using url_digit_all by (auto simp: list_all_iff simp del: of_char_of)
  then show ?thesis unfolding v(2) using digit_url[OF l] by blast
qed

lemma basis_nonzero: "list_all (\<lambda>i. basis_64 ! i \<noteq> 0) [0..<64]"
  by code_simp

lemma digit_nonzero: "v < 64 \<Longrightarrow> digit v \<noteq> 0"
  using basis_nonzero by (auto simp: list_all_iff word_less_nat_alt)

lemma c_string_stop: "0 \<notin> set xs \<Longrightarrow> c_string (xs @ 0 # r) = xs"
  unfolding c_string_def by (subst takeWhile_append2) auto

lemma jwt_part:
  assumes short: "length s \<le> longest"
  shows "jwt_part s = Some (url_bytes s, int (length (encode_loop s)) + 1)"
proof -
  let ?d = "map (\<lambda>v. digit v) (sextets s)" and ?p = "pads (length s)" and ?eq = "of_char CHR ''='' :: u8"
  define L where "L = length (encode_loop s)"
  have e: "encode_loop s = ?d @ replicate ?p ?eq" by (simp add: encode_sextets)
  have sz: "nat (int (length (encode_loop s)) + 1) = Suc L" by (simp add: L_def)
  have no: "\<forall>c\<in>set ?d. c \<noteq> ?eq" using sextets_less[of s] digit_url(1) by (auto simp del: of_char_of)
  have u: "[0..<Suc L] = [0..<length ?d] @ [length ?d..<length ?d + ?p] @ [L]"
    using upt_add_eq_append[of 0 "length ?d" ?p] by (simp add: e L_def)
  have f1: "fold url_encode_step [0..<length ?d] (?d @ replicate ?p ?eq @ [0, 0], 0)
      = (map to_url ?d @ replicate ?p ?eq @ [0, 0], length ?d)"
    using url_encode_digits[of ?d "[]" "replicate ?p ?eq @ [0, 0]"] no by simp
  have f2: "fold url_encode_step [length ?d..<length ?d + ?p] (map to_url ?d @ replicate ?p ?eq @ [0, 0], length ?d)
      = (map to_url ?d @ replicate ?p ?eq @ [0, 0], length ?d)"
    using url_encode_pads[of "map to_url ?d" ?p "[0, 0]" "length ?d"] by simp
  let ?b = "map to_url ?d @ replicate ?p ?eq @ [0, 0]"
  have "?b ! L = 0" by (simp add: e L_def nth_append)
  then have "fold url_encode_step [L] (?b, length ?d) = (?b, Suc (length ?d))"
    by (simp add: url_encode_step_def)
  then have f: "fold url_encode_step [0..<Suc L] (encode_loop s @ [0, 0], 0) = (?b, Suc (length ?d))"
    unfolding u fold_append comp_apply unfolding e append_assoc f1 f2 .
  have n: "?b ! length ?d = (if ?p = 0 then 0 else ?eq)" by (simp add: nth_append)
  have "\<exists>r. base64url_encode (encode_loop s @ [0, 0]) (int (length (encode_loop s)) + 1) = Some (map to_url ?d @ 0 # r)"
  proof (cases "?p = 0")
    case True
    then show ?thesis unfolding base64url_encode_def sz f using n L_def by (simp add: list_update_append del: of_char_of)
  next
    case False
    then obtain q where q: "?p = Suc q" by (cases ?p) auto
    have "0 < L" "encode_loop s \<noteq> []" using False by (simp_all add: e L_def)
    then show ?thesis unfolding base64url_encode_def sz f using n q by (simp add: list_update_append del: of_char_of)
  qed
  then obtain r where "base64url_encode (encode_loop s @ [0, 0]) (int (length (encode_loop s)) + 1) = Some (map to_url ?d @ 0 # r)" ..
  moreover have "c_string (map to_url ?d @ 0 # r) = map to_url ?d"
    using url_bytes_chars[of _ s] by (intro c_string_stop) (auto simp: url_bytes_def)
  ultimately show ?thesis using base64_encode_ok[OF short] short by (simp add: jwt_part_def url_bytes_def)
qed

definition url_text :: "string \<Rightarrow> string" where
  "url_text s = as_text (url_bytes (bytes s))"

lemma bytes_append [simp]: "bytes (s @ t) = bytes s @ bytes t" and length_bytes [simp]: "length (bytes s) = length s"
  and length_as_text [simp]: "length (as_text b) = length b"
  by (simp_all add: bytes_def as_text_def)

lemma as_text_set: "c \<in> set (as_text b) \<Longrightarrow> of_char c \<in> set b"
proof -
  assume "c \<in> set (as_text b)"
  then have "of_char c \<in> set (bytes (as_text b))" by (auto simp: bytes_def)
  then show ?thesis by simp
qed

lemma no_dots: "CHR ''.'' \<notin> set (as_text (url_bytes s))"
  using as_text_set url_bytes_chars by blast

lemma strtok_run: "CHR ''.'' \<notin> set a \<Longrightarrow> strtok_all ''.'' t (a @ r) = strtok_all ''.'' (t @ a) r"
  by (induction a arbitrary: t) auto

lemma strtok_three:
  assumes "CHR ''.'' \<notin> set a" "CHR ''.'' \<notin> set b" "CHR ''.'' \<notin> set c" "a \<noteq> []" "b \<noteq> []" "c \<noteq> []"
  shows "strtok_all ''.'' [] (a @ ''.'' @ b @ ''.'' @ c) = [a, b, c]" "strccnt (a @ ''.'' @ b @ ''.'' @ c) CHR ''.'' = 2"
proof -
  show "strtok_all ''.'' [] (a @ ''.'' @ b @ ''.'' @ c) = [a, b, c]"
    using assms strtok_run[OF assms(3), of "[]" "[]"] by (simp add: strtok_run)
  have n: "CHR ''.'' \<notin> set x \<Longrightarrow> strccnt (x @ r) CHR ''.'' = strccnt r CHR ''.''" for x r by (induction x) auto
  show "strccnt (a @ ''.'' @ b @ ''.'' @ c) CHR ''.'' = 2"
    using assms n[of c "[]"] by (simp add: n)
qed

text \<open>Reading a part gives back the text.\<close>

lemma decode_part:
  assumes "NUL \<notin> set s" "length s \<le> longest"
  defines "p \<equiv> c_string (base64url_decode (bytes (url_text s) @ [0]) (to_int (length (url_text s))))"
  obtains n buf k where "base64_decode_len (p @ [0]) = Some n" "base64_decode (p @ [0]) = Some (buf, k)" "as_text (c_string buf) = s"
proof -
  let ?d = "map (\<lambda>v. digit v) (sextets (bytes s))"
  have short: "length (bytes s) \<le> longest" using assms(2) by simp
  have u: "bytes (url_text s) = url_bytes (bytes s)" "length (url_text s) = length (url_bytes (bytes s))" by (simp_all add: url_text_def)
  have l: "length ?d \<le> length (encode_loop (bytes s))" by (simp add: encode_sextets)
  then have small: "length ?d + 3 < 2 ^ 31" using encoded_short[OF short] by simp
  have b: "\<forall>v\<in>set (sextets (bytes s)). from_url (to_url (digit v)) = digit v \<and> digit v \<noteq> 0"
    using sextets_less[of "bytes s"] digit_url(4) digit_nonzero by blast
  then have "map from_url (url_bytes (bytes s)) = ?d" by (simp add: url_bytes_def)
  moreover have "to_int (length (url_bytes (bytes s))) = int (length (url_bytes (bytes s)))"
    using small by (simp add: url_bytes_def)
  ultimately have "base64url_decode (url_bytes (bytes s) @ [0]) (to_int (length (url_bytes (bytes s)))) = ?d @ [0]"
    using url_decode_all[of "[]" "url_bytes (bytes s)" "[0]"] by (simp add: base64url_decode_def list_update_append url_bytes_def)
  moreover have "0 \<notin> set ?d" using b by force
  ultimately have p: "p = ?d" unfolding p_def u by (simp add: c_string_stop)
  have np: "nprbytes (?d @ [0]) = ?d" using nprbytes_stop[OF sextets_less pad_stops(2), of "bytes s" "[]"] by simp
  have "c_int (int (length ?d) + 3) = Some (int (length ?d) + 3)" using small by (intro c_int_small) simp_all
  then have "base64_decode_len (p @ [0]) = Some ((int (length ?d) + 3) sdiv 4 * 3 + 1)"
    using small unfolding p base64_decode_len_def np by simp
  moreover have "base64_decode (p @ [0]) = Some (bytes s @ [0], int (length (bytes s)))"
    unfolding p using np by (intro base64_decode_ok short)
  moreover have "0 \<notin> set (bytes s)"
  proof
    assume "0 \<in> set (bytes s)"
    then have "char_of (unat (0 :: u8)) \<in> set (as_text (bytes s))" unfolding as_text_def set_map by (rule imageI)
    moreover have "char_of (unat (0 :: u8)) = NUL" by (simp add: char_of_def)
    ultimately show False using assms(1) by simp
  qed
  ultimately show ?thesis using that by (simp add: c_string_stop)
qed

text \<open>The signature, for contexts of the right sizes.\<close>

definition scratch_ok :: "scratch \<Rightarrow> bool" where
  "scratch_ok x \<longleftrightarrow> length (sh_block (x_sha x)) = 64 \<and> length (m5_buffer (x_md5 x)) = 64
     \<and> length (s2_block (x_c32 x)) = 128 \<and> length (s2_block (x_c64 x)) = 256 \<and> hmac_sizes 64 (x_h32 x) \<and> hmac_sizes 128 (x_h64 x)"

lemma mac256:
  assumes "scratch_ok x" "length key < 2 ^ 29" "length data < 2 ^ 28"
  shows "mac256 x key data = hmac_digest sha256_digest 64 (bytes key) data \<and> length (mac256 x key data) = 32"
proof -
  have "hmac_sha256 (x_c32 x) (x_h32 x) (bytes key) data 32 = take 32 (hmac_digest sha256_digest 64 (bytes key) data)"
    using hmac256.hmac_session[of "x_h32 x" "x_c32 x" "bytes key" "[data]" "[]" 32] assms
    unfolding hmac_sizes_def scratch_ok_def hmac_sha256_def hmac_sha256_final_def hmac_sha256_update_def hmac_sha256_init_def
      sha256_def[abs_def] Let_def
    by (simp add: split_beta)
  then show ?thesis using assms by (simp add: mac256_def hmac_digest_def sha2_digest_lengths)
qed

lemma url_bytes_nonempty: "s \<noteq> [] \<Longrightarrow> url_bytes s \<noteq> []"
  by (cases s rule: sextets_cases) (auto simp: url_bytes_def)

lemma strtok_sizes: "(\<Sum>x\<leftarrow>strtok_all d t s. length x + 1) \<le> length t + length s + 1"
proof (induction s arbitrary: t)
  case (Cons c s)
  show ?case using Cons[of "[]"] Cons[of "t @ [c]"] by auto
qed simp

lemma part_length: "length (url_text s) \<le> length (encode_loop (bytes s))" "length s \<le> length (url_text s)"
proof -
  show "length (url_text s) \<le> length (encode_loop (bytes s))" using length_url_bytes[of "bytes s"] by (simp add: url_text_def)
  show "length s \<le> length (url_text s)" by (cases "bytes s" rule: sextets_cases) (simp_all add: url_text_def url_bytes_def)
qed

lemma jwt_signs:
  fixes hdr pld :: string
  assumes "scratch_ok x" "length key < 2 ^ 29"
  defines "p \<equiv> url_text hdr @ ''.'' @ url_text pld"
  assumes "length p < 2 ^ 28"
  shows "jwt_sign x key hdr pld = Some (p @ ''.'' @ as_text (url_bytes (mac256 x key (bytes p))))"
proof -
  define m where "m = mac256 x key (bytes p)"
  have m: "length m = 32" using mac256[OF assms(1,2), of "bytes p"] assms(4) unfolding length_bytes m_def by blast
  have short: "length (bytes hdr) \<le> longest" "length (bytes pld) \<le> longest" "length m \<le> longest"
    using part_length(2)[of hdr] part_length(2)[of pld] assms(4) m by (simp_all add: p_def)
  note parts = jwt_part[OF short(1)] jwt_part[OF short(2)] jwt_part[OF short(3)]
  have "int (length p) + 1 \<le> int (length (encode_loop (bytes hdr))) + 1 + (int (length (encode_loop (bytes pld))) + 1)"
    "int (length (p @ ''.'' @ as_text (url_bytes m))) + 1
      \<le> int (length (encode_loop (bytes hdr))) + 1 + (int (length (encode_loop (bytes pld))) + 1) + (int (length (encode_loop m)) + 1)"
    using part_length(1)[of hdr] part_length(1)[of pld] length_url_bytes[of m] by (simp_all add: p_def)
  then show ?thesis
    unfolding jwt_sign_def parts bind.simps case_prod_conv Let_def url_text_def[symmetric] p_def[symmetric] m_def[symmetric]
    by (simp add: zassert_def)
qed

lemma jwt_checks:
  assumes "scratch_ok x" "length key < 2 ^ 29" "hdr \<noteq> []" "pld \<noteq> []" "NUL \<notin> set pld"
  defines "p \<equiv> url_text hdr @ ''.'' @ url_text pld"
  assumes "length p < 2 ^ 28"
  shows "\<exists>n. jwt_verify x (p @ ''.'' @ as_text (url_bytes (mac256 x key (bytes p)))) key = Some (Some (pld, n))"
proof -
  define m sig where "m = mac256 x key (bytes p)" and "sig = as_text (url_bytes m)"
  have m: "length m = 32" using mac256[OF assms(1,2), of "bytes p"] assms(7) unfolding length_bytes m_def by blast
  have ne: "url_text hdr \<noteq> []" "url_text pld \<noteq> []" "sig \<noteq> []"
  proof -
    have "m \<noteq> []" using m by force
    then show "url_text hdr \<noteq> []" "url_text pld \<noteq> []" "sig \<noteq> []"
      using url_bytes_nonempty[of "bytes hdr"] url_bytes_nonempty[of "bytes pld"] url_bytes_nonempty[of m] assms(3,4)
      by (auto simp: url_text_def sig_def as_text_def bytes_def)
  qed
  have nd: "CHR ''.'' \<notin> set (url_text hdr)" "CHR ''.'' \<notin> set (url_text pld)" "CHR ''.'' \<notin> set sig"
    by (simp_all add: url_text_def sig_def no_dots)
  have short: "length m \<le> longest" "length pld \<le> longest" using part_length(2)[of pld] assms(7) m by (simp_all add: p_def)
  note t = strtok_three[OF nd ne]
  have e: "p @ ''.'' @ sig = url_text hdr @ ''.'' @ url_text pld @ ''.'' @ sig" by (simp add: p_def)
  obtain n buf k where d: "base64_decode_len (c_string (base64url_decode (bytes (url_text pld) @ [0]) (to_int (length (url_text pld)))) @ [0]) = Some n"
    "base64_decode (c_string (base64url_decode (bytes (url_text pld) @ [0]) (to_int (length (url_text pld)))) @ [0]) = Some (buf, k)"
    "as_text (c_string buf) = pld"
    using decode_part[OF assms(5) short(2)] by blast
  have s: "as_text (url_bytes m) = sig" by (simp add: sig_def)
  have "jwt_verify x (p @ ''.'' @ sig) key = Some (Some (pld, n))"
    unfolding jwt_verify_def e t list.case Let_def unfolding p_def[symmetric] m_def[symmetric] jwt_part[OF short(1)] bind.simps case_prod_conv s d
    by simp
  then show ?thesis unfolding sig_def m_def by blast
qed

lemma mac256_short: "scratch_ok x \<Longrightarrow> length key < 2 ^ 29 \<Longrightarrow> length data < 2 ^ 28 \<Longrightarrow> length (mac256 x key data) \<le> longest"
  using mac256[of x key data, THEN conjunct2] by simp

lemma jwt_verify_last:
  assumes "scratch_ok x" "length key < 2 ^ 29" "jwt_verify x token key = Some (Some r)" "length token < 2 ^ 28"
  shows "\<exists>h p s. strtok_all ''.'' [] token = [h, p, s] \<and> s = as_text (url_bytes (mac256 x key (bytes (h @ ''.'' @ p))))"
proof -
  obtain h p s where t: "strtok_all ''.'' [] token = [h, p, s]"
    using assms(3) unfolding jwt_verify_def by (auto split: if_splits list.splits)
  have "length (bytes (h @ ''.'' @ p)) < 2 ^ 28" using strtok_sizes[of "''.''" "[]" token] t assms(4) by simp
  from jwt_part[OF mac256_short[OF assms(1,2) this]]
  have "s = as_text (url_bytes (mac256 x key (bytes (h @ ''.'' @ p))))"
    using assms(3) unfolding jwt_verify_def t list.case Let_def by (auto split: if_splits)
  then show ?thesis using t by blast
qed

lemma jwt_accepted:
  assumes "scratch_ok x" "length key < 2 ^ 29" "length token < 2 ^ 28" "jwt_verify x token key = Some (Some r)"
  shows "\<exists>h p s. strtok_all ''.'' [] token = [h, p, s]
    \<and> s = as_text (url_bytes (hmac_digest sha256_digest 64 (bytes key) (bytes (h @ ''.'' @ p))))"
proof -
  obtain h p s where t: "strtok_all ''.'' [] token = [h, p, s]"
    and s: "s = as_text (url_bytes (mac256 x key (bytes (h @ ''.'' @ p))))"
    using jwt_verify_last[OF assms(1,2,4,3)] by blast
  have "length (bytes (h @ ''.'' @ p)) < 2 ^ 28" using strtok_sizes[of "''.''" "[]" token] t assms(3) by simp
  then have "mac256 x key (bytes (h @ ''.'' @ p)) = hmac_digest sha256_digest 64 (bytes key) (bytes (h @ ''.'' @ p))"
    using mac256[OF assms(1,2)] by blast
  then show ?thesis using t s by simp
qed

text \<open>A token for an empty payload.\<close>

lemma jwt_empty_payload:
  assumes "CHR ''.'' \<notin> set h" "h \<noteq> []" "CHR ''.'' \<notin> set s" "s \<noteq> []"
  shows "jwt_verify x (h @ ''.'' @ ''.'' @ s) key = None"
proof -
  have "strtok_all ''.'' [] (h @ ''.'' @ ''.'' @ s) = [h, s]"
    using assms strtok_run[OF assms(3), of "[]" "[]"] by (simp add: strtok_run)
  moreover have n: "CHR ''.'' \<notin> set x \<Longrightarrow> strccnt (x @ r) CHR ''.'' = strccnt r CHR ''.''" for x r by (induction x) auto
  have "strccnt (h @ ''.'' @ ''.'' @ s) CHR ''.'' = 2" using assms n[of s "[]"] by (simp add: n)
  ultimately show ?thesis by (simp add: jwt_verify_def)
qed

text \<open>
  C19: The web tokens of src/jwt.c, for a key shorter than 2^29 bytes, a header that is not empty and tokens
  shorter than 2^28.  A token is the header, the payload and the
  HMAC-SHA-256 of both, each in the URL-safe form of base64, and fits into the buffers the code allocates for it.  When the payload is not
  empty and holds no terminator, checking the token with the same key accepts it and gives the payload back; for an empty payload checking the
  token that was just signed reads a null pointer, since \<open>strtok\<close> skips the empty part.  And a text is accepted only
  if its last part is the signature of the first two.
\<close>

theorem jwt_correct:
  assumes "scratch_ok x" "length key < 2 ^ 29"
  shows "(hdr \<noteq> [] \<and> length (url_text hdr @ ''.'' @ url_text pld) < 2 ^ 28 \<longrightarrow>
      (\<exists>token. jwt_sign x key hdr pld = Some token
        \<and> token = url_text hdr @ ''.'' @ url_text pld @ ''.''
            @ as_text (url_bytes (hmac_digest sha256_digest 64 (bytes key) (bytes (url_text hdr @ ''.'' @ url_text pld))))
        \<and> (pld \<noteq> [] \<and> NUL \<notin> set pld \<longrightarrow> (\<exists>n. jwt_verify x token key = Some (Some (pld, n))))
        \<and> (pld = [] \<longrightarrow> jwt_verify x token key = None)))
    \<and> (length token < 2 ^ 28 \<and> jwt_verify x token key = Some (Some r) \<longrightarrow>
      (\<exists>h p s. strtok_all ''.'' [] token = [h, p, s]
        \<and> s = as_text (url_bytes (hmac_digest sha256_digest 64 (bytes key) (bytes (h @ ''.'' @ p))))))"
proof (rule conjI; rule impI)
  let ?p = "url_text hdr @ ''.'' @ url_text pld"
  assume a: "hdr \<noteq> [] \<and> length ?p < 2 ^ 28"
  then have l: "length ?p < 2 ^ 28" by blast
  have m: "mac256 x key (bytes ?p) = hmac_digest sha256_digest 64 (bytes key) (bytes ?p)" "mac256 x key (bytes ?p) \<noteq> []"
    using mac256[OF assms, of "bytes ?p"] l by force+
  define s where "s = as_text (url_bytes (mac256 x key (bytes ?p)))"
  have "jwt_verify x (?p @ ''.'' @ s) key = None" if "pld = []"
  proof -
    have "url_text hdr \<noteq> []" "s \<noteq> []" "CHR ''.'' \<notin> set (url_text hdr)" "CHR ''.'' \<notin> set s"
      using url_bytes_nonempty[of "bytes hdr"] url_bytes_nonempty[OF m(2)] a
      by (simp_all add: url_text_def no_dots s_def) (auto simp: as_text_def bytes_def)
    then show ?thesis using jwt_empty_payload[of "url_text hdr" s] that by (simp add: url_text_def url_bytes_def bytes_def as_text_def)
  qed
  moreover have "jwt_sign x key hdr pld = Some (?p @ ''.'' @ s)" using jwt_signs[OF assms l] by (simp only: s_def)
  moreover have "\<exists>n. jwt_verify x (?p @ ''.'' @ s) key = Some (Some (pld, n))" if "pld \<noteq> [] \<and> NUL \<notin> set pld"
    using jwt_checks[OF assms, of hdr pld] a that unfolding s_def by blast
  ultimately show "\<exists>token. jwt_sign x key hdr pld = Some token
        \<and> token = url_text hdr @ ''.'' @ url_text pld @ ''.'' @ as_text (url_bytes (hmac_digest sha256_digest 64 (bytes key) (bytes ?p)))
        \<and> (pld \<noteq> [] \<and> NUL \<notin> set pld \<longrightarrow> (\<exists>n. jwt_verify x token key = Some (Some (pld, n))))
        \<and> (pld = [] \<longrightarrow> jwt_verify x token key = None)"
    unfolding m(1)[symmetric] s_def[symmetric] by (intro exI[of _ "?p @ ''.'' @ s"]) simp
next
  assume "length token < 2 ^ 28 \<and> jwt_verify x token key = Some (Some r)"
  then show "\<exists>h p s. strtok_all ''.'' [] token = [h, p, s]
      \<and> s = as_text (url_bytes (hmac_digest sha256_digest 64 (bytes key) (bytes (h @ ''.'' @ p))))"
    using jwt_accepted[OF assms] by blast
qed

theorem jwt_correct_witness:
  "\<exists>x token n. jwt_sign x ''secret'' ''{}'' ''[1]'' = Some token \<and> jwt_verify x token ''secret'' = Some (Some (''[1]'', n))"
proof -
  define c where "c = \<lparr>s2_tot_len = 0, s2_len = 0, s2_block = replicate 128 0, s2_h = [] :: u32 list\<rparr>"
  define c' where "c' = \<lparr>s2_tot_len = 0, s2_len = 0, s2_block = replicate 256 0, s2_h = [] :: u64 list\<rparr>"
  define x where "x = \<lparr>x_sha = \<lparr>sh_digest = [], sh_szlow = 0, sh_szhigh = 0, sh_block = replicate 64 0, sh_idx = 0, sh_computed = False,
      sh_corrupted = False\<rparr>, x_md5 = \<lparr>m5_lo = 0, m5_hi = 0, m5_vars = (0, 0, 0, 0), m5_buffer = replicate 64 0\<rparr>,
    x_c32 = c, x_c64 = c',
    x_h32 = \<lparr>hm_inside = c, hm_outside = c, hm_inside_reinit = c, hm_outside_reinit = c, hm_ipad = replicate 64 0, hm_opad = replicate 64 0\<rparr>,
    x_h64 = \<lparr>hm_inside = c', hm_outside = c', hm_inside_reinit = c', hm_outside_reinit = c', hm_ipad = replicate 128 0, hm_opad = replicate 128 0\<rparr>\<rparr>"
  have x: "scratch_ok x" by (simp add: scratch_ok_def x_def c_def c'_def hmac_sizes_def)
  have k: "length ''secret'' < 2 ^ 29" by simp
  have "length (url_text ''{}'') \<le> 4" "length (url_text ''[1]'') \<le> 4"
    using part_length(1)[of "''{}''"] part_length(1)[of "''[1]''"] by (simp_all add: encoded_length)
  then have "''{}'' \<noteq> [] \<and> length (url_text ''{}'' @ ''.'' @ url_text ''[1]'') < 2 ^ 28" by simp
  from mp[OF jwt_correct[OF x k, of "''{}''" "''[1]''", THEN conjunct1] this]
  obtain token where "jwt_sign x ''secret'' ''{}'' ''[1]'' = Some token"
    "''[1]'' \<noteq> [] \<and> NUL \<notin> set ''[1]'' \<longrightarrow> (\<exists>n. jwt_verify x token ''secret'' = Some (Some (''[1]'', n)))" by blast
  moreover have "''[1]'' \<noteq> [] \<and> NUL \<notin> set ''[1]''" by simp
  ultimately show ?thesis by blast
qed

end
