(* ===== verification/Aes.thy ===== *)
theory Aes imports
  Prelude
begin

unbundle bit_operations_syntax

text \<open>
  AES-128: src/aes.c.  The state, four columns of four bytes, is the list of its sixteen bytes; the round keys and the vector
  of the chained mode, which the code keeps in static variables, are a record.
\<close>

section \<open>Tables\<close>

definition sbox :: "u8 list" where
  "sbox =
    [0x63, 0x7c, 0x77, 0x7b, 0xf2, 0x6b, 0x6f, 0xc5, 0x30, 0x01, 0x67, 0x2b, 0xfe, 0xd7, 0xab, 0x76,
     0xca, 0x82, 0xc9, 0x7d, 0xfa, 0x59, 0x47, 0xf0, 0xad, 0xd4, 0xa2, 0xaf, 0x9c, 0xa4, 0x72, 0xc0,
     0xb7, 0xfd, 0x93, 0x26, 0x36, 0x3f, 0xf7, 0xcc, 0x34, 0xa5, 0xe5, 0xf1, 0x71, 0xd8, 0x31, 0x15,
     0x04, 0xc7, 0x23, 0xc3, 0x18, 0x96, 0x05, 0x9a, 0x07, 0x12, 0x80, 0xe2, 0xeb, 0x27, 0xb2, 0x75,
     0x09, 0x83, 0x2c, 0x1a, 0x1b, 0x6e, 0x5a, 0xa0, 0x52, 0x3b, 0xd6, 0xb3, 0x29, 0xe3, 0x2f, 0x84,
     0x53, 0xd1, 0x00, 0xed, 0x20, 0xfc, 0xb1, 0x5b, 0x6a, 0xcb, 0xbe, 0x39, 0x4a, 0x4c, 0x58, 0xcf,
     0xd0, 0xef, 0xaa, 0xfb, 0x43, 0x4d, 0x33, 0x85, 0x45, 0xf9, 0x02, 0x7f, 0x50, 0x3c, 0x9f, 0xa8,
     0x51, 0xa3, 0x40, 0x8f, 0x92, 0x9d, 0x38, 0xf5, 0xbc, 0xb6, 0xda, 0x21, 0x10, 0xff, 0xf3, 0xd2,
     0xcd, 0x0c, 0x13, 0xec, 0x5f, 0x97, 0x44, 0x17, 0xc4, 0xa7, 0x7e, 0x3d, 0x64, 0x5d, 0x19, 0x73,
     0x60, 0x81, 0x4f, 0xdc, 0x22, 0x2a, 0x90, 0x88, 0x46, 0xee, 0xb8, 0x14, 0xde, 0x5e, 0x0b, 0xdb,
     0xe0, 0x32, 0x3a, 0x0a, 0x49, 0x06, 0x24, 0x5c, 0xc2, 0xd3, 0xac, 0x62, 0x91, 0x95, 0xe4, 0x79,
     0xe7, 0xc8, 0x37, 0x6d, 0x8d, 0xd5, 0x4e, 0xa9, 0x6c, 0x56, 0xf4, 0xea, 0x65, 0x7a, 0xae, 0x08,
     0xba, 0x78, 0x25, 0x2e, 0x1c, 0xa6, 0xb4, 0xc6, 0xe8, 0xdd, 0x74, 0x1f, 0x4b, 0xbd, 0x8b, 0x8a,
     0x70, 0x3e, 0xb5, 0x66, 0x48, 0x03, 0xf6, 0x0e, 0x61, 0x35, 0x57, 0xb9, 0x86, 0xc1, 0x1d, 0x9e,
     0xe1, 0xf8, 0x98, 0x11, 0x69, 0xd9, 0x8e, 0x94, 0x9b, 0x1e, 0x87, 0xe9, 0xce, 0x55, 0x28, 0xdf,
     0x8c, 0xa1, 0x89, 0x0d, 0xbf, 0xe6, 0x42, 0x68, 0x41, 0x99, 0x2d, 0x0f, 0xb0, 0x54, 0xbb, 0x16]"

definition rsbox :: "u8 list" where
  "rsbox =
    [0x52, 0x09, 0x6a, 0xd5, 0x30, 0x36, 0xa5, 0x38, 0xbf, 0x40, 0xa3, 0x9e, 0x81, 0xf3, 0xd7, 0xfb,
     0x7c, 0xe3, 0x39, 0x82, 0x9b, 0x2f, 0xff, 0x87, 0x34, 0x8e, 0x43, 0x44, 0xc4, 0xde, 0xe9, 0xcb,
     0x54, 0x7b, 0x94, 0x32, 0xa6, 0xc2, 0x23, 0x3d, 0xee, 0x4c, 0x95, 0x0b, 0x42, 0xfa, 0xc3, 0x4e,
     0x08, 0x2e, 0xa1, 0x66, 0x28, 0xd9, 0x24, 0xb2, 0x76, 0x5b, 0xa2, 0x49, 0x6d, 0x8b, 0xd1, 0x25,
     0x72, 0xf8, 0xf6, 0x64, 0x86, 0x68, 0x98, 0x16, 0xd4, 0xa4, 0x5c, 0xcc, 0x5d, 0x65, 0xb6, 0x92,
     0x6c, 0x70, 0x48, 0x50, 0xfd, 0xed, 0xb9, 0xda, 0x5e, 0x15, 0x46, 0x57, 0xa7, 0x8d, 0x9d, 0x84,
     0x90, 0xd8, 0xab, 0x00, 0x8c, 0xbc, 0xd3, 0x0a, 0xf7, 0xe4, 0x58, 0x05, 0xb8, 0xb3, 0x45, 0x06,
     0xd0, 0x2c, 0x1e, 0x8f, 0xca, 0x3f, 0x0f, 0x02, 0xc1, 0xaf, 0xbd, 0x03, 0x01, 0x13, 0x8a, 0x6b,
     0x3a, 0x91, 0x11, 0x41, 0x4f, 0x67, 0xdc, 0xea, 0x97, 0xf2, 0xcf, 0xce, 0xf0, 0xb4, 0xe6, 0x73,
     0x96, 0xac, 0x74, 0x22, 0xe7, 0xad, 0x35, 0x85, 0xe2, 0xf9, 0x37, 0xe8, 0x1c, 0x75, 0xdf, 0x6e,
     0x47, 0xf1, 0x1a, 0x71, 0x1d, 0x29, 0xc5, 0x89, 0x6f, 0xb7, 0x62, 0x0e, 0xaa, 0x18, 0xbe, 0x1b,
     0xfc, 0x56, 0x3e, 0x4b, 0xc6, 0xd2, 0x79, 0x20, 0x9a, 0xdb, 0xc0, 0xfe, 0x78, 0xcd, 0x5a, 0xf4,
     0x1f, 0xdd, 0xa8, 0x33, 0x88, 0x07, 0xc7, 0x31, 0xb1, 0x12, 0x10, 0x59, 0x27, 0x80, 0xec, 0x5f,
     0x60, 0x51, 0x7f, 0xa9, 0x19, 0xb5, 0x4a, 0x0d, 0x2d, 0xe5, 0x7a, 0x9f, 0x93, 0xc9, 0x9c, 0xef,
     0xa0, 0xe0, 0x3b, 0x4d, 0xae, 0x2a, 0xf5, 0xb0, 0xc8, 0xeb, 0xbb, 0x3c, 0x83, 0x53, 0x99, 0x61,
     0x17, 0x2b, 0x04, 0x7e, 0xba, 0x77, 0xd6, 0x26, 0xe1, 0x69, 0x14, 0x63, 0x55, 0x21, 0x0c, 0x7d]"

definition rcon :: "u8 list" where
  "rcon =
    [0x8d, 0x01, 0x02, 0x04, 0x08, 0x10, 0x20, 0x40, 0x80, 0x1b, 0x36, 0x6c, 0xd8, 0xab, 0x4d, 0x9a,
     0x2f, 0x5e, 0xbc, 0x63, 0xc6, 0x97, 0x35, 0x6a, 0xd4, 0xb3, 0x7d, 0xfa, 0xef, 0xc5, 0x91, 0x39,
     0x72, 0xe4, 0xd3, 0xbd, 0x61, 0xc2, 0x9f, 0x25, 0x4a, 0x94, 0x33, 0x66, 0xcc, 0x83, 0x1d, 0x3a,
     0x74, 0xe8, 0xcb, 0x8d, 0x01, 0x02, 0x04, 0x08, 0x10, 0x20, 0x40, 0x80, 0x1b, 0x36, 0x6c, 0xd8,
     0xab, 0x4d, 0x9a, 0x2f, 0x5e, 0xbc, 0x63, 0xc6, 0x97, 0x35, 0x6a, 0xd4, 0xb3, 0x7d, 0xfa, 0xef,
     0xc5, 0x91, 0x39, 0x72, 0xe4, 0xd3, 0xbd, 0x61, 0xc2, 0x9f, 0x25, 0x4a, 0x94, 0x33, 0x66, 0xcc,
     0x83, 0x1d, 0x3a, 0x74, 0xe8, 0xcb, 0x8d, 0x01, 0x02, 0x04, 0x08, 0x10, 0x20, 0x40, 0x80, 0x1b,
     0x36, 0x6c, 0xd8, 0xab, 0x4d, 0x9a, 0x2f, 0x5e, 0xbc, 0x63, 0xc6, 0x97, 0x35, 0x6a, 0xd4, 0xb3,
     0x7d, 0xfa, 0xef, 0xc5, 0x91, 0x39, 0x72, 0xe4, 0xd3, 0xbd, 0x61, 0xc2, 0x9f, 0x25, 0x4a, 0x94,
     0x33, 0x66, 0xcc, 0x83, 0x1d, 0x3a, 0x74, 0xe8, 0xcb, 0x8d, 0x01, 0x02, 0x04, 0x08, 0x10, 0x20,
     0x40, 0x80, 0x1b, 0x36, 0x6c, 0xd8, 0xab, 0x4d, 0x9a, 0x2f, 0x5e, 0xbc, 0x63, 0xc6, 0x97, 0x35,
     0x6a, 0xd4, 0xb3, 0x7d, 0xfa, 0xef, 0xc5, 0x91, 0x39, 0x72, 0xe4, 0xd3, 0xbd, 0x61, 0xc2, 0x9f,
     0x25, 0x4a, 0x94, 0x33, 0x66, 0xcc, 0x83, 0x1d, 0x3a, 0x74, 0xe8, 0xcb, 0x8d, 0x01, 0x02, 0x04,
     0x08, 0x10, 0x20, 0x40, 0x80, 0x1b, 0x36, 0x6c, 0xd8, 0xab, 0x4d, 0x9a, 0x2f, 0x5e, 0xbc, 0x63,
     0xc6, 0x97, 0x35, 0x6a, 0xd4, 0xb3, 0x7d, 0xfa, 0xef, 0xc5, 0x91, 0x39, 0x72, 0xe4, 0xd3, 0xbd,
     0x61, 0xc2, 0x9f, 0x25, 0x4a, 0x94, 0x33, 0x66, 0xcc, 0x83, 0x1d, 0x3a, 0x74, 0xe8, 0xcb]"

definition get_sbox_value :: "u8 \<Rightarrow> u8" where
  "get_sbox_value num = sbox ! unat num"

definition get_sbox_invert :: "u8 \<Rightarrow> u8" where
  "get_sbox_invert num = rsbox ! unat num"

definition xtime :: "u8 \<Rightarrow> u8" where
  "xtime x = push_bit 1 x XOR ((drop_bit 7 x AND 1) * 0x1b)"

definition aes_multiply :: "u8 \<Rightarrow> u8 \<Rightarrow> u8" where
  "aes_multiply x y =
     ((y AND 1) * x) XOR
     ((drop_bit 1 y AND 1) * xtime x) XOR
     ((drop_bit 2 y AND 1) * xtime (xtime x)) XOR
     ((drop_bit 3 y AND 1) * xtime (xtime (xtime x))) XOR
     ((drop_bit 4 y AND 1) * xtime (xtime (xtime (xtime x))))"

section \<open>The steps of a round\<close>

text \<open>The fourth branch of the key schedule needs a longer key (\<open>NK > 6\<close>) and is not reached.\<close>

definition key_word :: "u8 list \<Rightarrow> nat \<Rightarrow> u8 list" where
  "key_word roundkey i =
     (let tempa = map (\<lambda>j. roundkey ! ((i - 1) * 4 + j)) [0..<4];
          tempa = (if i mod 4 = 0
            then (let t = map get_sbox_value [tempa ! 1, tempa ! 2, tempa ! 3, tempa ! 0]
              in t[0 := t ! 0 XOR rcon ! (i div 4)])
            else tempa)
      in map (\<lambda>j. roundkey ! ((i - 4) * 4 + j) XOR tempa ! j) [0..<4])"

definition key_expansion :: "u8 list \<Rightarrow> u8 list" where
  "key_expansion key = foldl (\<lambda>roundkey i. roundkey @ key_word roundkey i) (map (\<lambda>i. key ! i) [0..<16]) [4..<44]"

definition add_roundkey :: "u8 list \<Rightarrow> nat \<Rightarrow> u8 list \<Rightarrow> u8 list" where
  "add_roundkey roundkey round state = map (\<lambda>i. state ! i XOR roundkey ! (round * 16 + i)) [0..<16]"

definition subbytes :: "u8 list \<Rightarrow> u8 list" where
  "subbytes state = map (\<lambda>i. get_sbox_value (state ! i)) [0..<16]"

text \<open>The byte in row \<open>j\<close> of column \<open>i\<close> is at \<open>4 * i + j\<close>.\<close>

definition shift_rows :: "u8 list \<Rightarrow> u8 list" where
  "shift_rows s =
     (let temp = s ! 1;
          s = s[1 := s ! 5]; s = s[5 := s ! 9]; s = s[9 := s ! 13]; s = s[13 := temp];
          temp = s ! 2;
          s = s[2 := s ! 10]; s = s[10 := temp];
          temp = s ! 6;
          s = s[6 := s ! 14]; s = s[14 := temp];
          temp = s ! 3;
          s = s[3 := s ! 15]; s = s[15 := s ! 11]; s = s[11 := s ! 7]
      in s[7 := temp])"

definition mix_column :: "nat \<Rightarrow> u8 list \<Rightarrow> u8 list" where
  "mix_column i s =
     (let p = 4 * i;
          t = s ! p;
          tmp = s ! p XOR s ! (p + 1) XOR s ! (p + 2) XOR s ! (p + 3);
          tm = xtime (s ! p XOR s ! (p + 1));
          s = s[p := s ! p XOR (tm XOR tmp)];
          tm = xtime (s ! (p + 1) XOR s ! (p + 2));
          s = s[p + 1 := s ! (p + 1) XOR (tm XOR tmp)];
          tm = xtime (s ! (p + 2) XOR s ! (p + 3));
          s = s[p + 2 := s ! (p + 2) XOR (tm XOR tmp)];
          tm = xtime (s ! (p + 3) XOR t)
      in s[p + 3 := s ! (p + 3) XOR (tm XOR tmp)])"

definition mix_columns :: "u8 list \<Rightarrow> u8 list" where
  "mix_columns s = foldl (\<lambda>s i. mix_column i s) s [0..<4]"

definition inv_mix_column :: "nat \<Rightarrow> u8 list \<Rightarrow> u8 list" where
  "inv_mix_column i s =
     (let p = 4 * i; a = s ! p; b = s ! (p + 1); c = s ! (p + 2); d = s ! (p + 3); m = aes_multiply;
          s = s[p := m a 0x0e XOR m b 0x0b XOR m c 0x0d XOR m d 0x09];
          s = s[p + 1 := m a 0x09 XOR m b 0x0e XOR m c 0x0b XOR m d 0x0d];
          s = s[p + 2 := m a 0x0d XOR m b 0x09 XOR m c 0x0e XOR m d 0x0b]
      in s[p + 3 := m a 0x0b XOR m b 0x0d XOR m c 0x09 XOR m d 0x0e])"

definition inv_mix_columns :: "u8 list \<Rightarrow> u8 list" where
  "inv_mix_columns s = foldl (\<lambda>s i. inv_mix_column i s) s [0..<4]"

definition inv_subbytes :: "u8 list \<Rightarrow> u8 list" where
  "inv_subbytes state = map (\<lambda>i. get_sbox_invert (state ! i)) [0..<16]"

definition inv_shift_rows :: "u8 list \<Rightarrow> u8 list" where
  "inv_shift_rows s =
     (let temp = s ! 13;
          s = s[13 := s ! 9]; s = s[9 := s ! 5]; s = s[5 := s ! 1]; s = s[1 := temp];
          temp = s ! 2;
          s = s[2 := s ! 10]; s = s[10 := temp];
          temp = s ! 6;
          s = s[6 := s ! 14]; s = s[14 := temp];
          temp = s ! 3;
          s = s[3 := s ! 7]; s = s[7 := s ! 11]; s = s[11 := s ! 15]
      in s[15 := temp])"

section \<open>A block\<close>

definition cipher :: "u8 list \<Rightarrow> u8 list \<Rightarrow> u8 list" where
  "cipher roundkey state =
     (let s = add_roundkey roundkey 0 state;
          s = foldl (\<lambda>s round. add_roundkey roundkey round (mix_columns (shift_rows (subbytes s)))) s [1..<10]
      in add_roundkey roundkey 10 (shift_rows (subbytes s)))"

definition inv_cipher :: "u8 list \<Rightarrow> u8 list \<Rightarrow> u8 list" where
  "inv_cipher roundkey state =
     (let s = add_roundkey roundkey 10 state;
          s = foldl (\<lambda>s round. inv_mix_columns (add_roundkey roundkey round (inv_subbytes (inv_shift_rows s)))) s (rev [1..<10])
      in add_roundkey roundkey 0 (inv_subbytes (inv_shift_rows s)))"

definition block_copy :: "u8 list \<Rightarrow> u8 list" where
  "block_copy input = map (\<lambda>i. input ! i) [0..<16]"

definition aes128_ecb_encrypt :: "u8 list \<Rightarrow> u8 list \<Rightarrow> u8 list" where
  "aes128_ecb_encrypt input key = cipher (key_expansion key) (block_copy input)"

definition aes128_ecb_decrypt :: "u8 list \<Rightarrow> u8 list \<Rightarrow> u8 list" where
  "aes128_ecb_decrypt input key = inv_cipher (key_expansion key) (block_copy input)"

section \<open>The chained mode\<close>

record aes =
  ae_roundkey :: "u8 list"
  ae_iv :: "u8 list"

text \<open>\<open>cor_with_iv\<close>\<close>

definition cor_with_iv :: "u8 list \<Rightarrow> u8 list \<Rightarrow> u8 list" where
  "cor_with_iv iv buf = map (\<lambda>i. buf ! i XOR iv ! i) [0..<16]"

text \<open>A key or a vector that is not given (a null pointer) is that of the call before.\<close>

definition aes_setup :: "u8 list option \<Rightarrow> u8 list option \<Rightarrow> aes \<Rightarrow> aes" where
  "aes_setup key iv st =
     (let st = (case key of None \<Rightarrow> st | Some k \<Rightarrow> st\<lparr>ae_roundkey := key_expansion k\<rparr>)
      in case iv of None \<Rightarrow> st | Some v \<Rightarrow> st\<lparr>ae_iv := block_copy v\<rparr>)"

text \<open>
  The loop handles a block for every sixteen bytes begun, and when \<open>len\<close> is no multiple of sixteen, one more after that.  The
  input is what is left of the caller's buffer: a block that is not there is a read past its end, \<open>None\<close>.  The
  code changes the input of \<open>aes128_cbc_encrypt_buffer\<close> too: the second component of the result is the input as it is left.
\<close>

fun cbc_encrypt_loop :: "nat \<Rightarrow> u8 list \<Rightarrow> aes \<Rightarrow> (u8 list \<times> u8 list \<times> aes) option" where
  "cbc_encrypt_loop 0 input st = Some ([], input, st)"
| "cbc_encrypt_loop (Suc n) input st =
     (if length input < 16 then None
      else (let b = cor_with_iv (ae_iv st) (take 16 input);
                c = cipher (ae_roundkey st) (block_copy b)
            in case cbc_encrypt_loop n (drop 16 input) (st\<lparr>ae_iv := c\<rparr>) of
                 None \<Rightarrow> None
               | Some (out, input', st) \<Rightarrow> Some (c @ out, b @ input', st)))"

fun cbc_decrypt_loop :: "nat \<Rightarrow> u8 list \<Rightarrow> aes \<Rightarrow> (u8 list \<times> aes) option" where
  "cbc_decrypt_loop 0 input st = Some ([], st)"
| "cbc_decrypt_loop (Suc n) input st =
     (if length input < 16 then None
      else (let c = block_copy input;
                b = cor_with_iv (ae_iv st) (inv_cipher (ae_roundkey st) c)
            in case cbc_decrypt_loop n (drop 16 input) (st\<lparr>ae_iv := c\<rparr>) of
                 None \<Rightarrow> None
               | Some (out, st) \<Rightarrow> Some (b @ out, st)))"

text \<open>The extra block: \<open>remainders\<close> bytes and zeros, not chained.  Before the loop the first block is copied to the output as it is.\<close>

definition cbc_rest :: "(u8 list \<Rightarrow> u8 list) \<Rightarrow> nat \<Rightarrow> nat \<Rightarrow> u8 list \<Rightarrow> u8 list option" where
  "cbc_rest f remainders blocks input =
     (if remainders = 0 then Some []
      else if length input < 16 * blocks + 16 then None
      else Some (f (take remainders (block_copy (drop (16 * blocks) input)) @ replicate (16 - remainders) 0)))"

definition aes128_cbc_encrypt_buffer :: "u8 list \<Rightarrow> u32 \<Rightarrow> u8 list option \<Rightarrow> u8 list option \<Rightarrow> aes \<Rightarrow> (u8 list \<times> u8 list \<times> aes) option" where
  "aes128_cbc_encrypt_buffer input len key iv st =
     (let remainders = unat len mod 16;
          blocks = (unat len + 15) div 16;
          st = aes_setup key iv st
      in if length input < 16 then None
         else case cbc_encrypt_loop blocks input st of
             None \<Rightarrow> None
           | Some (out, input', st) \<Rightarrow>
               (case cbc_rest (cipher (ae_roundkey st)) remainders blocks input' of
                  None \<Rightarrow> None
                | Some r \<Rightarrow> Some ((if blocks = 0 then block_copy input else out) @ r, input', st)))"

definition aes128_cbc_decrypt_buffer :: "u8 list \<Rightarrow> u32 \<Rightarrow> u8 list option \<Rightarrow> u8 list option \<Rightarrow> aes \<Rightarrow> (u8 list \<times> aes) option" where
  "aes128_cbc_decrypt_buffer input len key iv st =
     (let remainders = unat len mod 16;
          blocks = (unat len + 15) div 16;
          st = aes_setup key iv st
      in if length input < 16 then None
         else case cbc_decrypt_loop blocks input st of
             None \<Rightarrow> None
           | Some (out, st) \<Rightarrow>
               (case cbc_rest (inv_cipher (ae_roundkey st)) remainders blocks input of
                  None \<Rightarrow> None
                | Some r \<Rightarrow> Some ((if blocks = 0 then block_copy input else out) @ r, st)))"

section \<open>Decryption undoes encryption\<close>

lemma upt_4: "[0..<4] = [0, 1, 2, 3]" and upt_16: "[0..<16] = [0, 1, 2, 3, 4, 5, 6, 7, 8, 9, 10, 11, 12, 13, 14, 15]"
  by (simp_all add: upt_conv_Cons)

text \<open>A state by its bytes.\<close>

lemma list16_cases:
  assumes "length s = 16"
  obtains s0 s1 s2 s3 s4 s5 s6 s7 s8 s9 s10 s11 s12 s13 s14 s15
  where "s = [s0, s1, s2, s3, s4, s5, s6, s7, s8, s9, s10, s11, s12, s13, s14, s15]"
proof -
  have "s = map (\<lambda>i. s ! i) [0..<16]" using map_nth[of s] assms by simp
  then show thesis using that unfolding upt_16 by simp
qed

lemma aes_lengths [simp]:
  "length (add_roundkey k r s) = 16" "length (subbytes s) = 16" "length (inv_subbytes s) = 16"
  "length (block_copy s) = 16" "length (cor_with_iv iv s) = 16"
  "length (shift_rows s) = length s" "length (inv_shift_rows s) = length s"
  by (simp_all add: add_roundkey_def subbytes_def inv_subbytes_def block_copy_def cor_with_iv_def shift_rows_def inv_shift_rows_def Let_def)

lemma length_mix_columns [simp]: "length (mix_columns s) = length s" "length (inv_mix_columns s) = length s"
  by (simp_all add: mix_columns_def inv_mix_columns_def mix_column_def inv_mix_column_def Let_def upt_4)

lemma block_copy_16: "length s = 16 \<Longrightarrow> block_copy s = s"
  using map_nth[of s] by (simp add: block_copy_def)

text \<open>The second table is the inverse of the first.\<close>

lemma sbox_tables: "map (\<lambda>i. rsbox ! unat (sbox ! i)) [0..<256] = map of_nat [0..<256]"
  by code_simp

lemma sbox_invert [simp]: "get_sbox_invert (get_sbox_value x) = x"
proof -
  have x: "unat x < 256" using unsigned_less[of x, where ?'a = nat] by simp
  have "map (\<lambda>i. rsbox ! unat (sbox ! i)) [0..<256] ! unat x = map of_nat [0..<256] ! unat x"
    by (simp only: sbox_tables)
  then show ?thesis using x by (simp add: get_sbox_value_def get_sbox_invert_def del: upt_rec_numeral)
qed

lemma inv_subbytes_subbytes: "length s = 16 \<Longrightarrow> inv_subbytes (subbytes s) = s"
  by (rule nth_equalityI) (simp_all add: inv_subbytes_def subbytes_def del: upt_rec_numeral)

lemma inv_shift_rows_shift_rows: "length s = 16 \<Longrightarrow> inv_shift_rows (shift_rows s) = s"
  by (elim list16_cases) (simp add: inv_shift_rows_def shift_rows_def Let_def)

lemma add_roundkey_twice: "length s = 16 \<Longrightarrow> add_roundkey k r (add_roundkey k r s) = s"
  by (rule nth_equalityI) (simp_all add: add_roundkey_def xor.assoc del: upt_rec_numeral)

text \<open>\<open>xtime\<close> is linear, and the coefficients of the two mixing steps cancel.\<close>

lemma xor_cancel [simp]: "x XOR (x XOR y) = (y :: 'a::len word)"
  by (simp flip: xor.assoc)

lemma xtime_xor: "xtime (x XOR y) = xtime x XOR xtime y"
proof -
  have b: "drop_bit 7 z AND 1 = 0 \<or> drop_bit 7 z AND 1 = (1 :: u8)" for z by (simp add: and_one_eq mod2_eq_if)
  have d: "drop_bit 7 (x XOR y) AND 1 = (drop_bit 7 x AND 1) XOR (drop_bit 7 y AND (1 :: u8))"
    by (rule bit_word_eqI) (auto simp: bit_simps)
  show ?thesis
    using b[of x] b[of y] unfolding xtime_def d by (auto simp: ac_simps)
qed

lemma aes_multiply:
  "aes_multiply x 0x09 = x XOR xtime (xtime (xtime x))"
  "aes_multiply x 0x0b = x XOR xtime x XOR xtime (xtime (xtime x))"
  "aes_multiply x 0x0d = x XOR xtime (xtime x) XOR xtime (xtime (xtime x))"
  "aes_multiply x 0x0e = xtime x XOR xtime (xtime x) XOR xtime (xtime (xtime x))"
  by (simp_all add: aes_multiply_def)

definition mixed :: "u8 \<Rightarrow> u8 \<Rightarrow> u8 \<Rightarrow> u8 \<Rightarrow> u8 list" where
  "mixed a b c d = (let tmp = a XOR b XOR c XOR d in
     [a XOR (xtime (a XOR b) XOR tmp), b XOR (xtime (b XOR c) XOR tmp), c XOR (xtime (c XOR d) XOR tmp), d XOR (xtime (d XOR a) XOR tmp)])"

definition unmixed :: "u8 \<Rightarrow> u8 \<Rightarrow> u8 \<Rightarrow> u8 \<Rightarrow> u8 list" where
  "unmixed a b c d = (let m = aes_multiply in
     [m a 0x0e XOR m b 0x0b XOR m c 0x0d XOR m d 0x09, m a 0x09 XOR m b 0x0e XOR m c 0x0b XOR m d 0x0d,
      m a 0x0d XOR m b 0x09 XOR m c 0x0e XOR m d 0x0b, m a 0x0b XOR m b 0x0d XOR m c 0x09 XOR m d 0x0e])"

lemma unmixed_mixed: "mixed a b c d = [a', b', c', d'] \<Longrightarrow> unmixed a' b' c' d' = [a, b, c, d]"
  unfolding mixed_def unmixed_def Let_def aes_multiply by (auto simp: xtime_xor ac_simps)

lemma mix_columns_mixed:
  "mix_columns [s0, s1, s2, s3, s4, s5, s6, s7, s8, s9, s10, s11, s12, s13, s14, s15]
    = mixed s0 s1 s2 s3 @ mixed s4 s5 s6 s7 @ mixed s8 s9 s10 s11 @ mixed s12 s13 s14 s15"
  by (simp add: mix_columns_def mix_column_def mixed_def Let_def upt_4)

lemma inv_mix_columns_unmixed:
  "inv_mix_columns [s0, s1, s2, s3, s4, s5, s6, s7, s8, s9, s10, s11, s12, s13, s14, s15]
    = unmixed s0 s1 s2 s3 @ unmixed s4 s5 s6 s7 @ unmixed s8 s9 s10 s11 @ unmixed s12 s13 s14 s15"
  by (simp add: inv_mix_columns_def inv_mix_column_def unmixed_def Let_def upt_4)

lemma mixed_cases: obtains a' b' c' d' where "mixed a b c d = [a', b', c', d']"
  by (simp add: mixed_def Let_def)

lemma inv_mix_columns_mix_columns: "length s = 16 \<Longrightarrow> inv_mix_columns (mix_columns s) = s"
proof (elim list16_cases)
  fix s0 s1 s2 s3 s4 s5 s6 s7 s8 s9 s10 s11 s12 s13 s14 s15
  assume s: "s = [s0, s1, s2, s3, s4, s5, s6, s7, s8, s9, s10, s11, s12, s13, s14, s15]"
  obtain a0 a1 a2 a3 where a: "mixed s0 s1 s2 s3 = [a0, a1, a2, a3]" by (rule mixed_cases)
  obtain b0 b1 b2 b3 where b: "mixed s4 s5 s6 s7 = [b0, b1, b2, b3]" by (rule mixed_cases)
  obtain c0 c1 c2 c3 where c: "mixed s8 s9 s10 s11 = [c0, c1, c2, c3]" by (rule mixed_cases)
  obtain d0 d1 d2 d3 where d: "mixed s12 s13 s14 s15 = [d0, d1, d2, d3]" by (rule mixed_cases)
  show "inv_mix_columns (mix_columns s) = s"
    unfolding s mix_columns_mixed a b c d append.simps inv_mix_columns_unmixed
    using unmixed_mixed[OF a] unmixed_mixed[OF b] unmixed_mixed[OF c] unmixed_mixed[OF d] by simp
qed

section \<open>Whole blocks\<close>

lemma unscramble: "length s = 16 \<Longrightarrow> inv_subbytes (inv_shift_rows (shift_rows (subbytes s))) = s"
  by (simp add: inv_shift_rows_shift_rows inv_subbytes_subbytes)

lemma rounds_undone:
  assumes "length s = 16"
  defines "E \<equiv> \<lambda>s. shift_rows (subbytes s)"
  shows "length (foldl (\<lambda>s r. add_roundkey k r (mix_columns (E s))) s rs) = 16
    \<and> foldl (\<lambda>s r. inv_mix_columns (add_roundkey k r (inv_subbytes (inv_shift_rows s)))) (E (foldl (\<lambda>s r. add_roundkey k r (mix_columns (E s))) s rs)) (rev rs) = E s"
proof (induction rs rule: rev_induct)
  case (snoc r rs)
  then show ?case by (simp add: E_def unscramble add_roundkey_twice inv_mix_columns_mix_columns)
qed (use assms(1) in simp)

lemma length_cipher [simp]: "length (cipher k s) = 16" "length (inv_cipher k s) = 16"
  by (simp_all add: cipher_def inv_cipher_def)

lemma inv_cipher_cipher:
  assumes "length s = 16"
  shows "inv_cipher k (cipher k s) = s"
proof -
  define E where "E = (\<lambda>s. shift_rows (subbytes s))"
  define x where "x = foldl (\<lambda>s r. add_roundkey k r (mix_columns (E s))) (add_roundkey k 0 s) [1..<10]"
  have r: "foldl (\<lambda>s r. inv_mix_columns (add_roundkey k r (inv_subbytes (inv_shift_rows s)))) (E x) (rev [1..<10]) = E (add_roundkey k 0 s)"
    using rounds_undone[of "add_roundkey k 0 s" k "[1..<10]"] unfolding E_def x_def by (simp del: upt_rec_numeral)
  have "cipher k s = add_roundkey k 10 (E x)" unfolding cipher_def Let_def x_def E_def ..
  moreover have "length (E x) = 16" by (simp add: E_def)
  ultimately have "inv_cipher k (cipher k s) = add_roundkey k 0 (inv_subbytes (inv_shift_rows (E (add_roundkey k 0 s))))"
    unfolding inv_cipher_def Let_def using r by (simp only: add_roundkey_twice aes_lengths simp_thms)
  then show ?thesis using assms by (simp add: E_def unscramble add_roundkey_twice)
qed

text \<open>
  C24: decrypting a block with the key it was encrypted with gives the block back, for every key.
\<close>

theorem aes_ecb_roundtrip:
  assumes "length input = 16"
  shows "aes128_ecb_decrypt (aes128_ecb_encrypt input key) key = input"
  using assms by (simp add: aes128_ecb_decrypt_def aes128_ecb_encrypt_def block_copy_16 inv_cipher_cipher)

theorem aes_ecb_roundtrip_witness:
  "aes128_ecb_decrypt (aes128_ecb_encrypt (replicate 16 7) (replicate 16 9)) (replicate 16 9) = replicate 16 7"
  by (rule aes_ecb_roundtrip) simp

section \<open>The chained mode\<close>

lemma cor_with_iv_twice: "length s = 16 \<Longrightarrow> cor_with_iv iv (cor_with_iv iv s) = s"
  by (rule nth_equalityI) (simp_all add: cor_with_iv_def xor.assoc del: upt_rec_numeral)

lemma cbc_loops:
  assumes "length input = 16 * n"
  shows "\<exists>out input' st'. cbc_encrypt_loop n input st = Some (out, input', st') \<and> length out = 16 * n \<and> ae_roundkey st' = ae_roundkey st
    \<and> (\<exists>st''. cbc_decrypt_loop n out st = Some (input, st'') \<and> ae_roundkey st'' = ae_roundkey st)"
  using assms
proof (induction n arbitrary: input st)
  case (Suc n)
  let ?c = "cipher (ae_roundkey st) (block_copy (cor_with_iv (ae_iv st) (take 16 input)))"
  have l: "length (drop 16 input) = 16 * n" "length (take 16 input) = 16" using Suc.prems by simp_all
  obtain out input' st' st'' where r: "cbc_encrypt_loop n (drop 16 input) (st\<lparr>ae_iv := ?c\<rparr>) = Some (out, input', st')"
      "length out = 16 * n" "ae_roundkey st' = ae_roundkey st"
      "cbc_decrypt_loop n out (st\<lparr>ae_iv := ?c\<rparr>) = Some (drop 16 input, st'')" "ae_roundkey st'' = ae_roundkey st"
    using Suc.IH[OF l(1), of "st\<lparr>ae_iv := ?c\<rparr>"] by auto
  have b: "block_copy (?c @ out) = ?c"
    by (rule nth_equalityI) (simp_all add: block_copy_def nth_append del: upt_rec_numeral)
  have "cor_with_iv (ae_iv st) (inv_cipher (ae_roundkey st) ?c) = take 16 input"
    using l(2) by (simp add: block_copy_16 inv_cipher_cipher cor_with_iv_twice)
  then show ?case using Suc.prems r b by (simp add: Let_def)
qed simp

lemma cbc_encrypt_loop_length: "cbc_encrypt_loop n input st = Some (out, input', st') \<Longrightarrow> 16 * n \<le> length input \<and> length input' = length input"
  by (induction n arbitrary: input st out input' st') (fastforce simp: Let_def split: if_splits option.splits)+

lemma cbc_decrypt_loop_length: "cbc_decrypt_loop n input st = Some (out, st') \<Longrightarrow> 16 * n \<le> length input"
  by (induction n arbitrary: input st out st') (fastforce simp: Let_def split: if_splits option.splits)+

text \<open>
  C25: a buffer whose length is a positive multiple of sixteen comes back from encryption and decryption in the chained mode unchanged, for
  every key and vector; for any other length both functions take a block for every sixteen bytes begun and then one block more, so
  they read past the end even of a buffer that is filled up to whole blocks.
\<close>

theorem aes_cbc_correct:
  "(unat len mod 16 = 0 \<and> 0 < len \<and> length input = unat len \<longrightarrow>
     (\<exists>out input' st'. aes128_cbc_encrypt_buffer input len (Some key) (Some iv) st = Some (out, input', st') \<and> length out = unat len
       \<and> (\<exists>st''. aes128_cbc_decrypt_buffer out len (Some key) (Some iv) st = Some (input, st''))))
   \<and> (unat len mod 16 \<noteq> 0 \<and> length input < 16 * ((unat len + 15) div 16) + 16 \<longrightarrow>
     aes128_cbc_encrypt_buffer input len (Some key) (Some iv) st = None \<and> aes128_cbc_decrypt_buffer input len (Some key) (Some iv) st = None)"
proof (intro conjI impI)
  let ?st = "aes_setup (Some key) (Some iv) st"
  assume a: "unat len mod 16 = 0 \<and> 0 < len \<and> length input = unat len"
  obtain n where n: "unat len = 16 * n" using a by (auto elim: dvdE)
  have "0 < unat len" using a by (simp add: unat_gt_0 word_neq_0_conv)
  then have n0: "0 < n" using n by simp
  have d: "(16 * n + 15) div 16 = n" by simp
  have "length input = 16 * n" using a n by simp
  then obtain out input' st' st'' where "cbc_encrypt_loop n input ?st = Some (out, input', st')" "length out = 16 * n"
      "cbc_decrypt_loop n out ?st = Some (input, st'')"
    using cbc_loops[of input n ?st] by blast
  then show "\<exists>out input' st'. aes128_cbc_encrypt_buffer input len (Some key) (Some iv) st = Some (out, input', st') \<and> length out = unat len
       \<and> (\<exists>st''. aes128_cbc_decrypt_buffer out len (Some key) (Some iv) st = Some (input, st''))"
    using n0 a n d by (simp add: aes128_cbc_encrypt_buffer_def aes128_cbc_decrypt_buffer_def cbc_rest_def Let_def)
next
  assume a: "unat len mod 16 \<noteq> 0 \<and> length input < 16 * ((unat len + 15) div 16) + 16"
  show "aes128_cbc_encrypt_buffer input len (Some key) (Some iv) st = None"
  proof (cases "cbc_encrypt_loop ((unat len + 15) div 16) input (aes_setup (Some key) (Some iv) st)")
    case (Some r)
    obtain out input' st' where r: "r = (out, input', st')" by (cases r) auto
    have "cbc_rest f (unat len mod 16) ((unat len + 15) div 16) input' = None" for f
      using a cbc_encrypt_loop_length[OF Some[unfolded r]] unfolding cbc_rest_def by presburger
    then show ?thesis using Some by (simp add: aes128_cbc_encrypt_buffer_def Let_def r)
  qed (simp add: aes128_cbc_encrypt_buffer_def Let_def)
  show "aes128_cbc_decrypt_buffer input len (Some key) (Some iv) st = None"
  proof (cases "cbc_decrypt_loop ((unat len + 15) div 16) input (aes_setup (Some key) (Some iv) st)")
    case (Some r)
    have "cbc_rest f (unat len mod 16) ((unat len + 15) div 16) input = None" for f
      using a unfolding cbc_rest_def by presburger
    then show ?thesis using Some by (cases r) (simp add: aes128_cbc_decrypt_buffer_def Let_def)
  qed (simp add: aes128_cbc_decrypt_buffer_def Let_def)
qed

theorem aes_cbc_correct_witness:
  "\<exists>out input' st' st''. aes128_cbc_encrypt_buffer (replicate 32 7) 32 (Some (replicate 16 1)) (Some (replicate 16 2)) \<lparr>ae_roundkey = [], ae_iv = []\<rparr>
      = Some (out, input', st')
    \<and> aes128_cbc_decrypt_buffer out 32 (Some (replicate 16 1)) (Some (replicate 16 2)) \<lparr>ae_roundkey = [], ae_iv = []\<rparr> = Some (replicate 32 7, st'')"
proof -
  have "unat (32 :: u32) mod 16 = 0 \<and> 0 < (32 :: u32) \<and> length (replicate 32 (7 :: u8)) = unat (32 :: u32)" by simp
  note w = mp[OF conjunct1[OF aes_cbc_correct] this, of "replicate 16 1" "replicate 16 2" "\<lparr>ae_roundkey = [], ae_iv = []\<rparr>"]
  then show ?thesis by (elim exE conjE) (intro exI conjI)
qed

end
