(* ===== verification/Arc4random.thy ===== *)
theory Arc4random imports
  Prelude
begin

unbundle bit_operations_syntax

text \<open>
  The random number generator: src/arc4random.c.  The rest of the development takes its numbers as an input; this theory models
  how they are made, and shows that the table of the generator stays a permutation of the bytes whatever is done with it.
\<close>

section \<open>The stream\<close>

record arc4_stream =
  as_i :: u8
  as_j :: u8
  as_s :: "u8 list"

definition arc4_init :: "arc4_stream \<Rightarrow> arc4_stream" where
  "arc4_init as = as\<lparr>as_s := map (\<lambda>n. of_nat n) [0..<256], as_i := 0, as_j := 0\<rparr>"

definition arc4_mix :: "u8 list \<Rightarrow> arc4_stream \<Rightarrow> nat \<Rightarrow> arc4_stream" where
  "arc4_mix dat as n =
     (let as = as\<lparr>as_i := as_i as + 1\<rparr>;
          si = as_s as ! unat (as_i as);
          as = as\<lparr>as_j := as_j as + si + dat ! (n mod length dat)\<rparr>;
          as = as\<lparr>as_s := (as_s as)[unat (as_i as) := as_s as ! unat (as_j as)]\<rparr>
      in as\<lparr>as_s := (as_s as)[unat (as_j as) := si]\<rparr>)"

definition arc4_addrandom :: "u8 list \<Rightarrow> arc4_stream \<Rightarrow> arc4_stream" where
  "arc4_addrandom dat as = foldl (arc4_mix dat) (as\<lparr>as_i := as_i as - 1\<rparr>) [0..<256]"

definition arc4_getbyte :: "arc4_stream \<Rightarrow> u8 \<times> arc4_stream" where
  "arc4_getbyte as =
     (let as = as\<lparr>as_i := as_i as + 1\<rparr>;
          si = as_s as ! unat (as_i as);
          as = as\<lparr>as_j := as_j as + si\<rparr>;
          sj = as_s as ! unat (as_j as);
          as = as\<lparr>as_s := (as_s as)[unat (as_i as) := sj]\<rparr>;
          as = as\<lparr>as_s := (as_s as)[unat (as_j as) := si]\<rparr>
      in (as_s as ! unat ((si + sj) AND 0xff), as))"

definition arc4_getword :: "arc4_stream \<Rightarrow> u32 \<times> arc4_stream" where
  "arc4_getword as =
     (let (b3, as) = arc4_getbyte as; (b2, as) = arc4_getbyte as; (b1, as) = arc4_getbyte as; (b0, as) = arc4_getbyte as
      in (push_bit 24 (ucast b3) OR push_bit 16 (ucast b2) OR push_bit 8 (ucast b1) OR ucast b0, as))"

text \<open>
  The data for stirring are the time, the process id and bytes of the random device, which is an input here: \<open>Some\<close> of
  them, with zeros for the bytes of the device when it cannot be opened, or \<open>None\<close> when reading it fails.
\<close>

primrec arc4_skip :: "nat \<Rightarrow> arc4_stream \<Rightarrow> arc4_stream" where
  "arc4_skip 0 as = as"
| "arc4_skip (Suc n) as = arc4_skip n (snd (arc4_getbyte as))"

definition arc4_stir :: "u8 list option \<Rightarrow> arc4_stream \<Rightarrow> arc4_stream" where
  "arc4_stir rdat as = (case rdat of None \<Rightarrow> as | Some dat \<Rightarrow> arc4_skip 1024 (arc4_addrandom dat as))"

section \<open>The generator\<close>

record arc4_state =
  rs :: arc4_stream
  rs_initialized :: bool
  rs_stired :: bool

text \<open>Static variables start as zeros.\<close>

definition arc4_start :: arc4_state where
  "arc4_start = \<lparr>rs = \<lparr>as_i = 0, as_j = 0, as_s = replicate 256 0\<rparr>, rs_initialized = False, rs_stired = False\<rparr>"

definition arc4_check_init :: "arc4_state \<Rightarrow> arc4_state" where
  "arc4_check_init g = (if \<not> rs_initialized g then g\<lparr>rs := arc4_init (rs g), rs_initialized := True\<rparr> else g)"

definition arc4_check_stir :: "u8 list option \<Rightarrow> arc4_state \<Rightarrow> arc4_state" where
  "arc4_check_stir rdat g = (if \<not> rs_stired g then g\<lparr>rs := arc4_stir rdat (rs g), rs_stired := True\<rparr> else g)"

definition arc4random_stir :: "u8 list option \<Rightarrow> arc4_state \<Rightarrow> arc4_state" where
  "arc4random_stir rdat g = (let g = arc4_check_init g in g\<lparr>rs := arc4_stir rdat (rs g)\<rparr>)"

definition arc4random_addrandom :: "u8 list option \<Rightarrow> u8 list \<Rightarrow> arc4_state \<Rightarrow> arc4_state" where
  "arc4random_addrandom rdat dat g =
     (let g = arc4_check_stir rdat (arc4_check_init g) in g\<lparr>rs := arc4_addrandom dat (rs g)\<rparr>)"

definition arc4random_word :: "u8 list option \<Rightarrow> arc4_state \<Rightarrow> u32 \<times> arc4_state" where
  "arc4random_word rdat g =
     (let g = arc4_check_stir rdat (arc4_check_init g); (rnd, as) = arc4_getword (rs g) in (rnd, g\<lparr>rs := as\<rparr>))"

text \<open>A \<open>range\<close> of zero divides by zero, \<open>None\<close>.\<close>

definition arc4random_below :: "u8 list option \<Rightarrow> u32 \<Rightarrow> arc4_state \<Rightarrow> (u32 \<times> arc4_state) option" where
  "arc4random_below rdat rng g =
     (let (rnd, g) = arc4random_word rdat g in if rng = 0 then None else Some (rnd mod rng, g))"

text \<open>The states that the functions of the interface lead to.\<close>

inductive arc4_step :: "arc4_state \<Rightarrow> arc4_state \<Rightarrow> bool" where
  stir: "arc4_step g (arc4random_stir rdat g)"
| addrandom: "dat \<noteq> [] \<Longrightarrow> arc4_step g (arc4random_addrandom rdat dat g)"
| word: "arc4_step g (snd (arc4random_word rdat g))"
| below: "arc4random_below rdat rng g = Some (r, g') \<Longrightarrow> arc4_step g g'"


section \<open>The invariant\<close>

definition permutes_bytes :: "u8 list \<Rightarrow> bool" where
  "permutes_bytes s \<longleftrightarrow> length s = 256 \<and> distinct s"

text \<open>Exchanging two places keeps it.\<close>

lemma unat_u8 [simp]: "unat (x :: u8) < 256"
  using unsigned_less[of x, where ?'a = nat] by simp

lemma permutes_swap:
  assumes "permutes_bytes s" "i < 256" "j < 256"
  shows "permutes_bytes (s[i := s ! j, j := s ! i])"
  using assms distinct_swap[of i s j] by (simp add: permutes_bytes_def)

lemma arc4_init_permutes: "permutes_bytes (as_s (arc4_init as))"
proof -
  have "inj_on (\<lambda>n. of_nat n :: u8) {0..<256}"
    by (rule inj_on_inverseI[of _ unat]) (simp add: unsigned_of_nat take_bit_nat_eq_self)
  then show ?thesis by (simp add: permutes_bytes_def arc4_init_def distinct_map del: upt_rec_numeral)
qed

lemma arc4_mix_permutes: "permutes_bytes (as_s as) \<Longrightarrow> permutes_bytes (as_s (arc4_mix dat as n))"
  using permutes_swap by (simp add: arc4_mix_def Let_def)

lemma arc4_addrandom_permutes: "permutes_bytes (as_s as) \<Longrightarrow> permutes_bytes (as_s (arc4_addrandom dat as))"
proof -
  have "permutes_bytes (as_s a) \<Longrightarrow> permutes_bytes (as_s (foldl (arc4_mix dat) a ns))" for a ns
    by (induction ns arbitrary: a) (simp_all add: arc4_mix_permutes)
  then show "permutes_bytes (as_s as) \<Longrightarrow> permutes_bytes (as_s (arc4_addrandom dat as))" by (simp add: arc4_addrandom_def)
qed

lemma arc4_getbyte_permutes: "permutes_bytes (as_s as) \<Longrightarrow> permutes_bytes (as_s (snd (arc4_getbyte as)))"
  using permutes_swap by (simp add: arc4_getbyte_def Let_def)

lemma arc4_getword_permutes: "permutes_bytes (as_s as) \<Longrightarrow> permutes_bytes (as_s (snd (arc4_getword as)))"
  by (simp add: arc4_getword_def Let_def split_beta arc4_getbyte_permutes)

lemma arc4_stir_permutes: "permutes_bytes (as_s as) \<Longrightarrow> permutes_bytes (as_s (arc4_stir rdat as))"
proof -
  have "permutes_bytes (as_s a) \<Longrightarrow> permutes_bytes (as_s (arc4_skip n a))" for a n
    by (induction n arbitrary: a) (simp_all add: arc4_getbyte_permutes)
  then show "permutes_bytes (as_s as) \<Longrightarrow> permutes_bytes (as_s (arc4_stir rdat as))"
    by (simp add: arc4_stir_def arc4_addrandom_permutes split: option.split)
qed

lemmas arc4_permutes = arc4_init_permutes arc4_addrandom_permutes arc4_getword_permutes arc4_stir_permutes

definition arc4_inv :: "arc4_state \<Rightarrow> bool" where
  "arc4_inv g \<longleftrightarrow> (rs_initialized g \<longrightarrow> permutes_bytes (as_s (rs g)))"

lemma arc4_checked:
  assumes "arc4_inv g"
  shows "rs_initialized (arc4_check_init g) \<and> permutes_bytes (as_s (rs (arc4_check_init g)))"
    "rs_initialized (arc4_check_stir rdat (arc4_check_init g)) \<and> permutes_bytes (as_s (rs (arc4_check_stir rdat (arc4_check_init g))))"
  using assms by (auto simp: arc4_inv_def arc4_check_init_def arc4_check_stir_def arc4_permutes)

lemma arc4_word_inv: "arc4_inv g \<Longrightarrow> rs_initialized (snd (arc4random_word rdat g)) \<and> permutes_bytes (as_s (rs (snd (arc4random_word rdat g))))"
  using arc4_checked(2)[of g rdat] by (simp add: arc4random_word_def Let_def split_beta arc4_permutes)

lemma arc4_step_inv:
  assumes "arc4_step g g'" "arc4_inv g"
  shows "rs_initialized g' \<and> permutes_bytes (as_s (rs g'))"
  using assms(1)
proof (cases rule: arc4_step.cases)
  case (stir rdat)
  then show ?thesis using arc4_checked(1)[OF assms(2)] by (simp add: arc4random_stir_def Let_def arc4_permutes)
next
  case (addrandom dat rdat)
  then show ?thesis using arc4_checked(2)[OF assms(2), of rdat] by (simp add: arc4random_addrandom_def Let_def arc4_permutes)
next
  case (word rdat)
  then show ?thesis using arc4_word_inv[OF assms(2)] by simp
next
  case (below rdat rng r)
  then have "g' = snd (arc4random_word rdat g)" by (auto simp: arc4random_below_def Let_def split_beta split: if_splits)
  then show ?thesis using arc4_word_inv[OF assms(2)] by simp
qed

text \<open>
  C26: in every state that any sequence of calls of the generator's functions leads to, once it is initialised, its table is a
  permutation of the 256 bytes; so no call ever reads or writes outside of it, and no byte can get lost.
\<close>

theorem arc4_invariant:
  assumes "arc4_step\<^sup>*\<^sup>* arc4_start g"
  shows "(g = arc4_start \<or> rs_initialized g) \<and> (rs_initialized g \<longrightarrow> length (as_s (rs g)) = 256 \<and> distinct (as_s (rs g)) \<and> set (as_s (rs g)) = UNIV)"
proof -
  have "arc4_inv g \<and> (g = arc4_start \<or> rs_initialized g)"
    using assms
  proof (induction rule: rtranclp_induct)
    case base
    show ?case by (simp add: arc4_inv_def arc4_start_def)
  next
    case (step g g')
    then show ?case using arc4_step_inv by (simp add: arc4_inv_def)
  qed
  moreover have "set s = UNIV" if "length s = 256" "distinct s" for s :: "u8 list"
  proof (rule card_subset_eq)
    show "card (set s) = card (UNIV :: u8 set)" using that distinct_card[of s] by (simp add: card_word)
  qed simp_all
  ultimately show ?thesis by (auto simp: arc4_inv_def permutes_bytes_def)
qed

theorem arc4_invariant_witness:
  "set (as_s (rs (snd (arc4random_word (Some [1, 2, 3]) arc4_start)))) = UNIV"
proof -
  let ?g = "snd (arc4random_word (Some [1, 2, 3]) arc4_start)"
  have "arc4_step\<^sup>*\<^sup>* arc4_start ?g" by (rule r_into_rtranclp) (rule arc4_step.word)
  note i = arc4_invariant[OF this]
  have "?g \<noteq> arc4_start" by (auto simp: arc4random_word_def arc4_start_def Let_def split_beta arc4_check_init_def arc4_check_stir_def)
  then show ?thesis using i by blast
qed

text \<open>A generator whose device cannot be read is taken for stirred, and gives the same numbers every time.\<close>

lemma arc4_unstirred: "fst (arc4random_word None arc4_start) = 33883917"
  by (simp add: arc4random_word_def arc4_start_def arc4_check_init_def arc4_check_stir_def arc4_stir_def arc4_init_def arc4_getword_def
    arc4_getbyte_def Let_def nth_list_update del: upt_rec_numeral)

end
