(* ===== verification/Sql.thy ===== *)
theory Sql imports
  Containers Quid
begin

text \<open>
  The query language: src/sql.c.  A query is spread out with blanks, cut into tokens and parsed; the parser is disabled in the
  source (between \<open>#if 0\<close> and \<open>#endif\<close>) and returns an empty result for every stream of tokens.
\<close>

datatype token = T_SELECT | T_INSERT | T_DELETE | T_UPDATE | T_ASTERISK | T_FROM
  | T_WHERE | T_ORDER | T_HAVING | T_AND | T_ANY | T_ALL
  | T_BETWEEN | T_EXISTS | T_IN | T_LIKE | T_UNIQUE | T_NOT
  | T_IS | T_OR | T_BY | T_BRACK_OPEN | T_BRACK_CLOSE | T_SEPARATE
  | T_COMMIT | T_TARGET | T_ADD | T_SUBTRACT | T_DEVIDE | T_MODULO
  | T_GREATER | T_SMALLER | T_EQUAL | T_GREATER_EQUAL | T_SMALLER_EQUAL | T_FUNC_QUID
  | T_FUNC_NOW | T_FUNC_MD5 | T_FUNC_SHA1 | T_FUNC_SHA256 | T_FUNC_SHA512 | T_FUNC_HMAC_SHA256
  | T_FUNC_HMAC_SHA512 | T_FUNC_VACUUM | T_FUNC_SYNC | T_FUNC_SHUTDOWN | T_FUNC_INSTANCE_NAME | T_FUNC_INSTANCE_KEY
  | T_FUNC_SESSION_KEY | T_FUNC_LICENSE | T_FUNC_VERSION | T_FUNC_UPTIME | T_TABLELIST | T_INTEGER
  | T_DOUBLE | T_STRING | T_QUID | T_TRUE | T_FALSE | T_NULL
  | T_INVALID

record stoken =
  tk_token :: token
  tk_string :: "string option"
  tk_length :: nat

record sqlresult =
  sr_quid :: string
  sr_data :: "string option"
  sr_items :: int
  sr_name :: "string option"

section \<open>Spreading out\<close>

text \<open>The character after the current one, the terminator at the end; and 1 for a character that is no blank.\<close>

definition first :: "string \<Rightarrow> char" where
  "first s = (case s of [] \<Rightarrow> NUL | c # _ \<Rightarrow> c)"

definition tight :: "char \<Rightarrow> nat" where
  "tight c = (if isspace c then 0 else 1)"

text \<open>The blanks to be inserted, counted from the second character on; \<open>p\<close> is the character before.\<close>

fun explode_pad :: "char \<Rightarrow> string \<Rightarrow> nat" where
  "explode_pad p [] = 0"
| "explode_pad p (c # s) =
     (if c = CHR ''>'' \<and> first s = CHR ''='' \<or> c \<in> set ''><'' \<and> (first s = CHR ''>'' \<or> first s = CHR ''='')
      then tight (first (tl s)) + tight p + explode_pad (first s) (tl s)
      else if c \<in> set ''><()=;'' then tight (first s) + tight p + explode_pad c s
      else explode_pad c s)"

text \<open>What the second pass writes before a character and after it.\<close>

definition blank_before :: "char \<Rightarrow> char \<Rightarrow> string" where
  "blank_before p c =
     (if c \<in> set ''()<;'' \<or> c = CHR ''='' \<and> p \<noteq> CHR ''>'' \<and> p \<noteq> CHR ''<'' \<or> c = CHR ''>'' \<and> p \<noteq> CHR ''<''
      then (if isspace p then [] else '' '') else [])"

definition blank_after :: "char \<Rightarrow> char \<Rightarrow> string" where
  "blank_after c n =
     (if c \<in> set ''()=;'' \<or> c = CHR ''>'' \<and> n \<noteq> CHR ''='' \<or> c = CHR ''<'' \<and> n \<noteq> CHR ''>'' \<and> n \<noteq> CHR ''=''
      then (if isspace n then [] else '' '') else [])"

fun explode_out :: "char \<Rightarrow> string \<Rightarrow> string" where
  "explode_out p [] = []"
| "explode_out p (c # s) = blank_before p c @ [c] @ blank_after c (first s) @ explode_out c s"

text \<open>The result must fit into the buffer of \<open>strlen(sql) + pad + 1\<close> bytes.  The scan of an empty string starts behind its terminator.\<close>

definition explode_sql :: "string \<Rightarrow> string option" where
  "explode_sql sql =
     (case sql of
        [] \<Rightarrow> None
      | [c] \<Rightarrow> Some [c]
      | c # s \<Rightarrow> (let pad = explode_pad c s; out = c # explode_out c s
          in if length out \<le> length sql + pad then Some out else None))"

section \<open>Tokens\<close>

definition sql_words :: "(string list \<times> token) list" where
  "sql_words =
    [([''SELECT'', ''select''], T_SELECT),
     ([''INSERT'', ''insert''], T_INSERT),
     ([''UPDATE'', ''update''], T_UPDATE),
     ([''DELETE'', ''delete''], T_DELETE),
     ([''SET'', ''set''], T_SEPARATE),
     ([''INTO'', ''into''], T_TARGET),
     ([''ORDER'', ''order''], T_ORDER),
     ([''BY'', ''by''], T_BY),
     ([''HAVING'', ''having''], T_HAVING),
     ([''VALUES'', ''values''], T_SEPARATE),
     ([''(''], T_BRACK_OPEN),
     (['')''], T_BRACK_CLOSE),
     ([''*''], T_ASTERISK),
     ([''FROM'', ''from''], T_FROM),
     ([''WHERE'', ''where''], T_WHERE),
     ([''AND'', ''and'', ''&&''], T_AND),
     ([''OR'', ''or'', ''||''], T_OR),
     ([''+''], T_AND),
     ([''-''], T_SUBTRACT),
     ([''/''], T_DEVIDE),
     ([''%''], T_MODULO),
     ([''>''], T_GREATER),
     ([''<''], T_SMALLER),
     ([''=''], T_EQUAL),
     ([''<=''], T_SMALLER_EQUAL),
     ([''>=''], T_GREATER_EQUAL),
     ([''!='', ''NOT'', ''not'', ''<>''], T_NOT),
     ([''ANY'', ''any''], T_ANY),
     ([''ALL'', ''all''], T_ALL),
     ([''BETWEEN'', ''between''], T_BETWEEN),
     ([''EXISTS'', ''exists''], T_EXISTS),
     ([''IN'', ''in''], T_IN),
     ([''LIKE'', ''like''], T_LIKE),
     ([''UNIQUE'', ''unique''], T_UNIQUE),
     ([''IS'', ''is''], T_IS),
     ([''TABLELIST'', ''tabelist''], T_TABLELIST),
     ([''QUID'', ''quid''], T_FUNC_QUID),
     ([''NOW'', ''now''], T_FUNC_NOW),
     ([''MD5'', ''md5''], T_FUNC_MD5),
     ([''SHA1'', ''sha1''], T_FUNC_SHA1),
     ([''SHA256'', ''sha256''], T_FUNC_SHA256),
     ([''SHA512'', ''sha512''], T_FUNC_SHA512),
     ([''HMAC_SHA256'', ''hmac_sha256''], T_FUNC_HMAC_SHA256),
     ([''HMAC_SHA512'', ''hmac_sha512''], T_FUNC_HMAC_SHA512),
     ([''VACUUM'', ''vacuum''], T_FUNC_VACUUM),
     ([''SYNC'', ''sync''], T_FUNC_SYNC),
     ([''SHUTDOWN'', ''shutdown''], T_FUNC_SHUTDOWN),
     ([''INSTANCE_NAME'', ''instance_name''], T_FUNC_INSTANCE_NAME),
     ([''INSTANCE_KEY'', ''instance_key''], T_FUNC_INSTANCE_KEY),
     ([''SESSION_KEY'', ''session_key''], T_FUNC_SESSION_KEY),
     ([''LICENSE'', ''license''], T_FUNC_LICENSE),
     ([''VERSION'', ''version''], T_FUNC_VERSION),
     ([''UPTIME'', ''uptime''], T_FUNC_UPTIME),
     (['';''], T_COMMIT),
     ([''TRUE'', ''true''], T_TRUE),
     ([''FALSE'', ''false''], T_FALSE),
     ([''NULL'', ''null''], T_NULL)]"

definition sql_word :: "string \<Rightarrow> token option" where
  "sql_word pch = map_option snd (List.find (\<lambda>(ws, t). pch \<in> set ws) sql_words)"

definition quoted_by :: "char \<Rightarrow> string \<Rightarrow> bool" where
  "quoted_by q pch \<longleftrightarrow> pch \<noteq> [] \<and> hd pch = q \<and> last pch = q"

text \<open>
  A token for a word, with what it adds to the counters \<open>cnt\<close> and \<open>charcnt\<close>; \<open>None\<close> is the label \<open>tok_err\<close>.  The text of a token
  is set for data only.  Of a single quote the copy loses its only character, and the text starts at the second terminator.
\<close>

definition sql_token :: "string \<Rightarrow> (stoken \<times> nat \<times> nat) option" where
  "sql_token pch =
     (case sql_word pch of
        Some t \<Rightarrow> Some (\<lparr>tk_token = t, tk_string = None, tk_length = 0\<rparr>, if t = T_TRUE \<or> t = T_FALSE \<or> t = T_NULL then 1 else 0, 0)
      | None \<Rightarrow>
          let data = (\<lambda>t s. Some (\<lparr>tk_token = t, tk_string = Some s, tk_length = length s\<rparr>, 1, length pch)) in
          if strisdigit pch then data T_INTEGER pch
          else if strismatch pch ''1234567890.'' then
            (if strccnt pch (CHR ''.'') \<noteq> 1 then None
             else if hd pch = CHR ''.'' \<or> last pch = CHR ''.'' then None
             else data T_DOUBLE pch)
          else if strisualpha pch then data T_STRING pch
          else if quoted_by (CHR 0x22) pch \<or> quoted_by (CHR 0x27) pch then
            (let s = butlast (tl pch) in data (if strquid_format s > 0 then T_QUID else T_STRING) s)
          else None)"

text \<open>The static variables of the file, with those of \<open>strtoken\<close>.\<close>

record sql_state =
  sq_cnt :: nat
  sq_charcnt :: nat
  sq_tok :: "string option \<times> bool"

lemma strtoken_skip_length: "strtoken_skip delim sk s = (Some (c, r), sk') \<Longrightarrow> length r < length s"
  by (induction delim sk s rule: strtoken_skip.induct) (auto simp: Let_def split: if_splits)

lemma strtoken_scan_length: "strtoken_scan delim sk tok s = Some (tok', Some r, sk') \<Longrightarrow> length r < length s"
proof (induction s arbitrary: sk tok)
  case (Cons c s)
  show ?case
  proof (cases "\<not> quote_flip c sk \<and> c \<in> set delim")
    case False
    then have "strtoken_scan delim (quote_flip c sk) (tok @ [c]) s = Some (tok', Some r, sk')"
      using Cons.prems by (auto simp: Let_def split: if_splits)
    then show ?thesis using Cons.IH by fastforce
  qed (use Cons.prems in \<open>simp add: Let_def\<close>)
qed (simp split: if_splits)

lemma strtoken_shorter:
  assumes "strtoken None delim (la, sk) = Some (Some p, Some r, sk')"
  shows "\<exists>l. la = Some l \<and> length r < length l"
proof (cases la)
  case (Some l)
  then obtain c s sk1 where "strtoken_skip delim sk l = (Some (c, s), sk1)" "strtoken_scan delim sk1 [c] s = Some (p, Some r, sk')"
    using assms by (auto simp: strtoken_def Let_def bind_Some_iff split: prod.splits option.splits)
  then show ?thesis using strtoken_skip_length[of delim sk l c s sk1] strtoken_scan_length[of delim sk1 "[c]" s p r sk'] Some by auto
qed (use assms in \<open>simp add: strtoken_def\<close>)

function tokenize_loop :: "string option \<Rightarrow> stoken qstack \<Rightarrow> sql_state \<Rightarrow> (bool \<times> stoken qstack \<times> sql_state) option" where
  "tokenize_loop None stack st = Some (True, stack, st)"
| "tokenize_loop (Some pch) stack st =
     (case sql_token pch of
        None \<Rightarrow> Some (False, stack, st)
      | Some (tok, n, chars) \<Rightarrow>
          (case stack_push stack tok of
             None \<Rightarrow> None
           | Some stack \<Rightarrow>
               (case strtoken None '' ,'' (sq_tok st) of
                  None \<Rightarrow> None
                | Some (pch, t) \<Rightarrow>
                    tokenize_loop pch stack \<lparr>sq_cnt = sq_cnt st + n, sq_charcnt = sq_charcnt st + chars, sq_tok = t\<rparr>)))"
  by pat_completeness auto
termination
proof (relation "measure (\<lambda>(pch, stack, st). case pch of None \<Rightarrow> 0 | Some _ \<Rightarrow> 1 + (case fst (sq_tok st) of None \<Rightarrow> 0 | Some l \<Rightarrow> 1 + length l))")
  fix pch stack x tok y n chars stack' r pch' t and st :: sql_state
  assume "strtoken None '' ,'' (sq_tok st) = Some r" "(pch', t) = r"
  then have s: "strtoken None '' ,'' (fst (sq_tok st), snd (sq_tok st)) = Some (pch', fst t, snd t)" by simp
  show "((pch', stack', \<lparr>sq_cnt = sq_cnt st + n, sq_charcnt = sq_charcnt st + chars, sq_tok = t\<rparr>), Some pch, stack, st)
    \<in> measure (\<lambda>(pch, stack, st). case pch of None \<Rightarrow> 0 | Some _ \<Rightarrow> 1 + (case fst (sq_tok st) of None \<Rightarrow> 0 | Some l \<Rightarrow> 1 + length l))"
  proof (cases "pch' = None \<or> fst t = None")
    case True
    then show ?thesis using s by (cases "sq_tok st") (auto simp: strtoken_def split: option.splits prod.splits)
  next
    case False
    then obtain p l where "pch' = Some p" "fst t = Some l" by auto
    then show ?thesis using strtoken_shorter[of "'' ,''" "fst (sq_tok st)" "snd (sq_tok st)" p l "snd t"] s by auto
  qed
qed simp

definition tokenize :: "stoken qstack \<Rightarrow> string \<Rightarrow> sql_state \<Rightarrow> (bool \<times> stoken qstack \<times> sql_state) option" where
  "tokenize stack sql st = do {
     ustr \<leftarrow> explode_sql sql;
     (pch, t) \<leftarrow> strtoken (Some ustr) '' ,'' (sq_tok st);
     tokenize_loop pch stack (st\<lparr>sq_tok := t\<rparr>) }"

section \<open>Execution\<close>

definition parse :: "stoken qstack \<Rightarrow> sqlresult" where
  "parse stack = \<lparr>sr_quid = [], sr_data = None, sr_items = 0, sr_name = None\<rparr>"

definition sql_exec :: "string \<Rightarrow> sql_state \<Rightarrow> (sqlresult option \<times> sql_state) option" where
  "sql_exec sql st = do {
     (ok, stack, st) \<leftarrow> tokenize (stack_init 15) sql (st\<lparr>sq_cnt := 0, sq_charcnt := 0\<rparr>);
     let rs = (if ok then Some (parse stack) else None);
     _ \<leftarrow> stack_destroy stack;
     Some (rs, st) }"

section \<open>The buffer of the spread-out query\<close>

text \<open>Two greater signs in a row: the first pass counts the blanks around the pair, the second writes those around each.\<close>

fun double_greater :: "string \<Rightarrow> bool" where
  "double_greater (c # d # s) \<longleftrightarrow> c = CHR ''>'' \<and> d = CHR ''>'' \<or> double_greater (d # s)"
| "double_greater _ \<longleftrightarrow> False"

lemma double_greater_Cons: "double_greater (c # s) \<longleftrightarrow> c = CHR ''>'' \<and> first s = CHR ''>'' \<or> double_greater s"
  by (cases s) (auto simp: first_def)

lemma blank_lengths: "length (blank_before p c) \<le> tight p" "length (blank_after c n) \<le> tight n"
  by (simp_all add: blank_before_def blank_after_def tight_def)

lemma blanks_none:
  "c \<notin> set ''><()=;'' \<Longrightarrow> blank_before p c = [] \<and> blank_after c n = []"
  "blank_after (CHR ''>'') (CHR ''='') = []" "blank_after (CHR ''<'') (CHR ''='') = []" "blank_after (CHR ''<'') (CHR ''>'') = []"
  "blank_before (CHR ''>'') (CHR ''='') = []" "blank_before (CHR ''<'') (CHR ''='') = []" "blank_before (CHR ''<'') (CHR ''>'') = []"
  by (auto simp: blank_before_def blank_after_def)

lemma explode_fits: "\<not> double_greater s \<Longrightarrow> length (explode_out p s) \<le> length s + explode_pad p s"
proof (induction p s rule: explode_pad.induct)
  case (2 p c s)
  show ?case
  proof (cases "c = CHR ''>'' \<and> first s = CHR ''='' \<or> c \<in> set ''><'' \<and> (first s = CHR ''>'' \<or> first s = CHR ''='')")
    case True
    then obtain d r where s: "s = d # r" by (cases s) (auto simp: first_def)
    have pair: "c = CHR ''>'' \<and> d = CHR ''='' \<or> c = CHR ''<'' \<and> (d = CHR ''>'' \<or> d = CHR ''='')"
      using True "2.prems" by (auto simp: s first_def)
    have nd: "\<not> double_greater (tl s)" using "2.prems" by (simp add: s double_greater_Cons)
    have "length (explode_out d r) \<le> length r + explode_pad d r"
      using "2.IH"(1)[OF True nd] by (simp add: s first_def)
    moreover have "blank_after c d = []" "blank_before c d = []" using pair blanks_none(2-7) by auto
    ultimately show ?thesis
      using True blank_lengths(1)[of p c] blank_lengths(2)[of d "first r"] by (simp add: s first_def)
  next
    case False
    note F = this
    have nd: "\<not> double_greater s" using "2.prems" by (simp add: double_greater_Cons)
    show ?thesis
    proof (cases "c \<in> set ''><()=;''")
      case True
      have "length (explode_out c s) \<le> length s + explode_pad c s" using "2.IH"(2)[OF F True nd] .
      moreover have "explode_pad p (c # s) = tight (first s) + tight p + explode_pad c s"
        using F True by (simp only: explode_pad.simps if_False if_True)
      ultimately show ?thesis using blank_lengths(1)[of p c] blank_lengths(2)[of c "first s"] by simp
    next
      case False
      have "length (explode_out c s) \<le> length s + explode_pad c s" using "2.IH"(3)[OF F False nd] .
      moreover have "explode_pad p (c # s) = explode_pad c s"
        using F False by (simp only: explode_pad.simps if_False)
      ultimately show ?thesis using blanks_none(1)[OF False, of p "first s"] by simp
    qed
  qed
qed simp

lemma explode_text: "filter (\<lambda>c. \<not> isspace c) (explode_out p s) = filter (\<lambda>c. \<not> isspace c) s"
proof (induction p s rule: explode_out.induct)
  case (2 p c s)
  have "isspace CHR '' ''" by (simp add: isspace_def)
  then have "filter (\<lambda>c. \<not> isspace c) (blank_before p c) = []" "filter (\<lambda>c. \<not> isspace c) (blank_after c (first s)) = []"
    by (simp_all add: blank_before_def blank_after_def)
  then show ?case using 2 by simp
qed simp

lemma filter_Cons_hd: "s \<noteq> [] \<Longrightarrow> filter P s = (if P (hd s) then hd s # filter P (tl s) else filter P (tl s))"
  by (cases s) simp_all

lemma explode_form: "explode_sql (c # s) = Some out \<Longrightarrow> out = c # explode_out c s"
  by (cases s) (auto simp: explode_sql_def Let_def simp del: explode_out.simps(2) split: if_splits)

text \<open>
  C38: Spreading out a query (\<open>explode_sql\<close> of src/sql.c).  Whenever the function returns, the result is the query but for blanks.  It
  returns, and the buffer that is allocated for the result suffices, for every query that is not empty and has no two greater
  signs in a row after its first character.  The empty query is scanned from behind its terminator, and with two greater signs in a
  row the function can write past the end of the buffer, as it does for \<open>a>>b\<close>.
\<close>

theorem explode_sql_correct:
  "(\<forall>out. explode_sql sql = Some out \<longrightarrow> filter (\<lambda>c. \<not> isspace c) out = filter (\<lambda>c. \<not> isspace c) sql)
   \<and> (sql \<noteq> [] \<and> \<not> double_greater (tl sql) \<longrightarrow> (\<exists>out. explode_sql sql = Some out))
   \<and> explode_sql [] = None \<and> explode_sql ''a>>b'' = None"
proof (intro conjI impI allI)
  fix out assume "explode_sql sql = Some out"
  then show "filter (\<lambda>c. \<not> isspace c) out = filter (\<lambda>c. \<not> isspace c) sql"
    using explode_text[of "hd sql" "tl sql"] explode_form[of "hd sql" "tl sql" out]
    by (cases "sql = []") (simp_all add: explode_sql_def[of "[]"] filter_Cons_hd)
next
  assume a: "sql \<noteq> [] \<and> \<not> double_greater (tl sql)"
  then obtain c s where s: "sql = c # s" by (cases sql) auto
  have "length (c # explode_out c s) \<le> length sql + explode_pad c s" using explode_fits[of s c] a by (simp add: s)
  then show "\<exists>out. explode_sql sql = Some out" by (cases s) (auto simp: explode_sql_def s Let_def)
next
  show "explode_sql [] = None" by (simp add: explode_sql_def)
  show "explode_sql ''a>>b'' = None"
    by (simp add: explode_sql_def blank_before_def blank_after_def first_def tight_def isspace_def)
qed

theorem explode_sql_correct_witness:
  "\<exists>out. explode_sql ''SELECT a>=1;'' = Some out \<and> filter (\<lambda>c. \<not> isspace c) out = ''SELECTa>=1;''"
proof -
  have "''SELECT a>=1;'' \<noteq> [] \<and> \<not> double_greater (tl ''SELECT a>=1;'')" by simp
  moreover have "filter (\<lambda>c. \<not> isspace c) ''SELECT a>=1;'' = ''SELECTa>=1;''" by (simp add: isspace_def)
  ultimately show ?thesis using explode_sql_correct[of "''SELECT a>=1;''"] by metis
qed

section \<open>The stack of tokens\<close>

text \<open>A stack that elements were only pushed to; its array has been doubled \<open>k\<close> times.\<close>

definition pushed :: "int \<Rightarrow> nat \<Rightarrow> 'a list \<Rightarrow> 'a qstack \<Rightarrow> bool" where
  "pushed m k xs stack \<longleftrightarrow> sk_max_size stack = m * 2 ^ k \<and> int (length xs) \<le> m * 2 ^ k \<and> (k = 0 \<or> m * 2 ^ (k - 1) < int (length xs))
     \<and> sk_contents stack = map Ptr xs @ replicate (nat (m * 2 ^ k) - length xs) (if k = 0 then Null else Garbage)
     \<and> sk_size stack = int (length xs) \<and> sk_top stack = int (length xs) - 1 \<and> sk_rtop stack = 0"

lemma pushed_init: "0 < m \<Longrightarrow> pushed m 0 [] (stack_init m)"
  by (simp add: pushed_def stack_init_def)

lemma pushed_push:
  assumes "pushed m k xs stack" "0 < m" "stack_push stack x = Some stack'"
  shows "\<exists>k'. pushed m k' (xs @ [x]) stack'"
proof (cases "sk_top stack \<ge> sk_max_size stack - 1")
  case True
  define n where "n = m * 2 ^ k"
  have n: "int (length xs) = n" "0 < n" using assms(1,2) True by (auto simp: pushed_def n_def)
  have s: "stack' = \<lparr>sk_contents = (map Ptr xs @ replicate (nat n) Garbage)[length xs := Ptr x], sk_max_size = n * 2,
      sk_size = int (length xs) + 1, sk_top = int (length xs), sk_rtop = 0\<rparr>"
    using assms(1,3) True n unfolding pushed_def stack_push_def n_def[symmetric]
    by (cases stack) (auto simp: bind_Some_iff zassert_def Let_def nat_mult_distrib split: if_splits)
  have "nat n = Suc (nat n - 1)" using n(2) by simp
  then have "replicate (nat n) (Garbage :: 'a slot) = Garbage # replicate (nat n - 1) Garbage" by (metis replicate_Suc)
  then have "(map Ptr xs @ replicate (nat n) Garbage)[length xs := Ptr x] = map Ptr (xs @ [x]) @ replicate (nat n - 1) Garbage"
    by (simp add: list_update_append)
  moreover have "nat (n * 2) - length (xs @ [x]) = nat n - 1" using n by simp
  moreover have "m * 2 ^ Suc k = n * 2" by (simp add: n_def)
  ultimately have "pushed m (Suc k) (xs @ [x]) stack'" using n by (simp add: pushed_def s n_def[symmetric] del: power_Suc)
  then show ?thesis ..
next
  case False
  define n where "n = m * 2 ^ k"
  define e :: "'a slot" where "e = (if k = 0 then Null else Garbage)"
  have n: "int (length xs) < n" using assms(1) False by (simp add: pushed_def n_def)
  then have r: "nat n - length xs = Suc (nat n - length xs - 1)" by simp
  have s: "stack' = \<lparr>sk_contents = (map Ptr xs @ replicate (nat n - length xs) e)[length xs := Ptr x], sk_max_size = n,
      sk_size = int (length xs) + 1, sk_top = int (length xs), sk_rtop = 0\<rparr>"
    using assms(1,3) False n unfolding pushed_def stack_push_def n_def[symmetric] e_def[symmetric]
    by (cases stack) (auto simp: bind_Some_iff Let_def split: if_splits)
  have "replicate (nat n - length xs) e = e # replicate (nat n - length xs - 1) e" using r by (metis replicate_Suc)
  then have "(map Ptr xs @ replicate (nat n - length xs) e)[length xs := Ptr x] = map Ptr (xs @ [x]) @ replicate (nat n - length (xs @ [x])) e"
    by (simp add: list_update_append)
  then have "pushed m k (xs @ [x]) stack'"
    using n assms(1) by (auto simp: pushed_def s n_def[symmetric] e_def[symmetric])
  then show ?thesis ..
qed

lemma tokenize_pushed:
  assumes "tokenize_loop pch stack st = Some (ok, stack', st')" "pushed m k xs stack" "0 < m"
  shows "\<exists>k xs. pushed m k xs stack'"
  using assms
proof (induction pch stack st arbitrary: k xs rule: tokenize_loop.induct)
  case (1 stack st)
  then show ?case by auto
next
  case (2 pch stack st)
  show ?case
  proof (cases "sql_token pch")
    case None
    then show ?thesis using "2.prems" by auto
  next
    case (Some r)
    obtain tok n chars where r: "r = (tok, n, chars)" by (cases r) auto
    obtain stack1 p t where p: "stack_push stack tok = Some stack1" "strtoken None '' ,'' (sq_tok st) = Some (p, t)"
      and l: "tokenize_loop p stack1 \<lparr>sq_cnt = sq_cnt st + n, sq_charcnt = sq_charcnt st + chars, sq_tok = t\<rparr> = Some (ok, stack', st')"
      using "2.prems"(1) by (auto simp: Some r split: option.splits)
    obtain k' where "pushed m k' (xs @ [tok]) stack1" using pushed_push[OF "2.prems"(2,3) p(1)] by auto
    then show ?thesis using "2.IH"[OF Some r[symmetric] refl p(1,2) refl l _ "2.prems"(3)] by blast
  qed
qed

lemma destroy_pushed:
  assumes "pushed m k xs stack" "0 < m"
  shows "stack_destroy stack = None \<longleftrightarrow> k \<noteq> 0 \<and> int (length xs) < m * 2 ^ k"
proof -
  have "int (length (sk_contents stack)) = sk_max_size stack" using assms by (auto simp: pushed_def)
  then have "take (nat (sk_max_size stack)) (sk_contents stack) = sk_contents stack" by simp
  moreover have "Garbage \<in> set (sk_contents stack) \<longleftrightarrow> k \<noteq> 0 \<and> int (length xs) < m * 2 ^ k"
    using assms by (auto simp: pushed_def)
  ultimately show ?thesis by (simp add: stack_destroy_def)
qed

lemma doubled_size:
  assumes "0 < (m :: int)" "n \<le> m * 2 ^ k" "k = 0 \<or> m * 2 ^ (k - 1) < n"
  shows "k \<noteq> 0 \<and> n < m * 2 ^ k \<longleftrightarrow> m < n \<and> (\<forall>j. n \<noteq> m * 2 ^ j)"
proof (cases k)
  case (Suc i)
  have lt: "m * 2 ^ i < n" "n \<le> m * 2 ^ Suc i" using assms(2,3) Suc by auto
  have "m * 1 \<le> m * 2 ^ i" using assms(1) by (intro mult_left_mono) auto
  then have "m < n" using lt(1) by simp
  moreover have "n \<noteq> m * 2 ^ j" if "n < m * 2 ^ Suc i" for j
  proof
    assume n: "n = m * 2 ^ j"
    have "i < j" using lt(1) assms(1) n by (simp add: power_strict_increasing_iff)
    moreover have "j < Suc i" using that assms(1) n by (simp add: power_strict_increasing_iff del: power_Suc)
    ultimately show False by simp
  qed
  ultimately show ?thesis using lt(2) Suc by (auto simp: order_le_less simp del: power_Suc)
qed (use assms in auto)

text \<open>
  C39: A query that tokenises gives an empty result and a query that does not gives none, but only if it has at most fifteen tokens, or fifteen times a power
  of two: for any other number the stack has grown and is not full, and what is freed with it are slots that were never written.
\<close>

theorem sql_exec_correct:
  assumes "tokenize (stack_init 15) sql (st\<lparr>sq_cnt := 0, sq_charcnt := 0\<rparr>) = Some (ok, stack, st')"
  shows "sql_exec sql st =
    (if 15 < sk_size stack \<and> (\<forall>j. sk_size stack \<noteq> 15 * 2 ^ j) then None
     else Some (if ok then Some \<lparr>sr_quid = [], sr_data = None, sr_items = 0, sr_name = None\<rparr> else None, st'))"
proof -
  obtain pch t where "tokenize_loop pch (stack_init 15) t = Some (ok, stack, st')"
    using assms by (auto simp: tokenize_def bind_Some_iff)
  then obtain k xs where p: "pushed 15 k xs stack" using tokenize_pushed[OF _ pushed_init] by fastforce
  then have "stack_destroy stack = None \<longleftrightarrow> 15 < sk_size stack \<and> (\<forall>j. sk_size stack \<noteq> 15 * 2 ^ j)"
    using destroy_pushed[OF p] doubled_size[of 15 "int (length xs)" k] by (simp add: pushed_def)
  then show ?thesis
    by (cases "stack_destroy stack") (auto simp: sql_exec_def assms parse_def)
qed

theorem sql_exec_correct_witness:
  "\<exists>st'. sql_exec ''a'' \<lparr>sq_cnt = 0, sq_charcnt = 0, sq_tok = (None, False)\<rparr>
    = Some (Some \<lparr>sr_quid = [], sr_data = None, sr_items = 0, sr_name = None\<rparr>, st')"
proof -
  let ?s = "\<lparr>sq_cnt = 0, sq_charcnt = 0, sq_tok = (None, False)\<rparr>"
  have "map_option (\<lambda>(ok, stack, _). (ok, sk_size stack)) (tokenize (stack_init 15) ''a'' (?s\<lparr>sq_cnt := 0, sq_charcnt := 0\<rparr>)) = Some (True, 1)"
    by code_simp
  then obtain stack st' where t: "tokenize (stack_init 15) ''a'' (?s\<lparr>sq_cnt := 0, sq_charcnt := 0\<rparr>) = Some (True, stack, st')"
    and n: "sk_size stack = 1" by auto
  show ?thesis using sql_exec_correct[OF t] n by simp
qed

end
