(* ===== verification/Http.thy ===== *)
theory Http imports
  CString
begin

text \<open>
  Texts of HTTP, which the server (src/webapi.c) and the client (src/webclient.c) read and write: the end of a line, the search for a text
  in another one, and the printing of a pointer to a string.
\<close>

text \<open>A null pointer is printed as the C library does.\<close>

definition pct_s :: "string option \<Rightarrow> string" where
  "pct_s s = (case s of None \<Rightarrow> ''(null)'' | Some s \<Rightarrow> s)"

abbreviation (input) CR :: char where "CR \<equiv> CHR 0x0D"
abbreviation (input) LF :: char where "LF \<equiv> CHR 0x0A"

definition crlf :: string where
  "crlf = [CR, LF]"

text \<open>The first occurrence of a text, with what follows.\<close>

fun strstr :: "string \<Rightarrow> string \<Rightarrow> string option" where
  "strstr pat s =
     (if take (length pat) s = pat then Some s else (case s of [] \<Rightarrow> None | c # t \<Rightarrow> strstr pat t))"

declare strstr.simps [simp del]

text \<open>What stands before a text in a string that may contain it.\<close>

definition text_before :: "string \<Rightarrow> string \<Rightarrow> string" where
  "text_before pat s = (case strstr pat s of None \<Rightarrow> s | Some t \<Rightarrow> take (length s - length t) s)"

section \<open>Searching\<close>

text \<open>A text that contains a certain character not found before a blank is found behind it.\<close>

lemma strstr_skip:
  assumes "sep \<notin> set pat" "c \<in> set pat" "c \<notin> set x" "pat \<noteq> []"
  shows "strstr pat (x @ sep # s) = strstr pat s"
  using assms(3)
proof (induction x)
  case Nil
  have "take (length pat) (sep # s) \<noteq> pat" using assms(1,4) by (cases pat) auto
  then show ?case by (subst strstr.simps) simp
next
  case (Cons d x)
  have "take (length pat) (d # x @ sep # s) \<noteq> pat"
  proof
    assume a: "take (length pat) (d # x @ sep # s) = pat"
    show False
    proof (cases "length pat \<le> Suc (length x)")
      case True
      then have "take (length pat) (d # x) = pat" using a by (simp add: take_Cons' split: if_splits)
      then have "set pat \<subseteq> set (d # x)" by (metis set_take_subset)
      then show ?thesis using assms(2) Cons.prems by auto
    next
      case False
      then have "take (length pat) (d # x @ sep # s) = (d # x) @ take (length pat - Suc (length x)) (sep # s)"
        using take_append[of "length pat" "d # x" "sep # s"] by simp
      moreover have "take (length pat - Suc (length x)) (sep # s) = sep # take (length pat - Suc (length x) - 1) s"
        using False by (cases "length pat - Suc (length x)") simp_all
      ultimately show ?thesis using a assms(1) by (metis in_set_conv_decomp)
    qed
  qed
  then show ?case using Cons by (subst strstr.simps) simp
qed

lemma strstr_here: "strstr pat (pat @ s) = Some (pat @ s)"
  by (subst strstr.simps) simp

lemma strstr_none: "c \<in> set pat \<Longrightarrow> c \<notin> set s \<Longrightarrow> strstr pat s = None"
proof (induction s)
  case Nil
  then show ?case by (subst strstr.simps) auto
next
  case (Cons d s)
  have "take (length pat) (d # s) \<noteq> pat"
    using Cons.prems by (metis set_take_subset subsetD)
  then show ?case using Cons by (subst strstr.simps) simp
qed

lemma before_here: "c \<in> set pat \<Longrightarrow> c \<notin> set x \<Longrightarrow> hd pat \<notin> set x \<Longrightarrow> text_before pat (x @ pat @ s) = x"
proof -
  assume a: "c \<in> set pat" "hd pat \<notin> set x"
  have "strstr pat (x @ pat @ s) = Some (pat @ s)"
    using a(2)
  proof (induction x)
    case (Cons d x)
    have "take (length pat) (d # x @ pat @ s) \<noteq> pat" using a(1) Cons.prems by (cases pat) auto
    then show ?case using Cons by (subst strstr.simps) simp
  qed (simp add: strstr_here)
  then show "text_before pat (x @ pat @ s) = x" by (simp add: text_before_def)
qed

lemma before_none: "c \<in> set pat \<Longrightarrow> c \<notin> set s \<Longrightarrow> text_before pat s = s"
  by (simp add: text_before_def strstr_none)

end
