(* ===== verification/Webclient.thy ===== *)
theory Webclient imports
  Jwt Http
begin

text \<open>
  The HTTP client, src/webclient.c: the parsing of addresses, the text of a request, the reading of the answer and the redirections.  The
  network is a function \<open>net\<close> from the host, the port and the request to what the other side sends, or \<open>None\<close> if it cannot be
  reached.  The schemes behind the switches \<open>SECURE\<close> and \<open>WEBSOCKET\<close>, which nothing sets, are refused.
\<close>

section \<open>Addresses\<close>

datatype http_scheme = HTTP | HTTPS | WS | WSS | QDB | QDBS

record http_url =
  hu_scheme :: http_scheme
  hu_host :: string
  hu_port :: u16
  hu_path :: "string option"
  hu_query :: "string option"
  hu_fragment :: "string option"
  hu_username :: "string option"
  hu_password :: "string option"

definition url_scheme :: "string \<Rightarrow> http_scheme option" where
  "url_scheme s = (if s = ''http'' then Some HTTP else if s = ''qdb'' then Some QDB else None)"

text \<open>A character that must come next.\<close>

definition eat :: "char \<Rightarrow> string \<Rightarrow> string option" where
  "eat c s = (case s of d # t \<Rightarrow> if d = c then Some t else None | [] \<Rightarrow> None)"

text \<open>The user and the password, if an at sign stands before the first slash.\<close>

definition url_user :: "string \<Rightarrow> ((string option \<times> string option) \<times> string) option" where
  "url_user cur =
     (if char_at (dropWhile (\<lambda>c. c \<noteq> CHR ''@'' \<and> c \<noteq> CHR ''/'') cur) 0 \<noteq> CHR ''@'' then Some ((None, None), cur)
      else do {
        let user = takeWhile (\<lambda>c. c \<noteq> CHR '':'' \<and> c \<noteq> CHR ''@'') cur;
        let cur = dropWhile (\<lambda>c. c \<noteq> CHR '':'' \<and> c \<noteq> CHR ''@'') cur;
        let (password, cur) = (if char_at cur 0 = CHR '':''
          then (Some (takeWhile (\<lambda>c. c \<noteq> CHR ''@'') (tl cur)), dropWhile (\<lambda>c. c \<noteq> CHR ''@'') (tl cur)) else (None, cur));
        cur \<leftarrow> eat (CHR ''@'') cur;
        Some ((Some user, password), cur) })"

text \<open>The host, which in brackets may contain colons and slashes.\<close>

definition url_host :: "string \<Rightarrow> (string \<times> string) option" where
  "url_host cur =
     (let (host, cur) =
        (if char_at cur 0 = CHR ''['' then
           (case dropWhile (\<lambda>c. c \<noteq> CHR '']'') cur of
              [] \<Rightarrow> (cur, [])
            | b # s \<Rightarrow> (takeWhile (\<lambda>c. c \<noteq> CHR '']'') cur @ [b], s))
         else (takeWhile (\<lambda>c. c \<noteq> CHR '':'' \<and> c \<noteq> CHR ''/'') cur, dropWhile (\<lambda>c. c \<noteq> CHR '':'' \<and> c \<noteq> CHR ''/'') cur))
      in if host = [] then None else Some (host, cur))"

definition url_port :: "string \<Rightarrow> (u16 \<times> string) option" where
  "url_port cur =
     (if char_at cur 0 = CHR '':'' then do {
        let digits = takeWhile (\<lambda>c. c \<noteq> CHR ''/'') (tl cur);
        port \<leftarrow> antoi (tl cur) (length digits);
        Some (word_of_int port, dropWhile (\<lambda>c. c \<noteq> CHR ''/'') (tl cur)) }
      else Some (80, cur))"

text \<open>What follows the host: the path, the query and the fragment.\<close>

definition url_query :: "string \<Rightarrow> string option \<times> string" where
  "url_query cur =
     (if char_at cur 0 = CHR ''?'' then (Some (takeWhile (\<lambda>c. c \<noteq> CHR ''#'') (tl cur)), dropWhile (\<lambda>c. c \<noteq> CHR ''#'') (tl cur))
      else (None, cur))"

definition url_fragment :: "string \<Rightarrow> string option" where
  "url_fragment cur = (if char_at cur 0 = CHR ''#'' then Some (tl cur) else None)"

definition parse_url :: "string \<Rightarrow> http_url option" where
  "parse_url url = do {
     (if CHR '':'' \<in> set url then Some () else None);
     scheme \<leftarrow> url_scheme (fst (strtolower (takeWhile (\<lambda>c. c \<noteq> CHR '':'') url)));
     cur \<leftarrow> eat (CHR ''/'') (tl (dropWhile (\<lambda>c. c \<noteq> CHR '':'') url));
     cur \<leftarrow> eat (CHR ''/'') cur;
     ((username, password), cur) \<leftarrow> url_user cur;
     (host, cur) \<leftarrow> url_host cur;
     (port, cur) \<leftarrow> url_port cur;
     let purl = \<lparr>hu_scheme = scheme, hu_host = host, hu_port = port, hu_path = None, hu_query = None, hu_fragment = None,
       hu_username = username, hu_password = password\<rparr>;
     if cur = [] then Some purl
     else do {
       cur \<leftarrow> eat (CHR ''/'') cur;
       let path = takeWhile (\<lambda>c. c \<noteq> CHR ''#'' \<and> c \<noteq> CHR ''?'') cur;
       let (query, cur) = url_query (dropWhile (\<lambda>c. c \<noteq> CHR ''#'' \<and> c \<noteq> CHR ''?'') cur);
       Some (purl\<lparr>hu_path := Some path, hu_query := query, hu_fragment := url_fragment cur\<rparr>) } }"

section \<open>Requests\<close>

text \<open>A text in a buffer of a certain capacity, and the functions that overrun it when it is too small.\<close>

type_synonym text_buffer = "string \<times> nat"

definition sprintf_to :: "nat \<Rightarrow> string \<Rightarrow> text_buffer option" where
  "sprintf_to cap s = do { zassert (length s < cap); Some (s, cap) }"

definition strcat :: "string \<Rightarrow> text_buffer \<Rightarrow> text_buffer option" where
  "strcat s buf = (let (t, cap) = buf in do { zassert (length t + length s < cap); Some (t @ s, cap) })"

definition url_target :: "http_url \<Rightarrow> string" where
  "url_target purl =
     (case hu_path purl of
        Some p \<Rightarrow> ''/'' @ p @ (case hu_query purl of Some q \<Rightarrow> ''?'' @ q | None \<Rightarrow> [])
      | None \<Rightarrow> (case hu_query purl of Some q \<Rightarrow> ''/?'' @ q | None \<Rightarrow> ''/''))"

definition get_lines :: "http_url \<Rightarrow> string option \<Rightarrow> bool \<Rightarrow> string" where
  "get_lines purl data headonly =
     (if headonly then ''HEAD '' else if data \<noteq> None then ''POST '' else ''GET '') @ url_target purl @ '' HTTP/1.1'' @ crlf
     @ ''Host: '' @ hu_host purl @ crlf @ ''Accept: */*'' @ crlf
     @ (if headonly then ''Connection: close'' @ crlf
        else case data of
            Some d \<Rightarrow> ''Content-Length: '' @ itoa (int (length d)) @ crlf @ ''Content-Type: application/x-www-form-urlencoded'' @ crlf
          | None \<Rightarrow> [])"

text \<open>
  The header for the user: the buffer of the request is given a size of two bytes more than the text with this header.
\<close>

definition add_authorization :: "http_url \<Rightarrow> text_buffer \<Rightarrow> text_buffer option" where
  "add_authorization purl buf =
     (case hu_username purl of
        None \<Rightarrow> Some buf
      | Some username \<Rightarrow> do {
          (upwd, _) \<leftarrow> sprintf_to 1024 (username @ '':'' @ pct_s (hu_password purl));
          _ \<leftarrow> base64_encode_len (to_int (length upwd));
          (encoded, _) \<leftarrow> base64_encode (bytes upwd) (to_int (length upwd));
          let base64 = as_text (c_string encoded);
          (auth_header, _) \<leftarrow> sprintf_to 1024 (''Authorization: Basic '' @ base64 @ crlf);
          let http_headers = fst buf;
          strcat auth_header (http_headers, length http_headers + length auth_header + 2) })"

definition get_request :: "http_url \<Rightarrow> string option \<Rightarrow> string option \<Rightarrow> bool \<Rightarrow> string option" where
  "get_request purl custom_headers data headonly = do {
     buf \<leftarrow> sprintf_to 1024 (get_lines purl data headonly);
     buf \<leftarrow> add_authorization purl buf;
     buf \<leftarrow> (case (if headonly then None else data, custom_headers) of
         (Some d, Some c) \<Rightarrow> do { buf \<leftarrow> strcat c buf; buf \<leftarrow> strcat crlf buf; strcat d buf }
       | (None, Some c) \<Rightarrow> do { buf \<leftarrow> strcat c buf; strcat crlf buf }
       | (_, None) \<Rightarrow> strcat crlf buf);
     Some (fst buf) }"

text \<open>Without a path the blank before the address is missing.\<close>

definition options_request :: "http_url \<Rightarrow> string option" where
  "options_request purl = do {
     buf \<leftarrow> sprintf_to 1024
       (''OPTIONS'' @ (if hu_path purl = None \<and> hu_query purl \<noteq> None then [] else '' '') @ url_target purl @ '' HTTP/1.1'' @ crlf
        @ ''Host: '' @ hu_host purl @ crlf @ ''Accept: */*'' @ crlf);
     buf \<leftarrow> add_authorization purl buf;
     buf \<leftarrow> strcat crlf buf;
     Some (fst buf) }"

section \<open>Answers\<close>

record http_response =
  hr_uri :: http_url
  hr_body :: string
  hr_status :: u32
  hr_request_headers :: string
  hr_response_headers :: string

text \<open>
  The answer in its buffer, as the status, the header and the body.  Without an empty line, or with a status line only, a null
  pointer is written through; the three characters of the status are read whatever they are.
\<close>

definition parse_response :: "string \<Rightarrow> (u32 \<times> string \<times> string) option" where
  "parse_response rawresp = do {
     body \<leftarrow> strstr (crlf @ crlf) rawresp;
     let top = take (length rawresp - length body) rawresp;
     headers \<leftarrow> strstr crlf top;
     let line = take (length top - length headers) top;
     let headers = drop 2 headers;
     status \<leftarrow> (case dropWhile (\<lambda>c. c \<noteq> CHR '' '') line of
         [] \<Rightarrow> Some 0
       | _ # pch \<Rightarrow> antoi (pch @ [NUL, LF] @ headers @ [NUL, LF, CR, LF]) 3);
     Some (word_of_int status, headers, drop 4 body) }"

text \<open>The brackets around the host are taken off in the address itself.\<close>

definition plain_host :: "string \<Rightarrow> string" where
  "plain_host host = (if host \<noteq> [] \<and> hd host = CHR ''['' \<and> last host = CHR '']'' then butlast (tl host) else host)"

definition http_req :: "(string \<Rightarrow> u16 \<Rightarrow> string \<Rightarrow> string option) \<Rightarrow> string \<Rightarrow> http_url \<Rightarrow> http_response option option" where
  "http_req net http_headers purl =
     (let purl = purl\<lparr>hu_host := plain_host (hu_host purl)\<rparr>
      in case net (hu_host purl) (hu_port purl) http_headers of
          None \<Rightarrow> Some None
        | Some received \<Rightarrow>
            (let rawresp = takeWhile (\<lambda>c. c \<noteq> NUL) received
             in if rawresp = [] then Some None
                else do {
                  (status, headers, body) \<leftarrow> parse_response rawresp;
                  Some (Some \<lparr>hr_uri = purl, hr_body = body, hr_status = status, hr_request_headers = http_headers,
                    hr_response_headers = headers\<rparr>) }))"

text \<open>
  The address of a redirection.  It is copied with \<open>strncpy\<close>, which fills as many bytes as the whole line has into an array that is as long
  as the address.
\<close>

fun find_location :: "string list \<Rightarrow> string option option" where
  "find_location [] = Some None"
| "find_location (token # ts) =
     (if strstr ''location:'' (fst (strtolower token)) \<noteq> None then do {
        let loc = tl (dropWhile (\<lambda>c. c \<noteq> CHR '':'') token);
        let loc = (if char_at loc 0 = CHR '' '' then tl loc else loc);
        zassert (length token + 1 \<le> length loc + 1);
        Some (Some loc) }
      else find_location ts)"

definition redirect_target :: "http_response \<Rightarrow> string option option" where
  "redirect_target hresp =
     (if 300 < hr_status hresp \<and> hr_status hresp < 400 then find_location (strtok_all crlf [] (hr_response_headers hresp)) else Some None)"

definition handle_redirect :: "http_response \<Rightarrow> (string \<Rightarrow> http_response option option) \<Rightarrow> http_response option option" where
  "handle_redirect hresp callbk = do {
     loc \<leftarrow> redirect_target hresp;
     (case loc of None \<Rightarrow> Some (Some hresp) | Some loc \<Rightarrow> callbk loc) }"

text \<open>\<open>http_get\<close> is the function that \<open>handle_redirect\<close> calls.\<close>

partial_function (option) http_get :: "(string \<Rightarrow> u16 \<Rightarrow> string \<Rightarrow> string option) \<Rightarrow> string \<Rightarrow> string option \<Rightarrow> string option \<Rightarrow> bool
    \<Rightarrow> http_response option option" where
  "http_get net url custom_headers data headonly =
     (case parse_url url of
        None \<Rightarrow> Some None
      | Some purl \<Rightarrow> do {
          http_headers \<leftarrow> get_request purl custom_headers data headonly;
          hresp \<leftarrow> http_req net http_headers purl;
          (case hresp of
             None \<Rightarrow> Some None
           | Some hresp \<Rightarrow> do {
               loc \<leftarrow> redirect_target hresp;
               (case loc of None \<Rightarrow> Some (Some hresp) | Some loc \<Rightarrow> http_get net loc custom_headers data headonly) }) })"

definition http_options :: "(string \<Rightarrow> u16 \<Rightarrow> string \<Rightarrow> string option) \<Rightarrow> string \<Rightarrow> http_response option option" where
  "http_options net url =
     (case parse_url url of
        None \<Rightarrow> Some None
      | Some purl \<Rightarrow> do { http_headers \<leftarrow> options_request purl; http_req net http_headers purl })"

end
