(* ===== verification/Webapi.thy ===== *)
theory Webapi imports
  Jwt Sql Hashtable Http
begin

text \<open>
  The web interface, src/webapi.c: the table of routes, one handler for every call, the reading of a request and the writing of the
  answer.  A handler returns \<open>None\<close> where the code reads through a null pointer, runs out of a buffer or does not return.
\<close>

section \<open>Requests and the server\<close>

datatype http_method = HTTP_GET | HTTP_POST | HTTP_PUT | HTTP_HEAD | HTTP_TRACE | HTTP_PATCH | HTTP_DELETE | HTTP_OPTIONS | HTTP_CONNECT

datatype http_status = HTTP_OK | HTTP_NOT_FOUND

record http_request =
  rq_uri :: string
  rq_data :: hashtable
  rq_querystring :: "hashtable option"
  rq_header :: hashtable
  rq_method :: http_method

text \<open>The variables of the process: those of the core, of the query language and \<open>run\<close> and \<open>client_requests\<close>.\<close>

record server =
  sv_core :: core
  sv_sql :: sql_state
  sv_run :: bool
  sv_requests :: u64

text \<open>
  What is outside of the source: the checksum of the files, the formats of time and size, the name of the host, the room that
  \<open>malloc\<close> gives; the variables the code does not initialise; and the depth up to which data is read.
\<close>

record host =
  ho_fuel :: nat
  ho_crc :: "content \<Rightarrow> u64"
  ho_fresh :: base
  ho_scratch :: scratch
  ho_schema :: schema
  ho_status :: record_status
  ho_iso :: "u64 \<Rightarrow> string"
  ho_datetime :: "int \<Rightarrow> string"
  ho_timename :: "u64 \<times> u64 \<Rightarrow> string"
  ho_alloc_size :: "core \<Rightarrow> string"
  ho_disk_size :: "core \<Rightarrow> string"
  ho_fqdn :: "string option"
  ho_memory :: nat

type_synonym reply = "string \<times> http_status \<times> server"

abbreviation (input) RESPONSE_SIZE :: nat where "RESPONSE_SIZE \<equiv> 512"
abbreviation (input) HTTP_HEADER_SIZE :: nat where "HTTP_HEADER_SIZE \<equiv> 10240"
abbreviation (input) HASHTABLE_DATA_SIZE :: int where "HASHTABLE_DATA_SIZE \<equiv> 10"
abbreviation (input) RLOGLINE_SIZE :: nat where "RLOGLINE_SIZE \<equiv> 256"

abbreviation (input) sv_base :: "server \<Rightarrow> base" where "sv_base v \<equiv> c_control (sv_core v)"
abbreviation (input) sv_ready :: "server \<Rightarrow> bool" where "sv_ready v \<equiv> c_ready (sv_core v)"

definition put_core :: "core \<Rightarrow> server \<Rightarrow> server" where
  "put_core c v = v\<lparr>sv_core := c\<rparr>"

definition put_base :: "base \<Rightarrow> server \<Rightarrow> server" where
  "put_base b v = v\<lparr>sv_core := (sv_core v)\<lparr>c_control := b\<rparr>\<rparr>"

section \<open>Texts\<close>

text \<open>\<open>snprintf\<close> and \<open>strlcpy\<close> into a buffer of \<open>sz\<close> bytes.\<close>

definition fit :: "nat \<Rightarrow> string \<Rightarrow> string" where
  "fit sz s = take (sz - 1) s"

text \<open>\<open>atoi\<close>; a number that an \<open>int\<close> cannot hold is undefined.\<close>

definition atoi_int :: "string \<Rightarrow> int option" where
  "atoi_int s = do { i \<leftarrow> atoll s; if - (2 ^ 31) \<le> i \<and> i < 2 ^ 31 then Some i else None }"

definition get_version_string :: string where
  "get_version_string = fit 16 (itoa 0 @ ''.'' @ itoa 9 @ ''.'' @ itoa 41)"

definition get_http_status :: "http_status \<Rightarrow> string" where
  "get_http_status status = fit 16 (case status of HTTP_OK \<Rightarrow> ''200 OK'' | HTTP_NOT_FOUND \<Rightarrow> ''404 Not Found'')"

text \<open>Members of the answers, each with its comma, and the end of every answer.\<close>

definition text_member :: "string \<Rightarrow> string \<Rightarrow> string" where
  "text_member name s = ''\"'' @ name @ ''\":\"'' @ s @ ''\",''"

definition raw_member :: "string \<Rightarrow> string \<Rightarrow> string" where
  "raw_member name s = ''\"'' @ name @ ''\":'' @ s @ '',''"

definition outcome :: "string \<Rightarrow> string \<Rightarrow> string \<Rightarrow> string" where
  "outcome members description status =
     ''{'' @ members @ text_member ''description'' description @ text_member ''status'' status
       @ ''\"success\":'' @ str_bool (status = ''SUCCEEDED'') @ ''}''"

definition succeeded :: "nat \<Rightarrow> string \<Rightarrow> string \<Rightarrow> server \<Rightarrow> reply option" where
  "succeeded resplen members description v = Some (fit resplen (outcome members description ''SUCCEEDED''), HTTP_OK, v)"

text \<open>The answer grows for data of more than half of its size.\<close>

definition reply_size :: "nat \<Rightarrow> nat" where
  "reply_size len = (if RESPONSE_SIZE div 2 < len then RESPONSE_SIZE + len else RESPONSE_SIZE)"

section \<open>Parameters and errors\<close>

definition get_param :: "http_request \<Rightarrow> string \<Rightarrow> string option option" where
  "get_param req param_name = do {
     param \<leftarrow> (case rq_querystring req of None \<Rightarrow> Some None | Some q \<Rightarrow> hashtable_get q param_name);
     if param \<noteq> None then Some param
     else if (rq_method req = HTTP_POST \<or> rq_method req = HTTP_PUT) \<and> 0 < ht_n (rq_data req)
     then hashtable_get (rq_data req) param_name
     else if 0 < ht_n (rq_header req) then hashtable_get (rq_header req) param_name
     else Some None }"

definition response_internal_error :: "server \<Rightarrow> reply" where
  "response_internal_error v =
     (let ecode = get_error_code (sv_base v)
      in (fit RESPONSE_SIZE (''{\"error\":{'' @ text_member ''code'' ecode
            @ text_member ''quid'' (get_instance_prefix_key (sv_base v) ecode)
            @ ''\"description\":\"'' @ pct_s (map_option snd (err (sv_base v))) @ ''\"},''
            @ tl (outcome [] ''An error occured'' ''INTERNAL_ERROR'')), HTTP_OK, v))"

definition response_empty_error :: "server \<Rightarrow> reply" where
  "response_empty_error v = (fit RESPONSE_SIZE (outcome [] ''Request expects data'' ''EMPTY_DATA''), HTTP_OK, v)"

definition api_not_found :: "server \<Rightarrow> reply" where
  "api_not_found v =
     (fit RESPONSE_SIZE (outcome [] ''API call does not exist, request 'help' for a list of API calls'' ''API_NOT_FOUND''), HTTP_NOT_FOUND, v)"

text \<open>\<open>if (iserror()) return response_internal_error(response);\<close>\<close>

definition checked :: "server \<Rightarrow> reply option \<Rightarrow> reply option" where
  "checked v r = (if iserror (sv_base v) then Some (response_internal_error v) else r)"

text \<open>A parameter that is expected to be the word \<open>true\<close>, or \<open>false\<close>.\<close>

definition is_word :: "string \<Rightarrow> string option \<Rightarrow> bool" where
  "is_word w p \<longleftrightarrow> p = Some w"

section \<open>The instance\<close>

definition api_root :: "server \<Rightarrow> reply option" where
  "api_root v =
     succeeded RESPONSE_SIZE
       (raw_member ''api_version'' (itoa 3)
        @ text_member ''db_version'' get_version_string
        @ ''\"instance\":{'' @ text_member ''name'' (get_instance_name (sv_core v))
        @ ''\"quid\":\"'' @ get_instance_key (sv_core v) @ ''\"},''
        @ ''\"session\":{\"quid\":\"'' @ get_session_key (sv_core v) @ ''\"},''
        @ text_member ''license'' ''BSD 3-clause''
        @ text_member ''active'' (str_bool (get_ready_status (sv_core v))))
       ''The server is ready to accept requests'' v"

text \<open>
  The clock is read for every time in the answer, from the last argument of \<open>snprintf\<close> to the first (C leaves the order open).
\<close>

definition api_variables :: "host \<Rightarrow> server \<Rightarrow> reply option" where
  "api_variables h v =
     (let (ts, b) = get_timestamp (sv_base v);
          htime = ho_datetime h ts;
          v = put_base b v
      in checked v
        (let hostname = ho_fqdn h;
             (now, b) = gettimeofday (sv_base v);
             ((sec, _), b) = gettimeofday b;
             (timestamp, b) = get_timestamp b;
             (uptime, c) = get_uptime (sv_core (put_base b v));
             v = put_core c v
         in succeeded (RESPONSE_SIZE * 2)
           (''\"server\":{'' @ text_member ''uptime'' uptime
            @ raw_member ''client_requests'' (itoa (uint (sv_requests v)))
            @ raw_member ''port'' (itoa 4017)
            @ ''\"host\":\"'' @ pct_s hostname @ ''\"},''
            @ ''\"pager\":{'' @ raw_member ''page_size'' (itoa (uint (get_pager_page_size c)))
            @ raw_member ''page_count'' (itoa (sint (get_pager_page_count c)))
            @ text_member ''allocated'' (ho_alloc_size h c)
            @ ''\"in_use\":\"'' @ ho_disk_size h c @ ''\"},''
            @ ''\"engine\":{'' @ raw_member ''records'' (itoa (uint (stat_getkeys c)))
            @ raw_member ''free'' (itoa (uint (stat_getfreekeys c)))
            @ raw_member ''blocks_free'' (itoa (uint (stat_getfreeblocks c)))
            @ raw_member ''groups'' (itoa (uint (stat_tablesize c)))
            @ raw_member ''indexes'' (itoa (uint (stat_indexsize c)))
            @ ''\"default_key\":\"'' @ get_instance_prefix_key (c_control c) ''000000000000'' @ ''\"},''
            @ ''\"date\":{'' @ raw_member ''timestamp'' (itoa timestamp)
            @ raw_member ''unixtime'' (itoa (sint sec))
            @ text_member ''datetime'' htime
            @ ''\"timename\":\"'' @ ho_timename h now @ ''\"},''
            @ ''\"version\":{'' @ raw_member ''major'' (itoa 0) @ raw_member ''minor'' (itoa 9)
            @ ''\"patch\":'' @ itoa 41 @ ''},'')
           ''Database statistics'' v))"

definition api_instance :: "http_request \<Rightarrow> server \<Rightarrow> reply option" where
  "api_instance req v = do {
     name \<leftarrow> get_param req ''name'';
     (case name of
        Some name \<Rightarrow>
          (let v = put_core (set_instance_name (sv_core v) name) v
           in checked v (succeeded RESPONSE_SIZE [] ''Instance name set'' v))
      | None \<Rightarrow> succeeded RESPONSE_SIZE
          (text_member ''name'' (get_instance_name (sv_core v)) @ text_member ''quid'' (get_instance_key (sv_core v)))
          ''Server instance name'' v) }"

definition api_vacuum :: "host \<Rightarrow> http_request \<Rightarrow> server \<Rightarrow> reply option" where
  "api_vacuum h req v = do {
     page_size \<leftarrow> get_param req ''page_size'';
     sz \<leftarrow> (case page_size of None \<Rightarrow> Some 0 | Some s \<Rightarrow> atoi_int s);
     (_, c) \<leftarrow> zvacuum (ho_fuel h) (ho_crc h) (ho_fresh h) (sv_core v) sz;
     let v = put_core c v;
     checked v (succeeded RESPONSE_SIZE [] ''Vacuum succeeded'' v) }"

definition api_sync :: "host \<Rightarrow> server \<Rightarrow> reply option" where
  "api_sync h v = do {
     c \<leftarrow> filesync (ho_crc h) (sv_core v);
     let v = put_core c v;
     checked v (succeeded RESPONSE_SIZE [] ''Block synchronization succeeded'' v) }"

definition api_shutdown :: "server \<Rightarrow> reply option" where
  "api_shutdown v = succeeded RESPONSE_SIZE [] ''Shutting down database'' (v\<lparr>sv_run := False\<rparr>)"

section \<open>Digests, codes, random values\<close>

text \<open>A call with one parameter, which the answer is computed from.\<close>

definition api_data :: "(string \<Rightarrow> string option) \<Rightarrow> string \<Rightarrow> string \<Rightarrow> http_request \<Rightarrow> server \<Rightarrow> reply option" where
  "api_data f name description req v = do {
     data \<leftarrow> get_param req ''data'';
     (case data of
        None \<Rightarrow> Some (response_empty_error v)
      | Some data \<Rightarrow> do {
          s \<leftarrow> f data;
          checked v (succeeded RESPONSE_SIZE (text_member name s) description v) }) }"

definition api_sha1 :: "host \<Rightarrow> http_request \<Rightarrow> server \<Rightarrow> reply option" where
  "api_sha1 h = api_data (crypto_sha1 (ho_scratch h)) ''hash'' ''Data hashed with SHA1''"

definition api_md5 :: "host \<Rightarrow> http_request \<Rightarrow> server \<Rightarrow> reply option" where
  "api_md5 h = api_data (\<lambda>s. Some (crypto_md5 (ho_scratch h) s)) ''hash'' ''Data hashed with MD5''"

definition api_sha256 :: "host \<Rightarrow> http_request \<Rightarrow> server \<Rightarrow> reply option" where
  "api_sha256 h = api_data (\<lambda>s. Some (crypto_sha256 (ho_scratch h) s)) ''hash'' ''Data hashed with SHA256''"

definition api_sha512 :: "host \<Rightarrow> http_request \<Rightarrow> server \<Rightarrow> reply option" where
  "api_sha512 h = api_data (\<lambda>s. Some (crypto_sha512 (ho_scratch h) s)) ''hmac'' ''Data hashed with SHA512''"

definition api_base64_enc :: "http_request \<Rightarrow> server \<Rightarrow> reply option" where
  "api_base64_enc = api_data crypto_base64_enc ''encode'' ''Data encoded with base64''"

definition api_base64_dec :: "http_request \<Rightarrow> server \<Rightarrow> reply option" where
  "api_base64_dec = api_data crypto_base64_dec ''encode'' ''Data encoded with base64''"

text \<open>The key is wiped in the table of the request, which is not read again.\<close>

definition api_hmac :: "(string \<Rightarrow> string \<Rightarrow> string) \<Rightarrow> string \<Rightarrow> http_request \<Rightarrow> server \<Rightarrow> reply option" where
  "api_hmac f name req v = do {
     data \<leftarrow> get_param req ''data'';
     key \<leftarrow> get_param req ''key'';
     (case (data, key) of
        (Some data, Some key) \<Rightarrow>
          checked v (succeeded RESPONSE_SIZE (text_member name (f key data)) ''Data signed with HMAC-SHA256'' v)
      | _ \<Rightarrow> Some (response_empty_error v)) }"

definition api_hmac_sha256 :: "host \<Rightarrow> http_request \<Rightarrow> server \<Rightarrow> reply option" where
  "api_hmac_sha256 h = api_hmac (crypto_hmac_sha256 (ho_scratch h)) ''hmac''"

definition api_hmac_sha512 :: "host \<Rightarrow> http_request \<Rightarrow> server \<Rightarrow> reply option" where
  "api_hmac_sha512 h = api_hmac (crypto_hmac_sha512 (ho_scratch h)) ''hash''"

definition api_gen_quid :: "http_request \<Rightarrow> server \<Rightarrow> reply option" where
  "api_gen_quid req v = do {
     param_short \<leftarrow> get_param req ''short'';
     (squid, c) \<leftarrow> (if is_word ''true'' param_short then Some (quid_generate_short (sv_core v)) else quid_generate (sv_core v));
     let v = put_core c v;
     checked v (succeeded RESPONSE_SIZE (text_member ''quid'' squid) ''New QUID generated'' v) }"

definition api_gen_rand :: "http_request \<Rightarrow> server \<Rightarrow> reply option" where
  "api_gen_rand req v = do {
     param_range \<leftarrow> get_param req ''range'';
     rng \<leftarrow> (case param_range of None \<Rightarrow> Some 0 | Some s \<Rightarrow> atoi_int s);
     let (number, c) = generate_random_number (sv_core v) rng;
     let v = put_core c v;
     checked v (succeeded RESPONSE_SIZE (raw_member ''number'' (itoa number)) ''Random number'' v) }"

text \<open>A query that cannot be cut into tokens has no result, and the null pointer is read.\<close>

definition api_sql_query :: "http_request \<Rightarrow> server \<Rightarrow> reply option" where
  "api_sql_query req v = do {
     query \<leftarrow> get_param req ''query'';
     (case query of
        None \<Rightarrow> Some (response_empty_error v)
      | Some query \<Rightarrow> do {
          (data, st) \<leftarrow> sql_exec query (sv_sql v);
          let v = v\<lparr>sv_sql := st\<rparr>;
          checked v (do {
            data \<leftarrow> data;
            if sr_quid data \<noteq> [] then
              succeeded RESPONSE_SIZE (text_member ''quid'' (sr_quid data) @ raw_member ''items'' (itoa (sr_items data)))
                ''Data stored in record'' v
            else (case sr_name data of
                Some name \<Rightarrow> succeeded RESPONSE_SIZE (text_member name (pct_s (sr_data data))) ''Query executed'' v
              | None \<Rightarrow> (case sr_data data of
                  Some d \<Rightarrow> succeeded RESPONSE_SIZE (raw_member ''data'' d) ''Retrieve record by requested key'' v
                | None \<Rightarrow> succeeded RESPONSE_SIZE [] ''Query executed'' v)) }) }) }"

section \<open>Records\<close>

text \<open>The calls about a record take its key from the data of the request, where the router puts it.\<close>

definition with_quid :: "http_request \<Rightarrow> server \<Rightarrow> (string \<Rightarrow> reply option) \<Rightarrow> reply option" where
  "with_quid req v f = do {
     quid \<leftarrow> hashtable_get (rq_data req) ''quid'';
     (case quid of None \<Rightarrow> Some (response_empty_error v) | Some quid \<Rightarrow> f quid) }"

definition got_items :: "int option \<Rightarrow> string" where
  "got_items items = raw_member ''items'' (itoa (case items of None \<Rightarrow> 0 | Some n \<Rightarrow> n))"

text \<open>A key that is not written is an array without initial value.\<close>

definition api_db_put :: "host \<Rightarrow> http_request \<Rightarrow> server \<Rightarrow> reply option" where
  "api_db_put h req v = do {
     hint \<leftarrow> get_param req ''hint'';
     options \<leftarrow> get_param req ''options'';
     data \<leftarrow> get_param req ''data'';
     (case data of
        None \<Rightarrow> Some (response_empty_error v)
      | Some data \<Rightarrow> do {
          ((_, squid, items), b) \<leftarrow> db_put (ho_fuel h) (sv_ready v) (sv_base v) data (length data) hint options;
          let v = put_base b v;
          checked v (do {
            squid \<leftarrow> squid;
            succeeded RESPONSE_SIZE (text_member ''quid'' squid @ got_items items) ''Data stored in record'' v }) }) }"

text \<open>The answer with data of any length; without data the null pointer is measured.\<close>

definition data_reply :: "string \<Rightarrow> string option \<Rightarrow> string \<Rightarrow> server \<Rightarrow> reply option" where
  "data_reply name data description v = do {
     data \<leftarrow> data;
     succeeded (reply_size (length data)) (raw_member name data) description v }"

definition api_db_get :: "host \<Rightarrow> http_request \<Rightarrow> server \<Rightarrow> reply option" where
  "api_db_get h req v = do {
     resolve \<leftarrow> get_param req ''resolve'';
     selector \<leftarrow> get_param req ''select'';
     force \<leftarrow> get_param req ''force'';
     wher \<leftarrow> get_param req ''where'';
     with_quid req v (\<lambda>quid. do {
       (data, b) \<leftarrow> (if selector \<noteq> None \<or> wher \<noteq> None
         then db_select (ho_fuel h) (sv_ready v) (sv_base v) quid selector wher
         else db_get (ho_fuel h) (sv_ready v) (sv_base v) quid (\<not> is_word ''false'' resolve) (is_word ''true'' force));
       let v = put_base b v;
       checked v (data_reply ''data'' data ''Retrieve record by requested key'' v) }) }"

definition api_db_get_type :: "http_request \<Rightarrow> server \<Rightarrow> reply option" where
  "api_db_get_type req v =
     with_quid req v (\<lambda>quid. do {
       (type, b) \<leftarrow> db_get_type (sv_ready v) (sv_base v) quid;
       let v = put_base b v;
       checked v (succeeded RESPONSE_SIZE (text_member ''datatype'' (pct_s type)) ''Datatype of record value'' v) })"

definition api_db_get_schema :: "http_request \<Rightarrow> server \<Rightarrow> reply option" where
  "api_db_get_schema req v =
     with_quid req v (\<lambda>quid. do {
       (schema, b) \<leftarrow> db_get_schema (sv_ready v) (sv_base v) quid;
       let v = put_base b v;
       checked v (succeeded RESPONSE_SIZE (text_member ''dataschema'' (pct_s schema)) ''Datatype of record value'' v) })"

definition api_db_get_history :: "http_request \<Rightarrow> server \<Rightarrow> reply option" where
  "api_db_get_history req v =
     with_quid req v (\<lambda>quid. do {
       (history, b) \<leftarrow> db_get_history (sv_ready v) (sv_base v) quid;
       let v = put_base b v;
       checked v (succeeded RESPONSE_SIZE (raw_member ''history_versions'' (pct_s history)) ''Record history'' v) })"

definition api_db_get_version :: "host \<Rightarrow> http_request \<Rightarrow> server \<Rightarrow> reply option" where
  "api_db_get_version h req v =
     with_quid req v (\<lambda>quid. do {
       (data, b) \<leftarrow> db_get_version (ho_fuel h) (sv_ready v) (sv_base v) quid (rq_uri req);
       let v = put_base b v;
       checked v (data_reply ''data'' data ''Retrieve historic record by version key'' v) })"

definition api_db_delete :: "host \<Rightarrow> http_request \<Rightarrow> server \<Rightarrow> reply option" where
  "api_db_delete h req v = do {
     nocascade \<leftarrow> get_param req ''nocascade'';
     with_quid req v (\<lambda>quid. do {
       (_, b) \<leftarrow> db_delete (ho_fuel h) (sv_ready v) (sv_base v) quid (\<not> is_word ''true'' nocascade);
       let v = put_base b v;
       checked v (succeeded RESPONSE_SIZE [] ''Record deleted'' v) }) }"

definition api_db_purge :: "host \<Rightarrow> http_request \<Rightarrow> server \<Rightarrow> reply option" where
  "api_db_purge h req v = do {
     nocascade \<leftarrow> get_param req ''nocascade'';
     with_quid req v (\<lambda>quid. do {
       (_, b) \<leftarrow> db_purge (ho_fuel h) (sv_ready v) (sv_base v) quid (\<not> is_word ''true'' nocascade);
       let v = put_base b v;
       checked v (succeeded RESPONSE_SIZE [] ''Record purged'' v) }) }"

definition api_db_count :: "host \<Rightarrow> http_request \<Rightarrow> server \<Rightarrow> reply option" where
  "api_db_count h req v =
     with_quid req v (\<lambda>quid. do {
       (elements, b) \<leftarrow> db_count_group (ho_fuel h) (sv_ready v) (sv_base v) quid;
       let v = put_base b v;
       checked v (succeeded RESPONSE_SIZE (got_items (Some elements)) ''Show number of items in group'' v) })"

text \<open>The calls that take data beside the key.\<close>

definition with_data :: "http_request \<Rightarrow> server \<Rightarrow> (string \<Rightarrow> string \<Rightarrow> reply option) \<Rightarrow> reply option" where
  "with_data req v f = do {
     data \<leftarrow> get_param req ''data'';
     with_quid req v (\<lambda>quid. case data of None \<Rightarrow> Some (response_empty_error v) | Some data \<Rightarrow> f quid data) }"

definition api_db_update :: "host \<Rightarrow> http_request \<Rightarrow> server \<Rightarrow> reply option" where
  "api_db_update h req v = do {
     nocascade \<leftarrow> get_param req ''nocascade'';
     with_data req v (\<lambda>quid data. do {
       ((_, items), b) \<leftarrow> db_update (ho_fuel h) (sv_ready v) (sv_base v) quid (\<not> is_word ''true'' nocascade) data (length data);
       let v = put_base b v;
       checked v (succeeded RESPONSE_SIZE (got_items items) ''Record updated'' v) }) }"

definition api_db_duplicate :: "host \<Rightarrow> http_request \<Rightarrow> server \<Rightarrow> reply option" where
  "api_db_duplicate h req v = do {
     nometa \<leftarrow> get_param req ''nometa'';
     with_quid req v (\<lambda>quid. do {
       ((_, squid, items), b) \<leftarrow> db_duplicate (ho_fuel h) (sv_ready v) (sv_base v) quid (\<not> is_word ''true'' nometa);
       let v = put_base b v;
       checked v (do {
         squid \<leftarrow> squid;
         succeeded RESPONSE_SIZE (text_member ''quid'' squid @ got_items items) ''Record duplicated'' v }) }) }"

definition api_db_item_add :: "host \<Rightarrow> http_request \<Rightarrow> server \<Rightarrow> reply option" where
  "api_db_item_add h req v =
     with_data req v (\<lambda>quid data. do {
       ((_, items), b) \<leftarrow> db_item_add (ho_fuel h) (sv_ready v) (sv_base v) (ho_schema h) quid data (length data);
       let v = put_base b v;
       checked v (succeeded RESPONSE_SIZE (got_items items) ''Items added to group'' v) })"

definition api_db_item_remove :: "host \<Rightarrow> http_request \<Rightarrow> server \<Rightarrow> reply option" where
  "api_db_item_remove h req v =
     with_data req v (\<lambda>quid data. do {
       ((_, items), b) \<leftarrow> db_item_remove (ho_fuel h) (sv_ready v) (sv_base v) quid data (length data);
       let v = put_base b v;
       checked v (succeeded RESPONSE_SIZE (got_items items) ''Items removed from group'' v) })"

section \<open>Meta data, aliases, indexes, pages\<close>

text \<open>A status is changed by the parameters that are given.\<close>

definition given :: "string option \<Rightarrow> (int \<Rightarrow> record_status \<Rightarrow> record_status) \<Rightarrow> record_status \<Rightarrow> record_status option" where
  "given p f status = (case p of None \<Rightarrow> Some status | Some s \<Rightarrow> do { i \<leftarrow> atoi_int s; Some (f i status) })"

definition show_status :: "record_status \<Rightarrow> string" where
  "show_status status =
     ''\"metadata\":{'' @ raw_member ''nodata'' (str_bool (st_nodata status)) @ raw_member ''freeze'' (str_bool (st_freeze status))
     @ raw_member ''executable'' (str_bool (st_exec status)) @ raw_member ''system_lock'' (str_bool (st_syslock status))
     @ text_member ''lifecycle'' (buffer_string (st_lifecycle status)) @ raw_member ''importance'' (itoa (st_importance status))
     @ text_member ''type'' (buffer_string (st_type status))
     @ ''\"alias\":'' @ (if st_has_alias status then ''\"'' @ buffer_string (st_alias status) @ ''\"'' else ''null'') @ ''},''"

definition api_db_get_meta :: "host \<Rightarrow> http_request \<Rightarrow> server \<Rightarrow> reply option" where
  "api_db_get_meta h req v = do {
     executable \<leftarrow> get_param req ''executable'';
     freeze \<leftarrow> get_param req ''freeze'';
     importance \<leftarrow> get_param req ''importance'';
     lifecycle \<leftarrow> get_param req ''lifecycle'';
     system_lock \<leftarrow> get_param req ''system_lock'';
     force \<leftarrow> get_param req ''force'';
     with_quid req v (\<lambda>quid.
       if executable \<noteq> None \<or> freeze \<noteq> None \<or> importance \<noteq> None \<or> lifecycle \<noteq> None \<or> system_lock \<noteq> None then do {
         ((_, status), b) \<leftarrow> db_record_get_meta (sv_ready v) (sv_base v) quid False (ho_status h);
         let v = put_base b v;
         checked v (do {
           status \<leftarrow> given executable (\<lambda>i s. s\<lparr>st_exec := i \<noteq> 0\<rparr>) status;
           status \<leftarrow> given freeze (\<lambda>i s. s\<lparr>st_freeze := i \<noteq> 0\<rparr>) status;
           status \<leftarrow> given importance (\<lambda>i s. s\<lparr>st_importance := i\<rparr>) status;
           let status = (case lifecycle of None \<Rightarrow> status
             | Some s \<Rightarrow> status\<lparr>st_lifecycle := fst (strlcpy (st_lifecycle status) s STATUS_LIFECYCLE_SIZE)\<rparr>);
           status \<leftarrow> given system_lock (\<lambda>i s. s\<lparr>st_syslock := i \<noteq> 0\<rparr>) status;
           (_, b) \<leftarrow> db_record_set_meta (sv_ready v) (sv_base v) quid status;
           let v = put_base b v;
           checked v (succeeded RESPONSE_SIZE [] ''Record updated'' v) }) }
       else do {
         ((_, status), b) \<leftarrow> db_record_get_meta (sv_ready v) (sv_base v) quid (is_word ''true'' force) (ho_status h);
         let v = put_base b v;
         checked v (succeeded RESPONSE_SIZE (show_status status) ''Record metadata queried'' v) }) }"

definition api_db_decode :: "host \<Rightarrow> http_request \<Rightarrow> server \<Rightarrow> reply option" where
  "api_db_decode h req v =
     with_quid req v (\<lambda>quid. do {
       (data, c) \<leftarrow> key_decode (ho_iso h) (sv_core v) quid;
       let v = put_core c v;
       checked v (succeeded RESPONSE_SIZE (raw_member ''data'' (pct_s data)) ''Record decoded'' v) })"

definition api_alias_name :: "http_request \<Rightarrow> server \<Rightarrow> reply option" where
  "api_alias_name req v = do {
     name \<leftarrow> get_param req ''name'';
     with_quid req v (\<lambda>quid.
       case name of
         Some name \<Rightarrow> do {
           (_, b) \<leftarrow> db_alias_update (sv_ready v) (sv_base v) quid name;
           let v = put_base b v;
           checked v (succeeded RESPONSE_SIZE [] ''Alias set'' v) }
       | None \<Rightarrow> do {
           (current_name, b) \<leftarrow> db_alias_get_name (sv_ready v) (sv_base v) quid;
           let v = put_base b v;
           checked v (succeeded RESPONSE_SIZE (text_member ''name'' (pct_s current_name)) ''Get in list'' v) }) }"

definition api_alias_get :: "host \<Rightarrow> http_request \<Rightarrow> server \<Rightarrow> reply option" where
  "api_alias_get h req v = do {
     resolve \<leftarrow> get_param req ''resolve'';
     (data, b) \<leftarrow> db_alias_get_data (ho_fuel h) (sv_ready v) (sv_base v) (rq_uri req) (\<not> is_word ''false'' resolve);
     let v = put_base b v;
     checked v (succeeded (reply_size (case data of None \<Rightarrow> 0 | Some d \<Rightarrow> length d)) (raw_member ''data'' (pct_s data))
       ''Retrieve record by requested key'' v) }"

text \<open>A list that is missing is shown as \<open>null\<close>.\<close>

definition list_reply :: "string \<Rightarrow> string option \<Rightarrow> string \<Rightarrow> server \<Rightarrow> reply option" where
  "list_reply name data description v =
     checked v (data_reply name (Some (case data of None \<Rightarrow> ''null'' | Some s \<Rightarrow> s)) description v)"

definition api_alias_all :: "server \<Rightarrow> reply option" where
  "api_alias_all v = do {
     data \<leftarrow> db_alias_all (sv_ready v) (sv_base v);
     list_reply ''aliasses'' data ''Listening aliasses'' v }"

definition api_index_all :: "server \<Rightarrow> reply option" where
  "api_index_all v = do {
     (data, b) \<leftarrow> db_index_all (sv_ready v) (sv_base v);
     list_reply ''indexes'' data ''Listening indexes'' (put_base b v) }"

definition api_page_all :: "server \<Rightarrow> reply option" where
  "api_page_all v = do {
     data \<leftarrow> db_pager_all (sv_ready v) (sv_base v);
     list_reply ''pages'' data ''Listening pages'' v }"

definition api_index_group :: "host \<Rightarrow> http_request \<Rightarrow> server \<Rightarrow> reply option" where
  "api_index_group h req v = do {
     element \<leftarrow> get_param req ''element'';
     with_quid req v (\<lambda>quid.
       case element of
         Some element \<Rightarrow> do {
           ((_, squid, items), b) \<leftarrow> db_index_create (ho_fuel h) (sv_ready v) (sv_base v) quid element;
           let v = put_base b v;
           checked v (do {
             squid \<leftarrow> squid;
             succeeded RESPONSE_SIZE (text_member ''quid'' squid @ got_items items) ''Index created'' v }) }
       | None \<Rightarrow> do {
           (indexes, b) \<leftarrow> db_index_on_group (sv_ready v) (sv_base v) quid;
           let v = put_base b v;
           checked v (succeeded RESPONSE_SIZE (raw_member ''name'' (pct_s indexes)) ''Listening indexes on group'' v) }) }"

definition api_index_rebuild :: "host \<Rightarrow> http_request \<Rightarrow> server \<Rightarrow> reply option" where
  "api_index_rebuild h req v =
     with_quid req v (\<lambda>quid. do {
       ((_, items), b) \<leftarrow> db_index_rebuild (ho_fuel h) (sv_base v) quid;
       let v = put_base b v;
       checked v (succeeded RESPONSE_SIZE (got_items items) ''Index rebuild'' v) })"

definition api_auth_token :: "host \<Rightarrow> http_request \<Rightarrow> server \<Rightarrow> reply option" where
  "api_auth_token h req v = do {
     key \<leftarrow> get_param req ''key'';
     (case key of
        None \<Rightarrow> Some (response_empty_error v)
      | Some key \<Rightarrow> do {
          (token, c) \<leftarrow> auth_token (ho_scratch h) (sv_core v) key;
          let v = put_core c v;
          checked v (succeeded (reply_size (length token)) (text_member ''token'' token) ''Request token'' v) }) }"

section \<open>Routes\<close>

text \<open>The handlers the table points to.\<close>

datatype api_call =
  Api_root | Api_sync | Api_vacuum | Api_instance | Api_shutdown | Api_variables | Api_help | Api_page_all
  | Api_sha1 | Api_md5 | Api_sha256 | Api_sha512 | Api_gen_quid | Api_gen_rand | Api_base64_enc | Api_base64_dec
  | Api_hmac_sha256 | Api_hmac_sha512 | Api_sql_query | Api_db_put | Api_db_get | Api_db_count | Api_db_update
  | Api_db_duplicate | Api_db_delete | Api_db_purge | Api_db_get_meta | Api_db_decode | Api_db_get_type
  | Api_db_get_schema | Api_db_get_history | Api_db_get_version | Api_db_item_add | Api_db_item_remove
  | Api_alias_get | Api_alias_all | Api_alias_name | Api_index_group | Api_index_rebuild | Api_index_all
  | Api_auth_token

record webroute =
  ro_uri :: string
  ro_handler :: api_call
  ro_require_quid :: bool
  ro_description :: string

definition route_row :: "string \<Rightarrow> api_call \<Rightarrow> bool \<Rightarrow> string \<Rightarrow> webroute" where
  "route_row uri handler require_quid description =
     \<lparr>ro_uri = uri, ro_handler = handler, ro_require_quid = require_quid, ro_description = description\<rparr>"

definition route :: "webroute list" where
  "route =
    [route_row ''/'' Api_root False ''WebAPI endpoint'',
     route_row ''/sync'' Api_sync False ''Flush datastorage to disk'',
     route_row ''/vacuum'' Api_vacuum False ''Vacuum the datastorage'',
     route_row ''/instance'' Api_instance False ''Get/set daemon instance name'',
     route_row ''/shutdown'' Api_shutdown False ''Shutting down the daemon'',
     route_row ''/vars'' Api_variables False ''List current config and settings'',
     route_row ''/help'' Api_help False ''Show all API calls'',
     route_row ''/pager'' Api_page_all False ''Show all storage pages'',
     route_row ''/sha1'' Api_sha1 False ''SHA1 hash function'',
     route_row ''/md5'' Api_md5 False ''MD5 hash function'',
     route_row ''/sha256'' Api_sha256 False ''SHA256 hash function'',
     route_row ''/sha512'' Api_sha512 False ''SHA512 hash function'',
     route_row ''/quid'' Api_gen_quid False ''Generate random QUID'',
     route_row ''/random'' Api_gen_rand False ''Generate random number'',
     route_row ''/base64/enc'' Api_base64_enc False ''Base64 encode function'',
     route_row ''/base64/dec'' Api_base64_dec False ''Base64 decode function'',
     route_row ''/hmac/sha256'' Api_hmac_sha256 False ''Generate HMAC-SHA256 signature'',
     route_row ''/hmac/sha512'' Api_hmac_sha512 False ''Generate HMAC-SHA512 signature'',
     route_row ''/sql'' Api_sql_query False ''SQL interface endpoint'',
     route_row ''/put'' Api_db_put False ''Insert new dataset'',
     route_row ''/store'' Api_db_put False ''Insert new dataset'',
     route_row ''/insert'' Api_db_put False ''Insert new dataset'',
     route_row ''/get'' Api_db_get True ''Retrieve dataset by key'',
     route_row ''/retrieve'' Api_db_get True ''Retrieve dataset by key'',
     route_row ''/count'' Api_db_count True ''Count items in group'',
     route_row ''/update'' Api_db_update True ''Update dataset by key'',
     route_row ''/duplicate'' Api_db_duplicate True ''Duplicate record into new record'',
     route_row ''/copy'' Api_db_duplicate True ''Duplicate record into new record'',
     route_row ''/delete'' Api_db_delete True ''Delete dataset by key'',
     route_row ''/remove'' Api_db_delete True ''Delete dataset by key'',
     route_row ''/purge'' Api_db_purge True ''Purge dataset and key'',
     route_row ''/meta'' Api_db_get_meta True ''Get/set metadata on key'',
     route_row ''/decode'' Api_db_decode True ''Decode QUID'',
     route_row ''/type'' Api_db_get_type True ''Show datatype'',
     route_row ''/schema'' Api_db_get_schema True ''Show data schema'',
     route_row ''/history'' Api_db_get_history True ''Show record history'',
     route_row ''/history/*'' Api_db_get_version True ''Show record history'',
     route_row ''/attach'' Api_db_item_add True ''Bind item to group'',
     route_row ''/detach'' Api_db_item_remove True ''Remove item from group'',
     route_row ''/alias/*'' Api_alias_get False ''Get dataset by alias name'',
     route_row ''/alias'' Api_alias_all False ''Show all aliasses and origins'',
     route_row ''/alias'' Api_alias_name True ''Show or set alias name by key'',
     route_row ''/index'' Api_index_group True ''Show or set index on element'',
     route_row ''/rebuild'' Api_index_rebuild True ''Rebuild the index'',
     route_row ''/index'' Api_index_all False ''Show all indexes and groups'',
     route_row ''/auth/token'' Api_auth_token False ''Aquire authentication token'']"

definition help_object :: marshall where
  "help_object =
     (let nsz = length route
      in Marshall None 0 None 0
        (map (\<lambda>r. Some (Marshall (Some (ro_uri r)) (length (ro_uri r)) (Some (ro_description r)) (length (ro_description r)) [] 0
             MTYPE_STRING)) route
         @ drop nsz (calloc_children nsz)) nsz MTYPE_OBJECT)"

definition api_help :: "server \<Rightarrow> reply option" where
  "api_help v = do {
     data \<leftarrow> marshall_serialize help_object;
     data_reply ''api'' (Some data) ''Available API calls'' v }"

definition api_handler :: "host \<Rightarrow> api_call \<Rightarrow> http_request \<Rightarrow> server \<Rightarrow> reply option" where
  "api_handler h call req v =
     (case call of
        Api_root \<Rightarrow> api_root v
      | Api_sync \<Rightarrow> api_sync h v
      | Api_vacuum \<Rightarrow> api_vacuum h req v
      | Api_instance \<Rightarrow> api_instance req v
      | Api_shutdown \<Rightarrow> api_shutdown v
      | Api_variables \<Rightarrow> api_variables h v
      | Api_help \<Rightarrow> api_help v
      | Api_page_all \<Rightarrow> api_page_all v
      | Api_sha1 \<Rightarrow> api_sha1 h req v
      | Api_md5 \<Rightarrow> api_md5 h req v
      | Api_sha256 \<Rightarrow> api_sha256 h req v
      | Api_sha512 \<Rightarrow> api_sha512 h req v
      | Api_gen_quid \<Rightarrow> api_gen_quid req v
      | Api_gen_rand \<Rightarrow> api_gen_rand req v
      | Api_base64_enc \<Rightarrow> api_base64_enc req v
      | Api_base64_dec \<Rightarrow> api_base64_dec req v
      | Api_hmac_sha256 \<Rightarrow> api_hmac_sha256 h req v
      | Api_hmac_sha512 \<Rightarrow> api_hmac_sha512 h req v
      | Api_sql_query \<Rightarrow> api_sql_query req v
      | Api_db_put \<Rightarrow> api_db_put h req v
      | Api_db_get \<Rightarrow> api_db_get h req v
      | Api_db_count \<Rightarrow> api_db_count h req v
      | Api_db_update \<Rightarrow> api_db_update h req v
      | Api_db_duplicate \<Rightarrow> api_db_duplicate h req v
      | Api_db_delete \<Rightarrow> api_db_delete h req v
      | Api_db_purge \<Rightarrow> api_db_purge h req v
      | Api_db_get_meta \<Rightarrow> api_db_get_meta h req v
      | Api_db_decode \<Rightarrow> api_db_decode h req v
      | Api_db_get_type \<Rightarrow> api_db_get_type req v
      | Api_db_get_schema \<Rightarrow> api_db_get_schema req v
      | Api_db_get_history \<Rightarrow> api_db_get_history req v
      | Api_db_get_version \<Rightarrow> api_db_get_version h req v
      | Api_db_item_add \<Rightarrow> api_db_item_add h req v
      | Api_db_item_remove \<Rightarrow> api_db_item_remove h req v
      | Api_alias_get \<Rightarrow> api_alias_get h req v
      | Api_alias_all \<Rightarrow> api_alias_all v
      | Api_alias_name \<Rightarrow> api_alias_name req v
      | Api_index_group \<Rightarrow> api_index_group h req v
      | Api_index_rebuild \<Rightarrow> api_index_rebuild h req v
      | Api_index_all \<Rightarrow> api_index_all v
      | Api_auth_token \<Rightarrow> api_auth_token h req v)"

text \<open>
  The key at the beginning of a path, with braces (38 characters) or without (36), and the rest of the path.  \<open>fsz\<close> is the length of
  the path before a slash at its end is cut off.
\<close>

definition quid_of_path :: "nat \<Rightarrow> string \<Rightarrow> (string \<times> string) option" where
  "quid_of_path fsz path =
     (let squid = take QUID_LENGTH (drop 1 path)
      in if fsz < QUID_LENGTH + 1 then None
         else if char_at path (QUID_LENGTH + 1) = CHR ''/'' then Some (squid, drop (QUID_LENGTH + 1) path)
         else if char_at path (QUID_LENGTH - 1) = CHR ''/'' then Some (take (QUID_LENGTH - 2) squid, drop (QUID_LENGTH - 1) path)
         else None)"

text \<open>Comparing a path with a route that may end in a star: what is left for the handler.\<close>

definition match_uri :: "string \<Rightarrow> string \<Rightarrow> string option" where
  "match_uri uri path =
     (if CHR ''*'' \<in> set uri
      then (let stem = takeWhile (\<lambda>c. c \<noteq> CHR ''*'') uri
        in if take (length stem) path = stem then Some (drop (length stem) path) else None)
      else if uri = path then Some path else None)"

definition match_route :: "nat \<Rightarrow> string \<Rightarrow> webroute \<Rightarrow> (string option \<times> string) option" where
  "match_route fsz path r =
     (if ro_require_quid r then do {
        (squid, p) \<leftarrow> quid_of_path fsz path;
        uri \<leftarrow> match_uri (ro_uri r) p;
        Some (Some squid, uri) }
      else do {
        uri \<leftarrow> match_uri (ro_uri r) path;
        Some (None, uri) })"

fun find_route :: "nat \<Rightarrow> string \<Rightarrow> webroute list \<Rightarrow> (api_call \<times> string option \<times> string) option" where
  "find_route fsz path [] = None"
| "find_route fsz path (r # rs) =
     (case match_route fsz path r of
        None \<Rightarrow> find_route fsz path rs
      | Some t \<Rightarrow> Some (ro_handler r, t))"

text \<open>The table is searched from its end.\<close>

definition dispatch :: "host \<Rightarrow> nat \<Rightarrow> string \<Rightarrow> http_request \<Rightarrow> server \<Rightarrow> (reply \<times> http_request) option" where
  "dispatch h fsz path req v =
     (case find_route fsz path (rev route) of
        None \<Rightarrow> Some (api_not_found v, req)
      | Some (call, squid, uri) \<Rightarrow> do {
          data \<leftarrow> (case squid of None \<Rightarrow> Some (rq_data req) | Some squid \<Rightarrow> hashtable_put (rq_data req) ''quid'' squid);
          let req = req\<lparr>rq_data := data, rq_uri := uri\<rparr>;
          r \<leftarrow> api_handler h call req v;
          Some (r, req) })"

section \<open>Reading a request\<close>

text \<open>\<open>fgets\<close> with room for \<open>n\<close> characters: the line and the rest of the stream.\<close>

fun fgets :: "nat \<Rightarrow> string \<Rightarrow> string \<times> string" where
  "fgets 0 s = ([], s)"
| "fgets (Suc n) [] = ([], [])"
| "fgets (Suc n) (c # s) = (if c = LF then ([c], s) else (let (line, r) = fgets n s in (c # line, r)))"

lemma fgets_append: "fst (fgets n s) @ snd (fgets n s) = s"
  by (induction n s rule: fgets.induct) (auto split: prod.splits)

lemma fgets_shorter: "0 < n \<Longrightarrow> s \<noteq> [] \<Longrightarrow> length (snd (fgets n s)) < length s"
proof -
  assume "0 < n" "s \<noteq> []"
  then have "fst (fgets n s) \<noteq> []" by (cases n; cases s) (auto split: prod.splits)
  then show ?thesis using arg_cong[OF fgets_append, of length n s] by (cases "fst (fgets n s)") simp_all
qed

text \<open>
  The lines up to the empty one and the rest of the stream; a line that does not end in its buffer is refused, and at the end of the
  stream the connection is closed.
\<close>

datatype read_head = Head_lines "string list" string | Bad_line | Closed

function read_lines :: "string \<Rightarrow> read_head" where
  "read_lines s =
     (if s = [] then Closed
      else (let (line, r) = fgets (HTTP_HEADER_SIZE - 3) s; buf = takeWhile (\<lambda>c. c \<noteq> NUL) line
        in if buf = [CR, LF] \<or> buf = [LF] then Head_lines [] r
           else if LF \<notin> set buf then Bad_line
           else (case read_lines r of Head_lines ls r' \<Rightarrow> Head_lines (buf # ls) r' | x \<Rightarrow> x)))"
  by auto
termination
proof (relation "measure length", goal_cases)
  case (2 s x line r buf)
  have "(line, r) = fgets (HTTP_HEADER_SIZE - 3) s" using 2(2,3) by (simp only:)
  then have "r = snd (fgets (HTTP_HEADER_SIZE - 3) s)" by (metis snd_conv)
  moreover have "0 < (HTTP_HEADER_SIZE - 3 :: nat)" by simp
  ultimately show ?case using fgets_shorter 2(1) by (simp only: in_measure)
qed simp

declare read_lines.simps [simp del]

record head =
  hd_method :: "http_method option"
  hd_filename :: "string option"
  hd_query :: "string option"
  hd_version :: "string option"
  hd_length :: u64
  hd_uagent :: "string option"
  hd_referer :: "string option"
  hd_connection :: "string option"
  hd_table :: hashtable

definition head_init :: head where
  "head_init = \<lparr>hd_method = None, hd_filename = None, hd_query = None, hd_version = None, hd_length = 0,
     hd_uagent = None, hd_referer = None, hd_connection = None, hd_table = alloc_hashtable HASHTABLE_DATA_SIZE\<rparr>"

text \<open>The method of the request line and the width of its word; or the refusal.\<close>

definition starts :: "string \<Rightarrow> string \<Rightarrow> bool" where
  "starts pat s \<longleftrightarrow> take (length pat) s = pat"

definition request_method :: "string \<Rightarrow> string + (http_method \<times> nat)" where
  "request_method str =
     (if starts ''GET '' str then Inr (HTTP_GET, 4)
      else if starts ''POST '' str then Inr (HTTP_POST, 5)
      else if starts ''PUT '' str then Inr (HTTP_PUT, 4)
      else if starts ''HEAD '' str then Inr (HTTP_HEAD, 5)
      else if starts ''DELETE '' str then Inr (HTTP_DELETE, 7)
      else if starts ''OPTIONS '' str then Inr (HTTP_OPTIONS, 8)
      else if starts ''CONNECT '' str then Inl ''400 Bad Request''
      else Inl ''405 Method Not Allowed'')"

text \<open>
  The request line.  The character before \<open>HTTP/\<close> is overwritten; where the file name is missing that is the blank after the method,
  and the version is taken for the name.
\<close>

definition request_line :: "string \<Rightarrow> head \<Rightarrow> string + head" where
  "request_line str hdr = (case request_method str of
      Inl status \<Rightarrow> Inl status
    | Inr (method, width) \<Rightarrow>
        (let filename = drop width str
         in if char_at filename 0 \<in> {CHR '' '', CR, LF} then Inl ''400 Bad Request''
            else (case strstr ''HTTP/'' filename of
                None \<Rightarrow> Inl ''400 Bad Request''
              | Some http \<Rightarrow>
                  (let version = text_before [LF] (text_before [CR, LF] http);
                       pos = length filename - length http;
                       filename = (if pos = 0 then version else take (pos - 1) filename);
                       version = (if pos = 0 then text_before ''?'' version else version)
                   in Inr (hdr\<lparr>hd_method := Some method, hd_filename := Some (text_before ''?'' filename),
                        hd_query := map_option tl (strstr ''?'' filename), hd_version := Some version\<rparr>)))))"

text \<open>A line of the header, which contains a colon: its name and its value, both in small letters.\<close>

definition header_line :: "string \<Rightarrow> head \<Rightarrow> head option" where
  "header_line str hdr =
     (let name = fst (strtolower (takeWhile (\<lambda>c. c \<noteq> CHR '':'') str));
          colon = tl (dropWhile (\<lambda>c. c \<noteq> CHR '':'') str);
          colon = (if char_at colon 0 = CHR '' '' then tl colon else colon);
          colon = (if CR \<in> set colon then takeWhile (\<lambda>c. c \<noteq> CR) colon else takeWhile (\<lambda>c. c \<noteq> LF) colon);
          colon = fst (strtolower colon)
      in if name = ''host'' then Some hdr
         else if name = ''content-length'' then do { len \<leftarrow> atoll colon; Some (hdr\<lparr>hd_length := word_of_int len\<rparr>) }
         else if name = ''user-agent'' then Some (hdr\<lparr>hd_uagent := Some colon\<rparr>)
         else if name = ''referer'' then Some (hdr\<lparr>hd_referer := Some colon\<rparr>)
         else if name = ''connection'' then Some (hdr\<lparr>hd_connection := Some colon\<rparr>)
         else if name \<noteq> ''accept'' then do { t \<leftarrow> hashtable_put (hd_table hdr) name colon; Some (hdr\<lparr>hd_table := t\<rparr>) }
         else Some hdr)"

fun header_lines :: "string list \<Rightarrow> head \<Rightarrow> (string + head) option" where
  "header_lines [] hdr = Some (Inr hdr)"
| "header_lines (str # ls) hdr =
     (if CHR '':'' \<notin> set str then Some (Inl ''400 Bad Request'')
      else do { hdr \<leftarrow> header_line str hdr; header_lines ls hdr })"

text \<open>A colon in the request line is refused, too.\<close>

definition parse_head :: "string list \<Rightarrow> (string + head) option" where
  "parse_head lines =
     (case lines of
        [] \<Rightarrow> Some (Inr head_init)
      | str # ls \<Rightarrow>
          (if CHR '':'' \<in> set str then Some (Inl ''400 Bad Request'')
           else (case request_line str head_init of Inl status \<Rightarrow> Some (Inl status) | Inr hdr \<Rightarrow> header_lines ls hdr)))"

text \<open>
  The line for the log.  Every \<open>snprintf\<close> is given the size of the whole array though it starts behind the text that is there already:
  a line that does not fit overwrites what lies behind the array.
\<close>

definition method_name :: "http_method option \<Rightarrow> string" where
  "method_name m = (case m of None \<Rightarrow> ''UNKNOWN'' | Some m \<Rightarrow> (case m of
     HTTP_GET \<Rightarrow> ''GET'' | HTTP_POST \<Rightarrow> ''POST'' | HTTP_PUT \<Rightarrow> ''PUT'' | HTTP_HEAD \<Rightarrow> ''HEAD'' | HTTP_TRACE \<Rightarrow> ''TRACE''
   | HTTP_PATCH \<Rightarrow> ''PATCH'' | HTTP_DELETE \<Rightarrow> ''DELETE'' | HTTP_OPTIONS \<Rightarrow> ''OPTIONS'' | HTTP_CONNECT \<Rightarrow> ''CONNECT''))"

definition log_add :: "string \<Rightarrow> string \<Rightarrow> string option" where
  "log_add s line = do {
     let s = fit RLOGLINE_SIZE s;
     zassert (length line + length s + 1 \<le> RLOGLINE_SIZE);
     Some (line @ s) }"

definition log_request :: "string \<Rightarrow> head \<Rightarrow> string option" where
  "log_request str_addr hdr = do {
     let line = fit RLOGLINE_SIZE (''[info] '' @ str_addr @ '' - '');
     let line = fit RLOGLINE_SIZE (line @ method_name (hd_method hdr));
     line \<leftarrow> log_add ('' '' @ pct_s (hd_version hdr) @ '' - '') line;
     line \<leftarrow> (case hd_query hdr of
         Some q \<Rightarrow> log_add (''\"'' @ pct_s (hd_filename hdr) @ ''?'' @ q @ ''\"'') line
       | None \<Rightarrow> log_add (''\"'' @ pct_s (hd_filename hdr) @ ''\"'') line);
     line \<leftarrow> log_add ('' '' @ itoa (uint (hd_length hdr)) @ '' \"'' @ pct_s (hd_uagent hdr) @ ''\"'') line;
     (case hd_referer hdr of
        Some r \<Rightarrow> log_add ('' \"'' @ r @ ''\"'' @ [LF]) line
      | None \<Rightarrow> log_add [LF] line) }"

section \<open>Answering a request\<close>

text \<open>The characters behind a percent sign, cut to a byte; a percent sign near the end is dropped.\<close>

definition url_char :: "char \<Rightarrow> char \<Rightarrow> char" where
  "url_char a b = char_of (nat ((from_hex a * 16 OR from_hex b) mod 256))"

fun url_decode :: "string \<Rightarrow> string" where
  "url_decode [] = []"
| "url_decode (c # s) =
     (if c = CHR ''%'' then (case s of a # b # t \<Rightarrow> url_char a b # url_decode t | _ \<Rightarrow> url_decode s)
      else if c = CHR ''+'' then CHR '' '' # url_decode s
      else c # url_decode s)"

definition decode_path :: "string \<Rightarrow> string" where
  "decode_path filename =
     (if CHR ''%'' \<in> set filename then takeWhile (\<lambda>c. c \<noteq> NUL) (url_decode filename) else filename)"

text \<open>A slash at the end is cut off, but the length keeps counting it.\<close>

definition cut_slash :: "string \<Rightarrow> string" where
  "cut_slash path = (if 1 < length path \<and> last path = CHR ''/'' then butlast path else path)"

text \<open>The fields of a form; they are not decoded.\<close>

fun put_fields :: "hashtable \<Rightarrow> string list \<Rightarrow> hashtable option" where
  "put_fields t [] = Some t"
| "put_fields t (var # vars) =
     (if CHR ''='' \<in> set var then do {
        t \<leftarrow> hashtable_put t (takeWhile (\<lambda>c. c \<noteq> CHR ''='') var) (tl (dropWhile (\<lambda>c. c \<noteq> CHR ''='') var));
        put_fields t vars }
      else put_fields t vars)"

definition parse_form :: "string \<Rightarrow> hashtable \<Rightarrow> hashtable option" where
  "parse_form s t = put_fields t (strtok_all ''&'' [] s)"

text \<open>The body: as much of the stream as the header announces and as there is.  The size of the buffer may wrap around to 0.\<close>

definition read_body :: "host \<Rightarrow> u64 \<Rightarrow> string \<Rightarrow> string option" where
  "read_body h c_length stream = do {
     zassert (c_length + 1 \<noteq> 0 \<and> unat c_length < ho_memory h);
     Some (takeWhile (\<lambda>c. c \<noteq> NUL) (take (unat c_length) stream)) }"

definition response_head :: "string list \<Rightarrow> string \<Rightarrow> nat \<Rightarrow> string \<Rightarrow> string" where
  "response_head headers status len squid =
     ''HTTP/1.1 '' @ status @ crlf
     @ ''Server: Quantica/'' @ get_version_string @ '' (WebAPI)'' @ crlf
     @ ''Content-Type: application/json'' @ crlf
     @ ''Content-Length: '' @ itoa (int len) @ crlf
     @ concat headers
     @ ''Access-Control-Allow-Origin: *'' @ crlf
     @ ''Access-Control-Allow-Methods: GET,POST,HEAD,OPTIONS'' @ crlf
     @ ''X-QUID: '' @ squid @ crlf @ crlf"

definition raw_response :: "string list \<Rightarrow> string \<Rightarrow> server \<Rightarrow> (string \<times> server) option" where
  "raw_response headers status v = do {
     (squid, c) \<leftarrow> quid_generate (sv_core v);
     Some (response_head headers status 0 squid, put_core c v) }"

definition json_response :: "string list \<Rightarrow> string \<Rightarrow> string \<Rightarrow> server \<Rightarrow> (string \<times> server) option" where
  "json_response headers status message v = do {
     (squid, c) \<leftarrow> quid_generate (sv_core v);
     Some (response_head headers status (length message + 2) squid @ message @ crlf, put_core c v) }"

text \<open>The text that is written to the stream at the label \<open>respond\<close>.\<close>

definition respond :: "http_method \<Rightarrow> string list \<Rightarrow> reply \<Rightarrow> (string \<times> server) option" where
  "respond method headers r =
     (let (message, status, v) = r
      in if method = HTTP_HEAD then raw_response headers (get_http_status status) v
         else json_response headers (get_http_status status) message v)"

text \<open>
  From the parsed header to the answer.  The table with the data of the request is freed at the end through the pointer it had before
  the key was added: if it had to grow for the key it is freed twice.
\<close>

definition answer_request :: "host \<Rightarrow> head \<Rightarrow> string \<Rightarrow> server \<Rightarrow> (string \<times> server) option" where
  "answer_request h hdr stream v = do {
     let headers = (if hd_connection hdr = Some ''close'' then [''Connection: close'' @ crlf]
       else if hd_connection hdr = Some ''keep-alive'' then [''Connection: keep-alive'' @ crlf] else []);
     (case (hd_method hdr, hd_filename hdr) of
        (None, _) \<Rightarrow> raw_response headers ''405 Method Not Allowed'' v
      | (Some method, None) \<Rightarrow> raw_response headers ''400 Bad Request'' v
      | (Some method, Some filename) \<Rightarrow>
          if CHR 0x27 \<in> set filename \<or> CHR '' '' \<in> set filename \<or> (case hd_query hdr of None \<Rightarrow> False | Some q \<Rightarrow> CHR '' '' \<in> set q)
          then raw_response headers ''400 Bad Request'' v
          else do {
            let full = decode_path filename;
            if method = HTTP_OPTIONS then raw_response (headers @ [''Allow: POST,OPTIONS,GET,HEAD'' @ crlf]) ''200 OK'' v
            else do {
              let postdata = alloc_hashtable HASHTABLE_DATA_SIZE;
              postdata \<leftarrow> (if 0 < hd_length hdr then do { c_buf \<leftarrow> read_body h (hd_length hdr) stream; parse_form c_buf postdata }
                else Some postdata);
              getdata \<leftarrow> (case hd_query hdr of
                  None \<Rightarrow> Some None
                | Some q \<Rightarrow> do { t \<leftarrow> parse_form q (alloc_hashtable HASHTABLE_DATA_SIZE); Some (Some t) });
              (r, req) \<leftarrow> dispatch h (length full) (cut_slash full)
                \<lparr>rq_uri = [], rq_data = postdata, rq_querystring = getdata, rq_header = hd_table hdr, rq_method = method\<rparr> v;
              zassert (ht_size (rq_data req) = ht_size postdata);
              respond method headers r } }) }"

definition handle_request :: "host \<Rightarrow> string \<Rightarrow> string \<Rightarrow> server \<Rightarrow> (string \<times> server) option" where
  "handle_request h str_addr stream v = do {
     let v = put_base (error_clear (sv_base v)) v;
     (out, v) \<leftarrow> (case read_lines stream of
         Closed \<Rightarrow> Some ([], v)
       | Bad_line \<Rightarrow> raw_response [] ''400 Bad Request'' v
       | Head_lines ls stream \<Rightarrow> do {
           let v = v\<lparr>sv_requests := sv_requests v + 1\<rparr>;
           hdr \<leftarrow> parse_head ls;
           (case hdr of
              Inl status \<Rightarrow> raw_response [] status v
            | Inr hdr \<Rightarrow> do { _ \<leftarrow> log_request str_addr hdr; answer_request h hdr stream v }) });
     Some (out, put_base (error_clear (sv_base v)) v) }"

end
