(* ===== verification/Webapi_Spec.thy ===== *)
theory Webapi_Spec imports
  Webapi Engine_Spec
begin

text \<open>
  What the web interface promises: the decoding of paths, the routes about records, the line for the log, and the answer to a whole
  request.
\<close>

section \<open>Percent signs\<close>

text \<open>Writing a path with every character in percent form.\<close>

definition hex_char :: "nat \<Rightarrow> char" where
  "hex_char n = char_of (if n < 10 then 48 + n else 87 + n)"

fun url_encode :: "string \<Rightarrow> string" where
  "url_encode [] = []"
| "url_encode (c # s) = CHR ''%'' # hex_char (code c div 16) # hex_char (code c mod 16) # url_encode s"

lemma from_hex_char: "n < 16 \<Longrightarrow> from_hex (hex_char n) = int n"
  by (cases "n < 10") (simp_all add: hex_char_def from_hex_def isdigit_def tolower_def isupper_def)

lemma nibbles: "0 \<le> b \<Longrightarrow> b < 16 \<Longrightarrow> a * 16 OR b = a * 16 + (b :: int)"
proof -
  assume b: "0 \<le> b" "b < 16"
  have "push_bit 4 a AND take_bit 4 b = 0" by (rule bit_eqI) (auto simp: bit_simps)
  moreover have "push_bit 4 a = a * 16" "take_bit 4 b = b" using b by (simp_all add: push_bit_eq_mult take_bit_eq_mod)
  ultimately have "a * 16 AND b = 0" by simp
  then show ?thesis by (rule disjunctive_add_eq_or[symmetric])
qed

lemma url_char_hex: "url_char (hex_char (code c div 16)) (hex_char (code c mod 16)) = c"
proof -
  have d: "(of_char c :: nat) div 16 < 16" using nat_of_char_less_256[of c] by linarith
  have "int (of_char c div 16) * 16 + int (of_char c mod 16) = int (of_char c)"
    using div_mult_mod_eq[of "of_char c :: nat" 16] by linarith
  then have "int (of_char c div 16) * 16 OR int (of_char c mod 16) = int (of_char c)"
    by (subst nibbles) simp_all
  then show ?thesis using d nat_of_char_less_256[of c] by (simp add: url_char_def from_hex_char nat_mod_distrib)
qed

lemma url_decode_percent: "url_decode (CHR ''%'' # a # b # s) = url_char a b # url_decode s"
  by (simp add: url_decode.simps(2)[of "CHR ''%''"])

declare url_decode.simps(2) [simp del]

lemma url_decode_encode: "url_decode (url_encode s) = s"
  by (induction s) (simp_all add: url_char_hex url_decode_percent)

lemma url_decode_length: "length (url_decode s) \<le> length s"
proof (induction s rule: length_induct)
  case (1 s)
  show ?case
  proof (cases s)
    case (Cons c t)
    show ?thesis
    proof (cases "\<exists>a b u. t = a # b # u")
      case True
      then obtain a b u where t: "t = a # b # u" by blast
      have "length (url_decode u) \<le> length u" using 1 Cons t by auto
      moreover have "length (url_decode t) \<le> length t" using 1 Cons by simp
      ultimately show ?thesis using Cons t by (cases "c = CHR ''%''") (simp_all add: url_decode_percent url_decode.simps(2)[of c])
    next
      case False
      have "length (url_decode t) \<le> length t" using 1 Cons by simp
      moreover have "c = CHR ''%'' \<Longrightarrow> url_decode (c # t) = url_decode t"
        using False by (cases t; cases "tl t") (simp_all add: url_decode.simps(2)[of "CHR ''%''"])
      ultimately show ?thesis using Cons
        by (cases "c = CHR ''%''") (simp_all add: url_decode.simps(2)[of c])
    qed
  qed simp
qed

section \<open>Routes\<close>

text \<open>The first of the routes about a record that fits what follows the key.\<close>

fun first_uri :: "string \<Rightarrow> webroute list \<Rightarrow> (api_call \<times> string) option" where
  "first_uri p [] = None"
| "first_uri p (r # rs) = (case match_uri (ro_uri r) p of None \<Rightarrow> first_uri p rs | Some u \<Rightarrow> Some (ro_handler r, u))"

lemma char_at_append: "char_at (s @ t) i = (if i < length s then s ! i else char_at t (i - length s))"
  by (auto simp: char_at_def nth_append)

lemma quid_of_path_key:
  assumes "length q = 36 \<or> length q = 38" "CHR ''/'' \<notin> set q" "char_at p 0 = CHR ''/''" "char_at p 2 \<noteq> CHR ''/''" "39 \<le> fsz"
  shows "quid_of_path fsz (CHR ''/'' # q @ p) = Some (q, p)"
proof -
  have c: "char_at (CHR ''/'' # q @ p) (Suc i) = (if i < length q then q ! i else char_at p (i - length q))" for i
    using char_at_append[of "CHR ''/'' # q" p "Suc i"] by simp
  have n: "i < length q \<Longrightarrow> q ! i \<noteq> CHR ''/''" for i using assms(2) nth_mem by metis
  show ?thesis using assms(1)
  proof
    assume l: "length q = 36"
    then show ?thesis using assms(3-5) c[of 38] c[of 36] by (simp add: quid_of_path_def)
  next
    assume l: "length q = 38"
    then show ?thesis using assms(3-5) c[of 38] by (simp add: quid_of_path_def)
  qed
qed

lemma other_uris: "r \<in> set route \<Longrightarrow> \<not> ro_require_quid r \<Longrightarrow> length (ro_uri r) < 36 \<and> (CHR ''*'' \<notin> set (ro_uri r) \<or> ro_uri r = ''/alias/*'')"
proof -
  have "\<forall>r \<in> set route. ro_require_quid r \<or> length (ro_uri r) < 36 \<and> (CHR ''*'' \<notin> set (ro_uri r) \<or> ro_uri r = ''/alias/*'')"
    by code_simp
  then show "r \<in> set route \<Longrightarrow> \<not> ro_require_quid r \<Longrightarrow> length (ro_uri r) < 36 \<and> (CHR ''*'' \<notin> set (ro_uri r) \<or> ro_uri r = ''/alias/*'')"
    by blast
qed

lemma other_routes:
  assumes "36 \<le> length q" "CHR ''/'' \<notin> set q" "r \<in> set route" "\<not> ro_require_quid r"
  shows "match_route fsz (CHR ''/'' # q @ p) r = None"
proof -
  let ?p = "CHR ''/'' # q @ p"
  have a: "take 7 ?p \<noteq> ''/alias/''"
  proof
    assume "take 7 ?p = ''/alias/''"
    then have "take 7 ?p ! 6 = ''/alias/'' ! 6" by (simp only:)
    then have "q ! 5 = CHR ''/''" using assms(1) by (simp add: nth_append)
    then show False using assms(1,2) nth_mem[of 5 q] by simp
  qed
  have "match_uri (ro_uri r) ?p = None"
  proof (cases "ro_uri r = ''/alias/*''")
    case True
    have "match_uri ''/alias/*'' ?p = (if take 7 ?p = ''/alias/'' then Some (drop 7 ?p) else None)"
      unfolding match_uri_def Let_def by (simp del: take_Suc_Cons drop_Suc_Cons add: numeral_eq_Suc)
    then show ?thesis using a True by simp
  next
    case False
    then have s: "CHR ''*'' \<notin> set (ro_uri r)" and l: "length (ro_uri r) < 36" using other_uris[OF assms(3,4)] by auto
    have "ro_uri r \<noteq> ?p" using l assms(1) by auto
    then show ?thesis using s by (simp add: match_uri_def)
  qed
  then show ?thesis using assms(4) by (simp add: match_route_def)
qed

lemma find_key_route:
  assumes q: "length q = 36 \<or> length q = 38" "CHR ''/'' \<notin> set q" "char_at p 0 = CHR ''/''" "char_at p 2 \<noteq> CHR ''/''" "39 \<le> fsz"
    and "set rs \<subseteq> set route"
  shows "find_route fsz (CHR ''/'' # q @ p) rs = map_option (\<lambda>(call, u). (call, Some q, u)) (first_uri p (filter ro_require_quid rs))"
  using assms(6)
proof (induction rs)
  case (Cons r rs)
  show ?case
  proof (cases "ro_require_quid r")
    case True
    then show ?thesis using Cons quid_of_path_key[OF q] by (simp add: match_route_def split: option.splits)
  next
    case False
    then show ?thesis using Cons other_routes[of q r fsz p] q by auto
  qed
qed simp


text \<open>The routes about records, in the order of the search.\<close>

definition key_routes :: "webroute list" where
  "key_routes = filter ro_require_quid (rev route)"

lemma key_route_found: "r \<in> set route \<Longrightarrow> ro_require_quid r \<Longrightarrow> CHR ''*'' \<notin> set (ro_uri r) \<Longrightarrow>
    first_uri (ro_uri r) key_routes = Some (ro_handler r, ro_uri r) \<and> char_at (ro_uri r) 0 = CHR ''/'' \<and> char_at (ro_uri r) 2 \<noteq> CHR ''/''
      \<and> 3 \<le> length (ro_uri r)"
proof -
  have "\<forall>r \<in> set route. ro_require_quid r \<and> CHR ''*'' \<notin> set (ro_uri r) \<longrightarrow>
    map_option fst (first_uri (ro_uri r) key_routes) = Some (ro_handler r) \<and> map_option snd (first_uri (ro_uri r) key_routes) = Some (ro_uri r)
    \<and> char_at (ro_uri r) 0 = CHR ''/'' \<and> char_at (ro_uri r) 2 \<noteq> CHR ''/'' \<and> 3 \<le> length (ro_uri r)"
    by code_simp
  then show "r \<in> set route \<Longrightarrow> ro_require_quid r \<Longrightarrow> CHR ''*'' \<notin> set (ro_uri r) \<Longrightarrow>
    first_uri (ro_uri r) key_routes = Some (ro_handler r, ro_uri r) \<and> char_at (ro_uri r) 0 = CHR ''/'' \<and> char_at (ro_uri r) 2 \<noteq> CHR ''/''
      \<and> 3 \<le> length (ro_uri r)"
    by (cases "first_uri (ro_uri r) key_routes") auto
qed

lemma history_route: "first_uri (''/history/'' @ n) key_routes = Some (Api_db_get_version, n)"
  by (simp add: key_routes_def route_def route_row_def match_uri_def)

section \<open>The log\<close>

definition log_text :: "string \<Rightarrow> head \<Rightarrow> string" where
  "log_text str_addr hdr =
     ''[info] '' @ str_addr @ '' - '' @ method_name (hd_method hdr) @ '' '' @ pct_s (hd_version hdr) @ '' - ''
     @ ''\"'' @ pct_s (hd_filename hdr) @ (case hd_query hdr of None \<Rightarrow> [] | Some q \<Rightarrow> ''?'' @ q) @ ''\"''
     @ '' '' @ itoa (uint (hd_length hdr)) @ '' \"'' @ pct_s (hd_uagent hdr) @ ''\"''
     @ (case hd_referer hdr of None \<Rightarrow> [] | Some r \<Rightarrow> '' \"'' @ r @ ''\"'') @ [LF]"

lemma log_add_eq: "line \<noteq> [] \<Longrightarrow> log_add s line = (if length line + length s < RLOGLINE_SIZE then Some (line @ s) else None)"
  by (cases line) (auto simp: log_add_def fit_def zassert_def)

lemma method_name_length: "length (method_name m) \<le> 7"
  by (auto simp: method_name_def split: option.split http_method.split)

lemma log_request_eq:
  assumes "length str_addr \<le> 45"
  shows "log_request str_addr hdr = (if length (log_text str_addr hdr) < RLOGLINE_SIZE then Some (log_text str_addr hdr) else None)"
proof -
  let ?l = "''[info] '' @ str_addr @ '' - '' @ method_name (hd_method hdr)"
  have "fit RLOGLINE_SIZE (fit RLOGLINE_SIZE (''[info] '' @ str_addr @ '' - '') @ method_name (hd_method hdr)) = ?l"
    using assms method_name_length[of "hd_method hdr"] by (simp add: fit_def)
  then have "log_request str_addr hdr = do {
     line \<leftarrow> log_add ('' '' @ pct_s (hd_version hdr) @ '' - '') ?l;
     line \<leftarrow> (case hd_query hdr of
         Some q \<Rightarrow> log_add (''\"'' @ pct_s (hd_filename hdr) @ ''?'' @ q @ ''\"'') line
       | None \<Rightarrow> log_add (''\"'' @ pct_s (hd_filename hdr) @ ''\"'') line);
     line \<leftarrow> log_add ('' '' @ itoa (uint (hd_length hdr)) @ '' \"'' @ pct_s (hd_uagent hdr) @ ''\"'') line;
     (case hd_referer hdr of
        Some r \<Rightarrow> log_add ('' \"'' @ r @ ''\"'' @ [LF]) line
      | None \<Rightarrow> log_add [LF] line) }"
    by (simp only: log_request_def Let_def)
  then show ?thesis by (auto simp: log_add_eq log_text_def split: option.splits)
qed

section \<open>A whole request\<close>

lemma fgets_line: "LF \<notin> set a \<Longrightarrow> length a < n \<Longrightarrow> fgets n (a @ LF # r) = (a @ [LF], r)"
proof (induction a arbitrary: n)
  case Nil
  then show ?case by (cases n) simp_all
next
  case (Cons c a)
  then show ?case by (cases n) auto
qed

text \<open>The lines of a header.\<close>

definition with_ends :: "string list \<Rightarrow> string" where
  "with_ends ls = concat (map (\<lambda>l. l @ crlf) ls)"

lemma with_ends_simps [simp]: "with_ends [] = []" "with_ends (l # ls) = l @ crlf @ with_ends ls"
  by (simp_all add: with_ends_def)

definition plain_line :: "string \<Rightarrow> bool" where
  "plain_line l \<longleftrightarrow> LF \<notin> set l \<and> CR \<notin> set l \<and> NUL \<notin> set l \<and> l \<noteq> [] \<and> length l < 10000"

lemma read_plain_lines: "list_all plain_line ls \<Longrightarrow> read_lines (with_ends ls @ crlf @ r) = Head_lines (map (\<lambda>l. l @ crlf) ls) r"
proof (induction ls)
  case Nil
  show ?case using fgets_line[of "[CR]" "HTTP_HEADER_SIZE - 3" r] by (subst read_lines.simps) (simp add: crlf_def)
next
  case (Cons a ls)
  let ?r = "with_ends ls @ crlf @ r"
  have p: "LF \<notin> set a" "CR \<notin> set a" "NUL \<notin> set a" "a \<noteq> []" "length a < 10000" using Cons.prems by (simp_all add: plain_line_def)
  have f: "fgets (HTTP_HEADER_SIZE - 3) (a @ crlf @ ?r) = (a @ crlf, ?r)"
    using fgets_line[of "a @ [CR]" "HTTP_HEADER_SIZE - 3" ?r] p by (simp add: crlf_def)
  have t: "takeWhile (\<lambda>c. c \<noteq> NUL) (a @ crlf) = a @ crlf" using p(3) by (auto simp: crlf_def takeWhile_eq_all_conv)
  have n: "a @ crlf \<noteq> [CR, LF]" "a @ crlf \<noteq> [LF]" "LF \<in> set (a @ crlf)" using p(4) by (auto simp: crlf_def)
  have i: "read_lines ?r = Head_lines (map (\<lambda>l. l @ crlf) ls) r" using Cons by simp
  have "read_lines (a @ crlf @ ?r) = Head_lines ((a @ crlf) # map (\<lambda>l. l @ crlf) ls) r"
    by (subst read_lines.simps) (use p(4) n in \<open>simp add: f[simplified] t i[simplified] Let_def\<close>)
  then show ?case by simp
qed

text \<open>The request line of a \<open>GET\<close> with one field of letters and digits.\<close>

definition plain_char :: "char \<Rightarrow> bool" where
  "plain_char c \<longleftrightarrow> isalpha c \<or> isdigit c"

definition get_line :: "string \<Rightarrow> string \<Rightarrow> string" where
  "get_line uri q = ''GET '' @ uri @ ''?'' @ q @ '' HTTP/1.1''"

definition get_head :: "string \<Rightarrow> string \<Rightarrow> head" where
  "get_head uri q = head_init\<lparr>hd_method := Some HTTP_GET, hd_filename := Some uri, hd_query := Some q, hd_version := Some ''HTTP/1.1''\<rparr>"

lemma request_line_get:
  assumes u: "uri \<noteq> []" "set uri \<inter> set '' ?'' = {}" "hd uri \<notin> {CR, LF}" "strstr ''HTTP/'' (uri @ ''?'' @ q @ '' '' @ s) = strstr ''HTTP/'' s"
    and s: "s = ''HTTP/1.1'' @ crlf"
  shows "request_line (get_line uri q @ crlf) head_init = Inr (get_head uri q)"
proof -
  let ?f = "uri @ ''?'' @ q @ '' '' @ s"
  have m: "request_method (get_line uri q @ crlf) = Inr (HTTP_GET, 4)" by (simp add: request_method_def starts_def get_line_def)
  have d: "drop 4 (get_line uri q @ crlf) = ?f" by (simp add: get_line_def s)
  have c: "char_at ?f 0 \<notin> {CHR '' '', CR, LF}" using u(1-3) by (cases uri) (auto simp: char_at_def)
  have h: "strstr ''HTTP/'' ?f = Some s" using u(4) strstr_here[of "''HTTP/''" "''1.1'' @ crlf"] by (simp add: s)
  have v: "text_before [LF] (text_before [CR, LF] s) = ''HTTP/1.1''"
  proof -
    have "text_before [CR, LF] s = ''HTTP/1.1''" using before_here[of CR "[CR, LF]" "''HTTP/1.1''" "[]"] by (simp add: s crlf_def)
    then show ?thesis using before_none[of LF "[LF]" "''HTTP/1.1''"] by simp
  qed
  have b: "text_before ''?'' (uri @ ''?'' @ q) = uri" using before_here[of "CHR ''?''" "''?''" uri q] u(2) by auto
  have t: "strstr ''?'' (uri @ ''?'' @ q) = Some (''?'' @ q)"
  proof -
    have "strstr ''?'' (x @ ''?'' @ q) = Some (''?'' @ q)" if "CHR ''?'' \<notin> set x" for x
      using that by (induction x) (auto simp: strstr.simps[of "''?''"])
    then show ?thesis using u(2) by auto
  qed
  have p: "length ?f - length s = length (uri @ ''?'' @ q) + 1" by simp
  show ?thesis
    unfolding request_line_def m sum.case prod.case Let_def d
    using c by (simp add: h[simplified] v[simplified] b[simplified] t[simplified] get_head_def)
qed


text \<open>A table with one field.\<close>

lemma one_field:
  assumes "CHR ''='' \<notin> set k" "(set k \<union> set d) \<inter> {CHR ''&''} = {}"
  shows "\<exists>t. parse_form (k @ ''='' @ d) (alloc_hashtable HASHTABLE_DATA_SIZE) = Some t \<and> hashtable_get t k = Some (Some d)"
proof -
  have "strtok_all ''&'' x s = [x @ s]" if "CHR ''&'' \<notin> set s" "x @ s \<noteq> []" for x s
    using that by (induction s arbitrary: x) auto
  then have s: "strtok_all ''&'' [] (k @ ''='' @ d) = [k @ ''='' @ d]" using assms(2) by auto
  have w: "takeWhile (\<lambda>c. c \<noteq> CHR ''='') (k @ ''='' @ d) = k" "dropWhile (\<lambda>c. c \<noteq> CHR ''='') (k @ ''='' @ d) = ''='' @ d"
    using assms(1) by (auto simp: takeWhile_append dropWhile_append)
  have o: "hashtable_ok (alloc_hashtable HASHTABLE_DATA_SIZE)" using alloc_hashtable_ok[of 10] by auto
  obtain t where t: "hashtable_put (alloc_hashtable HASHTABLE_DATA_SIZE) k d = Some t" "hashtable_ok t"
    "\<forall>k'. ht_values t k' = (if k' = k then [d] else [])
       @ (if ht_n (alloc_hashtable HASHTABLE_DATA_SIZE) < ht_size (alloc_hashtable HASHTABLE_DATA_SIZE)
          then ht_values (alloc_hashtable HASHTABLE_DATA_SIZE) k' else rev (ht_values (alloc_hashtable HASHTABLE_DATA_SIZE) k'))"
    using hashtable_put_ok[OF o, of k d] by (auto simp: alloc_hashtable_def)
  have g: "hashtable_get t k = Some (Some d)" using t(3) by (simp add: hashtable_get_ok[OF t(2)])
  show ?thesis unfolding parse_form_def s using t(1) g w by simp
qed

text \<open>A \<open>GET\<close> of a fixed route is answered by its handler; the further lines of its header are such as are not kept.\<close>

lemma handle_get:
  assumes u: "uri \<noteq> []" "set uri \<inter> set '' ?%:'' = {}" "CHR 0x27 \<notin> set uri" "hd uri \<notin> {CR, LF}" "1 < length uri \<longrightarrow> last uri \<noteq> CHR ''/''"
      "set uri \<inter> {CR, LF, NUL} = {}" "set q \<inter> {CR, LF, NUL, CHR '' '', CHR '':''} = {}"
    and v: "strstr ''HTTP/'' (uri @ ''?'' @ q @ '' '' @ ''HTTP/1.1'' @ crlf) = strstr ''HTTP/'' (''HTTP/1.1'' @ crlf)"
    and ls: "list_all plain_line ls" "header_lines (map (\<lambda>l. l @ crlf) ls) (get_head uri q) = Some (Inr (get_head uri q))"
    and p: "length peer \<le> 45" "length (log_text peer (get_head uri q)) < RLOGLINE_SIZE"
    and f: "parse_form q (alloc_hashtable HASHTABLE_DATA_SIZE) = Some t"
    and r: "find_route (length uri) uri (rev route) = Some (call, None, uri)"
  shows "handle_request h peer (with_ends (get_line uri q # ls) @ crlf) v = do {
     rp \<leftarrow> api_handler h call \<lparr>rq_uri = uri, rq_data = alloc_hashtable HASHTABLE_DATA_SIZE, rq_querystring = Some t,
       rq_header = alloc_hashtable HASHTABLE_DATA_SIZE, rq_method = HTTP_GET\<rparr>
       ((put_base (error_clear (sv_base v)) v)\<lparr>sv_requests := sv_requests v + 1\<rparr>);
     (out, v) \<leftarrow> respond HTTP_GET [] rp;
     Some (out, put_base (error_clear (sv_base v)) v) }"
proof -
  have len: "length (uri @ q) < 300" using p(2) by (simp add: log_text_def get_head_def pct_s_def head_init_def)
  have "plain_line (get_line uri q)" using u(6,7) len by (auto simp: plain_line_def get_line_def)
  then have l: "read_lines (with_ends (get_line uri q # ls) @ crlf) = Head_lines (map (\<lambda>l. l @ crlf) (get_line uri q # ls)) []"
    using read_plain_lines[of "get_line uri q # ls" "[]"] ls(1) by simp
  have c: "CHR '':'' \<notin> set (get_line uri q @ crlf)" using u(2,7) by (auto simp: get_line_def crlf_def)
  have ph: "parse_head (map (\<lambda>l. l @ crlf) (get_line uri q # ls)) = Some (Inr (get_head uri q))"
    using c request_line_get[OF u(1) _ u(4) v refl] u(2) ls(2) by (auto simp: parse_head_def)
  have a: "answer_request h (get_head uri q) s w = do {
      rp \<leftarrow> api_handler h call \<lparr>rq_uri = uri, rq_data = alloc_hashtable HASHTABLE_DATA_SIZE, rq_querystring = Some t,
        rq_header = alloc_hashtable HASHTABLE_DATA_SIZE, rq_method = HTTP_GET\<rparr> w;
      respond HTTP_GET [] rp }" for s w
  proof -
    have dp: "decode_path uri = uri" using u(2) by (auto simp: decode_path_def)
    have cs: "cut_slash uri = uri" using u(5) by (auto simp: cut_slash_def)
    have n: "CHR 0x27 \<notin> set uri" "CHR '' '' \<notin> set uri" "CHR '' '' \<notin> set q" using u(2,3,7) by auto
    show ?thesis
      by (cases "api_handler h call \<lparr>rq_uri = uri, rq_data = alloc_hashtable HASHTABLE_DATA_SIZE, rq_querystring = Some t,
          rq_header = alloc_hashtable HASHTABLE_DATA_SIZE, rq_method = HTTP_GET\<rparr> w")
        (simp_all add: answer_request_def get_head_def head_init_def n dp cs f dispatch_def r zassert_def Let_def)
  qed
  show ?thesis
    unfolding handle_request_def l
    by (simp add: ph[simplified] a log_request_eq[OF p(1)] p(2) Let_def put_base_def bind_assoc)
qed

section \<open>Properties\<close>

text \<open>
  C37: Percent decoding of paths (\<open>handle_request\<close> of src/webapi.c).  A path that is written with every character in percent form is
  decoded to itself, up to a null character; decoding never makes a text longer, so that it stays in its buffer.
\<close>

theorem url_decode_correct:
  "url_decode (url_encode s) = s \<and> decode_path (url_encode s) = takeWhile (\<lambda>c. c \<noteq> NUL) s \<and> length (url_decode t) \<le> length t"
proof -
  have "CHR ''%'' \<in> set (url_encode s)" if "s \<noteq> []" using that by (cases s) auto
  then have "decode_path (url_encode s) = takeWhile (\<lambda>c. c \<noteq> NUL) s"
    by (cases "s = []") (simp_all add: decode_path_def url_decode_encode)
  then show ?thesis by (simp add: url_decode_encode url_decode_length)
qed

text \<open>
  C35: The routes about records (\<open>route\<close> and the loop over it in src/webapi.c).  A path that begins with a key, with or without its braces,
  followed by the address of a route that needs a key, calls the handler of that route with that key; behind \<open>/history/\<close> stands
  the version.  So no route hides another one.
\<close>

theorem key_routes_correct:
  assumes "length q = 36 \<or> length q = 38" "CHR ''/'' \<notin> set q"
  shows "(\<forall>r \<in> set route. ro_require_quid r \<and> CHR ''*'' \<notin> set (ro_uri r) \<longrightarrow>
      (let p = CHR ''/'' # q @ ro_uri r in find_route (length p) p (rev route) = Some (ro_handler r, Some q, ro_uri r)))
    \<and> (let p = CHR ''/'' # q @ ''/history/'' @ n in find_route (length p) p (rev route) = Some (Api_db_get_version, Some q, n))"
proof -
  have f: "find_route (length (CHR ''/'' # q @ u)) (CHR ''/'' # q @ u) (rev route)
      = map_option (\<lambda>(call, u). (call, Some q, u)) (first_uri u key_routes)"
    if "char_at u 0 = CHR ''/''" "char_at u 2 \<noteq> CHR ''/''" "3 \<le> length u" for u
    unfolding key_routes_def using that assms by (intro find_key_route) auto
  show ?thesis unfolding Let_def
  proof (intro conjI ballI impI)
    fix r assume "r \<in> set route" "ro_require_quid r \<and> CHR ''*'' \<notin> set (ro_uri r)"
    then show "find_route (length (CHR ''/'' # q @ ro_uri r)) (CHR ''/'' # q @ ro_uri r) (rev route) = Some (ro_handler r, Some q, ro_uri r)"
      using key_route_found[of r] f[of "ro_uri r"] by simp
  next
    have "char_at (''/history/'' @ n) 0 = CHR ''/''" "char_at (''/history/'' @ n) 2 \<noteq> CHR ''/''" by (simp_all add: char_at_def)
    then show "find_route (length (CHR ''/'' # q @ ''/history/'' @ n)) (CHR ''/'' # q @ ''/history/'' @ n) (rev route)
        = Some (Api_db_get_version, Some q, n)"
      using f[of "''/history/'' @ n"] by (simp only: history_route) simp
  qed
qed

theorem key_routes_correct_witness:
  "let q = replicate 36 (CHR ''7''); p = CHR ''/'' # q @ ''/history/'' @ ''2''
   in find_route (length p) p (rev route) = Some (Api_db_get_version, Some q, ''2'')"
  using key_routes_correct[of "replicate 36 (CHR ''7'')" "''2''"] by (simp add: Let_def)

text \<open>
  C36: The line for the log (\<open>handle_request\<close> of src/webapi.c).  If it has fewer than 256 characters it is put together in its array;
  otherwise the array is overrun, because every \<open>snprintf\<close> is given the size of the whole array.  A path, an agent or a
  referer of 256 characters in a request is enough for that.
\<close>

theorem log_request_bounds:
  assumes "length str_addr \<le> 45"
  shows "log_request str_addr hdr = (if length (log_text str_addr hdr) < 256 then Some (log_text str_addr hdr) else None)"
  using log_request_eq[OF assms] .

theorem log_request_bounds_witness:
  "log_request ''::1'' (head_init\<lparr>hd_method := Some HTTP_GET, hd_filename := Some (replicate 256 (CHR ''a''))\<rparr>) = None"
  using log_request_bounds[of "''::1''" "head_init\<lparr>hd_method := Some HTTP_GET, hd_filename := Some (replicate 256 (CHR ''a''))\<rparr>"]
  by (simp add: log_text_def head_init_def pct_s_def)

lemma hex_pad_length: "length (hex_pad k n) = k"
  by (induction k n rule: hex_pad.induct) auto

lemma sha1_strsum_length: "length (sha1_strsum sha) = 40"
  by (simp add: sha1_strsum_def hex_pad_length upt_rec)

lemma crypto_sha1_digest:
  assumes "length (sh_block (x_sha x)) = 64" "length d < 2 ^ 32"
  shows "\<exists>sha. crypto_sha1 x d = Some (sha1_strsum sha) \<and> sh_digest sha = sha1_digest (bytes d)"
proof -
  have "length (bytes d) < 2 ^ 32" using assms(2) by (simp add: bytes_def)
  then show ?thesis using sha1_pieces[OF assms(1), of "[bytes d]"] by (auto simp: crypto_sha1_def)
qed

lemma sha1_route: "find_route (length ''/sha1'') ''/sha1'' (rev route) = Some (Api_sha1, None, ''/sha1'')"
  by (simp add: route_def route_row_def match_route_def match_uri_def quid_of_path_def)

lemma plain_not: "\<forall>c \<in> set d. plain_char c \<Longrightarrow> \<not> plain_char c \<Longrightarrow> c \<notin> set d"
  by auto

lemma not_plain: "\<not> plain_char (CHR ''/'')" "\<not> plain_char (CHR '' '')" "\<not> plain_char (CHR '':'')" "\<not> plain_char (CHR ''&'')"
  "\<not> plain_char CR" "\<not> plain_char LF" "\<not> plain_char NUL" "\<not> plain_char (CHR ''='')"
  by (simp_all add: plain_char_def isalpha_def isdigit_def isupper_def islower_def)

text \<open>A \<open>GET\<close> of the SHA-1 of letters and digits.\<close>

definition sha1_answer :: "sha \<Rightarrow> string" where
  "sha1_answer sha = outcome (text_member ''hash'' (sha1_strsum sha)) ''Data hashed with SHA1'' ''SUCCEEDED''"

lemma sha1_request:
  assumes "length peer \<le> 45" "length d \<le> 100" "\<forall>c \<in> set d. plain_char c" "length (sh_block (x_sha (ho_scratch h))) = 64"
    and ls: "list_all plain_line ls" "\<And>hdr. header_lines (map (\<lambda>l. l @ crlf) ls) hdr = Some (Inr hdr)"
    and quid: "quid_generate ((sv_core v)\<lparr>c_control := error_clear (sv_base v)\<rparr>) = Some (squid, c)"
  shows "\<exists>sha. sh_digest sha = sha1_digest (bytes d) \<and>
    handle_request h peer (with_ends (get_line ''/sha1'' (''data='' @ d) # ls) @ crlf) v
      = Some (response_head [] ''200 OK'' (length (sha1_answer sha) + 2) squid @ sha1_answer sha @ crlf,
          v\<lparr>sv_core := c\<lparr>c_control := error_clear (c_control c)\<rparr>, sv_requests := sv_requests v + 1\<rparr>)"
proof -
  let ?q = "''data='' @ d"
  note n = not_plain[THEN plain_not[OF assms(3)]]
  obtain sha where s: "crypto_sha1 (ho_scratch h) d = Some (sha1_strsum sha)" "sh_digest sha = sha1_digest (bytes d)"
    using crypto_sha1_digest[OF assms(4), of d] assms(2) by auto
  obtain t where t: "parse_form ?q (alloc_hashtable HASHTABLE_DATA_SIZE) = Some t" "hashtable_get t ''data'' = Some (Some d)"
    using one_field[of "''data''" d] n(4) by auto
  let ?m = "sha1_answer sha"
  have f: "fit RESPONSE_SIZE ?m = ?m"
    by (simp add: fit_def sha1_answer_def outcome_def text_member_def str_bool_def sha1_strsum_length)
  have l: "length (log_text peer (get_head ''/sha1'' ?q)) < RLOGLINE_SIZE"
    using assms(1,2) by (simp add: log_text_def get_head_def head_init_def pct_s_def method_name_def itoa_def itoa_digits.simps)
  have "strstr ''HTTP/'' (''/sha1?'' @ ?q @ '' '' @ ''HTTP/1.1'' @ crlf) = strstr ''HTTP/'' (''sha1?'' @ ?q @ '' '' @ ''HTTP/1.1'' @ crlf)"
    by (subst strstr.simps) simp
  then have k: "strstr ''HTTP/'' (''/sha1'' @ ''?'' @ ?q @ '' '' @ ''HTTP/1.1'' @ crlf) = strstr ''HTTP/'' (''HTTP/1.1'' @ crlf)"
    using strstr_skip[of "CHR '' ''" "''HTTP/''" "CHR ''/''" "''sha1?data='' @ d" "''HTTP/1.1'' @ crlf"] n(1) by simp
  have q: "set ?q \<inter> {CR, LF, NUL, CHR '' '', CHR '':''} = {}" using n by auto
  have a: "api_handler h Api_sha1 \<lparr>rq_uri = ''/sha1'', rq_data = alloc_hashtable HASHTABLE_DATA_SIZE, rq_querystring = Some t,
      rq_header = alloc_hashtable HASHTABLE_DATA_SIZE, rq_method = HTTP_GET\<rparr> w = Some (?m, HTTP_OK, w)"
    if "\<not> iserror (sv_base w)" for w
    using that t(2) s(1) f by (simp add: api_handler_def api_sha1_def api_data_def get_param_def checked_def succeeded_def sha1_answer_def)
  have "handle_request h peer (with_ends (get_line ''/sha1'' ?q # ls) @ crlf) v
      = Some (response_head [] ''200 OK'' (length ?m + 2) squid @ ?m @ crlf,
          v\<lparr>sv_core := c\<lparr>c_control := error_clear (c_control c)\<rparr>, sv_requests := sv_requests v + 1\<rparr>)"
    by (subst handle_get[OF _ _ _ _ _ _ q k ls(1) ls(2) assms(1) l t(1) sha1_route])
      (use quid in \<open>simp_all add: a put_base_def put_core_def iserror_def error_clear_def respond_def json_response_def
         get_http_status_def fit_def\<close>)
  then show ?thesis using s(2) by blast
qed

text \<open>A server to try requests on: an engine with a clock, and fresh states of the hash functions.\<close>

definition demo_scratch :: scratch where
  "demo_scratch =
     (let c = \<lparr>s2_tot_len = 0, s2_len = 0, s2_block = replicate 128 0, s2_h = []\<rparr>;
          c' = \<lparr>s2_tot_len = 0, s2_len = 0, s2_block = replicate 256 0, s2_h = []\<rparr>
      in \<lparr>x_sha = \<lparr>sh_digest = [], sh_szlow = 0, sh_szhigh = 0, sh_block = replicate 64 0, sh_idx = 0, sh_computed = False,
             sh_corrupted = False\<rparr>,
           x_md5 = \<lparr>m5_lo = 0, m5_hi = 0, m5_vars = (0, 0, 0, 0), m5_buffer = replicate 64 0\<rparr>, x_c32 = c, x_c64 = c',
           x_h32 = \<lparr>hm_inside = c, hm_outside = c, hm_inside_reinit = c, hm_outside_reinit = c, hm_ipad = replicate 64 0, hm_opad = replicate 64 0\<rparr>,
           x_h64 = \<lparr>hm_inside = c', hm_outside = c', hm_inside_reinit = c', hm_outside_reinit = c', hm_ipad = replicate 128 0,
             hm_opad = replicate 128 0\<rparr>\<rparr>)"

definition demo_base :: base where
  "demo_base = error_clear (Engine_Spec.demo_index\<lparr>clock_pos := 0, clock := \<lambda>_. (1, 0), time_last := 0\<rparr>)"

definition demo_server :: server where
  "demo_server = \<lparr>sv_core = \<lparr>c_control = demo_base, c_ready = True, c_uptime = 0, c_session = Quid 0 0 0 0 0 0 0 0 0 0 0\<rparr>,
    sv_sql = \<lparr>sq_cnt = 0, sq_charcnt = 0, sq_tok = (None, False)\<rparr>, sv_run = True, sv_requests = 0\<rparr>"

definition demo_host :: host where
  "demo_host = \<lparr>ho_fuel = 1, ho_crc = \<lambda>_. 0, ho_fresh = demo_base, ho_scratch = demo_scratch, ho_schema = SCHEMA_FIELD,
    ho_status = \<lparr>st_lifecycle = [], st_importance = 0, st_syslock = False, st_exec = False, st_freeze = False, st_nodata = False,
      st_has_alias = False, st_type = [], st_alias = []\<rparr>,
    ho_iso = \<lambda>_. [], ho_datetime = \<lambda>_. [], ho_timename = \<lambda>_. [], ho_alloc_size = \<lambda>_. [], ho_disk_size = \<lambda>_. [], ho_fqdn = None,
    ho_memory = 4096\<rparr>"

lemma demo_host_block: "length (sh_block (x_sha (ho_scratch demo_host))) = 64"
  by (simp add: demo_host_def demo_scratch_def Let_def)

lemma demo_server_quid: "\<exists>squid c. quid_generate ((sv_core demo_server)\<lparr>c_control := error_clear (sv_base demo_server)\<rparr>) = Some (squid, c)"
proof -
  have "\<exists>q e. quid_create demo_base = Some (q, e)"
    using quid_create_correct[of demo_base 1] by (auto simp: demo_base_def error_clear_def system_time_def)
  then obtain q e where q: "quid_create demo_base = Some (q, e)" by blast
  have "quid_generate ((sv_core demo_server)\<lparr>c_control := error_clear (sv_base demo_server)\<rparr>) = Some (quidtostr q, (sv_core demo_server)\<lparr>c_control := e\<rparr>)"
    using q by (simp add: quid_generate_def demo_server_def demo_base_def error_clear_def)
  then show ?thesis by blast
qed















end
