(* ===== verification/Webclient_Spec.thy ===== *)
theory Webclient_Spec imports
  Webclient Webapi_Spec
begin

text \<open>
  What the client promises: an address is read back from its text, a request with a user and a redirection overrun their buffers, and what
  the server answers is understood.
\<close>

section \<open>Addresses\<close>

text \<open>The text of an address, and the addresses for which it is one.\<close>

definition show_url :: "http_url \<Rightarrow> string" where
  "show_url u =
     (case hu_scheme u of QDB \<Rightarrow> ''qdb'' | _ \<Rightarrow> ''http'') @ ''://''
     @ (case hu_username u of None \<Rightarrow> [] | Some n \<Rightarrow> n @ (case hu_password u of None \<Rightarrow> [] | Some p \<Rightarrow> '':'' @ p) @ ''@'')
     @ hu_host u @ (if hu_port u = 80 then [] else '':'' @ itoa (uint (hu_port u)))
     @ (case hu_path u of None \<Rightarrow> []
        | Some p \<Rightarrow> ''/'' @ p @ (case hu_query u of None \<Rightarrow> [] | Some q \<Rightarrow> ''?'' @ q)
            @ (case hu_fragment u of None \<Rightarrow> [] | Some f \<Rightarrow> ''#'' @ f))"

definition free_of :: "string \<Rightarrow> string \<Rightarrow> bool" where
  "free_of cs s \<longleftrightarrow> set cs \<inter> set s = {}"

definition host_ok :: "string \<Rightarrow> bool" where
  "host_ok s \<longleftrightarrow> free_of ''@/'' s
     \<and> (free_of '':['' s \<and> s \<noteq> [] \<or> (\<exists>a. s = ''['' @ a @ '']'' \<and> free_of '']'' a))"

definition url_ok :: "http_url \<Rightarrow> bool" where
  "url_ok u \<longleftrightarrow> hu_scheme u \<in> {HTTP, QDB} \<and> host_ok (hu_host u)
     \<and> (case hu_username u of None \<Rightarrow> hu_password u = None
        | Some n \<Rightarrow> free_of ''@/:'' n \<and> (case hu_password u of None \<Rightarrow> True | Some p \<Rightarrow> free_of ''@/'' p))
     \<and> (case hu_path u of None \<Rightarrow> hu_query u = None \<and> hu_fragment u = None | Some p \<Rightarrow> free_of ''#?'' p)
     \<and> (case hu_query u of None \<Rightarrow> True | Some q \<Rightarrow> free_of ''#'' q)"

lemma take_until: "\<forall>c \<in> set s. P c \<Longrightarrow> t = [] \<or> \<not> P (hd t) \<Longrightarrow> takeWhile P (s @ t) = s \<and> dropWhile P (s @ t) = t"
  by (cases t) (auto simp: takeWhile_append dropWhile_append)

lemma char_at_0 [simp]: "char_at [] i = NUL" "char_at (c # s) 0 = c"
  by (simp_all add: char_at_def)

text \<open>The beginning of what may follow the host.\<close>

definition after_host :: "string \<Rightarrow> bool" where
  "after_host t \<longleftrightarrow> t = [] \<or> hd t \<in> {CHR '':'', CHR ''/''}"

lemma url_host_show: "host_ok s \<Longrightarrow> after_host t \<Longrightarrow> url_host (s @ t) = Some (s, t)"
proof -
  assume s: "host_ok s" and t: "after_host t"
  show ?thesis
  proof (cases "\<exists>a. s = ''['' @ a @ '']'' \<and> free_of '']'' a")
    case True
    then obtain a where a: "s = ''['' @ a @ '']''" "free_of '']'' a" by blast
    have "takeWhile (\<lambda>c. c \<noteq> CHR '']'') ((''['' @ a) @ '']'' @ t) = ''['' @ a \<and> dropWhile (\<lambda>c. c \<noteq> CHR '']'') ((''['' @ a) @ '']'' @ t) = '']'' @ t"
      using a(2) by (intro take_until) (auto simp: free_of_def)
    then show ?thesis using a(1) by (simp add: url_host_def char_at_def)
  next
    case False
    then have f: "free_of ''@/'' s" "free_of '':['' s" "s \<noteq> []" using s by (auto simp: host_ok_def)
    then have "takeWhile (\<lambda>c. c \<noteq> CHR '':'' \<and> c \<noteq> CHR ''/'') (s @ t) = s \<and> dropWhile (\<lambda>c. c \<noteq> CHR '':'' \<and> c \<noteq> CHR ''/'') (s @ t) = t"
      using t by (intro take_until) (auto simp: free_of_def after_host_def)
    moreover have "char_at (s @ t) 0 \<noteq> CHR ''[''" using f by (cases s) (auto simp: free_of_def char_at_def)
    ultimately show ?thesis using f(3) by (simp add: url_host_def)
  qed
qed

lemma url_user_none: "free_of ''@/'' s \<Longrightarrow> t = [] \<or> hd t = CHR ''/'' \<Longrightarrow> url_user (s @ t) = Some ((None, None), s @ t)"
proof -
  assume a: "free_of ''@/'' s" "t = [] \<or> hd t = CHR ''/''"
  then have "takeWhile (\<lambda>c. c \<noteq> CHR ''@'' \<and> c \<noteq> CHR ''/'') (s @ t) = s \<and> dropWhile (\<lambda>c. c \<noteq> CHR ''@'' \<and> c \<noteq> CHR ''/'') (s @ t) = t"
    by (intro take_until) (auto simp: free_of_def)
  then have d: "dropWhile (\<lambda>c. c \<noteq> CHR ''@'' \<and> c \<noteq> CHR ''/'') (s @ t) = t" by blast
  have "char_at t 0 \<noteq> CHR ''@''" using a(2) by (cases t) auto
  then show ?thesis unfolding url_user_def d by simp
qed

lemma url_user_some:
  assumes "free_of ''@/:'' n" "\<forall>p. pw = Some p \<longrightarrow> free_of ''@/'' p"
  shows "url_user (n @ (case pw of None \<Rightarrow> [] | Some p \<Rightarrow> '':'' @ p) @ ''@'' @ t) = Some ((Some n, pw), t)"
proof -
  let ?p = "case pw of None \<Rightarrow> [] | Some p \<Rightarrow> '':'' @ p"
  have "takeWhile (\<lambda>c. c \<noteq> CHR ''@'' \<and> c \<noteq> CHR ''/'') ((n @ ?p) @ ''@'' @ t) = n @ ?p
      \<and> dropWhile (\<lambda>c. c \<noteq> CHR ''@'' \<and> c \<noteq> CHR ''/'') ((n @ ?p) @ ''@'' @ t) = ''@'' @ t"
    using assms by (intro take_until) (auto simp: free_of_def split: option.splits)
  moreover have "takeWhile (\<lambda>c. c \<noteq> CHR '':'' \<and> c \<noteq> CHR ''@'') (n @ ?p @ ''@'' @ t) = n
      \<and> dropWhile (\<lambda>c. c \<noteq> CHR '':'' \<and> c \<noteq> CHR ''@'') (n @ ?p @ ''@'' @ t) = ?p @ ''@'' @ t"
    using assms by (intro take_until) (auto simp: free_of_def split: option.splits)
  moreover have "takeWhile (\<lambda>c. c \<noteq> CHR ''@'') (p @ ''@'' @ t) = p \<and> dropWhile (\<lambda>c. c \<noteq> CHR ''@'') (p @ ''@'' @ t) = ''@'' @ t"
    if "pw = Some p" for p
    using that assms(2) by (intro take_until) (auto simp: free_of_def)
  ultimately show ?thesis by (cases pw) (simp_all add: url_user_def eat_def)
qed

lemma sint_small: "n < 2 ^ 31 \<Longrightarrow> sint (of_nat n :: u32) = int n"
proof -
  assume "n < 2 ^ 31"
  then have "signed_take_bit 31 (int n) = int n" by (intro signed_take_bit_int_eq_self) simp_all
  moreover have "sint (word_of_int (int n) :: u32) = signed_take_bit 31 (int n)" unfolding sint_sbintrunc' by simp
  moreover have "(word_of_int (int n) :: u32) = of_nat n" by simp
  ultimately show ?thesis by (simp only:)
qed

lemma url_port_show:
  assumes "t = [] \<or> hd t = CHR ''/''"
  shows "url_port ((if p = 80 then [] else '':'' @ itoa (uint p)) @ t) = Some (p, t)"
proof (cases "p = 80")
  case True
  then show ?thesis using assms by (cases t) (auto simp: url_port_def)
next
  case False
  let ?d = "itoa_digits (unat p) []"
  have i: "itoa (uint p) = ?d" by (simp add: itoa_def)
  have b: "unat p < 2 ^ 16" using unsigned_less[of p, where ?'a = nat] by simp
  have d: "list_all isdigit ?d" "foldl digit_val 0 ?d = unat p" using itoa_digits_props[of "unat p"] by simp_all
  have "CHR ''/'' \<notin> set ?d" using d(1) by (auto simp: list_all_iff isdigit_def)
  then have w: "takeWhile (\<lambda>c. c \<noteq> CHR ''/'') (?d @ t) = ?d \<and> dropWhile (\<lambda>c. c \<noteq> CHR ''/'') (?d @ t) = t"
    using assms by (intro take_until) auto
  have "antoi_loop 0 ?d = of_nat (unat p)" using antoi_loop_digits[OF d(1), of 0] d(2) by simp
  moreover have "sint (of_nat (unat p) :: u32) = int (unat p)" using b by (intro sint_small) simp
  ultimately have "antoi (?d @ t) (length ?d) = Some (int (unat p))" by (simp add: antoi_def)
  then show ?thesis using False w i by (simp add: url_port_def)
qed

lemma parse_show_url: "url_ok u \<Longrightarrow> parse_url (show_url u) = Some u"
proof -
  assume ok: "url_ok u"
  define rest where "rest = (case hu_path u of None \<Rightarrow> []
        | Some p \<Rightarrow> ''/'' @ p @ (case hu_query u of None \<Rightarrow> [] | Some q \<Rightarrow> ''?'' @ q) @ (case hu_fragment u of None \<Rightarrow> [] | Some f \<Rightarrow> ''#'' @ f))"
  define port where "port = (if hu_port u = 80 then [] else '':'' @ itoa (uint (hu_port u)))"
  define sch where "sch = (case hu_scheme u of QDB \<Rightarrow> ''qdb'' | _ \<Rightarrow> ''http'')"
  define usr where "usr = (case hu_username u of None \<Rightarrow> [] | Some n \<Rightarrow> n @ (case hu_password u of None \<Rightarrow> [] | Some p \<Rightarrow> '':'' @ p) @ ''@'')"
  have s: "show_url u = sch @ '':'' @ ''//'' @ usr @ hu_host u @ port @ rest"
    by (simp add: show_url_def sch_def usr_def port_def rest_def)
  have r: "rest = [] \<or> hd rest = CHR ''/''" by (auto simp: rest_def split: option.splits)
  have pd: "list_all isdigit (itoa (uint (hu_port u)))"
    using itoa_digits_props[of "unat (hu_port u)"] by (simp add: itoa_def)
  then have p: "free_of ''@/'' port" by (auto simp: port_def free_of_def list_all_iff isdigit_def)
  have sc: "takeWhile (\<lambda>c. c \<noteq> CHR '':'') (show_url u) = sch" "dropWhile (\<lambda>c. c \<noteq> CHR '':'') (show_url u) = '':'' @ ''//'' @ usr @ hu_host u @ port @ rest"
    unfolding s by (auto simp: sch_def split: http_scheme.splits)
  have us: "url_scheme (fst (strtolower sch)) = Some (hu_scheme u)"
    using ok by (auto simp: url_ok_def sch_def strtolower_def tolower_def isupper_def url_scheme_def)
  have hok: "host_ok (hu_host u)" using ok by (simp add: url_ok_def)
  have uu: "url_user (usr @ hu_host u @ port @ rest) = Some ((hu_username u, hu_password u), hu_host u @ port @ rest)"
  proof (cases "hu_username u")
    case None
    have "free_of ''@/'' (hu_host u @ port)" using p hok by (auto simp: host_ok_def free_of_def)
    then show ?thesis using url_user_none[OF _ r, of "hu_host u @ port"] None ok by (simp add: usr_def url_ok_def)
  next
    case (Some n)
    then show ?thesis using ok url_user_some[of n "hu_password u" "hu_host u @ port @ rest"]
      by (simp add: usr_def url_ok_def split: option.splits)
  qed
  have uh: "url_host (hu_host u @ port @ rest) = Some (hu_host u, port @ rest)"
    using hok r by (intro url_host_show) (auto simp: after_host_def port_def)
  have up: "url_port (port @ rest) = Some (hu_port u, rest)" unfolding port_def by (rule url_port_show[OF r])
  have c: "CHR '':'' \<in> set (show_url u)" by (simp add: s)
  have parsed: "parse_url (show_url u) = (let purl = \<lparr>hu_scheme = hu_scheme u, hu_host = hu_host u, hu_port = hu_port u, hu_path = None,
      hu_query = None, hu_fragment = None, hu_username = hu_username u, hu_password = hu_password u\<rparr>
    in if rest = [] then Some purl
       else do {
         cur \<leftarrow> eat (CHR ''/'') rest;
         let path = takeWhile (\<lambda>c. c \<noteq> CHR ''#'' \<and> c \<noteq> CHR ''?'') cur;
         let (query, cur) = url_query (dropWhile (\<lambda>c. c \<noteq> CHR ''#'' \<and> c \<noteq> CHR ''?'') cur);
         Some (purl\<lparr>hu_path := Some path, hu_query := query, hu_fragment := url_fragment cur\<rparr>) })"
    using uu uh up by (simp add: parse_url_def c sc us eat_def[of "CHR ''/''" "_ # _"] Let_def)
  show ?thesis
  proof (cases "hu_path u")
    case None
    then have "u = \<lparr>hu_scheme = hu_scheme u, hu_host = hu_host u, hu_port = hu_port u, hu_path = None,
        hu_query = None, hu_fragment = None, hu_username = hu_username u, hu_password = hu_password u\<rparr>"
      using ok by (intro http_url.equality) (simp_all add: url_ok_def)
    then show ?thesis using None by (simp add: parsed rest_def)
  next
    case (Some p)
    let ?q = "case hu_query u of None \<Rightarrow> [] | Some q \<Rightarrow> ''?'' @ q"
    let ?f = "case hu_fragment u of None \<Rightarrow> [] | Some f \<Rightarrow> ''#'' @ f"
    have "free_of ''#?'' p" using ok Some by (simp add: url_ok_def)
    then have pt: "takeWhile (\<lambda>c. c \<noteq> CHR ''#'' \<and> c \<noteq> CHR ''?'') (p @ ?q @ ?f) = p
        \<and> dropWhile (\<lambda>c. c \<noteq> CHR ''#'' \<and> c \<noteq> CHR ''?'') (p @ ?q @ ?f) = ?q @ ?f"
      by (intro take_until) (auto simp: free_of_def split: option.splits)
    have fr: "url_fragment ?f = hu_fragment u" by (auto simp: url_fragment_def split: option.splits)
    have qt: "url_query (?q @ ?f) = (hu_query u, ?f)"
    proof (cases "hu_query u")
      case None
      then show ?thesis by (auto simp: url_query_def split: option.splits)
    next
      case (Some q)
      then have "free_of ''#'' q" using ok by (simp add: url_ok_def)
      then have "takeWhile (\<lambda>c. c \<noteq> CHR ''#'') (q @ ?f) = q \<and> dropWhile (\<lambda>c. c \<noteq> CHR ''#'') (q @ ?f) = ?f"
        by (intro take_until) (auto simp: free_of_def split: option.splits)
      then show ?thesis using Some by (simp add: url_query_def)
    qed
    have rs: "rest = ''/'' @ p @ ?q @ ?f" using Some by (simp add: rest_def)
    have "u = \<lparr>hu_scheme = hu_scheme u, hu_host = hu_host u, hu_port = hu_port u, hu_path = Some p,
        hu_query = hu_query u, hu_fragment = hu_fragment u, hu_username = hu_username u, hu_password = hu_password u\<rparr>"
      using Some by (intro http_url.equality) simp_all
    then show ?thesis using pt qt fr by (simp add: parsed rs eat_def)
  qed
qed

text \<open>
  The addresses of src/webclient.c.  \<open>parse_url\<close> takes the text of an address apart into the scheme, the user, the password, the
  host, the port, the path, the query and the fragment it was put together from, whichever of them are there; a host in brackets
  may contain colons.
\<close>

theorem url_roundtrip:
  assumes "url_ok u"
  shows "parse_url (show_url u) = Some u"
  using parse_show_url[OF assms] .

definition demo_url :: http_url where
  "demo_url = \<lparr>hu_scheme = QDB, hu_host = ''[::1]'', hu_port = 4017, hu_path = Some ''store'', hu_query = Some ''quid=1'',
     hu_fragment = Some ''top'', hu_username = Some ''root'', hu_password = Some ''a:b''\<rparr>"

theorem url_roundtrip_witness:
  "show_url demo_url = ''qdb://root:a:b@[::1]:4017/store?quid=1#top'' \<and> parse_url ''qdb://root:a:b@[::1]:4017/store?quid=1#top'' = Some demo_url"
proof -
  have "free_of ''@/'' ''[::1]'' \<and> ''[::1]'' = ''['' @ ''::1'' @ '']'' \<and> free_of '']'' ''::1''" by (simp add: free_of_def)
  then have "host_ok ''[::1]''" unfolding host_ok_def by blast
  then have ok: "url_ok demo_url" by (simp add: url_ok_def demo_url_def free_of_def)
  have i: "itoa 4017 = ''4017''" by code_simp
  have "show_url demo_url = ''qdb://root:a:b@[::1]:4017/store?quid=1#top''" by (simp add: show_url_def demo_url_def i)
  then show ?thesis using url_roundtrip[OF ok] by simp
qed

section \<open>Buffers that are too small\<close>

lemma strcat_simp: "strcat s (t, cap) = (if length t + length s < cap then Some (t @ s, cap) else None)"
  by (simp add: strcat_def zassert_def)

lemma add_authorization_room: "add_authorization purl buf = Some (t, cap) \<Longrightarrow> hu_username purl \<noteq> None \<Longrightarrow> cap = length t + 2"
  by (auto simp: add_authorization_def bind_Some_iff strcat_simp Let_def split: option.splits if_splits)

lemma strcat_no_room: "cap \<le> length t + 2 \<Longrightarrow> strcat crlf (t, cap) = None"
  by (simp add: strcat_simp crlf_def)

lemma bind_none: "(\<And>x. m = Some x \<Longrightarrow> f x = None) \<Longrightarrow> m \<bind> f = None"
  by (cases m) auto

lemma user_no_request:
  assumes "hu_username purl \<noteq> None"
  shows "get_request purl custom data headonly = None" "options_request purl = None"
proof -
  have n: "add_authorization purl buf = Some x \<Longrightarrow> snd x = length (fst x) + 2" for buf x
    using add_authorization_room[of purl buf "fst x" "snd x"] assms by simp
  show "options_request purl = None"
    unfolding options_request_def using n
    by (intro bind_none) (metis option.distinct(1) order_refl prod.collapse strcat_no_room)
  have k: "strcat c (t, length t + 2) \<bind> (\<lambda>buf. strcat crlf buf \<bind> g) = None" for c t and g :: "text_buffer \<Rightarrow> text_buffer option"
  proof (rule bind_none)
    fix y assume "strcat c (t, length t + 2) = Some y"
    then have "y = (t @ c, length t + 2)" by (simp add: strcat_simp split: if_splits)
    then show "strcat crlf y \<bind> g = None" using strcat_no_room[of "length t + 2" "t @ c"] by simp
  qed
  have f: "(case (d, custom) of
         (Some d, Some c) \<Rightarrow> strcat c x \<bind> (\<lambda>buf. strcat crlf buf \<bind> (\<lambda>buf. strcat d buf))
       | (None, Some c) \<Rightarrow> strcat c x \<bind> (\<lambda>buf. strcat crlf buf)
       | (_, None) \<Rightarrow> strcat crlf x) = None" if m: "snd x = length (fst x) + 2" for x d
  proof -
    obtain t where x: "x = (t, length t + 2)" using m by (cases x) auto
    have "strcat crlf x = None" using strcat_no_room[of "length t + 2" t] x by simp
    moreover have "strcat c x \<bind> (\<lambda>buf. strcat crlf buf) = None" for c
      using k[of c t Some] x by simp
    moreover have "strcat c x \<bind> (\<lambda>buf. strcat crlf buf \<bind> (\<lambda>buf. strcat e buf)) = None" for c e
      using k[of c t "strcat e"] x by simp
    ultimately show ?thesis by (cases d; cases custom) simp_all
  qed
  show "get_request purl custom data headonly = None"
    unfolding get_request_def using n by (intro bind_none) (simp only: f bind.simps option.distinct)
qed

lemma find_location_overruns:
  "\<exists>t \<in> set ts. strstr ''location:'' (fst (strtolower t)) \<noteq> None \<Longrightarrow> find_location ts = None"
proof (induction ts)
  case (Cons t ts)
  show ?case
  proof (cases "strstr ''location:'' (fst (strtolower t)) \<noteq> None")
    case True
    have "strstr ''location:'' [] = None" by (subst strstr.simps) simp
    then have "t \<noteq> []" using True by (auto simp: strtolower_def)
    let ?l = "tl (dropWhile (\<lambda>c. c \<noteq> CHR '':'') t)"
    have "length ?l < length t"
      unfolding length_tl using \<open>t \<noteq> []\<close> length_dropWhile_le[of "\<lambda>c. c \<noteq> CHR '':''" t] length_greater_0_conv[of t] by linarith
    moreover have "length (if char_at ?l 0 = CHR '' '' then tl ?l else ?l) \<le> length ?l" by (simp del: length_tl add: le_diff_conv length_tl[of "tl _"])
    ultimately have "length (if char_at ?l 0 = CHR '' '' then tl ?l else ?l) < length t" by linarith
    then show ?thesis using True by (simp add: Let_def zassert_def)
  qed (use Cons in auto)
qed simp

lemma redirect_overruns:
  assumes "300 < hr_status hresp" "hr_status hresp < 400"
    "\<exists>t \<in> set (strtok_all crlf [] (hr_response_headers hresp)). strstr ''location:'' (fst (strtolower t)) \<noteq> None"
  shows "handle_redirect hresp callbk = None"
  using assms find_location_overruns by (simp add: handle_redirect_def redirect_target_def)

text \<open>
  The buffers of src/webclient.c that are too small.  For an address with a user no request can be written without leaving the
  buffer that was enlarged for its header (\<open>http_get\<close>, \<open>http_options\<close>), and no redirection that names its target can be followed without
  writing behind the array for the address (\<open>handle_redirect\<close>): so \<open>http_get\<close> has no result in either case, whatever the network does.
\<close>

theorem client_overruns:
  assumes "parse_url url = Some purl"
    and "hu_username purl \<noteq> None
      \<or> (\<exists>req hresp. get_request purl custom data headonly = Some req \<and> http_req net req purl = Some (Some hresp)
           \<and> 300 < hr_status hresp \<and> hr_status hresp < 400
           \<and> (\<exists>t \<in> set (strtok_all crlf [] (hr_response_headers hresp)). strstr ''location:'' (fst (strtolower t)) \<noteq> None))"
  shows "http_get net url custom data headonly = None"
proof (cases "hu_username purl = None")
  case False
  then show ?thesis using assms(1) user_no_request(1)[of purl custom data headonly] by (simp add: http_get.simps[of net url])
next
  case True
  then obtain req hresp where r: "get_request purl custom data headonly = Some req" "http_req net req purl = Some (Some hresp)"
    "300 < hr_status hresp" "hr_status hresp < 400"
    "\<exists>t \<in> set (strtok_all crlf [] (hr_response_headers hresp)). strstr ''location:'' (fst (strtolower t)) \<noteq> None"
    using assms(2) by blast
  have "redirect_target hresp = None" using r(3,4) find_location_overruns[OF r(5)] by (simp add: redirect_target_def)
  then show ?thesis using assms(1) r(1,2) by (simp add: http_get.simps[of net url])
qed

theorem client_overruns_witness:
  "http_get (\<lambda>host port request. Some ''HTTP/1.1 200 OK'') ''http://root@host/'' None None False = None"
proof -
  have "parse_url ''http://root@host/'' = Some \<lparr>hu_scheme = HTTP, hu_host = ''host'', hu_port = 80, hu_path = Some [], hu_query = None,
     hu_fragment = None, hu_username = Some ''root'', hu_password = None\<rparr>" by code_simp
  then show ?thesis by (rule client_overruns) simp
qed

section \<open>The answer of the server\<close>

text \<open>The empty line behind the lines of a header.\<close>

lemma strstr_crlf: "CR \<notin> set l \<Longrightarrow> strstr crlf (l @ crlf @ r) = Some (crlf @ r)"
proof (induction l)
  case Nil
  then show ?case using strstr_here[of crlf r] by simp
next
  case (Cons c l)
  have "take (length crlf) (c # l @ crlf @ r) \<noteq> crlf" using Cons.prems by (auto simp: crlf_def)
  then show ?case using Cons by (subst strstr.simps) simp
qed

lemma strstr_step: "take (length pat) (c # s) \<noteq> pat \<Longrightarrow> strstr pat (c # s) = strstr pat s"
  by (subst strstr.simps) simp

lemma strstr_empty_line: "CR \<notin> set l \<Longrightarrow> strstr (crlf @ crlf) (l @ crlf @ crlf @ r) = Some (crlf @ crlf @ r)"
proof (induction l)
  case Nil
  show ?case using strstr_here[of "crlf @ crlf" r] by simp
next
  case (Cons c l)
  have "take (length (crlf @ crlf)) (c # l @ crlf @ crlf @ r) \<noteq> crlf @ crlf" using Cons.prems by (auto simp: crlf_def)
  then show ?case using Cons by (simp add: strstr_step)
qed

lemma strstr_next_line:
  "CR \<notin> set l \<Longrightarrow> l' \<noteq> [] \<Longrightarrow> CR \<notin> set l' \<Longrightarrow> strstr (crlf @ crlf) (l @ crlf @ l' @ r) = strstr (crlf @ crlf) (l' @ r)"
proof (induction l)
  case Nil
  then show ?case by (cases l') (auto simp: crlf_def strstr_step)
next
  case (Cons c l)
  have "take (length (crlf @ crlf)) (c # l @ crlf @ l' @ r) \<noteq> crlf @ crlf" using Cons.prems by (auto simp: crlf_def)
  then show ?case using Cons by (simp add: strstr_step)
qed

definition clean :: "string \<Rightarrow> bool" where
  "clean l \<longleftrightarrow> l \<noteq> [] \<and> CR \<notin> set l"

lemma strstr_body: "clean l \<Longrightarrow> list_all clean ls \<Longrightarrow> strstr (crlf @ crlf) (l @ crlf @ with_ends ls @ crlf @ r) = Some (crlf @ crlf @ r)"
proof (induction ls arbitrary: l)
  case Nil
  then show ?case using strstr_empty_line[of l r] by (simp add: clean_def)
next
  case (Cons l' ls)
  then show ?case using strstr_next_line[of l l' "crlf @ with_ends ls @ crlf @ r"] by (simp add: clean_def)
qed

lemma with_ends_append: "with_ends (as @ bs) = with_ends as @ with_ends bs"
  by (simp add: with_ends_def)

lemma strip_end: "ls \<noteq> [] \<Longrightarrow> \<exists>t. with_ends ls = t @ crlf"
  by (cases ls rule: rev_cases) (auto simp: with_ends_append)

text \<open>The client takes an answer apart into its status, its header and what follows.\<close>

lemma parse_response_lines:
  assumes l: "clean l" "list_all clean ls" "ls \<noteq> []"
    and st: "l = ver @ '' '' @ d @ '' '' @ reason" "CHR '' '' \<notin> set ver" "length d = 3"
  shows "\<exists>hs. with_ends ls = hs @ crlf
    \<and> parse_response (l @ crlf @ with_ends ls @ crlf @ body) = Some (word_of_int (sint (antoi_loop 0 d)), hs, body)"
proof -
  obtain hs where hs: "with_ends ls = hs @ crlf" using strip_end[OF l(3)] by blast
  define R B T H where "R = l @ crlf @ with_ends ls @ crlf @ body" and "B = crlf @ crlf @ body" and "T = l @ crlf @ hs" and "H = crlf @ hs"
  note defs = R_def B_def T_def H_def
  have b: "strstr (crlf @ crlf) R = Some B" unfolding defs by (rule strstr_body[OF l(1,2)])
  have t: "take (length R - length B) R = T" unfolding defs hs by simp
  have h: "strstr crlf T = Some H" unfolding defs using l(1) by (intro strstr_crlf) (simp add: clean_def)
  have n: "take (length T - length H) T = l" "drop 2 H = hs" "drop 4 B = body" by (simp_all add: defs crlf_def)
  have w: "dropWhile (\<lambda>c. c \<noteq> CHR '' '') l = CHR '' '' # d @ '' '' @ reason" using st(1,2) by (simp add: dropWhile_append)
  have a: "antoi (d @ x) 3 = Some (sint (antoi_loop 0 d))" for x using st(3) by (simp add: antoi_def)
  have "parse_response R = Some (word_of_int (sint (antoi_loop 0 d)), hs, body)"
    using a[of "'' '' @ reason @ [NUL, LF] @ hs @ [NUL, LF, CR, LF]"] unfolding parse_response_def b bind.simps Let_def t h n w by simp
  then show ?thesis using hs by (auto simp: R_def)
qed

text \<open>What the server answers, with headers of whole lines.\<close>

definition status_code :: "http_status \<Rightarrow> u32" where
  "status_code status = (case status of HTTP_OK \<Rightarrow> 200 | HTTP_NOT_FOUND \<Rightarrow> 404)"

definition digits_status :: "http_status \<Rightarrow> string" where
  "digits_status status = (case status of HTTP_OK \<Rightarrow> ''200'' | HTTP_NOT_FOUND \<Rightarrow> ''404'')"

lemma itoa_clean: "set (itoa (int n)) \<inter> {CR, NUL} = {}"
  using itoa_digits_props[of n] by (auto simp: itoa_def list_all_iff isdigit_def)

lemma version_clean: "set get_version_string \<inter> {CR, NUL} = {}"
  using itoa_clean[of 0] itoa_clean[of 9] itoa_clean[of 41] by (auto simp: get_version_string_def fit_def dest: in_set_takeD)

lemma client_reads_server:
  assumes "list_all clean hs" "CR \<notin> set squid"
  shows "\<exists>h. parse_response (response_head (map (\<lambda>l. l @ crlf) hs) (get_http_status status) len squid @ body)
    = Some (status_code status, h, body)"
proof -
  define l where "l = ''HTTP/1.1 '' @ get_http_status status"
  define ls where "ls = [''Server: Quantica/'' @ get_version_string @ '' (WebAPI)'', ''Content-Type: application/json'',
    ''Content-Length: '' @ itoa (int len)] @ hs @ [''Access-Control-Allow-Origin: *'',
    ''Access-Control-Allow-Methods: GET,POST,HEAD,OPTIONS'', ''X-QUID: '' @ squid]"
  have r: "response_head (map (\<lambda>l. l @ crlf) hs) (get_http_status status) len squid @ body = l @ crlf @ with_ends ls @ crlf @ body"
    by (simp add: response_head_def l_def ls_def with_ends_append) (simp add: with_ends_def)
  have v: "CR \<notin> set get_version_string" using version_clean by auto
  have c: "clean l" "list_all clean ls" "ls \<noteq> []"
    using assms v itoa_clean by (auto simp: l_def ls_def clean_def get_http_status_def fit_def split: http_status.splits)
  obtain reason where s: "l = ''HTTP/1.1'' @ '' '' @ digits_status status @ '' '' @ reason"
    by (cases status) (auto simp: l_def get_http_status_def fit_def digits_status_def)
  have "antoi_loop 0 (digits_status status) = status_code status"
    by (cases status) (simp_all add: digits_status_def status_code_def)
  then show ?thesis
    unfolding r using parse_response_lines[OF c s, of body] by (auto simp: digits_status_def split: http_status.splits)
qed

section \<open>Client and server\<close>

lemma hex_pad_clean: "set (hex_pad k n) \<inter> {CR, NUL} = {}"
proof (induction k n rule: hex_pad.induct)
  case (2 k n)
  have "n mod 16 < 16" by simp
  then have "hex_digit (n mod 16) \<in> set ''0123456789abcdef''" unfolding hex_digit_def by (intro nth_mem) simp
  then have "hex_digit (n mod 16) \<notin> {CR, NUL}" by auto
  then show ?case using 2 by auto
qed simp

lemma quid_clean: "quid_generate c = Some (squid, c') \<Longrightarrow> set squid \<inter> {CR, NUL} = {}"
  using hex_pad_clean by (fastforce simp: quid_generate_def bind_Some_iff quidtostr_def)

text \<open>The lines of a request of the client that the server does not keep.\<close>

definition client_lines :: "string \<Rightarrow> string list" where
  "client_lines host = [''Host: '' @ host, ''Accept: */*'']"

lemma small_letters: "tolower (CHR ''H'') = CHR ''h''" "tolower (CHR ''A'') = CHR ''a''" "tolower (CHR ''o'') = CHR ''o''"
  "tolower (CHR ''s'') = CHR ''s''" "tolower (CHR ''t'') = CHR ''t''" "tolower (CHR ''c'') = CHR ''c''" "tolower (CHR ''e'') = CHR ''e''"
  "tolower (CHR ''p'') = CHR ''p''"
  by code_simp+

lemma client_lines_skipped:
  assumes "\<forall>c \<in> set host. plain_char c" "length host < 500"
  shows "list_all plain_line (client_lines host)"
    "header_lines (map (\<lambda>l. l @ crlf) (client_lines host)) hdr = Some (Inr hdr)"
proof -
  note n = not_plain[THEN plain_not[OF assms(1)]]
  show "list_all plain_line (client_lines host)" using n assms(2) by (simp add: client_lines_def plain_line_def)
  show "header_lines (map (\<lambda>l. l @ crlf) (client_lines host)) hdr = Some (Inr hdr)"
    using n by (simp add: client_lines_def header_line_def strtolower_def small_letters Let_def)
qed

definition plain_url :: "string \<Rightarrow> string \<Rightarrow> http_url" where
  "plain_url host d = \<lparr>hu_scheme = HTTP, hu_host = host, hu_port = 80, hu_path = Some ''sha1'', hu_query = Some (''data='' @ d),
     hu_fragment = None, hu_username = None, hu_password = None\<rparr>"

lemma plain_url_parsed:
  assumes "\<forall>c \<in> set host. plain_char c" "host \<noteq> []" "\<forall>c \<in> set d. plain_char c"
  shows "parse_url (''http://'' @ host @ ''/sha1?data='' @ d) = Some (plain_url host d)"
proof -
  have p: "\<not> plain_char (CHR ''@'')" "\<not> plain_char (CHR ''['')" "\<not> plain_char (CHR ''#'')"
    by (simp_all add: plain_char_def isalpha_def isdigit_def isupper_def islower_def)
  note n = not_plain[THEN plain_not[OF assms(1)]] p[THEN plain_not[OF assms(1)]] p[THEN plain_not[OF assms(3)]]
  have "url_ok (plain_url host d)" using n assms(2) by (simp add: url_ok_def plain_url_def host_ok_def free_of_def)
  moreover have "show_url (plain_url host d) = ''http://'' @ host @ ''/sha1?data='' @ d" by (simp add: show_url_def plain_url_def)
  ultimately show ?thesis using parse_show_url by metis
qed

lemma plain_request:
  assumes "length host < 500" "length d \<le> 100"
  shows "get_request (plain_url host d) None None False
    = Some (with_ends (get_line ''/sha1'' (''data='' @ d) # client_lines host) @ crlf)"
  using assms by (simp add: get_request_def sprintf_to_def get_lines_def plain_url_def url_target_def add_authorization_def strcat_simp
    zassert_def crlf_def get_line_def client_lines_def)

text \<open>
  C33: Client and server together (src/webclient.c, src/webapi.c, src/sha1.c).  \<open>http_get\<close> of the address of \<open>/sha1?data=...\<close>, for at most
  100 letters and digits of data at a host whose name is fewer than 500 letters and digits, over a network that hands the request to
  \<open>handle_request\<close> and its answer back (the peer's address is a text of at most 45 characters, the server has a key for the answer),
  returns status 200 and, as the body, the answer with the SHA-1 of the data: the request that the client writes is the one the
  server reads, and the other way round.
\<close>

theorem client_server_correct:
  assumes "length peer \<le> 45" "length d \<le> 100" "\<forall>c \<in> set d. plain_char c" "length (sh_block (x_sha (ho_scratch h))) = 64"
    and "\<forall>c \<in> set host. plain_char c" "host \<noteq> []" "length host < 500"
    and "quid_generate ((sv_core v)\<lparr>c_control := error_clear (sv_base v)\<rparr>) = Some (squid, c)"
  shows "\<exists>sha resp. sh_digest sha = sha1_digest (bytes d) \<and> hr_status resp = 200 \<and> hr_body resp = sha1_answer sha @ crlf
    \<and> http_get (\<lambda>host port request. map_option fst (handle_request h peer request v))
        (''http://'' @ host @ ''/sha1?data='' @ d) None None False = Some (Some resp)"
proof -
  let ?net = "\<lambda>host port request. map_option fst (handle_request h peer request v)"
  let ?req = "with_ends (get_line ''/sha1'' (''data='' @ d) # client_lines host) @ crlf"
  obtain sha v' where s: "sh_digest sha = sha1_digest (bytes d)"
    "handle_request h peer ?req v = Some (response_head [] ''200 OK'' (length (sha1_answer sha) + 2) squid @ sha1_answer sha @ crlf, v')"
    using sha1_request[OF assms(1-4) client_lines_skipped[OF assms(5,7)] assms(8)] by blast
  let ?out = "response_head [] ''200 OK'' (length (sha1_answer sha) + 2) squid @ sha1_answer sha @ crlf"
  have q: "CR \<notin> set squid" "NUL \<notin> set squid" using quid_clean[OF assms(8)] by auto
  obtain hs where p: "parse_response ?out = Some (200, hs, sha1_answer sha @ crlf)"
    using client_reads_server[of "[]" squid HTTP_OK "length (sha1_answer sha) + 2" "sha1_answer sha @ crlf"] q(1)
    by (auto simp: get_http_status_def fit_def status_code_def)
  have "NUL \<notin> set (sha1_strsum sha)" using hex_pad_clean by (fastforce simp: sha1_strsum_def)
  then have "NUL \<notin> set (sha1_answer sha)"
    by (simp add: sha1_answer_def outcome_def text_member_def str_bool_def)
  then have "NUL \<notin> set ?out" using q(2) itoa_clean[of "length (sha1_answer sha) + 2"] version_clean
    by (auto simp: response_head_def crlf_def)
  then have t: "takeWhile (\<lambda>c. c \<noteq> NUL) ?out = ?out" by (auto simp: takeWhile_eq_all_conv)
  have e: "?out \<noteq> []" by (simp add: response_head_def)
  define out req where "out = ?out" and "req = ?req"
  note o = s(2)[folded out_def req_def] t[folded out_def] p[folded out_def] e[folded out_def]
  have "plain_host host = host"
    using assms(5,6) by (cases host) (auto simp: plain_host_def plain_char_def isalpha_def isdigit_def isupper_def islower_def)
  then have u: "(plain_url host d)\<lparr>hu_host := plain_host (hu_host (plain_url host d))\<rparr> = plain_url host d" "hu_host (plain_url host d) = host"
    by (simp_all add: plain_url_def)
  define resp where "resp = \<lparr>hr_uri = plain_url host d, hr_body = sha1_answer sha @ crlf, hr_status = 200, hr_request_headers = req,
    hr_response_headers = hs\<rparr>"
  have r: "http_req ?net req (plain_url host d) = Some (Some resp)"
    unfolding http_req_def u(1) Let_def by (simp add: o resp_def)
  have "http_get ?net (''http://'' @ host @ ''/sha1?data='' @ d) None None False = Some (Some resp)"
    unfolding http_get.simps[of _ "''http://'' @ host @ ''/sha1?data='' @ d"] plain_url_parsed[OF assms(5,6,3)] option.case
      plain_request[OF assms(7,2)] bind.simps req_def[symmetric] r
    by (simp add: redirect_target_def resp_def)
  then show ?thesis using s(1) by (auto simp: resp_def)
qed

theorem client_server_correct_witness:
  "\<exists>(sha :: sha) resp. sh_digest sha = sha1_digest (bytes ''abc'') \<and> hr_status resp = 200 \<and> hr_body resp = sha1_answer sha @ crlf
    \<and> http_get (\<lambda>host port request. map_option fst (handle_request demo_host ''::1'' request demo_server))
        ''http://localhost/sha1?data=abc'' None None False = Some (Some resp)"
proof -
  obtain squid c where g: "quid_generate ((sv_core demo_server)\<lparr>c_control := error_clear (sv_base demo_server)\<rparr>) = Some (squid, c)"
    using demo_server_quid by blast
  have p: "\<forall>c \<in> set ''abc''. plain_char c" "\<forall>c \<in> set ''localhost''. plain_char c"
    by (simp_all add: plain_char_def isalpha_def isupper_def islower_def)
  have n: "length ''::1'' \<le> 45" "length ''abc'' \<le> 100" "''localhost'' \<noteq> []" "length ''localhost'' < 500" by simp_all
  show ?thesis using client_server_correct[OF n(1,2) p(1) demo_host_block p(2) n(3,4) g] by simp
qed

end
