(* ===== verification/Spec2Isabelle.thy ===== *)
theory Spec2Isabelle imports
  Engine_Spec Endian Crc Jenhash Base64 Containers Hashtable Json_Grammar Marshall_Text Index_List Btree_Insert Slay_Spec Index_Spec Jwt Aes Arc4random Sql Webclient_Spec
begin

text \<open>
  \<^bold>\<open>A verification development for Quantica\<close>, an object database with a web interface, written in C (src/src, headers in
  src/include).  Clients send HTTP requests; the server (webapi.c) turns each one into an operation of the core (core.c), which
  reads and writes JSON texts (dict.c, marshall.c), stores them in a compact byte format (slay_marshall.c) as data blocks, and finds
  them again through the on-disk search tree of the engine (engine.c).  Aliases, indexes and the version history are chains of lists
  beside this tree.  All of them take space from page files (pager.c), whose number and roots the control file records (base.c).  This
  theory imports the others and holds this overview; each theory opens with a text of its own.

  \<^bold>\<open>Conventions\<close> (Prelude).  A C struct is a \<open>record\<close>, an enum a \<open>datatype\<close>, an integer of w bits a \<open>w word\<close>; a C \<open>int\<close>
  whose overflow matters is an \<open>int\<close> with its bound written out (\<open>Base64.to_int\<close>), and sizes that cannot reach their bound in
  an object that fits into memory are \<open>nat\<close>.  A string is a list of characters; where code works in a buffer of fixed size, the
  buffer is a list of this size.  Global and static state (the control structure \<open>base_t\<close>, the engine, static round keys) is passed
  explicitly.  The result \<open>None\<close> of a model means that the C call does not come back or is undefined: a failing \<open>zassert\<close>, an access
  through a null pointer or outside an object, an endless loop, missing fuel.  A pointer that may be null is an \<open>option\<close> of its own, and
  errors that the code reports are recorded in the state (\<open>iserror\<close>, with code and text) or returned as a status.

  \<^bold>\<open>Storage.\<close>
  \<^item> Quid: keys of records (quid.c): their order, text, generation from the clock and random numbers.
  \<^item> Layout, Base: the packed structs of the files and the control file (base.c, diagnose.c, error.c).
  \<^item> Pager: page files and allocation (pager.c).  Store abstracts the pages to one store of objects at database offsets
    (\<open>cell_at\<close>, \<open>write_cell\<close>), the view of all later theories, and has the locales \<open>chunk_chain\<close> and \<open>chain_reader\<close> for the
    linked lists of objects that history, aliases and index lists are.
  \<^item> Engine: tables, cache, lookup, insertion with splitting, deletion with rebalancing, free lists, data blocks, purge, rebuild,
    metadata (engine.c).  Engine_Tree gives the tables their meaning as a search tree, Engine_Spec proves lookup, change of metadata and
    deletion against the map from keys to metadata and data offset, and provides the contract \<open>record_map\<close>.
  \<^item> History, Alias, Index_List: version chains (history.c), names (alias.c), the list of indexes (index_list.c).
  \<^item> Btree, Btree_Spec, Btree_Insert: the trees of secondary indexes (btree.c), their meaning as sorted sequences of entries,
    lookup and insertion.  Index, Index_Spec: the indexes themselves (index.c).
  \<^item> Slay, Slay_Spec: the byte format of stored data (slay_marshall.c).

  \<^bold>\<open>Data.\<close>
  \<^item> Json_Check, Json_Grammar: the automaton that checks JSON texts (json_check.c), and the grammar it decides.
  \<^item> Dict, Marshall, Marshall_Text: the tokenizer (dict.c), trees of data and their operations (marshall.c), reading and writing
    them as JSON or comma-separated values (dict_marshall.c, csv.c, csv_marshall.c).
  \<^item> CString, Containers, Hashtable: string functions (strlcpy.c, strlcat.c, strsep.c, strtoken.c, stresc.c, itoa.c, antoi.c, common.c),
    stack.c, vector.c, hashtable.c.
  \<^item> Sql: spreading out, tokenizing and executing queries (sql.c).

  \<^bold>\<open>Operations and network.\<close>
  \<^item> Core, Database, Database_Items: the operations of core.c and bootstrap.c, one definition for each.
  \<^item> Jwt: the digests offered to clients and JSON web tokens (core.c, jwt.c).
  \<^item> Http, Webapi, Webapi_Spec: routes, handlers, requests and answers (webapi.c).  Webclient, Webclient_Spec: the client (webclient.c).

  \<^bold>\<open>Codes and digests.\<close>
  \<^item> Endian, Crc, Jenhash, Base64: endian.c, crc32.c, crc64.c, jenhash.c, djb2a_hash.c, base64.c.
  \<^item> Block_Hash, Sha1, Sha2, Md5, Hmac, Aes, Arc4random: sha1.c, sha2.c, md5.c, hmac.c, aes.c, arc4random.c.  Each digest is proved
    against the padded message of its standard; what they share is the locale \<open>block_hash\<close>.

  \<^bold>\<open>Interfaces.\<close>  Interfaces holds \<open>record_map\<close> (a collection whose keys are present), provided by the engine, and \<open>fresh_map\<close> (insertion of
  absent keys), provided by the hash table and the aliases.  Further locales are \<open>double_ended\<close> (Containers), \<open>crc_lookup\<close> (both checksums),
  \<open>stored_integer\<close> (Endian, for three widths), \<open>digest_functions\<close> (Hmac, for four digests).  Every locale is interpreted on the
  definitions of the code in the theory of the component that provides it.
\<close>

text \<open>
  \<^bold>\<open>What is proved.\<close>  The properties carry the numbers C1 to C40, the claim standing in front of the theorem.
  \<^item> Data: the JSON checker decides its grammar (C1); copying keeps a tree and its text, and writing stays in the buffers (C2); which elements
    separation misses (C3); round trip of the byte format and its refusal of empty composites (C16, C17).
  \<^item> Storage: history (C4, C5); the engine's index as a map (C6 to C8); aliases as a map, their listing, the endless rebuild (C9 to C11);
    what deleting an index destroys (C12); lookup, insertion and a whole session of the index trees (C13 to C15) and the index on top of
    them (C18).
  \<^item> Codes: web tokens (C19), digests (C20 to C23), AES (C24, C25), the random generator's table (C26), checksums (C27 to C29), base64 (C30).
  \<^item> Strings and containers: strlcpy, strtoken (C31, C32), the hash table with its growth (C40).
  \<^item> Network: client and server together (C33), well-formed answers (C34), the routes of records (C35), the array of the log
    line (C36), percent decoding (C37).
  \<^item> Queries: the spreading out (C38), the stack behind the execution (C39).

  Several of them state defects: the repeated version number (C5), the endless loop of \<open>alias_rebuild\<close> (C10), the
  listing of names of 48 bytes (C11), the wiped neighbour in the list of indexes (C12), the elements that separation misses (C3), aborts for
  empty composites (C17), the null pointer for a token with an empty payload (C19), the partial block of AES (C25), the overflow of the
  encoded length (C30), the open quote of \<open>strtoken\<close> (C32), the overrun log line (C36), the buffer of \<open>explode_sql\<close> (C38), the
  uninitialised slots of the stack (C39), the order of equal keys after growth (C40).  Theorem \<open>client_overruns\<close> shows two
  buffers of the client that are too small.

  \<^bold>\<open>Restrictions.\<close>
  \<^item> Engine: \<open>flush_table\<close> caches a table under its position within the page, not under its database offset.  A lookup
    is right whenever the cache is right about the tables of the tree (\<open>cache_ok\<close>).  That a change keeps it so needs the tables to lie \<open>apart\<close>: none at
    the beginning of a page, none at a position in the first page that is also the position of another table within its page.  Lemma
    \<open>one_page_apart\<close> shows it for bases of one page, lemma \<open>flush_table_displaces\<close> what happens otherwise.
  \<^item> Insertion into the engine's tree, purge and rebuild are modelled, but have no property yet; deletion from index trees likewise.
  \<^item> Index trees and the chains of lists: room in the current page is a hypothesis where a property allocates.

  \<^bold>\<open>Fuel.\<close>  The recursive changes of the engine's tree (insertion, removal with rebalancing, purge, copying) take one unit per level, and
  \<open>slay_get\<close> one per key that it follows into another record, since a cycle of keys is followed for ever; the operations of core.c pass the
  number on as their argument \<open>n\<close>, and the properties hold for every such number.  \<open>hashtable_put\<close> has a nesting of two, which
  \<open>hashtable_put_ok\<close> proves to be enough.  The loops of the tokenizer, of decoding and of separation get the length of their input plus one: each
  round consumes a character, descends into a token or moves on by an element.  Other recursion is defined by \<open>fun\<close> or \<open>function\<close> with
  a proof of termination, and a loop that need not end by \<open>partial_function (option)\<close>, so that C10 can speak of not returning and the other
  properties prove that a result exists.

  \<^bold>\<open>Parameters.\<close>  The clock, random numbers, the content of uninitialised buffers (\<open>scratch\<close>), formatted dates, the peer's address and the network
  are arguments; numbers are read in decimal.  Reads and writes of files succeed, allocation succeeds.

  \<^bold>\<open>Not modelled.\<close>  The log, terminal output, host name, resolver and daemon (log.c, zprintf.c, hexdump.c, host.c, resolv.c, main.c); sockets and
  threads of \<open>start_webapi\<close>; the ownership tree of the allocator (zmalloc.c), of which only the sizes are observed; \<open>engine_traverse\<close> and the other
  debug dumps; texts of sizes in floating point (\<open>unit_bytes\<close>, \<open>get_pager_alloc_size\<close>, \<open>get_total_disk_size\<close>); the big-endian code
  of crc64.c; the parser of sql.c, which the source disables by \<open>#if 0\<close>; the utilities of src/util and the tests of src/test.
\<close>

end
